(* ===== verification/Prelude.thy ===== *)
theory Prelude
  imports Main "HOL-Library.Word"
begin

text \<open>
  Shared vocabulary of the development: the widths the C++ code uses, the fact collections
  that the component theories extend, the generic lemmas on lists and words that several
  components need, and the interface of a machine that is driven by a sequence of events.

  Conventions. \<open>std::uint8_t\<close> to \<open>std::uint64_t\<close> are words of their width, so that \<open>+\<close>, \<open>-\<close>
  and \<open>*\<close> wrap as in C++. \<open>std::size_t\<close> values that count the bytes of an object in memory are
  \<open>nat\<close>: no object reaches \<open>2 ^ 64\<close> bytes. A byte buffer is a list of bytes.
\<close>

unbundle bit_operations_syntax

type_synonym u8 = "8 word"
type_synonym u16 = "16 word"
type_synonym u32 = "32 word"
type_synonym u64 = "64 word"
type_synonym bytes = "u8 list"


named_theorems codec_simps \<open>bit-level characterisations of the signal codec\<close>
named_theorems frame_simps \<open>unfolding rules for frames and identifiers\<close>
named_theorems isotp_simps \<open>unfolding rules for the ISO-TP state machines\<close>
named_theorems bus_simps \<open>unfolding rules for the virtual medium\<close>

subsection \<open>Lists\<close>

text \<open>\<open>std::memcpy\<close> of \<open>n\<close> bytes to the start of a buffer.\<close>

definition memcpy_into :: "'a list \<Rightarrow> 'a list \<Rightarrow> nat \<Rightarrow> 'a list" where
  "memcpy_into dst src n = take n src @ drop n dst"

lemma length_memcpy_into [simp]:
  "n \<le> length src \<Longrightarrow> n \<le> length dst \<Longrightarrow> length (memcpy_into dst src n) = length dst"
  by (simp add: memcpy_into_def)

lemma take_memcpy_into [simp]:
  "n \<le> length src \<Longrightarrow> take n (memcpy_into dst src n) = take n src"
  by (simp add: memcpy_into_def)

lemma foldl_upt_Suc: "foldl f a [0..<Suc n] = f (foldl f a [0..<n]) n"
  by simp

lemma list_update_map_upt:
  "n \<le> length xs \<Longrightarrow> length (foldl (\<lambda>ys i. ys[g i := h i ys]) xs is) = length xs"
  by (induction "is" arbitrary: xs) auto

subsection \<open>Words\<close>

lemma bit_u8_ge [simp]: "8 \<le> n \<Longrightarrow> \<not> bit (w :: u8) n"
  using bit_imp_le_length [of w n] by auto

lemma bit_u64_ge [simp]: "64 \<le> n \<Longrightarrow> \<not> bit (w :: u64) n"
  using bit_imp_le_length [of w n] by auto

lemma bit_u8_u64 [simp]: "bit (ucast (w :: u8) :: u64) n \<longleftrightarrow> bit w n"
  by (cases "n < 8") (auto simp: bit_simps)

lemma bit_u64_u8 [simp]: "bit (ucast (w :: u64) :: u8) n \<longleftrightarrow> n < 8 \<and> bit w n"
  by (auto simp: bit_simps)

lemma div8_add: "(8 * a + b) div 8 = a + b div (8::nat)"
  by simp

lemma mod8_add: "(8 * a + b) mod 8 = b mod (8::nat)"
  by simp

lemma rev_split8:
  assumes "m < 8 * N"
  shows "8 * N - 1 - m = 8 * (N - 1 - m div 8) + (7 - m mod (8::nat))"
proof -
  have "m = 8 * (m div 8) + m mod 8" and "m mod 8 < 8" by simp_all
  then show ?thesis using assms by linarith
qed

lemma rev_div8: "m < 8 * N \<Longrightarrow> (8 * N - 1 - m) div 8 = N - 1 - m div (8::nat)"
  by (subst rev_split8, assumption) (subst div8_add, simp)

lemma rev_mod8: "m < 8 * N \<Longrightarrow> 7 - (8 * N - 1 - m) mod 8 = m mod (8::nat)"
proof -
  assume "m < 8 * N"
  then have "(8 * N - 1 - m) mod 8 = (7 - m mod 8) mod 8"
    by (subst rev_split8, assumption) (rule mod8_add)
  moreover have "m mod 8 < 8" by simp
  ultimately show ?thesis by (simp del: mod_less_divisor)
qed

lemma unat_less_exp: "unat (w :: 'a::len word) < 2 ^ LENGTH('a)"
  by (rule unsigned_less)

lemma unat_ucast_small:
  "unat w < 2 ^ LENGTH('b::len) \<Longrightarrow> unat (ucast (w :: 'a::len word) :: 'b word) = unat w"
  by (simp add: unsigned_ucast_eq take_bit_nat_eq_self)

lemma unat_min: "unat (min a b :: 'a::len word) = min (unat a) (unat b)"
  by (simp add: min_def word_le_nat_alt)

lemma unat_max: "unat (max a b :: 'a::len word) = max (unat a) (unat b)"
  by (simp add: max_def word_le_nat_alt)

lemma unat_add_wrap: "unat (a + b :: 'a::len word) =
    (if unat a + unat b < 2 ^ LENGTH('a) then unat a + unat b else unat a + unat b - 2 ^ LENGTH('a))"
  by (simp add: unat_plus_if')

lemma take_bit_word_small: "unat (v :: 'a::len word) < 2 ^ n \<Longrightarrow> take_bit n v = v"
  by (simp add: word_unat_eq_iff unsigned_take_bit_eq take_bit_nat_eq_self)

lemma unat_take_bit_less: "unat (take_bit n (v :: 'a::len word)) < 2 ^ n"
  by (simp add: unsigned_take_bit_eq)

lemma not_bit_small: "unat (v :: 'a::len word) < 2 ^ n \<Longrightarrow> n \<le> k \<Longrightarrow> \<not> bit v k"
  using bit_take_bit_iff [of n v k] take_bit_word_small [of v n] by auto

lemma or_shift_add:
  assumes "(b :: nat) < 2 ^ n"
  shows "push_bit n a OR b = a * 2 ^ n + b"
proof -
  have b: "b = take_bit n b" using assms by (simp add: take_bit_nat_eq_self)
  have "push_bit n a AND take_bit n b = 0" by (auto simp: bit_eq_iff bit_simps)
  then have "push_bit n a + b = push_bit n a OR b"
    using b by (metis disjunctive_add_eq_or)
  then show ?thesis by (simp add: push_bit_eq_mult)
qed

lemma unat_push_bit_small:
  "unat (w :: 'a::len word) * 2 ^ n < 2 ^ LENGTH('a) \<Longrightarrow> unat (push_bit n w) = unat w * 2 ^ n"
  unfolding unsigned_push_bit_eq by (simp add: push_bit_eq_mult take_bit_nat_eq_self)

lemma unat_ucast_up: "LENGTH('a::len) \<le> LENGTH('b::len) \<Longrightarrow> unat (ucast (w :: 'a word) :: 'b word) = unat w"
  by (simp add: unsigned_ucast_eq take_bit_nat_eq_self order.strict_trans2 [OF unsigned_less])

lemma lex_key_less:
  fixes a b c d e f :: nat
  assumes "c < n" and "d < n"
  shows "a * n + c < b * n + d \<longleftrightarrow> a < b \<or> a = b \<and> c < d"
proof (cases a b rule: linorder_cases)
  case less
  then have "Suc a * n \<le> b * n" by (intro mult_le_mono1) simp
  then show ?thesis using less assms by simp
next
  case greater
  then have "Suc b * n \<le> a * n" by (intro mult_le_mono1) simp
  then show ?thesis using greater assms by simp
qed simp

subsection \<open>Machines driven by events\<close>

text \<open>
  Every stateful component of canforge is a passive object: it changes only when one of its
  operations is called. The calls are the events, \<open>step\<close> is the object's reaction and \<open>inv\<close>
  what every reaction keeps; the locale lifts a per-call invariant to every call sequence.
\<close>

locale event_machine =
  fixes step :: "'s \<Rightarrow> 'e \<Rightarrow> 's"
    and inv :: "'s \<Rightarrow> bool"
  assumes step_inv: "inv s \<Longrightarrow> inv (step s e)"
begin

lemma run_inv: "inv s \<Longrightarrow> inv (foldl step s es)"
  by (induction es arbitrary: s) (auto intro: step_inv)

lemma run_prefix_inv: "inv s \<Longrightarrow> inv (foldl step s (take n es))"
  by (rule run_inv)

end

text \<open>A machine with a set of final states that no event leaves.\<close>

locale absorbing_machine =
  fixes step :: "'s \<Rightarrow> 'e \<Rightarrow> 's"
    and final :: "'s \<Rightarrow> bool"
    and obs :: "'s \<Rightarrow> 'o"
  assumes final_step: "final s \<Longrightarrow> final (step s e)"
    and final_obs: "final s \<Longrightarrow> obs (step s e) = obs s"
begin

lemma run_final: "final s \<Longrightarrow> final (foldl step s es) \<and> obs (foldl step s es) = obs s"
proof (induction es arbitrary: s)
  case Nil
  then show ?case by simp
next
  case (Cons e es)
  then show ?case using final_step [of s e] final_obs [of s e] by simp
qed

end

end
