(* ===== verification/Core_Result.thy ===== *)
theory Core_Result
  imports Prelude
begin

text \<open>
  \<open>core/include/canforge/core/Result.hpp\<close>: the error codes, the error value and the result type.
  \<open>Result<T>\<close> is the sum \<open>error + 'a\<close> and \<open>Status\<close> is \<open>Result<void>\<close>. \<open>CANFORGE_TRY\<close> and
  \<open>CANFORGE_CHECK\<close> are \<open>try_bind\<close>; \<open>Result::value()\<close> aborts on an error, so \<open>value_of\<close> returns
  \<open>None\<close> there and every use of it in the code is an obligation.
\<close>

datatype error_code =
  Ok
| InvalidArgument | OutOfRange | NotImplemented | Unsupported
| FrameBadIdentifier | FrameBadDlc | FrameBadFlags | FramePayloadTooLarge
| CodecSignalOutOfBounds | CodecBadBitLength | CodecBadFactor | CodecValueNotFinite
| CodecMultiplexMismatch | CodecUnknownSignal
| ParseIoError | ParseBadEncoding | ParseUnexpectedToken | ParseUnexpectedEof
| ParseBadNumber | ParseUnterminatedString | ParseUnknownKeyword
| ParseDuplicateDefinition | ParseUndefinedReference | ParseSemantic
| TransportOpenFailed | TransportNotOpen | TransportWriteFailed | TransportReadFailed
| TransportTimeout | TransportUnsupported | TransportOverflow
| LogBadFormat | LogUnsupportedVersion | LogEndOfFile

text \<open>\<open>Error\<close>: the code, the static message and the two detail words.\<close>

datatype error = Error (err_code: error_code) (err_message: string) (err_detail: "u32 \<times> u32")

definition plain_error :: "error_code \<Rightarrow> string \<Rightarrow> error" where
  "plain_error c m = Error c m (0, 0)"

text \<open>\<open>Error::with\<close> replaces the detail; \<open>operator==\<close> ignores the message.\<close>

definition error_with :: "error \<Rightarrow> u32 \<times> u32 \<Rightarrow> error" where
  "error_with e d = Error (err_code e) (err_message e) d"

definition error_eq :: "error \<Rightarrow> error \<Rightarrow> bool" where
  "error_eq a b \<longleftrightarrow> err_code a = err_code b \<and> err_detail a = err_detail b"

type_synonym 'a result = "error + 'a"
type_synonym status = "unit result"

abbreviation ok :: status where
  "ok \<equiv> Inr ()"

definition has_value :: "'a result \<Rightarrow> bool" where
  "has_value r = (case r of Inl _ \<Rightarrow> False | Inr _ \<Rightarrow> True)"

definition value_of :: "'a result \<Rightarrow> 'a option" where
  "value_of r = (case r of Inl _ \<Rightarrow> None | Inr v \<Rightarrow> Some v)"

definition value_or :: "'a result \<Rightarrow> 'a \<Rightarrow> 'a" where
  "value_or r fallback = (case r of Inl _ \<Rightarrow> fallback | Inr v \<Rightarrow> v)"

definition result_map :: "('a \<Rightarrow> 'b) \<Rightarrow> 'a result \<Rightarrow> 'b result" where
  "result_map f r = (case r of Inl e \<Rightarrow> Inl e | Inr v \<Rightarrow> Inr (f v))"

definition try_bind :: "'a result \<Rightarrow> ('a \<Rightarrow> 'b result) \<Rightarrow> 'b result" where
  "try_bind r f = (case r of Inl e \<Rightarrow> Inl e | Inr v \<Rightarrow> f v)"

lemma try_bind_simps [simp]:
  "try_bind (Inl e) f = Inl e"
  "try_bind (Inr v) f = f v"
  by (simp_all add: try_bind_def)

lemma try_bind_Inr_iff:
  "try_bind r f = Inr y \<longleftrightarrow> (\<exists>v. r = Inr v \<and> f v = Inr y)"
  by (cases r) auto

lemma result_map_simps [simp]:
  "result_map f (Inl e) = Inl e"
  "result_map f (Inr v) = Inr (f v)"
  by (simp_all add: result_map_def)

lemma result_map_Inr_iff:
  "result_map f r = Inr y \<longleftrightarrow> (\<exists>v. r = Inr v \<and> y = f v)"
  by (cases r) auto

lemma value_of_simps [simp]:
  "value_of (Inl e) = None"
  "value_of (Inr v) = Some v"
  by (simp_all add: value_of_def)

lemma has_value_simps [simp]:
  "\<not> has_value (Inl e)"
  "has_value (Inr v)"
  by (simp_all add: has_value_def)

subsection \<open>Postconditions\<close>

text \<open>\<open>yields Q r\<close>: a result that is not an error satisfies \<open>Q\<close>. The rules follow the shape of the code, so
  that \<open>intro yields_intros\<close> walks through a function body down to its returns.\<close>

named_theorems yields_intros \<open>how a postcondition passes through branches, matches and binds\<close>

definition yields :: "('a \<Rightarrow> bool) \<Rightarrow> 'a result \<Rightarrow> bool" where
  "yields Q r \<longleftrightarrow> (\<forall>v. r = Inr v \<longrightarrow> Q v)"

lemma yieldsD: "yields Q r \<Longrightarrow> r = Inr v \<Longrightarrow> Q v"
  by (simp add: yields_def)

lemma yields_Inl [yields_intros, simp]: "yields Q (Inl e)"
  by (simp add: yields_def)

lemma yields_Inr: "yields Q (Inr v) \<longleftrightarrow> Q v"
  by (simp add: yields_def)

lemma yields_if [yields_intros]: "(b \<Longrightarrow> yields Q x) \<Longrightarrow> (\<not> b \<Longrightarrow> yields Q y) \<Longrightarrow> yields Q (if b then x else y)"
  by simp

lemma yields_bind [yields_intros]: "(\<And>v. r = Inr v \<Longrightarrow> yields Q (f v)) \<Longrightarrow> yields Q (try_bind r f)"
  by (auto simp: yields_def try_bind_Inr_iff)

lemma yields_map [yields_intros]: "(\<And>v. r = Inr v \<Longrightarrow> Q (f v)) \<Longrightarrow> yields Q (result_map f r)"
  by (auto simp: yields_def result_map_Inr_iff)

lemma yields_option [yields_intros]:
  "(x = None \<Longrightarrow> yields Q a) \<Longrightarrow> (\<And>v. x = Some v \<Longrightarrow> yields Q (f v)) \<Longrightarrow>
   yields Q (case x of None \<Rightarrow> a | Some v \<Rightarrow> f v)"
  by (cases x) simp_all

lemma yields_prod [yields_intros]: "(\<And>a b. p = (a, b) \<Longrightarrow> yields Q (f a b)) \<Longrightarrow> yields Q (case p of (a, b) \<Rightarrow> f a b)"
  by (cases p) simp

lemma yields_Let [yields_intros]: "(\<And>v. v = t \<Longrightarrow> yields Q (f v)) \<Longrightarrow> yields Q (let v = t in f v)"
  by simp

end
