(* ===== verification/Frame.thy ===== *)
theory Frame
  imports Core_Result
begin

text \<open>
  \<open>core/include/canforge/core/Frame.hpp\<close> and \<open>core/src/Frame.cpp\<close>: CAN identifiers with their
  checked constructors and arbitration key, the frame flags, the data length codes and
  \<open>BasicFrame<Capacity>\<close> with its factories. The template parameter is the argument \<open>cap\<close>: 8 for
  the classic \<open>Frame\<close>, 64 for \<open>FdFrame\<close>.
\<close>

subsection \<open>Identifiers\<close>

definition kStandardIdMax :: u32 where "kStandardIdMax = 0x7FF"
definition kExtendedIdMax :: u32 where "kExtendedIdMax = 0x1FFFFFFF"
definition kEffFlag :: u32 where "kEffFlag = 0x80000000"

datatype can_id = CanId (packed: u32)

definition make_id :: "u32 \<Rightarrow> bool \<Rightarrow> can_id" where
  "make_id v extended = CanId (if extended then v OR kEffFlag else v)"

definition standard_id :: "u32 \<Rightarrow> can_id result" where
  "standard_id v =
     (if v > kStandardIdMax
      then Inl (Error FrameBadIdentifier ''standard CAN identifier does not fit in 11 bits''
                  (v, kStandardIdMax))
      else Inr (make_id v False))"

definition extended_id :: "u32 \<Rightarrow> can_id result" where
  "extended_id v =
     (if v > kExtendedIdMax
      then Inl (Error FrameBadIdentifier ''extended CAN identifier does not fit in 29 bits''
                  (v, kExtendedIdMax))
      else Inr (make_id v True))"

definition from_packed :: "u32 \<Rightarrow> can_id result" where
  "from_packed p =
     (let eff = p AND kEffFlag \<noteq> 0; v = p AND kExtendedIdMax
      in if eff then extended_id v else standard_id v)"

definition id_value :: "can_id \<Rightarrow> u32" where
  "id_value i = packed i AND kExtendedIdMax"

definition is_extended :: "can_id \<Rightarrow> bool" where
  "is_extended i \<longleftrightarrow> packed i AND kEffFlag \<noteq> 0"

definition bit_count :: "can_id \<Rightarrow> u8" where
  "bit_count i = (if is_extended i then 29 else 11)"

definition violates_base_id_rule :: "can_id \<Rightarrow> bool" where
  "violates_base_id_rule i \<longleftrightarrow> \<not> is_extended i \<and> id_value i \<ge> 0x7F0"

definition arbitration_key :: "can_id \<Rightarrow> u64" where
  "arbitration_key i =
     (let base = (if is_extended i then drop_bit 18 (id_value i) else id_value i);
          ide = (if is_extended i then 1 else 0 :: u32);
          ext = (if is_extended i then id_value i AND 0x3FFFF else 0)
      in push_bit 19 (ucast base) OR push_bit 18 (ucast ide) OR ucast ext)"

definition id_less :: "can_id \<Rightarrow> can_id \<Rightarrow> bool" where
  "id_less a b \<longleftrightarrow> arbitration_key a < arbitration_key b"

text \<open>The identifiers the constructors can build; every value of the C++ type is one.\<close>

definition wf_id :: "can_id \<Rightarrow> bool" where
  "wf_id i \<longleftrightarrow> (if is_extended i then packed i = id_value i OR kEffFlag else packed i \<le> kStandardIdMax)"

subsection \<open>Flags\<close>

definition flag_none :: u8 where "flag_none = 0"
definition flag_rtr :: u8 where "flag_rtr = 1"
definition flag_error :: u8 where "flag_error = 2"
definition flag_fd :: u8 where "flag_fd = 4"
definition flag_brs :: u8 where "flag_brs = 8"
definition flag_esi :: u8 where "flag_esi = 16"

lemmas flag_defs = flag_none_def flag_rtr_def flag_error_def flag_fd_def flag_brs_def flag_esi_def

definition has_flag :: "u8 \<Rightarrow> u8 \<Rightarrow> bool" where
  "has_flag s f \<longleftrightarrow> s AND f \<noteq> flag_none"

subsection \<open>Data length codes\<close>

definition kFdDlcToLength :: "u8 list" where
  "kFdDlcToLength = [0, 1, 2, 3, 4, 5, 6, 7, 8, 12, 16, 20, 24, 32, 48, 64]"

definition dlc_to_length :: "u8 \<Rightarrow> bool \<Rightarrow> u8" where
  "dlc_to_length dlc fd =
     (if dlc > 15 then 0
      else if fd then kFdDlcToLength ! unat dlc
      else if dlc > 8 then 8 else dlc)"

record dlc_fit =
  fit_dlc :: u8
  fit_length :: u8
  fit_padding :: u8

text \<open>The search loop of \<open>length_to_dlc\<close>, from data length code \<open>dlc\<close> on.\<close>

function fd_fit_from :: "nat \<Rightarrow> nat \<Rightarrow> dlc_fit result" where
  "fd_fit_from dlc len =
     (if dlc < 16 then
        let encoded = kFdDlcToLength ! dlc in
        if unat encoded \<ge> len
        then Inr \<lparr>fit_dlc = of_nat dlc, fit_length = encoded, fit_padding = encoded - of_nat len\<rparr>
        else fd_fit_from (dlc + 1) len
      else Inl (plain_error FrameBadDlc ''unreachable: no data length code found''))"
  by pat_completeness auto
termination by (relation "measure (\<lambda>(dlc, _). 16 - dlc)") auto

declare fd_fit_from.simps [simp del]

definition length_to_dlc :: "nat \<Rightarrow> bool \<Rightarrow> dlc_fit result" where
  "length_to_dlc len fd =
     (let limit = (if fd then 64 else 8 :: u8) in
      if len > unat limit
      then Inl (Error FramePayloadTooLarge ''no data length code can carry this many bytes''
                  (of_nat len, ucast limit))
      else if \<not> fd
      then Inr \<lparr>fit_dlc = of_nat len, fit_length = of_nat len, fit_padding = 0\<rparr>
      else fd_fit_from 0 len)"

subsection \<open>Frames\<close>

record frame =
  timestamp_ns :: u64
  frame_id :: can_id
  frame_dlc :: u8
  frame_flags :: u8
  frame_data :: bytes

definition empty_frame :: "nat \<Rightarrow> frame" where
  "empty_frame cap = \<lparr>timestamp_ns = 0, frame_id = CanId 0, frame_dlc = 0, frame_flags = flag_none,
     frame_data = replicate cap 0\<rparr>"

definition is_fd :: "frame \<Rightarrow> bool" where "is_fd f = has_flag (frame_flags f) flag_fd"
definition is_remote :: "frame \<Rightarrow> bool" where "is_remote f = has_flag (frame_flags f) flag_rtr"
definition is_error_frame :: "frame \<Rightarrow> bool" where
  "is_error_frame f = has_flag (frame_flags f) flag_error"
definition is_brs :: "frame \<Rightarrow> bool" where "is_brs f = has_flag (frame_flags f) flag_brs"
definition is_esi :: "frame \<Rightarrow> bool" where "is_esi f = has_flag (frame_flags f) flag_esi"

definition frame_size :: "frame \<Rightarrow> nat" where
  "frame_size f = (if is_remote f then 0 else unat (dlc_to_length (frame_dlc f) (is_fd f)))"

definition validate_flags :: "nat \<Rightarrow> u8 \<Rightarrow> status" where
  "validate_flags cap fl =
     (let fd = has_flag fl flag_fd in
      if fd \<and> \<not> cap \<ge> 64
      then Inl (plain_error FrameBadFlags ''this frame type cannot hold a CAN FD payload'')
      else if fd \<and> has_flag fl flag_rtr
      then Inl (plain_error FrameBadFlags ''CAN FD has no remote frames'')
      else if \<not> fd \<and> (has_flag fl flag_brs \<or> has_flag fl flag_esi)
      then Inl (plain_error FrameBadFlags ''BRS and ESI are only defined for CAN FD frames'')
      else ok)"

text \<open>
  \<open>make\<close>: the data pointer may be null (\<open>None\<close>, as \<open>make_empty\<close> passes it); otherwise it points to
  at least \<open>len\<close> bytes.
\<close>

definition make_frame_of :: "nat \<Rightarrow> can_id \<Rightarrow> bytes option \<Rightarrow> nat \<Rightarrow> u8 \<Rightarrow> u64 \<Rightarrow> frame result" where
  "make_frame_of cap i src len fl ts =
     try_bind (validate_flags cap fl) (\<lambda>_.
     if has_flag fl flag_rtr \<and> len \<noteq> 0
     then Inl (plain_error FrameBadFlags ''a remote frame carries no data bytes'')
     else if len > cap
     then Inl (Error FramePayloadTooLarge ''payload exceeds the frame capacity''
                 (of_nat len, of_nat cap))
     else let fd = has_flag fl flag_fd in
     try_bind (length_to_dlc len fd) (\<lambda>fit.
     if fit_padding fit \<noteq> 0
     then Inl (Error FrameBadDlc
            ''CAN FD has no data length code for this size; pad the payload to the next encodable length''
            (of_nat len, ucast (fit_length fit)))
     else let f = (empty_frame cap)\<lparr>frame_id := i, frame_dlc := fit_dlc fit, frame_flags := fl,
                    timestamp_ns := ts\<rparr>
     in Inr (case src of
               None \<Rightarrow> f
             | Some b \<Rightarrow> if len \<noteq> 0 then f\<lparr>frame_data := memcpy_into (frame_data f) b len\<rparr> else f)))"

definition make_empty :: "nat \<Rightarrow> can_id \<Rightarrow> nat \<Rightarrow> u8 \<Rightarrow> u64 \<Rightarrow> frame result" where
  "make_empty cap i len fl ts = make_frame_of cap i None len fl ts"

definition make_remote :: "nat \<Rightarrow> can_id \<Rightarrow> u8 \<Rightarrow> u64 \<Rightarrow> frame result" where
  "make_remote cap i requested_len ts =
     (if requested_len > 8
      then Inl (Error FrameBadDlc ''a remote frame may request at most 8 bytes'' (ucast requested_len, 8))
      else Inr ((empty_frame cap)\<lparr>frame_id := i, frame_dlc := requested_len, frame_flags := flag_rtr,
                  timestamp_ns := ts\<rparr>))"

definition from_wire :: "nat \<Rightarrow> can_id \<Rightarrow> u8 \<Rightarrow> bytes option \<Rightarrow> u8 \<Rightarrow> u64 \<Rightarrow> frame result" where
  "from_wire cap i dlc src fl ts =
     try_bind (validate_flags cap fl) (\<lambda>_.
     if dlc > 15
     then Inl (Error FrameBadDlc ''a data length code has four bits'' (ucast dlc, 15))
     else let fd = has_flag fl flag_fd; len = dlc_to_length dlc fd in
     if unat len > cap
     then Inl (Error FramePayloadTooLarge ''payload exceeds the frame capacity'' (ucast len, of_nat cap))
     else let f = (empty_frame cap)\<lparr>frame_id := i, frame_dlc := dlc, frame_flags := fl,
                    timestamp_ns := ts\<rparr>
     in Inr (case src of
               None \<Rightarrow> f
             | Some b \<Rightarrow> if len \<noteq> 0 then f\<lparr>frame_data := memcpy_into (frame_data f) b (unat len)\<rparr>
                         else f))"

definition set_timestamp_ns :: "frame \<Rightarrow> u64 \<Rightarrow> frame" where
  "set_timestamp_ns f ts = f\<lparr>timestamp_ns := ts\<rparr>"

definition frame_eq :: "frame \<Rightarrow> frame \<Rightarrow> bool" where
  "frame_eq a b \<longleftrightarrow> frame_id a = frame_id b \<and> frame_dlc a = frame_dlc b \<and> frame_flags a = frame_flags b
     \<and> take (frame_size a) (frame_data a) = take (frame_size a) (frame_data b)"

text \<open>\<open>assign_unchecked\<close> clamps the copy to the capacity; \<open>widen\<close> is the copy to a larger frame.\<close>

definition assign_unchecked ::
    "nat \<Rightarrow> frame \<Rightarrow> can_id \<Rightarrow> u8 \<Rightarrow> u8 \<Rightarrow> u64 \<Rightarrow> bytes option \<Rightarrow> nat \<Rightarrow> frame" where
  "assign_unchecked cap f i dlc fl ts src len =
     (let f = f\<lparr>frame_id := i, frame_dlc := dlc, frame_flags := fl, timestamp_ns := ts\<rparr> in
      case src of
        None \<Rightarrow> f
      | Some b \<Rightarrow> if len \<noteq> 0
                  then f\<lparr>frame_data := memcpy_into (frame_data f) b (if len > cap then cap else len)\<rparr>
                  else f)"

definition widen :: "nat \<Rightarrow> frame \<Rightarrow> frame" where
  "widen other f = assign_unchecked other (empty_frame other) (frame_id f) (frame_dlc f) (frame_flags f)
     (timestamp_ns f) (Some (frame_data f)) (frame_size f)"

text \<open>The valid payload bytes, as the users of \<open>data()\<close> and \<open>size()\<close> read them.\<close>

definition payload_of :: "frame \<Rightarrow> bytes" where
  "payload_of f = take (frame_size f) (frame_data f)"

subsection \<open>Specification vocabulary\<close>

text \<open>
  The abstract reading of the arbitration key: the 11-bit base, the IDE bit and the 18 extension
  bits are compared in this order, and a dominant IDE bit (standard frame) wins.
\<close>

definition key_base :: "can_id \<Rightarrow> nat" where
  "key_base i = (if is_extended i then unat (id_value i) div 2 ^ 18 else unat (id_value i))"

definition key_ext :: "can_id \<Rightarrow> nat" where
  "key_ext i = (if is_extended i then unat (id_value i) mod 2 ^ 18 else 0)"

text \<open>What every frame built by a factory satisfies, for a capacity of 8 or 64.\<close>

definition wf_frame :: "nat \<Rightarrow> frame \<Rightarrow> bool" where
  "wf_frame cap f \<longleftrightarrow> length (frame_data f) = cap \<and> frame_size f \<le> cap \<and> frame_dlc f \<le> 15
     \<and> validate_flags cap (frame_flags f) = ok"

text \<open>\<open>make\<close>, on every branch: exactly the requests it accepts, and what it then builds.\<close>

definition make_ok :: "nat \<Rightarrow> nat \<Rightarrow> u8 \<Rightarrow> bool" where
  "make_ok cap len fl \<longleftrightarrow> validate_flags cap fl = ok \<and> (has_flag fl flag_rtr \<longrightarrow> len = 0) \<and> len \<le> cap
     \<and> (if has_flag fl flag_fd then of_nat len \<in> set kFdDlcToLength \<and> len \<le> 64 else len \<le> 8)"

subsection \<open>Identifiers and arbitration\<close>

lemma kEffFlag_exp: "kEffFlag = 2 ^ 31"
  by (simp add: kEffFlag_def)

lemma mask29: "kExtendedIdMax = mask 29"
  by (simp add: kExtendedIdMax_def mask_eq_exp_minus_1)

lemma bit_kEffFlag [simp]: "bit kEffFlag n \<longleftrightarrow> n = 31"
  unfolding kEffFlag_exp by (subst bit_exp_iff) auto

lemma is_extended_bit: "is_extended i \<longleftrightarrow> bit (packed i) 31"
  unfolding is_extended_def kEffFlag_exp by (subst and_exp_eq_0_iff_not_bit) simp

lemma id_value_take: "id_value i = take_bit 29 (packed i)"
  by (simp add: id_value_def mask29 take_bit_eq_mask)

lemma le_standard_iff: "v \<le> kStandardIdMax \<longleftrightarrow> unat v < 2 ^ 11"
  by (auto simp: kStandardIdMax_def word_le_nat_alt)

lemma le_extended_iff: "v \<le> kExtendedIdMax \<longleftrightarrow> unat v < 2 ^ 29"
  by (auto simp: kExtendedIdMax_def word_le_nat_alt)

lemma wf_id_std: "wf_id i \<Longrightarrow> \<not> is_extended i \<Longrightarrow> unat (id_value i) < 2 ^ 11 \<and> id_value i = packed i"
  by (auto simp: wf_id_def le_standard_iff id_value_take intro!: take_bit_word_small)
   (simp add: take_bit_word_small)

lemma id_value_less: "unat (id_value i) < 2 ^ 29"
  unfolding id_value_take by (rule unat_take_bit_less)

lemma key_base_less: "wf_id i \<Longrightarrow> key_base i < 2 ^ 11"
  using id_value_less [of i] wf_id_std [of i] by (auto simp: key_base_def)

lemma key_ext_less: "key_ext i < 2 ^ 18"
  by (simp add: key_ext_def)

lemma arbitration_key_nat:
  assumes "wf_id i"
  shows "unat (arbitration_key i) =
    key_base i * 2 ^ 19 + ((if is_extended i then 1 else 0) * 2 ^ 18 + key_ext i)"
proof -
  define base where "base = (if is_extended i then drop_bit 18 (id_value i) else id_value i)"
  define ide where "ide = (if is_extended i then 1 else 0 :: u32)"
  define ext where "ext = (if is_extended i then id_value i AND 0x3FFFF else 0)"
  have m: "(0x3FFFF :: u32) = mask 18" by (simp add: mask_eq_exp_minus_1)
  have base: "unat base = key_base i"
    by (simp add: base_def key_base_def unat_drop_bit_eq) (simp add: drop_bit_eq_div)
  have ext: "unat ext = key_ext i"
    unfolding ext_def key_ext_def m take_bit_eq_mask [symmetric]
    by (auto simp: unsigned_take_bit_eq) (simp add: take_bit_eq_mod)
  have ide: "unat ide = (if is_extended i then 1 else 0)" by (simp add: ide_def)
  have b: "unat base < 2 ^ 11" using base key_base_less [OF assms] by simp
  have e: "unat ext < 2 ^ 18" using ext key_ext_less by simp
  have "arbitration_key i = push_bit 19 (ucast base) OR (push_bit 18 (ucast ide) OR ucast ext)"
    by (simp add: arbitration_key_def base_def ide_def ext_def Let_def or.assoc)
  then have "unat (arbitration_key i) =
      push_bit 19 (unat base) OR (push_bit 18 (unat ide) OR unat ext)"
    using b ide
    by (simp add: unsigned_or_eq unsigned_push_bit_eq unat_ucast_up)
      (simp add: push_bit_eq_mult take_bit_nat_eq_self split: if_splits)
  also have "push_bit 18 (unat ide) OR unat ext = unat ide * 2 ^ 18 + unat ext"
    by (rule or_shift_add) (rule e)
  also have "push_bit 19 (unat base) OR (unat ide * 2 ^ 18 + unat ext) =
      unat base * 2 ^ 19 + (unat ide * 2 ^ 18 + unat ext)"
    by (rule or_shift_add) (use e ide in \<open>auto split: if_splits\<close>)
  finally show ?thesis using base ext ide by simp
qed

lemma arbitration_order:
  assumes "wf_id a" and "wf_id b"
  shows "id_less a b \<longleftrightarrow>
    key_base a < key_base b
    \<or> key_base a = key_base b \<and> \<not> is_extended a \<and> is_extended b
    \<or> key_base a = key_base b \<and> is_extended a \<and> is_extended b \<and> key_ext a < key_ext b"
proof -
  have e: "(if is_extended i then 1 else 0) * 2 ^ 18 + key_ext i < (2 :: nat) ^ 19" for i
    using key_ext_less [of i] by simp
  have z: "\<not> is_extended i \<Longrightarrow> key_ext i = 0" for i
    by (simp add: key_ext_def)
  show ?thesis
    unfolding id_less_def word_less_nat_alt arbitration_key_nat [OF assms(1)]
      arbitration_key_nat [OF assms(2)] lex_key_less [OF e e] lex_key_less [OF key_ext_less key_ext_less]
    using z [of a] z [of b] by (auto split: if_splits)
qed

lemma wf_id_eqI:
  assumes "wf_id a" "wf_id b" "is_extended a = is_extended b" "id_value a = id_value b"
  shows "a = b"
  using assms wf_id_std [of a] wf_id_std [of b]
  by (cases a, cases b) (auto simp: wf_id_def split: if_splits)

lemma arbitration_key_inject:
  assumes "wf_id a" and "wf_id b" and "arbitration_key a = arbitration_key b"
  shows "a = b"
proof -
  have "\<not> id_less a b" "\<not> id_less b a" using assms(3) by (simp_all add: id_less_def)
  then have b: "key_base a = key_base b" and x: "is_extended a = is_extended b"
    and e: "is_extended a \<Longrightarrow> key_ext a = key_ext b"
    using arbitration_order [OF assms(1,2)] arbitration_order [OF assms(2,1)] by auto
  have "unat (id_value a) = unat (id_value b)"
  proof (cases "is_extended a")
    case True
    then show ?thesis using b x e [OF True]
      by (simp add: key_base_def key_ext_def) (metis div_mult_mod_eq)
  next
    case False
    then show ?thesis using b x by (simp add: key_base_def)
  qed
  then have "id_value a = id_value b" by (simp add: word_unat_eq_iff)
  then show ?thesis by (rule wf_id_eqI [OF assms(1,2) x])
qed

lemma make_id_standard:
  assumes "v \<le> kStandardIdMax"
  shows "wf_id (make_id v False)" "\<not> is_extended (make_id v False)" "id_value (make_id v False) = v"
proof -
  have v: "unat v < 2 ^ 11" using assms by (simp add: le_standard_iff)
  show x: "\<not> is_extended (make_id v False)"
    using not_bit_small [OF v, of 31] by (simp add: make_id_def is_extended_bit)
  show "id_value (make_id v False) = v"
    using v by (simp add: id_value_take make_id_def take_bit_word_small)
  show "wf_id (make_id v False)" using x assms by (simp add: wf_id_def make_id_def)
qed

lemma make_id_extended:
  assumes "v \<le> kExtendedIdMax"
  shows "wf_id (make_id v True)" "is_extended (make_id v True)" "id_value (make_id v True) = v"
proof -
  have v: "unat v < 2 ^ 29" using assms by (simp add: le_extended_iff)
  show x: "is_extended (make_id v True)"
    by (simp add: make_id_def is_extended_bit bit_simps)
  show i: "id_value (make_id v True) = v"
    using take_bit_word_small [OF v] by (simp add: id_value_take make_id_def) (simp add: kEffFlag_def)
  show "wf_id (make_id v True)" using x i by (simp add: wf_id_def make_id_def)
qed

lemma from_packed_roundtrip:
  assumes "wf_id i"
  shows "from_packed (packed i) = Inr i"
proof (cases "is_extended i")
  case True
  then have "packed i = id_value i OR kEffFlag" using assms by (simp add: wf_id_def)
  then have "make_id (id_value i) True = i" by (metis can_id.collapse make_id_def)
  then show ?thesis using True id_value_less [of i] le_extended_iff [of "id_value i"]
    by (simp add: from_packed_def is_extended_def id_value_def extended_id_def Let_def)
next
  case False
  then have "id_value i = packed i" "packed i \<le> kStandardIdMax"
    using assms wf_id_std by (auto simp: wf_id_def)
  moreover from this have "make_id (id_value i) False = i" by (simp add: make_id_def)
  ultimately show ?thesis using False
    by (simp add: from_packed_def is_extended_def id_value_def standard_id_def Let_def)
qed

text \<open>\<open>operator<\<close> on identifiers is the arbitration order.\<close>

instantiation can_id :: preorder
begin

definition less_eq_can_id :: "can_id \<Rightarrow> can_id \<Rightarrow> bool" where
  "less_eq_can_id a b \<longleftrightarrow> arbitration_key a \<le> arbitration_key b"

definition less_can_id :: "can_id \<Rightarrow> can_id \<Rightarrow> bool" where
  "less_can_id a b \<longleftrightarrow> id_less a b"

instance
  by standard (auto simp: less_eq_can_id_def less_can_id_def id_less_def)

end

subsection \<open>Data length codes\<close>

lemma length_kFd [simp]: "length kFdDlcToLength = 16"
  by (simp add: kFdDlcToLength_def)

lemma fd_fit_from_spec:
  "fd_fit_from d len = Inr fit \<Longrightarrow>
    \<exists>k. d \<le> k \<and> k < 16 \<and> len \<le> unat (kFdDlcToLength ! k)
      \<and> (\<forall>j. d \<le> j \<longrightarrow> j < k \<longrightarrow> unat (kFdDlcToLength ! j) < len)
      \<and> fit = \<lparr>fit_dlc = of_nat k, fit_length = kFdDlcToLength ! k,
               fit_padding = kFdDlcToLength ! k - of_nat len\<rparr>"
proof (induction d len rule: fd_fit_from.induct)
  case (1 d len)
  show ?case
  proof (cases "d < 16 \<and> len \<le> unat (kFdDlcToLength ! d)")
    case True
    then show ?thesis using "1.prems"
      by (intro exI [of _ d]) (auto simp: fd_fit_from.simps [of d] Let_def)
  next
    case False
    then have d: "d < 16" and lt: "unat (kFdDlcToLength ! d) < len"
      and r: "fd_fit_from (d + 1) len = Inr fit"
      using "1.prems" by (auto simp: fd_fit_from.simps [of d] Let_def split: if_splits)
    from "1.IH" [OF d refl _ r] lt obtain k where
      k: "d + 1 \<le> k" "k < 16" "len \<le> unat (kFdDlcToLength ! k)"
        "\<forall>j. d + 1 \<le> j \<longrightarrow> j < k \<longrightarrow> unat (kFdDlcToLength ! j) < len"
        "fit = \<lparr>fit_dlc = of_nat k, fit_length = kFdDlcToLength ! k,
               fit_padding = kFdDlcToLength ! k - of_nat len\<rparr>"
      by auto
    have "\<forall>j. d \<le> j \<longrightarrow> j < k \<longrightarrow> unat (kFdDlcToLength ! j) < len"
      using k(4) lt by (metis add.commute le_neq_implies_less plus_1_eq_Suc Suc_leI)
    then show ?thesis using k by (intro exI [of _ k]) auto
  qed
qed

lemma fd_fit_from_total:
  assumes "d \<le> 15" and "len \<le> 64"
  shows "\<exists>fit. fd_fit_from d len = Inr fit"
  using assms
proof (induction d len rule: fd_fit_from.induct)
  case (1 d len)
  show ?case
  proof (cases "len \<le> unat (kFdDlcToLength ! d)")
    case True
    then show ?thesis using "1.prems" by (auto simp: fd_fit_from.simps [of d] Let_def)
  next
    case False
    have "d \<noteq> 15" using False "1.prems" by (auto simp: kFdDlcToLength_def)
    then have "d + 1 \<le> 15" "d < 16" using "1.prems" by auto
    from "1.IH" [OF this(2) refl _ this(1) "1.prems"(2)] False
    obtain fit where "fd_fit_from (d + 1) len = Inr fit" by auto
    then show ?thesis using False \<open>d < 16\<close> by (auto simp: fd_fit_from.simps [of d] Let_def)
  qed
qed

lemma kFd_mono: "i < j \<Longrightarrow> j < 16 \<Longrightarrow> unat (kFdDlcToLength ! i) < unat (kFdDlcToLength ! j)"
proof -
  assume "i < j" "j < 16"
  moreover have "\<forall>j \<in> set [0..<16]. \<forall>i \<in> set [0..<j]. kFdDlcToLength ! i < kFdDlcToLength ! j"
    by code_simp
  ultimately show ?thesis by (simp add: word_less_nat_alt)
qed

lemma kFd_le64: "i < 16 \<Longrightarrow> unat (kFdDlcToLength ! i) \<le> 64"
proof -
  assume "i < 16"
  moreover have "\<forall>j \<in> set [0..<16]. kFdDlcToLength ! j \<le> 64" by code_simp
  ultimately show ?thesis by (simp add: word_le_nat_alt)
qed

lemma dlc_to_length_fd_nat: "k < 16 \<Longrightarrow> dlc_to_length (of_nat k) True = kFdDlcToLength ! k"
  by (simp add: dlc_to_length_def word_less_nat_alt unat_of_nat)

lemma dlc_to_length_classic_nat: "k \<le> 8 \<Longrightarrow> dlc_to_length (of_nat k) False = of_nat k"
  by (simp add: dlc_to_length_def word_less_nat_alt unat_of_nat)

lemma length_to_dlc_total:
  "(\<exists>fit. length_to_dlc len fd = Inr fit) \<longleftrightarrow> len \<le> (if fd then 64 else 8)"
  using fd_fit_from_total [of 0 len]
  by (auto simp: length_to_dlc_def Let_def)

lemma length_to_dlc_smallest:
  assumes "length_to_dlc len fd = Inr fit"
  shows "fit_dlc fit \<le> 15" and "dlc_to_length (fit_dlc fit) fd = fit_length fit"
    and "unat (fit_length fit) = len + unat (fit_padding fit)"
    and "d < fit_dlc fit \<Longrightarrow> unat (dlc_to_length d fd) < len"
proof -
  have len: "len \<le> (if fd then 64 else 8)" using assms length_to_dlc_total by blast
  have "fit_dlc fit \<le> 15 \<and> dlc_to_length (fit_dlc fit) fd = fit_length fit
    \<and> unat (fit_length fit) = len + unat (fit_padding fit)
    \<and> (d < fit_dlc fit \<longrightarrow> unat (dlc_to_length d fd) < len)"
  proof (cases fd)
    case False
    then have fit: "fit = \<lparr>fit_dlc = of_nat len, fit_length = of_nat len, fit_padding = 0\<rparr>"
      and l: "len \<le> 8" using assms len by (auto simp: length_to_dlc_def Let_def split: if_splits)
    then show ?thesis using False dlc_to_length_classic_nat [OF l]
      by (auto simp: word_le_nat_alt word_less_nat_alt unat_of_nat dlc_to_length_def)
  next
    case True
    then have "fd_fit_from 0 len = Inr fit"
      using assms by (auto simp: length_to_dlc_def Let_def split: if_splits)
    from fd_fit_from_spec [OF this] obtain k where
      k: "k < 16" "len \<le> unat (kFdDlcToLength ! k)"
        "\<forall>j<k. unat (kFdDlcToLength ! j) < len"
        "fit = \<lparr>fit_dlc = of_nat k, fit_length = kFdDlcToLength ! k,
               fit_padding = kFdDlcToLength ! k - of_nat len\<rparr>" by auto
    have u: "unat (of_nat len :: u8) = len" using len True by (simp add: unat_of_nat)
    have "unat (kFdDlcToLength ! k - of_nat len) = unat (kFdDlcToLength ! k) - len"
      using k(2) u by (simp add: unat_sub word_le_nat_alt)
    moreover have "unat (dlc_to_length d True) < len" if "d < of_nat k"
    proof -
      have "unat d < k" using that k(1) by (simp add: word_less_nat_alt unat_of_nat)
      then show ?thesis using k(1,3) dlc_to_length_fd_nat [of "unat d"] by simp
    qed
    ultimately show ?thesis using k True dlc_to_length_fd_nat [OF k(1)]
      by (auto simp: word_le_nat_alt unat_of_nat)
  qed
  then show "fit_dlc fit \<le> 15" "dlc_to_length (fit_dlc fit) fd = fit_length fit"
    "unat (fit_length fit) = len + unat (fit_padding fit)"
    "d < fit_dlc fit \<Longrightarrow> unat (dlc_to_length d fd) < len" by auto
qed

subsection \<open>Frame factories\<close>

lemma frame_size_make [simp]:
  "frame_size (f\<lparr>frame_data := x\<rparr>) = frame_size f"
  "frame_size (f\<lparr>timestamp_ns := t\<rparr>) = frame_size f"
  "frame_size (f\<lparr>frame_id := i\<rparr>) = frame_size f"
  by (simp_all add: frame_size_def is_remote_def is_fd_def)

lemma length_empty_frame [simp]: "length (frame_data (empty_frame cap)) = cap"
  by (simp add: empty_frame_def)

lemma fd_fit_padding_iff:
  assumes "length_to_dlc len True = Inr fit"
  shows "fit_padding fit = 0 \<longleftrightarrow> of_nat len \<in> set kFdDlcToLength"
proof
  have len: "len \<le> 64" using assms length_to_dlc_total [of len True] by auto
  have u: "unat (of_nat len :: u8) = len" using len by (simp add: unat_of_nat)
  note fit = length_to_dlc_smallest [OF assms]
  assume "fit_padding fit = 0"
  then have "fit_length fit = of_nat len" using fit(3) u by (simp add: word_unat_eq_iff)
  moreover have "fit_length fit = kFdDlcToLength ! unat (fit_dlc fit)" "unat (fit_dlc fit) < 16"
    using fit(1,2) by (auto simp: dlc_to_length_def word_le_nat_alt word_less_nat_alt)
  ultimately show "of_nat len \<in> set kFdDlcToLength" by (metis length_kFd nth_mem)
next
  have len: "len \<le> 64" using assms length_to_dlc_total [of len True] by auto
  have u: "unat (of_nat len :: u8) = len" using len by (simp add: unat_of_nat)
  note fit = length_to_dlc_smallest [OF assms]
  assume "of_nat len \<in> set kFdDlcToLength"
  then obtain k where k: "k < 16" "kFdDlcToLength ! k = of_nat len"
    by (metis in_set_conv_nth length_kFd)
  have "\<not> (of_nat k :: u8) < fit_dlc fit"
    using fit(4) [of "of_nat k"] dlc_to_length_fd_nat [OF k(1)] k(2) u by auto
  moreover have "fit_length fit = kFdDlcToLength ! unat (fit_dlc fit)" "unat (fit_dlc fit) < 16"
    using fit(1,2) by (auto simp: dlc_to_length_def word_le_nat_alt word_less_nat_alt)
  ultimately have "unat (fit_length fit) \<le> len"
    using k u kFd_mono [of "unat (fit_dlc fit)" k]
    by (cases "unat (fit_dlc fit) = k") (auto simp: word_less_nat_alt unat_of_nat)
  then show "fit_padding fit = 0" using fit(3) by (simp add: word_unat_eq_iff)
qed

lemma make_frame_accepts:
  "(\<exists>f. make_frame_of cap i src len fl ts = Inr f) \<longleftrightarrow> make_ok cap len fl"
proof (cases "validate_flags cap fl = ok \<and> (has_flag fl flag_rtr \<longrightarrow> len = 0) \<and> len \<le> cap")
  case False
  then show ?thesis
    by (cases "validate_flags cap fl") (auto simp: make_frame_of_def make_ok_def)
next
  case True
  show ?thesis
  proof (cases "length_to_dlc len (has_flag fl flag_fd)")
    case (Inl e)
    then have "\<not> len \<le> (if has_flag fl flag_fd then 64 else 8)"
      using length_to_dlc_total [of len "has_flag fl flag_fd"] by auto
    then show ?thesis using True Inl by (auto simp: make_frame_of_def make_ok_def Let_def)
  next
    case (Inr fit)
    then have len: "len \<le> (if has_flag fl flag_fd then 64 else 8)"
      using length_to_dlc_total by blast
    show ?thesis
    proof (cases "has_flag fl flag_fd")
      case True
      with Inr have "length_to_dlc len True = Inr fit" by simp
      from fd_fit_padding_iff [OF this] show ?thesis
        using \<open>validate_flags cap fl = ok \<and> _\<close> Inr len True
        by (auto simp: make_frame_of_def make_ok_def Let_def)
    next
      case False
      then have "fit_padding fit = 0" using Inr len by (auto simp: length_to_dlc_def Let_def)
      then show ?thesis using \<open>validate_flags cap fl = ok \<and> _\<close> Inr len False
        by (auto simp: make_frame_of_def make_ok_def Let_def)
    qed
  qed
qed

lemma make_frame_Inr:
  assumes "make_frame_of cap i src len fl ts = Inr f"
  obtains fit where "validate_flags cap fl = ok" "has_flag fl flag_rtr \<longrightarrow> len = 0" "len \<le> cap"
    "length_to_dlc len (has_flag fl flag_fd) = Inr fit" "fit_padding fit = 0"
    "f = \<lparr>timestamp_ns = ts, frame_id = i, frame_dlc = fit_dlc fit, frame_flags = fl,
          frame_data = (case src of None \<Rightarrow> replicate cap 0
             | Some b \<Rightarrow> if len \<noteq> 0 then memcpy_into (replicate cap 0) b len else replicate cap 0)\<rparr>"
proof -
  have v: "validate_flags cap fl = ok" and rtr: "has_flag fl flag_rtr \<longrightarrow> len = 0" and "len \<le> cap"
    using make_frame_accepts [of cap i src len fl ts] assms by (auto simp: make_ok_def)
  moreover obtain fit where "length_to_dlc len (has_flag fl flag_fd) = Inr fit" "fit_padding fit = 0"
    using assms v rtr by (auto simp: make_frame_of_def Let_def try_bind_Inr_iff split: if_splits)
  moreover from this have "f = \<lparr>timestamp_ns = ts, frame_id = i, frame_dlc = fit_dlc fit, frame_flags = fl,
          frame_data = (case src of None \<Rightarrow> replicate cap 0
             | Some b \<Rightarrow> if len \<noteq> 0 then memcpy_into (replicate cap 0) b len else replicate cap 0)\<rparr>"
    using assms calculation by (auto simp: make_frame_of_def Let_def empty_frame_def split: option.splits if_splits)
  ultimately show thesis using that by blast
qed

lemma make_frame_builds:
  assumes "make_frame_of cap i (Some b) len fl ts = Inr f" and "len \<le> length b"
  shows "wf_frame cap f \<and> frame_id f = i \<and> frame_flags f = fl \<and> timestamp_ns f = ts
    \<and> frame_size f = len \<and> payload_of f = take len b
    \<and> drop len (frame_data f) = replicate (cap - len) 0"
proof -
  from assms(1) obtain fit where v: "validate_flags cap fl = ok"
    and rtr: "has_flag fl flag_rtr \<longrightarrow> len = 0" and cap: "len \<le> cap"
    and fit: "length_to_dlc len (has_flag fl flag_fd) = Inr fit" "fit_padding fit = 0"
    and f: "f = \<lparr>timestamp_ns = ts, frame_id = i, frame_dlc = fit_dlc fit, frame_flags = fl,
          frame_data = (if len \<noteq> 0 then memcpy_into (replicate cap 0) b len else replicate cap 0)\<rparr>"
    by (rule make_frame_Inr) auto
  note len = length_to_dlc_smallest(1,2,3) [OF fit(1)]
  have size: "frame_size f = len"
    using len rtr fit(2) by (auto simp: f frame_size_def is_remote_def is_fd_def)
  have data: "frame_data f = take len b @ replicate (cap - len) 0"
    by (simp add: f memcpy_into_def)
  have "length (frame_data f) = cap" using data cap assms(2) by simp
  moreover have "drop len (frame_data f) = replicate (cap - len) 0"
    using data assms(2) by simp
  moreover have "payload_of f = take len b" using data assms(2) by (simp add: payload_of_def size)
  moreover have "frame_dlc f \<le> 15" "frame_id f = i" "frame_flags f = fl" "timestamp_ns f = ts"
    using len(1) by (simp_all add: f)
  ultimately show ?thesis using size v cap by (simp add: wf_frame_def)
qed

lemma from_wire_builds:
  assumes "from_wire cap i dlc (Some b) fl ts = Inr f" and "unat (dlc_to_length dlc (has_flag fl flag_fd)) \<le> length b"
  shows "wf_frame cap f \<and> frame_id f = i \<and> frame_dlc f = dlc \<and> frame_flags f = fl \<and> timestamp_ns f = ts
    \<and> payload_of f = take (frame_size f) b"
proof -
  let ?len = "dlc_to_length dlc (has_flag fl flag_fd)"
  have v: "validate_flags cap fl = ok" and dlc: "dlc \<le> 15" and cap: "unat ?len \<le> cap"
    and f: "f = \<lparr>timestamp_ns = ts, frame_id = i, frame_dlc = dlc, frame_flags = fl,
          frame_data = (if ?len \<noteq> 0 then memcpy_into (replicate cap 0) b (unat ?len) else replicate cap 0)\<rparr>"
    using assms(1)
    by (auto simp: from_wire_def Let_def try_bind_Inr_iff empty_frame_def split: if_splits)
  have data: "frame_data f = take (unat ?len) b @ replicate (cap - unat ?len) 0"
    by (simp add: f memcpy_into_def)
  have size: "frame_size f = (if has_flag fl flag_rtr then 0 else unat ?len)"
    by (simp add: f frame_size_def is_remote_def is_fd_def)
  show ?thesis
    using data size v dlc cap assms(2) by (simp add: wf_frame_def payload_of_def) (simp add: f)
qed

lemma make_remote_builds:
  assumes "make_remote cap i n ts = Inr f"
  shows "wf_frame cap f \<and> frame_size f = 0 \<and> is_remote f \<and> frame_dlc f = n \<and> n \<le> 8 \<and> frame_id f = i"
proof -
  have n: "n \<le> 8" and f: "f = (empty_frame cap)\<lparr>frame_id := i, frame_dlc := n, frame_flags := flag_rtr,
      timestamp_ns := ts\<rparr>" using assms by (auto simp: make_remote_def split: if_splits)
  have "n \<le> 15" using n by (rule order_trans) simp
  then show ?thesis using n
    by (simp add: f wf_frame_def frame_size_def is_remote_def has_flag_def flag_defs validate_flags_def)
qed

lemma widen_keeps:
  assumes "wf_frame 8 f"
  shows "wf_frame 64 (widen 64 f) \<and> payload_of (widen 64 f) = payload_of f \<and> frame_eq (widen 64 f) f
    \<and> timestamp_ns (widen 64 f) = timestamp_ns f"
proof -
  have l: "length (frame_data f) = 8" "frame_size f \<le> 8" "frame_dlc f \<le> 15"
    and v: "validate_flags 8 (frame_flags f) = ok" using assms by (auto simp: wf_frame_def)
  have w: "widen 64 f = \<lparr>timestamp_ns = timestamp_ns f, frame_id = frame_id f, frame_dlc = frame_dlc f,
     frame_flags = frame_flags f,
     frame_data = take (frame_size f) (frame_data f) @ replicate (64 - frame_size f) 0\<rparr>"
    using l by (simp add: widen_def assign_unchecked_def empty_frame_def memcpy_into_def Let_def)
  have "frame_size (widen 64 f) = frame_size f"
    by (simp add: w frame_size_def is_remote_def is_fd_def)
  moreover have "validate_flags 64 (frame_flags f) = ok"
    using v by (auto simp: validate_flags_def Let_def split: if_splits)
  ultimately show ?thesis using l
    by (simp add: wf_frame_def payload_of_def frame_eq_def) (simp add: w)
qed

lemma from_wire_rebuilds:
  assumes wf: "wf_frame cap f" and cap: "cap = 8 \<or> cap = 64"
  shows "\<exists>g. from_wire cap (frame_id f) (frame_dlc f) (Some (frame_data f)) (frame_flags f) (timestamp_ns f) = Inr g
    \<and> frame_eq g f \<and> timestamp_ns g = timestamp_ns f"
proof -
  let ?fd = "has_flag (frame_flags f) flag_fd"
  let ?len = "unat (dlc_to_length (frame_dlc f) ?fd)"
  have v: "validate_flags cap (frame_flags f) = ok" and d: "frame_dlc f \<le> 15" and l: "length (frame_data f) = cap"
    using wf by (simp_all add: wf_frame_def)
  have d16: "unat (frame_dlc f) < 16" using d by (simp add: word_le_nat_alt)
  have len: "?len \<le> cap"
  proof (cases ?fd)
    case True
    then have "64 \<le> cap" using v by (auto simp: validate_flags_def Let_def split: if_splits)
    then show ?thesis using True d kFd_le64 [OF d16] by (simp add: dlc_to_length_def word_le_nat_alt)
  next
    case False
    then show ?thesis using d cap by (auto simp: dlc_to_length_def word_le_nat_alt word_less_nat_alt)
  qed
  then obtain g where g: "from_wire cap (frame_id f) (frame_dlc f) (Some (frame_data f)) (frame_flags f) (timestamp_ns f) = Inr g"
    using v d by (auto simp: from_wire_def Let_def word_le_nat_alt word_less_nat_alt)
  have "?len \<le> length (frame_data f)" using len l by simp
  note b = from_wire_builds [OF g this]
  then have "frame_size g = frame_size f" by (simp add: frame_size_def is_remote_def is_fd_def)
  then show ?thesis using g b by (simp add: frame_eq_def payload_of_def)
qed

subsection \<open>Properties of frames\<close>

text \<open>C26. \<open>operator<\<close> on identifiers is the arbitration order of the bus: the 11-bit bases are compared
  first, on equal bases a standard identifier beats an extended one, and two extended ones compare
  their 18 remaining bits; identifiers that tie are the same identifier.\<close>

theorem arbitration_is_bus_order:
  assumes "wf_id a" and "wf_id b"
  shows "(id_less a b \<longleftrightarrow>
      key_base a < key_base b
      \<or> key_base a = key_base b \<and> \<not> is_extended a \<and> is_extended b
      \<or> key_base a = key_base b \<and> is_extended a \<and> is_extended b \<and> key_ext a < key_ext b)
    \<and> (id_less a b \<or> id_less b a \<or> a = b)"
proof -
  have "arbitration_key a = arbitration_key b \<Longrightarrow> a = b" by (rule arbitration_key_inject [OF assms])
  then show ?thesis using arbitration_order [OF assms] unfolding id_less_def by (meson linorder_less_linear)
qed

theorem arbitration_is_bus_order_witness:
  "id_less (make_id 0x123 False) (make_id (0x123 * 2 ^ 18) True)"
proof -
  have "wf_id (make_id 0x123 False)" "wf_id (make_id (0x123 * 2 ^ 18) True)"
    by (rule make_id_standard make_id_extended, simp add: kStandardIdMax_def kExtendedIdMax_def)+
  from arbitration_is_bus_order [OF this] show ?thesis
    by (simp add: key_base_def make_id_def is_extended_def id_value_def kEffFlag_def kExtendedIdMax_def)
qed

text \<open>\<open>make\<close> accepts exactly the payloads the protocol can carry with these flags (a CAN FD length
  must be one a data length code encodes, a remote frame carries none), and what it then builds is
  a well-formed frame with the identifier, flags, timestamp and bytes it was given.\<close>

theorem make_frame_exact:
  "((\<exists>f. make_frame_of cap i src len fl ts = Inr f) \<longleftrightarrow> make_ok cap len fl) \<and>
   (\<forall>f. make_frame_of cap i (Some b) len fl ts = Inr f \<and> len \<le> length b \<longrightarrow>
      wf_frame cap f \<and> frame_id f = i \<and> frame_flags f = fl \<and> timestamp_ns f = ts \<and>
      frame_size f = len \<and> payload_of f = take len b)"
  using make_frame_accepts make_frame_builds by blast

theorem make_frame_exact_witness:
  "\<exists>f. make_frame_of 64 (CanId 1) (Some (replicate 64 9)) 12 flag_fd 5 = Inr f \<and> payload_of f = replicate 12 9"
proof -
  have "make_ok 64 12 flag_fd" by (simp add: make_ok_def validate_flags_def has_flag_def flag_defs kFdDlcToLength_def)
  then show ?thesis using make_frame_exact [of 64 "CanId 1" "Some (replicate 64 9)" 12 flag_fd 5 "replicate 64 9"]
    by auto
qed

text \<open>\<open>length_to_dlc\<close> answers for every length up to 8 (64 for CAN FD) and refuses the others; the
  code it returns has at most four bits, is the smallest one whose length holds the payload, and
  the padding is exactly the difference.\<close>

theorem length_to_dlc_minimal:
  "((\<exists>fit. length_to_dlc len fd = Inr fit) \<longleftrightarrow> len \<le> (if fd then 64 else 8)) \<and>
   (\<forall>fit. length_to_dlc len fd = Inr fit \<longrightarrow>
      fit_dlc fit \<le> 15 \<and> dlc_to_length (fit_dlc fit) fd = fit_length fit \<and>
      unat (fit_length fit) = len + unat (fit_padding fit) \<and>
      (\<forall>d. d < fit_dlc fit \<longrightarrow> unat (dlc_to_length d fd) < len))"
  using length_to_dlc_total length_to_dlc_smallest by blast

theorem length_to_dlc_minimal_witness:
  "\<exists>fit. length_to_dlc 13 True = Inr fit \<and> fit_dlc fit \<le> 15"
  using length_to_dlc_minimal [of 13 True] by auto

text \<open>\<open>from_wire\<close> applied to the fields of a well-formed frame succeeds and gives an equal frame with
  the same timestamp, data length codes above eight included.\<close>

theorem from_wire_roundtrip:
  assumes "wf_frame cap f" and "cap = 8 \<or> cap = 64"
  shows "\<exists>g. from_wire cap (frame_id f) (frame_dlc f) (Some (frame_data f)) (frame_flags f) (timestamp_ns f) = Inr g
    \<and> frame_eq g f \<and> timestamp_ns g = timestamp_ns f"
  by (rule from_wire_rebuilds [OF assms])

theorem from_wire_roundtrip_witness:
  "\<exists>g. from_wire 8 (CanId 5) 15 (Some (replicate 8 1)) flag_none 7 = Inr g
    \<and> frame_eq g \<lparr>timestamp_ns = 7, frame_id = CanId 5, frame_dlc = 15, frame_flags = flag_none, frame_data = replicate 8 1\<rparr>"
  using from_wire_roundtrip [of 8 "\<lparr>timestamp_ns = 7, frame_id = CanId 5, frame_dlc = 15, frame_flags = flag_none,
      frame_data = replicate 8 1\<rparr>"]
  by (auto simp: wf_frame_def frame_size_def dlc_to_length_def is_remote_def is_fd_def has_flag_def flag_defs validate_flags_def)

lemma extended_id_wf: "extended_id v = Inr i \<Longrightarrow> wf_id i"
  using make_id_extended(1) [of v] by (auto simp: extended_id_def split: if_splits)

lemma standard_id_wf: "standard_id v = Inr i \<Longrightarrow> wf_id i"
  using make_id_standard(1) [of v] by (auto simp: standard_id_def split: if_splits)

end
