(* ===== verification/Double.thy ===== *)
theory Double
  imports Prelude Complex_Main
begin

text \<open>
  The floating point numbers of the code: IEEE 754 binary64 and binary32 with the default rounding,
  to nearest with ties to even. A finite number is a sign, a significand and an exponent of two; every
  operation is exact arithmetic on these followed by one rounding. There is one NaN: its payload is not
  modelled. \<open>dval\<close> is the real number a finite one stands for.
\<close>

subsection \<open>Numbers and formats\<close>

datatype double = DNaN | DInf bool | DFin bool nat int

record float_format =
  precision :: nat
  min_exp :: int
  max_exp :: int

definition binary64 :: float_format where
  "binary64 = \<lparr>precision = 53, min_exp = -1074, max_exp = 971\<rparr>"

definition binary32 :: float_format where
  "binary32 = \<lparr>precision = 24, min_exp = -149, max_exp = 104\<rparr>"

fun dval :: "double \<Rightarrow> real" where
  "dval (DFin s m e) = (if s then - real m else real m) * 2 powi e"
| "dval _ = 0"

fun is_finite :: "double \<Rightarrow> bool" where
  "is_finite (DFin s m e) = True"
| "is_finite _ = False"

fun is_nan :: "double \<Rightarrow> bool" where
  "is_nan DNaN = True"
| "is_nan _ = False"

fun representable :: "float_format \<Rightarrow> double \<Rightarrow> bool" where
  "representable F (DFin s m e) \<longleftrightarrow> m < 2 ^ precision F \<and> min_exp F \<le> e \<and> e \<le> max_exp F \<and>
     (2 ^ (precision F - 1) \<le> m \<or> e = min_exp F)"
| "representable F _ \<longleftrightarrow> True"

subsection \<open>Rounding a quotient\<close>

fun floor_log2 :: "nat \<Rightarrow> nat" where
  "floor_log2 n = (if n < 2 then 0 else Suc (floor_log2 (n div 2)))"

declare floor_log2.simps [simp del]

text \<open>The exponent \<open>k\<close> with \<open>2 ^ k \<le> n / d < 2 ^ (k + 1)\<close>.\<close>

definition at_least_power :: "nat \<Rightarrow> nat \<Rightarrow> int \<Rightarrow> bool" where
  "at_least_power n d k \<longleftrightarrow> (if k \<ge> 0 then d * 2 ^ nat k \<le> n else d \<le> n * 2 ^ nat (- k))"

definition quotient_log2 :: "nat \<Rightarrow> nat \<Rightarrow> int" where
  "quotient_log2 n d =
     (let k = int (floor_log2 n) - int (floor_log2 d) in if at_least_power n d k then k else k - 1)"

definition half_even :: "nat \<Rightarrow> nat \<Rightarrow> nat" where
  "half_even n d =
     (let q = n div d; r = n mod d in if 2 * r > d \<or> (2 * r = d \<and> odd q) then q + 1 else q)"

definition round_quotient :: "float_format \<Rightarrow> bool \<Rightarrow> nat \<Rightarrow> nat \<Rightarrow> double" where
  "round_quotient F s n d =
     (if n = 0 then DFin s 0 (min_exp F)
      else
        let e = max (min_exp F) (quotient_log2 n d - int (precision F) + 1);
            q = (if e \<ge> 0 then half_even n (d * 2 ^ nat e) else half_even (n * 2 ^ nat (- e)) d);
            (q, e) = (if q = 2 ^ precision F then (2 ^ (precision F - 1), e + 1) else (q, e))
        in if e > max_exp F then DInf s else DFin s q e)"

definition round_scaled :: "float_format \<Rightarrow> bool \<Rightarrow> nat \<Rightarrow> int \<Rightarrow> double" where
  "round_scaled F s n k =
     (if k \<ge> 0 then round_quotient F s (n * 2 ^ nat k) 1 else round_quotient F s n (2 ^ nat (- k)))"

subsection \<open>Arithmetic of doubles\<close>

abbreviation dzero :: double where
  "dzero \<equiv> DFin False 0 (-1074)"

definition of_integer :: "int \<Rightarrow> double" where
  "of_integer i = round_quotient binary64 (i < 0) (nat \<bar>i\<bar>) 1"

fun d_neg :: "double \<Rightarrow> double" where
  "d_neg DNaN = DNaN"
| "d_neg (DInf s) = DInf (\<not> s)"
| "d_neg (DFin s m e) = DFin (\<not> s) m e"

fun d_abs :: "double \<Rightarrow> double" where
  "d_abs DNaN = DNaN"
| "d_abs (DInf s) = DInf False"
| "d_abs (DFin s m e) = DFin False m e"

definition signed_at :: "int \<Rightarrow> bool \<Rightarrow> nat \<Rightarrow> int \<Rightarrow> int" where
  "signed_at k s m e = (if s then - int m else int m) * 2 ^ nat (e - k)"

fun d_add :: "double \<Rightarrow> double \<Rightarrow> double" where
  "d_add (DFin s m e) (DFin t n f) =
     (let k = min e f; z = signed_at k s m e + signed_at k t n f in
      if z = 0 then DFin (s \<and> t) 0 (-1074) else round_scaled binary64 (z < 0) (nat \<bar>z\<bar>) k)"
| "d_add (DInf s) (DInf t) = (if s = t then DInf s else DNaN)"
| "d_add (DInf s) (DFin t n f) = DInf s"
| "d_add (DFin s m e) (DInf t) = DInf t"
| "d_add _ _ = DNaN"

definition d_sub :: "double \<Rightarrow> double \<Rightarrow> double" where
  "d_sub a b = d_add a (d_neg b)"

fun d_mul :: "double \<Rightarrow> double \<Rightarrow> double" where
  "d_mul (DFin s m e) (DFin t n f) = round_scaled binary64 (s \<noteq> t) (m * n) (e + f)"
| "d_mul (DInf s) (DInf t) = DInf (s \<noteq> t)"
| "d_mul (DInf s) (DFin t n f) = (if n = 0 then DNaN else DInf (s \<noteq> t))"
| "d_mul (DFin s m e) (DInf t) = (if m = 0 then DNaN else DInf (s \<noteq> t))"
| "d_mul _ _ = DNaN"

fun d_div :: "double \<Rightarrow> double \<Rightarrow> double" where
  "d_div (DFin s m e) (DFin t n f) =
     (if n = 0 then if m = 0 then DNaN else DInf (s \<noteq> t)
      else if e \<ge> f then round_quotient binary64 (s \<noteq> t) (m * 2 ^ nat (e - f)) n
      else round_quotient binary64 (s \<noteq> t) m (n * 2 ^ nat (f - e)))"
| "d_div (DInf s) (DInf t) = DNaN"
| "d_div (DInf s) (DFin t n f) = DInf (s \<noteq> t)"
| "d_div (DFin s m e) (DInf t) = DFin (s \<noteq> t) 0 (-1074)"
| "d_div _ _ = DNaN"

fun d_less :: "double \<Rightarrow> double \<Rightarrow> bool" where
  "d_less (DFin s m e) (DFin t n f) \<longleftrightarrow> (let k = min e f in signed_at k s m e < signed_at k t n f)"
| "d_less (DInf s) (DInf t) \<longleftrightarrow> s \<and> \<not> t"
| "d_less (DInf s) (DFin t n f) \<longleftrightarrow> s"
| "d_less (DFin s m e) (DInf t) \<longleftrightarrow> \<not> t"
| "d_less _ _ \<longleftrightarrow> False"

fun d_eq :: "double \<Rightarrow> double \<Rightarrow> bool" where
  "d_eq (DFin s m e) (DFin t n f) \<longleftrightarrow> (let k = min e f in signed_at k s m e = signed_at k t n f)"
| "d_eq (DInf s) (DInf t) \<longleftrightarrow> s = t"
| "d_eq _ _ \<longleftrightarrow> False"

definition d_le :: "double \<Rightarrow> double \<Rightarrow> bool" where
  "d_le a b \<longleftrightarrow> d_less a b \<or> d_eq a b"

text \<open>\<open>std::min\<close> and \<open>std::max\<close>, which return the first argument unless the second is smaller, or greater.\<close>

definition d_min :: "double \<Rightarrow> double \<Rightarrow> double" where
  "d_min a b = (if d_less b a then b else a)"

definition d_max :: "double \<Rightarrow> double \<Rightarrow> double" where
  "d_max a b = (if d_less a b then b else a)"

text \<open>\<open>std::round\<close>: to the nearest integer, halves away from zero.\<close>

fun d_round :: "double \<Rightarrow> double" where
  "d_round (DFin s m e) =
     (if e \<ge> 0 then DFin s m e
      else round_quotient binary64 s ((2 * m + 2 ^ nat (- e)) div (2 * 2 ^ nat (- e))) 1)"
| "d_round d = d"

text \<open>The integer part, which a conversion to an integer type takes; \<open>None\<close> where there is none.\<close>

fun d_trunc :: "double \<Rightarrow> int option" where
  "d_trunc (DFin s m e) =
     (let n = (if e \<ge> 0 then m * 2 ^ nat e else m div 2 ^ nat (- e)) in Some (if s then - int n else int n))"
| "d_trunc _ = None"

subsection \<open>Bit patterns\<close>

definition double_of_bits :: "u64 \<Rightarrow> double" where
  "double_of_bits b =
     (let s = bit b 63; x = unat (take_bit 11 (drop_bit 52 b)); f = unat (take_bit 52 b) in
      if x = 2047 then if f = 0 then DInf s else DNaN
      else if x = 0 then DFin s f (-1074)
      else DFin s (2 ^ 52 + f) (int x - 1075))"

fun bits_of_double :: "double \<Rightarrow> u64" where
  "bits_of_double DNaN = 0x7FF8000000000000"
| "bits_of_double (DInf s) = push_bit 63 (of_bool s) OR 0x7FF0000000000000"
| "bits_of_double (DFin s m e) =
     push_bit 63 (of_bool s) OR
     (if m < 2 ^ 52 then of_nat m else push_bit 52 (of_nat (nat (e + 1075))) OR of_nat (m - 2 ^ 52))"

definition double_of_single_bits :: "u32 \<Rightarrow> double" where
  "double_of_single_bits b =
     (let s = bit b 31; x = unat (take_bit 8 (drop_bit 23 b)); f = unat (take_bit 23 b) in
      if x = 255 then if f = 0 then DInf s else DNaN
      else if x = 0 then round_scaled binary64 s f (-149)
      else round_scaled binary64 s (2 ^ 23 + f) (int x - 150))"

fun single_of_double :: "double \<Rightarrow> double" where
  "single_of_double (DFin s m e) = round_scaled binary32 s m e"
| "single_of_double d = d"

fun bits_of_single :: "double \<Rightarrow> u32" where
  "bits_of_single DNaN = 0x7FC00000"
| "bits_of_single (DInf s) = push_bit 31 (of_bool s) OR 0x7F800000"
| "bits_of_single (DFin s m e) =
     push_bit 31 (of_bool s) OR
     (if m < 2 ^ 23 then of_nat m else push_bit 23 (of_nat (nat (e + 150))) OR of_nat (m - 2 ^ 23))"

subsection \<open>The logarithm\<close>

lemma floor_log2_bounds: "0 < n \<Longrightarrow> 2 ^ floor_log2 n \<le> n \<and> n < 2 ^ Suc (floor_log2 n)"
proof (induction n rule: floor_log2.induct)
  case (1 n)
  show ?case
  proof (cases "n < 2")
    case True
    then show ?thesis using "1.prems" by (simp add: floor_log2.simps)
  next
    case False
    then have "2 ^ floor_log2 (n div 2) \<le> n div 2 \<and> n div 2 < 2 ^ Suc (floor_log2 (n div 2))" using "1.IH" by simp
    then show ?thesis using False by (subst (1 2) floor_log2.simps) auto
  qed
qed

lemma at_least_power_iff:
  assumes "0 < d"
  shows "at_least_power n d k \<longleftrightarrow> 2 powi k \<le> real n / real d"
proof (cases "k \<ge> 0")
  case True
  have "at_least_power n d k \<longleftrightarrow> d * 2 ^ nat k \<le> n" using True by (simp add: at_least_power_def)
  also have "\<dots> \<longleftrightarrow> real (d * 2 ^ nat k) \<le> real n" by (rule of_nat_le_iff [symmetric])
  also have "\<dots> \<longleftrightarrow> 2 powi k \<le> real n / real d"
    using assms True by (simp add: power_int_def field_simps)
  finally show ?thesis .
next
  case False
  have "at_least_power n d k \<longleftrightarrow> d \<le> n * 2 ^ nat (- k)" using False by (simp add: at_least_power_def)
  also have "\<dots> \<longleftrightarrow> real d \<le> real (n * 2 ^ nat (- k))" by (rule of_nat_le_iff [symmetric])
  also have "\<dots> \<longleftrightarrow> 2 powi k \<le> real n / real d"
    using assms False by (simp add: power_int_def field_simps)
  finally show ?thesis .
qed

lemma quotient_log2_bounds:
  assumes "0 < n" and "0 < d"
  shows "2 powi quotient_log2 n d \<le> real n / real d" "real n / real d < 2 powi (quotient_log2 n d + 1)"
proof -
  let ?a = "floor_log2 n" and ?b = "floor_log2 d" and ?x = "real n / real d"
  define k where "k = int ?a - int ?b"
  have p: "2 powi (k + 1) = 2 ^ Suc ?a / (2 :: real) ^ ?b" "2 powi (k - 1) = 2 ^ ?a / (2 :: real) ^ Suc ?b"
    unfolding k_def by (simp_all add: power_int_diff power_int_add)
  have n: "2 ^ ?a \<le> n" "n < 2 ^ Suc ?a" and d: "2 ^ ?b \<le> d" "d < 2 ^ Suc ?b"
    using floor_log2_bounds assms by auto
  have rn: "(2 :: real) ^ ?a \<le> real n" "real n < 2 ^ Suc ?a" and rd: "(2 :: real) ^ ?b \<le> real d" "real d < 2 ^ Suc ?b"
    using n d by (metis of_nat_le_iff of_nat_less_iff of_nat_numeral of_nat_power)+
  have up: "?x < 2 powi (k + 1)"
  proof -
    have "?x \<le> real n / 2 ^ ?b" using rd(1) assms by (simp add: frac_le)
    also have "\<dots> < 2 ^ Suc ?a / 2 ^ ?b" using rn(2) by (simp add: divide_strict_right_mono)
    finally show ?thesis unfolding p .
  qed
  have lo: "2 powi (k - 1) \<le> ?x"
  proof -
    have "(2 :: real) ^ ?a / 2 ^ Suc ?b \<le> 2 ^ ?a / real d" using rd assms by (simp add: frac_le)
    also have "\<dots> \<le> ?x" using rn(1) by (simp add: divide_right_mono)
    finally show ?thesis unfolding p .
  qed
  have q: "quotient_log2 n d = (if at_least_power n d k then k else k - 1)"
    by (simp add: quotient_log2_def k_def Let_def)
  show "2 powi quotient_log2 n d \<le> ?x" "?x < 2 powi (quotient_log2 n d + 1)"
    using up lo at_least_power_iff [OF assms(2), of n k] by (auto simp: q)
qed

subsection \<open>The error of one rounding\<close>

lemma half_even_error:
  assumes "0 < d"
  shows "\<bar>real (half_even n d) - real n / real d\<bar> \<le> 1 / 2"
proof -
  define q r where "q = n div d" and "r = n mod d"
  have x: "real n / real d = real q + real r / real d"
  proof -
    have "real n = real d * real q + real r"
      unfolding q_def r_def by (metis mult_div_mod_eq of_nat_add of_nat_mult)
    then show ?thesis using assms by (simp add: field_simps)
  qed
  have r: "real r / real d < 1" "0 \<le> real r / real d" using assms by (simp_all add: r_def)
  have half: "2 * r \<le> d \<longleftrightarrow> real r / real d \<le> 1 / 2" using assms
    by (simp add: field_simps) (metis mult.commute of_nat_le_iff of_nat_mult of_nat_numeral)
  show ?thesis
    unfolding half_even_def Let_def q_def [symmetric] r_def [symmetric] x using r half assms
    by (auto simp del: divide_eq_eq_numeral1 split: if_splits)
qed

lemma half_even_exact: "0 < d \<Longrightarrow> d dvd n \<Longrightarrow> half_even n d = n div d"
  by (auto simp: half_even_def)

lemma half_even_bound:
  assumes "0 < d" and "n < 2 ^ p * d"
  shows "half_even n d \<le> 2 ^ p"
proof -
  have "n div d < 2 ^ p" using assms by (simp add: less_mult_imp_div_less)
  then show ?thesis by (simp add: half_even_def Let_def)
qed

text \<open>The rounding at one exponent, on reals.\<close>

definition scaled_half_even :: "nat \<Rightarrow> nat \<Rightarrow> int \<Rightarrow> nat" where
  "scaled_half_even n d e = (if e \<ge> 0 then half_even n (d * 2 ^ nat e) else half_even (n * 2 ^ nat (- e)) d)"

lemma scaled_quotient:
  assumes "0 < d"
  obtains N D where "scaled_half_even n d e = half_even N D" "0 < D" "real N / real D = real n / real d / 2 powi e"
proof (cases "e \<ge> 0")
  case True
  then show ?thesis using that [of n "d * 2 ^ nat e"] assms
    by (simp add: scaled_half_even_def power_int_def)
next
  case False
  then show ?thesis using that [of "n * 2 ^ nat (- e)" d] assms
    by (simp add: scaled_half_even_def power_int_def field_simps)
qed

lemma scaled_half_even_error:
  assumes "0 < d"
  shows "\<bar>real (scaled_half_even n d e) * 2 powi e - real n / real d\<bar> \<le> 2 powi e / 2"
proof -
  have "\<bar>real (scaled_half_even n d e) - real n / real d / 2 powi e\<bar> \<le> 1 / 2"
    by (rule scaled_quotient [OF assms, of n e]) (metis half_even_error)
  then have "\<bar>real (scaled_half_even n d e) - real n / real d / 2 powi e\<bar> * 2 powi e \<le> 1 / 2 * 2 powi e"
    by (intro mult_right_mono) simp_all
  then have "\<bar>(real (scaled_half_even n d e) - real n / real d / 2 powi e) * 2 powi e\<bar> \<le> 1 / 2 * 2 powi e"
    by (simp add: abs_mult)
  then show ?thesis by (simp add: left_diff_distrib)
qed

lemma scaled_half_even_le:
  assumes "0 < d" and "real n / real d < 2 ^ p * 2 powi e"
  shows "scaled_half_even n d e \<le> 2 ^ p"
proof -
  obtain N D where N: "scaled_half_even n d e = half_even N D" "0 < D" "real N / real D = real n / real d / 2 powi e"
    by (rule scaled_quotient [OF assms(1)])
  have "real N / real D < 2 ^ p" unfolding N(3) using assms(2) by (subst pos_divide_less_eq) simp_all
  then have "real N < 2 ^ p * real D" using N(2) by (simp add: pos_divide_less_eq)
  then have "real N < real (2 ^ p * D)" by simp
  then have "N < 2 ^ p * D" by (simp only: of_nat_less_iff)
  then show ?thesis unfolding N(1) by (rule half_even_bound [OF N(2)])
qed

lemma scaled_half_even_exact:
  assumes "0 < d" and "real n / real d = real m * 2 powi e"
  shows "scaled_half_even n d e = m"
proof -
  obtain N D where N: "scaled_half_even n d e = half_even N D" "0 < D" "real N / real D = real n / real d / 2 powi e"
    by (rule scaled_quotient [OF assms(1)])
  have "real N = real (m * D)" using N(2,3) unfolding assms(2) by (simp add: field_simps)
  then have "N = m * D" by (simp only: of_nat_eq_iff)
  then show ?thesis unfolding N(1) using half_even_exact [OF N(2), of N] N(2) by simp
qed

lemma scaled_half_even_ge:
  assumes "0 < d" and "2 ^ p * 2 powi e \<le> real n / real d"
  shows "2 ^ p \<le> scaled_half_even n d e"
proof -
  obtain N D where N: "scaled_half_even n d e = half_even N D" "0 < D" "real N / real D = real n / real d / 2 powi e"
    by (rule scaled_quotient [OF assms(1)])
  have "2 ^ p \<le> real N / real D" unfolding N(3) using assms(2) by (subst pos_le_divide_eq) simp_all
  then have "real (2 ^ p * D) \<le> real N" using N(2) by (simp add: pos_le_divide_eq)
  then have "2 ^ p * D \<le> N" by (simp only: of_nat_le_iff)
  then have "2 ^ p \<le> N div D" using N(2) by (simp add: less_eq_div_iff_mult_less_eq)
  then show ?thesis unfolding N(1) half_even_def Let_def by simp
qed

definition good_format :: "float_format \<Rightarrow> bool" where
  "good_format F \<longleftrightarrow> 1 \<le> precision F \<and> min_exp F < max_exp F"

lemma good_formats [simp]: "good_format binary64" "good_format binary32"
  by (simp_all add: good_format_def binary64_def binary32_def)

lemma powi_mono: "i \<le> j \<Longrightarrow> (2 :: real) powi i \<le> 2 powi j"
  by (rule power_int_increasing) simp_all

lemma powi_less_iff: "(2 :: real) powi i < 2 powi j \<longleftrightarrow> i < j"
  by (meson linorder_not_less powi_mono power_int_strict_increasing one_less_numeral_iff semiring_norm(76))

lemma powi_nat_add: "(2 :: real) ^ k * 2 powi e = 2 powi (int k + e)"
  by (simp add: power_int_add)

lemma round_quotient_cases:
  assumes "good_format F" and "0 < d" and "0 < n"
    and "real n / real d < 2 powi (max_exp F + int (precision F) - 1)"
    and "E = max (min_exp F) (quotient_log2 n d - int (precision F) + 1)"
  obtains q e where "round_quotient F s n d = DFin s q e" "representable F (DFin s q e)"
    "real q * 2 powi e = real (scaled_half_even n d E) * 2 powi E" "E \<le> e" "e \<le> E + 1"
proof -
  let ?x = "real n / real d" and ?l = "quotient_log2 n d" and ?P = "precision F"
  define h where "h = scaled_half_even n d E"
  have P: "1 \<le> ?P" "min_exp F < max_exp F" using assms(1) by (simp_all add: good_format_def)
  have l: "2 powi ?l \<le> ?x" "?x < 2 powi (?l + 1)" using quotient_log2_bounds [OF assms(3,2)] by simp_all
  have "(2 :: real) powi ?l < 2 powi (max_exp F + int ?P - 1)" using l(1) assms(4) by linarith
  then have "?l < max_exp F + int ?P - 1" by (simp only: powi_less_iff)
  then have E: "E < max_exp F" "min_exp F \<le> E" "?l + 1 \<le> E + int ?P" using P assms(5) by auto
  have "?x < 2 ^ ?P * 2 powi E"
  proof -
    have "(2 :: real) powi (?l + 1) \<le> 2 powi (int ?P + E)" using E(3) by (intro powi_mono) simp
    then show ?thesis using l(2) by (simp add: power_int_add)
  qed
  then have up: "h \<le> 2 ^ ?P" unfolding h_def by (rule scaled_half_even_le [OF assms(2)])
  have lo: "2 ^ (?P - 1) \<le> h" if "E \<noteq> min_exp F"
    unfolding h_def
  proof (rule scaled_half_even_ge [OF assms(2)])
    have "E = ?l - int ?P + 1" using that assms(5) by auto
    then have e: "int (?P - 1) + E = ?l" using P(1) by simp
    have "(2 :: real) ^ (?P - 1) * 2 powi E = 2 powi (int (?P - 1) + E)" by (rule powi_nat_add)
    then show "2 ^ (?P - 1) * 2 powi E \<le> ?x" using l(1) unfolding e by simp
  qed
  have r: "round_quotient F s n d = (let (q, e) = (if h = 2 ^ ?P then (2 ^ (?P - 1), E + 1) else (h, E))
      in if e > max_exp F then DInf s else DFin s q e)"
    using assms(3) unfolding round_quotient_def assms(5) [symmetric] h_def scaled_half_even_def by (simp add: Let_def)
  show ?thesis
  proof (cases "h = 2 ^ ?P")
    case True
    have "(2 :: real) ^ ?P = 2 * 2 ^ (?P - 1)" using P(1) by (simp add: power_eq_if)
    moreover have "(2 :: real) powi (E + 1) = 2 powi E * 2" by (simp add: power_int_add)
    moreover have "(2 :: nat) ^ (?P - 1) < 2 ^ ?P" using P(1) by simp
    ultimately show ?thesis
      using that [of "2 ^ (?P - 1)" "E + 1"] r True E by (simp add: h_def [symmetric])
  next
    case False
    then show ?thesis using that [of h E] r up lo E by (force simp: h_def [symmetric])
  qed
qed

text \<open>A rounding far from overflow gives a number within half a unit in the last place.\<close>

lemma round_quotient_error:
  assumes "good_format F" and "0 < d"
    and "real n / real d < 2 powi (max_exp F + int (precision F) - 1)"
  obtains q e where "round_quotient F s n d = DFin s q e" "representable F (DFin s q e)"
    "\<bar>real q * 2 powi e - real n / real d\<bar> \<le> real n / real d * 2 powi (- int (precision F)) + 2 powi (min_exp F - 1)"
proof (cases "n = 0")
  case True
  have "round_quotient F s n d = DFin s 0 (min_exp F)" "representable F (DFin s 0 (min_exp F))"
    using True assms(1) by (simp_all add: round_quotient_def good_format_def)
  then show ?thesis using that True by simp
next
  case False
  let ?x = "real n / real d" and ?l = "quotient_log2 n d" and ?P = "precision F"
  define E where "E = max (min_exp F) (?l - int ?P + 1)"
  obtain q e where r: "round_quotient F s n d = DFin s q e" "representable F (DFin s q e)"
    "real q * 2 powi e = real (scaled_half_even n d E) * 2 powi E"
    by (rule round_quotient_cases [OF assms(1,2) _ assms(3) E_def, where s = s]) (use False in auto)
  have l: "2 powi ?l \<le> ?x" using quotient_log2_bounds [of n d] False assms(2) by simp
  have "(2 :: real) powi E / 2 \<le> ?x * 2 powi (- int ?P) + 2 powi (min_exp F - 1)"
  proof (cases "E = min_exp F")
    case True
    have "(2 :: real) powi (min_exp F - 1) = 2 powi min_exp F / 2" by (simp add: power_int_diff)
    moreover have "0 \<le> ?x * 2 powi (- int ?P)" by simp
    ultimately show ?thesis unfolding True by linarith
  next
    case False
    then have e: "E = ?l - int ?P + 1" by (auto simp: E_def)
    have "(2 :: real) powi E / 2 = 2 powi ?l * 2 powi (- int ?P)"
      unfolding e by (simp add: power_int_add power_int_diff power_int_minus divide_simps)
    also have "\<dots> \<le> ?x * 2 powi (- int ?P)" using l by (rule mult_right_mono) simp
    finally show ?thesis by (simp add: add_increasing2)
  qed
  then show ?thesis using that [OF r(1,2)] scaled_half_even_error [OF assms(2), of n E] unfolding r(3) by linarith
qed

text \<open>A representable value is not changed.\<close>

lemma round_quotient_exact:
  assumes "good_format F" and "0 < d" and "real n / real d = real m * 2 powi f" and "m < 2 ^ precision F"
    and "min_exp F \<le> f" and "real n / real d < 2 powi (max_exp F + int (precision F) - 1)"
  obtains q e where "round_quotient F s n d = DFin s q e" "representable F (DFin s q e)"
    "real q * 2 powi e = real n / real d"
proof (cases "n = 0")
  case True
  have "round_quotient F s n d = DFin s 0 (min_exp F)" "representable F (DFin s 0 (min_exp F))"
    using True assms(1) by (simp_all add: round_quotient_def good_format_def)
  then show ?thesis using that True by simp
next
  case False
  let ?x = "real n / real d" and ?l = "quotient_log2 n d" and ?P = "precision F"
  define E where "E = max (min_exp F) (?l - int ?P + 1)"
  obtain q e where r: "round_quotient F s n d = DFin s q e" "representable F (DFin s q e)"
    "real q * 2 powi e = real (scaled_half_even n d E) * 2 powi E"
    by (rule round_quotient_cases [OF assms(1,2) _ assms(6) E_def, where s = s]) (use False in auto)
  have "2 powi ?l \<le> ?x" using quotient_log2_bounds [of n d] False assms(2) by simp
  moreover have "?x < 2 powi (int ?P + f)"
  proof -
    have "real m < real (2 ^ ?P)" using assms(4) by (simp only: of_nat_less_iff)
    then have "real m * 2 powi f < 2 ^ ?P * 2 powi f" by (intro mult_strict_right_mono) simp_all
    then show ?thesis unfolding assms(3) powi_nat_add .
  qed
  ultimately have "(2 :: real) powi ?l < 2 powi (int ?P + f)" by linarith
  then have "?l < int ?P + f" by (simp only: powi_less_iff)
  then have f: "E \<le> f" using assms(5) by (simp add: E_def)
  then have "(2 :: real) powi f = 2 ^ nat (f - E) * 2 powi E"
  proof -
    have "(2 :: real) powi f = 2 powi (int (nat (f - E)) + E)" using f by simp
    then show ?thesis by (simp only: powi_nat_add)
  qed
  then have x: "?x = real (m * 2 ^ nat (f - E)) * 2 powi E" unfolding assms(3) by simp
  have "real (scaled_half_even n d E) * 2 powi E = ?x" unfolding scaled_half_even_exact [OF assms(2) x] by (rule x [symmetric])
  then show ?thesis using that [OF r(1,2)] r(3) by simp
qed

subsection \<open>The operations on real values\<close>

definition rounds_to :: "real \<Rightarrow> double \<Rightarrow> bool" where
  "rounds_to x d \<longleftrightarrow> is_finite d \<and> representable binary64 d \<and>
     \<bar>dval d - x\<bar> \<le> \<bar>x\<bar> * 2 powi (- 53) + 2 powi (- 1075)"

lemma is_finite_DFin: "is_finite d \<longleftrightarrow> (\<exists>s m e. d = DFin s m e)"
  by (cases d) simp_all

lemma rounds_quotient:
  assumes "0 < d" and "real n / real d < 2 powi 1023" and "x = (if s then - (real n / real d) else real n / real d)"
  shows "rounds_to x (round_quotient binary64 s n d)"
proof -
  have "real n / real d < 2 powi (max_exp binary64 + int (precision binary64) - 1)" using assms(2) by (simp add: binary64_def)
  from round_quotient_error [OF good_formats(1) assms(1) this, of s] obtain q e where
    r: "round_quotient binary64 s n d = DFin s q e" "representable binary64 (DFin s q e)"
    "\<bar>real q * 2 powi e - real n / real d\<bar> \<le> real n / real d * 2 powi (- int (precision binary64)) + 2 powi (min_exp binary64 - 1)"
    by blast
  have "\<bar>dval (DFin s q e) - x\<bar> = \<bar>real q * 2 powi e - real n / real d\<bar>" unfolding assms(3) by auto
  moreover have "\<bar>x\<bar> = real n / real d" unfolding assms(3) by auto
  ultimately show ?thesis using r by (simp add: rounds_to_def binary64_def)
qed

lemma exact_quotient:
  assumes "0 < d" and "real n / real d = real m * 2 powi f" and "m < 2 ^ 53" and "-1074 \<le> f"
    and "real n / real d < 2 powi 1023"
  obtains q e where "round_quotient binary64 s n d = DFin s q e" "representable binary64 (DFin s q e)"
    "real q * 2 powi e = real n / real d"
  using round_quotient_exact [OF good_formats(1) assms(1,2), of s] assms(3-5) by (auto simp: binary64_def)

lemma scaled_as_quotient:
  obtains N D where "round_scaled F s n k = round_quotient F s N D" "0 < D" "real N / real D = real n * 2 powi k"
proof (cases "k \<ge> 0")
  case True
  then show ?thesis using that [of "n * 2 ^ nat k" 1] by (simp add: round_scaled_def power_int_def)
next
  case False
  then show ?thesis using that [of n "2 ^ nat (- k)"] by (simp add: round_scaled_def power_int_def divide_simps)
qed

lemma rounds_scaled:
  assumes "real n * 2 powi k < 2 powi 1023" and "x = (if s then - (real n * 2 powi k) else real n * 2 powi k)"
  shows "rounds_to x (round_scaled binary64 s n k)"
proof -
  obtain N D where N: "round_scaled binary64 s n k = round_quotient binary64 s N D" "0 < D" "real N / real D = real n * 2 powi k"
    by (rule scaled_as_quotient)
  show ?thesis unfolding N(1) using assms N(3) by (intro rounds_quotient [OF N(2)]) simp_all
qed

lemma signed_at_value:
  assumes "k \<le> e"
  shows "real_of_int (signed_at k s m e) * 2 powi k = dval (DFin s m e)"
proof -
  have "(2 :: real) powi e = 2 powi (int (nat (e - k)) + k)" using assms by simp
  then have "(2 :: real) powi e = 2 ^ nat (e - k) * 2 powi k" by (simp only: powi_nat_add)
  then show ?thesis by (simp add: signed_at_def)
qed

lemma rounds_zero: "rounds_to 0 (DFin s 0 (-1074))"
  by (simp add: rounds_to_def binary64_def)

lemma rounds_add:
  assumes "is_finite a" and "is_finite b" and "\<bar>dval a + dval b\<bar> < 2 powi 1023"
  shows "rounds_to (dval a + dval b) (d_add a b)"
proof -
  obtain s m e t n f where ab: "a = DFin s m e" "b = DFin t n f" using assms(1,2) by (auto simp: is_finite_DFin)
  define k where "k = min e f"
  define z where "z = signed_at k s m e + signed_at k t n f"
  have v: "dval a + dval b = real_of_int z * 2 powi k"
    unfolding ab z_def of_int_add distrib_right by (subst (1 2) signed_at_value) (simp_all add: k_def)
  have d: "d_add a b = (if z = 0 then DFin (s \<and> t) 0 (-1074) else round_scaled binary64 (z < 0) (nat \<bar>z\<bar>) k)"
    by (simp add: ab k_def z_def Let_def)
  show ?thesis
  proof (cases "z = 0")
    case True
    then show ?thesis unfolding d v using rounds_zero by simp
  next
    case False
    have n: "real (nat \<bar>z\<bar>) = \<bar>real_of_int z\<bar>" by simp
    have "\<bar>real_of_int z\<bar> * 2 powi k < 2 powi 1023" using assms(3) unfolding v abs_mult by simp
    moreover have "real_of_int z * 2 powi k = (if z < 0 then - (\<bar>real_of_int z\<bar> * 2 powi k) else \<bar>real_of_int z\<bar> * 2 powi k)" by simp
    ultimately show ?thesis unfolding d v using False rounds_scaled [of "nat \<bar>z\<bar>" k "real_of_int z * 2 powi k" "z < 0"]
      unfolding n by simp
  qed
qed

lemma d_neg_value [simp]: "dval (d_neg a) = - dval a" "is_finite (d_neg a) = is_finite a"
    "representable F (d_neg a) = representable F a"
  by (cases a; simp)+

lemma rounds_sub:
  assumes "is_finite a" and "is_finite b" and "\<bar>dval a - dval b\<bar> < 2 powi 1023"
  shows "rounds_to (dval a - dval b) (d_sub a b)"
  unfolding d_sub_def using rounds_add [of a "d_neg b"] assms by simp

lemma rounds_mul:
  assumes "is_finite a" and "is_finite b" and "\<bar>dval a * dval b\<bar> < 2 powi 1023"
  shows "rounds_to (dval a * dval b) (d_mul a b)"
proof -
  obtain s m e t n f where ab: "a = DFin s m e" "b = DFin t n f" using assms(1,2) by (auto simp: is_finite_DFin)
  have p: "real m * 2 powi e * (real n * 2 powi f) = real (m * n) * 2 powi (e + f)" by (simp add: power_int_add)
  have "\<bar>dval a * dval b\<bar> = real (m * n) * 2 powi (e + f)" unfolding ab p [symmetric] by (simp add: abs_mult)
  then have "real (m * n) * 2 powi (e + f) < 2 powi 1023" using assms(3) by simp
  then show ?thesis unfolding ab d_mul.simps
    by (rule rounds_scaled) (auto simp: power_int_add)
qed

lemma div_as_quotient:
  assumes "is_finite a" and "is_finite b" and "dval b \<noteq> 0"
  obtains S N D where "d_div a b = round_quotient binary64 S N D" "0 < D" "\<bar>dval a / dval b\<bar> = real N / real D"
    "dval a / dval b = (if S then - (real N / real D) else real N / real D)"
proof -
  obtain s m e t n f where ab: "a = DFin s m e" "b = DFin t n f" using assms(1,2) by (auto simp: is_finite_DFin)
  have n: "n \<noteq> 0" using assms(3) by (auto simp: ab split: if_splits)
  define N D where "N = (if e \<ge> f then m * 2 ^ nat (e - f) else m)" and "D = (if e \<ge> f then n else n * 2 ^ nat (f - e))"
  have d: "d_div a b = round_quotient binary64 (s \<noteq> t) N D" using n by (simp add: ab N_def D_def)
  have D: "0 < D" using n by (simp add: D_def)
  have q: "real N / real D = real m * 2 powi e / (real n * 2 powi f)"
  proof (cases "e \<ge> f")
    case True
    then have "(2 :: real) powi e = 2 ^ nat (e - f) * 2 powi f" by (simp add: powi_nat_add)
    then show ?thesis using True n by (simp add: N_def D_def)
  next
    case False
    then have "(2 :: real) powi f = 2 ^ nat (f - e) * 2 powi e" by (simp add: powi_nat_add)
    then show ?thesis using False n by (simp add: N_def D_def)
  qed
  have "\<bar>dval a / dval b\<bar> = real N / real D" unfolding q ab by (simp add: abs_mult abs_divide)
  moreover have "dval a / dval b = (if (s \<noteq> t) then - (real N / real D) else real N / real D)" by (auto simp: q ab)
  ultimately show thesis using that [OF d D] by blast
qed

lemma rounds_div:
  assumes "is_finite a" and "is_finite b" and "dval b \<noteq> 0" and "\<bar>dval a / dval b\<bar> < 2 powi 1023"
  shows "rounds_to (dval a / dval b) (d_div a b)"
proof -
  obtain S N D where d: "d_div a b = round_quotient binary64 S N D" "0 < D" "\<bar>dval a / dval b\<bar> = real N / real D"
    "dval a / dval b = (if S then - (real N / real D) else real N / real D)" using assms(1-3) by (rule div_as_quotient)
  then show ?thesis unfolding d(1) using assms(4) by (intro rounds_quotient [OF d(2)]) simp_all
qed

text \<open>A quotient that is a double is exact.\<close>

lemma div_exact:
  assumes "is_finite a" and "is_finite b" and "dval b \<noteq> 0" and "\<bar>dval a / dval b\<bar> < 2 powi 1023"
    and "\<bar>dval a / dval b\<bar> = real m * 2 powi f" and "m < 2 ^ 53" and "-1074 \<le> f"
  shows "is_finite (d_div a b) \<and> dval (d_div a b) = dval a / dval b"
proof -
  obtain S N D where d: "d_div a b = round_quotient binary64 S N D" "0 < D" "\<bar>dval a / dval b\<bar> = real N / real D"
    "dval a / dval b = (if S then - (real N / real D) else real N / real D)" using assms(1-3) by (rule div_as_quotient)
  have "real N / real D = real m * 2 powi f" "real N / real D < 2 powi 1023" using assms(4,5) d(3) by simp_all
  from exact_quotient [OF d(2) this(1) assms(6,7) this(2), of S]
  obtain q e where "round_quotient binary64 S N D = DFin S q e" "real q * 2 powi e = real N / real D" by blast
  then show ?thesis using d(1,4) by simp
qed

lemma of_integer_exact:
  assumes "\<bar>i\<bar> < 2 ^ 53"
  shows "is_finite (of_integer i) \<and> representable binary64 (of_integer i) \<and> dval (of_integer i) = real_of_int i"
proof -
  have n: "nat \<bar>i\<bar> < 2 ^ 53" using assms by (simp add: nat_less_iff)
  have "real (nat \<bar>i\<bar>) < 2 ^ 53" using n by (metis of_nat_less_iff of_nat_numeral of_nat_power)
  also have "(2 :: real) ^ 53 \<le> 2 powi 1023" using powi_mono [of 53 1023] by simp
  finally obtain q e where r: "round_quotient binary64 (i < 0) (nat \<bar>i\<bar>) 1 = DFin (i < 0) q e"
    "representable binary64 (DFin (i < 0) q e)" "real q * 2 powi e = real (nat \<bar>i\<bar>) / real (1 :: nat)"
    using exact_quotient [of 1 "nat \<bar>i\<bar>" "nat \<bar>i\<bar>" 0 "i < 0"] n by auto
  then show ?thesis by (auto simp: of_integer_def)
qed

lemma d_less_value:
  assumes "is_finite a" and "is_finite b"
  shows "d_less a b \<longleftrightarrow> dval a < dval b"
proof -
  obtain s m e t n f where ab: "a = DFin s m e" "b = DFin t n f" using assms by (auto simp: is_finite_DFin)
  define k where "k = min e f"
  have "dval a < dval b \<longleftrightarrow> real_of_int (signed_at k s m e) * 2 powi k < real_of_int (signed_at k t n f) * 2 powi k"
    unfolding ab by (subst (1 2) signed_at_value) (simp_all add: k_def)
  then show ?thesis by (simp add: ab k_def Let_def)
qed

lemma d_eq_value:
  assumes "is_finite a" and "is_finite b"
  shows "d_eq a b \<longleftrightarrow> dval a = dval b"
proof -
  obtain s m e t n f where ab: "a = DFin s m e" "b = DFin t n f" using assms by (auto simp: is_finite_DFin)
  define k where "k = min e f"
  have "dval a = dval b \<longleftrightarrow> real_of_int (signed_at k s m e) * 2 powi k = real_of_int (signed_at k t n f) * 2 powi k"
    unfolding ab by (subst (1 2) signed_at_value) (simp_all add: k_def)
  then show ?thesis by (simp add: ab k_def Let_def)
qed

lemma d_le_value: "is_finite a \<Longrightarrow> is_finite b \<Longrightarrow> d_le a b \<longleftrightarrow> dval a \<le> dval b"
  by (auto simp: d_le_def d_less_value d_eq_value)

lemma d_round_value:
  assumes "is_finite a" and "representable binary64 a" and "\<bar>dval a - real_of_int z\<bar> < 1 / 2"
  shows "is_finite (d_round a) \<and> representable binary64 (d_round a) \<and> dval (d_round a) = real_of_int z"
proof -
  obtain s m e where a: "a = DFin s m e" using assms(1) by (auto simp: is_finite_DFin)
  have "m < 2 ^ 53" using assms(2) by (simp add: a binary64_def)
  then have m: "real m < 2 ^ 53" by (metis of_nat_less_iff of_nat_numeral of_nat_power)
  show ?thesis
  proof (cases "e \<ge> 0")
    case True
    define y where "y = (if s then - int m else int m) * 2 ^ nat e"
    have y: "dval a = real_of_int y" using True by (simp add: a y_def power_int_def)
    have "\<bar>real_of_int (y - z)\<bar> < 1" using assms(3) unfolding y by simp
    then have "y = z" by linarith
    then show ?thesis using y True assms(2) by (simp add: a)
  next
    case False
    define K where "K = (2 :: nat) ^ nat (- e)"
    define q where "q = (2 * m + K) div (2 * K)"
    define w where "w = (if s then - z else z)"
    have K: "2 \<le> real K"
    proof -
      have "(2 :: real) ^ 1 \<le> 2 ^ nat (- e)" using False by (intro power_increasing) auto
      then show ?thesis by (simp add: K_def)
    qed
    have x: "dval a = (if s then - (real m / real K) else real m / real K)"
      using False by (simp add: a K_def power_int_def divide_simps)
    have w: "\<bar>real m / real K - real_of_int w\<bar> < 1 / 2"
    proof (cases s)
      case True
      then show ?thesis using assms(3) unfolding x w_def by (simp only: if_True of_int_minus)
    next
      case False
      then show ?thesis using assms(3) unfolding x w_def by (simp only: if_False)
    qed
    have "int q = \<lfloor>real (2 * m + K) / real (2 * K)\<rfloor>" unfolding q_def by (rule floor_divide_of_nat_eq [symmetric])
    also have "real (2 * m + K) / real (2 * K) = real m / real K + 1 / 2" using K by (simp add: field_simps)
    also have "\<lfloor>real m / real K + 1 / 2\<rfloor> = w" by (rule floor_unique) (use w in linarith)+
    finally have q: "int q = w" .
    then have rq: "real q = real_of_int w" by (metis of_int_of_nat_eq)
    have "real m / real K \<le> real m / 1" using K by (intro divide_left_mono) auto
    then have "real m / real K \<le> 2 ^ 53 / 2" using m K by (simp add: divide_simps)
    then have "real q < 2 ^ 53 / 2 + 1" using w unfolding rq by linarith
    then have "real q < real (2 ^ 53 :: nat)" by simp
    then have q53: "q < 2 ^ 53" by (simp only: of_nat_less_iff)
    have "real q / real (1 :: nat) < 2 powi 1023"
      using \<open>real q < real (2 ^ 53)\<close> powi_mono [of 53 1023] by simp
    then obtain n f where r: "round_quotient binary64 s q 1 = DFin s n f" "representable binary64 (DFin s n f)"
      "real n * 2 powi f = real q / real (1 :: nat)"
      using exact_quotient [of 1 q q 0 s] q53 by auto
    have "d_round a = DFin s n f" using False r(1) by (simp add: a q_def K_def)
    then show ?thesis using r(2,3) rq by (auto simp: w_def)
  qed
qed

lemma d_trunc_value:
  assumes "is_finite a" and "dval a = real_of_int z"
  shows "d_trunc a = Some z"
proof -
  obtain s m e where a: "a = DFin s m e" using assms(1) by (auto simp: is_finite_DFin)
  show ?thesis
  proof (cases "e \<ge> 0")
    case True
    have "real_of_int z = real_of_int ((if s then - int m else int m) * 2 ^ nat e)"
      unfolding assms(2) [symmetric] using True by (simp add: a power_int_def)
    then have "z = (if s then - int m else int m) * 2 ^ nat e" by (simp only: of_int_eq_iff)
    then show ?thesis using True by (auto simp: a)
  next
    case False
    define K where "K = (2 :: nat) ^ nat (- e)"
    have K: "0 < K" by (simp add: K_def)
    have "dval a = (if s then - (real m / real K) else real m / real K)"
      using False by (simp add: a K_def power_int_def divide_simps)
    then have "real_of_int (if s then - int m else int m) = real_of_int (z * int K)"
      unfolding assms(2) using K by (auto simp: field_simps split: if_splits)
    then have z: "(if s then - int m else int m) = z * int K" by (simp only: of_int_eq_iff)
    then have "int m = (if s then - z else z) * int K" by (auto split: if_splits)
    then have "int (m div K) = (if s then - z else z)" using K by (simp add: zdiv_int)
    then show ?thesis using False by (auto simp: a K_def [symmetric] Let_def)
  qed
qed

lemma d_zero_value [simp]: "is_finite dzero" "dval dzero = 0"
  by simp_all

definition d_pow2 :: "int \<Rightarrow> double" where
  "d_pow2 k = round_scaled binary64 False 1 k"

lemma d_pow2_value:
  assumes "-1022 \<le> k" and "k < 1023"
  shows "is_finite (d_pow2 k) \<and> representable binary64 (d_pow2 k) \<and> dval (d_pow2 k) = 2 powi k"
proof -
  obtain N D where N: "round_scaled binary64 False 1 k = round_quotient binary64 False N D" "0 < D"
    "real N / real D = real 1 * 2 powi k" by (rule scaled_as_quotient)
  have lt: "real N / real D < 2 powi 1023"
    unfolding N(3) using assms(2) by (simp only: of_nat_1 mult_1 powi_less_iff)
  have x: "real N / real D = real 1 * 2 powi k" by (rule N(3))
  obtain q e where "round_quotient binary64 False N D = DFin False q e" "representable binary64 (DFin False q e)"
    "real q * 2 powi e = real N / real D"
    by (rule exact_quotient [OF N(2) x _ _ lt, of False]) (use assms(1) in simp_all)
  then show ?thesis unfolding d_pow2_def N(1) using N(3) by simp
qed

end
