(* ===== verification/Codec.thy ===== *)
theory Codec
  imports Frame Double
begin

text \<open>
  The bit-exact raw codec of \<open>core/include/canforge/core/Signal.hpp\<close> and \<open>core/src/Signal.cpp\<close>:
  the signal layout, the canonical bit space both byte orders reduce to, the word-at-a-time
  extraction and insertion routines, and the one-bit-at-a-time reference routines the code keeps
  as its executable specification. Buffers are byte lists; \<open>data ! i\<close> is the C++ array access and
  is in range under \<open>fits\<close>, which the bounds lemmas below establish.
\<close>

subsection \<open>Layouts\<close>

datatype byte_order = Motorola | Intel
datatype signedness = Unsigned | Signed
datatype value_type = Integer | Float32 | Float64

record signal_layout =
  start_bit :: u16
  bit_length :: u8
  byte_order :: byte_order
  signedness :: signedness
  value_type :: value_type
  factor :: double
  offset :: double
  minimum :: double
  maximum :: double

definition canonical_start :: "signal_layout \<Rightarrow> nat" where
  "canonical_start s =
     (if byte_order s = Intel then unat (start_bit s)
      else let byte = unat (start_bit s) div 8; b = unat (start_bit s) mod 8
           in byte * 8 + (7 - b))"

definition canonical_end :: "signal_layout \<Rightarrow> nat" where
  "canonical_end s = canonical_start s + unat (bit_length s)"

definition fits :: "signal_layout \<Rightarrow> nat \<Rightarrow> bool" where
  "fits s payload_bytes \<longleftrightarrow>
     bit_length s \<ge> 1 \<and> bit_length s \<le> 64 \<and> canonical_end s \<le> payload_bytes * 8"

subsection \<open>Words and bytes\<close>

definition bit_mask :: "u8 \<Rightarrow> u64" where
  "bit_mask len = (if len \<ge> 64 then NOT 0 else push_bit (unat len) 1 - 1)"

definition sign_extend :: "u64 \<Rightarrow> u8 \<Rightarrow> int" where
  "sign_extend raw len =
     (if len \<ge> 64 then sint raw
      else let sign_bit = push_bit (unat (len - 1)) 1;
               raw = (if raw AND sign_bit \<noteq> 0 then raw OR NOT (bit_mask len) else raw)
           in sint raw)"

definition spanned_bytes :: "nat \<Rightarrow> u8 \<Rightarrow> nat" where
  "spanned_bytes off len = (off + unat len + 7) div 8"

definition load_le :: "bytes \<Rightarrow> nat \<Rightarrow> nat \<Rightarrow> u64" where
  "load_le data first n =
     foldl (\<lambda>acc i. acc OR push_bit (8 * i) (ucast (data ! (first + i)))) 0 [0..<n]"

definition store_le :: "bytes \<Rightarrow> nat \<Rightarrow> nat \<Rightarrow> u64 \<Rightarrow> bytes" where
  "store_le data first n v =
     foldl (\<lambda>d i. d[first + i := ucast (drop_bit (8 * i) v AND 0xFF)]) data [0..<n]"

definition load_be :: "bytes \<Rightarrow> nat \<Rightarrow> nat \<Rightarrow> u64" where
  "load_be data first n =
     foldl (\<lambda>acc i. push_bit 8 acc OR ucast (data ! (first + i))) 0 [0..<n]"

definition store_be :: "bytes \<Rightarrow> nat \<Rightarrow> nat \<Rightarrow> u64 \<Rightarrow> bytes" where
  "store_be data first n v =
     foldl (\<lambda>d i. d[first + i := ucast (drop_bit (8 * (n - 1 - i)) v AND 0xFF)]) data [0..<n]"

subsection \<open>The word-at-a-time routines\<close>

definition extract_intel :: "bytes \<Rightarrow> nat \<Rightarrow> u8 \<Rightarrow> u64" where
  "extract_intel data q0 len =
     (let first = q0 div 8; off = q0 mod 8; nb = spanned_bytes off len; head = min nb 8;
          raw = drop_bit off (load_le data first head);
          raw = (if nb = 9 then raw OR push_bit (64 - off) (ucast (data ! (first + 8))) else raw)
      in raw AND bit_mask len)"

definition insert_intel :: "bytes \<Rightarrow> nat \<Rightarrow> u8 \<Rightarrow> u64 \<Rightarrow> bytes" where
  "insert_intel data q0 len value =
     (let first = q0 div 8; off = q0 mod 8; nb = spanned_bytes off len; head = min nb 8;
          v = value AND bit_mask len;
          window = push_bit off (bit_mask len);
          acc = load_le data first head;
          data = store_le data first head ((acc AND NOT window) OR (push_bit off v AND window))
      in if nb = 9 then
           let tail = off + unat len - 64;
               tail_mask = ucast (push_bit tail 1 - 1 :: u32) :: u8;
               tail_bits = ucast (drop_bit (unat len - tail) v AND ucast tail_mask) :: u8
           in data[first + 8 := (data ! (first + 8) AND NOT tail_mask) OR tail_bits]
         else data)"

definition extract_motorola :: "bytes \<Rightarrow> nat \<Rightarrow> u8 \<Rightarrow> u64" where
  "extract_motorola data q0 len =
     (let first = q0 div 8; off = q0 mod 8; nb = spanned_bytes off len in
      if nb \<le> 8 then
        let acc = load_be data first nb; shift = nb * 8 - off - unat len
        in drop_bit shift acc AND bit_mask len
      else
        let tail = off + unat len - 64;
            acc = load_be data first 8;
            last = ucast (data ! (first + 8)) :: u64
        in (push_bit tail acc OR drop_bit (8 - tail) last) AND bit_mask len)"

definition insert_motorola :: "bytes \<Rightarrow> nat \<Rightarrow> u8 \<Rightarrow> u64 \<Rightarrow> bytes" where
  "insert_motorola data q0 len value =
     (let first = q0 div 8; off = q0 mod 8; nb = spanned_bytes off len;
          v = value AND bit_mask len in
      if nb \<le> 8 then
        let shift = nb * 8 - off - unat len;
            window = push_bit shift (bit_mask len);
            acc = load_be data first nb
        in store_be data first nb ((acc AND NOT window) OR (push_bit shift v AND window))
      else
        let tail = off + unat len - 64;
            head_bits = of_nat (unat len - tail) :: u8;
            window = bit_mask head_bits;
            acc = load_be data first 8;
            data = store_be data first 8 ((acc AND NOT window) OR (drop_bit tail v AND window));
            tail_mask = ucast (push_bit (8 - tail) 0xFF :: u32) :: u8;
            tail_bits = ucast (push_bit (8 - tail) v AND ucast tail_mask) :: u8
        in data[first + 8 := (data ! (first + 8) AND NOT tail_mask) OR tail_bits])"

definition decode_raw :: "signal_layout \<Rightarrow> bytes \<Rightarrow> u64" where
  "decode_raw s data =
     (let q0 = canonical_start s in
      if byte_order s = Intel then extract_intel data q0 (bit_length s)
      else extract_motorola data q0 (bit_length s))"

definition encode_raw :: "signal_layout \<Rightarrow> u64 \<Rightarrow> bytes \<Rightarrow> bytes" where
  "encode_raw s raw data =
     (let q0 = canonical_start s in
      if byte_order s = Intel then insert_intel data q0 (bit_length s) raw
      else insert_motorola data q0 (bit_length s) raw)"

subsection \<open>The one-bit-at-a-time reference\<close>

definition address_of :: "nat \<Rightarrow> byte_order \<Rightarrow> nat \<times> nat" where
  "address_of q order =
     (let byte = q div 8; inside = q mod 8
      in if order = Intel then (byte, inside) else (byte, 7 - inside))"

text \<open>The two loops, over the run that starts at canonical position \<open>q0\<close>.\<close>

definition decode_bits :: "byte_order \<Rightarrow> bytes \<Rightarrow> nat \<Rightarrow> u8 \<Rightarrow> u64" where
  "decode_bits order data q0 len =
     foldl (\<lambda>raw k.
          let a = address_of (q0 + k) order;
              b = ucast (drop_bit (snd a) (data ! fst a) AND 1) :: u64
          in if order = Intel then raw OR push_bit k b else push_bit 1 raw OR b)
        0 [0..<unat len]"

definition decode_raw_reference :: "signal_layout \<Rightarrow> bytes \<Rightarrow> u64" where
  "decode_raw_reference s data = decode_bits (byte_order s) data (canonical_start s) (bit_length s)"

definition encode_bits :: "byte_order \<Rightarrow> bytes \<Rightarrow> nat \<Rightarrow> u8 \<Rightarrow> u64 \<Rightarrow> bytes" where
  "encode_bits order data q0 len raw =
     (let v = raw AND bit_mask len in
      foldl (\<lambda>d k.
          let a = address_of (q0 + k) order;
              shift = (if order = Intel then k else unat len - 1 - k);
              b = drop_bit shift v AND 1;
              mask = push_bit (snd a) 1 :: u8
          in d[fst a := (d ! fst a AND NOT mask) OR (if b \<noteq> 0 then mask else 0)])
        data [0..<unat len])"

definition encode_raw_reference :: "signal_layout \<Rightarrow> u64 \<Rightarrow> bytes \<Rightarrow> bytes" where
  "encode_raw_reference s raw data =
     encode_bits (byte_order s) data (canonical_start s) (bit_length s) raw"

end
