(* ===== verification/Signal.thy ===== *)
theory Signal
  imports Codec
begin

text \<open>
  The rest of \<open>core/include/canforge/core/Signal.hpp\<close> and \<open>core/src/Signal.cpp\<close>, and
  \<open>core/include/canforge/core/Attribute.hpp\<close>: the conversion between raw and physical values, the checks
  of a layout, and the \<open>Signal\<close> class. Each operation on doubles is one rounded operation of \<open>Double\<close>, in
  the order of the code.
\<close>

subsection \<open>Physical values\<close>

definition has_range :: "signal_layout \<Rightarrow> bool" where
  "has_range s \<longleftrightarrow> \<not> d_eq (minimum s) dzero \<or> \<not> d_eq (maximum s) dzero"

definition raw_value :: "signal_layout \<Rightarrow> u64 \<Rightarrow> double" where
  "raw_value s raw =
     (case value_type s of
        Float32 \<Rightarrow> double_of_single_bits (ucast (raw AND 0xFFFFFFFF))
      | Float64 \<Rightarrow> double_of_bits raw
      | Integer \<Rightarrow> if signedness s = Signed then of_integer (sign_extend raw (bit_length s)) else of_integer (uint raw))"

definition raw_to_physical :: "signal_layout \<Rightarrow> u64 \<Rightarrow> double" where
  "raw_to_physical s raw = d_add (d_mul (raw_value s raw) (factor s)) (offset s)"

definition clamp_to_range :: "signal_layout \<Rightarrow> double \<Rightarrow> double" where
  "clamp_to_range s v =
     (if has_range s \<and> \<not> is_nan v
      then let lo = d_min (minimum s) (maximum s); hi = d_max (minimum s) (maximum s) in d_min (d_max v lo) hi
      else v)"

text \<open>The conversion of a rounded double to the integer of the signal's width; the casts are in range.\<close>

definition cast_u64 :: "double \<Rightarrow> u64" where
  "cast_u64 d = (case d_trunc d of Some z \<Rightarrow> word_of_int z | None \<Rightarrow> 0)"

definition saturate_signed :: "u8 \<Rightarrow> double \<Rightarrow> u64" where
  "saturate_signed len rounded =
     (let top = d_pow2 (int (unat len) - 1) in
      if d_le top rounded then drop_bit 1 (bit_mask len)
      else if d_less rounded (d_neg top)
      then if len \<ge> 64 then push_bit 63 1 else push_bit (unat (len - 1)) 1
      else cast_u64 rounded)"

definition saturate_unsigned :: "u8 \<Rightarrow> double \<Rightarrow> u64" where
  "saturate_unsigned len rounded =
     (let top = d_pow2 (int (unat len)) in
      if d_le rounded dzero then 0
      else if d_le top rounded then bit_mask len
      else cast_u64 rounded)"

definition physical_to_raw :: "signal_layout \<Rightarrow> double \<Rightarrow> u64" where
  "physical_to_raw s physical =
     (let scaled = d_div (d_sub (clamp_to_range s physical) (offset s)) (factor s) in
      case value_type s of
        Float32 \<Rightarrow> ucast (bits_of_single (single_of_double scaled))
      | Float64 \<Rightarrow> bits_of_double scaled
      | Integer \<Rightarrow>
          let rounded = d_round scaled;
              rounded = (if is_nan rounded then dzero else rounded);
              out = (if signedness s = Signed then saturate_signed (bit_length s) rounded
                     else saturate_unsigned (bit_length s) rounded)
          in out AND bit_mask (bit_length s))"

definition layout_decode :: "signal_layout \<Rightarrow> bytes \<Rightarrow> double" where
  "layout_decode s data = raw_to_physical s (decode_raw s data)"

definition layout_detail :: "signal_layout \<Rightarrow> u32 \<times> u32" where
  "layout_detail s = (ucast (start_bit s), ucast (bit_length s))"

definition layout_encode :: "signal_layout \<Rightarrow> double \<Rightarrow> bytes \<Rightarrow> bytes result" where
  "layout_encode s physical data =
     (if \<not> is_finite physical \<and> value_type s = Integer
      then Inl (Error CodecValueNotFinite ''cannot encode a non-finite value into an integer signal'' (layout_detail s))
      else Inr (encode_raw s (physical_to_raw s physical) data))"

text \<open>\<open>std::numeric_limits<float>::max()\<close>, as a double, and \<open>std::numeric_limits<double>::max()\<close>.\<close>

definition float_max :: double where "float_max = round_scaled binary64 False (2 ^ 24 - 1) 104"
definition double_max :: double where "double_max = DFin False (2 ^ 53 - 1) 971"
definition done_value :: double where "done_value = DFin False (2 ^ 52) (-52)"

definition raw_minimum :: "signal_layout \<Rightarrow> double" where
  "raw_minimum s =
     (case value_type s of
        Float32 \<Rightarrow> d_neg float_max
      | Float64 \<Rightarrow> d_neg double_max
      | Integer \<Rightarrow> if signedness s = Signed then d_neg (d_pow2 (int (unat (bit_length s)) - 1)) else dzero)"

definition raw_maximum :: "signal_layout \<Rightarrow> double" where
  "raw_maximum s =
     (case value_type s of
        Float32 \<Rightarrow> float_max
      | Float64 \<Rightarrow> double_max
      | Integer \<Rightarrow> if signedness s = Signed then d_sub (d_pow2 (int (unat (bit_length s)) - 1)) done_value
                   else d_sub (d_pow2 (int (unat (bit_length s)))) done_value)"

definition physical_floor :: "signal_layout \<Rightarrow> double" where
  "physical_floor s =
     (let a = d_add (d_mul (raw_minimum s) (factor s)) (offset s);
          b = d_add (d_mul (raw_maximum s) (factor s)) (offset s) in d_min a b)"

definition physical_ceiling :: "signal_layout \<Rightarrow> double" where
  "physical_ceiling s =
     (let a = d_add (d_mul (raw_minimum s) (factor s)) (offset s);
          b = d_add (d_mul (raw_maximum s) (factor s)) (offset s) in d_max a b)"

definition resolution :: "signal_layout \<Rightarrow> double" where
  "resolution s = d_abs (factor s)"

definition validate_layout :: "signal_layout \<Rightarrow> nat \<Rightarrow> status" where
  "validate_layout s payload_bytes =
     (let err = (\<lambda>c m. Inl (Error c m (layout_detail s))) in
      if bit_length s < 1 \<or> bit_length s > 64
      then err CodecBadBitLength ''a signal must be between 1 and 64 bits wide''
      else if d_eq (factor s) dzero \<or> \<not> is_finite (factor s)
      then err CodecBadFactor ''a signal scale factor must be finite and non-zero''
      else if \<not> is_finite (offset s)
      then err CodecBadFactor ''a signal offset must be finite''
      else if value_type s = Float32 \<and> bit_length s \<noteq> 32
      then err CodecBadBitLength ''an IEEE single precision signal must be 32 bits wide''
      else if value_type s = Float64 \<and> bit_length s \<noteq> 64
      then err CodecBadBitLength ''an IEEE double precision signal must be 64 bits wide''
      else if canonical_end s > payload_bytes * 8
      then err CodecSignalOutOfBounds ''signal extends past the end of the payload''
      else ok)"

definition layout_eq :: "signal_layout \<Rightarrow> signal_layout \<Rightarrow> bool" where
  "layout_eq a b \<longleftrightarrow> start_bit a = start_bit b \<and> bit_length a = bit_length b \<and> byte_order a = byte_order b \<and>
     signedness a = signedness b \<and> value_type a = value_type b \<and> d_eq (factor a) (factor b) \<and>
     d_eq (offset a) (offset b) \<and> d_eq (minimum a) (minimum b) \<and> d_eq (maximum a) (maximum b)"

subsection \<open>Attributes\<close>

datatype attribute_object = ObjDatabase | ObjNode | ObjMessage | ObjSignal | ObjEnvVar

datatype attribute_type = AttrInt | AttrHex | AttrFloat | AttrString | AttrEnum

record attribute_value =
  av_type :: attribute_type
  av_number :: double
  av_text :: string

definition new_attribute_value :: attribute_value where
  "new_attribute_value = \<lparr>av_type = AttrInt, av_number = dzero, av_text = []\<rparr>"

definition attr_integer :: "int \<Rightarrow> bool \<Rightarrow> attribute_value" where
  "attr_integer v hex = new_attribute_value\<lparr>av_type := (if hex then AttrHex else AttrInt), av_number := of_integer v\<rparr>"

definition attr_floating :: "double \<Rightarrow> attribute_value" where
  "attr_floating v = new_attribute_value\<lparr>av_type := AttrFloat, av_number := v\<rparr>"

definition attr_string :: "string \<Rightarrow> attribute_value" where
  "attr_string v = new_attribute_value\<lparr>av_type := AttrString, av_text := v\<rparr>"

definition attr_enumeration :: "int \<Rightarrow> string \<Rightarrow> attribute_value" where
  "attr_enumeration index n = new_attribute_value\<lparr>av_type := AttrEnum, av_number := of_integer index, av_text := n\<rparr>"

definition attribute_value_eq :: "attribute_value \<Rightarrow> attribute_value \<Rightarrow> bool" where
  "attribute_value_eq a b \<longleftrightarrow> av_type a = av_type b \<and> d_eq (av_number a) (av_number b) \<and> av_text a = av_text b"

text \<open>\<open>std::map<std::string, AttributeValue>\<close>: its entries in the order of the keys.\<close>

type_synonym attribute_map = "(string \<times> attribute_value) list"

definition attribute_map_eq :: "attribute_map \<Rightarrow> attribute_map \<Rightarrow> bool" where
  "attribute_map_eq = list_all2 (\<lambda>(k, v) (l, w). k = l \<and> attribute_value_eq v w)"

record attribute_definition =
  ad_name :: string
  ad_object :: attribute_object
  ad_type :: attribute_type
  ad_minimum :: double
  ad_maximum :: double
  ad_enum_values :: "string list"
  ad_default_value :: attribute_value
  ad_has_default :: bool

definition attribute_definition_eq :: "attribute_definition \<Rightarrow> attribute_definition \<Rightarrow> bool" where
  "attribute_definition_eq a b \<longleftrightarrow> ad_name a = ad_name b \<and> ad_object a = ad_object b \<and> ad_type a = ad_type b \<and>
     d_eq (ad_minimum a) (ad_minimum b) \<and> d_eq (ad_maximum a) (ad_maximum b) \<and>
     ad_enum_values a = ad_enum_values b \<and> ad_has_default a = ad_has_default b \<and>
     (\<not> ad_has_default a \<or> attribute_value_eq (ad_default_value a) (ad_default_value b))"

subsection \<open>Signals\<close>

datatype multiplex_role = MuxNone | Multiplexor | Multiplexed | MuxBoth

type_synonym mux_range = "u32 \<times> u32"

definition range_contains :: "mux_range \<Rightarrow> u32 \<Rightarrow> bool" where
  "range_contains r v \<longleftrightarrow> v \<ge> fst r \<and> v \<le> snd r"

type_synonym value_description = "int \<times> string"

record signal =
  sig_name :: string
  sig_unit :: string
  sig_comment :: string
  sig_multiplexor_name :: string
  sig_receivers :: "string list"
  sig_mux_ranges :: "mux_range list"
  sig_value_descriptions :: "value_description list"
  sig_attributes :: attribute_map
  sig_layout :: signal_layout
  sig_mux_role :: multiplex_role
  sig_mux_value :: u32

definition is_present_for :: "signal \<Rightarrow> u32 \<Rightarrow> bool" where
  "is_present_for s mux =
     (if sig_mux_role s \<noteq> Multiplexed \<and> sig_mux_role s \<noteq> MuxBoth then True
      else if sig_mux_ranges s \<noteq> [] then list_ex (\<lambda>r. range_contains r mux) (sig_mux_ranges s)
      else sig_mux_value s = mux)"

definition describe_raw :: "signal \<Rightarrow> int \<Rightarrow> string" where
  "describe_raw s raw = (case find (\<lambda>v. fst v = raw) (sig_value_descriptions s) of Some v \<Rightarrow> snd v | None \<Rightarrow> [])"

definition describe :: "signal \<Rightarrow> double \<Rightarrow> string" where
  "describe s physical =
     (if sig_value_descriptions s = [] \<or> \<not> is_finite physical then []
      else
        let l = sig_layout s; rounded = d_round (d_div (d_sub physical (offset l)) (factor l)) in
        if \<not> is_finite rounded \<or> d_less rounded (raw_minimum l) \<or> d_less (raw_maximum l) rounded \<or>
           d_le (d_pow2 63) (d_abs rounded)
        then []
        else case d_trunc rounded of Some z \<Rightarrow> describe_raw s z | None \<Rightarrow> [])"

definition signal_eq :: "signal \<Rightarrow> signal \<Rightarrow> bool" where
  "signal_eq a b \<longleftrightarrow> sig_name a = sig_name b \<and> sig_unit a = sig_unit b \<and> sig_comment a = sig_comment b \<and>
     sig_multiplexor_name a = sig_multiplexor_name b \<and> sig_receivers a = sig_receivers b \<and>
     sig_mux_ranges a = sig_mux_ranges b \<and> sig_value_descriptions a = sig_value_descriptions b \<and>
     attribute_map_eq (sig_attributes a) (sig_attributes b) \<and> layout_eq (sig_layout a) (sig_layout b) \<and>
     sig_mux_role a = sig_mux_role b \<and> sig_mux_value a = sig_mux_value b"

definition signal_decode :: "signal \<Rightarrow> frame \<Rightarrow> double" where
  "signal_decode s f = layout_decode (sig_layout s) (frame_data f)"

definition signal_try_decode :: "signal \<Rightarrow> frame \<Rightarrow> double result" where
  "signal_try_decode s f =
     (if \<not> fits (sig_layout s) (frame_size f)
      then Inl (Error CodecSignalOutOfBounds ''signal does not fit in the received payload'' (layout_detail (sig_layout s)))
      else Inr (layout_decode (sig_layout s) (frame_data f)))"

definition signal_encode :: "signal \<Rightarrow> double \<Rightarrow> frame \<Rightarrow> frame result" where
  "signal_encode s physical f =
     (if \<not> fits (sig_layout s) (frame_size f)
      then Inl (Error CodecSignalOutOfBounds ''signal does not fit in the frame payload'' (layout_detail (sig_layout s)))
      else result_map (\<lambda>d. f\<lparr>frame_data := d\<rparr>) (layout_encode (sig_layout s) physical (frame_data f)))"

end
