(* ===== verification/Message.thy ===== *)
theory Message
  imports Signal
begin

text \<open>
  \<open>core/include/canforge/core/Message.hpp\<close> and \<open>core/src/Message.cpp\<close>: a message with its signals, the
  multiplexing rules, and encoding and decoding of whole frames. A pointer to a signal of the message
  is its index in the vector, so that \<open>sw == &s\<close> is equality of indices and an absent one is \<open>None\<close>.
\<close>

record message =
  msg_id :: can_id
  msg_name :: string
  msg_dlc :: u8
  msg_transmitter :: string
  msg_comment :: string
  msg_additional_transmitters :: "string list"
  msg_signals :: "signal list"
  msg_attributes :: attribute_map
  msg_is_fd :: bool

definition new_message :: "can_id \<Rightarrow> string \<Rightarrow> u8 \<Rightarrow> message" where
  "new_message i n dlc = \<lparr>msg_id = i, msg_name = n, msg_dlc = dlc, msg_transmitter = [], msg_comment = [],
     msg_additional_transmitters = [], msg_signals = [], msg_attributes = [], msg_is_fd = False\<rparr>"

definition add_signal :: "message \<Rightarrow> signal \<Rightarrow> message" where
  "add_signal m s = m\<lparr>msg_signals := msg_signals m @ [s]\<rparr>"

definition kNoNode :: string where "kNoNode = ''Vector__XXX''"

text \<open>The loop that returns the first match, as an index.\<close>

fun first_index :: "('a \<Rightarrow> bool) \<Rightarrow> 'a list \<Rightarrow> nat option" where
  "first_index P [] = None"
| "first_index P (x # xs) = (if P x then Some 0 else map_option Suc (first_index P xs))"

definition find_signal :: "message \<Rightarrow> string \<Rightarrow> nat option" where
  "find_signal m n = first_index (\<lambda>s. sig_name s = n) (msg_signals m)"

definition is_multiplexed :: "message \<Rightarrow> bool" where
  "is_multiplexed m \<longleftrightarrow> list_ex (\<lambda>s. sig_mux_role s \<noteq> MuxNone) (msg_signals m)"

text \<open>The test both loops of \<open>multiplexor\<close> and \<open>is_signal_active\<close> share: a switch nothing switches.\<close>

definition is_root_switch :: "signal \<Rightarrow> bool" where
  "is_root_switch s \<longleftrightarrow> sig_mux_role s = Multiplexor \<and> sig_multiplexor_name s = []"

definition multiplexor :: "message \<Rightarrow> nat option" where
  "multiplexor m =
     (case first_index is_root_switch (msg_signals m) of
        Some i \<Rightarrow> Some i
      | None \<Rightarrow> first_index (\<lambda>s. sig_mux_role s = Multiplexor) (msg_signals m))"

definition multiplex_value :: "message \<Rightarrow> frame \<Rightarrow> u32 result" where
  "multiplex_value m f =
     (case multiplexor m of
        None \<Rightarrow> Inl (plain_error CodecMultiplexMismatch ''message has no multiplexor signal'')
      | Some i \<Rightarrow>
          let l = sig_layout (msg_signals m ! i) in
          if \<not> fits l (frame_size f)
          then Inl (Error CodecSignalOutOfBounds ''multiplexor signal does not fit in the received payload'' (layout_detail l))
          else Inr (ucast (decode_raw l (frame_data f))))"

text \<open>The signal that switches signal \<open>i\<close>: the one it names, or the root.\<close>

definition switch_of :: "message \<Rightarrow> nat \<Rightarrow> nat option" where
  "switch_of m i =
     (let s = msg_signals m ! i in
      if sig_multiplexor_name s = [] then multiplexor m else find_signal m (sig_multiplexor_name s))"

function is_signal_active :: "message \<Rightarrow> frame \<Rightarrow> nat \<Rightarrow> nat \<Rightarrow> bool" where
  "is_signal_active m f i depth =
     (let s = msg_signals m ! i in
      if sig_mux_role s = MuxNone then True
      else if is_root_switch s then True
      else if depth > 8 then False
      else case switch_of m i of
             None \<Rightarrow> False
           | Some k \<Rightarrow>
               if k = i then False
               else if \<not> is_signal_active m f k (depth + 1) then False
               else if \<not> fits (sig_layout (msg_signals m ! k)) (frame_size f) then False
               else is_present_for s (ucast (decode_raw (sig_layout (msg_signals m ! k)) (frame_data f))))"
  by pat_completeness auto
termination by (relation "measure (\<lambda>(m, f, i, depth). 9 - depth)") auto

declare is_signal_active.simps [simp del]

record decoded_signal =
  ds_signal :: nat
  ds_raw :: u64
  ds_value :: double

text \<open>\<open>for_each_active_signal\<close> with the vector \<open>decode\<close> collects; the call itself never fails.\<close>

definition active_signals :: "message \<Rightarrow> frame \<Rightarrow> nat list" where
  "active_signals m f =
     filter (\<lambda>i. fits (sig_layout (msg_signals m ! i)) (frame_size f) \<and> is_signal_active m f i 0)
       [0..<length (msg_signals m)]"

definition decode_signal_at :: "message \<Rightarrow> frame \<Rightarrow> nat \<Rightarrow> decoded_signal" where
  "decode_signal_at m f i =
     (let l = sig_layout (msg_signals m ! i); raw = decode_raw l (frame_data f)
      in \<lparr>ds_signal = i, ds_raw = raw, ds_value = raw_to_physical l raw\<rparr>)"

definition message_decode :: "message \<Rightarrow> frame \<Rightarrow> decoded_signal list result" where
  "message_decode m f = Inr (map (decode_signal_at m f) (active_signals m f))"

subsection \<open>Encoding\<close>

fun apply_start_values :: "signal list \<Rightarrow> frame \<Rightarrow> frame result" where
  "apply_start_values [] f = Inr f"
| "apply_start_values (s # ss) f =
     (case map_of (sig_attributes s) ''GenSigStartValue'' of
        Some a \<Rightarrow>
          if fits (sig_layout s) (frame_size f)
          then try_bind (layout_encode (sig_layout s) (av_number a) (frame_data f))
                 (\<lambda>d. apply_start_values ss (f\<lparr>frame_data := d\<rparr>))
          else apply_start_values ss f
      | None \<Rightarrow> apply_start_values ss f)"

fun apply_values :: "message \<Rightarrow> (string \<times> double) list \<Rightarrow> frame \<Rightarrow> frame result" where
  "apply_values m [] f = Inr f"
| "apply_values m ((n, v) # vs) f =
     (case find_signal m n of
        None \<Rightarrow> Inl (plain_error CodecUnknownSignal ''no signal with that name in this message'')
      | Some i \<Rightarrow> try_bind (signal_encode (msg_signals m ! i) v f) (apply_values m vs))"

definition message_encode :: "message \<Rightarrow> (string \<times> double) list \<Rightarrow> frame result" where
  "message_encode m values =
     (if msg_dlc m > 8
      then Inl (Error FramePayloadTooLarge ''message is larger than a classic CAN frame; use FdFrame'' (ucast (msg_dlc m), 8))
      else try_bind (make_empty 8 (msg_id m) (unat (msg_dlc m)) flag_none 0)
        (\<lambda>f. try_bind (apply_start_values (msg_signals m) f) (apply_values m values)))"

subsection \<open>Validation\<close>

fun validate_layouts :: "signal list \<Rightarrow> nat \<Rightarrow> status" where
  "validate_layouts [] dlc = ok"
| "validate_layouts (s # ss) dlc = try_bind (validate_layout (sig_layout s) dlc) (\<lambda>_. validate_layouts ss dlc)"

text \<open>The double loop over all pairs \<open>i < j\<close>.\<close>

fun some_pair :: "('a \<Rightarrow> 'a \<Rightarrow> bool) \<Rightarrow> 'a list \<Rightarrow> bool" where
  "some_pair P [] = False"
| "some_pair P (x # xs) = (list_ex (P x) xs \<or> some_pair P xs)"

definition validate_message :: "message \<Rightarrow> status" where
  "validate_message m =
     (let limit = (if msg_is_fd m then 64 else 8 :: u8) in
      if msg_dlc m > limit
      then Inl (Error ParseSemantic ''message length exceeds what the frame format allows'' (ucast (msg_dlc m), ucast limit))
      else try_bind (validate_layouts (msg_signals m) (unat (msg_dlc m))) (\<lambda>_.
        if some_pair (\<lambda>a b. sig_name a = sig_name b) (msg_signals m)
        then Inl (plain_error ParseDuplicateDefinition ''two signals in this message share a name'')
        else
          let roots = length (filter is_root_switch (msg_signals m)) in
          if roots > 1
          then Inl (Error ParseSemantic ''a message may have only one top level multiplexor'' (of_nat roots, 1))
          else ok))"

definition message_eq :: "message \<Rightarrow> message \<Rightarrow> bool" where
  "message_eq a b \<longleftrightarrow> msg_id a = msg_id b \<and> msg_name a = msg_name b \<and> msg_dlc a = msg_dlc b \<and>
     msg_transmitter a = msg_transmitter b \<and> msg_comment a = msg_comment b \<and>
     msg_additional_transmitters a = msg_additional_transmitters b \<and>
     list_all2 signal_eq (msg_signals a) (msg_signals b) \<and>
     attribute_map_eq (msg_attributes a) (msg_attributes b) \<and> msg_is_fd a = msg_is_fd b"

end
