(* ===== verification/Fmt.thy ===== *)
theory Fmt
  imports Prelude
begin

text \<open>
  The conversions of \<open>std::snprintf\<close> that the code uses to print numbers: upper-case hexadecimal with
  and without leading zeros, decimal. They are the C standard library's, written out here because
  the strings the code returns are part of its behaviour.
\<close>

definition hex_digit :: "nat \<Rightarrow> char" where
  "hex_digit n = ''0123456789ABCDEF'' ! n"

text \<open>\<open>%0wX\<close>: exactly \<open>w\<close> digits of the value.\<close>

fun hex_fixed :: "nat \<Rightarrow> nat \<Rightarrow> string" where
  "hex_fixed 0 n = []"
| "hex_fixed (Suc w) n = hex_fixed w (n div 16) @ [hex_digit (n mod 16)]"

text \<open>\<open>%X\<close>: no leading zeros.\<close>

fun hex_plain :: "nat \<Rightarrow> string" where
  "hex_plain n = (if n < 16 then [hex_digit n] else hex_plain (n div 16) @ [hex_digit (n mod 16)])"

text \<open>\<open>std::hex\<close> on a stream and \<open>%x\<close>: lower case, no leading zeros.\<close>

definition hex_digit_lower :: "nat \<Rightarrow> char" where
  "hex_digit_lower n = ''0123456789abcdef'' ! n"

fun hex_lower :: "nat \<Rightarrow> string" where
  "hex_lower n = (if n < 16 then [hex_digit_lower n] else hex_lower (n div 16) @ [hex_digit_lower (n mod 16)])"

definition dec_digit :: "nat \<Rightarrow> char" where
  "dec_digit n = ''0123456789'' ! n"

text \<open>\<open>%u\<close>.\<close>

fun dec_plain :: "nat \<Rightarrow> string" where
  "dec_plain n = (if n < 10 then [dec_digit n] else dec_plain (n div 10) @ [dec_digit (n mod 10)])"

fun dec_fixed :: "nat \<Rightarrow> nat \<Rightarrow> string" where
  "dec_fixed 0 n = []"
| "dec_fixed (Suc w) n = dec_fixed w (n div 10) @ [dec_digit (n mod 10)]"

declare hex_plain.simps [simp del] hex_lower.simps [simp del] dec_plain.simps [simp del]

lemma length_hex_fixed [simp]: "length (hex_fixed w n) = w"
  by (induction w arbitrary: n) auto

lemma length_dec_fixed [simp]: "length (dec_fixed w n) = w"
  by (induction w arbitrary: n) auto

lemma hex_digit_inj: "a < 16 \<Longrightarrow> b < 16 \<Longrightarrow> hex_digit a = hex_digit b \<Longrightarrow> a = b"
proof -
  have "distinct ''0123456789ABCDEF''" "length ''0123456789ABCDEF'' = 16" by simp_all
  then show "a < 16 \<Longrightarrow> b < 16 \<Longrightarrow> hex_digit a = hex_digit b \<Longrightarrow> a = b"
    unfolding hex_digit_def using nth_eq_iff_index_eq by metis
qed

lemma hex_fixed_inj: "a < 16 ^ w \<Longrightarrow> b < 16 ^ w \<Longrightarrow> hex_fixed w a = hex_fixed w b \<Longrightarrow> a = b"
proof (induction w arbitrary: a b)
  case (Suc w)
  have "a div 16 = b div 16"
    by (rule Suc.IH) (use Suc.prems in \<open>auto simp: less_mult_imp_div_less mult.commute\<close>)
  moreover have "a mod 16 = b mod 16" using Suc.prems(3) hex_digit_inj [of "a mod 16" "b mod 16"] by simp
  ultimately show ?case by (metis div_mult_mod_eq)
qed simp

end
