(* ===== verification/Database.thy ===== *)
theory Database
  imports Message Fmt
begin

text \<open>
  \<open>core/include/canforge/core/Database.hpp\<close> and \<open>core/src/Database.cpp\<close>: nodes, value tables and the
  database, its lookups, \<open>validate\<close>, and the linter with the bitmaps it finds overlapping signals by.
\<close>

record node =
  node_name :: string
  node_comment :: string
  node_attributes :: attribute_map

record value_table =
  vt_name :: string
  vt_values :: "value_description list"

record bit_timing =
  baudrate :: u32
  btr1 :: u32
  btr2 :: u32

record database =
  db_version :: string
  db_comment :: string
  db_new_symbols :: "string list"
  db_bit_timing :: "bit_timing option"
  db_nodes :: "node list"
  db_messages :: "message list"
  db_value_tables :: "value_table list"
  db_attribute_definitions :: "attribute_definition list"
  db_attributes :: attribute_map

definition empty_database :: database where
  "empty_database = \<lparr>db_version = [], db_comment = [], db_new_symbols = [], db_bit_timing = None, db_nodes = [],
     db_messages = [], db_value_tables = [], db_attribute_definitions = [], db_attributes = []\<rparr>"

definition node_eq :: "node \<Rightarrow> node \<Rightarrow> bool" where
  "node_eq a b \<longleftrightarrow> node_name a = node_name b \<and> node_comment a = node_comment b \<and>
     attribute_map_eq (node_attributes a) (node_attributes b)"

definition find_message :: "database \<Rightarrow> can_id \<Rightarrow> nat option" where
  "find_message db i = first_index (\<lambda>m. msg_id m = i) (db_messages db)"

definition find_message_named :: "database \<Rightarrow> string \<Rightarrow> nat option" where
  "find_message_named db n = first_index (\<lambda>m. msg_name m = n) (db_messages db)"

definition find_node :: "database \<Rightarrow> string \<Rightarrow> nat option" where
  "find_node db n = first_index (\<lambda>x. node_name x = n) (db_nodes db)"

definition find_value_table :: "database \<Rightarrow> string \<Rightarrow> nat option" where
  "find_value_table db n = first_index (\<lambda>t. vt_name t = n) (db_value_tables db)"

definition find_attribute_definition :: "database \<Rightarrow> string \<Rightarrow> nat option" where
  "find_attribute_definition db n = first_index (\<lambda>d. ad_name d = n) (db_attribute_definitions db)"

definition database_decode :: "database \<Rightarrow> frame \<Rightarrow> decoded_signal list result" where
  "database_decode db f =
     (case find_message db (frame_id f) of
        None \<Rightarrow> Inl (Error CodecUnknownSignal ''no message in this database has that identifier'' (id_value (frame_id f), 0))
      | Some i \<Rightarrow> message_decode (db_messages db ! i) f)"

subsection \<open>Validation\<close>

text \<open>The inner loop of \<open>Database::validate\<close>: message \<open>m\<close> against those after it.\<close>

fun check_against :: "message \<Rightarrow> message list \<Rightarrow> status" where
  "check_against m [] = ok"
| "check_against m (n # ns) =
     (if msg_id m = msg_id n
      then Inl (Error ParseDuplicateDefinition ''two messages share a CAN identifier'' (id_value (msg_id m), 0))
      else if msg_name m = msg_name n
      then Inl (plain_error ParseDuplicateDefinition ''two messages share a name'')
      else check_against m ns)"

fun validate_messages :: "message list \<Rightarrow> status" where
  "validate_messages [] = ok"
| "validate_messages (m # ms) =
     try_bind (validate_message m) (\<lambda>_. try_bind (check_against m ms) (\<lambda>_. validate_messages ms))"

definition validate_database :: "database \<Rightarrow> status" where
  "validate_database db =
     try_bind (validate_messages (db_messages db)) (\<lambda>_.
       if some_pair (\<lambda>a b. node_name a = node_name b) (db_nodes db)
       then Inl (plain_error ParseDuplicateDefinition ''two nodes share a name'')
       else ok)"

subsection \<open>The linter\<close>

text \<open>The loop of \<open>mark_bits\<close> from bit \<open>k\<close> of the signal; it leaves at the end of the 64-byte bitmap.\<close>

function mark_from :: "signal_layout \<Rightarrow> nat \<Rightarrow> bytes \<Rightarrow> bytes" where
  "mark_from s k bits =
     (if k < unat (bit_length s) then
        let q = canonical_start s + k in
        if q div 8 \<ge> length bits then bits
        else
          let b = (if byte_order s = Intel then q mod 8 else 7 - q mod 8)
          in mark_from s (k + 1) (bits[q div 8 := bits ! (q div 8) OR push_bit b 1])
      else bits)"
  by pat_completeness auto
termination by (relation "measure (\<lambda>(s, k, bits). unat (bit_length s) - k)") auto

declare mark_from.simps [simp del]

definition mark_bits :: "signal_layout \<Rightarrow> bytes" where
  "mark_bits s = mark_from s 0 (replicate 64 0)"

definition overlaps :: "signal_layout \<Rightarrow> signal_layout \<Rightarrow> bool" where
  "overlaps a b \<longleftrightarrow> list_ex (\<lambda>(x, y). x AND y \<noteq> 0) (zip (mark_bits a) (mark_bits b))"

definition mux_separated :: "signal \<Rightarrow> signal \<Rightarrow> bool" where
  "mux_separated a b \<longleftrightarrow> sig_mux_role a = Multiplexed \<and> sig_mux_role b = Multiplexed \<and>
     \<not> (is_present_for a (sig_mux_value b) \<and> is_present_for b (sig_mux_value a))"

definition quoted :: "string \<Rightarrow> string" where
  "quoted s = CHR 0x27 # s @ [CHR 0x27]"

definition lint_header :: "message \<Rightarrow> string list" where
  "lint_header m =
     (if violates_base_id_rule (msg_id m)
      then [''message '' @ quoted (msg_name m) @ '' uses base identifier 0x'' @ hex_lower (unat (id_value (msg_id m))) @
            '', which ISO 11898-1 reserves (the seven most significant bits must not all be recessive); hardware accepts it, tools may not'']
      else []) @
     (if msg_transmitter m = [] \<or> msg_transmitter m = kNoNode
      then [''message '' @ quoted (msg_name m) @ '' has no transmitting node''] else [])"

definition overlap_line :: "message \<Rightarrow> signal \<Rightarrow> signal \<Rightarrow> string" where
  "overlap_line m a b =
     ''signals '' @ quoted (sig_name a) @ '' and '' @ quoted (sig_name b) @ '' in message '' @ quoted (msg_name m) @ '' overlap''"

fun lint_overlaps :: "message \<Rightarrow> signal list \<Rightarrow> string list" where
  "lint_overlaps m [] = []"
| "lint_overlaps m (a # ss) =
     map (overlap_line m a) (filter (\<lambda>b. \<not> mux_separated a b \<and> overlaps (sig_layout a) (sig_layout b)) ss) @
     lint_overlaps m ss"

definition lint_signal :: "message \<Rightarrow> signal \<Rightarrow> string list" where
  "lint_signal m s =
     (let l = sig_layout s in
      (if \<not> fits l (unat (msg_dlc m))
       then [''signal '' @ quoted (sig_name s) @ '' does not fit in message '' @ quoted (msg_name m)] else []) @
      (if has_range l \<and> d_less (maximum l) (minimum l)
       then [''signal '' @ quoted (sig_name s) @ '' declares a minimum above its maximum''] else []))"

definition lint_message :: "message \<Rightarrow> string list" where
  "lint_message m =
     lint_header m @ lint_overlaps m (msg_signals m) @ concat (map (lint_signal m) (msg_signals m)) @
     (if is_multiplexed m \<and> multiplexor m = None
      then [''message '' @ quoted (msg_name m) @ '' has multiplexed signals but no multiplexor''] else [])"

definition check_attrs :: "database \<Rightarrow> attribute_map \<Rightarrow> string \<Rightarrow> string list" where
  "check_attrs db amap owner =
     concat (map (\<lambda>(n, v). if find_attribute_definition db n = None
                            then [''attribute '' @ quoted n @ '' on '' @ owner @ '' has no BA_DEF_ definition''] else []) amap)"

definition lint_attributes :: "database \<Rightarrow> string list" where
  "lint_attributes db =
     check_attrs db (db_attributes db) ''the database'' @
     concat (map (\<lambda>n. check_attrs db (node_attributes n) (''node '' @ quoted (node_name n))) (db_nodes db)) @
     concat (map (\<lambda>m. check_attrs db (msg_attributes m) (''message '' @ quoted (msg_name m)) @
        concat (map (\<lambda>s. check_attrs db (sig_attributes s) (''signal '' @ quoted (sig_name s))) (msg_signals m)))
       (db_messages db))"

definition lint :: "database \<Rightarrow> string list" where
  "lint db = concat (map lint_message (db_messages db)) @ lint_attributes db"

definition database_eq :: "database \<Rightarrow> database \<Rightarrow> bool" where
  "database_eq a b \<longleftrightarrow> db_version a = db_version b \<and> db_comment a = db_comment b \<and>
     db_new_symbols a = db_new_symbols b \<and> db_bit_timing a = db_bit_timing b \<and>
     list_all2 node_eq (db_nodes a) (db_nodes b) \<and> list_all2 message_eq (db_messages a) (db_messages b) \<and>
     db_value_tables a = db_value_tables b \<and>
     list_all2 attribute_definition_eq (db_attribute_definitions a) (db_attribute_definitions b) \<and>
     attribute_map_eq (db_attributes a) (db_attributes b)"

end
