(* ===== verification/Codec_Bits.thy ===== *)
theory Codec_Bits
  imports Codec
begin

text \<open>
  Bit-level characterisations of the raw codec of \<open>core/src/Signal.cpp\<close>. Every routine, the
  word-at-a-time ones and the loops of the reference, is described by the same two facts: which
  bit of the buffer each bit of an extracted value is, and which bits of the buffer an insertion
  sets to what. \<open>cbit\<close> reads the canonical bit \<open>q\<close> of a buffer and \<open>inserted\<close> is the buffer bit after
  an insertion; \<open>run_ok\<close> is what \<open>SignalLayout::fits\<close> establishes for the run of a layout.
\<close>


subsection \<open>Loads, stores and masks\<close>

definition cbit :: "byte_order \<Rightarrow> bytes \<Rightarrow> nat \<Rightarrow> bool" where
  "cbit order data q = bit (data ! (q div 8)) (if order = Intel then q mod 8 else 7 - q mod 8)"

lemma bit_bit_mask [simp]: "bit (bit_mask len) j \<longleftrightarrow> j < min 64 (unat len)"
proof (cases "len \<ge> 64")
  case True
  then show ?thesis by (auto simp: bit_mask_def bit_simps word_le_nat_alt)
next
  case False
  then have "bit_mask len = mask (unat len)" by (simp add: bit_mask_def mask_eq_exp_minus_1)
  then show ?thesis using False by (auto simp: bit_simps word_le_nat_alt)
qed

lemma bit_load_le: "n \<le> 8 \<Longrightarrow>
  bit (load_le d f n) j \<longleftrightarrow> j < 8 * n \<and> bit (d ! (f + j div 8)) (j mod 8)"
proof (induction n)
  case 0
  then show ?case by (simp add: load_le_def)
next
  case (Suc n)
  have "bit (load_le d f (Suc n)) j \<longleftrightarrow>
      bit (load_le d f n) j \<or> (8 * n \<le> j \<and> j < 64 \<and> bit (d ! (f + n)) (j - 8 * n))"
    by (auto simp: load_le_def foldl_upt_Suc bit_simps)
  moreover have "8 * n \<le> j \<and> j < 64 \<and> bit (d ! (f + n)) (j - 8 * n) \<longleftrightarrow>
      8 * n \<le> j \<and> j < 8 * Suc n \<and> bit (d ! (f + j div 8)) (j mod 8)"
  proof (cases "8 * n \<le> j \<and> j < 8 * Suc n")
    case True
    then have "j div 8 = n" by auto
    moreover from this have "j mod 8 = j - 8 * n" by (simp add: modulo_nat_def mult.commute)
    moreover note True
    ultimately have "j div 8 = n" "j mod 8 = j - 8 * n" by blast+
    then show ?thesis using True Suc.prems by auto
  next
    case False
    then show ?thesis using bit_u8_ge [of "j - 8 * n" "d ! (f + n)"] by auto
  qed
  ultimately show ?case using Suc by auto
qed

lemma load_be_Suc: "load_be d f (Suc n) = push_bit 8 (load_be d f n) OR ucast (d ! (f + n))"
  by (simp add: load_be_def)

lemma bit_load_be: "n \<le> 8 \<Longrightarrow>
  bit (load_be d f n) j \<longleftrightarrow> j < 8 * n \<and> bit (d ! (f + (n - 1 - j div 8))) (j mod 8)"
proof (induction n arbitrary: j)
  case 0
  then show ?case by (simp add: load_be_def)
next
  case (Suc n)
  have s: "bit (load_be d f (Suc n)) j \<longleftrightarrow>
      (8 \<le> j \<and> j < 64 \<and> bit (load_be d f n) (j - 8)) \<or> bit (d ! (f + n)) j"
    unfolding load_be_Suc by (simp only: bit_or_iff bit_push_bit_iff bit_u8_u64) auto
  show ?case
  proof (cases "j < 8")
    case True
    then show ?thesis unfolding s by simp
  next
    case False
    then obtain i where i: "j = i + 8" by (metis add.commute le_add_diff_inverse not_less)
    have "bit (load_be d f n) i \<longleftrightarrow> i < 8 * n \<and> bit (d ! (f + (n - 1 - i div 8))) (i mod 8)"
      using Suc.prems by (intro Suc.IH) simp
    moreover have "(i + 8) div 8 = Suc (i div 8)" "(i + 8) mod 8 = i mod 8" by simp_all
    ultimately show ?thesis using s [unfolded i] Suc.prems unfolding i by auto
  qed
qed

lemma length_store_le [simp]: "length (store_le d f n v) = length d"
  unfolding store_le_def by (induction n) auto

lemma length_store_be [simp]: "length (store_be d f n v) = length d"
  unfolding store_be_def by (rule list_update_map_upt [of 0, simplified])

lemma nth_store_le:
  assumes "f + n \<le> length d" "i < length d"
  shows "store_le d f n v ! i =
    (if f \<le> i \<and> i < f + n then ucast (drop_bit (8 * (i - f)) v AND 0xFF) else d ! i)"
  using assms
proof (induction n)
  case 0
  then show ?case by (auto simp: store_le_def)
next
  case (Suc n)
  have "store_le d f (Suc n) v = (store_le d f n v)[f + n := ucast (drop_bit (8 * n) v AND 0xFF)]"
    by (simp add: store_le_def)
  then show ?case using Suc by (auto simp: nth_list_update less_Suc_eq)
qed

lemma nth_store_be_gen:
  assumes "f + m \<le> length d" "i < length d"
  shows "foldl (\<lambda>d i. d[f + i := ucast (drop_bit (8 * (n - 1 - i)) (v::u64) AND 0xFF)]) d [0..<m] ! i =
    (if f \<le> i \<and> i < f + m then ucast (drop_bit (8 * (n - 1 - (i - f))) v AND 0xFF) else d ! i)"
  using assms
proof (induction m)
  case 0
  then show ?case by auto
next
  case (Suc m)
  have "length (foldl (\<lambda>d i. d[f + i := ucast (drop_bit (8 * (n - 1 - i)) v AND 0xFF)]) d [0..<m]) = length d"
    by (rule list_update_map_upt [of 0, simplified])
  then show ?case using Suc by (auto simp: nth_list_update less_Suc_eq)
qed

lemma nth_store_be:
  assumes "f + n \<le> length d" "i < length d"
  shows "store_be d f n v ! i =
    (if f \<le> i \<and> i < f + n then ucast (drop_bit (8 * (n - 1 - (i - f))) v AND 0xFF) else d ! i)"
  unfolding store_be_def by (rule nth_store_be_gen [OF assms])

lemma mask8_u64: "(0xFF :: u64) = mask 8"
  by (simp add: mask_eq_exp_minus_1)

lemma bit_byte_of [simp]: "b < 8 \<Longrightarrow> bit (ucast (drop_bit n (v :: u64) AND 0xFF) :: u8) b \<longleftrightarrow> bit v (n + b)"
  unfolding mask8_u64 by (simp only: bit_u64_u8 bit_and_iff bit_mask_iff bit_drop_bit_eq) simp

lemma bit_store_le:
  assumes "f + n \<le> length d" "i < length d" "b < 8"
  shows "bit (store_le d f n v ! i) b \<longleftrightarrow>
    (if f \<le> i \<and> i < f + n then bit v (8 * (i - f) + b) else bit (d ! i) b)"
  unfolding nth_store_le [OF assms(1,2)]
  by (cases "f \<le> i \<and> i < f + n") (simp_all only: simp_thms if_True if_False bit_byte_of [OF assms(3)])

lemma bit_store_be:
  assumes "f + n \<le> length d" "i < length d" "b < 8"
  shows "bit (store_be d f n v ! i) b \<longleftrightarrow>
    (if f \<le> i \<and> i < f + n then bit v (8 * (n - 1 - (i - f)) + b) else bit (d ! i) b)"
  unfolding nth_store_be [OF assms(1,2)]
  by (cases "f \<le> i \<and> i < f + n") (simp_all only: simp_thms if_True if_False bit_byte_of [OF assms(3)])

definition run_ok :: "nat \<Rightarrow> u8 \<Rightarrow> bytes \<Rightarrow> bool" where
  "run_ok q0 len data \<longleftrightarrow> 1 \<le> unat len \<and> unat len \<le> 64 \<and> q0 + unat len \<le> 8 * length data"

lemma q0_split: "q0 = 8 * (q0 div 8) + q0 mod (8::nat)" by simp

lemma q0_add: "(q0 + j) div 8 = q0 div 8 + (q0 mod 8 + j) div (8::nat)"
    "(q0 + j) mod 8 = (q0 mod 8 + j) mod (8::nat)"
proof -
  have q: "q0 + j = 8 * (q0 div 8) + (q0 mod 8 + j)" by simp
  show "(q0 + j) div 8 = q0 div 8 + (q0 mod 8 + j) div 8" by (subst q) (rule div8_add)
  show "(q0 + j) mod 8 = (q0 mod 8 + j) mod 8" by (subst q) (rule mod8_add)
qed

lemma spanned_bounds:
  "8 * spanned_bytes off len < off + unat len + 8" "off + unat len \<le> 8 * spanned_bytes off len"
  by (simp_all add: spanned_bytes_def)

lemma spanned_in_range:
  assumes "run_ok q0 len data"
  shows "q0 div 8 + spanned_bytes (q0 mod 8) len \<le> length data" "spanned_bytes (q0 mod 8) len \<le> 9"
  using assms spanned_bounds [of "q0 mod 8" len] q0_split [of q0] mod_less_divisor [of 8 q0]
  unfolding run_ok_def by linarith+

lemma nine_bytes:
  assumes "run_ok q0 len data" "\<not> spanned_bytes (q0 mod 8) len \<le> 8"
  shows "spanned_bytes (q0 mod 8) len = 9" "64 < q0 mod 8 + unat len" "q0 div 8 + 8 < length data"
  using spanned_in_range [OF assms(1)] spanned_bounds [of "q0 mod 8" len] assms(2) by linarith+

subsection \<open>Extraction\<close>

lemma extract_intel_short:
  "spanned_bytes (q0 mod 8) len \<le> 8 \<Longrightarrow> extract_intel data q0 len =
    drop_bit (q0 mod 8) (load_le data (q0 div 8) (spanned_bytes (q0 mod 8) len)) AND bit_mask len"
  by (simp add: extract_intel_def Let_def)

lemma extract_intel_long:
  "spanned_bytes (q0 mod 8) len = 9 \<Longrightarrow> extract_intel data q0 len =
    (drop_bit (q0 mod 8) (load_le data (q0 div 8) 8)
      OR push_bit (64 - q0 mod 8) (ucast (data ! (q0 div 8 + 8)))) AND bit_mask len"
  by (simp add: extract_intel_def Let_def)

lemma cbit_Intel:
  "cbit Intel data (q0 + j) = bit (data ! (q0 div 8 + (q0 mod 8 + j) div 8)) ((q0 mod 8 + j) mod 8)"
  unfolding cbit_def q0_add [of q0 j] by simp

lemma bit_drop_load_le:
  "n \<le> 8 \<Longrightarrow> bit (drop_bit off (load_le d f n)) j \<longleftrightarrow> off + j < 8 * n \<and> bit (d ! (f + (off + j) div 8)) ((off + j) mod 8)"
  by (simp only: bit_drop_bit_eq bit_load_le comp_def)

lemma bit_ninth:
  assumes "off < 8" "j < 64"
  shows "bit (push_bit (64 - off) (ucast (w :: u8)) :: u64) j \<longleftrightarrow> 64 \<le> off + j \<and> bit w (off + j - 64)"
proof -
  have "64 - off \<le> j \<longleftrightarrow> 64 \<le> off + j" "j - (64 - off) = off + j - 64"
    using assms by linarith+
  then show ?thesis using assms(2) by (simp only: bit_push_bit_iff bit_u8_u64) simp
qed

lemma div_mod_ninth:
  assumes "64 \<le> m" "m < 72"
  shows "m div 8 = 8" "m mod 8 = m - (64::nat)"
proof -
  show d: "m div 8 = 8" using assms by (intro div_nat_eqI) simp_all
  then show "m mod 8 = m - 64" by (simp add: modulo_nat_def)
qed

lemma extract_intel_bit:
  assumes "run_ok q0 len data"
  shows "bit (extract_intel data q0 len) j \<longleftrightarrow> j < unat len \<and> cbit Intel data (q0 + j)"
proof -
  let ?f = "q0 div 8" and ?o = "q0 mod 8"
  let ?nb = "spanned_bytes ?o len"
  have len: "unat len \<le> 64" using assms by (simp add: run_ok_def)
  have o8: "?o < 8" by simp
  show ?thesis
  proof (cases "?nb \<le> 8")
    case True
    have "?o + j < 8 * ?nb" if "j < unat len"
      using spanned_bounds(2) [of ?o len] that by linarith
    then show ?thesis using len
      unfolding extract_intel_short [OF True] cbit_Intel bit_and_iff bit_drop_load_le [OF True] bit_bit_mask
      by (metis less_imp_le min_def order_less_le_trans)
  next
    case False
    note n9 = nine_bytes [OF assms False]
    have "bit (extract_intel data q0 len) j \<longleftrightarrow> cbit Intel data (q0 + j)" if j: "j < unat len"
    proof -
      have "j < 64" "?o + j < 72" using j len o8 by linarith+
      then show ?thesis using j div_mod_ninth [of "?o + j"]
        unfolding extract_intel_long [OF n9(1)] cbit_Intel bit_and_iff bit_or_iff
          bit_drop_load_le [OF order_refl] bit_bit_mask bit_ninth [OF o8 \<open>j < 64\<close>]
        by (cases "64 \<le> ?o + j") (simp_all del: mod_less_divisor)
    qed
    moreover have "\<not> bit (extract_intel data q0 len) j" if "\<not> j < unat len"
      using that unfolding extract_intel_long [OF n9(1)] bit_and_iff bit_bit_mask by simp
    ultimately show ?thesis by blast
  qed
qed

lemma cbit_Motorola:
  assumes "m < 8 * n"
  shows "cbit Motorola data (8 * f + (8 * n - 1 - m)) = bit (data ! (f + (n - 1 - m div 8))) (m mod 8)"
  unfolding cbit_def div8_add mod8_add rev_div8 [OF assms] rev_mod8 [OF assms] by simp

lemma extract_motorola_short:
  "spanned_bytes (q0 mod 8) len \<le> 8 \<Longrightarrow> extract_motorola data q0 len =
    drop_bit (spanned_bytes (q0 mod 8) len * 8 - q0 mod 8 - unat len)
      (load_be data (q0 div 8) (spanned_bytes (q0 mod 8) len)) AND bit_mask len"
  by (simp add: extract_motorola_def Let_def)

lemma extract_motorola_long:
  "\<not> spanned_bytes (q0 mod 8) len \<le> 8 \<Longrightarrow> extract_motorola data q0 len =
    (push_bit (q0 mod 8 + unat len - 64) (load_be data (q0 div 8) 8)
      OR drop_bit (8 - (q0 mod 8 + unat len - 64)) (ucast (data ! (q0 div 8 + 8)))) AND bit_mask len"
  by (simp add: extract_motorola_def Let_def)

lemma bit_drop_load_be:
  "n \<le> 8 \<Longrightarrow> bit (drop_bit s (load_be d f n)) j \<longleftrightarrow>
    s + j < 8 * n \<and> bit (d ! (f + (n - 1 - (s + j) div 8))) ((s + j) mod 8)"
  by (simp only: bit_drop_bit_eq bit_load_be comp_def)

lemma bit_push_load_be:
  assumes "j < 64" "t \<le> 8"
  shows "bit (push_bit t (load_be d f 8)) j \<longleftrightarrow>
    t \<le> j \<and> bit (d ! (f + (9 - 1 - (8 - t + j) div 8))) ((8 - t + j) mod 8)"
proof (cases "t \<le> j")
  case True
  then have "8 - t + j = 8 * 1 + (j - t)" using assms by simp
  then have "(8 - t + j) div 8 = 1 + (j - t) div 8" "(8 - t + j) mod 8 = (j - t) mod 8"
    by (simp_all only: div8_add mod8_add)
  moreover have "j - t < 8 * 8" using assms True by simp
  ultimately show ?thesis using True assms by (simp add: bit_push_bit_iff bit_load_be)
next
  case False
  then show ?thesis by (simp add: bit_push_bit_iff)
qed

lemma bit_drop_last:
  "bit (drop_bit s (ucast (w :: u8)) :: u64) j \<longleftrightarrow> s + j < 8 \<and> bit w (s + j)"
  by (simp add: bit_drop_bit_eq) (metis bit_u8_ge not_less)

lemma motorola_short_bit:
  assumes "j < len" "len \<le> 64" "nb \<le> 8" "off + len \<le> 8 * nb"
  shows "bit (drop_bit (nb * 8 - off - len) (load_be d f nb)) j \<longleftrightarrow>
    cbit Motorola d (8 * f + off + len - 1 - j)"
proof -
  define m where "m = 8 * nb - off - len + j"
  have m: "m < 8 * nb" using assms by (simp add: m_def)
  have q: "8 * f + off + len - 1 - j = 8 * f + (8 * nb - 1 - m)"
    using assms by (simp add: m_def)
  have s: "nb * 8 - off - len + j = m" by (simp add: m_def)
  show ?thesis
    unfolding q cbit_Motorola [OF m] bit_drop_load_be [OF assms(3)] s using m by simp
qed

lemma motorola_long_bit:
  assumes "j < len" "len \<le> 64" "off < 8" "64 < off + len"
  shows "bit (push_bit (off + len - 64) (load_be d f 8)
      OR drop_bit (8 - (off + len - 64)) (ucast (d ! (f + 8)))) j \<longleftrightarrow>
    cbit Motorola d (8 * f + off + len - 1 - j)"
proof -
  define t where "t = off + len - 64"
  define m where "m = 8 - t + j"
  have t: "t \<le> 8" "j < 64" using assms by (simp_all add: t_def)
  have m: "m < 8 * 9" using assms by (simp add: m_def t_def)
  have q: "8 * f + off + len - 1 - j = 8 * f + (8 * 9 - 1 - m)"
    using assms by (simp add: m_def t_def)
  have e: "bit (push_bit t (load_be d f 8) OR drop_bit (8 - t) (ucast (d ! (f + 8)))) j \<longleftrightarrow>
      t \<le> j \<and> bit (d ! (f + (9 - 1 - m div 8))) (m mod 8) \<or> m < 8 \<and> bit (d ! (f + 8)) m"
    unfolding bit_or_iff bit_push_load_be [OF t(2,1)] bit_drop_last m_def by (rule refl)
  show ?thesis
  proof (cases "m < 8")
    case True
    then have "m div 8 = 0" "m mod 8 = m" "\<not> t \<le> j" using t by (auto simp: m_def)
    then show ?thesis unfolding q cbit_Motorola [OF m] t_def [symmetric] e using True by simp
  next
    case False
    then have "t \<le> j" using t by (auto simp: m_def)
    then show ?thesis unfolding q cbit_Motorola [OF m] t_def [symmetric] e using False by simp
  qed
qed

lemma extract_motorola_bit:
  assumes "run_ok q0 len data"
  shows "bit (extract_motorola data q0 len) j \<longleftrightarrow>
    j < unat len \<and> cbit Motorola data (q0 + unat len - 1 - j)"
proof (cases "j < unat len")
  case False
  then show ?thesis
    by (cases "spanned_bytes (q0 mod 8) len \<le> 8")
      (simp_all add: extract_motorola_short extract_motorola_long bit_and_iff)
next
  case True
  have len: "unat len \<le> 64" using assms by (simp add: run_ok_def)
  then have b: "bit (bit_mask len) j" using True by simp
  have q: "8 * (q0 div 8) + q0 mod 8 = q0" by simp
  show ?thesis
  proof (cases "spanned_bytes (q0 mod 8) len \<le> 8")
    case nb: True
    show ?thesis
      using motorola_short_bit [OF True len nb spanned_bounds(2), of data "q0 div 8"] True b
      unfolding extract_motorola_short [OF nb] bit_and_iff q by blast
  next
    case nb: False
    show ?thesis
      using motorola_long_bit [OF True len _ nine_bytes(2) [OF assms nb], of data "q0 div 8"] True b
      unfolding extract_motorola_long [OF nb] bit_and_iff q by simp
  qed
qed

subsection \<open>Insertion\<close>

lemma bit_merge:
  assumes "j < 64"
  shows "bit ((acc AND NOT (push_bit s (bit_mask len)))
      OR (push_bit s (v AND bit_mask len) AND push_bit s (bit_mask len))) j \<longleftrightarrow>
    (if s \<le> j \<and> j < s + unat len then bit v (j - s) else bit acc j)"
  using assms by (auto simp: bit_simps)

lemma byte_index:
  assumes "f \<le> i" "b < (8::nat)"
  shows "(8 * (i - f) + b) div 8 = i - f" "(8 * (i - f) + b) mod 8 = b"
  using assms by simp_all

definition byte_bit :: "byte_order \<Rightarrow> nat \<Rightarrow> nat \<Rightarrow> nat" where
  "byte_bit order i b = 8 * i + (if order = Intel then b else 7 - b)"

definition run_index :: "byte_order \<Rightarrow> nat \<Rightarrow> u8 \<Rightarrow> nat \<Rightarrow> nat" where
  "run_index order q0 len q = (if order = Intel then q - q0 else q0 + unat len - 1 - q)"

definition inserted :: "byte_order \<Rightarrow> bytes \<Rightarrow> nat \<Rightarrow> u8 \<Rightarrow> u64 \<Rightarrow> nat \<Rightarrow> nat \<Rightarrow> bool" where
  "inserted order d q0 len v i b =
     (let q = byte_bit order i b in
      if q0 \<le> q \<and> q < q0 + unat len then bit v (run_index order q0 len q) else bit (d ! i) b)"

lemma intel_head:
  assumes n: "n \<le> 8" "f + n \<le> length d" and ib: "i < length d" "b < 8"
    and cover: "f \<le> i \<and> i < f + n \<or> \<not> (8 * f + off \<le> 8 * i + b \<and> 8 * i + b < 8 * f + off + unat len)"
  shows "bit (store_le d f n ((load_le d f n AND NOT (push_bit off (bit_mask len)))
      OR (push_bit off (v AND bit_mask len) AND push_bit off (bit_mask len))) ! i) b
    = inserted Intel d (8 * f + off) len v i b"
proof (cases "f \<le> i \<and> i < f + n")
  case False
  then show ?thesis using cover unfolding bit_store_le [OF n(2) ib]
    by (auto simp: inserted_def byte_bit_def Let_def)
next
  case True
  define j where "j = 8 * (i - f) + b"
  have j: "j < 64" "j < 8 * n" using True n ib unfolding j_def by linarith+
  have bi: "j div 8 = i - f" "j mod 8 = b" using True ib byte_index by (auto simp: j_def)
  have q: "8 * i + b = 8 * f + j" using True unfolding j_def by linarith
  have "f + (i - f) = i" using True by simp
  then have "bit (load_le d f n) j = bit (d ! i) b" using n j by (simp add: bit_load_le bi)
  moreover have "8 * f + off \<le> 8 * i + b \<and> 8 * i + b < 8 * f + off + unat len
      \<longleftrightarrow> off \<le> j \<and> j < off + unat len" "8 * i + b - (8 * f + off) = j - off" using q by linarith+
  ultimately show ?thesis using True
    unfolding bit_store_le [OF n(2) ib] j_def [symmetric] bit_merge [OF j(1)]
    by (simp add: inserted_def byte_bit_def run_index_def Let_def)
qed

lemma motorola_head:
  assumes n: "n \<le> 8" "f + n \<le> length d" and ib: "i < length d" "b < 8"
    and fit: "off + unat len \<le> 8 * n" "0 < unat len"
    and s: "s = 8 * n - off - unat len"
  shows "bit (store_be d f n ((load_be d f n AND NOT (push_bit s (bit_mask len)))
      OR (push_bit s (v AND bit_mask len) AND push_bit s (bit_mask len))) ! i) b
    = inserted Motorola d (8 * f + off) len v i b"
proof (cases "f \<le> i \<and> i < f + n")
  case False
  then show ?thesis using fit ib(2) unfolding bit_store_be [OF n(2) ib]
    by (auto simp: inserted_def byte_bit_def Let_def)
next
  case True
  define j where "j = 8 * (n - 1 - (i - f)) + b"
  have j: "j < 64" "j < 8 * n" using True n ib unfolding j_def by linarith+
  have "j div 8 = n - 1 - (i - f)" "j mod 8 = b" using ib by (simp_all add: j_def)
  moreover have "f + (n - 1 - (n - 1 - (i - f))) = i" using True by linarith
  ultimately have "bit (load_be d f n) j = bit (d ! i) b" using n j by (simp add: bit_load_be)
  moreover have "8 * i + (7 - b) = 8 * f + (8 * n - 1 - j)"
    using True ib(2) by (simp add: j_def) linarith
  moreover from this have "8 * f + off \<le> 8 * i + (7 - b) \<and> 8 * i + (7 - b) < 8 * f + off + unat len
      \<longleftrightarrow> s \<le> j \<and> j < s + unat len" using s fit j(2) by linarith
  moreover have "8 * f + off + unat len - 1 - (8 * i + (7 - b)) = j - s" if "s \<le> j"
    using that calculation(2) s fit j(2) by linarith
  ultimately show ?thesis using True
    unfolding bit_store_be [OF n(2) ib] j_def [symmetric] bit_merge [OF j(1)]
    by (simp add: inserted_def byte_bit_def run_index_def Let_def)
qed

lemma bit_tail_mask_low:
  "t < 8 \<Longrightarrow> bit (ucast (push_bit t 1 - 1 :: u32) :: u8) b \<longleftrightarrow> b < t"
proof -
  assume "t < 8"
  moreover have "(push_bit t 1 - 1 :: u32) = mask t" by (simp add: mask_eq_exp_minus_1)
  ultimately show ?thesis by (simp only: bit_ucast_iff bit_mask_iff) auto
qed

lemma bit_tail_mask_high:
  assumes "t \<le> 8"
  shows "bit (ucast (push_bit (8 - t) 0xFF :: u32) :: u8) b \<longleftrightarrow> 8 - t \<le> b \<and> b < 8"
proof -
  have "(0xFF :: u32) = mask 8" by (simp add: mask_eq_exp_minus_1)
  then show ?thesis using assms
    by (simp only: bit_ucast_iff bit_push_bit_iff bit_mask_iff) auto
qed

lemma bit_tail_update:
  assumes "b < 8"
  shows "bit ((x AND NOT (m :: u8)) OR (ucast (w AND ucast m :: u64) :: u8)) b \<longleftrightarrow>
    (if bit m b then bit w b else bit x b)"
  using assms by (auto simp: bit_simps)

lemma insert_intel_short:
  "spanned_bytes (q0 mod 8) len \<le> 8 \<Longrightarrow> insert_intel d q0 len v =
    store_le d (q0 div 8) (spanned_bytes (q0 mod 8) len)
      ((load_le d (q0 div 8) (spanned_bytes (q0 mod 8) len) AND NOT (push_bit (q0 mod 8) (bit_mask len)))
       OR (push_bit (q0 mod 8) (v AND bit_mask len) AND push_bit (q0 mod 8) (bit_mask len)))"
  by (simp add: insert_intel_def Let_def)

lemma insert_intel_long:
  assumes "spanned_bytes (q0 mod 8) len = 9"
  shows "insert_intel d q0 len v =
   (let f = q0 div 8; off = q0 mod 8; t = off + unat len - 64;
        d' = store_le d f 8 ((load_le d f 8 AND NOT (push_bit off (bit_mask len)))
               OR (push_bit off (v AND bit_mask len) AND push_bit off (bit_mask len)));
        m = ucast (push_bit t 1 - 1 :: u32) :: u8
    in d'[f + 8 := (d' ! (f + 8) AND NOT m)
          OR ucast (drop_bit (unat len - t) (v AND bit_mask len) AND ucast m)])"
  using assms by (simp add: insert_intel_def Let_def)

lemma insert_motorola_short:
  "spanned_bytes (q0 mod 8) len \<le> 8 \<Longrightarrow> insert_motorola d q0 len v =
    (let f = q0 div 8; n = spanned_bytes (q0 mod 8) len; s = 8 * n - q0 mod 8 - unat len in
     store_be d f n ((load_be d f n AND NOT (push_bit s (bit_mask len)))
       OR (push_bit s (v AND bit_mask len) AND push_bit s (bit_mask len))))"
  by (simp add: insert_motorola_def Let_def mult.commute)

lemma insert_motorola_long:
  assumes "\<not> spanned_bytes (q0 mod 8) len \<le> 8"
  shows "insert_motorola d q0 len v =
   (let f = q0 div 8; t = q0 mod 8 + unat len - 64; hb = of_nat (unat len - t) :: u8; w = v AND bit_mask len;
        d' = store_be d f 8 ((load_be d f 8 AND NOT (bit_mask hb)) OR (drop_bit t w AND bit_mask hb));
        m = ucast (push_bit (8 - t) 0xFF :: u32) :: u8
    in d'[f + 8 := (d' ! (f + 8) AND NOT m) OR ucast (push_bit (8 - t) w AND ucast m)])"
  using assms by (simp add: insert_motorola_def Let_def)

lemma length_insert_intel [simp]: "length (insert_intel d q0 len v) = length d"
  by (simp add: insert_intel_def Let_def)

lemma length_insert_motorola [simp]: "length (insert_motorola d q0 len v) = length d"
  by (simp add: insert_motorola_def Let_def)

lemma outside_span:
  assumes "off + unat len \<le> 8 * n" "\<not> (f \<le> i \<and> i < f + n)" "b < 8"
  shows "\<not> (8 * f + off \<le> 8 * i + b \<and> 8 * i + b < 8 * f + off + unat len)"
proof (cases "f \<le> i")
  case True
  then have "8 * (f + n) \<le> 8 * i" using assms(2) by simp
  then show ?thesis using assms(1) by simp
next
  case False
  then have "8 * Suc i \<le> 8 * f" by simp
  then show ?thesis using assms(3) by simp
qed

lemma insert_intel_bit:
  assumes ok: "run_ok q0 len d" and ib: "i < length d" "b < 8"
  shows "bit (insert_intel d q0 len v ! i) b = inserted Intel d q0 len v i b"
proof -
  define f where "f = q0 div 8"
  define off where "off = q0 mod 8"
  have q0: "q0 = 8 * f + off" and o8: "off < 8" by (simp_all add: f_def off_def)
  note span = spanned_in_range [OF ok, folded f_def off_def] spanned_bounds [of off len]
  have len: "unat len \<le> 64" using ok by (simp add: run_ok_def)
  show ?thesis
  proof (cases "spanned_bytes off len \<le> 8")
    case True
    show ?thesis
      unfolding insert_intel_short [of q0, folded off_def f_def, OF True] unfolding q0
      using intel_head [OF True span(1) ib] outside_span [OF span(4), of f i b] ib(2) by blast
  next
    case False
    define t where "t = off + unat len - 64"
    note n9 = nine_bytes [OF ok, folded off_def f_def, OF False]
    have t: "t < 8" "64 + t = off + unat len" using n9(2) o8 len by (simp_all add: t_def)
    define d' where "d' = store_le d f 8 ((load_le d f 8 AND NOT (push_bit off (bit_mask len)))
               OR (push_bit off (v AND bit_mask len) AND push_bit off (bit_mask len)))"
    define m where "m = (ucast (push_bit t 1 - 1 :: u32) :: u8)"
    have e: "insert_intel d q0 len v = d'[f + 8 := (d' ! (f + 8) AND NOT m)
          OR ucast (drop_bit (unat len - t) (v AND bit_mask len) AND ucast m)]"
      using insert_intel_long [of q0, folded off_def f_def, OF n9(1)]
      by (simp add: Let_def t_def m_def d'_def)
    have l: "length d' = length d" by (simp add: d'_def)
    have r: "f + 8 \<le> length d" using n9(3) by simp
    show ?thesis
    proof (cases "i = f + 8")
      case True
      have d: "bit (d' ! i) b = bit (d ! i) b"
        using bit_store_le [OF r ib] True by (simp add: d'_def)
      have "bit (insert_intel d q0 len v ! i) b \<longleftrightarrow>
          (if b < t then bit v (unat len - t + b) else bit (d ! i) b)"
      proof -
        have "bit m b \<longleftrightarrow> b < t" unfolding m_def by (rule bit_tail_mask_low [OF t(1)])
        moreover have "bit (drop_bit (unat len - t) (v AND bit_mask len)) b \<longleftrightarrow> bit v (unat len - t + b)"
          if "b < t"
        proof -
          have "unat len - t + b < unat len" "unat len - t + b < 64" using that t o8 len by linarith+
          then show ?thesis by (simp add: bit_drop_bit_eq bit_and_iff)
        qed
        ultimately show ?thesis unfolding e using True ib l d
          by (simp add: bit_tail_update [OF ib(2)])
      qed
      moreover have "q0 \<le> 8 * i + b \<and> 8 * i + b < q0 + unat len \<longleftrightarrow> b < t"
        "8 * i + b - q0 = unat len - t + b" using True t o8 len q0 by linarith+
      ultimately show ?thesis by (simp add: inserted_def byte_bit_def run_index_def Let_def)
    next
      case False
      have "f \<le> i \<and> i < f + 8 \<or> \<not> (8 * f + off \<le> 8 * i + b \<and> 8 * i + b < 8 * f + off + unat len)"
      proof (cases "f \<le> i \<and> i < f + 9")
        case True
        then show ?thesis using \<open>i \<noteq> f + 8\<close> by linarith
      next
        case out: False
        show ?thesis using outside_span [OF span(4) _ ib(2), of f i] out unfolding n9(1) by blast
      qed
      from intel_head [OF order_refl r ib this, of v] show ?thesis
        unfolding e using False l ib q0 by (simp add: d'_def)
    qed
  qed
qed

lemma insert_motorola_bit:
  assumes ok: "run_ok q0 len d" and ib: "i < length d" "b < 8"
  shows "bit (insert_motorola d q0 len v ! i) b = inserted Motorola d q0 len v i b"
proof -
  define f where "f = q0 div 8"
  define off where "off = q0 mod 8"
  have q0: "q0 = 8 * f + off" and o8: "off < 8" by (simp_all add: f_def off_def)
  note span = spanned_in_range [OF ok, folded f_def off_def] spanned_bounds [of off len]
  have len: "unat len \<le> 64" "0 < unat len" using ok by (simp_all add: run_ok_def)
  show ?thesis
  proof (cases "spanned_bytes off len \<le> 8")
    case True
    show ?thesis
      unfolding insert_motorola_short [of q0, folded off_def f_def, OF True] Let_def unfolding q0
      by (rule motorola_head [OF True span(1) ib span(4) len(2) refl])
  next
    case False
    define t where "t = off + unat len - 64"
    note n9 = nine_bytes [OF ok, folded off_def f_def, OF False]
    have t: "t < 8" "0 < t" "64 + t = off + unat len" using n9(2) o8 len by (simp_all add: t_def)
    define hb where "hb = (of_nat (unat len - t) :: u8)"
    have hb: "unat hb = 64 - off" "0 < unat hb" 
    proof -
      have "unat len - t = 64 - off" using t len o8 by linarith
      moreover have "unat (of_nat (64 - off) :: u8) = 64 - off"
        by (subst unat_of_nat) (simp add: mod_less)
      ultimately show "unat hb = 64 - off" "0 < unat hb" using o8 by (simp_all add: hb_def)
    qed
    define w where "w = v AND bit_mask len"
    define d' where "d' = store_be d f 8 ((load_be d f 8 AND NOT (bit_mask hb)) OR (drop_bit t w AND bit_mask hb))"
    define m where "m = (ucast (push_bit (8 - t) 0xFF :: u32) :: u8)"
    have e: "insert_motorola d q0 len v = d'[f + 8 := (d' ! (f + 8) AND NOT m)
          OR ucast (push_bit (8 - t) w AND ucast m)]"
      using insert_motorola_long [of q0, folded off_def f_def, OF False]
      by (simp add: Let_def t_def hb_def m_def w_def d'_def)
    have l: "length d' = length d" by (simp add: d'_def)
    have r: "f + 8 \<le> length d" using n9(3) by simp
    show ?thesis
    proof (cases "i = f + 8")
      case True
      have d: "bit (d' ! i) b = bit (d ! i) b"
        using bit_store_be [OF r ib] True by (simp add: d'_def)
      have "bit (insert_motorola d q0 len v ! i) b \<longleftrightarrow>
          (if 8 - t \<le> b then bit v (b - (8 - t)) else bit (d ! i) b)"
      proof -
        have "bit m b \<longleftrightarrow> 8 - t \<le> b"
          unfolding m_def using bit_tail_mask_high [of t b] t ib by simp
        moreover have "bit (push_bit (8 - t) w) b \<longleftrightarrow> bit v (b - (8 - t))" if "8 - t \<le> b"
        proof -
          have "b - (8 - t) < unat len" "b - (8 - t) < 64" "b < 64" using that t o8 ib(2) by linarith+
          then show ?thesis using that by (simp add: bit_push_bit_iff w_def bit_and_iff)
        qed
        ultimately show ?thesis unfolding e using True ib l d
          by (simp add: bit_tail_update [OF ib(2)])
      qed
      moreover have "q0 \<le> 8 * i + (7 - b) \<and> 8 * i + (7 - b) < q0 + unat len \<longleftrightarrow> 8 - t \<le> b"
        "q0 + unat len - 1 - (8 * i + (7 - b)) = b - (8 - t)" using True t o8 q0 ib(2) by linarith+
      ultimately show ?thesis by (simp add: inserted_def byte_bit_def run_index_def Let_def)
    next
      case False
      have fit: "off + unat hb \<le> 8 * 8" using hb o8 by simp
      have z: "0 = 8 * 8 - off - unat hb" using hb by simp
      have "bit (d' ! i) b = inserted Motorola d (8 * f + off) hb (drop_bit t w) i b"
        using motorola_head [OF order_refl r ib fit hb(2) z, of "drop_bit t w"]
        by (simp add: d'_def and.assoc)
      also have "\<dots> = inserted Motorola d q0 len v i b"
      proof -
        let ?q = "8 * i + (7 - b)"
        have i: "i < f + 8 \<or> f + 8 < i" using False by linarith
        have "q0 \<le> ?q \<and> ?q < q0 + unat hb \<longleftrightarrow> q0 \<le> ?q \<and> ?q < q0 + unat len"
          using i hb t o8 q0 ib(2) by linarith
        moreover have "bit (drop_bit t w) (q0 + unat hb - 1 - ?q) = bit v (q0 + unat len - 1 - ?q)"
          if "q0 \<le> ?q" "?q < q0 + unat hb"
        proof -
          have "t + (q0 + unat hb - 1 - ?q) = q0 + unat len - 1 - ?q"
            "q0 + unat len - 1 - ?q < unat len" "q0 + unat len - 1 - ?q < 64"
            using that hb t len by linarith+
          then show ?thesis by (simp add: bit_drop_bit_eq w_def bit_and_iff)
        qed
        ultimately show ?thesis unfolding q0 [symmetric]
          unfolding inserted_def byte_bit_def run_index_def Let_def
          by (auto simp only: byte_order.distinct if_False split: if_split)
      qed
      finally show ?thesis unfolding e using False l ib by simp
    qed
  qed
qed

lemma bit_1_AND: "bit (w AND 1 :: 'a::len word) n \<longleftrightarrow> n = 0 \<and> bit w 0"
  by (auto simp: bit_simps)

lemma drop_and_one: "(drop_bit n w AND 1 \<noteq> 0) \<longleftrightarrow> bit (w :: 'a::len word) n"
  by (simp add: bit_iff_and_drop_bit_eq_1 and_one_eq)

subsection \<open>The reference loops\<close>

lemma bit_of_and_one: "bit (ucast (drop_bit n (w :: u8) AND 1) :: u64) j \<longleftrightarrow> j = 0 \<and> bit w n"
  by (simp add: bit_and_iff bit_drop_bit_eq bit_1_iff) auto

lemma address_cbit: "bit (data ! fst (address_of q order)) (snd (address_of q order)) = cbit order data q"
  by (simp add: address_of_def cbit_def Let_def)

lemma decode_bits_Intel:
  assumes "n \<le> 64"
  shows "bit (foldl (\<lambda>raw k.
          let a = address_of (q0 + k) Intel;
              b = ucast (drop_bit (snd a) (data ! fst a) AND 1) :: u64
          in if Intel = Intel then raw OR push_bit k b else push_bit 1 raw OR b) 0 [0..<n]) j
    \<longleftrightarrow> j < n \<and> cbit Intel data (q0 + j)"
  using assms
proof (induction n)
  case 0
  then show ?case by simp
next
  case (Suc n)
  then show ?case
    by (auto simp: Let_def bit_or_iff bit_push_bit_iff bit_of_and_one address_cbit less_Suc_eq
        simp del: bit_u8_u64)
qed

lemma decode_bits_Motorola:
  assumes "n \<le> 64"
  shows "bit (foldl (\<lambda>raw k.
          let a = address_of (q0 + k) Motorola;
              b = ucast (drop_bit (snd a) (data ! fst a) AND 1) :: u64
          in if Motorola = Intel then raw OR push_bit k b else push_bit 1 raw OR b) 0 [0..<n]) j
    \<longleftrightarrow> j < n \<and> cbit Motorola data (q0 + n - 1 - j)"
  using assms
proof (induction n arbitrary: j)
  case 0
  then show ?case by simp
next
  case (Suc n)
  show ?case
  proof (cases j)
    case 0
    then show ?thesis
      unfolding foldl_upt_Suc Let_def
      by (simp only: bit_or_iff bit_push_bit_iff bit_of_and_one address_cbit byte_order.distinct if_False) simp
  next
    case (Suc i)
    then show ?thesis using Suc.IH [of i] \<open>Suc n \<le> 64\<close>
      unfolding foldl_upt_Suc Let_def
      by (simp only: bit_or_iff bit_push_bit_iff bit_of_and_one address_cbit byte_order.distinct if_False) auto
  qed
qed

definition run_pos :: "byte_order \<Rightarrow> nat \<Rightarrow> u8 \<Rightarrow> nat \<Rightarrow> nat" where
  "run_pos order q0 len j = (if order = Intel then q0 + j else q0 + unat len - 1 - j)"

lemma decode_bits_bit:
  assumes "run_ok q0 len data"
  shows "bit (decode_bits order data q0 len) j \<longleftrightarrow> j < unat len \<and> cbit order data (run_pos order q0 len j)"
  using assms decode_bits_Intel [of "unat len" q0 data j] decode_bits_Motorola [of "unat len" q0 data j]
  by (cases order) (simp_all add: decode_bits_def run_pos_def run_ok_def)

lemma address_byte_bit:
  assumes "b < 8"
  shows "address_of q order = (i, b) \<longleftrightarrow> byte_bit order i b = q"
proof -
  have q: "q = 8 * (q div 8) + q mod 8" "q mod 8 < 8" by simp_all
  show ?thesis
  proof (cases "order = Intel")
    case True
    then show ?thesis using assms by (auto simp: address_of_def byte_bit_def Let_def)
  next
    case False
    have "q div 8 = i \<and> 7 - q mod 8 = b" if "8 * i + (7 - b) = q"
    proof -
      have "7 - b < 8" by simp
      then have "q div 8 = i" "q mod 8 = 7 - b" using that by auto
      then show ?thesis using assms by simp
    qed
    moreover have "8 * i + (7 - b) = q" if "q div 8 = i" "7 - q mod 8 = b"
      using that q by linarith
    ultimately show ?thesis using False by (auto simp: address_of_def byte_bit_def Let_def)
  qed
qed

lemma snd_address_less: "snd (address_of q order) < 8"
  by (auto simp: address_of_def Let_def less_Suc_eq_le)

lemma fst_address: "fst (address_of q order) = q div 8"
  by (simp add: address_of_def Let_def)

lemma bit_one_hot: "b < 8 \<Longrightarrow> bit (push_bit a 1 :: u8) b \<longleftrightarrow> b = a"
  by (simp only: bit_push_bit_iff bit_1_iff) auto

lemma bit_set_one:
  assumes "b < 8"
  shows "bit ((x AND NOT (push_bit a 1)) OR (if c then push_bit a 1 else 0) :: u8) b \<longleftrightarrow>
    (if b = a then c else bit x b)"
  using bit_one_hot [OF assms, of a] assms
  by (cases c) (auto simp only: bit_or_iff bit_and_iff bit_not_iff if_True if_False bit_0_eq possible_bit_word, auto)

lemma encode_step_bit:
  fixes d :: bytes
  assumes ib: "i < length d" "b < 8" and q: "q < 8 * length d"
  shows "bit (d[fst (address_of q order) := (d ! fst (address_of q order) AND NOT (push_bit (snd (address_of q order)) 1))
      OR (if c then push_bit (snd (address_of q order)) 1 else 0)] ! i) b
    \<longleftrightarrow> (if byte_bit order i b = q then c else bit (d ! i) b)"
proof -
  have l: "fst (address_of q order) < length d" using q by (simp add: fst_address less_mult_imp_div_less mult.commute)
  show ?thesis
  proof (cases "i = fst (address_of q order)")
    case True
    then have "byte_bit order i b = q \<longleftrightarrow> b = snd (address_of q order)"
      using address_byte_bit [OF ib(2), of q order i] by (auto simp: prod_eq_iff)
    then show ?thesis using True ib l bit_set_one [OF ib(2), of "d ! i"]
      by (simp only: nth_list_update_eq)
  next
    case False
    then have "byte_bit order i b \<noteq> q"
      using address_byte_bit [OF ib(2), of q order i] by (auto simp: prod_eq_iff)
    then show ?thesis using False ib by simp
  qed
qed

lemma length_encode_bits [simp]: "length (encode_bits order d q0 len v) = length d"
  unfolding encode_bits_def Let_def by (rule list_update_map_upt [of 0, simplified])

lemma encode_bits_prefix:
  assumes ok: "run_ok q0 len d" and ib: "i < length d" "b < 8" and n: "n \<le> unat len"
  shows "bit (foldl (\<lambda>d k.
          let a = address_of (q0 + k) order;
              shift = (if order = Intel then k else unat len - 1 - k);
              b = drop_bit shift (v AND bit_mask len) AND 1;
              mask = push_bit (snd a) 1 :: u8
          in d[fst a := (d ! fst a AND NOT mask) OR (if b \<noteq> 0 then mask else 0)]) d [0..<n] ! i) b
    \<longleftrightarrow> (let q = byte_bit order i b in
         if q0 \<le> q \<and> q < q0 + n then bit v (run_index order q0 len q) else bit (d ! i) b)"
  using n
proof (induction n)
  case 0
  then show ?case by (simp add: Let_def)
next
  case (Suc n)
  let ?step = "\<lambda>d k.
          let a = address_of (q0 + k) order;
              shift = (if order = Intel then k else unat len - 1 - k);
              b = drop_bit shift (v AND bit_mask len) AND 1;
              mask = push_bit (snd a) 1 :: u8
          in d[fst a := (d ! fst a AND NOT mask) OR (if b \<noteq> 0 then mask else 0)]"
  let ?d = "foldl ?step d [0..<n]"
  define shift where "shift = (if order = Intel then n else unat len - 1 - n)"
  have l: "length ?d = length d" unfolding Let_def by (rule list_update_map_upt [of 0, simplified])
  have q: "q0 + n < 8 * length ?d" unfolding l using ok Suc.prems unfolding run_ok_def by linarith
  have s: "shift < unat len" "shift < 64" "shift = run_index order q0 len (q0 + n)"
    using Suc.prems ok by (auto simp: shift_def run_index_def run_ok_def)
  then have c: "drop_bit shift (v AND bit_mask len) AND 1 \<noteq> 0 \<longleftrightarrow> bit v (run_index order q0 len (q0 + n))"
    by (simp only: drop_and_one bit_and_iff bit_bit_mask min_less_iff_conj simp_thms)
  have "bit (foldl ?step d [0..<Suc n] ! i) b \<longleftrightarrow>
      (if byte_bit order i b = q0 + n then bit v (run_index order q0 len (q0 + n)) else bit (?d ! i) b)"
    unfolding foldl_upt_Suc Let_def shift_def [symmetric] c
    using encode_step_bit [OF _ ib(2) q, of i order] ib(1) unfolding l [unfolded Let_def shift_def] Let_def
    by blast
  then show ?case using Suc unfolding Let_def by (auto simp: less_Suc_eq)
qed

lemma encode_bits_bit:
  assumes "run_ok q0 len d" "i < length d" "b < 8"
  shows "bit (encode_bits order d q0 len v ! i) b = inserted order d q0 len v i b"
  using encode_bits_prefix [OF assms order_refl]
  unfolding encode_bits_def inserted_def Let_def by simp

end
