(* ===== verification/Codec_Laws.thy ===== *)
theory Codec_Laws
  imports Codec_Bits
begin

text \<open>
  What the callers of the raw codec rely on. The interface \<open>run_codec\<close> says what a pair of a
  reader and a writer of one bit run promises, bit by bit; the laws of a well-behaved accessor
  and the independence of signals that share no bit are proved once from it. The word-at-a-time
  routines of both byte orders and the reference loops are its interpretations, so that the
  signal-level properties at the end are instances.
\<close>

subsection \<open>The interface\<close>

lemma bytes_eqI:
  assumes "length d = length (e :: bytes)"
    and "\<And>i b. i < length d \<Longrightarrow> b < 8 \<Longrightarrow> bit (d ! i) b = bit (e ! i) b"
  shows "d = e"
  using assms by (auto intro!: nth_equalityI bit_word_eqI)

lemma cbit_byte_bit: "b < 8 \<Longrightarrow> cbit order d (byte_bit order i b) = bit (d ! i) b"
  using address_cbit [of d "byte_bit order i b" order] address_byte_bit [of b "byte_bit order i b" order i] by simp

text \<open>The bit of the buffer, byte \<open>i\<close> bit \<open>b\<close>, belongs to the run.\<close>

definition occupies :: "byte_order \<Rightarrow> nat \<Rightarrow> u8 \<Rightarrow> nat \<Rightarrow> nat \<Rightarrow> bool" where
  "occupies order q0 len i b \<longleftrightarrow> q0 \<le> byte_bit order i b \<and> byte_bit order i b < q0 + unat len"

lemma run_pos_bounds:
  "j < unat len \<Longrightarrow> q0 \<le> run_pos order q0 len j \<and> run_pos order q0 len j < q0 + unat len"
  by (auto simp: run_pos_def)

lemma run_index_pos:
  "q0 \<le> q \<Longrightarrow> q < q0 + unat len \<Longrightarrow>
   run_index order q0 len q < unat len \<and> run_pos order q0 len (run_index order q0 len q) = q"
  by (auto simp: run_pos_def run_index_def)

lemma run_pos_index: "j < unat len \<Longrightarrow> run_index order q0 len (run_pos order q0 len j) = j"
  by (auto simp: run_pos_def run_index_def)

lemma address_range:
  "q < 8 * length d \<Longrightarrow> \<exists>i b. i < length d \<and> b < 8 \<and> byte_bit order i b = q"
proof -
  assume q: "q < 8 * length d"
  obtain i b where a: "address_of q order = (i, b)" by (cases "address_of q order")
  then have "b < 8" "i < length d" using snd_address_less [of q order] fst_address [of q order] q
    by (auto simp: less_mult_imp_div_less mult.commute)
  then show ?thesis using a address_byte_bit [of b q order i] by auto
qed

lemma run_in_buffer:
  assumes "run_ok q0 len d" "j < unat len"
  obtains i b where "i < length d" "b < 8" "byte_bit order i b = run_pos order q0 len j" "occupies order q0 len i b"
proof -
  have p: "q0 \<le> run_pos order q0 len j" "run_pos order q0 len j < q0 + unat len"
    using run_pos_bounds [OF assms(2)] by auto
  then have "run_pos order q0 len j < 8 * length d" using assms(1) by (simp add: run_ok_def)
  then show thesis using that p address_range [of _ d order] by (fastforce simp: occupies_def)
qed

lemma run_ok_length: "length d = length e \<Longrightarrow> run_ok q0 len d = run_ok q0 len e"
  by (simp add: run_ok_def)

locale run_codec =
  fixes order :: byte_order
    and get :: "bytes \<Rightarrow> nat \<Rightarrow> u8 \<Rightarrow> u64"
    and put :: "bytes \<Rightarrow> nat \<Rightarrow> u8 \<Rightarrow> u64 \<Rightarrow> bytes"
  assumes get_bit: "run_ok q0 len d \<Longrightarrow>
      bit (get d q0 len) j \<longleftrightarrow> j < unat len \<and> cbit order d (run_pos order q0 len j)"
    and put_bit: "run_ok q0 len d \<Longrightarrow> i < length d \<Longrightarrow> b < 8 \<Longrightarrow>
      bit (put d q0 len v ! i) b = inserted order d q0 len v i b"
    and length_put: "length (put d q0 len v) = length d"
begin

lemma put_bit_occupied:
  assumes "run_ok q0 len d" "i < length d" "b < 8"
  shows "bit (put d q0 len v ! i) b =
    (if occupies order q0 len i b then bit v (run_index order q0 len (byte_bit order i b)) else bit (d ! i) b)"
  using put_bit [OF assms] by (simp add: inserted_def occupies_def Let_def)

lemma get_at:
  assumes "run_ok q0 len d" "j < unat len" "b < 8" "byte_bit order i b = run_pos order q0 len j"
  shows "bit (get d q0 len) j = bit (d ! i) b"
  using get_bit [OF assms(1), of j] assms cbit_byte_bit [of b order d i] by simp

lemma get_cong:
  assumes ok: "run_ok q0 len d" and l: "length e = length d"
    and same: "\<And>i b. i < length d \<Longrightarrow> b < 8 \<Longrightarrow> occupies order q0 len i b \<Longrightarrow> bit (e ! i) b = bit (d ! i) b"
  shows "get e q0 len = get d q0 len"
proof (rule bit_word_eqI)
  fix j
  have ok': "run_ok q0 len e" using ok l run_ok_length by blast
  show "bit (get e q0 len) j = bit (get d q0 len) j"
  proof (cases "j < unat len")
    case True
    then obtain i b where "i < length d" "b < 8" "byte_bit order i b = run_pos order q0 len j"
        "occupies order q0 len i b" using run_in_buffer [OF ok] by blast
    then show ?thesis using same get_at [OF ok True] get_at [OF ok' True] by simp
  qed (simp add: get_bit ok ok')
qed

lemma get_put:
  assumes ok: "run_ok q0 len d"
  shows "get (put d q0 len v) q0 len = v AND bit_mask len"
proof (rule bit_word_eqI)
  fix j
  have ok': "run_ok q0 len (put d q0 len v)" using ok run_ok_length length_put by blast
  show "bit (get (put d q0 len v) q0 len) j = bit (v AND bit_mask len) j"
  proof (cases "j < unat len")
    case True
    obtain i b where ib: "i < length d" "b < 8" "byte_bit order i b = run_pos order q0 len j"
        "occupies order q0 len i b" using run_in_buffer [OF ok True] by blast
    have "j < 64" using True ok by (simp add: run_ok_def)
    then show ?thesis using get_at [OF ok' True ib(2,3)] put_bit_occupied [OF ok ib(1,2)] ib True
      by (simp add: run_pos_index bit_and_iff)
  qed (simp add: get_bit ok' bit_and_iff)
qed

lemma put_get:
  assumes ok: "run_ok q0 len d"
  shows "put d q0 len (get d q0 len) = d"
proof (rule bytes_eqI)
  fix i b
  assume "i < length (put d q0 len (get d q0 len))" "b < (8::nat)"
  then have ib: "i < length d" "b < 8" by (simp_all add: length_put)
  show "bit (put d q0 len (get d q0 len) ! i) b = bit (d ! i) b"
  proof (cases "occupies order q0 len i b")
    case True
    then show ?thesis using put_bit_occupied [OF ok ib] run_index_pos [of q0 "byte_bit order i b" len order]
      get_at [OF ok _ ib(2), of "run_index order q0 len (byte_bit order i b)" i] by (simp add: occupies_def)
  qed (simp add: put_bit_occupied ok ib)
qed (simp add: length_put)

lemma put_put:
  assumes ok: "run_ok q0 len d"
  shows "put (put d q0 len v) q0 len w = put d q0 len w"
proof (rule bytes_eqI)
  fix i b
  assume "i < length (put (put d q0 len v) q0 len w)" "b < (8::nat)"
  then have ib: "i < length d" "b < 8" by (simp_all add: length_put)
  have "run_ok q0 len (put d q0 len v)" using ok run_ok_length length_put by blast
  then show "bit (put (put d q0 len v) q0 len w ! i) b = bit (put d q0 len w ! i) b"
    using put_bit_occupied [OF ok ib] put_bit_occupied [OF _ _ ib(2), of q0 len "put d q0 len v" i] ib
    by (simp add: length_put)
qed (simp add: length_put)

end

definition disjoint_runs :: "byte_order \<Rightarrow> nat \<Rightarrow> u8 \<Rightarrow> byte_order \<Rightarrow> nat \<Rightarrow> u8 \<Rightarrow> nat \<Rightarrow> bool" where
  "disjoint_runs oa qa la ob qb lb n \<longleftrightarrow>
     (\<forall>i<n. \<forall>b<8. \<not> (occupies oa qa la i b \<and> occupies ob qb lb i b))"

locale two_codecs = a: run_codec order_a get_a put_a + b: run_codec order_b get_b put_b
  for order_a get_a put_a order_b get_b put_b
begin

lemma get_other:
  assumes ok: "run_ok qa la d" "run_ok qb lb d"
    and dis: "disjoint_runs order_a qa la order_b qb lb (length d)"
  shows "get_a (put_b d qb lb v) qa la = get_a d qa la"
proof (rule a.get_cong [OF ok(1) b.length_put])
  fix i c
  assume "i < length d" "c < (8::nat)" "occupies order_a qa la i c"
  then show "bit (put_b d qb lb v ! i) c = bit (d ! i) c"
    using dis b.put_bit_occupied [OF ok(2)] by (simp add: disjoint_runs_def)
qed

lemma put_commute:
  assumes ok: "run_ok qa la d" "run_ok qb lb d"
    and dis: "disjoint_runs order_a qa la order_b qb lb (length d)"
  shows "put_a (put_b d qb lb w) qa la v = put_b (put_a d qa la v) qb lb w"
proof (rule bytes_eqI)
  fix i c
  assume "i < length (put_a (put_b d qb lb w) qa la v)" "c < (8::nat)"
  then have ic: "i < length d" "c < 8" by (simp_all add: a.length_put b.length_put)
  have "run_ok qa la (put_b d qb lb w)" "run_ok qb lb (put_a d qa la v)"
    using ok run_ok_length a.length_put b.length_put by blast+
  then show "bit (put_a (put_b d qb lb w) qa la v ! i) c = bit (put_b (put_a d qa la v) qb lb w ! i) c"
    using dis ic a.put_bit_occupied [OF _ _ ic(2)] b.put_bit_occupied [OF _ _ ic(2)] ok
    by (simp add: a.length_put b.length_put disjoint_runs_def)
qed (simp add: a.length_put b.length_put)

end

locale same_run_codecs = two_codecs order get_a put_a order get_b put_b
  for order get_a put_a get_b put_b
begin

lemma get_agree: "run_ok q0 len d \<Longrightarrow> get_a d q0 len = get_b d q0 len"
  by (rule bit_word_eqI) (simp add: a.get_bit b.get_bit)

lemma put_agree: "run_ok q0 len d \<Longrightarrow> put_a d q0 len v = put_b d q0 len v"
  by (rule bytes_eqI) (simp_all add: a.length_put b.length_put a.put_bit b.put_bit)

end

lemma extract_intel_cbit:
  assumes "run_ok q0 len d"
  shows "bit (extract_intel d q0 len) j \<longleftrightarrow> j < unat len \<and> cbit Intel d (run_pos Intel q0 len j)"
  using extract_intel_bit [OF assms] by (simp add: run_pos_def)

lemma extract_motorola_cbit:
  assumes "run_ok q0 len d"
  shows "bit (extract_motorola d q0 len) j \<longleftrightarrow> j < unat len \<and> cbit Motorola d (run_pos Motorola q0 len j)"
  using extract_motorola_bit [OF assms] by (simp add: run_pos_def)

interpretation intel: run_codec Intel extract_intel insert_intel
  by unfold_locales (simp_all add: extract_intel_cbit insert_intel_bit)

interpretation motorola: run_codec Motorola extract_motorola insert_motorola
  by unfold_locales (simp_all add: extract_motorola_cbit insert_motorola_bit)

interpretation bitwise: run_codec order "decode_bits order" "encode_bits order" for order
  by unfold_locales (simp_all add: decode_bits_bit encode_bits_bit)

interpretation intel_reference: same_run_codecs Intel extract_intel insert_intel "decode_bits Intel" "encode_bits Intel"
  by unfold_locales

interpretation motorola_reference: same_run_codecs Motorola extract_motorola insert_motorola
    "decode_bits Motorola" "encode_bits Motorola"
  by unfold_locales

interpretation mixed: two_codecs order "decode_bits order" "encode_bits order" order' "decode_bits order'" "encode_bits order'"
  for order order'
  by unfold_locales

subsection \<open>Signals\<close>

lemma fits_run_ok: "fits s (length d) \<Longrightarrow> run_ok (canonical_start s) (bit_length s) d"
  by (auto simp: fits_def run_ok_def canonical_end_def word_le_nat_alt mult.commute)

lemma decode_raw_reference_eq: "fits s (length d) \<Longrightarrow> decode_raw s d = decode_raw_reference s d"
  using intel_reference.get_agree [OF fits_run_ok] motorola_reference.get_agree [OF fits_run_ok]
  by (cases "byte_order s") (simp_all add: decode_raw_def decode_raw_reference_def Let_def)

lemma encode_raw_reference_eq: "fits s (length d) \<Longrightarrow> encode_raw s v d = encode_raw_reference s v d"
  using intel_reference.put_agree [OF fits_run_ok] motorola_reference.put_agree [OF fits_run_ok]
  by (cases "byte_order s") (simp_all add: encode_raw_def encode_raw_reference_def Let_def)

lemma length_encode_raw [simp]: "length (encode_raw s v d) = length d"
  by (simp add: encode_raw_def Let_def)

lemma decode_encode_raw: "fits s (length d) \<Longrightarrow> decode_raw s (encode_raw s v d) = v AND bit_mask (bit_length s)"
  using intel.get_put [OF fits_run_ok] motorola.get_put [OF fits_run_ok]
  by (simp add: decode_raw_def encode_raw_def Let_def)

lemma encode_decode_raw: "fits s (length d) \<Longrightarrow> encode_raw s (decode_raw s d) d = d"
  using intel.put_get [OF fits_run_ok] motorola.put_get [OF fits_run_ok]
  by (simp add: decode_raw_def encode_raw_def Let_def)

lemma encode_encode_raw: "fits s (length d) \<Longrightarrow> encode_raw s w (encode_raw s v d) = encode_raw s w d"
  using intel.put_put [OF fits_run_ok] motorola.put_put [OF fits_run_ok]
  by (simp add: encode_raw_def Let_def)

text \<open>Byte \<open>i\<close> bit \<open>b\<close> of a payload belongs to the signal; two signals share no bit.\<close>

definition signal_bit :: "signal_layout \<Rightarrow> nat \<Rightarrow> nat \<Rightarrow> bool" where
  "signal_bit s i b = occupies (byte_order s) (canonical_start s) (bit_length s) i b"

definition disjoint_signals :: "signal_layout \<Rightarrow> signal_layout \<Rightarrow> nat \<Rightarrow> bool" where
  "disjoint_signals s t n =
     disjoint_runs (byte_order s) (canonical_start s) (bit_length s)
       (byte_order t) (canonical_start t) (bit_length t) n"

lemma disjoint_signals_sym: "disjoint_signals s t n \<Longrightarrow> disjoint_signals t s n"
  by (auto simp: disjoint_signals_def disjoint_runs_def)

lemma decode_other_raw:
  assumes "fits s (length d)" "fits t (length d)" "disjoint_signals s t (length d)"
  shows "decode_raw s (encode_raw t v d) = decode_raw s d"
proof -
  have "fits s (length (encode_raw t v d))" using assms(1) by simp
  then show ?thesis
    using mixed.get_other [OF fits_run_ok [OF assms(1)] fits_run_ok [OF assms(2)]
        assms(3) [unfolded disjoint_signals_def], of v]
    by (simp add: decode_raw_reference_eq encode_raw_reference_eq assms(1,2))
      (simp add: decode_raw_reference_def encode_raw_reference_def)
qed

lemma encode_raw_commute:
  assumes "fits s (length d)" "fits t (length d)" "disjoint_signals s t (length d)"
  shows "encode_raw s v (encode_raw t w d) = encode_raw t w (encode_raw s v d)"
proof -
  have "fits s (length (encode_raw t w d))" "fits t (length (encode_raw s v d))" using assms by simp_all
  then have "encode_raw s v (encode_raw t w d) = encode_raw_reference s v (encode_raw t w d)"
    "encode_raw t w (encode_raw s v d) = encode_raw_reference t w (encode_raw s v d)"
    by (simp_all only: encode_raw_reference_eq)
  then show ?thesis
    using mixed.put_commute [OF fits_run_ok [OF assms(1)] fits_run_ok [OF assms(2)]
        assms(3) [unfolded disjoint_signals_def]]
    by (simp add: encode_raw_reference_eq assms(1,2) encode_raw_reference_def)
qed

lemma encode_raw_bits:
  assumes "fits s (length d)" "i < length d" "b < 8"
  shows "bit (encode_raw s v d ! i) b =
    (if signal_bit s i b
     then bit v (run_index (byte_order s) (canonical_start s) (bit_length s) (byte_bit (byte_order s) i b))
     else bit (d ! i) b)"
  using bitwise.put_bit_occupied [OF fits_run_ok [OF assms(1)] assms(2,3)]
  by (simp add: encode_raw_reference_eq assms(1) encode_raw_reference_def signal_bit_def)

lemma decode_raw_bits:
  assumes "fits s (length d)"
  shows "bit (decode_raw s d) j \<longleftrightarrow> j < unat (bit_length s) \<and>
    cbit (byte_order s) d (run_pos (byte_order s) (canonical_start s) (bit_length s) j)"
  using bitwise.get_bit [OF fits_run_ok [OF assms]]
  by (simp add: decode_raw_reference_eq assms decode_raw_reference_def)

lemma decode_raw_less: "fits s (length d) \<Longrightarrow> decode_raw s d AND bit_mask (bit_length s) = decode_raw s d"
  by (rule bit_word_eqI) (auto simp: bit_and_iff decode_raw_bits)

lemma codec_accesses_in_range:
  fixes d :: bytes
  assumes "fits s (length d)"
  shows "canonical_start s div 8 + spanned_bytes (canonical_start s mod 8) (bit_length s) \<le> length d"
    and "spanned_bytes (canonical_start s mod 8) (bit_length s) \<le> 9"
    and "1 \<le> spanned_bytes (canonical_start s mod 8) (bit_length s)"
  using spanned_in_range [OF fits_run_ok [OF assms]] fits_run_ok [OF assms]
    spanned_bounds(2) [of "canonical_start s mod 8" "bit_length s"] by (auto simp: run_ok_def)

subsection \<open>Sign extension\<close>

lemma sint_bits: "bit (sint (w :: u64)) n = bit w (min 63 n)"
  by (cases "n = 63") (auto simp: bit_sint_iff min_def)

lemma sign_extend_masked:
  assumes len: "1 \<le> unat len" "unat len \<le> 64"
  shows "sign_extend (raw AND bit_mask len) len = signed_take_bit (unat len - 1) (uint raw)"
proof (rule bit_eqI)
  fix n
  have l1: "unat (len - 1) = unat len - 1" using len by (simp add: unat_sub word_le_nat_alt)
  have sb: "(raw AND bit_mask len) AND push_bit (unat len - 1) 1 \<noteq> 0 \<longleftrightarrow> bit raw (unat len - 1)"
    using len by (simp only: and_exp_eq_0_iff_not_bit push_bit_of_1 not_not bit_and_iff bit_bit_mask) simp
  show "bit (sign_extend (raw AND bit_mask len) len) n = bit (signed_take_bit (unat len - 1) (uint raw)) n"
  proof (cases "len \<ge> 64")
    case True
    then have "unat len = 64" using len by (simp add: word_le_nat_alt)
    then show ?thesis using True
      by (simp add: sign_extend_def sint_bits bit_and_iff bit_signed_take_bit_iff bit_uint_iff min_def)
  next
    case False
    then have "unat len < 64" by (simp add: word_le_nat_alt)
    moreover obtain m where "unat len = Suc m" using len(1) by (cases "unat len") auto
    ultimately show ?thesis using False
      unfolding sign_extend_def Let_def l1 sb
      by (auto simp: sint_bits bit_and_iff bit_or_iff bit_not_iff bit_signed_take_bit_iff bit_uint_iff
          min_def less_Suc_eq)
  qed
qed


lemma sign_extend_range:
  assumes "1 \<le> unat len" "unat len \<le> 64"
  shows "- (2 ^ (unat len - 1)) \<le> sign_extend (raw AND bit_mask len) len"
    and "sign_extend (raw AND bit_mask len) len < 2 ^ (unat len - 1)"
  unfolding sign_extend_masked [OF assms] by simp_all

lemma sign_extend_inverse:
  assumes "1 \<le> unat len" "unat len \<le> 64"
  shows "word_of_int (sign_extend (raw AND bit_mask len) len) AND bit_mask len = raw AND bit_mask len"
proof -
  obtain m where "unat len = Suc m" using assms(1) by (cases "unat len") auto
  then have m: "unat len - 1 = m" "j < min 64 (unat len) \<longleftrightarrow> j < 64 \<and> (j < m \<or> j = m)" for j by auto
  show ?thesis unfolding sign_extend_masked [OF assms] m(1)
    by (rule bit_word_eqI)
      (auto simp: bit_and_iff bit_word_of_int_iff bit_signed_take_bit_iff bit_uint_iff m(2) min.absorb2
        simp del: min_less_iff_conj)
qed

subsection \<open>Properties of the raw codec\<close>

text \<open>C1. The word-at-a-time codec computes what its one-bit-at-a-time specification computes, for
  every signal that fits the payload: decoding returns the same value and encoding leaves the
  same bytes, in both byte orders and at every alignment, the nine-byte spans included.\<close>

theorem raw_codec_matches_reference:
  fixes d :: bytes
  assumes "fits s (length d)"
  shows "decode_raw s d = decode_raw_reference s d \<and> encode_raw s v d = encode_raw_reference s v d"
  using decode_raw_reference_eq [OF assms] encode_raw_reference_eq [OF assms] by simp

definition demo_signal :: "byte_order \<Rightarrow> u16 \<Rightarrow> u8 \<Rightarrow> signal_layout" where
  "demo_signal order start len = \<lparr>start_bit = start, bit_length = len, byte_order = order,
     signedness = Unsigned, value_type = Integer, factor = of_integer 1, offset = dzero, minimum = dzero, maximum = dzero\<rparr>"

theorem raw_codec_matches_reference_witness:
  "decode_raw (demo_signal Motorola 3 64) [1, 2, 3, 4, 5, 6, 7, 8, 9] =
   decode_raw_reference (demo_signal Motorola 3 64) [1, 2, 3, 4, 5, 6, 7, 8, 9]"
  using raw_codec_matches_reference [of "demo_signal Motorola 3 64" "[1, 2, 3, 4, 5, 6, 7, 8, 9]" 0]
  by (simp add: fits_def demo_signal_def canonical_start_def canonical_end_def Let_def)

text \<open>Which physical bits a signal is: bit \<open>j\<close> of the decoded value of an Intel signal is bit
  \<open>start + j\<close> counted from the low bit of byte 0, and the Motorola value runs from its most
  significant bit at \<open>start\<close> down through each byte to bit 0 and on from bit 7 of the next one; no
  other bit is set.\<close>

theorem decode_raw_positions:
  assumes "fits s (length d)"
  shows "bit (decode_raw s d) j \<longleftrightarrow> j < unat (bit_length s) \<and>
    (let start = unat (start_bit s);
         p = (start div 8) * 8 + (7 - start mod 8) + (unat (bit_length s) - 1 - j)
     in if byte_order s = Intel then bit (d ! ((start + j) div 8)) ((start + j) mod 8)
        else bit (d ! (p div 8)) (7 - p mod 8))"
proof -
  have e: "a + n - 1 - j = a + (n - 1 - j)" if "j < n" for a n :: nat using that by linarith
  show ?thesis unfolding decode_raw_bits [OF assms] cbit_def run_pos_def canonical_start_def Let_def
    by (cases "j < unat (bit_length s)"; cases "byte_order s")
      (simp_all only: e simp_thms byte_order.distinct if_True if_False refl)
qed

theorem decode_raw_positions_witness:
  "bit (decode_raw (demo_signal Motorola 0 2) [1, 0x80]) 0 \<and> bit (decode_raw (demo_signal Motorola 0 2) [1, 0x80]) 1"
  using decode_raw_positions [of "demo_signal Motorola 0 2" "[1, 0x80]" 0]
    decode_raw_positions [of "demo_signal Motorola 0 2" "[1, 0x80]" 1]
  by (simp add: fits_def demo_signal_def canonical_start_def canonical_end_def Let_def bit_iff_odd)

text \<open>C18. A signal of a payload behaves as a field: reading what was written gives the value reduced
  to the length of the signal, writing back what was read changes nothing, and the last write
  wins. The payload keeps its length.\<close>

theorem raw_codec_field_laws:
  fixes d :: bytes
  assumes "fits s (length d)"
  shows "decode_raw s (encode_raw s v d) = v AND bit_mask (bit_length s) \<and>
    encode_raw s (decode_raw s d) d = d \<and>
    encode_raw s w (encode_raw s v d) = encode_raw s w d \<and>
    length (encode_raw s v d) = length d"
  using assms by (simp add: decode_encode_raw encode_decode_raw encode_encode_raw)

theorem raw_codec_field_laws_witness:
  "decode_raw (demo_signal Intel 5 7) (encode_raw (demo_signal Intel 5 7) 0x1FF [0, 0]) = 0x7F"
  using raw_codec_field_laws [of "demo_signal Intel 5 7" "[0, 0]" "0x1FF" 0]
  by (simp add: fits_def demo_signal_def canonical_start_def canonical_end_def bit_mask_def)

text \<open>C21. Signals that share no bit do not interfere, whatever their byte orders: writing one leaves
  what the other decodes to, and two writes can be made in either order.\<close>

theorem raw_codec_independence:
  fixes d :: bytes
  assumes "fits s (length d)" and "fits t (length d)" and "disjoint_signals s t (length d)"
  shows "decode_raw s (encode_raw t w d) = decode_raw s d \<and>
    encode_raw s v (encode_raw t w d) = encode_raw t w (encode_raw s v d)"
  using decode_other_raw [OF assms] encode_raw_commute [OF assms] by simp

theorem raw_codec_independence_witness:
  "decode_raw (demo_signal Intel 4 8) (encode_raw (demo_signal Motorola 3 4) 5 [0, 0]) =
   decode_raw (demo_signal Intel 4 8) [0, 0]"
proof -
  have "fits (demo_signal Intel 4 8) (length [0 :: u8, 0])" "fits (demo_signal Motorola 3 4) (length [0 :: u8, 0])"
    by (simp_all add: fits_def demo_signal_def canonical_start_def canonical_end_def)
  moreover have "disjoint_signals (demo_signal Intel 4 8) (demo_signal Motorola 3 4) (length [0 :: u8, 0])"
    by (simp add: demo_signal_def canonical_start_def disjoint_signals_def disjoint_runs_def
        occupies_def byte_bit_def Let_def) presburger
  ultimately show ?thesis
    using raw_codec_independence [of "demo_signal Intel 4 8" "[0, 0]" "demo_signal Motorola 3 4" 5 0] by blast
qed

text \<open>The codec never reads or writes outside the payload and never shifts by a word's width or
  more: for a signal that fits, the bytes it spans lie inside the buffer, there are one to nine
  of them, and the ninth is used only when the run is past the first 64 bits.\<close>

theorem raw_codec_in_bounds:
  fixes d :: bytes
  assumes "fits s (length d)"
  shows "let off = canonical_start s mod 8; nb = spanned_bytes off (bit_length s) in
    canonical_start s div 8 + nb \<le> length d \<and> 1 \<le> nb \<and> nb \<le> 9 \<and>
    (nb = 9 \<longleftrightarrow> 64 < off + unat (bit_length s)) \<and> off + unat (bit_length s) \<le> 8 * nb \<and>
    8 * nb - off - unat (bit_length s) < 8"
  using codec_accesses_in_range [OF assms]
    spanned_bounds [of "canonical_start s mod 8" "bit_length s"] unfolding Let_def by linarith

theorem raw_codec_in_bounds_witness:
  "canonical_start (demo_signal Intel 7 64) div 8 + spanned_bytes 7 64 \<le> 9"
  using raw_codec_in_bounds [of "demo_signal Intel 7 64" "replicate 9 0"]
  by (simp add: fits_def demo_signal_def canonical_start_def canonical_end_def Let_def)

text \<open>Sign extension of a raw value of \<open>len\<close> bits is its two's complement value: the low \<open>len\<close>
  bits are the raw value again, and the result is between \<open>-2^(len-1)\<close> and \<open>2^(len-1) - 1\<close>.\<close>

theorem sign_extend_two_complement:
  assumes "1 \<le> unat len" and "unat len \<le> 64"
  shows "- (2 ^ (unat len - 1)) \<le> sign_extend (raw AND bit_mask len) len \<and>
    sign_extend (raw AND bit_mask len) len < 2 ^ (unat len - 1) \<and>
    word_of_int (sign_extend (raw AND bit_mask len) len) AND bit_mask len = raw AND bit_mask len"
  using sign_extend_range [OF assms] sign_extend_inverse [OF assms] by simp

theorem sign_extend_two_complement_witness:
  "sign_extend (0xFF AND bit_mask 4) 4 < 8"
  using sign_extend_two_complement [of 4 "0xFF"] by simp

end
