(* ===== verification/Signal_Laws.thy ===== *)
theory Signal_Laws
  imports Signal Codec_Laws
begin

text \<open>
  Physical values: how far the rounded operations of a decode followed by an encode can drift, and that
  they come back to the raw value they started from; the saturation of an encode.
\<close>

subsection \<open>Four roundings\<close>

text \<open>
  The multiplication and addition of a decode and the subtraction and division of an encode, on reals:
  \<open>g\<close> is the size of the factor, \<open>a\<close> the exact product and \<open>h\<close> the error of an underflow.
\<close>

lemma round_off:
  fixes x y g h :: real
  assumes "\<bar>y - x\<bar> \<le> \<bar>x\<bar> * (1 / 2 ^ 53) + h" and "h \<le> g / 1000" and "\<bar>x\<bar> \<le> c * (g * 2 ^ 49)"
  shows "\<bar>y - x\<bar> \<le> c * g / 16 + g / 1000"
proof -
  have "\<bar>x\<bar> * (1 / 2 ^ 53) \<le> c * (g * 2 ^ 49) * (1 / 2 ^ 53)" using assms(3) by (intro mult_right_mono) simp_all
  also have "\<dots> = c * g / 16" by simp
  finally show ?thesis using assms(1,2) by linarith
qed

lemma decode_steps:
  fixes a z p1 p2 g h :: real
  assumes "h \<le> g / 1000" and "0 < g" and R: "\<bar>a\<bar> + \<bar>z\<bar> \<le> g * 2 ^ 49"
    and 1: "\<bar>p1 - a\<bar> \<le> \<bar>a\<bar> * (1 / 2 ^ 53) + h"
  shows "\<bar>p1 - a\<bar> \<le> g / 16 + g / 1000" "\<bar>p1 + z\<bar> \<le> 2 * (g * 2 ^ 49)"
    "\<bar>p2 - (p1 + z)\<bar> \<le> \<bar>p1 + z\<bar> * (1 / 2 ^ 53) + h \<Longrightarrow> \<bar>p2 - (a + z)\<bar> \<le> 3 * g / 16 + 2 * g / 1000"
proof -
  have "\<bar>a\<bar> \<le> 1 * (g * 2 ^ 49)" using R by linarith
  from round_off [OF 1 assms(1) this] show e1: "\<bar>p1 - a\<bar> \<le> g / 16 + g / 1000" by simp
  moreover have "g \<le> g * 2 ^ 49" using assms(2) by simp
  ultimately show b: "\<bar>p1 + z\<bar> \<le> 2 * (g * 2 ^ 49)" using R assms(2) by linarith
  assume "\<bar>p2 - (p1 + z)\<bar> \<le> \<bar>p1 + z\<bar> * (1 / 2 ^ 53) + h"
  from round_off [OF this assms(1) b] show "\<bar>p2 - (a + z)\<bar> \<le> 3 * g / 16 + 2 * g / 1000" using e1 by linarith
qed

lemma encode_steps:
  fixes a z p2 p3 g h :: real
  assumes "h \<le> g / 1000" and "0 < g" and R: "\<bar>a\<bar> + \<bar>z\<bar> \<le> g * 2 ^ 49" and e: "\<bar>p2 - (a + z)\<bar> \<le> 3 * g / 16 + 2 * g / 1000"
  shows "\<bar>p2 - z\<bar> \<le> 2 * (g * 2 ^ 49)"
    "\<bar>p3 - (p2 - z)\<bar> \<le> \<bar>p2 - z\<bar> * (1 / 2 ^ 53) + h \<Longrightarrow> \<bar>p3 - a\<bar> \<le> 5 * g / 16 + 3 * g / 1000"
proof -
  have "g \<le> g * 2 ^ 49" using assms(2) by simp
  then show b: "\<bar>p2 - z\<bar> \<le> 2 * (g * 2 ^ 49)" using e R assms(2) by linarith
  assume "\<bar>p3 - (p2 - z)\<bar> \<le> \<bar>p2 - z\<bar> * (1 / 2 ^ 53) + h"
  from round_off [OF this assms(1) b] show "\<bar>p3 - a\<bar> \<le> 5 * g / 16 + 3 * g / 1000" using e by linarith
qed

lemma quotient_step:
  fixes R f p3 p4 h :: real
  assumes "f \<noteq> 0" and "h \<le> 1 / 1000" and R: "\<bar>R\<bar> \<le> 2 ^ 49" and e: "\<bar>p3 - R * f\<bar> \<le> 5 * \<bar>f\<bar> / 16 + 3 * \<bar>f\<bar> / 1000"
  shows "\<bar>p3 / f\<bar> \<le> 2 ^ 49 + 1"
    "\<bar>p4 - p3 / f\<bar> \<le> \<bar>p3 / f\<bar> * (1 / 2 ^ 53) + h \<Longrightarrow> \<bar>p4 - R\<bar> < 1 / 2"
proof -
  have "p3 / f - R = (p3 - R * f) / f" using assms(1) by (simp add: diff_divide_distrib)
  then have "\<bar>p3 / f - R\<bar> = \<bar>p3 - R * f\<bar> / \<bar>f\<bar>" by (simp add: abs_divide)
  also have "\<dots> \<le> (5 * \<bar>f\<bar> / 16 + 3 * \<bar>f\<bar> / 1000) / \<bar>f\<bar>" using e by (intro divide_right_mono) simp_all
  also have "\<dots> = 5 / 16 + 3 / 1000" using assms(1) by (simp add: add_divide_distrib)
  finally have q: "\<bar>p3 / f - R\<bar> \<le> 5 / 16 + 3 / 1000" .
  then show b: "\<bar>p3 / f\<bar> \<le> 2 ^ 49 + 1" using R by linarith
  assume 4: "\<bar>p4 - p3 / f\<bar> \<le> \<bar>p3 / f\<bar> * (1 / 2 ^ 53) + h"
  have "\<bar>p3 / f\<bar> * (1 / 2 ^ 53) \<le> (2 ^ 49 + 1) * (1 / 2 ^ 53)" using b by (intro mult_right_mono) simp_all
  moreover have "(2 ^ 49 + 1) * (1 / 2 ^ 53 :: real) \<le> 1 / 16 + 1 / 1000" by simp
  ultimately have "\<bar>p4 - p3 / f\<bar> \<le> 1 / 16 + 2 / 1000" using 4 assms(2) by linarith
  then show "\<bar>p4 - R\<bar> < 1 / 2" using q by linarith
qed

definition signal_integer :: "signal_layout \<Rightarrow> u64 \<Rightarrow> int" where
  "signal_integer s raw = (if signedness s = Signed then sign_extend raw (bit_length s) else uint raw)"

text \<open>A factor away from the ends of the format, and a value whose steps a double can tell apart.\<close>

definition scale_ok :: "signal_layout \<Rightarrow> int \<Rightarrow> bool" where
  "scale_ok s R \<longleftrightarrow> is_finite (factor s) \<and> is_finite (offset s) \<and> representable binary64 (factor s) \<and>
     representable binary64 (offset s) \<and>
     2 powi (- 900) \<le> \<bar>dval (factor s)\<bar> \<and> \<bar>dval (factor s)\<bar> \<le> 2 powi 900 \<and>
     \<bar>real_of_int R * dval (factor s)\<bar> + \<bar>dval (offset s)\<bar> \<le> \<bar>dval (factor s)\<bar> * 2 ^ 49"

lemma rounds_to_bound:
  "rounds_to x d \<Longrightarrow> \<bar>dval d - x\<bar> \<le> \<bar>x\<bar> * (1 / 2 ^ 53) + 2 powi (- 1075)"
proof -
  have "(2 :: real) powi (- 53) = 1 / 2 ^ 53" by (simp only: power_int_minus power_int_numeral inverse_eq_divide)
  then show "rounds_to x d \<Longrightarrow> ?thesis" unfolding rounds_to_def by (simp only:)
qed

lemma tiny_bounds:
  assumes "2 powi (- 900) \<le> (y :: real)"
  shows "2 powi (- 1075) \<le> y / 1000" "(2 :: real) powi (- 1075) \<le> 1 / 1000"
proof -
  define t where "t = (2 :: real) powi (- 1075)"
  have p: "(2 :: real) ^ 10 * 2 powi (- 1075) = 2 powi (int 10 + - 1075)" by (rule powi_nat_add)
  have q: "(2 :: real) powi (int 10 + - 1075) \<le> 2 powi (- 900)" "(2 :: real) powi (int 10 + - 1075) \<le> 2 powi 0"
    by (rule powi_mono, simp)+
  have small: "1000 * t \<le> z" if "(2 :: real) ^ 10 * t \<le> c" "c \<le> z" "0 \<le> t" for c z
  proof -
    have "1000 * t \<le> 2 ^ 10 * t" using that(3) by (intro mult_right_mono) simp_all
    then show ?thesis using that(1,2) by (meson order.trans)
  qed
  have 0: "0 \<le> t" unfolding t_def by simp
  have "(2 :: real) ^ 10 * t \<le> 2 powi (- 900)" "(2 :: real) ^ 10 * t \<le> 2 powi 0"
    unfolding t_def p by (rule q)+
  from small [OF this(1) assms 0] small [OF this(2) _ 0, of 1] have "1000 * t \<le> y" "1000 * t \<le> 1"
    by (simp_all only: power_int_0_right order.refl)
  then show "2 powi (- 1075) \<le> y / 1000" "(2 :: real) powi (- 1075) \<le> 1 / 1000" unfolding t_def [symmetric] by simp_all
qed

lemma scale_limits:
  assumes "2 powi (- 900) \<le> g" and "(g :: real) \<le> 2 powi 900"
  shows "0 < g" "2 * (g * 2 ^ 49) < 2 powi 1023" "(2 :: real) ^ 49 + 1 < 2 powi 1023"
proof -
  have "(0 :: real) < 2 powi (- 900)" by simp
  then show "0 < g" using assms(1) by (rule order.strict_trans2)
  have "2 * (g * 2 ^ 49) = 2 ^ 50 * g" by simp
  also have "\<dots> \<le> 2 ^ 50 * 2 powi 900" using assms(2) by (intro mult_left_mono) simp_all
  also have "\<dots> = 2 powi (int 50 + 900)" by (rule powi_nat_add)
  also have "(2 :: real) powi (int 50 + 900) < 2 powi 1023" by (simp only: powi_less_iff)
  finally show "2 * (g * 2 ^ 49) < 2 powi 1023" .
  have "(2 :: real) ^ 49 + 1 < 2 ^ 50" by simp
  also have "(2 :: real) ^ 50 = 2 powi (int 50)" by (simp only: power_int_of_nat)
  also have "(2 :: real) powi (int 50) < 2 powi 1023" by (simp only: powi_less_iff)
  finally show "(2 :: real) ^ 49 + 1 < 2 powi 1023" .
qed

text \<open>What a decode followed by the subtraction and division of an encode gives.\<close>

lemma scaled_value:
  assumes "scale_ok s R"
  defines "p \<equiv> d_add (d_mul (of_integer R) (factor s)) (offset s)"
  defines "q \<equiv> d_div (d_sub p (offset s)) (factor s)"
  shows "is_finite p" "is_finite q" "representable binary64 q" "\<bar>dval q - real_of_int R\<bar> < 1 / 2"
proof -
  define f z g h where "f = dval (factor s)" and "z = dval (offset s)" and "g = \<bar>f\<bar>" and "h = (2 :: real) powi (- 1075)"
  define L where "L = (2 :: real) powi 1023"
  have s: "is_finite (factor s)" "is_finite (offset s)" "2 powi (- 900) \<le> g" "g \<le> 2 powi 900"
    "\<bar>real_of_int R * f\<bar> + \<bar>z\<bar> \<le> g * 2 ^ 49"
    using assms(1) unfolding scale_ok_def f_def z_def g_def by blast+
  note lim = scale_limits [OF s(3,4), folded L_def]
  have f0: "f \<noteq> 0" using lim(1) unfolding g_def by auto
  note h = tiny_bounds [OF s(3), folded h_def]
  have "\<bar>real_of_int R\<bar> * g \<le> g * 2 ^ 49"
    using s(5) abs_ge_zero [of z] unfolding abs_mult g_def [symmetric] by (meson add_increasing2 order.trans le_add_same_cancel1)
  then have "\<bar>real_of_int R\<bar> * g \<le> 2 ^ 49 * g" by (simp only: mult.commute)
  then have R49: "\<bar>real_of_int R\<bar> \<le> 2 ^ 49" using lim(1) by simp
  then have "real_of_int \<bar>R\<bar> \<le> real_of_int (2 ^ 49)" by simp
  then have "\<bar>R\<bar> \<le> 2 ^ 49" by (simp only: of_int_le_iff)
  also have "(2 :: int) ^ 49 < 2 ^ 53" by simp
  finally have R: "is_finite (of_integer R)" "dval (of_integer R) = real_of_int R" using of_integer_exact [of R] by simp_all
  define a1 where "a1 = d_mul (of_integer R) (factor s)"
  define a3 where "a3 = d_sub p (offset s)"
  have p: "p = d_add a1 (offset s)" and q: "q = d_div a3 (factor s)" by (simp_all add: p_def q_def a1_def a3_def)
  have bound: "\<bar>dval d - x\<bar> \<le> \<bar>x\<bar> * (1 / 2 ^ 53) + h" "is_finite d" if "rounds_to x d" for x d
    using that rounds_to_bound [OF that] unfolding h_def by (simp_all only: rounds_to_def)
  have "\<bar>real_of_int R * f\<bar> < L" using s(5) lim(1,2) by linarith
  then have "rounds_to (real_of_int R * f) a1"
    using rounds_mul [OF R(1) s(1), folded f_def L_def] unfolding R(2) a1_def by blast
  note 1 = bound [OF this]
  note d = decode_steps [OF h(1) lim(1) s(5) 1(1)]
  have "\<bar>dval a1 + z\<bar> < L" using d(2) lim(2) by linarith
  then have "rounds_to (dval a1 + z) p"
    using rounds_add [OF 1(2) s(2), folded z_def L_def] unfolding p by blast
  note 2 = bound [OF this]
  show "is_finite p" by (rule 2(2))
  note e = encode_steps [OF h(1) lim(1) s(5) d(3) [OF 2(1)]]
  have "\<bar>dval p - z\<bar> < L" using e(1) lim(2) by linarith
  then have "rounds_to (dval p - z) a3"
    using rounds_sub [OF 2(2) s(2), folded z_def L_def] unfolding a3_def by blast
  note 3 = bound [OF this]
  note t = quotient_step [OF f0 h(2) R49 e(2) [OF 3(1), unfolded g_def]]
  have "\<bar>dval a3 / f\<bar> < L" using t(1) lim(3) by linarith
  then have r4: "rounds_to (dval a3 / f) q"
    using rounds_div [OF 3(2) s(1), folded f_def L_def] f0 unfolding q by blast
  note 4 = bound [OF this]
  show "is_finite q" by (rule 4(2))
  show "representable binary64 q" using r4 unfolding rounds_to_def by blast
  show "\<bar>dval q - real_of_int R\<bar> < 1 / 2" by (rule t(2) [OF 4(1)])
qed

subsection \<open>The integer of the width\<close>

lemma cast_value: "is_finite d \<Longrightarrow> dval d = real_of_int z \<Longrightarrow> cast_u64 d = word_of_int z"
  by (simp add: cast_u64_def d_trunc_value)

lemma d_pow2_nat: "n \<le> 64 \<Longrightarrow> is_finite (d_pow2 (int n)) \<and> dval (d_pow2 (int n)) = 2 ^ n"
  using d_pow2_value [of "int n"] by (simp add: power_int_def)

lemma saturate_signed_inside:
  assumes "1 \<le> unat len" and "unat len \<le> 64" and "is_finite d" and "dval d = real_of_int z"
    and "- (2 ^ (unat len - 1)) \<le> z" and "z < 2 ^ (unat len - 1)"
  shows "saturate_signed len d = word_of_int z"
proof -
  let ?k = "int (unat len) - 1"
  have k: "?k = int (unat len - 1)" using assms(1) by simp
  have t: "is_finite (d_pow2 ?k)" "dval (d_pow2 ?k) = 2 ^ (unat len - 1)"
    using d_pow2_nat [of "unat len - 1"] assms(2) unfolding k by simp_all
  have "real_of_int z < real_of_int (2 ^ (unat len - 1))" "real_of_int (- (2 ^ (unat len - 1))) \<le> real_of_int z"
    using assms(5,6) by (simp_all only: of_int_less_iff of_int_le_iff)
  then have "\<not> d_le (d_pow2 ?k) d" "\<not> d_less d (d_neg (d_pow2 ?k))"
    using t assms(3,4) by (simp_all add: d_le_value d_less_value)
  then show ?thesis unfolding saturate_signed_def Let_def using cast_value [OF assms(3,4)] by simp
qed

lemma saturate_unsigned_inside:
  assumes "unat len \<le> 64" and "is_finite d" and "dval d = real_of_int z" and "0 \<le> z" and "z < 2 ^ unat len"
  shows "saturate_unsigned len d = word_of_int z"
proof -
  have t: "is_finite (d_pow2 (int (unat len)))" "dval (d_pow2 (int (unat len))) = 2 ^ unat len"
    using d_pow2_nat [OF assms(1)] by blast+
  have "real_of_int z < real_of_int (2 ^ unat len)" using assms(5) by (simp only: of_int_less_iff)
  then have "\<not> d_le (d_pow2 (int (unat len))) d" using t assms(2,3) by (simp add: d_le_value)
  moreover have "d_le d dzero \<longleftrightarrow> z = 0" using assms(2-4) by (auto simp: d_le_value)
  ultimately show ?thesis unfolding saturate_unsigned_def Let_def using cast_value [OF assms(2,3)] by simp
qed

subsection \<open>Decode, then encode\<close>

lemma bit_mask_mask: "unat len \<le> 64 \<Longrightarrow> bit_mask len = mask (unat len)"
  by (rule bit_word_eqI) (auto simp: bit_mask_iff)

lemma fitting_raw:
  assumes "raw AND bit_mask (bit_length s) = raw" and "1 \<le> unat (bit_length s)" and "unat (bit_length s) \<le> 64"
  shows "word_of_int (signal_integer s raw) AND bit_mask (bit_length s) = raw"
    "signedness s = Signed \<Longrightarrow> - (2 ^ (unat (bit_length s) - 1)) \<le> signal_integer s raw \<and>
      signal_integer s raw < 2 ^ (unat (bit_length s) - 1)"
    "signedness s \<noteq> Signed \<Longrightarrow> 0 \<le> signal_integer s raw \<and> signal_integer s raw < 2 ^ unat (bit_length s)"
proof -
  show "word_of_int (signal_integer s raw) AND bit_mask (bit_length s) = raw"
    using sign_extend_inverse [OF assms(2,3), of raw] assms(1) by (simp add: signal_integer_def)
  show "signedness s = Signed \<Longrightarrow> - (2 ^ (unat (bit_length s) - 1)) \<le> signal_integer s raw \<and>
      signal_integer s raw < 2 ^ (unat (bit_length s) - 1)"
    using sign_extend_range [OF assms(2,3), of raw] assms(1) by (simp add: signal_integer_def)
  have "take_bit (unat (bit_length s)) raw = raw"
    using assms(1) bit_mask_mask [OF assms(3)] by (simp add: take_bit_eq_mask)
  then have "uint raw < 2 ^ unat (bit_length s)" by (metis take_bit_int_less_exp unsigned_take_bit_eq)
  then show "signedness s \<noteq> Signed \<Longrightarrow> 0 \<le> signal_integer s raw \<and> signal_integer s raw < 2 ^ unat (bit_length s)"
    by (simp add: signal_integer_def)
qed

definition in_declared_range :: "signal_layout \<Rightarrow> double \<Rightarrow> bool" where
  "in_declared_range s v \<longleftrightarrow> (has_range s \<longrightarrow>
     \<not> d_less v (d_min (minimum s) (maximum s)) \<and> \<not> d_less (d_max (minimum s) (maximum s)) v)"

lemma clamp_inside: "in_declared_range s v \<Longrightarrow> clamp_to_range s v = v"
  by (simp add: clamp_to_range_def in_declared_range_def Let_def d_max_def [of v] d_min_def [of v])

lemma not_nan_finite: "is_finite d \<Longrightarrow> \<not> is_nan d"
  by (cases d) simp_all

lemma physical_to_raw_back:
  assumes "value_type s = Integer" and "1 \<le> unat (bit_length s)" and "unat (bit_length s) \<le> 64"
    and "raw AND bit_mask (bit_length s) = raw" and "scale_ok s (signal_integer s raw)"
    and "in_declared_range s (raw_to_physical s raw)"
  shows "is_finite (raw_to_physical s raw) \<and> physical_to_raw s (raw_to_physical s raw) = raw"
proof -
  let ?R = "signal_integer s raw" and ?p = "raw_to_physical s raw"
  have p: "?p = d_add (d_mul (of_integer ?R) (factor s)) (offset s)"
    using assms(1) by (simp add: raw_to_physical_def raw_value_def signal_integer_def)
  define q where "q = d_div (d_sub ?p (offset s)) (factor s)"
  note v = scaled_value [OF assms(5), folded p, folded q_def]
  note r = d_round_value [OF v(2,3,4)]
  note f = fitting_raw [OF assms(4,2,3)]
  have "(if signedness s = Signed then saturate_signed (bit_length s) (d_round q)
      else saturate_unsigned (bit_length s) (d_round q)) = word_of_int ?R"
  proof (cases "signedness s = Signed")
    case True
    then show ?thesis using saturate_signed_inside [OF assms(2,3), of "d_round q" ?R] r f(2) by simp
  next
    case False
    then show ?thesis using saturate_unsigned_inside [OF assms(3), of "d_round q" ?R] r f(3) by simp
  qed
  moreover have "\<not> is_nan (d_round q)" using r not_nan_finite by blast
  ultimately have "physical_to_raw s ?p = word_of_int ?R AND bit_mask (bit_length s)"
    unfolding physical_to_raw_def Let_def clamp_inside [OF assms(6)] q_def [symmetric] assms(1)
    by (cases "signedness s = Signed") simp_all
  then show ?thesis using f(1) v(1) by simp
qed

lemma validated:
  assumes "validate_layout s n = ok"
  shows "1 \<le> unat (bit_length s)" "unat (bit_length s) \<le> 64" "fits s n" "is_finite (factor s)" "is_finite (offset s)"
proof -
  have v: "\<not> (bit_length s < 1 \<or> bit_length s > 64)" "is_finite (factor s)" "is_finite (offset s)" "\<not> canonical_end s > n * 8"
    using assms by (auto simp: validate_layout_def Let_def split: if_splits)
  then show "1 \<le> unat (bit_length s)" "unat (bit_length s) \<le> 64" "is_finite (factor s)" "is_finite (offset s)"
    by (simp_all add: word_le_nat_alt word_less_nat_alt not_less)
  show "fits s n" using v by (simp add: fits_def not_less word_le_nat_alt word_less_nat_alt)
qed

text \<open>C9. A decoded physical value encodes back to the bits it came from, in spite of four roundings: for an
  integer signal that passes validation, whose factor is away from the ends of the double format, at
  any raw value with \<open>|raw * factor| + |offset|\<close> at most \<open>2^49\<close> steps of the factor and a physical value
  inside the declared range, the physical value is finite and writing it leaves the payload as it was.\<close>

theorem physical_roundtrip:
  fixes d :: bytes
  assumes "validate_layout s (length d) = ok" and "value_type s = Integer"
    and "scale_ok s (signal_integer s (decode_raw s d))" and "in_declared_range s (layout_decode s d)"
  shows "is_finite (layout_decode s d) \<and> layout_encode s (layout_decode s d) d = Inr d"
proof -
  note v = validated [OF assms(1)]
  have "is_finite (raw_to_physical s (decode_raw s d)) \<and>
      physical_to_raw s (raw_to_physical s (decode_raw s d)) = decode_raw s d"
    using assms(3,4) by (intro physical_to_raw_back assms(2) v decode_raw_less) (simp_all add: layout_decode_def)
  then show ?thesis using encode_decode_raw [OF v(3)] by (simp add: layout_encode_def layout_decode_def)
qed

text \<open>A temperature in steps of 0.1 from -40 upwards.\<close>

definition sample_temperature :: signal_layout where
  "sample_temperature = \<lparr>start_bit = 0, bit_length = 16, byte_order = Intel, signedness = Unsigned,
     value_type = Integer, factor = DFin False 7205759403792794 (-56), offset = of_integer (-40),
     minimum = dzero, maximum = dzero\<rparr>"

lemma sample_scale: "scale_ok sample_temperature 291"
proof -
  define g where "g = dval (factor sample_temperature)"
  have sel: "factor sample_temperature = DFin False 7205759403792794 (-56)" "offset sample_temperature = of_integer (-40)"
    by (simp_all add: sample_temperature_def)
  have "(2 :: real) powi (- 56) = 1 / 2 ^ 56" by (simp only: power_int_minus power_int_numeral inverse_eq_divide)
  then have "g = 7205759403792794 / 2 ^ 56" unfolding g_def sel dval.simps by simp
  then have g: "1 / 16 \<le> g" "g \<le> 1" by simp_all
  have o: "is_finite (of_integer (-40))" "representable binary64 (of_integer (-40))" "dval (of_integer (-40)) = - 40"
    using of_integer_exact [of "-40"] by simp_all
  have f: "is_finite (factor sample_temperature)" "representable binary64 (factor sample_temperature)"
    unfolding sel by (simp_all add: binary64_def)
  have p: "(2 :: real) powi (- 900) \<le> 2 powi (- 4)" "(2 :: real) powi 0 \<le> 2 powi 900" by (rule powi_mono, simp)+
  have q: "(2 :: real) powi (- 4) = 1 / 2 ^ 4" by (simp only: power_int_minus power_int_numeral inverse_eq_divide)
  have "1 / 2 ^ 4 \<le> \<bar>g\<bar>" "\<bar>g\<bar> \<le> 1" using g by simp_all
  then have lim: "2 powi (- 900) \<le> \<bar>g\<bar>" "\<bar>g\<bar> \<le> 2 powi 900"
    using p unfolding q power_int_0_right by (meson order.trans)+
  have le: "931 * g \<le> 2 ^ 49 * g" using g by (intro mult_right_mono) simp_all
  have ab: "\<bar>g\<bar> = g" "\<bar>291 * g\<bar> = 291 * g" using g(1) by simp_all
  have fin: "\<bar>real_of_int 291 * g\<bar> + \<bar>- 40\<bar> \<le> \<bar>g\<bar> * 2 ^ 49"
  proof -
    have "40 \<le> 640 * g" using g(1) by simp
    then have "291 * g + 40 \<le> 2 ^ 49 * g" using le by linarith
    then show ?thesis unfolding of_int_numeral ab abs_minus_cancel abs_numeral by (simp only: mult.commute)
  qed
  then show ?thesis
    unfolding scale_ok_def g_def [symmetric] sel(2) o(3) using o(1,2) f lim by blast
qed

lemma sample_layout_fields [simp]:
  "start_bit sample_temperature = 0" "bit_length sample_temperature = 16"
  "byte_order sample_temperature = Intel" "signedness sample_temperature = Unsigned"
  "value_type sample_temperature = Integer" "factor sample_temperature = DFin False 7205759403792794 (-56)"
  "offset sample_temperature = of_integer (-40)" "minimum sample_temperature = dzero" "maximum sample_temperature = dzero"
  by (simp_all add: sample_temperature_def)

lemma sample_decoded: "decode_raw sample_temperature [0x23, 0x01] = 291"
  by (simp add: decode_raw_def canonical_start_def extract_intel_def spanned_bytes_def load_le_def bit_mask_def Let_def upt_rec)

lemma sample_valid: "validate_layout sample_temperature (length [0x23 :: u8, 0x01]) = ok"
  using of_integer_exact [of "-40"]
  by (simp add: validate_layout_def canonical_end_def canonical_start_def Let_def signed_at_def)

theorem physical_roundtrip_witness:
  "layout_encode sample_temperature (layout_decode sample_temperature [0x23, 0x01]) [0x23, 0x01] = Inr [0x23, 0x01]"
proof -
  have v: "validate_layout sample_temperature (length [0x23 :: u8, 0x01]) = ok" by (rule sample_valid)
  have r: "scale_ok sample_temperature (signal_integer sample_temperature (decode_raw sample_temperature [0x23, 0x01]))"
    using sample_scale by (simp add: sample_decoded signal_integer_def)
  have "\<not> has_range sample_temperature" by (simp add: has_range_def)
  then have "in_declared_range sample_temperature (layout_decode sample_temperature [0x23, 0x01])"
    unfolding in_declared_range_def by blast
  from physical_roundtrip [OF v sample_layout_fields(5) r this] show ?thesis by blast
qed

end
