(* ===== verification/Database_Laws.thy ===== *)
theory Database_Laws
  imports Database Signal_Laws
begin

text \<open>
  What the message and database layers promise: which signals are active under nested multiplexing,
  that a frame encoded from physical values decodes to them, and that the linter's bitmaps find exactly
  the signals that share a bit, so that a clean database has independent signals.
\<close>

subsection \<open>First matches and pairs\<close>

lemma first_index_Some_iff:
  "first_index P xs = Some i \<longleftrightarrow> i < length xs \<and> P (xs ! i) \<and> (\<forall>j<i. \<not> P (xs ! j))"
proof (induction xs arbitrary: i)
  case (Cons x xs)
  show ?case
  proof (cases i)
    case 0
    then show ?thesis by (cases "P x") auto
  next
    case (Suc j)
    then show ?thesis using Cons.IH [of j] by (auto simp: All_less_Suc2)
  qed
qed simp

lemma first_index_None_iff: "first_index P xs = None \<longleftrightarrow> (\<forall>x\<in>set xs. \<not> P x)"
  by (induction xs) auto

lemma find_signal_name: "find_signal m n = Some i \<Longrightarrow> i < length (msg_signals m) \<and> sig_name (msg_signals m ! i) = n"
  by (simp add: find_signal_def first_index_Some_iff)

lemma some_pair_iff: "some_pair P xs \<longleftrightarrow> (\<exists>i j. i < j \<and> j < length xs \<and> P (xs ! i) (xs ! j))"
proof (induction xs)
  case (Cons x xs)
  have "list_ex (P x) xs \<longleftrightarrow> (\<exists>j<length xs. P x (xs ! j))" by (simp add: list_ex_length)
  moreover have "(\<exists>i j. i < j \<and> j < length (x # xs) \<and> P ((x # xs) ! i) ((x # xs) ! j)) \<longleftrightarrow>
      (\<exists>j<length xs. P x (xs ! j)) \<or> (\<exists>i j. i < j \<and> j < length xs \<and> P (xs ! i) (xs ! j))" (is "?l \<longleftrightarrow> ?r")
  proof
    assume ?l
    then obtain i j where *: "i < j" "j < length (x # xs)" "P ((x # xs) ! i) ((x # xs) ! j)" by blast
    then obtain k where k: "j = Suc k" by (cases j) auto
    show ?r using * k by (cases i) auto
  next
    assume ?r
    then show ?l
    proof
      assume "\<exists>j<length xs. P x (xs ! j)"
      then obtain j where "j < length xs" "P x (xs ! j)" by blast
      then show ?l by (intro exI [of _ 0] exI [of _ "Suc j"]) simp
    next
      assume "\<exists>i j. i < j \<and> j < length xs \<and> P (xs ! i) (xs ! j)"
      then obtain i j where "i < j" "j < length xs" "P (xs ! i) (xs ! j)" by blast
      then show ?l by (intro exI [of _ "Suc i"] exI [of _ "Suc j"]) simp
    qed
  qed
  ultimately show ?case using Cons.IH by simp
qed simp

subsection \<open>Multiplexing\<close>

text \<open>The specification: a signal is on the wire when a chain of switches, each selecting the one
  below it, leads up to one that is always present; \<open>n\<close> is the number of steps.\<close>

definition always_present :: "message \<Rightarrow> nat \<Rightarrow> bool" where
  "always_present m i \<longleftrightarrow> sig_mux_role (msg_signals m ! i) = MuxNone \<or> is_root_switch (msg_signals m ! i)"

definition selects :: "message \<Rightarrow> frame \<Rightarrow> nat \<Rightarrow> nat \<Rightarrow> bool" where
  "selects m f k i \<longleftrightarrow> fits (sig_layout (msg_signals m ! k)) (frame_size f) \<and>
     is_present_for (msg_signals m ! i) (ucast (decode_raw (sig_layout (msg_signals m ! k)) (frame_data f)))"

inductive on_wire :: "message \<Rightarrow> frame \<Rightarrow> nat \<Rightarrow> nat \<Rightarrow> bool" for m f where
  top: "always_present m i \<Longrightarrow> on_wire m f 0 i"
| below: "\<not> always_present m i \<Longrightarrow> switch_of m i = Some k \<Longrightarrow> k \<noteq> i \<Longrightarrow> on_wire m f n k \<Longrightarrow> selects m f k i \<Longrightarrow>
    on_wire m f (Suc n) i"

inductive_simps on_wire_0: "on_wire m f 0 i"
inductive_simps on_wire_Suc: "on_wire m f (Suc n) i"
inductive_cases on_wireE: "on_wire m f n i"

lemma active_unfold:
  "is_signal_active m f i depth \<longleftrightarrow> always_present m i \<or>
     depth \<le> 8 \<and> (\<exists>k. switch_of m i = Some k \<and> k \<noteq> i \<and> is_signal_active m f k (depth + 1) \<and> selects m f k i)"
  by (subst is_signal_active.simps)
    (auto simp: always_present_def selects_def Let_def split: option.splits if_splits)

lemma active_iff_on_wire:
  "depth \<le> 9 \<Longrightarrow> is_signal_active m f i depth \<longleftrightarrow> (\<exists>n. n + depth \<le> 9 \<and> on_wire m f n i)"
proof (induction "9 - depth" arbitrary: depth i)
  case 0
  then have "depth = 9" by simp
  then show ?case by (subst active_unfold) (auto simp: on_wire_0)
next
  case (Suc d)
  then have d: "d = 9 - (depth + 1)" "depth + 1 \<le> 9" by simp_all
  note IH = Suc.hyps(1) [OF d]
  show ?case
  proof
    assume "is_signal_active m f i depth"
    then consider "always_present m i"
      | k where "\<not> always_present m i" "switch_of m i = Some k" "k \<noteq> i" "is_signal_active m f k (depth + 1)" "selects m f k i"
      by (subst (asm) active_unfold) blast
    then show "\<exists>n. n + depth \<le> 9 \<and> on_wire m f n i"
    proof cases
      case 1
      then show ?thesis using Suc.prems by (intro exI [of _ 0]) (simp add: on_wire_0)
    next
      case (2 k)
      then obtain n where "n + (depth + 1) \<le> 9" "on_wire m f n k" using IH by blast
      then show ?thesis using 2 by (intro exI [of _ "Suc n"]) (auto simp: on_wire_Suc)
    qed
  next
    assume "\<exists>n. n + depth \<le> 9 \<and> on_wire m f n i"
    then obtain n where n: "n + depth \<le> 9" "on_wire m f n i" by blast
    show "is_signal_active m f i depth"
    proof (cases n)
      case 0
      then show ?thesis using n by (subst active_unfold) (simp add: on_wire_0)
    next
      case (Suc j)
      then obtain k where "switch_of m i = Some k" "k \<noteq> i" "on_wire m f j k" "selects m f k i"
        using n(2) by (auto simp: on_wire_Suc)
      moreover have "j + (depth + 1) \<le> 9" "depth \<le> 8" using n(1) Suc by simp_all
      ultimately show ?thesis using IH [of k] by (subst active_unfold) blast
    qed
  qed
qed

lemma on_wire_not_cyclic:
  assumes "on_wire m f n i" and "i \<in> C"
    and "\<And>j. j \<in> C \<Longrightarrow> \<not> always_present m j \<and> (\<exists>k\<in>C. switch_of m j = Some k)"
  shows False
  using assms by (induction rule: on_wire.induct) fastforce+

text \<open>C20. Multiplexing is decided by the chain of switches: a signal counts as active exactly when at
  most nine steps, each from a signal to the distinct switch it names (or the root), whose value in
  the frame selects it and which fits the payload, lead to a signal that is always present. Signals
  whose switches only lead round in a circle are never active.\<close>

theorem signal_active_iff_chain:
  "(is_signal_active m f i 0 \<longleftrightarrow> (\<exists>n. n \<le> 9 \<and> on_wire m f n i)) \<and>
   (i \<in> C \<and> (\<forall>j\<in>C. \<not> always_present m j \<and> (\<exists>k\<in>C. switch_of m j = Some k)) \<longrightarrow> \<not> is_signal_active m f i 0)"
proof -
  have *: "is_signal_active m f i 0 \<longleftrightarrow> (\<exists>n. n \<le> 9 \<and> on_wire m f n i)" using active_iff_on_wire [of 0] by simp
  then show ?thesis using on_wire_not_cyclic [of m f _ i C] by blast
qed

text \<open>A message whose root switches an inner switch, which switches \<open>Leaf\<close>; \<open>A\<close> and \<open>B\<close> switch each other.\<close>

definition sample_signal :: "string \<Rightarrow> multiplex_role \<Rightarrow> u32 \<Rightarrow> string \<Rightarrow> u16 \<Rightarrow> u8 \<Rightarrow> signal" where
  "sample_signal n role v sw start len = \<lparr>sig_name = n, sig_unit = [], sig_comment = [], sig_multiplexor_name = sw,
     sig_receivers = [], sig_mux_ranges = [], sig_value_descriptions = [], sig_attributes = [],
     sig_layout = demo_signal Intel start len, sig_mux_role = role, sig_mux_value = v\<rparr>"

definition nested_message :: message where
  "nested_message = (new_message (CanId 0x100) ''Nested'' 8)\<lparr>msg_signals :=
     [sample_signal ''Root'' Multiplexor 0 [] 0 4, sample_signal ''Inner'' MuxBoth 3 ''Root'' 4 4,
      sample_signal ''Leaf'' Multiplexed 5 ''Inner'' 8 8, sample_signal ''A'' MuxBoth 0 ''B'' 16 4,
      sample_signal ''B'' MuxBoth 0 ''A'' 20 4]\<rparr>"

definition nested_frame :: frame where
  "nested_frame = (empty_frame 8)\<lparr>frame_dlc := 8, frame_data := [0x53, 9, 0, 0, 0, 0, 0, 0]\<rparr>"

lemma nested_signals [simp]:
  "msg_signals nested_message ! 0 = sample_signal ''Root'' Multiplexor 0 [] 0 4"
  "msg_signals nested_message ! Suc 0 = sample_signal ''Inner'' MuxBoth 3 ''Root'' 4 4"
  "msg_signals nested_message ! 2 = sample_signal ''Leaf'' Multiplexed 5 ''Inner'' 8 8"
  "msg_signals nested_message ! 3 = sample_signal ''A'' MuxBoth 0 ''B'' 16 4"
  "msg_signals nested_message ! 4 = sample_signal ''B'' MuxBoth 0 ''A'' 20 4"
  by (simp_all add: nested_message_def)

lemma nested_switches [simp]:
  "switch_of nested_message (Suc 0) = Some 0" "switch_of nested_message 2 = Some (Suc 0)"
  "switch_of nested_message 3 = Some 4" "switch_of nested_message 4 = Some 3"
  by (simp_all add: switch_of_def Let_def)
    (simp_all add: nested_message_def find_signal_def sample_signal_def numeral_eq_Suc)

lemma nested_roles [simp]:
  "always_present nested_message 0" "\<not> always_present nested_message (Suc 0)" "\<not> always_present nested_message 2"
  "\<not> always_present nested_message 3" "\<not> always_present nested_message 4"
  by (simp_all add: always_present_def is_root_switch_def) (simp_all add: sample_signal_def)

lemma nested_selects [simp]:
  "selects nested_message nested_frame 0 (Suc 0)" "selects nested_message nested_frame (Suc 0) 2"
  by (simp_all add: selects_def)
    (simp_all add: nested_frame_def empty_frame_def sample_signal_def demo_signal_def is_present_for_def fits_def
      canonical_end_def canonical_start_def frame_size_def is_remote_def is_fd_def has_flag_def flag_defs
      dlc_to_length_def decode_raw_def extract_intel_def spanned_bytes_def load_le_def bit_mask_def Let_def upt_rec)

theorem signal_active_iff_chain_witness:
  "is_signal_active nested_message nested_frame 2 0 \<and> \<not> is_signal_active nested_message nested_frame 3 0"
proof -
  have "on_wire nested_message nested_frame (Suc (Suc 0)) 2"
    by (rule on_wire.intros(2) [of _ 2 "Suc 0"], simp_all, rule on_wire.intros(2) [of _ "Suc 0" 0], simp_all)
      (rule on_wire.intros(1), simp)
  then have "is_signal_active nested_message nested_frame 2 0"
    using signal_active_iff_chain [of nested_message nested_frame 2 "{}"] by (auto intro: exI [of _ "2 :: nat"])
  moreover have "\<forall>j\<in>{3, 4}. \<not> always_present nested_message j \<and> (\<exists>k\<in>{3, 4}. switch_of nested_message j = Some k)"
    by simp
  then have "\<not> is_signal_active nested_message nested_frame 3 0"
    using signal_active_iff_chain [of nested_message nested_frame 3 "{3, 4}"] by blast
  ultimately show ?thesis by blast
qed

subsection \<open>Encoding a frame and decoding it\<close>

lemma layout_encode_Inr: "layout_encode s v d = Inr d' \<Longrightarrow> d' = encode_raw s (physical_to_raw s v) d"
  by (simp add: layout_encode_def split: if_splits)

lemma frame_size_data [simp]: "frame_size (f\<lparr>frame_data := d\<rparr>) = frame_size f"
  by (simp add: frame_size_def is_remote_def is_fd_def)

text \<open>What every write keeps: everything but the payload bytes, and their number.\<close>

definition same_frame :: "frame \<Rightarrow> frame \<Rightarrow> bool" where
  "same_frame f g \<longleftrightarrow> frame_id g = frame_id f \<and> frame_size g = frame_size f \<and> length (frame_data g) = length (frame_data f)"

lemma same_frame_trans [trans]: "same_frame f g \<Longrightarrow> same_frame g h \<Longrightarrow> same_frame f h"
  by (simp add: same_frame_def)

lemma same_frame_refl [simp]: "same_frame f f"
  by (simp add: same_frame_def)

lemma signal_encode_Inr:
  assumes "signal_encode s v f = Inr g"
  shows "fits (sig_layout s) (frame_size f)" and "same_frame f g"
    and "frame_data g = encode_raw (sig_layout s) (physical_to_raw (sig_layout s) v) (frame_data f)"
  using assms by (auto simp: signal_encode_def result_map_Inr_iff same_frame_def dest!: layout_encode_Inr split: if_splits)

lemma apply_start_values_same: "apply_start_values ss f = Inr g \<Longrightarrow> same_frame f g"
proof (induction ss f rule: apply_start_values.induct)
  case (2 s ss f)
  show ?case
  proof (cases "map_of (sig_attributes s) ''GenSigStartValue''")
    case None
    then show ?thesis using "2.IH"(1) [OF None] "2.prems" None by simp
  next
    case (Some a)
    show ?thesis
    proof (cases "fits (sig_layout s) (frame_size f)")
      case True
      then obtain d where d: "layout_encode (sig_layout s) (av_number a) (frame_data f) = Inr d"
        "apply_start_values ss (f\<lparr>frame_data := d\<rparr>) = Inr g"
        using "2.prems" Some by (auto simp: try_bind_Inr_iff)
      have "same_frame f (f\<lparr>frame_data := d\<rparr>)" using layout_encode_Inr [OF d(1)] by (simp add: same_frame_def)
      then show ?thesis using "2.IH"(2) [OF Some True d(2)] by (rule same_frame_trans)
    next
      case False
      then show ?thesis using "2.IH"(3) [OF Some] "2.prems" Some False by simp
    qed
  qed
qed simp

lemma apply_values_Cons:
  assumes "apply_values m ((n, v) # vs) f = Inr g"
  obtains i h where "find_signal m n = Some i" "signal_encode (msg_signals m ! i) v f = Inr h" "apply_values m vs h = Inr g"
  using assms that by (auto simp: try_bind_Inr_iff split: option.splits)

lemma apply_values_same: "apply_values m vs f = Inr g \<Longrightarrow> same_frame f g"
proof (induction vs arbitrary: f)
  case (Cons p vs)
  obtain n v where p: "p = (n, v)" by force
  from Cons.prems [unfolded p] obtain i h where "signal_encode (msg_signals m ! i) v f = Inr h" "apply_values m vs h = Inr g"
    by (rule apply_values_Cons)
  then show ?case using signal_encode_Inr(2) Cons.IH same_frame_trans by blast
qed simp

text \<open>A signal whose bits none of the later writes touch keeps its raw value.\<close>

lemma apply_values_other:
  assumes "apply_values m vs f = Inr g" and "fits l (frame_size f)" and "frame_size f \<le> length (frame_data f)"
    and "\<And>n v j. (n, v) \<in> set vs \<Longrightarrow> find_signal m n = Some j \<Longrightarrow>
      disjoint_signals l (sig_layout (msg_signals m ! j)) (length (frame_data f))"
  shows "decode_raw l (frame_data g) = decode_raw l (frame_data f)"
  using assms
proof (induction vs arbitrary: f)
  case (Cons p vs)
  obtain n v where p: "p = (n, v)" by force
  from Cons.prems(1) [unfolded p] obtain i h where h: "find_signal m n = Some i"
      "signal_encode (msg_signals m ! i) v f = Inr h" "apply_values m vs h = Inr g" by (rule apply_values_Cons)
  note e = signal_encode_Inr [OF h(2)]
  have fits: "fits s (frame_size f) \<Longrightarrow> fits s (length (frame_data f))" for s
    using Cons.prems(3) by (auto simp: fits_def)
  have dis: "disjoint_signals l (sig_layout (msg_signals m ! i)) (length (frame_data f))"
    using Cons.prems(4) [of n v i] h(1) p by simp
  have "decode_raw l (frame_data h) = decode_raw l (frame_data f)"
    unfolding e(3) by (rule decode_other_raw [OF fits [OF Cons.prems(2)] fits [OF e(1)] dis])
  moreover have "decode_raw l (frame_data g) = decode_raw l (frame_data h)"
    by (rule Cons.IH [OF h(3)]) (use e(2) Cons.prems in \<open>auto simp: same_frame_def\<close>)
  ultimately show ?case by simp
qed simp

lemma apply_values_written:
  assumes "apply_values m vs f = Inr g" and "distinct (map fst vs)" and "(n, v) \<in> set vs" and "find_signal m n = Some i"
    and "frame_size f \<le> length (frame_data f)"
    and "\<And>k w j. (k, w) \<in> set vs \<Longrightarrow> find_signal m k = Some j \<Longrightarrow> j \<noteq> i \<Longrightarrow>
      disjoint_signals (sig_layout (msg_signals m ! i)) (sig_layout (msg_signals m ! j)) (length (frame_data f))"
  shows "fits (sig_layout (msg_signals m ! i)) (frame_size f) \<and> decode_raw (sig_layout (msg_signals m ! i)) (frame_data g) =
    physical_to_raw (sig_layout (msg_signals m ! i)) v AND bit_mask (bit_length (sig_layout (msg_signals m ! i)))"
  using assms
proof (induction vs arbitrary: f)
  case (Cons p vs)
  obtain n' v' where p: "p = (n', v')" by force
  from Cons.prems(1) [unfolded p] obtain i' h where h: "find_signal m n' = Some i'"
      "signal_encode (msg_signals m ! i') v' f = Inr h" "apply_values m vs h = Inr g" by (rule apply_values_Cons)
  note e = signal_encode_Inr [OF h(2)]
  have len: "frame_size h \<le> length (frame_data h)" "length (frame_data h) = length (frame_data f)" "frame_size h = frame_size f"
    using e(2) Cons.prems(5) by (auto simp: same_frame_def)
  show ?case
  proof (cases "n' = n")
    case True
    have nn: "n \<notin> fst ` set vs" using Cons.prems(2) p True by simp
    have "v' = v" using Cons.prems(3) p nn True by (auto simp: image_iff)
    have i: "i' = i" using h(1) True Cons.prems(4) by simp
    let ?l = "sig_layout (msg_signals m ! i)"
    have fits: "fits ?l (length (frame_data f))" using e(1) Cons.prems(5) i by (auto simp: fits_def)
    have "decode_raw ?l (frame_data g) = decode_raw ?l (frame_data h)"
    proof (rule apply_values_other [OF h(3) _ len(1)])
      show "fits ?l (frame_size h)" using e(1) len(3) i by simp
      fix k w j assume *: "(k, w) \<in> set vs" "find_signal m k = Some j"
      then have "k \<noteq> n" using nn by force
      then have "j \<noteq> i" using *(2) Cons.prems(4) find_signal_name by blast
      then show "disjoint_signals ?l (sig_layout (msg_signals m ! j)) (length (frame_data h))"
        unfolding len(2) using * by (intro Cons.prems(6) [of k w j]) simp_all
    qed
    then show ?thesis using decode_encode_raw [OF fits] e(1,3) i \<open>v' = v\<close> by simp
  next
    case False
    have "fits (sig_layout (msg_signals m ! i)) (frame_size h) \<and> decode_raw (sig_layout (msg_signals m ! i)) (frame_data g) =
      physical_to_raw (sig_layout (msg_signals m ! i)) v AND bit_mask (bit_length (sig_layout (msg_signals m ! i)))"
      using Cons.IH [OF h(3) _ _ Cons.prems(4) len(1)] Cons.prems(2,3,6) p False len(2) by auto
    then show ?thesis using len(3) by simp
  qed
qed simp

lemma memcpy_same [simp]: "memcpy_into d d n = d"
  by (simp add: memcpy_into_def)

lemma make_empty_zeros: "make_empty cap i len fl ts = make_frame_of cap i (Some (replicate cap 0)) len fl ts"
  by (simp add: make_empty_def make_frame_of_def empty_frame_def Let_def cong: if_cong)

lemma message_encode_frames:
  assumes "message_encode m vs = Inr f"
  obtains g where "apply_values m vs g = Inr f" "frame_id g = msg_id m" "frame_size g = unat (msg_dlc m)"
    "length (frame_data g) = 8" "msg_dlc m \<le> 8"
proof -
  from assms obtain e g where e: "\<not> msg_dlc m > 8" "make_empty 8 (msg_id m) (unat (msg_dlc m)) flag_none 0 = Inr e"
      "apply_start_values (msg_signals m) e = Inr g" "apply_values m vs g = Inr f"
    by (auto simp: message_encode_def try_bind_Inr_iff split: if_splits)
  have "unat (msg_dlc m) \<le> 8" using e(1) by (simp add: word_less_nat_alt)
  then have "frame_id e = msg_id m \<and> frame_size e = unat (msg_dlc m) \<and> length (frame_data e) = 8"
    using make_frame_builds [OF e(2) [unfolded make_empty_zeros]] by (simp add: wf_frame_def)
  then show thesis using that [OF e(4)] apply_start_values_same [OF e(3)] e(1) by (auto simp: same_frame_def)
qed

text \<open>C5. A frame encoded from physical values decodes to them: it has the identifier and the length of
  the message, every name in the list is a signal of the message, and a value that no signal written in
  the same call overlaps is stored exactly as \<open>physical_to_raw\<close> converts it, so that \<open>decode\<close> lists the
  signal with that raw value and its physical value whenever multiplexing makes it active.\<close>

theorem message_encode_decode:
  assumes "message_encode m vs = Inr f" and "distinct (map fst vs)" and "(n, v) \<in> set vs"
    and "\<And>k w i j. (k, w) \<in> set vs \<Longrightarrow> find_signal m n = Some i \<Longrightarrow> find_signal m k = Some j \<Longrightarrow> j \<noteq> i \<Longrightarrow>
      disjoint_signals (sig_layout (msg_signals m ! i)) (sig_layout (msg_signals m ! j)) 8"
  shows "frame_id f = msg_id m \<and> frame_size f = unat (msg_dlc m) \<and>
    (\<exists>i decoded. find_signal m n = Some i \<and> message_decode m f = Inr decoded \<and>
       (let l = sig_layout (msg_signals m ! i); raw = physical_to_raw l v AND bit_mask (bit_length l) in
        decode_raw l (frame_data f) = raw \<and>
        (is_signal_active m f i 0 \<longrightarrow> \<lparr>ds_signal = i, ds_raw = raw, ds_value = raw_to_physical l raw\<rparr> \<in> set decoded)))"
proof -
  obtain g where g: "apply_values m vs g = Inr f" "frame_id g = msg_id m" "frame_size g = unat (msg_dlc m)"
      "length (frame_data g) = 8" "msg_dlc m \<le> 8"
    using assms(1) by (rule message_encode_frames)
  have same: "same_frame g f" using g(1) by (rule apply_values_same)
  have "find_signal m n \<noteq> None" using g(1) assms(3)
    by (induction vs arbitrary: g) (auto simp: try_bind_Inr_iff split: option.splits)
  then obtain i where i: "find_signal m n = Some i" by blast
  have "unat (msg_dlc m) \<le> 8" using g(5) by (simp add: word_le_nat_alt)
  then have w: "fits (sig_layout (msg_signals m ! i)) (frame_size g) \<and> decode_raw (sig_layout (msg_signals m ! i)) (frame_data f) =
      physical_to_raw (sig_layout (msg_signals m ! i)) v AND bit_mask (bit_length (sig_layout (msg_signals m ! i)))"
    using g(3,4) assms(4) [OF _ i] by (intro apply_values_written [OF g(1) assms(2,3) i]) simp_all
  then have "i \<in> set (active_signals m f)" if "is_signal_active m f i 0"
    using that same find_signal_name [OF i] by (simp add: active_signals_def same_frame_def)
  then have "decode_signal_at m f i \<in> set (map (decode_signal_at m f) (active_signals m f))" if "is_signal_active m f i 0"
    using that by (simp add: image_eqI)
  then show ?thesis using same w i g(2,3)
    by (simp add: message_decode_def decode_signal_at_def same_frame_def Let_def)
qed

text \<open>Two signals side by side in a frame of two bytes.\<close>

definition pair_message :: message where
  "pair_message = (new_message (CanId 0x123) ''Pair'' 2)\<lparr>msg_signals :=
     [(sample_signal ''Temp'' MuxNone 0 [] 0 8), (sample_signal ''Mode'' MuxNone 0 [] 8 4)]\<rparr>"

lemma pair_find [simp]: "find_signal pair_message ''Temp'' = Some 0" "find_signal pair_message ''Mode'' = Some (Suc 0)"
  by (simp_all add: pair_message_def find_signal_def sample_signal_def)

lemma pair_layouts [simp]:
  "sig_layout (msg_signals pair_message ! 0) = demo_signal Intel 0 8"
  "sig_layout (msg_signals pair_message ! Suc 0) = demo_signal Intel 8 4"
  by (simp_all add: pair_message_def sample_signal_def)

lemma pair_disjoint: "disjoint_signals (demo_signal Intel 0 8) (demo_signal Intel 8 4) 8"
  by (simp add: demo_signal_def canonical_start_def disjoint_signals_def disjoint_runs_def
      occupies_def byte_bit_def Let_def)

lemma pair_signal_encode:
  assumes "frame_size f = 2" and "i < 2"
  shows "\<exists>g. signal_encode (msg_signals pair_message ! i) (of_integer 3) f = Inr g \<and> frame_size g = 2"
proof -
  have "is_finite (of_integer 3)" using of_integer_exact [of 3] by simp
  moreover from assms(2) have "i = 0 \<or> i = Suc 0" by auto
  ultimately show ?thesis using assms(1)
    by (auto simp: signal_encode_def layout_encode_def demo_signal_def fits_def canonical_end_def canonical_start_def)
qed

lemma pair_encodes: "\<exists>f. message_encode pair_message [(''Mode'', of_integer 3), (''Temp'', of_integer 3)] = Inr f"
proof -
  have dlc: "msg_dlc pair_message = 2" by (simp add: pair_message_def new_message_def)
  obtain e where e: "make_empty 8 (msg_id pair_message) (unat (msg_dlc pair_message)) flag_none 0 = Inr e"
    using make_frame_accepts [of 8 "msg_id pair_message" "Some (replicate 8 0)" 2 flag_none 0]
    by (auto simp: make_empty_zeros dlc make_ok_def validate_flags_def has_flag_def flag_defs)
  have e2: "frame_size e = 2" using make_frame_builds [OF e [unfolded make_empty_zeros]] by (simp add: dlc)
  have start: "apply_start_values (msg_signals pair_message) e = Inr e"
    by (simp add: pair_message_def sample_signal_def)
  obtain g where g: "signal_encode (msg_signals pair_message ! Suc 0) (of_integer 3) e = Inr g" "frame_size g = 2"
    using pair_signal_encode [OF e2, of "Suc 0"] by auto
  obtain h where h: "signal_encode (msg_signals pair_message ! 0) (of_integer 3) g = Inr h"
    using pair_signal_encode [OF g(2), of 0] by auto
  have "\<not> msg_dlc pair_message > 8" by (simp add: dlc)
  then show ?thesis unfolding message_encode_def by (simp add: e start g(1) h)
qed

theorem message_encode_decode_witness:
  "\<exists>f. message_encode pair_message [(''Mode'', of_integer 3), (''Temp'', of_integer 3)] = Inr f \<and>
     decode_raw (demo_signal Intel 0 8) (frame_data f) = physical_to_raw (demo_signal Intel 0 8) (of_integer 3) AND bit_mask 8"
proof -
  from pair_encodes obtain f where f: "message_encode pair_message [(''Mode'', of_integer 3), (''Temp'', of_integer 3)] = Inr f" ..
  have "bit_length (demo_signal Intel 0 8) = 8" by (simp add: demo_signal_def)
  moreover have "disjoint_signals (sig_layout (msg_signals pair_message ! i)) (sig_layout (msg_signals pair_message ! j)) 8"
    if "(k, w) \<in> set [(''Mode'', of_integer 3), (''Temp'', of_integer 3)]" "find_signal pair_message ''Temp'' = Some i"
      "find_signal pair_message k = Some j" "j \<noteq> i" for k w i j
    using that pair_disjoint by auto
  ultimately show ?thesis using message_encode_decode [OF f, of "''Temp''" "of_integer 3"] f
    by (auto simp: Let_def)
qed

subsection \<open>The linter\<close>

text \<open>A bit of the bitmap is set exactly when the signal occupies it.\<close>

lemma mark_from_bit:
  assumes "i < length bits" and "b < 8"
  shows "length (mark_from s k bits) = length bits \<and>
    (bit (mark_from s k bits ! i) b \<longleftrightarrow> bit (bits ! i) b \<or>
      canonical_start s + k \<le> byte_bit (byte_order s) i b \<and>
      byte_bit (byte_order s) i b < canonical_start s + unat (bit_length s))"
  using assms
proof (induction s k bits rule: mark_from.induct)
  case (1 s k bits)
  let ?q = "canonical_start s + k"
  let ?b = "if byte_order s = Intel then ?q mod 8 else 7 - ?q mod 8"
  have pos: "byte_bit (byte_order s) i b div 8 = i" using "1.prems"(2) by (simp add: byte_bit_def)
  consider "\<not> k < unat (bit_length s)" | "k < unat (bit_length s)" "?q div 8 \<ge> length bits"
    | "k < unat (bit_length s)" "?q div 8 < length bits" by linarith
  then show ?case
  proof cases
    case 1
    then show ?thesis by (subst (1 2) mark_from.simps) auto
  next
    case 2
    have "\<not> ?q \<le> byte_bit (byte_order s) i b"
    proof
      assume "?q \<le> byte_bit (byte_order s) i b"
      then have "?q div 8 \<le> i" using div_le_mono [of ?q "byte_bit (byte_order s) i b" 8] pos by simp
      then show False using 2(2) "1.prems"(1) by simp
    qed
    then show ?thesis using 2 by (subst (1 2) mark_from.simps) (simp add: Let_def)
  next
    case 3
    let ?new = "bits[?q div 8 := bits ! (?q div 8) OR push_bit ?b 1]"
    have step: "mark_from s k bits = mark_from s (k + 1) ?new"
      using 3 by (subst mark_from.simps) (simp add: Let_def)
    have hit: "i = ?q div 8 \<and> b = ?b \<longleftrightarrow> byte_bit (byte_order s) i b = ?q"
    proof
      assume "i = ?q div 8 \<and> b = ?b"
      then show "byte_bit (byte_order s) i b = ?q" by (cases "byte_order s") (auto simp: byte_bit_def)
    next
      assume q: "byte_bit (byte_order s) i b = ?q"
      then have "?q mod 8 = (if byte_order s = Intel then b else 7 - b)" using "1.prems"(2)
        unfolding q [symmetric] by (simp add: byte_bit_def)
      then show "i = ?q div 8 \<and> b = ?b" using pos q "1.prems"(2) by (cases "byte_order s") auto
    qed
    have "bit (?new ! i) b \<longleftrightarrow> bit (bits ! i) b \<or> byte_bit (byte_order s) i b = ?q"
      using "1.prems" 3(2) hit by (cases "i = ?q div 8") (auto simp: bit_simps)
    moreover have "length (mark_from s (k + 1) ?new) = length ?new \<and>
      (bit (mark_from s (k + 1) ?new ! i) b \<longleftrightarrow> bit (?new ! i) b \<or>
        canonical_start s + (k + 1) \<le> byte_bit (byte_order s) i b \<and>
        byte_bit (byte_order s) i b < canonical_start s + unat (bit_length s))"
      using "1.IH" [OF 3(1) refl _ refl] "1.prems" 3(2) by (simp add: not_le)
    ultimately show ?thesis unfolding step using 3(1) by auto
  qed
qed

lemma length_mark_bits [simp]: "length (mark_bits s) = 64"
  using mark_from_bit [of 0 "replicate 64 0" 0 s 0] by (simp add: mark_bits_def)

lemma mark_bits_bit:
  "i < 64 \<Longrightarrow> b < 8 \<Longrightarrow> bit (mark_bits s ! i) b \<longleftrightarrow> occupies (byte_order s) (canonical_start s) (bit_length s) i b"
  using mark_from_bit [of i "replicate 64 0" b s 0] by (simp add: mark_bits_def occupies_def)

lemma word8_zero_iff: "(w :: u8) = 0 \<longleftrightarrow> (\<forall>b<8. \<not> bit w b)"
proof
  assume "\<forall>b<8. \<not> bit w b"
  then show "w = 0" by (intro bit_word_eqI) simp
qed simp

lemma overlaps_iff: "overlaps a b \<longleftrightarrow> \<not> disjoint_signals a b 64"
proof -
  have "overlaps a b \<longleftrightarrow> (\<exists>i<64. mark_bits a ! i AND mark_bits b ! i \<noteq> 0)"
    by (auto simp: overlaps_def list_ex_length)
  also have "\<dots> \<longleftrightarrow> (\<exists>i<64. \<exists>j<8. bit (mark_bits a ! i) j \<and> bit (mark_bits b ! i) j)"
    by (simp add: word8_zero_iff bit_and_iff)
  also have "\<dots> \<longleftrightarrow> \<not> disjoint_signals a b 64"
    unfolding disjoint_signals_def disjoint_runs_def using mark_bits_bit by blast
  finally show ?thesis .
qed

lemma lint_overlaps_Nil:
  "lint_overlaps m ss = [] \<longleftrightarrow>
     (\<forall>i j. i < j \<and> j < length ss \<longrightarrow> mux_separated (ss ! i) (ss ! j) \<or> \<not> overlaps (sig_layout (ss ! i)) (sig_layout (ss ! j)))"
proof -
  have "lint_overlaps m ss = [] \<longleftrightarrow> \<not> some_pair (\<lambda>a b. \<not> mux_separated a b \<and> overlaps (sig_layout a) (sig_layout b)) ss"
    by (induction ss) (auto simp: filter_empty_conv list_ex_iff)
  then show ?thesis unfolding some_pair_iff by blast
qed

lemma disjoint_signals_less: "disjoint_signals a b n \<Longrightarrow> k \<le> n \<Longrightarrow> disjoint_signals a b k"
  by (simp add: disjoint_signals_def disjoint_runs_def)

text \<open>C15. The linter misses no misfit and no overlap: in a database it has nothing to say about, every signal of
  every message fits the message, also one that is alone or told apart from all others; and in a message of up to
  64 bytes two signals that are not told apart by their multiplexor values share no bit and never disturb each other:
  writing either leaves what the other decodes to, and they can be written in either order.\<close>

theorem lint_clean_signals_independent:
  assumes "lint db = []" and "m \<in> set (db_messages db)"
  shows "(\<forall>g\<in>set (msg_signals m). fits (sig_layout g) (unat (msg_dlc m))) \<and>
    (\<forall>i j (d :: bytes) v w. i < j \<and> j < length (msg_signals m) \<and> \<not> mux_separated (msg_signals m ! i) (msg_signals m ! j) \<and>
       length d = unat (msg_dlc m) \<and> msg_dlc m \<le> 64 \<longrightarrow>
       (let s = sig_layout (msg_signals m ! i); t = sig_layout (msg_signals m ! j) in
        \<not> overlaps s t \<and>
        decode_raw s (encode_raw t w d) = decode_raw s d \<and> decode_raw t (encode_raw s v d) = decode_raw t d \<and>
        encode_raw s v (encode_raw t w d) = encode_raw t w (encode_raw s v d)))"
proof -
  have clean: "lint_overlaps m (msg_signals m) = []" "\<forall>s\<in>set (msg_signals m). lint_signal m s = []"
    using assms by (simp_all add: lint_def lint_message_def)
  have fits: "\<forall>g\<in>set (msg_signals m). fits (sig_layout g) (unat (msg_dlc m))"
    using clean(2) by (auto simp: lint_signal_def Let_def split: if_splits)
  moreover have "let s = sig_layout (msg_signals m ! i); t = sig_layout (msg_signals m ! j) in
        \<not> overlaps s t \<and>
        decode_raw s (encode_raw t w d) = decode_raw s d \<and> decode_raw t (encode_raw s v d) = decode_raw t d \<and>
        encode_raw s v (encode_raw t w d) = encode_raw t w (encode_raw s v d)"
    if ij: "i < j" "j < length (msg_signals m)" "\<not> mux_separated (msg_signals m ! i) (msg_signals m ! j)"
      and d: "length d = unat (msg_dlc m)" "msg_dlc m \<le> 64" for i j and d :: bytes and v w
  proof -
    have no: "\<not> overlaps (sig_layout (msg_signals m ! i)) (sig_layout (msg_signals m ! j))"
      using clean(1) ij unfolding lint_overlaps_Nil by blast
    have "length d \<le> 64" using d by (simp add: word_le_nat_alt)
    then have dis: "disjoint_signals (sig_layout (msg_signals m ! i)) (sig_layout (msg_signals m ! j)) (length d)"
      using no overlaps_iff disjoint_signals_less by blast
    have f: "fits (sig_layout (msg_signals m ! i)) (length d)" "fits (sig_layout (msg_signals m ! j)) (length d)"
      using fits ij d(1) by simp_all
    show ?thesis
      using no decode_other_raw [OF f dis] decode_other_raw [OF f(2,1) disjoint_signals_sym [OF dis]] encode_raw_commute [OF f dis]
      by (simp add: Let_def)
  qed
  ultimately show ?thesis by blast
qed

definition clean_database :: database where
  "clean_database = empty_database\<lparr>db_messages := [pair_message\<lparr>msg_transmitter := ''Engine''\<rparr>]\<rparr>"

theorem lint_clean_signals_independent_witness:
  "fits (demo_signal Intel 0 8) 2 \<and>
     decode_raw (demo_signal Intel 0 8) (encode_raw (demo_signal Intel 8 4) 9 [1, 2]) = decode_raw (demo_signal Intel 0 8) [1, 2]"
proof -
  let ?m = "pair_message\<lparr>msg_transmitter := ''Engine''\<rparr>"
  have fields: "msg_signals ?m = msg_signals pair_message" "msg_dlc ?m = 2" "msg_transmitter ?m = ''Engine''"
    "msg_id ?m = CanId 0x123" "msg_attributes ?m = []"
    by (simp_all add: pair_message_def new_message_def)
  have len: "length (msg_signals pair_message) = 2" by (simp add: pair_message_def)
  have sigs: "msg_signals pair_message = [sample_signal ''Temp'' MuxNone 0 [] 0 8, sample_signal ''Mode'' MuxNone 0 [] 8 4]"
    by (simp add: pair_message_def)
  have "\<not> overlaps (demo_signal Intel 0 8) (demo_signal Intel 8 4)"
    unfolding overlaps_iff by (simp add: demo_signal_def canonical_start_def disjoint_signals_def disjoint_runs_def
      occupies_def byte_bit_def Let_def)
  then have "lint_overlaps ?m (msg_signals ?m) = []" unfolding fields sigs by (simp add: sample_signal_def)
  moreover have "lint_signal ?m s = []" if "s \<in> set (msg_signals ?m)" for s
    using that unfolding fields sigs
    by (auto simp: lint_signal_def fields sample_signal_def demo_signal_def fits_def canonical_end_def canonical_start_def
      has_range_def signed_at_def Let_def)
  moreover have "lint_header ?m = []"
    unfolding lint_header_def fields
    by (simp add: violates_base_id_rule_def id_value_def is_extended_def kExtendedIdMax_def kEffFlag_def kNoNode_def)
  moreover have "\<not> is_multiplexed ?m" unfolding is_multiplexed_def fields sigs by (simp add: sample_signal_def)
  ultimately have lm: "lint_message ?m = []" unfolding lint_message_def by simp
  have "lint_attributes clean_database = []"
    by (simp add: lint_attributes_def clean_database_def empty_database_def check_attrs_def sigs fields sample_signal_def)
  then have clean: "lint clean_database = []" using lm by (simp add: lint_def clean_database_def)
  have mem: "?m \<in> set (db_messages clean_database)" by (simp add: clean_database_def)
  note th = lint_clean_signals_independent [OF clean mem, unfolded fields]
  have "\<not> mux_separated (msg_signals pair_message ! 0) (msg_signals pair_message ! 1)"
    unfolding sigs by (simp add: mux_separated_def sample_signal_def)
  moreover have "length [1 :: u8, 2] = unat (2 :: u8)" "(2 :: u8) \<le> 64" "(0 :: nat) < 1" "1 < length (msg_signals pair_message)"
    using len by simp_all
  ultimately have "decode_raw (sig_layout (msg_signals pair_message ! 0))
      (encode_raw (sig_layout (msg_signals pair_message ! 1)) 9 [1, 2]) = decode_raw (sig_layout (msg_signals pair_message ! 0)) [1, 2]"
    using conjunct2 [OF th] unfolding Let_def by blast
  moreover have "fits (sig_layout (msg_signals pair_message ! 0)) (unat (2 :: u8))"
    by (rule bspec [OF conjunct1 [OF th]]) (simp add: sigs)
  ultimately show ?thesis unfolding sigs by (simp add: sample_signal_def)
qed

text \<open>The test for signals told apart looks at one value of each, not at the ranges of
  \<open>SG_MUL_VAL_\<close>: two signals both present for the value 2 pass for separated, and their overlap goes
  unreported.\<close>

lemma lint_misses_shared_range:
  defines "a \<equiv> (sample_signal ''A'' Multiplexed 1 [] 8 8)\<lparr>sig_mux_ranges := [(1, 3)]\<rparr>"
    and "b \<equiv> (sample_signal ''B'' Multiplexed 5 [] 8 8)\<lparr>sig_mux_ranges := [(2, 2), (5, 5)]\<rparr>"
  shows "is_present_for a 2 \<and> is_present_for b 2 \<and> overlaps (sig_layout a) (sig_layout b) \<and> lint_overlaps m [a, b] = []"
proof -
  have "occupies Intel 8 8 1 0" "(1 :: nat) < 64" "(0 :: nat) < 8" by (simp_all add: occupies_def byte_bit_def)
  then have "\<not> disjoint_runs Intel 8 8 Intel 8 8 64" unfolding disjoint_runs_def by blast
  then have "\<not> disjoint_signals (demo_signal Intel 8 8) (demo_signal Intel 8 8) 64"
    by (simp add: disjoint_signals_def demo_signal_def canonical_start_def)
  then show ?thesis
    by (simp add: a_def b_def sample_signal_def is_present_for_def range_contains_def mux_separated_def overlaps_iff)
qed

end
