(* ===== verification/Diagnostic.thy ===== *)
theory Diagnostic
  imports Core_Result Fmt
begin

text \<open>
  \<open>text/Diagnostic\<close>: source positions, diagnostics, the sink that counts them, and their rendering.
\<close>

record source_location =
  loc_line :: u32
  loc_column :: u32

datatype severity = SevWarning | SevError

record diagnostic =
  dg_severity :: severity
  dg_code :: error_code
  dg_where :: source_location
  dg_message :: string
  dg_token :: string
  dg_source_line :: string
  dg_note :: string

record diagnostic_sink =
  sk_items :: "diagnostic list"
  sk_errors :: nat
  sk_warnings :: nat

definition empty_sink :: diagnostic_sink where
  "empty_sink = \<lparr>sk_items = [], sk_errors = 0, sk_warnings = 0\<rparr>"

definition sink_add :: "diagnostic_sink \<Rightarrow> diagnostic \<Rightarrow> diagnostic_sink" where
  "sink_add k d =
     (let k = (if dg_severity d = SevError then k\<lparr>sk_errors := sk_errors k + 1\<rparr> else k\<lparr>sk_warnings := sk_warnings k + 1\<rparr>)
      in k\<lparr>sk_items := sk_items k @ [d]\<rparr>)"

definition has_errors :: "diagnostic_sink \<Rightarrow> bool" where
  "has_errors k \<longleftrightarrow> sk_errors k \<noteq> 0"

subsection \<open>Rendering\<close>

definition newline :: string where "newline = [CHR 0x0A]"

definition severity_text :: "severity \<Rightarrow> string" where
  "severity_text s = (if s = SevError then ''error'' else ''warning'')"

definition gutter :: "u32 \<Rightarrow> bool \<Rightarrow> string" where
  "gutter line with_number =
     (let number = dec_plain (unat line) in
      if with_number then '' '' @ number @ '' | '' else replicate (length number + 2) (CHR '' '') @ ''| '')"

definition caret_padding :: "string \<Rightarrow> u32 \<Rightarrow> string" where
  "caret_padding line column =
     (let stop = (if column > 0 then unat (column - 1) else 0)
      in map (\<lambda>i. if i < length line \<and> line ! i = CHR 0x09 then CHR 0x09 else CHR '' '') [0..<stop])"

definition diagnostic_format :: "diagnostic \<Rightarrow> string \<Rightarrow> string" where
  "diagnostic_format d filename =
     filename @ '':'' @ dec_plain (unat (loc_line (dg_where d))) @ '':'' @ dec_plain (unat (loc_column (dg_where d))) @ '': '' @
     severity_text (dg_severity d) @ '': '' @ dg_message d @
     (if dg_token d \<noteq> [] then '' (found '' @ [CHR 0x27] @ dg_token d @ [CHR 0x27] @ '')'' else []) @ newline @
     (if dg_source_line d \<noteq> []
      then gutter (loc_line (dg_where d)) True @ dg_source_line d @ newline @
           gutter (loc_line (dg_where d)) False @ caret_padding (dg_source_line d) (loc_column (dg_where d)) @ ''^'' @ newline
      else []) @
     (if dg_note d \<noteq> [] then gutter (loc_line (dg_where d)) False @ ''= note: '' @ dg_note d @ newline else [])"

definition sink_format :: "diagnostic_sink \<Rightarrow> string \<Rightarrow> string" where
  "sink_format k filename =
     concat (map (\<lambda>d. diagnostic_format d filename @ newline) (sk_items k)) @
     (if sk_errors k \<noteq> 0 \<or> sk_warnings k \<noteq> 0
      then dec_plain (sk_errors k) @ '' error'' @ (if sk_errors k = 1 then [] else ''s'') @ '', '' @
           dec_plain (sk_warnings k) @ '' warning'' @ (if sk_warnings k = 1 then [] else ''s'') @ newline
      else [])"

subsection \<open>The counts\<close>

text \<open>The counters are those of the items: what every sequence of \<open>add\<close> keeps.\<close>

definition sink_counts :: "diagnostic_sink \<Rightarrow> bool" where
  "sink_counts k \<longleftrightarrow> sk_errors k = length (filter (\<lambda>d. dg_severity d = SevError) (sk_items k)) \<and>
     sk_warnings k = length (filter (\<lambda>d. dg_severity d = SevWarning) (sk_items k))"

interpretation diagnostics: event_machine sink_add sink_counts
proof
  fix k d
  assume "sink_counts k"
  then show "sink_counts (sink_add k d)"
    by (cases "dg_severity d") (auto simp: sink_counts_def sink_add_def Let_def)
qed

lemma sink_add_monotone: "sk_errors k \<le> sk_errors (sink_add k d)"
  by (simp add: sink_add_def Let_def)

end
