(* ===== verification/Lexer.thy ===== *)
theory Lexer
  imports Diagnostic Double
begin

text \<open>
  \<open>text/Lexer\<close>: the normalisation of a source and the scanner that the DBC and configuration parsers share.
  The scanner's position is the text not read yet. \<open>strtod\<close> and \<open>strtoull\<close> are written out for the literals the
  scanner gives them: \<open>strtod\<close> rounds the decimal value once, \<open>strtoull\<close> stops at its maximum.
\<close>

subsection \<open>Characters\<close>

definition char_byte :: "char \<Rightarrow> u8" where "char_byte c = of_char c"

definition is_digit :: "char \<Rightarrow> bool" where
  "is_digit c \<longleftrightarrow> 48 \<le> (of_char c :: nat) \<and> (of_char c :: nat) \<le> 57"

definition is_alpha :: "char \<Rightarrow> bool" where
  "is_alpha c \<longleftrightarrow> 65 \<le> (of_char c :: nat) \<and> (of_char c :: nat) \<le> 90 \<or> 97 \<le> (of_char c :: nat) \<and> (of_char c :: nat) \<le> 122"

definition is_ident_start :: "char \<Rightarrow> bool" where
  "is_ident_start c \<longleftrightarrow> is_alpha c \<or> c = CHR ''_'' \<or> 0x80 \<le> (of_char c :: nat)"

definition is_ident_continue :: "char \<Rightarrow> bool" where
  "is_ident_continue c \<longleftrightarrow> is_alpha c \<or> is_digit c \<or> c = CHR ''_'' \<or> 0x80 \<le> (of_char c :: nat)"

subsection \<open>Normalisation\<close>

text \<open>The length of the UTF-8 sequence a text begins with, 0 where it is none.\<close>

definition utf8_sequence_length :: "string \<Rightarrow> nat" where
  "utf8_sequence_length p =
     (let c = char_byte (hd p) in
      if c < 0x80 then 1
      else
        let need = (if c AND 0xE0 = 0xC0 then 2 else if c AND 0xF0 = 0xE0 then 3 else if c AND 0xF8 = 0xF0 then 4 else 0)
        in if need = 0 then 0
           else if need > length p then 0
           else if list_ex (\<lambda>d. char_byte d AND 0xC0 \<noteq> 0x80) (take (need - 1) (tl p)) then 0
           else need)"

function is_valid_utf8 :: "string \<Rightarrow> bool" where
  "is_valid_utf8 s =
     (if s = [] then True
      else let n = utf8_sequence_length s in if n = 0 then False else is_valid_utf8 (drop n s))"
  by pat_completeness auto
termination by (relation "measure length") auto

declare is_valid_utf8.simps [simp del]

definition latin1_to_utf8 :: "string \<Rightarrow> string" where
  "latin1_to_utf8 s =
     concat (map (\<lambda>ch. let c = char_byte ch in
        if c < 0x80 then [ch]
        else [char_of (unat (0xC0 OR drop_bit 6 c)), char_of (unat (0x80 OR (c AND 0x3F)))]) s)"

fun unify_newlines :: "string \<Rightarrow> string" where
  "unify_newlines [] = []"
| "unify_newlines (c # cs) =
     (if c = CHR 0x0D
      then CHR 0x0A # (case cs of [] \<Rightarrow> [] | d # ds \<Rightarrow> if d = CHR 0x0A then unify_newlines ds else unify_newlines cs)
      else c # unify_newlines cs)"

record source =
  src_text :: string
  src_name :: string
  src_line_starts :: "nat list"
  src_had_bom :: bool
  src_had_crlf :: bool
  src_had_latin1 :: bool
  src_had_no_final_newline :: bool

definition line_starts_of :: "string \<Rightarrow> nat list" where
  "line_starts_of text = 0 # map Suc (filter (\<lambda>i. text ! i = CHR 0x0A \<and> i + 1 < length text) [0..<length text])"

definition normalise :: "string \<Rightarrow> string \<Rightarrow> source" where
  "normalise bytes n =
     (let bom = (length bytes \<ge> 3 \<and> char_byte (bytes ! 0) = 0xEF \<and> char_byte (bytes ! 1) = 0xBB \<and> char_byte (bytes ! 2) = 0xBF);
          bytes = (if bom then drop 3 bytes else bytes);
          latin1 = (\<not> is_valid_utf8 bytes);
          bytes = (if latin1 then latin1_to_utf8 bytes else bytes);
          crlf = (CHR 0x0D \<in> set bytes);
          out = unify_newlines bytes;
          unfinished = (out \<noteq> [] \<and> last out \<noteq> CHR 0x0A);
          out = (if unfinished then out @ [CHR 0x0A] else out)
      in \<lparr>src_text = out, src_name = n, src_line_starts = line_starts_of out, src_had_bom = bom, src_had_crlf = crlf,
          src_had_latin1 = latin1, src_had_no_final_newline = unfinished\<rparr>)"

definition source_line :: "source \<Rightarrow> u32 \<Rightarrow> string" where
  "source_line s number =
     (if number = 0 \<or> unat number > length (src_line_starts s) then []
      else takeWhile (\<lambda>c. c \<noteq> CHR 0x0A) (drop (src_line_starts s ! (unat number - 1)) (src_text s)))"

subsection \<open>Tokens\<close>

datatype token_kind =
  TkEnd | TkIdentifier | TkInteger | TkReal | TkString | TkColon | TkSemicolon | TkComma | TkPipe | TkAt | TkPlus | TkMinus
| TkLParen | TkRParen | TkLBracket | TkRBracket | TkEquals | TkDot | TkSlash | TkUnknown

definition apostrophes :: "string \<Rightarrow> string" where
  "apostrophes s = CHR 0x27 # s @ [CHR 0x27]"

definition kind_text :: "token_kind \<Rightarrow> string" where
  "kind_text k =
     (case k of
        TkEnd \<Rightarrow> ''end of file'' | TkIdentifier \<Rightarrow> ''an identifier'' | TkInteger \<Rightarrow> ''an integer'' | TkReal \<Rightarrow> ''a number''
      | TkString \<Rightarrow> ''a quoted string'' | TkColon \<Rightarrow> apostrophes '':'' | TkSemicolon \<Rightarrow> apostrophes '';'' | TkComma \<Rightarrow> apostrophes '',''
      | TkPipe \<Rightarrow> apostrophes ''|'' | TkAt \<Rightarrow> apostrophes ''@'' | TkPlus \<Rightarrow> apostrophes ''+'' | TkMinus \<Rightarrow> apostrophes ''-''
      | TkLParen \<Rightarrow> apostrophes ''('' | TkRParen \<Rightarrow> apostrophes '')'' | TkLBracket \<Rightarrow> apostrophes ''['' | TkRBracket \<Rightarrow> apostrophes '']''
      | TkEquals \<Rightarrow> apostrophes ''='' | TkDot \<Rightarrow> apostrophes ''.'' | TkSlash \<Rightarrow> apostrophes ''/'' | TkUnknown \<Rightarrow> ''an unexpected character'')"

record token =
  tk_kind :: token_kind
  tk_text :: string
  tk_where :: source_location
  tk_integer :: u64
  tk_real :: double
  tk_value :: string
  tk_first :: bool

definition new_token :: "token_kind \<Rightarrow> string \<Rightarrow> source_location \<Rightarrow> token" where
  "new_token k text pos = \<lparr>tk_kind = k, tk_text = text, tk_where = pos, tk_integer = 0, tk_real = dzero, tk_value = [], tk_first = False\<rparr>"

definition is_word :: "token \<Rightarrow> string \<Rightarrow> bool" where
  "is_word t w \<longleftrightarrow> tk_kind t = TkIdentifier \<and> tk_text t = w"

subsection \<open>The scanner\<close>

record lexer =
  lx_rest :: string
  lx_line :: u32
  lx_column :: u32
  lx_at_line_start :: bool

definition new_lexer :: "source \<Rightarrow> lexer" where
  "new_lexer s = \<lparr>lx_rest = src_text s, lx_line = 1, lx_column = 1, lx_at_line_start = True\<rparr>"

definition lx_peek :: "lexer \<Rightarrow> nat \<Rightarrow> char" where
  "lx_peek lx ahead = (if ahead < length (lx_rest lx) then lx_rest lx ! ahead else CHR 0x00)"

definition lx_at_end :: "lexer \<Rightarrow> bool" where "lx_at_end lx \<longleftrightarrow> lx_rest lx = []"

definition lx_here :: "lexer \<Rightarrow> source_location" where
  "lx_here lx = \<lparr>loc_line = lx_line lx, loc_column = lx_column lx\<rparr>"

definition lx_advance :: "lexer \<Rightarrow> lexer" where
  "lx_advance lx =
     (if hd (lx_rest lx) = CHR 0x0A
      then lx\<lparr>lx_rest := tl (lx_rest lx), lx_line := lx_line lx + 1, lx_column := 1, lx_at_line_start := True\<rparr>
      else lx\<lparr>lx_rest := tl (lx_rest lx), lx_column := lx_column lx + 1\<rparr>)"

text \<open>The loops that advance while the next character is of a class.\<close>

function lx_while :: "(char \<Rightarrow> bool) \<Rightarrow> lexer \<Rightarrow> lexer" where
  "lx_while P lx = (if \<not> lx_at_end lx \<and> P (lx_peek lx 0) then lx_while P (lx_advance lx) else lx)"
  by pat_completeness auto
termination by (relation "measure (\<lambda>(P, lx). length (lx_rest lx))") (auto simp: lx_at_end_def lx_advance_def)

declare lx_while.simps [simp del]

lemma length_lx_while: "length (lx_rest (lx_while P lx)) \<le> length (lx_rest lx)"
proof (induction P lx rule: lx_while.induct)
  case (1 P lx)
  then show ?case
    by (subst lx_while.simps) (auto simp: lx_advance_def lx_at_end_def intro: order_trans)
qed

definition is_blank :: "char \<Rightarrow> bool" where
  "is_blank c \<longleftrightarrow> c = CHR '' '' \<or> c = CHR 0x09 \<or> c = CHR 0x0A \<or> c = CHR 0x0B \<or> c = CHR 0x0C"

definition skip_line :: "lexer \<Rightarrow> lexer" where
  "skip_line lx = lx_while (\<lambda>c. c \<noteq> CHR 0x0A) lx"

function skip_trivia :: "lexer \<Rightarrow> lexer" where
  "skip_trivia lx =
     (if lx_at_end lx then lx
      else
        let c = lx_peek lx 0 in
        if is_blank c then skip_trivia (lx_advance lx)
        else if c = CHR ''#'' then skip_trivia (skip_line lx)
        else if c = CHR ''/'' \<and> lx_peek lx 1 = CHR ''/'' then skip_trivia (skip_line lx)
        else lx)"
  by pat_completeness auto
termination
proof (relation "measure (\<lambda>lx. length (lx_rest lx))")
  have "length (lx_rest (skip_line lx)) < length (lx_rest lx)" if "\<not> lx_at_end lx" "lx_peek lx 0 \<noteq> CHR 0x0A" for lx
  proof -
    have "skip_line lx = lx_while (\<lambda>c. c \<noteq> CHR 0x0A) (lx_advance lx)" using that by (simp add: skip_line_def lx_while.simps [of _ lx])
    then show ?thesis using length_lx_while [of "\<lambda>c. c \<noteq> CHR 0x0A" "lx_advance lx"] that
      by (cases "lx_rest lx") (auto simp: lx_advance_def lx_at_end_def)
  qed
  then show "\<And>lx x. \<not> lx_at_end lx \<Longrightarrow> x = lx_peek lx 0 \<Longrightarrow> \<not> is_blank x \<Longrightarrow> x = CHR ''#'' \<Longrightarrow> (skip_line lx, lx) \<in> measure (\<lambda>lx. length (lx_rest lx))"
    "\<And>lx x. \<not> lx_at_end lx \<Longrightarrow> x = lx_peek lx 0 \<Longrightarrow> \<not> is_blank x \<Longrightarrow> x \<noteq> CHR ''#'' \<Longrightarrow>
      x = CHR ''/'' \<and> lx_peek lx 1 = CHR ''/'' \<Longrightarrow> (skip_line lx, lx) \<in> measure (\<lambda>lx. length (lx_rest lx))"
    by (auto simp: is_blank_def)
qed (auto simp: lx_at_end_def lx_advance_def)

declare skip_trivia.simps [simp del]

text \<open>The text between two positions.\<close>

definition lx_slice :: "lexer \<Rightarrow> lexer \<Rightarrow> string" where
  "lx_slice a b = take (length (lx_rest a) - length (lx_rest b)) (lx_rest a)"

definition lex_error :: "source \<Rightarrow> diagnostic_sink \<Rightarrow> error_code \<Rightarrow> source_location \<Rightarrow> string \<Rightarrow> string \<Rightarrow> diagnostic_sink" where
  "lex_error src k code pos message tok =
     sink_add k \<lparr>dg_severity = SevError, dg_code = code, dg_where = pos, dg_message = message, dg_token = tok,
       dg_source_line = source_line src (loc_line pos), dg_note = []\<rparr>"

subsection \<open>Numbers\<close>

definition digits_of :: "string \<Rightarrow> nat" where
  "digits_of s = foldl (\<lambda>a c. 10 * a + (of_char c - 48)) 0 s"

definition strtoull :: "string \<Rightarrow> u64" where
  "strtoull s = (if digits_of s < 2 ^ 64 then of_nat (digits_of s) else - 1)"

text \<open>\<open>strtod\<close> on digits, an optional fraction and an optional exponent.\<close>

definition decimal_value :: "nat \<Rightarrow> int \<Rightarrow> double" where
  "decimal_value m e =
     (if e \<ge> 0 then round_quotient binary64 False (m * 10 ^ nat e) 1 else round_quotient binary64 False m (10 ^ nat (- e)))"

definition strtod :: "string \<Rightarrow> double" where
  "strtod s =
     (let whole = takeWhile is_digit s; r = dropWhile is_digit s;
          (frac, r) = (if r \<noteq> [] \<and> hd r = CHR ''.'' then (takeWhile is_digit (tl r), dropWhile is_digit (tl r)) else ([], r));
          expo = (if r \<noteq> [] \<and> (hd r = CHR ''e'' \<or> hd r = CHR ''E'')
                  then (case tl r of
                          [] \<Rightarrow> 0
                        | c # cs \<Rightarrow> if c = CHR ''-'' then - int (digits_of (takeWhile is_digit cs))
                                    else if c = CHR ''+'' then int (digits_of (takeWhile is_digit cs))
                                    else int (digits_of (takeWhile is_digit (c # cs))))
                  else 0)
      in decimal_value (digits_of (whole @ frac)) (expo - int (length frac)))"

definition lex_fraction :: "lexer \<Rightarrow> bool \<times> lexer" where
  "lex_fraction lx =
     (if lx_peek lx 0 = CHR ''.'' \<and> is_digit (lx_peek lx 1) then (True, lx_while is_digit (lx_advance lx))
      else if lx_peek lx 0 = CHR ''.'' \<and> \<not> is_ident_start (lx_peek lx 1) then (True, lx_advance lx)
      else (False, lx))"

definition lex_exponent :: "bool \<Rightarrow> lexer \<Rightarrow> bool \<times> lexer" where
  "lex_exponent is_real lx =
     (if lx_peek lx 0 = CHR ''e'' \<or> lx_peek lx 0 = CHR ''E'' then
        let signed_exponent = (lx_peek lx 1 = CHR ''+'' \<or> lx_peek lx 1 = CHR ''-'') in
        if signed_exponent \<and> is_digit (lx_peek lx 2) \<or> is_digit (lx_peek lx 1)
        then let lx = lx_advance lx; lx = (if signed_exponent then lx_advance lx else lx) in (True, lx_while is_digit lx)
        else (is_real, lx)
      else (is_real, lx))"

definition lex_number :: "lexer \<Rightarrow> token \<times> lexer" where
  "lex_number start =
     (let lx = lx_while is_digit start;
          (is_real, lx) = lex_fraction lx;
          (is_real, lx) = lex_exponent is_real lx
      in if is_ident_continue (lx_peek lx 0) \<and> \<not> is_real then
           let lx = lx_while is_ident_continue lx in (new_token TkIdentifier (lx_slice start lx) (lx_here start), lx)
         else
           let literal = lx_slice start lx in
           if is_real then ((new_token TkReal literal (lx_here start))\<lparr>tk_real := strtod literal\<rparr>, lx)
           else ((new_token TkInteger literal (lx_here start))
                   \<lparr>tk_integer := strtoull literal, tk_real := of_integer (uint (strtoull literal))\<rparr>, lx))"

definition lex_identifier :: "lexer \<Rightarrow> token \<times> lexer" where
  "lex_identifier start =
     (let lx = lx_while is_ident_continue start in (new_token TkIdentifier (lx_slice start lx) (lx_here start), lx))"

subsection \<open>Strings\<close>

text \<open>The loop of \<open>lex_string\<close>: the value read, the position, and whether the closing quote was found.\<close>

function string_body :: "lexer \<Rightarrow> string \<times> lexer \<times> bool" where
  "string_body lx =
     (if lx_at_end lx then ([], lx, False)
      else
        let c = lx_peek lx 0; follow = lx_peek lx 1 in
        if c = CHR 0x22 \<and> follow \<noteq> CHR 0x22 then ([], lx_advance lx, True)
        else
          let escape = (c = CHR 0x5C \<and> (follow = CHR 0x22 \<or> follow = CHR 0x5C) \<or> c = CHR 0x22);
              lx = (if escape then lx_advance lx else lx);
              (v, l, t) = string_body (lx_advance lx)
          in (hd (lx_rest lx) # v, l, t))"
  by pat_completeness auto
termination
  by (relation "measure (\<lambda>lx. length (lx_rest lx))") (auto simp: lx_at_end_def lx_advance_def)

declare string_body.simps [simp del]

definition lex_string :: "source \<Rightarrow> lexer \<Rightarrow> diagnostic_sink \<Rightarrow> token \<times> lexer \<times> diagnostic_sink" where
  "lex_string src start k =
     (let (v, lx, terminated) = string_body (lx_advance start);
          t = (new_token TkString (lx_slice start lx) (lx_here start))\<lparr>tk_value := v\<rparr>
      in (t, lx, if terminated then k
                 else lex_error src k ParseUnterminatedString (lx_here start) ''string literal is never closed'' [CHR 0x22]))"

definition punctuation :: "char \<Rightarrow> token_kind" where
  "punctuation c =
     (if c = CHR '':'' then TkColon else if c = CHR '';'' then TkSemicolon else if c = CHR '','' then TkComma
      else if c = CHR ''|'' then TkPipe else if c = CHR ''@'' then TkAt else if c = CHR ''+'' then TkPlus
      else if c = CHR ''-'' then TkMinus else if c = CHR ''('' then TkLParen else if c = CHR '')'' then TkRParen
      else if c = CHR ''['' then TkLBracket else if c = CHR '']'' then TkRBracket else if c = CHR ''='' then TkEquals
      else if c = CHR ''.'' then TkDot else if c = CHR ''/'' then TkSlash else TkUnknown)"

definition lex_punctuation :: "source \<Rightarrow> lexer \<Rightarrow> diagnostic_sink \<Rightarrow> token \<times> lexer \<times> diagnostic_sink" where
  "lex_punctuation src start k =
     (let c = lx_peek start 0; lx = lx_advance start; t = new_token (punctuation c) (lx_slice start lx) (lx_here start)
      in (t, lx, if punctuation c = TkUnknown
                 then lex_error src k ParseUnexpectedToken (lx_here start) ''unexpected character in the input'' (tk_text t)
                 else k))"

text \<open>One token of the main loop, from the first character after the trivia.\<close>

definition lex_token :: "source \<Rightarrow> lexer \<Rightarrow> diagnostic_sink \<Rightarrow> token \<times> lexer \<times> diagnostic_sink" where
  "lex_token src lx k =
     (let c = lx_peek lx 0 in
      if is_digit c \<or> (c = CHR ''.'' \<and> is_digit (lx_peek lx 1)) then (let (t, lx) = lex_number lx in (t, lx, k))
      else if is_ident_start c then (let (t, lx) = lex_identifier lx in (t, lx, k))
      else if c = CHR 0x22 then lex_string src lx k
      else lex_punctuation src lx k)"

text \<open>Every token takes at least one character.\<close>

lemma length_lx_advance [simp]: "length (lx_rest (lx_advance lx)) = length (lx_rest lx) - 1"
  by (simp add: lx_advance_def)

lemma lx_while_first:
  assumes "\<not> lx_at_end lx" and "P (lx_peek lx 0)"
  shows "length (lx_rest (lx_while P lx)) < length (lx_rest lx)"
proof -
  have "lx_while P lx = lx_while P (lx_advance lx)" using assms by (simp add: lx_while.simps [of _ lx])
  then show ?thesis using length_lx_while [of P "lx_advance lx"] assms(1) by (cases "lx_rest lx") (auto simp: lx_at_end_def)
qed

lemma length_string_body: "string_body lx = (v, lx', t) \<Longrightarrow> length (lx_rest lx') \<le> length (lx_rest lx)"
proof (induction lx arbitrary: v lx' t rule: string_body.induct)
  case (1 lx)
  let ?c = "lx_peek lx 0" and ?d = "lx_peek lx 1"
  let ?esc = "?c = CHR 0x5C \<and> (?d = CHR 0x22 \<or> ?d = CHR 0x5C) \<or> ?c = CHR 0x22"
  let ?lx = "if ?esc then lx_advance lx else lx"
  consider "lx_at_end lx" | "\<not> lx_at_end lx" "?c = CHR 0x22 \<and> ?d \<noteq> CHR 0x22" | "\<not> lx_at_end lx" "\<not> (?c = CHR 0x22 \<and> ?d \<noteq> CHR 0x22)"
    by blast
  then show ?case
  proof cases
    case 3
    obtain w l u where r: "string_body (lx_advance ?lx) = (w, l, u)" by (metis prod_cases3)
    have "lx' = l"
      using "1.prems" unfolding string_body.simps [of lx] Let_def if_not_P [OF 3(1)] if_not_P [OF 3(2)] r prod.case by simp
    moreover have "length (lx_rest l) \<le> length (lx_rest (lx_advance ?lx))"
      by (rule "1.IH" [OF 3(1) refl refl 3(2) refl refl r])
    ultimately show ?thesis by (auto split: if_splits)
  qed (use "1.prems" in \<open>auto simp: string_body.simps [of lx] Let_def\<close>)
qed

lemma lex_string_shorter: "lex_string src lx k = (t, lx', k') \<Longrightarrow> \<not> lx_at_end lx \<Longrightarrow> length (lx_rest lx') < length (lx_rest lx)"
  using length_string_body [of "lx_advance lx"]
  by (cases "lx_rest lx") (fastforce simp: lex_string_def lx_at_end_def Let_def split: prod.splits)+

lemma lex_fraction_le: "lex_fraction lx = (r, lx') \<Longrightarrow> length (lx_rest lx') \<le> length (lx_rest lx)"
  using length_lx_while [of is_digit "lx_advance lx"] by (auto simp: lex_fraction_def split: if_splits)

lemma lex_exponent_le: "lex_exponent r lx = (r', lx') \<Longrightarrow> length (lx_rest lx') \<le> length (lx_rest lx)"
  using length_lx_while [of is_digit "lx_advance (lx_advance lx)"] length_lx_while [of is_digit "lx_advance lx"]
  by (auto simp: lex_exponent_def Let_def split: if_splits)

lemma lex_number_shorter:
  assumes "lex_number lx = (t, lx')" and "\<not> lx_at_end lx" and "is_digit (lx_peek lx 0) \<or> lx_peek lx 0 = CHR ''.'' \<and> is_digit (lx_peek lx 1)"
  shows "length (lx_rest lx') < length (lx_rest lx)"
proof -
  obtain r1 l1 r2 l2 where l: "lex_fraction (lx_while is_digit lx) = (r1, l1)" "lex_exponent r1 l1 = (r2, l2)" by fastforce
  have "length (lx_rest l1) < length (lx_rest lx)"
  proof (cases "is_digit (lx_peek lx 0)")
    case True
    then show ?thesis using lx_while_first [of lx is_digit, OF assms(2) True] lex_fraction_le [OF l(1)] by linarith
  next
    case False
    then have "lx_while is_digit lx = lx" by (simp add: lx_while.simps [of _ lx])
    then have "l1 = lx_while is_digit (lx_advance lx)" using l(1) assms(3) False by (simp add: lex_fraction_def)
    then show ?thesis using length_lx_while [of is_digit "lx_advance lx"] assms(2) by (cases "lx_rest lx") (auto simp: lx_at_end_def)
  qed
  moreover have "length (lx_rest l2) \<le> length (lx_rest l1)" by (rule lex_exponent_le [OF l(2)])
  moreover have "length (lx_rest lx') \<le> length (lx_rest l2)"
    using assms(1) length_lx_while [of is_ident_continue l2] by (auto simp: lex_number_def l Let_def split: if_splits)
  ultimately show ?thesis by linarith
qed

lemma ident_start_continue: "is_ident_start c \<Longrightarrow> is_ident_continue c"
  by (auto simp: is_ident_start_def is_ident_continue_def)

lemma lex_token_shorter:
  assumes "lex_token src lx k = (t, lx', k')" and "\<not> lx_at_end lx"
  shows "length (lx_rest lx') < length (lx_rest lx)"
proof -
  let ?c = "lx_peek lx 0"
  consider "is_digit ?c \<or> ?c = CHR ''.'' \<and> is_digit (lx_peek lx 1)"
    | "\<not> (is_digit ?c \<or> ?c = CHR ''.'' \<and> is_digit (lx_peek lx 1))" "is_ident_start ?c"
    | "\<not> (is_digit ?c \<or> ?c = CHR ''.'' \<and> is_digit (lx_peek lx 1))" "\<not> is_ident_start ?c" by blast
  then show ?thesis
  proof cases
    case 1
    then show ?thesis using assms lex_number_shorter [of lx t lx'] by (auto simp: lex_token_def Let_def split: prod.splits)
  next
    case 2
    then show ?thesis using assms lx_while_first [of lx is_ident_continue, OF assms(2)] ident_start_continue
      by (auto simp: lex_token_def lex_identifier_def Let_def)
  next
    case 3
    have "length (lx_rest (lx_advance lx)) < length (lx_rest lx)" using assms(2) by (cases "lx_rest lx") (auto simp: lx_at_end_def)
    then show ?thesis using assms 3 lex_string_shorter [of src lx k t lx' k']
      by (auto simp: lex_token_def lex_punctuation_def Let_def split: if_splits)
  qed
qed

lemma length_skip_trivia: "length (lx_rest (skip_trivia lx)) \<le> length (lx_rest lx)"
proof (induction lx rule: skip_trivia.induct)
  case (1 lx)
  then show ?case
    using length_lx_while [of "\<lambda>c. c \<noteq> CHR 0x0A" lx] unfolding skip_trivia.simps [of lx] Let_def skip_line_def
    by (auto intro: order_trans)
qed

text \<open>The main loop. The flag of a token is the one before it was scanned.\<close>

function tokenise_from :: "source \<Rightarrow> lexer \<Rightarrow> diagnostic_sink \<Rightarrow> token list \<times> diagnostic_sink" where
  "tokenise_from src lx k =
     (let lx = skip_trivia lx; first = lx_at_line_start lx; lx = lx\<lparr>lx_at_line_start := False\<rparr> in
      if lx_at_end lx then ([(new_token TkEnd [] (lx_here lx))\<lparr>tk_first := first\<rparr>], k)
      else
        let (t, lx', k) = lex_token src lx k; (ts, k) = tokenise_from src lx' k
        in (t\<lparr>tk_first := first\<rparr> # ts, k))"
  by pat_completeness auto
termination
proof (relation "measure (\<lambda>(src, lx, k). length (lx_rest lx))")
  fix src lx0 k lx first lx1 p t q lx' k'
  assume a: "lx = skip_trivia lx0" "lx1 = lx\<lparr>lx_at_line_start := False\<rparr>" "\<not> lx_at_end lx1"
    "p = lex_token src lx1 k" "(t, q) = p" "(lx', k') = q"
  have "length (lx_rest lx') < length (lx_rest lx1)" using lex_token_shorter [of src lx1 k t lx' k'] a by auto
  also have "\<dots> \<le> length (lx_rest lx0)" using length_skip_trivia [of lx0] a by simp
  finally show "((src, lx', k'), src, lx0, k) \<in> measure (\<lambda>(src, lx, k). length (lx_rest lx))" by simp
qed simp

declare tokenise_from.simps [simp del]

definition tokenise :: "source \<Rightarrow> diagnostic_sink \<Rightarrow> token list \<times> diagnostic_sink" where
  "tokenise src k = tokenise_from src (new_lexer src) k"

end
