(* ===== verification/DbcParser.thy ===== *)
theory DbcParser
  imports Lexer Database
begin

text \<open>
  \<open>dbc/Parser\<close>: the recursive descent parser of the DBC format. The parser's state holds the tokens not read
  yet, without the final \<open>End\<close> token, which is kept apart because the code never moves past it. A pointer to
  a message, signal or node of the database is its index. A conversion of a double to \<open>std::int64_t\<close> out of
  its range is undefined in C++: it sets \<open>ps_undefined\<close> and gives the value of the x86-64 instruction.
\<close>

subsection \<open>State and tokens\<close>

record parser =
  ps_source :: source
  ps_tokens :: "token list"
  ps_end :: token
  ps_sink :: diagnostic_sink
  ps_db :: database
  ps_undefined :: bool

definition kDbcExtendedFlag :: u32 where "kDbcExtendedFlag = 0x80000000"

definition ps_token :: "parser \<Rightarrow> nat \<Rightarrow> token" where
  "ps_token s ahead = (if ahead < length (ps_tokens s) then ps_tokens s ! ahead else (ps_end s)\<lparr>tk_kind := TkEnd\<rparr>)"

abbreviation ps_current :: "parser \<Rightarrow> token" where
  "ps_current s \<equiv> ps_token s 0"

definition ps_advance :: "parser \<Rightarrow> parser" where
  "ps_advance s = s\<lparr>ps_tokens := tl (ps_tokens s)\<rparr>"

definition ps_at_end :: "parser \<Rightarrow> bool" where "ps_at_end s \<longleftrightarrow> tk_kind (ps_current s) = TkEnd"

definition ps_match :: "token_kind \<Rightarrow> parser \<Rightarrow> bool \<times> parser" where
  "ps_match k s = (if tk_kind (ps_current s) = k then (True, ps_advance s) else (False, s))"

abbreviation ps_skip :: "token_kind \<Rightarrow> parser \<Rightarrow> parser" where
  "ps_skip k s \<equiv> snd (ps_match k s)"

definition report :: "severity \<Rightarrow> error_code \<Rightarrow> token \<Rightarrow> string \<Rightarrow> string \<Rightarrow> parser \<Rightarrow> parser" where
  "report sev code t message note s =
     s\<lparr>ps_sink := sink_add (ps_sink s)
        \<lparr>dg_severity = sev, dg_code = code, dg_where = tk_where t, dg_message = message,
         dg_token = (if tk_kind t = TkEnd then ''<end of file>'' else tk_text t),
         dg_source_line = source_line (ps_source s) (loc_line (tk_where t)), dg_note = note\<rparr>\<rparr>"

definition error_at :: "error_code \<Rightarrow> token \<Rightarrow> string \<Rightarrow> parser \<Rightarrow> parser" where
  "error_at code t message s = report SevError code t message [] s"

definition warn_at :: "error_code \<Rightarrow> token \<Rightarrow> string \<Rightarrow> string \<Rightarrow> parser \<Rightarrow> parser" where
  "warn_at code t message note s = report SevWarning code t message note s"

text \<open>\<open>expect\<close>; no caller uses its result.\<close>

definition expect :: "token_kind \<Rightarrow> string \<Rightarrow> parser \<Rightarrow> parser" where
  "expect k what s =
     (if tk_kind (ps_current s) = k then ps_advance s
      else error_at ParseUnexpectedToken (ps_current s)
             (''expected '' @ kind_text k @ '' '' @ what @ '', found '' @ kind_text (tk_kind (ps_current s))) s)"

definition kWords :: "string list" where
  "kWords = [''VERSION'', ''NS_'', ''BS_'', ''BU_'', ''BO_'', ''CM_'', ''BA_DEF_'', ''BA_DEF_DEF_'', ''BA_'', ''VAL_'', ''VAL_TABLE_'',
     ''SIG_VALTYPE_'', ''SG_MUL_VAL_'', ''BO_TX_BU_'', ''EV_'', ''BA_DEF_REL_'', ''BA_REL_'', ''BA_DEF_DEF_REL_'', ''SIG_GROUP_'',
     ''SGTYPE_'', ''ENVVAR_DATA_'', ''BU_SG_REL_'', ''BU_BO_REL_'', ''BU_EV_REL_'', ''CAT_DEF_'', ''CAT_'', ''FILTER'', ''SIG_TYPE_REF_'']"

definition is_top_level_keyword :: "string \<Rightarrow> bool" where
  "is_top_level_keyword w \<longleftrightarrow> w \<in> set kWords"

lemma ps_tokens_advance [simp]: "ps_tokens (ps_advance s) = tl (ps_tokens s)"
  by (simp add: ps_advance_def)

lemma ps_kind_end [simp]: "ps_tokens s = [] \<Longrightarrow> tk_kind (ps_current s) = TkEnd"
  by (simp add: ps_token_def)

lemma advance_shorter: "tk_kind (ps_current s) \<noteq> TkEnd \<Longrightarrow> length (ps_tokens (ps_advance s)) < length (ps_tokens s)"
  by (cases "ps_tokens s") auto

lemma length_ps_match: "length (ps_tokens (snd (ps_match k s))) \<le> length (ps_tokens s)"
  by (simp add: ps_match_def)

function resynchronise :: "parser \<Rightarrow> parser" where
  "resynchronise s =
     (if ps_at_end s then s
      else if tk_kind (ps_current s) = TkSemicolon then ps_advance s
      else if tk_first (ps_current s) \<and> tk_kind (ps_current s) = TkIdentifier \<and> is_top_level_keyword (tk_text (ps_current s)) then s
      else resynchronise (ps_advance s))"
  by pat_completeness auto
termination
  by (relation "measure (\<lambda>s. length (ps_tokens s))") (auto simp: ps_at_end_def simp del: ps_tokens_advance intro: advance_shorter)

declare resynchronise.simps [simp del]

subsection \<open>Operands\<close>

definition parse_number :: "parser \<Rightarrow> double option \<times> parser" where
  "parse_number s =
     (let minus = (tk_kind (ps_current s) = TkMinus);
          sign = (if minus then d_neg done_value else done_value);
          s = (if minus then ps_advance s else ps_skip TkPlus s)
      in if tk_kind (ps_current s) \<noteq> TkInteger \<and> tk_kind (ps_current s) \<noteq> TkReal
         then (None, error_at ParseBadNumber (ps_current s) ''expected a number'' s)
         else (Some (d_mul sign (tk_real (ps_current s))), ps_advance s))"

definition parse_unsigned :: "parser \<Rightarrow> u64 option \<times> parser" where
  "parse_unsigned s =
     (if tk_kind (ps_current s) \<noteq> TkInteger
      then (None, error_at ParseBadNumber (ps_current s) ''expected a non-negative integer'' s)
      else (Some (tk_integer (ps_current s)), ps_advance s))"

definition parse_text :: "parser \<Rightarrow> string option \<times> parser" where
  "parse_text s =
     (if tk_kind (ps_current s) \<noteq> TkString
      then (None, error_at ParseUnexpectedToken (ps_current s) ''expected a quoted string'' s)
      else (Some (tk_value (ps_current s)), ps_advance s))"

definition parse_name :: "parser \<Rightarrow> string option \<times> parser" where
  "parse_name s =
     (if tk_kind (ps_current s) \<noteq> TkIdentifier
      then (None, error_at ParseUnexpectedToken (ps_current s) ''expected a name'' s)
      else (Some (tk_text (ps_current s)), ps_advance s))"

function parse_name_list :: "parser \<Rightarrow> string list \<times> parser" where
  "parse_name_list s =
     (if tk_kind (ps_current s) = TkIdentifier then
        let n = tk_text (ps_current s); (comma, s) = ps_match TkComma (ps_advance s);
            (ns, s) = (if comma then parse_name_list s else ([], s))
        in (if n \<noteq> kNoNode then n # ns else ns, s)
      else ([], s))"
  by pat_completeness auto
termination
proof (relation "measure (\<lambda>s. length (ps_tokens s))")
  fix s n p comma s'
  assume "tk_kind (ps_current s) = TkIdentifier" "p = ps_match TkComma (ps_advance s)" "(comma, s') = p"
  then show "(s', s) \<in> measure (\<lambda>s. length (ps_tokens s))"
    using length_ps_match [of TkComma "ps_advance s"] advance_shorter [of s] by (metis in_measure le_less_trans snd_conv token_kind.distinct(1))
qed simp

declare parse_name_list.simps [simp del]

text \<open>The early return on a missing operand: \<open>if (!parse_x(out)) { resynchronise(); return; }\<close>.\<close>

definition need :: "'a option \<times> parser \<Rightarrow> (parser \<Rightarrow> 'b) \<Rightarrow> ('a \<Rightarrow> parser \<Rightarrow> 'b) \<Rightarrow> 'b" where
  "need r bail k = (case fst r of None \<Rightarrow> bail (snd r) | Some x \<Rightarrow> k x (snd r))"

lemma need_cong [fundef_cong]:
  "r = r' \<Longrightarrow> (\<And>s. r' = (None, s) \<Longrightarrow> bail s = bail' s) \<Longrightarrow>
   (\<And>x s. r' = (Some x, s) \<Longrightarrow> k x s = k' x s) \<Longrightarrow> need r bail k = need r' bail' k'"
  by (cases r') (auto simp: need_def split: option.splits)

definition parse_message_id :: "u64 \<Rightarrow> token \<Rightarrow> parser \<Rightarrow> can_id \<times> parser" where
  "parse_message_id raw t s =
     (let pk = ucast raw :: u32; ext = (pk AND kDbcExtendedFlag \<noteq> 0); v = pk AND NOT kDbcExtendedFlag in
      case (if ext then extended_id v else standard_id v) of
        Inr i \<Rightarrow> (i, s)
      | Inl e \<Rightarrow>
          if \<not> ext \<and> v \<le> kExtendedIdMax
          then (make_id v True,
                warn_at ParseSemantic t
                  ''identifier does not fit in 11 bits and the extended flag (bit 31) is not set; treating it as a 29-bit identifier''
                  ''some exporters omit the 0x80000000 flag that Vector tools set'' s)
          else (CanId 0, error_at FrameBadIdentifier t ''message identifier is out of range for both frame formats'' s))"

definition cast_i64 :: "double \<Rightarrow> parser \<Rightarrow> int \<times> parser" where
  "cast_i64 v s =
     (case d_trunc v of
        Some z \<Rightarrow> if - (2 ^ 63) \<le> z \<and> z < 2 ^ 63 then (z, s) else (- (2 ^ 63), s\<lparr>ps_undefined := True\<rparr>)
      | None \<Rightarrow> (- (2 ^ 63), s\<lparr>ps_undefined := True\<rparr>))"

subsection \<open>What the helpers keep\<close>

text \<open>A property of the parser's state that moving forward, reporting and an undefined cast keep is kept by
  every helper. The sections below are walked through with \<open>intro\<close> on these facts.\<close>

locale parser_kept =
  fixes I :: "parser \<Rightarrow> bool"
  assumes kept_advance: "I s \<Longrightarrow> I (ps_advance s)"
    and kept_report: "I s \<Longrightarrow> I (report sev code t message note s)"
    and kept_undefined: "I s \<Longrightarrow> I (s\<lparr>ps_undefined := u\<rparr>)"
begin

lemma kept_error: "I s \<Longrightarrow> I (error_at code t message s)"
  by (simp add: error_at_def kept_report)

lemma kept_warn: "I s \<Longrightarrow> I (warn_at code t message note s)"
  by (simp add: warn_at_def kept_report)

lemma kept_match: "I s \<Longrightarrow> I (snd (ps_match k s))"
  by (simp add: ps_match_def kept_advance)

lemma kept_expect: "I s \<Longrightarrow> I (expect k what s)"
  by (simp add: expect_def kept_advance kept_error)

lemma kept_resynchronise: "I s \<Longrightarrow> I (resynchronise s)"
proof (induction s rule: resynchronise.induct)
  case (1 s)
  then show ?case by (subst resynchronise.simps) (simp add: kept_advance)
qed

lemma kept_number: "I s \<Longrightarrow> I (snd (parse_number s))"
  by (simp add: parse_number_def Let_def kept_advance kept_match kept_error)

lemma kept_unsigned: "I s \<Longrightarrow> I (snd (parse_unsigned s))"
  by (simp add: parse_unsigned_def kept_advance kept_error)

lemma kept_text: "I s \<Longrightarrow> I (snd (parse_text s))"
  by (simp add: parse_text_def kept_advance kept_error)

lemma kept_name: "I s \<Longrightarrow> I (snd (parse_name s))"
  by (simp add: parse_name_def kept_advance kept_error)

lemma kept_name_list: "I s \<Longrightarrow> I (snd (parse_name_list s))"
proof (induction s rule: parse_name_list.induct)
  case (1 s)
  show ?case
  proof (cases "tk_kind (ps_current s) = TkIdentifier")
    case True
    obtain c s1 where m: "ps_match TkComma (ps_advance s) = (c, s1)" by fastforce
    have "I s1" using kept_match [OF kept_advance [OF "1.prems"], of TkComma] m by simp
    then show ?thesis using "1.IH" [OF True refl m [symmetric] refl] True
      by (auto simp: parse_name_list.simps [of s] Let_def m split: prod.splits)
  qed (simp add: parse_name_list.simps [of s] "1.prems")
qed

lemma kept_message_id: "I s \<Longrightarrow> I (snd (parse_message_id raw t s))"
  by (auto simp: parse_message_id_def Let_def kept_warn kept_error split: sum.splits)

lemma kept_cast: "I s \<Longrightarrow> I (snd (cast_i64 v s))"
  by (auto simp: cast_i64_def kept_undefined split: option.splits)

lemmas kept_intros = kept_advance kept_error kept_warn kept_match kept_expect kept_resynchronise kept_number kept_unsigned kept_text
  kept_name kept_name_list kept_message_id kept_cast

end

text \<open>Results of the shape \<open>need\<close>, \<open>if\<close>, \<open>let\<close> and \<open>case\<close>, for any postcondition \<open>Q\<close>.\<close>

lemma need_intro:
  "(fst r = None \<Longrightarrow> Q (bail (snd r))) \<Longrightarrow> (\<And>x. fst r = Some x \<Longrightarrow> Q (k x (snd r))) \<Longrightarrow> Q (need r bail k)"
  by (cases "fst r") (simp_all add: need_def)

interpretation left: parser_kept "\<lambda>s. length (ps_tokens s) \<le> n" for n
  by unfold_locales (simp_all add: report_def)

lemma tokens_kept [simp]:
  "ps_tokens (error_at code t message s) = ps_tokens s" "ps_tokens (warn_at code t message note s) = ps_tokens s"
  by (simp_all add: error_at_def warn_at_def report_def)

subsection \<open>Sections without a reference\<close>

abbreviation with_db :: "(database \<Rightarrow> database) \<Rightarrow> parser \<Rightarrow> parser" where
  "with_db f s \<equiv> s\<lparr>ps_db := f (ps_db s)\<rparr>"

definition parse_version :: "parser \<Rightarrow> parser" where
  "parse_version s =
     need (parse_text (ps_advance s)) resynchronise (\<lambda>v s. with_db (\<lambda>d. d\<lparr>db_version := v\<rparr>) s)"

function new_symbol_entries :: "parser \<Rightarrow> string list \<times> parser" where
  "new_symbol_entries s =
     (if tk_kind (ps_current s) = TkIdentifier \<and> \<not> is_word (ps_current s) ''BS_'' then
        let follow = ps_token s 1 in
        if tk_first follow \<or> tk_kind follow = TkEnd
        then let (ns, s') = new_symbol_entries (ps_advance s) in (tk_text (ps_current s) # ns, s')
        else ([], s)
      else ([], s))"
  by pat_completeness auto
termination
  by (relation "measure (\<lambda>s. length (ps_tokens s))") (auto simp del: ps_tokens_advance intro!: advance_shorter)

definition parse_new_symbols :: "parser \<Rightarrow> parser" where
  "parse_new_symbols s =
     (let s = ps_skip TkColon (ps_advance s); (symbols, s) = new_symbol_entries s
      in with_db (\<lambda>d. d\<lparr>db_new_symbols := symbols\<rparr>) s)"

definition parse_bit_timing :: "parser \<Rightarrow> parser" where
  "parse_bit_timing s =
     (let s = expect TkColon ''after BS_'' (ps_advance s);
          take_or = (\<lambda>old r. case fst r of Some v \<Rightarrow> ucast v | None \<Rightarrow> old)
      in if tk_kind (ps_current s) = TkInteger then
           let r = parse_unsigned s; baud = take_or 0 r; (colon, s) = ps_match TkColon (snd r) in
           if colon then
             let r1 = parse_unsigned s; s = expect TkComma ''between the two bit timing registers'' (snd r1); r2 = parse_unsigned s
             in with_db (\<lambda>d. d\<lparr>db_bit_timing := Some \<lparr>baudrate = baud, btr1 = take_or 0 r1, btr2 = take_or 0 r2\<rparr>\<rparr>) (snd r2)
           else with_db (\<lambda>d. d\<lparr>db_bit_timing := Some \<lparr>baudrate = baud, btr1 = 0, btr2 = 0\<rparr>\<rparr>) s
         else s)"

definition add_node :: "string \<Rightarrow> database \<Rightarrow> database" where
  "add_node n d =
     (if n \<noteq> kNoNode \<and> find_node d n = None
      then d\<lparr>db_nodes := db_nodes d @ [\<lparr>node_name = n, node_comment = [], node_attributes = []\<rparr>]\<rparr> else d)"

function node_names :: "parser \<Rightarrow> parser" where
  "node_names s =
     (if tk_kind (ps_current s) = TkIdentifier \<and> \<not> tk_first (ps_current s)
      then node_names (ps_skip TkComma (with_db (add_node (tk_text (ps_current s))) (ps_advance s)))
      else s)"
  by pat_completeness auto
termination
proof (relation "measure (\<lambda>s. length (ps_tokens s))")
  fix s assume "tk_kind (ps_current s) = TkIdentifier \<and> \<not> tk_first (ps_current s)"
  then show "(ps_skip TkComma (with_db (add_node (tk_text (ps_current s))) (ps_advance s)), s) \<in> measure (\<lambda>s. length (ps_tokens s))"
    using length_ps_match [of TkComma "with_db (add_node (tk_text (ps_current s))) (ps_advance s)"] advance_shorter [of s] by simp
qed simp

definition parse_nodes :: "parser \<Rightarrow> parser" where
  "parse_nodes s = node_names (expect TkColon ''after BU_'' (ps_advance s))"

declare new_symbol_entries.simps [simp del] node_names.simps [simp del]

text \<open>The loop of \<open>VAL_TABLE_\<close> and \<open>VAL_\<close>.\<close>

lemma parse_number_shorter:
  "tk_kind (ps_current s) \<in> {TkInteger, TkMinus} \<Longrightarrow> length (ps_tokens (snd (parse_number s))) < length (ps_tokens s)"
proof -
  assume k: "tk_kind (ps_current s) \<in> {TkInteger, TkMinus}"
  then have "length (ps_tokens (ps_advance s)) < length (ps_tokens s)" by (intro advance_shorter) auto
  then show ?thesis using k by (cases "tk_kind (ps_current s) = TkMinus") (auto simp: parse_number_def ps_match_def Let_def)
qed

function value_entries :: "parser \<Rightarrow> value_description list \<times> parser" where
  "value_entries s =
     (if tk_kind (ps_current s) = TkInteger \<or> tk_kind (ps_current s) = TkMinus then
        need (parse_number s) (\<lambda>s. ([], s)) (\<lambda>v s.
          let (z, s) = cast_i64 v s in
          need (parse_text s) (\<lambda>s. ([], s)) (\<lambda>t s. let (vs, s) = value_entries s in ((z, t) # vs, s)))
      else ([], s))"
  by pat_completeness auto
termination
proof (relation "measure (\<lambda>s. length (ps_tokens s))")
  fix s v s0 p z s1 t s2
  assume k: "tk_kind (ps_current s) = TkInteger \<or> tk_kind (ps_current s) = TkMinus" and n: "parse_number s = (Some v, s0)"
    and p: "p = cast_i64 v s0" "(z, s1) = p" and t: "parse_text s1 = (Some t, s2)"
  have "length (ps_tokens s2) \<le> length (ps_tokens s0)"
    using left.kept_text [of s1 "length (ps_tokens s0)"] left.kept_cast [of s0 "length (ps_tokens s0)" v] p t
    by (metis order_refl snd_conv)
  then show "(s2, s) \<in> measure (\<lambda>s. length (ps_tokens s))" using parse_number_shorter [of s] k n by auto
qed simp

declare value_entries.simps [simp del]

definition parse_value_table :: "parser \<Rightarrow> parser" where
  "parse_value_table s =
     need (parse_name (ps_advance s)) resynchronise (\<lambda>n s.
       let (vs, s) = value_entries s
       in with_db (\<lambda>d. d\<lparr>db_value_tables := db_value_tables d @ [\<lparr>vt_name = n, vt_values = vs\<rparr>]\<rparr>) (ps_skip TkSemicolon s))"

subsection \<open>Messages and signals\<close>

definition default_layout :: signal_layout where
  "default_layout = \<lparr>start_bit = 0, bit_length = 1, byte_order = Intel, signedness = Unsigned, value_type = Integer,
     factor = done_value, offset = dzero, minimum = dzero, maximum = dzero\<rparr>"

definition default_signal :: signal where
  "default_signal = \<lparr>sig_name = [], sig_unit = [], sig_comment = [], sig_multiplexor_name = [], sig_receivers = [], sig_mux_ranges = [],
     sig_value_descriptions = [], sig_attributes = [], sig_layout = default_layout, sig_mux_role = MuxNone, sig_mux_value = 0\<rparr>"

text \<open>The multiplexer indicator \<open>M\<close>, \<open>m<n>\<close> or \<open>m<n>M\<close>: the signal with its role, or \<open>None\<close> where the word is none.\<close>

definition mux_indicator :: "string \<Rightarrow> signal \<Rightarrow> signal option" where
  "mux_indicator ind sg =
     (if ind = ''M'' then Some (sg\<lparr>sig_mux_role := Multiplexor\<rparr>)
      else if length ind \<ge> 2 \<and> hd ind = CHR ''m'' then
        let ds = takeWhile is_digit (tl ind); r = dropWhile is_digit (tl ind);
            also_multiplexor = (r \<noteq> [] \<and> hd r = CHR ''M'')
        in if ds \<noteq> [] \<and> (r = [] \<or> also_multiplexor)
           then Some (sg\<lparr>sig_mux_role := (if also_multiplexor then MuxBoth else Multiplexed), sig_mux_value := ucast (strtoull ds)\<rparr>)
           else None
      else None)"

definition parse_indicator :: "signal \<Rightarrow> parser \<Rightarrow> signal \<times> parser" where
  "parse_indicator sg s =
     (if tk_kind (ps_current s) = TkIdentifier \<and> \<not> is_word (ps_current s) ''SG_''
      then (case mux_indicator (tk_text (ps_current s)) sg of Some g \<Rightarrow> (g, ps_advance s) | None \<Rightarrow> (sg, s))
      else (sg, s))"

definition checked_start :: "token \<Rightarrow> u64 \<Rightarrow> parser \<Rightarrow> u16 \<times> parser" where
  "checked_start t v s =
     (if v > 511 then (0, error_at CodecSignalOutOfBounds t ''start bit is beyond the largest possible payload'' s) else (ucast v, s))"

definition checked_length :: "token \<Rightarrow> u64 \<Rightarrow> parser \<Rightarrow> u8 \<times> parser" where
  "checked_length t v s =
     (if v < 1 \<or> v > 64
      then (ucast (if v < 1 then 1 else 64 :: u64), error_at CodecBadBitLength t ''signal length must be between 1 and 64 bits'' s)
      else (ucast v, s))"

definition checked_order :: "token \<Rightarrow> u64 \<Rightarrow> parser \<Rightarrow> byte_order \<times> parser" where
  "checked_order t v s =
     (if v > 1 then (Intel, error_at ParseSemantic t ''byte order must be 0 (Motorola) or 1 (Intel)'' s)
      else (if v = 1 then Intel else Motorola, s))"

definition parse_signedness :: "parser \<Rightarrow> signedness \<times> parser" where
  "parse_signedness s =
     (if tk_kind (ps_current s) = TkPlus then (Unsigned, ps_advance s)
      else if tk_kind (ps_current s) = TkMinus then (Signed, ps_advance s)
      else (Unsigned, error_at ParseUnexpectedToken (ps_current s) (''expected '' @ apostrophes ''+'' @ '' or '' @ apostrophes ''-'' @
              '' for the signal'' @ [CHR 0x27] @ ''s signedness'') s))"

text \<open>The end of \<open>parse_signal\<close>, once all operands are there.\<close>

definition finish_signal :: "message \<Rightarrow> signal \<Rightarrow> token \<Rightarrow> parser \<Rightarrow> message \<times> parser" where
  "finish_signal m sg t s =
     (let l = sig_layout sg; zero = d_eq (factor l) dzero;
          s = (if zero then warn_at CodecBadFactor t
                 (''signal '' @ apostrophes (sig_name sg) @ '' has a scale factor of zero, which makes it impossible to encode; substituting 1'')
                 ''occasionally emitted by converters for constant signals'' s else s);
          sg = (if zero then sg\<lparr>sig_layout := l\<lparr>factor := done_value\<rparr>\<rparr> else sg);
          s = (if \<not> fits (sig_layout sg) (unat (msg_dlc m)) then error_at CodecSignalOutOfBounds t
                 (''signal '' @ apostrophes (sig_name sg) @ '' extends past the end of message '' @ apostrophes (msg_name m) @
                  '', which holds '' @ dec_plain (unat (msg_dlc m)) @ '' bytes'') s else s)
      in (add_signal m sg, s))"

definition parse_signal :: "message \<Rightarrow> parser \<Rightarrow> message \<times> parser" where
  "parse_signal m s =
     (let give_up = (\<lambda>s. (m, resynchronise s)) in
      need (parse_name (ps_advance s)) give_up (\<lambda>n s.
      let (sg, s) = parse_indicator (default_signal\<lparr>sig_name := n\<rparr>) s;
          s = expect TkColon ''after the signal name'' s; start_token = ps_current s in
      need (parse_unsigned s) give_up (\<lambda>start s.
      let (st, s) = checked_start start_token start s;
          s = expect TkPipe ''between the start bit and the bit length'' s; len_token = ps_current s in
      need (parse_unsigned s) give_up (\<lambda>len s.
      let (bl, s) = checked_length len_token len s;
          s = expect TkAt ''before the byte order'' s; order_token = ps_current s in
      need (parse_unsigned s) give_up (\<lambda>order s.
      let (bo, s) = checked_order order_token order s;
          (sn, s) = parse_signedness s;
          s = expect TkLParen ''before the factor and offset'' s in
      need (parse_number s) give_up (\<lambda>fa s.
      let s = expect TkComma ''between the factor and the offset'' s in
      need (parse_number s) give_up (\<lambda>off s.
      let s = expect TkLBracket ''before the minimum and maximum'' (expect TkRParen ''after the factor and offset'' s) in
      need (parse_number s) give_up (\<lambda>mn s.
      let s = expect TkPipe ''between the minimum and the maximum'' s in
      need (parse_number s) give_up (\<lambda>mx s.
      let s = expect TkRBracket ''after the minimum and maximum'' s in
      need (parse_text s) give_up (\<lambda>u s.
      let l = \<lparr>start_bit = st, bit_length = bl, byte_order = bo, signedness = sn, value_type = Integer,
               factor = fa, offset = off, minimum = mn, maximum = mx\<rparr>;
          (rs, s) = parse_name_list s
      in finish_signal m (sg\<lparr>sig_unit := u, sig_layout := l, sig_receivers := rs\<rparr>) start_token s))))))))))"

lemma snd_Let: "snd (let x = t in f x) = (let x = t in snd (f x))"
  by (simp add: Let_def)

text \<open>What \<open>parser_kept\<close> keeps, \<open>parse_signal\<close> keeps.\<close>

context parser_kept
begin

lemma kept_need: "(\<And>s. I s \<Longrightarrow> I (snd (bail s))) \<Longrightarrow> I (snd r) \<Longrightarrow> (\<And>x s. I s \<Longrightarrow> I (snd (k x s))) \<Longrightarrow> I (snd (need r bail k))"
  by (cases "fst r") (simp_all add: need_def)

lemma kept_need_state: "(\<And>s. I s \<Longrightarrow> I (bail s)) \<Longrightarrow> I (snd r) \<Longrightarrow> (\<And>x s. I s \<Longrightarrow> I (k x s)) \<Longrightarrow> I (need r bail k)"
  by (cases "fst r") (simp_all add: need_def)

lemma kept_pair: "I (snd p) \<Longrightarrow> (\<And>x s. I s \<Longrightarrow> I (snd (k x s))) \<Longrightarrow> I (snd (case p of (x, s) \<Rightarrow> k x s))"
  by (cases p) simp

lemma kept_pair_state: "I (snd p) \<Longrightarrow> (\<And>x s. I s \<Longrightarrow> I (k x s)) \<Longrightarrow> I (case p of (x, s) \<Rightarrow> k x s)"
  by (cases p) simp

lemma kept_checked:
  "I s \<Longrightarrow> I (snd (checked_start t v s))" "I s \<Longrightarrow> I (snd (checked_length t v s))" "I s \<Longrightarrow> I (snd (checked_order t v s))"
  "I s \<Longrightarrow> I (snd (parse_signedness s))" "I s \<Longrightarrow> I (snd (parse_indicator sg s))"
  by (auto simp: checked_start_def checked_length_def checked_order_def parse_signedness_def parse_indicator_def
      intro: kept_error kept_advance split: option.splits)

lemma kept_finish_signal: "I s \<Longrightarrow> I (snd (finish_signal m sg t s))"
  by (simp add: finish_signal_def Let_def kept_error kept_warn)

lemma kept_resync_pair: "I s \<Longrightarrow> I (snd (m, resynchronise s))"
  by (simp add: kept_resynchronise)

lemma kept_parse_signal: "I (ps_advance s) \<Longrightarrow> I (snd (parse_signal m s))"
  unfolding parse_signal_def Let_def
  by (intro kept_need kept_pair kept_intros(2-) kept_checked kept_finish_signal kept_resync_pair; assumption)

end

lemma parse_signal_shorter:
  "tk_kind (ps_current s) \<noteq> TkEnd \<Longrightarrow> length (ps_tokens (snd (parse_signal m s))) < length (ps_tokens s)"
proof -
  assume "tk_kind (ps_current s) \<noteq> TkEnd"
  then have "length (ps_tokens (ps_advance s)) < length (ps_tokens s)" by (rule advance_shorter)
  moreover have "length (ps_tokens (snd (parse_signal m s))) \<le> length (ps_tokens (ps_advance s))"
    by (rule left.kept_parse_signal) (rule order_refl)
  ultimately show ?thesis by linarith
qed

function parse_signals :: "message \<Rightarrow> parser \<Rightarrow> message \<times> parser" where
  "parse_signals m s =
     (if is_word (ps_current s) ''SG_'' then (let (m, s) = parse_signal m s in parse_signals m s) else (m, s))"
  by pat_completeness auto
termination
proof (relation "measure (\<lambda>(m, s). length (ps_tokens s))")
  fix m s p m' s'
  assume "is_word (ps_current s) ''SG_''" "p = parse_signal m s" "(m', s') = p"
  then have "parse_signal m s = (m', s')" "tk_kind (ps_current s) \<noteq> TkEnd" by (simp_all add: is_word_def)
  then show "((m', s'), m, s) \<in> measure (\<lambda>(m, s). length (ps_tokens s))"
    using parse_signal_shorter [of s m] by simp
qed simp

declare parse_signals.simps [simp del]

definition checked_dlc :: "token \<Rightarrow> u64 \<Rightarrow> parser \<Rightarrow> u64 \<times> parser" where
  "checked_dlc t dlc s =
     (if dlc > 64 then (64, error_at FrameBadDlc t ''message length exceeds the 64 bytes a CAN FD frame can carry'' s) else (dlc, s))"

definition parse_transmitter :: "parser \<Rightarrow> string \<times> parser" where
  "parse_transmitter s =
     (if tk_kind (ps_current s) = TkIdentifier
      then (if tk_text (ps_current s) = kNoNode then [] else tk_text (ps_current s), ps_advance s)
      else ([], warn_at ParseSemantic (ps_current s) ''message has no transmitting node''
                  ''the grammar requires one; Vector writes Vector__XXX when there is none'' s))"

definition parse_message :: "parser \<Rightarrow> parser" where
  "parse_message s =
     (let s = ps_advance s; id_token = ps_current s in
      need (parse_unsigned s) resynchronise (\<lambda>raw s.
      let (i, s) = parse_message_id raw id_token s in
      need (parse_name s) resynchronise (\<lambda>n s.
      let s = expect TkColon ''after the message name'' s; dlc_token = ps_current s in
      need (parse_unsigned s) resynchronise (\<lambda>dlc s.
      let (dlc, s) = checked_dlc dlc_token dlc s;
          m = (new_message i n (ucast dlc))\<lparr>msg_is_fd := (dlc > 8)\<rparr>;
          (tx, s) = parse_transmitter s;
          (m, s) = parse_signals (m\<lparr>msg_transmitter := tx\<rparr>) s
      in with_db (\<lambda>d. d\<lparr>db_messages := db_messages d @ [m]\<rparr>) s))))"

subsection \<open>Changing what a section refers to\<close>

definition update_message :: "nat \<Rightarrow> (message \<Rightarrow> message) \<Rightarrow> database \<Rightarrow> database" where
  "update_message i f d = d\<lparr>db_messages := (db_messages d)[i := f (db_messages d ! i)]\<rparr>"

definition update_signal :: "nat \<times> nat \<Rightarrow> (signal \<Rightarrow> signal) \<Rightarrow> database \<Rightarrow> database" where
  "update_signal p f d = update_message (fst p) (\<lambda>m. m\<lparr>msg_signals := (msg_signals m)[snd p := f (msg_signals m ! snd p)]\<rparr>) d"

definition update_node :: "nat \<Rightarrow> (node \<Rightarrow> node) \<Rightarrow> database \<Rightarrow> database" where
  "update_node i f d = d\<lparr>db_nodes := (db_nodes d)[i := f (db_nodes d ! i)]\<rparr>"

text \<open>\<open>m != nullptr ? m->find_signal(name) : nullptr\<close>.\<close>

definition signal_ref :: "database \<Rightarrow> nat option \<Rightarrow> string \<Rightarrow> (nat \<times> nat) option" where
  "signal_ref d mi n =
     (case mi of None \<Rightarrow> None
      | Some i \<Rightarrow> (case find_signal (db_messages d ! i) n of None \<Rightarrow> None | Some j \<Rightarrow> Some (i, j)))"

definition parse_message_transmitters :: "parser \<Rightarrow> parser" where
  "parse_message_transmitters s =
     (let s = ps_advance s; id_token = ps_current s in
      need (parse_unsigned s) resynchronise (\<lambda>raw s.
      let s = expect TkColon ''after the message identifier'' s;
          (i, s) = parse_message_id raw id_token s;
          (txs, s) = parse_name_list s;
          s = ps_skip TkSemicolon s
      in case find_message (ps_db s) i of
           Some k \<Rightarrow> with_db (update_message k (\<lambda>m. m\<lparr>msg_additional_transmitters := txs\<rparr>)) s
         | None \<Rightarrow> warn_at ParseUndefinedReference id_token ''BO_TX_BU_ refers to a message that is not defined'' [] s))"

text \<open>The lambda \<open>finish\<close> of \<open>parse_comment\<close>: the text goes to its target, the semicolon is optional.\<close>

definition comment_text :: "(string \<Rightarrow> database \<Rightarrow> database) \<Rightarrow> parser \<Rightarrow> parser" where
  "comment_text target s =
     (case parse_text s of
        (Some text, s) \<Rightarrow> ps_skip TkSemicolon (with_db (target text) s)
      | (None, s) \<Rightarrow> ps_skip TkSemicolon s)"

definition parse_comment :: "parser \<Rightarrow> parser" where
  "parse_comment s =
     (let s = ps_advance s; kind = ps_current s; ignored = (\<lambda>text d. d) in
      if is_word kind ''BU_'' then
        need (parse_name (ps_advance s)) resynchronise (\<lambda>n s.
          case find_node (ps_db s) n of
            Some k \<Rightarrow> comment_text (\<lambda>text. update_node k (\<lambda>x. x\<lparr>node_comment := text\<rparr>)) s
          | None \<Rightarrow> comment_text ignored (warn_at ParseUndefinedReference kind
                      (''comment refers to node '' @ apostrophes n @ '', which is not declared in BU_'') [] s))
      else if is_word kind ''BO_'' then
        let s = ps_advance s; id_token = ps_current s in
        need (parse_unsigned s) resynchronise (\<lambda>raw s.
          let (i, s) = parse_message_id raw id_token s in
          case find_message (ps_db s) i of
            Some k \<Rightarrow> comment_text (\<lambda>text. update_message k (\<lambda>m. m\<lparr>msg_comment := text\<rparr>)) s
          | None \<Rightarrow> comment_text ignored (warn_at ParseUndefinedReference id_token ''comment refers to a message that is not defined'' [] s))
      else if is_word kind ''SG_'' then
        let s = ps_advance s; id_token = ps_current s in
        need (parse_unsigned s) resynchronise (\<lambda>raw s.
        need (parse_name s) resynchronise (\<lambda>n s.
          let (i, s) = parse_message_id raw id_token s in
          case signal_ref (ps_db s) (find_message (ps_db s) i) n of
            Some p \<Rightarrow> comment_text (\<lambda>text. update_signal p (\<lambda>g. g\<lparr>sig_comment := text\<rparr>)) s
          | None \<Rightarrow> comment_text ignored (warn_at ParseUndefinedReference id_token
                      (''comment refers to signal '' @ apostrophes n @ '', which is not defined'') [] s)))
      else if is_word kind ''EV_'' then comment_text ignored (snd (parse_name (ps_advance s)))
      else comment_text (\<lambda>text d. d\<lparr>db_comment := text\<rparr>) s)"

definition skip_unsupported_section :: "string \<Rightarrow> string \<Rightarrow> parser \<Rightarrow> parser" where
  "skip_unsupported_section keyword why s =
     resynchronise (ps_advance (warn_at Unsupported (ps_current s) (''skipping unsupported section '' @ keyword)
       (why @ ''; the statement is discarded, so it will not survive a rewrite'') s))"

subsection \<open>Attributes\<close>

text \<open>\<open>std::to_string\<close> of a double: \<open>%f\<close>, six decimals of the exact value, ties to even.\<close>

fun fixed_six :: "double \<Rightarrow> string" where
  "fixed_six (DFin sg m e) =
     (let q = (if e \<ge> 0 then m * 2 ^ nat e * 10 ^ 6 else half_even (m * 10 ^ 6) (2 ^ nat (- e)))
      in (if sg then ''-'' else []) @ dec_plain (q div 10 ^ 6) @ ''.'' @ dec_fixed 6 (q mod 10 ^ 6))"
| "fixed_six (DInf sg) = (if sg then ''-inf'' else ''inf'')"
| "fixed_six DNaN = ''nan''"

text \<open>The order of \<open>std::string\<close>, and \<open>operator[]\<close> with an assignment on a \<open>std::map\<close>.\<close>

fun string_less :: "string \<Rightarrow> string \<Rightarrow> bool" where
  "string_less [] [] = False"
| "string_less [] (d # ds) = True"
| "string_less (c # cs) [] = False"
| "string_less (c # cs) (d # ds) = (if c = d then string_less cs ds else (of_char c :: nat) < of_char d)"

fun map_assign :: "string \<Rightarrow> attribute_value \<Rightarrow> attribute_map \<Rightarrow> attribute_map" where
  "map_assign k v [] = [(k, v)]"
| "map_assign k v ((l, w) # rest) =
     (if k = l then (k, v) # rest else if string_less k l then (k, v) # (l, w) # rest else (l, w) # map_assign k v rest)"

function enum_entries :: "parser \<Rightarrow> string list \<times> parser" where
  "enum_entries s =
     (if tk_kind (ps_current s) = TkString then
        let t = tk_value (ps_current s); (comma, s) = ps_match TkComma (ps_advance s);
            (ts, s) = (if comma then enum_entries s else ([], s))
        in (t # ts, s)
      else ([], s))"
  by pat_completeness auto
termination
proof (relation "measure (\<lambda>s. length (ps_tokens s))")
  fix s t p comma s'
  assume "tk_kind (ps_current s) = TkString" "p = ps_match TkComma (ps_advance s)" "(comma, s') = p"
  then show "(s', s) \<in> measure (\<lambda>s. length (ps_tokens s))"
    using length_ps_match [of TkComma "ps_advance s"] advance_shorter [of s] by (metis in_measure le_less_trans snd_conv token_kind.distinct(7))
qed simp

declare enum_entries.simps [simp del]

definition object_keyword :: "bool \<Rightarrow> parser \<Rightarrow> attribute_object \<times> parser" where
  "object_keyword relation s =
     (if tk_kind (ps_current s) = TkIdentifier then
        let w = tk_text (ps_current s) in
        if w = ''BU_'' then (ObjNode, ps_advance s)
        else if w = ''BO_'' then (ObjMessage, ps_advance s)
        else if w = ''SG_'' then (ObjSignal, ps_advance s)
        else if w = ''EV_'' then (ObjEnvVar, ps_advance s)
        else if relation then (ObjNode, ps_advance s)
        else (ObjDatabase, s)
      else (ObjDatabase, s))"

definition new_definition :: "string \<Rightarrow> attribute_object \<Rightarrow> attribute_type \<Rightarrow> attribute_definition" where
  "new_definition n obj ty = \<lparr>ad_name = n, ad_object = obj, ad_type = ty, ad_minimum = dzero, ad_maximum = dzero, ad_enum_values = [],
     ad_default_value = new_attribute_value, ad_has_default = False\<rparr>"

text \<open>The end of \<open>parse_attribute_definition\<close>: the first definition of a name is kept.\<close>

definition finish_definition :: "token \<Rightarrow> attribute_definition \<Rightarrow> parser \<Rightarrow> parser" where
  "finish_definition keyword def s =
     (let s = ps_skip TkSemicolon s in
      if find_attribute_definition (ps_db s) (ad_name def) \<noteq> None
      then warn_at ParseDuplicateDefinition keyword
             (''attribute '' @ apostrophes (ad_name def) @ '' is defined more than once; the first definition is kept'') [] s
      else with_db (\<lambda>d. d\<lparr>db_attribute_definitions := db_attribute_definitions d @ [def]\<rparr>) s)"

definition parse_range :: "token \<Rightarrow> attribute_definition \<Rightarrow> parser \<Rightarrow> parser" where
  "parse_range keyword def s =
     need (parse_number s) resynchronise (\<lambda>lo s. need (parse_number s) resynchronise (\<lambda>hi s.
       finish_definition keyword (def\<lparr>ad_minimum := lo, ad_maximum := hi\<rparr>) s))"

definition parse_attribute_definition :: "bool \<Rightarrow> parser \<Rightarrow> parser" where
  "parse_attribute_definition relation s =
     (let keyword = ps_current s; (obj, s) = object_keyword relation (ps_advance s) in
      need (parse_text s) resynchronise (\<lambda>n s.
      if tk_kind (ps_current s) \<noteq> TkIdentifier
      then resynchronise (error_at ParseUnexpectedToken (ps_current s) ''expected an attribute type: INT, HEX, FLOAT, STRING or ENUM'' s)
      else
        let ty = tk_text (ps_current s); s = ps_advance s in
        if ty = ''INT'' then parse_range keyword (new_definition n obj AttrInt) s
        else if ty = ''HEX'' then parse_range keyword (new_definition n obj AttrHex) s
        else if ty = ''FLOAT'' then parse_range keyword (new_definition n obj AttrFloat) s
        else if ty = ''STRING'' then finish_definition keyword (new_definition n obj AttrString) s
        else if ty = ''ENUM'' then
          let (vs, s) = enum_entries s in finish_definition keyword ((new_definition n obj AttrEnum)\<lparr>ad_enum_values := vs\<rparr>) s
        else resynchronise (error_at ParseSemantic keyword (''unknown attribute type '' @ apostrophes ty) s)))"

definition parse_attribute_literal :: "attribute_definition option \<Rightarrow> parser \<Rightarrow> attribute_value \<times> parser" where
  "parse_attribute_literal def s =
     (if tk_kind (ps_current s) = TkString then
        let text = tk_value (ps_current s); s = ps_advance s in
        case def of
          Some d \<Rightarrow>
            if ad_type d = AttrEnum
            then (attr_enumeration (case first_index (\<lambda>x. x = text) (ad_enum_values d) of None \<Rightarrow> -1 | Some i \<Rightarrow> int i) text, s)
            else (attr_string text, s)
        | None \<Rightarrow> (attr_string text, s)
      else
        case parse_number s of
          (None, s) \<Rightarrow> (new_attribute_value, s)
        | (Some v, s) \<Rightarrow>
            (case def of
               None \<Rightarrow> (attr_floating v, s)
             | Some d \<Rightarrow>
                 (case ad_type d of
                    AttrInt \<Rightarrow> let (z, s) = cast_i64 v s in (attr_integer z False, s)
                  | AttrHex \<Rightarrow> let (z, s) = cast_i64 v s in (attr_integer z True, s)
                  | AttrFloat \<Rightarrow> (attr_floating v, s)
                  | AttrEnum \<Rightarrow>
                      let (z, s) = cast_i64 v s
                      in (attr_enumeration z (if 0 \<le> z \<and> nat z < length (ad_enum_values d) then ad_enum_values d ! nat z else []), s)
                  | AttrString \<Rightarrow> (attr_string (fixed_six v), s))))"

definition definition_named :: "database \<Rightarrow> string \<Rightarrow> attribute_definition option" where
  "definition_named d n = map_option (\<lambda>i. db_attribute_definitions d ! i) (find_attribute_definition d n)"

definition set_default :: "string \<Rightarrow> attribute_value \<Rightarrow> database \<Rightarrow> database" where
  "set_default n v d =
     (case first_index (\<lambda>x. ad_name x = n) (db_attribute_definitions d) of
        None \<Rightarrow> d
      | Some i \<Rightarrow> d\<lparr>db_attribute_definitions :=
          (db_attribute_definitions d)[i := (db_attribute_definitions d ! i)\<lparr>ad_default_value := v, ad_has_default := True\<rparr>]\<rparr>)"

definition parse_attribute_default :: "bool \<Rightarrow> parser \<Rightarrow> parser" where
  "parse_attribute_default relation s =
     need (parse_text (ps_advance s)) resynchronise (\<lambda>n s.
       let def = definition_named (ps_db s) n;
           s = (if def = None then warn_at ParseUndefinedReference (ps_current s)
                  (''default given for attribute '' @ apostrophes n @ '', which has no BA_DEF_'') [] s else s);
           (v, s) = parse_attribute_literal def s
       in with_db (set_default n v) (ps_skip TkSemicolon s))"

text \<open>The target of an assignment: the object the statement names and the three pointers of the parser.\<close>

record attribute_target =
  at_object :: attribute_object
  at_message :: "nat option"
  at_signal :: "(nat \<times> nat) option"
  at_node :: "nat option"

definition object_text :: "attribute_object \<Rightarrow> string" where
  "object_text obj = (case obj of ObjDatabase \<Rightarrow> ''database'' | ObjNode \<Rightarrow> ''node'' | ObjMessage \<Rightarrow> ''message'' | ObjSignal \<Rightarrow> ''signal''
     | ObjEnvVar \<Rightarrow> ''environment variable'')"

definition assign_attribute :: "string \<Rightarrow> attribute_value \<Rightarrow> attribute_target \<Rightarrow> token \<Rightarrow> parser \<Rightarrow> parser" where
  "assign_attribute n v target t s =
     (let undefined_target = warn_at ParseUndefinedReference t
            (''attribute '' @ apostrophes n @ '' is assigned to a '' @ object_text (at_object target) @ '' that is not defined'') [] s
      in case at_object target of
           ObjDatabase \<Rightarrow> with_db (\<lambda>d. d\<lparr>db_attributes := map_assign n v (db_attributes d)\<rparr>) s
         | ObjNode \<Rightarrow>
             (case at_node target of
                Some k \<Rightarrow> with_db (update_node k (\<lambda>x. x\<lparr>node_attributes := map_assign n v (node_attributes x)\<rparr>)) s
              | None \<Rightarrow> undefined_target)
         | ObjMessage \<Rightarrow>
             (case at_message target of
                Some k \<Rightarrow> with_db (update_message k (\<lambda>m. m\<lparr>msg_attributes := map_assign n v (msg_attributes m)\<rparr>)) s
              | None \<Rightarrow> undefined_target)
         | ObjSignal \<Rightarrow>
             (case at_signal target of
                Some p \<Rightarrow> with_db (update_signal p (\<lambda>g. g\<lparr>sig_attributes := map_assign n v (sig_attributes g)\<rparr>)) s
              | None \<Rightarrow> undefined_target)
         | ObjEnvVar \<Rightarrow> s)"

definition finish_attribute :: "string \<Rightarrow> attribute_definition option \<Rightarrow> token \<Rightarrow> attribute_target \<Rightarrow> parser \<Rightarrow> parser" where
  "finish_attribute n def keyword target s =
     (let (v, s) = parse_attribute_literal def s in assign_attribute n v target keyword (ps_skip TkSemicolon s))"

definition parse_attribute_value :: "bool \<Rightarrow> parser \<Rightarrow> parser" where
  "parse_attribute_value relation s =
     (let keyword = ps_current s; none = \<lparr>at_object = ObjDatabase, at_message = None, at_signal = None, at_node = None\<rparr> in
      need (parse_text (ps_advance s)) resynchronise (\<lambda>n s.
      let def = definition_named (ps_db s) n; w = tk_text (ps_current s) in
      if tk_kind (ps_current s) \<noteq> TkIdentifier then finish_attribute n def keyword none s
      else if w = ''BU_'' then
        need (parse_name (ps_advance s)) resynchronise (\<lambda>x s.
          finish_attribute n def keyword (none\<lparr>at_object := ObjNode, at_node := find_node (ps_db s) x\<rparr>) s)
      else if w = ''BO_'' then
        let s = ps_advance s; id_token = ps_current s in
        need (parse_unsigned s) resynchronise (\<lambda>raw s.
          let (i, s) = parse_message_id raw id_token s
          in finish_attribute n def keyword (none\<lparr>at_object := ObjMessage, at_message := find_message (ps_db s) i\<rparr>) s)
      else if w = ''SG_'' then
        let s = ps_advance s; id_token = ps_current s in
        need (parse_unsigned s) resynchronise (\<lambda>raw s.
        need (parse_name s) resynchronise (\<lambda>x s.
          let (i, s) = parse_message_id raw id_token s; mi = find_message (ps_db s) i
          in finish_attribute n def keyword
               (none\<lparr>at_object := ObjSignal, at_message := mi, at_signal := signal_ref (ps_db s) mi x\<rparr>) s))
      else if w = ''EV_'' then
        finish_attribute n def keyword (none\<lparr>at_object := ObjEnvVar\<rparr>) (snd (parse_name (ps_advance s)))
      else finish_attribute n def keyword none s))"

subsection \<open>Sections about signals\<close>

definition undefined_signal :: "string \<Rightarrow> token \<Rightarrow> string \<Rightarrow> parser \<Rightarrow> parser" where
  "undefined_signal keyword t n s =
     warn_at ParseUndefinedReference t (keyword @ '' refers to signal '' @ apostrophes n @ '', which is not defined'') [] s"

definition parse_value_descriptions :: "parser \<Rightarrow> parser" where
  "parse_value_descriptions s =
     (let s = ps_advance s; id_token = ps_current s in
      need (parse_unsigned s) resynchronise (\<lambda>raw s.
      need (parse_name s) resynchronise (\<lambda>n s.
      let (vs, s) = value_entries s; (i, s) = parse_message_id raw id_token (ps_skip TkSemicolon s) in
      case signal_ref (ps_db s) (find_message (ps_db s) i) n of
        None \<Rightarrow> undefined_signal ''VAL_'' id_token n s
      | Some p \<Rightarrow> with_db (update_signal p (\<lambda>g. g\<lparr>sig_value_descriptions := vs\<rparr>)) s)))"

text \<open>The checks of \<open>SIG_VALTYPE_\<close> on the layout of the signal it names.\<close>

definition set_value_type :: "nat \<times> nat \<Rightarrow> u64 \<Rightarrow> token \<Rightarrow> parser \<Rightarrow> parser" where
  "set_value_type p kind kind_token s =
     (let l = sig_layout (msg_signals (db_messages (ps_db s) ! fst p) ! snd p);
          set = (\<lambda>ty. with_db (update_signal p (\<lambda>g. g\<lparr>sig_layout := l\<lparr>value_type := ty\<rparr>\<rparr>)) s)
      in if kind = 0 then set Integer
         else if kind = 1 then
           if bit_length l \<noteq> 32 then error_at CodecBadBitLength kind_token ''a signal declared as IEEE float must be 32 bits wide'' s
           else set Float32
         else if kind = 2 then
           if bit_length l \<noteq> 64 then error_at CodecBadBitLength kind_token ''a signal declared as IEEE double must be 64 bits wide'' s
           else set Float64
         else error_at ParseSemantic kind_token ''signal value type must be 0 (integer), 1 (float) or 2 (double)'' s)"

definition parse_signal_value_type :: "parser \<Rightarrow> parser" where
  "parse_signal_value_type s =
     (let s = ps_advance s; id_token = ps_current s in
      need (parse_unsigned s) resynchronise (\<lambda>raw s.
      need (parse_name s) resynchronise (\<lambda>n s.
      let s = ps_skip TkColon s; kind_token = ps_current s in
      need (parse_unsigned s) resynchronise (\<lambda>kind s.
      let (i, s) = parse_message_id raw id_token (ps_skip TkSemicolon s) in
      case signal_ref (ps_db s) (find_message (ps_db s) i) n of
        None \<Rightarrow> undefined_signal ''SIG_VALTYPE_'' id_token n s
      | Some p \<Rightarrow> set_value_type p kind kind_token s))))"

text \<open>The loop over the ranges: one range, and whether the loop goes on.\<close>

definition add_range :: "token \<Rightarrow> u32 \<Rightarrow> u32 \<Rightarrow> parser \<Rightarrow> mux_range \<times> parser" where
  "add_range id_token low high s =
     (if high < low
      then ((high, low), warn_at ParseSemantic id_token ''multiplex range is written high to low; swapping the bounds'' [] s)
      else ((low, high), s))"

function mux_range_entries :: "token \<Rightarrow> parser \<Rightarrow> mux_range list \<times> parser" where
  "mux_range_entries id_token s =
     (if tk_kind (ps_current s) = TkInteger then
        let low = ucast (tk_integer (ps_current s)); (minus, s) = ps_match TkMinus (ps_advance s) in
        if minus \<and> tk_kind (ps_current s) \<noteq> TkInteger
        then ([], error_at ParseBadNumber (ps_current s) ''expected the upper bound of a multiplex range'' s)
        else
          let high = (if minus then ucast (tk_integer (ps_current s)) else low);
              (r, s) = add_range id_token low high (if minus then ps_advance s else s);
              (comma, s) = ps_match TkComma s;
              (rs, s) = (if comma then mux_range_entries id_token s else ([], s))
          in (r # rs, s)
      else ([], s))"
  by pat_completeness auto
termination
proof (relation "measure (\<lambda>(t, s). length (ps_tokens s))")
  fix t s low p minus s1 high q r s2 comma u s3
  assume k: "tk_kind (ps_current s) = TkInteger" and p: "p = ps_match TkMinus (ps_advance s)" "(minus, s1) = p"
    and q: "q = add_range t low high (if minus then ps_advance s1 else s1)" "(r, s2) = q" and u: "u = ps_match TkComma s2" "(comma, s3) = u"
  have "length (ps_tokens s3) \<le> length (ps_tokens s2)" using length_ps_match [of TkComma s2] u by (metis snd_conv)
  also have "\<dots> \<le> length (ps_tokens s1)" using q by (auto simp: add_range_def split: if_splits)
  also have "\<dots> \<le> length (ps_tokens (ps_advance s))" using length_ps_match [of TkMinus "ps_advance s"] p by (metis snd_conv)
  finally have "length (ps_tokens s3) < length (ps_tokens s)" using advance_shorter [of s] k by simp
  then show "((t, s3), (t, s)) \<in> measure (\<lambda>(t, s). length (ps_tokens s))" by simp
qed simp

declare mux_range_entries.simps [simp del]

definition parse_extended_multiplexing :: "parser \<Rightarrow> parser" where
  "parse_extended_multiplexing s =
     (let s = ps_advance s; id_token = ps_current s in
      need (parse_unsigned s) resynchronise (\<lambda>raw s.
      need (parse_name s) resynchronise (\<lambda>n s.
      need (parse_name s) resynchronise (\<lambda>switch s.
      let (rs, s) = mux_range_entries id_token s;
          (i, s) = parse_message_id raw id_token (ps_skip TkSemicolon s);
          mi = find_message (ps_db s) i
      in case signal_ref (ps_db s) mi n of
           None \<Rightarrow> undefined_signal ''SG_MUL_VAL_'' id_token n s
         | Some p \<Rightarrow>
             let s = (if signal_ref (ps_db s) mi switch = None
                      then warn_at ParseUndefinedReference id_token
                             (''SG_MUL_VAL_ names multiplexor '' @ apostrophes switch @ '', which is not a signal of this message'') [] s
                      else s)
             in with_db (update_signal p (\<lambda>g. g\<lparr>
                  sig_mux_role := (if sig_mux_role g = Multiplexor \<or> sig_mux_role g = MuxBoth then MuxBoth else Multiplexed),
                  sig_multiplexor_name := switch, sig_mux_ranges := rs\<rparr>)) s))))"

subsection \<open>The statements of a file\<close>

definition unsupported_words :: "string list" where
  "unsupported_words = [''SIG_GROUP_'', ''SGTYPE_'', ''ENVVAR_DATA_'', ''BU_SG_REL_'', ''BU_BO_REL_'', ''BU_EV_REL_'', ''CAT_DEF_'',
     ''CAT_'', ''FILTER'', ''SIG_TYPE_REF_'']"

definition parse_statement :: "parser \<Rightarrow> parser" where
  "parse_statement s =
     (let t = ps_current s; w = tk_text t in
      if tk_kind t \<noteq> TkIdentifier
      then resynchronise (error_at ParseUnexpectedToken t ''expected a section keyword at the start of a statement'' s)
      else if w = ''VERSION'' then parse_version s
      else if w = ''NS_'' then parse_new_symbols s
      else if w = ''BS_'' then parse_bit_timing s
      else if w = ''BU_'' then parse_nodes s
      else if w = ''VAL_TABLE_'' then parse_value_table s
      else if w = ''BO_'' then parse_message s
      else if w = ''BO_TX_BU_'' then parse_message_transmitters s
      else if w = ''CM_'' then parse_comment s
      else if w = ''BA_DEF_'' then parse_attribute_definition False s
      else if w = ''BA_DEF_REL_'' then parse_attribute_definition True s
      else if w = ''BA_DEF_DEF_'' then parse_attribute_default False s
      else if w = ''BA_DEF_DEF_REL_'' then parse_attribute_default True s
      else if w = ''BA_'' then parse_attribute_value False s
      else if w = ''BA_REL_'' then parse_attribute_value True s
      else if w = ''VAL_'' then parse_value_descriptions s
      else if w = ''SIG_VALTYPE_'' then parse_signal_value_type s
      else if w = ''SG_MUL_VAL_'' then parse_extended_multiplexing s
      else if w = ''EV_''
      then skip_unsupported_section ''EV_'' ''environment variables are preserved by neither canforge nor most CAN stacks'' s
      else if w \<in> set unsupported_words then skip_unsupported_section w ''not required for encoding or decoding'' s
      else if w = ''SG_''
      then resynchronise (error_at ParseSemantic t ''a signal definition must follow a BO_ message definition'' s)
      else resynchronise (error_at ParseUnknownKeyword t ''unknown section keyword'' s))"

subsection \<open>Every statement moves forward\<close>

text \<open>What most sections leave alone: the identifiers, lengths and layouts of the messages.\<close>

definition db_shape :: "database \<Rightarrow> (can_id \<times> u8 \<times> bool \<times> signal_layout list) list" where
  "db_shape d = map (\<lambda>m. (msg_id m, msg_dlc m, msg_is_fd m, map sig_layout (msg_signals m))) (db_messages d)"

text \<open>The invariants of whole statements: kept by the helpers, by a change that leaves the shape alone, and by
  the two sections that change it.\<close>

locale section_kept = parser_kept +
  assumes kept_shape: "I s \<Longrightarrow> db_shape d = db_shape (ps_db s) \<Longrightarrow> I (s\<lparr>ps_db := d\<rparr>)"
    and kept_message: "I (ps_advance s) \<Longrightarrow> I (parse_message s)"
    and kept_value_type: "I s \<Longrightarrow> signal_ref (ps_db s) mi n = Some p \<Longrightarrow> I (set_value_type p kind t s)"
begin

lemma kept_if: "(b \<Longrightarrow> I x) \<Longrightarrow> (\<not> b \<Longrightarrow> I y) \<Longrightarrow> I (if b then x else y)"
  by simp

lemma kept_option: "(x = None \<Longrightarrow> I a) \<Longrightarrow> (\<And>v. x = Some v \<Longrightarrow> I (f v)) \<Longrightarrow> I (case x of None \<Rightarrow> a | Some v \<Rightarrow> f v)"
  by (cases x) simp_all

lemma kept_plain:
  "I s \<Longrightarrow> I (with_db (\<lambda>d. d\<lparr>db_version := v\<rparr>) s)" "I s \<Longrightarrow> I (with_db (\<lambda>d. d\<lparr>db_new_symbols := w\<rparr>) s)"
  "I s \<Longrightarrow> I (with_db (\<lambda>d. d\<lparr>db_bit_timing := x\<rparr>) s)" "I s \<Longrightarrow> I (with_db (\<lambda>d. d\<lparr>db_comment := v\<rparr>) s)"
  "I s \<Longrightarrow> I (with_db (\<lambda>d. d\<lparr>db_value_tables := vt d\<rparr>) s)" "I s \<Longrightarrow> I (with_db (\<lambda>d. d\<lparr>db_attribute_definitions := ad d\<rparr>) s)"
  "I s \<Longrightarrow> I (with_db (\<lambda>d. d\<lparr>db_attributes := av d\<rparr>) s)" "I s \<Longrightarrow> I (with_db (\<lambda>d. d) s)"
  by (rule kept_shape; simp add: db_shape_def)+

lemma shape_node: "db_shape (update_node k f d) = db_shape d" "db_shape (add_node n d) = db_shape d"
  "db_shape (set_default n v d) = db_shape d"
  by (simp_all add: db_shape_def update_node_def add_node_def set_default_def split: option.splits)

lemma shape_message:
  "(\<And>m. msg_id (f m) = msg_id m \<and> msg_dlc (f m) = msg_dlc m \<and> msg_is_fd (f m) = msg_is_fd m \<and>
     map sig_layout (msg_signals (f m)) = map sig_layout (msg_signals m)) \<Longrightarrow> db_shape (update_message k f d) = db_shape d"
  by (cases "k < length (db_messages d)") (simp_all add: db_shape_def update_message_def map_update list_update_same_conv list_update_beyond)

lemma shape_signal: "(\<And>g. sig_layout (f g) = sig_layout g) \<Longrightarrow> db_shape (update_signal p f d) = db_shape d"
proof (unfold update_signal_def, rule shape_message)
  fix m assume f: "\<And>g. sig_layout (f g) = sig_layout g"
  show "msg_id (m\<lparr>msg_signals := (msg_signals m)[snd p := f (msg_signals m ! snd p)]\<rparr>) = msg_id m \<and>
    msg_dlc (m\<lparr>msg_signals := (msg_signals m)[snd p := f (msg_signals m ! snd p)]\<rparr>) = msg_dlc m \<and>
    msg_is_fd (m\<lparr>msg_signals := (msg_signals m)[snd p := f (msg_signals m ! snd p)]\<rparr>) = msg_is_fd m \<and>
    map sig_layout (msg_signals (m\<lparr>msg_signals := (msg_signals m)[snd p := f (msg_signals m ! snd p)]\<rparr>)) = map sig_layout (msg_signals m)"
    by (cases "snd p < length (msg_signals m)") (simp_all add: map_update f list_update_same_conv list_update_beyond)
qed

lemma kept_updates:
  "I s \<Longrightarrow> I (with_db (update_node k f) s)" "I s \<Longrightarrow> I (with_db (set_default n v) s)" "I s \<Longrightarrow> I (with_db (add_node n) s)"
  by (rule kept_shape; simp add: shape_node)+

lemma kept_update_message:
  "I s \<Longrightarrow> I (with_db (update_message k (\<lambda>m. m\<lparr>msg_additional_transmitters := x\<rparr>)) s)"
  "I s \<Longrightarrow> I (with_db (update_message k (\<lambda>m. m\<lparr>msg_comment := c\<rparr>)) s)"
  "I s \<Longrightarrow> I (with_db (update_message k (\<lambda>m. m\<lparr>msg_attributes := a m\<rparr>)) s)"
  by (rule kept_shape; simp add: shape_message)+

lemma kept_update_signal:
  "I s \<Longrightarrow> I (with_db (update_signal p (\<lambda>g. g\<lparr>sig_comment := c\<rparr>)) s)"
  "I s \<Longrightarrow> I (with_db (update_signal p (\<lambda>g. g\<lparr>sig_attributes := a g\<rparr>)) s)"
  "I s \<Longrightarrow> I (with_db (update_signal p (\<lambda>g. g\<lparr>sig_value_descriptions := vs\<rparr>)) s)"
  "I s \<Longrightarrow> I (with_db (update_signal p (\<lambda>g. g\<lparr>sig_mux_role := ro g, sig_multiplexor_name := mn, sig_mux_ranges := rs\<rparr>)) s)"
  by (rule kept_shape; simp add: shape_signal)+

lemma kept_version: "I (ps_advance s) \<Longrightarrow> I (parse_version s)"
  unfolding parse_version_def by (intro kept_need_state kept_intros(2-) kept_plain; assumption)

lemma kept_symbol_entries: "I s \<Longrightarrow> I (snd (new_symbol_entries s))"
proof (induction s rule: new_symbol_entries.induct)
  case (1 s)
  then show ?case by (subst new_symbol_entries.simps) (auto simp: Let_def kept_advance split: prod.splits)
qed

lemma kept_new_symbols: "I (ps_advance s) \<Longrightarrow> I (parse_new_symbols s)"
  unfolding parse_new_symbols_def Let_def by (intro kept_pair_state kept_symbol_entries kept_intros(2-) kept_plain; assumption)

lemma kept_bit_timing: "I (ps_advance s) \<Longrightarrow> I (parse_bit_timing s)"
  unfolding parse_bit_timing_def Let_def by (intro kept_if kept_pair_state kept_intros(2-) kept_plain; assumption)

lemma kept_node_names: "I s \<Longrightarrow> I (node_names s)"
proof (induction s rule: node_names.induct)
  case (1 s)
  then show ?case by (subst node_names.simps) (simp add: kept_match kept_updates kept_advance)
qed

lemma kept_nodes: "I (ps_advance s) \<Longrightarrow> I (parse_nodes s)"
  unfolding parse_nodes_def by (intro kept_node_names kept_expect)

lemma kept_value_entries: "I s \<Longrightarrow> I (snd (value_entries s))"
proof (induction s rule: value_entries.induct)
  case (1 s)
  show ?case
  proof (cases "tk_kind (ps_current s) = TkInteger \<or> tk_kind (ps_current s) = TkMinus")
    case True
    obtain r0 s0 where n: "parse_number s = (r0, s0)" by fastforce
    have s0: "I s0" using kept_number [OF "1.prems"] n by simp
    show ?thesis
    proof (cases r0)
      case (Some v)
      obtain z s1 where c: "cast_i64 v s0 = (z, s1)" by fastforce
      obtain r1 s2 where t: "parse_text s1 = (r1, s2)" by fastforce
      have "I s1" using kept_cast [OF s0, of v] c by simp
      then have "I s2" using kept_text [of s1] t by simp
      then show ?thesis using "1.IH" [OF True n [unfolded Some] c [symmetric] refl] t True n c Some
        by (cases r1) (auto simp: value_entries.simps [of s] need_def split: prod.splits)
    qed (use True n s0 in \<open>simp add: value_entries.simps [of s] need_def\<close>)
  qed (simp add: value_entries.simps [of s] "1.prems")
qed

lemma kept_value_table: "I (ps_advance s) \<Longrightarrow> I (parse_value_table s)"
  unfolding parse_value_table_def Let_def
  by (intro kept_need_state kept_pair_state kept_value_entries kept_intros(2-) kept_plain; assumption)

lemma kept_transmitters: "I (ps_advance s) \<Longrightarrow> I (parse_message_transmitters s)"
  unfolding parse_message_transmitters_def Let_def
  by (intro kept_need_state kept_pair_state kept_option kept_update_message kept_intros(2-); assumption)

lemma kept_comment_text: "(\<And>t s. I s \<Longrightarrow> I (with_db (target t) s)) \<Longrightarrow> I s \<Longrightarrow> I (comment_text target s)"
  using kept_text [of s] by (auto simp: comment_text_def kept_match split: prod.splits option.splits)

lemma kept_comment: "I (ps_advance s) \<Longrightarrow> I (parse_comment s)"
  unfolding parse_comment_def Let_def
  by (assumption | rule kept_if kept_need_state kept_pair_state kept_option kept_comment_text kept_updates kept_update_message
      kept_update_signal kept_intros kept_plain)+

lemma kept_unsupported: "(\<And>m n. I (ps_advance (warn_at Unsupported (ps_current s) m n s))) \<Longrightarrow> I (skip_unsupported_section k w s)"
  unfolding skip_unsupported_section_def by (rule kept_resynchronise)

lemma kept_enum_entries: "I s \<Longrightarrow> I (snd (enum_entries s))"
proof (induction s rule: enum_entries.induct)
  case (1 s)
  show ?case
  proof (cases "tk_kind (ps_current s) = TkString")
    case True
    obtain c s1 where m: "ps_match TkComma (ps_advance s) = (c, s1)" by fastforce
    have "I s1" using kept_match [OF kept_advance [OF "1.prems"], of TkComma] m by simp
    then show ?thesis using "1.IH" [OF True refl m [symmetric] refl] True
      by (auto simp: enum_entries.simps [of s] Let_def m split: prod.splits)
  qed (simp add: enum_entries.simps [of s] "1.prems")
qed

lemma kept_object_keyword: "I s \<Longrightarrow> I (snd (object_keyword r s))"
  by (simp add: object_keyword_def Let_def kept_advance)

lemma kept_finish_definition: "I s \<Longrightarrow> I (finish_definition t d s)"
  unfolding finish_definition_def Let_def by (assumption | rule kept_if kept_intros kept_plain)+

lemma kept_range: "I s \<Longrightarrow> I (parse_range t d s)"
  unfolding parse_range_def by (assumption | rule kept_need_state kept_intros kept_finish_definition)+

lemma kept_definition: "I (ps_advance s) \<Longrightarrow> I (parse_attribute_definition r s)"
  unfolding parse_attribute_definition_def Let_def
  by (assumption | rule kept_if kept_pair_state kept_need_state kept_object_keyword kept_enum_entries kept_finish_definition kept_range
      kept_intros)+

lemma kept_literal: "I s \<Longrightarrow> I (snd (parse_attribute_literal def s))"
proof (cases "tk_kind (ps_current s) = TkString")
  case False
  assume s: "I s"
  obtain v s1 where n: "parse_number s = (v, s1)" by fastforce
  have "I s1" using kept_number [OF s] n by simp
  then show ?thesis using False kept_cast [of s1]
    by (auto simp: parse_attribute_literal_def n Let_def split: option.splits attribute_type.splits prod.splits) (metis snd_conv)+
qed (auto simp: parse_attribute_literal_def Let_def kept_advance split: option.splits)

lemma kept_default: "I (ps_advance s) \<Longrightarrow> I (parse_attribute_default r s)"
  unfolding parse_attribute_default_def Let_def
  by (assumption | rule kept_need_state kept_pair_state kept_literal kept_if kept_updates kept_intros)+

lemma kept_assign: "I s \<Longrightarrow> I (assign_attribute n v tg t s)"
  unfolding assign_attribute_def Let_def
  by (cases "at_object tg"; simp only: attribute_object.case)
     (assumption | rule kept_option kept_warn kept_plain kept_updates kept_update_message kept_update_signal)+

lemma kept_finish_attribute: "I s \<Longrightarrow> I (finish_attribute n def t tg s)"
  unfolding finish_attribute_def Let_def by (assumption | rule kept_pair_state kept_literal kept_assign kept_match)+

lemma kept_value: "I (ps_advance s) \<Longrightarrow> I (parse_attribute_value r s)"
  unfolding parse_attribute_value_def Let_def
  by (assumption | rule kept_need_state kept_if kept_pair_state kept_finish_attribute kept_intros)+

lemma kept_undefined_signal: "I s \<Longrightarrow> I (undefined_signal k t n s)"
  by (simp add: undefined_signal_def kept_warn)

lemma kept_descriptions: "I (ps_advance s) \<Longrightarrow> I (parse_value_descriptions s)"
  unfolding parse_value_descriptions_def Let_def
  by (assumption | rule kept_need_state kept_pair_state kept_value_entries kept_option kept_undefined_signal kept_update_signal kept_intros)+

lemma kept_signal_value_type: "I (ps_advance s) \<Longrightarrow> I (parse_signal_value_type s)"
  unfolding parse_signal_value_type_def Let_def
  by (assumption | rule kept_need_state kept_pair_state kept_option kept_undefined_signal kept_value_type kept_intros)+

lemma kept_add_range: "I s \<Longrightarrow> I (snd (add_range t lo hi s))"
  by (simp add: add_range_def kept_warn)

lemma kept_mux_ranges: "I s \<Longrightarrow> I (snd (mux_range_entries t s))"
proof (induction t s rule: mux_range_entries.induct)
  case (1 t s)
  show ?case
  proof (cases "tk_kind (ps_current s) = TkInteger")
    case True
    let ?low = "ucast (tk_integer (ps_current s)) :: u32"
    obtain minus s1 where m: "ps_match TkMinus (ps_advance s) = (minus, s1)" by fastforce
    have s1: "I s1" using kept_match [OF kept_advance [OF "1.prems"], of TkMinus] m by simp
    show ?thesis
    proof (cases "minus \<and> tk_kind (ps_current s1) \<noteq> TkInteger")
      case False
      let ?high = "if minus then ucast (tk_integer (ps_current s1)) else ?low"
      obtain r s2 where a: "add_range t ?low ?high (if minus then ps_advance s1 else s1) = (r, s2)" by fastforce
      obtain comma s3 where c: "ps_match TkComma s2 = (comma, s3)" by fastforce
      have "I s2" using kept_add_range [of "if minus then ps_advance s1 else s1" t ?low ?high] s1 a by (simp add: kept_advance split: if_splits)
      then have s3: "I s3" using kept_match [of s2 TkComma] c by simp
      have ih: "comma \<Longrightarrow> I (snd (mux_range_entries t s3))"
        by (rule "1.IH" [OF True refl m [symmetric] refl False refl a [symmetric] refl c [symmetric] refl _ s3])
      obtain rs s4 where e: "mux_range_entries t s3 = (rs, s4)" by fastforce
      show ?thesis
        unfolding mux_range_entries.simps [of t s] if_P [OF True] Let_def m prod.case if_not_P [OF False] a c e using ih s3 e by simp
    qed (use True m s1 in \<open>simp add: mux_range_entries.simps [of t s] Let_def kept_error\<close>)
  qed (simp add: mux_range_entries.simps [of t s] "1.prems")
qed

lemma kept_multiplexing: "I (ps_advance s) \<Longrightarrow> I (parse_extended_multiplexing s)"
  unfolding parse_extended_multiplexing_def Let_def
  by (assumption | rule kept_need_state kept_pair_state kept_mux_ranges kept_option kept_undefined_signal kept_update_signal kept_if kept_intros)+

text \<open>One statement: a section starts by moving over its keyword; the rest report and resynchronise.\<close>

lemma kept_statement:
  assumes "I (ps_advance s)" and "\<And>m n. I (ps_advance (warn_at Unsupported (ps_current s) m n s))"
    and "\<And>c m. \<not> (tk_kind (ps_current s) = TkIdentifier \<and> is_top_level_keyword (tk_text (ps_current s))) \<Longrightarrow>
      I (resynchronise (error_at c (ps_current s) m s))"
  shows "I (parse_statement s)"
proof (cases "tk_kind (ps_current s) = TkIdentifier \<and> is_top_level_keyword (tk_text (ps_current s))")
  case True
  note kept = kept_version kept_new_symbols kept_bit_timing kept_nodes kept_value_table kept_message kept_transmitters kept_comment
    kept_definition kept_default kept_value kept_descriptions kept_signal_value_type kept_multiplexing
  from True have k: "\<not> tk_kind (ps_current s) \<noteq> TkIdentifier" and w: "tk_text (ps_current s) \<in> set kWords"
    by (simp_all add: is_top_level_keyword_def)
  from w have "tk_text (ps_current s) \<in> set [''VERSION'', ''NS_'', ''BS_'', ''BU_'', ''VAL_TABLE_'', ''BO_'', ''BO_TX_BU_'', ''CM_'',
      ''BA_DEF_'', ''BA_DEF_REL_'', ''BA_DEF_DEF_'', ''BA_DEF_DEF_REL_'', ''BA_'', ''BA_REL_'', ''VAL_'', ''SIG_VALTYPE_'', ''SG_MUL_VAL_'', ''EV_''] \<union>
      set unsupported_words"
    by (auto simp: kWords_def unsupported_words_def)
  then show ?thesis
    unfolding parse_statement_def Let_def if_not_P [OF k]
    by (intro kept_if kept [OF assms(1)] kept_unsupported [OF assms(2)]) (auto simp del: One_nat_def)
next
  case False
  have "\<not> (tk_kind (ps_current s) = TkIdentifier \<and> tk_text (ps_current s) \<in> set kWords)" using False by (simp add: is_top_level_keyword_def)
  then show ?thesis using assms(3) [OF False]
    unfolding parse_statement_def Let_def by (auto simp: kWords_def unsupported_words_def)
qed

end

context parser_kept
begin

lemma kept_parse_signals: "I s \<Longrightarrow> I (snd (parse_signals m s))"
proof (induction m s rule: parse_signals.induct)
  case (1 m s)
  obtain m' s' where p: "parse_signal m s = (m', s')" by fastforce
  have "I s'" using kept_parse_signal [OF kept_advance [OF "1.prems"], of m] p by simp
  then show ?case using "1.IH" [OF _ p [symmetric] refl] "1.prems" by (auto simp: parse_signals.simps [of m s] p)
qed

lemma kept_message_operands: "I s \<Longrightarrow> I (snd (checked_dlc t v s))" "I s \<Longrightarrow> I (snd (parse_transmitter s))"
  by (auto simp: checked_dlc_def parse_transmitter_def kept_error kept_warn kept_advance)

lemma kept_add_message:
  assumes "\<And>m s. I s \<Longrightarrow> I (with_db (\<lambda>d. d\<lparr>db_messages := db_messages d @ [m]\<rparr>) s)" and "I (ps_advance s)"
  shows "I (parse_message s)"
  unfolding parse_message_def Let_def
  by (insert assms(2)) (assumption | rule kept_need_state kept_pair_state kept_parse_signals assms(1) kept_message_operands kept_intros)+

end

interpretation left_section: section_kept "\<lambda>s. length (ps_tokens s) \<le> n" for n
proof unfold_locales
  show "length (ps_tokens (ps_advance s)) \<le> n \<Longrightarrow> length (ps_tokens (parse_message s)) \<le> n" for s
    by (rule left.kept_add_message) simp_all
  show "length (ps_tokens s) \<le> n \<Longrightarrow> length (ps_tokens (set_value_type p kind t s)) \<le> n" for s p kind t
    by (simp add: set_value_type_def Let_def)
qed simp

lemma resynchronise_shorter:
  assumes "tk_kind (ps_current s) \<noteq> TkEnd" and "\<not> (tk_kind (ps_current s) = TkIdentifier \<and> is_top_level_keyword (tk_text (ps_current s)))"
  shows "length (ps_tokens (resynchronise s)) < length (ps_tokens s)"
proof -
  have "resynchronise s = (if tk_kind (ps_current s) = TkSemicolon then ps_advance s else resynchronise (ps_advance s))"
    using assms by (subst resynchronise.simps) (auto simp: ps_at_end_def)
  moreover have "length (ps_tokens (resynchronise (ps_advance s))) \<le> length (ps_tokens (ps_advance s))"
    by (rule left.kept_resynchronise) (rule order_refl)
  ultimately show ?thesis using advance_shorter [OF assms(1)] by auto
qed

lemma current_error [simp]: "ps_token (error_at c t m s) k = ps_token s k" "ps_token (warn_at c t m n s) k = ps_token s k"
  by (simp_all add: ps_token_def error_at_def warn_at_def report_def)

lemma statement_shorter:
  assumes "\<not> ps_at_end s"
  shows "length (ps_tokens (parse_statement s)) < length (ps_tokens s)"
proof -
  have live: "tk_kind (ps_current s) \<noteq> TkEnd" using assms by (simp add: ps_at_end_def)
  have "length (ps_tokens (parse_statement s)) \<le> length (ps_tokens s) - 1"
  proof (rule left_section.kept_statement)
    fix c m
    assume "\<not> (tk_kind (ps_current s) = TkIdentifier \<and> is_top_level_keyword (tk_text (ps_current s)))"
    then have "length (ps_tokens (resynchronise (error_at c (ps_current s) m s))) < length (ps_tokens s)"
      using resynchronise_shorter [of "error_at c (ps_current s) m s"] live by simp
    then show "length (ps_tokens (resynchronise (error_at c (ps_current s) m s))) \<le> length (ps_tokens s) - 1" by linarith
  qed simp_all
  moreover have "0 < length (ps_tokens s)" using advance_shorter [OF live] by linarith
  ultimately show ?thesis by linarith
qed

function run :: "parser \<Rightarrow> parser" where
  "run s = (if ps_at_end s then s else run (parse_statement s))"
  by pat_completeness auto
termination by (relation "measure (\<lambda>s. length (ps_tokens s))") (auto simp: statement_shorter)

declare run.simps [simp del]

subsection \<open>Entry points\<close>

record parse_result =
  pr_database :: database
  pr_diagnostics :: diagnostic_sink
  pr_had_bom :: bool
  pr_had_crlf :: bool
  pr_had_latin1 :: bool
  pr_had_no_final_newline :: bool
  pr_undefined :: bool

definition new_parser :: "source \<Rightarrow> token list \<Rightarrow> diagnostic_sink \<Rightarrow> parser" where
  "new_parser src ts k =
     \<lparr>ps_source = src, ps_tokens = butlast ts, ps_end = last ts, ps_sink = k, ps_db = empty_database, ps_undefined = False\<rparr>"

definition parse_dbc :: "string \<Rightarrow> string \<Rightarrow> parse_result" where
  "parse_dbc text filename =
     (let src = normalise text filename; (ts, k) = tokenise src empty_sink; s = run (new_parser src ts k)
      in \<lparr>pr_database = ps_db s, pr_diagnostics = ps_sink s, pr_had_bom = src_had_bom src, pr_had_crlf = src_had_crlf src,
          pr_had_latin1 = src_had_latin1 src, pr_had_no_final_newline = src_had_no_final_newline src, pr_undefined = ps_undefined s\<rparr>)"

text \<open>\<open>load\<close>, given the contents of the file.\<close>

definition load_dbc :: "string \<Rightarrow> string \<Rightarrow> database result" where
  "load_dbc text filename =
     (let r = parse_dbc text filename in
      if \<not> has_errors (pr_diagnostics r) then Inr (pr_database r)
      else case find (\<lambda>d. dg_severity d = SevError) (sk_items (pr_diagnostics r)) of
             Some d \<Rightarrow> Inl (Error (dg_code d) ''the DBC file contains errors; see the diagnostics'' (loc_line (dg_where d), loc_column (dg_where d)))
           | None \<Rightarrow> Inl (Error ParseSemantic ''the DBC file contains errors; see the diagnostics'' (0, 0)))"

end
