(* ===== verification/DbcParser_Laws.thy ===== *)
theory DbcParser_Laws
  imports DbcParser
begin

text \<open>
  What a parsed database promises, on any input: identifiers, lengths and layouts in range, and, where no error
  was reported, every signal inside its message.
\<close>

subsection \<open>Well-formed databases\<close>

definition layout_good :: "signal_layout \<Rightarrow> bool" where
  "layout_good l \<longleftrightarrow> 1 \<le> bit_length l \<and> bit_length l \<le> 64 \<and> start_bit l \<le> 511 \<and> \<not> d_eq (factor l) dzero \<and>
     (value_type l = Float32 \<longrightarrow> bit_length l = 32) \<and> (value_type l = Float64 \<longrightarrow> bit_length l = 64)"

fun shape_good :: "can_id \<times> u8 \<times> bool \<times> signal_layout list \<Rightarrow> bool" where
  "shape_good (i, dlc, fd, ls) \<longleftrightarrow> wf_id i \<and> dlc \<le> 64 \<and> fd = (dlc > 8) \<and> (\<forall>l\<in>set ls. layout_good l)"

fun shape_fits :: "can_id \<times> u8 \<times> bool \<times> signal_layout list \<Rightarrow> bool" where
  "shape_fits (i, dlc, fd, ls) \<longleftrightarrow> (\<forall>l\<in>set ls. fits l (unat dlc))"

definition parser_good :: "parser \<Rightarrow> bool" where
  "parser_good s \<longleftrightarrow> (\<forall>x\<in>set (db_shape (ps_db s)). shape_good x) \<and>
     (sk_errors (ps_sink s) = 0 \<longrightarrow> (\<forall>x\<in>set (db_shape (ps_db s)). shape_fits x))"

definition message_shape :: "message \<Rightarrow> can_id \<times> u8 \<times> bool \<times> signal_layout list" where
  "message_shape m = (msg_id m, msg_dlc m, msg_is_fd m, map sig_layout (msg_signals m))"

definition with_message :: "message \<Rightarrow> parser \<Rightarrow> bool" where
  "with_message m s \<longleftrightarrow> parser_good s \<and> shape_good (message_shape m) \<and>
     (sk_errors (ps_sink s) = 0 \<longrightarrow> shape_fits (message_shape m))"

lemma report_simps [simp]:
  "ps_db (report sev c t m n s) = ps_db s" "ps_source (report sev c t m n s) = ps_source s"
  "sk_errors (ps_sink (report sev c t m n s)) = sk_errors (ps_sink s) + (if sev = SevError then 1 else 0)"
  by (simp_all add: report_def sink_add_def Let_def)

interpretation good: parser_kept parser_good
  by unfold_locales (auto simp: parser_good_def ps_advance_def)

interpretation good_message: parser_kept "with_message m" for m
  by unfold_locales (auto simp: with_message_def good.kept_advance good.kept_report good.kept_undefined, auto simp: ps_advance_def)

text \<open>Postconditions of a signal's line.\<close>

lemma need_post:
  "(\<And>s. J s \<Longrightarrow> Q (bail s)) \<Longrightarrow> J (snd r) \<Longrightarrow> (\<And>x s. r = (Some x, s) \<Longrightarrow> J s \<Longrightarrow> Q (k x s)) \<Longrightarrow> Q (need r bail k)"
  by (cases r; cases "fst r") (simp_all add: need_def)

lemma pair_post: "J (snd p) \<Longrightarrow> (\<And>x s. p = (x, s) \<Longrightarrow> J s \<Longrightarrow> Q (k x s)) \<Longrightarrow> Q (case p of (x, s) \<Rightarrow> k x s)"
  by (cases p) simp

lemma checked_ranges:
  "checked_start t v s = (st, s') \<Longrightarrow> st \<le> 511" "checked_length t v s = (bl, s') \<Longrightarrow> 1 \<le> bl \<and> bl \<le> 64"
  "checked_dlc t v s = (d, s') \<Longrightarrow> d \<le> 64"
proof -
  have u: "v \<le> k \<Longrightarrow> unat v \<le> unat k" for v k :: u64 by (simp add: word_le_nat_alt)
  show "checked_start t v s = (st, s') \<Longrightarrow> st \<le> 511"
    using u [of v 511] by (auto simp: checked_start_def not_less word_le_nat_alt unat_ucast_small split: if_splits)
  have e: "1 \<le> v \<Longrightarrow> v \<le> 64 \<Longrightarrow> 1 \<le> (ucast v :: u8) \<and> (ucast v :: u8) \<le> 64"
    using u [of v 64] u [of 1 v] unfolding word_le_nat_alt unat_1 by (simp add: word_le_nat_alt unat_ucast_small)
  show "checked_length t v s = (bl, s') \<Longrightarrow> 1 \<le> bl \<and> bl \<le> 64"
    using e [folded linorder_not_less [of v 1]] by (auto simp: checked_length_def not_less split: if_splits)
  show "checked_dlc t v s = (d, s') \<Longrightarrow> d \<le> 64"
    by (auto simp: checked_dlc_def not_less split: if_splits)
qed

lemma shape_add_signal:
  "shape_good (message_shape (add_signal m g)) \<longleftrightarrow> shape_good (message_shape m) \<and> layout_good (sig_layout g)"
  "shape_fits (message_shape (add_signal m g)) \<longleftrightarrow> shape_fits (message_shape m) \<and> fits (sig_layout g) (unat (msg_dlc m))"
  by (auto simp: message_shape_def add_signal_def)

lemma done_value_nonzero: "\<not> d_eq done_value dzero"
  by (simp add: done_value_def signed_at_def)

text \<open>The result of parsing a signal: the message with it, and the state.\<close>

definition ends_good :: "message \<times> parser \<Rightarrow> bool" where
  "ends_good r \<longleftrightarrow> with_message (fst r) (snd r)"

lemma ends_resynchronise: "with_message m s \<Longrightarrow> ends_good (m, resynchronise s)"
  by (simp add: ends_good_def good_message.kept_resynchronise)

lemma finish_signal_good:
  assumes "with_message m s" and "start_bit (sig_layout g) \<le> 511" "1 \<le> bit_length (sig_layout g)" "bit_length (sig_layout g) \<le> 64"
    and "value_type (sig_layout g) = Integer"
  shows "ends_good (finish_signal m g t s)"
proof -
  define l where "l = (if d_eq (factor (sig_layout g)) dzero then (sig_layout g)\<lparr>factor := done_value\<rparr> else sig_layout g)"
  have lg: "layout_good l" using assms(2-5) by (auto simp: layout_good_def l_def done_value_nonzero)
  define g' where "g' = (if d_eq (factor (sig_layout g)) dzero then g\<lparr>sig_layout := (sig_layout g)\<lparr>factor := done_value\<rparr>\<rparr> else g)"
  define s1 where "s1 = (if d_eq (factor (sig_layout g)) dzero then warn_at CodecBadFactor t
      (''signal '' @ apostrophes (sig_name g) @ '' has a scale factor of zero, which makes it impossible to encode; substituting 1'')
      ''occasionally emitted by converters for constant signals'' s else s)"
  have l: "sig_layout g' = l" and s1: "with_message m s1"
    using assms(1) by (simp_all add: g'_def l_def s1_def good_message.kept_warn)
  have f: "finish_signal m g t s =
      (add_signal m g', if \<not> fits (sig_layout g') (unat (msg_dlc m)) then error_at CodecSignalOutOfBounds t
         (''signal '' @ apostrophes (sig_name g') @ '' extends past the end of message '' @ apostrophes (msg_name m) @
          '', which holds '' @ dec_plain (unat (msg_dlc m)) @ '' bytes'') s1 else s1)"
    unfolding finish_signal_def Let_def g'_def s1_def ..
  show ?thesis
  proof (cases "fits l (unat (msg_dlc m))")
    case True
    then show ?thesis using lg s1 unfolding f by (simp add: l ends_good_def with_message_def shape_add_signal)
  next
    case False
    have "with_message m (error_at c t x s1)" for c x using good_message.kept_error [OF s1] .
    moreover have "sk_errors (ps_sink (error_at c t x s1)) \<noteq> 0" for c x by (simp add: error_at_def)
    ultimately show ?thesis using False lg unfolding f by (simp add: l ends_good_def with_message_def shape_add_signal)
  qed
qed

lemma finish_signal_ranges:
  assumes "checked_start t1 v1 s1 = (st, s2)" and "checked_length t2 v2 s3 = (bl, s4)" and "with_message m s"
  shows "ends_good (finish_signal m (g\<lparr>sig_unit := u, sig_layout := \<lparr>start_bit = st, bit_length = bl, byte_order = bo, signedness = sn,
    value_type = Integer, factor = fa, offset = off, minimum = mn, maximum = mx\<rparr>, sig_receivers := rs\<rparr>) t s)"
  by (rule finish_signal_good [OF assms(3)]) (use checked_ranges(1) [OF assms(1)] checked_ranges(2) [OF assms(2)] in simp_all)

lemma parse_signal_good:
  assumes "with_message m (ps_advance s)"
  shows "ends_good (parse_signal m s)"
  unfolding parse_signal_def Let_def
  by (insert assms)
     (assumption | rule need_post [where J = "with_message m" and Q = ends_good] pair_post [where J = "with_message m" and Q = ends_good]
        finish_signal_ranges ends_resynchronise good_message.kept_checked good_message.kept_intros)+

lemma parse_signals_good: "with_message m s \<Longrightarrow> ends_good (parse_signals m s)"
proof (induction m s rule: parse_signals.induct)
  case (1 m s)
  obtain m' s' where p: "parse_signal m s = (m', s')" by fastforce
  have "with_message m' s'"
    using parse_signal_good [OF good_message.kept_advance [OF "1.prems"]] p by (simp add: ends_good_def)
  then show ?case using "1.IH" [OF _ p [symmetric] refl] "1.prems" by (auto simp: parse_signals.simps [of m s] p ends_good_def)
qed

lemma parse_message_id_wf: "parse_message_id raw t s = (i, s') \<Longrightarrow> wf_id i"
proof -
  have "wf_id (CanId 0)" by (simp add: wf_id_def is_extended_def kEffFlag_def kStandardIdMax_def)
  moreover have "v \<le> kExtendedIdMax \<Longrightarrow> wf_id (make_id v True)" for v
    using extended_id_wf [of v "make_id v True"] by (simp add: extended_id_def)
  ultimately show "parse_message_id raw t s = (i, s') \<Longrightarrow> ?thesis"
    by (auto simp: parse_message_id_def Let_def dest: extended_id_wf standard_id_wf split: sum.splits if_splits)
qed

lemma db_shape_add: "db_shape (d\<lparr>db_messages := db_messages d @ [m]\<rparr>) = db_shape d @ [message_shape m]"
  by (simp add: db_shape_def message_shape_def)

lemma add_message_good:
  assumes "ends_good (m, s)"
  shows "parser_good (with_db (\<lambda>d. d\<lparr>db_messages := db_messages d @ [m]\<rparr>) s)"
  using assms by (auto simp: ends_good_def with_message_def parser_good_def db_shape_add)

lemma new_message_good:
  fixes d :: u64
  assumes "parser_good s" and "wf_id i" and "d \<le> 64"
  shows "with_message ((new_message i n (ucast d))\<lparr>msg_is_fd := (d > 8), msg_transmitter := tx\<rparr>) s"
proof -
  have u: "unat (ucast d :: u8) = unat d" using assms(3) by (simp add: unat_ucast_small word_le_nat_alt)
  then show ?thesis using assms
    by (simp add: with_message_def message_shape_def new_message_def word_le_nat_alt word_less_nat_alt)
qed

lemma signals_added:
  fixes d :: u64
  assumes "parse_message_id raw t s1 = (i, s2)" and "checked_dlc t' v s3 = (d, s4)" and "parser_good s"
  shows "parser_good (case parse_signals ((new_message i n (ucast d))\<lparr>msg_is_fd := (d > 8), msg_transmitter := tx\<rparr>) s of
    (m, s) \<Rightarrow> with_db (\<lambda>db. db\<lparr>db_messages := db_messages db @ [m]\<rparr>) s)"
proof -
  obtain m s' where p: "parse_signals ((new_message i n (ucast d))\<lparr>msg_is_fd := (d > 8), msg_transmitter := tx\<rparr>) s = (m, s')" by fastforce
  have "ends_good (m, s')"
    unfolding p [symmetric]
    by (intro parse_signals_good new_message_good assms(3) parse_message_id_wf [OF assms(1)] checked_ranges(3) [OF assms(2)])
  from add_message_good [OF this] show ?thesis unfolding p by simp
qed

lemma parse_message_good:
  assumes "parser_good (ps_advance s)"
  shows "parser_good (parse_message s)"
  unfolding parse_message_def Let_def
  by (insert assms)
     (assumption | rule need_post [where J = parser_good and Q = parser_good] signals_added
        pair_post [where J = parser_good and Q = parser_good] good.kept_message_operands good.kept_intros)+

lemma first_index_Some: "first_index P xs = Some i \<Longrightarrow> i < length xs \<and> P (xs ! i)"
  by (induction xs arbitrary: i) (auto split: if_splits)

lemma signal_ref_Some:
  "signal_ref d mi n = Some p \<Longrightarrow> mi = Some (fst p) \<and> snd p < length (msg_signals (db_messages d ! fst p))"
  by (auto simp: signal_ref_def find_signal_def dest: first_index_Some split: option.splits)

text \<open>A layout changed in place: what holds of every shape and of the new layout holds afterwards.\<close>

lemma update_layout_shape:
  assumes "\<And>i dlc fd ls k. P (i, dlc, fd, ls) \<Longrightarrow> k < length ls \<Longrightarrow> P (i, dlc, fd, ls[k := g (ls ! k)])"
    and "\<forall>x\<in>set (db_shape d). P x" and "snd p < length (msg_signals (db_messages d ! fst p))"
  shows "\<forall>x\<in>set (db_shape (update_signal p (\<lambda>s. s\<lparr>sig_layout := g (sig_layout (msg_signals (db_messages d ! fst p) ! snd p))\<rparr>) d)). P x"
proof (cases "fst p < length (db_messages d)")
  case True
  let ?m = "db_messages d ! fst p"
  let ?ls = "map sig_layout (msg_signals ?m)"
  have "P (msg_id ?m, msg_dlc ?m, msg_is_fd ?m, ?ls)" using assms(2) True by (auto simp: db_shape_def)
  then have "P (msg_id ?m, msg_dlc ?m, msg_is_fd ?m, ?ls[snd p := g (?ls ! snd p)])"
    using assms(1) [of "msg_id ?m" "msg_dlc ?m" "msg_is_fd ?m" ?ls "snd p"] assms(3) by simp
  then show ?thesis using assms(2,3)
    by (auto simp: db_shape_def update_signal_def update_message_def map_update dest!: set_update_subset_insert [THEN subsetD])
next
  case False
  then show ?thesis using assms(2) by (simp add: update_signal_def update_message_def list_update_beyond db_shape_def)
qed

lemma set_value_type_good:
  assumes "parser_good s" and "signal_ref (ps_db s) mi n = Some p"
  shows "parser_good (set_value_type p kind t s)"
proof -
  let ?l = "sig_layout (msg_signals (db_messages (ps_db s) ! fst p) ! snd p)"
  note ref = signal_ref_Some [OF assms(2), THEN conjunct2]
  have upd: "parser_good (with_db (update_signal p (\<lambda>g. g\<lparr>sig_layout := ?l\<lparr>value_type := ty\<rparr>\<rparr>)) s)"
    if ty: "ty = Integer \<or> ty = Float32 \<and> bit_length ?l = 32 \<or> ty = Float64 \<and> bit_length ?l = 64" for ty
  proof -
    define g where "g l = (if l = ?l then l\<lparr>value_type := ty\<rparr> else l)" for l
    have g: "layout_good l \<Longrightarrow> layout_good (g l)" "fits (g l) n = fits l n" "?l\<lparr>value_type := ty\<rparr> = g ?l" for l n
      using ty by (auto simp: g_def layout_good_def fits_def canonical_end_def canonical_start_def)
    have a: "\<forall>x\<in>set (db_shape (update_signal p (\<lambda>s. s\<lparr>sig_layout := g ?l\<rparr>) (ps_db s))). shape_good x"
    proof (rule update_layout_shape [OF _ _ ref])
      fix i dlc fd ls k
      assume "shape_good (i, dlc, fd, ls)" "k < length ls"
      then show "shape_good (i, dlc, fd, ls[k := g (ls ! k)])"
        by (auto simp: g dest!: set_update_subset_insert [THEN subsetD])
    qed (use assms(1) in \<open>simp add: parser_good_def\<close>)
    have b: "\<forall>x\<in>set (db_shape (update_signal p (\<lambda>s. s\<lparr>sig_layout := g ?l\<rparr>) (ps_db s))). shape_fits x"
      if "sk_errors (ps_sink s) = 0"
    proof (rule update_layout_shape [OF _ _ ref])
      fix i dlc fd ls k
      assume "shape_fits (i, dlc, fd, ls)" "k < length ls"
      then show "shape_fits (i, dlc, fd, ls[k := g (ls ! k)])"
        by (auto simp: g dest!: set_update_subset_insert [THEN subsetD])
    qed (use assms(1) that in \<open>simp add: parser_good_def\<close>)
    show ?thesis unfolding g(3) using a b by (simp add: parser_good_def)
  qed
  show ?thesis
    using assms(1) upd by (auto simp: set_value_type_def Let_def good.kept_error)
qed

interpretation good_section: section_kept parser_good
proof unfold_locales
  show "parser_good s \<Longrightarrow> db_shape d = db_shape (ps_db s) \<Longrightarrow> parser_good (s\<lparr>ps_db := d\<rparr>)" for s d
    by (simp add: parser_good_def)
qed (rule parse_message_good set_value_type_good; assumption)+

context section_kept
begin

lemma kept_run: "I s \<Longrightarrow> I (run s)"
proof (induction s rule: run.induct)
  case (1 s)
  have "I (parse_statement s)"
    by (rule kept_statement) (simp_all add: "1.prems" kept_advance kept_warn kept_error kept_resynchronise)
  then show ?case using "1.IH" "1.prems" by (subst run.simps) simp
qed

end

text \<open>The counters of the sink are those of its items, from the scanner's first token to the parser's last.\<close>

interpretation counted: parser_kept "\<lambda>s. sink_counts (ps_sink s)"
  by unfold_locales (auto simp: ps_advance_def report_def Let_def diagnostics.step_inv)

interpretation counted_section: section_kept "\<lambda>s. sink_counts (ps_sink s)"
proof unfold_locales
  show "sink_counts (ps_sink (ps_advance s)) \<Longrightarrow> sink_counts (ps_sink (parse_message s))" for s
    by (rule counted.kept_add_message) simp_all
  show "sink_counts (ps_sink s) \<Longrightarrow> sink_counts (ps_sink (set_value_type p kind t s))" for p kind t s
    using counted.kept_error [of s] by (simp add: set_value_type_def Let_def)
qed simp

lemma lex_token_counts: "sink_counts k \<Longrightarrow> sink_counts (snd (snd (lex_token src lx k)))"
  by (auto simp: lex_token_def lex_string_def lex_punctuation_def lex_error_def Let_def diagnostics.step_inv split: prod.splits)

lemma tokenise_from_counts: "sink_counts k \<Longrightarrow> sink_counts (snd (tokenise_from src lx k))"
proof (induction src lx k rule: tokenise_from.induct)
  case (1 src lx k)
  let ?lx = "(skip_trivia lx)\<lparr>lx_at_line_start := False\<rparr>"
  show ?case
  proof (cases "lx_at_end ?lx")
    case False
    obtain t lx' k' where t: "lex_token src ?lx k = (t, lx', k')" by (metis prod_cases3)
    have "sink_counts (snd (tokenise_from src lx' k'))"
      using "1.IH" [OF refl refl refl False t [symmetric] refl refl] lex_token_counts [OF "1.prems", of src ?lx] t by simp
    then show ?thesis
      unfolding tokenise_from.simps [of src lx k] Let_def if_not_P [OF False] t prod.case by (simp add: case_prod_unfold)
  qed (use "1.prems" in \<open>simp add: tokenise_from.simps [of src lx k] Let_def\<close>)
qed

lemma parse_dbc_counts: "sink_counts (pr_diagnostics (parse_dbc contents filename))"
proof -
  obtain ts k where t: "tokenise (normalise contents filename) empty_sink = (ts, k)" by fastforce
  have "sink_counts k"
    using tokenise_from_counts [of empty_sink "normalise contents filename" "new_lexer (normalise contents filename)"] t
    by (simp add: tokenise_def) (simp add: sink_counts_def empty_sink_def)
  then show ?thesis
    using counted_section.kept_run [of "new_parser (normalise contents filename) ts k"] t by (simp add: parse_dbc_def new_parser_def Let_def)
qed

lemma parse_dbc_good:
  "list_all shape_good (db_shape (pr_database (parse_dbc contents filename)))"
  "\<not> has_errors (pr_diagnostics (parse_dbc contents filename)) \<Longrightarrow> list_all shape_fits (db_shape (pr_database (parse_dbc contents filename)))"
proof -
  obtain ts k where t: "tokenise (normalise contents filename) empty_sink = (ts, k)" by fastforce
  have "parser_good (run (new_parser (normalise contents filename) ts k))"
    by (rule good_section.kept_run) (simp add: parser_good_def new_parser_def empty_database_def db_shape_def)
  then show "list_all shape_good (db_shape (pr_database (parse_dbc contents filename)))"
    "\<not> has_errors (pr_diagnostics (parse_dbc contents filename)) \<Longrightarrow> list_all shape_fits (db_shape (pr_database (parse_dbc contents filename)))"
    by (simp_all add: parse_dbc_def t Let_def parser_good_def has_errors_def list_all_iff)
qed

lemma load_dbc_Inr:
  "load_dbc contents f = Inr db \<longleftrightarrow> \<not> has_errors (pr_diagnostics (parse_dbc contents f)) \<and> db = pr_database (parse_dbc contents f)"
  by (auto simp: load_dbc_def Let_def split: option.splits)

subsection \<open>A file, evaluated\<close>

definition sample_text :: string where
  "sample_text = ''BO_ 1 M: 1 N'' @ [CHR 0x0A] @ '' SG_ A : 0|8@1+ (1,0) [0|0] '' @ [CHR 0x22] @ [CHR 0x22] @ '' N'' @ [CHR 0x0A]"

definition sample_source :: source where
  "sample_source = \<lparr>src_text = sample_text, src_name = ''m.dbc'', src_line_starts = [0, 13], src_had_bom = False, src_had_crlf = False,
     src_had_latin1 = False, src_had_no_final_newline = False\<rparr>"

definition sample_token :: "token_kind \<Rightarrow> string \<Rightarrow> u32 \<Rightarrow> u32 \<Rightarrow> bool \<Rightarrow> token" where
  "sample_token k s l c first = (new_token k s \<lparr>loc_line = l, loc_column = c\<rparr>)\<lparr>tk_first := first\<rparr>"

definition sample_int :: "nat \<Rightarrow> u32 \<Rightarrow> u32 \<Rightarrow> token" where
  "sample_int n l c = (new_token TkInteger (dec_plain n) \<lparr>loc_line = l, loc_column = c\<rparr>)
     \<lparr>tk_integer := of_nat n, tk_real := of_integer (int n)\<rparr>"

definition sample_tokens :: "token list" where
  "sample_tokens = [
    sample_token TkIdentifier ''BO_'' 1 1 True, sample_int 1 1 5, sample_token TkIdentifier ''M'' 1 7 False,
    sample_token TkColon '':'' 1 8 False, sample_int 1 1 10, sample_token TkIdentifier ''N'' 1 12 False,
    sample_token TkIdentifier ''SG_'' 2 2 True, sample_token TkIdentifier ''A'' 2 6 False,
    sample_token TkColon '':'' 2 8 False, sample_int 0 2 10, sample_token TkPipe ''|'' 2 11 False, sample_int 8 2 12,
    sample_token TkAt ''@'' 2 13 False, sample_int 1 2 14, sample_token TkPlus ''+'' 2 15 False,
    sample_token TkLParen ''('' 2 17 False, sample_int 1 2 18, sample_token TkComma '','' 2 19 False, sample_int 0 2 20,
    sample_token TkRParen '')'' 2 21 False, sample_token TkLBracket ''['' 2 23 False, sample_int 0 2 24,
    sample_token TkPipe ''|'' 2 25 False, sample_int 0 2 26, sample_token TkRBracket '']'' 2 27 False,
    sample_token TkString [CHR 0x22, CHR 0x22] 2 29 False, sample_token TkIdentifier ''N'' 2 32 False,
    sample_token TkEnd '''' 3 1 True]"

lemma sample_token_fields [simp]:
  "tk_kind (sample_token k s l c f) = k" "tk_text (sample_token k s l c f) = s" "tk_first (sample_token k s l c f) = f"
  "tk_value (sample_token k s l c f) = []" "tk_kind (sample_int n l c) = TkInteger" "tk_integer (sample_int n l c) = of_nat n"
  "tk_real (sample_int n l c) = of_integer (int n)" "tk_first (sample_int n l c) = False"
  by (simp_all add: sample_token_def sample_int_def new_token_def)

lemma sample_normalised: "normalise sample_text ''m.dbc'' = sample_source"
  by code_simp

lemmas scanning = tokenise_def new_lexer_def tokenise_from.simps skip_trivia.simps lx_while.simps lx_peek_def lx_advance_def lx_at_end_def
  lx_here_def is_blank_def skip_line_def lx_slice_def digits_of_def strtoull_def lex_fraction_def lex_exponent_def lex_number_def
  lex_identifier_def string_body.simps lex_string_def punctuation_def lex_punctuation_def lex_token_def is_digit_def is_alpha_def
  is_ident_start_def is_ident_continue_def new_token_def Let_def

lemma sample_scanned: "tokenise sample_source empty_sink = (sample_tokens, empty_sink)"
proof -
  have "src_text sample_source = sample_text" by (simp add: sample_source_def)
  then show ?thesis
    by (simp add: scanning sample_text_def sample_tokens_def sample_token_def sample_int_def dec_plain.simps dec_digit_def)
qed

lemma unit_numbers:
  "of_integer 1 = done_value" "of_integer 0 = dzero" "d_mul done_value done_value = done_value" "d_mul done_value dzero = dzero"
  "d_eq done_value dzero = False"
  by (simp_all add: of_integer_def round_scaled_def round_quotient_def quotient_log2_def at_least_power_def half_even_def
      binary64_def done_value_def floor_log2.simps Let_def signed_at_def)

lemma need_weak: "r = r' \<Longrightarrow> need r b k = need r' b k"
  by simp

lemmas parsing = need_def ps_token_def ps_advance_def ps_match_def ps_at_end_def is_word_def expect_def Let_def

definition sample_layout :: signal_layout where
  "sample_layout = \<lparr>start_bit = 0, bit_length = 8, byte_order = Intel, signedness = Unsigned, value_type = Integer,
     factor = done_value, offset = dzero, minimum = dzero, maximum = dzero\<rparr>"

definition sample_parsed :: signal where
  "sample_parsed = default_signal\<lparr>sig_name := ''A'', sig_layout := sample_layout, sig_receivers := [''N'']\<rparr>"

definition sample_message :: message where
  "sample_message = (new_message (CanId 1) ''M'' 1)\<lparr>msg_transmitter := ''N'', msg_signals := [sample_parsed]\<rparr>"

definition sample_database :: database where
  "sample_database = empty_database\<lparr>db_messages := [sample_message]\<rparr>"

definition sample_start :: parser where
  "sample_start = new_parser sample_source sample_tokens empty_sink"

lemma sample_fits: "fits sample_layout (Suc 0)" "factor sample_layout = done_value"
  by (simp_all add: fits_def sample_layout_def canonical_end_def canonical_start_def)

lemma sample_id: "parse_message_id 1 t s = (CanId 1, s)"
  by (simp add: parse_message_id_def Let_def kDbcExtendedFlag_def kExtendedIdMax_def standard_id_def kStandardIdMax_def make_id_def)

lemma sample_message_parsed: "parse_message sample_start = sample_start\<lparr>ps_tokens := [], ps_db := sample_database\<rparr>"
  by (simp add: parsing sample_start_def new_parser_def sample_tokens_def parse_message_def parse_unsigned_def sample_id parse_name_def
      checked_dlc_def parse_transmitter_def parse_signals.simps kNoNode_def parse_signal_def parse_indicator_def parse_number_def
      checked_start_def checked_length_def checked_order_def parse_signedness_def parse_name_list.simps parse_text_def unit_numbers
      cong: need_weak let_weak_cong)
    (simp add: finish_signal_def sample_layout_def [symmetric] sample_fits unit_numbers parse_signals.simps parsing new_message_def
      add_signal_def sample_message_def sample_parsed_def sample_database_def empty_database_def default_signal_def)

lemma sample_loaded: "load_dbc sample_text ''m.dbc'' = Inr sample_database"
proof -
  have "\<not> ps_at_end sample_start" "parse_statement sample_start = parse_message sample_start"
    by (simp_all add: sample_start_def new_parser_def sample_tokens_def parse_statement_def parsing)
  moreover have "ps_at_end (sample_start\<lparr>ps_tokens := [], ps_db := sample_database\<rparr>)" by (simp add: ps_at_end_def)
  ultimately have "run sample_start = sample_start\<lparr>ps_tokens := [], ps_db := sample_database\<rparr>"
    by (simp add: run.simps sample_message_parsed)
  then show ?thesis
    by (simp add: load_dbc_def parse_dbc_def sample_normalised sample_scanned Let_def sample_start_def [symmetric] has_errors_def)
      (simp add: sample_start_def new_parser_def empty_sink_def)
qed

subsection \<open>Loading\<close>

text \<open>C12. A database that \<open>load\<close> accepts is sound, whatever the text: the identifier of every message is one of its
  frame format, no length exceeds 64 bytes, and a message is FD exactly when it is longer than 8 bytes, whether it has
  signals or not; every layout has 1 to 64 bits with a scale factor other than zero and a float's own length, and every
  signal lies inside its message, so that it decodes from any frame that carries the whole message.\<close>

theorem load_dbc_sound:
  assumes "load_dbc contents filename = Inr db" and "m \<in> set (db_messages db)"
  shows "wf_id (msg_id m) \<and> msg_dlc m \<le> 64 \<and> msg_is_fd m = (msg_dlc m > 8) \<and>
    (\<forall>g\<in>set (msg_signals m). layout_good (sig_layout g) \<and> fits (sig_layout g) (unat (msg_dlc m)) \<and>
       (\<forall>f. unat (msg_dlc m) \<le> frame_size f \<longrightarrow> signal_try_decode g f = Inr (signal_decode g f)))"
proof -
  have s: "message_shape m \<in> set (db_shape db)" using assms(2) by (auto simp: db_shape_def message_shape_def)
  then have good: "shape_good (message_shape m)" "shape_fits (message_shape m)"
    using parse_dbc_good [of contents filename] assms(1) by (auto simp: load_dbc_Inr list_all_iff)
  have "fits (sig_layout g) (frame_size f)" if "g \<in> set (msg_signals m)" "unat (msg_dlc m) \<le> frame_size f" for g f
    using good(2) that by (auto simp: message_shape_def fits_def intro: order_trans)
  then show ?thesis using good by (auto simp: message_shape_def signal_try_decode_def signal_decode_def)
qed

theorem load_dbc_sound_witness:
  "wf_id (msg_id sample_message) \<and> layout_good sample_layout \<and>
     signal_try_decode sample_parsed ((empty_frame 8)\<lparr>frame_dlc := 1\<rparr>) =
     Inr (signal_decode sample_parsed ((empty_frame 8)\<lparr>frame_dlc := 1\<rparr>))"
proof -
  have m: "sample_message \<in> set (db_messages sample_database)" "sample_parsed \<in> set (msg_signals sample_message)"
    "sig_layout sample_parsed = sample_layout" "msg_dlc sample_message = 1"
    by (simp_all add: sample_database_def sample_message_def sample_parsed_def new_message_def)
  have "frame_size ((empty_frame 8)\<lparr>frame_dlc := 1\<rparr>) = 1"
    by (simp add: frame_size_def is_remote_def is_fd_def empty_frame_def flag_none_def has_flag_def)
      (simp add: dlc_to_length_def)
  then show ?thesis using load_dbc_sound [OF sample_loaded m(1)] m by fastforce
qed

text \<open>C33. \<open>load\<close> fails exactly when the parse reported an error, and then with the code and the position of the
  first one: the generic semantic error that follows the search in the code is never reached.\<close>

theorem load_dbc_first_error:
  "load_dbc contents filename =
     (let r = parse_dbc contents filename in
      case filter (\<lambda>d. dg_severity d = SevError) (sk_items (pr_diagnostics r)) of
        [] \<Rightarrow> Inr (pr_database r)
      | d # ds \<Rightarrow> Inl (Error (dg_code d) ''the DBC file contains errors; see the diagnostics'' (loc_line (dg_where d), loc_column (dg_where d))))"
proof -
  have f: "find P xs = (case filter P xs of [] \<Rightarrow> None | x # _ \<Rightarrow> Some x)" for P and xs :: "diagnostic list"
    by (induction xs) auto
  show ?thesis
    using parse_dbc_counts [of contents filename]
    by (auto simp: load_dbc_def Let_def has_errors_def sink_counts_def f split: list.splits)
qed

end
