(* ===== verification/Decimal_Laws.thy ===== *)
theory Decimal_Laws
  imports Decimal
begin

text \<open>
  Numbers written by the DBC writer are read back exactly: seventeen significant digits determine a double, and the
  text of every precision denotes its digits.
\<close>

subsection \<open>Texts of digits\<close>

lemma digit_cases: "n < 10 \<Longrightarrow> n \<in> {0, 1, 2, 3, 4, 5, 6, 7, 8, 9 :: nat}"
  by auto

lemma of_char_dec_digit: "n < 10 \<Longrightarrow> (of_char (dec_digit n) :: nat) = 48 + n"
  using digit_cases [of n] by (auto simp: dec_digit_def)

lemma is_digit_dec_digit [simp]: "n < 10 \<Longrightarrow> is_digit (dec_digit n)"
  by (simp add: is_digit_def of_char_dec_digit)

lemma digits_of_append: "digits_of (a @ b) = digits_of a * 10 ^ length b + digits_of b"
proof -
  have "foldl (\<lambda>a c. 10 * a + (of_char c - 48)) x b = x * 10 ^ length b + foldl (\<lambda>a c. 10 * a + (of_char c - 48)) 0 b" for x
    by (induction b rule: rev_induct) (simp_all add: algebra_simps)
  then show ?thesis by (simp add: digits_of_def)
qed

lemma digits_of_zeros [simp]: "digits_of (replicate k (CHR ''0'')) = 0"
  by (induction k) (simp_all add: digits_of_append [of "[_]", simplified] digits_of_def)

lemma digits_of_dec_fixed: "digits_of (dec_fixed w n) = n mod 10 ^ w"
proof (induction w arbitrary: n)
  case (Suc w)
  have "n mod 10 ^ Suc w = 10 * (n div 10 mod 10 ^ w) + n mod 10" by (simp add: mod_mult2_eq)
  then show ?case by (simp add: digits_of_append Suc) (simp add: digits_of_def of_char_dec_digit)
qed (simp add: digits_of_def)

lemma digits_dec_fixed: "\<forall>c\<in>set (dec_fixed w n). is_digit c"
  by (induction w arbitrary: n) auto

lemma digits_of_dec_plain: "digits_of (dec_plain n) = n"
proof (induction n rule: dec_plain.induct)
  case (1 n)
  have one: "digits_of [dec_digit k] = k" if "k < 10" for k using of_char_dec_digit [OF that] by (simp add: digits_of_def)
  show ?case using 1 by (subst dec_plain.simps) (simp add: digits_of_append one)
qed

lemma digits_dec_plain: "\<forall>c\<in>set (dec_plain n). is_digit c"
proof (induction n rule: dec_plain.induct)
  case (1 n)
  then show ?case by (subst dec_plain.simps) auto
qed

lemma dec_plain_not_Nil [simp]: "dec_plain n \<noteq> []"
  by (subst dec_plain.simps) simp

lemma strip_zeros_split: "\<exists>k. s = strip_zeros s @ replicate k (CHR ''0'')"
proof (induction s rule: rev_induct)
  case (snoc c s)
  then obtain k where k: "s = strip_zeros s @ replicate k (CHR ''0'')" by blast
  show ?case
  proof (cases "c = CHR ''0''")
    case True
    have "strip_zeros (s @ [c]) = strip_zeros s" using True by (simp add: strip_zeros_def)
    moreover have "s @ [c] = strip_zeros s @ replicate (Suc k) (CHR ''0'')"
      using k True by (metis append_assoc replicate_append_same replicate_Suc)
    ultimately show ?thesis by metis
  qed (rule exI [of _ 0], simp add: strip_zeros_def)
qed (simp add: strip_zeros_def)

lemma set_strip_zeros: "set (strip_zeros s) \<subseteq> set s"
  using set_dropWhileD [of _ _ "rev s"] by (auto simp: strip_zeros_def)

subsection \<open>The value of a literal\<close>

lemma decimal_as_quotient:
  obtains N D where "decimal_value m e = round_quotient binary64 False N D" "0 < D" "real N / real D = real m * 10 powi e"
proof (cases "e \<ge> 0")
  case True
  then show ?thesis using that [of "m * 10 ^ nat e" 1] by (simp add: decimal_value_def power_int_def)
next
  case False
  then show ?thesis using that [of m "10 ^ nat (- e)"] by (simp add: decimal_value_def power_int_def divide_simps)
qed

definition exponent_value :: "string \<Rightarrow> int \<Rightarrow> bool" where
  "exponent_value ex x \<longleftrightarrow> ex = [] \<and> x = 0 \<or> ex = exponent_text x"

lemma exponent_digits: "is_digit (CHR ''0'')" "\<not> is_digit (CHR ''.'')" "\<not> is_digit (CHR ''e'')" "\<not> is_digit (CHR ''-'')" "\<not> is_digit (CHR ''+'')"
  by (simp_all add: is_digit_def)

lemma takeWhile_digits: "\<forall>c\<in>set w. is_digit c \<Longrightarrow> r = [] \<or> \<not> is_digit (hd r) \<Longrightarrow>
  takeWhile is_digit (w @ r) = w \<and> dropWhile is_digit (w @ r) = r"
  by (induction w) (cases r; auto)+

lemma exponent_first: "exponent_value ex x \<Longrightarrow> ex = [] \<or> \<not> is_digit (hd ex) \<and> hd ex \<noteq> CHR ''.''"
  by (auto simp: exponent_value_def exponent_text_def exponent_digits)

lemma strtod_literal:
  assumes "\<forall>c\<in>set w. is_digit c" and "\<forall>c\<in>set f. is_digit c" and "exponent_value ex x"
  shows "strtod (w @ (if f = [] then [] else CHR ''.'' # f) @ ex) = decimal_value (digits_of (w @ f)) (x - int (length f))"
proof -
  let ?r = "(if f = [] then [] else CHR ''.'' # f) @ ex"
  have w: "takeWhile is_digit (w @ ?r) = w \<and> dropWhile is_digit (w @ ?r) = ?r"
    by (rule takeWhile_digits [OF assms(1)]) (use exponent_first [OF assms(3)] in \<open>auto simp: exponent_digits\<close>)
  have f: "takeWhile is_digit (f @ ex) = f \<and> dropWhile is_digit (f @ ex) = ex"
    by (rule takeWhile_digits [OF assms(2)]) (use exponent_first [OF assms(3)] in auto)
  have split: "(if ?r \<noteq> [] \<and> hd ?r = CHR ''.'' then (takeWhile is_digit (tl ?r), dropWhile is_digit (tl ?r)) else ([], ?r)) = (f, ex)"
    using f exponent_first [OF assms(3)] by auto
  have d: "\<forall>c\<in>set ((if \<bar>x\<bar> < 10 then ''0'' else []) @ dec_plain (nat \<bar>x\<bar>)). is_digit c"
    using digits_dec_plain by (auto simp: exponent_digits)
  have n: "digits_of ((if \<bar>x\<bar> < 10 then ''0'' else []) @ dec_plain (nat \<bar>x\<bar>)) = nat \<bar>x\<bar>"
    using digits_of_append [of "''0''" "dec_plain (nat \<bar>x\<bar>)"] by (simp add: digits_of_dec_plain) (simp add: digits_of_def)
  have p: "takeWhile is_digit (dec_plain k) = dec_plain k" for k by (simp add: takeWhile_eq_all_conv digits_dec_plain)
  have e: "(if ex \<noteq> [] \<and> (hd ex = CHR ''e'' \<or> hd ex = CHR ''E'')
                  then (case tl ex of
                          [] \<Rightarrow> 0
                        | c # cs \<Rightarrow> if c = CHR ''-'' then - int (digits_of (takeWhile is_digit cs))
                                    else if c = CHR ''+'' then int (digits_of (takeWhile is_digit cs))
                                    else int (digits_of (takeWhile is_digit (c # cs))))
                  else 0) = x"
    using assms(3) n by (auto simp: exponent_value_def exponent_text_def exponent_digits p digits_of_dec_plain split: if_splits)
  show ?thesis
    unfolding strtod_def Let_def w [THEN conjunct1] w [THEN conjunct2] split prod.case e ..
qed

text \<open>What the printed digits denote.\<close>

lemma strtod_mantissa:
  assumes "\<forall>c\<in>set (w @ f). is_digit c" and "exponent_value ex x"
  obtains m e where "strtod (mantissa w f @ ex) = decimal_value m e"
    "real m * 10 powi e = real (digits_of (w @ f)) * 10 powi (x - int (length f))"
proof -
  obtain k where f: "f = strip_zeros f @ replicate k (CHR ''0'')" using strip_zeros_split [of f] by blast
  let ?g = "strip_zeros f"
  have g: "\<forall>c\<in>set ?g. is_digit c" using assms(1) set_strip_zeros [of f] by auto
  have s: "strtod (mantissa w f @ ex) = decimal_value (digits_of (w @ ?g)) (x - int (length ?g))"
    using strtod_literal [OF _ g assms(2), of w] assms(1) by (simp add: mantissa_def)
  have l: "int (length f) = int (length ?g) + int k" by (subst f) simp
  have "digits_of (w @ f) = digits_of ((w @ ?g) @ replicate k (CHR ''0''))" by (subst f) simp
  also have "\<dots> = digits_of (w @ ?g) * 10 ^ k" by (simp only: digits_of_append [of "w @ ?g"] digits_of_zeros length_replicate add_0_right)
  finally have d: "digits_of (w @ f) = digits_of (w @ ?g) * 10 ^ k" .
  have p: "(10 :: real) powi (x - int (length ?g)) = 10 ^ k * 10 powi (x - int (length f))"
    unfolding l by (simp add: power_int_diff power_int_add)
  have "real (digits_of (w @ ?g)) * 10 powi (x - int (length ?g)) = real (digits_of (w @ f)) * 10 powi (x - int (length f))"
    unfolding p d by simp
  then show ?thesis using that s by blast
qed

lemma strtod_print_digits:
  assumes "q < 10 ^ p" and "1 \<le> p"
  obtains m e where "strtod (print_digits p q x) = decimal_value m e" "real m * 10 powi e = real q * 10 powi (x - int (p - 1))"
proof -
  let ?ds = "dec_fixed p q"
  have ds: "\<forall>c\<in>set ?ds. is_digit c" "digits_of ?ds = q" using assms(1) by (simp_all add: digits_dec_fixed digits_of_dec_fixed)
  have cut: "\<forall>c\<in>set (take i ?ds @ drop i ?ds). is_digit c" "digits_of (take i ?ds @ drop i ?ds) = q" for i using ds by simp_all
  consider "x < -4 \<or> x \<ge> int p" | "\<not> (x < -4 \<or> x \<ge> int p)" "x \<ge> 0" | "\<not> (x < -4 \<or> x \<ge> int p)" "\<not> x \<ge> 0" by blast
  then show ?thesis
  proof cases
    case 1
    obtain m e where "strtod (mantissa (take 1 ?ds) (drop 1 ?ds) @ exponent_text x) = decimal_value m e"
      "real m * 10 powi e = real (digits_of (take 1 ?ds @ drop 1 ?ds)) * 10 powi (x - int (length (drop 1 ?ds)))"
      by (rule strtod_mantissa [OF cut(1) [of 1], of "exponent_text x" x]) (simp_all add: exponent_value_def)
    then show ?thesis using that [of m e] 1 ds(2) assms(2) by (simp add: print_digits_def Let_def of_nat_diff)
  next
    case 2
    let ?i = "nat x + 1"
    obtain m e where me: "strtod (mantissa (take ?i ?ds) (drop ?i ?ds) @ []) = decimal_value m e"
      "real m * 10 powi e = real (digits_of (take ?i ?ds @ drop ?i ?ds)) * 10 powi (0 - int (length (drop ?i ?ds)))"
      by (rule strtod_mantissa [OF cut(1) [of ?i], of "[]" 0]) (simp_all add: exponent_value_def)
    moreover have "0 - int (length (drop ?i ?ds)) = x - int (p - 1)" using 2 by (auto simp: of_nat_diff)
    ultimately show ?thesis using that [of m e] 2 cut(2) [of ?i] by (simp only: print_digits_def Let_def if_False if_True append_Nil2)
  next
    case 3
    let ?f = "replicate (nat (- x) - 1) (CHR ''0'') @ ?ds"
    have z: "\<forall>c\<in>set (''0'' @ ?f). is_digit c" using ds(1) by (auto simp: exponent_digits)
    have v: "digits_of (''0'' @ ?f) = q" 
    proof -
      have "digits_of ?f = q" by (simp only: digits_of_append digits_of_zeros ds(2))
      moreover have "digits_of ''0'' = 0" by (simp add: digits_of_def)
      ultimately show ?thesis by (simp only: digits_of_append [of "''0''"])
    qed
    obtain m e where "strtod (mantissa ''0'' ?f @ []) = decimal_value m e"
      "real m * 10 powi e = real (digits_of (''0'' @ ?f)) * 10 powi (0 - int (length ?f))"
      by (rule strtod_mantissa [OF z, of "[]" 0]) (simp_all add: exponent_value_def)
    moreover have "0 - int (length ?f) = x - int (p - 1)" using 3 assms(2) by auto
    ultimately show ?thesis using that [of m e] 3 v by (simp only: print_digits_def Let_def if_False append_Nil2)
  qed
qed

subsection \<open>The digits of a value\<close>

lemma floor_log10_bounds: "0 < n \<Longrightarrow> 10 ^ floor_log10 n \<le> n \<and> n < 10 ^ Suc (floor_log10 n)"
proof (induction n rule: floor_log10.induct)
  case (1 n)
  show ?case
  proof (cases "n < 10")
    case True
    then show ?thesis using "1.prems" by (simp add: floor_log10.simps)
  next
    case False
    then have "10 ^ floor_log10 (n div 10) \<le> n div 10 \<and> n div 10 < 10 ^ Suc (floor_log10 (n div 10))" using "1.IH" by simp
    then show ?thesis using False by (subst (1 2) floor_log10.simps) auto
  qed
qed

lemma at_least_power10_iff:
  assumes "0 < d"
  shows "at_least_power10 n d k \<longleftrightarrow> 10 powi k \<le> real n / real d"
proof (cases "k \<ge> 0")
  case True
  have "at_least_power10 n d k \<longleftrightarrow> real (d * 10 ^ nat k) \<le> real n" using True by (simp only: at_least_power10_def if_True of_nat_le_iff)
  then show ?thesis using assms True by (simp add: power_int_def field_simps)
next
  case False
  have "at_least_power10 n d k \<longleftrightarrow> real d \<le> real (n * 10 ^ nat (- k))" using False by (simp only: at_least_power10_def if_False of_nat_le_iff)
  then show ?thesis using assms False by (simp add: power_int_def field_simps)
qed

lemma quotient_log10_bounds:
  assumes "0 < n" and "0 < d"
  shows "10 powi quotient_log10 n d \<le> real n / real d" "real n / real d < 10 powi (quotient_log10 n d + 1)"
proof -
  let ?a = "floor_log10 n" and ?b = "floor_log10 d" and ?x = "real n / real d"
  define k where "k = int ?a - int ?b"
  have p: "10 powi (k + 1) = 10 ^ Suc ?a / (10 :: real) ^ ?b" "10 powi (k - 1) = 10 ^ ?a / (10 :: real) ^ Suc ?b"
    unfolding k_def by (simp_all add: power_int_diff power_int_add)
  have n: "10 ^ ?a \<le> n" "n < 10 ^ Suc ?a" and d: "10 ^ ?b \<le> d" "d < 10 ^ Suc ?b"
    using floor_log10_bounds assms by auto
  have rn: "(10 :: real) ^ ?a \<le> real n" "real n < 10 ^ Suc ?a" and rd: "(10 :: real) ^ ?b \<le> real d" "real d < 10 ^ Suc ?b"
    using n d by (metis of_nat_le_iff of_nat_less_iff of_nat_numeral of_nat_power)+
  have "?x \<le> real n / 10 ^ ?b" using rd(1) assms by (simp add: frac_le)
  also have "\<dots> < 10 ^ Suc ?a / 10 ^ ?b" using rn(2) by (simp add: divide_strict_right_mono)
  finally have up: "?x < 10 powi (k + 1)" unfolding p .
  have "(10 :: real) ^ ?a / 10 ^ Suc ?b \<le> 10 ^ ?a / real d" using rd assms by (simp add: frac_le)
  also have "\<dots> \<le> ?x" using rn(1) by (simp add: divide_right_mono)
  finally have lo: "10 powi (k - 1) \<le> ?x" unfolding p .
  have q: "quotient_log10 n d = (if at_least_power10 n d k then k else k - 1)"
    by (simp add: quotient_log10_def k_def Let_def)
  show "10 powi quotient_log10 n d \<le> ?x" "?x < 10 powi (quotient_log10 n d + 1)"
    using up lo at_least_power10_iff [OF assms(2), of n k] by (auto simp: q)
qed

text \<open>The printed digits are within half a unit of the last one.\<close>

lemma significant_close:
  assumes "0 < n" and "0 < d" and "1 \<le> p" and "significant p n d = (q, x)"
  shows "q < 10 ^ p" "\<bar>real q * 10 powi (x - int (p - 1)) - real n / real d\<bar> \<le> real n / real d / (2 * 10 ^ (p - 1))"
proof -
  let ?v = "real n / real d"
  define l k where "l = quotient_log10 n d" and "k = int p - 1 - l"
  define h where "h = (if k \<ge> 0 then half_even (n * 10 ^ nat k) d else half_even n (d * 10 ^ nat (- k)))"
  obtain N D where N: "h = half_even N D" "0 < D" "real N / real D = ?v * 10 powi k"
  proof (cases "k \<ge> 0")
    case True
    then show ?thesis using that [of "n * 10 ^ nat k" d] assms(2) by (simp add: h_def power_int_def)
  next
    case False
    then show ?thesis using that [of n "d * 10 ^ nat (- k)"] assms(2) by (simp add: h_def power_int_def field_simps)
  qed
  have b: "10 powi l \<le> ?v" "?v < 10 powi (l + 1)" using quotient_log10_bounds [OF assms(1,2)] by (simp_all add: l_def)
  have s: "10 powi (l + 1) * 10 powi k = (10 :: real) ^ p" by (simp add: k_def flip: power_int_add)
  have "?v * 10 powi k < 10 powi (l + 1) * 10 powi k" using b(2) by (intro mult_strict_right_mono) simp_all
  then have "real N / real D < 10 ^ p" unfolding N(3) s .
  then have "real N < 10 ^ p * real D" using N(2) by (simp add: pos_divide_less_eq)
  then have "real N < real (10 ^ p * D)" by simp
  then have "N < 10 ^ p * D" by (simp only: of_nat_less_iff)
  then have "N div D < 10 ^ p" using N(2) by (simp add: less_mult_imp_div_less)
  then have h: "h \<le> 10 ^ p" unfolding N(1) half_even_def Let_def by simp
  have e: "\<bar>real h - ?v * 10 powi k\<bar> \<le> 1 / 2" using half_even_error [OF N(2), of N] N(1,3) by simp
  have "\<bar>real h * 10 powi (- k) - ?v\<bar> = \<bar>real h - ?v * 10 powi k\<bar> * 10 powi (- k)"
  proof -
    have "real h * 10 powi (- k) - ?v = (real h - ?v * 10 powi k) * 10 powi (- k)"
      by (simp add: left_diff_distrib mult.assoc flip: power_int_add)
    then show ?thesis by (simp add: abs_mult)
  qed
  also have "\<dots> \<le> 1 / 2 * 10 powi (- k)" using e by (intro mult_right_mono) simp_all
  finally have c1: "\<bar>real h * 10 powi (- k) - ?v\<bar> \<le> 1 / 2 * 10 powi (- k)" .
  have k: "l - int (p - 1) = - k" using assms(3) by (simp add: k_def)
  have "(10 :: real) powi (- k) = 10 powi l / 10 ^ (p - 1)" unfolding k [symmetric] by (simp add: power_int_diff)
  also have "\<dots> \<le> ?v / 10 ^ (p - 1)" by (intro divide_right_mono b(1)) simp
  finally have c2: "(10 :: real) powi (- k) \<le> ?v / 10 ^ (p - 1)" .
  have "a \<le> 1 / 2 * b \<Longrightarrow> b \<le> u / t \<Longrightarrow> a \<le> u / (2 * t)" for a b u t :: real by (simp add: mult.commute [of 2 t] flip: divide_divide_eq_left)
  from this [OF c1 c2] have c: "\<bar>real h * 10 powi (- k) - ?v\<bar> \<le> ?v / (2 * 10 ^ (p - 1))" .
  have "significant p n d = (if h = 10 ^ p then (10 ^ (p - 1), l + 1) else (h, l))"
    unfolding significant_def Let_def l_def [symmetric] k_def [symmetric] h_def [symmetric] ..
  then have r: "(q, x) = (if h = 10 ^ p then (10 ^ (p - 1), l + 1) else (h, l))" using assms(4) by simp
  have t: "(10 :: nat) ^ p = 10 * 10 ^ (p - 1)" using assms(3) by (cases p) simp_all
  have k': "(10 :: real) powi (l + 1 - int (p - 1)) = 10 * 10 powi (- k)"
    unfolding k [symmetric] by (simp add: power_int_add power_int_diff)
  show "q < 10 ^ p" using r h t by (auto split: if_splits)
  have "real q * 10 powi (x - int (p - 1)) = real h * 10 powi (- k)"
  proof (cases "h = 10 ^ p")
    case True
    have q: "q = 10 ^ (p - 1)" "x = l + 1" using r True by simp_all
    show ?thesis unfolding q True t k' by simp
  next
    case False
    have q: "q = h" "x = l" using r False by simp_all
    show ?thesis unfolding q k ..
  qed
  then show "\<bar>real q * 10 powi (x - int (p - 1)) - ?v\<bar> \<le> ?v / (2 * 10 ^ (p - 1))" using c by simp
qed

subsection \<open>Seventeen digits determine a double\<close>

lemma half_even_near:
  assumes "0 < d" and "\<bar>real n / real d - real q\<bar> < 1 / 2"
  shows "half_even n d = q"
proof -
  have "\<bar>real (half_even n d) - real q\<bar> < 1" using half_even_error [OF assms(1), of n] assms(2) by linarith
  then have "\<bar>int (half_even n d) - int q\<bar> < 1" by linarith
  then show ?thesis by linarith
qed

lemma scaled_half_even_near:
  assumes "0 < d" and "\<bar>real n / real d - real q * 2 powi e\<bar> < 2 powi e / 2"
  shows "scaled_half_even n d e = q"
proof -
  obtain N D where N: "scaled_half_even n d e = half_even N D" "0 < D" "real N / real D = real n / real d / 2 powi e"
    by (rule scaled_quotient [OF assms(1)])
  have "real N / real D - real q = (real n / real d - real q * 2 powi e) / 2 powi e" unfolding N(3) by (simp add: diff_divide_distrib)
  then have "\<bar>real N / real D - real q\<bar> = \<bar>real n / real d - real q * 2 powi e\<bar> / 2 powi e" by (simp add: abs_divide)
  also have "\<dots> < 2 powi e / 2 / 2 powi e" by (intro divide_strict_right_mono assms(2)) simp
  finally have "\<bar>real N / real D - real q\<bar> < 1 / 2" by simp
  then show ?thesis unfolding N(1) by (rule half_even_near [OF N(2)])
qed

lemma quotient_log2_eq:
  assumes "0 < n" and "0 < d" and "2 powi k \<le> real n / real d" and "real n / real d < 2 powi (k + 1)"
  shows "quotient_log2 n d = k"
proof -
  note b = quotient_log2_bounds [OF assms(1,2)]
  have "(2 :: real) powi quotient_log2 n d < 2 powi (k + 1)" "(2 :: real) powi k < 2 powi (quotient_log2 n d + 1)"
    using b assms(3,4) by linarith+
  then have "quotient_log2 n d < k + 1" "k < quotient_log2 n d + 1" by (simp_all only: powi_less_iff)
  then show ?thesis by linarith
qed

lemma quotient_log2_less:
  assumes "0 < n" and "0 < d" and "real n / real d < 2 powi k"
  shows "quotient_log2 n d < k"
proof -
  have "(2 :: real) powi quotient_log2 n d < 2 powi k" using quotient_log2_bounds(1) [OF assms(1,2)] assms(3) by linarith
  then show ?thesis by (simp only: powi_less_iff)
qed

lemma round_quotient_at:
  assumes "0 < n" and "e = max (-1074) (quotient_log2 n d - 52)" and "scaled_half_even n d e = q"
  shows "round_quotient binary64 s n d =
    (let (q, e) = (if q = 2 ^ 53 then (2 ^ 52, e + 1) else (q, e)) in if e > 971 then DInf s else DFin s q e)"
  using assms(1,3) unfolding round_quotient_def assms(2) scaled_half_even_def by (simp add: binary64_def Let_def)

lemma round_close:
  assumes "representable binary64 (DFin s q e)" and "0 < q" and "0 < n" and "0 < d"
    and "\<bar>real n / real d - real q * 2 powi e\<bar> \<le> real q * 2 powi e / (2 * 10 ^ 16)"
  shows "round_quotient binary64 t n d = DFin t q e"
proof -
  let ?x = "real n / real d" and ?u = "(2 :: real) powi e"
  have r: "q < 2 ^ 53" "-1074 \<le> e" "e \<le> 971" "2 ^ 52 \<le> q \<or> e = -1074"
    using assms(1) by (simp_all add: binary64_def)
  have u: "0 < ?u" by simp
  have q53: "real q \<le> 2 ^ 53 - 1"
  proof -
    have "real q \<le> real (2 ^ 53 - 1 :: nat)" using r(1) by (subst of_nat_le_iff) simp
    then show ?thesis by (simp add: of_nat_diff)
  qed
  have up: "?x < 2 ^ 53 * ?u"
  proof -
    have "?x \<le> real q * ?u + real q * ?u / (2 * 10 ^ 16)" using assms(5) by linarith
    also have "\<dots> = real q * (1 + 1 / (2 * 10 ^ 16)) * ?u" by (simp add: algebra_simps)
    also have "\<dots> \<le> (2 ^ 53 - 1) * (1 + 1 / (2 * 10 ^ 16)) * ?u" using q53 by (intro mult_right_mono) simp_all
    also have "\<dots> < 2 ^ 53 * ?u" using u by (intro mult_strict_right_mono) simp_all
    finally show ?thesis .
  qed
  have p53: "2 ^ 53 * ?u = 2 powi (e + 53)" by (simp add: power_int_add)
  show ?thesis
  proof (cases "e = -1074 \<or> 2 ^ 52 * ?u \<le> ?x")
    case True
    have E: "e = max (-1074) (quotient_log2 n d - 52)"
    proof (cases "2 ^ 52 * ?u \<le> ?x")
      case True
      have "(2 :: real) ^ 52 * ?u = 2 powi (e + 52)" by (simp add: power_int_add)
      then have "quotient_log2 n d = e + 52"
        using quotient_log2_eq [OF assms(3,4), of "e + 52"] True up p53 by (simp add: add.commute [of e])
      then show ?thesis using r(2) by simp
    next
      case False
      then have e: "e = -1074" using True by simp
      have "quotient_log2 n d < e + 53" using quotient_log2_less [OF assms(3,4)] up p53 by simp
      then show ?thesis using e by simp
    qed
    have "real q * ?u / (2 * 10 ^ 16) < ?u / 2"
    proof -
      have "real q * ?u / (2 * 10 ^ 16) = real q / (2 * 10 ^ 16) * ?u" by simp
      also have "\<dots> < 1 / 2 * ?u" using q53 u by (intro mult_strict_right_mono) simp_all
      finally show ?thesis by simp
    qed
    then have "scaled_half_even n d e = q" using assms(5) by (intro scaled_half_even_near assms(4)) linarith
    then show ?thesis using round_quotient_at [OF assms(3) E] r(1,3) by simp
  next
    case False
    then have e: "e \<noteq> -1074" "?x < 2 ^ 52 * ?u" by simp_all
    have q52: "2 ^ 52 \<le> real q" using r(4) e(1) by (metis of_nat_le_iff of_nat_numeral of_nat_power)
    have q: "q = 2 ^ 52"
    proof (rule ccontr)
      assume "q \<noteq> 2 ^ 52"
      then have "2 ^ 52 + 1 \<le> q" using r(4) e(1) by auto
      then have "real (2 ^ 52 + 1 :: nat) \<le> real q" by (simp only: of_nat_le_iff)
      then have g: "2 ^ 52 + 1 \<le> real q" by simp
      have "real q * ?u - real q * ?u / (2 * 10 ^ 16) \<le> ?x" using assms(5) by linarith
      also have "real q * ?u - real q * ?u / (2 * 10 ^ 16) = real q * (1 - 1 / (2 * 10 ^ 16)) * ?u" by (simp add: algebra_simps)
      finally have "real q * (1 - 1 / (2 * 10 ^ 16)) * ?u \<le> ?x" .
      moreover have "(2 ^ 52 + 1) * (1 - 1 / (2 * 10 ^ 16)) * ?u \<le> real q * (1 - 1 / (2 * 10 ^ 16)) * ?u"
        using g by (intro mult_right_mono) simp_all
      moreover have "2 ^ 52 * ?u < (2 ^ 52 + 1) * (1 - 1 / (2 * 10 ^ 16)) * ?u" using u by (intro mult_strict_right_mono) simp_all
      ultimately show False using e(2) by linarith
    qed
    have h: "(2 :: real) powi e = 2 * 2 powi (e - 1)" by (simp add: power_int_diff)
    have v: "real q * ?u = 2 ^ 53 * 2 powi (e - 1)" unfolding q h by simp
    have c: "\<bar>?x - 2 ^ 53 * 2 powi (e - 1)\<bar> \<le> 2 ^ 53 * 2 powi (e - 1) / (2 * 10 ^ 16)" using assms(5) unfolding v .
    have w: "0 < (2 :: real) powi (e - 1)" by simp
    have small: "2 ^ 53 * 2 powi (e - 1) / (2 * 10 ^ 16) < (2 :: real) powi (e - 1) / 2"
    proof -
      have "2 ^ 53 * 2 powi (e - 1) / (2 * 10 ^ 16) = 2 ^ 53 / (2 * 10 ^ 16) * (2 :: real) powi (e - 1)" by simp
      also have "\<dots> < 1 / 2 * 2 powi (e - 1)" using w by (intro mult_strict_right_mono) simp_all
      finally show ?thesis by simp
    qed
    have "scaled_half_even n d (e - 1) = 2 ^ 53"
    proof (rule scaled_half_even_near [OF assms(4)])
      have "real (2 ^ 53) = 2 ^ 53" by simp
      then show "\<bar>?x - real (2 ^ 53) * 2 powi (e - 1)\<bar> < 2 powi (e - 1) / 2" using le_less_trans [OF c small] by (simp only:)
    qed
    moreover have "e - 1 = max (-1074) (quotient_log2 n d - 52)"
    proof -
      have "2 ^ 52 * 2 powi (e - 1) \<le> 2 ^ 53 * 2 powi (e - 1) - (2 :: real) powi (e - 1) / 2"
        using w by (simp add: field_simps)
      then have "2 ^ 52 * 2 powi (e - 1) \<le> ?x" using c small by linarith
      moreover have "(2 :: real) ^ 52 * 2 powi (e - 1) = 2 powi (e + 51)" "2 ^ 52 * ?u = (2 :: real) powi (e + 51 + 1)"
        by (simp_all add: power_int_add power_int_diff)
      ultimately have "quotient_log2 n d = e + 51"
        using quotient_log2_eq [OF assms(3,4), of "e + 51"] e(2) by simp
      then show ?thesis using r(2) e(1) by simp
    qed
    ultimately show ?thesis using round_quotient_at [OF assms(3), of "e - 1" d "2 ^ 53" t] r(3) q by simp
  qed
qed

subsection \<open>Reading back what was written\<close>

definition finite_parts :: "nat \<Rightarrow> int \<Rightarrow> nat \<times> nat" where
  "finite_parts m e = (if e \<ge> 0 then (m * 2 ^ nat e, 1) else (m, 2 ^ nat (- e)))"

lemma finite_parts_value:
  "finite_parts m e = (n, d) \<Longrightarrow> 0 < d \<and> real n / real d = real m * 2 powi e \<and> (0 < m \<longrightarrow> 0 < n)"
  by (auto simp: finite_parts_def power_int_def divide_simps split: if_splits)

lemma print_general_parts:
  "print_general p (DFin s m e) = (if s then ''-'' else []) @
     print_digits p (fst (significant p (fst (finite_parts m e)) (snd (finite_parts m e))))
       (snd (significant p (fst (finite_parts m e)) (snd (finite_parts m e))))"
  by (simp add: finite_parts_def case_prod_unfold Let_def)

lemma hd_print_digits: "1 \<le> p \<Longrightarrow> print_digits p q x \<noteq> [] \<and> is_digit (hd (print_digits p q x))"
proof -
  assume p: "1 \<le> p"
  have d: "dec_fixed p q \<noteq> []" using p by (metis length_0_conv length_dec_fixed not_one_le_zero)
  then have "is_digit (hd (dec_fixed p q))" using digits_dec_fixed [of p q] by (cases "dec_fixed p q") auto
  then show ?thesis using d by (cases "dec_fixed p q") (auto simp: print_digits_def mantissa_def Let_def exponent_digits)
qed

lemma seventeen_digits:
  assumes "representable binary64 (DFin s m e)" and "0 < m"
  shows "signed_strtod (print_general 17 (DFin s m e)) = DFin s m e"
proof -
  obtain n d where nd: "finite_parts m e = (n, d)" by fastforce
  have v: "0 < d" "real n / real d = real m * 2 powi e" "0 < n" using finite_parts_value [OF nd] assms(2) by simp_all
  obtain q x where sg: "significant 17 n d = (q, x)" by fastforce
  note c = significant_close [OF v(3,1) _ sg]
  obtain k f where k: "strtod (print_digits 17 q x) = decimal_value k f" "real k * 10 powi f = real q * 10 powi (x - int (17 - 1))"
    by (rule strtod_print_digits [of q 17 x]) (use c(1) in simp_all)
  obtain N D where N: "decimal_value k f = round_quotient binary64 False N D" "0 < D" "real N / real D = real k * 10 powi f"
    by (rule decimal_as_quotient)
  have near: "\<bar>real N / real D - real m * 2 powi e\<bar> \<le> real m * 2 powi e / (2 * 10 ^ 16)"
    using c(2) unfolding N(3) k(2) v(2) by simp
  have "0 < N"
  proof (rule ccontr)
    assume "\<not> 0 < N"
    then have "real m * 2 powi e \<le> real m * 2 powi e / (2 * 10 ^ 16)" using near by simp
    moreover have "0 < real m * 2 powi e" using assms(2) by simp
    ultimately show False by (simp add: field_simps)
  qed
  then have "strtod (print_digits 17 q x) = DFin False m e"
    unfolding k(1) N(1) using assms by (intro round_close near N(2)) (simp_all add: binary64_def)
  then show ?thesis
    unfolding print_general_parts nd using hd_print_digits [of 17 q x]
    by (auto simp: sg signed_strtod_def exponent_digits)
qed

lemma d_floor_value: "is_finite v \<Longrightarrow> representable binary64 v \<Longrightarrow> is_finite (d_floor v) \<and> dval (d_floor v) = real_of_int \<lfloor>dval v\<rfloor>"
proof -
  assume "is_finite v" and rep: "representable binary64 v"
  then obtain s m e where v: "v = DFin s m e" by (auto simp: is_finite_DFin)
  define z K where "z = (if s then - int m else int m)" and "K = (2 :: nat) ^ nat (- e)"
  have K: "0 < K" by (simp add: K_def)
  show ?thesis
  proof (cases "e \<ge> 0")
    case True
    have "dval v = real_of_int (z * 2 ^ nat e)" using True by (simp add: v z_def power_int_def)
    then have "\<lfloor>dval v\<rfloor> = z * 2 ^ nat e" by (simp only: floor_of_int)
    then show ?thesis using True \<open>dval v = _\<close> by (simp add: v)
  next
    case False
    have d: "dval v = real_of_int z / real_of_int (int K)" using False by (simp add: v z_def K_def power_int_def divide_simps)
    then have f: "\<lfloor>dval v\<rfloor> = z div int K" by (simp only: floor_divide_of_int_eq)
    show ?thesis
    proof (cases "m mod K = 0")
      case True
      then have "int K dvd z" by (auto simp: z_def mod_eq_0_iff_dvd)
      then have "real_of_int z / real_of_int (int K) = real_of_int (z div int K)" by (rule real_of_int_div [symmetric])
      then show ?thesis using True d f by (simp add: v K_def)
    next
      case m: False
      have "m < 2 ^ 53" using rep by (simp add: v binary64_def)
      then have "\<bar>z\<bar> < 2 ^ 53" by (simp add: z_def)
      have "\<bar>z div int K\<bar> < 2 ^ 53"
      proof -
        have K1: "1 \<le> int K" using K by simp
        have "z div int K \<le> \<bar>z\<bar>" using K1 by (metis abs_ge_self abs_ge_zero div_by_1 int_one_le_iff_zero_less order_trans zdiv_mono2 zdiv_mono1 zero_less_one)
        moreover have "- \<bar>z\<bar> \<le> z div int K"
        proof -
          have "- \<bar>z\<bar> = (- \<bar>z\<bar> * int K) div int K" by (rule nonzero_mult_div_cancel_right [symmetric]) (use K in simp)
          also have "\<dots> \<le> z div int K"
          proof (rule zdiv_mono1)
            have "\<bar>z\<bar> * 1 \<le> \<bar>z\<bar> * int K" using K1 by (intro mult_left_mono) simp_all
            then show "- \<bar>z\<bar> * int K \<le> z" by linarith
          qed (use K in simp)
          finally show ?thesis .
        qed
        ultimately show ?thesis using \<open>\<bar>z\<bar> < 2 ^ 53\<close> by linarith
      qed
      have "d_floor v = of_integer (z div int K)" using False m by (simp add: v K_def z_def)
      then show ?thesis using of_integer_exact [OF \<open>\<bar>z div int K\<bar> < 2 ^ 53\<close>] f by simp
    qed
  qed
qed

text \<open>A whole number printed in full is read back.\<close>

lemma dec_signed_read:
  assumes "\<bar>z\<bar> < 10 ^ 15"
  shows "is_finite (signed_strtod (dec_signed z)) \<and> dval (signed_strtod (dec_signed z)) = real_of_int z"
proof -
  have plain: "strtod (dec_plain k) = round_quotient binary64 False k 1" for k
    using strtod_literal [OF digits_dec_plain, of "[]" "[]" 0 k] by (simp add: exponent_value_def digits_of_dec_plain decimal_value_def)
  have of: "round_quotient binary64 False (nat \<bar>z\<bar>) 1 = of_integer \<bar>z\<bar>" by (simp add: of_integer_def)
  have x: "is_finite (of_integer \<bar>z\<bar>) \<and> dval (of_integer \<bar>z\<bar>) = real_of_int \<bar>z\<bar>" using of_integer_exact [of "\<bar>z\<bar>"] assms by simp
  have "hd (dec_plain k) \<noteq> CHR ''-''" for k
    using digits_dec_plain [of k] exponent_digits(4) dec_plain_not_Nil [of k] by (metis hd_in_set)
  then have "signed_strtod (dec_signed z) = (if z < 0 then d_neg (of_integer \<bar>z\<bar>) else of_integer \<bar>z\<bar>)"
    by (simp add: signed_strtod_def dec_signed_def plain of del: One_nat_def) (use of in force)
  then show ?thesis using x by (auto split: if_splits)
qed

text \<open>C13. Every finite double is written as a text that \<open>strtod\<close> reads back as the same number.\<close>

theorem format_number_exact:
  assumes "is_finite v" and "representable binary64 v"
  shows "d_eq (signed_strtod (format_number v)) v"
proof -
  have nan: "\<not> is_nan v" using assms(1) by (cases v) simp_all
  obtain s m e where v: "v = DFin s m e" using assms(1) by (auto simp: is_finite_DFin)
  have self: "d_eq v v" by (simp add: d_eq_value assms(1))
  consider "d_eq v (d_floor v) \<and> d_less (d_abs v) (of_integer (10 ^ 15))"
    | "\<not> (d_eq v (d_floor v) \<and> d_less (d_abs v) (of_integer (10 ^ 15)))" by blast
  then show ?thesis
  proof cases
    case 1
    define z where "z = \<lfloor>dval v\<rfloor>"
    have z: "dval v = real_of_int z"
      using 1 d_floor_value [OF assms] by (simp add: d_eq_value assms(1) z_def)
    have "\<bar>dval v\<bar> < 10 ^ 15"
      using 1 d_less_value [of "d_abs v" "of_integer (10 ^ 15)"] of_integer_exact [of "10 ^ 15"] by (simp add: v abs_mult)
    then have "real_of_int \<bar>z\<bar> < real_of_int (10 ^ 15)" unfolding z by simp
    then have small: "\<bar>z\<bar> < 10 ^ 15" by (simp only: of_int_less_iff)
    have t: "d_trunc v = Some z" by (rule d_trunc_value [OF assms(1) z])
    have f: "format_number v = dec_signed z" using 1 nan assms(1) by (simp add: format_number_def t)
    show ?thesis unfolding f using dec_signed_read [OF small] z assms(1) by (simp add: d_eq_value)
  next
    case 2
    have "0 < m"
    proof (rule ccontr)
      assume "\<not> 0 < m"
      then have d: "dval v = 0" by (simp add: v)
      have "d_eq v (d_floor v)" using d_floor_value [OF assms] d by (simp add: d_eq_value assms(1))
      moreover have "d_less (d_abs v) (of_integer (10 ^ 15))"
        using d_less_value [of "d_abs v" "of_integer (10 ^ 15)"] of_integer_exact [of "10 ^ 15"] d by (simp add: v split: if_splits)
      ultimately show False using 2 by simp
    qed
    then have w: "signed_strtod (print_general 17 v) = v" using seventeen_digits assms(2) by (simp add: v)
    have f: "format_number v = (case find (\<lambda>c. d_eq (signed_strtod c) v) (map (\<lambda>p. print_general p v) [6..<18]) of
        Some c \<Rightarrow> c | None \<Rightarrow> print_general 17 v)"
      unfolding format_number_def using nan 2 assms(1) by (simp only: if_False simp_thms)
    show ?thesis
    proof (cases "find (\<lambda>c. d_eq (signed_strtod c) v) (map (\<lambda>p. print_general p v) [6..<18])")
      case None
      then show ?thesis unfolding f using self w by simp
    next
      case (Some c)
      then have "d_eq (signed_strtod c) v" by (metis (mono_tags, lifting) find_Some_iff)
      then show ?thesis unfolding f Some by simp
    qed
  qed
qed

theorem format_number_exact_witness:
  "d_eq (signed_strtod (format_number (DFin False 7205759403792794 (-56)))) (DFin False 7205759403792794 (-56))"
  using format_number_exact [of "DFin False 7205759403792794 (-56)"] by (simp add: binary64_def)

end
