(* ===== verification/DbcWriter.thy ===== *)
theory DbcWriter
  imports Decimal Database DbcParser
begin

text \<open>
  \<open>dbc/src/Writer.cpp\<close>: a database as DBC text, section by section in the order of \<open>write_string\<close>.
  Writing the text to a file is not modelled.
\<close>

definition wire_id :: "can_id \<Rightarrow> u32" where
  "wire_id i = (if is_extended i then id_value i OR kDbcExtendedFlag else id_value i)"

text \<open>\<open>quoted\<close>.\<close>

definition escape_char :: "char \<Rightarrow> string" where
  "escape_char c = (if c = CHR 0x22 \<or> c = CHR 0x5C then [CHR 0x5C, c] else [c])"

definition dbc_quoted :: "string \<Rightarrow> string" where
  "dbc_quoted s = CHR 0x22 # concat (map escape_char s) @ [CHR 0x22]"

definition kDefaultNewSymbols :: "string list" where
  "kDefaultNewSymbols = [''NS_DESC_'', ''CM_'', ''BA_DEF_'', ''BA_'', ''VAL_'', ''CAT_DEF_'', ''CAT_'', ''FILTER'', ''BA_DEF_DEF_'',
     ''EV_DATA_'', ''ENVVAR_DATA_'', ''SGTYPE_'', ''SGTYPE_VAL_'', ''BA_DEF_SGTYPE_'', ''BA_SGTYPE_'', ''SIG_TYPE_REF_'', ''VAL_TABLE_'',
     ''SIG_GROUP_'', ''SIG_VALTYPE_'', ''SIGTYPE_VALTYPE_'', ''BO_TX_BU_'', ''BA_DEF_REL_'', ''BA_REL_'', ''BA_DEF_DEF_REL_'',
     ''BU_SG_REL_'', ''BU_EV_REL_'', ''BU_BO_REL_'', ''SG_MUL_VAL_'']"

definition dec_word :: "u32 \<Rightarrow> string" where "dec_word w = dec_plain (unat w)"

text \<open>The loops that put a separator before every entry but the first.\<close>

fun separated :: "string \<Rightarrow> string \<Rightarrow> string list \<Rightarrow> string" where
  "separated first between [] = []"
| "separated first between (x # xs) = first @ x @ concat (map (\<lambda>y. between @ y) xs)"

definition attribute_literal :: "attribute_value \<Rightarrow> bool \<Rightarrow> string" where
  "attribute_literal v as_default =
     (case av_type v of
        AttrString \<Rightarrow> dbc_quoted (av_text v)
      | AttrEnum \<Rightarrow> if as_default then dbc_quoted (av_text v) else format_number (av_number v)
      | AttrHex \<Rightarrow> format_number (d_floor (av_number v))
      | AttrInt \<Rightarrow> format_number (d_floor (av_number v))
      | AttrFloat \<Rightarrow> format_number (av_number v))"

definition write_indicator :: "signal \<Rightarrow> string" where
  "write_indicator s =
     (case sig_mux_role s of
        Multiplexor \<Rightarrow> '' M''
      | Multiplexed \<Rightarrow> '' m'' @ dec_word (sig_mux_value s)
      | MuxBoth \<Rightarrow> '' m'' @ dec_word (sig_mux_value s) @ ''M''
      | MuxNone \<Rightarrow> [])"

definition write_signal :: "signal \<Rightarrow> string" where
  "write_signal s =
     (let l = sig_layout s in
      '' SG_ '' @ sig_name s @ write_indicator s @ '' : '' @ dec_plain (unat (start_bit l)) @ ''|'' @ dec_plain (unat (bit_length l)) @ ''@'' @
      (if byte_order l = Intel then ''1'' else ''0'') @ (if signedness l = Signed then ''-'' else ''+'') @ '' ('' @
      format_number (factor l) @ '','' @ format_number (offset l) @ '') ['' @ format_number (minimum l) @ ''|'' @
      format_number (maximum l) @ ''] '' @ dbc_quoted (sig_unit s) @ '' '' @
      (if sig_receivers s = [] then kNoNode else separated [] '','' (sig_receivers s)) @ newline)"

definition write_values :: "value_description list \<Rightarrow> string" where
  "write_values vs = concat (map (\<lambda>(z, t). '' '' @ dec_signed z @ '' '' @ dbc_quoted t) vs)"

definition write_header :: "database \<Rightarrow> bool \<Rightarrow> string" where
  "write_header db synthesise =
     ''VERSION '' @ dbc_quoted (db_version db) @ newline @ newline @ newline @ ''NS_ : '' @ newline @
     concat (map (\<lambda>s. [CHR 0x09] @ s @ newline)
       (if db_new_symbols db \<noteq> [] then db_new_symbols db else if synthesise then kDefaultNewSymbols else [])) @
     newline @ ''BS_:'' @
     (case db_bit_timing db of
        None \<Rightarrow> []
      | Some bt \<Rightarrow> '' '' @ dec_word (baudrate bt) @ '' : '' @ dec_word (btr1 bt) @ '','' @ dec_word (btr2 bt)) @
     newline @ newline @ ''BU_:'' @ concat (map (\<lambda>n. '' '' @ node_name n) (db_nodes db)) @ newline @ newline"

definition write_value_tables :: "database \<Rightarrow> string" where
  "write_value_tables db =
     concat (map (\<lambda>t. ''VAL_TABLE_ '' @ vt_name t @ write_values (vt_values t) @ '' ;'' @ newline) (db_value_tables db)) @
     (if db_value_tables db \<noteq> [] then newline else [])"

definition write_message :: "message \<Rightarrow> string" where
  "write_message m =
     ''BO_ '' @ dec_word (wire_id (msg_id m)) @ '' '' @ msg_name m @ '': '' @ dec_plain (unat (msg_dlc m)) @ '' '' @
     (if msg_transmitter m = [] then kNoNode else msg_transmitter m) @ newline @
     concat (map write_signal (msg_signals m)) @ newline"

definition write_transmitters :: "message \<Rightarrow> string" where
  "write_transmitters m =
     (if msg_additional_transmitters m = [] then []
      else ''BO_TX_BU_ '' @ dec_word (wire_id (msg_id m)) @ '' :'' @ separated '' '' '','' (msg_additional_transmitters m) @ '';'' @ newline)"

definition write_comments :: "database \<Rightarrow> string" where
  "write_comments db =
     (if db_comment db \<noteq> [] then ''CM_ '' @ dbc_quoted (db_comment db) @ '';'' @ newline else []) @
     concat (map (\<lambda>n. if node_comment n \<noteq> [] then ''CM_ BU_ '' @ node_name n @ '' '' @ dbc_quoted (node_comment n) @ '';'' @ newline else [])
       (db_nodes db)) @
     concat (map (\<lambda>m.
       (if msg_comment m \<noteq> [] then ''CM_ BO_ '' @ dec_word (wire_id (msg_id m)) @ '' '' @ dbc_quoted (msg_comment m) @ '';'' @ newline else []) @
       concat (map (\<lambda>s. if sig_comment s \<noteq> []
         then ''CM_ SG_ '' @ dec_word (wire_id (msg_id m)) @ '' '' @ sig_name s @ '' '' @ dbc_quoted (sig_comment s) @ '';'' @ newline else [])
         (msg_signals m))) (db_messages db))"

text \<open>\<open>to_string(AttributeType)\<close>.\<close>

definition type_text :: "attribute_type \<Rightarrow> string" where
  "type_text t = (case t of AttrInt \<Rightarrow> ''INT'' | AttrHex \<Rightarrow> ''HEX'' | AttrFloat \<Rightarrow> ''FLOAT'' | AttrString \<Rightarrow> ''STRING'' | AttrEnum \<Rightarrow> ''ENUM'')"

definition write_definition :: "attribute_definition \<Rightarrow> string" where
  "write_definition d =
     ''BA_DEF_ '' @
     (case ad_object d of ObjNode \<Rightarrow> ''BU_ '' | ObjMessage \<Rightarrow> ''BO_ '' | ObjSignal \<Rightarrow> ''SG_ '' | ObjEnvVar \<Rightarrow> ''EV_ '' | ObjDatabase \<Rightarrow> []) @
     dbc_quoted (ad_name d) @ '' '' @ type_text (ad_type d) @
     (case ad_type d of
        AttrInt \<Rightarrow> '' '' @ format_number (d_floor (ad_minimum d)) @ '' '' @ format_number (d_floor (ad_maximum d))
      | AttrHex \<Rightarrow> '' '' @ format_number (d_floor (ad_minimum d)) @ '' '' @ format_number (d_floor (ad_maximum d))
      | AttrFloat \<Rightarrow> '' '' @ format_number (ad_minimum d) @ '' '' @ format_number (ad_maximum d)
      | AttrEnum \<Rightarrow> separated '' '' '','' (map dbc_quoted (ad_enum_values d))
      | AttrString \<Rightarrow> '' '') @ '';'' @ newline"

definition write_default :: "attribute_definition \<Rightarrow> string" where
  "write_default d =
     (if ad_has_default d
      then ''BA_DEF_DEF_ '' @ dbc_quoted (ad_name d) @ '' '' @ attribute_literal (ad_default_value d) True @ '';'' @ newline else [])"

text \<open>\<open>emit_values\<close>.\<close>

definition write_assignments :: "string \<Rightarrow> attribute_map \<Rightarrow> string" where
  "write_assignments target vs =
     concat (map (\<lambda>(n, v). ''BA_ '' @ dbc_quoted n @ (if target \<noteq> [] then '' '' @ target else []) @ '' '' @
       attribute_literal v False @ '';'' @ newline) vs)"

definition write_attributes :: "database \<Rightarrow> string" where
  "write_attributes db =
     concat (map write_definition (db_attribute_definitions db)) @ concat (map write_default (db_attribute_definitions db)) @
     write_assignments [] (db_attributes db) @
     concat (map (\<lambda>n. write_assignments (''BU_ '' @ node_name n) (node_attributes n)) (db_nodes db)) @
     concat (map (\<lambda>m. write_assignments (''BO_ '' @ dec_word (wire_id (msg_id m))) (msg_attributes m) @
       concat (map (\<lambda>s. write_assignments (''SG_ '' @ dec_word (wire_id (msg_id m)) @ '' '' @ sig_name s) (sig_attributes s))
         (msg_signals m))) (db_messages db))"

text \<open>The three loops over the signals of every message.\<close>

definition per_signal :: "(message \<Rightarrow> signal \<Rightarrow> string) \<Rightarrow> database \<Rightarrow> string" where
  "per_signal f db = concat (map (\<lambda>m. concat (map (f m) (msg_signals m))) (db_messages db))"

definition write_descriptions :: "message \<Rightarrow> signal \<Rightarrow> string" where
  "write_descriptions m s =
     (if sig_value_descriptions s = [] then []
      else ''VAL_ '' @ dec_word (wire_id (msg_id m)) @ '' '' @ sig_name s @ write_values (sig_value_descriptions s) @ '' ;'' @ newline)"

definition write_value_type :: "message \<Rightarrow> signal \<Rightarrow> string" where
  "write_value_type m s =
     (if value_type (sig_layout s) = Integer then []
      else ''SIG_VALTYPE_ '' @ dec_word (wire_id (msg_id m)) @ '' '' @ sig_name s @ '' : '' @
        (if value_type (sig_layout s) = Float32 then ''1'' else ''2'') @ '';'' @ newline)"

definition write_ranges :: "message \<Rightarrow> signal \<Rightarrow> string" where
  "write_ranges m s =
     (if sig_mux_ranges s = [] then []
      else ''SG_MUL_VAL_ '' @ dec_word (wire_id (msg_id m)) @ '' '' @ sig_name s @ '' '' @ sig_multiplexor_name s @
        separated '' '' '', '' (map (\<lambda>(lo, hi). dec_word lo @ ''-'' @ dec_word hi) (sig_mux_ranges s)) @ '';'' @ newline)"

definition to_crlf :: "string \<Rightarrow> string" where
  "to_crlf s = concat (map (\<lambda>c. if c = CHR 0x0A then [CHR 0x0D, c] else [c]) s)"

record write_options =
  synthesise_new_symbols :: bool
  crlf :: bool

definition write_dbc :: "database \<Rightarrow> write_options \<Rightarrow> string" where
  "write_dbc db opt =
     (let out = write_header db (synthesise_new_symbols opt) @ write_value_tables db @ concat (map write_message (db_messages db)) @
            concat (map write_transmitters (db_messages db)) @ write_comments db @ write_attributes db @
            per_signal write_descriptions db @ per_signal write_value_type db @ per_signal write_ranges db
      in if crlf opt then to_crlf out else out)"

end
