(* ===== verification/SignalSource.thy ===== *)
theory SignalSource
  imports Decimal Prelude
begin

text \<open>
  \<open>sim/SignalSource\<close>: the value generators and the virtual clock. A source with its state is one datatype, a
  constructor per class; sampling returns the value and the source afterwards. The random generator, the two
  distributions and \<open>std::sin\<close>, whose results the standard leaves to the implementation, are the functions of a
  \<open>maths\<close> record that every operation is given.
\<close>

record 'r maths =
  seeded :: "u64 \<Rightarrow> 'r"
  draw_real :: "double \<Rightarrow> double \<Rightarrow> 'r \<Rightarrow> double \<times> 'r"
  draw_int :: "int \<Rightarrow> int \<Rightarrow> 'r \<Rightarrow> int \<times> 'r"
  sin_of :: "double \<Rightarrow> double"

text \<open>A decimal literal of the code.\<close>

abbreviation lit :: "nat \<Rightarrow> int \<Rightarrow> double" where "lit m e \<equiv> decimal_value m e"

definition kNs :: double where "kNs = lit 1 9"
definition kPi :: double where "kPi = lit 314159265358979323846 (-20)"

text \<open>\<open>std::clamp\<close>.\<close>

definition d_clamp :: "double \<Rightarrow> double \<Rightarrow> double \<Rightarrow> double" where
  "d_clamp v lo hi = (if d_less v lo then lo else if d_less hi v then hi else v)"

definition of_u64 :: "u64 \<Rightarrow> double" where "of_u64 w = of_integer (uint w)"

datatype ramp_mode = RampClamp | RampRepeat | RampPingPong

record keyframe =
  kf_at :: u64
  kf_value :: double

record walk =
  wk_start :: double
  wk_step :: double
  wk_low :: double
  wk_high :: double
  wk_seed :: u64
  wk_interval :: u64

datatype 'r generator =
    Constant double
  | Ramp double double u64 ramp_mode
  | Sine double double double double
  | Square double double u64 double
  | RandomWalk walk double u64 'r
  | Keyframes "keyframe list" bool
  | Combine "'r generator list" bool
  | Affine "'r generator" double double
  | Clamped "'r generator" double double

subsection \<open>The pure generators\<close>

definition ramp_sample :: "double \<Rightarrow> double \<Rightarrow> u64 \<Rightarrow> ramp_mode \<Rightarrow> u64 \<Rightarrow> double" where
  "ramp_sample a b over mode t =
     (let cycle = t div over; phase = d_div (of_u64 (t mod over)) (of_u64 over);
          along = (\<lambda>phase. d_add a (d_mul (d_sub b a) phase))
      in case mode of
           RampClamp \<Rightarrow> if t \<ge> over then b else along phase
         | RampRepeat \<Rightarrow> along phase
         | RampPingPong \<Rightarrow> along (if cycle mod 2 = 1 then d_sub (lit 1 0) phase else phase))"

definition sine_sample :: "'r maths \<Rightarrow> double \<Rightarrow> double \<Rightarrow> double \<Rightarrow> double \<Rightarrow> u64 \<Rightarrow> double" where
  "sine_sample lib amp hz off phase t =
     (let seconds = d_div (of_u64 t) kNs
      in d_add off (d_mul amp (sin_of lib (d_add (d_mul (d_mul (d_mul (lit 2 0) kPi) hz) seconds) phase))))"

definition square_sample :: "double \<Rightarrow> double \<Rightarrow> u64 \<Rightarrow> double \<Rightarrow> u64 \<Rightarrow> double" where
  "square_sample low high period duty t =
     (let phase = d_div (of_u64 (t mod period)) (of_u64 period) in if d_less phase duty then high else low)"

text \<open>The segment of the keyframes that holds a time inside them.\<close>

fun segment :: "keyframe list \<Rightarrow> u64 \<Rightarrow> keyframe \<times> keyframe" where
  "segment (a # b # c # fs) t = (if kf_at b \<le> t then segment (b # c # fs) t else (a, b))"
| "segment [a, b] t = (a, b)"
| "segment fs t = (hd fs, hd fs)"

definition keyframes_sample :: "keyframe list \<Rightarrow> bool \<Rightarrow> u64 \<Rightarrow> double" where
  "keyframes_sample fs interpolate t =
     (if fs = [] then dzero
      else if t \<le> kf_at (hd fs) then kf_value (hd fs)
      else if t \<ge> kf_at (last fs) then kf_value (last fs)
      else
        let (a, b) = segment fs t in
        if \<not> interpolate \<or> kf_at b = kf_at a then kf_value a
        else d_add (kf_value a) (d_mul (d_sub (kf_value b) (kf_value a))
               (d_div (of_u64 (t - kf_at a)) (of_u64 (kf_at b - kf_at a)))))"

subsection \<open>Sampling\<close>

lemma unat_next: "i < (n :: u64) \<Longrightarrow> unat (i + 1) = unat i + 1"
  using unat_less_exp [of n] by (simp add: unat_add_wrap word_less_nat_alt)

text \<open>The loop of the random walk from one step index to another.\<close>

function walk_to :: "'r maths \<Rightarrow> walk \<Rightarrow> u64 \<Rightarrow> double \<Rightarrow> u64 \<Rightarrow> 'r \<Rightarrow> double \<times> u64 \<times> 'r" where
  "walk_to lib w want v i r =
     (if i < want
      then let (d, r) = draw_real lib (d_neg (wk_step w)) (wk_step w) r
           in walk_to lib w want (d_clamp (d_add v d) (wk_low w) (wk_high w)) (i + 1) r
      else (v, i, r))"
  by pat_completeness auto
termination
proof (relation "measure (\<lambda>(lib, w, want, v, i, r). unat want - unat i)")
  fix lib :: "'r maths" and w and want i :: u64 and v r p d r'
  assume i: "i < want"
  show "((lib, w, want, d_clamp (d_add v d) (wk_low w) (wk_high w), i + 1, r'), lib, w, want, v, i, r)
      \<in> measure (\<lambda>(lib, w, want, v, i, r). unat want - unat i)"
    using i by (simp add: unat_next word_less_nat_alt)
qed simp

declare walk_to.simps [simp del]

definition walk_sample :: "'r maths \<Rightarrow> walk \<Rightarrow> u64 \<Rightarrow> double \<Rightarrow> u64 \<Rightarrow> 'r \<Rightarrow> double \<times> u64 \<times> 'r" where
  "walk_sample lib w t v i r =
     (let want = t div wk_interval w in
      if want < i then walk_to lib w want (wk_start w) 0 (seeded lib (wk_seed w)) else walk_to lib w want v i r)"

fun sample :: "'r maths \<Rightarrow> u64 \<Rightarrow> 'r generator \<Rightarrow> double \<times> 'r generator"
  and sample_parts :: "'r maths \<Rightarrow> u64 \<Rightarrow> bool \<Rightarrow> double \<Rightarrow> 'r generator list \<Rightarrow> double \<times> 'r generator list" where
  "sample lib t (Constant v) = (v, Constant v)"
| "sample lib t (Ramp a b over mode) = (ramp_sample a b over mode t, Ramp a b over mode)"
| "sample lib t (Sine amp hz off phase) = (sine_sample lib amp hz off phase t, Sine amp hz off phase)"
| "sample lib t (Square low high period duty) = (square_sample low high period duty t, Square low high period duty)"
| "sample lib t (RandomWalk w v i r) = (let (v, i, r) = walk_sample lib w t v i r in (v, RandomWalk w v i r))"
| "sample lib t (Keyframes fs interpolate) = (keyframes_sample fs interpolate t, Keyframes fs interpolate)"
| "sample lib t (Combine parts multiply) =
     (let (v, ps) = sample_parts lib t multiply (if multiply then lit 1 0 else dzero) parts in (v, Combine ps multiply))"
| "sample lib t (Affine s f off) = (let (v, s) = sample lib t s in (d_add (d_mul v f) off, Affine s f off))"
| "sample lib t (Clamped s lo hi) = (let (v, s) = sample lib t s in (d_clamp v lo hi, Clamped s lo hi))"
| "sample_parts lib t multiply acc [] = (acc, [])"
| "sample_parts lib t multiply acc (p # ps) =
     (let (v, p) = sample lib t p;
          (acc, ps) = sample_parts lib t multiply (if multiply then d_mul acc v else d_add acc v) ps
      in (acc, p # ps))"

fun source_reset :: "'r maths \<Rightarrow> 'r generator \<Rightarrow> 'r generator" where
  "source_reset lib (RandomWalk w v i r) = RandomWalk w (wk_start w) 0 (seeded lib (wk_seed w))"
| "source_reset lib (Combine parts multiply) = Combine (map (source_reset lib) parts) multiply"
| "source_reset lib (Affine s f off) = Affine (source_reset lib s) f off"
| "source_reset lib (Clamped s lo hi) = Clamped (source_reset lib s) lo hi"
| "source_reset lib s = s"

subsection \<open>Construction\<close>

definition at_least_one :: "u64 \<Rightarrow> u64" where "at_least_one n = (if n = 0 then 1 else n)"

definition ramp :: "double \<Rightarrow> double \<Rightarrow> u64 \<Rightarrow> ramp_mode \<Rightarrow> 'r generator" where
  "ramp a b over mode = Ramp a b (at_least_one over) mode"

definition sine :: "double \<Rightarrow> double \<Rightarrow> double \<Rightarrow> double \<Rightarrow> 'r generator" where
  "sine amp hz off degrees = Sine amp hz off (d_div (d_mul degrees kPi) (lit 180 0))"

definition square :: "double \<Rightarrow> double \<Rightarrow> u64 \<Rightarrow> double \<Rightarrow> 'r generator" where
  "square low high period duty = Square low high (at_least_one period) (d_clamp duty dzero (lit 1 0))"

definition random_walk :: "'r maths \<Rightarrow> double \<Rightarrow> double \<Rightarrow> double \<Rightarrow> double \<Rightarrow> u64 \<Rightarrow> u64 \<Rightarrow> 'r generator" where
  "random_walk lib start step low high seed interval =
     RandomWalk \<lparr>wk_start = start, wk_step = step, wk_low = low, wk_high = high, wk_seed = seed, wk_interval = at_least_one interval\<rparr>
       start 0 (seeded lib seed)"

definition keyframes :: "keyframe list \<Rightarrow> bool \<Rightarrow> 'r generator" where
  "keyframes fs interpolate = Keyframes (sort_key kf_at fs) interpolate"

text \<open>The virtual clock.\<close>

definition clock_advance :: "u64 \<Rightarrow> u64 \<Rightarrow> u64" where "clock_advance now by_ns = now + by_ns"

end
