(* ===== verification/SourceText.thy ===== *)
theory SourceText
  imports SignalSource
begin

text \<open>
  The signal source expressions of \<open>sim/src/Config.cpp\<close>: quantities with units, the words of an expression, and
  \<open>build_source\<close>. The index into the words is the list of those not read yet. A cast of a double outside the
  range of the integer is undefined in C++ and is the value \<open>None\<close>.
\<close>

subsection \<open>Quantities\<close>

definition cast_in :: "int \<Rightarrow> int \<Rightarrow> double \<Rightarrow> int option" where
  "cast_in lo hi v = (case d_trunc v of Some z \<Rightarrow> if lo \<le> z \<and> z \<le> hi then Some z else None | None \<Rightarrow> None)"

definition cast_to_u64 :: "double \<Rightarrow> u64 option" where
  "cast_to_u64 v = map_option of_int (cast_in 0 (2 ^ 64 - 1) v)"

definition in_quantity :: "char \<Rightarrow> bool" where "in_quantity c \<longleftrightarrow> is_digit c \<or> c = CHR ''.''"

definition unit_scale :: "string \<Rightarrow> double option" where
  "unit_scale u =
     (if u = ''ns'' then Some (lit 1 0)
      else if u = ''us'' then Some (lit 1 3)
      else if u = ''ms'' then Some (lit 1 6)
      else if u = ''s'' \<or> u = [] then Some (lit 1 9)
      else if u = ''m'' \<or> u = ''min'' then Some (lit 60 9)
      else None)"

text \<open>The inner option is the code's result: \<open>None\<close> when it returns \<open>false\<close>.\<close>

definition duration_from :: "string \<Rightarrow> u64 option option" where
  "duration_from s =
     (let digits = takeWhile in_quantity s in
      if digits = [] then Some None
      else case unit_scale (dropWhile in_quantity s) of
             None \<Rightarrow> Some None
           | Some scale \<Rightarrow>
               if d_less (strtod digits) dzero then Some None
               else map_option Some (cast_to_u64 (d_mul (strtod digits) scale)))"

definition number_from :: "string \<Rightarrow> double option" where
  "number_from s =
     (let has_sign = (s \<noteq> [] \<and> (hd s = CHR ''-'' \<or> hd s = CHR ''+''));
          digits = takeWhile in_quantity (if has_sign then tl s else s)
      in if digits = [] then None
         else Some (if has_sign \<and> hd s = CHR ''-'' then d_neg (strtod digits) else strtod digits))"

subsection \<open>Words\<close>

text \<open>\<open>isspace\<close> in the C locale.\<close>

definition is_space :: "char \<Rightarrow> bool" where
  "is_space c \<longleftrightarrow> c = CHR '' '' \<or> 9 \<le> (of_char c :: nat) \<and> (of_char c :: nat) \<le> 13"

function split_words :: "string \<Rightarrow> string list" where
  "split_words s =
     (let s = dropWhile is_space s in
      if s = [] then [] else takeWhile (\<lambda>c. \<not> is_space c) s # split_words (dropWhile (\<lambda>c. \<not> is_space c) s))"
  by pat_completeness auto
termination
proof (relation "measure length")
  fix s t :: string
  assume t: "t = dropWhile is_space s" "t \<noteq> []"
  then have "\<not> is_space (hd t)" using hd_dropWhile [of is_space s] by simp
  then have "dropWhile (\<lambda>c. \<not> is_space c) t = dropWhile (\<lambda>c. \<not> is_space c) (tl t)" using t(2) by (cases t) simp_all
  then have "length (dropWhile (\<lambda>c. \<not> is_space c) t) < length t" using t(2) by (cases t) (simp_all add: length_dropWhile_le le_imp_less_Suc)
  also have "length t \<le> length s" unfolding t(1) by (rule length_dropWhile_le)
  finally show "(dropWhile (\<lambda>c. \<not> is_space c) t, s) \<in> measure length" by simp
qed simp

declare split_words.simps [simp del]

definition take_number :: "string list \<Rightarrow> double option \<times> string list" where
  "take_number ws = (case ws of [] \<Rightarrow> (None, []) | w # ws \<Rightarrow> (number_from w, ws))"

definition take_duration :: "string list \<Rightarrow> (u64 option \<times> string list) option" where
  "take_duration ws = (case ws of [] \<Rightarrow> Some (None, []) | w # ws \<Rightarrow> map_option (\<lambda>d. (d, ws)) (duration_from w))"

text \<open>An output argument that keeps its value when nothing was read.\<close>

definition or_keep :: "'a \<Rightarrow> 'a option \<Rightarrow> 'a" where "or_keep old r = (case r of None \<Rightarrow> old | Some v \<Rightarrow> v)"

subsection \<open>The sources\<close>

definition ramp_source :: "string list \<Rightarrow> ('r generator \<times> string list) result option" where
  "ramp_source ws =
     (case take_number ws of
        (None, ws) \<Rightarrow> Some (Inl (plain_error ParseBadNumber ''ramp needs a start value''))
      | (Some a, ws) \<Rightarrow>
          (case take_number (if ws \<noteq> [] \<and> hd ws = ''to'' then tl ws else ws) of
             (None, ws) \<Rightarrow> Some (Inl (plain_error ParseBadNumber ''ramp needs an end value''))
           | (Some b, ws) \<Rightarrow>
               Option.bind (if ws \<noteq> [] \<and> hd ws = ''over'' then take_duration (tl ws) else Some (Some 1000000000, ws)) (\<lambda>(d, ws).
               case d of
                 None \<Rightarrow> Some (Inl (plain_error ParseBadNumber (''ramp needs a duration after '' @ [CHR 0x27] @ ''over'' @ [CHR 0x27])))
               | Some over \<Rightarrow>
                   if ws \<noteq> [] \<and> hd ws = ''repeat'' then Some (Inr (ramp a b over RampRepeat, tl ws))
                   else if ws \<noteq> [] \<and> hd ws = ''pingpong'' then Some (Inr (ramp a b over RampPingPong, tl ws))
                   else Some (Inr (ramp a b over RampClamp, ws)))))"

text \<open>
  The loops over \<open>key value\<close> pairs. One pass of a loop returns the arguments changed, or nothing when the word is
  not a key and the loop stops.
\<close>

fun key_values :: "(string \<Rightarrow> string \<Rightarrow> 'a \<Rightarrow> 'a option option) \<Rightarrow> string list \<Rightarrow> 'a \<Rightarrow> ('a \<times> string list) option" where
  "key_values key (k # w # ws) a =
     (case key k w a of
        None \<Rightarrow> None
      | Some None \<Rightarrow> Some (a, k # w # ws)
      | Some (Some a) \<Rightarrow> key_values key ws a)"
| "key_values key ws a = Some (a, ws)"

type_synonym sine_args = "double \<times> double \<times> double \<times> double"

definition sine_key :: "string \<Rightarrow> string \<Rightarrow> sine_args \<Rightarrow> sine_args option option" where
  "sine_key k w a =
     (let (amp, freq, off, phase) = a in
      if k = ''amp'' then Some (Some (or_keep amp (number_from w), freq, off, phase))
      else if k = ''freq'' then Some (Some (amp, or_keep freq (number_from w), off, phase))
      else if k = ''offset'' then Some (Some (amp, freq, or_keep off (number_from w), phase))
      else if k = ''phase'' then Some (Some (amp, freq, off, or_keep phase (number_from w)))
      else Some None)"

definition sine_source :: "string list \<Rightarrow> ('r generator \<times> string list) result option" where
  "sine_source ws =
     map_option (\<lambda>((amp, freq, off, phase), ws). Inr (sine amp freq off phase, ws))
       (key_values sine_key ws (lit 1 0, lit 1 0, dzero, dzero))"

type_synonym square_args = "double \<times> double \<times> u64 \<times> double"

definition square_key :: "string \<Rightarrow> string \<Rightarrow> square_args \<Rightarrow> square_args option option" where
  "square_key k w a =
     (let (low, high, period, duty) = a in
      if k = ''low'' then Some (Some (or_keep low (number_from w), high, period, duty))
      else if k = ''high'' then Some (Some (low, or_keep high (number_from w), period, duty))
      else if k = ''period'' then map_option (\<lambda>d. Some (low, high, or_keep period d, duty)) (duration_from w)
      else if k = ''duty'' then Some (Some (low, high, period, or_keep duty (number_from w)))
      else Some None)"

definition square_source :: "string list \<Rightarrow> ('r generator \<times> string list) result option" where
  "square_source ws =
     map_option (\<lambda>((low, high, period, duty), ws). Inr (square low high period duty, ws))
       (key_values square_key ws (dzero, lit 1 0, 1000000000, lit 5 (-1)))"

text \<open>The walk takes its seed as a double and casts it at the end.\<close>

type_synonym walk_args = "walk \<times> double"

definition walk_key :: "string \<Rightarrow> string \<Rightarrow> walk_args \<Rightarrow> walk_args option option" where
  "walk_key k w a =
     (let (p, seed) = a in
      if k = ''start'' then Some (Some (p\<lparr>wk_start := or_keep (wk_start p) (number_from w)\<rparr>, seed))
      else if k = ''step'' then Some (Some (p\<lparr>wk_step := or_keep (wk_step p) (number_from w)\<rparr>, seed))
      else if k = ''min'' then Some (Some (p\<lparr>wk_low := or_keep (wk_low p) (number_from w)\<rparr>, seed))
      else if k = ''max'' then Some (Some (p\<lparr>wk_high := or_keep (wk_high p) (number_from w)\<rparr>, seed))
      else if k = ''seed'' then Some (Some (p, or_keep seed (number_from w)))
      else if k = ''every'' then map_option (\<lambda>d. Some (p\<lparr>wk_interval := or_keep (wk_interval p) d\<rparr>, seed)) (duration_from w)
      else Some None)"

definition default_walk :: walk where
  "default_walk = \<lparr>wk_start = dzero, wk_step = lit 1 0, wk_low = dzero, wk_high = lit 100 0, wk_seed = 0, wk_interval = 100000000\<rparr>"

definition walk_source :: "'r maths \<Rightarrow> string list \<Rightarrow> ('r generator \<times> string list) result option" where
  "walk_source lib ws =
     Option.bind (key_values walk_key ws (default_walk, lit 1 0)) (\<lambda>((p, seed), ws).
     map_option (\<lambda>s. Inr (random_walk lib (wk_start p) (wk_step p) (wk_low p) (wk_high p) s (wk_interval p), ws)) (cast_to_u64 seed))"

fun keyframe_words :: "string list \<Rightarrow> (keyframe list \<times> string list) option" where
  "keyframe_words [] = Some ([], [])"
| "keyframe_words (w # ws) =
     (if CHR ''='' \<notin> set w then Some ([], w # ws)
      else Option.bind (duration_from (takeWhile (\<lambda>c. c \<noteq> CHR ''='') w)) (\<lambda>d.
           case d of
             None \<Rightarrow> Some ([], w # ws)
           | Some due \<Rightarrow>
               (case number_from (tl (dropWhile (\<lambda>c. c \<noteq> CHR ''='') w)) of
                  None \<Rightarrow> Some ([], w # ws)
                | Some v \<Rightarrow> map_option (\<lambda>(fs, ws). (\<lparr>kf_at = due, kf_value = v\<rparr> # fs, ws)) (keyframe_words ws))))"

definition build_one :: "'r maths \<Rightarrow> string list \<Rightarrow> ('r generator \<times> string list) result option" where
  "build_one lib words =
     (case words of
        [] \<Rightarrow> Some (Inl (plain_error ParseUnexpectedEof ''empty signal source expression''))
      | kind # ws \<Rightarrow>
          if kind = ''const'' \<or> kind = ''constant'' then
            case take_number ws of
              (None, ws) \<Rightarrow> Some (Inl (plain_error ParseBadNumber ''const needs a value''))
            | (Some v, ws) \<Rightarrow> Some (Inr (Constant v, ws))
          else if kind = ''ramp'' then ramp_source ws
          else if kind = ''sine'' then sine_source ws
          else if kind = ''square'' then square_source ws
          else if kind = ''walk'' \<or> kind = ''random_walk'' then walk_source lib ws
          else if kind = ''keyframes'' then
            map_option (\<lambda>(fs, ws).
              if fs = [] then Inl (plain_error ParseSemantic ''keyframes needs at least one <time>=<value> pair'')
              else Inr (keyframes fs True, ws)) (keyframe_words ws)
          else case number_from kind of
                 Some v \<Rightarrow> Some (Inr (Constant v, ws))
               | None \<Rightarrow> Some (Inl (plain_error ParseUnknownKeyword ''unknown signal source'')))"

subsection \<open>Compositions\<close>

text \<open>Building reads words: the loop below ends.\<close>

lemma length_key_values: "key_values key ws a = Some (b, ws') \<Longrightarrow> length ws' \<le> length ws"
  by (induction key ws a rule: key_values.induct) (auto split: option.splits)

lemma length_keyframes: "keyframe_words ws = Some (fs, ws') \<Longrightarrow> length ws' \<le> length ws"
  by (induction ws arbitrary: fs) (fastforce split: if_splits option.splits simp: bind_eq_Some_conv)+

lemma length_take_number: "take_number ws = (r, ws') \<Longrightarrow> length ws' \<le> length ws"
  by (auto simp: take_number_def split: list.splits)

lemma length_take_duration: "take_duration ws = Some (r, ws') \<Longrightarrow> length ws' \<le> length ws"
  by (auto simp: take_duration_def split: list.splits)

lemma length_ramp:
  assumes "ramp_source ws = Some (Inr (g, ws'))"
  shows "length ws' \<le> length ws"
proof -
  have drop: "length (tl (ws :: string list)) \<le> length ws" for ws by (cases ws) simp_all
  show ?thesis
    using assms
    by (auto simp: ramp_source_def bind_eq_Some_conv split: prod.splits option.splits if_splits
        dest!: length_take_number length_take_duration intro: order_trans [OF drop] order_trans)
qed

lemma length_build_one:
  assumes "build_one lib ws = Some (Inr (g, ws'))"
  shows "length ws' < length ws"
proof -
  obtain k vs where ws: "ws = k # vs" using assms by (cases ws) (auto simp: build_one_def)
  have "length ws' \<le> length vs"
    using assms unfolding ws build_one_def
    by (auto simp: sine_source_def square_source_def walk_source_def bind_eq_Some_conv split: if_splits prod.splits option.splits
        dest!: length_take_number length_ramp length_key_values length_keyframes)
  then show ?thesis by (simp add: ws)
qed

function compose_source :: "'r maths \<Rightarrow> 'r generator \<Rightarrow> string list \<Rightarrow> 'r generator result option" where
  "compose_source lib g ws =
     (if ws = [] then Some (Inr g)
      else if hd ws = ''+'' then
        case build_one lib (tl ws) of
          None \<Rightarrow> None
        | Some (Inl e) \<Rightarrow> Some (Inl e)
        | Some (Inr (h, ws)) \<Rightarrow> compose_source lib (Combine [g, h] False) ws
      else if hd ws = ''*'' then
        case take_number (tl ws) of
          (None, ws) \<Rightarrow> Some (Inl (plain_error ParseBadNumber ([CHR 0x27] @ ''*'' @ [CHR 0x27] @ '' needs a number'')))
        | (Some factor, ws) \<Rightarrow> compose_source lib (Affine g factor dzero) ws
      else if hd ws = ''clamp'' \<and> length ws > 2 then
        case (number_from (ws ! 1), number_from (ws ! 2)) of
          (Some low, Some high) \<Rightarrow> compose_source lib (Clamped g low high) (drop 3 ws)
        | _ \<Rightarrow> Some (Inl (plain_error ParseBadNumber ''clamp needs a low and a high value''))
      else Some (Inl (plain_error ParseUnexpectedToken ''trailing text after the signal source expression'')))"
  by pat_completeness auto
termination
proof -
  have "(Some v, vs) = take_number (tl ws) \<Longrightarrow> ws \<noteq> [] \<Longrightarrow> length vs < length ws" for v vs and ws :: "string list"
    using length_take_number [of "tl ws" "Some v" vs] by (cases ws) auto
  then show ?thesis
    by (relation "measure (\<lambda>(lib, g, ws). length ws)") (auto dest: length_build_one)
qed

declare compose_source.simps [simp del]

definition build_source :: "'r maths \<Rightarrow> string \<Rightarrow> 'r generator result option" where
  "build_source lib expression =
     (case build_one lib (split_words expression) of
        None \<Rightarrow> None
      | Some (Inl e) \<Rightarrow> Some (Inl e)
      | Some (Inr (g, ws)) \<Rightarrow> compose_source lib g ws)"

end
