(* ===== verification/Vehicle.thy ===== *)
theory Vehicle
  imports SignalSource
begin

text \<open>
  \<open>sim/Vehicle\<close>: the plant, integrated in steps of one millisecond in IEEE doubles, every operation rounded once
  and in the order of the code. \<open>std::max(a, b)\<close> is \<open>a < b ? b : a\<close>. The loop of \<open>step\<close> subtracts doubles, so
  that not returning is the value \<open>None\<close>.
\<close>

record vehicle_params =
  mass_kg :: double
  wheel_radius_m :: double
  drag_area :: double
  rolling_resistance :: double
  gear_ratios :: "double list"
  final_drive :: double
  idle_rpm :: double
  max_rpm :: double
  peak_torque_nm :: double
  engine_inertia :: double
  brake_torque_per_bar :: double
  ambient_temp_c :: double
  coolant_time_constant_s :: double

definition default_params :: vehicle_params where
  "default_params = \<lparr>mass_kg = lit 1500 0, wheel_radius_m = lit 32 (-2), drag_area = lit 70 (-2), rolling_resistance = lit 13 (-3),
     gear_ratios = [lit 35 (-1), lit 21 (-1), lit 14 (-1), lit 1 0, lit 8 (-1)], final_drive = lit 39 (-1), idle_rpm = lit 800 0,
     max_rpm = lit 6500 0, peak_torque_nm = lit 250 0, engine_inertia = lit 25 (-2), brake_torque_per_bar = lit 220 0,
     ambient_temp_c = lit 20 0, coolant_time_constant_s = lit 90 0\<rparr>"

record vehicle_state =
  engine_rpm :: double
  speed_mps :: double
  distance_m :: double
  acceleration_mps2 :: double
  engine_torque_nm :: double
  coolant_temp_c :: double
  fuel_rate_lph :: double
  gear :: int
  throttle_pct :: double
  brake_bar :: double

definition default_state :: vehicle_state where
  "default_state = \<lparr>engine_rpm = lit 800 0, speed_mps = dzero, distance_m = dzero, acceleration_mps2 = dzero,
     engine_torque_nm = dzero, coolant_temp_c = lit 20 0, fuel_rate_lph = dzero, gear = 1, throttle_pct = dzero, brake_bar = dzero\<rparr>"

record vehicle =
  vh_params :: vehicle_params
  vh_state :: vehicle_state
  vh_leftover_ns :: double

definition default_vehicle :: vehicle where
  "default_vehicle = \<lparr>vh_params = default_params, vh_state = default_state, vh_leftover_ns = dzero\<rparr>"

definition new_vehicle :: "vehicle_params \<Rightarrow> vehicle" where
  "new_vehicle p = \<lparr>vh_params = p, vh_state = default_state\<lparr>engine_rpm := idle_rpm p, coolant_temp_c := ambient_temp_c p\<rparr>,
     vh_leftover_ns = dzero\<rparr>"

definition std_max :: "double \<Rightarrow> double \<Rightarrow> double" where
  "std_max a b = (if d_less a b then b else a)"

definition kRpmToRadPerSec :: double where
  "kRpmToRadPerSec = d_div (d_mul (lit 2 0) kPi) (lit 60 0)"

definition kStepNs :: double where "kStepNs = lit 1000000 0"

definition torque_shape :: "double \<Rightarrow> vehicle_params \<Rightarrow> double" where
  "torque_shape rpm p =
     (let lo = d_mul (idle_rpm p) (lit 6 (-1)); peak = d_mul (max_rpm p) (lit 55 (-2)) in
      if d_le rpm lo then lit 55 (-2)
      else if d_le rpm peak
      then d_add (lit 55 (-2)) (d_div (d_mul (lit 45 (-2)) (d_sub rpm lo)) (d_sub peak lo))
      else
        let falloff = d_div (d_sub rpm peak) (std_max (lit 1 0) (d_sub (max_rpm p) peak))
        in std_max (lit 15 (-2)) (d_sub (lit 1 0) (d_mul (lit 6 (-1)) falloff)))"

definition set_throttle :: "double \<Rightarrow> vehicle \<Rightarrow> vehicle" where
  "set_throttle percent v = v\<lparr>vh_state := (vh_state v)\<lparr>throttle_pct := d_clamp percent dzero (lit 100 0)\<rparr>\<rparr>"

definition set_brake :: "double \<Rightarrow> vehicle \<Rightarrow> vehicle" where
  "set_brake bar v = v\<lparr>vh_state := (vh_state v)\<lparr>brake_bar := d_clamp bar dzero (lit 150 0)\<rparr>\<rparr>"

definition set_gear :: "int \<Rightarrow> vehicle \<Rightarrow> vehicle" where
  "set_gear g v = v\<lparr>vh_state := (vh_state v)\<lparr>gear := min (max g 0) (int (length (gear_ratios (vh_params v))))\<rparr>\<rparr>"

subsection \<open>One integration step\<close>

definition in_gear :: "vehicle_params \<Rightarrow> vehicle_state \<Rightarrow> bool" where
  "in_gear p s \<longleftrightarrow> gear s \<ge> 1 \<and> gear s \<le> int (length (gear_ratios p))"

definition drive_ratio :: "vehicle_params \<Rightarrow> vehicle_state \<Rightarrow> double" where
  "drive_ratio p s = (if in_gear p s then d_mul (gear_ratios p ! nat (gear s - 1)) (final_drive p) else dzero)"

definition engine_torque :: "vehicle_params \<Rightarrow> vehicle_state \<Rightarrow> double \<Rightarrow> double" where
  "engine_torque p s demand =
     (let torque = d_mul (d_mul (peak_torque_nm p) demand) (torque_shape (engine_rpm s) p);
          torque = (if d_less (engine_rpm s) (idle_rpm p)
                    then d_add torque (d_div (d_mul (d_mul (peak_torque_nm p) (lit 25 (-2))) (d_sub (idle_rpm p) (engine_rpm s))) (idle_rpm p))
                    else torque)
      in d_sub torque (d_add (lit 8 0) (d_mul (lit 4 (-3)) (engine_rpm s))))"

text \<open>The force at the wheels, without and with the brake.\<close>

definition net_force :: "vehicle_params \<Rightarrow> vehicle_state \<Rightarrow> double \<Rightarrow> double" where
  "net_force p s torque =
     (let drag = d_mul (d_mul (drag_area p) (speed_mps s)) (d_abs (speed_mps s));
          roll = d_mul (d_mul (d_mul (rolling_resistance p) (mass_kg p)) (lit 981 (-2)))
                   (if d_less (lit 1 (-2)) (speed_mps s) then lit 1 0 else dzero);
          brake_force = d_div (d_mul (brake_torque_per_bar p) (brake_bar s)) (wheel_radius_m p);
          drive_force = (if in_gear p s then d_div (d_mul torque (drive_ratio p s)) (wheel_radius_m p) else dzero);
          net = d_sub (d_sub drive_force drag) roll
      in if d_less dzero (speed_mps s) then d_sub net brake_force else net)"

definition next_rpm :: "vehicle_params \<Rightarrow> vehicle_state \<Rightarrow> double \<Rightarrow> double \<Rightarrow> double" where
  "next_rpm p s torque dt =
     (let rpm =
        (if in_gear p s then
           let geared = d_div (d_mul (d_div (speed_mps s) (wheel_radius_m p)) (drive_ratio p s)) kRpmToRadPerSec;
               pull = d_clamp (d_div dt (lit 15 (-2))) dzero (lit 1 0)
           in d_add (engine_rpm s) (d_mul (d_sub (std_max geared (idle_rpm p)) (engine_rpm s)) pull)
         else
           let alpha = d_div torque (engine_inertia p)
           in d_add (engine_rpm s) (d_mul (d_div alpha kRpmToRadPerSec) dt))
      in d_clamp rpm dzero (max_rpm p))"

definition fuel_rate :: "double \<Rightarrow> double \<Rightarrow> double" where
  "fuel_rate torque rpm =
     d_add (lit 6 (-1))
       (d_mul (d_mul (d_div (d_mul (d_mul (std_max dzero torque) rpm) (lit 26 (-6))) (lit 60 0)) (lit 60 0)) (lit 1 (-3)))"

definition integrate :: "vehicle_params \<Rightarrow> double \<Rightarrow> vehicle_state \<Rightarrow> vehicle_state" where
  "integrate p dt s =
     (let demand = d_div (throttle_pct s) (lit 100 0);
          torque = engine_torque p s demand;
          s = s\<lparr>engine_torque_nm := torque\<rparr>;
          accel = d_div (net_force p s torque) (mass_kg p);
          stopped = (d_le (speed_mps s) dzero \<and> d_less accel dzero);
          accel = (if stopped then dzero else accel);
          s = (if stopped then s\<lparr>speed_mps := dzero\<rparr> else s);
          s = s\<lparr>acceleration_mps2 := accel, speed_mps := std_max dzero (d_add (speed_mps s) (d_mul accel dt))\<rparr>;
          s = s\<lparr>distance_m := d_add (distance_m s) (d_mul (speed_mps s) dt)\<rparr>;
          s = s\<lparr>engine_rpm := next_rpm p s torque dt\<rparr>;
          load = d_clamp demand dzero (lit 1 0);
          target = d_add (d_add (ambient_temp_c p) (lit 70 0)) (d_mul (lit 20 0) load);
          k = d_div dt (std_max (lit 1 0) (coolant_time_constant_s p));
          s = s\<lparr>coolant_temp_c := d_add (coolant_temp_c s) (d_mul (d_sub target (coolant_temp_c s)) k)\<rparr>
      in s\<lparr>fuel_rate_lph := fuel_rate torque (engine_rpm s)\<rparr>)"

partial_function (option) vehicle_run :: "vehicle \<Rightarrow> vehicle option" where
  "vehicle_run v =
     (if d_le kStepNs (vh_leftover_ns v)
      then vehicle_run (v\<lparr>vh_state := integrate (vh_params v) (d_div kStepNs (lit 1 9)) (vh_state v),
             vh_leftover_ns := d_sub (vh_leftover_ns v) kStepNs\<rparr>)
      else Some v)"

definition vehicle_step :: "u64 \<Rightarrow> vehicle \<Rightarrow> vehicle option" where
  "vehicle_step dt_ns v = vehicle_run (v\<lparr>vh_leftover_ns := d_add (vh_leftover_ns v) (of_u64 dt_ns)\<rparr>)"

subsection \<open>Named access\<close>

definition field_names :: "string list" where
  "field_names = [''engine_rpm'', ''speed_mps'', ''speed_kmh'', ''wheel_rpm'', ''gear'', ''throttle_pct'', ''brake_bar'',
     ''engine_torque_nm'', ''coolant_temp_c'', ''fuel_rate_lph'', ''distance_m'', ''accel_mps2'']"

definition vehicle_read :: "string \<Rightarrow> vehicle \<Rightarrow> double option" where
  "vehicle_read field v =
     (let s = vh_state v in
      if field = ''engine_rpm'' then Some (engine_rpm s)
      else if field = ''speed_mps'' then Some (speed_mps s)
      else if field = ''speed_kmh'' then Some (d_mul (speed_mps s) (lit 36 (-1)))
      else if field = ''wheel_rpm'' then Some (d_div (d_div (speed_mps s) (wheel_radius_m (vh_params v))) kRpmToRadPerSec)
      else if field = ''gear'' then Some (of_integer (gear s))
      else if field = ''throttle_pct'' then Some (throttle_pct s)
      else if field = ''brake_bar'' then Some (brake_bar s)
      else if field = ''engine_torque_nm'' then Some (engine_torque_nm s)
      else if field = ''coolant_temp_c'' then Some (coolant_temp_c s)
      else if field = ''fuel_rate_lph'' then Some (fuel_rate_lph s)
      else if field = ''distance_m'' then Some (distance_m s)
      else if field = ''accel_mps2'' then Some (acceleration_mps2 s)
      else None)"

end
