(* ===== verification/Faults.thy ===== *)
theory Faults
  imports SignalSource Database
begin

text \<open>
  \<open>sim/Faults\<close>: the faults on the transmit path of the simulator. \<open>process\<close> takes one frame of a node through
  the active faults in the order they were added; the frames it returns carry the time they are due on the bus.
\<close>

datatype fault_kind = DropFrames | DelayMessage | FreezeSignal | OutOfRange | StopNode | BitFlip

record fault =
  flt_kind :: fault_kind
  flt_name :: string
  flt_node :: string
  flt_id :: can_id
  flt_has_id :: bool
  flt_signal :: string
  flt_value :: double
  flt_probability :: double
  flt_delay_ns :: u64
  flt_active :: bool

definition new_fault :: fault where
  "new_fault = \<lparr>flt_kind = DropFrames, flt_name = [], flt_node = [], flt_id = CanId 0, flt_has_id = False, flt_signal = [],
     flt_value = dzero, flt_probability = dzero, flt_delay_ns = 0, flt_active = False\<rparr>"

type_synonym scheduled_frame = "u64 \<times> frame"

record frozen_value =
  frz_id :: u32
  frz_signal :: string
  frz_value :: double
  frz_captured :: bool

record 'r injector =
  inj_faults :: "fault list"
  inj_frozen :: "frozen_value list"
  inj_rng :: 'r
  inj_seed :: u64
  inj_dropped :: u64
  inj_delayed :: u64
  inj_corrupted :: u64

definition new_injector :: "'r maths \<Rightarrow> u64 \<Rightarrow> 'r injector" where
  "new_injector lib seed = \<lparr>inj_faults = [], inj_frozen = [], inj_rng = seeded lib seed, inj_seed = seed, inj_dropped = 0,
     inj_delayed = 0, inj_corrupted = 0\<rparr>"

definition add_fault :: "fault \<Rightarrow> 'r injector \<Rightarrow> 'r injector" where
  "add_fault f fi = fi\<lparr>inj_faults := inj_faults fi @ [f]\<rparr>"

definition find_fault :: "'r injector \<Rightarrow> string \<Rightarrow> nat option" where
  "find_fault fi n = first_index (\<lambda>f. flt_name f = n) (inj_faults fi)"

text \<open>\<open>set_active\<close> and \<open>toggle\<close> change the first fault of the name and say whether there is one.\<close>

definition set_active :: "string \<Rightarrow> bool \<Rightarrow> 'r injector \<Rightarrow> bool \<times> 'r injector" where
  "set_active n on fi =
     (case find_fault fi n of
        None \<Rightarrow> (False, fi)
      | Some i \<Rightarrow> (True, fi\<lparr>inj_faults := (inj_faults fi)[i := (inj_faults fi ! i)\<lparr>flt_active := on\<rparr>]\<rparr>))"

definition toggle :: "string \<Rightarrow> 'r injector \<Rightarrow> bool \<times> 'r injector" where
  "toggle n fi =
     (case find_fault fi n of
        None \<Rightarrow> (False, fi)
      | Some i \<Rightarrow> (True, fi\<lparr>inj_faults := (inj_faults fi)[i := (inj_faults fi ! i)\<lparr>flt_active := \<not> flt_active (inj_faults fi ! i)\<rparr>]\<rparr>))"

definition node_stopped :: "'r injector \<Rightarrow> string \<Rightarrow> bool" where
  "node_stopped fi node \<longleftrightarrow>
     list_ex (\<lambda>f. flt_active f \<and> flt_kind f = StopNode \<and> (flt_node f = [] \<or> flt_node f = node)) (inj_faults fi)"

definition injector_reset :: "'r maths \<Rightarrow> 'r injector \<Rightarrow> 'r injector" where
  "injector_reset lib fi = fi\<lparr>inj_rng := seeded lib (inj_seed fi), inj_frozen := []\<rparr>"

subsection \<open>One frame through the faults\<close>

text \<open>The slot of a signal of an identifier: its index, in the table with a slot added when there was none.\<close>

definition frozen_slot :: "u32 \<Rightarrow> string \<Rightarrow> frozen_value list \<Rightarrow> nat \<times> frozen_value list" where
  "frozen_slot i sig vs =
     (case first_index (\<lambda>v. frz_id v = i \<and> frz_signal v = sig) vs of
        Some k \<Rightarrow> (k, vs)
      | None \<Rightarrow> (length vs, vs @ [\<lparr>frz_id = i, frz_signal = sig, frz_value = dzero, frz_captured = False\<rparr>]))"

definition fault_applies :: "string \<Rightarrow> can_id \<Rightarrow> fault \<Rightarrow> bool" where
  "fault_applies node i f \<longleftrightarrow> flt_active f \<and> (flt_node f = [] \<or> flt_node f = node) \<and> (\<not> flt_has_id f \<or> flt_id f = i)"

text \<open>The signal of a fault, when the message is known, has it, and it fits the payload.\<close>

definition fault_signal :: "message option \<Rightarrow> fault \<Rightarrow> frame \<Rightarrow> signal option" where
  "fault_signal mo f working =
     (case mo of
        None \<Rightarrow> None
      | Some m \<Rightarrow>
          (case find_signal m (flt_signal f) of
             None \<Rightarrow> None
           | Some k \<Rightarrow> if fits (sig_layout (msg_signals m ! k)) (frame_size working) then Some (msg_signals m ! k) else None))"

definition freeze :: "signal \<Rightarrow> u32 \<Rightarrow> string \<Rightarrow> frame \<Rightarrow> 'r injector \<Rightarrow> frame \<times> 'r injector" where
  "freeze s i sig working fi =
     (let (k, vs) = frozen_slot i sig (inj_frozen fi);
          slot = (if frz_captured (vs ! k) then vs ! k else (vs ! k)\<lparr>frz_value := signal_decode s working, frz_captured := True\<rparr>)
      in (case signal_encode s (frz_value slot) working of Inl e \<Rightarrow> working | Inr w \<Rightarrow> w, fi\<lparr>inj_frozen := vs[k := slot]\<rparr>))"

definition force_raw :: "signal \<Rightarrow> double \<Rightarrow> frame \<Rightarrow> frame" where
  "force_raw s v working =
     (case layout_encode ((sig_layout s)\<lparr>minimum := dzero, maximum := dzero\<rparr>) v (frame_data working) of
        Inl e \<Rightarrow> working
      | Inr d \<Rightarrow> working\<lparr>frame_data := d\<rparr>)"

definition flip_bit :: "nat \<Rightarrow> frame \<Rightarrow> frame" where
  "flip_bit n working =
     working\<lparr>frame_data := (frame_data working)[n div 8 := (frame_data working ! (n div 8)) XOR push_bit (n mod 8) 1]\<rparr>"

text \<open>The switch of the loop; \<open>None\<close> is the return with nothing to transmit.\<close>

definition apply_fault :: "'r maths \<Rightarrow> can_id \<Rightarrow> message option \<Rightarrow> fault \<Rightarrow> scheduled_frame \<Rightarrow> 'r injector
    \<Rightarrow> scheduled_frame option \<times> 'r injector" where
  "apply_fault lib i mo f sf fi =
     (let (due, working) = sf in
      case flt_kind f of
        StopNode \<Rightarrow> (Some sf, fi)
      | DropFrames \<Rightarrow>
          let (d, r) = draw_real lib dzero (lit 1 0) (inj_rng fi) in
          if d_less d (flt_probability f) then (None, fi\<lparr>inj_rng := r, inj_dropped := inj_dropped fi + 1\<rparr>)
          else (Some sf, fi\<lparr>inj_rng := r\<rparr>)
      | DelayMessage \<Rightarrow> (Some (due + flt_delay_ns f, working), fi\<lparr>inj_delayed := inj_delayed fi + 1\<rparr>)
      | FreezeSignal \<Rightarrow>
          (case fault_signal mo f working of
             None \<Rightarrow> (Some sf, fi)
           | Some s \<Rightarrow> let (w, fi) = freeze s (id_value i) (flt_signal f) working fi in (Some (due, w), fi))
      | OutOfRange \<Rightarrow>
          (case fault_signal mo f working of
             None \<Rightarrow> (Some sf, fi)
           | Some s \<Rightarrow> (Some (due, force_raw s (flt_value f) working), fi))
      | BitFlip \<Rightarrow>
          let (d, r) = draw_real lib dzero (lit 1 0) (inj_rng fi) in
          if d_less d (flt_probability f) \<and> frame_size working > 0 then
            let (n, r) = draw_int lib 0 (int (frame_size working) * 8 - 1) r
            in (Some (due, flip_bit (nat n) working), fi\<lparr>inj_rng := r, inj_corrupted := inj_corrupted fi + 1\<rparr>)
          else (Some sf, fi\<lparr>inj_rng := r\<rparr>))"

fun fault_loop :: "'r maths \<Rightarrow> string \<Rightarrow> can_id \<Rightarrow> message option \<Rightarrow> fault list \<Rightarrow> scheduled_frame \<Rightarrow> 'r injector
    \<Rightarrow> scheduled_frame list \<times> 'r injector" where
  "fault_loop lib node i mo [] sf fi = ([sf], fi)"
| "fault_loop lib node i mo (f # fs) sf fi =
     (if fault_applies node i f then
        case apply_fault lib i mo f sf fi of
          (None, fi) \<Rightarrow> ([], fi)
        | (Some sf, fi) \<Rightarrow> fault_loop lib node i mo fs sf fi
      else fault_loop lib node i mo fs sf fi)"

definition inject :: "'r maths \<Rightarrow> database \<Rightarrow> string \<Rightarrow> frame \<Rightarrow> u64 \<Rightarrow> 'r injector \<Rightarrow> scheduled_frame list \<times> 'r injector" where
  "inject lib db node f now fi =
     (if node_stopped fi node then ([], fi\<lparr>inj_dropped := inj_dropped fi + 1\<rparr>)
      else fault_loop lib node (frame_id f) (map_option (\<lambda>k. db_messages db ! k) (find_message db (frame_id f)))
             (inj_faults fi) (now, f) fi)"

end
