(* ===== verification/Ecu.thy ===== *)
theory Ecu
  imports Vehicle Faults
begin

text \<open>
  \<open>sim/Ecu\<close>: a simulated node. Every message it transmits has a runtime record beside it; \<open>step\<close> builds what is due,
  with its rolling counter and its checksum. Where the code would abort or its behaviour is undefined (a message
  longer than a classic frame, a counter of 64 bits, a field outside the frame, a jitter outside \<open>int64\<close>) the
  value is \<open>None\<close>. The pointer of a message into the constant database is the message.
\<close>

datatype tx_mode = Cyclic | OnChange | Event
datatype checksum_kind = NoChecksum | Xor8 | Crc8Sae

record 'r binding =
  bd_signal :: string
  bd_source :: "'r generator option"
  bd_plant_field :: string

record 'r tx_message =
  tx_message :: "message option"
  tx_cycle_ns :: u64
  tx_jitter_ns :: u64
  tx_phase_ns :: u64
  tx_mode :: tx_mode
  tx_bindings :: "'r binding list"
  tx_counter_signal :: string
  tx_checksum_signal :: string
  tx_checksum :: checksum_kind

record runtime =
  rt_next_due_ns :: u64
  rt_counter :: u32
  rt_last :: frame
  rt_has_last :: bool
  rt_triggered :: bool

definition new_runtime :: "u64 \<Rightarrow> runtime" where
  "new_runtime due = \<lparr>rt_next_due_ns = due, rt_counter = 0, rt_last = empty_frame 8, rt_has_last = False, rt_triggered = False\<rparr>"

record 'r ecu =
  ecu_name :: string
  ecu_messages :: "('r tx_message \<times> runtime) list"
  ecu_rng :: 'r
  ecu_running :: bool

definition kJitterSeed :: u64 where "kJitterSeed = 0x5147C0DE"

definition new_ecu :: "'r maths \<Rightarrow> string \<Rightarrow> 'r ecu" where
  "new_ecu lib n = \<lparr>ecu_name = n, ecu_messages = [], ecu_rng = seeded lib kJitterSeed, ecu_running = True\<rparr>"

subsection \<open>Checksums\<close>

definition crc8_bit :: "u32 \<Rightarrow> u32" where
  "crc8_bit crc = (let shifted = push_bit 1 crc AND 0xFF in if crc AND 0x80 \<noteq> 0 then shifted XOR 0x1D else shifted)"

definition crc8_byte :: "u32 \<Rightarrow> u8 \<Rightarrow> u32" where
  "crc8_byte crc b = (crc8_bit ^^ 8) (crc XOR ucast b)"

definition crc8_sae_j1850 :: "bytes \<Rightarrow> u8" where
  "crc8_sae_j1850 bs = ucast (foldl crc8_byte 0xFF bs XOR 0xFF)"

definition xor8 :: "bytes \<Rightarrow> nat \<Rightarrow> u8" where
  "xor8 bs skip = foldl (\<lambda>acc i. if i = skip then acc else acc XOR bs ! i) 0 [0..<length bs]"

subsection \<open>Adding, resetting, triggering\<close>

definition ecu_add :: "'r tx_message \<Rightarrow> 'r ecu \<Rightarrow> 'r ecu" where
  "ecu_add tx e = e\<lparr>ecu_messages := ecu_messages e @ [(tx, new_runtime (tx_phase_ns tx))]\<rparr>"

definition reset_binding :: "'r maths \<Rightarrow> 'r binding \<Rightarrow> 'r binding" where
  "reset_binding lib b = b\<lparr>bd_source := map_option (source_reset lib) (bd_source b)\<rparr>"

definition reset_tx :: "'r maths \<Rightarrow> u64 \<Rightarrow> 'r tx_message \<times> runtime \<Rightarrow> 'r tx_message \<times> runtime" where
  "reset_tx lib now p =
     ((fst p)\<lparr>tx_bindings := map (reset_binding lib) (tx_bindings (fst p))\<rparr>, new_runtime (now + tx_phase_ns (fst p)))"

definition ecu_reset :: "'r maths \<Rightarrow> u64 \<Rightarrow> 'r ecu \<Rightarrow> 'r ecu" where
  "ecu_reset lib now e = e\<lparr>ecu_rng := seeded lib kJitterSeed, ecu_messages := map (reset_tx lib now) (ecu_messages e)\<rparr>"

definition ecu_trigger :: "string \<Rightarrow> 'r ecu \<Rightarrow> bool \<times> 'r ecu" where
  "ecu_trigger n e =
     (case first_index (\<lambda>p. case tx_message (fst p) of None \<Rightarrow> False | Some m \<Rightarrow> msg_name m = n) (ecu_messages e) of
        None \<Rightarrow> (False, e)
      | Some i \<Rightarrow>
          (True, e\<lparr>ecu_messages := (ecu_messages e)[i := (fst (ecu_messages e ! i), (snd (ecu_messages e ! i))\<lparr>rt_triggered := True\<rparr>)]\<rparr>))"

subsection \<open>Building a frame\<close>

text \<open>The value of a binding; \<open>None\<close> when the plant has no such field, and the signal is left alone.\<close>

definition bind_value :: "'r maths \<Rightarrow> vehicle option \<Rightarrow> u64 \<Rightarrow> 'r binding \<Rightarrow> double option \<times> 'r binding" where
  "bind_value lib plant now b =
     (case bd_source b of
        Some g \<Rightarrow> let (v, g) = sample lib now g in (Some v, b\<lparr>bd_source := Some g\<rparr>)
      | None \<Rightarrow>
          (case plant of
             Some car \<Rightarrow> if bd_plant_field b \<noteq> [] then (vehicle_read (bd_plant_field b) car, b) else (Some dzero, b)
           | None \<Rightarrow> (Some dzero, b)))"

definition write_value :: "signal \<Rightarrow> double option \<Rightarrow> frame \<Rightarrow> frame" where
  "write_value s vo f =
     (case vo of
        None \<Rightarrow> f
      | Some v \<Rightarrow> (case signal_encode s v f of Inl e \<Rightarrow> f | Inr f \<Rightarrow> f))"

fun fill_bindings :: "'r maths \<Rightarrow> message \<Rightarrow> vehicle option \<Rightarrow> u64 \<Rightarrow> 'r binding list \<Rightarrow> frame \<Rightarrow> frame \<times> 'r binding list" where
  "fill_bindings lib m plant now [] f = (f, [])"
| "fill_bindings lib m plant now (b # bs) f =
     (case find_signal m (bd_signal b) of
        None \<Rightarrow> let (f, bs) = fill_bindings lib m plant now bs f in (f, b # bs)
      | Some k \<Rightarrow>
          let (vo, b) = bind_value lib plant now b;
              (f, bs) = fill_bindings lib m plant now bs (write_value (msg_signals m ! k) vo f)
          in (f, b # bs))"

text \<open>The bytes \<open>encode_raw\<close> touches lie in the array of a classic frame.\<close>

definition in_array :: "signal_layout \<Rightarrow> bool" where
  "in_array l \<longleftrightarrow> bit_length l \<le> 64 \<and> canonical_start l div 8 + spanned_bytes (canonical_start l mod 8) (bit_length l) \<le> 8"

definition put_raw :: "signal_layout \<Rightarrow> u64 \<Rightarrow> frame \<Rightarrow> frame option" where
  "put_raw l raw f = (if in_array l then Some (f\<lparr>frame_data := encode_raw l raw (frame_data f)\<rparr>) else None)"

definition put_counter :: "message \<Rightarrow> string \<Rightarrow> u32 \<Rightarrow> frame \<Rightarrow> frame option" where
  "put_counter m name counter f =
     (if name = [] then Some f
      else case find_signal m name of
             None \<Rightarrow> Some f
           | Some k \<Rightarrow>
               let l = sig_layout (msg_signals m ! k); modulus = bit_mask (bit_length l) + 1 in
               if modulus = 0 then None else put_raw l (ucast counter mod modulus) f)"

definition put_checksum :: "message \<Rightarrow> string \<Rightarrow> checksum_kind \<Rightarrow> frame \<Rightarrow> frame option" where
  "put_checksum m name kind f =
     (if kind = NoChecksum \<or> name = [] then Some f
      else case find_signal m name of
             None \<Rightarrow> Some f
           | Some k \<Rightarrow>
               let l = sig_layout (msg_signals m ! k); skip = unat (start_bit l) div 8;
                   s = (if kind = Crc8Sae then crc8_sae_j1850 (payload_of f) else xor8 (payload_of f) skip)
               in put_raw l (ucast s) f)"

definition ecu_build :: "'r maths \<Rightarrow> vehicle option \<Rightarrow> u64 \<Rightarrow> message \<Rightarrow> 'r tx_message \<Rightarrow> runtime
    \<Rightarrow> (frame \<times> 'r tx_message \<times> runtime) option" where
  "ecu_build lib plant now m tx rt =
     (case make_empty 8 (msg_id m) (unat (msg_dlc m)) flag_none 0 of
        Inl e \<Rightarrow> None
      | Inr f \<Rightarrow>
          let (f, bs) = fill_bindings lib m plant now (tx_bindings tx) f in
          Option.bind (put_counter m (tx_counter_signal tx) (rt_counter rt) f) (\<lambda>f.
          Option.bind (put_checksum m (tx_checksum_signal tx) (tx_checksum tx) f) (\<lambda>f.
          Some (set_timestamp_ns f now, tx\<lparr>tx_bindings := bs\<rparr>, rt\<lparr>rt_counter := rt_counter rt + 1\<rparr>))))"

subsection \<open>A step\<close>

definition is_due :: "tx_mode \<Rightarrow> u64 \<Rightarrow> runtime \<Rightarrow> bool \<times> runtime" where
  "is_due mode now rt =
     (if mode = Event then (rt_triggered rt, rt\<lparr>rt_triggered := False\<rparr>) else (now \<ge> rt_next_due_ns rt, rt))"

definition in_i64 :: "int \<Rightarrow> bool" where "in_i64 z \<longleftrightarrow> - (2 ^ 63) \<le> z \<and> z < 2 ^ 63"

definition with_jitter :: "'r maths \<Rightarrow> u64 \<Rightarrow> u64 \<Rightarrow> 'r \<Rightarrow> (u64 \<times> 'r) option" where
  "with_jitter lib jitter due r =
     (if jitter = 0 then Some (due, r)
      else if sint jitter < 0 then None
      else let (delta, r) = draw_int lib (- sint jitter) (sint jitter) r; shifted = sint due + delta in
           if \<not> in_i64 shifted then None else Some (if shifted < 0 then 0 else of_int shifted, r))"

definition reschedule :: "'r maths \<Rightarrow> u64 \<Rightarrow> 'r tx_message \<Rightarrow> runtime \<Rightarrow> 'r \<Rightarrow> (runtime \<times> 'r) option" where
  "reschedule lib now tx rt r =
     (if tx_mode tx = Event then Some (rt, r)
      else Option.bind (with_jitter lib (tx_jitter_ns tx) (rt_next_due_ns rt + tx_cycle_ns tx) r) (\<lambda>(due, r).
           Some (rt\<lparr>rt_next_due_ns := (if due \<le> now then now + tx_cycle_ns tx else due)\<rparr>, r)))"

definition tx_step :: "'r maths \<Rightarrow> vehicle option \<Rightarrow> u64 \<Rightarrow> 'r tx_message \<times> runtime \<Rightarrow> 'r
    \<Rightarrow> (frame list \<times> ('r tx_message \<times> runtime) \<times> 'r) option" where
  "tx_step lib plant now p r =
     (let (tx, rt) = p in
      case tx_message tx of
        None \<Rightarrow> Some ([], p, r)
      | Some m \<Rightarrow>
          let (due, rt) = is_due (tx_mode tx) now rt in
          if \<not> due then Some ([], (tx, rt), r)
          else
            Option.bind (ecu_build lib plant now m tx rt) (\<lambda>(f, tx, rt).
            if tx_mode tx = OnChange \<and> rt_has_last rt \<and> frame_eq f (rt_last rt)
            then Some ([], (tx, rt\<lparr>rt_next_due_ns := rt_next_due_ns rt + tx_cycle_ns tx\<rparr>), r)
            else Option.bind (reschedule lib now tx (rt\<lparr>rt_last := f, rt_has_last := True\<rparr>) r) (\<lambda>(rt, r).
                 Some ([f], (tx, rt), r))))"

fun tx_steps :: "'r maths \<Rightarrow> vehicle option \<Rightarrow> u64 \<Rightarrow> ('r tx_message \<times> runtime) list \<Rightarrow> 'r
    \<Rightarrow> (frame list \<times> ('r tx_message \<times> runtime) list \<times> 'r) option" where
  "tx_steps lib plant now [] r = Some ([], [], r)"
| "tx_steps lib plant now (p # ps) r =
     Option.bind (tx_step lib plant now p r) (\<lambda>(out, p, r).
     Option.bind (tx_steps lib plant now ps r) (\<lambda>(outs, ps, r). Some (out @ outs, p # ps, r)))"

definition ecu_step :: "'r maths \<Rightarrow> vehicle option \<Rightarrow> u64 \<Rightarrow> 'r ecu \<Rightarrow> (frame list \<times> 'r ecu) option" where
  "ecu_step lib plant now e =
     (if \<not> ecu_running e then Some ([], e)
      else Option.bind (tx_steps lib plant now (ecu_messages e) (ecu_rng e)) (\<lambda>(out, ps, r).
           Some (out, e\<lparr>ecu_messages := ps, ecu_rng := r\<rparr>)))"

end
