(* ===== verification/SimConfig.thy ===== *)
theory SimConfig
  imports SourceText Ecu
begin

text \<open>
  \<open>sim/Config\<close>: the configuration language of the simulator. The parser's state holds the tokens not read yet,
  without the final \<open>End\<close> token, which the code never moves past. A cast of a double outside the range of the
  integer sets \<open>cp_undefined\<close>. Reading the file is not modelled.
\<close>

subsection \<open>The configuration\<close>

record drive_event =
  dr_at_ns :: u64
  dr_throttle :: "double option"
  dr_brake :: "double option"
  dr_gear :: "int option"

record binding_spec =
  bs_signal :: string
  bs_plant_field :: string
  bs_expression :: string

record tx_spec =
  ts_message :: string
  ts_cycle_ns :: u64
  ts_jitter_ns :: u64
  ts_phase_ns :: u64
  ts_mode :: tx_mode
  ts_counter_signal :: string
  ts_checksum_signal :: string
  ts_checksum :: checksum_kind
  ts_bindings :: "binding_spec list"

definition default_tx :: tx_spec where
  "default_tx = \<lparr>ts_message = [], ts_cycle_ns = 100000000, ts_jitter_ns = 0, ts_phase_ns = 0, ts_mode = Cyclic,
     ts_counter_signal = [], ts_checksum_signal = [], ts_checksum = NoChecksum, ts_bindings = []\<rparr>"

record node_spec =
  ns_name :: string
  ns_transmits :: "tx_spec list"

record sim_config =
  sc_bus :: string
  sc_nominal_bitrate :: u32
  sc_data_bitrate :: u32
  sc_database_path :: string
  sc_has_plant :: bool
  sc_plant :: vehicle_params
  sc_drive :: "drive_event list"
  sc_nodes :: "node_spec list"
  sc_faults :: "fault list"

definition default_config :: sim_config where
  "default_config = \<lparr>sc_bus = ''vcan0'', sc_nominal_bitrate = 500000, sc_data_bitrate = 2000000, sc_database_path = [],
     sc_has_plant = False, sc_plant = default_params, sc_drive = [], sc_nodes = [], sc_faults = []\<rparr>"

subsection \<open>State and tokens\<close>

record config_parser =
  cp_source :: source
  cp_tokens :: "token list"
  cp_end :: token
  cp_sink :: diagnostic_sink
  cp_config :: sim_config
  cp_undefined :: bool

definition cp_current :: "config_parser \<Rightarrow> token" where
  "cp_current s = (if cp_tokens s = [] then (cp_end s)\<lparr>tk_kind := TkEnd\<rparr> else hd (cp_tokens s))"

definition cp_advance :: "config_parser \<Rightarrow> config_parser" where
  "cp_advance s = s\<lparr>cp_tokens := tl (cp_tokens s)\<rparr>"

definition cp_at_end :: "config_parser \<Rightarrow> bool" where "cp_at_end s \<longleftrightarrow> tk_kind (cp_current s) = TkEnd"

definition cp_line :: "config_parser \<Rightarrow> u32" where "cp_line s = loc_line (tk_where (cp_current s))"

text \<open>A word of the same line: the test of the option loops.\<close>

definition word_here :: "config_parser \<Rightarrow> bool" where
  "word_here s \<longleftrightarrow> \<not> cp_at_end s \<and> tk_kind (cp_current s) = TkIdentifier \<and> \<not> tk_first (cp_current s)"

definition with_config :: "(sim_config \<Rightarrow> sim_config) \<Rightarrow> config_parser \<Rightarrow> config_parser" where
  "with_config f s = s\<lparr>cp_config := f (cp_config s)\<rparr>"

definition cp_report :: "severity \<Rightarrow> string \<Rightarrow> string \<Rightarrow> config_parser \<Rightarrow> config_parser" where
  "cp_report sev message note s =
     s\<lparr>cp_sink := sink_add (cp_sink s)
        \<lparr>dg_severity = sev, dg_code = ParseSemantic, dg_where = tk_where (cp_current s), dg_message = message,
         dg_token = (if tk_kind (cp_current s) = TkEnd then ''<end of file>'' else tk_text (cp_current s)),
         dg_source_line = source_line (cp_source s) (cp_line s), dg_note = note\<rparr>\<rparr>"

abbreviation cp_error :: "string \<Rightarrow> string \<Rightarrow> config_parser \<Rightarrow> config_parser" where
  "cp_error \<equiv> cp_report SevError"

lemma cp_tokens_simps [simp]:
  "cp_tokens (cp_advance s) = tl (cp_tokens s)" "cp_tokens (cp_report sev message note s) = cp_tokens s"
  "cp_tokens (with_config f s) = cp_tokens s"
  by (simp_all add: cp_advance_def cp_report_def with_config_def)

lemma cp_at_end_Nil [simp]: "cp_tokens s = [] \<Longrightarrow> cp_at_end s"
  by (simp add: cp_at_end_def cp_current_def)

lemma word_here_tokens: "word_here s \<Longrightarrow> cp_tokens s \<noteq> []"
  by (auto simp: word_here_def)

lemma is_word_tokens: "is_word (cp_current s) w \<Longrightarrow> cp_tokens s \<noteq> []"
  by (auto simp: is_word_def cp_current_def)

function cp_skip_from :: "u32 \<Rightarrow> config_parser \<Rightarrow> config_parser" where
  "cp_skip_from line s = (if \<not> cp_at_end s \<and> cp_line s = line then cp_skip_from line (cp_advance s) else s)"
  by pat_completeness auto
termination
proof (relation "measure (\<lambda>(line, s). length (cp_tokens s))")
  fix line s assume "\<not> cp_at_end s \<and> cp_line s = line"
  then show "((line, cp_advance s), line, s) \<in> measure (\<lambda>(line, s). length (cp_tokens s))"
    by (cases "cp_tokens s") auto
qed simp

declare cp_skip_from.simps [simp del]

definition cp_skip_line :: "config_parser \<Rightarrow> config_parser" where "cp_skip_line s = cp_skip_from (cp_line s) s"

text \<open>An operand is \<open>None\<close> when the code's function returns \<open>false\<close>, its output argument unchanged.\<close>

definition cp_name :: "config_parser \<Rightarrow> string option \<times> config_parser" where
  "cp_name s =
     (if tk_kind (cp_current s) \<noteq> TkIdentifier \<and> tk_kind (cp_current s) \<noteq> TkString then (None, cp_error ''expected a name'' [] s)
      else (Some (if tk_kind (cp_current s) = TkString then tk_value (cp_current s) else tk_text (cp_current s)), cp_advance s))"

definition cp_number :: "config_parser \<Rightarrow> double option \<times> config_parser" where
  "cp_number s =
     (let minus = (tk_kind (cp_current s) = TkMinus);
          sign = (if minus then d_neg (lit 1 0) else lit 1 0);
          s = (if minus \<or> tk_kind (cp_current s) = TkPlus then cp_advance s else s);
          t = cp_current s
      in if tk_kind t = TkInteger \<or> tk_kind t = TkReal then (Some (d_mul sign (tk_real t)), cp_advance s)
         else case (if tk_kind t = TkIdentifier then number_from (tk_text t) else None) of
                Some v \<Rightarrow> (Some (d_mul v sign), cp_advance s)
              | None \<Rightarrow> (None, cp_error ''expected a number'' [] s))"

definition cp_undefine :: "config_parser \<Rightarrow> config_parser" where "cp_undefine s = s\<lparr>cp_undefined := True\<rparr>"

lemma cp_tokens_undefine [simp]: "cp_tokens (cp_undefine s) = cp_tokens s"
  by (simp add: cp_undefine_def)

text \<open>A cast of a double read, after which nothing is promised when it is undefined.\<close>

definition cp_cast :: "'a option \<Rightarrow> ('a \<Rightarrow> config_parser \<Rightarrow> config_parser) \<Rightarrow> config_parser \<Rightarrow> config_parser" where
  "cp_cast r k s = (case r of None \<Rightarrow> cp_undefine s | Some x \<Rightarrow> k x s)"

definition scaled_duration :: "double \<Rightarrow> u64 \<Rightarrow> config_parser \<Rightarrow> u64 option \<times> config_parser" where
  "scaled_duration v scale s =
     (case cast_to_u64 (d_mul v (of_u64 scale)) of None \<Rightarrow> (None, cp_undefine s) | Some d \<Rightarrow> (Some d, s))"

definition literal_duration :: "config_parser \<Rightarrow> u64 option \<times> config_parser" where
  "literal_duration s =
     (if tk_kind (cp_current s) = TkInteger \<or> tk_kind (cp_current s) = TkReal then
        let v = tk_real (cp_current s); s = cp_advance s in
        if tk_kind (cp_current s) = TkIdentifier then
          case duration_from (CHR ''1'' # tk_text (cp_current s)) of
            None \<Rightarrow> (None, cp_undefine s)
          | Some None \<Rightarrow> scaled_duration v 1000000000 s
          | Some (Some probe) \<Rightarrow> scaled_duration v probe (cp_advance s)
        else scaled_duration v 1000000000 s
      else (None, cp_error ''expected a duration such as 10ms, 250us or 1.5s'' [] s))"

definition cp_duration :: "config_parser \<Rightarrow> u64 option \<times> config_parser" where
  "cp_duration s =
     (if tk_kind (cp_current s) = TkIdentifier then
        case duration_from (tk_text (cp_current s)) of
          None \<Rightarrow> (None, cp_undefine s)
        | Some (Some d) \<Rightarrow> (Some d, cp_advance s)
        | Some None \<Rightarrow> literal_duration s
      else literal_duration s)"

text \<open>\<open>rest_of_line\<close>: the text from the current token on, trimmed, and the position after the line.\<close>

definition trim_blank :: "string \<Rightarrow> string" where
  "trim_blank s =
     (let blank = (\<lambda>c. c = CHR '' '' \<or> c = CHR 0x09 \<or> c = CHR 0x0D) in rev (dropWhile blank (rev (dropWhile blank s))))"

definition cp_rest_of_line :: "config_parser \<Rightarrow> string \<times> config_parser" where
  "cp_rest_of_line s =
     (let l = source_line (cp_source s) (cp_line s); start = unat (loc_column (tk_where (cp_current s)))
      in (trim_blank (if start \<ge> 1 \<and> start \<le> length l then drop (start - 1) l else []), cp_skip_line s))"

subsection \<open>No operand gives tokens back\<close>

lemma length_skip_from: "length (cp_tokens (cp_skip_from line s)) \<le> length (cp_tokens s)"
proof (induction line s rule: cp_skip_from.induct)
  case (1 line s)
  then show ?case by (subst cp_skip_from.simps) auto
qed

lemma length_skip_line: "length (cp_tokens (cp_skip_line s)) \<le> length (cp_tokens s)"
  by (simp add: cp_skip_line_def length_skip_from)

lemma length_name: "length (cp_tokens (snd (cp_name s))) \<le> length (cp_tokens s)"
  by (simp add: cp_name_def)

lemma length_number: "length (cp_tokens (snd (cp_number s))) \<le> length (cp_tokens s)"
  by (simp add: cp_number_def Let_def split: option.splits)

lemma length_duration: "length (cp_tokens (snd (cp_duration s))) \<le> length (cp_tokens s)"
  by (simp add: cp_duration_def literal_duration_def scaled_duration_def Let_def split: option.splits)

lemma length_rest_of_line: "length (cp_tokens (snd (cp_rest_of_line s))) \<le> length (cp_tokens s)"
  by (simp add: cp_rest_of_line_def Let_def length_skip_line)

subsection \<open>The bus and the database\<close>

definition read_bitrate :: "(u32 \<Rightarrow> sim_config \<Rightarrow> sim_config) \<Rightarrow> config_parser \<Rightarrow> config_parser" where
  "read_bitrate set_rate s =
     (case cp_number s of
        (None, s) \<Rightarrow> s
      | (Some v, s) \<Rightarrow> cp_cast (cast_in 0 (2 ^ 32 - 1) v) (\<lambda>z. with_config (set_rate (of_int z))) s)"

definition cp_bus :: "config_parser \<Rightarrow> config_parser" where
  "cp_bus s =
     (case cp_name (cp_advance s) of
        (None, s) \<Rightarrow> cp_skip_line s
      | (Some n, s) \<Rightarrow>
          let s = with_config (\<lambda>c. c\<lparr>sc_bus := n\<rparr>) s;
              s = (if tk_kind (cp_current s) = TkInteger \<or> tk_kind (cp_current s) = TkReal \<or> tk_kind (cp_current s) = TkIdentifier
                   then read_bitrate (\<lambda>r c. c\<lparr>sc_nominal_bitrate := r\<rparr>) s else s)
          in if tk_kind (cp_current s) = TkInteger \<or> tk_kind (cp_current s) = TkReal
             then read_bitrate (\<lambda>r c. c\<lparr>sc_data_bitrate := r\<rparr>) s else s)"

definition cp_database :: "config_parser \<Rightarrow> config_parser" where
  "cp_database s =
     (let s = cp_advance s in
      if tk_kind (cp_current s) = TkString
      then cp_advance (with_config (\<lambda>c. c\<lparr>sc_database_path := tk_value (cp_current s)\<rparr>) s)
      else let (path, s) = cp_rest_of_line s; s = with_config (\<lambda>c. c\<lparr>sc_database_path := path\<rparr>) s
           in if path = [] then cp_error ''database needs a file path'' [] s else s)"

subsection \<open>Nodes and their messages\<close>

text \<open>One pass of the option loop: whether the loop goes on, the message and the position.\<close>

definition tx_duration :: "(u64 \<Rightarrow> tx_spec) \<Rightarrow> tx_spec \<Rightarrow> config_parser \<Rightarrow> bool \<times> tx_spec \<times> config_parser" where
  "tx_duration set_field tx s =
     (case cp_duration (cp_advance s) of (None, s) \<Rightarrow> (False, tx, s) | (Some d, s) \<Rightarrow> (True, set_field d, s))"

definition tx_option :: "tx_spec \<Rightarrow> config_parser \<Rightarrow> bool \<times> tx_spec \<times> config_parser" where
  "tx_option tx s =
     (let w = tk_text (cp_current s) in
      if w = ''cycle'' then tx_duration (\<lambda>d. tx\<lparr>ts_cycle_ns := d\<rparr>) tx s
      else if w = ''jitter'' then tx_duration (\<lambda>d. tx\<lparr>ts_jitter_ns := d\<rparr>) tx s
      else if w = ''phase'' then tx_duration (\<lambda>d. tx\<lparr>ts_phase_ns := d\<rparr>) tx s
      else if w = ''onchange'' then (True, tx\<lparr>ts_mode := OnChange\<rparr>, cp_advance s)
      else if w = ''event'' then (True, tx\<lparr>ts_mode := Event\<rparr>, cp_advance s)
      else (False, tx, cp_skip_line (cp_error ''unknown tx option'' ''expected one of: cycle, jitter, phase, onchange, event'' s)))"

lemma tx_option_shorter:
  assumes "tx_option tx s = (True, tx', s')" and "cp_tokens s \<noteq> []"
  shows "length (cp_tokens s') < length (cp_tokens s)"
proof -
  have "length (cp_tokens s') \<le> length (cp_tokens (cp_advance s))"
    using assms(1) length_duration [of "cp_advance s"]
    by (auto simp: tx_option_def tx_duration_def Let_def split: if_splits prod.splits option.splits)
  then show ?thesis using assms(2) by (cases "cp_tokens s") auto
qed

function tx_options :: "tx_spec \<Rightarrow> config_parser \<Rightarrow> tx_spec \<times> config_parser" where
  "tx_options tx s =
     (if word_here s then
        case tx_option tx s of (go, tx, s) \<Rightarrow> if go then tx_options tx s else (tx, s)
      else (tx, s))"
  by pat_completeness auto
termination
  by (relation "measure (\<lambda>(tx, s). length (cp_tokens s))") (auto dest: tx_option_shorter [OF sym] word_here_tokens)

declare tx_options.simps [simp del]

definition is_prefix :: "string \<Rightarrow> string \<Rightarrow> bool" where "is_prefix p s \<longleftrightarrow> take (length p) s = p"

definition binding_of :: "string \<Rightarrow> string \<Rightarrow> binding_spec" where
  "binding_of n expression =
     (let trimmed = (if expression \<noteq> [] \<and> hd expression = CHR ''=''
                     then dropWhile (\<lambda>c. c = CHR '' '' \<or> c = CHR 0x09) (tl expression) else expression)
      in if is_prefix ''plant.'' trimmed then \<lparr>bs_signal = n, bs_plant_field = drop 6 trimmed, bs_expression = []\<rparr>
         else \<lparr>bs_signal = n, bs_plant_field = [], bs_expression = trimmed\<rparr>)"

definition tx_signal :: "tx_spec \<Rightarrow> config_parser \<Rightarrow> tx_spec \<times> config_parser" where
  "tx_signal tx s =
     (case cp_name (cp_advance s) of
        (None, s) \<Rightarrow> (tx, cp_skip_line s)
      | (Some n, s) \<Rightarrow> let (e, s) = cp_rest_of_line s in (tx\<lparr>ts_bindings := ts_bindings tx @ [binding_of n e]\<rparr>, s))"

definition tx_counter :: "tx_spec \<Rightarrow> config_parser \<Rightarrow> tx_spec \<times> config_parser" where
  "tx_counter tx s =
     (case cp_name (cp_advance s) of
        (None, s) \<Rightarrow> (tx, cp_skip_line s)
      | (Some n, s) \<Rightarrow> (tx\<lparr>ts_counter_signal := n\<rparr>, s))"

definition tx_checksum_line :: "tx_spec \<Rightarrow> config_parser \<Rightarrow> tx_spec \<times> config_parser" where
  "tx_checksum_line tx s =
     (case cp_name (cp_advance s) of
        (None, s) \<Rightarrow> (tx, cp_skip_line s)
      | (Some n, s) \<Rightarrow>
          let tx = tx\<lparr>ts_checksum_signal := n, ts_checksum := Crc8Sae\<rparr> in
          if tk_kind (cp_current s) = TkIdentifier \<and> \<not> tk_first (cp_current s) then
            let kind = tk_text (cp_current s); s = cp_advance s in
            if kind = ''crc8'' \<or> kind = ''crc8sae'' then (tx\<lparr>ts_checksum := Crc8Sae\<rparr>, s)
            else if kind = ''xor'' \<or> kind = ''xor8'' then (tx\<lparr>ts_checksum := Xor8\<rparr>, s)
            else (tx, cp_report SevWarning (''unknown checksum kind '' @ [CHR 0x27] @ kind @ [CHR 0x27] @ ''; using crc8'') [] s)
          else (tx, s))"

lemma length_tx_lines:
  "length (cp_tokens (snd (tx_signal tx s))) \<le> length (cp_tokens (cp_advance s))"
  "length (cp_tokens (snd (tx_counter tx s))) \<le> length (cp_tokens (cp_advance s))"
  "length (cp_tokens (snd (tx_checksum_line tx s))) \<le> length (cp_tokens (cp_advance s))"
proof -
  have n: "length (cp_tokens u) \<le> length (cp_tokens (cp_advance s))" if "cp_name (cp_advance s) = (r, u)" for r u
    using length_name [of "cp_advance s"] that by simp
  show "length (cp_tokens (snd (tx_signal tx s))) \<le> length (cp_tokens (cp_advance s))"
    using n by (auto simp: tx_signal_def split: prod.splits option.splits simp del: cp_tokens_simps
        intro: order_trans [OF length_skip_line] order_trans [OF length_rest_of_line])
      (metis length_rest_of_line order_trans snd_conv)
  show "length (cp_tokens (snd (tx_counter tx s))) \<le> length (cp_tokens (cp_advance s))"
    using n by (auto simp: tx_counter_def split: prod.splits option.splits simp del: cp_tokens_simps
        intro: order_trans [OF length_skip_line])
  show "length (cp_tokens (snd (tx_checksum_line tx s))) \<le> length (cp_tokens (cp_advance s))"
    using n by (auto simp: tx_checksum_line_def Let_def split: prod.splits option.splits
        intro: order_trans [OF length_skip_line] order_trans [OF diff_le_self])
qed

lemma advance_shorter_word: "is_word (cp_current s) w \<Longrightarrow> length (cp_tokens (cp_advance s)) < length (cp_tokens s)"
  using is_word_tokens [of s w] by (cases "cp_tokens s") auto

lemma tx_lines_shorter:
  assumes "is_word (cp_current s) w" and "tx_signal tx s = (tx', s') \<or> tx_counter tx s = (tx', s') \<or> tx_checksum_line tx s = (tx', s')"
  shows "length (cp_tokens s') < length (cp_tokens s)"
proof -
  have "length (cp_tokens s') \<le> length (cp_tokens (cp_advance s))"
    using assms(2) length_tx_lines [where tx = tx and s = s] by (metis snd_conv)
  then show ?thesis using advance_shorter_word [OF assms(1)] by simp
qed

text \<open>The indented body of a message.\<close>

function tx_body :: "tx_spec \<Rightarrow> config_parser \<Rightarrow> tx_spec \<times> config_parser" where
  "tx_body tx s =
     (if is_word (cp_current s) ''signal'' then case tx_signal tx s of (tx, s) \<Rightarrow> tx_body tx s
      else if is_word (cp_current s) ''counter'' then case tx_counter tx s of (tx, s) \<Rightarrow> tx_body tx s
      else if is_word (cp_current s) ''checksum'' then case tx_checksum_line tx s of (tx, s) \<Rightarrow> tx_body tx s
      else (tx, s))"
  by pat_completeness auto
termination
  by (relation "measure (\<lambda>(tx, s). length (cp_tokens s))") (auto intro: tx_lines_shorter split: prod.splits)

declare tx_body.simps [simp del]

definition cp_tx :: "config_parser \<Rightarrow> tx_spec option \<times> config_parser" where
  "cp_tx s =
     (case cp_name (cp_advance s) of
        (None, s) \<Rightarrow> (None, cp_skip_line s)
      | (Some n, s) \<Rightarrow>
          let (tx, s) = tx_options (default_tx\<lparr>ts_message := n\<rparr>) s; (tx, s) = tx_body tx s in (Some tx, s))"

lemma length_tx_options: "length (cp_tokens (snd (tx_options tx s))) \<le> length (cp_tokens s)"
proof (induction tx s rule: tx_options.induct)
  case (1 tx s)
  obtain go tx' s' where o: "tx_option tx s = (go, tx', s')" by (metis prod_cases3)
  have "length (cp_tokens s') \<le> length (cp_tokens s)"
    using o length_duration [of "cp_advance s"] length_skip_line [of "cp_error ''unknown tx option'' ''expected one of: cycle, jitter, phase, onchange, event'' s"]
    by (auto simp: tx_option_def tx_duration_def Let_def split: if_splits prod.splits option.splits intro: order_trans [OF _ diff_le_self])
  then show ?case using 1 o by (subst tx_options.simps) (auto intro: order_trans)
qed

lemma length_tx_body: "length (cp_tokens (snd (tx_body tx s))) \<le> length (cp_tokens s)"
proof (induction tx s rule: tx_body.induct)
  case (1 tx s)
  have shorter: "length (cp_tokens (snd (tx_signal tx s))) \<le> length (cp_tokens s)"
    "length (cp_tokens (snd (tx_counter tx s))) \<le> length (cp_tokens s)"
    "length (cp_tokens (snd (tx_checksum_line tx s))) \<le> length (cp_tokens s)"
    using length_tx_lines [where tx = tx and s = s] by simp_all
  show ?case
    by (subst tx_body.simps) (auto simp: case_prod_unfold intro: order_trans [OF 1(1)] order_trans [OF 1(2)] order_trans [OF 1(3)] shorter)
qed

lemma length_tx: "length (cp_tokens (snd (cp_tx s))) \<le> length (cp_tokens (cp_advance s))"
proof (cases "cp_name (cp_advance s)")
  case (Pair r s')
  have n: "length (cp_tokens s') \<le> length (cp_tokens (cp_advance s))" using length_name [of "cp_advance s"] Pair by simp
  show ?thesis
  proof (cases r)
    case None
    then show ?thesis using Pair n length_skip_line [of s'] by (simp add: cp_tx_def)
  next
    case (Some name)
    obtain tx s2 where o: "tx_options (default_tx\<lparr>ts_message := name\<rparr>) s' = (tx, s2)" by fastforce
    have "length (cp_tokens s2) \<le> length (cp_tokens s')" using length_tx_options [of "default_tx\<lparr>ts_message := name\<rparr>" s'] o by simp
    moreover have "snd (cp_tx s) = snd (tx_body tx s2)" using Pair Some o by (simp add: cp_tx_def split: prod.split)
    ultimately show ?thesis using n length_tx_body [of tx s2] by simp
  qed
qed

function tx_list :: "config_parser \<Rightarrow> tx_spec list \<times> config_parser" where
  "tx_list s =
     (if is_word (cp_current s) ''tx'' then
        let (t, s) = cp_tx s; (ts, s) = tx_list s in (case t of None \<Rightarrow> ts | Some tx \<Rightarrow> tx # ts, s)
      else ([], s))"
  by pat_completeness auto
termination
proof (relation "measure (\<lambda>s. length (cp_tokens s))")
  fix s x t s'
  assume a: "is_word (cp_current s) ''tx''" "x = cp_tx s" "(t, s') = x"
  have "length (cp_tokens s') \<le> length (cp_tokens (cp_advance s))" using length_tx [of s] a(2,3) by (metis snd_conv)
  then show "(s', s) \<in> measure (\<lambda>s. length (cp_tokens s))" using advance_shorter_word [OF a(1)] by simp
qed simp

declare tx_list.simps [simp del]

definition cp_node :: "config_parser \<Rightarrow> config_parser" where
  "cp_node s =
     (case cp_name (cp_advance s) of
        (None, s) \<Rightarrow> cp_skip_line s
      | (Some n, s) \<Rightarrow>
          let (ts, s) = tx_list s in with_config (\<lambda>c. c\<lparr>sc_nodes := sc_nodes c @ [\<lparr>ns_name = n, ns_transmits = ts\<rparr>]\<rparr>) s)"

subsection \<open>The plant\<close>

definition plant_key :: "string \<Rightarrow> (double \<Rightarrow> vehicle_params \<Rightarrow> vehicle_params) option" where
  "plant_key k =
     (if k = ''mass'' then Some (\<lambda>v p. p\<lparr>mass_kg := v\<rparr>)
      else if k = ''wheel_radius'' then Some (\<lambda>v p. p\<lparr>wheel_radius_m := v\<rparr>)
      else if k = ''drag_area'' then Some (\<lambda>v p. p\<lparr>drag_area := v\<rparr>)
      else if k = ''rolling_resistance'' then Some (\<lambda>v p. p\<lparr>rolling_resistance := v\<rparr>)
      else if k = ''final_drive'' then Some (\<lambda>v p. p\<lparr>final_drive := v\<rparr>)
      else if k = ''idle_rpm'' then Some (\<lambda>v p. p\<lparr>idle_rpm := v\<rparr>)
      else if k = ''max_rpm'' then Some (\<lambda>v p. p\<lparr>max_rpm := v\<rparr>)
      else if k = ''peak_torque'' then Some (\<lambda>v p. p\<lparr>peak_torque_nm := v\<rparr>)
      else if k = ''ambient_temp'' then Some (\<lambda>v p. p\<lparr>ambient_temp_c := v\<rparr>)
      else None)"

definition with_plant :: "(vehicle_params \<Rightarrow> vehicle_params) \<Rightarrow> config_parser \<Rightarrow> config_parser" where
  "with_plant f s = with_config (\<lambda>c. c\<lparr>sc_plant := f (sc_plant c)\<rparr>) s"

lemma cp_tokens_with_plant [simp]: "cp_tokens (with_plant f s) = cp_tokens s"
  by (simp add: with_plant_def)

definition at_ratio :: "config_parser \<Rightarrow> bool" where
  "at_ratio s \<longleftrightarrow> (tk_kind (cp_current s) = TkInteger \<or> tk_kind (cp_current s) = TkReal) \<and> \<not> tk_first (cp_current s)"

lemma at_ratio_tokens: "at_ratio s \<Longrightarrow> cp_tokens s \<noteq> []"
  by (auto simp: at_ratio_def cp_current_def)

function ratios :: "config_parser \<Rightarrow> double list \<times> config_parser" where
  "ratios s =
     (if at_ratio s then let (vs, u) = ratios (cp_advance s) in (tk_real (cp_current s) # vs, u) else ([], s))"
  by pat_completeness auto
termination by (relation "measure (\<lambda>s. length (cp_tokens s))") (auto simp: neq_Nil_conv dest!: at_ratio_tokens)

declare ratios.simps [simp del]

definition plant_line :: "config_parser \<Rightarrow> config_parser option" where
  "plant_line s =
     (if cp_at_end s \<or> tk_kind (cp_current s) \<noteq> TkIdentifier then None
      else case plant_key (tk_text (cp_current s)) of
        Some set_field \<Rightarrow>
          Some (case cp_number (cp_advance s) of (None, s) \<Rightarrow> s | (Some v, s) \<Rightarrow> with_plant (set_field v) s)
      | None \<Rightarrow>
          if tk_text (cp_current s) = ''gear_ratios'' then
            Some (case ratios (cp_advance s) of
                    ([], s) \<Rightarrow> cp_error ''gear_ratios needs at least one ratio'' [] s
                  | (vs, s) \<Rightarrow> with_plant (\<lambda>p. p\<lparr>gear_ratios := vs\<rparr>) s)
          else None)"

lemma length_ratios: "length (cp_tokens (snd (ratios s))) \<le> length (cp_tokens s)"
proof (induction s rule: ratios.induct)
  case (1 s)
  then show ?case by (subst ratios.simps) (auto split: prod.split)
qed

lemma plant_line_shorter:
  assumes "plant_line s = Some s'"
  shows "length (cp_tokens s') < length (cp_tokens s)"
proof -
  have "cp_tokens s \<noteq> []" using assms by (auto simp: plant_line_def)
  then have "length (cp_tokens (cp_advance s)) < length (cp_tokens s)" by (cases "cp_tokens s") auto
  moreover have "length (cp_tokens s') \<le> length (cp_tokens (cp_advance s))"
    using assms length_number [of "cp_advance s"] length_ratios [of "cp_advance s"]
    by (auto simp: plant_line_def split: if_splits option.splits prod.splits list.splits)
  ultimately show ?thesis by simp
qed

function plant_lines :: "config_parser \<Rightarrow> config_parser" where
  "plant_lines s = (case plant_line s of None \<Rightarrow> s | Some s \<Rightarrow> plant_lines s)"
  by pat_completeness auto
termination by (relation "measure (\<lambda>s. length (cp_tokens s))") (auto dest: plant_line_shorter)

declare plant_lines.simps [simp del]

definition cp_plant :: "config_parser \<Rightarrow> config_parser" where
  "cp_plant s =
     (let s = with_config (\<lambda>c. c\<lparr>sc_has_plant := True\<rparr>) (cp_advance s);
          s = (if tk_kind (cp_current s) = TkIdentifier \<and> \<not> tk_first (cp_current s) then cp_advance s else s)
      in plant_lines s)"

subsection \<open>The driver script\<close>

definition new_event :: "u64 \<Rightarrow> drive_event" where
  "new_event due = \<lparr>dr_at_ns = due, dr_throttle = None, dr_brake = None, dr_gear = None\<rparr>"

definition cast_int :: "double \<Rightarrow> int option" where "cast_int v = cast_in (- (2 ^ 31)) (2 ^ 31 - 1) v"

text \<open>One input of an event: whether the loop goes on.\<close>

definition drive_input :: "drive_event \<Rightarrow> config_parser \<Rightarrow> bool \<times> drive_event \<times> config_parser" where
  "drive_input e s =
     (let w = tk_text (cp_current s) in
      if w = ''throttle'' then
        case cp_number (cp_advance s) of (None, s) \<Rightarrow> (True, e, s) | (Some v, s) \<Rightarrow> (True, e\<lparr>dr_throttle := Some v\<rparr>, s)
      else if w = ''brake'' then
        case cp_number (cp_advance s) of (None, s) \<Rightarrow> (True, e, s) | (Some v, s) \<Rightarrow> (True, e\<lparr>dr_brake := Some v\<rparr>, s)
      else if w = ''gear'' then
        case cp_number (cp_advance s) of
          (None, s) \<Rightarrow> (True, e, s)
        | (Some v, s) \<Rightarrow> (case cast_int v of None \<Rightarrow> (True, e, cp_undefine s) | Some z \<Rightarrow> (True, e\<lparr>dr_gear := Some z\<rparr>, s))
      else (False, e, cp_skip_line (cp_error ''unknown drive input'' ''expected one of: throttle, brake, gear'' s)))"

lemma drive_input_shorter:
  assumes "drive_input e s = (go, e', s')"
  shows "length (cp_tokens s') \<le> length (cp_tokens s)" "go \<Longrightarrow> length (cp_tokens s') \<le> length (cp_tokens (cp_advance s))"
proof -
  show go: "length (cp_tokens s') \<le> length (cp_tokens (cp_advance s))" if go
    using assms length_number [of "cp_advance s"] that
    by (auto simp: drive_input_def Let_def split: if_splits prod.splits option.splits)
  show "length (cp_tokens s') \<le> length (cp_tokens s)"
  proof (cases go)
    case True
    then show ?thesis using go by simp
  next
    case False
    then show ?thesis
      using assms length_skip_line [of "cp_error ''unknown drive input'' ''expected one of: throttle, brake, gear'' s"]
      by (auto simp: drive_input_def Let_def split: if_splits prod.splits option.splits)
  qed
qed

lemma advance_shorter_here: "word_here s \<Longrightarrow> length (cp_tokens (cp_advance s)) < length (cp_tokens s)"
  using word_here_tokens [of s] by (cases "cp_tokens s") auto

function drive_inputs :: "drive_event \<Rightarrow> config_parser \<Rightarrow> drive_event \<times> config_parser" where
  "drive_inputs e s =
     (if word_here s then
        case drive_input e s of (go, e, s) \<Rightarrow> if go then drive_inputs e s else (e, s)
      else (e, s))"
  by pat_completeness auto
termination
  by (relation "measure (\<lambda>(e, s). length (cp_tokens s))")
    (auto dest!: drive_input_shorter(2) [OF sym] intro: le_less_trans [OF _ advance_shorter_here] simp del: cp_tokens_simps)

declare drive_inputs.simps [simp del]

lemma length_drive_inputs: "length (cp_tokens (snd (drive_inputs e s))) \<le> length (cp_tokens s)"
proof (induction e s rule: drive_inputs.induct)
  case (1 e s)
  obtain go e' s' where o: "drive_input e s = (go, e', s')" by (metis prod_cases3)
  then show ?case using 1 drive_input_shorter(1) [OF o] by (subst drive_inputs.simps) (auto intro: order_trans)
qed

function drive_events :: "config_parser \<Rightarrow> config_parser" where
  "drive_events s =
     (if is_word (cp_current s) ''at'' then
        let (d, u) = cp_duration (cp_advance s) in
        (case d of
           None \<Rightarrow> drive_events (cp_skip_line u)
         | Some due \<Rightarrow>
             let (e, u) = drive_inputs (new_event due) u in drive_events (with_config (\<lambda>c. c\<lparr>sc_drive := sc_drive c @ [e]\<rparr>) u))
      else s)"
  by pat_completeness auto
termination
proof (relation "measure (\<lambda>s. length (cp_tokens s))")
  fix s x d u
  assume a: "is_word (cp_current s) ''at''" "x = cp_duration (cp_advance s)" "(d, u) = x"
  have u: "length (cp_tokens u) < length (cp_tokens s)"
    using length_duration [of "cp_advance s"] advance_shorter_word [OF a(1)] a(2,3) by (metis le_less_trans snd_conv)
  then show "(cp_skip_line u, s) \<in> measure (\<lambda>s. length (cp_tokens s))" using length_skip_line [of u] by simp
  show "(with_config (\<lambda>c. c\<lparr>sc_drive := sc_drive c @ [e]\<rparr>) u', s) \<in> measure (\<lambda>s. length (cp_tokens s))"
    if "y = drive_inputs (new_event due) u" "(e, u') = y" for y due e u'
    using that u length_drive_inputs [of "new_event due" u] by (simp add: prod_eq_iff)
qed simp

declare drive_events.simps [simp del]

definition cp_drive :: "config_parser \<Rightarrow> config_parser" where "cp_drive s = drive_events (cp_advance s)"

subsection \<open>Faults\<close>

text \<open>The operands of a fault's kind; nothing when the section is given up.\<close>

definition fault_kind_operands :: "string \<Rightarrow> fault \<Rightarrow> config_parser \<Rightarrow> fault option \<times> config_parser" where
  "fault_kind_operands kind f s =
     (if kind = ''drop'' \<or> kind = ''bitflip'' then
        let f = f\<lparr>flt_kind := (if kind = ''drop'' then DropFrames else BitFlip)\<rparr> in
        (case cp_number s of (None, s) \<Rightarrow> (Some f, s) | (Some v, s) \<Rightarrow> (Some (f\<lparr>flt_probability := v\<rparr>), s))
      else if kind = ''delay'' then
        (case cp_duration s of
           (None, s) \<Rightarrow> (None, cp_skip_line s)
         | (Some d, s) \<Rightarrow> (Some (f\<lparr>flt_kind := DelayMessage, flt_delay_ns := d\<rparr>), s))
      else if kind = ''freeze'' then
        (case cp_name s of
           (None, s) \<Rightarrow> (None, cp_skip_line s)
         | (Some n, s) \<Rightarrow> (Some (f\<lparr>flt_kind := FreezeSignal, flt_signal := n\<rparr>), s))
      else if kind = ''range'' \<or> kind = ''out_of_range'' then
        (case cp_name s of
           (None, s) \<Rightarrow> (None, cp_skip_line s)
         | (Some n, s) \<Rightarrow>
             let f = f\<lparr>flt_kind := OutOfRange, flt_signal := n\<rparr> in
             (case cp_number s of (None, s) \<Rightarrow> (Some f, s) | (Some v, s) \<Rightarrow> (Some (f\<lparr>flt_value := v\<rparr>), s)))
      else if kind = ''stop'' then (Some (f\<lparr>flt_kind := StopNode\<rparr>), s)
      else (None, cp_skip_line (cp_error (''unknown fault kind '' @ [CHR 0x27] @ kind @ [CHR 0x27])
                                  ''expected one of: drop, bitflip, delay, freeze, range, stop'' s)))"

definition fault_identifier :: "fault \<Rightarrow> config_parser \<Rightarrow> bool \<times> fault \<times> config_parser" where
  "fault_identifier f s =
     (case cp_number s of
        (None, s) \<Rightarrow> (False, f, s)
      | (Some raw, s) \<Rightarrow>
          (case cast_in 0 (2 ^ 32 - 1) raw of
             None \<Rightarrow> (True, f, cp_undefine s)
           | Some z \<Rightarrow>
               let pk = of_int z :: u32 in
               (case (if pk > kStandardIdMax then extended_id pk else standard_id pk) of
                  Inl e \<Rightarrow> (False, f, cp_error ''message identifier is out of range'' [] s)
                | Inr i \<Rightarrow> (True, f\<lparr>flt_id := i, flt_has_id := True\<rparr>, s))))"

definition fault_option :: "fault \<Rightarrow> config_parser \<Rightarrow> bool \<times> fault \<times> config_parser" where
  "fault_option f s =
     (let w = tk_text (cp_current s) in
      if w = ''node'' then
        case cp_name (cp_advance s) of (None, s) \<Rightarrow> (False, f, s) | (Some n, s) \<Rightarrow> (True, f\<lparr>flt_node := n\<rparr>, s)
      else if w = ''message'' \<or> w = ''id'' then fault_identifier f (cp_advance s)
      else if w = ''active'' then (True, f\<lparr>flt_active := True\<rparr>, cp_advance s)
      else (False, f, cp_skip_line (cp_error ''unknown fault option'' ''expected one of: node, message, active'' s)))"

lemma fault_option_shorter:
  assumes "fault_option f s = (True, f', s')"
  shows "length (cp_tokens s') \<le> length (cp_tokens (cp_advance s))"
  using assms length_number [of "cp_advance s"] length_name [of "cp_advance s"]
  by (auto simp: fault_option_def fault_identifier_def Let_def split: if_splits prod.splits option.splits sum.splits)

function fault_options :: "fault \<Rightarrow> config_parser \<Rightarrow> fault \<times> config_parser" where
  "fault_options f s =
     (if word_here s then
        case fault_option f s of (go, f, s) \<Rightarrow> if go then fault_options f s else (f, s)
      else (f, s))"
  by pat_completeness auto
termination
  by (relation "measure (\<lambda>(f, s). length (cp_tokens s))")
    (auto dest!: fault_option_shorter [OF sym] intro: le_less_trans [OF _ advance_shorter_here] simp del: cp_tokens_simps)

declare fault_options.simps [simp del]

definition cp_fault :: "config_parser \<Rightarrow> config_parser" where
  "cp_fault s =
     (case cp_name (cp_advance s) of
        (None, s) \<Rightarrow> cp_skip_line s
      | (Some n, s) \<Rightarrow>
          if tk_kind (cp_current s) \<noteq> TkIdentifier then cp_skip_line (cp_error ''expected a fault kind'' [] s)
          else
            (case fault_kind_operands (tk_text (cp_current s)) (new_fault\<lparr>flt_name := n\<rparr>) (cp_advance s) of
               (None, s) \<Rightarrow> s
             | (Some f, s) \<Rightarrow>
                 let (f, s) = fault_options f s in with_config (\<lambda>c. c\<lparr>sc_faults := sc_faults c @ [f]\<rparr>) s))"

subsection \<open>The whole configuration\<close>

definition cp_section :: "config_parser \<Rightarrow> config_parser" where
  "cp_section s =
     (let w = tk_text (cp_current s) in
      if tk_kind (cp_current s) \<noteq> TkIdentifier then cp_skip_line (cp_error ''expected a section keyword'' [] s)
      else if w = ''bus'' then cp_bus s
      else if w = ''database'' then cp_database s
      else if w = ''node'' then cp_node s
      else if w = ''plant'' then cp_plant s
      else if w = ''drive'' then cp_drive s
      else if w = ''fault'' then cp_fault s
      else cp_skip_line (cp_error (''unknown section '' @ [CHR 0x27] @ w @ [CHR 0x27])
                           ''expected one of: bus, database, node, plant, drive, fault'' s))"

lemma length_read_bitrate: "length (cp_tokens (read_bitrate f s)) \<le> length (cp_tokens s)"
  using length_number [of s] by (auto simp: read_bitrate_def cp_cast_def split: prod.splits option.splits)

lemma length_bus: "length (cp_tokens (cp_bus s)) \<le> length (cp_tokens (cp_advance s))"
proof (cases "cp_name (cp_advance s)")
  case (Pair r u)
  then have "length (cp_tokens u) \<le> length (cp_tokens (cp_advance s))" using length_name [of "cp_advance s"] by simp
  moreover have "length (cp_tokens (cp_bus s)) \<le> length (cp_tokens u)"
  proof -
    have "length (cp_tokens (read_bitrate f (with_config h u))) \<le> length (cp_tokens u)"
      "length (cp_tokens (read_bitrate f (read_bitrate g (with_config h u)))) \<le> length (cp_tokens u)" for f g h
      using length_read_bitrate [of f "with_config h u"] length_read_bitrate [of g "with_config h u"]
        length_read_bitrate [of f "read_bitrate g (with_config h u)"] by simp_all
    then show ?thesis using Pair length_skip_line [of u] by (auto simp: cp_bus_def Let_def split: option.split)
  qed
  ultimately show ?thesis by simp
qed

lemma length_database: "length (cp_tokens (cp_database s)) \<le> length (cp_tokens (cp_advance s))"
  using length_rest_of_line [of "cp_advance s"] by (auto simp: cp_database_def Let_def split: prod.split)

lemma length_tx_list: "length (cp_tokens (snd (tx_list s))) \<le> length (cp_tokens s)"
proof (induction s rule: tx_list.induct)
  case (1 s)
  obtain t u where t: "cp_tx s = (t, u)" by fastforce
  have "length (cp_tokens u) \<le> length (cp_tokens s)" using length_tx [of s] t by simp
  moreover have "length (cp_tokens (snd (tx_list u))) \<le> length (cp_tokens u)" if "is_word (cp_current s) ''tx''"
    using 1 [OF that t [symmetric] refl] .
  ultimately show ?case using t by (subst tx_list.simps) (auto split: prod.split)
qed

lemma length_node: "length (cp_tokens (cp_node s)) \<le> length (cp_tokens (cp_advance s))"
proof (cases "cp_name (cp_advance s)")
  case (Pair r u)
  then have "length (cp_tokens u) \<le> length (cp_tokens (cp_advance s))" using length_name [of "cp_advance s"] by simp
  moreover have "length (cp_tokens (cp_node s)) \<le> length (cp_tokens u)"
    using Pair length_skip_line [of u] length_tx_list [of u] by (auto simp: cp_node_def split: option.split prod.split)
  ultimately show ?thesis by simp
qed

lemma length_plant_lines: "length (cp_tokens (plant_lines s)) \<le> length (cp_tokens s)"
proof (induction s rule: plant_lines.induct)
  case (1 s)
  then show ?case by (subst plant_lines.simps) (force split: option.split dest: plant_line_shorter)
qed

lemma length_plant: "length (cp_tokens (cp_plant s)) \<le> length (cp_tokens (cp_advance s))"
  by (auto simp: cp_plant_def Let_def intro: order_trans [OF length_plant_lines])

lemma length_drive_events: "length (cp_tokens (drive_events s)) \<le> length (cp_tokens s)"
proof (induction s rule: drive_events.induct)
  case (1 s)
  obtain d u where d: "cp_duration (cp_advance s) = (d, u)" by fastforce
  have u: "length (cp_tokens u) \<le> length (cp_tokens s)" using length_duration [of "cp_advance s"] d by simp
  show ?case
  proof (cases "is_word (cp_current s) ''at''")
    case True
    show ?thesis
    proof (cases d)
      case None
      then show ?thesis
        using True d 1(1) [OF True d [symmetric] refl None] u length_skip_line [of u] by (subst drive_events.simps) simp
    next
      case (Some due)
      obtain e v where e: "drive_inputs (new_event due) u = (e, v)" by fastforce
      then have "length (cp_tokens v) \<le> length (cp_tokens u)" using length_drive_inputs [of "new_event due" u] by simp
      then show ?thesis
        using True d e Some 1(2) [OF True d [symmetric] refl Some e [symmetric] refl] u by (subst drive_events.simps) simp
    qed
  qed (subst drive_events.simps, simp)
qed

lemma length_drive: "length (cp_tokens (cp_drive s)) \<le> length (cp_tokens (cp_advance s))"
  by (simp add: cp_drive_def length_drive_events del: cp_tokens_simps)

lemma length_operands:
  "cp_name s = (r, u) \<Longrightarrow> length (cp_tokens u) \<le> length (cp_tokens s)"
  "cp_number s = (v, u) \<Longrightarrow> length (cp_tokens u) \<le> length (cp_tokens s)"
  "cp_duration s = (d, u) \<Longrightarrow> length (cp_tokens u) \<le> length (cp_tokens s)"
  using length_name [of s] length_number [of s] length_duration [of s] by simp_all

lemma length_fault_operands: "length (cp_tokens (snd (fault_kind_operands kind f s))) \<le> length (cp_tokens s)"
proof -
  have name: "length (cp_tokens (snd (case cp_name s of (None, s) \<Rightarrow> (None, cp_skip_line s) | (Some n, s) \<Rightarrow> k n s))) \<le> length (cp_tokens s)"
    if "\<And>n u. length (cp_tokens (snd (k n u))) \<le> length (cp_tokens u)" for k :: "string \<Rightarrow> config_parser \<Rightarrow> fault option \<times> config_parser"
    by (auto split: prod.split option.split dest!: length_operands intro: order_trans [OF length_skip_line] order_trans [OF that])
  have number: "length (cp_tokens (snd (case cp_number u of (None, s) \<Rightarrow> (a, s) | (Some v, s) \<Rightarrow> (b v, s)))) \<le> length (cp_tokens u)"
    for u and a :: "fault option" and b
    by (auto split: prod.split option.split dest: length_operands)
  have duration: "length (cp_tokens (snd (case cp_duration s of (None, s) \<Rightarrow> (None, cp_skip_line s) | (Some d, s) \<Rightarrow> (b d, s)))) \<le> length (cp_tokens s)"
    for b :: "u64 \<Rightarrow> fault option"
    by (auto split: prod.split option.split dest!: length_operands intro: order_trans [OF length_skip_line])
  have skip: "length (cp_tokens (cp_skip_line (cp_error m h s))) \<le> length (cp_tokens s)" for m h
    using length_skip_line [of "cp_error m h s"] by simp
  have either: "length (cp_tokens (snd (if P then a else b))) \<le> n"
    if "length (cp_tokens (snd a)) \<le> n" "length (cp_tokens (snd b)) \<le> n" for P n and a b :: "fault option \<times> config_parser"
    using that by simp
  show ?thesis
    unfolding fault_kind_operands_def Let_def
    by (intro either name number duration) (simp_all add: skip)
qed

lemma length_fault_options: "length (cp_tokens (snd (fault_options f s))) \<le> length (cp_tokens s)"
proof (induction f s rule: fault_options.induct)
  case (1 f s)
  obtain go f' s' where o: "fault_option f s = (go, f', s')" by (metis prod_cases3)
  have "length (cp_tokens s') \<le> length (cp_tokens s)"
    using o length_number [of "cp_advance s"] length_name [of "cp_advance s"]
      length_skip_line [of "cp_error ''unknown fault option'' ''expected one of: node, message, active'' s"]
    by (auto simp: fault_option_def fault_identifier_def Let_def split: if_splits prod.splits option.splits sum.splits)
  then show ?case using 1 o by (subst fault_options.simps) (auto intro: order_trans)
qed

lemma length_fault: "length (cp_tokens (cp_fault s)) \<le> length (cp_tokens (cp_advance s))"
proof (cases "cp_name (cp_advance s)")
  case (Pair r u)
  then have "length (cp_tokens u) \<le> length (cp_tokens (cp_advance s))" using length_name [of "cp_advance s"] by simp
  moreover have "length (cp_tokens (cp_fault s)) \<le> length (cp_tokens u)"
  proof (cases r)
    case None
    then show ?thesis using Pair length_skip_line [of u] by (simp add: cp_fault_def)
  next
    case (Some n)
    obtain fo v where k: "fault_kind_operands (tk_text (cp_current u)) (new_fault\<lparr>flt_name := n\<rparr>) (cp_advance u) = (fo, v)" by fastforce
    have "length (cp_tokens v) \<le> length (cp_tokens u)"
      using length_fault_operands [of "tk_text (cp_current u)" "new_fault\<lparr>flt_name := n\<rparr>" "cp_advance u"] k by simp
    then show ?thesis
      using Pair Some k length_skip_line [of "cp_error ''expected a fault kind'' [] u"]
      by (auto simp: cp_fault_def split: option.split prod.split intro: order_trans dest: arg_cong [of _ _ snd])
        (metis length_fault_options order_trans snd_conv)
  qed
  ultimately show ?thesis by simp
qed

lemma skip_line_shorter: "\<not> cp_at_end s \<Longrightarrow> length (cp_tokens (cp_skip_line s)) < length (cp_tokens s)"
proof -
  assume e: "\<not> cp_at_end s"
  then have "cp_tokens s \<noteq> []" by auto
  then have "length (cp_tokens (cp_advance s)) < length (cp_tokens s)" by (cases "cp_tokens s") auto
  moreover have "cp_skip_line s = cp_skip_from (cp_line s) (cp_advance s)"
    unfolding cp_skip_line_def by (subst cp_skip_from.simps) (simp add: e)
  ultimately show ?thesis using length_skip_from [of "cp_line s" "cp_advance s"] by simp
qed

lemma at_end_report [simp]: "cp_at_end (cp_report sev message note s) = cp_at_end s"
  by (simp add: cp_at_end_def cp_current_def cp_report_def)

lemma section_shorter:
  assumes "\<not> cp_at_end s"
  shows "length (cp_tokens (cp_section s)) < length (cp_tokens s)"
proof -
  have "cp_tokens s \<noteq> []" using assms by auto
  then have a: "length (cp_tokens (cp_advance s)) < length (cp_tokens s)" by (cases "cp_tokens s") auto
  have e: "length (cp_tokens (cp_skip_line (cp_error message hint s))) < length (cp_tokens s)" for message hint
    using skip_line_shorter [of "cp_error message hint s"] assms by simp
  show ?thesis
    unfolding cp_section_def Let_def
    using a e length_bus [of s] length_database [of s] length_node [of s] length_plant [of s] length_drive [of s] length_fault [of s]
    by (auto simp del: cp_tokens_simps)
qed

function cp_run :: "config_parser \<Rightarrow> config_parser" where
  "cp_run s = (if cp_at_end s then s else cp_run (cp_section s))"
  by pat_completeness auto
termination by (relation "measure (\<lambda>s. length (cp_tokens s))") (auto intro: section_shorter)

declare cp_run.simps [simp del]

text \<open>The check of every binding after the parse; an expression whose cast is undefined sets the flag.\<close>

record config_result =
  cr_config :: sim_config
  cr_diagnostics :: diagnostic_sink
  cr_undefined :: bool

definition blank_diagnostic :: "error_code \<Rightarrow> string \<Rightarrow> string \<Rightarrow> string \<Rightarrow> diagnostic" where
  "blank_diagnostic code message tok note =
     \<lparr>dg_severity = SevError, dg_code = code, dg_where = \<lparr>loc_line = 1, loc_column = 1\<rparr>, dg_message = message, dg_token = tok,
      dg_source_line = [], dg_note = note\<rparr>"

definition check_binding :: "'r maths \<Rightarrow> binding_spec \<Rightarrow> config_result \<Rightarrow> config_result" where
  "check_binding lib b r =
     (if bs_plant_field b \<noteq> [] then
        case vehicle_read (bs_plant_field b) default_vehicle of
          Some v \<Rightarrow> r
        | None \<Rightarrow> r\<lparr>cr_diagnostics := sink_add (cr_diagnostics r)
            (blank_diagnostic ParseUndefinedReference
               (''unknown plant field '' @ [CHR 0x27] @ ''plant.'' @ bs_plant_field b @ [CHR 0x27]) []
               (''valid fields: '' @ concat (map (\<lambda>f. f @ '' '') field_names)))\<rparr>
      else
        case build_source lib (bs_expression b) of
          None \<Rightarrow> r\<lparr>cr_undefined := True\<rparr>
        | Some (Inr g) \<Rightarrow> r
        | Some (Inl e) \<Rightarrow> r\<lparr>cr_diagnostics := sink_add (cr_diagnostics r)
            (blank_diagnostic (err_code e) (''signal '' @ [CHR 0x27] @ bs_signal b @ [CHR 0x27] @ '': '' @ err_message e) (bs_expression b) [])\<rparr>)"

definition all_bindings :: "sim_config \<Rightarrow> binding_spec list" where
  "all_bindings c = concat (map (\<lambda>n. concat (map ts_bindings (ns_transmits n))) (sc_nodes c))"

definition parse_config :: "'r maths \<Rightarrow> string \<Rightarrow> string \<Rightarrow> config_result" where
  "parse_config lib bytes filename =
     (let src = normalise bytes filename; (ts, k) = tokenise src empty_sink;
          s = cp_run \<lparr>cp_source = src, cp_tokens = butlast ts, cp_end = last ts, cp_sink = k, cp_config = default_config, cp_undefined = False\<rparr>
      in fold (check_binding lib) (all_bindings (cp_config s))
           \<lparr>cr_config = cp_config s, cr_diagnostics = cp_sink s, cr_undefined = cp_undefined s\<rparr>)"

definition config_ok :: "config_result \<Rightarrow> bool" where "config_ok r \<longleftrightarrow> \<not> has_errors (cr_diagnostics r)"

end
