(* ===== verification/Simulator.thy ===== *)
theory Simulator
  imports SimConfig
begin

text \<open>
  \<open>sim/Simulator\<close>: the plant, the nodes and the fault injector together. \<open>step\<close> returns the frames that should be
  on the bus by the given time. \<open>None\<close> is a step the code does not survive (\<open>ecu_step\<close>, a loop of the vehicle that
  does not end); in \<open>build\<close> it is a cast that is undefined.
\<close>

record 'r simulator =
  sim_config :: sim_config
  sim_database :: database
  sim_vehicle :: vehicle
  sim_nodes :: "'r ecu list"
  sim_faults :: "'r injector"
  sim_pending :: "scheduled_frame list"
  sim_last_step_ns :: u64
  sim_next_drive :: nat
  sim_produced :: u64
  sim_started :: bool

subsection \<open>Building\<close>

definition kFaultSeed :: u64 where "kFaultSeed = 0xFA0117"

fun build_bindings :: "'r maths \<Rightarrow> message \<Rightarrow> binding_spec list \<Rightarrow> 'r binding list result option" where
  "build_bindings lib m [] = Some (Inr [])"
| "build_bindings lib m (b # bs) =
     (if find_signal m (bs_signal b) = None
      then Some (Inl (plain_error ParseUndefinedReference ''the config binds a signal the message does not have''))
      else
        case (if bs_plant_field b \<noteq> [] then Some (Inr None) else map_option (result_map Some) (build_source lib (bs_expression b))) of
          None \<Rightarrow> None
        | Some (Inl e) \<Rightarrow> Some (Inl e)
        | Some (Inr g) \<Rightarrow>
            map_option (result_map (\<lambda>rest. \<lparr>bd_signal = bs_signal b, bd_source = g, bd_plant_field = bs_plant_field b\<rparr> # rest))
              (build_bindings lib m bs))"

definition names_exist :: "message \<Rightarrow> tx_spec \<Rightarrow> bool" where
  "names_exist m t \<longleftrightarrow> list_all (\<lambda>n. n = [] \<or> find_signal m n \<noteq> None) [ts_counter_signal t, ts_checksum_signal t]"

definition build_tx :: "'r maths \<Rightarrow> database \<Rightarrow> tx_spec \<Rightarrow> 'r tx_message result option" where
  "build_tx lib db t =
     (case find_message_named db (ts_message t) of
        None \<Rightarrow> Some (Inl (plain_error ParseUndefinedReference ''the config transmits a message the database does not define''))
      | Some k \<Rightarrow>
          let m = db_messages db ! k in
          if \<not> names_exist m t
          then Some (Inl (plain_error ParseUndefinedReference ''counter or checksum names a signal the message does not have''))
          else map_option (result_map (\<lambda>bs.
            \<lparr>tx_message = Some m, tx_cycle_ns = ts_cycle_ns t, tx_jitter_ns = ts_jitter_ns t, tx_phase_ns = ts_phase_ns t,
             tx_mode = ts_mode t, tx_bindings = bs, tx_counter_signal = ts_counter_signal t,
             tx_checksum_signal = ts_checksum_signal t, tx_checksum = ts_checksum t\<rparr>))
            (build_bindings lib m (ts_bindings t)))"

fun build_ecu :: "'r maths \<Rightarrow> database \<Rightarrow> tx_spec list \<Rightarrow> 'r ecu \<Rightarrow> 'r ecu result option" where
  "build_ecu lib db [] e = Some (Inr e)"
| "build_ecu lib db (t # ts) e =
     (case build_tx lib db t of
        None \<Rightarrow> None
      | Some (Inl err) \<Rightarrow> Some (Inl err)
      | Some (Inr tx) \<Rightarrow> build_ecu lib db ts (ecu_add tx e))"

fun build_nodes :: "'r maths \<Rightarrow> database \<Rightarrow> node_spec list \<Rightarrow> 'r ecu list result option" where
  "build_nodes lib db [] = Some (Inr [])"
| "build_nodes lib db (n # ns) =
     (case build_ecu lib db (ns_transmits n) (new_ecu lib (ns_name n)) of
        None \<Rightarrow> None
      | Some (Inl err) \<Rightarrow> Some (Inl err)
      | Some (Inr e) \<Rightarrow> map_option (result_map (\<lambda>es. e # es)) (build_nodes lib db ns))"

definition sim_build :: "'r maths \<Rightarrow> sim_config \<Rightarrow> database \<Rightarrow> 'r simulator result option" where
  "sim_build lib c db =
     map_option (result_map (\<lambda>es.
       \<lparr>sim_config = c\<lparr>sc_drive := sort_key dr_at_ns (sc_drive c)\<rparr>, sim_database = db,
        sim_vehicle = (if sc_has_plant c then new_vehicle (sc_plant c) else default_vehicle), sim_nodes = es,
        sim_faults = fold add_fault (sc_faults c) (new_injector lib kFaultSeed), sim_pending = [], sim_last_step_ns = 0,
        sim_next_drive = 0, sim_produced = 0, sim_started = False\<rparr>)) (build_nodes lib db (sc_nodes c))"

definition find_ecu :: "'r simulator \<Rightarrow> string \<Rightarrow> nat option" where
  "find_ecu s n = first_index (\<lambda>e. ecu_name e = n) (sim_nodes s)"

definition sim_reset :: "'r maths \<Rightarrow> 'r simulator \<Rightarrow> 'r simulator" where
  "sim_reset lib s =
     s\<lparr>sim_pending := [], sim_next_drive := 0, sim_produced := 0, sim_last_step_ns := 0, sim_started := False,
       sim_faults := injector_reset lib (sim_faults s),
       sim_vehicle := (if sc_has_plant (sim_config s) then new_vehicle (sc_plant (sim_config s)) else sim_vehicle s),
       sim_nodes := map (\<lambda>e. (ecu_reset lib 0 e)\<lparr>ecu_running := True\<rparr>) (sim_nodes s)\<rparr>"

subsection \<open>The driver\<close>

definition apply_event :: "drive_event \<Rightarrow> vehicle \<Rightarrow> vehicle" where
  "apply_event e v =
     (let v = (case dr_throttle e of None \<Rightarrow> v | Some x \<Rightarrow> set_throttle x v);
          v = (case dr_brake e of None \<Rightarrow> v | Some x \<Rightarrow> set_brake x v)
      in case dr_gear e of None \<Rightarrow> v | Some g \<Rightarrow> set_gear g v)"

definition apply_drive :: "u64 \<Rightarrow> 'r simulator \<Rightarrow> 'r simulator" where
  "apply_drive now s =
     (let due = takeWhile (\<lambda>e. dr_at_ns e \<le> now) (drop (sim_next_drive s) (sc_drive (sim_config s)))
      in s\<lparr>sim_vehicle := fold apply_event due (sim_vehicle s), sim_next_drive := sim_next_drive s + length due\<rparr>)"

subsection \<open>A step\<close>

text \<open>The frames of one node through the faults: what they schedule, and the injector afterwards.\<close>

fun inject_all :: "'r maths \<Rightarrow> database \<Rightarrow> string \<Rightarrow> u64 \<Rightarrow> frame list \<Rightarrow> 'r injector \<Rightarrow> scheduled_frame list \<times> 'r injector" where
  "inject_all lib db node now [] fi = ([], fi)"
| "inject_all lib db node now (f # fs) fi =
     (let (out, fi) = inject lib db node f now fi; (outs, fi) = inject_all lib db node now fs fi in (out @ outs, fi))"

text \<open>The loop over the nodes: the number of frames produced, what is scheduled, the nodes and the injector.\<close>

fun step_nodes :: "'r maths \<Rightarrow> database \<Rightarrow> vehicle option \<Rightarrow> u64 \<Rightarrow> 'r ecu list \<Rightarrow> 'r injector
    \<Rightarrow> (nat \<times> scheduled_frame list \<times> 'r ecu list \<times> 'r injector) option" where
  "step_nodes lib db plant now [] fi = Some (0, [], [], fi)"
| "step_nodes lib db plant now (e # es) fi =
     Option.bind (ecu_step lib plant now e) (\<lambda>(frames, e).
       let (out, fi) = inject_all lib db (ecu_name e) now frames fi in
       map_option (\<lambda>(n, outs, es, fi). (length frames + n, out @ outs, e # es, fi)) (step_nodes lib db plant now es fi))"

text \<open>The release: everything due, in time order, stamped with the time of the step.\<close>

definition release :: "u64 \<Rightarrow> scheduled_frame list \<Rightarrow> frame list \<times> scheduled_frame list" where
  "release now pending =
     (let q = sort_key fst pending
      in (map (\<lambda>p. set_timestamp_ns (snd p) now) (takeWhile (\<lambda>p. fst p \<le> now) q), dropWhile (\<lambda>p. fst p \<le> now) q))"

definition sim_step :: "'r maths \<Rightarrow> u64 \<Rightarrow> 'r simulator \<Rightarrow> (frame list \<times> 'r simulator) option" where
  "sim_step lib now s =
     (let last_step = (if sim_started s then sim_last_step_ns s else now);
          dt = (if now > last_step then now - last_step else 0);
          s = apply_drive now (s\<lparr>sim_started := True, sim_last_step_ns := now\<rparr>)
      in Option.bind (if sc_has_plant (sim_config s) \<and> dt \<noteq> 0 then vehicle_step dt (sim_vehicle s) else Some (sim_vehicle s)) (\<lambda>car.
         Option.bind (step_nodes lib (sim_database s) (if sc_has_plant (sim_config s) then Some car else None) now (sim_nodes s) (sim_faults s))
           (\<lambda>(n, scheduled, es, fi).
           let (out, pending) = release now (sim_pending s @ scheduled)
           in Some (out, s\<lparr>sim_vehicle := car, sim_nodes := es, sim_faults := fi, sim_produced := sim_produced s + of_nat n,
                sim_pending := pending\<rparr>))))"

end
