(* ===== verification/Vehicle_Laws.thy ===== *)
theory Vehicle_Laws
  imports Vehicle Decimal_Laws
begin

text \<open>
  The vehicle: whole nanoseconds are exact in a double up to \<open>2 ^ 53\<close> (over a hundred days), so that the loop of
  \<open>step\<close> ends and takes one integration step per millisecond however the time is cut into calls; and what every
  call keeps of the state.
\<close>

subsection \<open>Whole numbers as doubles\<close>

lemma of_integer_shape:
  assumes "0 \<le> z" and "z < 2 ^ 53"
  obtains q e where "of_integer z = DFin False q e" "representable binary64 (DFin False q e)" "real q * 2 powi e = real_of_int z"
proof -
  have f: "is_finite (of_integer z)" "representable binary64 (of_integer z)" "dval (of_integer z) = real_of_int z"
    using of_integer_exact [of z] assms by simp_all
  obtain s q e where d: "of_integer z = DFin s q e" using f(1) by (auto simp: is_finite_DFin)
  have "\<not> s" using d assms(1) by (auto simp: of_integer_def round_quotient_def Let_def split: if_splits prod.splits)
  then show thesis using that [of q e] d f(2,3) by simp
qed

lemma round_whole:
  assumes "0 < z" and "z < 2 ^ 53" and "0 < d" and "real n / real d = real_of_int z"
  shows "round_quotient binary64 False n d = of_integer z"
proof -
  have "0 \<le> z" using assms(1) by simp
  then obtain q e where o: "of_integer z = DFin False q e" "representable binary64 (DFin False q e)" "real q * 2 powi e = real_of_int z"
    using assms(2) by (rule of_integer_shape)
  have "0 < q" using o(3) assms(1) by (cases "q = 0") simp_all
  moreover have "0 < n" using assms(1,4) by (cases "n = 0") simp_all
  ultimately show ?thesis using round_close [of False q e n d False] o assms(1,3,4) by simp
qed

lemma of_integer_zero: "of_integer 0 = dzero"
  by (simp add: of_integer_def round_quotient_def binary64_def)

lemma d_add_whole:
  assumes "is_finite a" and "is_finite b" and "dval a = real_of_int x" and "dval b = real_of_int y"
    and "\<not> (\<exists>m e. a = DFin True m e)" and "0 \<le> x + y" and "x + y < 2 ^ 53"
  shows "d_add a b = of_integer (x + y)"
proof -
  obtain s m e t n f where ab: "a = DFin s m e" "b = DFin t n f" using assms(1,2) by (auto simp: is_finite_DFin)
  have s: "\<not> s" using assms(5) by (cases s) (auto simp: ab)
  define k where "k = min e f"
  define z where "z = signed_at k s m e + signed_at k t n f"
  have v: "real_of_int (x + y) = real_of_int z * 2 powi k"
    unfolding z_def of_int_add distrib_right by (subst (1 2) signed_at_value) (use assms(3,4) in \<open>simp_all add: k_def ab\<close>)
  have d: "d_add a b = (if z = 0 then DFin (s \<and> t) 0 (-1074) else round_scaled binary64 (z < 0) (nat \<bar>z\<bar>) k)"
    by (simp add: ab k_def z_def Let_def)
  show ?thesis
  proof (cases "z = 0")
    case True
    then have "x + y = 0" using v by simp
    then show ?thesis using True s by (simp add: d of_integer_zero)
  next
    case False
    have "0 \<le> real_of_int (x + y)" using assms(6) by simp
    moreover have "\<not> (2 :: real) powi k \<le> 0" by (simp add: not_le)
    ultimately have "0 \<le> real_of_int z" unfolding v by (simp add: zero_le_mult_iff)
    then have z: "0 < z" using False by simp
    obtain N D where N: "round_scaled binary64 False (nat \<bar>z\<bar>) k = round_quotient binary64 False N D" "0 < D"
      "real N / real D = real (nat \<bar>z\<bar>) * 2 powi k" by (rule scaled_as_quotient)
    have q: "real N / real D = real_of_int (x + y)" unfolding N(3) v using z by simp
    have "0 < real_of_int (x + y)" unfolding v using z by simp
    then have "0 < x + y" by simp
    then show ?thesis using round_whole [OF _ assms(7) N(2) q] False z N(1) by (simp add: d)
  qed
qed

lemma whole_value:
  assumes "0 \<le> z" and "z < 2 ^ 53"
  shows "is_finite (of_integer z)" "dval (of_integer z) = real_of_int z" "\<not> (\<exists>m e. of_integer z = DFin True m e)"
proof -
  obtain q e where "of_integer z = DFin False q e" using assms by (rule of_integer_shape)
  then show "\<not> (\<exists>m e. of_integer z = DFin True m e)" by simp
qed (use of_integer_exact [of z] assms in simp_all)

lemma of_integer_add:
  assumes "0 \<le> x" and "0 \<le> y" and "x + y < 2 ^ 53"
  shows "d_add (of_integer x) (of_integer y) = of_integer (x + y)"
proof -
  have "x < 2 ^ 53" "y < 2 ^ 53" using assms by linarith+
  then show ?thesis using assms whole_value [of x] whole_value [of y] by (intro d_add_whole) auto
qed

lemma of_integer_sub:
  assumes "0 \<le> y" and "y \<le> x" and "x < 2 ^ 53"
  shows "d_sub (of_integer x) (of_integer y) = of_integer (x - y)"
proof -
  have "y < 2 ^ 53" "0 \<le> x" using assms by linarith+
  then have "d_add (of_integer x) (d_neg (of_integer y)) = of_integer (x + (- y))"
    using assms whole_value [of x] whole_value [of y] by (intro d_add_whole) auto
  then show ?thesis by (simp add: d_sub_def)
qed

lemma of_integer_le:
  assumes "0 \<le> x" and "x < 2 ^ 53" and "0 \<le> y" and "y < 2 ^ 53"
  shows "d_le (of_integer x) (of_integer y) \<longleftrightarrow> x \<le> y"
  using whole_value(1,2) [OF assms(1,2)] whole_value(1,2) [OF assms(3,4)] by (simp add: d_le_value)

subsection \<open>The loop of a step\<close>

lemma kStepNs_whole: "kStepNs = of_integer 1000000"
  by (simp add: kStepNs_def decimal_value_def of_integer_def)

abbreviation one_step :: "vehicle_params \<Rightarrow> vehicle_state \<Rightarrow> vehicle_state" where
  "one_step p \<equiv> integrate p (d_div kStepNs (lit 1 9))"

definition advanced :: "int \<Rightarrow> vehicle \<Rightarrow> vehicle" where
  "advanced ns v = v\<lparr>vh_state := (one_step (vh_params v) ^^ nat (ns div 1000000)) (vh_state v), vh_leftover_ns := of_integer (ns mod 1000000)\<rparr>"

lemma vehicle_run_stop:
  assumes "0 \<le> L" and "L < 1000000"
  shows "vehicle_run (v\<lparr>vh_leftover_ns := of_integer L\<rparr>) = Some (v\<lparr>vh_leftover_ns := of_integer L\<rparr>)"
proof -
  have "\<not> d_le kStepNs (of_integer L)" using of_integer_le [of 1000000 L] assms by (simp add: kStepNs_whole)
  then show ?thesis by (subst vehicle_run.simps) simp
qed

lemma vehicle_run_go:
  assumes "1000000 \<le> L" and "L < 2 ^ 53"
  shows "vehicle_run (v\<lparr>vh_leftover_ns := of_integer L\<rparr>) =
    vehicle_run (v\<lparr>vh_state := one_step (vh_params v) (vh_state v), vh_leftover_ns := of_integer (L - 1000000)\<rparr>)"
proof -
  have "d_le kStepNs (of_integer L)" using of_integer_le [of 1000000 L] assms by (simp add: kStepNs_whole)
  moreover have "d_sub (of_integer L) kStepNs = of_integer (L - 1000000)"
    using of_integer_sub [of 1000000 L] assms by (simp add: kStepNs_whole)
  ultimately show ?thesis by (subst vehicle_run.simps) simp
qed

lemma vehicle_run_whole:
  assumes "0 \<le> L" and "L < 2 ^ 53" and "n = nat (L div 1000000)"
  shows "vehicle_run (v\<lparr>vh_leftover_ns := of_integer L\<rparr>) = Some (advanced L v)"
  using assms
proof (induction n arbitrary: L v)
  case 0
  have z: "nat (L div 1000000) = 0" by (rule 0(3) [symmetric])
  have L: "L < 1000000" using z 0(1) by (simp only: nat_eq_iff2)
  then have "L mod 1000000 = L" using 0(1) by simp
  then have "advanced L v = v\<lparr>vh_leftover_ns := of_integer L\<rparr>" unfolding advanced_def z by simp
  then show ?case using vehicle_run_stop [OF 0(1) L, of v] by simp
next
  case (Suc n)
  define w where "w = v\<lparr>vh_state := one_step (vh_params v) (vh_state v)\<rparr>"
  have L: "1000000 \<le> L"
  proof (rule ccontr)
    assume "\<not> 1000000 \<le> L"
    then have "L div 1000000 = 0" using Suc(2) by simp
    then show False using Suc(4) by simp
  qed
  define K where "K = L - 1000000"
  have LK: "L = K + 1 * 1000000" by (simp add: K_def)
  have d: "L div 1000000 = K div 1000000 + 1" and m: "L mod 1000000 = K mod 1000000" unfolding LK by simp_all
  have "0 \<le> K div 1000000" using L by (simp add: K_def pos_imp_zdiv_nonneg_iff)
  then have n: "n = nat (K div 1000000)" using Suc(4) unfolding d by simp
  have "vehicle_run (v\<lparr>vh_leftover_ns := of_integer L\<rparr>) = vehicle_run (w\<lparr>vh_leftover_ns := of_integer (L - 1000000)\<rparr>)"
    using vehicle_run_go [OF L Suc(3), of v] by (simp add: w_def)
  also have "\<dots> = Some (advanced K w)" unfolding K_def [symmetric] by (rule Suc(1) [OF _ _ n]) (use L Suc(3) in \<open>simp_all add: K_def\<close>)
  also have "advanced K w = advanced L v"
    unfolding advanced_def m [symmetric] n [symmetric] Suc(4) [symmetric] by (simp add: w_def funpow_swap1)
  finally show ?case .
qed

lemma vehicle_step_whole:
  assumes "vh_leftover_ns v = of_integer L" and "0 \<le> L" and "L + uint dt < 2 ^ 53"
  shows "vehicle_step dt v = Some (advanced (L + uint dt) v)"
proof -
  have "d_add (of_integer L) (of_u64 dt) = of_integer (L + uint dt)" using assms(2,3) by (simp add: of_u64_def of_integer_add)
  then show ?thesis using vehicle_run_whole [of "L + uint dt" _ v] assms by (simp add: vehicle_step_def)
qed

lemma advanced_twice:
  assumes "0 \<le> a" and "0 \<le> b"
  shows "advanced (a mod 1000000 + b) (advanced a v) = advanced (a + b) v"
proof -
  define c where "c = a mod 1000000 + b"
  define k where "k = a div 1000000"
  have ab: "a + b = c + k * 1000000" by (simp add: c_def k_def)
  have "(a + b) div 1000000 = c div 1000000 + k" "(a + b) mod 1000000 = c mod 1000000" unfolding ab by simp_all
  moreover have "0 \<le> c" "0 \<le> k" using assms by (simp_all add: c_def k_def pos_imp_zdiv_nonneg_iff)
  then have "0 \<le> c div 1000000" by (simp add: pos_imp_zdiv_nonneg_iff)
  ultimately have "nat ((a + b) div 1000000) = nat (c div 1000000) + nat k" using \<open>0 \<le> k\<close> by (simp only: nat_add_distrib)
  then show ?thesis using \<open>(a + b) mod 1000000 = c mod 1000000\<close>
    unfolding c_def [symmetric] advanced_def k_def by (simp add: funpow_add)
qed

text \<open>C35. Time may be cut into steps of any lengths: as long as the total is below \<open>2 ^ 53\<close> nanoseconds, every step
  returns, and the state after a sequence of steps is the integration of one millisecond repeated once for every
  whole millisecond of the total, with the rest kept for the next step.\<close>

theorem vehicle_steps_any_split:
  assumes "vh_leftover_ns v = of_integer L" and "0 \<le> L" and "L < 1000000" and "L + (\<Sum>dt\<leftarrow>dts. uint dt) < 2 ^ 53"
  shows "foldl (\<lambda>vo dt. Option.bind vo (vehicle_step dt)) (Some v) dts =
    Some (v\<lparr>vh_state := (integrate (vh_params v) (d_div kStepNs (lit 1 9)) ^^ nat ((L + (\<Sum>dt\<leftarrow>dts. uint dt)) div 1000000)) (vh_state v),
            vh_leftover_ns := of_integer ((L + (\<Sum>dt\<leftarrow>dts. uint dt)) mod 1000000)\<rparr>)"
proof -
  have nonneg: "0 \<le> (\<Sum>dt\<leftarrow>ds. uint dt)" for ds :: "u64 list" by (induction ds) simp_all
  have "foldl (\<lambda>vo dt. Option.bind vo (vehicle_step dt)) (Some v) dts = Some (advanced (L + (\<Sum>dt\<leftarrow>dts. uint dt)) v)"
    using assms
  proof (induction dts arbitrary: v L)
    case Nil
    then show ?case by (simp add: advanced_def)
  next
    case (Cons dt dts)
    let ?w = "advanced (L + uint dt) v"
    have "L + uint dt < 2 ^ 53" using Cons.prems(4) nonneg [of dts] by simp
    then have s: "vehicle_step dt v = Some ?w" using vehicle_step_whole Cons.prems by simp
    have total: "(L + uint dt) mod 1000000 + (\<Sum>dt\<leftarrow>dts. uint dt) \<le> L + (\<Sum>dt\<leftarrow>dt # dts. uint dt)"
      using Cons.prems(2) zmod_le_nonneg_dividend [of "L + uint dt" 1000000] by simp
    have "foldl (\<lambda>vo dt. Option.bind vo (vehicle_step dt)) (Some v) (dt # dts) =
        Some (advanced ((L + uint dt) mod 1000000 + (\<Sum>dt\<leftarrow>dts. uint dt)) ?w)"
      using Cons.IH [of ?w "(L + uint dt) mod 1000000"] Cons.prems(4) total s by (simp add: advanced_def)
    then show ?case using advanced_twice [of "L + uint dt" "\<Sum>dt\<leftarrow>dts. uint dt" v] Cons.prems(2) nonneg [of dts] by (simp add: add.assoc)
  qed
  then show ?thesis by (simp add: advanced_def)
qed

theorem vehicle_steps_any_split_witness:
  "foldl (\<lambda>vo dt. Option.bind vo (vehicle_step dt)) (Some default_vehicle) [700000, 1300000] =
   foldl (\<lambda>vo dt. Option.bind vo (vehicle_step dt)) (Some default_vehicle) [2000000]"
  using vehicle_steps_any_split [of default_vehicle 0 "[700000, 1300000]"] vehicle_steps_any_split [of default_vehicle 0 "[2000000]"]
  by (simp add: default_vehicle_def of_integer_zero)

subsection \<open>What every call keeps\<close>

datatype vehicle_call = CallThrottle double | CallBrake double | CallGear int | CallStep u64

definition vehicle_call :: "vehicle option \<Rightarrow> vehicle_call \<Rightarrow> vehicle option" where
  "vehicle_call vo c =
     (case vo of
        None \<Rightarrow> None
      | Some v \<Rightarrow>
          (case c of
             CallThrottle x \<Rightarrow> Some (set_throttle x v)
           | CallBrake x \<Rightarrow> Some (set_brake x v)
           | CallGear g \<Rightarrow> Some (set_gear g v)
           | CallStep dt \<Rightarrow> vehicle_step dt v))"

text \<open>The speed is a number that is not negative, the gear is one of the box or neutral, and a pedal is inside its
  travel unless it was set to a NaN.\<close>

definition pedal_ok :: "double \<Rightarrow> double \<Rightarrow> bool" where
  "pedal_ok hi x \<longleftrightarrow> is_nan x \<or> d_le dzero x \<and> d_le x hi"

definition vehicle_ok :: "vehicle_params \<Rightarrow> vehicle \<Rightarrow> bool" where
  "vehicle_ok p v \<longleftrightarrow> vh_params v = p \<and> d_le dzero (speed_mps (vh_state v)) \<and> 0 \<le> gear (vh_state v) \<and>
     gear (vh_state v) \<le> int (length (gear_ratios p)) \<and> pedal_ok (lit 100 0) (throttle_pct (vh_state v)) \<and>
     pedal_ok (lit 150 0) (brake_bar (vh_state v))"

lemma d_le_refl: "\<not> is_nan x \<Longrightarrow> d_le x x"
  by (cases x) (auto simp: d_le_def)

lemma not_less_le: "\<not> d_less x y \<Longrightarrow> \<not> is_nan x \<Longrightarrow> \<not> is_nan y \<Longrightarrow> d_le y x"
  by (cases x; cases y) (auto simp: d_le_def Let_def min.commute)

lemma less_not_nan: "d_less x y \<Longrightarrow> \<not> is_nan x \<and> \<not> is_nan y"
  by (cases x; cases y) auto

lemma clamp_pedal:
  assumes "\<not> is_nan hi" and "d_le dzero hi"
  shows "pedal_ok hi (d_clamp x dzero hi)"
proof -
  have "d_le dzero x" "d_le x hi" if "\<not> d_less x dzero" "\<not> d_less hi x" "\<not> is_nan x"
    using that assms(1) not_less_le by auto
  then show ?thesis using assms by (auto simp: d_clamp_def pedal_ok_def d_le_refl)
qed

lemma std_max_zero: "d_le dzero (std_max dzero x)"
proof (cases "d_less dzero x")
  case True
  then show ?thesis by (simp add: std_max_def d_le_def)
next
  case False
  then show ?thesis by (simp add: std_max_def d_le_refl)
qed

lemma pedal_tops: "\<not> is_nan (lit 100 0)" "d_le dzero (lit 100 0)" "\<not> is_nan (lit 150 0)" "d_le dzero (lit 150 0)"
proof -
  have l: "lit n 0 = of_integer (int n)" for n by (simp add: decimal_value_def of_integer_def)
  have f: "is_finite (lit n 0) \<and> dval (lit n 0) = real n" if "n \<le> 1000" for n
    using of_integer_exact [of "int n"] that by (simp add: l)
  have nan: "\<not> is_nan d" if "is_finite d" for d using that by (cases d) simp_all
  show "\<not> is_nan (lit 100 0)" "d_le dzero (lit 100 0)" "\<not> is_nan (lit 150 0)" "d_le dzero (lit 150 0)"
    using nan f [of 100] f [of 150] by (simp_all add: d_le_value)
qed

lemma integrate_keeps:
  "gear (integrate p dt s) = gear s" "throttle_pct (integrate p dt s) = throttle_pct s" "brake_bar (integrate p dt s) = brake_bar s"
  "d_le dzero (speed_mps (integrate p dt s))"
  by (simp_all add: integrate_def Let_def std_max_zero)

lemma vehicle_run_ok:
  assumes "vehicle_run v = Some v'" and "vehicle_ok p v"
  shows "vehicle_ok p v'"
proof -
  have "vehicle_ok p v \<longrightarrow> vehicle_ok p v'"
    by (rule vehicle_run.raw_induct [OF _ assms(1), of "\<lambda>v w. vehicle_ok p v \<longrightarrow> vehicle_ok p w"])
      (auto simp: vehicle_ok_def integrate_keeps split: if_splits)
  then show ?thesis using assms(2) by simp
qed

interpretation vehicles: event_machine vehicle_call "\<lambda>vo. \<forall>v. vo = Some v \<longrightarrow> vehicle_ok p v" for p
proof
  fix vo c
  assume ok: "\<forall>v. vo = Some v \<longrightarrow> vehicle_ok p v"
  show "\<forall>w. vehicle_call vo c = Some w \<longrightarrow> vehicle_ok p w"
  proof (intro allI impI)
    fix w assume w: "vehicle_call vo c = Some w"
    then obtain v where v: "vo = Some v" by (cases vo) (simp_all add: vehicle_call_def)
    have k: "vehicle_ok p v" using ok v by simp
    show "vehicle_ok p w"
    proof (cases c)
      case (CallStep dt)
      then have "vehicle_run (v\<lparr>vh_leftover_ns := d_add (vh_leftover_ns v) (of_u64 dt)\<rparr>) = Some w"
        using w v by (simp add: vehicle_call_def vehicle_step_def)
      then show ?thesis by (rule vehicle_run_ok) (use k in \<open>simp add: vehicle_ok_def\<close>)
    qed (use w v k clamp_pedal pedal_tops in \<open>auto simp: vehicle_call_def vehicle_ok_def set_throttle_def set_brake_def set_gear_def\<close>)
  qed
qed

text \<open>C36. From a new vehicle with at least one gear, over every sequence of pedal and gear settings, whatever their
  values, and steps: the speed is never negative and never a NaN, the gear stays between neutral and the last one,
  and the pedals stay inside their travel or are the NaN they were set to.\<close>

theorem vehicle_stays_in_bounds:
  assumes "gear_ratios p \<noteq> []" and "foldl vehicle_call (Some (new_vehicle p)) calls = Some v"
  shows "d_le dzero (speed_mps (vh_state v)) \<and> 0 \<le> gear (vh_state v) \<and> gear (vh_state v) \<le> int (length (gear_ratios p)) \<and>
    (is_nan (throttle_pct (vh_state v)) \<or> d_le dzero (throttle_pct (vh_state v)) \<and> d_le (throttle_pct (vh_state v)) (lit 100 0)) \<and>
    (is_nan (brake_bar (vh_state v)) \<or> d_le dzero (brake_bar (vh_state v)) \<and> d_le (brake_bar (vh_state v)) (lit 150 0))"
proof -
  have "pedal_ok (lit 100 0) dzero" "pedal_ok (lit 150 0) dzero" using pedal_tops by (simp_all add: pedal_ok_def d_le_refl)
  moreover have "1 \<le> int (length (gear_ratios p))" using assms(1) by (cases "gear_ratios p") simp_all
  ultimately have "vehicle_ok p (new_vehicle p)"
    by (simp add: vehicle_ok_def new_vehicle_def default_state_def d_le_refl)
  then have "vehicle_ok p v" using vehicles.run_inv [where s = "Some (new_vehicle p)" and p = p] assms(2) by blast
  then show ?thesis by (simp add: vehicle_ok_def pedal_ok_def)
qed

theorem vehicle_stays_in_bounds_witness:
  "gear (vh_state (set_gear 9 (set_throttle DNaN (new_vehicle default_params)))) \<le> 5"
  using vehicle_stays_in_bounds [of default_params "[CallThrottle DNaN, CallGear 9]"]
  by (simp add: vehicle_call_def default_params_def)

end
