(* ===== verification/Source_Laws.thy ===== *)
theory Source_Laws
  imports SignalSource
begin

text \<open>
  A signal source is a function of the simulated time: whatever it was asked before, at a finer or a coarser step or
  going back, its value at a time is the one it has at that time after a reset.
\<close>

subsection \<open>The walk\<close>

lemma walk_to_index: "snd (walk_to lib w want v i r) = (max i want, snd (snd (walk_to lib w want v i r)))"
proof (induction lib w want v i r rule: walk_to.induct)
  case (1 lib w want v i r)
  show ?case
  proof (cases "i < want")
    case True
    obtain d r' where d: "draw_real lib (d_neg (wk_step w)) (wk_step w) r = (d, r')" by fastforce
    have "max (i + 1) want = max i want" using inc_le [OF True] less_imp_le [OF True] by (simp add: max_def)
    then show ?thesis using True d 1 [OF True d [symmetric] refl] by (subst (1 2) walk_to.simps) simp
  next
    case False
    then show ?thesis by (subst (1 2) walk_to.simps) (simp add: max_def)
  qed
qed

lemma walk_to_again: "want \<le> i \<Longrightarrow> walk_to lib w want v i r = (v, i, r)"
  by (subst walk_to.simps) (simp add: leD)

lemma walk_to_through:
  assumes "want \<le> later" and "walk_to lib w want v i r = (v', i', r')"
  shows "walk_to lib w later v i r = walk_to lib w later v' i' r'"
  using assms
proof (induction lib w want v i r rule: walk_to.induct)
  case (1 lib w want v i r)
  show ?case
  proof (cases "i < want")
    case True
    obtain d s where d: "draw_real lib (d_neg (wk_step w)) (wk_step w) r = (d, s)" by fastforce
    have "walk_to lib w want (d_clamp (d_add v d) (wk_low w) (wk_high w)) (i + 1) s = (v', i', r')"
      using 1(3) True d by (subst (asm) walk_to.simps) simp
    then have "walk_to lib w later (d_clamp (d_add v d) (wk_low w) (wk_high w)) (i + 1) s = walk_to lib w later v' i' r'"
      using 1(1) [OF True d [symmetric] refl 1(2)] by simp
    moreover have "i < later" using True 1(2) by (rule less_le_trans)
    ultimately show ?thesis using d by (subst walk_to.simps) simp
  next
    case False
    then show ?thesis using 1(3) by (simp add: walk_to_again)
  qed
qed

text \<open>The state of the walk after as many steps as its index says.\<close>

definition walk_state :: "'r maths \<Rightarrow> walk \<Rightarrow> u64 \<Rightarrow> double \<times> u64 \<times> 'r" where
  "walk_state lib w i = walk_to lib w i (wk_start w) 0 (seeded lib (wk_seed w))"

lemma walk_sample_state:
  assumes "(v, i, r) = walk_state lib w i"
  shows "walk_sample lib w t v i r = walk_state lib w (t div wk_interval w)"
proof (cases "t div wk_interval w < i")
  case True
  then show ?thesis by (simp add: walk_sample_def walk_state_def)
next
  case False
  then have "i \<le> t div wk_interval w" by simp
  from walk_to_through [OF this assms [symmetric, unfolded walk_state_def]] show ?thesis
    using False by (simp add: walk_sample_def walk_state_def Let_def)
qed

lemma walk_state_index: "fst (snd (walk_state lib w i)) = i"
  using walk_to_index [of lib w i "wk_start w" 0] by (simp add: walk_state_def prod_eq_iff)

subsection \<open>Every source\<close>

fun coherent :: "'r maths \<Rightarrow> 'r generator \<Rightarrow> bool" where
  "coherent lib (RandomWalk w v i r) \<longleftrightarrow> (v, i, r) = walk_state lib w i"
| "coherent lib (Combine parts multiply) \<longleftrightarrow> list_all (coherent lib) parts"
| "coherent lib (Affine s f off) \<longleftrightarrow> coherent lib s"
| "coherent lib (Clamped s lo hi) \<longleftrightarrow> coherent lib s"
| "coherent lib s \<longleftrightarrow> True"

lemma coherent_reset: "coherent lib (source_reset lib g)"
  by (induction g rule: source_reset.induct) (auto simp: walk_state_def walk_to_again list_all_iff)

lemma sample_coherent:
  "coherent lib g \<Longrightarrow> fst (sample lib t g) = fst (sample lib t (source_reset lib g)) \<and> coherent lib (snd (sample lib t g))
     \<and> source_reset lib (snd (sample lib t g)) = source_reset lib g"
  "list_all (coherent lib) gs \<Longrightarrow> fst (sample_parts lib t multiply acc gs) = fst (sample_parts lib t multiply acc (map (source_reset lib) gs))
     \<and> list_all (coherent lib) (snd (sample_parts lib t multiply acc gs))
     \<and> map (source_reset lib) (snd (sample_parts lib t multiply acc gs)) = map (source_reset lib) gs"
proof (induction lib t g and lib t multiply acc gs rule: sample_sample_parts.induct)
  case (5 lib t w v i r)
  obtain v' i' r' where s: "walk_state lib w (t div wk_interval w) = (v', i', r')" by (metis prod_cases3)
  have "i' = t div wk_interval w" using walk_state_index [of lib w "t div wk_interval w"] s by simp
  moreover have "(v, i, r) = walk_state lib w i" using 5 by (simp only: coherent.simps)
  then have "walk_sample lib w t v i r = (v', i', r')" using walk_sample_state [of v i r lib w t] s by simp
  moreover have "walk_sample lib w t (wk_start w) 0 (seeded lib (wk_seed w)) = (v', i', r')"
    using walk_sample_state [of "wk_start w" 0 "seeded lib (wk_seed w)" lib w t] s by (simp add: walk_state_def walk_to_again)
  ultimately show ?case using s by simp
next
  case (11 lib t multiply acc p ps)
  obtain v q where v: "sample lib t p = (v, q)" by fastforce
  have p: "fst (sample lib t (source_reset lib p)) = v" "coherent lib q" "source_reset lib q = source_reset lib p"
    using 11(1,3) v by simp_all
  show ?case using 11(2) [OF v [symmetric] refl] 11(3) v p by (cases multiply) (simp_all add: case_prod_beta)
qed (simp_all add: Let_def case_prod_beta)

interpretation sources: event_machine "\<lambda>g t. snd (sample lib t g)" "\<lambda>g. coherent lib g \<and> source_reset lib g = source_reset lib g0"
  for lib :: "'r maths" and g0
  using sample_coherent(1) by unfold_locales auto

text \<open>The constructors return sources that a reset leaves alone, when the parts are such sources.\<close>

lemma fresh_sources:
  "source_reset lib (Constant v) = Constant v" "source_reset lib (ramp a b over mode) = ramp a b over mode"
  "source_reset lib (sine amp hz off degrees) = sine amp hz off degrees"
  "source_reset lib (square low high period duty) = square low high period duty"
  "source_reset lib (random_walk lib start step low high seed interval) = random_walk lib start step low high seed interval"
  "source_reset lib (keyframes fs interpolate) = keyframes fs interpolate"
  "map (source_reset lib) gs = gs \<Longrightarrow> source_reset lib (Combine gs multiply) = Combine gs multiply"
  "source_reset lib g = g \<Longrightarrow> source_reset lib (Affine g f off) = Affine g f off"
  "source_reset lib g = g \<Longrightarrow> source_reset lib (Clamped g lo hi) = Clamped g lo hi"
  by (simp_all add: ramp_def sine_def square_def random_walk_def keyframes_def)

text \<open>C34. Every source is a function of the simulated time: after any sequence of samples, taken at any times and in
  any order, a source's value at a time is the value the source has at that time when it is fresh, and a reset
  brings back the fresh source.\<close>

theorem source_pure_of_time:
  assumes "source_reset lib g = g"
  shows "fst (sample lib t (foldl (\<lambda>g t. snd (sample lib t g)) g ts)) = fst (sample lib t g) \<and>
    source_reset lib (foldl (\<lambda>g t. snd (sample lib t g)) g ts) = g"
proof -
  let ?g = "foldl (\<lambda>g t. snd (sample lib t g)) g ts"
  have "coherent lib g" using coherent_reset [of lib g] assms by simp
  then have g: "coherent lib ?g \<and> source_reset lib ?g = source_reset lib g" using sources.run_inv by blast
  then have "fst (sample lib t ?g) = fst (sample lib t (source_reset lib ?g))" using sample_coherent(1) by blast
  then show ?thesis using g assms by simp
qed

definition count_maths :: "nat maths" where
  "count_maths = \<lparr>seeded = unat, draw_real = (\<lambda>a b r. (b, Suc r)), draw_int = (\<lambda>a b r. (b, Suc r)), sin_of = (\<lambda>x. x)\<rparr>"

theorem source_pure_of_time_witness:
  "fst (sample count_maths 700000000
      (foldl (\<lambda>g t. snd (sample count_maths t g)) (random_walk count_maths dzero (lit 1 0) dzero (lit 100 0) 1 0) [900000000, 5]))
    = fst (sample count_maths 700000000 (random_walk count_maths dzero (lit 1 0) dzero (lit 100 0) 1 0))"
  using source_pure_of_time [OF fresh_sources(5)] by blast

end
