(* ===== verification/Faults_Laws.thy ===== *)
theory Faults_Laws
  imports Faults Database_Laws Source_Laws
begin

text \<open>
  What the fault injector does to a frame: nothing is lost without being counted, the identity of a frame is never
  touched, faults that are off do nothing, and a frozen signal keeps its raw value.
\<close>

subsection \<open>Counting and identity\<close>

lemma apply_fault_frame:
  assumes "apply_fault lib i mo f sf fi = (Some (due, w), fi')"
  shows "frame_id w = frame_id (snd sf) \<and> frame_dlc w = frame_dlc (snd sf) \<and> frame_flags w = frame_flags (snd sf)
    \<and> length (frame_data w) = length (frame_data (snd sf)) \<and> inj_dropped fi' = inj_dropped fi"
proof -
  obtain u g where sf: "sf = (u, g)" by (cases sf)
  have enc: "frame_id h = frame_id g \<and> frame_dlc h = frame_dlc g \<and> frame_flags h = frame_flags g \<and> length (frame_data h) = length (frame_data g)"
    if "signal_encode s v g = Inr h" for s v h
    using that by (auto simp: signal_encode_def layout_encode_def split: if_splits)
  have force: "frame_id (force_raw s v g) = frame_id g \<and> frame_dlc (force_raw s v g) = frame_dlc g \<and>
      frame_flags (force_raw s v g) = frame_flags g \<and> length (frame_data (force_raw s v g)) = length (frame_data g)" for s v
    by (auto simp: force_raw_def layout_encode_def split: sum.split)
  have frz: "frame_id h = frame_id g \<and> frame_dlc h = frame_dlc g \<and> frame_flags h = frame_flags g \<and>
      length (frame_data h) = length (frame_data g) \<and> inj_dropped fj = inj_dropped fi"
    if "freeze s k n g fi = (h, fj)" for s k n h fj
    using that enc by (auto simp: freeze_def Let_def split: prod.splits sum.splits if_splits)
  show ?thesis
    using assms by (cases "flt_kind f") (auto simp: sf apply_fault_def Let_def flip_bit_def force dest!: frz
        split: prod.splits if_splits option.splits)
qed

lemma apply_fault_lost: "apply_fault lib i mo f sf fi = (None, fi') \<Longrightarrow> inj_dropped fi' = inj_dropped fi + 1"
  by (cases "flt_kind f") (auto simp: apply_fault_def Let_def split: prod.splits if_splits option.splits)

lemma apply_fault_faults: "inj_faults (snd (apply_fault lib i mo f sf fi)) = inj_faults fi \<and> inj_seed (snd (apply_fault lib i mo f sf fi)) = inj_seed fi"
  by (cases "flt_kind f") (auto simp: apply_fault_def freeze_def Let_def split: prod.split option.split)

lemma fault_loop_counts:
  "of_nat (length (fst (fault_loop lib node i mo fs sf fi))) + inj_dropped (snd (fault_loop lib node i mo fs sf fi)) = inj_dropped fi + 1"
proof (induction lib node i mo fs sf fi rule: fault_loop.induct)
  case (2 lib node i mo f fs sf fi)
  obtain r fj where a: "apply_fault lib i mo f sf fi = (r, fj)" by fastforce
  show ?case
  proof (cases r)
    case None
    then show ?thesis using 2 a apply_fault_lost [of lib i mo f sf fi fj] by simp
  next
    case (Some sg)
    then show ?thesis using 2 a apply_fault_frame [of lib i mo f sf fi "fst sg" "snd sg" fj] by (cases sg) simp
  qed
qed simp

lemma fault_loop_faults:
  "inj_faults (snd (fault_loop lib node i mo fs sf fi)) = inj_faults fi \<and> inj_seed (snd (fault_loop lib node i mo fs sf fi)) = inj_seed fi"
proof (induction lib node i mo fs sf fi rule: fault_loop.induct)
  case (2 lib node i mo f fs sf fi)
  then show ?case using apply_fault_faults [of lib i mo f sf fi] by (auto split: prod.split option.split)
qed simp

lemma fault_loop_frame:
  "sg \<in> set (fst (fault_loop lib node i mo fs sf fi)) \<Longrightarrow> frame_id (snd sg) = frame_id (snd sf) \<and> frame_dlc (snd sg) = frame_dlc (snd sf)
     \<and> frame_flags (snd sg) = frame_flags (snd sf) \<and> length (frame_data (snd sg)) = length (frame_data (snd sf))"
proof (induction lib node i mo fs sf fi rule: fault_loop.induct)
  case (2 lib node i mo f fs sf fi)
  obtain r fj where a: "apply_fault lib i mo f sf fi = (r, fj)" by fastforce
  then show ?case
    using 2 apply_fault_frame [of lib i mo f sf fi _ _ fj] by (auto split: if_splits option.splits)
qed simp

lemma inject_counts: "of_nat (length (fst (inject lib db node f now fi))) + inj_dropped (snd (inject lib db node f now fi)) = inj_dropped fi + 1"
  by (simp add: inject_def fault_loop_counts)

lemma inject_faults: "inj_faults (snd (inject lib db node f now fi)) = inj_faults fi \<and> inj_seed (snd (inject lib db node f now fi)) = inj_seed fi"
  by (simp add: inject_def fault_loop_faults)

lemma inject_at_most_one: "length (fst (inject lib db node f now fi)) \<le> 1"
proof -
  have "length (fst (fault_loop lib node i mo fs sf fi)) \<le> 1" for i mo fs sf fi
    by (induction lib node i mo fs sf fi rule: fault_loop.induct) (auto split: prod.split option.split)
  then show ?thesis by (simp add: inject_def)
qed

subsection \<open>Faults that are off\<close>

lemma fault_loop_active: "fault_loop lib node i mo fs sf fi = fault_loop lib node i mo (filter flt_active fs) sf fi"
  by (induction lib node i mo fs sf fi rule: fault_loop.induct) (auto simp: fault_applies_def split: prod.split option.split)

lemma inject_quiet:
  assumes "filter flt_active (inj_faults fi) = []"
  shows "inject lib db node f now fi = ([(now, f)], fi)"
proof -
  have "\<not> node_stopped fi node" using assms by (auto simp: node_stopped_def list_ex_iff filter_empty_conv)
  then show ?thesis using assms fault_loop_active [of lib node _ _ "inj_faults fi"] by (simp add: inject_def)
qed

subsection \<open>A frozen signal\<close>

text \<open>The slot holds a value that encodes to the raw value \<open>R\<close>.\<close>

definition frozen_at :: "signal \<Rightarrow> u32 \<Rightarrow> string \<Rightarrow> u64 \<Rightarrow> 'r injector \<Rightarrow> bool" where
  "frozen_at s i sig R fi \<longleftrightarrow>
     (\<exists>k v. first_index (\<lambda>v. frz_id v = i \<and> frz_signal v = sig) (inj_frozen fi) = Some k \<and> inj_frozen fi ! k = v \<and> frz_captured v
        \<and> is_finite (frz_value v) \<and> physical_to_raw (sig_layout s) (frz_value v) = R)"

lemma first_index_append_new:
  assumes "first_index P xs = None" and "P y"
  shows "first_index P (xs @ [y]) = Some (length xs)"
  using assms by (induction xs) (auto split: if_splits)

lemma first_index_update:
  assumes "first_index P xs = Some k" and "P y"
  shows "first_index P (xs[k := y]) = Some k"
  using assms by (induction xs arbitrary: k) (auto split: if_splits nat.splits)

text \<open>The first frame leaves its value in the slot, and goes out with that value encoded again.\<close>

lemma freeze_first:
  assumes "is_finite (signal_decode s f)" and "fits (sig_layout s) (frame_size f)"
    and "\<forall>v\<in>set (inj_frozen fi). \<not> (frz_id v = i \<and> frz_signal v = sig)"
  obtains fi' where "freeze s i sig f fi =
      (f\<lparr>frame_data := encode_raw (sig_layout s) (physical_to_raw (sig_layout s) (signal_decode s f)) (frame_data f)\<rparr>, fi')"
    "frozen_at s i sig (physical_to_raw (sig_layout s) (signal_decode s f)) fi'"
proof -
  let ?P = "\<lambda>v. frz_id v = i \<and> frz_signal v = sig"
  have none: "first_index ?P (inj_frozen fi) = None" using assms(3) by (simp add: first_index_None_iff)
  define slot where "slot = \<lparr>frz_id = i, frz_signal = sig, frz_value = signal_decode s f, frz_captured = True\<rparr>"
  have fr: "freeze s i sig f fi = (case signal_encode s (frz_value slot) f of Inl e \<Rightarrow> f | Inr w \<Rightarrow> w, fi\<lparr>inj_frozen := inj_frozen fi @ [slot]\<rparr>)"
    by (simp add: freeze_def frozen_slot_def none slot_def)
  have "signal_encode s (frz_value slot) f =
      Inr (f\<lparr>frame_data := encode_raw (sig_layout s) (physical_to_raw (sig_layout s) (signal_decode s f)) (frame_data f)\<rparr>)"
    using assms(1,2) by (simp add: slot_def signal_encode_def layout_encode_def)
  moreover have "first_index ?P (inj_frozen fi @ [slot]) = Some (length (inj_frozen fi))"
    by (rule first_index_append_new [OF none]) (simp add: slot_def)
  ultimately show thesis using that fr assms(1) by (auto simp: frozen_at_def slot_def)
qed

text \<open>A value in the declared range that a double can hold encodes to the raw value it was decoded from.\<close>

lemma frozen_raw:
  assumes "validate_layout (sig_layout s) (length (frame_data f)) = ok" and "value_type (sig_layout s) = Integer"
    and "scale_ok (sig_layout s) (signal_integer (sig_layout s) (decode_raw (sig_layout s) (frame_data f)))"
    and "in_declared_range (sig_layout s) (signal_decode s f)"
  shows "is_finite (signal_decode s f) \<and> physical_to_raw (sig_layout s) (signal_decode s f) = decode_raw (sig_layout s) (frame_data f)"
  using assms(2-4) validated [OF assms(1)] unfolding signal_decode_def layout_decode_def
  by (intro physical_to_raw_back decode_raw_less)

text \<open>Every later frame gets that raw value, and nothing else changes.\<close>

lemma freeze_again:
  assumes "frozen_at s i sig R fi" and "fits (sig_layout s) (frame_size f)"
  shows "freeze s i sig f fi = (f\<lparr>frame_data := encode_raw (sig_layout s) R (frame_data f)\<rparr>, fi)"
proof -
  obtain k where k: "first_index (\<lambda>v. frz_id v = i \<and> frz_signal v = sig) (inj_frozen fi) = Some k"
    "frz_captured (inj_frozen fi ! k)" "is_finite (frz_value (inj_frozen fi ! k))"
    "physical_to_raw (sig_layout s) (frz_value (inj_frozen fi ! k)) = R"
    using assms(1) by (auto simp: frozen_at_def)
  have "signal_encode s (frz_value (inj_frozen fi ! k)) f = Inr (f\<lparr>frame_data := encode_raw (sig_layout s) R (frame_data f)\<rparr>)"
    using assms(2) k(3,4) by (simp add: signal_encode_def layout_encode_def)
  then show ?thesis using k by (simp add: freeze_def frozen_slot_def)
qed

text \<open>Frames with the times they are sent, one after the other.\<close>

fun inject_stream :: "'r maths \<Rightarrow> database \<Rightarrow> string \<Rightarrow> (frame \<times> u64) list \<Rightarrow> 'r injector \<Rightarrow> scheduled_frame list \<times> 'r injector" where
  "inject_stream lib db node [] fi = ([], fi)"
| "inject_stream lib db node ((f, now) # fs) fi =
     (let (out, fi) = inject lib db node f now fi; (outs, fi) = inject_stream lib db node fs fi in (out @ outs, fi))"

definition freezes :: "fault \<Rightarrow> string \<Rightarrow> can_id \<Rightarrow> bool" where
  "freezes f node i \<longleftrightarrow> flt_kind f = FreezeSignal \<and> (flt_node f = [] \<or> flt_node f = node) \<and> (flt_has_id f \<longrightarrow> flt_id f = i)"

definition signal_of :: "database \<Rightarrow> can_id \<Rightarrow> string \<Rightarrow> signal \<Rightarrow> bool" where
  "signal_of db i n s \<longleftrightarrow>
     (\<exists>k j. find_message db i = Some k \<and> find_signal (db_messages db ! k) n = Some j \<and> s = msg_signals (db_messages db ! k) ! j)"

lemma inject_freeze:
  assumes "filter flt_active (inj_faults fi) = [f]" and "freezes f node i" and "signal_of db i (flt_signal f) s"
    and "frame_id g = i" and "fits (sig_layout s) (frame_size g)" and "freeze s (id_value i) (flt_signal f) g fi = (h, fi')"
  shows "inject lib db node g now fi = ([(now, h)], fi')"
proof -
  have kind: "flt_kind f = FreezeSignal" and active: "flt_active f"
    using assms(1,2) by (auto simp: freezes_def filter_eq_Cons_iff)
  have "\<not> node_stopped fi node"
  proof
    assume "node_stopped fi node"
    then obtain x where "x \<in> set (filter flt_active (inj_faults fi))" "flt_kind x = StopNode" by (auto simp: node_stopped_def list_ex_iff)
    then show False using assms(1) kind by simp
  qed
  moreover obtain k j where k: "find_message db i = Some k" "find_signal (db_messages db ! k) (flt_signal f) = Some j"
    "s = msg_signals (db_messages db ! k) ! j" using assms(3) by (auto simp: signal_of_def)
  moreover have "fault_signal (Some (db_messages db ! k)) f g = Some s" using k(2,3) assms(5) by (simp add: fault_signal_def)
  moreover have "fault_applies node i f" using assms(2) active by (auto simp: freezes_def fault_applies_def)
  ultimately show ?thesis
    using assms(1,4,6) kind by (simp add: inject_def fault_loop_active [of lib node _ _ "inj_faults fi"] apply_fault_def)
qed

lemma stream_frozen:
  assumes "filter flt_active (inj_faults fi) = [f]" and "freezes f node i" and "signal_of db i (flt_signal f) s"
    and "frozen_at s (id_value i) (flt_signal f) R fi" and "\<forall>p\<in>set fs. frame_id (fst p) = i \<and> fits (sig_layout s) (frame_size (fst p))"
  shows "fst (inject_stream lib db node fs fi) =
    map (\<lambda>p. (snd p, (fst p)\<lparr>frame_data := encode_raw (sig_layout s) R (frame_data (fst p))\<rparr>)) fs"
  using assms(5)
proof (induction fs)
  case (Cons p fs)
  obtain g now where p: "p = (g, now)" by (cases p)
  have "inject lib db node g now fi = ([(now, g\<lparr>frame_data := encode_raw (sig_layout s) R (frame_data g)\<rparr>)], fi)"
    using Cons.prems by (intro inject_freeze [OF assms(1-3)] freeze_again [OF assms(4)]) (simp_all add: p)
  then show ?case using Cons by (simp add: p case_prod_beta)
qed simp

text \<open>C37. A frozen signal holds, over any sequence of frames of its message: each frame, the first included, goes out at its
  own time with one raw value in the field of the signal and every other bit as it was sent. The value is that of the
  first frame, decoded and encoded again; when the signal is an integer whose first value lies in its declared range
  and in what a double holds exactly (otherwise encoding saturates or rounds) it is the first frame's own raw value, so
  that the first frame goes out unchanged. The fault is the only active one, and the signal has no slot from before.\<close>

theorem frozen_signal_holds:
  assumes "filter flt_active (inj_faults fi) = [f]" and "freezes f node i" and "signal_of db i (flt_signal f) s"
    and "\<forall>v\<in>set (inj_frozen fi). \<not> (frz_id v = id_value i \<and> frz_signal v = flt_signal f)"
    and "\<forall>p\<in>set ((g, now) # fs). frame_id (fst p) = i \<and> fits (sig_layout s) (frame_size (fst p))"
    and "is_finite (signal_decode s g)"
  shows "let l = sig_layout s; R = physical_to_raw l (signal_decode s g) in
    fst (inject_stream lib db node ((g, now) # fs) fi) =
      map (\<lambda>(h, t). (t, h\<lparr>frame_data := encode_raw l R (frame_data h)\<rparr>)) ((g, now) # fs) \<and>
    (validate_layout l (length (frame_data g)) = ok \<and> value_type l = Integer \<and>
       scale_ok l (signal_integer l (decode_raw l (frame_data g))) \<and> in_declared_range l (signal_decode s g) \<longrightarrow>
       R = decode_raw l (frame_data g) \<and> encode_raw l R (frame_data g) = frame_data g)"
proof -
  let ?R = "physical_to_raw (sig_layout s) (signal_decode s g)"
  let ?h = "g\<lparr>frame_data := encode_raw (sig_layout s) ?R (frame_data g)\<rparr>"
  have g: "frame_id g = i" "fits (sig_layout s) (frame_size g)" using assms(5) by simp_all
  obtain fi' where fr: "freeze s (id_value i) (flt_signal f) g fi = (?h, fi')"
    and at: "frozen_at s (id_value i) (flt_signal f) ?R fi'"
    by (rule freeze_first [OF assms(6) g(2) assms(4)])
  have inj: "inject lib db node g now fi = ([(now, ?h)], fi')" by (rule inject_freeze [OF assms(1-3) g fr])
  then have "inj_faults fi' = inj_faults fi" using inject_faults [of lib db node g now fi] by simp
  then have rest: "fst (inject_stream lib db node fs fi') =
      map (\<lambda>p. (snd p, (fst p)\<lparr>frame_data := encode_raw (sig_layout s) ?R (frame_data (fst p))\<rparr>)) fs"
    by (intro stream_frozen [OF _ assms(2,3) at]) (use assms(1,5) \<open>inj_faults fi' = inj_faults fi\<close> in \<open>simp_all del: split_paired_All\<close>)
  moreover have "encode_raw (sig_layout s) (decode_raw (sig_layout s) (frame_data g)) (frame_data g) = frame_data g"
    if "validate_layout (sig_layout s) (length (frame_data g)) = ok" using encode_decode_raw validated(3) [OF that] by blast
  ultimately show ?thesis using inj frozen_raw [of s g] by (auto simp: Let_def case_prod_beta)
qed

definition oil_signal :: signal where
  "oil_signal = \<lparr>sig_name = ''Oil'', sig_unit = [], sig_comment = [], sig_multiplexor_name = [], sig_receivers = [],
     sig_mux_ranges = [], sig_value_descriptions = [], sig_attributes = [], sig_layout = sample_temperature,
     sig_mux_role = MuxNone, sig_mux_value = 0\<rparr>"

definition oil_database :: database where
  "oil_database = empty_database\<lparr>db_messages := [(new_message (CanId 5) ''M'' 2)\<lparr>msg_signals := [oil_signal]\<rparr>]\<rparr>"

definition oil_frame :: "u8 \<Rightarrow> frame" where
  "oil_frame b = \<lparr>timestamp_ns = 0, frame_id = CanId 5, frame_dlc = 2, frame_flags = 0, frame_data = [b, 1]\<rparr>"

definition stuck_oil :: fault where
  "stuck_oil = new_fault\<lparr>flt_kind := FreezeSignal, flt_signal := ''Oil'', flt_active := True\<rparr>"

theorem frozen_signal_holds_witness:
  "fst (inject_stream count_maths oil_database ''ECM'' [(oil_frame 0x23, 10), (oil_frame 0x50, 20)]
      (add_fault stuck_oil (new_injector count_maths 1))) = [(10, oil_frame 0x23), (20, oil_frame 0x23)]"
proof -
  let ?fi = "add_fault stuck_oil (new_injector count_maths 1)"
  have f: "filter flt_active (inj_faults ?fi) = [stuck_oil]" by (simp add: add_fault_def new_injector_def stuck_oil_def)
  have k: "freezes stuck_oil ''ECM'' (CanId 5)" by (simp add: freezes_def stuck_oil_def new_fault_def)
  have s: "signal_of oil_database (CanId 5) (flt_signal stuck_oil) oil_signal"
    by (simp add: signal_of_def oil_database_def find_message_def find_signal_def new_message_def stuck_oil_def oil_signal_def)
  have size: "frame_size (oil_frame b) = 2" for b
    by (simp add: frame_size_def oil_frame_def is_remote_def is_fd_def has_flag_def flag_none_def dlc_to_length_def)
  have fit: "fits sample_temperature 2" using validated(3) [OF sample_valid] by (simp add: numeral_2_eq_2)
  have all: "\<forall>p\<in>set [(oil_frame 0x23, 10), (oil_frame 0x50, 20)].
      frame_id (fst p) = CanId 5 \<and> fits (sig_layout oil_signal) (frame_size (fst p))"
    by (simp add: size oil_signal_def fit) (simp add: oil_frame_def)
  have lay: "sig_layout oil_signal = sample_temperature" by (simp add: oil_signal_def)
  have dat: "frame_data (oil_frame b) = [b, 1]" for b by (simp add: oil_frame_def)
  have r: "scale_ok (sig_layout oil_signal) (signal_integer (sig_layout oil_signal) (decode_raw (sig_layout oil_signal) (frame_data (oil_frame 0x23))))"
    using sample_scale sample_decoded by (simp add: lay dat signal_integer_def)
  have d: "in_declared_range (sig_layout oil_signal) (signal_decode oil_signal (oil_frame 0x23))"
    by (simp add: lay in_declared_range_def has_range_def)
  have slots: "\<forall>v\<in>set (inj_frozen ?fi). \<not> (frz_id v = id_value (CanId 5) \<and> frz_signal v = flt_signal stuck_oil)"
    by (simp add: add_fault_def new_injector_def)
  have wr: "encode_raw sample_temperature 291 [0x23, 1] = [0x23, 1]" "encode_raw sample_temperature 291 [0x50, 1] = [0x23, 1]"
    by (simp_all add: encode_raw_def canonical_start_def insert_intel_def spanned_bytes_def load_le_def store_le_def bit_mask_def Let_def upt_rec)
  have "value_type (sig_layout oil_signal) = Integer" by (simp add: lay sample_temperature_def)
  then have "is_finite (signal_decode oil_signal (oil_frame 0x23))"
    using frozen_raw [of oil_signal "oil_frame 0x23"] sample_valid r d by (simp add: lay dat)
  from frozen_signal_holds [OF f k s slots all this, of count_maths] show ?thesis
    using sample_valid r d sample_decoded \<open>value_type (sig_layout oil_signal) = Integer\<close>
    by (simp add: lay dat wr Let_def) (simp add: oil_frame_def)
qed

end
