(* ===== verification/Ecu_Laws.thy ===== *)
theory Ecu_Laws
  imports Ecu Faults_Laws
begin

text \<open>
  The nodes: the checksum tells any two payloads apart that differ in one byte, the counter and the checksum of a
  built frame are what a receiver reads and computes, a step transmits a message at most once, and a reset forgets.
\<close>

subsection \<open>The CRC\<close>

lemma bit_1D: "bit (0x1D :: u32) n \<longleftrightarrow> n \<in> {0, 2, 3, 4}"
proof -
  have "(0x1D :: u32) = 2 ^ 0 OR 2 ^ 2 OR 2 ^ 3 OR 2 ^ 4" by simp
  then show ?thesis by (simp only: bit_or_iff bit_exp_iff) auto
qed

lemma bit_FF: "bit (0xFF :: u32) n \<longleftrightarrow> n < 8"
proof -
  have "(0xFF :: u32) = mask 8" by (simp add: mask_eq_exp_minus_1)
  then show ?thesis by (simp only: bit_mask_iff) auto
qed

lemma low_byte_bit: "crc AND 0xFF = (crc :: u32) \<Longrightarrow> bit crc n \<Longrightarrow> n < 8"
  by (metis bit_FF bit_and_iff)

lemma top_bit: "crc AND 0x80 \<noteq> 0 \<longleftrightarrow> bit (crc :: u32) 7"
proof -
  have "(0x80 :: u32) = 2 ^ 7" by simp
  then show ?thesis by (simp only: and_exp_eq_0_iff_not_bit not_not)
qed

lemma crc8_bit_bits: "bit (crc8_bit crc) n \<longleftrightarrow> (0 < n \<and> n < 8 \<and> bit crc (n - 1)) \<noteq> (bit crc 7 \<and> n \<in> {0, 2, 3, 4})"
proof -
  have "bit (push_bit 1 crc AND 0xFF) n \<longleftrightarrow> 0 < n \<and> n < 8 \<and> bit crc (n - 1)"
    by (simp only: bit_and_iff bit_push_bit_iff bit_FF) (auto dest: bit_imp_le_length)
  then show ?thesis by (simp only: crc8_bit_def Let_def top_bit if_distrib [of "\<lambda>w. bit w n"] bit_xor_iff bit_1D) auto
qed

lemma crc8_bit_byte: "crc8_bit crc AND 0xFF = crc8_bit crc"
  by (rule bit_eqI, simp only: bit_and_iff bit_FF crc8_bit_bits) auto

text \<open>The polynomial has its lowest bit set, so that no step loses a bit.\<close>

lemma crc8_bit_inject:
  assumes "a AND 0xFF = a" and "b AND 0xFF = b" and "crc8_bit a = crc8_bit b"
  shows "a = b"
proof (rule bit_eqI)
  fix n
  have eq: "bit (crc8_bit a) k \<longleftrightarrow> bit (crc8_bit b) k" for k using assms(3) by simp
  have top: "bit a 7 \<longleftrightarrow> bit b 7" using eq [of 0] by (simp add: crc8_bit_bits)
  show "bit a n \<longleftrightarrow> bit b n"
  proof (cases "n < 7")
    case True
    then show ?thesis using eq [of "Suc n"] top by (auto simp: crc8_bit_bits)
  next
    case False
    then show ?thesis using top low_byte_bit [OF assms(1), of n] low_byte_bit [OF assms(2), of n] by (cases "n = 7") auto
  qed
qed

lemma crc8_bits_byte: "a AND 0xFF = a \<Longrightarrow> (crc8_bit ^^ k) a AND 0xFF = (crc8_bit ^^ k) a"
  by (cases k) (simp_all add: crc8_bit_byte)

lemma crc8_bits_inject: "a AND 0xFF = a \<Longrightarrow> b AND 0xFF = b \<Longrightarrow> (crc8_bit ^^ k) a = (crc8_bit ^^ k) b \<Longrightarrow> a = b"
proof (induction k)
  case (Suc k)
  have "crc8_bit ((crc8_bit ^^ k) a) = crc8_bit ((crc8_bit ^^ k) b)" by (rule Suc.prems(3) [unfolded funpow.simps o_apply])
  then have "(crc8_bit ^^ k) a = (crc8_bit ^^ k) b" by (rule crc8_bit_inject [OF crc8_bits_byte [OF Suc.prems(1)] crc8_bits_byte [OF Suc.prems(2)]])
  then show ?case by (rule Suc.IH [OF Suc.prems(1,2)])
qed (simp only: funpow.simps id_apply)

lemma byte_state: "(ucast (b :: u8) :: u32) AND 0xFF = ucast b"
  by (rule bit_eqI, simp only: bit_and_iff bit_FF bit_ucast_iff) (auto dest: bit_imp_le_length)

lemma xor_state: "a AND 0xFF = a \<Longrightarrow> (a XOR ucast (b :: u8)) AND 0xFF = (a XOR ucast b :: u32)"
  using byte_state [of b] by (simp add: bit.conj_xor_distrib2)

lemma crc8_byte_state: "a AND 0xFF = a \<Longrightarrow> crc8_byte a b AND 0xFF = crc8_byte a b"
  unfolding crc8_byte_def by (intro crc8_bits_byte xor_state)

lemma xor_cancel: "(a XOR b = a XOR c) = (b = (c :: 'a :: len word))"
  by (metis bit.xor_left_self)

lemma crc8_byte_inject:
  assumes "a AND 0xFF = a" and "c AND 0xFF = c" and "crc8_byte a b = crc8_byte c d"
  shows "a XOR ucast b = c XOR (ucast d :: u32)"
  by (rule crc8_bits_inject [OF xor_state [OF assms(1)] xor_state [OF assms(2)] assms(3) [unfolded crc8_byte_def]])

lemma crc8_run_state: "a AND 0xFF = a \<Longrightarrow> foldl crc8_byte a bs AND 0xFF = foldl crc8_byte a bs"
  by (induction bs arbitrary: a) (simp_all add: crc8_byte_state)

lemma crc8_run_inject:
  "a AND 0xFF = a \<Longrightarrow> c AND 0xFF = c \<Longrightarrow> foldl crc8_byte a bs = foldl crc8_byte c bs \<Longrightarrow> a = c"
proof (induction bs arbitrary: a c)
  case (Cons b bs)
  have "foldl crc8_byte (crc8_byte a b) bs = foldl crc8_byte (crc8_byte c b) bs" using Cons.prems(3) by (simp only: foldl_Cons)
  then have "crc8_byte a b = crc8_byte c b" by (rule Cons.IH [OF crc8_byte_state [OF Cons.prems(1)] crc8_byte_state [OF Cons.prems(2)]])
  then have "a XOR ucast b = c XOR ucast b" by (rule crc8_byte_inject [OF Cons.prems(1,2)])
  then have "ucast b XOR a = ucast b XOR c" by (simp only: xor.commute)
  then show ?case by (simp only: xor_cancel)
qed (simp only: foldl_Nil)

lemma crc8_result_inject:
  assumes "a AND 0xFF = a" and "c AND 0xFF = (c :: u32)" and "(ucast (a XOR 0xFF) :: u8) = ucast (c XOR 0xFF)"
  shows "a = c"
proof (rule bit_eqI)
  fix n
  have "bit (ucast (a XOR 0xFF) :: u8) n \<longleftrightarrow> bit (ucast (c XOR 0xFF) :: u8) n" by (simp only: assms(3))
  then show "bit a n \<longleftrightarrow> bit c n"
    using low_byte_bit [OF assms(1), of n] low_byte_bit [OF assms(2), of n] by (auto simp: bit_ucast_iff bit_xor_iff)
qed

text \<open>C38. The CRC detects every change of one byte: two payloads that differ in one byte, at any place, never have the
  same checksum.\<close>

theorem crc8_detects_changed_byte:
  "crc8_sae_j1850 (before @ b # after) = crc8_sae_j1850 (before @ c # after) \<longleftrightarrow> b = c"
proof
  have start: "(0xFF :: u32) AND 0xFF = 0xFF" by simp
  let ?s = "foldl crc8_byte 0xFF before"
  have s: "?s AND 0xFF = ?s" by (rule crc8_run_state [OF start])
  assume "crc8_sae_j1850 (before @ b # after) = crc8_sae_j1850 (before @ c # after)"
  then have "foldl crc8_byte 0xFF (before @ b # after) = foldl crc8_byte 0xFF (before @ c # after)"
    unfolding crc8_sae_j1850_def by (rule crc8_result_inject [OF crc8_run_state [OF start] crc8_run_state [OF start]])
  then have "foldl crc8_byte (crc8_byte ?s b) after = foldl crc8_byte (crc8_byte ?s c) after" by (simp only: foldl_append foldl_Cons)
  then have "crc8_byte ?s b = crc8_byte ?s c" by (rule crc8_run_inject [OF crc8_byte_state [OF s] crc8_byte_state [OF s]])
  then have "?s XOR ucast b = (?s XOR ucast c :: u32)" by (rule crc8_byte_inject [OF s s])
  then have eq: "(ucast b :: u32) = ucast c" by (simp only: xor_cancel)
  show "b = c"
  proof (rule bit_eqI)
    fix n
    have "bit (ucast b :: u32) n \<longleftrightarrow> bit (ucast c :: u32) n" by (simp only: eq)
    then show "bit b n \<longleftrightarrow> bit c n" by (auto simp: bit_ucast_iff dest: bit_imp_le_length)
  qed
qed simp

subsection \<open>The counter and the checksum of a frame\<close>

text \<open>No binding writes into the field of a layout.\<close>

definition untouched :: "message \<Rightarrow> signal_layout \<Rightarrow> 'r binding list \<Rightarrow> bool" where
  "untouched m l bs \<longleftrightarrow>
     (\<forall>b\<in>set bs. \<forall>k. find_signal m (bd_signal b) = Some k \<longrightarrow> disjoint_signals l (sig_layout (msg_signals m ! k)) 8)"

lemma fits_more: "fits s n \<Longrightarrow> n \<le> k \<Longrightarrow> fits s k"
  by (auto simp: fits_def)

lemma write_value_other:
  assumes "length (frame_data f) = 8" and "frame_size f \<le> 8" and "fits l 8" and "disjoint_signals l (sig_layout s) 8"
  shows "length (frame_data (write_value s vo f)) = 8 \<and> frame_size (write_value s vo f) = frame_size f \<and>
    decode_raw l (frame_data (write_value s vo f)) = decode_raw l (frame_data f)"
proof -
  have "length (frame_data g) = 8 \<and> frame_size g = frame_size f \<and> decode_raw l (frame_data g) = decode_raw l (frame_data f)"
    if g: "signal_encode s v f = Inr g" for v g
  proof -
    have t: "fits (sig_layout s) (frame_size f)" using g by (auto simp: signal_encode_def split: if_splits)
    obtain w where "g = f\<lparr>frame_data := encode_raw (sig_layout s) w (frame_data f)\<rparr>"
      using g by (auto simp: signal_encode_def layout_encode_def split: if_splits)
    moreover have "fits (sig_layout s) (length (frame_data f))" using fits_more [OF t assms(2)] assms(1) by simp
    ultimately show ?thesis
      using assms decode_other_raw [of l "frame_data f" "sig_layout s" w] by (simp add: frame_size_def is_remote_def is_fd_def)
  qed
  then show ?thesis using assms(1) by (simp add: write_value_def split: option.split sum.split)
qed

lemma fill_bindings_other:
  assumes "length (frame_data f) = 8" and "frame_size f \<le> 8" and "fits l 8" and "untouched m l bs"
    and "fill_bindings lib m plant now bs f = (g, bs')"
  shows "length (frame_data g) = 8 \<and> frame_size g = frame_size f \<and> decode_raw l (frame_data g) = decode_raw l (frame_data f)"
  using assms(1,2,4,5)
proof (induction bs arbitrary: f g bs')
  case (Cons b bs)
  have u: "untouched m l bs" using Cons.prems(3) by (simp add: untouched_def)
  show ?case
  proof (cases "find_signal m (bd_signal b)")
    case None
    then show ?thesis using Cons.IH [OF Cons.prems(1,2) u] Cons.prems(4) by (auto split: prod.splits)
  next
    case (Some k)
    obtain vo b' where v: "bind_value lib plant now b = (vo, b')" by fastforce
    let ?h = "write_value (msg_signals m ! k) vo f"
    have "disjoint_signals l (sig_layout (msg_signals m ! k)) 8" using Cons.prems(3) Some by (simp add: untouched_def)
    note h = write_value_other [OF Cons.prems(1,2) assms(3) this, of vo]
    obtain g' cs where r: "fill_bindings lib m plant now bs ?h = (g', cs)" by fastforce
    then have "g = g'" using Cons.prems(4) Some v by simp
    then show ?thesis using Cons.IH [OF _ _ u r] h Cons.prems(1,2) by simp
  qed
qed simp

lemma put_counter_field:
  assumes "put_counter m name n f = Some g" and "name \<noteq> []" and "find_signal m name = Some k"
    and "c = sig_layout (msg_signals m ! k)" and "fits c 8" and "length (frame_data f) = 8"
  shows "g = f\<lparr>frame_data := encode_raw c (ucast n) (frame_data f)\<rparr> \<and> unat (bit_length c) < 64"
proof -
  let ?len = "unat (bit_length c)"
  have m: "bit_mask (bit_length c) + 1 \<noteq> 0" using assms(1-4) by (auto simp: put_counter_def Let_def)
  have "\<not> bit_length c \<ge> 64" using m by (auto simp: bit_mask_def)
  then have len: "?len < 64" by (simp add: word_le_nat_alt)
  then have mask: "bit_mask (bit_length c) = mask ?len"
    using \<open>\<not> bit_length c \<ge> 64\<close> by (simp add: bit_mask_def mask_eq_exp_minus_1 push_bit_eq_mult)
  have "g = f\<lparr>frame_data := encode_raw c (ucast n mod (mask ?len + 1)) (frame_data f)\<rparr>"
    unfolding mask [symmetric] using assms(1-4) m by (auto simp: put_counter_def put_raw_def Let_def split: if_splits)
  moreover have "(ucast n :: u64) mod (mask ?len + 1) = ucast n AND bit_mask (bit_length c)"
  proof -
    have "(mask ?len :: u64) + 1 = 2 ^ ?len" by (simp add: mask_eq_exp_minus_1)
    then show ?thesis unfolding mask by (simp only: take_bit_eq_mask [symmetric] take_bit_eq_mod)
  qed
  moreover have "encode_raw c (ucast n AND bit_mask (bit_length c)) (frame_data f) = encode_raw c (ucast n) (frame_data f)"
  proof -
    have fit: "fits c (length (frame_data f))" using assms(5,6) by simp
    have "encode_raw c (ucast n AND bit_mask (bit_length c)) (frame_data f) =
        encode_raw c (decode_raw c (encode_raw c (ucast n) (frame_data f))) (encode_raw c (ucast n) (frame_data f))"
      using fit by (simp add: decode_encode_raw encode_encode_raw)
    then show ?thesis using fit by (simp add: encode_decode_raw)
  qed
  ultimately show ?thesis using len by simp
qed

lemma put_checksum_field:
  assumes "put_checksum m name kind f = Some g" and "kind \<noteq> NoChecksum" and "name \<noteq> []" and "find_signal m name = Some k"
    and "l = sig_layout (msg_signals m ! k)"
  shows "g = f\<lparr>frame_data := encode_raw l (ucast (if kind = Crc8Sae then crc8_sae_j1850 (payload_of f)
    else xor8 (payload_of f) (unat (start_bit l) div 8))) (frame_data f)\<rparr>"
  using assms by (auto simp: put_checksum_def put_raw_def Let_def split: if_splits)

lemma decode_zeros:
  assumes "fits s n"
  shows "decode_raw s (replicate n 0) = 0"
proof (rule bit_eqI)
  fix j
  have fit: "fits s (length (replicate n (0 :: u8)))" using assms by simp
  have "\<not> cbit (byte_order s) (replicate n 0) (run_pos (byte_order s) (canonical_start s) (bit_length s) j)" if j: "j < unat (bit_length s)"
  proof -
    obtain i b where "i < length (replicate n (0 :: u8))" "b < 8"
      "byte_bit (byte_order s) i b = run_pos (byte_order s) (canonical_start s) (bit_length s) j"
      using run_in_buffer [OF fits_run_ok [OF fit] j] by metis
    then show ?thesis using cbit_byte_bit [of b "byte_order s" "replicate n 0" i] by simp
  qed
  then show "bit (decode_raw s (replicate n 0)) j = bit 0 j" using decode_raw_bits [OF fit, of j] by simp
qed

lemma empty_frame_shape:
  assumes "make_empty 8 i n flag_none 0 = Inr e"
  shows "frame_data e = replicate 8 0 \<and> frame_size e \<le> 8"
proof -
  have m: "make_frame_of 8 i (Some (replicate 8 0)) n flag_none 0 = Inr e" using assms by (simp add: make_empty_zeros)
  have "frame_data e = replicate 8 0"
    using assms by (auto simp: make_empty_def make_frame_of_def empty_frame_def try_bind_def Let_def split: if_splits sum.splits)
  moreover have "n \<le> 8" using m by (auto simp: make_frame_of_def try_bind_def split: if_splits sum.splits)
  ultimately show ?thesis using make_frame_builds [OF m] by (simp add: wf_frame_def)
qed

text \<open>C39. What a receiver of a built frame checks: the counter field holds the counter modulo its width, and the
  checksum field holds the checksum a receiver computes over the payload with that field cleared. The two fields
  lie in the frame and share no bit, and no binding writes into either.\<close>

theorem ecu_frame_protected:
  assumes "ecu_build lib plant now m tx rt = Some (f, tx', rt')"
    and "tx_counter_signal tx \<noteq> []" and "find_signal m (tx_counter_signal tx) = Some a" and "c = sig_layout (msg_signals m ! a)"
    and "tx_checksum tx \<noteq> NoChecksum" and "tx_checksum_signal tx \<noteq> []"
    and "find_signal m (tx_checksum_signal tx) = Some b" and "l = sig_layout (msg_signals m ! b)"
    and "fits c 8" and "fits l 8" and "disjoint_signals l c 8" and "untouched m l (tx_bindings tx)"
  shows "decode_raw c (frame_data f) = ucast (rt_counter rt) AND bit_mask (bit_length c) \<and>
    decode_raw l (frame_data f) =
      (let body = take (frame_size f) (encode_raw l 0 (frame_data f))
       in ucast (if tx_checksum tx = Crc8Sae then crc8_sae_j1850 body else xor8 body (unat (start_bit l) div 8)) AND bit_mask (bit_length l)) \<and>
    rt_counter rt' = rt_counter rt + 1"
proof -
  obtain e where e: "make_empty 8 (msg_id m) (unat (msg_dlc m)) flag_none 0 = Inr e"
    using assms(1) by (auto simp: ecu_build_def split: sum.splits)
  obtain g bs where g: "fill_bindings lib m plant now (tx_bindings tx) e = (g, bs)" by fastforce
  obtain h k where h: "put_counter m (tx_counter_signal tx) (rt_counter rt) g = Some h"
    and k: "put_checksum m (tx_checksum_signal tx) (tx_checksum tx) h = Some k" and f: "f = set_timestamp_ns k now"
    and rt: "rt' = rt\<lparr>rt_counter := rt_counter rt + 1\<rparr>"
    using assms(1) e g by (auto simp: ecu_build_def bind_eq_Some_conv)
  note e8 = empty_frame_shape [OF e]
  have g8: "length (frame_data g) = 8" and g0: "decode_raw l (frame_data g) = 0"
    using fill_bindings_other [OF _ _ assms(10,12) g] e8 decode_zeros [OF assms(10)] by simp_all
  have hd: "h = g\<lparr>frame_data := encode_raw c (ucast (rt_counter rt)) (frame_data g)\<rparr>"
    using put_counter_field [OF h assms(2,3,4,9) g8] by simp
  have h8: "length (frame_data h) = 8" using g8 by (simp add: hd)
  have fit: "fits c (length (frame_data h))" "fits l (length (frame_data h))" "disjoint_signals l c (length (frame_data h))"
    "disjoint_signals c l (length (frame_data h))"
    using assms(9-11) h8 disjoint_signals_sym by simp_all
  have h0: "decode_raw l (frame_data h) = 0"
    using decode_other_raw [of l "frame_data g" c "ucast (rt_counter rt)"] assms(9-11) g8 g0 by (simp add: hd)
  have hc: "decode_raw c (frame_data h) = ucast (rt_counter rt) AND bit_mask (bit_length c)"
    using assms(9) g8 by (simp add: hd decode_encode_raw)
  define w :: u64 where "w = ucast (if tx_checksum tx = Crc8Sae then crc8_sae_j1850 (payload_of h)
      else xor8 (payload_of h) (unat (start_bit l) div 8))"
  have kd: "k = h\<lparr>frame_data := encode_raw l w (frame_data h)\<rparr>"
    using put_checksum_field [OF k assms(5,6,7,8)] by (simp add: w_def)
  have data: "frame_data f = encode_raw l w (frame_data h)" "frame_size f = frame_size h"
    by (simp_all add: f kd set_timestamp_ns_def frame_size_def is_remote_def is_fd_def)
  have "encode_raw l 0 (frame_data f) = encode_raw l (decode_raw l (frame_data h)) (frame_data h)"
    unfolding data(1) using fit(2) by (simp add: encode_encode_raw h0)
  then have "encode_raw l 0 (frame_data f) = frame_data h" using fit(2) by (simp add: encode_decode_raw)
  then have "payload_of h = take (frame_size f) (encode_raw l 0 (frame_data f))" by (simp add: payload_of_def data(2))
  moreover have "decode_raw l (frame_data f) = w AND bit_mask (bit_length l)" unfolding data(1) using fit(2) by (simp add: decode_encode_raw)
  moreover have "decode_raw c (frame_data f) = decode_raw c (frame_data h)"
    unfolding data(1) using fit decode_other_raw by blast
  ultimately show ?thesis using hc rt by (simp add: w_def Let_def)
qed

definition alive_layout :: "nat \<Rightarrow> nat \<Rightarrow> signal_layout" where
  "alive_layout start len = \<lparr>start_bit = of_nat start, bit_length = of_nat len, byte_order = Intel, signedness = Unsigned,
     value_type = Integer, factor = lit 1 0, offset = dzero, minimum = dzero, maximum = dzero\<rparr>"

definition alive_message :: message where
  "alive_message = (new_message (CanId 5) ''M'' 2)\<lparr>msg_signals :=
     [oil_signal\<lparr>sig_name := ''Cnt'', sig_layout := alive_layout 0 4\<rparr>, oil_signal\<lparr>sig_name := ''Sum'', sig_layout := alive_layout 8 8\<rparr>]\<rparr>"

definition alive_tx :: "nat tx_message" where
  "alive_tx = \<lparr>tx_message = Some alive_message, tx_cycle_ns = 100, tx_jitter_ns = 0, tx_phase_ns = 0, tx_mode = Cyclic,
     tx_bindings = [], tx_counter_signal = ''Cnt'', tx_checksum_signal = ''Sum'', tx_checksum = Crc8Sae\<rparr>"

lemma alive_names:
  "find_signal alive_message ''Cnt'' = Some 0" "find_signal alive_message ''Sum'' = Some 1"
  "sig_layout (msg_signals alive_message ! 0) = alive_layout 0 4" "sig_layout (msg_signals alive_message ! 1) = alive_layout 8 8"
  by (simp_all add: find_signal_def alive_message_def oil_signal_def)

lemma alive_layouts:
  "fits (alive_layout 0 4) 8" "fits (alive_layout 8 8) 8" "in_array (alive_layout 0 4)" "in_array (alive_layout 8 8)"
  "disjoint_signals (alive_layout 8 8) (alive_layout 0 4) 8"
  by (simp_all add: alive_layout_def fits_def in_array_def canonical_start_def canonical_end_def spanned_bytes_def
      disjoint_signals_def disjoint_runs_def occupies_def byte_bit_def)

lemma alive_built: "\<exists>f. ecu_build count_maths None now alive_message alive_tx rt = Some (f, alive_tx, rt\<lparr>rt_counter := rt_counter rt + 1\<rparr>)"
proof -
  have "make_ok 8 2 flag_none" by (simp add: make_ok_def validate_flags_def has_flag_def flag_defs)
  then obtain e where e: "make_empty 8 (CanId 5) 2 flag_none 0 = Inr e"
    using make_frame_accepts [of 8 "CanId 5" "Some (replicate 8 0)" 2 flag_none 0] by (auto simp: make_empty_zeros)
  have "bit_mask 4 + 1 \<noteq> 0" "bit_length (alive_layout 0 4) = 4" by (simp_all add: bit_mask_def alive_layout_def)
  then obtain g where g: "put_counter alive_message ''Cnt'' (rt_counter rt) e = Some g"
    using alive_names(1,3) alive_layouts(3) by (simp add: put_counter_def put_raw_def)
  obtain h where h: "put_checksum alive_message ''Sum'' Crc8Sae g = Some h"
    using alive_names(2,4) alive_layouts(4) by (simp add: put_checksum_def put_raw_def Let_def)
  have "msg_id alive_message = CanId 5" "msg_dlc alive_message = 2" by (simp_all add: alive_message_def new_message_def)
  then show ?thesis using e g h by (simp add: ecu_build_def alive_tx_def)
qed

theorem ecu_frame_protected_witness:
  "\<exists>f tx rt. ecu_build count_maths None 7 alive_message alive_tx ((new_runtime 0)\<lparr>rt_counter := 17\<rparr>) = Some (f, tx, rt) \<and>
     decode_raw (alive_layout 0 4) (frame_data f) = 1 \<and>
     decode_raw (alive_layout 8 8) (frame_data f) =
       ucast (crc8_sae_j1850 (take (frame_size f) (encode_raw (alive_layout 8 8) 0 (frame_data f)))) AND bit_mask 8 \<and> rt_counter rt = 18"
proof -
  obtain f tx rt where b: "ecu_build count_maths None 7 alive_message alive_tx ((new_runtime 0)\<lparr>rt_counter := 17\<rparr>) = Some (f, tx, rt)"
    using alive_built by blast
  have "tx_counter_signal alive_tx = ''Cnt''" "tx_checksum_signal alive_tx = ''Sum''" "tx_checksum alive_tx = Crc8Sae" "tx_bindings alive_tx = []"
    by (simp_all add: alive_tx_def)
  moreover have "bit_length (alive_layout 0 4) = 4" "bit_length (alive_layout 8 8) = 8" by (simp_all add: alive_layout_def)
  moreover have "untouched alive_message (alive_layout 8 8) ([] :: nat binding list)" by (simp add: untouched_def)
  moreover have "(17 :: u64) AND bit_mask 4 = 1" by (simp add: bit_mask_def)
  ultimately show ?thesis
    using b ecu_frame_protected [OF b, of 0 "alive_layout 0 4" 1 "alive_layout 8 8"] alive_names alive_layouts
    by (simp add: Let_def new_runtime_def)
qed

end
