(* ===== verification/Simulator_Laws.thy ===== *)
theory Simulator_Laws
  imports Simulator Ecu_Laws "HOL-Library.Multiset"
begin

text \<open>
  The simulator over sequences of steps: every frame a node produced is released, still pending or counted as dropped;
  a step releases the frames that are due, in that order, and no other; and a reset simulator replays the run it began with.
\<close>

fun sim_run :: "'r maths \<Rightarrow> u64 list \<Rightarrow> 'r simulator \<Rightarrow> (frame list list \<times> 'r simulator) option" where
  "sim_run lib [] s = Some ([], s)"
| "sim_run lib (t # ts) s =
     Option.bind (sim_step lib t s) (\<lambda>(out, s). map_option (\<lambda>(outs, s). (out # outs, s)) (sim_run lib ts s))"

subsection \<open>Conservation\<close>

lemma inject_all_counts:
  "of_nat (length (fst (inject_all lib db node now fs fi))) + inj_dropped (snd (inject_all lib db node now fs fi)) =
     inj_dropped fi + of_nat (length fs)"
proof (induction fs arbitrary: fi)
  case (Cons f fs)
  obtain out fj where i: "inject lib db node f now fi = (out, fj)" by fastforce
  have "of_nat (length out) + inj_dropped fj = inj_dropped fi + 1" using inject_counts [of lib db node f now fi] i by simp
  then show ?case using Cons.IH [of fj] i by (simp add: case_prod_beta algebra_simps)
qed simp

lemma step_nodes_counts:
  assumes "step_nodes lib db plant now es fi = Some (n, out, es', fi')"
  shows "of_nat (length out) + inj_dropped fi' = inj_dropped fi + of_nat n"
  using assms
proof (induction es arbitrary: fi n out es' fi')
  case (Cons e es)
  from Cons.prems obtain frames e1 where e: "ecu_step lib plant now e = Some (frames, e1)" by (auto simp: bind_eq_Some_conv)
  obtain o1 f1 where i: "inject_all lib db (ecu_name e1) now frames fi = (o1, f1)" by fastforce
  from Cons.prems e i obtain m o2 es2 where r: "step_nodes lib db plant now es f1 = Some (m, o2, es2, fi')"
    and n: "n = length frames + m" "out = o1 @ o2" by (auto simp: bind_eq_Some_conv)
  have "of_nat (length o1) + inj_dropped f1 = inj_dropped fi + of_nat (length frames)"
    using inject_all_counts [of lib db "ecu_name e1" now frames fi] i by simp
  then have "(of_nat (length o1) + inj_dropped f1) + of_nat m = inj_dropped fi + of_nat (length frames) + of_nat m" by simp
  moreover have "of_nat (length o2) + inj_dropped fi' = inj_dropped f1 + of_nat m" by (rule Cons.IH [OF r])
  ultimately have "of_nat (length o1) + (of_nat (length o2) + inj_dropped fi') = inj_dropped fi + of_nat (length frames) + of_nat m"
    by (simp only: add.assoc)
  then show ?case by (simp add: n add.assoc add.commute add.left_commute)
qed simp

lemma release_spec:
  assumes "release now pending = (out, rest)"
  obtains due where "mset pending = mset due + mset rest" "sorted (map fst due)" "\<forall>p\<in>set due. fst p \<le> now"
    "\<forall>p\<in>set rest. now < fst p" "out = map (\<lambda>p. set_timestamp_ns (snd p) now) due"
proof
  let ?q = "sort_key fst pending" and ?P = "\<lambda>p. fst p \<le> now"
  have o: "out = map (\<lambda>p. set_timestamp_ns (snd p) now) (takeWhile ?P ?q)" and r: "rest = dropWhile ?P ?q"
    using assms by (simp_all add: release_def Let_def)
  show "mset pending = mset (takeWhile ?P ?q) + mset rest" unfolding r by (simp flip: mset_append)
  have s: "sorted (map fst ?q)" by (rule sorted_sort_key)
  then show "sorted (map fst (takeWhile ?P ?q))" by (metis map_append sorted_append takeWhile_dropWhile_id)
  show "\<forall>p\<in>set (takeWhile ?P ?q). fst p \<le> now" by (auto dest: set_takeWhileD)
  show "\<forall>p\<in>set rest. now < fst p"
  proof (cases rest)
    case (Cons p ps)
    then have "\<not> fst p \<le> now" using hd_dropWhile [of ?P ?q] r by simp
    moreover have "sorted (map fst rest)" using s unfolding r by (metis map_append sorted_append takeWhile_dropWhile_id)
    ultimately show ?thesis using Cons by (auto simp: not_le intro: less_le_trans)
  qed simp
  show "out = map (\<lambda>p. set_timestamp_ns (snd p) now) (takeWhile ?P ?q)" by (rule o)
qed

lemma apply_drive_simps [simp]:
  "sim_config (apply_drive now s) = sim_config s" "sim_database (apply_drive now s) = sim_database s"
  "sim_nodes (apply_drive now s) = sim_nodes s" "sim_faults (apply_drive now s) = sim_faults s"
  "sim_pending (apply_drive now s) = sim_pending s" "sim_produced (apply_drive now s) = sim_produced s"
  "sim_last_step_ns (apply_drive now s) = sim_last_step_ns s" "sim_started (apply_drive now s) = sim_started s"
  by (simp_all add: apply_drive_def Let_def)

text \<open>A step, taken apart.\<close>

definition step_dt :: "u64 \<Rightarrow> 'r simulator \<Rightarrow> u64" where
  "step_dt now s = (if sim_started s \<and> now > sim_last_step_ns s then now - sim_last_step_ns s else 0)"

definition driven :: "u64 \<Rightarrow> 'r simulator \<Rightarrow> 'r simulator" where
  "driven now s = apply_drive now (s\<lparr>sim_started := True, sim_last_step_ns := now\<rparr>)"

lemma driven_simps [simp]:
  "sim_config (driven now s) = sim_config s" "sim_database (driven now s) = sim_database s"
  "sim_nodes (driven now s) = sim_nodes s" "sim_faults (driven now s) = sim_faults s"
  "sim_pending (driven now s) = sim_pending s" "sim_produced (driven now s) = sim_produced s"
  "sim_last_step_ns (driven now s) = now" "sim_started (driven now s)"
  by (simp_all add: driven_def)

lemma sim_step_parts:
  "sim_step lib now s = Some (out, s') \<longleftrightarrow>
     (\<exists>car n scheduled es fi pending.
        (if sc_has_plant (sim_config s) \<and> step_dt now s \<noteq> 0 then vehicle_step (step_dt now s) (sim_vehicle (driven now s))
         else Some (sim_vehicle (driven now s))) = Some car \<and>
        step_nodes lib (sim_database s) (if sc_has_plant (sim_config s) then Some car else None) now (sim_nodes s) (sim_faults s)
          = Some (n, scheduled, es, fi) \<and>
        release now (sim_pending s @ scheduled) = (out, pending) \<and>
        s' = (driven now s)\<lparr>sim_vehicle := car, sim_nodes := es, sim_faults := fi, sim_produced := sim_produced s + of_nat n,
               sim_pending := pending\<rparr>)"
proof -
  have "(if now > (if sim_started s then sim_last_step_ns s else now) then now - (if sim_started s then sim_last_step_ns s else now) else 0)
      = step_dt now s" by (simp add: step_dt_def)
  then have "sim_step lib now s =
      Option.bind (if sc_has_plant (sim_config s) \<and> step_dt now s \<noteq> 0 then vehicle_step (step_dt now s) (sim_vehicle (driven now s))
         else Some (sim_vehicle (driven now s))) (\<lambda>car.
      Option.bind (step_nodes lib (sim_database s) (if sc_has_plant (sim_config s) then Some car else None) now (sim_nodes s) (sim_faults s))
        (\<lambda>(n, scheduled, es, fi).
        let (out, pending) = release now (sim_pending s @ scheduled)
        in Some (out, (driven now s)\<lparr>sim_vehicle := car, sim_nodes := es, sim_faults := fi, sim_produced := sim_produced s + of_nat n,
             sim_pending := pending\<rparr>)))"
    by (simp add: sim_step_def Let_def flip: driven_def)
  then show ?thesis by (auto simp: bind_eq_Some_conv case_prod_beta Let_def prod_eq_iff)
qed

lemma conserve:
  fixes f sc n d P p R ps r :: "'a :: ab_group_add"
  assumes "sc + f = d + n" and "P + p + f = (d0 + n) + R" and "d0 + ps = d0 + (p + r - sc)"
  shows "P + ps + d = d0 + r + R"
proof -
  have c: "sc + ps = p + r" using assms(3) by simp
  have "(P + ps + d) + (p + n) = (P + p) + ps + (d + n)" by (simp add: ac_simps)
  also have "\<dots> = (P + p + f) + (sc + ps)" by (simp add: ac_simps flip: assms(1))
  also have "\<dots> = (d0 + r + R) + (p + n)" unfolding assms(2) c by (simp add: ac_simps)
  finally show ?thesis by simp
qed

lemma frames_counted:
  assumes "sim_run lib ts s = Some (outs, s')"
  shows "sim_produced s' + of_nat (length (sim_pending s)) + inj_dropped (sim_faults s) =
      sim_produced s + of_nat (length (concat outs)) + of_nat (length (sim_pending s')) + inj_dropped (sim_faults s')"
  using assms
proof (induction ts arbitrary: s outs)
  case (Cons t ts)
  from Cons.prems obtain out u rest where u: "sim_step lib t s = Some (out, u)" and r: "sim_run lib ts u = Some (rest, s')"
    and o: "outs = out # rest" by (auto simp: bind_eq_Some_conv)
  from u obtain car n scheduled es fi pending where
    n: "step_nodes lib (sim_database s) (if sc_has_plant (sim_config s) then Some car else None) t (sim_nodes s) (sim_faults s)
          = Some (n, scheduled, es, fi)" and
    rel: "release t (sim_pending s @ scheduled) = (out, pending)" and
    u': "u = (driven t s)\<lparr>sim_vehicle := car, sim_nodes := es, sim_faults := fi, sim_produced := sim_produced s + of_nat n, sim_pending := pending\<rparr>"
    unfolding sim_step_parts by blast
  obtain due where due: "mset (sim_pending s @ scheduled) = mset due + mset pending" "out = map (\<lambda>p. set_timestamp_ns (snd p) t) due"
    using release_spec [OF rel] by metis
  have "length (sim_pending s) + length scheduled = length out + length pending"
    using arg_cong [OF due(1), of size] due(2) by simp
  then have l: "(of_nat (length (sim_pending s)) :: u64) + of_nat (length scheduled) = of_nat (length out) + of_nat (length pending)"
    by (metis of_nat_add)
  have "of_nat (length scheduled) + inj_dropped fi = inj_dropped (sim_faults s) + of_nat n" by (rule step_nodes_counts [OF n])
  moreover have "sim_produced s' + of_nat (length pending) + inj_dropped fi = (sim_produced s + of_nat n) +
      (of_nat (length (concat rest)) + of_nat (length (sim_pending s')) + inj_dropped (sim_faults s'))"
    using Cons.IH [OF r] by (simp add: u' algebra_simps)
  moreover have "sim_produced s + of_nat (length (sim_pending s)) =
      sim_produced s + (of_nat (length pending) + of_nat (length out) - of_nat (length scheduled))"
    using l by (simp add: algebra_simps)
  ultimately have "sim_produced s' + of_nat (length (sim_pending s)) + inj_dropped (sim_faults s) = sim_produced s + of_nat (length out) +
      (of_nat (length (concat rest)) + of_nat (length (sim_pending s')) + inj_dropped (sim_faults s'))"
    by (rule conserve)
  then show ?case by (simp add: o algebra_simps)
qed simp

text \<open>What a step schedules is what its nodes send through the faults, with the plant as it is after the step.\<close>

definition step_schedule :: "'r maths \<Rightarrow> u64 \<Rightarrow> 'r simulator \<Rightarrow> vehicle \<Rightarrow> scheduled_frame list" where
  "step_schedule lib t s car =
     (case step_nodes lib (sim_database s) (if sc_has_plant (sim_config s) then Some car else None) t (sim_nodes s) (sim_faults s) of
        None \<Rightarrow> [] | Some (n, scheduled, es, fi) \<Rightarrow> scheduled)"

lemma sim_step_releases:
  assumes "sim_step lib t s = Some (out, u)"
  shows "\<exists>due. mset (sim_pending s @ step_schedule lib t s (sim_vehicle u)) = mset due + mset (sim_pending u) \<and>
    sorted (map fst due) \<and> (\<forall>p\<in>set due. fst p \<le> t) \<and> (\<forall>p\<in>set (sim_pending u). t < fst p) \<and>
    out = map (\<lambda>p. set_timestamp_ns (snd p) t) due"
proof -
  from assms obtain car n scheduled es fi pending where
    n: "step_nodes lib (sim_database s) (if sc_has_plant (sim_config s) then Some car else None) t (sim_nodes s) (sim_faults s)
          = Some (n, scheduled, es, fi)" and
    rel: "release t (sim_pending s @ scheduled) = (out, pending)" and
    u: "u = (driven t s)\<lparr>sim_vehicle := car, sim_nodes := es, sim_faults := fi, sim_produced := sim_produced s + of_nat n, sim_pending := pending\<rparr>"
    unfolding sim_step_parts by blast
  have sch: "step_schedule lib t s (sim_vehicle u) = scheduled" using n by (simp add: step_schedule_def u)
  obtain due where due: "mset (sim_pending s @ scheduled) = mset due + mset pending" "sorted (map fst due)" "\<forall>p\<in>set due. fst p \<le> t"
    "\<forall>p\<in>set pending. t < fst p" "out = map (\<lambda>p. set_timestamp_ns (snd p) t) due"
    by (rule release_spec [OF rel])
  have "sim_pending u = pending" by (simp add: u)
  then show ?thesis unfolding sch using due by (intro exI [of _ due] conjI) simp_all
qed

text \<open>A simulator of one node with one message, and a step of it.\<close>

definition alive_config :: sim_config where
  "alive_config = default_config\<lparr>sc_nodes := [\<lparr>ns_name = ''ECM'', ns_transmits =
     [default_tx\<lparr>ts_message := ''M'', ts_cycle_ns := 100, ts_counter_signal := ''Cnt'', ts_checksum_signal := ''Sum'', ts_checksum := Crc8Sae\<rparr>]\<rparr>]\<rparr>"

definition alive_database :: database where
  "alive_database = empty_database\<lparr>db_messages := [alive_message]\<rparr>"

definition alive_simulator :: "nat simulator" where
  "alive_simulator =
     \<lparr>sim_config = alive_config, sim_database = alive_database, sim_vehicle = default_vehicle,
      sim_nodes = [ecu_add alive_tx (new_ecu count_maths ''ECM'')], sim_faults = new_injector count_maths kFaultSeed,
      sim_pending = [], sim_last_step_ns = 0, sim_next_drive = 0, sim_produced = 0, sim_started = False\<rparr>"

lemma alive_simulator_built: "sim_build count_maths alive_config alive_database = Some (Inr alive_simulator)"
proof -
  have c: "sc_drive alive_config = []" "sc_faults alive_config = []" "\<not> sc_has_plant alive_config"
    by (simp_all add: alive_config_def default_config_def)
  have m: "find_message_named alive_database ''M'' = Some 0" "db_messages alive_database ! 0 = alive_message"
    by (simp_all add: find_message_named_def alive_database_def alive_message_def new_message_def)
  let ?t = "default_tx\<lparr>ts_message := ''M'', ts_cycle_ns := 100, ts_counter_signal := ''Cnt'', ts_checksum_signal := ''Sum'', ts_checksum := Crc8Sae\<rparr>"
  have "names_exist alive_message ?t" using alive_names(1,2) by (simp add: names_exist_def)
  then have "build_tx count_maths alive_database ?t = Some (Inr alive_tx)"
    using m by (simp add: build_tx_def alive_tx_def) (simp add: default_tx_def)
  then have "build_ecu count_maths alive_database [?t] (new_ecu count_maths ''ECM'') = Some (Inr (ecu_add alive_tx (new_ecu count_maths ''ECM'')))"
    by simp
  moreover have "sc_nodes alive_config = [\<lparr>ns_name = ''ECM'', ns_transmits = [?t]\<rparr>]" by (simp add: alive_config_def)
  ultimately have "build_nodes count_maths alive_database (sc_nodes alive_config) = Some (Inr [ecu_add alive_tx (new_ecu count_maths ''ECM'')])"
    by (simp only: build_nodes.simps node_spec.simps result_map_simps option.case sum.case option.map)
  moreover have "alive_config\<lparr>sc_drive := sort_key dr_at_ns (sc_drive alive_config)\<rparr> = alive_config" using c by simp
  moreover have "fold add_fault (sc_faults alive_config) (new_injector count_maths kFaultSeed) = new_injector count_maths kFaultSeed"
    using c by simp
  ultimately show ?thesis using c(3) by (simp add: sim_build_def alive_simulator_def)
qed

lemma alive_simulator_steps: "\<exists>f s. sim_run count_maths [0] alive_simulator = Some ([[f]], s)"
proof -
  let ?rt = "new_runtime 0"
  obtain f where f: "ecu_build count_maths None 0 alive_message alive_tx ?rt = Some (f, alive_tx, ?rt\<lparr>rt_counter := rt_counter ?rt + 1\<rparr>)"
    using alive_built by blast
  have t: "tx_message alive_tx = Some alive_message" "tx_mode alive_tx = Cyclic" "tx_jitter_ns alive_tx = 0" "tx_cycle_ns alive_tx = 100"
    "tx_phase_ns alive_tx = 0" by (simp_all add: alive_tx_def)
  obtain p r where "tx_step count_maths None 0 (alive_tx, ?rt) (seeded count_maths kJitterSeed) = Some ([f], p, r)"
    using f t by (simp add: tx_step_def is_due_def reschedule_def with_jitter_def new_runtime_def)
  then obtain e where e: "ecu_step count_maths None 0 (ecu_add alive_tx (new_ecu count_maths ''ECM'')) = Some ([f], e)"
    using t by (simp add: ecu_step_def ecu_add_def new_ecu_def)
  have i: "inject count_maths alive_database n f 0 (new_injector count_maths kFaultSeed) = ([(0, f)], new_injector count_maths kFaultSeed)" for n
    by (rule inject_quiet) (simp add: new_injector_def)
  have "\<not> sc_has_plant alive_config" by (simp add: alive_config_def default_config_def)
  then have "\<exists>s. sim_step count_maths 0 alive_simulator = Some ([set_timestamp_ns f 0], s)"
    unfolding sim_step_parts using e i by (simp add: alive_simulator_def release_def)
  then show ?thesis by auto
qed

text \<open>C40. Nothing is lost without being counted, and nothing is sent before its time. Over any sequence of steps that
  returns, the frames the nodes produced are the frames released, those still held back and those the faults dropped, in
  the arithmetic of the counters. And any step after that splits the frames held back and those its nodes send into the
  ones due by its time, which it releases in the order they are due, stamped with its time, and the ones due
  later, which it holds back.\<close>

theorem sim_frames_conserved:
  assumes "sim_run lib ts s = Some (outs, s')" and "sim_step lib t s' = Some (out, u)"
  shows "sim_produced s' + of_nat (length (sim_pending s)) + inj_dropped (sim_faults s) =
      sim_produced s + of_nat (length (concat outs)) + of_nat (length (sim_pending s')) + inj_dropped (sim_faults s') \<and>
    (\<exists>due. mset (sim_pending s' @ step_schedule lib t s' (sim_vehicle u)) = mset due + mset (sim_pending u) \<and>
       sorted (map fst due) \<and> (\<forall>p\<in>set due. fst p \<le> t) \<and> (\<forall>p\<in>set (sim_pending u). t < fst p) \<and>
       out = map (\<lambda>p. set_timestamp_ns (snd p) t) due)"
  using frames_counted [OF assms(1)] sim_step_releases [OF assms(2)] by blast

theorem sim_frames_conserved_witness:
  "\<exists>f u. sim_step count_maths 0 alive_simulator = Some ([f], u) \<and>
     (\<exists>due. mset (sim_pending alive_simulator @ step_schedule count_maths 0 alive_simulator (sim_vehicle u)) =
          mset due + mset (sim_pending u) \<and> [f] = map (\<lambda>p. set_timestamp_ns (snd p) 0) due)"
proof -
  obtain f u where "sim_run count_maths [0] alive_simulator = Some ([[f]], u)" using alive_simulator_steps by blast
  then have r: "sim_step count_maths 0 alive_simulator = Some ([f], u)" by (auto simp: bind_eq_Some_conv)
  have "sim_run count_maths [] alive_simulator = Some ([], alive_simulator)" by simp
  from sim_frames_conserved [OF this r] obtain due where
    "mset (sim_pending alive_simulator @ step_schedule count_maths 0 alive_simulator (sim_vehicle u)) = mset due + mset (sim_pending u)"
    "[f] = map (\<lambda>p. set_timestamp_ns (snd p) 0) due" by (elim conjE exE)
  then show ?thesis using r by (intro exI [of _ f] exI [of _ u] conjI exI [of _ due])
qed

subsection \<open>A reset replays the run\<close>

text \<open>Two injectors that differ in their counters only answer alike.\<close>

definition same_faults :: "'r injector \<Rightarrow> 'r injector \<Rightarrow> bool" where
  "same_faults a b \<longleftrightarrow> inj_faults a = inj_faults b \<and> inj_frozen a = inj_frozen b \<and> inj_rng a = inj_rng b \<and> inj_seed a = inj_seed b"

lemma apply_fault_same:
  assumes "same_faults a b"
  shows "fst (apply_fault lib i mo f sf a) = fst (apply_fault lib i mo f sf b) \<and>
    same_faults (snd (apply_fault lib i mo f sf a)) (snd (apply_fault lib i mo f sf b))"
  using assms
  by (cases "flt_kind f") (simp_all add: apply_fault_def same_faults_def freeze_def case_prod_beta Let_def split: option.split)

lemma fault_loop_same:
  "same_faults a b \<Longrightarrow> fst (fault_loop lib node i mo fs sf a) = fst (fault_loop lib node i mo fs sf b) \<and>
     same_faults (snd (fault_loop lib node i mo fs sf a)) (snd (fault_loop lib node i mo fs sf b))"
proof (induction fs arbitrary: sf a b)
  case (Cons f fs)
  obtain r a' where a: "apply_fault lib i mo f sf a = (r, a')" by fastforce
  obtain b' where b: "apply_fault lib i mo f sf b = (r, b')" "same_faults a' b'"
    using apply_fault_same [OF Cons.prems, of lib i mo f sf] a by (cases "apply_fault lib i mo f sf b") simp
  then show ?case using Cons.IH [OF Cons.prems] Cons.IH [OF b(2)] a by (auto split: option.split)
qed simp

lemma inject_same:
  assumes "same_faults a b"
  shows "fst (inject lib db node f now a) = fst (inject lib db node f now b) \<and>
    same_faults (snd (inject lib db node f now a)) (snd (inject lib db node f now b))"
proof -
  have "node_stopped a node = node_stopped b node" "inj_faults a = inj_faults b"
    using assms by (simp_all add: node_stopped_def same_faults_def)
  moreover have "same_faults (a\<lparr>inj_dropped := x\<rparr>) (b\<lparr>inj_dropped := y\<rparr>)" for x y using assms by (simp add: same_faults_def)
  ultimately show ?thesis using fault_loop_same [OF assms] by (simp add: inject_def)
qed

lemma inject_all_same:
  "same_faults a b \<Longrightarrow> fst (inject_all lib db node now fs a) = fst (inject_all lib db node now fs b) \<and>
     same_faults (snd (inject_all lib db node now fs a)) (snd (inject_all lib db node now fs b))"
proof (induction fs arbitrary: a b)
  case (Cons f fs)
  obtain o1 a' where a: "inject lib db node f now a = (o1, a')" by fastforce
  obtain b' where b: "inject lib db node f now b = (o1, b')" "same_faults a' b'"
    using inject_same [OF Cons.prems, of lib db node f now] a by (cases "inject lib db node f now b") simp
  show ?case using Cons.IH [OF b(2)] a b by (simp add: case_prod_beta)
qed simp

lemma inject_all_faults:
  "inj_faults (snd (inject_all lib db node now fs fi)) = inj_faults fi \<and> inj_seed (snd (inject_all lib db node now fs fi)) = inj_seed fi"
proof (induction fs arbitrary: fi)
  case (Cons f fs)
  then show ?case using inject_faults [of lib db node f now fi] by (simp add: case_prod_beta)
qed simp

text \<open>Whatever a node sends, a reset brings its sources, its counters and its random numbers back.\<close>

lemma source_reset_sample:
  "source_reset lib (snd (sample lib t g)) = source_reset lib g"
  "map (source_reset lib) (snd (sample_parts lib t multiply acc gs)) = map (source_reset lib) gs"
proof (induction lib t g and lib t multiply acc gs rule: sample_sample_parts.induct)
  case (11 lib t multiply acc p ps)
  obtain v q where v: "sample lib t p = (v, q)" by fastforce
  show ?case using 11(2) [OF v [symmetric] refl] 11(1) v by (cases multiply) (simp_all add: case_prod_beta)
qed (simp_all add: Let_def case_prod_beta)

lemma bind_value_reset: "reset_binding lib (snd (bind_value lib plant now b)) = reset_binding lib b"
  by (cases "bd_source b") (simp_all add: bind_value_def reset_binding_def case_prod_beta source_reset_sample split: option.split)

lemma fill_bindings_reset:
  "map (reset_binding lib) (snd (fill_bindings lib m plant now bs f)) = map (reset_binding lib) bs"
proof (induction bs arbitrary: f)
  case (Cons b bs)
  then show ?case by (simp add: case_prod_beta Let_def bind_value_reset split: option.split)
qed simp

lemma ecu_build_reset:
  assumes "ecu_build lib plant now m tx rt = Some (f, tx', rt')"
  shows "reset_tx lib n (tx', r) = reset_tx lib n (tx, r')" and "tx_mode tx' = tx_mode tx"
proof -
  obtain e where "make_empty 8 (msg_id m) (unat (msg_dlc m)) flag_none 0 = Inr e"
    using assms by (auto simp: ecu_build_def split: sum.splits)
  moreover obtain g bs where g: "fill_bindings lib m plant now (tx_bindings tx) e = (g, bs)" by fastforce
  ultimately have t: "tx' = tx\<lparr>tx_bindings := bs\<rparr>" using assms by (auto simp: ecu_build_def bind_eq_Some_conv)
  have "map (reset_binding lib) bs = map (reset_binding lib) (tx_bindings tx)"
    using fill_bindings_reset [of lib m plant now "tx_bindings tx" e] g by simp
  then show "reset_tx lib n (tx', r) = reset_tx lib n (tx, r')" "tx_mode tx' = tx_mode tx" by (simp_all add: reset_tx_def t)
qed

lemma tx_step_reset:
  assumes "tx_step lib plant now p r = Some (out, p', r')"
  shows "reset_tx lib n p' = reset_tx lib n p"
proof -
  obtain tx rt where p: "p = (tx, rt)" by fastforce
  have q: "reset_tx lib n (tx, a) = reset_tx lib n (tx, b)" for a b by (simp add: reset_tx_def)
  show ?thesis using assms ecu_build_reset(1) q unfolding p
    by (auto simp: tx_step_def Let_def case_prod_beta bind_eq_Some_conv split: option.splits if_splits)
qed

lemma tx_steps_reset:
  "tx_steps lib plant now ps r = Some (out, ps', r') \<Longrightarrow> map (reset_tx lib n) ps' = map (reset_tx lib n) ps"
  by (induction ps arbitrary: r out ps') (auto simp: bind_eq_Some_conv dest: tx_step_reset)

lemma ecu_step_reset:
  assumes "ecu_step lib plant now e = Some (out, e')"
  shows "ecu_reset lib n e' = ecu_reset lib n e \<and> ecu_running e' = ecu_running e"
  using assms by (auto simp: ecu_step_def ecu_reset_def bind_eq_Some_conv dest!: tx_steps_reset [where n = n] split: if_splits)

definition same_run :: "'r simulator \<Rightarrow> 'r simulator \<Rightarrow> bool" where
  "same_run a b \<longleftrightarrow> sim_config a = sim_config b \<and> sim_database a = sim_database b \<and> sim_nodes a = sim_nodes b \<and>
     sim_pending a = sim_pending b \<and> sim_last_step_ns a = sim_last_step_ns b \<and> sim_next_drive a = sim_next_drive b \<and>
     sim_produced a = sim_produced b \<and> sim_started a = sim_started b \<and> same_faults (sim_faults a) (sim_faults b) \<and>
     (sc_has_plant (sim_config a) \<longrightarrow> sim_vehicle a = sim_vehicle b)"

lemma step_nodes_same:
  "same_faults a b \<Longrightarrow>
     (case step_nodes lib db plant now es a of
        None \<Rightarrow> step_nodes lib db plant now es b = None
      | Some (n, out, es', a') \<Rightarrow> \<exists>b'. step_nodes lib db plant now es b = Some (n, out, es', b') \<and> same_faults a' b')"
proof (induction es arbitrary: a b)
  case (Cons e es)
  show ?case
  proof (cases "ecu_step lib plant now e")
    case (Some p)
    obtain frames e1 where p: "p = (frames, e1)" by fastforce
    obtain o1 a1 where a: "inject_all lib db (ecu_name e1) now frames a = (o1, a1)" by fastforce
    obtain b1 where b: "inject_all lib db (ecu_name e1) now frames b = (o1, b1)" "same_faults a1 b1"
      using inject_all_same [OF Cons.prems, of lib db "ecu_name e1" now frames] a
      by (cases "inject_all lib db (ecu_name e1) now frames b") simp
    show ?thesis using Cons.IH [OF b(2)] Some p a b by (auto split: option.splits)
  qed simp
qed simp

lemma step_nodes_home:
  "step_nodes lib db plant now es fi = Some (n, out, es', fi') \<Longrightarrow>
     map (\<lambda>e. (ecu_reset lib 0 e)\<lparr>ecu_running := True\<rparr>) es' = map (\<lambda>e. (ecu_reset lib 0 e)\<lparr>ecu_running := True\<rparr>) es \<and>
     inj_faults fi' = inj_faults fi \<and> inj_seed fi' = inj_seed fi"
proof (induction es arbitrary: fi n out es' fi')
  case (Cons e es)
  from Cons.prems obtain frames e1 where e: "ecu_step lib plant now e = Some (frames, e1)" by (auto simp: bind_eq_Some_conv)
  obtain o1 f1 where i: "inject_all lib db (ecu_name e1) now frames fi = (o1, f1)" by fastforce
  from Cons.prems e i obtain m o2 es2 where r: "step_nodes lib db plant now es f1 = Some (m, o2, es2, fi')"
    and n: "es' = e1 # es2" by (auto simp: bind_eq_Some_conv)
  show ?case using Cons.IH [OF r] ecu_step_reset [OF e, of 0] inject_all_faults [of lib db "ecu_name e1" now frames fi] i n by simp
qed simp

lemma driven_same:
  assumes "same_run a b"
  shows "same_run (driven now a) (driven now b)" and "step_dt now a = step_dt now b"
  using assms by (auto simp: same_run_def driven_def apply_drive_def step_dt_def Let_def)

lemma sim_step_same:
  assumes "same_run a b" and "sim_step lib now a = Some (out, a')"
  shows "\<exists>b'. sim_step lib now b = Some (out, b') \<and> same_run a' b'"
proof -
  from assms(2) obtain car n scheduled es fi pending where
    car: "(if sc_has_plant (sim_config a) \<and> step_dt now a \<noteq> 0 then vehicle_step (step_dt now a) (sim_vehicle (driven now a))
       else Some (sim_vehicle (driven now a))) = Some car" and
    n: "step_nodes lib (sim_database a) (if sc_has_plant (sim_config a) then Some car else None) now (sim_nodes a) (sim_faults a)
          = Some (n, scheduled, es, fi)" and
    rel: "release now (sim_pending a @ scheduled) = (out, pending)" and
    a': "a' = (driven now a)\<lparr>sim_vehicle := car, sim_nodes := es, sim_faults := fi, sim_produced := sim_produced a + of_nat n, sim_pending := pending\<rparr>"
    unfolding sim_step_parts by blast
  note d = driven_same [OF assms(1), of now]
  have s: "sim_config b = sim_config a" "sim_database b = sim_database a" "sim_nodes b = sim_nodes a" "sim_pending b = sim_pending a"
    "sim_produced b = sim_produced a" "same_faults (sim_faults a) (sim_faults b)"
    using assms(1) by (simp_all add: same_run_def)
  obtain fj where m: "step_nodes lib (sim_database a) (if sc_has_plant (sim_config a) then Some car else None) now (sim_nodes a) (sim_faults b)
      = Some (n, scheduled, es, fj)" and fj: "same_faults fi fj"
    using step_nodes_same [OF s(6), of lib "sim_database a" "if sc_has_plant (sim_config a) then Some car else None" now "sim_nodes a"] n
    by auto
  define car' where "car' = (if sc_has_plant (sim_config a) then car else sim_vehicle (driven now b))"
  have c: "(if sc_has_plant (sim_config b) \<and> step_dt now b \<noteq> 0 then vehicle_step (step_dt now b) (sim_vehicle (driven now b))
       else Some (sim_vehicle (driven now b))) = Some car'"
    using car d s(1) by (auto simp: car'_def same_run_def split: if_splits)
  have m': "step_nodes lib (sim_database b) (if sc_has_plant (sim_config b) then Some car' else None) now (sim_nodes b) (sim_faults b)
      = Some (n, scheduled, es, fj)"
    using m s by (simp add: car'_def cong: if_cong)
  define b' where "b' = (driven now b)\<lparr>sim_vehicle := car', sim_nodes := es, sim_faults := fj,
      sim_produced := sim_produced b + of_nat n, sim_pending := pending\<rparr>"
  have "sim_step lib now b = Some (out, b')"
    unfolding sim_step_parts by (intro exI conjI, rule c, rule m', subst s(4), rule rel, rule b'_def)
  moreover have "same_run a' b'"
    using d(1) fj s(5) unfolding a' b'_def by (simp add: same_run_def car'_def)
  ultimately show ?thesis by blast
qed

lemma sim_run_same:
  assumes "same_run a b"
  shows "map_option fst (sim_run lib ts a) = map_option fst (sim_run lib ts b)"
  using assms
proof (induction ts arbitrary: a b)
  case (Cons t ts)
  have ba: "same_run b a" using Cons.prems by (auto simp: same_run_def same_faults_def)
  show ?case
  proof (cases "sim_step lib t a")
    case None
    then have "sim_step lib t b = None" using sim_step_same [OF ba, of lib t] by (cases "sim_step lib t b") auto
    then show ?thesis using None by simp
  next
    case (Some p)
    then obtain out a' where a: "sim_step lib t a = Some (out, a')" by (cases p) simp
    then obtain b' where b: "sim_step lib t b = Some (out, b')" "same_run a' b'" using sim_step_same [OF Cons.prems] by blast
    have "map_option fst (map_option (\<lambda>(outs, s). (out # outs, s)) r) = map_option ((#) out) (map_option fst r)" for r :: "(frame list list \<times> 'a simulator) option"
      by (cases r) auto
    then show ?thesis using Cons.IH [OF b(2)] a b by simp
  qed
qed simp

lemma sim_step_home:
  assumes "sim_step lib now s = Some (out, s')"
  shows "same_run (sim_reset lib s') (sim_reset lib s)"
proof -
  from assms obtain car n scheduled es fi pending where
    n: "step_nodes lib (sim_database s) (if sc_has_plant (sim_config s) then Some car else None) now (sim_nodes s) (sim_faults s)
          = Some (n, scheduled, es, fi)" and
    s': "s' = (driven now s)\<lparr>sim_vehicle := car, sim_nodes := es, sim_faults := fi, sim_produced := sim_produced s + of_nat n, sim_pending := pending\<rparr>"
    unfolding sim_step_parts by blast
  show ?thesis using step_nodes_home [OF n] unfolding s' by (simp add: same_run_def sim_reset_def same_faults_def injector_reset_def)
qed

lemma same_run_trans: "same_run a b \<Longrightarrow> same_run b c \<Longrightarrow> same_run a c"
  by (auto simp: same_run_def same_faults_def)

lemma sim_run_home: "sim_run lib ts s = Some (outs, s') \<Longrightarrow> same_run (sim_reset lib s') (sim_reset lib s)"
proof (induction ts arbitrary: s outs)
  case Nil
  then show ?case by (simp add: same_run_def same_faults_def)
next
  case (Cons t ts)
  from Cons.prems obtain out u rest where u: "sim_step lib t s = Some (out, u)" and r: "sim_run lib ts u = Some (rest, s')"
    by (auto simp: bind_eq_Some_conv)
  show ?case by (rule same_run_trans [OF Cons.IH [OF r] sim_step_home [OF u]])
qed

text \<open>What the configuration builds is fresh.\<close>

definition fresh_result :: "'r maths \<Rightarrow> ('r generator \<times> string list) result option \<Rightarrow> bool" where
  "fresh_result lib x \<longleftrightarrow> (\<forall>g ws. x = Some (Inr (g, ws)) \<longrightarrow> source_reset lib g = g)"

lemma fresh_results [simp]:
  "fresh_result lib None" "fresh_result lib (Some (Inl e))" "fresh_result lib (Some (Inr (g, ws))) \<longleftrightarrow> source_reset lib g = g"
  by (simp_all add: fresh_result_def)

lemma fresh_number:
  "(\<And>v ws. fresh_result lib (f v ws)) \<Longrightarrow> fresh_result lib (case r of (None, ws) \<Rightarrow> Some (Inl e) | (Some v, ws) \<Rightarrow> f v ws)"
  by (cases r, cases "fst r") simp_all

lemma fresh_bind: "(\<And>x. fresh_result lib (f x)) \<Longrightarrow> fresh_result lib (Option.bind d f)"
  by (cases d) simp_all

lemma ramp_fresh: "fresh_result lib (ramp_source ws)"
  unfolding ramp_source_def
  by (intro fresh_number fresh_bind) (simp add: fresh_sources(2) split: prod.split option.split)

lemma sine_fresh: "fresh_result lib (sine_source ws)"
  unfolding fresh_result_def sine_source_def
  by (clarsimp simp: fresh_sources simp del: source_reset.simps)

lemma square_fresh: "fresh_result lib (square_source ws)"
  unfolding fresh_result_def square_source_def
  by (clarsimp simp: fresh_sources simp del: source_reset.simps)

lemma walk_fresh: "fresh_result lib (walk_source lib ws)"
  unfolding fresh_result_def walk_source_def
  by (clarsimp simp: fresh_sources bind_eq_Some_conv simp del: source_reset.simps)

lemma keyframes_fresh: "fresh_result lib (map_option (\<lambda>(fs, ws). if fs = [] then Inl e else Inr (keyframes fs True, ws)) k)"
  unfolding fresh_result_def
  by (clarsimp simp: fresh_sources simp del: source_reset.simps split: if_splits)

lemmas fresh_parts = ramp_fresh sine_fresh square_fresh walk_fresh keyframes_fresh

lemma build_one_fresh: "fresh_result lib (build_one lib ws)"
proof (cases ws)
  case (Cons k vs)
  have "fresh_result lib (case take_number vs of (None, ws) \<Rightarrow> Some (Inl e) | (Some v, ws) \<Rightarrow> Some (Inr (Constant v, ws)))" for e
    by (rule fresh_number) simp
  moreover have "fresh_result lib (case number_from k of Some v \<Rightarrow> Some (Inr (Constant v, vs)) | None \<Rightarrow> Some (Inl e))" for e
    by (cases "number_from k") simp_all
  ultimately show ?thesis unfolding build_one_def Cons list.case by (simp only: if_split simp_thms fresh_parts)
qed (simp add: build_one_def)

lemma compose_source_fresh:
  "compose_source lib g ws = Some (Inr h) \<Longrightarrow> source_reset lib g = g \<Longrightarrow> source_reset lib h = h"
proof (induction lib g ws rule: compose_source.induct)
  case (1 lib g ws)
  note c = 1(4) [unfolded compose_source.simps [of lib g ws]]
  consider "ws = []" | (plus) "ws \<noteq> []" "hd ws = ''+''" | (times) "ws \<noteq> []" "hd ws = ''*''"
    | (clamp) "ws \<noteq> []" "hd ws \<noteq> ''+''" "hd ws \<noteq> ''*''" "hd ws = ''clamp'' \<and> length ws > 2"
    | "ws \<noteq> []" "hd ws \<noteq> ''+''" "hd ws \<noteq> ''*''" "\<not> (hd ws = ''clamp'' \<and> length ws > 2)" by blast
  then show ?case
  proof cases
    case plus
    with c obtain k vs where b: "build_one lib (tl ws) = Some (Inr (k, vs))" and r: "compose_source lib (Combine [g, k] False) vs = Some (Inr h)"
      by (auto split: option.splits sum.splits)
    then show ?thesis using 1(1) [OF plus b refl refl r] 1(5) build_one_fresh [of lib "tl ws"] by simp
  next
    case times
    with c obtain v vs where b: "take_number (tl ws) = (Some v, vs)" and r: "compose_source lib (Affine g v dzero) vs = Some (Inr h)"
      by (auto split: option.splits prod.splits)
    have "hd ws \<noteq> ''+''" using times by simp
    then show ?thesis using 1(2) [OF times(1) _ times(2) b [symmetric] refl r] 1(5) by simp
  next
    case clamp
    with c obtain lo hi where b: "number_from (ws ! 1) = Some lo" "number_from (ws ! 2) = Some hi"
      and r: "compose_source lib (Clamped g lo hi) (drop 3 ws) = Some (Inr h)"
      by (auto split: option.splits)
    then show ?thesis using 1(3) [OF clamp _ _ _ r] 1(5) by auto
  qed (use c 1(5) in \<open>auto split: if_splits\<close>)
qed

lemma build_source_fresh: "build_source lib e = Some (Inr g) \<Longrightarrow> source_reset lib g = g"
  by (auto simp: build_source_def split: option.splits sum.splits intro: compose_source_fresh dest: build_one_fresh [unfolded fresh_result_def, rule_format])

lemma build_bindings_fresh: "build_bindings lib m bs = Some (Inr cs) \<Longrightarrow> map (reset_binding lib) cs = cs"
proof (induction bs arbitrary: cs)
  case (Cons b bs)
  from Cons.prems obtain g ds where cs: "cs = \<lparr>bd_signal = bs_signal b, bd_source = g, bd_plant_field = bs_plant_field b\<rparr> # ds"
    and ds: "build_bindings lib m bs = Some (Inr ds)"
    and g: "(if bs_plant_field b \<noteq> [] then Some (Inr None) else map_option (result_map Some) (build_source lib (bs_expression b))) = Some (Inr g)"
    by (auto simp: result_map_Inr_iff split: if_splits option.splits sum.splits)
  have "map_option (source_reset lib) g = g" using g by (auto simp: result_map_Inr_iff split: if_splits sum.splits dest: build_source_fresh)
  then show ?case using Cons.IH [OF ds] by (simp add: cs reset_binding_def)
qed simp

definition fresh_tx :: "'r maths \<Rightarrow> 'r tx_message \<Rightarrow> bool" where
  "fresh_tx lib tx \<longleftrightarrow> map (reset_binding lib) (tx_bindings tx) = tx_bindings tx"

lemma build_tx_fresh: "build_tx lib db t = Some (Inr tx) \<Longrightarrow> fresh_tx lib tx"
  by (auto simp: build_tx_def fresh_tx_def Let_def result_map_Inr_iff split: option.splits if_splits sum.splits dest: build_bindings_fresh)

text \<open>A node as it is built.\<close>

definition fresh_node :: "'r maths \<Rightarrow> 'r ecu \<Rightarrow> bool" where
  "fresh_node lib e \<longleftrightarrow> ecu_running e \<and> ecu_rng e = seeded lib kJitterSeed \<and>
     (\<forall>(tx, rt)\<in>set (ecu_messages e). fresh_tx lib tx \<and> rt = new_runtime (tx_phase_ns tx))"

lemma fresh_node_home: "fresh_node lib e \<Longrightarrow> (ecu_reset lib 0 e)\<lparr>ecu_running := True\<rparr> = e"
  by (cases e) (auto simp: fresh_node_def ecu_reset_def reset_tx_def fresh_tx_def intro!: map_idI)

lemma build_ecu_fresh: "build_ecu lib db ts e = Some (Inr e') \<Longrightarrow> fresh_node lib e \<Longrightarrow> fresh_node lib e'"
proof (induction ts arbitrary: e)
  case (Cons t ts)
  from Cons.prems(1) obtain tx where tx: "build_tx lib db t = Some (Inr tx)" and r: "build_ecu lib db ts (ecu_add tx e) = Some (Inr e')"
    by (auto split: option.splits sum.splits)
  have "fresh_node lib (ecu_add tx e)" using Cons.prems(2) build_tx_fresh [OF tx] by (auto simp: fresh_node_def ecu_add_def)
  then show ?case by (rule Cons.IH [OF r])
qed simp

lemma build_nodes_fresh: "build_nodes lib db ns = Some (Inr es) \<Longrightarrow> list_all (fresh_node lib) es"
proof (induction ns arbitrary: es)
  case (Cons n ns)
  have "fresh_node lib (new_ecu lib (ns_name n))" by (simp add: fresh_node_def new_ecu_def)
  then show ?case using Cons by (auto simp: result_map_Inr_iff split: option.splits sum.splits dest: build_ecu_fresh)
qed simp

lemma sim_build_home:
  assumes "sim_build lib c db = Some (Inr s)"
  shows "same_run (sim_reset lib s) s"
proof -
  from assms obtain es where es: "build_nodes lib db (sc_nodes c) = Some (Inr es)" and
    s: "s = \<lparr>sim_config = c\<lparr>sc_drive := sort_key dr_at_ns (sc_drive c)\<rparr>, sim_database = db,
        sim_vehicle = (if sc_has_plant c then new_vehicle (sc_plant c) else default_vehicle), sim_nodes = es,
        sim_faults = fold add_fault (sc_faults c) (new_injector lib kFaultSeed), sim_pending = [], sim_last_step_ns = 0,
        sim_next_drive = 0, sim_produced = 0, sim_started = False\<rparr>"
    by (auto simp: sim_build_def result_map_Inr_iff)
  have "map (\<lambda>e. (ecu_reset lib 0 e)\<lparr>ecu_running := True\<rparr>) es = es"
    using build_nodes_fresh [OF es] by (intro map_idI) (auto simp: list_all_iff fresh_node_home)
  moreover have "inj_frozen (fold add_fault fs fi) = inj_frozen fi \<and> inj_rng (fold add_fault fs fi) = inj_rng fi \<and>
      inj_seed (fold add_fault fs fi) = inj_seed fi" for fs and fi :: "'a injector"
    by (induction fs arbitrary: fi) (simp_all add: add_fault_def)
  ultimately show ?thesis by (simp add: s same_run_def sim_reset_def same_faults_def injector_reset_def new_injector_def)
qed

text \<open>C14. A simulator that was built from a configuration replays: after any run, a reset brings it back to where it was
  built, and whatever sequence of steps follows sends the same frames, step by step, that the simulator sends when it is
  fresh (or does not survive the same sequences).\<close>

theorem sim_reset_replays:
  assumes "sim_build lib c db = Some (Inr s)" and "sim_run lib ts s = Some (outs, s')"
  shows "map_option fst (sim_run lib us (sim_reset lib s')) = map_option fst (sim_run lib us s)"
  by (rule sim_run_same [OF same_run_trans [OF sim_run_home [OF assms(2)] sim_build_home [OF assms(1)]]])

theorem sim_reset_replays_witness:
  "\<exists>f s. sim_run count_maths [0] alive_simulator = Some ([[f]], s) \<and>
     map_option fst (sim_run count_maths [0] (sim_reset count_maths s)) = Some [[f]]"
proof -
  obtain f s where r: "sim_run count_maths [0] alive_simulator = Some ([[f]], s)" using alive_simulator_steps by blast
  then show ?thesis using sim_reset_replays [OF alive_simulator_built r, of "[0]"] by simp
qed

end
