(* ===== verification/LogFormat.thy ===== *)
theory LogFormat
  imports Frame Fmt
begin

text \<open>
  \<open>transport/include/canforge/transport/LogFormat.hpp\<close> and \<open>transport/src/LogFormat.cpp\<close>: the candump and
  ASC text formats, line by line and file by file. A file is the string of its characters; a reader is the
  part of it not read yet, with its line number; a writer is what it has written. Opening and closing the
  file, and a failing disk, are outside the model.
\<close>

subsection \<open>Text helpers\<close>

definition char_code :: "char \<Rightarrow> nat" where
  "char_code c = of_char c"

definition is_dec :: "char \<Rightarrow> bool" where
  "is_dec c \<longleftrightarrow> 48 \<le> char_code c \<and> char_code c \<le> 57"

definition hex_nibble :: "char \<Rightarrow> u8 option" where
  "hex_nibble c =
     (let n = char_code c in
      if 48 \<le> n \<and> n \<le> 57 then Some (of_nat (n - 48))
      else if 97 \<le> n \<and> n \<le> 102 then Some (of_nat (n - 97 + 10))
      else if 65 \<le> n \<and> n \<le> 70 then Some (of_nat (n - 65 + 10))
      else None)"

fun hex_digits_from :: "u64 \<Rightarrow> string \<Rightarrow> u64 option" where
  "hex_digits_from out [] = Some out"
| "hex_digits_from out (c # cs) =
     (case hex_nibble c of None \<Rightarrow> None | Some n \<Rightarrow> hex_digits_from (push_bit 4 out OR ucast n) cs)"

definition parse_hex :: "string \<Rightarrow> u64 option" where
  "parse_hex text = (if text = [] \<or> length text > 16 then None else hex_digits_from 0 text)"

fun hex_pairs :: "string \<Rightarrow> bytes option" where
  "hex_pairs (h # l # cs) =
     (case (hex_nibble h, hex_nibble l) of
        (Some a, Some b) \<Rightarrow> map_option (\<lambda>bs. (push_bit 4 a OR b) # bs) (hex_pairs cs)
      | _ \<Rightarrow> None)"
| "hex_pairs [] = Some []"
| "hex_pairs [c] = None"

definition parse_hex_bytes :: "string \<Rightarrow> nat \<Rightarrow> bytes option" where
  "parse_hex_bytes text m =
     (if length text mod 2 \<noteq> 0 then None
      else if length text div 2 > m then None
      else hex_pairs text)"

definition trimmable :: "char \<Rightarrow> bool" where
  "trimmable c \<longleftrightarrow> c = CHR '' '' \<or> c = CHR 0x09 \<or> c = CHR 0x0D"

definition trim :: "string \<Rightarrow> string" where
  "trim s = rev (dropWhile trimmable (rev (dropWhile trimmable s)))"

fun read_whole :: "u64 \<Rightarrow> string \<Rightarrow> u64 \<times> string" where
  "read_whole w [] = (w, [])"
| "read_whole w (c # cs) =
     (if is_dec c then read_whole (w * 10 + of_nat (char_code c - 48)) cs else (w, c # cs))"

fun read_fraction :: "u64 \<Rightarrow> u64 \<Rightarrow> string \<Rightarrow> u64 \<times> string" where
  "read_fraction scale fr [] = (fr, [])"
| "read_fraction scale fr (c # cs) =
     (if is_dec c
      then (if scale \<noteq> 0 then read_fraction (scale div 10) (fr + of_nat (char_code c - 48) * scale) cs
            else read_fraction scale fr cs)
      else (fr, c # cs))"

definition parse_seconds_to_ns :: "string \<Rightarrow> u64 option" where
  "parse_seconds_to_ns text =
     (let (whole, rest) = read_whole 0 text in
      if length rest = length text then None
      else let (fraction, rest) =
                 (if rest \<noteq> [] \<and> hd rest = CHR ''.'' then read_fraction 100000000 0 (tl rest) else (0, rest))
      in if rest \<noteq> [] then None else Some (whole * 1000000000 + fraction))"

definition blank :: "char \<Rightarrow> bool" where
  "blank c \<longleftrightarrow> c = CHR '' '' \<or> c = CHR 0x09"

function split_whitespace :: "string \<Rightarrow> string list" where
  "split_whitespace s =
     (let s = dropWhile blank s in
      if s = [] then [] else takeWhile (\<lambda>c. \<not> blank c) s # split_whitespace (dropWhile (\<lambda>c. \<not> blank c) s))"
  by pat_completeness auto
termination
proof (relation "measure length")
  fix s t :: string
  assume t: "t = dropWhile blank s" "t \<noteq> []"
  then have "\<not> blank (hd t)" using hd_dropWhile [of blank s] by simp
  then have "dropWhile (\<lambda>c. \<not> blank c) t = dropWhile (\<lambda>c. \<not> blank c) (tl t)" using t(2) by (cases t) simp_all
  then have "length (dropWhile (\<lambda>c. \<not> blank c) t) < length t" using t(2) by (cases t) (simp_all add: length_dropWhile_le le_imp_less_Suc)
  also have "length t \<le> length s" unfolding t(1) by (rule length_dropWhile_le)
  finally show "(dropWhile (\<lambda>c. \<not> blank c) t, s) \<in> measure length" by simp
qed simp

declare split_whitespace.simps [simp del]

text \<open>\<open>to_hex\<close>: each byte as two digits, with or without a blank between bytes.\<close>

fun to_hex :: "bytes \<Rightarrow> bool \<Rightarrow> string" where
  "to_hex [] spaced = []"
| "to_hex (b # bs) spaced =
     hex_digit (unat (drop_bit 4 b)) # hex_digit (unat (b AND 0x0F)) #
     (if spaced \<and> bs \<noteq> [] then CHR '' '' # to_hex bs spaced else to_hex bs spaced)"

text \<open>\<open>std::setfill('0') << std::setw(w)\<close>.\<close>

definition pad_zero :: "nat \<Rightarrow> string \<Rightarrow> string" where
  "pad_zero w s = replicate (w - length s) (CHR ''0'') @ s"

text \<open>\<open>std::strtoul\<close> and \<open>std::strtoull\<close> without an end pointer: blanks, a sign, for base 16 an optional
  \<open>0x\<close>, then digits; 0 without digits, the largest value when it does not fit.\<close>

definition c_space :: "char \<Rightarrow> bool" where
  "c_space c \<longleftrightarrow> c = CHR '' '' \<or> (9 \<le> char_code c \<and> char_code c \<le> 13)"

definition digit_in :: "nat \<Rightarrow> char \<Rightarrow> nat option" where
  "digit_in base c =
     (case hex_nibble c of None \<Rightarrow> None | Some n \<Rightarrow> if unat n < base then Some (unat n) else None)"

fun digits_value :: "nat \<Rightarrow> nat \<Rightarrow> string \<Rightarrow> nat" where
  "digits_value base acc [] = acc"
| "digits_value base acc (c # cs) =
     (case digit_in base c of None \<Rightarrow> acc | Some n \<Rightarrow> digits_value base (acc * base + n) cs)"

definition strtoul :: "nat \<Rightarrow> string \<Rightarrow> u64" where
  "strtoul base text =
     (let s = dropWhile c_space text;
          neg = (s \<noteq> [] \<and> hd s = CHR ''-'');
          s = (if s \<noteq> [] \<and> (hd s = CHR ''-'' \<or> hd s = CHR ''+'') then tl s else s);
          s = (case s of z # x # d # r \<Rightarrow>
                 if base = 16 \<and> z = CHR ''0'' \<and> (x = CHR ''x'' \<or> x = CHR ''X'') \<and> digit_in 16 d \<noteq> None then d # r else s
               | _ \<Rightarrow> s);
          v = digits_value base 0 s
      in if v \<ge> 2 ^ 64 then - 1 else if neg then - of_nat v else of_nat v)"

subsection \<open>Records and the candump line\<close>

datatype log_format = Candump | Asc | Blf

record log_record =
  lr_frame :: frame
  lr_channel :: string
  lr_is_rx :: bool

definition new_record :: log_record where
  "new_record = \<lparr>lr_frame = empty_frame 64, lr_channel = ''can0'', lr_is_rx = True\<rparr>"

definition malformed :: "string \<Rightarrow> error" where
  "malformed why = Error LogBadFormat why (0, 0)"

definition kErrFlag :: u64 where "kErrFlag = 0x20000000"

text \<open>The flags of a CAN FD body, after its second \<open>#\<close>.\<close>

definition fd_nibble :: "string \<Rightarrow> (u8 \<times> string) result" where
  "fd_nibble rest =
     (if rest = [] then Inl (malformed (''a CAN FD frame needs a flags nibble after '##'' @ [CHR 0x27]))
      else case hex_nibble (hd rest) of
             None \<Rightarrow> Inl (malformed ''the CAN FD flags nibble is not hexadecimal'')
           | Some n \<Rightarrow>
               Inr (flag_fd OR (if n AND 1 \<noteq> 0 then flag_brs else 0) OR (if n AND 2 \<noteq> 0 then flag_esi else 0), tl rest))"

definition parse_candump_body :: "string \<Rightarrow> u64 \<Rightarrow> frame result" where
  "parse_candump_body body timestamp =
     (if CHR ''#'' \<notin> set body
      then Inl (malformed ''no '#' separating the identifier from the data'')
      else
        let id_text = takeWhile (\<lambda>c. c \<noteq> CHR ''#'') body; rest = tl (dropWhile (\<lambda>c. c \<noteq> CHR ''#'') body) in
        case parse_hex id_text of
          None \<Rightarrow> Inl (malformed ''the identifier is not hexadecimal'')
        | Some raw_id \<Rightarrow>
            let extended = length id_text > 3; fd = (rest \<noteq> [] \<and> hd rest = CHR ''#'') in
            try_bind (if fd then fd_nibble (tl rest) else Inr (flag_none, rest)) (\<lambda>(fl, rest).
              let fl = (if extended \<and> raw_id AND kErrFlag \<noteq> 0 \<and> length id_text = 8 then fl OR flag_error else fl) in
              try_bind (if extended then extended_id (ucast raw_id AND 0x1FFFFFFF) else standard_id (ucast raw_id)) (\<lambda>i.
                if rest \<noteq> [] \<and> (hd rest = CHR ''R'' \<or> hd rest = CHR ''r'')
                then
                  (case (if tl rest = [] then Some 0 else parse_hex (tl rest)) of
                     None \<Rightarrow> Inl (malformed ''the remote frame length is not a number'')
                   | Some requested \<Rightarrow> make_remote 64 i (ucast requested) timestamp)
                else
                  (case parse_hex_bytes rest 64 of
                     None \<Rightarrow> Inl (malformed ''the payload is not an even number of hex digits'')
                   | Some payload \<Rightarrow>
                       if \<not> fd \<and> length payload > 8
                       then Inl (malformed ''a classic CAN frame cannot carry more than eight bytes'')
                       else make_frame_of 64 i (Some payload) (length payload) fl timestamp))))"

definition parse_candump_line :: "string \<Rightarrow> log_record result" where
  "parse_candump_line line =
     (let line = trim line in
      if line = [] \<or> hd line = CHR ''#'' then Inl (malformed ''blank or comment line'')
      else
        let parts = split_whitespace line in
        if length parts < 3
        then Inl (malformed ''a candump line needs a timestamp, an interface and a frame'')
        else
          let stamp = parts ! 0 in
          if length stamp < 3 \<or> hd stamp \<noteq> CHR ''('' \<or> last stamp \<noteq> CHR '')''
          then Inl (malformed ''the timestamp must be wrapped in parentheses'')
          else case parse_seconds_to_ns (butlast (tl stamp)) of
                 None \<Rightarrow> Inl (malformed ''the timestamp is not a decimal number of seconds'')
               | Some ts \<Rightarrow>
                   result_map (\<lambda>f. new_record\<lparr>lr_channel := parts ! 1, lr_frame := f\<rparr>) (parse_candump_body (parts ! 2) ts))"

definition format_stamp :: "u64 \<Rightarrow> string" where
  "format_stamp ns =
     dec_plain (unat (ns div 1000000000)) @ ''.'' @ pad_zero 6 (dec_plain (unat ((ns mod 1000000000) div 1000)))"

definition format_candump_body :: "frame \<Rightarrow> string" where
  "format_candump_body f =
     (let i = (if is_error_frame f then id_value (frame_id f) OR 0x20000000 else id_value (frame_id f)) in
      pad_zero (if is_extended (frame_id f) \<or> is_error_frame f then 8 else 3) (hex_plain (unat i)) @
      (if is_remote f then ''#R'' @ dec_plain (unat (frame_dlc f))
       else
         (if is_fd f
          then ''##'' @ hex_plain (unat ((if is_brs f then 1 else 0 :: u32) OR (if is_esi f then 2 else 0)))
          else ''#'') @
         to_hex (take (frame_size f) (frame_data f)) False))"

definition format_candump_line :: "log_record \<Rightarrow> string" where
  "format_candump_line r =
     ''('' @ format_stamp (timestamp_ns (lr_frame r)) @ '') '' @ lr_channel r @ '' '' @ format_candump_body (lr_frame r)"

subsection \<open>Reading lines\<close>

text \<open>\<open>std::getline\<close>: up to the next line feed, which is dropped; it fails at the end of the file.\<close>

definition getline :: "string \<Rightarrow> (string \<times> string) option" where
  "getline s =
     (if s = [] then None
      else Some (takeWhile (\<lambda>c. c \<noteq> CHR 0x0A) s, drop 1 (dropWhile (\<lambda>c. c \<noteq> CHR 0x0A) s)))"

lemma getline_shorter: "getline s = Some (l, rest) \<Longrightarrow> length rest < length s"
proof -
  assume g: "getline s = Some (l, rest)"
  then have "rest = drop 1 (dropWhile (\<lambda>c. c \<noteq> CHR 0x0A) s)" "s \<noteq> []" by (auto simp: getline_def split: if_splits)
  then show ?thesis using length_dropWhile_le [of "\<lambda>c. c \<noteq> CHR 0x0A" s]
    by (cases "dropWhile (\<lambda>c. c \<noteq> CHR 0x0A) s") auto
qed

record log_reader =
  rd_in :: string
  rd_line_number :: u32
  rd_hex_base :: bool

definition open_text :: "string \<Rightarrow> log_reader" where
  "open_text content = \<lparr>rd_in = content, rd_line_number = 0, rd_hex_base = True\<rparr>"

definition end_of :: "string \<Rightarrow> error" where
  "end_of what = plain_error LogEndOfFile (''end of '' @ what @ '' log'')"

definition not_a_frame :: error where
  "not_a_frame = plain_error LogEndOfFile ''not a frame line''"

text \<open>\<open>CandumpReader::next\<close>.\<close>

function candump_next :: "log_reader \<Rightarrow> log_record result \<times> log_reader" where
  "candump_next r =
     (case getline (rd_in r) of
        None \<Rightarrow> (Inl (end_of ''candump''), r)
      | Some (line, rest) \<Rightarrow>
          let r = r\<lparr>rd_in := rest, rd_line_number := rd_line_number r + 1\<rparr>; trimmed = trim line in
          if trimmed = [] \<or> hd trimmed = CHR ''#'' then candump_next r
          else case parse_candump_line trimmed of
                 Inl e \<Rightarrow> (Inl (error_with e (rd_line_number r, 0)), r)
               | Inr rec \<Rightarrow> (Inr rec, r))"
  by pat_completeness auto
termination by (relation "measure (length \<circ> rd_in)") (auto dest: getline_shorter)

declare candump_next.simps [simp del]

subsection \<open>ASC\<close>

text \<open>The identifier field: a trailing \<open>x\<close> marks an extended frame.\<close>

definition asc_id_text :: "string \<Rightarrow> string \<times> bool" where
  "asc_id_text t = (if t \<noteq> [] \<and> (last t = CHR ''x'' \<or> last t = CHR ''X'') then (butlast t, True) else (t, False))"

definition asc_id :: "bool \<Rightarrow> u64 \<Rightarrow> can_id result" where
  "asc_id extended raw_id = (if extended then extended_id (ucast raw_id AND 0x1FFFFFFF) else standard_id (ucast raw_id))"

text \<open>The payload loop: the bytes of the fields from \<open>i\<close> on, up to \<open>take\<close>, stopping at one that is not
  hexadecimal, over a zeroed array.\<close>

fun asc_payload :: "string list \<Rightarrow> nat \<Rightarrow> bytes" where
  "asc_payload ps 0 = []"
| "asc_payload [] (Suc n) = []"
| "asc_payload (p # ps) (Suc n) =
     (case parse_hex p of None \<Rightarrow> replicate (Suc n) 0 | Some b \<Rightarrow> ucast b # asc_payload ps n)"

definition asc_take :: "string list \<Rightarrow> nat \<Rightarrow> u64 \<Rightarrow> nat" where
  "asc_take parts from len = min (min (unat len) (length parts - from)) 64"

definition asc_parse_classic :: "bool \<Rightarrow> string list \<Rightarrow> u64 \<Rightarrow> log_record result" where
  "asc_parse_classic hex_base parts timestamp =
     (let (id_text, extended) = asc_id_text (parts ! 2) in
      case (if hex_base then parse_hex id_text else Some (strtoul 10 id_text)) of
        None \<Rightarrow> Inl not_a_frame
      | Some raw_id \<Rightarrow>
          try_bind (asc_id extended raw_id) (\<lambda>i.
            let len = strtoul (if hex_base then 16 else 10) (parts ! 5);
                record = new_record\<lparr>lr_channel := parts ! 1, lr_is_rx := (parts ! 3 = ''Rx'')\<rparr> in
            if parts ! 4 = ''r'' \<or> parts ! 4 = ''R''
            then result_map (\<lambda>f. record\<lparr>lr_frame := f\<rparr>) (make_remote 64 i (ucast len) timestamp)
            else
              let n = asc_take parts 6 len in
              result_map (\<lambda>f. record\<lparr>lr_frame := f\<rparr>)
                (make_frame_of 64 i (Some (asc_payload (drop 6 parts) n)) n flag_none timestamp)))"

definition asc_parse_fd :: "string list \<Rightarrow> u64 \<Rightarrow> log_record result" where
  "asc_parse_fd parts timestamp =
     (if length parts < 9 then Inl (plain_error LogEndOfFile ''truncated CAN FD line'')
      else
        let (id_text, extended) = asc_id_text (parts ! 4) in
        case parse_hex id_text of
          None \<Rightarrow> Inl not_a_frame
        | Some raw_id \<Rightarrow>
            try_bind (asc_id extended raw_id) (\<lambda>i.
              let fl = flag_fd OR (if parts ! 5 \<noteq> ''0'' then flag_brs else 0) OR (if parts ! 6 \<noteq> ''0'' then flag_esi else 0);
                  n = asc_take parts 9 (strtoul 10 (parts ! 8));
                  record = new_record\<lparr>lr_channel := parts ! 2, lr_is_rx := (parts ! 3 = ''Rx'')\<rparr> in
              result_map (\<lambda>f. record\<lparr>lr_frame := f\<rparr>)
                (make_frame_of 64 i (Some (asc_payload (drop 9 parts) n)) n fl timestamp)))"

definition asc_parse_line :: "bool \<Rightarrow> string \<Rightarrow> log_record result" where
  "asc_parse_line hex_base line =
     (let parts = split_whitespace line in
      if length parts < 3 then Inl not_a_frame
      else case parse_seconds_to_ns (parts ! 0) of
             None \<Rightarrow> Inl not_a_frame
           | Some ts \<Rightarrow>
               if parts ! 1 = ''CANFD'' then asc_parse_fd parts ts
               else if length parts < 6 then Inl not_a_frame
               else asc_parse_classic hex_base parts ts)"

definition starts_with :: "string \<Rightarrow> string \<Rightarrow> bool" where
  "starts_with s p \<longleftrightarrow> take (length p) s = p"

text \<open>\<open>string_view::find\<close> of a word: it occurs somewhere.\<close>

fun contains_word :: "string \<Rightarrow> string \<Rightarrow> bool" where
  "contains_word [] w = (w = [])"
| "contains_word (c # cs) w = (starts_with (c # cs) w \<or> contains_word cs w)"

function asc_next :: "log_reader \<Rightarrow> log_record result \<times> log_reader" where
  "asc_next r =
     (case getline (rd_in r) of
        None \<Rightarrow> (Inl (end_of ''ASC''), r)
      | Some (line, rest) \<Rightarrow>
          let r = r\<lparr>rd_in := rest, rd_line_number := rd_line_number r + 1\<rparr>; trimmed = trim line in
          if trimmed = [] \<or> starts_with trimmed ''//'' then asc_next r
          else if starts_with trimmed ''base '' then asc_next (r\<lparr>rd_hex_base := contains_word trimmed ''hex''\<rparr>)
          else if \<not> is_dec (hd trimmed) then asc_next r
          else case asc_parse_line (rd_hex_base r) trimmed of
                 Inl e \<Rightarrow> if err_code e = LogEndOfFile then asc_next r
                          else (Inl (error_with e (rd_line_number r, 0)), r)
               | Inr rec \<Rightarrow> (Inr rec, r))"
  by pat_completeness auto
termination by (relation "measure (length \<circ> rd_in)") (auto dest: getline_shorter)

declare asc_next.simps [simp del]

definition asc_header :: string where
  "asc_header = ''date Wed Jan 1 00:00:00 2025'' @ [CHR 0x0A] @ ''base hex  timestamps absolute'' @ [CHR 0x0A] @
     ''internal events logged'' @ [CHR 0x0A] @ ''// canforge'' @ [CHR 0x0A]"

definition asc_line :: "log_record \<Rightarrow> string" where
  "asc_line r =
     (let f = lr_frame r;
          id_text = hex_plain (unat (id_value (frame_id f))) @ (if is_extended (frame_id f) then ''x'' else []);
          direction = (if lr_is_rx r then ''Rx'' else ''Tx'');
          data = to_hex (take (frame_size f) (frame_data f)) True
      in format_stamp (timestamp_ns f) @ '' '' @
         (if is_fd f
          then ''CANFD '' @ lr_channel r @ '' '' @ direction @ '' '' @ id_text @ '' '' @
               (if is_brs f then ''1'' else ''0'') @ '' '' @ (if is_esi f then ''1'' else ''0'') @ '' '' @
               dec_plain (unat (frame_dlc f)) @ '' '' @ dec_plain (frame_size f) @ '' '' @ data
          else if is_remote f
          then lr_channel r @ ''  '' @ id_text @ ''             '' @ direction @ ''   r '' @ dec_plain (unat (frame_dlc f))
          else lr_channel r @ ''  '' @ id_text @ ''             '' @ direction @ ''   d '' @ dec_plain (frame_size f) @ '' '' @ data))"

subsection \<open>Files\<close>

text \<open>The virtual \<open>next\<close> of the reader a format has; BLF containers are read elsewhere.\<close>

definition text_next :: "log_format \<Rightarrow> log_reader \<Rightarrow> log_record result \<times> log_reader" where
  "text_next fmt r = (if fmt = Asc then asc_next r else candump_next r)"

lemma candump_next_shorter: "candump_next r = (Inr rec, r') \<Longrightarrow> length (rd_in r') < length (rd_in r)"
proof (induction r rule: candump_next.induct)
  case (1 r)
  note step = "1.prems" [unfolded candump_next.simps [of r]]
  then obtain line rest where g: "getline (rd_in r) = Some (line, rest)" by (auto split: option.splits)
  let ?s = "r\<lparr>rd_in := rest, rd_line_number := rd_line_number r + 1\<rparr>"
  show ?case
  proof (cases "trim line = [] \<or> hd (trim line) = CHR ''#''")
    case True
    then have "candump_next ?s = (Inr rec, r')" using step g by (simp add: Let_def)
    then have "length (rd_in r') < length (rd_in ?s)" using "1.IH" [OF g refl refl refl True] by simp
    then show ?thesis using getline_shorter [OF g] by simp
  next
    case False
    then have "r' = ?s" using step g by (auto simp: Let_def split: sum.splits)
    then show ?thesis using getline_shorter [OF g] by simp
  qed
qed

lemma asc_next_shorter: "asc_next r = (Inr rec, r') \<Longrightarrow> length (rd_in r') < length (rd_in r)"
proof (induction "length (rd_in r)" arbitrary: r rule: less_induct)
  case less
  note step = less.prems [unfolded asc_next.simps [of r]]
  then obtain line rest where g: "getline (rd_in r) = Some (line, rest)" by (auto split: option.splits)
  let ?s = "r\<lparr>rd_in := rest, rd_line_number := rd_line_number r + 1\<rparr>"
  have shorter: "length (rd_in ?s) < length (rd_in r)" using getline_shorter [OF g] by simp
  consider "asc_next ?s = (Inr rec, r')" | b where "asc_next (?s\<lparr>rd_hex_base := b\<rparr>) = (Inr rec, r')" | "r' = ?s"
    using step g by (auto simp: Let_def split: sum.splits if_splits)
  then show ?case
  proof cases
    case 1
    then show ?thesis using less.hyps [OF shorter] shorter by simp
  next
    case (2 b)
    then show ?thesis using less.hyps [of "?s\<lparr>rd_hex_base := b\<rparr>"] shorter by simp
  next
    case 3
    then show ?thesis using shorter by simp
  qed
qed

lemma text_next_shorter: "text_next fmt r = (Inr rec, r') \<Longrightarrow> length (rd_in r') < length (rd_in r)"
  using candump_next_shorter asc_next_shorter by (auto simp: text_next_def split: if_splits)

text \<open>\<open>LogReader::read_all\<close>.\<close>

function read_all :: "log_format \<Rightarrow> log_reader \<Rightarrow> log_record list result" where
  "read_all fmt r =
     (case text_next fmt r of
        (Inl e, _) \<Rightarrow> if err_code e = LogEndOfFile then Inr [] else Inl e
      | (Inr rec, r') \<Rightarrow> result_map (\<lambda>rs. rec # rs) (read_all fmt r'))"
  by pat_completeness auto
termination by (relation "measure (\<lambda>(fmt, r). length (rd_in r))") (auto dest!: text_next_shorter [OF sym])

declare read_all.simps [simp del]

definition text_writer :: "log_format \<Rightarrow> string" where
  "text_writer fmt = (if fmt = Asc then asc_header else [])"

definition text_write :: "log_format \<Rightarrow> string \<Rightarrow> log_record \<Rightarrow> string" where
  "text_write fmt out r = out @ (if fmt = Asc then asc_line r else format_candump_line r) @ [CHR 0x0A]"

definition text_finish :: "log_format \<Rightarrow> string \<Rightarrow> string" where
  "text_finish fmt out = out @ (if fmt = Asc then ''End TriggerBlock'' @ [CHR 0x0A] else [])"

text \<open>\<open>detect_format\<close>: \<open>head\<close> is what the first read of eight bytes returns, \<open>None\<close> when the file does not open.\<close>

definition to_lower :: "char \<Rightarrow> char" where
  "to_lower c = (if 65 \<le> char_code c \<and> char_code c \<le> 90 then char_of (char_code c + 32) else c)"

definition ends_with :: "string \<Rightarrow> string \<Rightarrow> bool" where
  "ends_with path suffix \<longleftrightarrow> length path \<ge> length suffix \<and> map to_lower (drop (length path - length suffix) path) = suffix"

definition detect_format :: "string \<Rightarrow> string option \<Rightarrow> log_format result" where
  "detect_format path head =
     (if ends_with path ''.blf'' then Inr Blf
      else if ends_with path ''.asc'' then Inr Asc
      else if ends_with path ''.log'' \<or> ends_with path ''.candump'' \<or> ends_with path ''.txt'' then Inr Candump
      else case head of
             None \<Rightarrow> Inl (plain_error ParseIoError ''cannot open the log file'')
           | Some sniff \<Rightarrow>
               if starts_with sniff ''LOGG'' then Inr Blf
               else if starts_with sniff ''date '' \<or> starts_with sniff ''base '' then Inr Asc
               else if sniff \<noteq> [] \<and> hd sniff = CHR ''('' then Inr Candump
               else Inl (plain_error LogBadFormat ''cannot tell what log format this file is''))"

end
