(* ===== verification/Bus.thy ===== *)
theory Bus
  imports Frame
begin

text \<open>
  \<open>transport/include/canforge/transport/IBus.hpp\<close>, \<open>transport/src/IBus.cpp\<close>,
  \<open>transport/include/canforge/transport/VirtualBus.hpp\<close> and \<open>transport/src/VirtualBus.cpp\<close>: the
  worst-case frame timing, the acceptance filters, the statistics, and the in-process bus. A
  \<open>VirtualMedium\<close> owns the clock and its participants; a participant is a \<open>VirtualBus\<close>, identified
  in the model by a number that stands for its address and is never reused while a frame of it
  is in flight. The counters are 64-bit and wrap.
\<close>

subsection \<open>Timing\<close>

record bus_timing =
  nominal_bitrate :: u32
  data_bitrate :: u32

definition default_timing :: bus_timing where
  "default_timing = \<lparr>nominal_bitrate = 500000, data_bitrate = 2000000\<rparr>"

record frame_timing =
  arbitration_bits :: u32
  data_bits :: u32
  stuff_bits :: u32
  nanoseconds :: u64

definition total_bits :: "frame_timing \<Rightarrow> u32" where
  "total_bits t = arbitration_bits t + data_bits t"

definition worst_case_stuff_bits :: "u32 \<Rightarrow> u32" where
  "worst_case_stuff_bits bits = (if bits = 0 then 0 else (bits - 1) div 4)"

definition kTrailer :: u32 where "kTrailer = 1 + 1 + 1 + 7 + 3"

text \<open>Duration of a number of bits at a rate, zero for a rate of zero.\<close>

definition bit_time :: "u32 \<Rightarrow> u32 \<Rightarrow> u64" where
  "bit_time bits rate = (if rate = 0 then 0 else (ucast bits * 1000000000) div ucast rate)"

definition classic_timing :: "frame \<Rightarrow> bus_timing \<Rightarrow> frame_timing" where
  "classic_timing f timing =
     (let payload_bits = of_nat ((if is_remote f then 0 else frame_size f) * 8) :: u32;
          stuffable = (if is_extended (frame_id f) then 54 else 34) + payload_bits;
          stuff = worst_case_stuff_bits stuffable;
          arb = stuffable + kTrailer + stuff
      in \<lparr>arbitration_bits = arb, data_bits = 0, stuff_bits = stuff,
          nanoseconds = bit_time arb (nominal_bitrate timing)\<rparr>)"

definition fd_timing :: "frame \<Rightarrow> bus_timing \<Rightarrow> frame_timing" where
  "fd_timing f timing =
     (let len = of_nat (frame_size f) :: u32;
          payload_bits = len * 8;
          arbitration_core = (if is_extended (frame_id f) then 37 else 17);
          crc_bits = (if len > 16 then 21 else 17);
          crc_field = crc_bits + 4;
          fixed_stuff = crc_field div 4;
          dynamic_stuff = worst_case_stuff_bits (arbitration_core + 1 + 4 + payload_bits);
          stuff = fixed_stuff + dynamic_stuff;
          arb = arbitration_core + kTrailer;
          dat = 1 + 4 + payload_bits + crc_field + stuff;
          data_rate = (if is_brs f \<and> data_bitrate timing \<noteq> 0 then data_bitrate timing
                       else nominal_bitrate timing)
      in \<lparr>arbitration_bits = arb, data_bits = dat, stuff_bits = stuff,
          nanoseconds = bit_time arb (nominal_bitrate timing) + bit_time dat data_rate\<rparr>)"

definition frame_timing_of :: "frame \<Rightarrow> bus_timing \<Rightarrow> frame_timing" where
  "frame_timing_of f timing = (if is_fd f then fd_timing f timing else classic_timing f timing)"

subsection \<open>Filters\<close>

record filter_rule =
  flt_id :: u32
  flt_mask :: u32
  flt_invert :: bool
  flt_match_format :: bool

definition exact_filter :: "can_id \<Rightarrow> filter_rule" where
  "exact_filter wanted = \<lparr>flt_id = packed wanted, flt_mask = kExtendedIdMax OR kEffFlag,
     flt_invert = False, flt_match_format = True\<rparr>"

definition range_filter :: "u32 \<Rightarrow> u32 \<Rightarrow> filter_rule" where
  "range_filter base bits = \<lparr>flt_id = base, flt_mask = bits, flt_invert = False, flt_match_format = False\<rparr>"

definition filter_accepts :: "filter_rule \<Rightarrow> can_id \<Rightarrow> bool" where
  "filter_accepts f candidate =
     (let effective = (if flt_match_format f then flt_mask f else flt_mask f AND kExtendedIdMax)
      in (packed candidate AND effective = flt_id f AND effective) \<noteq> flt_invert f)"

fun accepted_by :: "filter_rule list \<Rightarrow> can_id \<Rightarrow> bool" where
  "accepted_by [] i = True"
| "accepted_by fs i = list_ex (\<lambda>f. filter_accepts f i) fs"

subsection \<open>Statistics\<close>

record bus_statistics =
  frames_sent :: u64
  frames_received :: u64
  bytes_sent :: u64
  bytes_received :: u64
  send_errors :: u64
  receive_errors :: u64
  error_frames :: u64
  arbitration_losses :: u64
  dropped :: u64
  wire_bits :: u64
  first_timestamp_ns :: u64
  last_timestamp_ns :: u64

definition zero_statistics :: bus_statistics where
  "zero_statistics = \<lparr>frames_sent = 0, frames_received = 0, bytes_sent = 0, bytes_received = 0,
     send_errors = 0, receive_errors = 0, error_frames = 0, arbitration_losses = 0, dropped = 0,
     wire_bits = 0, first_timestamp_ns = 0, last_timestamp_ns = 0\<rparr>"

definition statistics_span :: "bus_statistics \<Rightarrow> u64" where
  "statistics_span s =
     (if last_timestamp_ns s \<ge> first_timestamp_ns s then last_timestamp_ns s - first_timestamp_ns s else 0)"

subsection \<open>Participants and the medium\<close>

record virtual_bus =
  vb_name :: string
  vb_outbox :: "frame list"
  vb_inbox :: "frame list"
  vb_filters :: "filter_rule list"
  vb_stats :: bus_statistics
  vb_open :: bool

definition new_virtual_bus :: "string \<Rightarrow> virtual_bus" where
  "new_virtual_bus n = \<lparr>vb_name = n, vb_outbox = [], vb_inbox = [], vb_filters = [],
     vb_stats = zero_statistics, vb_open = False\<rparr>"

record arbitration_event =
  at_ns :: u64
  winner_id :: can_id
  winner_name :: string
  loser_ids :: "can_id list"

record medium =
  med_timing :: bus_timing
  med_now_ns :: u64
  med_busy_until_ns :: u64
  med_loopback :: bool
  med_in_flight :: bool
  med_current :: frame
  med_current_sender :: "nat option"
  med_rx_limit :: nat
  med_tx_limit :: nat
  med_participants :: "(nat \<times> virtual_bus) list"
  med_log :: "arbitration_event list"

definition new_medium :: "bus_timing \<Rightarrow> medium" where
  "new_medium t = \<lparr>med_timing = t, med_now_ns = 0, med_busy_until_ns = 0, med_loopback = True,
     med_in_flight = False, med_current = empty_frame 64, med_current_sender = None,
     med_rx_limit = 4096, med_tx_limit = 4096, med_participants = [], med_log = []\<rparr>"

definition map_bus :: "(nat \<Rightarrow> virtual_bus \<Rightarrow> virtual_bus) \<Rightarrow> medium \<Rightarrow> medium" where
  "map_bus g m = m\<lparr>med_participants := map (\<lambda>(i, b). (i, g i b)) (med_participants m)\<rparr>"

definition attach :: "medium \<Rightarrow> nat \<Rightarrow> string \<Rightarrow> medium" where
  "attach m who n = m\<lparr>med_participants := med_participants m @ [(who, new_virtual_bus n)]\<rparr>"

definition detach :: "medium \<Rightarrow> nat \<Rightarrow> medium" where
  "detach m who = m\<lparr>med_participants := filter (\<lambda>p. fst p \<noteq> who) (med_participants m)\<rparr>"

definition medium_pending :: "medium \<Rightarrow> nat" where
  "medium_pending m = sum_list (map (\<lambda>p. length (vb_outbox (snd p))) (med_participants m))"

definition set_loopback :: "medium \<Rightarrow> bool \<Rightarrow> medium" where "set_loopback m on = m\<lparr>med_loopback := on\<rparr>"
definition set_receive_queue_limit :: "medium \<Rightarrow> nat \<Rightarrow> medium" where
  "set_receive_queue_limit m n = m\<lparr>med_rx_limit := n\<rparr>"
definition set_transmit_queue_limit :: "medium \<Rightarrow> nat \<Rightarrow> medium" where
  "set_transmit_queue_limit m n = m\<lparr>med_tx_limit := n\<rparr>"

text \<open>One participant's share of \<open>deliver\<close>.\<close>

definition deliver_one :: "medium \<Rightarrow> frame \<Rightarrow> nat option \<Rightarrow> nat \<Rightarrow> virtual_bus \<Rightarrow> virtual_bus" where
  "deliver_one m f from who p =
     (if Some who = from \<and> \<not> med_loopback m then p
      else if \<not> vb_open p then p
      else if \<not> accepted_by (vb_filters p) (frame_id f) then p
      else let s = vb_stats p in
      if length (vb_inbox p) \<ge> med_rx_limit m
      then p\<lparr>vb_stats := s\<lparr>dropped := dropped s + 1, receive_errors := receive_errors s + 1\<rparr>\<rparr>
      else p\<lparr>vb_inbox := vb_inbox p @ [f],
             vb_stats := s\<lparr>frames_received := frames_received s + 1,
               bytes_received := bytes_received s + of_nat (frame_size f),
               error_frames := (if is_error_frame f then error_frames s + 1 else error_frames s),
               first_timestamp_ns := (if first_timestamp_ns s = 0 then timestamp_ns f else first_timestamp_ns s),
               last_timestamp_ns := timestamp_ns f\<rparr>\<rparr>)"

definition deliver :: "medium \<Rightarrow> frame \<Rightarrow> nat option \<Rightarrow> medium" where
  "deliver m f from = map_bus (deliver_one m f from) m"

definition contends :: "virtual_bus \<Rightarrow> bool" where
  "contends p \<longleftrightarrow> vb_open p \<and> vb_outbox p \<noteq> []"

text \<open>The arbitration loop: the winner so far with its key, and the number of contenders.\<close>

definition arbitrate :: "(nat \<times> virtual_bus) list \<Rightarrow> (nat \<times> u64) option \<times> nat" where
  "arbitrate ps =
     foldl (\<lambda>(best, n) (who, p).
        if \<not> contends p then (best, n)
        else let key = arbitration_key (frame_id (hd (vb_outbox p))) in
          ((case best of None \<Rightarrow> Some (who, key)
            | Some (w, k) \<Rightarrow> if key < k then Some (who, key) else best), n + 1))
       (None, 0) ps"

definition bus_of :: "medium \<Rightarrow> nat \<Rightarrow> virtual_bus option" where
  "bus_of m who = map_of (med_participants m) who"

definition update_bus :: "medium \<Rightarrow> nat \<Rightarrow> (virtual_bus \<Rightarrow> virtual_bus) \<Rightarrow> medium" where
  "update_bus m who g = map_bus (\<lambda>i b. if i = who then g b else b) m"

definition count_loss :: "virtual_bus \<Rightarrow> virtual_bus" where
  "count_loss p = p\<lparr>vb_stats := (vb_stats p)\<lparr>arbitration_losses := arbitration_losses (vb_stats p) + 1\<rparr>\<rparr>"

definition count_sent :: "frame \<Rightarrow> frame_timing \<Rightarrow> u64 \<Rightarrow> u64 \<Rightarrow> virtual_bus \<Rightarrow> virtual_bus" where
  "count_sent f t now until p =
     (let s = vb_stats p in
      p\<lparr>vb_stats := s\<lparr>frames_sent := frames_sent s + 1,
          bytes_sent := bytes_sent s + of_nat (frame_size f),
          wire_bits := wire_bits s + ucast (total_bits t),
          first_timestamp_ns := (if first_timestamp_ns s = 0 then now else first_timestamp_ns s),
          last_timestamp_ns := until\<rparr>\<rparr>)"

text \<open>
  The second half of \<open>start_transmission\<close>: participant \<open>who\<close>, whose state is \<open>w\<close>, has won against
  \<open>contenders - 1\<close> others.
\<close>

definition transmit :: "medium \<Rightarrow> nat \<Rightarrow> virtual_bus \<Rightarrow> nat \<Rightarrow> medium" where
  "transmit m who w contenders =
     (let f = hd (vb_outbox w);
          m = update_bus m who (\<lambda>p. p\<lparr>vb_outbox := tl (vb_outbox p)\<rparr>);
          losers = [p \<leftarrow> med_participants m. fst p \<noteq> who \<and> contends (snd p)];
          event = \<lparr>at_ns = med_now_ns m, winner_id = frame_id f, winner_name = vb_name w,
                   loser_ids = map (\<lambda>p. frame_id (hd (vb_outbox (snd p)))) losers\<rparr>;
          m = (if contenders > 1
               then (map_bus (\<lambda>i p. if i \<noteq> who \<and> contends p then count_loss p else p) m)
                      \<lparr>med_log := (if losers \<noteq> [] then med_log m @ [event] else med_log m)\<rparr>
               else m);
          t = frame_timing_of f (med_timing m);
          until = med_now_ns m + nanoseconds t;
          f = set_timestamp_ns f until;
          m = update_bus m who (count_sent f t (med_now_ns m) until)
      in m\<lparr>med_busy_until_ns := until, med_current := f, med_current_sender := Some who,
           med_in_flight := True\<rparr>)"

definition start_transmission :: "medium \<Rightarrow> bool \<times> medium" where
  "start_transmission m =
     (if med_in_flight m then (False, m)
      else case arbitrate (med_participants m) of
        (None, _) \<Rightarrow> (False, m)
      | (Some (who, _), contenders) \<Rightarrow>
          (case bus_of m who of
             None \<Rightarrow> (False, m)
           | Some w \<Rightarrow> (True, transmit m who w contenders)))"

definition complete_transmission :: "medium \<Rightarrow> medium" where
  "complete_transmission m =
     (if \<not> med_in_flight m then m
      else (deliver (m\<lparr>med_in_flight := False\<rparr>) (med_current m) (med_current_sender m))
             \<lparr>med_current_sender := None\<rparr>)"

subsection \<open>A participant's operations\<close>

definition vb_open_bus :: "medium \<Rightarrow> nat \<Rightarrow> status \<times> medium" where
  "vb_open_bus m who = (ok, update_bus m who (\<lambda>p. p\<lparr>vb_open := True\<rparr>))"

definition vb_close :: "medium \<Rightarrow> nat \<Rightarrow> medium" where
  "vb_close m who = update_bus m who (\<lambda>p. p\<lparr>vb_open := False, vb_outbox := [], vb_inbox := []\<rparr>)"

definition vb_is_open :: "medium \<Rightarrow> nat \<Rightarrow> bool" where
  "vb_is_open m who = (case bus_of m who of None \<Rightarrow> False | Some p \<Rightarrow> vb_open p)"

definition vb_send :: "medium \<Rightarrow> nat \<Rightarrow> frame \<Rightarrow> status \<times> medium" where
  "vb_send m who f =
     (if \<not> vb_is_open m who
      then (Inl (plain_error TransportNotOpen ''the virtual bus participant is not open''), m)
      else if is_fd f \<and> data_bitrate (med_timing m) = 0
      then (Inl (plain_error TransportUnsupported ''this medium has no CAN FD data bitrate configured''), m)
      else case bus_of m who of
        None \<Rightarrow> (Inl (plain_error TransportNotOpen ''the virtual bus participant is not open''), m)
      | Some p \<Rightarrow>
        if length (vb_outbox p) \<ge> med_tx_limit m
        then (Inl (plain_error TransportOverflow ''the transmit queue is full''),
              update_bus m who (\<lambda>p. p\<lparr>vb_stats := (vb_stats p)\<lparr>send_errors := send_errors (vb_stats p) + 1\<rparr>\<rparr>))
        else (ok, update_bus m who (\<lambda>p. p\<lparr>vb_outbox := vb_outbox p @ [f]\<rparr>)))"

definition vb_set_filters :: "medium \<Rightarrow> nat \<Rightarrow> filter_rule list \<Rightarrow> status \<times> medium" where
  "vb_set_filters m who fs = (ok, update_bus m who (\<lambda>p. p\<lparr>vb_filters := fs\<rparr>))"

definition vb_reset_statistics :: "medium \<Rightarrow> nat \<Rightarrow> medium" where
  "vb_reset_statistics m who = update_bus m who (\<lambda>p. p\<lparr>vb_stats := zero_statistics\<rparr>)"

end
