(* ===== verification/LogReplay.thy ===== *)
theory LogReplay
  imports LogFormat Bus Double
begin

text \<open>
  \<open>transport/include/canforge/transport/LogReplayBus.hpp\<close> and \<open>transport/src/LogReplayBus.cpp\<close>: a recorded
  log as a bus. The call that sleeps in real-time mode has no effect on the object and is left out.
  \<open>receive\<close> is \<open>None\<close> where it has no defined result: the due time does not convert to 64 bits, or
  the loop goes on for ever.
\<close>

record replay_options =
  ro_speed :: double
  ro_loop :: bool
  ro_start_offset :: int
  ro_timing :: bus_timing

definition default_replay :: replay_options where
  "default_replay = \<lparr>ro_speed = of_integer 1, ro_loop = False, ro_start_offset = 0, ro_timing = default_timing\<rparr>"

record replay =
  rp_records :: "log_record list"
  rp_options :: replay_options
  rp_filters :: "filter_rule list"
  rp_stats :: bus_statistics
  rp_first_ns :: u64
  rp_now_ns :: u64
  rp_index :: nat
  rp_open :: bool

abbreviation rec_ns :: "log_record \<Rightarrow> u64" where
  "rec_ns r \<equiv> timestamp_ns (lr_frame r)"

definition replay_rewind :: "replay \<Rightarrow> replay" where
  "replay_rewind b =
     (let skip = (if ro_start_offset (rp_options b) < 0 then 0 else word_of_int (ro_start_offset (rp_options b)))
      in b\<lparr>rp_index := length (takeWhile (\<lambda>r. rec_ns r - rp_first_ns b < skip) (rp_records b)), rp_now_ns := skip\<rparr>)"

text \<open>The constructor: \<open>std::stable_sort\<close> by time stamp, the first stamp, \<open>rewind\<close>.\<close>

definition new_replay :: "log_record list \<Rightarrow> replay_options \<Rightarrow> replay" where
  "new_replay records options =
     (let options = (if d_le (ro_speed options) dzero then options\<lparr>ro_speed := of_integer 1\<rparr> else options);
          sorted = sort_key rec_ns records
      in replay_rewind
           \<lparr>rp_records = sorted, rp_options = options, rp_filters = [], rp_stats = zero_statistics,
            rp_first_ns = (if sorted \<noteq> [] then rec_ns (hd sorted) else 0), rp_now_ns = 0, rp_index = 0, rp_open = False\<rparr>)"

definition replay_open :: "replay \<Rightarrow> status \<times> replay" where
  "replay_open b = (ok, b\<lparr>rp_open := True\<rparr>)"

definition replay_close :: "replay \<Rightarrow> replay" where
  "replay_close b = b\<lparr>rp_open := False\<rparr>"

definition replay_send :: "replay \<Rightarrow> frame \<Rightarrow> status \<times> replay" where
  "replay_send b f = (Inl (plain_error TransportUnsupported ''a log replay bus is read-only''), b)"

definition replay_set_filters :: "replay \<Rightarrow> filter_rule list \<Rightarrow> status \<times> replay" where
  "replay_set_filters b fs = (ok, b\<lparr>rp_filters := fs\<rparr>)"

definition replay_reset_statistics :: "replay \<Rightarrow> replay" where
  "replay_reset_statistics b = b\<lparr>rp_stats := zero_statistics\<rparr>"

text \<open>\<open>static_cast<std::uint64_t>\<close> of a double: defined when the truncated value is in range.\<close>

definition double_to_u64 :: "double \<Rightarrow> u64 option" where
  "double_to_u64 d = (case d_trunc d of Some z \<Rightarrow> if 0 \<le> z \<and> z < 2 ^ 64 then Some (word_of_int z) else None | None \<Rightarrow> None)"

definition due_of :: "replay \<Rightarrow> log_record \<Rightarrow> u64 option" where
  "due_of b r = double_to_u64 (d_div (of_integer (uint (rec_ns r - rp_first_ns b))) (ro_speed (rp_options b)))"

definition count_received :: "bus_statistics \<Rightarrow> bus_timing \<Rightarrow> frame \<Rightarrow> u64 \<Rightarrow> bus_statistics" where
  "count_received st timing f now =
     (let st = st\<lparr>frames_received := frames_received st + 1, bytes_received := bytes_received st + of_nat (frame_size f),
                  wire_bits := wire_bits st + ucast (total_bits (frame_timing_of f timing))\<rparr>;
          st = (if is_error_frame f then st\<lparr>error_frames := error_frames st + 1\<rparr> else st);
          st = (if frames_received st = 1 then st\<lparr>first_timestamp_ns := now\<rparr> else st)
      in st\<lparr>last_timestamp_ns := now\<rparr>)"

partial_function (option) replay_loop :: "replay \<Rightarrow> u64 \<Rightarrow> (frame result \<times> replay) option" where
  "replay_loop b deadline =
     (if rp_index b \<ge> length (rp_records b) then
        if ro_loop (rp_options b) \<and> rp_records b \<noteq> [] then replay_loop (b\<lparr>rp_index := 0\<rparr>) deadline
        else Some (Inl (plain_error LogEndOfFile ''the recording is exhausted''), b\<lparr>rp_now_ns := deadline\<rparr>)
      else
        let r = rp_records b ! rp_index b in
        case due_of b r of
          None \<Rightarrow> None
        | Some due \<Rightarrow>
            if due > deadline
            then Some (Inl (plain_error TransportTimeout ''the next recorded frame is not due yet''), b\<lparr>rp_now_ns := deadline\<rparr>)
            else
              let now = max (rp_now_ns b) due; b = b\<lparr>rp_now_ns := now, rp_index := rp_index b + 1\<rparr> in
              if \<not> accepted_by (rp_filters b) (frame_id (lr_frame r)) then replay_loop b deadline
              else
                let f = set_timestamp_ns (lr_frame r) now
                in Some (Inr f, b\<lparr>rp_stats := count_received (rp_stats b) (ro_timing (rp_options b)) f now\<rparr>))"

definition replay_receive :: "replay \<Rightarrow> int \<Rightarrow> (frame result \<times> replay) option" where
  "replay_receive b timeout =
     (if \<not> rp_open b then Some (Inl (plain_error TransportNotOpen ''the replay bus is not open''), b)
      else
        let budget = (if timeout < 0 then 0 else word_of_int timeout)
        in replay_loop b (rp_now_ns b + budget))"

definition at_end :: "replay \<Rightarrow> bool" where
  "at_end b \<longleftrightarrow> rp_index b \<ge> length (rp_records b)"

subsection \<open>Bus load\<close>

text \<open>\<open>BusStatistics::bus_load\<close> of \<open>transport/src/IBus.cpp\<close>.\<close>

definition bus_load :: "bus_statistics \<Rightarrow> bus_timing \<Rightarrow> double" where
  "bus_load st timing =
     (let elapsed = (if last_timestamp_ns st \<ge> first_timestamp_ns st then last_timestamp_ns st - first_timestamp_ns st else 0) in
      if elapsed = 0 \<or> nominal_bitrate timing = 0 \<or> frames_sent st + frames_received st < 2 then dzero
      else
        let seconds = d_div (of_integer (uint elapsed)) (of_integer 1000000000);
            capacity = d_mul (of_integer (uint (nominal_bitrate timing))) seconds in
        if d_le capacity dzero then dzero
        else let used = d_div (of_integer (uint (wire_bits st))) capacity in
             if d_less (of_integer 1) used then of_integer 1 else used)"

end
