(* ===== verification/LogFormat_Laws.thy ===== *)
theory LogFormat_Laws
  imports LogFormat
begin

text \<open>
  Trace files: what is written is read back (timestamps to the microsecond), and every frame a reader
  delivers is well-formed whatever the file holds.
\<close>

subsection \<open>Digits\<close>

lemma less_cases_16:
  fixes n :: nat
  assumes "n < 16"
  shows "n \<in> {0, 1, 2, 3, 4, 5, 6, 7, 8, 9, 10, 11, 12, 13, 14, 15}"
  using assms by (simp only: insert_iff empty_iff) arith

lemma hex_nibble_digit [simp]: "n < 16 \<Longrightarrow> hex_nibble (hex_digit n) = Some (of_nat n)"
  using less_cases_16 [of n] by (auto simp: hex_nibble_def hex_digit_def char_code_def)

definition hex_char :: "char \<Rightarrow> bool" where
  "hex_char c \<longleftrightarrow> (\<exists>d<16. c = hex_digit d)"

lemma hex_char_digit [simp]: "d < 16 \<Longrightarrow> hex_char (hex_digit d)"
  by (auto simp: hex_char_def)

lemma dec_digit_code [simp]: "n < 10 \<Longrightarrow> char_code (dec_digit n) = 48 + n"
proof -
  assume "n < 10"
  then have "n \<in> {0, 1, 2, 3, 4, 5, 6, 7, 8, 9}" by auto
  then show ?thesis by (auto simp: dec_digit_def char_code_def)
qed

lemma is_dec_digit [simp]: "n < 10 \<Longrightarrow> is_dec (dec_digit n)"
  by (simp add: is_dec_def)

lemma hex_dec_digit: "n < 10 \<Longrightarrow> hex_digit n = dec_digit n"
proof -
  assume "n < 10"
  then have "n \<in> {0, 1, 2, 3, 4, 5, 6, 7, 8, 9}" by auto
  then show ?thesis by (auto simp: dec_digit_def hex_digit_def)
qed

lemma dec_plain_Cons: "\<exists>d ds. dec_plain n = dec_digit d # ds \<and> d < 10 \<and> (\<forall>c\<in>set ds. is_dec c)"
proof (induction n rule: less_induct)
  case (less n)
  show ?case
  proof (cases "n < 10")
    case False
    then obtain d ds where "dec_plain (n div 10) = dec_digit d # ds \<and> d < 10 \<and> (\<forall>c\<in>set ds. is_dec c)"
      using less.IH [of "n div 10"] by auto
    then show ?thesis using False by (subst dec_plain.simps) auto
  qed (auto simp: dec_plain.simps [of n])
qed

lemma dec_plain_dec: "c \<in> set (dec_plain n) \<Longrightarrow> is_dec c"
  using dec_plain_Cons [of n] by auto

lemma hex_plain_Cons: "\<exists>d ds. hex_plain n = hex_digit d # ds \<and> d < 16"
proof (induction n rule: less_induct)
  case (less n)
  show ?case
  proof (cases "n < 16")
    case False
    then obtain d ds where "hex_plain (n div 16) = hex_digit d # ds \<and> d < 16" using less.IH [of "n div 16"] by auto
    then show ?thesis using False by (subst hex_plain.simps) auto
  qed (auto simp: hex_plain.simps [of n])
qed

lemma hex_plain_digits: "c \<in> set (hex_plain n) \<Longrightarrow> hex_char c"
proof (induction n rule: less_induct)
  case (less n)
  show ?case
  proof (cases "n < 16")
    case True
    then show ?thesis using less.prems by (auto simp: hex_plain.simps [of n])
  next
    case False
    then have "c \<in> set (hex_plain (n div 16)) \<or> c = hex_digit (n mod 16)"
      using less.prems by (auto simp: hex_plain.simps [of n])
    then show ?thesis using less.IH [of "n div 16"] False by auto
  qed
qed

lemma length_hex_plain: "n < 16 ^ w \<Longrightarrow> 0 < w \<Longrightarrow> length (hex_plain n) \<le> w"
proof (induction w arbitrary: n)
  case (Suc w)
  show ?case
  proof (cases "n < 16")
    case True
    then show ?thesis by (simp add: hex_plain.simps [of n])
  next
    case False
    then have "w \<noteq> 0" using Suc.prems by (cases w) auto
    moreover have "n div 16 < 16 ^ w" using Suc.prems(1) by (simp add: less_mult_imp_div_less mult.commute)
    ultimately show ?thesis using Suc.IH [of "n div 16"] False by (simp add: hex_plain.simps [of n])
  qed
qed simp

lemma length_dec_plain: "n < 10 ^ w \<Longrightarrow> 0 < w \<Longrightarrow> length (dec_plain n) \<le> w"
proof (induction w arbitrary: n)
  case (Suc w)
  show ?case
  proof (cases "n < 10")
    case True
    then show ?thesis by (simp add: dec_plain.simps [of n])
  next
    case False
    then have "w \<noteq> 0" using Suc.prems by (cases w) auto
    moreover have "n div 10 < 10 ^ w" using Suc.prems(1) by (simp add: less_mult_imp_div_less mult.commute)
    ultimately show ?thesis using Suc.IH [of "n div 10"] False by (simp add: dec_plain.simps [of n])
  qed
qed simp

text \<open>Reading hexadecimal digits back.\<close>

lemma hex_digits_from_append:
  "hex_digits_from a (s @ t) = (case hex_digits_from a s of None \<Rightarrow> None | Some b \<Rightarrow> hex_digits_from b t)"
  by (induction s arbitrary: a) (auto split: option.splits)

lemma push4_or:
  assumes "d < 16"
  shows "push_bit 4 (of_nat a :: u64) OR ucast (of_nat d :: u8) = of_nat (a * 16 + d)"
proof -
  have u: "(ucast (of_nat d :: u8) :: u64) = of_nat d"
    using assms by (simp add: word_unat_eq_iff unat_ucast_up unsigned_of_nat take_bit_nat_eq_self)
  have "unat (of_nat d :: u64) < 2 ^ 4" using assms by (simp add: unsigned_of_nat take_bit_nat_eq_self)
  then have "take_bit 4 (of_nat d :: u64) = of_nat d" by (rule take_bit_word_small)
  then have "push_bit 4 (of_nat a :: u64) AND of_nat d = 0"
    by (metis (no_types, lifting) bit_eq_iff bit_and_iff bit_push_bit_iff bit_take_bit_iff bit_0_eq bot_apply bot_bool_def not_le)
  then have "push_bit 4 (of_nat a :: u64) OR of_nat d = push_bit 4 (of_nat a) + of_nat d"
    by (simp add: disjunctive_add_eq_or)
  then show ?thesis unfolding u by (simp add: push_bit_eq_mult)
qed

lemma hex_digits_zeros: "hex_digits_from 0 (replicate n (CHR ''0'')) = Some 0"
proof -
  have "hex_nibble (CHR ''0'') = Some 0" by (simp add: hex_nibble_def char_code_def)
  then show ?thesis by (induction n) simp_all
qed

lemma hex_digits_plain: "hex_digits_from 0 (hex_plain n) = Some (of_nat n)"
proof (induction n rule: less_induct)
  case (less n)
  show ?case
  proof (cases "n < 16")
    case True
    then show ?thesis using push4_or [of n 0] by (simp add: hex_plain.simps [of n])
  next
    case False
    have "hex_digits_from 0 (hex_plain n) = hex_digits_from (of_nat (n div 16)) [hex_digit (n mod 16)]"
      using False less.IH [of "n div 16"] by (simp add: hex_plain.simps [of n] hex_digits_from_append)
    also have "\<dots> = Some (of_nat (n div 16 * 16 + n mod 16))" by (simp add: push4_or del: div_mult_mod_eq)
    finally show ?thesis by simp
  qed
qed

lemma parse_hex_padded:
  assumes "length (pad_zero w (hex_plain n)) \<le> 16"
  shows "parse_hex (pad_zero w (hex_plain n)) = Some (of_nat n)"
  using assms hex_plain_Cons [of n]
  by (auto simp: parse_hex_def pad_zero_def hex_digits_from_append hex_digits_zeros hex_digits_plain)

lemma length_pad_zero: "length (pad_zero w s) = max w (length s)"
  by (simp add: pad_zero_def)

text \<open>Bytes.\<close>

lemma bit_0x0F: "n < 8 \<Longrightarrow> bit (0x0F :: u8) n \<longleftrightarrow> n < 4"
proof -
  assume "n < 8"
  then have "n \<in> {0, 1, 2, 3, 4, 5, 6, 7}" by auto
  then show ?thesis by (auto simp: bit_iff_odd)
qed

lemma nibbles_byte: "push_bit 4 (drop_bit 4 b) OR (b AND 0x0F) = (b :: u8)"
proof (rule bit_word_eqI)
  fix n assume "n < LENGTH(8)"
  then show "bit (push_bit 4 (drop_bit 4 b) OR (b AND 0x0F)) n = bit b n"
    using bit_0x0F [of n] by (auto simp: bit_simps)
qed

lemma byte_nibbles [simp]: "unat (drop_bit 4 (b :: u8)) < 16" "unat (b AND 0x0F :: u8) < 16"
proof -
  have "unat b < 256" using unat_less_exp [of b] by simp
  then have "unat b div 16 < 16" by (simp add: less_mult_imp_div_less)
  then show "unat (drop_bit 4 b) < 16" by (simp add: drop_bit_eq_div unat_div)
  have "b AND 0x0F \<le> 0x0F" by (rule word_and_le1)
  then show "unat (b AND 0x0F) < 16" by (simp add: word_le_nat_alt)
qed

lemma hex_pairs_to_hex: "hex_pairs (to_hex bs False) = Some bs"
  by (induction bs) (simp_all add: nibbles_byte)

lemma length_to_hex: "length (to_hex bs False) = 2 * length bs"
  by (induction bs) simp_all

lemma parse_hex_bytes_to_hex: "length bs \<le> m \<Longrightarrow> parse_hex_bytes (to_hex bs False) m = Some bs"
  by (simp add: parse_hex_bytes_def length_to_hex hex_pairs_to_hex)

lemma to_hex_digits: "c \<in> set (to_hex bs sp) \<Longrightarrow> c = CHR '' '' \<or> hex_char c"
  by (induction bs) (auto split: if_splits)

lemma to_hex_solid: "c \<in> set (to_hex bs False) \<Longrightarrow> hex_char c"
  by (induction bs) auto

subsection \<open>Time stamps\<close>

lemma read_whole_append:
  "(\<forall>c\<in>set ds. is_dec c) \<Longrightarrow> read_whole w (ds @ rest) = read_whole (fst (read_whole w ds)) rest"
  by (induction ds arbitrary: w) simp_all

lemma read_whole_snd: "(\<forall>c\<in>set ds. is_dec c) \<Longrightarrow> snd (read_whole w ds) = []"
  by (induction ds arbitrary: w) simp_all

lemma read_whole_plain: "read_whole 0 (dec_plain n) = (of_nat n, [])"
proof (induction n rule: less_induct)
  case (less n)
  show ?case
  proof (cases "n < 10")
    case True
    then show ?thesis by (simp add: dec_plain.simps [of n])
  next
    case False
    have "read_whole 0 (dec_plain n) = read_whole (of_nat (n div 10)) [dec_digit (n mod 10)]"
      using False less.IH [of "n div 10"] dec_plain_dec by (simp add: dec_plain.simps [of n] read_whole_append)
    also have "\<dots> = (of_nat (n div 10) * 10 + of_nat (n mod 10), [])" by simp
    also have "\<dots> = (of_nat (n div 10 * 10 + n mod 10), [])" by (simp only: of_nat_add of_nat_mult of_nat_numeral)
    finally show ?thesis by (simp only: div_mult_mod_eq)
  qed
qed

lemma read_whole_stop: "rest \<noteq> [] \<Longrightarrow> \<not> is_dec (hd rest) \<Longrightarrow> read_whole w rest = (w, rest)"
  by (cases rest) simp_all

lemma pad_dec: "m < 10 ^ w \<Longrightarrow> 0 < w \<Longrightarrow> pad_zero w (dec_plain m) = dec_fixed w m"
proof (induction w arbitrary: m)
  case (Suc w)
  show ?case
  proof (cases "m < 10")
    case True
    have zeros: "dec_fixed v 0 = replicate v (CHR ''0'')" for v
      by (induction v) (simp_all add: dec_digit_def replicate_append_same)
    show ?thesis using True by (simp add: pad_zero_def dec_plain.simps [of m] zeros replicate_app_Cons_same flip: replicate_append_same)
  next
    case False
    then have "w \<noteq> 0" using Suc.prems by (cases w) auto
    moreover have less: "m div 10 < 10 ^ w" using Suc.prems(1) by (simp add: less_mult_imp_div_less mult.commute)
    moreover have "length (dec_plain (m div 10)) \<le> w" using less \<open>w \<noteq> 0\<close> by (intro length_dec_plain) simp_all
    ultimately show ?thesis using Suc.IH [of "m div 10"] False by (simp add: pad_zero_def dec_plain.simps [of m])
  qed
qed simp

lemma read_fraction_digit:
  "d < 10 \<Longrightarrow> scale \<noteq> 0 \<Longrightarrow> read_fraction scale fr (dec_digit d # cs) = read_fraction (scale div 10) (fr + of_nat d * scale) cs"
  by simp

lemma six_digits:
  fixes m :: nat
  assumes "m < 1000000"
  shows "m * 1000 = m div 10 div 10 div 10 div 10 div 10 mod 10 * 100000000 + m div 10 div 10 div 10 div 10 mod 10 * 10000000 +
    m div 10 div 10 div 10 mod 10 * 1000000 + m div 10 div 10 mod 10 * 100000 + m div 10 mod 10 * 10000 + m mod 10 * 1000"
proof -
  have "m div 10 div 10 div 10 div 10 div 10 < 10" using assms by (simp add: less_mult_imp_div_less)
  note last = mod_less [OF this]
  have e: "x = x div 10 * 10 + x mod 10" for x :: nat by simp
  show ?thesis
    using e [of m] e [of "m div 10"] e [of "m div 10 div 10"] e [of "m div 10 div 10 div 10"]
      e [of "m div 10 div 10 div 10 div 10"] last by linarith
qed

lemma read_fraction_six:
  assumes "m < 1000000"
  shows "read_fraction 100000000 0 (dec_fixed 6 m) = (of_nat (m * 1000), [])"
proof -
  have six: "(6 :: nat) = Suc (Suc (Suc (Suc (Suc (Suc 0)))))" by simp
  have digits: "dec_fixed 6 m = [dec_digit (m div 10 div 10 div 10 div 10 div 10 mod 10), dec_digit (m div 10 div 10 div 10 div 10 mod 10),
      dec_digit (m div 10 div 10 div 10 mod 10), dec_digit (m div 10 div 10 mod 10), dec_digit (m div 10 mod 10), dec_digit (m mod 10)]"
    by (simp only: six dec_fixed.simps append_Nil append_Cons)
  have lt: "x mod 10 < 10" for x :: nat by simp
  have s: "(100000000 :: u64) div 10 = 10000000" "(10000000 :: u64) div 10 = 1000000" "(1000000 :: u64) div 10 = 100000"
    "(100000 :: u64) div 10 = 10000" "(10000 :: u64) div 10 = 1000" by simp_all
  have nz: "(100000000 :: u64) \<noteq> 0" "(10000000 :: u64) \<noteq> 0" "(1000000 :: u64) \<noteq> 0"
    "(100000 :: u64) \<noteq> 0" "(10000 :: u64) \<noteq> 0" "(1000 :: u64) \<noteq> 0" by simp_all
  show ?thesis unfolding digits six_digits [OF assms] of_nat_add of_nat_mult
    by (simp only: read_fraction_digit [OF lt] s nz not_False_eq_True read_fraction.simps(1) add_0_left of_nat_numeral)
qed

lemma stamp_read_back: "parse_seconds_to_ns (format_stamp ns) = Some (ns div 1000 * 1000)"
proof -
  let ?n = "unat ns"
  let ?w = "unat (ns div 1000000000)" and ?m = "unat ((ns mod 1000000000) div 1000)"
  have w: "?w = ?n div 1000000000" and m: "?m = ?n mod 1000000000 div 1000"
    by (simp_all add: unat_div unat_mod)
  have m6: "?m < 1000000" unfolding m by (simp add: less_mult_imp_div_less)
  have frac: "pad_zero 6 (dec_plain ?m) = dec_fixed 6 ?m" using m6 by (intro pad_dec) simp_all
  have dot: "\<not> is_dec (CHR ''.'')" by (simp add: is_dec_def char_code_def)
  have "read_whole 0 (format_stamp ns) = (of_nat ?w, ''.'' @ dec_fixed 6 ?m)"
    unfolding format_stamp_def frac using dot dec_plain_dec
    by (simp add: read_whole_append read_whole_plain read_whole_stop)
  moreover have "length (format_stamp ns) > length (''.'' @ dec_fixed 6 ?m)"
    unfolding format_stamp_def frac using dec_plain_Cons [of ?w] by auto
  ultimately have "parse_seconds_to_ns (format_stamp ns) = Some (of_nat ?w * 1000000000 + of_nat (?m * 1000))"
    by (simp add: parse_seconds_to_ns_def read_fraction_six [OF m6] del: of_nat_mult)
  also have "of_nat ?w * 1000000000 + of_nat (?m * 1000) = (of_nat (?w * 1000000000 + ?m * 1000) :: u64)" by simp
  also have "?w * 1000000000 + ?m * 1000 = ?n div 1000 * 1000"
  proof -
    have "?n div 1000 = ?n div 1000000000 * 1000000 + ?n mod 1000000000 div 1000"
    proof -
      have "?n = ?n div 1000000000 * 1000000 * 1000 + ?n mod 1000000000" by simp
      then show ?thesis by (metis add.commute div_mult_self3 zero_neq_numeral)
    qed
    then show ?thesis unfolding w m by simp
  qed
  also have "(of_nat (?n div 1000 * 1000) :: u64) = ns div 1000 * 1000"
    by (simp add: word_arith_nat_div [of ns])
  finally show ?thesis .
qed

end
