(* ===== verification/LogFormat_Files.thy ===== *)
theory LogFormat_Files
  imports LogFormat_Laws
begin

text \<open>
  Trace files as a whole: the records written to a candump or an ASC file are the ones read back.
\<close>

subsection \<open>Words of a line\<close>

definition solid :: "string \<Rightarrow> bool" where
  "solid w \<longleftrightarrow> w \<noteq> [] \<and> (\<forall>c\<in>set w. \<not> blank c)"

lemma split_Nil [simp]: "split_whitespace [] = []"
  by (simp add: split_whitespace.simps)

lemma split_blank [simp]: "blank c \<Longrightarrow> split_whitespace (c # s) = split_whitespace s"
  by (subst (1 2) split_whitespace.simps) (simp add: Let_def)

lemma solid_hd: "solid w \<Longrightarrow> dropWhile blank (w @ s) = w @ s"
  by (cases w) (simp_all add: solid_def)

lemma solid_while: "solid w \<Longrightarrow> takeWhile (\<lambda>c. \<not> blank c) w = w \<and> dropWhile (\<lambda>c. \<not> blank c) w = []"
  by (simp add: solid_def)

lemma split_word: "solid w \<Longrightarrow> blank c \<Longrightarrow> split_whitespace (w @ c # s) = w # split_whitespace s"
proof -
  assume w: "solid w" and c: "blank c"
  have "takeWhile (\<lambda>c. \<not> blank c) (w @ c # s) = w" "dropWhile (\<lambda>c. \<not> blank c) (w @ c # s) = c # s"
    using w c by (simp_all add: solid_def takeWhile_append2 dropWhile_append2)
  moreover have "w \<noteq> []" using w by (simp add: solid_def)
  ultimately show ?thesis using c solid_hd [OF w, of "c # s"] by (subst split_whitespace.simps) (simp add: Let_def)
qed

lemma split_last_word: "solid w \<Longrightarrow> split_whitespace w = [w]"
proof -
  assume w: "solid w"
  have e: "dropWhile blank w = w" "w \<noteq> []" using solid_hd [OF w, of "[]"] w by (simp_all add: solid_def)
  show ?thesis
    by (simp only: split_whitespace.simps [of w] Let_def e solid_while [OF w] if_False split_Nil)
qed

lemma split_end_blank: "blank c \<Longrightarrow> split_whitespace (s @ [c]) = split_whitespace s"
proof (induction "length s" arbitrary: s rule: less_induct)
  case less
  let ?t = "dropWhile blank s"
  show ?case
  proof (cases "?t = []")
    case True
    then have "dropWhile blank (s @ [c]) = []" using less.prems by (simp add: dropWhile_eq_Nil_conv)
    then show ?thesis unfolding split_whitespace.simps [of s] split_whitespace.simps [of "s @ [c]"] using True by (simp add: Let_def)
  next
    case False
    have t: "dropWhile blank (s @ [c]) = ?t @ [c]"
      using False by (simp add: dropWhile_append dropWhile_eq_Nil_conv)
    have "\<not> blank (hd ?t)" using False by (rule hd_dropWhile)
    then have shorter: "length (dropWhile (\<lambda>c. \<not> blank c) ?t) < length s"
      using False length_dropWhile_le [of "\<lambda>c. \<not> blank c" "tl ?t"] length_dropWhile_le [of blank s]
      by (cases ?t) auto
    show ?thesis
    proof (cases "\<exists>x\<in>set ?t. blank x")
      case True
      then have "takeWhile (\<lambda>c. \<not> blank c) (?t @ [c]) = takeWhile (\<lambda>c. \<not> blank c) ?t"
        "dropWhile (\<lambda>c. \<not> blank c) (?t @ [c]) = dropWhile (\<lambda>c. \<not> blank c) ?t @ [c]"
        by (auto simp: takeWhile_append dropWhile_append)
      then show ?thesis unfolding split_whitespace.simps [of s] split_whitespace.simps [of "s @ [c]"] t
        using False less.hyps [OF shorter less.prems] by (simp add: Let_def)
    next
      case none: False
      then have w: "takeWhile (\<lambda>c. \<not> blank c) (?t @ [c]) = ?t" "dropWhile (\<lambda>c. \<not> blank c) (?t @ [c]) = [c]"
        "takeWhile (\<lambda>c. \<not> blank c) ?t = ?t" "dropWhile (\<lambda>c. \<not> blank c) ?t = []"
        using less.prems by (simp_all add: takeWhile_append dropWhile_append)
      show ?thesis unfolding split_whitespace.simps [of s] split_whitespace.simps [of "s @ [c]"] t Let_def w
        using False less.prems by simp
    qed
  qed
qed

lemma split_drop_front: "CHR 0x0D \<notin> set s \<Longrightarrow> split_whitespace (dropWhile trimmable s) = split_whitespace s"
  by (induction s) (auto simp: trimmable_def blank_def)

lemma split_drop_back: "CHR 0x0D \<notin> set s \<Longrightarrow> split_whitespace (rev (dropWhile trimmable (rev s))) = split_whitespace s"
proof (induction s rule: rev_induct)
  case (snoc c s)
  show ?case
  proof (cases "trimmable c")
    case True
    then have "blank c" using snoc.prems by (auto simp: trimmable_def blank_def)
    then show ?thesis using snoc True by (simp add: split_end_blank)
  qed simp
qed simp

lemma split_trim: "CHR 0x0D \<notin> set s \<Longrightarrow> split_whitespace (trim s) = split_whitespace s"
proof -
  assume s: "CHR 0x0D \<notin> set s"
  then have "CHR 0x0D \<notin> set (dropWhile trimmable s)" using set_dropWhileD [of "CHR 0x0D" trimmable s] by blast
  then show ?thesis unfolding trim_def using split_drop_back split_drop_front [OF s] by simp
qed

lemma set_trim: "c \<in> set (trim s) \<Longrightarrow> c \<in> set s"
  by (auto simp: trim_def dest!: set_dropWhileD)

lemma trim_hd:
  assumes "s \<noteq> []" and "\<not> trimmable (hd s)"
  shows "trim s \<noteq> [] \<and> hd (trim s) = hd s"
proof -
  have d: "dropWhile trimmable s = s" using assms by (cases s) simp_all
  obtain c t where s: "s = c # t" using assms(1) by (cases s) auto
  have "trim s = c # rev (dropWhile trimmable (rev t))"
  proof -
    have "dropWhile trimmable (rev t @ [c]) = dropWhile trimmable (rev t) @ [c]"
      using assms(2) s by (auto simp: dropWhile_append dropWhile_eq_Nil_conv)
    then show ?thesis unfolding trim_def d using s by simp
  qed
  then show ?thesis using s by simp
qed

text \<open>Characters that digits never are.\<close>

lemma hex_char_cases: "hex_char c \<Longrightarrow> c \<in> set ''0123456789ABCDEF''"
  using nth_mem [of _ "''0123456789ABCDEF''"] by (auto simp: hex_char_def hex_digit_def simp del: nth_mem list.set)

lemma hex_char_plain:
  assumes "hex_char c"
  shows "\<not> blank c" "\<not> trimmable c" "c \<noteq> CHR ''#''" "c \<noteq> CHR ''R''" "c \<noteq> CHR ''r''" "c \<noteq> CHR ''x''" "c \<noteq> CHR ''X''"
    "c \<noteq> CHR 0x0A" "c \<noteq> CHR 0x0D" "c \<noteq> CHR ''('' " "c \<noteq> CHR '')'' "
  using hex_char_cases [OF assms] by (auto simp: blank_def trimmable_def)

lemma is_dec_hex: "is_dec c \<Longrightarrow> hex_char c"
proof -
  assume "is_dec c"
  then have n: "char_code c - 48 < 10" "48 \<le> char_code c" unfolding is_dec_def by linarith+
  have "char_code (dec_digit (char_code c - 48)) = char_code c" using n by simp
  then have "dec_digit (char_code c - 48) = c" unfolding char_code_def by (metis char_of_char)
  then show ?thesis using n(1) hex_dec_digit [of "char_code c - 48"] hex_char_digit [of "char_code c - 48"] by simp
qed

lemma dec_plain_hex: "c \<in> set (dec_plain n) \<Longrightarrow> hex_char c"
  by (rule is_dec_hex [OF dec_plain_dec])

lemma pad_zero_hex: "(\<forall>c\<in>set s. hex_char c) \<Longrightarrow> c \<in> set (pad_zero w s) \<Longrightarrow> hex_char c"
  using hex_char_digit [of 0] by (auto simp: pad_zero_def hex_digit_def)

lemma dec_plain_nonempty [simp]: "dec_plain n \<noteq> []"
  using dec_plain_Cons [of n] by auto

lemma hex_plain_nonempty [simp]: "hex_plain n \<noteq> []"
  using hex_plain_Cons [of n] by auto

lemma stamp_chars: "c \<in> set (format_stamp ns) \<Longrightarrow> hex_char c \<or> c = CHR ''.''"
  unfolding format_stamp_def using dec_plain_hex pad_zero_hex [of "dec_plain _"] by auto

lemma stamp_nonempty [simp]: "format_stamp ns \<noteq> []"
  by (simp add: format_stamp_def)

subsection \<open>Rebuilding a frame from its text\<close>

lemma id_value_ext: "id_value i AND 0x1FFFFFFF = id_value i"
  by (simp add: id_value_def kExtendedIdMax_def and.assoc)

lemma extended_back: "wf_id i \<Longrightarrow> is_extended i \<Longrightarrow> extended_id (id_value i) = Inr i"
  using id_value_less [of i]
  by (cases i) (auto simp: extended_id_def wf_id_def make_id_def kExtendedIdMax_def word_less_nat_alt)

lemma standard_back: "wf_id i \<Longrightarrow> \<not> is_extended i \<Longrightarrow> standard_id (id_value i) = Inr i"
  using wf_id_std [of i]
  by (cases i) (auto simp: standard_id_def make_id_def kStandardIdMax_def word_less_nat_alt)

lemma dlc_determined:
  assumes "unat a \<le> 15" "unat b \<le> 15" "fd \<or> unat a \<le> 8 \<and> unat b \<le> 8" "dlc_to_length a fd = dlc_to_length b fd"
  shows "a = b"
proof (cases fd)
  case True
  have "distinct kFdDlcToLength" "length kFdDlcToLength = 16" by (simp_all add: kFdDlcToLength_def)
  moreover have "kFdDlcToLength ! unat a = kFdDlcToLength ! unat b"
    using assms(1,2,4) True by (simp add: dlc_to_length_def word_less_nat_alt)
  ultimately have "unat a = unat b" using assms(1,2) nth_eq_iff_index_eq [of kFdDlcToLength "unat a" "unat b"] by simp
  then show ?thesis by (simp add: word_unat_eq_iff)
next
  case False
  then show ?thesis using assms by (simp add: dlc_to_length_def word_less_nat_alt split: if_splits)
qed

lemma unat_of_nat_u8: "n < 256 \<Longrightarrow> unat (of_nat n :: u8) = n"
  by (simp add: unsigned_of_nat take_bit_nat_eq_self)

lemma make_frame_dlc:
  assumes "make_frame_of cap i src len fl ts = Inr g"
  shows "\<exists>fit. length_to_dlc len (has_flag fl flag_fd) = Inr fit \<and> frame_dlc g = fit_dlc fit"
  using assms by (rule make_frame_Inr) (intro exI conjI, assumption, simp only: frame.simps)

lemma rebuild_frame:
  assumes "wf_frame 64 f" and "\<not> is_remote f" and "\<not> is_fd f \<Longrightarrow> frame_dlc f \<le> 8"
  shows "\<exists>g. make_frame_of 64 (frame_id f) (Some (payload_of f)) (frame_size f) (frame_flags f) ts = Inr g \<and>
    frame_eq g f \<and> timestamp_ns g = ts \<and> wf_frame 64 g"
proof -
  have dlc: "unat (frame_dlc f) \<le> 15" "\<not> is_fd f \<Longrightarrow> unat (frame_dlc f) \<le> 8" and len: "length (frame_data f) = 64"
    and v: "validate_flags 64 (frame_flags f) = ok" and s64: "frame_size f \<le> 64"
    using assms by (simp_all add: wf_frame_def word_le_nat_alt)
  have size: "frame_size f = unat (dlc_to_length (frame_dlc f) (is_fd f))" using assms(2) by (simp add: frame_size_def)
  have fdsize: "of_nat (frame_size f) \<in> set kFdDlcToLength" if "is_fd f"
  proof -
    have "dlc_to_length (frame_dlc f) True = kFdDlcToLength ! unat (frame_dlc f)"
      using dlc(1) by (simp add: dlc_to_length_def word_less_nat_alt)
    moreover have "unat (frame_dlc f) < length kFdDlcToLength" using dlc(1) by (simp add: kFdDlcToLength_def)
    moreover have "of_nat (frame_size f) = dlc_to_length (frame_dlc f) True" using size that by simp
    ultimately show ?thesis using nth_mem by metis
  qed
  have classic: "frame_size f \<le> 8" if "\<not> is_fd f"
    using size that dlc(2) by (simp add: dlc_to_length_def word_less_nat_alt split: if_splits)
  have "make_ok 64 (frame_size f) (frame_flags f)"
    using v s64 fdsize classic assms(2) by (auto simp: make_ok_def is_fd_def is_remote_def)
  then obtain g where g: "make_frame_of 64 (frame_id f) (Some (payload_of f)) (frame_size f) (frame_flags f) ts = Inr g"
    using make_frame_accepts by blast
  have "frame_size f \<le> length (payload_of f)" using len s64 by (simp add: payload_of_def)
  note b = make_frame_builds [OF g this]
  have fl: "is_fd g = is_fd f" "is_remote g = is_remote f" using b by (simp_all add: is_fd_def is_remote_def)
  then have same: "dlc_to_length (frame_dlc g) (is_fd f) = dlc_to_length (frame_dlc f) (is_fd f)"
    using b size assms(2) by (simp add: frame_size_def word_unat_eq_iff)
  have c8: "unat (frame_dlc g) \<le> 8" if n: "\<not> is_fd f"
  proof -
    obtain fit where "length_to_dlc (frame_size f) (has_flag (frame_flags f) flag_fd) = Inr fit" "frame_dlc g = fit_dlc fit"
      using make_frame_dlc [OF g] by blast
    then have fit: "length_to_dlc (frame_size f) False = Inr fit" "frame_dlc g = fit_dlc fit"
      using n by (simp_all add: is_fd_def)
    have "length_to_dlc (frame_size f) False = Inr \<lparr>fit_dlc = of_nat (frame_size f), fit_length = of_nat (frame_size f), fit_padding = 0\<rparr>"
      using classic [OF n] by (simp add: length_to_dlc_def)
    then have "frame_dlc g = of_nat (frame_size f)" using fit by simp
    moreover have "unat (of_nat (frame_size f) :: u8) = frame_size f" using classic [OF n] by (intro unat_of_nat_u8) simp
    ultimately show ?thesis using classic [OF n] by (simp only:)
  qed
  have "unat (frame_dlc g) \<le> 15" using b by (simp add: wf_frame_def word_le_nat_alt)
  then have dl: "frame_dlc g = frame_dlc f" using dlc_determined [OF _ dlc(1) _ same] dlc(2) c8 by blast
  have sz: "frame_size g = frame_size f" and pay: "payload_of g = take (frame_size f) (payload_of f)" using b by blast+
  have "take (frame_size g) (frame_data g) = take (frame_size g) (frame_data f)"
    using pay unfolding payload_of_def sz by simp
  then show ?thesis using g b dl by (auto simp: frame_eq_def)
qed

subsection \<open>The candump line\<close>

text \<open>What a log can carry: the flags the writer prints, a channel that is one word. An error frame needs an
  extended identifier, which is how its marker is printed.\<close>

definition flags_printed :: "frame \<Rightarrow> bool" where
  "flags_printed f \<longleftrightarrow>
     (if is_remote f then frame_flags f = flag_rtr \<and> frame_dlc f \<le> 8
      else frame_flags f = (if is_fd f then flag_fd OR (if is_brs f then flag_brs else 0) OR (if is_esi f then flag_esi else 0)
                            else flag_none) OR (if is_error_frame f then flag_error else 0) \<and>
        (\<not> is_fd f \<longrightarrow> frame_dlc f \<le> 8))"

definition plain_channel :: "string \<Rightarrow> bool" where
  "plain_channel ch \<longleftrightarrow> ch \<noteq> [] \<and> (\<forall>c\<in>set ch. c \<notin> {CHR '' '', CHR 0x09, CHR 0x0A, CHR 0x0D})"

definition loggable :: "log_format \<Rightarrow> log_record \<Rightarrow> bool" where
  "loggable fmt r \<longleftrightarrow>
     wf_frame 64 (lr_frame r) \<and> wf_id (frame_id (lr_frame r)) \<and> flags_printed (lr_frame r) \<and> plain_channel (lr_channel r) \<and>
     (if fmt = Asc then \<not> is_error_frame (lr_frame r) \<and> lr_channel r \<noteq> ''CANFD''
      else (is_error_frame (lr_frame r) \<longrightarrow> is_extended (frame_id (lr_frame r))) \<and> lr_is_rx r)"

definition same_record :: "log_record \<Rightarrow> log_record \<Rightarrow> bool" where
  "same_record r s \<longleftrightarrow> frame_eq (lr_frame s) (lr_frame r) \<and>
     timestamp_ns (lr_frame s) = timestamp_ns (lr_frame r) div 1000 * 1000 \<and>
     lr_channel s = lr_channel r \<and> lr_is_rx s = lr_is_rx r \<and> wf_frame 64 (lr_frame s)"

lemma channel_solid: "plain_channel ch \<Longrightarrow> solid ch"
  by (auto simp: plain_channel_def solid_def blank_def)

lemma word_32_64: "of_nat (unat (w :: u32)) = (ucast w :: u64)"
  by simp

lemma ucast_back: "(ucast (ucast (w :: u32) :: u64) :: u32) = w"
  by (rule bit_word_eqI) (auto simp: bit_simps)

text \<open>The identifier field.\<close>

definition id_field :: "frame \<Rightarrow> string" where
  "id_field f = pad_zero (if is_extended (frame_id f) \<or> is_error_frame f then 8 else 3)
     (hex_plain (unat (if is_error_frame f then id_value (frame_id f) OR 0x20000000 else id_value (frame_id f))))"

lemma id_field_hex: "c \<in> set (id_field f) \<Longrightarrow> hex_char c"
  unfolding id_field_def by (rule pad_zero_hex) (auto dest: hex_plain_digits)

lemma id_field_length:
  assumes "wf_id (frame_id f)"
  shows "length (id_field f) = (if is_extended (frame_id f) \<or> is_error_frame f then 8 else 3)"
proof -
  have "unat w < 16 ^ 8" for w :: u32 using unat_less_exp [of w] by simp
  then have l8: "length (hex_plain (unat w)) \<le> 8" for w :: u32 by (intro length_hex_plain) simp_all
  have "unat (id_value (frame_id f)) < 16 ^ 3" if "\<not> is_extended (frame_id f)"
    using conjunct1 [OF wf_id_std [OF assms that]] by simp
  then have "length (hex_plain (unat (id_value (frame_id f)))) \<le> 3" if "\<not> is_extended (frame_id f)"
    using that by (intro length_hex_plain) simp_all
  then show ?thesis using l8 by (auto simp: id_field_def length_pad_zero)
qed

lemma id_field_parse:
  assumes "wf_id (frame_id f)"
  shows "parse_hex (id_field f) = Some (ucast (if is_error_frame f then id_value (frame_id f) OR 0x20000000 else id_value (frame_id f)))"
proof -
  have "length (id_field f) \<le> 16" using id_field_length [OF assms] by simp
  then show ?thesis unfolding id_field_def by (subst parse_hex_padded) simp_all
qed

lemma bit_err32 [simp]: "bit (0x20000000 :: u32) n \<longleftrightarrow> n = 29"
proof -
  have "(0x20000000 :: u32) = 2 ^ 29" by simp
  then show ?thesis using bit_exp_iff [of 29 n, where 'a = u32] by (simp only:) auto
qed

lemma bit_err64 [simp]: "bit kErrFlag n \<longleftrightarrow> n = 29"
proof -
  have "kErrFlag = 2 ^ 29" by (simp add: kErrFlag_def)
  then show ?thesis using bit_exp_iff [of 29 n, where 'a = u64] by (simp only:) auto
qed

lemma mask29_numeral: "(0x1FFFFFFF :: u32) = Bit_Operations.mask 29"
  by (simp add: mask_eq_exp_minus_1)

lemma id_value_no_err: "\<not> bit (id_value i) 29"
  by (simp add: id_value_take bit_take_bit_iff)

lemma marked_id: "(id_value i OR 0x20000000) AND 0x1FFFFFFF = id_value i"
proof (rule bit_word_eqI)
  fix n
  show "bit ((id_value i OR 0x20000000) AND 0x1FFFFFFF) n = bit (id_value i) n"
    unfolding mask29_numeral bit_and_iff bit_or_iff bit_err32 bit_mask_iff id_value_take bit_take_bit_iff by auto
qed

lemma marked_flag: "(ucast (if e then id_value i OR 0x20000000 else id_value i) :: u64) AND kErrFlag \<noteq> 0 \<longleftrightarrow> e"
proof -
  have "(x :: u64) AND kErrFlag \<noteq> 0 \<longleftrightarrow> bit x 29" for x
  proof -
    have "kErrFlag = 2 ^ 29" by (simp add: kErrFlag_def)
    then show ?thesis using and_exp_eq_0_iff_not_bit [of x 29] by (simp only:) simp
  qed
  moreover have "bit (ucast (id_value i OR 0x20000000) :: u64) 29" "\<not> bit (ucast (id_value i) :: u64) 29"
    using id_value_no_err [of i] by (auto simp: bit_ucast_iff bit_or_iff)
  ultimately show ?thesis by auto
qed

lemma candump_body_parts:
  "format_candump_body f = id_field f @ CHR ''#'' #
     (if is_remote f then CHR ''R'' # dec_plain (unat (frame_dlc f))
      else (if is_fd f then CHR ''#'' # hex_plain (unat ((if is_brs f then 1 else 0 :: u32) OR (if is_esi f then 2 else 0))) else []) @
        to_hex (payload_of f) False)"
  by (simp add: format_candump_body_def id_field_def payload_of_def Let_def)

lemma split_at_hash:
  assumes "\<forall>c\<in>set i. c \<noteq> CHR ''#''"
  shows "takeWhile (\<lambda>c. c \<noteq> CHR ''#'') (i @ CHR ''#'' # r) = i" "tl (dropWhile (\<lambda>c. c \<noteq> CHR ''#'') (i @ CHR ''#'' # r)) = r"
  using assms by (simp_all add: takeWhile_append2 dropWhile_append2)

lemma remote_length_back:
  assumes "dlc \<le> 8"
  shows "parse_hex (dec_plain (unat (dlc :: u8))) = Some (ucast dlc)" and "dec_plain (unat dlc) \<noteq> []"
proof -
  have d: "unat dlc < 10" using assms by (simp add: word_le_nat_alt)
  then have "dec_plain (unat dlc) = [hex_digit (unat dlc)]" by (subst dec_plain.simps) (simp add: hex_dec_digit)
  then show "parse_hex (dec_plain (unat dlc)) = Some (ucast dlc)"
    using push4_or [of "unat dlc" 0] d by (simp add: parse_hex_def)
qed simp

lemma rebuild_remote:
  assumes "frame_flags f = flag_rtr" and "frame_dlc f \<le> 8"
  shows "\<exists>g. make_remote 64 (frame_id f) (frame_dlc f) ts = Inr g \<and> frame_eq g f \<and> timestamp_ns g = ts \<and> wf_frame 64 g"
  using assms by (auto simp: make_remote_def empty_frame_def frame_eq_def frame_size_def is_remote_def has_flag_def flag_defs
      wf_frame_def validate_flags_def word_le_nat_alt word_less_nat_alt)

lemma back8: "take_bit 64 (w :: u8) = w" "(ucast (ucast (w :: u8) :: u64) :: u8) = w"
  by (rule bit_word_eqI, auto simp: bit_simps)+

lemma fd_nibble_back:
  "fd_nibble (hex_plain (unat ((if brs then 1 else 0 :: u32) OR (if esi then 2 else 0))) @ rest) =
     Inr (flag_fd OR (if brs then flag_brs else 0) OR (if esi then flag_esi else 0), rest)"
  by (cases brs; cases esi) (simp_all add: hex_plain.simps fd_nibble_def)

lemma candump_body_back:
  assumes "wf_frame 64 f" "wf_id (frame_id f)" "flags_printed f" "is_error_frame f \<Longrightarrow> is_extended (frame_id f)"
  shows "\<exists>g. parse_candump_body (format_candump_body f) ts = Inr g \<and> frame_eq g f \<and> timestamp_ns g = ts \<and> wf_frame 64 g"
proof -
  let ?v = "if is_error_frame f then id_value (frame_id f) OR 0x20000000 else id_value (frame_id f)"
  let ?i = "id_field f" and ?raw = "ucast ?v :: u64"
  define rest where "rest = (if is_remote f then CHR ''R'' # dec_plain (unat (frame_dlc f))
      else (if is_fd f then CHR ''#'' # hex_plain (unat ((if is_brs f then 1 else 0 :: u32) OR (if is_esi f then 2 else 0))) else []) @
        to_hex (payload_of f) False)"
  have body: "format_candump_body f = ?i @ CHR ''#'' # rest" unfolding rest_def by (rule candump_body_parts)
  have "\<forall>c\<in>set ?i. c \<noteq> CHR ''#''" using id_field_hex hex_char_plain(3) by blast
  note sp = split_at_hash [OF this, of rest]
  have ext: "length ?i > 3 \<longleftrightarrow> is_extended (frame_id f)" "is_extended (frame_id f) \<Longrightarrow> length ?i = 8"
    using id_field_length [OF assms(2)] assms(4) by auto
  have idv: "(if is_extended (frame_id f) then extended_id (ucast ?raw AND 0x1FFFFFFF) else standard_id (ucast ?raw)) = Inr (frame_id f)"
    using extended_back [OF assms(2)] standard_back [OF assms(2)] assms(4)
    by (cases "is_error_frame f") (simp_all only: ucast_back marked_id id_value_ext if_True if_False if_cancel split: if_splits, simp_all)
  have err: "is_extended (frame_id f) \<and> ?raw AND kErrFlag \<noteq> 0 \<and> length ?i = 8 \<longleftrightarrow> is_error_frame f"
    unfolding marked_flag using ext(2) assms(4) by blast
  define head where "head = (if rest \<noteq> [] \<and> hd rest = CHR ''#'' then fd_nibble (tl rest) else Inr (flag_none, rest))"
  define finish where "finish = (\<lambda>(fl, rest').
     if rest' \<noteq> [] \<and> (hd rest' = CHR ''R'' \<or> hd rest' = CHR ''r'')
     then (case (if tl rest' = [] then Some 0 else parse_hex (tl rest')) of
             None \<Rightarrow> Inl (malformed ''the remote frame length is not a number'')
           | Some requested \<Rightarrow> make_remote 64 (frame_id f) (ucast requested) ts)
     else (case parse_hex_bytes rest' 64 of
             None \<Rightarrow> Inl (malformed ''the payload is not an even number of hex digits'')
           | Some payload \<Rightarrow>
               if \<not> (rest \<noteq> [] \<and> hd rest = CHR ''#'') \<and> length payload > 8
               then Inl (malformed ''a classic CAN frame cannot carry more than eight bytes'')
               else make_frame_of 64 (frame_id f) (Some payload) (length payload)
                      (if is_error_frame f then fl OR flag_error else fl) ts))"
  have parse: "parse_candump_body (format_candump_body f) ts = try_bind head finish"
    unfolding parse_candump_body_def body sp id_field_parse [OF assms(2)] option.case Let_def ext(1) err idv head_def finish_def try_bind_simps
    by (simp add: split_def)
  show ?thesis
  proof (cases "is_remote f")
    case True
    then have f: "frame_flags f = flag_rtr" "frame_dlc f \<le> 8" using assms(3) by (simp_all add: flags_printed_def)
    have "rest = CHR ''R'' # dec_plain (unat (frame_dlc f))" using True by (simp add: rest_def)
    then have "try_bind head finish = make_remote 64 (frame_id f) (frame_dlc f) ts"
      using remote_length_back [OF f(2)] by (simp add: head_def finish_def back8)
    then show ?thesis unfolding parse using rebuild_remote [OF f] by simp
  next
    case False
    have pay: "length (payload_of f) = frame_size f" "frame_size f \<le> 64" using assms(1) by (simp_all add: payload_of_def wf_frame_def)
    have parsed: "parse_hex_bytes (to_hex (payload_of f) False) 64 = Some (payload_of f)"
      using pay by (intro parse_hex_bytes_to_hex) simp
    have noR: "\<not> (to_hex (payload_of f) False \<noteq> [] \<and> (hd (to_hex (payload_of f) False) = CHR ''R'' \<or> hd (to_hex (payload_of f) False) = CHR ''r''))"
      using to_hex_solid [of _ "payload_of f"] hex_char_plain(4,5) list.set_sel(1) by blast
    have noH: "\<not> (to_hex (payload_of f) False \<noteq> [] \<and> hd (to_hex (payload_of f) False) = CHR ''#'')"
      using to_hex_solid [of _ "payload_of f"] hex_char_plain(3) list.set_sel(1) by blast
    have small: "\<not> is_fd f \<Longrightarrow> frame_dlc f \<le> 8" using assms(3) False by (simp add: flags_printed_def)
    have s8: "frame_size f \<le> 8" if "\<not> is_fd f"
      using small [OF that] that False by (simp add: frame_size_def dlc_to_length_def word_less_nat_alt word_le_nat_alt)
    define base where "base = (if is_fd f then flag_fd OR (if is_brs f then flag_brs else 0) OR (if is_esi f then flag_esi else 0) else flag_none)"
    have fl: "(if is_error_frame f then base OR flag_error else base) = frame_flags f"
      using assms(3) False by (simp add: flags_printed_def base_def)
    have head: "head = Inr (base, to_hex (payload_of f) False)"
    proof (cases "is_fd f")
      case True
      then show ?thesis using False by (simp add: head_def rest_def fd_nibble_back base_def)
    next
      case n: False
      then have r: "rest = to_hex (payload_of f) False" using False by (simp add: rest_def)
      show ?thesis unfolding head_def base_def r if_not_P [OF noH] using n by simp
    qed
    have "(rest \<noteq> [] \<and> hd rest = CHR ''#'') = is_fd f"
      using False noH by (cases "is_fd f") (simp_all add: rest_def)
    then have "try_bind head finish = make_frame_of 64 (frame_id f) (Some (payload_of f)) (frame_size f) (frame_flags f) ts"
      unfolding head finish_def try_bind_simps prod.case if_not_P [OF noR] parsed option.case pay(1) fl using s8 by auto
    then show ?thesis unfolding parse using rebuild_frame [OF assms(1) False small] by simp
  qed
qed

text \<open>The line: its three words, and what no line feed or carriage return can disturb.\<close>

lemma candump_body_chars:
  "c \<in> set (format_candump_body f) \<Longrightarrow> hex_char c \<or> c = CHR ''#'' \<or> c = CHR ''R''"
  unfolding candump_body_parts using id_field_hex dec_plain_hex hex_plain_digits to_hex_solid by (auto split: if_splits)

text \<open>Neither blank nor the end of a line.\<close>

definition inner :: "char \<Rightarrow> bool" where
  "inner c \<longleftrightarrow> \<not> blank c \<and> c \<noteq> CHR 0x0A \<and> c \<noteq> CHR 0x0D"

lemma inner_hex: "hex_char c \<Longrightarrow> inner c"
  using hex_char_plain [of c] by (simp add: inner_def)

lemma inner_simps [simp]: "inner (CHR ''#'')" "inner (CHR ''R'')" "inner (CHR ''.'')" "inner (CHR ''('')" "inner (CHR '')'')"
  "inner (CHR ''x'')" "inner (CHR ''T'')" "inner (CHR ''d'')" "inner (CHR ''r'')" "inner (CHR ''0'')" "inner (CHR ''1'')"
  by (simp_all add: inner_def blank_def)

lemma stamp_inner: "c \<in> set (format_stamp ns) \<Longrightarrow> inner c"
  using stamp_chars inner_hex by fastforce

lemma candump_body_inner: "c \<in> set (format_candump_body f) \<Longrightarrow> inner c"
  using candump_body_chars inner_hex by fastforce

lemma channel_inner: "plain_channel ch \<Longrightarrow> c \<in> set ch \<Longrightarrow> inner c"
  by (auto simp: plain_channel_def inner_def blank_def)

lemma solidI: "w \<noteq> [] \<Longrightarrow> (\<And>c. c \<in> set w \<Longrightarrow> inner c) \<Longrightarrow> solid w"
  by (simp add: solid_def inner_def)

lemma blank_space [simp]: "blank (CHR '' '')"
  by (simp add: blank_def)

lemma stamp_paren_inner: "c \<in> set (''('' @ format_stamp ns @ '')'') \<Longrightarrow> inner c"
  using stamp_inner by auto

lemma candump_line_words:
  assumes "plain_channel (lr_channel r)"
  shows "split_whitespace (format_candump_line r) =
    [''('' @ format_stamp (timestamp_ns (lr_frame r)) @ '')'', lr_channel r, format_candump_body (lr_frame r)]"
proof -
  have s: "solid (''('' @ format_stamp ns @ '')'')" for ns by (rule solidI [OF _ stamp_paren_inner]) simp_all
  have body: "solid (format_candump_body (lr_frame r))"
    by (rule solidI [OF _ candump_body_inner]) (simp add: candump_body_parts, assumption)
  have "format_candump_line r = (''('' @ format_stamp (timestamp_ns (lr_frame r)) @ '')'') @ CHR '' '' #
      lr_channel r @ CHR '' '' # format_candump_body (lr_frame r)"
    by (simp add: format_candump_line_def)
  then show ?thesis
    using split_word [OF s blank_space] split_word [OF channel_solid [OF assms] blank_space] split_last_word [OF body] by simp
qed

lemma candump_line_chars:
  assumes "plain_channel (lr_channel r)"
  shows "CHR 0x0D \<notin> set (format_candump_line r)" "CHR 0x0A \<notin> set (format_candump_line r)"
    "format_candump_line r \<noteq> []" "hd (format_candump_line r) = CHR ''(''"
proof -
  have "inner c \<or> c = CHR '' ''" if "c \<in> set (format_candump_line r)" for c
    using that stamp_inner candump_body_inner channel_inner [OF assms] by (auto simp: format_candump_line_def)
  then show "CHR 0x0D \<notin> set (format_candump_line r)" "CHR 0x0A \<notin> set (format_candump_line r)"
    by (fastforce simp: inner_def)+
qed (simp_all add: format_candump_line_def)

lemma candump_line_back:
  assumes "loggable Candump r" "CHR 0x0D \<notin> set line" "line \<noteq> []" "hd line = CHR ''(''"
    "split_whitespace line = split_whitespace (format_candump_line r)"
  shows "\<exists>s. parse_candump_line line = Inr s \<and> same_record r s"
proof -
  let ?f = "lr_frame r" and ?st = "format_stamp (timestamp_ns (lr_frame r))"
  have ok: "plain_channel (lr_channel r)" "wf_frame 64 ?f" "wf_id (frame_id ?f)" "flags_printed ?f"
      "is_error_frame ?f \<Longrightarrow> is_extended (frame_id ?f)" "lr_is_rx r"
    using assms(1) by (auto simp: loggable_def)
  have t: "trim line \<noteq> []" "hd (trim line) = CHR ''(''"
    using trim_hd [OF assms(3)] assms(4) by (auto simp: trimmable_def)
  have w: "split_whitespace (trim line) = [''('' @ ?st @ '')'', lr_channel r, format_candump_body ?f]"
    using split_trim [OF assms(2)] assms(5) candump_line_words [OF ok(1)] by simp
  obtain g where g: "parse_candump_body (format_candump_body ?f) (timestamp_ns ?f div 1000 * 1000) = Inr g" "frame_eq g ?f"
      "timestamp_ns g = timestamp_ns ?f div 1000 * 1000" "wf_frame 64 g"
    using candump_body_back [OF ok(2-5)] by blast
  have "length (''('' @ ?st @ '')'') \<ge> 3" using stamp_nonempty [of "timestamp_ns ?f"] by (cases ?st) auto
  then have "parse_candump_line line = Inr (new_record\<lparr>lr_channel := lr_channel r, lr_frame := g\<rparr>)"
    using t g(1) stamp_read_back by (simp add: parse_candump_line_def w Let_def)
  then show ?thesis using g(2-4) ok(6) by (simp add: same_record_def new_record_def)
qed

subsection \<open>The ASC line\<close>

lemma digits_value_append:
  "(\<forall>c\<in>set s. digit_in base c \<noteq> None) \<Longrightarrow> digits_value base a (s @ t) = digits_value base (digits_value base a s) t"
  by (induction s arbitrary: a) (auto split: option.splits)

lemma digit_in_dec [simp]: "n < 10 \<Longrightarrow> 10 \<le> base \<Longrightarrow> digit_in base (dec_digit n) = Some n"
  by (simp add: digit_in_def hex_dec_digit [symmetric] unat_of_nat_u8)

lemma digit_in_plain: "c \<in> set (dec_plain n) \<Longrightarrow> digit_in 10 c \<noteq> None"
proof -
  assume "c \<in> set (dec_plain n)"
  then have c: "is_dec c" by (rule dec_plain_dec)
  then have n: "char_code c - 48 < 10" "48 \<le> char_code c" unfolding is_dec_def by linarith+
  have "char_code (dec_digit (char_code c - 48)) = char_code c" using n by simp
  then have "dec_digit (char_code c - 48) = c" unfolding char_code_def by (metis char_of_char)
  then show "digit_in 10 c \<noteq> None" using digit_in_dec [OF n(1), of 10] by simp
qed

lemma digits_value_plain: "digits_value 10 0 (dec_plain n) = n"
proof (induction n rule: less_induct)
  case (less n)
  show ?case
  proof (cases "n < 10")
    case True
    then show ?thesis by (simp add: dec_plain.simps [of n])
  next
    case False
    then show ?thesis using less.IH [of "n div 10"] digit_in_plain
      by (simp add: dec_plain.simps [of n] digits_value_append)
  qed
qed

lemma dec_digit_start: "d < 10 \<Longrightarrow> \<not> c_space (dec_digit d) \<and> dec_digit d \<noteq> CHR ''-'' \<and> dec_digit d \<noteq> CHR ''+''"
proof -
  assume "d < 10"
  then have "d \<in> {0, 1, 2, 3, 4, 5, 6, 7, 8, 9}" by auto
  then show ?thesis by (auto simp: dec_digit_def c_space_def char_code_def)
qed

lemma strtoul_dec: "n < 2 ^ 64 \<Longrightarrow> strtoul 10 (dec_plain n) = of_nat n"
proof -
  assume n: "n < 2 ^ 64"
  obtain d ds where d: "dec_plain n = dec_digit d # ds" "d < 10" using dec_plain_Cons [of n] by blast
  note s = dec_digit_start [OF d(2)]
  have drop: "dropWhile c_space (dec_plain n) = dec_plain n" "hd (dec_plain n) \<noteq> CHR ''-''" "hd (dec_plain n) \<noteq> CHR ''+''"
    using d s by simp_all
  have ten: "(case s of z # x # d # r \<Rightarrow> if (10 :: nat) = 16 \<and> z = CHR ''0'' \<and> (x = CHR ''x'' \<or> x = CHR ''X'') \<and> digit_in 16 d \<noteq> None then d # r else s | _ \<Rightarrow> s) = s" for s
    by (simp split: list.splits)
  show ?thesis unfolding strtoul_def Let_def drop(1) using drop(2,3) n by (simp add: ten digits_value_plain)
qed

lemma strtoul_hex_digit: "n < 10 \<Longrightarrow> strtoul 16 (dec_plain n) = of_nat n"
  using dec_digit_start [of n] by (simp add: strtoul_def dec_plain.simps [of n])

definition byte_word :: "u8 \<Rightarrow> string" where
  "byte_word b = [hex_digit (unat (drop_bit 4 b)), hex_digit (unat (b AND 0x0F))]"

lemma byte_word_inner: "c \<in> set (byte_word b) \<Longrightarrow> inner c"
  using inner_hex by (auto simp: byte_word_def)

lemma byte_word_solid: "solid (byte_word b)"
  by (rule solidI [OF _ byte_word_inner]) (simp add: byte_word_def, assumption)

lemma to_hex_words: "split_whitespace (to_hex bs True) = map byte_word bs"
proof (induction bs)
  case (Cons b bs)
  show ?case
  proof (cases "bs = []")
    case True
    then show ?thesis using split_last_word [OF byte_word_solid, of b] by (simp add: byte_word_def)
  next
    case False
    then have "to_hex (b # bs) True = byte_word b @ CHR '' '' # to_hex bs True" by (simp add: byte_word_def)
    then show ?thesis using Cons.IH split_word [OF byte_word_solid blank_space] by simp
  qed
qed simp

lemma parse_byte_word: "parse_hex (byte_word b) = Some (ucast b)"
proof -
  have h: "(of_nat (unat (drop_bit 4 b)) :: u8) = drop_bit 4 b" "(of_nat (unat (b AND 0x0F)) :: u8) = b AND 0x0F" by simp_all
  have "(push_bit 4 (ucast (drop_bit 4 b)) OR ucast (b AND 0x0F) :: u64) = ucast b"
  proof (rule bit_word_eqI)
    fix n assume "n < LENGTH(64)"
    have "bit (b AND 0x0F) n \<longleftrightarrow> bit b n \<and> n < 4" using bit_0x0F [of n] by (cases "n < 8") (auto simp: bit_and_iff)
    then show "bit (push_bit 4 (ucast (drop_bit 4 b)) OR ucast (b AND 0x0F) :: u64) n = bit (ucast b :: u64) n"
      using \<open>n < LENGTH(64)\<close> by (cases "n < 8") (auto simp: bit_or_iff bit_push_bit_iff bit_drop_bit_eq)
  qed
  then show ?thesis using h by (simp add: parse_hex_def byte_word_def)
qed

lemma asc_payload_back: "asc_payload (map byte_word bs) (length bs) = bs"
  by (induction bs) (simp_all add: parse_byte_word back8)

text \<open>The identifier field and the fields around it.\<close>

definition asc_id_field :: "can_id \<Rightarrow> string" where
  "asc_id_field i = hex_plain (unat (id_value i)) @ (if is_extended i then ''x'' else [])"

lemma asc_id_field_inner: "c \<in> set (asc_id_field i) \<Longrightarrow> inner c"
  using hex_plain_digits inner_hex by (auto simp: asc_id_field_def split: if_splits)

lemma asc_id_field_back:
  assumes "wf_id i"
  shows "asc_id_text (asc_id_field i) = (hex_plain (unat (id_value i)), is_extended i)"
    and "parse_hex (hex_plain (unat (id_value i))) = Some (ucast (id_value i))"
    and "asc_id (is_extended i) (ucast (id_value i)) = Inr i"
proof -
  have "hex_char (last (hex_plain (unat (id_value i))))" using hex_plain_digits last_in_set hex_plain_nonempty by blast
  then show "asc_id_text (asc_id_field i) = (hex_plain (unat (id_value i)), is_extended i)"
    using hex_char_plain(6,7) by (auto simp: asc_id_text_def asc_id_field_def butlast_append)
  have "unat (id_value i) < 16 ^ 8" using unat_less_exp [of "id_value i"] by simp
  then have "length (hex_plain (unat (id_value i))) \<le> 8" by (intro length_hex_plain) simp_all
  then show "parse_hex (hex_plain (unat (id_value i))) = Some (ucast (id_value i))"
    using parse_hex_padded [of 0 "unat (id_value i)"] by (simp add: pad_zero_def)
  show "asc_id (is_extended i) (ucast (id_value i)) = Inr i"
    using extended_back [OF assms] standard_back [OF assms] by (simp add: asc_id_def ucast_back id_value_ext)
qed

text \<open>The words of a line, in the order the writer prints them.\<close>

definition asc_words :: "log_record \<Rightarrow> string list" where
  "asc_words r =
     (let f = lr_frame r; dir = (if lr_is_rx r then ''Rx'' else ''Tx''); data = map byte_word (payload_of f) in
      format_stamp (timestamp_ns f) #
      (if is_fd f
       then [''CANFD'', lr_channel r, dir, asc_id_field (frame_id f), if is_brs f then ''1'' else ''0'', if is_esi f then ''1'' else ''0'',
             dec_plain (unat (frame_dlc f)), dec_plain (frame_size f)] @ data
       else if is_remote f then [lr_channel r, asc_id_field (frame_id f), dir, ''r'', dec_plain (unat (frame_dlc f))]
       else [lr_channel r, asc_id_field (frame_id f), dir, ''d'', dec_plain (frame_size f)] @ data))"

lemma split_then: "solid w \<Longrightarrow> split_whitespace s = ws \<Longrightarrow> split_whitespace (w @ CHR '' '' # s) = w # ws"
  using split_word [OF _ blank_space] by simp

lemma dec_plain_solid [simp]: "solid (dec_plain n)"
  using dec_plain_hex inner_hex by (intro solidI) auto

lemma stamp_solid [simp]: "solid (format_stamp ns)"
  using stamp_inner by (intro solidI) auto

lemma asc_id_field_solid [simp]: "solid (asc_id_field i)"
  using asc_id_field_inner by (intro solidI) (auto simp: asc_id_field_def)

lemma word_solid [simp]: "solid ''Rx''" "solid ''Tx''" "solid ''CANFD''" "solid ''0''" "solid ''1''" "solid ''d''" "solid ''r''"
  by (simp_all add: solid_def blank_def)

lemma split_literals:
  "split_whitespace (CHR ''R'' # CHR ''x'' # CHR '' '' # s) = ''Rx'' # split_whitespace s"
  "split_whitespace (CHR ''T'' # CHR ''x'' # CHR '' '' # s) = ''Tx'' # split_whitespace s"
  "split_whitespace (CHR ''C'' # CHR ''A'' # CHR ''N'' # CHR ''F'' # CHR ''D'' # CHR '' '' # s) = ''CANFD'' # split_whitespace s"
  "split_whitespace (CHR ''0'' # CHR '' '' # s) = ''0'' # split_whitespace s"
  "split_whitespace (CHR ''1'' # CHR '' '' # s) = ''1'' # split_whitespace s"
  "split_whitespace (CHR ''d'' # CHR '' '' # s) = ''d'' # split_whitespace s"
  "split_whitespace (CHR ''r'' # CHR '' '' # s) = ''r'' # split_whitespace s"
  using word_solid [THEN split_word, OF blank_space, of s] by simp_all

lemma asc_line_fields:
  "asc_line r =
     (let f = lr_frame r; dir = (if lr_is_rx r then ''Rx'' else ''Tx'') in
      format_stamp (timestamp_ns f) @ '' '' @
      (if is_fd f
       then ''CANFD '' @ lr_channel r @ '' '' @ dir @ '' '' @ asc_id_field (frame_id f) @ '' '' @
            (if is_brs f then ''1'' else ''0'') @ '' '' @ (if is_esi f then ''1'' else ''0'') @ '' '' @
            dec_plain (unat (frame_dlc f)) @ '' '' @ dec_plain (frame_size f) @ '' '' @ to_hex (payload_of f) True
       else if is_remote f
       then lr_channel r @ ''  '' @ asc_id_field (frame_id f) @ ''             '' @ dir @ ''   r '' @ dec_plain (unat (frame_dlc f))
       else lr_channel r @ ''  '' @ asc_id_field (frame_id f) @ ''             '' @ dir @ ''   d '' @ dec_plain (frame_size f) @
            '' '' @ to_hex (payload_of f) True))"
  by (simp add: asc_line_def asc_id_field_def payload_of_def Let_def)

lemma asc_line_words:
  assumes "plain_channel (lr_channel r)"
  shows "split_whitespace (asc_line r) = asc_words r"
proof -
  note ch = channel_solid [OF assms]
  note word = split_word [OF _ blank_space]
  show ?thesis
    unfolding asc_line_fields asc_words_def Let_def
    by (cases "is_brs (lr_frame r)"; cases "is_esi (lr_frame r)"; cases "lr_is_rx r")
      (simp_all add: word ch split_literals to_hex_words split_last_word)
qed

lemma asc_line_chars:
  assumes "plain_channel (lr_channel r)"
  shows "CHR 0x0D \<notin> set (asc_line r)" "CHR 0x0A \<notin> set (asc_line r)" "asc_line r \<noteq> []" "is_dec (hd (asc_line r))"
proof -
  let ?P = "\<lambda>c. inner c \<or> c = CHR '' ''"
  have facts: "\<forall>c\<in>set (to_hex (payload_of (lr_frame r)) True). ?P c" "\<forall>c\<in>set (format_stamp (timestamp_ns (lr_frame r))). ?P c"
    "\<forall>c\<in>set (asc_id_field (frame_id (lr_frame r))). ?P c" "\<forall>c\<in>set (lr_channel r). ?P c"
    using to_hex_digits inner_hex stamp_inner asc_id_field_inner channel_inner [OF assms] by blast+
  have dec: "\<forall>c\<in>set (dec_plain n). ?P c" for n using dec_plain_hex inner_hex by blast
  have lit: "inner (CHR ''R'')" "inner (CHR ''C'')" "inner (CHR ''A'')" "inner (CHR ''N'')" "inner (CHR ''F'')" "inner (CHR ''D'')"
    by (simp_all add: inner_def blank_def)
  have "\<forall>c\<in>set (asc_line r). ?P c"
    unfolding asc_line_fields Let_def
    by (cases "is_brs (lr_frame r)"; cases "is_esi (lr_frame r)"; cases "lr_is_rx r")
      (simp_all add: ball_Un facts dec lit)
  then show "CHR 0x0D \<notin> set (asc_line r)" "CHR 0x0A \<notin> set (asc_line r)" by (fastforce simp: inner_def)+
  show "asc_line r \<noteq> []" by (simp add: asc_line_fields Let_def)
  have "hd (format_stamp ns) = hd (dec_plain (unat (ns div 1000000000)))" for ns by (simp add: format_stamp_def)
  then show "is_dec (hd (asc_line r))"
    using dec_plain_dec [OF list.set_sel(1) [OF dec_plain_nonempty]] by (simp add: asc_line_fields Let_def)
qed

lemma asc_take_all: "n \<le> 64 \<Longrightarrow> length ps = k + n \<Longrightarrow> asc_take ps k (of_nat n) = n"
  by (simp add: asc_take_def unsigned_of_nat take_bit_nat_eq_self)

lemma asc_fd_back:
  assumes "wf_id i" "length bs = n" "n \<le> 64"
  shows "asc_parse_fd ([st, ''CANFD'', ch, if rx then ''Rx'' else ''Tx'', asc_id_field i, if brs then ''1'' else ''0'',
        if esi then ''1'' else ''0'', d, dec_plain n] @ map byte_word bs) ts =
    result_map (\<lambda>f. new_record\<lparr>lr_channel := ch, lr_is_rx := rx, lr_frame := f\<rparr>)
      (make_frame_of 64 i (Some bs) n (flag_fd OR (if brs then flag_brs else 0) OR (if esi then flag_esi else 0)) ts)"
    (is "asc_parse_fd ?ps ts = ?r")
proof -
  have n: "strtoul 10 (dec_plain n) = of_nat n" using assms(3) by (intro strtoul_dec) simp
  have tk: "asc_take ?ps 9 (of_nat n) = n" using assms(2,3) by (intro asc_take_all) simp_all
  have pay: "asc_payload (map byte_word bs) n = bs" using asc_payload_back [of bs] assms(2) by simp
  have nth: "?ps ! 2 = ch" "?ps ! 3 = (if rx then ''Rx'' else ''Tx'')" "?ps ! 4 = asc_id_field i" "?ps ! 5 = (if brs then ''1'' else ''0'')"
    "?ps ! 6 = (if esi then ''1'' else ''0'')" "?ps ! 8 = dec_plain n" "drop 9 ?ps = map byte_word bs" "\<not> length ?ps < 9"
    by (simp_all add: numeral_eq_Suc)
  have rx: "((if rx then ''Rx'' else ''Tx'') = ''Rx'') = rx" and bit: "((if b then ''1'' else ''0'') \<noteq> ''0'') = b" for b by simp_all
  show ?thesis
    unfolding asc_parse_fd_def nth rx bit if_False Let_def asc_id_field_back(1) [OF assms(1)] prod.case asc_id_field_back(2) [OF assms(1)]
      option.case asc_id_field_back(3) [OF assms(1)] try_bind_simps n tk pay by simp
qed

lemma asc_data_back:
  assumes "wf_id i" "length bs = n" "n < 10"
  shows "asc_parse_classic True ([st, ch, asc_id_field i, if rx then ''Rx'' else ''Tx'', ''d'', dec_plain n] @ map byte_word bs) ts =
    result_map (\<lambda>f. new_record\<lparr>lr_channel := ch, lr_is_rx := rx, lr_frame := f\<rparr>) (make_frame_of 64 i (Some bs) n flag_none ts)"
    (is "asc_parse_classic True ?ps ts = ?r")
proof -
  have n: "strtoul 16 (dec_plain n) = of_nat n" using assms(3) by (rule strtoul_hex_digit)
  have tk: "asc_take ?ps 6 (of_nat n) = n" using assms(2,3) by (intro asc_take_all) simp_all
  have pay: "asc_payload (map byte_word bs) n = bs" using asc_payload_back [of bs] assms(2) by simp
  have nth: "?ps ! 1 = ch" "?ps ! 2 = asc_id_field i" "?ps ! 3 = (if rx then ''Rx'' else ''Tx'')" "?ps ! 4 = ''d''" "?ps ! 5 = dec_plain n"
    "drop 6 ?ps = map byte_word bs"
    by (simp_all add: numeral_eq_Suc)
  have rx: "((if rx then ''Rx'' else ''Tx'') = ''Rx'') = rx" by simp
  have kind: "\<not> (''d'' = ''r'' \<or> ''d'' = ''R'')" by simp
  show ?thesis
    unfolding asc_parse_classic_def nth rx if_True Let_def asc_id_field_back(1) [OF assms(1)] prod.case asc_id_field_back(2) [OF assms(1)]
      option.case asc_id_field_back(3) [OF assms(1)] try_bind_simps n tk pay if_not_P [OF kind] by simp
qed

lemma asc_remote_back:
  assumes "wf_id i" "dlc \<le> 8"
  shows "asc_parse_classic True [st, ch, asc_id_field i, if rx then ''Rx'' else ''Tx'', ''r'', dec_plain (unat (dlc :: u8))] ts =
    result_map (\<lambda>f. new_record\<lparr>lr_channel := ch, lr_is_rx := rx, lr_frame := f\<rparr>) (make_remote 64 i dlc ts)"
    (is "asc_parse_classic True ?ps ts = ?r")
proof -
  have "unat dlc < 10" using assms(2) by (simp add: word_le_nat_alt)
  then have "strtoul 16 (dec_plain (unat dlc)) = of_nat (unat dlc)" by (rule strtoul_hex_digit)
  then have n: "ucast (strtoul 16 (dec_plain (unat dlc))) = dlc" by (simp add: back8)
  have nth: "?ps ! 1 = ch" "?ps ! 2 = asc_id_field i" "?ps ! 3 = (if rx then ''Rx'' else ''Tx'')" "?ps ! 4 = ''r''" "?ps ! 5 = dec_plain (unat dlc)"
    by (simp_all add: numeral_eq_Suc)
  have rx: "((if rx then ''Rx'' else ''Tx'') = ''Rx'') = rx" by simp
  have kind: "''r'' = ''r'' \<or> ''r'' = ''R''" by simp
  show ?thesis
    unfolding asc_parse_classic_def nth rx if_True Let_def asc_id_field_back(1) [OF assms(1)] prod.case asc_id_field_back(2) [OF assms(1)]
      option.case asc_id_field_back(3) [OF assms(1)] try_bind_simps n if_P [OF kind] by simp
qed

lemma asc_line_back:
  assumes "loggable Asc r" and "split_whitespace line = asc_words r"
  shows "\<exists>s. asc_parse_line True line = Inr s \<and> same_record r s"
proof -
  let ?f = "lr_frame r" and ?ts = "timestamp_ns (lr_frame r) div 1000 * 1000"
  have ok: "wf_frame 64 ?f" "wf_id (frame_id ?f)" "flags_printed ?f" "\<not> is_error_frame ?f" "lr_channel r \<noteq> ''CANFD''"
    using assms(1) by (simp_all add: loggable_def)
  have s64: "length (payload_of ?f) = frame_size ?f" "frame_size ?f \<le> 64" using ok(1) by (simp_all add: wf_frame_def payload_of_def)
  let ?again = "\<lambda>g. frame_eq g ?f \<and> timestamp_ns g = ?ts \<and> wf_frame 64 g"
  have fdr: "is_fd ?f \<Longrightarrow> \<not> is_remote ?f"
    using ok(3) by (auto simp: flags_printed_def is_fd_def has_flag_def flag_defs)
  have "\<exists>g. asc_parse_line True line = Inr (new_record\<lparr>lr_channel := lr_channel r, lr_is_rx := lr_is_rx r, lr_frame := g\<rparr>) \<and> ?again g"
  proof (cases "is_fd ?f")
    case True
    have fl: "frame_flags ?f = flag_fd OR (if is_brs ?f then flag_brs else 0) OR (if is_esi ?f then flag_esi else 0)"
      using ok(3,4) True fdr by (simp add: flags_printed_def)
    obtain g where "make_frame_of 64 (frame_id ?f) (Some (payload_of ?f)) (frame_size ?f) (frame_flags ?f) ?ts = Inr g" "?again g"
      using rebuild_frame [OF ok(1) fdr [OF True]] True by blast
    moreover have "asc_parse_line True line = asc_parse_fd (asc_words r) ?ts"
      using True by (simp add: asc_parse_line_def assms(2) asc_words_def stamp_read_back Let_def)
    moreover have "asc_parse_fd (asc_words r) ?ts = result_map (\<lambda>f. new_record\<lparr>lr_channel := lr_channel r, lr_is_rx := lr_is_rx r, lr_frame := f\<rparr>)
        (make_frame_of 64 (frame_id ?f) (Some (payload_of ?f)) (frame_size ?f) (frame_flags ?f) ?ts)"
      unfolding fl by (simp only: asc_words_def Let_def True if_True append_Cons append_Nil
          asc_fd_back [OF ok(2) s64, unfolded append_Cons append_Nil])
    ultimately show ?thesis by auto
  next
    case n: False
    show ?thesis
    proof (cases "is_remote ?f")
      case True
      then have f: "frame_flags ?f = flag_rtr" "frame_dlc ?f \<le> 8" using ok(3) by (simp_all add: flags_printed_def)
      obtain g where "make_remote 64 (frame_id ?f) (frame_dlc ?f) ?ts = Inr g" "?again g" using rebuild_remote [OF f] by blast
      moreover have "asc_parse_line True line = asc_parse_classic True (asc_words r) ?ts"
        using True n ok(5) by (simp add: asc_parse_line_def assms(2) asc_words_def stamp_read_back Let_def)
      ultimately show ?thesis using asc_remote_back [OF ok(2) f(2)] True n by (auto simp: asc_words_def Let_def)
    next
      case False
      then have fl: "frame_flags ?f = flag_none" and small: "frame_dlc ?f \<le> 8" using ok(3,4) n by (simp_all add: flags_printed_def)
      have "frame_size ?f < 10" using small False n by (simp add: frame_size_def dlc_to_length_def word_less_nat_alt word_le_nat_alt)
      note data = asc_data_back [OF ok(2) s64(1) this]
      obtain g where "make_frame_of 64 (frame_id ?f) (Some (payload_of ?f)) (frame_size ?f) flag_none ?ts = Inr g" "?again g"
        using rebuild_frame [OF ok(1) False small] fl by auto
      moreover have "asc_parse_line True line = asc_parse_classic True (asc_words r) ?ts"
        using False n ok(5) by (simp add: asc_parse_line_def assms(2) asc_words_def stamp_read_back Let_def)
      ultimately show ?thesis using data False n by (auto simp: asc_words_def Let_def)
    qed
  qed
  then show ?thesis by (auto simp: same_record_def new_record_def)
qed

subsection \<open>Files\<close>

lemma getline_line: "CHR 0x0A \<notin> set l \<Longrightarrow> getline (l @ CHR 0x0A # rest) = Some (l, rest)"
proof -
  assume "CHR 0x0A \<notin> set l"
  then have "\<And>c. c \<in> set l \<Longrightarrow> c \<noteq> CHR 0x0A" by blast
  then have "takeWhile (\<lambda>c. c \<noteq> CHR 0x0A) (l @ CHR 0x0A # rest) = l" "dropWhile (\<lambda>c. c \<noteq> CHR 0x0A) (l @ CHR 0x0A # rest) = CHR 0x0A # rest"
    by (simp_all add: takeWhile_append2 dropWhile_append2)
  then show ?thesis by (simp add: getline_def)
qed

text \<open>A line format: its \<open>next\<close> reads what its writer wrote, and finds the end of what it closed with.\<close>

locale line_format =
  fixes fmt :: log_format and line :: "log_record \<Rightarrow> string" and tail :: string
  assumes next_line: "loggable fmt r \<Longrightarrow>
      \<exists>s. text_next fmt \<lparr>rd_in = line r @ CHR 0x0A # rest, rd_line_number = n, rd_hex_base = True\<rparr> =
        (Inr s, \<lparr>rd_in = rest, rd_line_number = n + 1, rd_hex_base = True\<rparr>) \<and> same_record r s"
    and next_end: "\<exists>e st. text_next fmt \<lparr>rd_in = tail, rd_line_number = n, rd_hex_base = True\<rparr> = (Inl e, st) \<and> err_code e = LogEndOfFile"
begin

lemma read_lines:
  "(\<forall>r\<in>set rs. loggable fmt r) \<Longrightarrow>
   \<exists>ss. read_all fmt \<lparr>rd_in = concat (map (\<lambda>r. line r @ [CHR 0x0A]) rs) @ tail, rd_line_number = n, rd_hex_base = True\<rparr> = Inr ss \<and>
     list_all2 same_record rs ss"
proof (induction rs arbitrary: n)
  case Nil
  obtain e st where "text_next fmt \<lparr>rd_in = tail, rd_line_number = n, rd_hex_base = True\<rparr> = (Inl e, st)" "err_code e = LogEndOfFile"
    using next_end by blast
  then show ?case by (simp add: read_all.simps)
next
  case (Cons r rs)
  let ?rest = "concat (map (\<lambda>r. line r @ [CHR 0x0A]) rs) @ tail"
  obtain s where s: "text_next fmt \<lparr>rd_in = line r @ CHR 0x0A # ?rest, rd_line_number = n, rd_hex_base = True\<rparr> =
      (Inr s, \<lparr>rd_in = ?rest, rd_line_number = n + 1, rd_hex_base = True\<rparr>)" "same_record r s"
    using next_line [of r ?rest n] Cons.prems by auto
  obtain ss where ss: "read_all fmt \<lparr>rd_in = ?rest, rd_line_number = n + 1, rd_hex_base = True\<rparr> = Inr ss" "list_all2 same_record rs ss"
    using Cons.IH [of "n + 1"] Cons.prems by auto
  have "read_all fmt \<lparr>rd_in = line r @ CHR 0x0A # ?rest, rd_line_number = n, rd_hex_base = True\<rparr> = Inr (s # ss)"
    by (subst read_all.simps) (simp add: s(1) ss(1))
  then show ?case using s(2) ss(2) by simp
qed

end

lemma candump_next_line:
  assumes "loggable Candump r"
  shows "\<exists>s. text_next Candump \<lparr>rd_in = format_candump_line r @ CHR 0x0A # rest, rd_line_number = n, rd_hex_base = True\<rparr> =
    (Inr s, \<lparr>rd_in = rest, rd_line_number = n + 1, rd_hex_base = True\<rparr>) \<and> same_record r s"
proof -
  let ?l = "format_candump_line r"
  have ch: "plain_channel (lr_channel r)" using assms by (simp add: loggable_def)
  note c = candump_line_chars [OF ch]
  have t: "trim ?l \<noteq> []" "hd (trim ?l) = CHR ''(''" using trim_hd [OF c(3)] c(4) by (auto simp: trimmable_def)
  have "CHR 0x0D \<notin> set (trim ?l)" using c(1) set_trim by blast
  then obtain s where s: "parse_candump_line (trim ?l) = Inr s" "same_record r s"
    using candump_line_back [OF assms _ t split_trim [OF c(1)]] by blast
  have "candump_next \<lparr>rd_in = ?l @ CHR 0x0A # rest, rd_line_number = n, rd_hex_base = True\<rparr> =
      (Inr s, \<lparr>rd_in = rest, rd_line_number = n + 1, rd_hex_base = True\<rparr>)"
    by (subst candump_next.simps) (simp add: getline_line [OF c(2)] t s(1) Let_def)
  then show ?thesis using s(2) by (simp add: text_next_def)
qed

lemma starts_with_hd: "starts_with s p \<Longrightarrow> p \<noteq> [] \<Longrightarrow> s \<noteq> [] \<and> hd s = hd p"
  by (cases s; cases p) (auto simp: starts_with_def)

lemma dec_not_trimmable: "is_dec c \<Longrightarrow> \<not> trimmable c \<and> c \<noteq> CHR ''/'' \<and> c \<noteq> CHR ''b''"
  by (auto simp: is_dec_def trimmable_def char_code_def)

lemma asc_next_line:
  assumes "loggable Asc r"
  shows "\<exists>s. text_next Asc \<lparr>rd_in = asc_line r @ CHR 0x0A # rest, rd_line_number = n, rd_hex_base = True\<rparr> =
    (Inr s, \<lparr>rd_in = rest, rd_line_number = n + 1, rd_hex_base = True\<rparr>) \<and> same_record r s"
proof -
  let ?l = "asc_line r"
  have ch: "plain_channel (lr_channel r)" using assms by (simp add: loggable_def)
  note c = asc_line_chars [OF ch]
  have t: "trim ?l \<noteq> []" "is_dec (hd (trim ?l))" using trim_hd [OF c(3)] c(4) dec_not_trimmable by auto
  have head: "\<not> starts_with (trim ?l) ''//''" "\<not> starts_with (trim ?l) ''base ''"
    using starts_with_hd [of "trim ?l"] dec_not_trimmable [OF t(2)] by fastforce+
  have "split_whitespace (trim ?l) = asc_words r" using split_trim [OF c(1)] asc_line_words [OF ch] by simp
  then obtain s where s: "asc_parse_line True (trim ?l) = Inr s" "same_record r s" using asc_line_back [OF assms] by blast
  have "asc_next \<lparr>rd_in = ?l @ CHR 0x0A # rest, rd_line_number = n, rd_hex_base = True\<rparr> =
      (Inr s, \<lparr>rd_in = rest, rd_line_number = n + 1, rd_hex_base = True\<rparr>)"
    by (subst asc_next.simps) (simp add: getline_line [OF c(2)] t head s(1) Let_def)
  then show ?thesis using s(2) by (simp add: text_next_def)
qed

interpretation candump_lines: line_format Candump format_candump_line "[]"
proof
  show "\<exists>e st. text_next Candump \<lparr>rd_in = [], rd_line_number = n, rd_hex_base = True\<rparr> = (Inl e, st) \<and> err_code e = LogEndOfFile" for n
    by (simp add: text_next_def candump_next.simps getline_def end_of_def plain_error_def)
qed (rule candump_next_line)

lemma asc_skip:
  assumes "CHR 0x0A \<notin> set l" "trim l = l" "l \<noteq> []" "\<not> is_dec (hd l)" "\<not> starts_with l ''base ''"
  shows "asc_next \<lparr>rd_in = l @ CHR 0x0A # rest, rd_line_number = n, rd_hex_base = b\<rparr> =
    asc_next \<lparr>rd_in = rest, rd_line_number = n + 1, rd_hex_base = b\<rparr>"
  using assms by (subst asc_next.simps) (simp add: getline_line Let_def)

interpretation asc_lines: line_format Asc asc_line "text_finish Asc []"
proof
  fix n
  have "asc_next \<lparr>rd_in = ''End TriggerBlock'' @ CHR 0x0A # [], rd_line_number = n, rd_hex_base = True\<rparr> =
      asc_next \<lparr>rd_in = [], rd_line_number = n + 1, rd_hex_base = True\<rparr>"
    by (rule asc_skip) (simp_all add: trim_def trimmable_def is_dec_def char_code_def starts_with_def)
  also have "\<dots> = (Inl (end_of ''ASC''), \<lparr>rd_in = [], rd_line_number = n + 1, rd_hex_base = True\<rparr>)"
    by (subst asc_next.simps) (simp add: getline_def)
  finally show "\<exists>e st. text_next Asc \<lparr>rd_in = text_finish Asc [], rd_line_number = n, rd_hex_base = True\<rparr> = (Inl e, st) \<and> err_code e = LogEndOfFile"
    by (simp add: text_next_def text_finish_def end_of_def plain_error_def)
qed (rule asc_next_line)

lemma read_all_cong: "text_next fmt r = text_next fmt r' \<Longrightarrow> read_all fmt r = read_all fmt r'"
  by (simp add: read_all.simps [of fmt r] read_all.simps [of fmt r'])

lemma asc_base_line:
  "asc_next \<lparr>rd_in = ''base hex  timestamps absolute'' @ CHR 0x0A # rest, rd_line_number = n, rd_hex_base = b\<rparr> =
   asc_next \<lparr>rd_in = rest, rd_line_number = n + 1, rd_hex_base = True\<rparr>"
proof -
  have l: "CHR 0x0A \<notin> set ''base hex  timestamps absolute''" by simp
  have t: "trim ''base hex  timestamps absolute'' = ''base hex  timestamps absolute''"
    by (simp add: trim_def trimmable_def)
  show ?thesis
    by (subst asc_next.simps) (simp only: getline_line [OF l] option.case prod.case Let_def t log_reader.simps,
        simp add: starts_with_def)
qed

lemma asc_header_skipped:
  "asc_next \<lparr>rd_in = asc_header @ rest, rd_line_number = 0, rd_hex_base = True\<rparr> =
   asc_next \<lparr>rd_in = rest, rd_line_number = 4, rd_hex_base = True\<rparr>"
proof -
  have split: "asc_header @ rest = ''date Wed Jan 1 00:00:00 2025'' @ CHR 0x0A # ''base hex  timestamps absolute'' @ CHR 0x0A #
      ''internal events logged'' @ CHR 0x0A # ''// canforge'' @ CHR 0x0A # rest"
    by (simp only: asc_header_def append.assoc append_Cons append_Nil)
  have date: "asc_next \<lparr>rd_in = ''date Wed Jan 1 00:00:00 2025'' @ CHR 0x0A # r, rd_line_number = n, rd_hex_base = b\<rparr> =
      asc_next \<lparr>rd_in = r, rd_line_number = n + 1, rd_hex_base = b\<rparr>" for r n b
    by (rule asc_skip) (simp_all add: trim_def trimmable_def is_dec_def char_code_def starts_with_def)
  have intern: "asc_next \<lparr>rd_in = ''internal events logged'' @ CHR 0x0A # r, rd_line_number = n, rd_hex_base = b\<rparr> =
      asc_next \<lparr>rd_in = r, rd_line_number = n + 1, rd_hex_base = b\<rparr>" for r n b
    by (rule asc_skip) (simp_all add: trim_def trimmable_def is_dec_def char_code_def starts_with_def)
  have comment: "asc_next \<lparr>rd_in = ''// canforge'' @ CHR 0x0A # r, rd_line_number = n, rd_hex_base = b\<rparr> =
      asc_next \<lparr>rd_in = r, rd_line_number = n + 1, rd_hex_base = b\<rparr>" for r n b
    by (rule asc_skip) (simp_all add: trim_def trimmable_def is_dec_def char_code_def starts_with_def)
  show ?thesis unfolding split date asc_base_line intern comment by simp
qed

lemma written:
  "foldl (text_write fmt) out rs =
     out @ concat (map (\<lambda>r. (if fmt = Asc then asc_line r else format_candump_line r) @ [CHR 0x0A]) rs)"
  by (induction rs arbitrary: out) (simp_all add: text_write_def)

text \<open>C8. A trace file holds what was logged: records written by the candump or the ASC writer and read
  back by the reader of that format come back in order, each with the same frame (identifier, length
  code, flags and payload), channel and direction, and its time to the microsecond, for every record the
  format can express: a channel of one word, flags the writer prints, no data length code above eight in
  a classic frame, error frames only in candump and with an extended identifier, candump only for
  received frames.\<close>

theorem log_file_roundtrip:
  assumes "fmt = Candump \<or> fmt = Asc" and "\<forall>r\<in>set rs. loggable fmt r"
  shows "\<exists>ss. read_all fmt (open_text (text_finish fmt (foldl (text_write fmt) (text_writer fmt) rs))) = Inr ss \<and>
    list_all2 same_record rs ss"
proof (cases "fmt = Asc")
  case True
  let ?body = "concat (map (\<lambda>r. asc_line r @ [CHR 0x0A]) rs) @ text_finish Asc []"
  have "text_finish Asc (foldl (text_write Asc) (text_writer Asc) rs) = asc_header @ ?body"
    by (simp add: written text_finish_def text_writer_def)
  then have "read_all Asc (open_text (text_finish Asc (foldl (text_write Asc) (text_writer Asc) rs))) =
      read_all Asc \<lparr>rd_in = ?body, rd_line_number = 4, rd_hex_base = True\<rparr>"
    unfolding open_text_def by (intro read_all_cong) (simp add: text_next_def asc_header_skipped)
  then show ?thesis using asc_lines.read_lines [of rs 4] assms(2) True by simp
next
  case False
  then have f: "fmt = Candump" using assms(1) by blast
  have "text_finish Candump (foldl (text_write Candump) (text_writer Candump) rs) =
      concat (map (\<lambda>r. format_candump_line r @ [CHR 0x0A]) rs) @ []"
    by (simp add: written text_finish_def text_writer_def)
  then show ?thesis using candump_lines.read_lines [of rs 0] assms(2) unfolding f open_text_def by simp
qed

definition sample_record :: log_record where
  "sample_record = \<lparr>lr_frame = \<lparr>timestamp_ns = 1735689600123456789, frame_id = CanId 0x123, frame_dlc = 9,
     frame_flags = flag_fd OR flag_brs, frame_data = replicate 64 0xAB\<rparr>, lr_channel = ''vcan0'', lr_is_rx = True\<rparr>"

lemma sample_loggable: "loggable fmt sample_record"
proof -
  have "wf_frame 64 (lr_frame sample_record)"
    by (simp add: sample_record_def wf_frame_def frame_size_def is_remote_def is_fd_def has_flag_def flag_defs
        dlc_to_length_def kFdDlcToLength_def validate_flags_def)
  moreover have "wf_id (frame_id (lr_frame sample_record))"
    by (simp add: sample_record_def wf_id_def is_extended_def kEffFlag_def kStandardIdMax_def)
  moreover have "flags_printed (lr_frame sample_record)"
    by (simp add: sample_record_def flags_printed_def is_remote_def is_fd_def is_brs_def is_esi_def is_error_frame_def has_flag_def flag_defs)
  moreover have "plain_channel (lr_channel sample_record)" by (simp add: sample_record_def plain_channel_def)
  moreover have "\<not> is_error_frame (lr_frame sample_record)" by (simp add: sample_record_def is_error_frame_def has_flag_def flag_defs)
  moreover have "lr_channel sample_record \<noteq> ''CANFD''" "lr_is_rx sample_record" by (simp_all add: sample_record_def)
  ultimately show ?thesis by (simp add: loggable_def)
qed

theorem log_file_roundtrip_witness:
  "\<exists>ss. read_all Asc (open_text (text_finish Asc (foldl (text_write Asc) (text_writer Asc) [sample_record, sample_record]))) = Inr ss \<and>
    list_all2 same_record [sample_record, sample_record] ss"
  by (rule log_file_roundtrip) (simp_all add: sample_loggable)

subsection \<open>What a reader delivers\<close>

definition wf_record :: "log_record \<Rightarrow> bool" where
  "wf_record r \<longleftrightarrow> wf_frame 64 (lr_frame r) \<and> wf_id (frame_id (lr_frame r))"

lemma made_wf: "make_frame_of 64 i (Some b) n fl ts = Inr f \<Longrightarrow> n \<le> length b \<Longrightarrow> wf_id i \<Longrightarrow> wf_frame 64 f \<and> wf_id (frame_id f)"
  using make_frame_builds [of 64 i b n fl ts f] by simp

lemma remote_wf: "make_remote 64 i dlc ts = Inr f \<Longrightarrow> wf_id i \<Longrightarrow> wf_frame 64 f \<and> wf_id (frame_id f)"
  by (auto simp: make_remote_def empty_frame_def frame_size_def is_remote_def has_flag_def flag_defs
      wf_frame_def validate_flags_def word_le_nat_alt word_less_nat_alt split: if_splits)

lemma asc_id_wf: "asc_id e raw = Inr i \<Longrightarrow> wf_id i"
  by (auto simp: asc_id_def dest: extended_id_wf standard_id_wf split: if_splits)

lemma candump_id_wf: "(if e then extended_id v else standard_id w) = Inr i \<Longrightarrow> wf_id i"
  by (auto dest: extended_id_wf standard_id_wf split: if_splits)

abbreviation good_frame :: "frame \<Rightarrow> bool" where
  "good_frame f \<equiv> wf_frame 64 f \<and> wf_id (frame_id f)"

lemma made_yields: "wf_id i \<Longrightarrow> n \<le> length b \<Longrightarrow> yields good_frame (make_frame_of 64 i (Some b) n fl ts)"
  using made_wf unfolding yields_def by blast

lemma remote_yields: "wf_id i \<Longrightarrow> yields good_frame (make_remote 64 i dlc ts)"
  using remote_wf unfolding yields_def by blast

lemma candump_body_wf: "yields good_frame (parse_candump_body body ts)"
  unfolding parse_candump_body_def
  by (intro yields_intros made_yields remote_yields order_refl; (erule candump_id_wf)?)

lemma candump_line_wf: "parse_candump_line line = Inr r \<Longrightarrow> wf_record r"
proof (rule yieldsD [of wf_record])
  show "yields wf_record (parse_candump_line line)"
    unfolding parse_candump_line_def
    by (intro yields_intros) (drule yieldsD [OF candump_body_wf], simp add: wf_record_def)
qed

lemma length_asc_payload: "k \<le> length ps \<Longrightarrow> length (asc_payload ps k) = k"
  by (induction ps k rule: asc_payload.induct) (auto split: option.splits)

lemma asc_take_le: "asc_take ps k len \<le> length (drop k ps)"
  by (simp add: asc_take_def)

lemma asc_payload_yields:
  "wf_id i \<Longrightarrow> yields good_frame (make_frame_of 64 i (Some (asc_payload (drop k ps) (asc_take ps k len))) (asc_take ps k len) fl ts)"
  using length_asc_payload [OF asc_take_le [of ps k len]] by (intro made_yields) simp_all

lemma asc_classic_wf: "yields wf_record (asc_parse_classic b parts ts)"
  unfolding asc_parse_classic_def Let_def
  by (intro yields_intros; drule asc_id_wf, (drule yieldsD [OF remote_yields, rotated] yieldsD [OF asc_payload_yields, rotated])?;
      simp add: wf_record_def)

lemma asc_fd_wf: "yields wf_record (asc_parse_fd parts ts)"
  unfolding asc_parse_fd_def Let_def
  by (intro yields_intros; drule asc_id_wf, drule yieldsD [OF asc_payload_yields, rotated]; simp add: wf_record_def)

lemma asc_line_wf: "asc_parse_line b line = Inr r \<Longrightarrow> wf_record r"
proof (rule yieldsD [of wf_record])
  show "yields wf_record (asc_parse_line b line)"
    unfolding asc_parse_line_def by (intro yields_intros asc_classic_wf asc_fd_wf)
qed

lemma candump_next_wf: "candump_next r = (Inr rec, r') \<Longrightarrow> wf_record rec"
proof (induction r rule: candump_next.induct)
  case (1 r)
  note step = "1.prems" [unfolded candump_next.simps [of r]]
  then obtain line rest where g: "getline (rd_in r) = Some (line, rest)" by (auto split: option.splits)
  let ?s = "r\<lparr>rd_in := rest, rd_line_number := rd_line_number r + 1\<rparr>"
  show ?case
  proof (cases "trim line = [] \<or> hd (trim line) = CHR ''#''")
    case True
    then have "candump_next ?s = (Inr rec, r')" using step g by (simp add: Let_def)
    then show ?thesis using "1.IH" [OF g refl refl refl True] by simp
  next
    case False
    then show ?thesis using step g candump_line_wf by (auto simp: Let_def split: sum.splits)
  qed
qed

lemma asc_next_wf: "asc_next r = (Inr rec, r') \<Longrightarrow> wf_record rec"
proof (induction "length (rd_in r)" arbitrary: r rule: less_induct)
  case less
  note step = less.prems [unfolded asc_next.simps [of r]]
  then obtain line rest where g: "getline (rd_in r) = Some (line, rest)" by (auto split: option.splits)
  let ?s = "r\<lparr>rd_in := rest, rd_line_number := rd_line_number r + 1\<rparr>"
  have shorter: "length (rd_in ?s) < length (rd_in r)" using getline_shorter [OF g] by simp
  consider "asc_next ?s = (Inr rec, r')" | b where "asc_next (?s\<lparr>rd_hex_base := b\<rparr>) = (Inr rec, r')"
    | b where "asc_parse_line b (trim line) = Inr rec"
    using step g by (auto simp: Let_def split: sum.splits if_splits)
  then show ?case
  proof cases
    case 1
    then show ?thesis using less.hyps [OF shorter] by simp
  next
    case (2 b)
    then show ?thesis using less.hyps [of "?s\<lparr>rd_hex_base := b\<rparr>"] shorter by simp
  next
    case (3 b)
    then show ?thesis by (rule asc_line_wf)
  qed
qed

text \<open>C32. Whatever a trace file holds, a reader that gets to its end delivers only well-formed records:
  identifiers in range, at most 64 bytes, a data length code of four bits and flags that go together.\<close>

theorem log_reader_frames_wf:
  "read_all fmt (open_text content) = Inr rs \<Longrightarrow> r \<in> set rs \<Longrightarrow> wf_frame 64 (lr_frame r) \<and> wf_id (frame_id (lr_frame r))"
proof -
  have "read_all fmt st = Inr rs \<Longrightarrow> \<forall>r\<in>set rs. wf_record r" for st
  proof (induction fmt st arbitrary: rs rule: read_all.induct)
    case (1 fmt st)
    show ?case
    proof (cases "text_next fmt st")
      case (Pair o' st')
      show ?thesis
      proof (cases o')
        case (Inl e)
        then show ?thesis using "1.prems" Pair by (simp add: read_all.simps [of fmt st] split: if_splits)
      next
        case (Inr rec)
        then obtain ss where ss: "read_all fmt st' = Inr ss" "rs = rec # ss"
          using "1.prems" Pair by (auto simp: read_all.simps [of fmt st] result_map_Inr_iff)
        have "wf_record rec" using Pair Inr candump_next_wf asc_next_wf by (auto simp: text_next_def split: if_splits)
        then show ?thesis using "1.IH" [OF Pair [symmetric] Inr ss(1)] ss(2) by simp
      qed
    qed
  qed
  then show "read_all fmt (open_text content) = Inr rs \<Longrightarrow> r \<in> set rs \<Longrightarrow> ?thesis" by (auto simp: wf_record_def)
qed

theorem log_reader_frames_wf_witness:
  "\<exists>rs. read_all Candump (open_text (format_candump_line sample_record @ [CHR 0x0A])) = Inr rs \<and> rs \<noteq> [] \<and>
     (\<forall>r\<in>set rs. wf_frame 64 (lr_frame r) \<and> wf_id (frame_id (lr_frame r)))"
proof -
  obtain rs where "read_all Candump (open_text (format_candump_line sample_record @ [CHR 0x0A])) = Inr rs" "list_all2 same_record [sample_record] rs"
    using candump_lines.read_lines [of "[sample_record]" 0] sample_loggable unfolding open_text_def by auto
  then show ?thesis using log_reader_frames_wf by (metis list_all2_Nil2 not_Cons_self2)
qed

end
