(* ===== verification/LogReplay_Laws.thy ===== *)
theory LogReplay_Laws
  imports LogReplay LogFormat_Files
begin

text \<open>
  Replaying a log: without looping every accepted record is delivered once, in order and not before it
  is due; with looping the second lap is not paced, and a replay whose filters accept nothing does not
  return.
\<close>

subsection \<open>One call\<close>

definition dues_defined :: "replay \<Rightarrow> bool" where
  "dues_defined b \<longleftrightarrow> (\<forall>r\<in>set (rp_records b). due_of b r \<noteq> None)"

text \<open>What no call changes.\<close>

definition same_log :: "replay \<Rightarrow> replay \<Rightarrow> bool" where
  "same_log b c \<longleftrightarrow> rp_records c = rp_records b \<and> rp_options c = rp_options b \<and> rp_filters c = rp_filters b \<and>
     rp_first_ns c = rp_first_ns b \<and> rp_open c = rp_open b"

lemma same_log_refl [simp]: "same_log b b"
  by (simp add: same_log_def)

lemma same_log_trans: "same_log a b \<Longrightarrow> same_log b c \<Longrightarrow> same_log a c"
  by (simp add: same_log_def)

lemma same_log_due: "same_log b c \<Longrightarrow> due_of c r = due_of b r"
  by (simp add: same_log_def due_of_def)

definition due_ns :: "replay \<Rightarrow> log_record \<Rightarrow> u64" where
  "due_ns b r = the (due_of b r)"

definition passes :: "replay \<Rightarrow> log_record \<Rightarrow> bool" where
  "passes b r \<longleftrightarrow> accepted_by (rp_filters b) (frame_id (lr_frame r))"

text \<open>What a call of \<open>receive\<close> that looks at \<open>n\<close> records can do.\<close>

definition call_outcome :: "replay \<Rightarrow> u64 \<Rightarrow> frame result \<Rightarrow> replay \<Rightarrow> bool" where
  "call_outcome b deadline res c \<longleftrightarrow>
     same_log b c \<and> rp_index b \<le> rp_index c \<and> rp_index c \<le> length (rp_records b) \<and>
     (let seen = drop (rp_index b) (take (rp_index c) (rp_records b)) in
      case res of
        Inl e \<Rightarrow> filter (passes b) seen = [] \<and> rp_now_ns c = deadline \<and>
          (if rp_index c = length (rp_records b) then err_code e = LogEndOfFile
           else err_code e = TransportTimeout \<and> deadline < due_ns b (rp_records b ! rp_index c))
      | Inr f \<Rightarrow> (\<exists>r. filter (passes b) seen = [r] \<and> f = set_timestamp_ns (lr_frame r) (rp_now_ns c) \<and>
          due_ns b r \<le> rp_now_ns c \<and> rp_now_ns c \<le> deadline \<and> rp_now_ns b \<le> rp_now_ns c))"

lemma replay_loop_outcome:
  assumes "\<not> ro_loop (rp_options b)" and "dues_defined b" and "rp_index b \<le> length (rp_records b)" and "rp_now_ns b \<le> deadline"
  shows "\<exists>res c. replay_loop b deadline = Some (res, c) \<and> call_outcome b deadline res c"
  using assms
proof (induction "length (rp_records b) - rp_index b" arbitrary: b)
  case 0
  then have "rp_index b = length (rp_records b)" by simp
  then show ?case using "0.prems"(1)
    by (subst replay_loop.simps) (simp add: call_outcome_def same_log_def plain_error_def)
next
  case (Suc n)
  then have lt: "rp_index b < length (rp_records b)" by simp
  define r where "r = rp_records b ! rp_index b"
  have "r \<in> set (rp_records b)" using lt by (simp add: r_def)
  then obtain due where due: "due_of b r = Some due" using Suc.prems(2) unfolding dues_defined_def by blast
  let ?now = "max (rp_now_ns b) due"
  let ?c = "b\<lparr>rp_now_ns := ?now, rp_index := rp_index b + 1\<rparr>"
  have seen: "drop (rp_index b) (take (Suc (rp_index b)) (rp_records b)) = [r]"
    using lt by (simp add: r_def take_Suc_conv_app_nth)
  consider "due > deadline" | "due \<le> deadline" "\<not> passes b r" | "due \<le> deadline" "passes b r" by fastforce
  then show ?case
  proof cases
    case 1
    then show ?thesis using lt due Suc.prems
      by (subst replay_loop.simps) (simp add: r_def [symmetric] Let_def call_outcome_def same_log_def plain_error_def due_ns_def)
  next
    case 2
    have same: "same_log b ?c" by (simp add: same_log_def)
    have "dues_defined ?c" using Suc.prems(2) same_log_due [OF same] by (simp add: dues_defined_def)
    moreover have "n = length (rp_records ?c) - rp_index ?c" using Suc.hyps(2) by simp
    moreover have "rp_now_ns ?c \<le> deadline" using 2(1) Suc.prems(4) by simp
    ultimately obtain res d where d: "replay_loop ?c deadline = Some (res, d)" "call_outcome ?c deadline res d"
      using Suc.hyps(1) [of ?c] Suc.prems(1) lt by auto
    have step: "replay_loop b deadline = Some (res, d)"
      using lt due 2(2) leD [OF 2(1)] d(1) by (subst replay_loop.simps) (simp add: r_def [symmetric] Let_def passes_def)
    have idx: "Suc (rp_index b) \<le> rp_index d" "rp_index d \<le> length (rp_records b)" using d(2) by (simp_all add: call_outcome_def)
    have "drop (rp_index b) (take (rp_index d) (rp_records b)) = r # drop (Suc (rp_index b)) (take (rp_index d) (rp_records b))"
      using idx lt by (simp add: r_def Cons_nth_drop_Suc [symmetric])
    then have seen2: "filter (passes b) (drop (rp_index b) (take (rp_index d) (rp_records b))) =
        filter (passes b) (drop (Suc (rp_index b)) (take (rp_index d) (rp_records b)))" using 2(2) by simp
    have "passes ?c = passes b" "due_ns ?c = due_ns b"
      using same_log_due [OF same] by (auto simp: passes_def due_ns_def)
    moreover have "rp_now_ns b \<le> rp_now_ns ?c" by simp
    ultimately have "call_outcome b deadline res d"
      using d(2) seen2 idx unfolding call_outcome_def Let_def
      by (auto simp: same_log_def split: sum.splits)
    then show ?thesis using step by blast
  next
    case 3
    let ?f = "set_timestamp_ns (lr_frame r) ?now"
    let ?d = "?c\<lparr>rp_stats := count_received (rp_stats b) (ro_timing (rp_options b)) ?f ?now\<rparr>"
    have "replay_loop b deadline = Some (Inr ?f, ?d)"
      using lt due 3(2) leD [OF 3(1)] by (subst replay_loop.simps) (simp add: r_def [symmetric] Let_def passes_def)
    moreover have "call_outcome b deadline (Inr ?f) ?d"
      using lt due 3 Suc.prems(4) seen by (auto simp: call_outcome_def same_log_def due_ns_def Let_def)
    ultimately show ?thesis by blast
  qed
qed

subsection \<open>A sequence of calls\<close>

definition budget_of :: "int \<Rightarrow> u64" where
  "budget_of t = (if t < 0 then 0 else word_of_int t)"

text \<open>A client that calls \<open>receive\<close> with these timeouts and keeps the frames it gets.\<close>

fun replay_run :: "replay \<Rightarrow> int list \<Rightarrow> (frame list \<times> replay) option" where
  "replay_run b [] = Some ([], b)"
| "replay_run b (t # ts) =
     (case replay_receive b t of
        None \<Rightarrow> None
      | Some (res, c) \<Rightarrow>
          (case replay_run c ts of
             None \<Rightarrow> None
           | Some (fs, d) \<Rightarrow> Some ((case res of Inl _ \<Rightarrow> fs | Inr f \<Rightarrow> f # fs), d)))"

definition delivers :: "replay \<Rightarrow> log_record \<Rightarrow> frame \<Rightarrow> bool" where
  "delivers b r f \<longleftrightarrow> f = set_timestamp_ns (lr_frame r) (timestamp_ns f) \<and> due_ns b r \<le> timestamp_ns f"

lemma drop_take_split:
  "i \<le> j \<Longrightarrow> j \<le> k \<Longrightarrow> drop i (take k xs) = drop i (take j xs) @ drop j (take k xs)"
proof -
  assume "i \<le> j" "j \<le> k"
  then have "take k xs = take j xs @ drop j (take k xs)" by (metis append_take_drop_id min.absorb2 min.commute take_take)
  then have "drop i (take k xs) = drop i (take j xs @ drop j (take k xs))" by simp
  also have "\<dots> = drop i (take j xs) @ drop (i - length (take j xs)) (drop j (take k xs))" by simp
  also have "drop (i - length (take j xs)) (drop j (take k xs)) = drop j (take k xs)"
  proof (cases "j \<le> length xs")
    case True
    then show ?thesis using \<open>i \<le> j\<close> by simp
  next
    case False
    then show ?thesis by simp
  qed
  finally show ?thesis .
qed

lemma replay_run_outcome:
  assumes "\<not> ro_loop (rp_options b)" and "dues_defined b" and "rp_index b \<le> length (rp_records b)" and "rp_open b"
    and "unat (rp_now_ns b) + (\<Sum>t\<leftarrow>ts. unat (budget_of t)) < 2 ^ 64"
  shows "\<exists>fs d. replay_run b ts = Some (fs, d) \<and> same_log b d \<and> rp_index b \<le> rp_index d \<and> rp_index d \<le> length (rp_records b) \<and>
    list_all2 (delivers b) (filter (passes b) (drop (rp_index b) (take (rp_index d) (rp_records b)))) fs \<and>
    sorted (map timestamp_ns fs) \<and> (\<forall>f\<in>set fs. rp_now_ns b \<le> timestamp_ns f) \<and>
    unat (rp_now_ns d) \<le> unat (rp_now_ns b) + (\<Sum>t\<leftarrow>ts. unat (budget_of t))"
  using assms
proof (induction ts arbitrary: b)
  case Nil
  then show ?case by simp
next
  case (Cons t ts)
  let ?dl = "rp_now_ns b + budget_of t"
  have dl: "unat ?dl = unat (rp_now_ns b) + unat (budget_of t)" using Cons.prems(5) by (simp add: unat_add_wrap)
  then have "rp_now_ns b \<le> ?dl" by (simp add: word_le_nat_alt)
  then obtain res c where c: "replay_loop b ?dl = Some (res, c)" "call_outcome b ?dl res c"
    using replay_loop_outcome [OF Cons.prems(1-3)] by blast
  then have recv: "replay_receive b t = Some (res, c)" using Cons.prems(4) by (simp add: replay_receive_def budget_of_def)
  have same: "same_log b c" and idx: "rp_index b \<le> rp_index c" "rp_index c \<le> length (rp_records b)"
    using c(2) by (simp_all add: call_outcome_def)
  have now: "rp_now_ns b \<le> rp_now_ns c \<and> rp_now_ns c \<le> ?dl"
    using c(2) \<open>rp_now_ns b \<le> ?dl\<close> by (auto simp: call_outcome_def Let_def split: sum.splits)
  have pd: "passes c = passes b" "delivers c = delivers b"
    using same same_log_due [OF same] by (auto simp: passes_def delivers_def due_ns_def same_log_def fun_eq_iff)
  have "dues_defined c" using Cons.prems(2) same same_log_due [OF same] by (simp add: dues_defined_def same_log_def)
  moreover have "unat (rp_now_ns c) + (\<Sum>t\<leftarrow>ts. unat (budget_of t)) < 2 ^ 64"
    using Cons.prems(5) now dl by (simp add: word_le_nat_alt)
  moreover have "\<not> ro_loop (rp_options c)" "rp_index c \<le> length (rp_records c)" "rp_open c" "rp_records c = rp_records b"
    using same Cons.prems(1,4) idx by (simp_all add: same_log_def)
  ultimately obtain fs d where d: "replay_run c ts = Some (fs, d)" "same_log c d" "rp_index c \<le> rp_index d" "rp_index d \<le> length (rp_records b)"
      "list_all2 (delivers b) (filter (passes b) (drop (rp_index c) (take (rp_index d) (rp_records b)))) fs"
      "sorted (map timestamp_ns fs)" "\<forall>f\<in>set fs. rp_now_ns c \<le> timestamp_ns f"
      "unat (rp_now_ns d) \<le> unat (rp_now_ns c) + (\<Sum>t\<leftarrow>ts. unat (budget_of t))"
    using Cons.IH [of c] pd by auto
  have "unat (rp_now_ns c) \<le> unat (rp_now_ns b) + unat (budget_of t)" using now dl by (simp add: word_le_nat_alt)
  then have time: "unat (rp_now_ns d) \<le> unat (rp_now_ns b) + (\<Sum>t\<leftarrow>t # ts. unat (budget_of t))" using d(8) by simp
  let ?fs = "case res of Inl _ \<Rightarrow> fs | Inr f \<Rightarrow> f # fs"
  have seen: "filter (passes b) (drop (rp_index b) (take (rp_index d) (rp_records b))) =
      filter (passes b) (drop (rp_index b) (take (rp_index c) (rp_records b))) @
      filter (passes b) (drop (rp_index c) (take (rp_index d) (rp_records b)))"
    by (simp only: drop_take_split [OF idx(1) d(3), of "rp_records b"] filter_append)
  have "list_all2 (delivers b) (filter (passes b) (drop (rp_index b) (take (rp_index d) (rp_records b)))) ?fs \<and>
    sorted (map timestamp_ns ?fs) \<and> (\<forall>f\<in>set ?fs. rp_now_ns b \<le> timestamp_ns f)"
  proof (cases res)
    case (Inl e)
    then have "filter (passes b) (drop (rp_index b) (take (rp_index c) (rp_records b))) = []"
      using c(2) by (simp add: call_outcome_def Let_def)
    then show ?thesis using seen d(5-7) Inl now by auto
  next
    case (Inr f)
    then obtain r where r: "filter (passes b) (drop (rp_index b) (take (rp_index c) (rp_records b))) = [r]"
        "f = set_timestamp_ns (lr_frame r) (rp_now_ns c)" "due_ns b r \<le> rp_now_ns c"
      using c(2) by (auto simp: call_outcome_def Let_def)
    have "delivers b r f" "timestamp_ns f = rp_now_ns c" using r(2,3) by (simp_all add: delivers_def set_timestamp_ns_def)
    then show ?thesis using seen r(1) d(5-7) Inr now by auto
  qed
  moreover have "replay_run b (t # ts) = Some (?fs, d)" using recv d(1) by simp
  moreover have "same_log b d" using same d(2) by (rule same_log_trans)
  ultimately show ?case using idx(1) d(3,4) time by (intro exI [of _ ?fs] exI [of _ d]) simp
qed

text \<open>The bus a client gets: constructed from the records, opened, with its filters set.\<close>

definition started_replay :: "log_record list \<Rightarrow> replay_options \<Rightarrow> filter_rule list \<Rightarrow> replay" where
  "started_replay records options flt = snd (replay_open (snd (replay_set_filters (new_replay records options) flt)))"

lemma started_fields:
  "rp_records (started_replay records options flt) = sort_key rec_ns records"
  "rp_filters (started_replay records options flt) = flt" "rp_open (started_replay records options flt)"
  "ro_loop (rp_options (started_replay records options flt)) = ro_loop options"
  "rp_index (started_replay records options flt) \<le> length (sort_key rec_ns records)"
  by (simp_all add: started_replay_def new_replay_def replay_rewind_def replay_open_def replay_set_filters_def Let_def
      length_takeWhile_le del: length_sort)

text \<open>C19. Replaying a recording that does not loop is faithful and paced: whatever timeouts the client uses (short of
  64 bits of nanoseconds in total), every call returns. After any calls what the client has received is, in order,
  exactly the records up to the current position that the filters accept, in the stable order of their time stamps;
  each frame unchanged but for its stamp, none before it is due at the replay speed, the stamps never going back, and
  the replay's clock has not run further than the timeouts granted. The next call, whose deadline is that clock and its
  timeout, returns the next accepted record when it is due by then, stamped between the two; a call that returns
  no frame has passed over no accepted record, and either the recording is exhausted or the record it stopped
  at is due only after the deadline.\<close>

theorem log_replay_in_order:
  assumes "\<not> ro_loop options" and "dues_defined (started_replay records options flt)"
    and "unat (rp_now_ns (started_replay records options flt)) + (\<Sum>t\<leftarrow>ts @ [t]. unat (budget_of t)) < 2 ^ 64"
  shows "let b = started_replay records options flt; sorted_records = sort_key rec_ns records;
        accepted = filter (\<lambda>r. accepted_by flt (frame_id (lr_frame r))) in
    \<exists>fs c res d. replay_run b ts = Some (fs, c) \<and> replay_receive c t = Some (res, d) \<and>
      list_all2 (delivers b) (accepted (drop (rp_index b) (take (rp_index c) sorted_records))) fs \<and>
      sorted (map timestamp_ns fs) \<and>
      unat (rp_now_ns c) \<le> unat (rp_now_ns b) + (\<Sum>t\<leftarrow>ts. unat (budget_of t)) \<and>
      (let deadline = rp_now_ns c + budget_of t; seen = accepted (drop (rp_index c) (take (rp_index d) sorted_records)) in
       case res of
         Inr f \<Rightarrow> (\<exists>r. seen = [r] \<and> delivers b r f \<and> rp_now_ns c \<le> timestamp_ns f \<and> timestamp_ns f \<le> deadline)
       | Inl e \<Rightarrow> seen = [] \<and> rp_now_ns d = deadline \<and>
           (if rp_index d = length sorted_records then err_code e = LogEndOfFile
            else err_code e = TransportTimeout \<and> deadline < due_ns b (sorted_records ! rp_index d)))"
proof -
  let ?b = "started_replay records options flt"
  note fields = started_fields [of records options flt]
  have loop: "\<not> ro_loop (rp_options ?b)" and idx: "rp_index ?b \<le> length (rp_records ?b)" and op: "rp_open ?b"
    and sum: "unat (rp_now_ns ?b) + (\<Sum>t\<leftarrow>ts. unat (budget_of t)) < 2 ^ 64"
    using assms(1,3) fields by simp_all
  obtain fs c where run: "replay_run ?b ts = Some (fs, c)" "same_log ?b c" "rp_index c \<le> length (rp_records ?b)"
      "list_all2 (delivers ?b) (filter (passes ?b) (drop (rp_index ?b) (take (rp_index c) (rp_records ?b)))) fs"
      "sorted (map timestamp_ns fs)" "unat (rp_now_ns c) \<le> unat (rp_now_ns ?b) + (\<Sum>t\<leftarrow>ts. unat (budget_of t))"
    using replay_run_outcome [OF loop assms(2) idx op sum] by blast
  let ?dl = "rp_now_ns c + budget_of t"
  have "unat (rp_now_ns c) + unat (budget_of t) < 2 ^ 64" using run(6) assms(3) by simp
  then have dl: "rp_now_ns c \<le> ?dl" by (simp add: word_le_nat_alt unat_add_wrap)
  have c: "\<not> ro_loop (rp_options c)" "dues_defined c" "rp_index c \<le> length (rp_records c)" "rp_open c"
    using loop assms(2) op run(2,3) same_log_due [OF run(2)] by (simp_all add: same_log_def dues_defined_def)
  obtain res d where d: "replay_loop c ?dl = Some (res, d)" "call_outcome c ?dl res d"
    using replay_loop_outcome [OF c(1-3) dl] by blast
  have same: "rp_records c = sort_key rec_ns records" "due_ns c = due_ns ?b"
      "passes c = (\<lambda>r. accepted_by flt (frame_id (lr_frame r)))" "passes ?b = (\<lambda>r. accepted_by flt (frame_id (lr_frame r)))"
    using run(2) fields same_log_due [OF run(2)] by (auto simp: same_log_def due_ns_def passes_def fun_eq_iff)
  have "replay_receive c t = Some (res, d)" using d(1) c(4) by (simp add: replay_receive_def budget_of_def)
  then show ?thesis
    using run(1,4-6) d(2) unfolding call_outcome_def Let_def same fields
    by (intro exI [of _ fs] exI [of _ c] exI [of _ res] exI [of _ d])
      (auto simp: delivers_def set_timestamp_ns_def split: sum.splits)
qed

text \<open>At an integral speed a stamp that is a multiple of it, below 2 to the 53rd after the first, converts exactly.\<close>

lemma due_exact:
  assumes "ro_speed (rp_options b) = of_integer k" and "0 < k" "k < 2 ^ 53" and "uint (rec_ns r - rp_first_ns b) = k * m"
    and "0 \<le> m" "k * m < 2 ^ 53"
  shows "due_of b r = Some (word_of_int m)"
proof -
  let ?a = "of_integer (k * m)" and ?b = "of_integer k"
  have ab: "is_finite ?a" "is_finite ?b" "dval ?a = real_of_int (k * m)" "dval ?b = real_of_int k"
    using of_integer_exact [of "k * m"] of_integer_exact [of k] assms(2-6) by simp_all
  have q: "dval ?a / dval ?b = real_of_int m" using ab(3,4) assms(2) by simp
  have "m \<le> k * m" using assms(2,5) by (simp add: mult_le_cancel_right1)
  then have m: "m < 2 ^ 53" using assms(6) by linarith
  have "real_of_int m < 2 ^ 53" using m by (metis of_int_less_iff of_int_numeral of_int_power)
  also have "(2 :: real) ^ 53 \<le> 2 powi 1023" using powi_mono [of 53 1023] by simp
  finally have lt: "\<bar>dval ?a / dval ?b\<bar> < 2 powi 1023" unfolding q using assms(5) by simp
  have eq: "\<bar>dval ?a / dval ?b\<bar> = real (nat m) * 2 powi 0" unfolding q using assms(5) by simp
  have n53: "nat m < 2 ^ 53" using m assms(5) by (simp add: nat_less_iff)
  have nz: "dval ?b \<noteq> 0" using ab(4) assms(2) by simp
  have "is_finite (d_div ?a ?b) \<and> dval (d_div ?a ?b) = dval ?a / dval ?b"
    by (rule div_exact [OF ab(1,2) nz lt eq n53]) simp
  then have "d_trunc (d_div ?a ?b) = Some m" using q d_trunc_value by simp
  then show ?thesis using assms(1,4,5) m by (simp add: due_of_def double_to_u64_def)
qed

text \<open>Three records, the second of which the filter drops, at the recorded rate.\<close>

definition replay_sample :: "log_record list" where
  "replay_sample = map (\<lambda>(t, i). new_record\<lparr>lr_frame := (empty_frame 64)\<lparr>timestamp_ns := t, frame_id := CanId i\<rparr>\<rparr>)
     [(1000, 1), (3000, 2), (2000, 1)]"

lemma sample_started:
  "rp_first_ns (started_replay replay_sample default_replay flt) = 1000"
  "ro_speed (rp_options (started_replay replay_sample default_replay flt)) = of_integer 1"
  "rp_now_ns (started_replay replay_sample default_replay flt) = 0"
proof -
  have one: "\<not> d_le (of_integer 1) dzero"
    using of_integer_exact [of 1] d_less_value [of "of_integer 1" dzero] d_eq_value [of "of_integer 1" dzero]
    by (simp add: d_le_def)
  have sorted: "map rec_ns (sort_key rec_ns replay_sample) = [1000, 2000, 3000]"
    by (simp add: replay_sample_def new_record_def)
  then have "sort_key rec_ns replay_sample \<noteq> []" "rec_ns (hd (sort_key rec_ns replay_sample)) = 1000"
    by (cases "sort_key rec_ns replay_sample", auto)+
  then show "rp_first_ns (started_replay replay_sample default_replay flt) = 1000"
    "ro_speed (rp_options (started_replay replay_sample default_replay flt)) = of_integer 1"
    "rp_now_ns (started_replay replay_sample default_replay flt) = 0"
    using one by (simp_all add: started_replay_def new_replay_def replay_rewind_def replay_open_def replay_set_filters_def
        default_replay_def Let_def)
qed

theorem log_replay_in_order_witness:
  "\<exists>fs c res d. replay_run (started_replay replay_sample default_replay [exact_filter (CanId 1)]) [500, 600] = Some (fs, c) \<and>
     replay_receive c 5000 = Some (res, d) \<and> sorted (map timestamp_ns fs) \<and> unat (rp_now_ns c) \<le> 1100"
proof -
  let ?b = "started_replay replay_sample default_replay [exact_filter (CanId 1)]"
  have "\<not> ro_loop default_replay" by (simp add: default_replay_def)
  moreover have "dues_defined ?b"
  proof -
    have "due_of ?b r \<noteq> None" if "r \<in> set replay_sample" for r
    proof -
      have "uint (rec_ns r - rp_first_ns ?b) < 2 ^ 53" using that [unfolded replay_sample_def] unfolding sample_started by auto
      then have "due_of ?b r = Some (word_of_int (uint (rec_ns r - rp_first_ns ?b)))"
        by (intro due_exact [OF sample_started(2)]) simp_all
      then show ?thesis by simp
    qed
    then show ?thesis by (simp add: dues_defined_def started_fields(1) del: sort_key_simps)
  qed
  moreover have "unat (rp_now_ns ?b) + (\<Sum>t\<leftarrow>[500, 600] @ [5000]. unat (budget_of t)) < 2 ^ 64"
    by (simp add: sample_started budget_of_def)
  ultimately show ?thesis
    using log_replay_in_order [of default_replay replay_sample "[exact_filter (CanId 1)]" "[500, 600]" 5000]
    unfolding Let_def sample_started by (fastforce simp: budget_of_def)
qed

subsection \<open>Looping\<close>

text \<open>A replay that loops and whose filters accept no record does not come back from \<open>receive\<close>, however
  small the timeout, once every record is due within it.\<close>

definition spins :: "replay \<Rightarrow> u64 \<Rightarrow> bool" where
  "spins b deadline \<longleftrightarrow> ro_loop (rp_options b) \<and> rp_records b \<noteq> [] \<and>
     (\<forall>r\<in>set (rp_records b). \<not> passes b r \<and> (\<exists>due. due_of b r = Some due \<and> due \<le> deadline))"

lemma spins_update:
  "same_log b c \<Longrightarrow> spins b deadline \<Longrightarrow> spins c deadline"
  using same_log_due [of b c] by (auto simp: spins_def same_log_def passes_def)

lemma replay_spins: "spins b deadline \<Longrightarrow> replay_loop b deadline = None"
proof -
  have "replay_loop b deadline = Some y \<Longrightarrow> \<not> spins b deadline" for y
  proof (erule replay_loop.raw_induct [of "\<lambda>b deadline y. \<not> spins b deadline", rotated])
    fix loop :: "replay \<Rightarrow> u64 \<Rightarrow> (frame result \<times> replay) option" and b :: replay and deadline y
    assume IH: "\<And>b d y. loop b d = Some y \<Longrightarrow> \<not> spins b d"
    assume body: "(if length (rp_records b) \<le> rp_index b
          then if ro_loop (rp_options b) \<and> rp_records b \<noteq> [] then loop (b\<lparr>rp_index := 0\<rparr>) deadline
               else Some (Inl (plain_error LogEndOfFile ''the recording is exhausted''), b\<lparr>rp_now_ns := deadline\<rparr>)
          else let r = rp_records b ! rp_index b
               in case due_of b r of None \<Rightarrow> None
                  | Some due \<Rightarrow>
                      if due > deadline
                      then Some (Inl (plain_error TransportTimeout ''the next recorded frame is not due yet''), b\<lparr>rp_now_ns := deadline\<rparr>)
                      else let now = max (rp_now_ns b) due; b = b\<lparr>rp_now_ns := now, rp_index := rp_index b + 1\<rparr>
                           in if \<not> accepted_by (rp_filters b) (frame_id (lr_frame r)) then loop b deadline
                              else let f = set_timestamp_ns (lr_frame r) now
                                   in Some (Inr f, b\<lparr>rp_stats := count_received (rp_stats b) (ro_timing (rp_options b)) f now\<rparr>)) = Some y"
    show "\<not> spins b deadline"
    proof
      assume s: "spins b deadline"
      show False
      proof (cases "rp_index b < length (rp_records b)")
        case False
        then have "loop (b\<lparr>rp_index := 0\<rparr>) deadline = Some y" using body s by (simp add: spins_def)
        moreover have "spins (b\<lparr>rp_index := 0\<rparr>) deadline" using s by (rule spins_update [rotated]) (simp add: same_log_def)
        ultimately show False using IH by blast
      next
        case True
        then have "rp_records b ! rp_index b \<in> set (rp_records b)" by simp
        then obtain due where due: "due_of b (rp_records b ! rp_index b) = Some due" "due \<le> deadline" "\<not> passes b (rp_records b ! rp_index b)"
          using s unfolding spins_def by blast
        let ?c = "b\<lparr>rp_now_ns := max (rp_now_ns b) due, rp_index := rp_index b + 1\<rparr>"
        have "loop ?c deadline = Some y" using body True due leD [OF due(2)] by (simp add: Let_def passes_def)
        moreover have "spins ?c deadline" using s by (rule spins_update [rotated]) (simp add: same_log_def)
        ultimately show False using IH by blast
      qed
    qed
  qed
  then show "spins b deadline \<Longrightarrow> replay_loop b deadline = None" by (cases "replay_loop b deadline") auto
qed

text \<open>After a complete lap every record counts as due at once: the second lap is not paced.\<close>

lemma second_lap_not_paced:
  assumes "ro_loop (rp_options b)" "rp_open b" "rp_index b = length (rp_records b)" "rp_records b = r # rs" "passes b r"
    and "due_of b r = Some due" "due \<le> rp_now_ns b"
  shows "\<exists>c. replay_receive b 0 = Some (Inr (set_timestamp_ns (lr_frame r) (rp_now_ns b)), c) \<and> rp_now_ns c = rp_now_ns b"
proof -
  let ?c = "b\<lparr>rp_index := 0\<rparr>"
  have "replay_loop b (rp_now_ns b) = replay_loop ?c (rp_now_ns b)"
    using assms(1,3,4) by (subst replay_loop.simps) simp
  moreover have "due_of ?c r = Some due" using assms(6) by (simp add: due_of_def)
  then have "\<exists>d. replay_loop ?c (rp_now_ns b) = Some (Inr (set_timestamp_ns (lr_frame r) (rp_now_ns b)), d) \<and> rp_now_ns d = rp_now_ns b"
    using assms(4,5,7) leD [OF assms(7)] by (subst replay_loop.simps) (simp add: Let_def passes_def max_absorb1)
  ultimately show ?thesis using assms(2) by (simp add: replay_receive_def)
qed

end
