(* ===== verification/Inflate.thy ===== *)
theory Inflate
  imports Core_Result
begin

text \<open>
  \<open>transport/src/Inflate.hpp\<close> and \<open>transport/src/Inflate.cpp\<close>: the decompressor of RFC 1951 and
  RFC 1950 that reads the containers of a BLF log. The input is the list of the bytes the code
  is handed; \<open>out\<close> is the output vector. \<open>int\<close> variables of the code stay below \<open>2 ^ 20\<close> here and
  are integers; a table index that the code computes in \<open>std::size_t\<close> is taken modulo \<open>2 ^ 64\<close>.
  The size hint only sizes an allocation and has no part in the model.
\<close>

definition kMaxInflateOutput :: nat where "kMaxInflateOutput = 256 * 1024 * 1024"

definition bad :: "string \<Rightarrow> error" where "bad why = plain_error LogBadFormat why"

definition bad_at :: "string \<Rightarrow> u32 \<Rightarrow> error" where "bad_at why w = Error LogBadFormat why (w, 0)"

subsection \<open>The bit reader\<close>

record bit_reader =
  br_data :: bytes
  br_pos :: nat
  br_buffer :: u8
  br_held :: nat
  br_overrun :: bool

definition new_reader :: "bytes \<Rightarrow> bit_reader" where
  "new_reader d = \<lparr>br_data = d, br_pos = 0, br_buffer = 0, br_held = 0, br_overrun = False\<rparr>"

text \<open>One round of the loop in \<open>bits\<close>: refill, take the lowest bit.\<close>

definition next_bit :: "bit_reader \<Rightarrow> bool option \<times> bit_reader" where
  "next_bit r =
     (let take_one = (\<lambda>r. (Some (bit (br_buffer r) 0),
                            r\<lparr>br_buffer := drop_bit 1 (br_buffer r), br_held := br_held r - 1\<rparr>)) in
      if br_held r = 0
      then if br_pos r \<ge> length (br_data r) then (None, r\<lparr>br_overrun := True\<rparr>)
           else take_one (r\<lparr>br_buffer := br_data r ! br_pos r, br_pos := br_pos r + 1, br_held := 8\<rparr>)
      else take_one r)"

fun bits_from :: "nat \<Rightarrow> nat \<Rightarrow> u32 \<Rightarrow> bit_reader \<Rightarrow> u32 \<times> bit_reader" where
  "bits_from 0 i v r = (v, r)"
| "bits_from (Suc n) i v r =
     (case next_bit r of
        (None, r') \<Rightarrow> (v, r')
      | (Some b, r') \<Rightarrow> bits_from n (Suc i) (v OR push_bit i (of_bool b)) r')"

definition bits :: "nat \<Rightarrow> bit_reader \<Rightarrow> u32 \<times> bit_reader" where
  "bits n r = bits_from n 0 0 r"

definition align_to_byte :: "bit_reader \<Rightarrow> bit_reader" where
  "align_to_byte r = r\<lparr>br_held := 0, br_buffer := 0\<rparr>"

definition copy_bytes :: "nat \<Rightarrow> bit_reader \<Rightarrow> bytes \<Rightarrow> (bool \<times> bit_reader) \<times> bytes" where
  "copy_bytes n r out =
     (if br_pos r + n > length (br_data r) then ((False, r\<lparr>br_overrun := True\<rparr>), out)
      else ((True, r\<lparr>br_pos := br_pos r + n\<rparr>), out @ take n (drop (br_pos r) (br_data r))))"

definition read_u16_le :: "bit_reader \<Rightarrow> u16 \<times> bit_reader" where
  "read_u16_le r =
     (if br_pos r + 2 > length (br_data r) then (0, r\<lparr>br_overrun := True\<rparr>)
      else let lo = ucast (br_data r ! br_pos r); hi = ucast (br_data r ! (br_pos r + 1))
           in (lo OR push_bit 8 hi, r\<lparr>br_pos := br_pos r + 2\<rparr>))"

subsection \<open>Canonical Huffman codes\<close>

definition kMaxBits :: nat where "kMaxBits = 15"

record huffman =
  huf_counts :: "u16 list"
  huf_symbols :: "u16 list"

definition empty_huffman :: huffman where
  "empty_huffman = \<lparr>huf_counts = replicate 16 0, huf_symbols = []\<rparr>"

fun count_lengths :: "u8 list \<Rightarrow> u16 list \<Rightarrow> u16 list result" where
  "count_lengths [] c = Inr c"
| "count_lengths (l # ls) c =
     (if unat l > kMaxBits then Inl (bad ''Huffman code length exceeds 15 bits'')
      else count_lengths ls (c[unat l := c ! unat l + 1]))"

fun check_subscription :: "nat list \<Rightarrow> u16 list \<Rightarrow> int \<Rightarrow> status" where
  "check_subscription [] c left = ok"
| "check_subscription (b # bs) c left =
     (let left = 2 * left - uint (c ! b) in
      if left < 0 then Inl (bad ''over-subscribed Huffman code'') else check_subscription bs c left)"

definition huffman_offsets :: "u16 list \<Rightarrow> u16 list" where
  "huffman_offsets c = foldl (\<lambda>o' b. o'[b + 1 := o' ! b + c ! b]) (replicate 16 0) [1..<15]"

definition place_symbol :: "u8 list \<Rightarrow> u16 list \<times> u16 list \<Rightarrow> nat \<Rightarrow> u16 list \<times> u16 list" where
  "place_symbol lengths st i =
     (let (syms, offs) = st; l = unat (lengths ! i) in
      if l \<noteq> 0 then (syms[unat (offs ! l) := of_nat i], offs[l := offs ! l + 1]) else (syms, offs))"

definition place_symbols :: "u8 list \<Rightarrow> u16 list \<Rightarrow> u16 list" where
  "place_symbols lengths offs =
     fst (foldl (place_symbol lengths) (replicate (length lengths) 0, offs) [0..<length lengths])"

definition huffman_build :: "u8 list \<Rightarrow> huffman result" where
  "huffman_build lengths =
     (case count_lengths lengths (replicate 16 0) of
        Inl e \<Rightarrow> Inl e
      | Inr c0 \<Rightarrow>
          let c = c0[0 := 0] in
          try_bind (check_subscription [1..<16] c 1)
            (\<lambda>_. Inr \<lparr>huf_counts = c, huf_symbols = place_symbols lengths (huffman_offsets c)\<rparr>))"

fun decode_from :: "nat list \<Rightarrow> huffman \<Rightarrow> int \<Rightarrow> int \<Rightarrow> int \<Rightarrow> bit_reader \<Rightarrow> int \<times> bit_reader" where
  "decode_from [] h code first index r = (- 1, r)"
| "decode_from (n # ns) h code first index r =
     (let (b, r) = bits 1 r; code = code OR uint b in
      if br_overrun r then (- 1, r)
      else let count = uint (huf_counts h ! n) in
        if code - first < count
        then let at = (index + (code - first)) mod 2 ^ 64 in
          if at \<ge> int (length (huf_symbols h)) then (- 1, r) else (uint (huf_symbols h ! nat at), r)
        else decode_from ns h (2 * code) (2 * (first + count)) (index + count) r)"

definition decode :: "huffman \<Rightarrow> bit_reader \<Rightarrow> int \<times> bit_reader" where
  "decode h r = decode_from [1..<16] h 0 0 0 r"

subsection \<open>Progress of the reader\<close>

text \<open>How many bits of input are left: what every loop below makes smaller.\<close>

definition remaining :: "bit_reader \<Rightarrow> nat" where
  "remaining r = br_held r + 8 * (length (br_data r) - br_pos r)"

lemma next_bit_cases:
  assumes "next_bit r = (b, r')"
  shows "b = None \<and> r' = r\<lparr>br_overrun := True\<rparr> \<or>
    b \<noteq> None \<and> Suc (remaining r') = remaining r \<and> br_overrun r' = br_overrun r"
  using assms by (auto simp: next_bit_def remaining_def Let_def split: if_splits)

lemma bits_from_remaining:
  assumes "bits_from n i v r = (x, r')"
  shows "remaining r' \<le> remaining r \<and> (br_overrun r \<longrightarrow> br_overrun r') \<and>
    (\<not> br_overrun r' \<longrightarrow> remaining r' + n = remaining r)"
  using assms
proof (induction n i v r rule: bits_from.induct)
  case (2 n i v r)
  show ?case
  proof (cases "next_bit r")
    case (Pair b r1)
    show ?thesis
    proof (cases b)
      case None
      then show ?thesis using 2(2) next_bit_cases [OF Pair] by (auto simp: Pair remaining_def)
    next
      case (Some y)
      then show ?thesis using 2(1) [of "Some y" r1 y] 2(2) next_bit_cases [OF Pair] by (auto simp: Pair)
    qed
  qed
qed auto

lemma bits_remaining:
  assumes "bits n r = (x, r')"
  shows "remaining r' \<le> remaining r" and "br_overrun r \<Longrightarrow> br_overrun r'"
    and "\<not> br_overrun r' \<Longrightarrow> remaining r' + n = remaining r"
  using bits_from_remaining [OF assms [unfolded bits_def]] by auto

lemma decode_from_step:
  assumes "bits 1 r = (b, r1)"
  shows "decode_from (n # ns) h c f k r =
    (if br_overrun r1 then (- 1, r1)
     else if (c OR uint b) - f < uint (huf_counts h ! n)
     then if (k + ((c OR uint b) - f)) mod 2 ^ 64 \<ge> int (length (huf_symbols h)) then (- 1, r1)
          else (uint (huf_symbols h ! nat ((k + ((c OR uint b) - f)) mod 2 ^ 64)), r1)
     else decode_from ns h (2 * (c OR uint b)) (2 * (f + uint (huf_counts h ! n)))
            (k + uint (huf_counts h ! n)) r1)"
  unfolding decode_from.simps assms Let_def prod.case ..

lemma decode_from_remaining:
  assumes "decode_from ns h c f k r = (s, r')"
  shows "remaining r' \<le> remaining r \<and> (br_overrun r \<longrightarrow> br_overrun r') \<and>
    (ns \<noteq> [] \<and> \<not> br_overrun r' \<longrightarrow> remaining r' < remaining r)"
  using assms
proof (induction ns arbitrary: c f k r)
  case (Cons n ns)
  obtain b r1 where b: "bits 1 r = (b, r1)" by (meson surj_pair)
  note m = bits_remaining [OF b]
  show ?case
  proof (cases "br_overrun r1 \<or> (c OR uint b) - f < uint (huf_counts h ! n)")
    case True
    then show ?thesis using Cons.prems m unfolding decode_from_step [OF b] by (auto split: if_splits)
  next
    case False
    then have e: "decode_from ns h (2 * (c OR uint b)) (2 * (f + uint (huf_counts h ! n)))
        (k + uint (huf_counts h ! n)) r1 = (s, r')"
      using Cons.prems unfolding decode_from_step [OF b] by simp
    show ?thesis using Cons.IH [OF e] m False by fastforce
  qed
qed simp

lemma decode_progress:
  assumes "decode h r = (s, r')"
  shows "remaining r' \<le> remaining r" and "br_overrun r \<Longrightarrow> br_overrun r'"
    and "\<not> br_overrun r' \<Longrightarrow> remaining r' < remaining r"
  using decode_from_remaining [OF assms [unfolded decode_def]] by auto

lemma decode_from_found:
  "decode_from ns h c f k r = (s, r') \<Longrightarrow> 0 \<le> s \<Longrightarrow> \<not> br_overrun r'"
proof (induction ns arbitrary: c f k r)
  case (Cons n ns)
  obtain b r1 where b: "bits 1 r = (b, r1)" by (meson surj_pair)
  show ?case using Cons unfolding decode_from_step [OF b] by (auto split: if_splits)
qed simp

lemma decode_found: "decode h r = (s, r') \<Longrightarrow> 0 \<le> s \<Longrightarrow> \<not> br_overrun r' \<and> remaining r' < remaining r"
  using decode_from_found decode_progress(3) by (metis decode_def)

subsection \<open>Tables\<close>

definition kLengthBase :: "nat list" where
  "kLengthBase = [3, 4, 5, 6, 7, 8, 9, 10, 11, 13, 15, 17, 19, 23, 27, 31, 35, 43, 51, 59,
     67, 83, 99, 115, 131, 163, 195, 227, 258]"

definition kLengthExtra :: "nat list" where
  "kLengthExtra = [0, 0, 0, 0, 0, 0, 0, 0, 1, 1, 1, 1, 2, 2, 2, 2, 3, 3, 3, 3, 4, 4, 4, 4, 5, 5, 5, 5, 0]"

definition kDistanceBase :: "nat list" where
  "kDistanceBase = [1, 2, 3, 4, 5, 7, 9, 13, 17, 25, 33, 49, 65, 97, 129, 193, 257, 385, 513, 769,
     1025, 1537, 2049, 3073, 4097, 6145, 8193, 12289, 16385, 24577]"

definition kDistanceExtra :: "nat list" where
  "kDistanceExtra = [0, 0, 0, 0, 1, 1, 2, 2, 3, 3, 4, 4, 5, 5, 6, 6, 7, 7, 8, 8,
     9, 9, 10, 10, 11, 11, 12, 12, 13, 13]"

definition fixed_literal_lengths :: "u8 list" where
  "fixed_literal_lengths = replicate 144 8 @ replicate 112 9 @ replicate 24 7 @ replicate 8 8"

definition fixed_distance_lengths :: "u8 list" where
  "fixed_distance_lengths = replicate 30 5"

definition fixed_tables :: "(huffman \<times> huffman) result" where
  "fixed_tables =
     try_bind (huffman_build fixed_literal_lengths)
       (\<lambda>l. try_bind (huffman_build fixed_distance_lengths) (\<lambda>d. Inr (l, d)))"

definition kOrder :: "nat list" where
  "kOrder = [16, 17, 18, 0, 8, 7, 9, 6, 10, 5, 11, 4, 12, 3, 13, 2, 14, 1, 15]"

fun read_code_lengths :: "nat list \<Rightarrow> u8 list \<Rightarrow> bit_reader \<Rightarrow> u8 list \<times> bit_reader" where
  "read_code_lengths [] ls r = (ls, r)"
| "read_code_lengths (k # ks) ls r = (case bits 3 r of (b, r') \<Rightarrow> read_code_lengths ks (ls[k := ucast b]) r')"

text \<open>
  One round of the loop that fills \<open>lengths\<close>: \<open>done\<close> is the written prefix, whose length is
  \<open>written\<close>, and \<open>total\<close> is \<open>lengths.size()\<close>.
\<close>

definition length_step :: "huffman \<Rightarrow> nat \<Rightarrow> bit_reader \<Rightarrow> u8 list \<Rightarrow> (bit_reader \<times> u8 list) result" where
  "length_step cl n_total r done' =
     (let (symbol, r) = decode cl r in
      if symbol < 0 then Inl (bad ''bad code length symbol'')
      else if symbol < 16 then Inr (r, done' @ [word_of_int symbol])
      else if symbol = 16 \<and> done' = [] then Inl (bad ''repeat code at the start of the length list'')
      else let value = (if symbol = 16 then last done' else 0);
               (extra, r) = (if symbol = 16 then bits 2 r else if symbol = 17 then bits 3 r else bits 7 r);
               repeat = (if symbol = 18 then 11 else 3) + unat extra
           in if br_overrun r \<or> length done' + repeat > n_total
              then Inl (bad ''code length repeat runs past the end of the list'')
              else Inr (r, done' @ replicate repeat value))"

lemma bits_remaining_le [simp]: "remaining (snd (bits n r)) \<le> remaining r"
  using bits_remaining(1) [of n r] by (metis prod.collapse)

lemma length_step_progress:
  assumes "length_step cl n r d = Inr (r', d')"
  shows "remaining r' < remaining r"
proof -
  obtain s r1 where e: "decode cl r = (s, r1)" by (meson surj_pair)
  have "remaining r' \<le> remaining r1 \<and> 0 \<le> s"
    using assms bits_remaining_le [of 2 r1] bits_remaining_le [of 3 r1] bits_remaining_le [of 7 r1]
    by (auto simp: length_step_def e Let_def case_prod_beta simp del: bits_remaining_le split: if_splits)
  then show ?thesis using decode_found [OF e] by simp
qed

function read_lengths :: "huffman \<Rightarrow> nat \<Rightarrow> bit_reader \<Rightarrow> u8 list \<Rightarrow> (bit_reader \<times> u8 list) result" where
  "read_lengths cl n_total r done' =
     (if length done' < n_total
      then (case length_step cl n_total r done' of
              Inl e \<Rightarrow> Inl e
            | Inr (r', done'') \<Rightarrow> read_lengths cl n_total r' done'')
      else Inr (r, done'))"
  by pat_completeness auto
termination
  by (relation "measure (\<lambda>(_, _, r, _). remaining r)") (auto dest: length_step_progress)

declare read_lengths.simps [simp del]

definition dynamic_tables :: "bit_reader \<Rightarrow> (bit_reader \<times> huffman \<times> huffman) result" where
  "dynamic_tables r =
     (let (b5, r) = bits 5 r; hlit = unat b5 + 257;
          (d5, r) = bits 5 r; hdist = unat d5 + 1;
          (c4, r) = bits 4 r; hclen = unat c4 + 4 in
      if br_overrun r \<or> hlit > 286 \<or> hdist > 30 then Inl (bad ''malformed dynamic block header'')
      else let (code_lengths, r) = read_code_lengths (take hclen kOrder) (replicate 19 0) r in
      if br_overrun r then Inl (bad ''truncated code length alphabet'')
      else try_bind (huffman_build code_lengths) (\<lambda>cl.
           try_bind (read_lengths cl (hlit + hdist) r []) (\<lambda>(r, lengths).
           try_bind (huffman_build (take hlit lengths)) (\<lambda>l.
           try_bind (huffman_build (take hdist (drop hlit lengths))) (\<lambda>d.
           Inr (r, l, d))))))"

subsection \<open>Blocks\<close>

text \<open>The byte loop of a back reference: \<open>at\<close> is \<open>from + i\<close>.\<close>

fun copy_from :: "nat \<Rightarrow> nat \<Rightarrow> bytes \<Rightarrow> bytes" where
  "copy_from 0 at out = out"
| "copy_from (Suc n) at out = copy_from n (Suc at) (out @ [out ! at])"

definition back_reference :: "nat \<Rightarrow> huffman \<Rightarrow> bit_reader \<Rightarrow> bytes \<Rightarrow> (bit_reader \<times> bytes) result" where
  "back_reference index distances r out =
     (if index \<ge> 29 then Inl (bad ''length code out of range'')
      else let (extra, r) = bits (kLengthExtra ! index) r;
               len = kLengthBase ! index + unat extra;
               (dist_symbol, r) = decode distances r in
      if dist_symbol < 0 \<or> dist_symbol \<ge> 30 then Inl (bad ''bad distance code'')
      else let (more, r) = bits (kDistanceExtra ! nat dist_symbol) r;
               distance = kDistanceBase ! nat dist_symbol + unat more in
      if br_overrun r then Inl (bad ''truncated back reference'')
      else if distance = 0 \<or> distance > length out
      then Inl (bad ''back reference points before the start of the output'')
      else if length out + len > kMaxInflateOutput
      then Inl (bad ''decompressed output exceeds the size limit'')
      else Inr (r, copy_from len (length out - distance) out))"

text \<open>One round of the symbol loop: whether the block ended, the reader and the output.\<close>

definition symbol_step :: "huffman \<Rightarrow> huffman \<Rightarrow> bit_reader \<Rightarrow> bytes \<Rightarrow> (bool \<times> bit_reader \<times> bytes) result" where
  "symbol_step literals distances r out =
     (let (symbol, r) = decode literals r in
      if symbol < 0 then Inl (bad ''bad literal or length code'')
      else if length out \<ge> kMaxInflateOutput then Inl (bad ''decompressed output exceeds the size limit'')
      else if symbol < 256 then Inr (False, r, out @ [word_of_int symbol])
      else if symbol = 256 then Inr (True, r, out)
      else result_map (Pair False) (back_reference (nat (symbol - 257)) distances r out))"

lemma back_reference_progress:
  assumes "back_reference i d r out = Inr (r', out')"
  shows "remaining r' \<le> remaining r"
proof -
  obtain x r1 where a: "bits (kLengthExtra ! i) r = (x, r1)" by (meson surj_pair)
  obtain s r2 where b: "decode d r1 = (s, r2)" by (meson surj_pair)
  obtain y r3 where c: "bits (kDistanceExtra ! nat s) r2 = (y, r3)" by (meson surj_pair)
  have "r' = r3" using assms by (simp add: back_reference_def a b c Let_def split: if_splits)
  then show ?thesis using bits_remaining(1) [OF a] decode_progress(1) [OF b] bits_remaining(1) [OF c] by simp
qed

lemma symbol_step_progress:
  assumes "symbol_step l d r out = Inr (e, r', out')"
  shows "remaining r' < remaining r"
proof -
  obtain s r1 where a: "decode l r = (s, r1)" by (meson surj_pair)
  have "remaining r' \<le> remaining r1 \<and> 0 \<le> s"
    using assms by (auto simp: symbol_step_def a result_map_def split: if_splits sum.splits
      dest: back_reference_progress)
  then show ?thesis using decode_found [OF a] by simp
qed

function inflate_symbols :: "huffman \<Rightarrow> huffman \<Rightarrow> bit_reader \<Rightarrow> bytes \<Rightarrow> (bit_reader \<times> bytes) result" where
  "inflate_symbols literals distances r out =
     (case symbol_step literals distances r out of
        Inl e \<Rightarrow> Inl e
      | Inr (ended, r', out') \<Rightarrow>
          if ended then Inr (r', out') else inflate_symbols literals distances r' out')"
  by pat_completeness auto
termination
  by (relation "measure (\<lambda>(_, _, r, _). remaining r)") (auto dest: symbol_step_progress)

declare inflate_symbols.simps [simp del]

definition stored_block :: "bit_reader \<Rightarrow> bytes \<Rightarrow> (bit_reader \<times> bytes) result" where
  "stored_block r out =
     (let r = align_to_byte r;
          (len, r) = read_u16_le r;
          (inverse, r) = read_u16_le r in
      if br_overrun r then Inl (bad ''truncated stored block header'')
      else if NOT len \<noteq> inverse then Inl (bad ''stored block length does not match its complement'')
      else if length out + unat len > kMaxInflateOutput
      then Inl (bad ''decompressed output exceeds the size limit'')
      else let ((copied, r), out) = copy_bytes (unat len) r out in
      if \<not> copied then Inl (bad ''stored block runs past the end of the input'')
      else Inr (r, out))"

text \<open>One round of the block loop: whether the block was the last, the reader and the output.\<close>

definition block_step :: "bit_reader \<Rightarrow> bytes \<Rightarrow> (bool \<times> bit_reader \<times> bytes) result" where
  "block_step r out =
     (let (f, r) = bits 1 r; final_block = f \<noteq> 0;
          (type, r) = bits 2 r in
      if br_overrun r then Inl (bad ''truncated block header'')
      else if type = 0 then result_map (Pair final_block) (stored_block r out)
      else if type = 3 then Inl (bad ''reserved block type'')
      else try_bind (if type = 1 then result_map (Pair r) fixed_tables else dynamic_tables r)
             (\<lambda>(r, literals, distances).
                result_map (Pair final_block) (inflate_symbols literals distances r out)))"

lemma inflate_symbols_progress:
  "inflate_symbols l d r out = Inr (r', out') \<Longrightarrow> remaining r' < remaining r"
proof (induction l d r out rule: inflate_symbols.induct)
  case (1 l d r out)
  show ?case
  proof (cases "symbol_step l d r out")
    case (Inl e)
    then show ?thesis using 1(2) by (simp add: inflate_symbols.simps)
  next
    case (Inr x)
    obtain ended r1 out1 where x: "x = (ended, r1, out1)" by (cases x) auto
    have p: "remaining r1 < remaining r" using Inr x by (auto dest: symbol_step_progress)
    show ?thesis
    proof (cases ended)
      case True
      then show ?thesis using 1(2) p Inr x by (simp add: inflate_symbols.simps [of l d r])
    next
      case False
      then have "inflate_symbols l d r1 out1 = Inr (r', out')"
        using 1(2) Inr x by (simp add: inflate_symbols.simps [of l d r])
      then show ?thesis using 1(1) [OF Inr [unfolded x] refl refl False] p by simp
    qed
  qed
qed

lemma stored_block_progress:
  assumes "stored_block r out = Inr (r', out')"
  shows "remaining r' \<le> remaining r"
  using assms
  by (auto simp: stored_block_def read_u16_le_def align_to_byte_def copy_bytes_def remaining_def Let_def
      split: if_splits)

lemma read_code_lengths_remaining:
  "read_code_lengths ks ls r = (ls', r') \<Longrightarrow> remaining r' \<le> remaining r"
proof (induction ks arbitrary: ls r)
  case (Cons k ks)
  obtain b r1 where b: "bits 3 r = (b, r1)" by (meson surj_pair)
  show ?case using Cons bits_remaining(1) [OF b] by (fastforce simp: b)
qed simp

lemma read_lengths_remaining:
  "read_lengths cl n r d = Inr (r', d') \<Longrightarrow> remaining r' \<le> remaining r"
proof (induction cl n r d rule: read_lengths.induct)
  case (1 cl n r d)
  show ?case
  proof (cases "length d < n")
    case True
    obtain r1 d1 where s: "length_step cl n r d = Inr (r1, d1)"
      using 1(2) True by (auto simp: read_lengths.simps [of cl n r] split: sum.splits)
    then have "read_lengths cl n r1 d1 = Inr (r', d')"
      using 1(2) True by (simp add: read_lengths.simps [of cl n r])
    then show ?thesis using 1(1) [OF True s refl] length_step_progress [OF s] by simp
  qed (use 1(2) in \<open>simp add: read_lengths.simps\<close>)
qed

lemma dynamic_tables_progress:
  assumes "dynamic_tables r = Inr (r', l, d)"
  shows "remaining r' \<le> remaining r"
proof -
  obtain x1 r1 where a: "bits 5 r = (x1, r1)" by (meson surj_pair)
  obtain x2 r2 where b: "bits 5 r1 = (x2, r2)" by (meson surj_pair)
  obtain x3 r3 where c: "bits 4 r2 = (x3, r3)" by (meson surj_pair)
  obtain cls r4 where e: "read_code_lengths (take (unat x3 + 4) kOrder) (replicate 19 0) r3 = (cls, r4)"
    by (meson surj_pair)
  have "\<exists>cl n d. read_lengths cl n r4 [] = Inr (r', d)"
    using assms by (auto simp: dynamic_tables_def a b c e Let_def try_bind_Inr_iff split: if_splits)
  then have "remaining r' \<le> remaining r4" using read_lengths_remaining by blast
  then show ?thesis
    using bits_remaining(1) [OF a] bits_remaining(1) [OF b] bits_remaining(1) [OF c]
      read_code_lengths_remaining [OF e] by simp
qed

lemma block_step_progress:
  assumes "block_step r out = Inr (f, r', out')"
  shows "remaining r' < remaining r"
proof -
  obtain x1 r1 where a: "bits 1 r = (x1, r1)" by (meson surj_pair)
  obtain x2 r2 where b: "bits 2 r1 = (x2, r2)" by (meson surj_pair)
  have nb: "\<not> br_overrun r2" using assms by (auto simp: block_step_def a [simplified] b)
  then have "\<not> br_overrun r1" using bits_remaining(2) [OF b] by blast
  then have lt: "remaining r2 < remaining r"
    using bits_remaining(3) [OF a] bits_remaining(1) [OF b] by linarith
  have "remaining r' \<le> remaining r2"
    using assms nb
    by (auto simp: block_step_def a [simplified] b Let_def result_map_Inr_iff try_bind_Inr_iff less_imp_le
        split: if_splits dest!: stored_block_progress dynamic_tables_progress inflate_symbols_progress)
  then show ?thesis using lt by simp
qed

function inflate_blocks :: "bit_reader \<Rightarrow> bytes \<Rightarrow> bytes result" where
  "inflate_blocks r out =
     (case block_step r out of
        Inl e \<Rightarrow> Inl e
      | Inr (final_block, r', out') \<Rightarrow> if final_block then Inr out' else inflate_blocks r' out')"
  by pat_completeness auto
termination
  by (relation "measure (\<lambda>(r, _). remaining r)") (auto dest: block_step_progress)

declare inflate_blocks.simps [simp del]

definition inflate_raw :: "bytes \<Rightarrow> bytes result" where
  "inflate_raw d = inflate_blocks (new_reader d) []"

subsection \<open>The zlib wrapper\<close>

definition kMod :: u32 where "kMod = 65521"

definition adler_step :: "u32 \<times> u32 \<Rightarrow> u8 \<Rightarrow> u32 \<times> u32" where
  "adler_step s c = (let a = (fst s + ucast c) mod kMod in (a, (snd s + a) mod kMod))"

definition adler32 :: "bytes \<Rightarrow> u32" where
  "adler32 d = (let (a, b) = foldl adler_step (1, 0) d in push_bit 16 b OR a)"

definition stored_checksum :: "bytes \<Rightarrow> u32" where
  "stored_checksum t = push_bit 24 (ucast (t ! 0)) OR push_bit 16 (ucast (t ! 1)) OR
     push_bit 8 (ucast (t ! 2)) OR ucast (t ! 3)"

definition inflate_zlib :: "bytes \<Rightarrow> bytes result" where
  "inflate_zlib d =
     (if length d < 6 then Inl (bad ''zlib stream is too short to contain a header and a checksum'')
      else let cmf = d ! 0; flg = d ! 1 in
      if cmf AND 0x0F \<noteq> 8 then Inl (bad_at ''zlib compression method is not deflate'' (ucast cmf))
      else if (push_bit 8 (ucast cmf) OR ucast flg :: u32) mod 31 \<noteq> 0
      then Inl (bad ''zlib header check bits are wrong'')
      else if flg AND 0x20 \<noteq> 0 then Inl (bad ''zlib preset dictionaries are not supported'')
      else try_bind (inflate_raw (take (length d - 6) (drop 2 d)))
             (\<lambda>out. if stored_checksum (drop (length d - 4) d) \<noteq> adler32 out
                    then Inl (bad ''zlib checksum mismatch: the container is corrupt'')
                    else Inr out))"

end
