(* ===== verification/BlfLog.thy ===== *)
theory BlfLog
  imports LogFormat Inflate
begin

text \<open>
  \<open>transport/src/BlfLog.cpp\<close>: the reader of Vector's binary traces. A file is a header and a sequence of
  objects; a container object holds more objects, compressed. The reader keeps the bytes of the file and
  of the container it is in. Reading an object is \<open>None\<close> where the code assigns a vector from its own
  elements, and \<open>next\<close> is \<open>None\<close> where it does not return.
\<close>

subsection \<open>Little-endian fields\<close>

definition read_u16 :: "bytes \<Rightarrow> nat \<Rightarrow> u16" where
  "read_u16 p at = ucast (p ! at) OR push_bit 8 (ucast (p ! (at + 1)))"

definition read_u32 :: "bytes \<Rightarrow> nat \<Rightarrow> u32" where
  "read_u32 p at = ucast (p ! at) OR push_bit 8 (ucast (p ! (at + 1))) OR push_bit 16 (ucast (p ! (at + 2))) OR
     push_bit 24 (ucast (p ! (at + 3)))"

definition read_u64 :: "bytes \<Rightarrow> nat \<Rightarrow> u64" where
  "read_u64 p at = ucast (read_u32 p at) OR push_bit 32 (ucast (read_u32 p (at + 4)))"

definition blf_malformed :: "string \<Rightarrow> u32 \<Rightarrow> error" where
  "blf_malformed why at = Error LogBadFormat why (at, 0)"

definition kObjCanMessage :: u32 where "kObjCanMessage = 1"
definition kObjLogContainer :: u32 where "kObjLogContainer = 10"
definition kObjCanMessage2 :: u32 where "kObjCanMessage2 = 86"
definition kObjCanFdMessage :: u32 where "kObjCanFdMessage = 100"
definition kObjCanFdMessage64 :: u32 where "kObjCanFdMessage64 = 101"
definition kTimeTenMics :: u32 where "kTimeTenMics = 1"
definition kTimeOneNans :: u32 where "kTimeOneNans = 2"

subsection \<open>Objects\<close>

record object_header =
  oh_header_size :: u16
  oh_header_version :: u16
  oh_object_size :: u32
  oh_object_type :: u32
  oh_flags :: u32
  oh_timestamp :: u64
  oh_payload_offset :: nat

definition blf_timestamp_ns :: "object_header \<Rightarrow> u64" where
  "blf_timestamp_ns h =
     (if oh_flags h AND kTimeOneNans \<noteq> 0 then oh_timestamp h
      else if oh_flags h AND kTimeTenMics \<noteq> 0 then oh_timestamp h * 10000
      else oh_timestamp h * 10000)"

definition blf_id :: "u32 \<Rightarrow> can_id result" where
  "blf_id raw_id = (if raw_id AND 0x80000000 \<noteq> 0 then extended_id (raw_id AND 0x1FFFFFFF) else standard_id (raw_id AND 0x7FF))"

definition blf_record :: "frame \<Rightarrow> u16 \<Rightarrow> u8 \<Rightarrow> log_record" where
  "blf_record f channel fl =
     \<lparr>lr_frame = f, lr_channel = ''can'' @ dec_plain (unat channel), lr_is_rx = (fl AND 1 = 0)\<rparr>"

definition parse_can_message :: "object_header \<Rightarrow> bytes \<Rightarrow> log_record result" where
  "parse_can_message h p =
     (if length p < 16 then Inl (blf_malformed ''truncated CAN_MESSAGE object'' 0)
      else
        let fl = p ! 2; dlc = p ! 3 in
        try_bind (blf_id (read_u32 p 4)) (\<lambda>i.
          let frame_fl = (if fl AND 0x80 \<noteq> 0 then flag_rtr else flag_none);
              len = (if dlc > 8 then 8 else unat dlc)
          in result_map (\<lambda>f. blf_record f (read_u16 p 0) fl)
               (make_frame_of 64 i (Some (drop 8 p)) len frame_fl (blf_timestamp_ns h))))"

definition parse_can_fd_message :: "object_header \<Rightarrow> bytes \<Rightarrow> log_record result" where
  "parse_can_fd_message h p =
     (if length p < 24 then Inl (blf_malformed ''truncated CAN_FD_MESSAGE object'' 0)
      else
        let fl = p ! 2; dlc = p ! 3; fd_flags = p ! 13; valid_bytes = p ! 14 in
        try_bind (blf_id (read_u32 p 4)) (\<lambda>i.
          let edl = (fd_flags AND 1 \<noteq> 0);
              frame_fl = (if edl then flag_fd OR (if fd_flags AND 2 \<noteq> 0 then flag_brs else 0) OR
                                     (if fd_flags AND 4 \<noteq> 0 then flag_esi else 0)
                          else flag_none);
              len = (if valid_bytes = 0 \<or> valid_bytes > 64 then unat (dlc_to_length dlc edl) else unat valid_bytes)
          in if 24 + len > length p
             then Inl (blf_malformed ''CAN FD payload runs past the end of the object'' 0)
             else result_map (\<lambda>f. blf_record f (read_u16 p 0) fl)
                    (make_frame_of 64 i (Some (drop 24 p)) len frame_fl (blf_timestamp_ns h))))"

definition lobj :: bytes where "lobj = [0x4C, 0x4F, 0x42, 0x4A]"
definition logg :: bytes where "logg = [0x4C, 0x4F, 0x47, 0x47]"

definition read_header :: "bytes \<Rightarrow> nat \<Rightarrow> object_header result" where
  "read_header data at =
     (if at + 16 > length data then Inl (blf_malformed ''truncated object header'' 0)
      else if take 4 (drop at data) \<noteq> lobj then Inl (blf_malformed ''missing the LOBJ signature'' (of_nat at))
      else
        let header_size = read_u16 data (at + 4);
            object_size = read_u32 data (at + 8)
        in if object_size < 16 \<or> at + unat object_size > length data
           then Inl (blf_malformed ''object size runs past the end of the data'' object_size)
           else
             let long = (header_size \<ge> 32 \<and> at + 32 \<le> length data);
                 h = \<lparr>oh_header_size = header_size, oh_header_version = read_u16 data (at + 6), oh_object_size = object_size,
                      oh_object_type = read_u32 data (at + 12),
                      oh_flags = (if long then read_u32 data (at + 16) else 0),
                      oh_timestamp = (if long then read_u64 data (at + 24) else 0),
                      oh_payload_offset = (if long then at + unat header_size
                                           else at + (if header_size \<ge> 16 then unat header_size else 16))\<rparr>
             in if oh_payload_offset h > at + unat object_size
                then Inl (blf_malformed ''object header is larger than the object'' 0)
                else Inr h)"

text \<open>The size of an object with its padding.\<close>

definition aligned :: "u32 \<Rightarrow> nat" where
  "aligned n = unat ((ucast (n + 3) :: u64) AND NOT 3)"

text \<open>The contents of a container, from the data that follow its object at \<open>after\<close>. Positions are
  \<open>size_t\<close>: where the object's end was cut to the end of the data the subtraction can go below zero.\<close>

definition container_start :: "bytes \<Rightarrow> u64 \<Rightarrow> u64 \<Rightarrow> u16 \<Rightarrow> u32 \<Rightarrow> u64" where
  "container_start data body object_end meth uncompressed_size =
     (let plausible = (\<lambda>candidate.
            candidate + 2 \<le> object_end \<and>
            (if meth = 0 then object_end - candidate = ucast uncompressed_size
             else
               let cmf = data ! unat candidate; flg = data ! unat (candidate + 1)
               in cmf AND 0x0F = 8 \<and> (push_bit 8 (ucast cmf) OR ucast flg :: u32) mod 31 = 0))
      in if plausible (body + 12) then body + 12
         else if plausible (body + 16) then body + 16
         else 0)"

definition unpack_container :: "bytes \<Rightarrow> nat \<Rightarrow> object_header \<Rightarrow> (bytes \<times> u16) result" where
  "unpack_container data after h =
     (let object_start = of_nat after - of_nat (aligned (oh_object_size h)) :: u64;
          object_end = object_start + ucast (oh_object_size h);
          body = object_start + 16
      in if body + 12 > object_end then Inl (blf_malformed ''truncated log container header'' 0)
         else
           let meth = read_u16 data (unat body);
               uncompressed_size = read_u32 data (unat (body + 8))
           in if unat uncompressed_size > kMaxInflateOutput
              then Inl (blf_malformed ''log container claims an implausible uncompressed size'' uncompressed_size)
              else
                let start = container_start data body object_end meth uncompressed_size
                in if start = 0 then Inl (blf_malformed ''cannot locate the container payload'' 0)
                   else
                     let packed = take (unat (object_end - start)) (drop (unat start) data)
                     in if meth = 0 then Inr (packed, meth)
                        else result_map (\<lambda>out. (out, meth)) (inflate_zlib packed))"

subsection \<open>The reader\<close>

record blf_reader =
  blf_bytes :: bytes
  blf_inner :: bytes
  blf_pos :: nat
  blf_inner_pos :: nat

definition blf_open :: "bytes \<Rightarrow> blf_reader result" where
  "blf_open content =
     (if length content < 144 then Inl (blf_malformed ''the file is shorter than a BLF header'' 0)
      else if take 4 content \<noteq> logg then Inl (blf_malformed ''missing the LOGG signature'' 0)
      else
        let header_size = read_u32 content 4
        in if header_size < 16 \<or> unat header_size > length content
           then Inl (blf_malformed ''implausible BLF header size'' header_size)
           else Inr \<lparr>blf_bytes = content, blf_inner = [], blf_pos = unat header_size, blf_inner_pos = 0\<rparr>)"

text \<open>\<open>read_object\<close> on \<open>data\<close> at a position: the result, the position after the object, and the contents of
  the container it was, with the method they were stored by.\<close>

definition read_object :: "bytes \<Rightarrow> nat \<Rightarrow> log_record result \<times> nat \<times> (bytes \<times> u16) option" where
  "read_object data cursor =
     (case read_header data cursor of
        Inl e \<Rightarrow> (Inl e, cursor, None)
      | Inr h \<Rightarrow>
          let next = cursor + aligned (oh_object_size h);
              payload = take (cursor + unat (oh_object_size h) - oh_payload_offset h) (drop (oh_payload_offset h) data);
              after = (if next > length data then length data else next);
              ty = oh_object_type h
          in if ty = kObjLogContainer then
               (case unpack_container data after h of
                  Inl e \<Rightarrow> (Inl e, after, None)
                | Inr c \<Rightarrow> (Inl (plain_error LogEndOfFile ''container consumed''), after, Some c))
             else if ty = kObjCanMessage \<or> ty = kObjCanMessage2 then (parse_can_message h payload, after, None)
             else if ty = kObjCanFdMessage \<or> ty = kObjCanFdMessage64 then (parse_can_fd_message h payload, after, None)
             else (Inl (plain_error LogEndOfFile ''not a CAN object''), after, None))"

text \<open>The two places \<open>next\<close> reads from. In the container the position is a reference to \<open>inner_pos_\<close>, which
  a nested container sets back to zero; one stored without compression is assigned from itself.\<close>

definition read_inner :: "blf_reader \<Rightarrow> (log_record result \<times> blf_reader) option" where
  "read_inner r =
     (let (res, after, contents) = read_object (blf_inner r) (blf_inner_pos r) in
      case contents of
        None \<Rightarrow> Some (res, r\<lparr>blf_inner_pos := after\<rparr>)
      | Some (c, meth) \<Rightarrow> if meth = 0 then None else Some (res, r\<lparr>blf_inner := c, blf_inner_pos := 0\<rparr>))"

definition read_outer :: "blf_reader \<Rightarrow> log_record result \<times> blf_reader" where
  "read_outer r =
     (let (res, after, contents) = read_object (blf_bytes r) (blf_pos r); r = r\<lparr>blf_pos := after\<rparr> in
      case contents of
        None \<Rightarrow> (res, r)
      | Some (c, meth) \<Rightarrow> (res, r\<lparr>blf_inner := c, blf_inner_pos := 0\<rparr>))"

definition skips :: "log_record result \<Rightarrow> bool" where
  "skips res \<longleftrightarrow> (case res of Inl e \<Rightarrow> err_code e = LogEndOfFile | Inr _ \<Rightarrow> False)"

partial_function (option) blf_next :: "blf_reader \<Rightarrow> (log_record result \<times> blf_reader) option" where
  "blf_next r =
     (if blf_inner_pos r < length (blf_inner r) then
        (case read_inner r of
           None \<Rightarrow> None
         | Some (res, r) \<Rightarrow> if skips res then blf_next r else Some (res, r))
      else
        let r = r\<lparr>blf_inner := [], blf_inner_pos := 0\<rparr> in
        if blf_pos r \<ge> length (blf_bytes r) then Some (Inl (plain_error LogEndOfFile ''end of BLF log''), r)
        else
          (case read_outer r of (res, r) \<Rightarrow> if skips res then blf_next r else Some (res, r)))"

partial_function (option) blf_read_all :: "blf_reader \<Rightarrow> log_record list result option" where
  "blf_read_all r =
     (case blf_next r of
        None \<Rightarrow> None
      | Some (Inl e, _) \<Rightarrow> Some (if err_code e = LogEndOfFile then Inr [] else Inl e)
      | Some (Inr rec, r') \<Rightarrow>
          Option.bind (blf_read_all r') (\<lambda>rest. Some (result_map (\<lambda>rs. rec # rs) rest)))"

end
