(* ===== verification/Inflate_Bits.thy ===== *)
theory Inflate_Bits
  imports Inflate
begin

text \<open>
  The bit reader and the canonical codes against their specifications: the reader is a cursor over
  the stream of the input's bits, lowest bit of a byte first, and \<open>decode\<close> inverts the code that RFC
  1951, section 3.2.2, assigns to the lengths \<open>Huffman::build\<close> was given.
\<close>

subsection \<open>The stream\<close>

definition byte_bits :: "u8 \<Rightarrow> bool list" where
  "byte_bits b = map (bit b) [0..<8]"

definition bytes_bits :: "bytes \<Rightarrow> bool list" where
  "bytes_bits d = concat (map byte_bits d)"

definition stream :: "bit_reader \<Rightarrow> bool list" where
  "stream r = map (bit (br_buffer r)) [0..<br_held r] @ bytes_bits (drop (br_pos r) (br_data r))"

lemma length_byte_bits [simp]: "length (byte_bits b) = 8"
  by (simp add: byte_bits_def)

lemma bytes_bits_simps [simp]:
  "bytes_bits [] = []"
  "bytes_bits (b # d) = byte_bits b @ bytes_bits d"
  "bytes_bits (xs @ ys) = bytes_bits xs @ bytes_bits ys"
  by (simp_all add: bytes_bits_def)

lemma length_bytes_bits [simp]: "length (bytes_bits d) = 8 * length d"
  by (induction d) auto

lemma bytes_bits_drop: "bytes_bits (drop n d) = drop (8 * n) (bytes_bits d)"
  by (induction d arbitrary: n) (auto simp: drop_Cons split: nat.splits)

lemma bytes_bits_take: "bytes_bits (take n d) = take (8 * n) (bytes_bits d)"
  by (induction d arbitrary: n) (auto simp: take_Cons split: nat.splits)

lemma length_stream: "length (stream r) = remaining r"
  by (simp add: stream_def remaining_def)

lemma stream_new [simp]: "stream (new_reader d) = bytes_bits d"
  by (simp add: stream_def new_reader_def)

lemma stream_overrun [simp]: "stream (r\<lparr>br_overrun := b\<rparr>) = stream r"
  by (simp add: stream_def)

text \<open>A reader holds at most seven bits between two calls.\<close>

definition sound_reader :: "bit_reader \<Rightarrow> bool" where
  "sound_reader r \<longleftrightarrow> br_held r < 8 \<and> \<not> br_overrun r"

lemma sound_new [simp]: "sound_reader (new_reader d)"
  by (simp add: sound_reader_def new_reader_def)

lemma held_is_mod:
  assumes "sound_reader r"
  shows "br_held r = length (stream r) mod 8"
  using assms by (simp add: length_stream remaining_def sound_reader_def)

lemma map_bit_shift: "map (bit (drop_bit (Suc 0) (w :: u8))) [0..<n] = map (bit w) [Suc 0..<Suc n]"
proof -
  have "map (bit w) [Suc 0..<Suc n] = map (bit w) (map Suc [0..<n])" by (simp add: map_Suc_upt)
  then show ?thesis by (simp add: bit_drop_bit_eq comp_def del: upt_Suc)
qed

lemma next_bit_stream:
  assumes "sound_reader r"
  shows "case stream r of
      [] \<Rightarrow> next_bit r = (None, r\<lparr>br_overrun := True\<rparr>)
    | b # bs \<Rightarrow> \<exists>r'. next_bit r = (Some b, r') \<and> stream r' = bs \<and> sound_reader r' \<and> br_data r' = br_data r"
proof (cases "br_held r = 0")
  case True
  show ?thesis
  proof (cases "br_pos r < length (br_data r)")
    case False
    then show ?thesis using True by (simp add: stream_def next_bit_def)
  next
    case F: True
    let ?w = "br_data r ! br_pos r"
    have s: "stream r = bit ?w 0 # map (bit ?w) [Suc 0..<8] @ bytes_bits (drop (Suc (br_pos r)) (br_data r))"
      using True F by (simp add: stream_def Cons_nth_drop_Suc [symmetric] byte_bits_def upt_conv_Cons)
    have e: "map (bit ?w) [Suc 0..<8] = map (bit (drop_bit 1 ?w)) [0..<7]"
      using map_bit_shift [of ?w 7] by (simp del: upt_Suc)
    show ?thesis unfolding s list.case
      using True F assms by (simp add: next_bit_def sound_reader_def stream_def e del: upt_Suc)
  qed
next
  case False
  then obtain h where h: "br_held r = Suc h" by (cases "br_held r") auto
  have s: "stream r = bit (br_buffer r) 0 # map (bit (br_buffer r)) [Suc 0..<Suc h]
      @ bytes_bits (drop (br_pos r) (br_data r))"
    by (simp add: stream_def h upt_conv_Cons del: upt_Suc)
  show ?thesis unfolding s list.case
    using h assms by (simp add: next_bit_def sound_reader_def stream_def map_bit_shift del: upt_Suc)
qed

text \<open>The value of a list of bits, lowest first.\<close>

fun le_value :: "bool list \<Rightarrow> nat" where
  "le_value [] = 0"
| "le_value (b # bs) = of_bool b + 2 * le_value bs"

lemma le_value_less: "le_value bs < 2 ^ length bs"
  by (induction bs) (auto simp: of_bool_def)

lemma le_value_horner: "le_value bs = horner_sum of_bool 2 bs"
  by (induction bs) auto

lemma bits_from_stream:
  assumes "sound_reader r" and "n \<le> length (stream r)" and "i + n \<le> 32" and "unat v < 2 ^ i"
  shows "\<exists>x r'. bits_from n i v r = (x, r') \<and> unat x = unat v + 2 ^ i * le_value (take n (stream r)) \<and>
    stream r' = drop n (stream r) \<and> sound_reader r' \<and> br_data r' = br_data r"
  using assms
proof (induction n arbitrary: i v r)
  case (Suc n)
  obtain b bs where s: "stream r = b # bs" using Suc.prems(2) by (cases "stream r") auto
  obtain r1 where r1: "next_bit r = (Some b, r1)" "stream r1 = bs" "sound_reader r1" "br_data r1 = br_data r"
    using next_bit_stream [OF Suc.prems(1)] s by auto
  define v1 where "v1 = v OR push_bit i (of_bool b)"
  have i: "i < 32" using Suc.prems(3) by simp
  have "unat (push_bit i (of_bool b :: u32)) = push_bit i (of_bool b)"
    using unat_push_bit_small [of "of_bool b :: u32" i] power_strict_increasing [of i 32 "2::nat"] i
    by (cases b) (auto simp: push_bit_eq_mult)
  then have "unat v1 = push_bit i (of_bool b) OR unat v"
    by (simp add: v1_def unsigned_or_eq or.commute)
  also have "\<dots> = of_bool b * 2 ^ i + unat v" by (rule or_shift_add [OF Suc.prems(4)])
  finally have u: "unat v1 = unat v + 2 ^ i * of_bool b" by simp
  have "unat v1 < 2 ^ Suc i" using u Suc.prems(4) by (cases b) auto
  from Suc.IH [OF r1(3) _ _ this]
  show ?case using Suc.prems r1 s u by (fastforce simp: v1_def [symmetric] algebra_simps)
qed auto

lemma bits_stream:
  assumes "sound_reader r" and "n \<le> length (stream r)" and "n \<le> 32"
  obtains x r' where "bits n r = (x, r')" "unat x = le_value (take n (stream r))"
    "stream r' = drop n (stream r)" "sound_reader r'" "br_data r' = br_data r"
  using bits_from_stream [OF assms(1,2), of 0 0] assms(3) that by (auto simp: bits_def)

lemma bits_stream_short:
  assumes "sound_reader r" and "length (stream r) < n"
  shows "br_overrun (snd (bits n r))"
proof -
  have "\<lbrakk>sound_reader r; length (stream r) < n\<rbrakk> \<Longrightarrow> br_overrun (snd (bits_from n i v r))" for n i v r
  proof (induction n arbitrary: i v r)
    case (Suc n)
    show ?case
    proof (cases "stream r")
      case Nil
      then show ?thesis using next_bit_stream [OF Suc.prems(1)] by simp
    next
      case (Cons b bs)
      then obtain r1 where r1: "next_bit r = (Some b, r1)" "stream r1 = bs" "sound_reader r1"
        using next_bit_stream [OF Suc.prems(1)] by auto
      have "length (stream r1) < n" using Suc.prems(2) Cons r1 by simp
      then show ?thesis using Suc.IH [OF r1(3)] by (simp add: r1)
    qed
  qed simp
  then show ?thesis using assms by (simp add: bits_def)
qed

subsection \<open>Byte-aligned reads\<close>

lemma stream_align:
  assumes "sound_reader r"
  shows "stream (align_to_byte r) = drop (length (stream r) mod 8) (stream r)"
    and "sound_reader (align_to_byte r)" and "br_held (align_to_byte r) = 0"
proof -
  have "stream (align_to_byte r) = drop (br_held r) (stream r)" by (simp add: align_to_byte_def stream_def)
  then show "stream (align_to_byte r) = drop (length (stream r) mod 8) (stream r)"
    unfolding held_is_mod [OF assms] .
qed (use assms in \<open>simp_all add: align_to_byte_def sound_reader_def\<close>)

lemma aligned_stream: "br_held r = 0 \<Longrightarrow> stream r = bytes_bits (drop (br_pos r) (br_data r))"
  by (simp add: stream_def)

lemma copy_bytes_stream:
  assumes "br_held r = 0" and "drop (br_pos r) (br_data r) = xs @ ys" and "br_pos r \<le> length (br_data r)"
  shows "copy_bytes (length xs) r out = ((True, r\<lparr>br_pos := br_pos r + length xs\<rparr>), out @ xs)"
    and "drop (br_pos r + length xs) (br_data r) = ys"
proof -
  have "length (br_data r) = br_pos r + length xs + length ys"
    using assms(3) arg_cong [OF assms(2), of length] by simp
  then show "copy_bytes (length xs) r out = ((True, r\<lparr>br_pos := br_pos r + length xs\<rparr>), out @ xs)"
    using assms by (simp add: copy_bytes_def)
  have "drop (length xs) (drop (br_pos r) (br_data r)) = ys" using assms by simp
  then show "drop (br_pos r + length xs) (br_data r) = ys" by (simp add: add.commute)
qed

definition u16_le :: "u16 \<Rightarrow> bytes" where
  "u16_le w = [ucast w, ucast (drop_bit 8 w)]"

lemma read_u16_le_stream:
  assumes "drop (br_pos r) (br_data r) = u16_le w @ ys"
  shows "read_u16_le r = (w, r\<lparr>br_pos := br_pos r + 2\<rparr>)"
    and "drop (br_pos r + 2) (br_data r) = ys"
proof -
  have n: "br_pos r + 2 \<le> length (br_data r)"
    using arg_cong [OF assms, of length] by (simp add: u16_le_def)
  have d: "br_data r ! br_pos r = ucast w" "br_data r ! (br_pos r + 1) = ucast (drop_bit 8 w)"
    using n nth_drop [of "br_pos r" "br_data r" 0] nth_drop [of "br_pos r" "br_data r" 1]
    by (simp_all add: assms u16_le_def)
  have "ucast (ucast w :: u8) OR push_bit 8 (ucast (ucast (drop_bit 8 w) :: u8)) = w"
    by (rule bit_word_eqI) (auto simp: bit_simps)
  then show "read_u16_le r = (w, r\<lparr>br_pos := br_pos r + 2\<rparr>)" using n by (simp add: read_u16_le_def d [simplified])
  have "drop 2 (drop (br_pos r) (br_data r)) = ys" using assms by (simp add: u16_le_def)
  then show "drop (br_pos r + 2) (br_data r) = ys" by (simp add: add.commute)
qed

end
