(* ===== verification/Inflate_Huffman.thy ===== *)
theory Inflate_Huffman
  imports Inflate_Bits
begin

text \<open>
  The canonical code of RFC 1951, section 3.2.2, and the proof that \<open>Huffman::build\<close> accepts exactly
  the lengths that have one and that \<open>BitReader::decode\<close> reads exactly its code words.
\<close>

subsection \<open>The code\<close>

text \<open>\<open>bl_count\<close>, \<open>next_code\<close> and the codes of the RFC; a symbol of length zero has none.\<close>

definition bl_count :: "u8 list \<Rightarrow> nat \<Rightarrow> nat" where
  "bl_count L l = length (filter (\<lambda>x. unat x = l) L)"

fun first_code :: "u8 list \<Rightarrow> nat \<Rightarrow> nat" where
  "first_code L 0 = 0"
| "first_code L (Suc l) = 2 * (first_code L l + (if l = 0 then 0 else bl_count L l))"

definition code_length :: "u8 list \<Rightarrow> nat \<Rightarrow> nat" where
  "code_length L s = unat (L ! s)"

definition rank_of :: "u8 list \<Rightarrow> nat \<Rightarrow> nat" where
  "rank_of L s = bl_count (take s L) (code_length L s)"

definition canonical_code :: "u8 list \<Rightarrow> nat \<Rightarrow> nat" where
  "canonical_code L s = first_code L (code_length L s) + rank_of L s"

definition msb_bits :: "nat \<Rightarrow> nat \<Rightarrow> bool list" where
  "msb_bits n c = map (\<lambda>i. bit c (n - 1 - i)) [0..<n]"

definition code_word :: "u8 list \<Rightarrow> nat \<Rightarrow> bool list" where
  "code_word L s = msb_bits (code_length L s) (canonical_code L s)"

definition in_code :: "u8 list \<Rightarrow> nat \<Rightarrow> bool" where
  "in_code L s \<longleftrightarrow> s < length L \<and> L ! s \<noteq> 0"

text \<open>No code is longer than 15 bits, and the code words fit (Kraft's inequality).\<close>

definition kraft :: "u8 list \<Rightarrow> bool" where
  "kraft L \<longleftrightarrow> (\<forall>l \<in> {1..15}. first_code L l + bl_count L l \<le> 2 ^ l)"

definition symbol_offset :: "u8 list \<Rightarrow> nat \<Rightarrow> nat" where
  "symbol_offset L l = (\<Sum>k = 1..<l. bl_count L k)"

lemma length_msb_bits [simp]: "length (msb_bits n c) = n"
  by (simp add: msb_bits_def)

lemma msb_bits_Suc: "msb_bits (Suc n) c = bit c n # msb_bits n c"
  by (simp add: msb_bits_def upt_conv_Cons map_Suc_upt [symmetric] comp_def del: upt_Suc)

lemma msb_bits_0 [simp]: "msb_bits 0 c = []"
  by (simp add: msb_bits_def)

subsection \<open>Counting\<close>

lemma bl_count_simps [simp]:
  "bl_count [] l = 0"
  "bl_count (x # L) l = (if unat x = l then Suc (bl_count L l) else bl_count L l)"
  "bl_count (L @ L') l = bl_count L l + bl_count L' l"
  by (simp_all add: bl_count_def)

lemma bl_count_le: "bl_count L l \<le> length L"
  by (simp add: bl_count_def)

lemma bl_count_take_less:
  assumes "in_code L s"
  shows "rank_of L s < bl_count L (code_length L s)"
proof -
  have s: "s < length L" using assms by (simp add: in_code_def)
  have "L = take s L @ L ! s # drop (Suc s) L" using s by (simp add: id_take_nth_drop)
  then have "bl_count L (code_length L s) =
      bl_count (take s L) (code_length L s) + bl_count (L ! s # drop (Suc s) L) (code_length L s)"
    by (metis bl_count_simps(3))
  then show ?thesis by (simp add: rank_of_def code_length_def)
qed

lemma rank_surj:
  assumes "j < bl_count L l"
  shows "\<exists>s < length L. code_length L s = l \<and> rank_of L s = j"
  using assms
proof (induction L rule: rev_induct)
  case (snoc x L)
  show ?case
  proof (cases "j < bl_count L l")
    case True
    then obtain s where "s < length L" "code_length L s = l" "rank_of L s = j" using snoc.IH by blast
    then show ?thesis by (intro exI [of _ s]) (auto simp: code_length_def rank_of_def nth_append)
  next
    case False
    then have "unat x = l" "j = bl_count L l" using snoc.prems by (auto split: if_splits)
    then show ?thesis by (intro exI [of _ "length L"]) (auto simp: code_length_def rank_of_def)
  qed
qed simp

lemma count_lengths_result:
  assumes "length c = 16"
  shows "count_lengths L c =
    (if \<forall>x \<in> set L. unat x \<le> 15 then Inr (map (\<lambda>l. c ! l + of_nat (bl_count L l)) [0..<16])
     else Inl (bad ''Huffman code length exceeds 15 bits''))"
  using assms
proof (induction L arbitrary: c)
  case Nil
  then show ?case by (simp add: list_eq_iff_nth_eq del: upt_Suc)
next
  case (Cons x L)
  show ?case
  proof (cases "unat x \<le> 15")
    case True
    have "map (\<lambda>l. c[unat x := c ! unat x + 1] ! l + of_nat (bl_count L l)) [0..<16] =
        map (\<lambda>l. c ! l + of_nat (bl_count (x # L) l)) [0..<16]"
      using Cons.prems by (intro map_cong) auto
    then show ?thesis
      using Cons.IH [of "c[unat x := c ! unat x + 1]"] Cons.prems True by (simp add: kMaxBits_def del: upt_Suc)
  qed (simp add: kMaxBits_def)
qed

definition code_counts :: "u8 list \<Rightarrow> u16 list" where
  "code_counts L = map (\<lambda>l. if l = 0 then 0 else of_nat (bl_count L l)) [0..<16]"

lemma code_counts_eq:
  "(map (\<lambda>l. replicate 16 0 ! l + of_nat (bl_count L l)) [0..<16])[0 := 0] = code_counts L"
  by (rule nth_equalityI) (auto simp: code_counts_def nth_list_update simp del: upt_Suc)

lemma code_counts_nth:
  assumes "length L < 2 ^ 16" and "1 \<le> l" and "l < 16"
  shows "unat (code_counts L ! l) = bl_count L l"
proof -
  have "bl_count L l < 2 ^ 16" using bl_count_le [of L l] assms(1) by linarith
  then show ?thesis using assms by (simp add: code_counts_def unat_of_nat del: upt_Suc)
qed

lemma check_subscription_result:
  assumes "length L < 2 ^ 16" and "1 \<le> l" and "l \<le> 16"
    and "left = 2 ^ (l - 1) - int (first_code L (l - 1) + (if l = 1 then 0 else bl_count L (l - 1)))"
  shows "check_subscription [l..<16] (code_counts L) left =
    (if \<forall>k \<in> {l..15}. first_code L k + bl_count L k \<le> 2 ^ k then ok
     else Inl (bad ''over-subscribed Huffman code''))"
  using assms
proof (induction "16 - l" arbitrary: l left)
  case (Suc n)
  then have l: "l < 16" by simp
  obtain m where m: "l = Suc m" using Suc.prems(2) by (cases l) auto
  have c: "uint (code_counts L ! l) = int (bl_count L l)"
    using code_counts_nth [OF Suc.prems(1,2) l] by (metis uint_nat)
  have left: "2 * left - uint (code_counts L ! l) = 2 ^ l - int (first_code L l + bl_count L l)"
    unfolding c Suc.prems(4) by (simp add: m)
  have "{l..15} = insert l {Suc l..15}" using l by auto
  moreover have "2 * left - uint (code_counts L ! l) < 0 \<longleftrightarrow> \<not> first_code L l + bl_count L l \<le> 2 ^ l"
    unfolding left by (metis diff_less_0_iff_less not_le of_nat_less_iff of_nat_numeral of_nat_power)
  moreover have "check_subscription [Suc l..<16] (code_counts L) (2 * left - uint (code_counts L ! l)) =
    (if \<forall>k \<in> {Suc l..15}. first_code L k + bl_count L k \<le> 2 ^ k then ok
     else Inl (bad ''over-subscribed Huffman code''))"
    by (rule Suc.hyps(1)) (use Suc.hyps(2) Suc.prems(1) l left in \<open>auto simp: m\<close>)
  ultimately show ?case using l by (simp add: upt_conv_Cons Let_def del: upt_Suc)
qed simp

lemma symbol_offset_Suc: "symbol_offset L (Suc l) = symbol_offset L l + (if l = 0 then 0 else bl_count L l)"
  by (simp add: symbol_offset_def)

lemma symbol_offset_mono: "l \<le> k \<Longrightarrow> symbol_offset L l \<le> symbol_offset L k"
  unfolding symbol_offset_def by (rule sum_mono2) auto

lemma symbol_offset_le: "(\<forall>x \<in> set L. unat x \<le> 15) \<Longrightarrow> symbol_offset L 16 \<le> length L"
proof (induction L)
  case (Cons x L)
  have "symbol_offset (x # L) 16 = symbol_offset L 16 + (\<Sum>k = 1..<16. of_bool (unat x = k))"
    unfolding symbol_offset_def sum.distrib [symmetric] by (rule sum.cong) auto
  also have "(\<Sum>k = 1..<16. of_bool (unat x = k)) \<le> (1::nat)"
    by (simp add: of_bool_def)
  finally show ?case using Cons by simp
qed (simp add: symbol_offset_def)

lemma huffman_offsets_nth:
  assumes "1 \<le> l" and "l < 16"
  shows "huffman_offsets (code_counts L) ! l = of_nat (symbol_offset L l)"
proof -
  define f where "f = (\<lambda>o' b. o'[b + 1 := o' ! b + code_counts L ! b])"
  have inv: "\<lbrakk>1 \<le> n; n < 16\<rbrakk> \<Longrightarrow> length (foldl f (replicate 16 0) [1..<n]) = 16 \<and>
      (\<forall>l. 1 \<le> l \<and> l \<le> n \<longrightarrow> foldl f (replicate 16 0) [1..<n] ! l = of_nat (symbol_offset L l))" for n
  proof (induction n)
    case (Suc n)
    show ?case
    proof (cases "n = 0")
      case True
      then show ?thesis by (auto simp: symbol_offset_def le_Suc_eq)
    next
      case False
      let ?o = "foldl f (replicate 16 0) [1..<n]"
      have IH: "length ?o = 16" "\<And>l. 1 \<le> l \<Longrightarrow> l \<le> n \<Longrightarrow> ?o ! l = of_nat (symbol_offset L l)"
        using Suc False by auto
      have e: "foldl f (replicate 16 0) [1..<Suc n] = ?o[n + 1 := ?o ! n + code_counts L ! n]"
        using False by (simp add: f_def)
      have v: "code_counts L ! n = of_nat (bl_count L n)"
        using False Suc.prems by (simp add: code_counts_def del: upt_Suc)
      show ?thesis unfolding e
        using IH False Suc.prems by (auto simp: nth_list_update v symbol_offset_Suc le_Suc_eq)
    qed
  qed simp
  show ?thesis
  proof (cases "l = 15")
    case True
    then show ?thesis using inv [of 15] by (simp add: huffman_offsets_def f_def)
  next
    case False
    then show ?thesis using inv [of 15] assms by (simp add: huffman_offsets_def f_def)
  qed
qed

subsection \<open>Placing the symbols\<close>

text \<open>Distinct symbols have distinct places, ordered by code length and then by symbol.\<close>

definition place_of :: "u8 list \<Rightarrow> nat \<Rightarrow> nat" where
  "place_of L s = symbol_offset L (code_length L s) + rank_of L s"

lemma in_code_length: "in_code L s \<Longrightarrow> 1 \<le> code_length L s"
  by (simp add: in_code_def code_length_def Suc_le_eq unat_gt_0)

lemma rank_of_less:
  assumes "s < t" and "t < length L" and "code_length L s = code_length L t"
  shows "rank_of L s < rank_of L t"
proof -
  have "take t L = take s L @ L ! s # drop (Suc s) (take t L)"
    using assms id_take_nth_drop [of s "take t L"] by (simp add: min_def)
  then have "rank_of L t = bl_count (take s L) (code_length L t) +
      bl_count (L ! s # drop (Suc s) (take t L)) (code_length L t)"
    unfolding rank_of_def by (metis bl_count_simps(3))
  then show ?thesis using assms(3) by (simp add: rank_of_def code_length_def)
qed

lemma place_of_inj:
  assumes "in_code L s" and "in_code L t" and "place_of L s = place_of L t"
  shows "s = t"
proof -
  have aux: "\<not> code_length L s < code_length L t" if "in_code L s" "in_code L t" "place_of L s = place_of L t" for s t
  proof
    assume l: "code_length L s < code_length L t"
    have "place_of L s < symbol_offset L (Suc (code_length L s))"
      using bl_count_take_less [OF that(1)] in_code_length [OF that(1)]
      by (simp add: place_of_def symbol_offset_Suc)
    also have "\<dots> \<le> symbol_offset L (code_length L t)" by (rule symbol_offset_mono) (use l in simp)
    also have "\<dots> \<le> place_of L t" by (simp add: place_of_def)
    finally show False using that(3) by simp
  qed
  have l: "code_length L s = code_length L t"
    using aux [OF assms] aux [OF assms(2,1) assms(3) [symmetric]] by simp
  then have "rank_of L s = rank_of L t" using assms(3) by (simp add: place_of_def)
  then show ?thesis
    using rank_of_less [of s t L] rank_of_less [of t s L] l assms(1,2)
    by (cases s t rule: linorder_cases) (auto simp: in_code_def)
qed

lemma place_of_bound:
  assumes "in_code L s" and "\<forall>x \<in> set L. unat x \<le> 15"
  shows "place_of L s < length L"
proof -
  have l: "code_length L s \<le> 15" using assms by (auto simp: in_code_def code_length_def)
  have "place_of L s < symbol_offset L (Suc (code_length L s))"
    using bl_count_take_less [OF assms(1)] in_code_length [OF assms(1)] by (simp add: place_of_def symbol_offset_Suc)
  also have "\<dots> \<le> symbol_offset L 16" by (rule symbol_offset_mono) (use l in simp)
  also have "\<dots> \<le> length L" by (rule symbol_offset_le [OF assms(2)])
  finally show ?thesis .
qed

lemma place_symbols_spec:
  assumes le: "\<forall>x \<in> set L. unat x \<le> 15" and n: "length L < 2 ^ 16"
    and o: "length offs = 16" "\<And>l. 1 \<le> l \<Longrightarrow> l < 16 \<Longrightarrow> offs ! l = of_nat (symbol_offset L l)"
  shows "length (place_symbols L offs) = length L \<and>
    (\<forall>s. in_code L s \<longrightarrow> place_symbols L offs ! place_of L s = of_nat s)"
proof -
  have "i \<le> length L \<Longrightarrow>
    (case foldl (place_symbol L) (replicate (length L) 0, offs) [0..<i] of (syms, o') \<Rightarrow>
       length syms = length L \<and> length o' = 16 \<and>
       (\<forall>l. 1 \<le> l \<and> l < 16 \<longrightarrow> o' ! l = of_nat (symbol_offset L l + bl_count (take i L) l)) \<and>
       (\<forall>s < i. in_code L s \<longrightarrow> syms ! place_of L s = of_nat s))" for i
  proof (induction i)
    case 0
    then show ?case using o by simp
  next
    case (Suc i)
    obtain syms o' where st: "foldl (place_symbol L) (replicate (length L) 0, offs) [0..<i] = (syms, o')"
      by (meson surj_pair)
    have i: "i < length L" using Suc.prems by simp
    have IH: "length syms = length L" "length o' = 16"
        "\<And>l. 1 \<le> l \<Longrightarrow> l < 16 \<Longrightarrow> o' ! l = of_nat (symbol_offset L l + bl_count (take i L) l)"
        "\<And>s. s < i \<Longrightarrow> in_code L s \<Longrightarrow> syms ! place_of L s = of_nat s"
      using Suc.IH i by (simp_all add: st)
    have e: "foldl (place_symbol L) (replicate (length L) 0, offs) [0..<Suc i] =
        (if unat (L ! i) \<noteq> 0
         then (syms[unat (o' ! unat (L ! i)) := of_nat i], o'[unat (L ! i) := o' ! unat (L ! i) + 1])
         else (syms, o'))"
      by (simp add: st) (simp add: place_symbol_def Let_def)
    have t: "take (Suc i) L = take i L @ [L ! i]" using i by (simp add: take_Suc_conv_app_nth)
    show ?case
    proof (cases "unat (L ! i) = 0")
      case True
      then have "\<not> in_code L i" by (simp add: in_code_def unat_eq_zero)
      then show ?thesis using IH True unfolding e by (auto simp: t less_Suc_eq)
    next
      case False
      have c: "in_code L i" using False i by (auto simp: in_code_def)
      have l: "1 \<le> code_length L i" "code_length L i < 16"
        using in_code_length [OF c] bspec [OF le nth_mem [OF i]] by (simp_all add: code_length_def)
      have "o' ! code_length L i = of_nat (place_of L i)"
        using IH(3) [OF l] by (simp add: place_of_def rank_of_def)
      then have u: "unat (o' ! unat (L ! i)) = place_of L i"
        using place_of_bound [OF c le] n by (simp add: unat_of_nat code_length_def)
      have other: "place_of L i \<noteq> place_of L s" if "s < i" "in_code L s" for s
        using place_of_inj [OF that(2) c] that(1) by auto
      show ?thesis
        using IH False l place_of_bound [OF c le] other unfolding e u
        by (auto simp: t nth_list_update code_length_def less_Suc_eq)
    qed
  qed
  from this [of "length L"] show ?thesis
    unfolding place_symbols_def in_code_def by (auto split: prod.splits)
qed

text \<open>What \<open>build\<close> returns.\<close>

theorem huffman_build_result:
  assumes "length L < 2 ^ 16"
  shows "huffman_build L =
    (if \<not> (\<forall>x \<in> set L. unat x \<le> 15) then Inl (bad ''Huffman code length exceeds 15 bits'')
     else if \<not> kraft L then Inl (bad ''over-subscribed Huffman code'')
     else Inr \<lparr>huf_counts = code_counts L, huf_symbols = place_symbols L (huffman_offsets (code_counts L))\<rparr>)"
proof -
  have "count_lengths L (replicate 16 0) =
    (if \<forall>x \<in> set L. unat x \<le> 15 then Inr (map (\<lambda>l. replicate 16 0 ! l + of_nat (bl_count L l)) [0..<16])
     else Inl (bad ''Huffman code length exceeds 15 bits''))"
    by (rule count_lengths_result) simp
  moreover have "check_subscription [1..<16] (code_counts L) 1 =
    (if kraft L then ok else Inl (bad ''over-subscribed Huffman code''))"
    using check_subscription_result [OF assms, of 1 1] by (simp add: kraft_def del: upt_Suc)
  ultimately show ?thesis
    unfolding huffman_build_def by (simp add: code_counts_eq Let_def del: upt_Suc replicate.simps)
qed

lemma huffman_offsets_length [simp]: "length (huffman_offsets c) = 16"
proof -
  have "length (foldl (\<lambda>o' b. o'[b + 1 := o' ! b + c ! b]) xs ns) = length xs" for xs ns
    by (induction ns arbitrary: xs) auto
  then show ?thesis by (simp add: huffman_offsets_def del: upt_Suc)
qed

definition codes_for :: "u8 list \<Rightarrow> huffman \<Rightarrow> bool" where
  "codes_for L h \<longleftrightarrow> length L < 2 ^ 16 \<and> (\<forall>x \<in> set L. unat x \<le> 15) \<and> kraft L \<and>
     length (huf_symbols h) = length L \<and>
     (\<forall>l. 1 \<le> l \<and> l < 16 \<longrightarrow> uint (huf_counts h ! l) = int (bl_count L l)) \<and>
     (\<forall>s. in_code L s \<longrightarrow> huf_symbols h ! place_of L s = of_nat s)"

lemma huffman_build_codes:
  assumes "length L < 2 ^ 16" and "huffman_build L = Inr h"
  shows "codes_for L h"
proof -
  have le: "\<forall>x \<in> set L. unat x \<le> 15" and k: "kraft L"
    and h: "h = \<lparr>huf_counts = code_counts L, huf_symbols = place_symbols L (huffman_offsets (code_counts L))\<rparr>"
    using assms(2) unfolding huffman_build_result [OF assms(1)] by (auto split: if_splits)
  have "length (place_symbols L (huffman_offsets (code_counts L))) = length L \<and>
    (\<forall>s. in_code L s \<longrightarrow> place_symbols L (huffman_offsets (code_counts L)) ! place_of L s = of_nat s)"
    by (rule place_symbols_spec [OF le assms(1)]) (use huffman_offsets_nth in simp_all)
  moreover have "uint (code_counts L ! l) = int (bl_count L l)" if "1 \<le> l" "l < 16" for l
    using code_counts_nth [OF assms(1) that] by (metis uint_nat)
  ultimately show ?thesis using le k assms(1) by (simp add: codes_for_def h)
qed

subsection \<open>Decoding\<close>

lemma first_code_grows:
  "1 \<le> l \<Longrightarrow> 2 ^ k * (first_code L l + bl_count L l) \<le> first_code L (l + k) + bl_count L (l + k) \<and>
    (0 < k \<longrightarrow> 2 ^ k * (first_code L l + bl_count L l) \<le> first_code L (l + k))"
proof (induction k)
  case (Suc k)
  then have "2 ^ k * (first_code L l + bl_count L l) \<le> first_code L (l + k) + bl_count L (l + k)" by simp
  then show ?case using Suc.prems by simp
qed simp

lemma canonical_code_bounds:
  assumes "in_code L s" and "kraft L" and "\<forall>x \<in> set L. unat x \<le> 15"
  shows "canonical_code L s < 2 ^ code_length L s"
    and "1 \<le> l \<Longrightarrow> l < code_length L s \<Longrightarrow>
      first_code L l + bl_count L l \<le> canonical_code L s div 2 ^ (code_length L s - l)"
proof -
  have l: "1 \<le> code_length L s" "code_length L s \<le> 15"
    using in_code_length [OF assms(1)] assms(1,3) by (auto simp: in_code_def code_length_def)
  then have "first_code L (code_length L s) + bl_count L (code_length L s) \<le> 2 ^ code_length L s"
    using assms(2) by (simp add: kraft_def)
  then show "canonical_code L s < 2 ^ code_length L s"
    using bl_count_take_less [OF assms(1)] unfolding canonical_code_def by linarith
next
  assume l: "1 \<le> l" "l < code_length L s"
  define k where "k = code_length L s - l"
  have "2 ^ k * (first_code L l + bl_count L l) \<le> first_code L (l + k)"
    using first_code_grows [OF l(1), of k L] l by (simp add: k_def)
  also have "\<dots> \<le> canonical_code L s" using l by (simp add: k_def canonical_code_def)
  finally have "(2 ^ k * (first_code L l + bl_count L l)) div 2 ^ k \<le> canonical_code L s div 2 ^ k"
    by (rule div_le_mono)
  then show "first_code L l + bl_count L l \<le> canonical_code L s div 2 ^ (code_length L s - l)"
    by (simp add: k_def)
qed

lemma code_split: "c div 2 ^ n = 2 * (c div 2 ^ Suc n) + (of_bool (bit c n) :: nat)"
  using mod_mult_div_eq [of "c div 2 ^ n" 2]
  by (simp add: bit_iff_odd div_mult2_eq [symmetric] mult.commute odd_iff_mod_2_eq_one)

lemma double_bit_inj: "2 * c + of_bool b = 2 * d + (of_bool e :: nat) \<Longrightarrow> c = d \<and> b = e"
  by (cases b; cases e; simp; presburger)

text \<open>One level of the walk: \<open>c\<close> is the code read so far.\<close>

lemma decode_level:
  assumes h: "codes_for L h" and l: "1 \<le> l" "l < 16" and r: "sound_reader r" "stream r = b # bs"
    and c: "first_code L l \<le> 2 * c"
  shows "\<exists>r'. stream r' = bs \<and> sound_reader r' \<and> br_data r' = br_data r \<and>
    decode_from [l..<16] h (2 * int c) (int (first_code L l)) (int (symbol_offset L l)) r =
    (if 2 * c + of_bool b < first_code L l + bl_count L l
     then (uint (huf_symbols h ! (symbol_offset L l + (2 * c + of_bool b - first_code L l))), r')
     else decode_from [Suc l..<16] h (2 * int (2 * c + of_bool b)) (int (first_code L (Suc l)))
            (int (symbol_offset L (Suc l))) r')"
proof -
  obtain x r' where x: "bits 1 r = (x, r')" "unat x = le_value (take 1 (stream r))"
    "stream r' = drop 1 (stream r)" "sound_reader r'" "br_data r' = br_data r"
    using bits_stream [OF r(1), of 1] r(2) by (metis length_Cons le_add1 plus_1_eq_Suc one_le_numeral)
  have u: "uint x = of_bool b" using x(2) r(2) by (simp add: uint_nat)
  have code: "(2 * int c) OR uint x = int (2 * c + of_bool b)"
    unfolding u by (cases b) (simp_all add: or_one_eq)
  have n: "uint (huf_counts h ! l) = int (bl_count L l)" using h l by (simp add: codes_for_def)
  have e: "[l..<16] = l # [Suc l..<16]" using l by (simp add: upt_conv_Cons)
  define j where "j = 2 * c + of_bool b - first_code L l"
  have j: "int (2 * c + of_bool b) - int (first_code L l) = int j" using c by (simp add: j_def of_nat_diff)
  have bound: "symbol_offset L l + j < length (huf_symbols h)" if "j < bl_count L l"
  proof -
    have "symbol_offset L l + j < symbol_offset L (Suc l)" using that l by (simp add: symbol_offset_Suc)
    also have "\<dots> \<le> symbol_offset L 16" by (rule symbol_offset_mono) (use l in simp)
    also have "\<dots> \<le> length L" by (rule symbol_offset_le) (use h in \<open>simp add: codes_for_def\<close>)
    finally show ?thesis using h by (simp add: codes_for_def)
  qed
  have at: "(int (symbol_offset L l) + int j) mod 2 ^ 64 = int (symbol_offset L l + j)" if "j < bl_count L l"
  proof -
    have "symbol_offset L l + j < 2 ^ 64" using bound [OF that] h by (simp add: codes_for_def)
    then show ?thesis by (simp add: zmod_int [symmetric] flip: of_nat_add)
  qed
  have lt: "int j < int (bl_count L l) \<longleftrightarrow> 2 * c + of_bool b < first_code L l + bl_count L l"
    using c by (auto simp: j_def)
  have "decode_from [l..<16] h (2 * int c) (int (first_code L l)) (int (symbol_offset L l)) r =
    (if int j < int (bl_count L l) then (uint (huf_symbols h ! (symbol_offset L l + j)), r')
     else decode_from [Suc l..<16] h (2 * int (2 * c + of_bool b)) (int (first_code L (Suc l)))
            (int (symbol_offset L (Suc l))) r')"
  proof (cases "j < bl_count L l")
    case True
    then show ?thesis
      using x(4) bound [OF True] unfolding e decode_from_step [OF x(1)] code n j at [OF True]
      by (simp add: sound_reader_def del: of_nat_add)
  next
    case False
    then show ?thesis
      using x(4) l unfolding e decode_from_step [OF x(1)] code n j
      by (simp add: sound_reader_def symbol_offset_Suc)
  qed
  then show ?thesis unfolding lt using x r(2) by (intro exI [of _ r']) (simp add: j_def)
qed

lemma symbol_at_place:
  assumes "codes_for L h" and "in_code L s"
  shows "uint (huf_symbols h ! place_of L s) = int s"
proof -
  have "huf_symbols h ! place_of L s = of_nat s" "s < 2 ^ 16"
    using assms unfolding codes_for_def in_code_def by auto
  then have "unat (huf_symbols h ! place_of L s) = s" by (simp add: unat_of_nat)
  then show ?thesis by (metis uint_nat)
qed

text \<open>The code read before level \<open>l\<close> of a word for \<open>s\<close> is past the codes of the shorter lengths.\<close>

lemma walk_past:
  assumes "codes_for L h" and "in_code L s" and "1 \<le> l" and "l + k = code_length L s"
  shows "first_code L l \<le> 2 * (canonical_code L s div 2 ^ Suc k)" and "l < 16"
proof -
  have le: "\<forall>x \<in> set L. unat x \<le> 15" "kraft L" using assms(1) by (simp_all add: codes_for_def)
  then have "code_length L s \<le> 15" using assms(2) by (auto simp: in_code_def code_length_def)
  then show "l < 16" using assms(4) by simp
  obtain m where m: "l = Suc m" using assms(3) by (cases l) auto
  show "first_code L l \<le> 2 * (canonical_code L s div 2 ^ Suc k)"
  proof (cases m)
    case 0
    then show ?thesis by (simp add: m)
  next
    case (Suc m')
    have d: "code_length L s - m = Suc k" using assms(4) by (simp add: m)
    have "1 \<le> m" "m < code_length L s" using Suc assms(4) by (simp_all add: m)
    from canonical_code_bounds(2) [OF assms(2) le(2,1) this]
    have "first_code L m + bl_count L m \<le> canonical_code L s div 2 ^ Suc k" unfolding d .
    moreover have "first_code L l = 2 * (first_code L m + bl_count L m)" using \<open>1 \<le> m\<close> by (simp add: m)
    ultimately show ?thesis by (metis mult_le_mono2)
  qed
qed

lemma decode_walk:
  assumes h: "codes_for L h" and s: "in_code L s"
  shows "\<lbrakk>1 \<le> l; l + k = code_length L s; sound_reader r;
      stream r = msb_bits (Suc k) (canonical_code L s) @ rest\<rbrakk> \<Longrightarrow>
    \<exists>r'. decode_from [l..<16] h (2 * int (canonical_code L s div 2 ^ Suc k)) (int (first_code L l))
        (int (symbol_offset L l)) r = (int s, r') \<and>
      stream r' = rest \<and> sound_reader r' \<and> br_data r' = br_data r"
proof (induction k arbitrary: l r)
  case (0 l r)
  note w = walk_past [OF h s 0(1,2)]
  have c: "2 * (canonical_code L s div 2 ^ Suc 0) + of_bool (bit (canonical_code L s) 0) = canonical_code L s"
    using code_split [of "canonical_code L s" 0] by simp
  have lt: "canonical_code L s < first_code L l + bl_count L l"
    and j: "symbol_offset L l + (canonical_code L s - first_code L l) = place_of L s"
    using bl_count_take_less [OF s] 0(2) by (simp_all add: canonical_code_def place_of_def)
  show ?case
    using decode_level [OF h 0(1) w(2) 0(3) _ w(1), of "bit (canonical_code L s) 0" rest] 0(4) lt
    unfolding c j by (auto simp: msb_bits_Suc symbol_at_place [OF h s])
next
  case (Suc k l r)
  note w = walk_past [OF h s Suc.prems(1,2)]
  let ?c = "canonical_code L s"
  have c: "2 * (?c div 2 ^ Suc (Suc k)) + of_bool (bit ?c (Suc k)) = ?c div 2 ^ Suc k"
    by (rule code_split [symmetric])
  have le: "\<forall>x \<in> set L. unat x \<le> 15" "kraft L" using h by (simp_all add: codes_for_def)
  have "code_length L s - l = Suc k" using Suc.prems(2) by simp
  then have ge: "\<not> ?c div 2 ^ Suc k < first_code L l + bl_count L l"
    using canonical_code_bounds(2) [OF s le(2,1) Suc.prems(1)] Suc.prems(2) by simp
  obtain r1 where r1: "stream r1 = msb_bits (Suc k) ?c @ rest" "sound_reader r1" "br_data r1 = br_data r"
    "decode_from [l..<16] h (2 * int (?c div 2 ^ Suc (Suc k))) (int (first_code L l)) (int (symbol_offset L l)) r =
     decode_from [Suc l..<16] h (2 * int (?c div 2 ^ Suc k)) (int (first_code L (Suc l)))
            (int (symbol_offset L (Suc l))) r1"
    using decode_level [OF h Suc.prems(1) w(2) Suc.prems(3) _ w(1), of "bit ?c (Suc k)"
        "msb_bits (Suc k) ?c @ rest"] Suc.prems(4) ge
    unfolding c by (auto simp: msb_bits_Suc [of "Suc k"] simp del: first_code.simps power_Suc)
  have "1 \<le> Suc l" "Suc l + k = code_length L s" using Suc.prems(2) by simp_all
  from Suc.IH [OF this r1(2,1)] show ?case unfolding r1(3,4) .
qed

lemma decode_walk_inverse:
  assumes h: "codes_for L h"
  shows "\<lbrakk>1 \<le> l; l \<le> 16; sound_reader r; first_code L l \<le> 2 * c;
    decode_from [l..<16] h (2 * int c) (int (first_code L l)) (int (symbol_offset L l)) r = (x, r'); 0 \<le> x\<rbrakk> \<Longrightarrow>
    \<exists>s k. in_code L s \<and> x = int s \<and> code_length L s = l + k \<and> canonical_code L s div 2 ^ Suc k = c \<and>
      stream r = msb_bits (Suc k) (canonical_code L s) @ stream r' \<and> sound_reader r' \<and> br_data r' = br_data r"
proof (induction "16 - l" arbitrary: l r c)
  case (Suc n)
  have l: "l < 16" using Suc.hyps(2) by simp
  show ?case
  proof (cases "stream r")
    case Nil
    have "br_overrun (snd (bits 1 r))" by (rule bits_stream_short [OF Suc.prems(3)]) (simp add: Nil)
    then show ?thesis
      using Suc.prems(5,6) l decode_from_step [of r "fst (bits 1 r)" "snd (bits 1 r)"]
      by (simp add: upt_conv_Cons del: upt_Suc decode_from.simps)
  next
    case (Cons b bs)
    define c' where "c' = 2 * c + of_bool b"
    obtain r1 where r1: "stream r1 = bs" "sound_reader r1" "br_data r1 = br_data r"
      "(if c' < first_code L l + bl_count L l
        then (uint (huf_symbols h ! (symbol_offset L l + (c' - first_code L l))), r1)
        else decode_from [Suc l..<16] h (2 * int c') (int (first_code L (Suc l)))
            (int (symbol_offset L (Suc l))) r1) = (x, r')"
      using decode_level [OF h Suc.prems(1) l Suc.prems(3) Cons Suc.prems(4)] Suc.prems(5)
      by (auto simp: c'_def [symmetric])
    show ?thesis
    proof (cases "c' < first_code L l + bl_count L l")
      case True
      have "first_code L l \<le> c'" using Suc.prems(4) by (simp add: c'_def)
      then obtain s where s: "s < length L" "code_length L s = l" "rank_of L s = c' - first_code L l"
        using rank_surj [of "c' - first_code L l" L l] True
        by (metis add_less_cancel_left le_add_diff_inverse)
      have i: "in_code L s" using s Suc.prems(1) by (auto simp: in_code_def code_length_def)
      have cc: "canonical_code L s = c'" using s \<open>first_code L l \<le> c'\<close> by (simp add: canonical_code_def)
      have "place_of L s = symbol_offset L l + (c' - first_code L l)" using s by (simp add: place_of_def)
      then have "x = int s" "r' = r1" using r1(4) True symbol_at_place [OF h i] by auto
      then show ?thesis using i s cc r1 Cons
        by (intro exI [of _ s] exI [of _ 0]) (cases b, auto simp: msb_bits_Suc c'_def bit_0)
    next
      case False
      then have e: "decode_from [Suc l..<16] h (2 * int c') (int (first_code L (Suc l)))
            (int (symbol_offset L (Suc l))) r1 = (x, r')" using r1(4) by simp
      have fc: "first_code L (Suc l) \<le> 2 * c'" using False Suc.prems(1) by simp
      have n: "n = 16 - Suc l" "1 \<le> Suc l" "Suc l \<le> 16" using Suc.hyps(2) l by simp_all
      obtain s k where s: "in_code L s" "x = int s" "code_length L s = Suc l + k"
          "canonical_code L s div 2 ^ Suc k = c'" "stream r1 = msb_bits (Suc k) (canonical_code L s) @ stream r'"
          "sound_reader r'" "br_data r' = br_data r1"
        using Suc.hyps(1) [OF n r1(2) fc e Suc.prems(6)] by fastforce
      have "c' = 2 * (canonical_code L s div 2 ^ Suc (Suc k)) + of_bool (bit (canonical_code L s) (Suc k))"
        using code_split [of "canonical_code L s" "Suc k"] s(4) by simp
      then have "canonical_code L s div 2 ^ Suc (Suc k) = c" "b = bit (canonical_code L s) (Suc k)"
        unfolding c'_def using double_bit_inj by (blast dest: sym)+
      then show ?thesis
        using s r1 Cons by (intro exI [of _ s] exI [of _ "Suc k"]) (simp add: msb_bits_Suc [of "Suc k"])
    qed
  qed
qed simp

subsection \<open>What is accepted and what is read\<close>

lemma first_code_sum:
  "1 \<le> l \<Longrightarrow> first_code L l + bl_count L l = (\<Sum>k = 1..l. bl_count L k * 2 ^ (l - k))"
proof (induction l)
  case (Suc l)
  show ?case
  proof (cases "l = 0")
    case False
    have "(\<Sum>k = 1..Suc l. bl_count L k * 2 ^ (Suc l - k)) =
        2 * (\<Sum>k = 1..l. bl_count L k * 2 ^ (l - k)) + bl_count L (Suc l)"
      by (simp add: sum_distrib_left Suc_diff_le algebra_simps)
    then show ?thesis using Suc.IH False by simp
  qed simp
qed simp

lemma sum_over_symbols:
  fixes f :: "nat \<Rightarrow> nat"
  assumes "\<forall>x \<in> set L. unat x \<le> 15"
  shows "(\<Sum>k = 1..15. bl_count L k * f k) = (\<Sum>s | in_code L s. f (code_length L s))"
  using assms
proof (induction L rule: rev_induct)
  case (snoc x L)
  have c: "{s. in_code (L @ [x]) s} = {s. in_code L s} \<union> (if x = 0 then {} else {length L})"
    by (auto simp: in_code_def nth_append less_Suc_eq)
  have l: "code_length (L @ [x]) s = code_length L s" if "in_code L s" for s
    using that by (simp add: code_length_def in_code_def nth_append)
  have fin: "finite {s. in_code L s}" by (rule finite_subset [of _ "{..<length L}"]) (auto simp: in_code_def)
  have n: "length L \<notin> {s. in_code L s}" by (simp add: in_code_def)
  have x: "code_length (L @ [x]) (length L) = unat x" by (simp add: code_length_def)
  have "(\<Sum>k = 1..15. bl_count (L @ [x]) k * f k) =
      (\<Sum>k = 1..15. bl_count L k * f k) + (\<Sum>k = 1..15. if k = unat x then f k else 0)"
    unfolding sum.distrib [symmetric] by (rule sum.cong) (auto simp: algebra_simps)
  also have "(\<Sum>k = 1..15. if k = unat x then f k else 0) = (if x = 0 then 0 else f (unat x))"
    using snoc.prems by (auto simp: unat_gt_0 Suc_le_eq)
  finally have a: "(\<Sum>k = 1..15. bl_count (L @ [x]) k * f k) =
      (\<Sum>s | in_code L s. f (code_length L s)) + (if x = 0 then 0 else f (unat x))"
    using snoc by simp
  have b: "(\<Sum>s | in_code L s. f (code_length (L @ [x]) s)) = (\<Sum>s | in_code L s. f (code_length L s))"
    by (rule sum.cong) (simp_all add: l)
  show ?case unfolding a c using fin n b x by (cases "x = 0") simp_all
qed (simp add: in_code_def [abs_def])

lemma kraft_sum: "kraft L \<longleftrightarrow> (\<Sum>k = 1..15. bl_count L k * 2 ^ (15 - k)) \<le> 2 ^ 15"
proof -
  have e: "first_code L 15 + bl_count L 15 = (\<Sum>k = 1..15. bl_count L k * 2 ^ (15 - k))"
    using first_code_sum [of 15 L] by simp
  have "first_code L l + bl_count L l \<le> 2 ^ l" if "first_code L 15 + bl_count L 15 \<le> 2 ^ 15" "l \<in> {1..15}" for l
  proof -
    have "2 ^ (15 - l) * (first_code L l + bl_count L l) \<le> first_code L 15 + bl_count L 15"
      using first_code_grows [of l "15 - l" L] that(2) by simp
    also have "\<dots> \<le> 2 ^ (15 - l) * 2 ^ l" using that by (simp add: power_add [symmetric])
    finally show ?thesis by simp
  qed
  moreover have "first_code L 15 + bl_count L 15 \<le> 2 ^ 15" if "kraft L"
    using that unfolding kraft_def by (rule bspec) simp
  ultimately show ?thesis unfolding e [symmetric] kraft_def by blast
qed

lemma kraft_iff:
  assumes "\<forall>x \<in> set L. unat x \<le> 15"
  shows "kraft L \<longleftrightarrow> (\<Sum>s | in_code L s. 2 ^ (15 - code_length L s)) \<le> (2 ^ 15 :: nat)"
  unfolding kraft_sum sum_over_symbols [OF assms, of "\<lambda>k. 2 ^ (15 - k)"] ..

lemma decode_code_word:
  assumes "codes_for L h" and "in_code L s" and "sound_reader r" and "stream r = code_word L s @ rest"
  obtains r' where "decode h r = (int s, r')" "stream r' = rest" "sound_reader r'" "br_data r' = br_data r"
proof -
  obtain k where k: "1 + k = code_length L s" using in_code_length [OF assms(2)] le_Suc_ex by metis
  have z: "canonical_code L s div 2 ^ Suc k = 0"
    using canonical_code_bounds(1) [OF assms(2)] assms(1) k by (simp add: codes_for_def)
  have w: "stream r = msb_bits (Suc k) (canonical_code L s) @ rest" using assms(4) k by (simp add: code_word_def)
  show ?thesis
    using decode_walk [OF assms(1,2) order.refl k assms(3) w] that unfolding z
    by (auto simp: decode_def symbol_offset_def)
qed

lemma decode_sound:
  assumes "codes_for L h" and "sound_reader r" and "decode h r = (x, r')" and "0 \<le> x"
  shows "\<exists>s. in_code L s \<and> x = int s \<and> stream r = code_word L s @ stream r' \<and> sound_reader r' \<and> br_data r' = br_data r"
  using decode_walk_inverse [OF assms(1) _ _ assms(2), of 1 0 x r'] assms(3,4)
  by (fastforce simp: decode_def symbol_offset_def code_word_def)

end
