(* ===== verification/Inflate_Stream.thy ===== *)
theory Inflate_Stream
  imports Inflate_Huffman
begin

text \<open>
  What a DEFLATE stream says (RFC 1951): blocks of literal bytes and back references, the bits that
  write them, the bytes they stand for, and the proof that the decompressor reads every such stream
  back. The grammar leaves every choice of a compressor open: the tokens, the block types, the code
  lengths and the way a dynamic block spells them.
\<close>

subsection \<open>Tokens\<close>

text \<open>A back reference carries its length and distance as the RFC's tables do: a code and extra bits.\<close>

datatype token = Literal u8 | Match nat nat nat nat

definition lsb_bits :: "nat \<Rightarrow> nat \<Rightarrow> bool list" where
  "lsb_bits n v = map (bit v) [0..<n]"

fun match_length :: "token \<Rightarrow> nat" where
  "match_length (Literal b) = 1"
| "match_length (Match i x j y) = kLengthBase ! i + x"

fun match_distance :: "token \<Rightarrow> nat" where
  "match_distance (Literal b) = 0"
| "match_distance (Match i x j y) = kDistanceBase ! j + y"

text \<open>A match repeats the last \<open>d\<close> bytes of the output, cyclically.\<close>

fun expand_token :: "bytes \<Rightarrow> token \<Rightarrow> bytes" where
  "expand_token out (Literal b) = out @ [b]"
| "expand_token out (Match i x j y) =
     (let d = match_distance (Match i x j y)
      in out @ map (\<lambda>n. out ! (length out - d + n mod d)) [0..<match_length (Match i x j y)])"

fun token_ok :: "u8 list \<Rightarrow> u8 list \<Rightarrow> bytes \<Rightarrow> token \<Rightarrow> bool" where
  "token_ok L D out (Literal b) \<longleftrightarrow> in_code L (unat b)"
| "token_ok L D out (Match i x j y) \<longleftrightarrow> i < 29 \<and> in_code L (257 + i) \<and> x < 2 ^ (kLengthExtra ! i) \<and>
     j < 30 \<and> in_code D j \<and> y < 2 ^ (kDistanceExtra ! j) \<and> match_distance (Match i x j y) \<le> length out"

fun token_bits :: "u8 list \<Rightarrow> u8 list \<Rightarrow> token \<Rightarrow> bool list" where
  "token_bits L D (Literal b) = code_word L (unat b)"
| "token_bits L D (Match i x j y) = code_word L (257 + i) @ lsb_bits (kLengthExtra ! i) x @
     code_word D j @ lsb_bits (kDistanceExtra ! j) y"

fun tokens_ok :: "u8 list \<Rightarrow> u8 list \<Rightarrow> bytes \<Rightarrow> token list \<Rightarrow> bool" where
  "tokens_ok L D out [] \<longleftrightarrow> in_code L 256"
| "tokens_ok L D out (t # ts) \<longleftrightarrow> token_ok L D out t \<and> tokens_ok L D (expand_token out t) ts"

definition tokens_bits :: "u8 list \<Rightarrow> u8 list \<Rightarrow> token list \<Rightarrow> bool list" where
  "tokens_bits L D ts = concat (map (token_bits L D) ts) @ code_word L 256"

lemma length_lsb_bits [simp]: "length (lsb_bits n v) = n"
  by (simp add: lsb_bits_def)

lemma le_value_lsb: "v < 2 ^ n \<Longrightarrow> le_value (lsb_bits n v) = v"
  by (simp add: le_value_horner lsb_bits_def horner_sum_bit_eq_take_bit take_bit_nat_eq_self)

lemma bits_lsb:
  assumes "sound_reader r" and "stream r = lsb_bits n v @ rest" and "v < 2 ^ n" and "n \<le> 32"
  obtains x r' where "bits n r = (x, r')" "unat x = v" "stream r' = rest" "sound_reader r'" "br_data r' = br_data r"
proof -
  obtain x r' where "bits n r = (x, r')" "unat x = le_value (take n (stream r))"
      "stream r' = drop n (stream r)" "sound_reader r'" "br_data r' = br_data r"
    by (rule bits_stream [OF assms(1) _ assms(4)]) (simp add: assms(2))
  moreover have "take n (stream r) = lsb_bits n v" "drop n (stream r) = rest" by (simp_all add: assms(2))
  ultimately show ?thesis using assms(3) that [of x r'] by (simp add: le_value_lsb)
qed

lemma tables_bounds:
  "i < 29 \<Longrightarrow> kLengthExtra ! i \<le> 32" "j < 30 \<Longrightarrow> kDistanceExtra ! j \<le> 32"
  "j < 30 \<Longrightarrow> 0 < kDistanceBase ! j"
proof -
  have "\<forall>x \<in> set kLengthExtra. x \<le> 32" "length kLengthExtra = 29" "\<forall>x \<in> set kDistanceExtra. x \<le> 32"
      "length kDistanceExtra = 30" "\<forall>x \<in> set kDistanceBase. 0 < x" "length kDistanceBase = 30"
    by (simp_all add: kLengthExtra_def kDistanceExtra_def kDistanceBase_def)
  then show "i < 29 \<Longrightarrow> kLengthExtra ! i \<le> 32" "j < 30 \<Longrightarrow> kDistanceExtra ! j \<le> 32"
      "j < 30 \<Longrightarrow> 0 < kDistanceBase ! j" by (metis nth_mem)+
qed

text \<open>The byte loop of the code is the cyclic copy.\<close>

lemma copy_from_cyclic:
  assumes "0 < d" and "d \<le> length out"
  shows "copy_from n (length out - d) out = out @ map (\<lambda>k. out ! (length out - d + k mod d)) [0..<n]"
proof -
  define g where "g = (\<lambda>k. out ! (length out - d + k mod d))"
  have run: "copy_from n (length out - d + m) (out @ map g [0..<m]) = out @ map g [0..<m + n]" for n m
  proof (induction n arbitrary: m)
    case (Suc n)
    have "(out @ map g [0..<m]) ! (length out - d + m) = g m"
    proof (cases "m < d")
      case True
      then have "length out - d + m < length out" using assms by linarith
      then show ?thesis using True by (simp add: nth_append g_def)
    next
      case False
      then have i: "length out - d + m = length out + (m - d)" "m - d < m" using assms by linarith+
      have "(out @ map g [0..<m]) ! (length out - d + m) = g (m - d)"
        using i(2) by (simp add: i(1) nth_append_length_plus)
      also have "\<dots> = g m" using False by (simp add: g_def le_mod_geq)
      finally show ?thesis .
    qed
    then have "copy_from (Suc n) (length out - d + m) (out @ map g [0..<m]) =
        copy_from n (length out - d + Suc m) (out @ map g [0..<Suc m])" by simp
    then show ?case using Suc.IH [of "Suc m"] by simp
  qed simp
  show ?thesis using run [of n 0] by (simp add: g_def)
qed

lemma length_expand_token [simp]:
  "length (expand_token out t) = length out + match_length t"
  by (cases t) (auto simp: Let_def)

lemma length_expand_tokens: "length out \<le> length (foldl expand_token out ts)"
proof (induction ts arbitrary: out)
  case (Cons t ts)
  then show ?case using Cons.IH [of "expand_token out t"] by simp
qed simp

lemma code_symbol_neq: "in_code L s \<Longrightarrow> int s \<noteq> - 1" by simp

lemma symbol_step_token:
  assumes L: "codes_for L l" and D: "codes_for D d" and r: "sound_reader r"
    and s: "stream r = token_bits L D t @ rest" and t: "token_ok L D out t"
    and n: "length (expand_token out t) < kMaxInflateOutput"
  obtains r' where "symbol_step l d r out = Inr (False, r', expand_token out t)" "stream r' = rest"
    "sound_reader r'" "br_data r' = br_data r"
proof (cases t)
  case (Literal b)
  obtain r' where r': "decode l r = (int (unat b), r')" "stream r' = rest" "sound_reader r'" "br_data r' = br_data r"
    by (rule decode_code_word [OF L _ r]) (use t s Literal in auto)
  have "uint b < 256" using uint_lt2p [of b] by simp
  then have "symbol_step l d r out = Inr (False, r', out @ [b])"
    using n Literal by (simp add: symbol_step_def r'(1))
  then show ?thesis using that r' Literal by simp
next
  case (Match i x j y)
  have m: "i < 29" "in_code L (257 + i)" "x < 2 ^ (kLengthExtra ! i)" "j < 30" "in_code D j"
      "y < 2 ^ (kDistanceExtra ! j)" "kDistanceBase ! j + y \<le> length out"
    using t Match by simp_all
  obtain r1 where r1: "decode l r = (int (257 + i), r1)"
      "stream r1 = lsb_bits (kLengthExtra ! i) x @ code_word D j @ lsb_bits (kDistanceExtra ! j) y @ rest"
      "sound_reader r1" "br_data r1 = br_data r"
    by (rule decode_code_word [OF L m(2) r]) (use s Match in auto)
  obtain e r2 where r2: "bits (kLengthExtra ! i) r1 = (e, r2)" "unat e = x"
      "stream r2 = code_word D j @ lsb_bits (kDistanceExtra ! j) y @ rest" "sound_reader r2" "br_data r2 = br_data r1"
    by (rule bits_lsb [OF r1(3,2) m(3) tables_bounds(1) [OF m(1)]])
  obtain r3 where r3: "decode d r2 = (int j, r3)" "stream r3 = lsb_bits (kDistanceExtra ! j) y @ rest"
      "sound_reader r3" "br_data r3 = br_data r2"
    by (rule decode_code_word [OF D m(5) r2(4,3)])
  obtain z r4 where r4: "bits (kDistanceExtra ! j) r3 = (z, r4)" "unat z = y" "stream r4 = rest"
      "sound_reader r4" "br_data r4 = br_data r3"
    by (rule bits_lsb [OF r3(3,2) m(6) tables_bounds(2) [OF m(4)]])
  have d: "0 < kDistanceBase ! j + y" using tables_bounds(3) [OF m(4)] by simp
  have len: "length out + (kLengthBase ! i + x) < kMaxInflateOutput" using n Match by (simp add: Let_def)
  have "back_reference i d r1 out = Inr (r4, expand_token out t)"
    using m(1,4,7) d len r4(4) copy_from_cyclic [OF d m(7)]
    by (simp add: back_reference_def r2(1,2) r3(1) r4(1,2) sound_reader_def Match Let_def)
  moreover have "nat (int (257 + i) - 257) = i" by simp
  ultimately have "symbol_step l d r out = Inr (False, r4, expand_token out t)"
    using len unfolding symbol_step_def r1(1) by simp
  then show ?thesis using that r1 r2 r3 r4 by simp
qed

lemma inflate_symbols_tokens:
  assumes "codes_for L l" and "codes_for D d"
  shows "\<lbrakk>sound_reader r; stream r = tokens_bits L D ts @ rest; tokens_ok L D out ts;
      length (foldl expand_token out ts) < kMaxInflateOutput\<rbrakk> \<Longrightarrow>
    \<exists>r'. inflate_symbols l d r out = Inr (r', foldl expand_token out ts) \<and> stream r' = rest \<and>
      sound_reader r' \<and> br_data r' = br_data r"
proof (induction ts arbitrary: r out)
  case Nil
  obtain r' where r': "decode l r = (int 256, r')" "stream r' = rest" "sound_reader r'" "br_data r' = br_data r"
    by (rule decode_code_word [OF assms(1) _ Nil(1)]) (use Nil in \<open>auto simp: tokens_bits_def\<close>)
  have "symbol_step l d r out = Inr (True, r', out)" using Nil(4) by (simp add: symbol_step_def r'(1))
  then show ?case using r' by (simp add: inflate_symbols.simps [of l d r])
next
  case (Cons t ts)
  have n: "length (expand_token out t) < kMaxInflateOutput"
    using Cons.prems(4) length_expand_tokens [of "expand_token out t" ts] by simp
  obtain r1 where r1: "symbol_step l d r out = Inr (False, r1, expand_token out t)"
      "stream r1 = tokens_bits L D ts @ rest" "sound_reader r1" "br_data r1 = br_data r"
    by (rule symbol_step_token [OF assms Cons.prems(1) _ _ n]) (use Cons.prems in \<open>auto simp: tokens_bits_def\<close>)
  have "inflate_symbols l d r out = inflate_symbols l d r1 (expand_token out t)"
    by (simp add: inflate_symbols.simps [of l d r] r1(1))
  then show ?case using Cons.IH [OF r1(3,2)] Cons.prems(3,4) r1(4) by simp
qed

end
