(* ===== verification/Inflate_Blocks.thy ===== *)
theory Inflate_Blocks
  imports Inflate_Stream
begin

text \<open>
  Blocks of a DEFLATE stream: the header of a dynamic block, the three block types, and the round
  trip of a whole stream through \<open>inflate_raw\<close>.
\<close>

subsection \<open>The header of a dynamic block\<close>

datatype len_op = LenOf nat | RepeatLast nat | ShortZeros nat | LongZeros nat

fun expand_len :: "u8 list \<Rightarrow> len_op \<Rightarrow> u8 list" where
  "expand_len d (LenOf v) = d @ [of_nat v]"
| "expand_len d (RepeatLast n) = d @ replicate n (last d)"
| "expand_len d (ShortZeros n) = d @ replicate n 0"
| "expand_len d (LongZeros n) = d @ replicate n 0"

fun len_op_ok :: "u8 list \<Rightarrow> u8 list \<Rightarrow> len_op \<Rightarrow> bool" where
  "len_op_ok CL d (LenOf v) \<longleftrightarrow> v < 16 \<and> in_code CL v"
| "len_op_ok CL d (RepeatLast n) \<longleftrightarrow> d \<noteq> [] \<and> 3 \<le> n \<and> n \<le> 6 \<and> in_code CL 16"
| "len_op_ok CL d (ShortZeros n) \<longleftrightarrow> 3 \<le> n \<and> n \<le> 10 \<and> in_code CL 17"
| "len_op_ok CL d (LongZeros n) \<longleftrightarrow> 11 \<le> n \<and> n \<le> 138 \<and> in_code CL 18"

fun len_op_bits :: "u8 list \<Rightarrow> len_op \<Rightarrow> bool list" where
  "len_op_bits CL (LenOf v) = code_word CL v"
| "len_op_bits CL (RepeatLast n) = code_word CL 16 @ lsb_bits 2 (n - 3)"
| "len_op_bits CL (ShortZeros n) = code_word CL 17 @ lsb_bits 3 (n - 3)"
| "len_op_bits CL (LongZeros n) = code_word CL 18 @ lsb_bits 7 (n - 11)"

fun len_ops_ok :: "u8 list \<Rightarrow> nat \<Rightarrow> u8 list \<Rightarrow> len_op list \<Rightarrow> bool" where
  "len_ops_ok CL n d [] \<longleftrightarrow> length d = n"
| "len_ops_ok CL n d (x # xs) \<longleftrightarrow> length d < n \<and> length (expand_len d x) \<le> n \<and> len_op_ok CL d x \<and>
     len_ops_ok CL n (expand_len d x) xs"

lemma length_step_op:
  assumes C: "codes_for CL h" and r: "sound_reader r" and s: "stream r = len_op_bits CL x @ rest"
    and x: "len_op_ok CL d x" and n: "length (expand_len d x) \<le> n"
  obtains r' where "length_step h n r d = Inr (r', expand_len d x)" "stream r' = rest"
    "sound_reader r'" "br_data r' = br_data r"
proof -
  note goal = that
  have run: thesis
    if sym: "in_code CL v" "16 \<le> v" "v \<le> 18" and st: "stream r = code_word CL v @ lsb_bits w (m - b) @ rest"
      and m: "b \<le> m" "m - b < 2 ^ w" "w \<le> 32" and nz: "v = 16 \<longrightarrow> d \<noteq> []"
      and e: "expand_len d x = d @ replicate m (if v = 16 then last d else 0)"
      and w: "w = (if v = 16 then 2 else if v = 17 then 3 else 7)" and b: "b = (if v = 18 then 11 else 3)" for v w m b
  proof -
    obtain r1 where r1: "decode h r = (int v, r1)" "stream r1 = lsb_bits w (m - b) @ rest" "sound_reader r1"
        "br_data r1 = br_data r"
      by (rule decode_code_word [OF C sym(1) r st])
    obtain z r2 where r2: "bits w r1 = (z, r2)" "unat z = m - b" "stream r2 = rest" "sound_reader r2"
        "br_data r2 = br_data r1"
      by (rule bits_lsb [OF r1(3,2) m(2,3)])
    have "length_step h n r d = Inr (r2, expand_len d x)"
      using sym(2,3) nz r2(1,2,4) m(1) n unfolding e w b
      by (auto simp: length_step_def r1(1) sound_reader_def Let_def split: if_splits)
    then show thesis using goal [of r2] r1 r2 by simp
  qed
  show thesis
  proof (cases x)
    case (LenOf v)
    obtain r1 where r1: "decode h r = (int v, r1)" "stream r1 = rest" "sound_reader r1" "br_data r1 = br_data r"
      by (rule decode_code_word [OF C _ r]) (use s x LenOf in auto)
    then show ?thesis using that [of r1] x LenOf by (simp add: length_step_def)
  next
    case (RepeatLast m)
    then show ?thesis using run [of 16 2 m 3] s x by auto
  next
    case (ShortZeros m)
    then show ?thesis using run [of 17 3 m 3] s x by auto
  next
    case (LongZeros m)
    then show ?thesis using run [of 18 7 m 11] s x by auto
  qed
qed

lemma read_lengths_ops:
  assumes C: "codes_for CL h"
  shows "\<lbrakk>sound_reader r; stream r = concat (map (len_op_bits CL) xs) @ rest; len_ops_ok CL n d xs\<rbrakk> \<Longrightarrow>
    \<exists>r'. read_lengths h n r d = Inr (r', foldl expand_len d xs) \<and> stream r' = rest \<and> sound_reader r' \<and>
      br_data r' = br_data r"
proof (induction xs arbitrary: r d)
  case Nil
  then show ?case by (simp add: read_lengths.simps [of h n r])
next
  case (Cons x xs)
  obtain r1 where r1: "length_step h n r d = Inr (r1, expand_len d x)"
      "stream r1 = concat (map (len_op_bits CL) xs) @ rest" "sound_reader r1" "br_data r1 = br_data r"
    by (rule length_step_op [OF C Cons.prems(1)]) (use Cons.prems in auto)
  then show ?case using Cons.IH [OF r1(3,2)] Cons.prems(3) by (simp add: read_lengths.simps [of h n r])
qed

lemma read_code_lengths_result:
  "\<lbrakk>sound_reader r; stream r = concat (map (\<lambda>k. lsb_bits 3 (unat (CL ! k))) ks) @ rest;
    \<forall>k \<in> set ks. unat (CL ! k) < 8\<rbrakk> \<Longrightarrow>
   \<exists>r'. read_code_lengths ks ls r = (foldl (\<lambda>ls k. ls[k := CL ! k]) ls ks, r') \<and> stream r' = rest \<and>
     sound_reader r' \<and> br_data r' = br_data r"
proof (induction ks arbitrary: ls r)
  case (Cons k ks)
  obtain z r1 where r1: "bits 3 r = (z, r1)" "unat z = unat (CL ! k)"
      "stream r1 = concat (map (\<lambda>k. lsb_bits 3 (unat (CL ! k))) ks) @ rest" "sound_reader r1" "br_data r1 = br_data r"
    by (rule bits_lsb [OF Cons.prems(1)]) (use Cons.prems in auto)
  have "(ucast z :: u8) = CL ! k"
    using r1(2) Cons.prems(3) by (intro word_unat_eq_iff [THEN iffD2]) (simp add: unat_ucast_small)
  then show ?case using Cons.IH [OF r1(4,3), of "ls[k := CL ! k]"] Cons.prems(3) r1(1,5) by auto
qed simp

definition dynamic_ok :: "u8 list \<Rightarrow> nat \<Rightarrow> nat \<Rightarrow> nat \<Rightarrow> len_op list \<Rightarrow> bool" where
  "dynamic_ok CL hclen hlit hdist ops \<longleftrightarrow>
     length CL = 19 \<and> (\<forall>x \<in> set CL. unat x < 8) \<and> 4 \<le> hclen \<and> hclen \<le> 19 \<and>
     (\<forall>k \<in> set (drop hclen kOrder). CL ! k = 0) \<and> kraft CL \<and>
     257 \<le> hlit \<and> hlit \<le> 286 \<and> 1 \<le> hdist \<and> hdist \<le> 30 \<and> len_ops_ok CL (hlit + hdist) [] ops \<and>
     kraft (take hlit (foldl expand_len [] ops)) \<and> kraft (drop hlit (foldl expand_len [] ops))"

definition dynamic_bits :: "u8 list \<Rightarrow> nat \<Rightarrow> nat \<Rightarrow> nat \<Rightarrow> len_op list \<Rightarrow> bool list" where
  "dynamic_bits CL hclen hlit hdist ops =
     lsb_bits 5 (hlit - 257) @ lsb_bits 5 (hdist - 1) @ lsb_bits 4 (hclen - 4) @
     concat (map (\<lambda>k. lsb_bits 3 (unat (CL ! k))) (take hclen kOrder)) @ concat (map (len_op_bits CL) ops)"

lemma kOrder_set: "set kOrder = {..<19}" "length kOrder = 19" "distinct kOrder"
proof -
  show "set kOrder = {..<19}" unfolding kOrder_def by (auto simp: numeral_eq_Suc less_Suc_eq)
qed (simp_all add: kOrder_def)

lemma length_foldl_update: "length (foldl (\<lambda>ls k. ls[k := f k]) ls ks) = length ls"
  by (induction ks arbitrary: ls) auto

lemma nth_foldl_update:
  "k < length ls \<Longrightarrow> foldl (\<lambda>ls k. ls[k := f k]) ls ks ! k = (if k \<in> set ks then f k else ls ! k)"
  by (induction ks arbitrary: ls) (auto simp: nth_list_update)

lemma code_lengths_read:
  assumes "length CL = 19" and "\<forall>k \<in> set (drop n kOrder). CL ! k = 0"
  shows "foldl (\<lambda>ls k. ls[k := CL ! k]) (replicate 19 0) (take n kOrder) = CL"
proof (rule nth_equalityI)
  show l: "length (foldl (\<lambda>ls k. ls[k := CL ! k]) (replicate 19 0) (take n kOrder)) = length CL"
    using assms(1) by (simp add: length_foldl_update)
  fix k assume "k < length (foldl (\<lambda>ls k. ls[k := CL ! k]) (replicate 19 0) (take n kOrder))"
  then have k: "k < 19" using l assms(1) by simp
  then have "k \<in> set (take n kOrder) \<or> k \<in> set (drop n kOrder)"
    using kOrder_set(1) by (metis Un_iff append_take_drop_id lessThan_iff set_append)
  then show "foldl (\<lambda>ls k. ls[k := CL ! k]) (replicate 19 0) (take n kOrder) ! k = CL ! k"
    using k assms(2) by (subst nth_foldl_update) (auto simp del: replicate.simps)
qed

lemma len_ops_length: "len_ops_ok CL n d ops \<Longrightarrow> length (foldl expand_len d ops) = n"
  by (induction ops arbitrary: d) auto

lemma len_ops_bounded:
  "\<forall>x \<in> set d. unat x \<le> 15 \<Longrightarrow> len_ops_ok CL n d ops \<Longrightarrow> \<forall>x \<in> set (foldl expand_len d ops). unat x \<le> 15"
proof (induction ops arbitrary: d)
  case (Cons x ops)
  have "\<forall>y \<in> set (expand_len d x). unat y \<le> 15"
    using Cons.prems by (cases x) (auto simp: unat_of_nat)
  then show ?case using Cons by simp
qed simp

lemma huffman_build_ok:
  assumes "length L < 2 ^ 16" and "\<forall>x \<in> set L. unat x \<le> 15" and "kraft L"
  obtains h where "huffman_build L = Inr h" "codes_for L h"
proof -
  obtain h where "huffman_build L = Inr h" using huffman_build_result [OF assms(1)] assms(2,3) by auto
  then show ?thesis using that huffman_build_codes [OF assms(1)] by blast
qed

lemma dynamic_tables_result:
  assumes r: "sound_reader r" and s: "stream r = dynamic_bits CL hclen hlit hdist ops @ rest"
    and ok: "dynamic_ok CL hclen hlit hdist ops"
  defines "lens \<equiv> foldl expand_len [] ops"
  obtains r' l d where "dynamic_tables r = Inr (r', l, d)" "codes_for (take hlit lens) l"
    "codes_for (drop hlit lens) d" "stream r' = rest" "sound_reader r'" "br_data r' = br_data r"
proof -
  have o: "length CL = 19" "\<forall>x \<in> set CL. unat x < 8" "4 \<le> hclen" "hclen \<le> 19"
     "\<forall>k \<in> set (drop hclen kOrder). CL ! k = 0" "kraft CL" "257 \<le> hlit" "hlit \<le> 286" "1 \<le> hdist" "hdist \<le> 30"
     "len_ops_ok CL (hlit + hdist) [] ops" "kraft (take hlit lens)" "kraft (drop hlit lens)"
    using ok by (simp_all add: dynamic_ok_def lens_def)
  have CL: "\<forall>k \<in> set (take hclen kOrder). unat (CL ! k) < 8"
  proof
    fix k assume "k \<in> set (take hclen kOrder)"
    then have "k < length CL" using kOrder_set(1) o(1) in_set_takeD by fastforce
    then show "unat (CL ! k) < 8" using o(2) by simp
  qed
  let ?s3 = "concat (map (len_op_bits CL) ops) @ rest"
  let ?s2 = "concat (map (\<lambda>k. lsb_bits 3 (unat (CL ! k))) (take hclen kOrder)) @ ?s3"
  obtain x1 r1 where r1: "bits 5 r = (x1, r1)" "unat x1 = hlit - 257"
      "stream r1 = lsb_bits 5 (hdist - 1) @ lsb_bits 4 (hclen - 4) @ ?s2" "sound_reader r1" "br_data r1 = br_data r"
    by (rule bits_lsb [OF r]) (use s o in \<open>auto simp: dynamic_bits_def\<close>)
  obtain x2 r2 where r2: "bits 5 r1 = (x2, r2)" "unat x2 = hdist - 1"
      "stream r2 = lsb_bits 4 (hclen - 4) @ ?s2" "sound_reader r2" "br_data r2 = br_data r1"
    by (rule bits_lsb [OF r1(4,3)]) (use o in auto)
  obtain x3 r3 where r3: "bits 4 r2 = (x3, r3)" "unat x3 = hclen - 4" "stream r3 = ?s2" "sound_reader r3"
      "br_data r3 = br_data r2"
    by (rule bits_lsb [OF r2(4,3)]) (use o in auto)
  obtain r4 where r4: "read_code_lengths (take hclen kOrder) (replicate 19 0) r3 = (CL, r4)" "stream r4 = ?s3"
      "sound_reader r4" "br_data r4 = br_data r3"
    using read_code_lengths_result [OF r3(4,3) CL, of "replicate 19 0"] unfolding code_lengths_read [OF o(1,5)]
    by blast
  obtain h where h: "huffman_build CL = Inr h" "codes_for CL h"
    by (rule huffman_build_ok [of CL]) (use o in auto)
  obtain r5 where r5: "read_lengths h (hlit + hdist) r4 [] = Inr (r5, lens)" "stream r5 = rest" "sound_reader r5"
      "br_data r5 = br_data r4"
    using read_lengths_ops [OF h(2) r4(3,2) o(11)] unfolding lens_def by blast
  have n: "length lens = hlit + hdist" using len_ops_length [OF o(11)] by (simp add: lens_def)
  have b: "\<forall>x \<in> set lens. unat x \<le> 15" using len_ops_bounded [OF _ o(11)] by (simp add: lens_def)
  obtain l where l: "huffman_build (take hlit lens) = Inr l" "codes_for (take hlit lens) l"
    by (rule huffman_build_ok [of "take hlit lens"]) (use o n b in \<open>auto dest: in_set_takeD\<close>)
  obtain d where d: "huffman_build (drop hlit lens) = Inr d" "codes_for (drop hlit lens) d"
    by (rule huffman_build_ok [of "drop hlit lens"]) (use o n b in \<open>auto dest: in_set_dropD\<close>)
  have "take hdist (drop hlit lens) = drop hlit lens" using n by simp
  moreover have "hlit - 257 + 257 = hlit" "hdist - 1 + 1 = hdist" "hclen - 4 + 4 = hclen" using o by simp_all
  ultimately have "dynamic_tables r = Inr (r5, l, d)"
    using r3(4) r4(3) o(7-10)
    unfolding dynamic_tables_def r1(1) r2(1) r3(1) prod.case Let_def r1(2) r2(2) r3(2)
    by (simp only: sound_reader_def r4(1) prod.case h(1) r5(1) l(1) d(1) try_bind_simps) simp
  then show ?thesis using that l(2) d(2) r1 r2 r3 r4 r5 by simp
qed

subsection \<open>Blocks\<close>

datatype block = Stored bytes | Fixed "token list"
  | Dynamic "u8 list" nat nat nat "len_op list" "token list"

fun block_type :: "block \<Rightarrow> nat" where
  "block_type (Stored xs) = 0"
| "block_type (Fixed ts) = 1"
| "block_type (Dynamic CL hclen hlit hdist ops ts) = 2"

text \<open>The body of a block whose three header bits end at bit \<open>pos\<close>; a stored block pads to a byte.\<close>

fun block_body :: "nat \<Rightarrow> block \<Rightarrow> bool list" where
  "block_body pos (Stored xs) = replicate ((8 - pos mod 8) mod 8) False @
     bytes_bits (u16_le (of_nat (length xs)) @ u16_le (NOT (of_nat (length xs))) @ xs)"
| "block_body pos (Fixed ts) = tokens_bits fixed_literal_lengths fixed_distance_lengths ts"
| "block_body pos (Dynamic CL hclen hlit hdist ops ts) = dynamic_bits CL hclen hlit hdist ops @
     tokens_bits (take hlit (foldl expand_len [] ops)) (drop hlit (foldl expand_len [] ops)) ts"

fun expand_block :: "bytes \<Rightarrow> block \<Rightarrow> bytes" where
  "expand_block out (Stored xs) = out @ xs"
| "expand_block out (Fixed ts) = foldl expand_token out ts"
| "expand_block out (Dynamic CL hclen hlit hdist ops ts) = foldl expand_token out ts"

fun block_ok :: "bytes \<Rightarrow> block \<Rightarrow> bool" where
  "block_ok out (Stored xs) \<longleftrightarrow> length xs < 2 ^ 16"
| "block_ok out (Fixed ts) \<longleftrightarrow> tokens_ok fixed_literal_lengths fixed_distance_lengths out ts"
| "block_ok out (Dynamic CL hclen hlit hdist ops ts) \<longleftrightarrow> dynamic_ok CL hclen hlit hdist ops \<and>
     tokens_ok (take hlit (foldl expand_len [] ops)) (drop hlit (foldl expand_len [] ops)) out ts"

fun blocks_bits :: "nat \<Rightarrow> block list \<Rightarrow> bool list" where
  "blocks_bits pos [] = []"
| "blocks_bits pos (b # bs) = (bs = []) # lsb_bits 2 (block_type b) @ block_body (pos + 3) b @
     blocks_bits (pos + 3 + length (block_body (pos + 3) b)) bs"

fun blocks_ok :: "bytes \<Rightarrow> block list \<Rightarrow> bool" where
  "blocks_ok out [] \<longleftrightarrow> False"
| "blocks_ok out (b # bs) \<longleftrightarrow> block_ok out b \<and> length (expand_block out b) < kMaxInflateOutput \<and>
     (bs = [] \<or> blocks_ok (expand_block out b) bs)"

subsection \<open>Stored blocks\<close>

lemma byte_bits_inj: "byte_bits a = byte_bits b \<Longrightarrow> a = b"
proof (rule bit_word_eqI)
  fix n assume "byte_bits a = byte_bits b" "n < LENGTH(8)"
  then show "bit a n = bit b n" using map_eq_conv [of "bit a" "[0..<8]" "bit b"] by (simp add: byte_bits_def)
qed

lemma bytes_bits_prefix:
  "bytes_bits e = bytes_bits w @ rest \<Longrightarrow> e = w @ drop (length w) e \<and> rest = bytes_bits (drop (length w) e)"
proof (induction w arbitrary: e)
  case (Cons b w)
  then obtain a e' where e: "e = a # e'" by (cases e) (auto dest: arg_cong [of _ _ length])
  then have "byte_bits a = byte_bits b" "bytes_bits e' = bytes_bits w @ rest" using Cons.prems by auto
  then show ?case using Cons.IH [of e'] byte_bits_inj e by auto
qed simp

lemma aligned_advance:
  assumes "br_held r = 0" and "stream r = bytes_bits w @ rest" and "sound_reader r"
  shows "drop (br_pos r) (br_data r) = w @ drop (length w) (drop (br_pos r) (br_data r))"
    and "stream (r\<lparr>br_pos := br_pos r + length w\<rparr>) = rest"
  using bytes_bits_prefix [of "drop (br_pos r) (br_data r)" w rest] assms(2)
  by (simp_all add: stream_def assms(1) add.commute)

lemma stored_block_result:
  assumes r: "sound_reader r"
    and s: "stream r = replicate (length (stream r) mod 8) False @
      bytes_bits (u16_le (of_nat (length xs)) @ u16_le (NOT (of_nat (length xs))) @ xs) @ rest"
    and n: "length xs < 2 ^ 16" "length out + length xs \<le> kMaxInflateOutput"
  obtains r' where "stored_block r out = Inr (r', out @ xs)" "stream r' = rest" "sound_reader r'"
    "br_data r' = br_data r"
proof -
  define a where "a = align_to_byte r"
  have a: "br_held a = 0" "sound_reader a" "br_data a = br_data r" "br_pos a = br_pos r"
    using stream_align [OF r] by (simp_all add: a_def align_to_byte_def)
  let ?n = "of_nat (length xs) :: u16"
  have sa: "stream a = bytes_bits (u16_le ?n @ u16_le (NOT ?n) @ xs) @ rest"
    using stream_align(1) [OF r] s unfolding a_def [symmetric]
    by (metis append_eq_conv_conj length_replicate)
  let ?d = "drop (br_pos a) (br_data a)"
  obtain tl where d: "?d = u16_le ?n @ u16_le (NOT ?n) @ xs @ tl"
    using aligned_advance(1) [OF a(1) sa a(2)] by (metis append.assoc)
  have tl: "rest = bytes_bits tl"
    using sa unfolding aligned_stream [OF a(1)] d by simp
  define r1 where "r1 = a\<lparr>br_pos := br_pos a + 2\<rparr>"
  have 1: "read_u16_le a = (?n, r1)" "drop (br_pos r1) (br_data r1) = u16_le (NOT ?n) @ xs @ tl"
    using read_u16_le_stream [OF d] by (simp_all add: r1_def)
  define r2 where "r2 = r1\<lparr>br_pos := br_pos r1 + 2\<rparr>"
  have 2: "read_u16_le r1 = (NOT ?n, r2)" "drop (br_pos r2) (br_data r2) = xs @ tl"
    using read_u16_le_stream [OF 1(2)] by (simp_all add: r2_def)
  have h: "br_held r2 = 0" using a by (simp add: r2_def r1_def)
  have len: "br_pos r2 \<le> length (br_data r2)"
  proof -
    have "length ?d = 4 + length (xs @ tl)" unfolding d by (simp add: u16_le_def)
    then show ?thesis by (simp add: r2_def r1_def)
  qed
  define r3 where "r3 = r2\<lparr>br_pos := br_pos r2 + length xs\<rparr>"
  have 3: "copy_bytes (length xs) r2 out = ((True, r3), out @ xs)" "drop (br_pos r3) (br_data r3) = tl"
    using copy_bytes_stream [OF h 2(2) len] by (simp_all add: r3_def)
  have "unat ?n = length xs" using n(1) by (simp add: unat_of_nat)
  then have "stored_block r out = Inr (r3, out @ xs)"
    using n(2) a(2) unfolding stored_block_def a_def [symmetric] 1(1) Let_def prod.case 2(1)
    by (simp add: 3(1)) (simp add: r2_def r1_def sound_reader_def)
  moreover have "stream r3 = rest" using 3(2) a tl by (simp add: stream_def r3_def r2_def r1_def)
  moreover have "sound_reader r3" "br_data r3 = br_data r"
    using a by (simp_all add: r3_def r2_def r1_def sound_reader_def)
  ultimately show ?thesis using that by blast
qed

subsection \<open>The fixed tables\<close>

lemma bl_count_replicate [simp]: "bl_count (replicate n x) l = (if unat x = l then n else 0)"
  by (simp add: bl_count_def)

lemma sum_1_15: "(\<Sum>k = 1..(15::nat). f k) = f 1 + f 2 + f 3 + f 4 + f 5 + f 6 + f 7 + f 8 + f 9 + f 10 + f 11 +
    f 12 + f 13 + f 14 + (f 15 :: nat)"
  by (simp add: numeral_eq_Suc)

lemma fixed_literal_counts:
  "bl_count fixed_literal_lengths l = (if l = 7 then 24 else if l = 8 then 152 else if l = 9 then 112 else 0)"
  unfolding fixed_literal_lengths_def by (simp del: replicate.simps)

lemma fixed_tables_result:
  obtains l d where "fixed_tables = Inr (l, d)" "codes_for fixed_literal_lengths l" "codes_for fixed_distance_lengths d"
proof -
  have k1: "kraft fixed_literal_lengths" unfolding kraft_sum sum_1_15 fixed_literal_counts by simp
  have "length fixed_literal_lengths < 2 ^ 16" by (simp add: fixed_literal_lengths_def del: replicate.simps)
  moreover have "\<forall>x \<in> set fixed_literal_lengths. unat x \<le> 15"
    by (auto simp: fixed_literal_lengths_def simp del: replicate.simps)
  ultimately obtain l where l: "huffman_build fixed_literal_lengths = Inr l" "codes_for fixed_literal_lengths l"
    using huffman_build_ok k1 by blast
  have k2: "kraft fixed_distance_lengths"
    unfolding kraft_sum sum_1_15 fixed_distance_lengths_def by (simp del: replicate.simps)
  have "length fixed_distance_lengths < 2 ^ 16" "\<forall>x \<in> set fixed_distance_lengths. unat x \<le> 15"
    by (auto simp: fixed_distance_lengths_def simp del: replicate.simps)
  then obtain d where d: "huffman_build fixed_distance_lengths = Inr d" "codes_for fixed_distance_lengths d"
    using huffman_build_ok k2 by blast
  show ?thesis using that [of l d] l d by (simp add: fixed_tables_def)
qed

text \<open>Which symbols the fixed codes have, and the code words of the table of section 3.2.6.\<close>

lemma fixed_in_code: "in_code fixed_literal_lengths s \<longleftrightarrow> s < 288" "in_code fixed_distance_lengths s \<longleftrightarrow> s < 30"
proof -
  have "length fixed_literal_lengths = 288" "\<forall>x \<in> set fixed_literal_lengths. x \<noteq> 0"
    by (auto simp: fixed_literal_lengths_def simp del: replicate.simps)
  then show "in_code fixed_literal_lengths s \<longleftrightarrow> s < 288" by (auto simp: in_code_def dest: nth_mem)
  show "in_code fixed_distance_lengths s \<longleftrightarrow> s < 30"
    by (auto simp: in_code_def fixed_distance_lengths_def simp del: replicate.simps)
qed

lemma fixed_distance_counts: "bl_count fixed_distance_lengths l = (if l = 5 then 30 else 0)"
  by (simp add: fixed_distance_lengths_def del: replicate.simps)

lemma fixed_first_code:
  "first_code fixed_literal_lengths 7 = 0" "first_code fixed_literal_lengths 8 = 48"
  "first_code fixed_distance_lengths 5 = 0"
  by (simp_all add: numeral_eq_Suc fixed_literal_counts fixed_distance_counts)

lemma fixed_code_words:
  "s < 144 \<Longrightarrow> code_word fixed_literal_lengths s = msb_bits 8 (48 + s)"
  "s < 24 \<Longrightarrow> code_word fixed_literal_lengths (256 + s) = msb_bits 7 s"
  "j < 30 \<Longrightarrow> code_word fixed_distance_lengths j = msb_bits 5 j"
proof -
  have 1: "s < 144 \<Longrightarrow> code_length fixed_literal_lengths s = 8 \<and> rank_of fixed_literal_lengths s = s"
    by (simp add: rank_of_def code_length_def fixed_literal_lengths_def nth_append min_def del: replicate.simps)
  have 2: "s < 24 \<Longrightarrow> code_length fixed_literal_lengths (256 + s) = 7 \<and> rank_of fixed_literal_lengths (256 + s) = s"
    by (simp add: rank_of_def code_length_def fixed_literal_lengths_def nth_append min_def del: replicate.simps)
  have 3: "j < 30 \<Longrightarrow> code_length fixed_distance_lengths j = 5 \<and> rank_of fixed_distance_lengths j = j"
    by (simp add: rank_of_def code_length_def fixed_distance_lengths_def min_def del: replicate.simps)
  show "s < 144 \<Longrightarrow> code_word fixed_literal_lengths s = msb_bits 8 (48 + s)"
    and "s < 24 \<Longrightarrow> code_word fixed_literal_lengths (256 + s) = msb_bits 7 s"
    and "j < 30 \<Longrightarrow> code_word fixed_distance_lengths j = msb_bits 5 j"
    using 1 2 3 by (simp_all add: code_word_def canonical_code_def fixed_first_code)
qed

end
