(* ===== verification/Inflate_Laws.thy ===== *)
theory Inflate_Laws
  imports Inflate_Blocks
begin

text \<open>
  The decompressor as a whole: the round trip of every DEFLATE stream, the bounds that hold on
  hostile input, and the zlib wrapper with its checksum.
\<close>

lemma pad_mod:
  assumes "(p + n) mod 8 = (0::nat)"
  shows "n mod 8 = (8 - p mod 8) mod 8"
proof -
  have s: "(p mod 8 + n mod 8) mod 8 = 0" using assms by (simp add: mod_add_eq)
  have "p mod 8 + n mod 8 = 0 \<or> p mod 8 + n mod 8 = 8"
  proof (cases "p mod 8 + n mod 8 < 8")
    case True
    then show ?thesis using s by simp
  next
    case False
    moreover have "p mod 8 < 8" "n mod 8 < 8" by simp_all
    ultimately have "p mod 8 + n mod 8 - 8 < 8" "(p mod 8 + n mod 8 - 8) mod 8 = 0"
      using s by (linarith, simp add: le_mod_geq)
    then show ?thesis using False by simp
  qed
  moreover have "n mod 8 < 8" by simp
  ultimately show ?thesis by fastforce
qed

lemma block_step_result:
  assumes r: "sound_reader r" and s: "stream r = f # lsb_bits 2 (block_type b) @ block_body (pos + 3) b @ rest"
    and p: "(pos + length (stream r)) mod 8 = 0"
    and ok: "block_ok out b" and n: "length (expand_block out b) < kMaxInflateOutput"
  obtains r' where "block_step r out = Inr (f, r', expand_block out b)" "stream r' = rest" "sound_reader r'"
    "br_data r' = br_data r"
proof -
  have "stream r = lsb_bits 1 (of_bool f) @ lsb_bits 2 (block_type b) @ block_body (pos + 3) b @ rest"
    using s by (simp add: lsb_bits_def bit_0)
  then obtain x r1 where r1: "bits 1 r = (x, r1)" "unat x = of_bool f"
      "stream r1 = lsb_bits 2 (block_type b) @ block_body (pos + 3) b @ rest" "sound_reader r1" "br_data r1 = br_data r"
    by (rule bits_lsb [OF r]) simp_all
  have bt: "block_type b < 2 ^ 2" by (cases b) simp_all
  obtain t r2 where r2: "bits 2 r1 = (t, r2)" "unat t = block_type b" "stream r2 = block_body (pos + 3) b @ rest"
      "sound_reader r2" "br_data r2 = br_data r1"
    by (rule bits_lsb [OF r1(4,3) bt]) simp
  have f: "(x \<noteq> 0) = f" using r1(2) by (cases f) (auto simp: unat_eq_zero)
  have nb: "\<not> br_overrun r2" using r2(4) by (simp add: sound_reader_def)
  note head = block_step_def [of r out, unfolded r1(1) prod.case Let_def r2(1) f] nb
  show ?thesis
  proof (cases b)
    case (Stored xs)
    have t: "t = 0" using r2(2) Stored by (simp add: unat_eq_zero)
    have "(pos + 3 + length (stream r2)) mod 8 = 0" using p s r2(3) by (simp add: ac_simps)
    from pad_mod [OF this]
    have "stream r2 = replicate (length (stream r2) mod 8) False @
        bytes_bits (u16_le (of_nat (length xs)) @ u16_le (NOT (of_nat (length xs))) @ xs) @ rest"
      using r2(3) Stored by simp
    then obtain r3 where "stored_block r2 out = Inr (r3, out @ xs)" "stream r3 = rest" "sound_reader r3"
        "br_data r3 = br_data r2"
      by (rule stored_block_result [OF r2(4)]) (use ok n Stored in auto)
    then show ?thesis using that [of r3] head t r1(5) r2(5) Stored by simp
  next
    case (Fixed ts)
    have t: "t = 1" using r2(2) Fixed by (intro word_unat_eq_iff [THEN iffD2]) simp
    obtain l d where ld: "fixed_tables = Inr (l, d)" "codes_for fixed_literal_lengths l"
        "codes_for fixed_distance_lengths d" by (rule fixed_tables_result)
    obtain r3 where "inflate_symbols l d r2 out = Inr (r3, foldl expand_token out ts)" "stream r3 = rest"
        "sound_reader r3" "br_data r3 = br_data r2"
      using inflate_symbols_tokens [OF ld(2,3) r2(4), of ts rest out] r2(3) ok n Fixed by auto
    moreover from this have "block_step r out = Inr (f, r3, expand_block out b)"
      using head t Fixed by (simp add: ld(1))
    ultimately show ?thesis using that [of r3] r1(5) r2(5) by simp
  next
    case (Dynamic CL hclen hlit hdist ops ts)
    have t: "t = 2" using r2(2) Dynamic by (intro word_unat_eq_iff [THEN iffD2]) simp
    let ?L = "take hlit (foldl expand_len [] ops)" and ?D = "drop hlit (foldl expand_len [] ops)"
    have s2: "stream r2 = dynamic_bits CL hclen hlit hdist ops @ tokens_bits ?L ?D ts @ rest"
      using r2(3) Dynamic by simp
    obtain r3 l d where r3: "dynamic_tables r2 = Inr (r3, l, d)" "codes_for ?L l" "codes_for ?D d"
        "stream r3 = tokens_bits ?L ?D ts @ rest" "sound_reader r3" "br_data r3 = br_data r2"
      by (rule dynamic_tables_result [OF r2(4) s2]) (use ok Dynamic in auto)
    obtain r4 where "inflate_symbols l d r3 out = Inr (r4, foldl expand_token out ts)" "stream r4 = rest"
        "sound_reader r4" "br_data r4 = br_data r3"
      using inflate_symbols_tokens [OF r3(2,3,5,4)] ok n Dynamic by auto
    then show ?thesis using that [of r4] head t r1(5) r2(5) r3 Dynamic by simp
  qed
qed

lemma inflate_blocks_result:
  "\<lbrakk>sound_reader r; stream r = blocks_bits pos bs @ rest; (pos + length (stream r)) mod 8 = 0; blocks_ok out bs\<rbrakk> \<Longrightarrow>
    inflate_blocks r out = Inr (foldl expand_block out bs)"
proof (induction bs arbitrary: r pos out)
  case (Cons b bs)
  let ?pos' = "pos + 3 + length (block_body (pos + 3) b)"
  have s: "stream r = (bs = []) # lsb_bits 2 (block_type b) @ block_body (pos + 3) b @ blocks_bits ?pos' bs @ rest"
    using Cons.prems(2) by simp
  obtain r1 where r1: "block_step r out = Inr (bs = [], r1, expand_block out b)"
      "stream r1 = blocks_bits ?pos' bs @ rest" "sound_reader r1"
    by (rule block_step_result [OF Cons.prems(1) s Cons.prems(3)]) (use Cons.prems(4) in auto)
  show ?case
  proof (cases "bs = []")
    case True
    then show ?thesis using r1(1) by (simp add: inflate_blocks.simps [of r])
  next
    case False
    have "?pos' + length (stream r1) = pos + length (stream r)" unfolding s r1(2) by simp
    then have "(?pos' + length (stream r1)) mod 8 = 0" using Cons.prems(3) by metis
    then have "inflate_blocks r1 (expand_block out b) = Inr (foldl expand_block (expand_block out b) bs)"
      using Cons.IH [OF r1(3,2)] Cons.prems(4) False by simp
    then show ?thesis using r1(1) False by (simp add: inflate_blocks.simps [of r])
  qed
qed simp

subsection \<open>Bounds on any input\<close>

lemma length_copy_from [simp]: "length (copy_from n at out) = length out + n"
  by (induction n at out rule: copy_from.induct) auto

lemma symbol_step_bounded:
  assumes "symbol_step l d r out = Inr (e, r', out')"
  shows "length out' \<le> kMaxInflateOutput"
  using assms
  by (auto simp: symbol_step_def back_reference_def result_map_Inr_iff Let_def case_prod_beta split: if_splits)

lemma inflate_symbols_bounded: "inflate_symbols l d r out = Inr (r', out') \<Longrightarrow> length out' \<le> kMaxInflateOutput"
proof (induction l d r out rule: inflate_symbols.induct)
  case (1 l d r out)
  obtain e r1 out1 where s: "symbol_step l d r out = Inr (e, r1, out1)"
    using 1(2) by (auto simp: inflate_symbols.simps [of l d r] split: sum.splits)
  show ?case
  proof (cases e)
    case True
    then show ?thesis using 1(2) s symbol_step_bounded [OF s] by (simp add: inflate_symbols.simps [of l d r])
  next
    case False
    then have "inflate_symbols l d r1 out1 = Inr (r', out')"
      using 1(2) s by (simp add: inflate_symbols.simps [of l d r])
    then show ?thesis using 1(1) [OF s refl refl False] by simp
  qed
qed

lemma block_step_bounded:
  assumes "block_step r out = Inr (f, r', out')"
  shows "length out' \<le> kMaxInflateOutput"
proof -
  obtain x1 r1 where a: "bits 1 r = (x1, r1)" by (meson surj_pair)
  obtain x2 r2 where b: "bits 2 r1 = (x2, r2)" by (meson surj_pair)
  have "stored_block r2 out = Inr (r', out') \<or> (\<exists>l d r3. inflate_symbols l d r3 out = Inr (r', out'))"
    using assms by (auto simp: block_step_def a [simplified] b Let_def result_map_Inr_iff try_bind_Inr_iff
        split: if_splits)
  then show ?thesis
  proof
    assume "stored_block r2 out = Inr (r', out')"
    then show ?thesis
      by (auto simp: stored_block_def copy_bytes_def Let_def case_prod_beta split: if_splits)
  qed (use inflate_symbols_bounded in blast)
qed

lemma inflate_blocks_bounded: "inflate_blocks r out = Inr out' \<Longrightarrow> length out' \<le> kMaxInflateOutput"
proof (induction r out rule: inflate_blocks.induct)
  case (1 r out)
  obtain f r1 out1 where s: "block_step r out = Inr (f, r1, out1)"
    using 1(2) by (auto simp: inflate_blocks.simps [of r] split: sum.splits)
  show ?case
  proof (cases f)
    case True
    then show ?thesis using 1(2) s block_step_bounded [OF s] by (simp add: inflate_blocks.simps [of r])
  next
    case False
    then have "inflate_blocks r1 out1 = Inr out'" using 1(2) s by (simp add: inflate_blocks.simps [of r])
    then show ?thesis using 1(1) [OF s refl refl False] by simp
  qed
qed

subsection \<open>Error codes\<close>

lemma bad_code [simp]: "err_code (bad w) = LogBadFormat" "err_code (bad_at w x) = LogBadFormat"
  by (simp_all add: bad_def bad_at_def plain_error_def)

definition bad_format :: "'a result \<Rightarrow> bool" where
  "bad_format x \<longleftrightarrow> (case x of Inl e \<Rightarrow> err_code e = LogBadFormat | Inr v \<Rightarrow> True)"

lemma bad_format_simps [simp]: "bad_format (Inl e) \<longleftrightarrow> err_code e = LogBadFormat" "bad_format (Inr v)"
  by (simp_all add: bad_format_def)

lemma bad_format_bind: "bad_format x \<Longrightarrow> (\<And>v. x = Inr v \<Longrightarrow> bad_format (f v)) \<Longrightarrow> bad_format (try_bind x f)"
  by (cases x) auto

lemma bad_format_if: "bad_format x \<Longrightarrow> bad_format y \<Longrightarrow> bad_format (if b then x else y)"
  by simp

lemma bad_format_map [simp]: "bad_format (result_map f x) = bad_format x"
  by (cases x) auto

lemma bad_format_build [simp]: "bad_format (huffman_build L)"
proof -
  have c: "bad_format (count_lengths L c)" for c by (induction L c rule: count_lengths.induct) auto
  have s: "bad_format (check_subscription ns c left)" for ns c left
    by (induction ns c left rule: check_subscription.induct) (auto simp: Let_def)
  show ?thesis
  proof (cases "count_lengths L (replicate 16 0)")
    case (Inl e)
    then show ?thesis using c [of "replicate 16 0"] by (simp add: huffman_build_def)
  next
    case (Inr c0)
    then show ?thesis using s by (auto simp: huffman_build_def Let_def intro!: bad_format_bind)
  qed
qed

lemma bad_format_fixed [simp]: "bad_format fixed_tables"
  by (simp add: fixed_tables_def bad_format_bind)

lemma bad_format_length_step [simp]: "bad_format (length_step cl n r d)"
  by (simp add: length_step_def Let_def case_prod_beta)

lemma bad_format_lengths [simp]: "bad_format (read_lengths cl n r d)"
proof (induction cl n r d rule: read_lengths.induct)
  case (1 cl n r d)
  show ?case
    using bad_format_length_step [of cl n r d] 1
    by (cases "length_step cl n r d") (auto simp: read_lengths.simps [of cl n r] simp del: bad_format_length_step)
qed

lemma bad_format_dynamic [simp]: "bad_format (dynamic_tables r)"
  by (auto simp: dynamic_tables_def Let_def case_prod_beta intro!: bad_format_bind)

lemma bad_format_symbol_step [simp]: "bad_format (symbol_step l d r out)"
  by (simp add: symbol_step_def back_reference_def Let_def case_prod_beta)

lemma bad_format_symbols [simp]: "bad_format (inflate_symbols l d r out)"
proof (induction l d r out rule: inflate_symbols.induct)
  case (1 l d r out)
  show ?case
    using bad_format_symbol_step [of l d r out] 1
    by (cases "symbol_step l d r out") (auto simp: inflate_symbols.simps [of l d r] simp del: bad_format_symbol_step)
qed

lemma bad_format_block_step [simp]: "bad_format (block_step r out)"
  by (auto simp: block_step_def stored_block_def Let_def case_prod_beta intro!: bad_format_bind)

lemma bad_format_blocks [simp]: "bad_format (inflate_blocks r out)"
proof (induction r out rule: inflate_blocks.induct)
  case (1 r out)
  show ?case
    using bad_format_block_step [of r out] 1
    by (cases "block_step r out") (auto simp: inflate_blocks.simps [of r] simp del: bad_format_block_step)
qed

subsection \<open>The Adler-32 checksum\<close>

fun adler_a :: "bytes \<Rightarrow> nat" where
  "adler_a d = 1 + sum_list (map unat d)"

definition adler_b :: "bytes \<Rightarrow> nat" where
  "adler_b d = length d + (\<Sum>i < length d. (length d - i) * unat (d ! i))"

lemma adler_b_snoc: "adler_b (d @ [x]) = adler_b d + adler_a (d @ [x])"
proof -
  let ?n = "length d"
  have "(\<Sum>i < ?n. (Suc ?n - i) * unat (d ! i)) = (\<Sum>i < ?n. (?n - i) * unat (d ! i) + unat (d ! i))"
    by (rule sum.cong) (auto simp: Suc_diff_le)
  also have "\<dots> = (\<Sum>i < ?n. (?n - i) * unat (d ! i)) + sum_list (map unat d)"
    by (simp add: sum.distrib sum_list_sum_nth lessThan_atLeast0)
  finally show ?thesis by (simp add: adler_b_def nth_append)
qed

lemma adler_fold:
  "case foldl adler_step (1, 0) d of (a, b) \<Rightarrow> unat a = adler_a d mod 65521 \<and> unat b = adler_b d mod 65521"
proof (induction d rule: rev_induct)
  case Nil
  then show ?case by (simp add: adler_b_def)
next
  case (snoc x d)
  obtain a b where e: "foldl adler_step (1, 0) d = (a, b)" by (meson surj_pair)
  have ab: "unat a = adler_a d mod 65521" "unat b = adler_b d mod 65521" using snoc e by auto
  have x: "unat (ucast x :: u32) = unat x" by (simp add: unat_ucast_up)
  have k: "unat kMod = 65521" by (simp add: kMod_def)
  have "unat x < 256" "unat a < 65521" using unat_less_exp [of x] by (simp_all add: ab)
  then have "unat (a + ucast x) = unat a + unat x" by (simp add: unat_add_wrap x)
  then have a': "unat ((a + ucast x) mod kMod) = adler_a (d @ [x]) mod 65521"
    by (simp add: unat_mod k ab(1) mod_simps ac_simps)
  then have "unat (b + (a + ucast x) mod kMod) = unat b + adler_a (d @ [x]) mod 65521"
    using ab(2) by (simp add: unat_add_wrap del: adler_a.simps)
  then have "unat ((b + (a + ucast x) mod kMod) mod kMod) = adler_b (d @ [x]) mod 65521"
    by (simp add: unat_mod k ab(2) mod_simps adler_b_snoc del: adler_a.simps)
  then show ?case using a' by (simp add: e) (simp add: adler_step_def Let_def)
qed

lemma adler32_value: "unat (adler32 d) = (adler_b d mod 65521) * 2 ^ 16 + adler_a d mod 65521"
proof -
  obtain a b where e: "foldl adler_step (1, 0) d = (a, b)" by (meson surj_pair)
  have ab: "unat a = adler_a d mod 65521" "unat b = adler_b d mod 65521" using adler_fold [of d] by (auto simp: e)
  have "unat (push_bit 16 b) = unat b * 2 ^ 16" by (rule unat_push_bit_small) (simp add: ab)
  then have "unat (push_bit 16 b OR a) = push_bit 16 (unat b) OR unat a"
    by (simp add: unsigned_or_eq push_bit_eq_mult)
  also have "\<dots> = unat b * 2 ^ 16 + unat a" by (rule or_shift_add) (simp add: ab)
  finally show ?thesis by (simp add: adler32_def e ab)
qed

lemma low_part_eq: "x * m + a = y * m + b \<Longrightarrow> a < m \<Longrightarrow> b < m \<Longrightarrow> a = (b :: nat)"
  by (metis mod_less mod_mult_self3)

lemma mod_cancel_small:
  assumes "(s + u) mod m = (s + v) mod m" and "u < m" and "v < (m :: nat)"
  shows "u = v"
proof -
  have "u = v" if "u \<le> v" "(s + u) mod m = (s + v) mod m" "v < m" for u v
  proof -
    have "m dvd (s + v) - (s + u)" using that by (intro mod_eq_dvd_iff_nat [THEN iffD1]) auto
    then have "m dvd v - u" by simp
    then have "v - u = 0" using that(3) dvd_imp_le [of m "v - u"] by (cases "v - u = 0") auto
    then show ?thesis using that(1) by simp
  qed
  from this [of u v] this [of v u] show ?thesis using assms by (cases "u \<le> v") auto
qed

lemma adler32_eq_a: "adler32 d = adler32 d' \<Longrightarrow> adler_a d mod 65521 = adler_a d' mod 65521"
proof -
  assume "adler32 d = adler32 d'"
  then have "(adler_b d mod 65521) * 65536 + adler_a d mod 65521 = (adler_b d' mod 65521) * 65536 + adler_a d' mod 65521"
    using adler32_value [of d] adler32_value [of d'] by simp
  moreover have n: "n mod 65521 < 65536" for n :: nat
    using mod_less_divisor [of 65521 n] by (rule order.strict_trans) simp_all
  ultimately show ?thesis using low_part_eq [OF _ n n] by blast
qed

lemma adler32_byte_change:
  assumes "i < length d" and "x \<noteq> d ! i"
  shows "adler32 (d[i := x]) \<noteq> adler32 d"
proof
  assume "adler32 (d[i := x]) = adler32 d"
  then have e: "adler_a (d[i := x]) mod 65521 = adler_a d mod 65521" by (rule adler32_eq_a)
  define s where "s = 1 + sum_list (map unat (take i d)) + sum_list (map unat (drop (Suc i) d))"
  have d: "adler_a d = s + unat (d ! i)"
    using arg_cong [OF id_take_nth_drop [OF assms(1)], of adler_a] by (simp add: s_def)
  have dx: "adler_a (d[i := x]) = s + unat x"
    using assms(1) by (simp add: upd_conv_take_nth_drop s_def)
  have "unat x < 65521" "unat (d ! i) < 65521"
    by (rule order.strict_trans2 [OF unat_less_exp], simp)+
  with e [unfolded d dx] have "unat x = unat (d ! i)" by (rule mod_cancel_small)
  then show False using assms(2) by (simp add: word_unat_eq_iff)
qed

subsection \<open>The zlib container\<close>

definition be32 :: "u32 \<Rightarrow> bytes" where
  "be32 w = [ucast (drop_bit 24 w), ucast (drop_bit 16 w), ucast (drop_bit 8 w), ucast w]"

definition zlib_header_ok :: "u8 \<Rightarrow> u8 \<Rightarrow> bool" where
  "zlib_header_ok cmf flg \<longleftrightarrow> cmf AND 0x0F = 8 \<and> (push_bit 8 (ucast cmf) OR ucast flg :: u32) mod 31 = 0 \<and>
     flg AND 0x20 = 0"

lemma stored_checksum_be32: "stored_checksum (be32 w) = w"
proof (rule bit_word_eqI)
  fix n assume "n < LENGTH(32)"
  then have "n < 8 \<or> 8 \<le> n \<and> n < 16 \<or> 16 \<le> n \<and> n < 24 \<or> 24 \<le> n \<and> n < 32" by auto
  then show "bit (stored_checksum (be32 w)) n = bit w n"
    by (elim disjE) (auto simp: stored_checksum_def be32_def bit_simps)
qed

text \<open>The smallest container there is: one stored byte.\<close>

lemma inflate_stored_byte: "inflate_raw [1, 1, 0, 254, 255, x] = Inr [x]"
proof -
  have "bytes_bits [1, 1, 0, 254, 255] = True # lsb_bits 2 0 @ replicate 5 False @ bytes_bits (u16_le 1 @ u16_le (NOT 1))"
    by code_simp
  then have "bytes_bits [1, 1, 0, 254, 255, x] = blocks_bits 0 [Stored [x]] @ []" by simp
  then show ?thesis
    unfolding inflate_raw_def using inflate_blocks_result [of "new_reader [1, 1, 0, 254, 255, x]" 0 "[Stored [x]]" "[]" "[]"]
    by (simp add: kMaxInflateOutput_def)
qed

lemma inflate_zlib_container:
  assumes "zlib_header_ok cmf flg" and "inflate_raw d = Inr out" and "length t = 4"
  shows "inflate_zlib (cmf # flg # d @ t) =
    (if stored_checksum t = adler32 out then Inr out
     else Inl (bad ''zlib checksum mismatch: the container is corrupt''))"
  using assms by (simp add: inflate_zlib_def zlib_header_ok_def Let_def)

text \<open>C16. Canonical codes: for code lengths that \<open>Huffman::build\<close> accepts, \<open>decode\<close> returns symbol
  \<open>s\<close> and leaves the stream \<open>rest\<close> exactly when \<open>s\<close> has a code and the stream begins with the code
  word RFC 1951 assigns to \<open>s\<close>, followed by \<open>rest\<close>.\<close>

theorem huffman_decode_canonical:
  assumes "length L < 2 ^ 16" and "huffman_build L = Inr h" and "sound_reader r"
  shows "(\<exists>r'. decode h r = (int s, r') \<and> stream r' = rest \<and> sound_reader r') \<longleftrightarrow>
    in_code L s \<and> stream r = code_word L s @ rest"
proof
  note c = huffman_build_codes [OF assms(1,2)]
  show "\<exists>r'. decode h r = (int s, r') \<and> stream r' = rest \<and> sound_reader r' \<Longrightarrow>
      in_code L s \<and> stream r = code_word L s @ rest"
    using decode_sound [OF c assms(3)] by fastforce
  show "in_code L s \<and> stream r = code_word L s @ rest \<Longrightarrow>
      \<exists>r'. decode h r = (int s, r') \<and> stream r' = rest \<and> sound_reader r'"
    using decode_code_word [OF c _ assms(3)] by metis
qed

theorem huffman_decode_canonical_witness:
  "\<exists>r'. decode \<lparr>huf_counts = code_counts [1, 1], huf_symbols = place_symbols [1, 1] (huffman_offsets (code_counts [1, 1]))\<rparr>
      (new_reader [5]) = (int 1, r') \<and> stream r' = [False, True, False, False, False, False, False] \<and> sound_reader r'"
proof -
  have k: "kraft [1, 1]" unfolding kraft_sum sum_1_15 by simp
  have b: "huffman_build [1, 1] = Inr \<lparr>huf_counts = code_counts [1, 1],
      huf_symbols = place_symbols [1, 1] (huffman_offsets (code_counts [1, 1]))\<rparr>"
    using huffman_build_result [of "[1, 1]"] k by simp
  have "in_code [1, 1] 1 \<and> stream (new_reader [5]) = code_word [1, 1] 1 @ [False, True, False, False, False, False, False]"
    by code_simp
  with huffman_decode_canonical [OF _ b, of "new_reader [5]" 1] show ?thesis by simp
qed

text \<open>C28. What \<open>Huffman::build\<close> accepts: lengths of at most 15 bits that satisfy Kraft's inequality
  (incomplete codes included), with the error of the first violated condition otherwise.\<close>

theorem huffman_build_accepts:
  assumes "length L < 2 ^ 16"
  shows "(has_value (huffman_build L) \<longleftrightarrow>
      (\<forall>x \<in> set L. unat x \<le> 15) \<and> (\<Sum>s | in_code L s. 2 ^ (15 - code_length L s)) \<le> (2 ^ 15 :: nat)) \<and>
    bad_format (huffman_build L)"
  unfolding huffman_build_result [OF assms] using kraft_iff [of L] by (auto simp: has_value_def)

theorem huffman_build_accepts_witness:
  "\<not> has_value (huffman_build [1, 1, 1])"
proof -
  have "\<not> kraft [1, 1, 1]" unfolding kraft_sum sum_1_15 by simp
  then show ?thesis using huffman_build_accepts [of "[1, 1, 1]"] kraft_iff [of "[1, 1, 1]"] by auto
qed

text \<open>C3. The decompressor inverts DEFLATE: every stream of stored, fixed and dynamic blocks that is
  well formed and stays below the output limit, whatever follows it, is read back to the bytes its
  tokens stand for; wrapped in a valid zlib header and its checksum, \<open>inflate_zlib\<close> returns them.\<close>

theorem inflate_inverts_deflate:
  assumes "blocks_ok [] bs" and "bytes_bits d = blocks_bits 0 bs @ rest"
  shows "inflate_raw d = Inr (foldl expand_block [] bs) \<and>
    (zlib_header_ok cmf flg \<longrightarrow>
      inflate_zlib (cmf # flg # d @ be32 (adler32 (foldl expand_block [] bs))) = Inr (foldl expand_block [] bs))"
proof -
  have "inflate_raw d = Inr (foldl expand_block [] bs)"
    unfolding inflate_raw_def
    by (rule inflate_blocks_result [where pos = 0 and rest = rest]) (use assms in \<open>simp_all flip: assms(2)\<close>)
  then show ?thesis by (simp add: inflate_zlib_container be32_def stored_checksum_be32 [unfolded be32_def])
qed

theorem inflate_inverts_deflate_witness:
  "inflate_raw [115, 116, 4, 2, 0] = Inr [65, 65, 65, 65, 65]"
proof -
  let ?b = "[Fixed [Literal 65, Literal 65, Match 0 0 0 0]]"
  have t: "tokens_ok fixed_literal_lengths fixed_distance_lengths [] [Literal 65, Literal 65, Match 0 0 0 0]"
    by (simp add: fixed_in_code kDistanceBase_def)
  have e1: "expand_block [] (hd ?b) = [65, 65, 65, 65, 65]"
    by (simp add: kLengthBase_def kDistanceBase_def upt_rec)
  then have e: "foldl expand_block [] ?b = [65, 65, 65, 65, 65]" by simp
  have "length (expand_block [] (hd ?b)) < kMaxInflateOutput" unfolding e1 by (simp add: kMaxInflateOutput_def)
  then have "blocks_ok [] ?b" unfolding blocks_ok.simps block_ok.simps list.sel using t by blast
  moreover have "bytes_bits [115, 116, 4, 2, 0] = blocks_bits 0 ?b @ replicate 2 False"
    by (simp add: tokens_bits_def fixed_code_words fixed_code_words(2) [of 0, simplified]
        fixed_code_words(2) [of 1, simplified] kLengthExtra_def kDistanceExtra_def) code_simp
  ultimately show ?thesis using inflate_inverts_deflate [of ?b] unfolding e by blast
qed

text \<open>C29. On any input at all \<open>inflate_zlib\<close> returns: either an error of code \<open>LogBadFormat\<close>, or an
  output of at most \<open>kMaxInflateOutput\<close> bytes whose Adler-32 checksum, as RFC 1950 defines it, is
  the one stored in the last four bytes.\<close>

theorem inflate_zlib_outcome:
  "case inflate_zlib d of
     Inl e \<Rightarrow> err_code e = LogBadFormat
   | Inr out \<Rightarrow> length out \<le> kMaxInflateOutput \<and>
       unat (stored_checksum (drop (length d - 4) d)) = (adler_b out mod 65521) * 2 ^ 16 + adler_a out mod 65521"
proof (cases "inflate_zlib d")
  case (Inl e)
  have "bad_format (inflate_zlib d)"
    unfolding inflate_zlib_def inflate_raw_def Let_def
    by (intro bad_format_if bad_format_bind) simp_all
  then show ?thesis using Inl by simp
next
  case (Inr out)
  then have "inflate_raw (take (length d - 6) (drop 2 d)) = Inr out \<and> stored_checksum (drop (length d - 4) d) = adler32 out"
    by (auto simp: inflate_zlib_def Let_def try_bind_Inr_iff split: if_splits)
  then show ?thesis using Inr inflate_blocks_bounded adler32_value by (auto simp: inflate_raw_def)
qed

text \<open>The checksum catches a wrong byte: if the data of a container decompress to the original
  output with one byte changed, the container is rejected.\<close>

theorem zlib_detects_wrong_byte:
  assumes "zlib_header_ok cmf flg" and "inflate_zlib (cmf # flg # d @ be32 c) = Inr out"
    and "inflate_raw d = Inr out" and "inflate_raw d' = Inr (out[i := x])" and "i < length out" and "x \<noteq> out ! i"
  shows "inflate_zlib (cmf # flg # d' @ be32 c) = Inl (bad ''zlib checksum mismatch: the container is corrupt'')"
proof -
  have n: "length (be32 c) = 4" by (simp add: be32_def)
  have "stored_checksum (be32 c) = adler32 out"
    using assms(2) unfolding inflate_zlib_container [OF assms(1,3) n] by (auto split: if_splits)
  then show ?thesis
    using adler32_byte_change [OF assms(5,6)] unfolding inflate_zlib_container [OF assms(1,4) n] by simp
qed

theorem zlib_detects_wrong_byte_witness:
  "inflate_zlib [0x78, 1, 1, 1, 0, 254, 255, 66, 0, 66, 0, 66] =
    Inl (bad ''zlib checksum mismatch: the container is corrupt'')"
proof -
  have h: "zlib_header_ok 0x78 1" by (simp add: zlib_header_ok_def)
  have t: "be32 0x00420042 = [0, 66, 0, 66]" and c: "adler32 [65] = 0x00420042" by code_simp+
  have "inflate_zlib (0x78 # 1 # [1, 1, 0, 254, 255, 65] @ be32 0x00420042) = Inr [65]"
    using inflate_zlib_container [OF h inflate_stored_byte, of "be32 0x00420042" 65]
    unfolding stored_checksum_be32 c by (simp add: be32_def)
  from zlib_detects_wrong_byte [OF h this inflate_stored_byte, of "[1, 1, 0, 254, 255, 66]" 0 66]
  show ?thesis by (simp add: inflate_stored_byte t)
qed

end
