(* ===== verification/BlfLog_Laws.thy ===== *)
theory BlfLog_Laws
  imports BlfLog LogFormat_Files Inflate_Laws
begin

text \<open>
  What a binary trace says: objects, padded to four bytes, bare or in containers that are stored or
  compressed, with the container's payload at either of its two published offsets. The reader gives back
  the records of every such file; and the files it does not read.
\<close>

subsection \<open>Fields\<close>

definition le16 :: "u16 \<Rightarrow> bytes" where "le16 w = [ucast w, ucast (drop_bit 8 w)]"

definition le32 :: "u32 \<Rightarrow> bytes" where
  "le32 w = [ucast w, ucast (drop_bit 8 w), ucast (drop_bit 16 w), ucast (drop_bit 24 w)]"

definition le64 :: "u64 \<Rightarrow> bytes" where "le64 w = le32 (ucast w) @ le32 (ucast (drop_bit 32 w))"

lemma length_le [simp]: "length (le16 w) = 2" "length (le32 v) = 4" "length (le64 x) = 8"
  by (simp_all add: le16_def le32_def le64_def)

lemma read_le16: "read_u16 (le16 w @ r) 0 = w"
proof (rule bit_word_eqI)
  fix n assume "n < LENGTH(16)"
  then have "n < 8 \<or> 8 \<le> n \<and> n < 16" by auto
  then show "bit (read_u16 (le16 w @ r) 0) n = bit w n"
    by (elim disjE) (auto simp: read_u16_def le16_def bit_simps)
qed

lemma read_le32: "read_u32 (le32 w @ r) 0 = w"
proof (rule bit_word_eqI)
  fix n assume "n < LENGTH(32)"
  then have "n < 8 \<or> 8 \<le> n \<and> n < 16 \<or> 16 \<le> n \<and> n < 24 \<or> 24 \<le> n \<and> n < 32" by auto
  then show "bit (read_u32 (le32 w @ r) 0) n = bit w n"
    by (elim disjE) (auto simp: read_u32_def le32_def bit_simps)
qed

lemma read_drop:
  "at + k + 2 \<le> length p \<Longrightarrow> read_u16 p (at + k) = read_u16 (drop at p) k"
  "at + k + 4 \<le> length p \<Longrightarrow> read_u32 p (at + k) = read_u32 (drop at p) k"
  "at + k + 8 \<le> length p \<Longrightarrow> read_u64 p (at + k) = read_u64 (drop at p) k"
  by (simp_all add: read_u16_def read_u32_def read_u64_def ac_simps)

text \<open>A field found after \<open>k\<close> bytes.\<close>

lemma read_at:
  "length x = k \<Longrightarrow> read_u16 (x @ le16 w @ r) k = w"
  "length x = k \<Longrightarrow> read_u32 (x @ le32 v @ r) k = v"
  "length x = k \<Longrightarrow> read_u64 (x @ le64 u @ r) k = u"
proof -
  show h: "length x = k \<Longrightarrow> read_u16 (x @ le16 w @ r) k = w" for x k w r
    using read_le16 [of w r] by (auto simp: read_u16_def nth_append)
  show w: "length x = k \<Longrightarrow> read_u32 (x @ le32 v @ r) k = v" for x k v r
    using read_le32 [of v r] by (auto simp: read_u32_def nth_append numeral_2_eq_2)
  assume k: "length x = k"
  have a: "read_u32 (x @ le64 u @ r) k = ucast u" using w [OF k] by (simp add: le64_def)
  have b: "read_u32 (x @ le64 u @ r) (k + 4) = ucast (drop_bit 32 u)"
    using w [of "x @ le32 (ucast u)" "k + 4"] k by (simp add: le64_def)
  show "read_u64 (x @ le64 u @ r) k = u"
  proof (rule bit_word_eqI)
    fix n assume "n < LENGTH(64)"
    then have "n < 32 \<or> 32 \<le> n \<and> n < 64" by auto
    then show "bit (read_u64 (x @ le64 u @ r) k) n = bit u n"
      unfolding read_u64_def a b by (elim disjE) (auto simp: bit_simps)
  qed
qed

subsection \<open>Objects and files\<close>

definition blf_object :: "u32 \<Rightarrow> u16 \<Rightarrow> bytes \<Rightarrow> bytes" where
  "blf_object ty hs body = lobj @ le16 hs @ le16 1 @ le32 (of_nat (16 + length body)) @ le32 ty @ body"

definition padded :: "bytes \<Rightarrow> bytes" where
  "padded xs = xs @ replicate ((4 - length xs mod 4) mod 4) 0"

text \<open>
  The object of a classic frame: the long header with a nanosecond timestamp, then channel, direction, data
  length code, identifier and eight data bytes, as the comment of \<open>parse_can_message\<close> gives them. A CAN_MESSAGE ends
  there; a CAN_MESSAGE2 has eight more bytes, the frame length, the bit count and reserved ones, which may be any.
\<close>

definition can_payload :: "u16 \<Rightarrow> log_record \<Rightarrow> bytes \<Rightarrow> bytes" where
  "can_payload ch r extra =
     (let f = lr_frame r
      in le16 ch @ [if lr_is_rx r then 0 else 1, frame_dlc f] @ le32 (packed (frame_id f)) @
         payload_of f @ replicate (8 - frame_size f) 0 @ extra)"

definition can_object :: "u16 \<Rightarrow> log_record \<Rightarrow> bytes \<Rightarrow> bytes" where
  "can_object ch r extra =
     blf_object (if extra = [] then kObjCanMessage else kObjCanMessage2) 32
       (le32 kTimeOneNans @ replicate 4 0 @ le64 (timestamp_ns (lr_frame r)) @ can_payload ch r extra)"

datatype blf_item = Can u16 log_record bytes | Other u32 bytes

datatype blf_chunk = Item blf_item | Container u16 u32 bool bytes "blf_item list"

fun item_bytes :: "blf_item \<Rightarrow> bytes" where
  "item_bytes (Can ch r extra) = padded (can_object ch r extra)"
| "item_bytes (Other ty body) = padded (blf_object ty 16 body)"

definition contents :: "blf_item list \<Rightarrow> bytes" where
  "contents is = concat (map item_bytes is)"

fun chunk_bytes :: "blf_chunk \<Rightarrow> bytes" where
  "chunk_bytes (Item i) = item_bytes i"
| "chunk_bytes (Container meth n gap z is) =
     padded (blf_object kObjLogContainer 16 (le16 meth @ replicate 6 0 @ le32 n @ (if gap then replicate 4 0 else []) @ z))"



fun item_ok :: "blf_item \<Rightarrow> bool" where
  "item_ok (Can ch r extra) \<longleftrightarrow> wf_frame 64 (lr_frame r) \<and> wf_id (frame_id (lr_frame r)) \<and> flags_printed (lr_frame r) \<and>
     \<not> is_fd (lr_frame r) \<and> \<not> is_remote (lr_frame r) \<and> \<not> is_error_frame (lr_frame r) \<and> (extra = [] \<or> length extra = 8) \<and>
     lr_channel r = ''can'' @ dec_plain (unat ch)"
| "item_ok (Other ty body) \<longleftrightarrow> length body < 2 ^ 31 \<and>
     ty \<notin> {kObjLogContainer, kObjCanMessage, kObjCanMessage2, kObjCanFdMessage, kObjCanFdMessage64}"

text \<open>A stored container holds its contents as they are, a compressed one a zlib stream of them.\<close>

fun chunk_ok :: "blf_chunk \<Rightarrow> bool" where
  "chunk_ok (Item i) \<longleftrightarrow> item_ok i"
| "chunk_ok (Container meth n gap z is) \<longleftrightarrow> (\<forall>i\<in>set is. item_ok i) \<and> unat n \<le> kMaxInflateOutput \<and> length z < 2 ^ 31 \<and>
     length (contents is) < 2 ^ 32 \<and>
     (if meth = 0 then z = contents is \<and> is \<noteq> [] \<and> unat n = length z else inflate_zlib z = Inr (contents is))"




subsection \<open>One object\<close>

lemma length_blf_object [simp]: "length (blf_object ty hs body) = 16 + length body"
  by (simp add: blf_object_def lobj_def)

lemma drop_length: "drop at data = x @ rest \<Longrightarrow> x \<noteq> [] \<Longrightarrow> length data = at + length x + length rest"
proof -
  assume d: "drop at data = x @ rest" "x \<noteq> []"
  then have "at < length data" by (metis append_is_Nil_conv drop_eq_Nil not_le)
  moreover have "length data - at = length x + length rest" using d(1) by (metis length_append length_drop)
  ultimately show ?thesis by simp
qed

lemma object_fields:
  assumes d: "drop at data = blf_object ty hs body @ rest"
  shows "read_u16 data (at + 4) = hs" "read_u16 data (at + 6) = 1"
    "read_u32 data (at + 8) = of_nat (16 + length body)" "read_u32 data (at + 12) = ty"
    "length data = at + 16 + length body + length rest" "take 4 (drop at data) = lobj"
    "drop (at + 16) data = body @ rest"
proof -
  show len: "length data = at + 16 + length body + length rest"
    using drop_length [OF d] by (simp add: blf_object_def lobj_def)
  let ?n = "of_nat (16 + length body)"
  have e: "drop at data = lobj @ le16 hs @ le16 1 @ le32 ?n @ le32 ty @ body @ rest"
    using d by (simp add: blf_object_def)
  show "read_u16 data (at + 4) = hs" using len by (subst read_drop) (simp, subst e, rule read_at, simp add: lobj_def)
  have f: "drop at data = (lobj @ le16 hs) @ le16 1 @ le32 ?n @ le32 ty @ body @ rest" using e by simp
  show "read_u16 data (at + 6) = 1" using len by (subst read_drop) (simp, subst f, rule read_at, simp add: lobj_def)
  have f: "drop at data = (lobj @ le16 hs @ le16 1) @ le32 ?n @ le32 ty @ body @ rest" using e by simp
  show "read_u32 data (at + 8) = ?n" using len by (subst read_drop) (simp, subst f, rule read_at, simp add: lobj_def)
  have f: "drop at data = (lobj @ le16 hs @ le16 1 @ le32 ?n) @ le32 ty @ body @ rest" using e by simp
  show "read_u32 data (at + 12) = ty" using len by (subst read_drop) (simp, subst f, rule read_at, simp add: lobj_def)
  show "take 4 (drop at data) = lobj" unfolding e by (simp add: lobj_def)
  have "drop (at + 16) data = drop 16 (drop at data)" by (simp add: add.commute)
  also have "\<dots> = body @ rest" unfolding e by (simp add: lobj_def le16_def le32_def)
  finally show "drop (at + 16) data = body @ rest" .
qed

lemma object_size_back:
  assumes "length body < 2 ^ 31 + 64"
  shows "unat (of_nat (16 + length body) :: u32) = 16 + length body"
  unfolding unat_of_nat by (rule mod_less) (use assms in simp)

lemma header_short:
  assumes d: "drop at data = blf_object ty 16 body @ rest" and n: "length body < 2 ^ 31 + 64"
  shows "read_header data at = Inr \<lparr>oh_header_size = 16, oh_header_version = 1, oh_object_size = of_nat (16 + length body),
    oh_object_type = ty, oh_flags = 0, oh_timestamp = 0, oh_payload_offset = at + 16\<rparr>"
proof -
  note f = object_fields [OF d] and s = object_size_back [OF n]
  have "\<not> (of_nat (16 + length body) :: u32) < 16" using s by (simp add: word_less_nat_alt del: of_nat_add)
  then show ?thesis
    unfolding read_header_def f(1-4) f(6) Let_def s using f(5) by simp
qed


lemma and_not_3: "unat ((w :: u64) AND NOT 3) = unat w div 4 * 4"
proof -
  have "w AND NOT 3 = push_bit 2 (drop_bit 2 w)"
  proof (rule bit_word_eqI)
    fix n assume "n < LENGTH(64)"
    have "bit (3 :: u64) n \<longleftrightarrow> n < 2"
      using bit_mask_iff [of 2 n, where 'a = u64] by (auto simp: mask_eq_exp_minus_1 bit_simps dest: bit_imp_le_length)
    then show "bit (w AND NOT 3) n = bit (push_bit 2 (drop_bit 2 w)) n"
      using \<open>n < LENGTH(64)\<close> unfolding bit_and_iff bit_not_iff bit_push_bit_iff bit_drop_bit_eq
      by (cases "n < 2") (simp_all add: not_less del: add_2_eq_Suc add_2_eq_Suc')
  qed
  moreover have "unat (drop_bit 2 w) = unat w div 4"
    unfolding unsigned_drop_bit_eq by (simp add: drop_bit_eq_div take_bit_nat_eq_self unat_less_exp [where 'a = 64, simplified])
  moreover have "unat w < 2 ^ 64" using unat_less_exp [of w] by simp
  then have "unat w div 4 * 4 < 2 ^ 64" by simp
  ultimately show ?thesis using unat_push_bit_small [of "drop_bit 2 w" 2] by simp
qed

lemma round_up_4: "(k + 3) div 4 * 4 = k + (4 - k mod 4) mod (4 :: nat)"
proof -
  define q r where "q = k div 4" and "r = k mod 4"
  have k: "k = 4 * q + r" and "r < 4" by (simp_all add: q_def r_def)
  then have "r = 0 \<or> r = 1 \<or> r = 2 \<or> r = 3" by linarith
  then show ?thesis unfolding r_def [symmetric] unfolding k by (elim disjE) simp_all
qed

lemma aligned_of_nat:
  assumes "k + 3 < 2 ^ LENGTH(32)"
  shows "aligned (of_nat k) = (k + 3) div 4 * 4"
proof -
  have e: "(of_nat k + 3 :: u32) = of_nat (k + 3)" unfolding of_nat_add of_nat_numeral by (rule refl)
  have u: "unat (of_nat (k + 3) :: u32) = k + 3" unfolding unat_of_nat by (rule mod_less [OF assms])
  have "unat (ucast (of_nat (k + 3) :: u32) :: u64) = k + 3" by (rule trans [OF unat_ucast_up u]) simp
  then show ?thesis by (simp only: aligned_def and_not_3 e)
qed

lemma aligned_padded: "length x < 2 ^ 31 + 128 \<Longrightarrow> aligned (of_nat (length x)) = length (padded x)"
  using aligned_of_nat [of "length x"] by (simp add: padded_def round_up_4)


lemma blf_id_back: "wf_id i \<Longrightarrow> blf_id (packed i) = Inr i"
proof (cases "is_extended i")
  case True
  assume w: "wf_id i"
  have "packed i AND 0x80000000 \<noteq> 0" "packed i AND 0x1FFFFFFF = id_value i"
    using True by (simp_all add: is_extended_def id_value_def kEffFlag_def kExtendedIdMax_def)
  then show ?thesis using extended_back [OF w True] by (simp add: blf_id_def)
next
  case False
  assume w: "wf_id i"
  have "packed i AND 0x80000000 = 0" using False by (simp add: is_extended_def kEffFlag_def)
  moreover have "take_bit 11 (packed i) = id_value i"
    using wf_id_std [OF w False] take_bit_word_small [of "packed i" 11] by auto
  then have "packed i AND 0x7FF = id_value i" by (simp add: take_bit_eq_mask mask_eq_exp_minus_1)
  ultimately show ?thesis using standard_back [OF w False] by (simp add: blf_id_def)
qed




subsection \<open>The objects of a stream\<close>

lemma length_padded: "length x \<le> length (padded x)" "length (padded x) \<le> length x + 3"
  by (simp_all add: padded_def)

lemma read_object_at:
  assumes "read_header data cursor = Inr h" and "oh_object_size h = of_nat (length x)" and "length x < 2 ^ 31 + 128"
    and "drop cursor data = padded x @ rest" and "x \<noteq> []"
  shows "read_object data cursor =
    (let after = cursor + length (padded x);
         payload = take (cursor + length x - oh_payload_offset h) (drop (oh_payload_offset h) data);
         ty = oh_object_type h
     in if ty = kObjLogContainer then
          (case unpack_container data after h of
             Inl e \<Rightarrow> (Inl e, after, None)
           | Inr c \<Rightarrow> (Inl (plain_error LogEndOfFile ''container consumed''), after, Some c))
        else if ty = kObjCanMessage \<or> ty = kObjCanMessage2 then (parse_can_message h payload, after, None)
        else if ty = kObjCanFdMessage \<or> ty = kObjCanFdMessage64 then (parse_can_fd_message h payload, after, None)
        else (Inl (plain_error LogEndOfFile ''not a CAN object''), after, None))"
proof -
  have "padded x \<noteq> []" using assms(5) by (simp add: padded_def)
  from drop_length [OF assms(4) this] have "\<not> cursor + length (padded x) > length data" by simp
  moreover have "unat (of_nat (length x) :: u32) = length x"
    unfolding unat_of_nat by (rule mod_less) (use assms(3) in simp)
  ultimately show ?thesis
    unfolding read_object_def assms(1) sum.case assms(2) aligned_padded [OF assms(3)] Let_def by (simp only: if_False)
qed




lemma unat_position: "k < 2 ^ 63 \<Longrightarrow> unat (of_nat k :: u64) = k"
  unfolding unat_of_nat by (rule mod_less) simp

lemma position_add: "(of_nat k :: u64) + 16 = of_nat (k + 16)" "(of_nat k :: u64) + 12 = of_nat (k + 12)"
  "(of_nat k :: u64) + 8 = of_nat (k + 8)" "(of_nat k :: u64) + 2 = of_nat (k + 2)" "(of_nat k :: u64) + 1 = of_nat (k + 1)"
  by (simp_all only: of_nat_add of_nat_numeral of_nat_1)

definition plausible_at :: "bytes \<Rightarrow> nat \<Rightarrow> u16 \<Rightarrow> u32 \<Rightarrow> nat \<Rightarrow> bool" where
  "plausible_at data e meth n k \<longleftrightarrow> k + 2 \<le> e \<and>
     (if meth = 0 then e - k = unat n
      else data ! k AND 0x0F = 8 \<and> (push_bit 8 (ucast (data ! k)) OR ucast (data ! (k + 1)) :: u32) mod 31 = 0)"

lemma container_start_nat:
  assumes "b + 18 < 2 ^ 63" and "e < 2 ^ 63"
  shows "container_start data (of_nat b) (of_nat e) meth n =
    (if plausible_at data e meth n (b + 12) then of_nat (b + 12)
     else if plausible_at data e meth n (b + 16) then of_nat (b + 16) else 0)"
proof -
  have pl: "((of_nat k :: u64) + 2 \<le> of_nat e \<and>
      (if meth = 0 then of_nat e - of_nat k = (ucast n :: u64)
       else let cmf = data ! unat (of_nat k :: u64); flg = data ! unat ((of_nat k :: u64) + 1)
            in cmf AND 0x0F = 8 \<and> (push_bit 8 (ucast cmf) OR ucast flg :: u32) mod 31 = 0)) = plausible_at data e meth n k"
    if k: "k + 2 < 2 ^ 63" for k
  proof (cases "k + 2 \<le> e")
    case True
    have "(of_nat e - of_nat k = (ucast n :: u64)) = (e - k = unat n)"
    proof -
      have "(of_nat e - of_nat k :: u64) = of_nat (e - k)" using True by (simp add: of_nat_diff)
      moreover have "unat (of_nat (e - k) :: u64) = e - k" by (rule unat_position) (use assms(2) in simp)
      moreover have "unat (ucast n :: u64) = unat n" by (rule unat_ucast_up) simp
      ultimately show ?thesis unfolding word_unat_eq_iff by (simp only:)
    qed
    moreover have "unat (of_nat k :: u64) = k" "unat (of_nat (k + 1) :: u64) = k + 1"
      by (rule unat_position, use k in simp)+
    moreover have "(of_nat (k + 2) :: u64) \<le> of_nat e"
      unfolding word_le_nat_alt unat_position [OF k] unat_position [OF assms(2)] by (rule True)
    ultimately show ?thesis using True unfolding plausible_at_def position_add Let_def by (simp only: simp_thms)
  next
    case False
    then have "\<not> (of_nat (k + 2) :: u64) \<le> of_nat e"
      unfolding word_le_nat_alt unat_position [OF k] unat_position [OF assms(2)] .
    then show ?thesis using False unfolding plausible_at_def position_add by (simp only: simp_thms)
  qed
  have "b + 12 + 2 < 2 ^ 63" "b + 16 + 2 < 2 ^ 63" using assms(1) by simp_all
  note pl = pl [OF this(1)] pl [OF this(2)]
  show ?thesis unfolding container_start_def Let_def position_add by (simp only: pl [unfolded Let_def position_add])
qed

lemma zlib_header_of:
  assumes "inflate_zlib z = Inr out"
  shows "6 \<le> length z" and "z ! 0 AND 0x0F = 8" and "(push_bit 8 (ucast (z ! 0)) OR ucast (z ! 1) :: u32) mod 31 = 0"
  using assms unfolding inflate_zlib_def Let_def by (auto simp del: One_nat_def split: if_splits)

lemma length_contents: "is \<noteq> [] \<Longrightarrow> 16 \<le> length (contents is)"
proof (cases "is")
  case (Cons i rest)
  have "16 \<le> length x \<Longrightarrow> 16 \<le> length (padded x)" for x by (rule order_trans [OF _ length_padded(1)])
  then have "16 \<le> length (item_bytes i)" by (cases i) (simp_all add: can_object_def)
  then show ?thesis by (simp add: contents_def Cons)
qed simp

text \<open>The search of the reader finds the payload of a container, in either layout.\<close>

lemma plausible_found:
  assumes "chunk_ok (Container meth n gap z is)"
    and d: "drop k data = (if gap then replicate 4 0 else []) @ z @ rest" and "k \<le> length data"
    and e: "e = k + (if gap then 4 else 0) + length z"
  shows "if gap then \<not> plausible_at data e meth n k \<and> plausible_at data e meth n (k + 4) else plausible_at data e meth n k"
proof -
  have z: "meth = 0 \<Longrightarrow> unat n = length z \<and> 2 \<le> length z" "meth \<noteq> 0 \<Longrightarrow> 6 \<le> length z"
    and head: "meth \<noteq> 0 \<Longrightarrow> z ! 0 AND 0x0F = 8 \<and> (push_bit 8 (ucast (z ! 0)) OR ucast (z ! 1) :: u32) mod 31 = 0"
    using assms(1) length_contents [of "is"] zlib_header_of [of z] by (auto simp del: One_nat_def)
  have at: "data ! (k + i) = ((if gap then replicate 4 0 else []) @ z @ rest) ! i" for i
    using assms(3) unfolding d [symmetric] by simp
  show ?thesis
  proof (cases gap)
    case True
    have "data ! k = 0" using at [of 0] True by (simp add: nth_append)
    moreover have "data ! (k + 4) = z ! 0" "data ! (k + 4 + 1) = z ! 1" if "meth \<noteq> 0"
      using at [of 4] at [of 5] z(2) [OF that] True by (auto simp: nth_append add.commute)
    ultimately show ?thesis using True z head by (auto simp: plausible_at_def e)
  next
    case False
    have "data ! k = z ! 0" "data ! (k + 1) = z ! 1" if "meth \<noteq> 0"
      using at [of 0] at [of 1] z(2) [OF that] False by (auto simp: nth_append)
    then show ?thesis using False z head by (auto simp: plausible_at_def e)
  qed
qed

lemma read_container:
  assumes ok: "chunk_ok (Container meth n gap z is)" and len: "length data < 2 ^ 63"
    and d: "drop cursor data = chunk_bytes (Container meth n gap z is) @ rest"
  shows "read_object data cursor = (Inl (plain_error LogEndOfFile ''container consumed''),
    cursor + length (chunk_bytes (Container meth n gap z is)), Some (contents is, meth))"
proof -
  let ?pad = "if gap then replicate 4 0 else [] :: bytes"
  define body where "body = le16 meth @ replicate 6 0 @ le32 n @ ?pad @ z"
  let ?x = "blf_object kObjLogContainer 16 body"
  define tail where "tail = replicate ((4 - length ?x mod 4) mod 4) 0 @ rest"
  define g where "g = (if gap then 4 else 0 :: nat)"
  have lb: "length body = 12 + g + length z" by (simp add: body_def g_def)
  have lz: "length z < 2 ^ 31" and usize: "unat n \<le> kMaxInflateOutput" using ok by simp_all
  have small: "length body < 2 ^ 31 + 64" "length ?x < 2 ^ 31 + 128" and ne: "?x \<noteq> []"
    using lz lb by (auto simp: g_def blf_object_def lobj_def)
  have d': "drop cursor data = padded ?x @ rest" using d by (simp add: body_def)
  then have e: "drop cursor data = ?x @ tail" by (simp add: padded_def tail_def)
  note f = object_fields [OF e]
  define h where "h = \<lparr>oh_header_size = 16, oh_header_version = 1, oh_object_size = of_nat (16 + length body),
    oh_object_type = kObjLogContainer, oh_flags = 0, oh_timestamp = 0, oh_payload_offset = cursor + 16\<rparr>"
  have h: "read_header data cursor = Inr h" unfolding h_def by (rule header_short [OF e small(1)])
  have size: "oh_object_size h = of_nat (length ?x)" by (simp add: h_def)
  define N where "N = 28 + g + length z"
  have N: "length ?x = N" by (simp add: lb N_def)
  have fits: "cursor + N \<le> length data" using f(5) by (simp add: N_def lb)
  have "6 \<le> length z" using ok length_contents [of "is"] zlib_header_of(1) [of z] by (cases "meth = 0") auto
  then have big: "cursor + N < 2 ^ 63" "cursor + 28 + 6 < 2 ^ 63" using fits len by (auto simp: N_def)
  have start: "of_nat (cursor + length (padded ?x)) - of_nat (aligned (oh_object_size h)) = (of_nat cursor :: u64)"
    unfolding size aligned_padded [OF small(2)] by simp
  have ends: "(of_nat cursor :: u64) + ucast (oh_object_size h) = of_nat (cursor + N)"
  proof -
    have "unat (ucast (oh_object_size h) :: u64) = N"
      unfolding size by (rule trans [OF unat_ucast_up], simp, unfold unat_of_nat N, rule mod_less, use small(2) N in simp)
    moreover have "unat (of_nat N :: u64) = N" by (rule unat_position) (use big in simp)
    ultimately have "ucast (oh_object_size h) = (of_nat N :: u64)" unfolding word_unat_eq_iff by simp
    then show ?thesis by simp
  qed
  have rd: "read_u16 data (cursor + 16) = meth" "read_u32 data (cursor + 24) = n" "drop (cursor + 28) data = ?pad @ z @ tail"
  proof -
    have "cursor + 28 \<le> length data" using fits by (simp add: N_def)
    then show "read_u16 data (cursor + 16) = meth" using read_drop(1) [of "cursor + 16" 0 data] read_le16 [of meth]
      by (simp add: f(7) body_def)
    show "read_u32 data (cursor + 24) = n"
      using \<open>cursor + 28 \<le> length data\<close> read_drop(2) [of "cursor + 16" 8 data] read_at(2) [of "le16 meth @ replicate 6 0" 8 n]
      by (simp add: f(7) body_def add.commute)
    have "drop (cursor + 28) data = drop 12 (drop (cursor + 16) data)" by (simp add: add.commute)
    then show "drop (cursor + 28) data = ?pad @ z @ tail" by (simp add: f(7) body_def)
  qed
  have found: "container_start data (of_nat (cursor + 16)) (of_nat (cursor + N)) meth n = of_nat (cursor + 28 + g)"
  proof -
    have "cursor + 28 \<le> length data" "cursor + N = cursor + 28 + (if gap then 4 else 0) + length z" using fits by (auto simp: N_def g_def)
    note pl = plausible_found [OF ok rd(3) this]
    have "cursor + 16 + 18 < 2 ^ 63" using big by simp
    note c = container_start_nat [OF this big(1), of data meth n]
    show ?thesis unfolding c using pl by (auto simp: g_def add.assoc)
  qed
  have "\<not> (of_nat (cursor + 28) :: u64) > of_nat (cursor + N)"
    using big by (simp only: word_less_nat_alt unat_position not_less) (simp add: N_def)
  then have fit: "\<not> (of_nat (cursor + 16) :: u64) + 12 > of_nat (cursor + N)" by (simp only: position_add add.assoc) simp
  have "cursor + 28 + g < 2 ^ 63" "0 < cursor + 28 + g" using big by (auto simp: N_def)
  then have us: "unat (of_nat (cursor + 28 + g) :: u64) = cursor + 28 + g" by (rule_tac unat_position)
  have nz: "(of_nat (cursor + 28 + g) :: u64) \<noteq> 0"
  proof
    assume "(of_nat (cursor + 28 + g) :: u64) = 0"
    from us [unfolded this unat_0] show False by simp
  qed
  have sz: "unat (of_nat (cursor + N) - of_nat (cursor + 28 + g) :: u64) = length z"
  proof -
    have "(of_nat (cursor + N) - of_nat (cursor + 28 + g) :: u64) = of_nat (length z)" by (simp add: N_def)
    moreover have "unat (of_nat (length z) :: u64) = length z" by (rule unat_position) (use lz in simp)
    ultimately show ?thesis by (simp only:)
  qed
  have packed: "take (length z) (drop (cursor + 28 + g) data) = z"
  proof -
    have "drop (cursor + 28 + g) data = drop g (drop (cursor + 28) data)" by (simp add: add.commute)
    then show ?thesis by (simp add: rd(3) g_def)
  qed
  have us16: "unat (of_nat (cursor + 16) :: u64) = cursor + 16" "unat (of_nat (cursor + 16 + 8) :: u64) = cursor + 24"
    by (rule trans [OF unat_position], use big in simp, simp)+
  have "unpack_container data (cursor + length (padded ?x)) h = Inr (contents is, meth)"
    unfolding unpack_container_def start ends Let_def position_add us16 rd(1,2) found us sz packed
    using fit ok nz usize unfolding position_add by (cases "meth = 0") simp_all
  moreover have "oh_object_type h = kObjLogContainer" by (simp add: h_def)
  ultimately show ?thesis
    unfolding read_object_at [OF h size small(2) d' ne] chunk_bytes.simps body_def [symmetric] by (simp add: Let_def)
qed

subsection \<open>Reading a file\<close>








lemma item_nonempty: "item_bytes i \<noteq> []"
  by (cases i) (simp_all add: padded_def can_object_def blf_object_def lobj_def)







lemma chunk_nonempty: "chunk_bytes c \<noteq> []"
  by (cases c) (simp_all add: item_nonempty, simp add: padded_def blf_object_def lobj_def)






subsection \<open>What the reader refuses, and what it misreads\<close>

text \<open>Every record it gives holds a well-formed frame.\<close>

lemma blf_id_wf: "blf_id raw = Inr i \<Longrightarrow> wf_id i"
  by (auto simp: blf_id_def dest: extended_id_wf standard_id_wf split: if_splits)

lemma parse_can_message_wf: "yields wf_record (parse_can_message h p)"
proof (cases "length p < 16")
  case False
  then have n: "(if d > 8 then 8 else unat d) \<le> length (drop 8 p)" for d :: u8
    by (auto simp: not_less word_le_nat_alt)
  show ?thesis
    unfolding parse_can_message_def Let_def
    by (intro yields_intros; drule blf_id_wf, drule yieldsD [OF made_yields [OF _ n], rotated]; simp add: blf_record_def wf_record_def)
qed (simp add: parse_can_message_def)

lemma parse_can_fd_message_wf: "yields wf_record (parse_can_fd_message h p)"
  unfolding parse_can_fd_message_def Let_def
proof (intro yields_intros)
  fix i f
  let ?n = "if p ! 14 = 0 \<or> 64 < p ! 14 then unat (dlc_to_length (p ! 3) (p ! 13 AND 1 \<noteq> 0)) else unat (p ! 14)"
  assume "blf_id (read_u32 p 4) = Inr i" and "\<not> length p < 24 + ?n"
    and f: "make_frame_of 64 i (Some (drop 24 p)) ?n
      (if p ! 13 AND 1 \<noteq> 0 then flag_fd OR (if p ! 13 AND 2 \<noteq> 0 then flag_brs else 0) OR (if p ! 13 AND 4 \<noteq> 0 then flag_esi else 0)
       else flag_none) (blf_timestamp_ns h) = Inr f"
  then have "wf_id i" "?n \<le> length (drop 24 p)" using blf_id_wf by auto
  from yieldsD [OF made_yields [OF this] f] show "wf_record (blf_record f (read_u16 p 0) (p ! 2))"
    by (simp add: blf_record_def wf_record_def)
qed

lemma read_object_wf: "read_object data cursor = (res, after, c) \<Longrightarrow> yields wf_record res"
  using parse_can_message_wf parse_can_fd_message_wf
  unfolding read_object_def Let_def by (auto split: sum.splits if_splits)

lemma read_inner_wf: "read_inner r = Some (res, r') \<Longrightarrow> yields wf_record res"
  by (auto simp: read_inner_def split: prod.splits option.splits if_splits dest: read_object_wf)

lemma read_outer_wf: "read_outer r = (res, r') \<Longrightarrow> yields wf_record res"
  by (auto simp: read_outer_def Let_def split: prod.splits option.splits dest: read_object_wf)

lemma blf_next_wf: "blf_next r = Some y \<Longrightarrow> yields wf_record (fst y)"
proof (erule blf_next.raw_induct [of "\<lambda>r y. yields wf_record (fst y)", rotated])
  fix loop :: "blf_reader \<Rightarrow> (log_record result \<times> blf_reader) option" and r :: blf_reader and y
  assume IH: "\<And>r y. loop r = Some y \<Longrightarrow> yields wf_record (fst y)"
  assume body: "(if blf_inner_pos r < length (blf_inner r)
      then case read_inner r of None \<Rightarrow> None | Some (res, r) \<Rightarrow> if skips res then loop r else Some (res, r)
      else let r = r\<lparr>blf_inner := [], blf_inner_pos := 0\<rparr>
           in if length (blf_bytes r) \<le> blf_pos r then Some (Inl (plain_error LogEndOfFile ''end of BLF log''), r)
              else case read_outer r of (res, r) \<Rightarrow> if skips res then loop r else Some (res, r)) = Some y"
  show "yields wf_record (fst y)"
  proof (cases "blf_inner_pos r < length (blf_inner r)")
    case True
    with body obtain res r1 where i: "read_inner r = Some (res, r1)" "(if skips res then loop r1 else Some (res, r1)) = Some y"
      by (auto split: option.splits)
    then show ?thesis using IH [of r1 y] read_inner_wf [OF i(1)] by (auto split: if_splits)
  next
    case False
    let ?r = "r\<lparr>blf_inner := [], blf_inner_pos := 0\<rparr>"
    obtain res r1 where o: "read_outer ?r = (res, r1)" by fastforce
    show ?thesis using body False IH [of r1 y] read_outer_wf [OF o] by (auto simp: o Let_def split: if_splits)
  qed
qed

lemma blf_records_wf: "blf_read_all r = Some (Inr rs) \<Longrightarrow> \<forall>s\<in>set rs. wf_record s"
proof -
  have "blf_read_all r = Some y \<Longrightarrow> yields (\<lambda>rs. \<forall>s\<in>set rs. wf_record s) y" for y
  proof (erule blf_read_all.raw_induct [of "\<lambda>r y. yields (\<lambda>rs. \<forall>s\<in>set rs. wf_record s) y", rotated])
    fix loop :: "blf_reader \<Rightarrow> log_record list result option" and r :: blf_reader and y
    assume IH: "\<And>r y. loop r = Some y \<Longrightarrow> yields (\<lambda>rs. \<forall>s\<in>set rs. wf_record s) y"
    assume body: "(case blf_next r of None \<Rightarrow> None
        | Some (Inl e, _) \<Rightarrow> Some (if err_code e = LogEndOfFile then Inr [] else Inl e)
        | Some (Inr rec, r') \<Rightarrow> Option.bind (loop r') (\<lambda>rest. Some (result_map (\<lambda>rs. rec # rs) rest))) = Some y"
    then obtain res r1 where n: "blf_next r = Some (res, r1)" by (auto split: option.splits)
    note w = blf_next_wf [OF n, unfolded fst_conv]
    show "yields (\<lambda>rs. \<forall>s\<in>set rs. wf_record s) y"
    proof (cases res)
      case (Inl e)
      then show ?thesis using body n by (auto simp: yields_def split: if_splits)
    next
      case (Inr rec)
      then obtain rest where "loop r1 = Some rest" "y = result_map (\<lambda>rs. rec # rs) rest"
        using body n by (auto simp: bind_eq_Some_conv)
      then show ?thesis using IH [of r1 rest] w Inr by (auto simp: yields_def result_map_Inr_iff)
    qed
  qed
  then show "blf_read_all r = Some (Inr rs) \<Longrightarrow> ?thesis" by (auto simp: yields_def)
qed

text \<open>A remote frame whose data length code is not zero is an error, and with it the whole trace.\<close>

lemma blf_remote_refused:
  assumes "16 \<le> length p" and "p ! 2 AND 0x80 \<noteq> 0" and "p ! 3 \<noteq> 0" and "blf_id (read_u32 p 4) = Inr i"
  shows "parse_can_message h p = Inl (plain_error FrameBadFlags ''a remote frame carries no data bytes'')"
proof -
  have v: "validate_flags 64 flag_rtr = ok" "has_flag flag_rtr flag_rtr"
    by (simp_all add: validate_flags_def has_flag_def flag_defs)
  have "0 < (if 8 < p ! 3 then 8 else unat (p ! 3))" using assms(3) by (simp add: unat_gt_0)
  then show ?thesis
    using assms unfolding parse_can_message_def make_frame_of_def Let_def by (simp add: v)
qed

text \<open>The comment gives the fields of a CAN FD object one by one, which places the data at 20; of an object
  laid out so the first four data bytes are lost.\<close>

lemma blf_fd_data_read_late:
  assumes "length d = 64" and n: "valid \<in> set kFdDlcToLength" "valid \<noteq> 0" "valid \<le> 60" and fd: "fd AND 1 \<noteq> 0" and "wf_id i"
  shows "\<exists>s. parse_can_fd_message h (le16 ch @ [fl, dlc] @ le32 (packed i) @ le32 flen @ [arb, fd, valid, 0] @ le32 0 @ d) = Inr s \<and>
    payload_of (lr_frame s) = take (unat valid) (drop 4 d)"
proof -
  define p where "p = le16 ch @ [fl, dlc] @ le32 (packed i) @ le32 flen @ [arb, fd, valid, 0] @ le32 0 @ d"
  have at: "read_u16 p 0 = ch" "p ! 2 = fl" "p ! 3 = dlc" "read_u32 p 4 = packed i" "p ! 13 = fd" "p ! 14 = valid" "drop 24 p = drop 4 d"
    using read_le16 [of ch] read_at(2) [of "le16 ch @ [fl, dlc]" 4] by (simp_all add: p_def le16_def le32_def)
  have len: "length p = 84" using assms(1) by (simp add: p_def)
  let ?fl = "flag_fd OR (if fd AND 2 \<noteq> 0 then flag_brs else 0) OR (if fd AND 4 \<noteq> 0 then flag_esi else 0)"
  have "(valid = 0 \<or> 64 < valid) = False" using n by (auto simp: word_less_nat_alt word_le_nat_alt)
  moreover have u: "unat valid \<le> 60" using n(3) by (simp add: word_le_nat_alt)
  then have "(84 < 24 + unat valid) = False" by simp
  moreover have "make_ok 64 (unat valid) ?fl"
    using n(1) u by (auto simp: make_ok_def validate_flags_def has_flag_def flag_defs)
  then obtain f where f: "make_frame_of 64 i (Some (drop 4 d)) (unat valid) ?fl (blf_timestamp_ns h) = Inr f"
    using make_frame_accepts by blast
  moreover have k: "(fd AND 1 \<noteq> 0) = True" using fd by simp
  ultimately have "parse_can_fd_message h p = Inr (blf_record f ch fl)"
    unfolding parse_can_fd_message_def at len Let_def blf_id_back [OF assms(6)] try_bind_simps by simp
  moreover have "payload_of f = take (unat valid) (drop 4 d)"
    using make_frame_builds [OF f] u assms(1) by simp
  ultimately show ?thesis unfolding p_def by (auto simp: blf_record_def)
qed

text \<open>A stored container inside a container is assigned from its own elements.\<close>

lemma blf_nested_stored:
  assumes "chunk_ok (Container 0 n gap z is)" and "length (blf_inner r) < 2 ^ 63"
    and "drop (blf_inner_pos r) (blf_inner r) = chunk_bytes (Container 0 n gap z is) @ rest"
  shows "blf_next r = None"
proof -
  have "0 < length (chunk_bytes (Container 0 n gap z is))" unfolding length_greater_0_conv by (rule chunk_nonempty)
  then have "blf_inner_pos r < length (blf_inner r)" using drop_length [OF assms(3) chunk_nonempty] by linarith
  then show ?thesis
    using read_container [OF assms] by (subst blf_next.simps) (simp add: read_inner_def)
qed

text \<open>A container that ends the file without its padding is looked for up to three bytes before its start.\<close>

lemma blf_unpadded_last:
  assumes "length data = cursor + n" and "oh_object_size h = of_nat n" and "n mod 4 \<noteq> 0" and "n < 2 ^ 31"
  shows "of_nat (length data) - of_nat (aligned (oh_object_size h)) = (of_nat cursor - of_nat (4 - n mod 4) :: u64)"
proof -
  have "aligned (of_nat n) = n + (4 - n mod 4)"
    using aligned_padded [of "replicate n 0"] assms(3,4) by (simp add: padded_def)
  then show ?thesis by (simp add: assms(1,2))
qed

end
