(* ===== verification/IsoTp.thy ===== *)
theory IsoTp
  imports Frame
begin

text \<open>
  \<open>isotp/include/canforge/isotp/IsoTp.hpp\<close> and \<open>isotp/src/IsoTp.cpp\<close>: the ISO 15765-2 transport
  protocol. A \<open>Sender\<close> and a \<open>Receiver\<close> are passive state machines: \<open>poll\<close> and \<open>on_frame\<close> take the
  time as an argument and \<open>poll\<close> returns the frames to put on the bus. Times are unsigned 64-bit
  nanoseconds and wrap; payload sizes and offsets are \<open>std::size_t\<close> byte counts. A frame is built
  with \<open>FdFrame::make(...).value()\<close>, which aborts the program on an error: the operations that
  build one return \<open>None\<close> then, and the lemmas of \<open>IsoTp_Inv\<close> show that this never happens.
\<close>

subsection \<open>Protocol constants and configuration\<close>

datatype pci = SingleFrame | FirstFrame | ConsecutiveFrame | FlowControl

definition pci_of_nibble :: "u8 \<Rightarrow> pci option" where
  "pci_of_nibble v =
     (if v = 0 then Some SingleFrame else if v = 1 then Some FirstFrame
      else if v = 2 then Some ConsecutiveFrame else if v = 3 then Some FlowControl else None)"

datatype flow_status = ContinueToSend | Wait | Overflow

definition flow_status_value :: "flow_status \<Rightarrow> u8" where
  "flow_status_value s = (case s of ContinueToSend \<Rightarrow> 0 | Wait \<Rightarrow> 1 | Overflow \<Rightarrow> 2)"

definition kClassicMaxLength :: nat where "kClassicMaxLength = 4095"

datatype transfer_result =
  InProgress | TransferOk | TimeoutA | TimeoutBs | TimeoutCr | WrongSequence | UnexpectedPdu
| BufferOverflow | WaitOverrun | InvalidPdu | Aborted

definition transfer_result_string :: "transfer_result \<Rightarrow> string" where
  "transfer_result_string r =
     (case r of
        InProgress \<Rightarrow> ''in progress''
      | TransferOk \<Rightarrow> ''ok''
      | TimeoutA \<Rightarrow> ''N_As/N_Ar timeout''
      | TimeoutBs \<Rightarrow> ''N_Bs timeout: no flow control''
      | TimeoutCr \<Rightarrow> ''N_Cr timeout: no consecutive frame''
      | WrongSequence \<Rightarrow> ''wrong sequence number''
      | UnexpectedPdu \<Rightarrow> ''unexpected protocol data unit''
      | BufferOverflow \<Rightarrow> ''receiver buffer overflow''
      | WaitOverrun \<Rightarrow> ''too many wait frames''
      | InvalidPdu \<Rightarrow> ''malformed protocol data unit''
      | Aborted \<Rightarrow> ''aborted'')"

datatype addressing_mode = NormalAddressing | ExtendedAddressing

record iso_address =
  addr_mode :: addressing_mode
  tx_id :: can_id
  rx_id :: can_id
  tx_extension :: u8
  rx_extension :: u8

definition header_size :: "iso_address \<Rightarrow> nat" where
  "header_size a = (if addr_mode a = ExtendedAddressing then 1 else 0)"

definition normal_address :: "can_id \<Rightarrow> can_id \<Rightarrow> iso_address" where
  "normal_address tx rx = \<lparr>addr_mode = NormalAddressing, tx_id = tx, rx_id = rx,
     tx_extension = 0, rx_extension = 0\<rparr>"

definition extended_address :: "can_id \<Rightarrow> can_id \<Rightarrow> u8 \<Rightarrow> u8 \<Rightarrow> iso_address" where
  "extended_address tx rx tx_ext rx_ext = \<lparr>addr_mode = ExtendedAddressing, tx_id = tx, rx_id = rx,
     tx_extension = tx_ext, rx_extension = rx_ext\<rparr>"

record isotp_config =
  address :: iso_address
  n_as_ns :: u64
  n_ar_ns :: u64
  n_bs_ns :: u64
  n_cr_ns :: u64
  n_br_ns :: u64
  n_cs_ns :: u64
  block_size :: u8
  st_min_raw :: u8
  wft_max :: u8
  max_receive_length :: u32
  pad_frames :: bool
  padding_byte :: u8
  use_can_fd :: bool
  fd_bit_rate_switch :: bool

definition default_config :: "iso_address \<Rightarrow> isotp_config" where
  "default_config a = \<lparr>address = a, n_as_ns = 1000000000, n_ar_ns = 1000000000,
     n_bs_ns = 1000000000, n_cr_ns = 1000000000, n_br_ns = 0, n_cs_ns = 0,
     block_size = 8, st_min_raw = 0, wft_max = 4, max_receive_length = 4095,
     pad_frames = True, padding_byte = 0xCC, use_can_fd = False, fd_bit_rate_switch = True\<rparr>"

text \<open>\<open>Config::validate\<close>; the products wrap as the C++ ones do.\<close>

definition validate_config :: "isotp_config \<Rightarrow> status" where
  "validate_config c =
     (if n_bs_ns c = 0 \<or> n_cr_ns c = 0
      then Inl (plain_error InvalidArgument ''N_Bs and N_Cr must be non-zero'')
      else if n_br_ns c \<ge> (n_bs_ns c * 9) div 10
      then Inl (plain_error InvalidArgument ''N_Br leaves no room under 0.9 * N_Bs for the link layer'')
      else if n_cs_ns c \<ge> (n_cr_ns c * 9) div 10
      then Inl (plain_error InvalidArgument ''N_Cs leaves no room under 0.9 * N_Cr for the link layer'')
      else if max_receive_length c = 0
      then Inl (plain_error InvalidArgument ''max_receive_length must be non-zero'')
      else ok)"

subsection \<open>STmin\<close>

definition st_min_to_ns :: "u8 \<Rightarrow> u64" where
  "st_min_to_ns raw =
     (if raw \<le> 0x7F then ucast raw * 1000000
      else if raw \<ge> 0xF1 \<and> raw \<le> 0xF9 then ucast (raw - 0xF0) * 100000
      else 127 * 1000000)"

definition ns_to_st_min :: "u64 \<Rightarrow> u8" where
  "ns_to_st_min ns =
     (if ns = 0 then 0
      else if ns < 1000000 then
        let hundreds = (ns + 99999) div 100000; clamped = min (max hundreds 1) 9
        in ucast (0xF0 + clamped)
      else let ms = min ((ns + 999999) div 1000000) 127 in ucast ms)"

subsection \<open>Frames\<close>

definition kLengths :: "nat list" where
  "kLengths = [0, 1, 2, 3, 4, 5, 6, 7, 8, 12, 16, 20, 24, 32, 48, 64]"

definition fd_padded_length :: "nat \<Rightarrow> nat" where
  "fd_padded_length want = (case find (\<lambda>n. n \<ge> want) kLengths of Some n \<Rightarrow> n | None \<Rightarrow> 64)"

text \<open>The padding loop: \<open>buffer[i] = v\<close> for \<open>i\<close> from \<open>n\<close> below \<open>m\<close>.\<close>

definition pad_buffer :: "bytes \<Rightarrow> nat \<Rightarrow> nat \<Rightarrow> u8 \<Rightarrow> bytes" where
  "pad_buffer buf n m v = foldl (\<lambda>b i. b[i := v]) buf [n..<m]"

definition frame_flags_of :: "isotp_config \<Rightarrow> u8" where
  "frame_flags_of c =
     (if use_can_fd c
      then if fd_bit_rate_switch c then flag_none OR flag_fd OR flag_brs else flag_none OR flag_fd
      else flag_none)"

definition address_header :: "isotp_config \<Rightarrow> bytes" where
  "address_header c = (if addr_mode (address c) = ExtendedAddressing then [tx_extension (address c)] else [])"

text \<open>
  \<open>Sender::make_frame\<close>; \<open>body\<close> is the first \<open>body_size\<close> bytes of the caller's array. The buffer is
  64 zero bytes into which the header and the body are copied.
\<close>

definition sender_make_frame :: "isotp_config \<Rightarrow> bytes \<Rightarrow> frame option" where
  "sender_make_frame c body =
     (let buffer = memcpy_into (replicate 64 0) (address_header c @ body)
            (length (address_header c) + length body);
          n = length (address_header c) + length body;
          len = (if pad_frames c
                 then let l = (if use_can_fd c then fd_padded_length n else 8) in if l < n then n else l
                 else n);
          buffer = (if pad_frames c then pad_buffer buffer n len (padding_byte c) else buffer);
          len = (if use_can_fd c then fd_padded_length len else len)
      in value_of (make_frame_of 64 (tx_id (address c)) (Some buffer) len (frame_flags_of c) 0))"

definition make_flow_control :: "isotp_config \<Rightarrow> flow_status \<Rightarrow> frame option" where
  "make_flow_control c st =
     (let body = [0x30 OR flow_status_value st, block_size c, st_min_raw c];
          n = length (address_header c) + 3;
          buffer = memcpy_into (replicate 64 0) (address_header c @ body) n;
          len = (if pad_frames c then if use_can_fd c then fd_padded_length n else 8 else n);
          buffer = (if pad_frames c then pad_buffer buffer n len (padding_byte c) else buffer);
          len = (if use_can_fd c then fd_padded_length len else len)
      in value_of (make_frame_of 64 (tx_id (address c)) (Some buffer) len (frame_flags_of c) 0))"

text \<open>
  The guards both \<open>on_frame\<close> handlers start with: the identifier, the header byte and the address
  extension. \<open>Some body\<close> is the body the handler goes on with, never empty.
\<close>

definition frame_body :: "isotp_config \<Rightarrow> frame \<Rightarrow> bytes option" where
  "frame_body c f =
     (if frame_id f \<noteq> rx_id (address c) then None
      else let header = header_size (address c) in
      if frame_size f \<le> header then None
      else if addr_mode (address c) = ExtendedAddressing \<and> frame_data f ! 0 \<noteq> rx_extension (address c)
      then None
      else Some (drop header (payload_of f)))"

subsection \<open>Sender\<close>

datatype sender_state = SIdle | SendingSingle | SendingFirst | WaitingFlowControl
  | SendingConsecutive | SFinished

record sender =
  snd_config :: isotp_config
  snd_payload :: bytes
  snd_state :: sender_state
  snd_result :: transfer_result
  snd_offset :: nat
  snd_sequence :: u8
  snd_block_size :: u8
  snd_st_min_ns :: u64
  snd_frames_in_block :: u8
  snd_wait_count :: u8
  snd_deadline_ns :: u64
  snd_next_send_ns :: u64

definition new_sender :: "isotp_config \<Rightarrow> sender" where
  "new_sender c = \<lparr>snd_config = c, snd_payload = [], snd_state = SIdle, snd_result = InProgress,
     snd_offset = 0, snd_sequence = 0, snd_block_size = 0, snd_st_min_ns = 0,
     snd_frames_in_block = 0, snd_wait_count = 0, snd_deadline_ns = 0, snd_next_send_ns = 0\<rparr>"

definition sender_done :: "sender \<Rightarrow> bool" where
  "sender_done s \<longleftrightarrow> snd_result s \<noteq> InProgress"

definition sender_abort :: "sender \<Rightarrow> sender" where
  "sender_abort s = s\<lparr>snd_result := Aborted\<rparr>"

definition sender_finish :: "sender \<Rightarrow> transfer_result \<Rightarrow> sender" where
  "sender_finish s r = s\<lparr>snd_result := r, snd_state := SFinished\<rparr>"

definition sender_begin :: "sender \<Rightarrow> bytes \<Rightarrow> u64 \<Rightarrow> status \<times> sender" where
  "sender_begin s data now =
     (if snd_state s \<noteq> SIdle
      then (Inl (plain_error InvalidArgument ''a transfer is already running''), s)
      else case validate_config (snd_config s) of
        Inl e \<Rightarrow> (Inl e, s)
      | Inr _ \<Rightarrow>
        if length data > 0xFFFFFFFF
        then (Inl (plain_error FramePayloadTooLarge ''ISO-TP cannot describe a message this long''), s)
        else
          let header = header_size (address (snd_config s)); single_max = 7 - header in
          (ok, s\<lparr>snd_payload := data, snd_offset := 0, snd_sequence := 0, snd_wait_count := 0,
                snd_frames_in_block := 0, snd_result := InProgress,
                snd_state := (if length data \<le> single_max then SendingSingle else SendingFirst),
                snd_next_send_ns := now\<rparr>))"

definition first_frame_body :: "nat \<Rightarrow> bytes" where
  "first_frame_body sz =
     (if sz \<le> kClassicMaxLength
      then [ucast (0x10 OR (drop_bit 8 (of_nat sz :: u64) AND 0x0F)), ucast ((of_nat sz :: u64) AND 0xFF)]
      else let len = of_nat sz :: u32 in
        [0x10, 0x00, ucast (drop_bit 24 len AND 0xFF), ucast (drop_bit 16 len AND 0xFF),
         ucast (drop_bit 8 len AND 0xFF), ucast (len AND 0xFF)])"

definition sender_poll :: "sender \<Rightarrow> u64 \<Rightarrow> (sender \<times> frame list) option" where
  "sender_poll s now =
     (let c = snd_config s; header = header_size (address c); sz = length (snd_payload s) in
      if sender_done s then Some (s, []) else
      case snd_state s of
        SIdle \<Rightarrow> Some (s, [])
      | SendingSingle \<Rightarrow>
          (case sender_make_frame c (of_nat sz # snd_payload s) of
             None \<Rightarrow> None
           | Some f \<Rightarrow> Some (sender_finish (s\<lparr>snd_offset := sz\<rparr>) TransferOk, [f]))
      | SendingFirst \<Rightarrow>
          (let body = first_frame_body sz;
               room = 8 - header - length body;
               n = min room sz
           in case sender_make_frame c (body @ take n (snd_payload s)) of
                None \<Rightarrow> None
              | Some f \<Rightarrow> Some (s\<lparr>snd_offset := n, snd_sequence := 1, snd_state := WaitingFlowControl,
                                  snd_deadline_ns := now + n_bs_ns c\<rparr>, [f]))
      | WaitingFlowControl \<Rightarrow>
          if now \<ge> snd_deadline_ns s then Some (sender_finish s TimeoutBs, []) else Some (s, [])
      | SendingConsecutive \<Rightarrow>
          if now < snd_next_send_ns s then Some (s, [])
          else
            (let room = 8 - header - 1;
                 n = min room (sz - snd_offset s);
                 body = (0x20 OR (snd_sequence s AND 0x0F)) # take n (drop (snd_offset s) (snd_payload s))
             in case sender_make_frame c body of
                  None \<Rightarrow> None
                | Some f \<Rightarrow>
                    let s = s\<lparr>snd_offset := snd_offset s + n,
                              snd_sequence := (snd_sequence s + 1) AND 0x0F,
                              snd_frames_in_block := snd_frames_in_block s + 1,
                              snd_next_send_ns := now + snd_st_min_ns s\<rparr>
                    in Some (if snd_offset s \<ge> sz then sender_finish s TransferOk
                             else if snd_block_size s \<noteq> 0 \<and> snd_frames_in_block s \<ge> snd_block_size s
                             then s\<lparr>snd_frames_in_block := 0, snd_state := WaitingFlowControl,
                                    snd_deadline_ns := now + n_bs_ns c\<rparr>
                             else s, [f]))
      | SFinished \<Rightarrow> Some (s, []))"

definition sender_on_frame :: "sender \<Rightarrow> frame \<Rightarrow> u64 \<Rightarrow> sender" where
  "sender_on_frame s f now =
     (if sender_done s then s
      else case frame_body (snd_config s) f of
        None \<Rightarrow> s
      | Some body \<Rightarrow>
          let pci = drop_bit 4 (body ! 0) AND 0x0F in
          if pci \<noteq> 3 then sender_finish s UnexpectedPdu
          else if snd_state s \<noteq> WaitingFlowControl then sender_finish s UnexpectedPdu
          else if length body < 3 then sender_finish s InvalidPdu
          else
            let st = body ! 0 AND 0x0F in
            if st = 0 then
              s\<lparr>snd_block_size := body ! 1, snd_st_min_ns := st_min_to_ns (body ! 2), snd_wait_count := 0,
                snd_frames_in_block := 0, snd_state := SendingConsecutive,
                snd_next_send_ns := now + n_cs_ns (snd_config s)\<rparr>
            else if st = 1 then
              let s = s\<lparr>snd_wait_count := snd_wait_count s + 1\<rparr> in
              if wft_max (snd_config s) \<noteq> 0 \<and> snd_wait_count s > wft_max (snd_config s)
              then sender_finish s WaitOverrun
              else s\<lparr>snd_deadline_ns := now + n_bs_ns (snd_config s)\<rparr>
            else if st = 2 then sender_finish s BufferOverflow
            else sender_finish s InvalidPdu)"

subsection \<open>Receiver\<close>

datatype receiver_state = RIdle | SendFlowControl | Receiving | RFinished

record receiver =
  rcv_config :: isotp_config
  rcv_payload :: bytes
  rcv_state :: receiver_state
  rcv_result :: transfer_result
  rcv_expected :: nat
  rcv_sequence :: u8
  rcv_frames_in_block :: u8
  rcv_deadline_ns :: u64
  rcv_fc_due_ns :: u64
  rcv_pending_status :: flow_status

definition new_receiver :: "isotp_config \<Rightarrow> receiver" where
  "new_receiver c = \<lparr>rcv_config = c, rcv_payload = [], rcv_state = RIdle, rcv_result = InProgress,
     rcv_expected = 0, rcv_sequence = 0, rcv_frames_in_block = 0, rcv_deadline_ns = 0,
     rcv_fc_due_ns = 0, rcv_pending_status = ContinueToSend\<rparr>"

definition receiver_reset :: "receiver \<Rightarrow> receiver" where
  "receiver_reset r = r\<lparr>rcv_payload := [], rcv_state := RIdle, rcv_result := InProgress,
     rcv_expected := 0, rcv_sequence := 0, rcv_frames_in_block := 0, rcv_deadline_ns := 0,
     rcv_fc_due_ns := 0\<rparr>"

definition receiver_done :: "receiver \<Rightarrow> bool" where
  "receiver_done r \<longleftrightarrow> rcv_result r \<noteq> InProgress"

definition has_message :: "receiver \<Rightarrow> bool" where
  "has_message r \<longleftrightarrow> rcv_result r = TransferOk"

definition receiver_finish :: "receiver \<Rightarrow> transfer_result \<Rightarrow> receiver" where
  "receiver_finish r x = r\<lparr>rcv_result := x, rcv_state := RFinished\<rparr>"

definition receiver_poll :: "receiver \<Rightarrow> u64 \<Rightarrow> (receiver \<times> frame list) option" where
  "receiver_poll r now =
     (case rcv_state r of
        SendFlowControl \<Rightarrow>
          if now \<ge> rcv_fc_due_ns r then
            (case make_flow_control (rcv_config r) (rcv_pending_status r) of
               None \<Rightarrow> None
             | Some f \<Rightarrow>
                 Some (if rcv_pending_status r = Overflow then receiver_finish r BufferOverflow
                       else r\<lparr>rcv_state := Receiving, rcv_frames_in_block := 0,
                              rcv_deadline_ns := now + n_cr_ns (rcv_config r)\<rparr>, [f]))
          else Some (r, [])
      | Receiving \<Rightarrow>
          if now \<ge> rcv_deadline_ns r then Some (receiver_finish r TimeoutCr, []) else Some (r, [])
      | RIdle \<Rightarrow> Some (r, [])
      | RFinished \<Rightarrow> Some (r, []))"

definition receive_single :: "receiver \<Rightarrow> bytes \<Rightarrow> receiver" where
  "receive_single r body =
     (if rcv_state r \<noteq> RIdle then receiver_finish r UnexpectedPdu
      else
        let len = unat (body ! 0 AND 0x0F) in
        if len = 0 \<and> length body < 2 then receiver_finish r InvalidPdu
        else
          let data_at = (if len = 0 then 2 else 1);
              len = (if len = 0 then unat (body ! 1) else len) in
          if len = 0 \<or> data_at + len > length body then receiver_finish r InvalidPdu
          else receiver_finish (r\<lparr>rcv_payload := take len (drop data_at body), rcv_expected := len\<rparr>)
                 TransferOk)"

definition receive_first :: "receiver \<Rightarrow> bytes \<Rightarrow> u64 \<Rightarrow> receiver" where
  "receive_first r body now =
     (let c = rcv_config r in
      if rcv_state r \<noteq> RIdle then receiver_finish r UnexpectedPdu
      else if length body < 2 then receiver_finish r InvalidPdu
      else
        let len = push_bit 8 (unat (body ! 0 AND 0x0F)) OR unat (body ! 1) in
        if len = 0 \<and> length body < 6 then receiver_finish r InvalidPdu
        else
          let data_at = (if len = 0 then 6 else 2);
              len = (if len = 0
                     then push_bit 24 (unat (body ! 2)) OR push_bit 16 (unat (body ! 3))
                            OR push_bit 8 (unat (body ! 4)) OR unat (body ! 5)
                     else len) in
          if len \<le> 7 - header_size (address c) then receiver_finish r InvalidPdu
          else
            let r = r\<lparr>rcv_expected := len\<rparr> in
            if len > unat (max_receive_length c)
            then r\<lparr>rcv_pending_status := Overflow, rcv_state := SendFlowControl,
                   rcv_fc_due_ns := now + n_br_ns c\<rparr>
            else
              let p = drop data_at body;
                  p = (if length p > len then take len p else p)
              in r\<lparr>rcv_payload := p, rcv_sequence := 1, rcv_pending_status := ContinueToSend,
                   rcv_state := SendFlowControl, rcv_fc_due_ns := now + n_br_ns c\<rparr>)"

definition receive_consecutive :: "receiver \<Rightarrow> bytes \<Rightarrow> u64 \<Rightarrow> receiver" where
  "receive_consecutive r body now =
     (let c = rcv_config r in
      if rcv_state r \<noteq> Receiving then receiver_finish r UnexpectedPdu
      else if body ! 0 AND 0x0F \<noteq> rcv_sequence r then receiver_finish r WrongSequence
      else
        let remaining = rcv_expected r - length (rcv_payload r);
            available = length body - 1;
            n = min remaining available;
            r = r\<lparr>rcv_sequence := (rcv_sequence r + 1) AND 0x0F,
                  rcv_payload := rcv_payload r @ take n (drop 1 body),
                  rcv_frames_in_block := rcv_frames_in_block r + 1\<rparr> in
        if length (rcv_payload r) \<ge> rcv_expected r then receiver_finish r TransferOk
        else
          let r = r\<lparr>rcv_deadline_ns := now + n_cr_ns c\<rparr> in
          if block_size c \<noteq> 0 \<and> rcv_frames_in_block r \<ge> block_size c
          then r\<lparr>rcv_pending_status := ContinueToSend, rcv_state := SendFlowControl,
                 rcv_fc_due_ns := now + n_br_ns c\<rparr>
          else r)"

definition receiver_on_frame :: "receiver \<Rightarrow> frame \<Rightarrow> u64 \<Rightarrow> receiver" where
  "receiver_on_frame r f now =
     (if rcv_state r = RFinished then r
      else case frame_body (rcv_config r) f of
        None \<Rightarrow> r
      | Some body \<Rightarrow>
          (case pci_of_nibble (drop_bit 4 (body ! 0) AND 0x0F) of
             Some SingleFrame \<Rightarrow> receive_single r body
           | Some FirstFrame \<Rightarrow> receive_first r body now
           | Some ConsecutiveFrame \<Rightarrow> receive_consecutive r body now
           | Some FlowControl \<Rightarrow> receiver_finish r UnexpectedPdu
           | None \<Rightarrow> receiver_finish r InvalidPdu))"

end
