(* ===== verification/IsoTp_Inv.thy ===== *)
theory IsoTp_Inv
  imports IsoTp
begin

text \<open>
  The ISO-TP machines one at a time: the STmin encoding, the frames they build (which never fail),
  the invariants of \<open>Sender\<close> and \<open>Receiver\<close> over every sequence of calls, and that a finished
  transfer stays finished.
\<close>

subsection \<open>STmin\<close>

lemma unat_st_min_to_ns:
  "unat (st_min_to_ns raw) =
    (if raw \<le> 0x7F then unat raw * 1000000
     else if raw \<ge> 0xF1 \<and> raw \<le> 0xF9 then (unat raw - 0xF0) * 100000 else 127000000)"
proof -
  have "unat (ucast raw * 1000000 :: u64) = unat raw * 1000000"
    using unat_less_exp [of raw] by (subst unat_mult_lem [THEN iffD1]) (simp_all add: unat_ucast_up)
  moreover have "unat (ucast (raw - 0xF0) * 100000 :: u64) = (unat raw - 0xF0) * 100000" if "raw \<ge> 0xF1"
  proof -
    have "0xF0 \<le> raw" using that by (rule order_trans [rotated]) simp
    then have "unat (raw - 0xF0) = unat raw - 0xF0" by (simp add: unat_sub word_le_nat_alt)
    then show ?thesis using unat_less_exp [of "raw - 0xF0"]
      by (subst unat_mult_lem [THEN iffD1]) (simp_all add: unat_ucast_up)
  qed
  ultimately show ?thesis by (simp add: st_min_to_ns_def)
qed

lemma unat_ns_to_st_min:
  "unat (ns_to_st_min ns) =
    (if unat ns < 1000000
     then (if ns = 0 then 0 else 0xF0 + min ((unat ns + 99999) div 100000) 9)
     else if unat ns + 999999 < 2 ^ 64 then min ((unat ns + 999999) div 1000000) 127 else 0)"
proof -
  consider "ns = 0" | "ns \<noteq> 0" "unat ns < 1000000" | "1000000 \<le> unat ns" by linarith
  then show ?thesis
  proof cases
    case 1
    then show ?thesis by (simp add: ns_to_st_min_def)
  next
    case 2
    define k where "k = (unat ns + 99999) div 100000"
    have "0 < unat ns" using 2 by (simp add: unat_gt_0)
    then have k: "1 \<le> k" using div_le_mono [of 100000 "unat ns + 99999" 100000] by (simp add: k_def)
    have u: "unat ((ns + 99999) div 100000) = k"
      using 2 by (simp add: unat_div unat_add_wrap k_def)
    have m: "unat (min (max ((ns + 99999) div 100000) 1) 9) = min k 9"
      using k by (simp add: unat_min unat_max u)
    then have "unat (0xF0 + min (max ((ns + 99999) div 100000) 1) 9) = 0xF0 + min k 9"
      unfolding unat_add_wrap m by simp
    then have "unat (ucast (0xF0 + min (max ((ns + 99999) div 100000) 1) 9) :: u8) = 0xF0 + min k 9"
      by (subst unat_ucast_small) simp_all
    then show ?thesis using 2 by (simp add: ns_to_st_min_def word_less_nat_alt k_def)
  next
    case 3
    define k where "k = unat ((ns + 999999) div 1000000)"
    have "unat (ucast (min ((ns + 999999) div 1000000) 127) :: u8) = min k 127"
      by (subst unat_ucast_small) (simp_all add: unat_min k_def)
    moreover have "min k 127 = (if unat ns + 999999 < 2 ^ 64 then min ((unat ns + 999999) div 1000000) 127 else 0)"
      using unat_less_exp [of ns] by (auto simp: k_def unat_div unat_add_wrap)
    moreover have "ns \<noteq> 0" "\<not> ns < 1000000" using 3 by (auto simp: word_less_nat_alt)
    ultimately show ?thesis using 3 by (simp add: ns_to_st_min_def Let_def)
  qed
qed


lemma st_min_roundtrip:
  assumes "raw \<le> 0x7F \<or> raw \<ge> 0xF1 \<and> raw \<le> 0xF9"
  shows "ns_to_st_min (st_min_to_ns raw) = raw"
proof -
  have "unat (ns_to_st_min (st_min_to_ns raw)) = unat raw"
  proof (cases "raw \<le> 0x7F")
    case True
    then have r: "unat raw \<le> 127" by (simp add: word_le_nat_alt)
    show ?thesis
    proof (cases "raw = 0")
      case False
      then have "0 < unat raw" by (simp add: unat_gt_0)
      moreover have "(unat raw * 1000000 + 999999) div 1000000 = unat raw" by simp
      ultimately show ?thesis using True r
        unfolding unat_ns_to_st_min unat_st_min_to_ns by simp
    qed (simp add: st_min_to_ns_def ns_to_st_min_def)
  next
    case False
    then have r: "241 \<le> unat raw" "unat raw \<le> 249" using assms by (auto simp: word_le_nat_alt)
    have "((unat raw - 240) * 100000 + 99999) div 100000 = unat raw - 240" by simp
    moreover have "unat (st_min_to_ns raw) = (unat raw - 240) * 100000"
      using False assms unfolding unat_st_min_to_ns by simp
    moreover have "st_min_to_ns raw \<noteq> 0"
    proof
      assume "st_min_to_ns raw = 0"
      then show False using calculation(2) r by simp
    qed
    ultimately show ?thesis using r unfolding unat_ns_to_st_min by simp
  qed
  then show ?thesis by (simp add: word_unat_eq_iff)
qed

lemma st_min_grid:
  assumes "unat ns \<le> 900000 \<or> 1000000 \<le> unat ns \<and> unat ns \<le> 127000000"
  shows "unat ns \<le> unat (st_min_to_ns (ns_to_st_min ns))"
    and "unat (st_min_to_ns (ns_to_st_min ns)) < unat ns + (if unat ns < 1000000 then 100000 else 1000000)"
proof -
  define q where "q = ns_to_st_min ns"
  have "unat ns \<le> unat (st_min_to_ns q) \<and>
    unat (st_min_to_ns q) < unat ns + (if unat ns < 1000000 then 100000 else 1000000)"
  proof (cases "unat ns \<le> 900000")
    case True
    define k where "k = (unat ns + 99999) div 100000"
    have k: "unat ns \<le> 100000 * k" "100000 * k < unat ns + 100000" by (simp_all add: k_def)
    show ?thesis
    proof (cases "ns = 0")
      case True
      then show ?thesis by (simp add: q_def ns_to_st_min_def st_min_to_ns_def)
    next
      case False
      then have "0 < unat ns" by (simp add: unat_gt_0)
      then have k1: "1 \<le> k" "k \<le> 9" using k True by linarith+
      then have q: "unat q = 240 + k" using True False unat_ns_to_st_min [of ns] by (simp add: q_def k_def)
      then have "unat (st_min_to_ns q) = k * 100000"
        using k1 by (simp add: unat_st_min_to_ns word_le_nat_alt)
      then show ?thesis using k True by simp
    qed
  next
    case False
    define k where "k = (unat ns + 999999) div 1000000"
    have n: "1000000 \<le> unat ns" "unat ns \<le> 127000000" using False assms by auto
    have k: "unat ns \<le> 1000000 * k" "1000000 * k < unat ns + 1000000" by (simp_all add: k_def)
    then have "k \<le> 127" using n by linarith
    moreover have "unat q = min k 127" using n unat_ns_to_st_min [of ns] by (simp add: q_def k_def)
    ultimately have "unat (st_min_to_ns q) = k * 1000000"
      by (simp add: unat_st_min_to_ns word_le_nat_alt)
    then show ?thesis using k n by simp
  qed
  then show "unat ns \<le> unat (st_min_to_ns (ns_to_st_min ns))"
    "unat (st_min_to_ns (ns_to_st_min ns)) < unat ns + (if unat ns < 1000000 then 100000 else 1000000)"
    by (simp_all add: q_def)
qed

lemma st_min_saturates:
  assumes "127000000 \<le> unat ns" "unat ns + 999999 < 2 ^ 64"
  shows "st_min_to_ns (ns_to_st_min ns) = 127000000"
proof -
  have "127 \<le> (unat ns + 999999) div 1000000" using div_le_mono [of 127000000 "unat ns + 999999" 1000000] assms(1) by simp
  then have "unat (ns_to_st_min ns) = 127" using assms unat_ns_to_st_min [of ns] by simp
  then have "ns_to_st_min ns = 127" by (simp add: word_unat_eq_iff)
  then show ?thesis by (simp add: st_min_to_ns_def)
qed
subsection \<open>The frames the machines build\<close>

lemma fd_padded_length_bounds:
  assumes "n \<le> 64"
  shows "n \<le> fd_padded_length n" and "fd_padded_length n \<le> 64"
    and "of_nat (fd_padded_length n) \<in> set kFdDlcToLength"
proof -
  have "n \<in> set [0..<65]" using assms by auto
  moreover have "\<forall>n \<in> set [0..<65]. n \<le> fd_padded_length n \<and> fd_padded_length n \<le> 64
      \<and> of_nat (fd_padded_length n) \<in> set kFdDlcToLength"
    by code_simp
  ultimately show "n \<le> fd_padded_length n" "fd_padded_length n \<le> 64"
    "of_nat (fd_padded_length n) \<in> set kFdDlcToLength" by blast+
qed

lemma fd_padded_length_small: "n \<le> 8 \<Longrightarrow> fd_padded_length n = n"
proof -
  assume "n \<le> 8"
  then have "n \<in> set [0..<9]" by auto
  moreover have "\<forall>n \<in> set [0..<9]. fd_padded_length n = n" by code_simp
  ultimately show ?thesis by blast
qed

lemma pad_buffer_eq:
  assumes "n \<le> m" "m \<le> length buf"
  shows "pad_buffer buf n m v = take n buf @ replicate (m - n) v @ drop m buf"
  using assms
proof (induction m rule: dec_induct)
  case base
  then show ?case by (simp add: pad_buffer_def)
next
  case (step m)
  have "pad_buffer buf n (Suc m) v = (pad_buffer buf n m v)[m := v]"
    using step by (simp add: pad_buffer_def)
  also have "\<dots> = take n buf @ replicate (Suc m - n) v @ drop (Suc m) buf"
  proof -
    have d: "drop m buf = buf ! m # drop (Suc m) buf" using step.prems by (simp add: Cons_nth_drop_Suc)
    have "(take n buf @ replicate (m - n) v @ drop m buf)[m := v] =
        take n buf @ replicate (m - n) v @ v # drop (Suc m) buf"
      using step by (simp add: list_update_append d)
    also have "\<dots> = take n buf @ replicate (Suc m - n) v @ drop (Suc m) buf"
      using step.hyps by (simp add: Suc_diff_le replicate_append_same [symmetric])
    finally show ?thesis using step by simp
  qed
  finally show ?case .
qed

lemma validate_frame_flags: "validate_flags 64 (frame_flags_of c) = ok"
  and rtr_frame_flags: "\<not> has_flag (frame_flags_of c) flag_rtr"
  and fd_frame_flags: "has_flag (frame_flags_of c) flag_fd = use_can_fd c"
  by (auto simp: frame_flags_of_def validate_flags_def has_flag_def flag_defs)

text \<open>The length of a frame whose header and body take \<open>n\<close> bytes, at most eight.\<close>

definition iso_length :: "isotp_config \<Rightarrow> nat \<Rightarrow> nat" where
  "iso_length c n = (if pad_frames c \<and> \<not> use_can_fd c then 8 else n)"

definition iso_frame :: "isotp_config \<Rightarrow> bytes \<Rightarrow> frame \<Rightarrow> bool" where
  "iso_frame c bs f \<longleftrightarrow> wf_frame 64 f \<and> frame_id f = tx_id (address c) \<and> frame_flags f = frame_flags_of c
     \<and> frame_size f = iso_length c (length bs)
     \<and> payload_of f = bs @ replicate (iso_length c (length bs) - length bs) (padding_byte c)"

lemma build_frame:
  assumes "length bs \<le> 8"
    and l: "l = (if pad_frames c then if use_can_fd c then fd_padded_length (length bs) else 8 else length bs)"
  shows "\<exists>f. make_frame_of 64 i
      (Some (if pad_frames c then pad_buffer (memcpy_into (replicate 64 0) bs (length bs)) (length bs) l (padding_byte c)
             else memcpy_into (replicate 64 0) bs (length bs)))
      (if use_can_fd c then fd_padded_length l else l) (frame_flags_of c) 0 = Inr f
    \<and> (tx_id (address c) = i \<longrightarrow> iso_frame c bs f)"
proof -
  let ?buf = "memcpy_into (replicate 64 0) bs (length bs)"
  let ?b = "if pad_frames c then pad_buffer ?buf (length bs) l (padding_byte c) else ?buf"
  let ?l = "if use_can_fd c then fd_padded_length l else l"
  have l8: "length bs \<le> l" "l \<le> 8" using assms by (auto simp: fd_padded_length_small)
  then have len: "?l = iso_length c (length bs)"
    using assms(1) by (auto simp: l iso_length_def fd_padded_length_small)
  have buf: "?buf = bs @ replicate (64 - length bs) 0" by (simp add: memcpy_into_def)
  have "pad_buffer ?buf (length bs) l (padding_byte c) =
      take (length bs) ?buf @ replicate (l - length bs) (padding_byte c) @ drop l ?buf"
    by (rule pad_buffer_eq) (use l8 in \<open>auto simp: buf\<close>)
  then have b: "length ?b = 64" "take ?l ?b = bs @ replicate (?l - length bs) (padding_byte c)"
    using l8 assms(1) by (auto simp: buf len iso_length_def l fd_padded_length_small split: if_splits)
  have "make_ok 64 ?l (frame_flags_of c)"
    using fd_padded_length_bounds [of l] l8
    by (auto simp: make_ok_def validate_frame_flags rtr_frame_flags fd_frame_flags)
  then obtain f where f: "make_frame_of 64 i (Some ?b) ?l (frame_flags_of c) 0 = Inr f"
    using make_frame_accepts by blast
  moreover have "?l \<le> length ?b" using b(1) len l8 assms(1) by (auto simp: iso_length_def)
  ultimately show ?thesis using make_frame_builds [OF f] b len by (simp add: iso_frame_def)
qed

lemma sender_make_frame_total:
  assumes "length (address_header c @ body) \<le> 8"
  shows "\<exists>f. sender_make_frame c body = Some f \<and> iso_frame c (address_header c @ body) f"
proof -
  have n: "length (address_header c) + length body = length (address_header c @ body)" by simp
  have nl: "\<not> (if use_can_fd c then fd_padded_length (length (address_header c @ body)) else 8)
      < length (address_header c @ body)"
    using assms fd_padded_length_small [OF assms] by auto
  show ?thesis
    using build_frame [OF assms refl, where c = c and i = "tx_id (address c)"] nl
    unfolding sender_make_frame_def Let_def n by (auto simp del: length_append)
qed

lemma length_address_header [simp]: "length (address_header c) = header_size (address c)"
  by (simp add: address_header_def header_size_def)

lemma header_size_le [simp]: "header_size a \<le> 1"
  by (simp add: header_size_def)

lemma make_flow_control_total:
  "\<exists>f. make_flow_control c st = Some f
    \<and> iso_frame c (address_header c @ [0x30 OR flow_status_value st, block_size c, st_min_raw c]) f"
proof -
  let ?bs = "address_header c @ [0x30 OR flow_status_value st, block_size c, st_min_raw c]"
  have n: "length (address_header c) + 3 = length ?bs" by simp
  have le: "length ?bs \<le> 8" using header_size_le [of "address c"] by simp
  show ?thesis
    using build_frame [OF le refl, where c = c and i = "tx_id (address c)"]
    unfolding make_flow_control_def Let_def n by auto
qed

subsection \<open>What the peer reads\<close>

text \<open>\<open>linked c c'\<close>: frames of the side configured by \<open>c\<close> are addressed to the side configured by \<open>c'\<close>.\<close>

definition linked :: "isotp_config \<Rightarrow> isotp_config \<Rightarrow> bool" where
  "linked c c' \<longleftrightarrow> rx_id (address c') = tx_id (address c) \<and> addr_mode (address c') = addr_mode (address c)
     \<and> (addr_mode (address c) = ExtendedAddressing \<longrightarrow> rx_extension (address c') = tx_extension (address c))"

lemma linked_header: "linked c c' \<Longrightarrow> header_size (address c') = header_size (address c)"
  by (simp add: linked_def header_size_def)

definition padding_of :: "isotp_config \<Rightarrow> bytes \<Rightarrow> bytes" where
  "padding_of c body = replicate (iso_length c (header_size (address c) + length body)
     - (header_size (address c) + length body)) (padding_byte c)"

lemma frame_body_iso:
  assumes f: "iso_frame c (address_header c @ body) f" and link: "linked c c'" and "body \<noteq> []"
    and len: "header_size (address c) + length body \<le> 8"
  shows "frame_body c' f = Some (body @ padding_of c body)"
proof -
  have le: "header_size (address c) + length body \<le> frame_size f"
    using f len by (simp add: iso_frame_def iso_length_def)
  have p: "payload_of f = address_header c @ body @ padding_of c body"
    using f by (simp add: iso_frame_def padding_of_def)
  have n0: "frame_size f \<noteq> 0" "header_size (address c) < frame_size f"
    using le assms(3) by (cases body; simp)+
  then have "frame_data f ! 0 = payload_of f ! 0" by (simp add: payload_of_def)
  then have "addr_mode (address c) = ExtendedAddressing \<longrightarrow> frame_data f ! 0 = tx_extension (address c)"
    by (simp add: p address_header_def)
  moreover have "frame_id f = tx_id (address c)" using f by (simp add: iso_frame_def)
  ultimately show ?thesis using link n0 linked_header [OF link] p
    by (auto simp: frame_body_def linked_def Let_def)
qed

subsection \<open>Sender\<close>

definition first_take :: "isotp_config \<Rightarrow> nat \<Rightarrow> nat" where
  "first_take c n = 8 - header_size (address c) - length (first_frame_body n)"

text \<open>The bytes sent after \<open>k\<close> consecutive frames, and the sequence number that follows them.\<close>

definition sent_after :: "isotp_config \<Rightarrow> nat \<Rightarrow> nat \<Rightarrow> nat" where
  "sent_after c n k = first_take c n + k * (7 - header_size (address c))"

definition sequence_after :: "nat \<Rightarrow> u8" where
  "sequence_after k = of_nat ((k + 1) mod 16)"

lemma sequence_after_0 [simp]: "sequence_after 0 = 1"
  by (simp add: sequence_after_def)

lemma and_15: "(w :: u8) AND 0x0F = of_nat (unat w mod 16)"
proof -
  have "(0x0F :: u8) = mask 4" by (simp add: mask_eq_exp_minus_1)
  then have "w AND 0x0F = take_bit 4 w" by (simp add: take_bit_eq_mask)
  also have "\<dots> = of_nat (take_bit 4 (unat w))" using take_bit_of_nat [of 4 "unat w", where ?'a = "8 word"] by simp
  finally show ?thesis by (simp add: take_bit_eq_mod)
qed

lemma unat_sequence_after: "unat (sequence_after k) = (k + 1) mod 16"
  by (simp add: sequence_after_def unat_of_nat)

lemma sequence_after_Suc: "(sequence_after k + 1) AND 0x0F = sequence_after (Suc k)"
proof -
  have "unat (sequence_after k + 1) = (k + 1) mod 16 + 1"
    by (simp add: unat_add_wrap unat_sequence_after)
  then show ?thesis by (simp add: and_15 sequence_after_def mod_Suc_eq)
qed

lemma sequence_after_nibble: "sequence_after k AND 0x0F = sequence_after k"
  by (simp add: and_15 unat_sequence_after) (simp add: sequence_after_def)

lemma length_first_frame_body: "length (first_frame_body n) = (if n \<le> kClassicMaxLength then 2 else 6)"
  by (simp add: first_frame_body_def Let_def)

lemma first_take_bounds:
  assumes "7 - header_size (address c) < n"
  shows "0 < first_take c n" "first_take c n < n"
    "header_size (address c) + length (first_frame_body n) + first_take c n = 8"
    "min (8 - (header_size (address c) + length (first_frame_body n))) n = first_take c n"
  using assms header_size_le [of "address c"]
  by (auto simp: first_take_def length_first_frame_body kClassicMaxLength_def)

definition sender_running :: "sender \<Rightarrow> bool" where
  "sender_running s \<longleftrightarrow>
     (let c = snd_config s; n = length (snd_payload s) in
      7 - header_size (address c) < n \<and> n < 2 ^ 32 \<and> snd_offset s < n \<and>
      (\<exists>k. snd_offset s = sent_after c n k \<and> snd_sequence s = sequence_after k))"

definition wf_sender :: "sender \<Rightarrow> bool" where
  "wf_sender s \<longleftrightarrow>
     (let h = header_size (address (snd_config s)); n = length (snd_payload s) in
      snd_offset s \<le> n \<and>
      (case snd_state s of
         SIdle \<Rightarrow> n = 0 \<and> snd_result s \<in> {InProgress, Aborted}
       | SendingSingle \<Rightarrow> n \<le> 7 - h \<and> snd_offset s = 0 \<and> snd_result s \<in> {InProgress, Aborted}
       | SendingFirst \<Rightarrow> 7 - h < n \<and> n < 2 ^ 32 \<and> snd_offset s = 0 \<and> snd_result s \<in> {InProgress, Aborted}
       | WaitingFlowControl \<Rightarrow> sender_running s \<and> snd_result s \<in> {InProgress, Aborted}
       | SendingConsecutive \<Rightarrow> sender_running s \<and> snd_result s \<in> {InProgress, Aborted} \<and>
           (snd_block_size s \<noteq> 0 \<longrightarrow> snd_frames_in_block s < snd_block_size s)
       | SFinished \<Rightarrow> snd_result s \<noteq> InProgress \<and> (snd_result s = TransferOk \<longrightarrow> snd_offset s = n)))"

lemma wf_new_sender: "wf_sender (new_sender c)"
  by (simp add: wf_sender_def new_sender_def)

lemma sender_begin_accepts:
  assumes "snd_state s = SIdle" "validate_config (snd_config s) = ok" "length data < 2 ^ 32"
  shows "sender_begin s data now = (ok, s\<lparr>snd_payload := data, snd_offset := 0, snd_sequence := 0,
      snd_wait_count := 0, snd_frames_in_block := 0, snd_result := InProgress,
      snd_state := (if length data \<le> 7 - header_size (address (snd_config s)) then SendingSingle else SendingFirst),
      snd_next_send_ns := now\<rparr>)"
  using assms by (simp add: sender_begin_def Let_def)

lemma sender_begin_rejects:
  assumes "\<not> (snd_state s = SIdle \<and> validate_config (snd_config s) = ok \<and> length data < 2 ^ 32)"
  shows "\<not> has_value (fst (sender_begin s data now)) \<and> snd (sender_begin s data now) = s"
  using assms by (auto simp: sender_begin_def split: sum.splits)

lemma wf_sender_begin:
  assumes "wf_sender s"
  shows "wf_sender (snd (sender_begin s data now))"
proof (cases "snd_state s = SIdle \<and> validate_config (snd_config s) = ok \<and> length data < 2 ^ 32")
  case True
  then show ?thesis using sender_begin_accepts [of s data now] by (simp add: wf_sender_def)
next
  case False
  then show ?thesis using sender_begin_rejects [OF False] assms by simp
qed

lemma wf_sender_abort: "wf_sender s \<Longrightarrow> wf_sender (sender_abort s)"
  by (auto simp: sender_abort_def wf_sender_def sender_running_def Let_def split: sender_state.splits)

lemma wf_sender_finish: "wf_sender s \<Longrightarrow> r \<noteq> InProgress \<Longrightarrow> (r = TransferOk \<longrightarrow> snd_offset s = length (snd_payload s))
    \<Longrightarrow> wf_sender (sender_finish s r)"
  by (auto simp: sender_finish_def wf_sender_def Let_def)

lemma word_suc_le: "(a :: 'a::len word) < b \<Longrightarrow> \<not> b \<le> a + 1 \<Longrightarrow> a + 1 < b"
  by simp

lemma wf_sender_on_frame:
  assumes "wf_sender s"
  shows "wf_sender (sender_on_frame s f now)"
proof (cases "sender_done s \<or> frame_body (snd_config s) f = None")
  case True
  then show ?thesis using assms by (auto simp: sender_on_frame_def)
next
  case False
  then obtain body where b: "frame_body (snd_config s) f = Some body" and r: "\<not> sender_done s" by auto
  show ?thesis
  proof (cases "snd_state s = WaitingFlowControl")
    case True
    then have "sender_running s" "snd_result s = InProgress" "snd_offset s \<le> length (snd_payload s)"
      using assms r by (auto simp: wf_sender_def sender_done_def Let_def)
    then show ?thesis using True b r
      by (auto simp: sender_on_frame_def Let_def wf_sender_def sender_running_def sender_finish_def
          word_neq_0_conv)
  next
    case False
    then show ?thesis using b r assms wf_sender_finish [OF assms]
      by (auto simp: sender_on_frame_def Let_def)
  qed
qed

lemma sent_after_Suc: "sent_after c n (Suc k) = sent_after c n k + (7 - header_size (address c))"
  by (simp add: sent_after_def)

text \<open>\<open>poll\<close> never reaches the abort of \<open>value()\<close>, and keeps the invariant.\<close>

lemma sender_poll_single:
  assumes wf: "wf_sender s" and st: "snd_state s = SendingSingle" "\<not> sender_done s"
  shows "\<exists>f. sender_poll s now =
      Some (sender_finish (s\<lparr>snd_offset := length (snd_payload s)\<rparr>) TransferOk, [f])
    \<and> iso_frame (snd_config s) (address_header (snd_config s) @ of_nat (length (snd_payload s)) # snd_payload s) f"
proof -
  have "length (address_header (snd_config s) @ of_nat (length (snd_payload s)) # snd_payload s) \<le> 8"
    using wf st by (simp add: wf_sender_def Let_def) (use header_size_le [of "address (snd_config s)"] in linarith)
  from sender_make_frame_total [OF this] show ?thesis
    using st by (auto simp: sender_poll_def Let_def)
qed

lemma sender_poll_first:
  assumes wf: "wf_sender s" and st: "snd_state s = SendingFirst" "\<not> sender_done s"
  shows "\<exists>f. sender_poll s now =
      Some (s\<lparr>snd_offset := first_take (snd_config s) (length (snd_payload s)), snd_sequence := 1,
              snd_state := WaitingFlowControl, snd_deadline_ns := now + n_bs_ns (snd_config s)\<rparr>, [f])
    \<and> iso_frame (snd_config s) (address_header (snd_config s) @ first_frame_body (length (snd_payload s))
        @ take (first_take (snd_config s) (length (snd_payload s))) (snd_payload s)) f"
proof -
  let ?c = "snd_config s" and ?n = "length (snd_payload s)"
  have n: "7 - header_size (address ?c) < ?n" using wf st by (simp add: wf_sender_def Let_def)
  note b = first_take_bounds [OF n]
  have "length (address_header ?c @ first_frame_body ?n @ take (first_take ?c ?n) (snd_payload s)) \<le> 8"
    using b by simp
  from sender_make_frame_total [OF this] show ?thesis
    using st by (auto simp: sender_poll_def Let_def b(4))
qed

definition consecutive_take :: "sender \<Rightarrow> nat" where
  "consecutive_take s = min (7 - header_size (address (snd_config s))) (length (snd_payload s) - snd_offset s)"

definition after_consecutive :: "sender \<Rightarrow> u64 \<Rightarrow> sender" where
  "after_consecutive s now =
     (let s' = s\<lparr>snd_offset := snd_offset s + consecutive_take s, snd_sequence := (snd_sequence s + 1) AND 0x0F,
             snd_frames_in_block := snd_frames_in_block s + 1, snd_next_send_ns := now + snd_st_min_ns s\<rparr>
      in if snd_offset s' \<ge> length (snd_payload s) then sender_finish s' TransferOk
         else if snd_block_size s \<noteq> 0 \<and> snd_frames_in_block s' \<ge> snd_block_size s
         then s'\<lparr>snd_frames_in_block := 0, snd_state := WaitingFlowControl,
                 snd_deadline_ns := now + n_bs_ns (snd_config s)\<rparr>
         else s')"

lemma sender_poll_consecutive:
  assumes wf: "wf_sender s" and st: "snd_state s = SendingConsecutive" "\<not> sender_done s"
    and t: "\<not> now < snd_next_send_ns s"
  shows "\<exists>f. sender_poll s now = Some (after_consecutive s now, [f])
    \<and> iso_frame (snd_config s) (address_header (snd_config s) @ (0x20 OR snd_sequence s)
        # take (consecutive_take s) (drop (snd_offset s) (snd_payload s))) f"
proof -
  let ?c = "snd_config s"
  have r: "8 - header_size (address ?c) - 1 = 7 - header_size (address ?c)" by simp
  have "snd_sequence s AND 0x0F = snd_sequence s"
    using wf st sequence_after_nibble by (auto simp: wf_sender_def sender_running_def Let_def)
  moreover have "length (address_header ?c @ (0x20 OR snd_sequence s)
        # take (consecutive_take s) (drop (snd_offset s) (snd_payload s))) \<le> 8"
    using header_size_le [of "address ?c"] by (simp add: consecutive_take_def)
  from sender_make_frame_total [OF this] obtain f where
    "sender_make_frame ?c ((0x20 OR snd_sequence s) # take (consecutive_take s) (drop (snd_offset s) (snd_payload s))) = Some f"
    "iso_frame ?c (address_header ?c @ (0x20 OR snd_sequence s)
        # take (consecutive_take s) (drop (snd_offset s) (snd_payload s))) f" by auto
  moreover have "sender_poll s now = (case sender_make_frame ?c ((0x20 OR (snd_sequence s AND 0x0F))
        # take (consecutive_take s) (drop (snd_offset s) (snd_payload s))) of
      None \<Rightarrow> None | Some f \<Rightarrow> Some (after_consecutive s now, [f]))"
    unfolding sender_poll_def Let_def
    by (simp only: st t if_False sender_state.case r consecutive_take_def [symmetric] after_consecutive_def Let_def)
      (simp cong: option.case_cong)
  ultimately show ?thesis by simp
qed

lemma wf_after_consecutive:
  assumes wf: "wf_sender s" and st: "snd_state s = SendingConsecutive" "\<not> sender_done s"
  shows "wf_sender (after_consecutive s now)"
proof -
  let ?c = "snd_config s" and ?n = "length (snd_payload s)"
  have run: "sender_running s" and r: "snd_result s = InProgress"
    and blk: "snd_block_size s \<noteq> 0 \<longrightarrow> snd_frames_in_block s < snd_block_size s"
    using wf st by (auto simp: wf_sender_def sender_done_def Let_def)
  from run obtain k where k: "snd_offset s = sent_after ?c ?n k" "snd_sequence s = sequence_after k"
    and n: "7 - header_size (address ?c) < ?n" "?n < 2 ^ 32" "snd_offset s < ?n"
    by (auto simp: sender_running_def Let_def)
  show ?thesis
  proof (cases "?n \<le> snd_offset s + consecutive_take s")
    case True
    moreover from this have "snd_offset s + consecutive_take s = ?n" using n(3) by (simp add: consecutive_take_def)
    ultimately show ?thesis by (simp add: after_consecutive_def Let_def sender_finish_def wf_sender_def)
  next
    case False
    then have t: "consecutive_take s = 7 - header_size (address ?c)" using n by (auto simp: consecutive_take_def)
    then have o: "snd_offset s + consecutive_take s = sent_after ?c ?n (Suc k)"
      using k(1) by (simp add: sent_after_Suc)
    have q: "(snd_sequence s + 1) AND 0x0F = sequence_after (Suc k)" using k(2) sequence_after_Suc by simp
    show ?thesis using False n r o q st(1)
      by (auto simp: after_consecutive_def Let_def wf_sender_def sender_running_def not_le)
  qed
qed

lemma sender_poll_total:
  assumes "wf_sender s"
  shows "\<exists>s' fs. sender_poll s now = Some (s', fs) \<and> wf_sender s' \<and> snd_config s' = snd_config s
    \<and> snd_payload s' = snd_payload s \<and> length fs \<le> 1"
proof (cases "sender_done s")
  case True
  then show ?thesis using assms by (simp add: sender_poll_def Let_def)
next
  case False
  note nd = this
  show ?thesis
  proof (cases "snd_state s")
    case SendingSingle
    from sender_poll_single [OF assms this False] show ?thesis
      using assms SendingSingle by (fastforce simp: wf_sender_def sender_finish_def Let_def)
  next
    case SendingFirst
    then have n: "7 - header_size (address (snd_config s)) < length (snd_payload s)" "length (snd_payload s) < 2 ^ 32"
      and r: "snd_result s = InProgress"
      using assms False by (auto simp: wf_sender_def sender_done_def Let_def)
    have "sent_after (snd_config s) (length (snd_payload s)) 0 = first_take (snd_config s) (length (snd_payload s))"
      by (simp add: sent_after_def)
    then have "wf_sender (s\<lparr>snd_offset := first_take (snd_config s) (length (snd_payload s)), snd_sequence := 1,
              snd_state := WaitingFlowControl, snd_deadline_ns := now + n_bs_ns (snd_config s)\<rparr>)"
      using n r first_take_bounds [OF n(1)]
      by (auto simp: wf_sender_def sender_running_def Let_def intro!: exI [of _ 0])
    then show ?thesis using sender_poll_first [OF assms SendingFirst False] by fastforce
  next
    case WaitingFlowControl
    then show ?thesis using assms False
      by (auto simp: sender_poll_def Let_def intro: wf_sender_finish) (simp_all add: sender_finish_def)
  next
    case SendingConsecutive
    show ?thesis
    proof (cases "now < snd_next_send_ns s")
      case True
      then show ?thesis using SendingConsecutive assms False by (simp add: sender_poll_def Let_def)
    next
      case False
      have "snd_config (after_consecutive s now) = snd_config s" "snd_payload (after_consecutive s now) = snd_payload s"
        by (simp_all add: after_consecutive_def Let_def sender_finish_def)
      then show ?thesis
        using sender_poll_consecutive [OF assms SendingConsecutive nd False]
          wf_after_consecutive [OF assms SendingConsecutive nd] by fastforce
    qed
  qed (use assms False in \<open>simp_all add: sender_poll_def Let_def\<close>)
qed

datatype sender_event = SBegin bytes u64 | SPoll u64 | SFrame frame u64 | SAbort

definition sender_step :: "sender \<Rightarrow> sender_event \<Rightarrow> sender" where
  "sender_step s e =
     (case e of
        SBegin d t \<Rightarrow> snd (sender_begin s d t)
      | SPoll t \<Rightarrow> (case sender_poll s t of None \<Rightarrow> s | Some (s', _) \<Rightarrow> s')
      | SFrame f t \<Rightarrow> sender_on_frame s f t
      | SAbort \<Rightarrow> sender_abort s)"

interpretation sender_machine: event_machine sender_step wf_sender
proof unfold_locales
  fix s e
  assume wf: "wf_sender s"
  show "wf_sender (sender_step s e)"
  proof (cases e)
    case (SPoll t)
    then show ?thesis using sender_poll_total [OF wf, of t] by (auto simp: sender_step_def)
  qed (simp_all add: sender_step_def wf wf_sender_begin wf_sender_on_frame wf_sender_abort)
qed

lemma sender_finished_step:
  assumes "snd_state s = SFinished" "sender_done s"
  shows "snd_state (sender_step s e) = SFinished \<and> sender_done (sender_step s e)
    \<and> snd_offset (sender_step s e) = snd_offset s \<and> snd_payload (sender_step s e) = snd_payload s"
  using assms sender_begin_rejects [of s]
  by (cases e) (auto simp: sender_step_def sender_poll_def Let_def sender_on_frame_def sender_abort_def sender_done_def)

interpretation sender_final: absorbing_machine sender_step "\<lambda>s. snd_state s = SFinished \<and> sender_done s"
    "\<lambda>s. (snd_offset s, snd_payload s)"
  by unfold_locales (use sender_finished_step in auto)

subsection \<open>Receiver\<close>

definition wf_receiver :: "receiver \<Rightarrow> bool" where
  "wf_receiver r \<longleftrightarrow>
     (let c = rcv_config r; n = length (rcv_payload r); e = rcv_expected r in
      n \<le> e \<and>
      (case rcv_state r of
         RIdle \<Rightarrow> e = 0 \<and> rcv_result r = InProgress
       | SendFlowControl \<Rightarrow> rcv_result r = InProgress \<and> 7 - header_size (address c) < e \<and>
           (case rcv_pending_status r of
              ContinueToSend \<Rightarrow> e \<le> unat (max_receive_length c)
            | Overflow \<Rightarrow> n = 0 \<and> unat (max_receive_length c) < e
            | Wait \<Rightarrow> False)
       | Receiving \<Rightarrow> rcv_result r = InProgress \<and> 7 - header_size (address c) < e \<and>
           e \<le> unat (max_receive_length c) \<and>
           (block_size c \<noteq> 0 \<longrightarrow> rcv_frames_in_block r < block_size c)
       | RFinished \<Rightarrow> rcv_result r \<noteq> InProgress \<and>
           (rcv_result r = TransferOk \<longrightarrow> n = e \<and> 0 < n \<and> n \<le> max (unat (max_receive_length c)) 62)))"

lemma wf_new_receiver: "wf_receiver (new_receiver c)"
  by (simp add: wf_receiver_def new_receiver_def)

lemma wf_receiver_reset: "wf_receiver (receiver_reset r)"
  by (simp add: wf_receiver_def receiver_reset_def)

lemma wf_receiver_finish: "wf_receiver r \<Longrightarrow> x \<noteq> InProgress \<Longrightarrow> x \<noteq> TransferOk \<Longrightarrow> wf_receiver (receiver_finish r x)"
  by (auto simp: receiver_finish_def wf_receiver_def Let_def)

lemma receiver_poll_total: "\<exists>r' fs. receiver_poll r now = Some (r', fs) \<and> rcv_config r' = rcv_config r"
  using make_flow_control_total [of "rcv_config r" "rcv_pending_status r"]
  by (auto simp: receiver_poll_def receiver_finish_def split: receiver_state.splits)

lemma wf_receiver_poll:
  assumes "wf_receiver r" "receiver_poll r now = Some (r', fs)"
  shows "wf_receiver r'"
proof (cases "rcv_state r")
  case SendFlowControl
  then show ?thesis using assms
    by (auto simp: receiver_poll_def wf_receiver_def receiver_finish_def Let_def word_neq_0_conv
        split: if_splits option.splits flow_status.splits)
next
  case Receiving
  then show ?thesis using assms wf_receiver_finish [OF assms(1), of TimeoutCr]
    by (auto simp: receiver_poll_def split: if_splits)
qed (use assms in \<open>auto simp: receiver_poll_def\<close>)

lemma frame_body_length: "frame_body c f = Some body \<Longrightarrow> 0 < length body \<or> length (frame_data f) < frame_size f"
  by (auto simp: frame_body_def Let_def payload_of_def split: if_splits)

lemma frame_size_le: "frame_size f \<le> 64"
proof -
  have "\<forall>d \<in> set [0..<16]. kFdDlcToLength ! d \<le> 64" by code_simp
  moreover have "unat (frame_dlc f) < 16" if "frame_dlc f \<le> 15" using that by (simp add: word_le_nat_alt)
  ultimately show ?thesis
    by (auto simp: frame_size_def dlc_to_length_def word_le_nat_alt not_less)
qed

lemma length_frame_body: "frame_body c f = Some body \<Longrightarrow> length body \<le> 64"
  using frame_size_le [of f] by (auto simp: frame_body_def Let_def payload_of_def split: if_splits)

lemma wf_receive_single:
  assumes "wf_receiver r" "length body \<le> 64"
  shows "wf_receiver (receive_single r body)"
proof -
  have "\<lbrakk>len \<noteq> 0; k \<ge> 1; len = unat (body ! 0 AND 0x0F) \<or> k = 2; \<not> length body < k + len\<rbrakk> \<Longrightarrow> len \<le> 62" for k len
  proof -
    assume a: "len \<noteq> 0" "k \<ge> 1" "len = unat (body ! 0 AND 0x0F) \<or> k = 2" "\<not> length body < k + len"
    have "unat (body ! 0 AND 0x0F) < 16" by (simp add: and_15 unat_of_nat)
    then show "len \<le> 62" using a assms(2) by auto
  qed
  note l = this [of _ 1] this [of _ 2]
  show ?thesis using assms wf_receiver_finish [OF assms(1)] l
    by (auto simp: receive_single_def Let_def) (auto simp: wf_receiver_def receiver_finish_def Let_def le_max_iff_disj)
qed

text \<open>The announced length of a First Frame, its escape included.\<close>

definition first_length :: "bytes \<Rightarrow> nat" where
  "first_length body =
     (let len = push_bit 8 (unat (body ! 0 AND 0x0F)) OR unat (body ! 1) in
      if len = 0 then push_bit 24 (unat (body ! 2)) OR push_bit 16 (unat (body ! 3))
          OR push_bit 8 (unat (body ! 4)) OR unat (body ! 5) else len)"

definition first_escaped :: "bytes \<Rightarrow> bool" where
  "first_escaped body \<longleftrightarrow> push_bit 8 (unat (body ! 0 AND 0x0F)) OR unat (body ! 1) = 0"

lemma receive_first_cases:
  "receive_first r body now =
    (if rcv_state r \<noteq> RIdle then receiver_finish r UnexpectedPdu
     else if length body < (if first_escaped body then 6 else 2)
       \<or> first_length body \<le> 7 - header_size (address (rcv_config r)) then receiver_finish r InvalidPdu
     else if first_length body > unat (max_receive_length (rcv_config r))
     then r\<lparr>rcv_expected := first_length body, rcv_pending_status := Overflow,
            rcv_state := SendFlowControl, rcv_fc_due_ns := now + n_br_ns (rcv_config r)\<rparr>
     else r\<lparr>rcv_expected := first_length body,
            rcv_payload := take (first_length body) (drop (if first_escaped body then 6 else 2) body),
            rcv_sequence := 1, rcv_pending_status := ContinueToSend,
            rcv_state := SendFlowControl, rcv_fc_due_ns := now + n_br_ns (rcv_config r)\<rparr>)"
proof -
  have tk: "(if length p > n then take n p else p) = take n p" for n and p :: bytes by simp
  define a where "a = push_bit 8 (unat (body ! 0 AND 0x0F)) OR unat (body ! 1)"
  define b where "b = push_bit 24 (unat (body ! 2)) OR push_bit 16 (unat (body ! 3))
          OR push_bit 8 (unat (body ! 4)) OR unat (body ! 5)"
  have l: "first_length body = (if a = 0 then b else a)" "first_escaped body \<longleftrightarrow> a = 0"
    by (simp_all only: first_length_def first_escaped_def Let_def a_def b_def)
  show ?thesis
    unfolding receive_first_def Let_def tk a_def [symmetric] b_def [symmetric] l
    by (cases "rcv_state r = RIdle"; cases "a = 0") simp_all
qed

lemma wf_receive_first:
  assumes "wf_receiver r"
  shows "wf_receiver (receive_first r body now)"
proof (cases "rcv_state r = RIdle")
  case True
  then have "rcv_payload r = []" "rcv_result r = InProgress" using assms by (auto simp: wf_receiver_def Let_def)
  then show ?thesis using True wf_receiver_finish [OF assms]
    unfolding receive_first_cases by (simp add: wf_receiver_def Let_def)
next
  case False
  then show ?thesis using wf_receiver_finish [OF assms] by (simp add: receive_first_cases)
qed

lemma wf_receive_consecutive:
  assumes "wf_receiver r"
  shows "wf_receiver (receive_consecutive r body now)"
proof (cases "rcv_state r = Receiving \<and> body ! 0 AND 0x0F = rcv_sequence r")
  case True
  then have *: "rcv_result r = InProgress" "7 - header_size (address (rcv_config r)) < rcv_expected r"
    "rcv_expected r \<le> unat (max_receive_length (rcv_config r))" "length (rcv_payload r) \<le> rcv_expected r"
    "block_size (rcv_config r) \<noteq> 0 \<longrightarrow> rcv_frames_in_block r < block_size (rcv_config r)"
    using assms by (auto simp: wf_receiver_def Let_def)
  define n where "n = min (rcv_expected r - length (rcv_payload r)) (length body - 1)"
  define p where "p = rcv_payload r @ take n (drop 1 body)"
  have len: "length p = length (rcv_payload r) + n" by (simp add: p_def n_def)
  have p: "length p \<le> rcv_expected r" using * unfolding len n_def by simp
  have e: "receive_consecutive r body now =
    (let r' = r\<lparr>rcv_sequence := (rcv_sequence r + 1) AND 0x0F, rcv_payload := p,
                rcv_frames_in_block := rcv_frames_in_block r + 1\<rparr>;
         r'' = r'\<lparr>rcv_deadline_ns := now + n_cr_ns (rcv_config r)\<rparr> in
     if rcv_expected r \<le> length p then receiver_finish r' TransferOk
     else if block_size (rcv_config r) \<noteq> 0 \<and> rcv_frames_in_block r + 1 \<ge> block_size (rcv_config r)
     then r''\<lparr>rcv_pending_status := ContinueToSend, rcv_state := SendFlowControl,
             rcv_fc_due_ns := now + n_br_ns (rcv_config r)\<rparr>
     else r'')"
    using True by (simp add: receive_consecutive_def Let_def p_def n_def)
  show ?thesis
  proof (cases "rcv_expected r \<le> length p")
    case True
    moreover from this have "0 < length p" using * by linarith
    ultimately show ?thesis unfolding e using * p
      by (simp add: wf_receiver_def receiver_finish_def Let_def le_max_iff_disj)
  next
    case False
    then show ?thesis unfolding e using * p \<open>rcv_state r = Receiving \<and> _\<close>
      by (simp add: wf_receiver_def Let_def not_le)
  qed
next
  case False
  then show ?thesis using wf_receiver_finish [OF assms] by (auto simp: receive_consecutive_def Let_def)
qed

lemma wf_receiver_on_frame:
  assumes "wf_receiver r"
  shows "wf_receiver (receiver_on_frame r f now)"
  using assms wf_receive_single [OF assms length_frame_body] wf_receive_first [OF assms]
    wf_receive_consecutive [OF assms] wf_receiver_finish [OF assms]
  by (auto simp: receiver_on_frame_def split: option.splits pci.splits)

datatype receiver_event = RPoll u64 | RFrame frame u64 | RReset

definition receiver_step :: "receiver \<Rightarrow> receiver_event \<Rightarrow> receiver" where
  "receiver_step r e =
     (case e of
        RPoll t \<Rightarrow> (case receiver_poll r t of None \<Rightarrow> r | Some (r', _) \<Rightarrow> r')
      | RFrame f t \<Rightarrow> receiver_on_frame r f t
      | RReset \<Rightarrow> receiver_reset r)"

interpretation receiver_machine: event_machine receiver_step wf_receiver
proof unfold_locales
  fix r e
  assume wf: "wf_receiver r"
  then show "wf_receiver (receiver_step r e)"
    using wf_receiver_poll [OF wf]
    by (cases e) (auto simp: receiver_step_def intro: wf_receiver_on_frame wf_receiver_reset split: option.splits)
qed

definition receiver_step_no_reset :: "receiver \<Rightarrow> receiver_event \<Rightarrow> receiver" where
  "receiver_step_no_reset r e = (case e of RReset \<Rightarrow> r | _ \<Rightarrow> receiver_step r e)"

interpretation receiver_final: absorbing_machine receiver_step_no_reset "\<lambda>r. rcv_state r = RFinished"
    "\<lambda>r. (rcv_payload r, rcv_result r)"
  by unfold_locales
    (auto simp: receiver_step_no_reset_def receiver_step_def receiver_poll_def receiver_on_frame_def
      split: receiver_event.splits)

end
