(* ===== verification/IsoTp_Link.thy ===== *)
theory IsoTp_Link
  imports IsoTp_Inv
begin

text \<open>
  A \<open>Sender\<close> and a \<open>Receiver\<close> joined by a link that loses nothing and keeps the order, as the
  sessions of \<open>uds/src/Uds.cpp\<close> and \<open>sim/src/UdsServer.cpp\<close> drive them: each turn polls one side at
  a time of the caller's choice and hands the frames it returns to the other. Under every schedule
  a message the receiver reports is the message that was sent; and when the rounds are paced so
  that the requested separation times pass and N_Bs does not, every transfer completes.
\<close>

subsection \<open>Protocol control bytes as the peer decodes them\<close>

lemma nibble_sequence:
  "drop_bit 4 (0x20 OR sequence_after k) AND 0x0F = 2"
  "(0x20 OR sequence_after k) AND 0x0F = sequence_after k"
proof -
  have "\<forall>m \<in> set [0..<16]. drop_bit 4 (0x20 OR (of_nat m :: u8)) AND 0x0F = 2
      \<and> (0x20 OR of_nat m) AND 0x0F = (of_nat m :: u8)" by code_simp
  moreover have "(k + 1) mod 16 \<in> set [0..<16]" by simp
  ultimately show "drop_bit 4 (0x20 OR sequence_after k) AND 0x0F = 2"
    "(0x20 OR sequence_after k) AND 0x0F = sequence_after k"
    unfolding sequence_after_def by blast+
qed

lemma nibble_single:
  assumes "n \<le> 7"
  shows "drop_bit 4 (of_nat n :: u8) AND 0x0F = 0" "unat ((of_nat n :: u8) AND 0x0F) = n"
proof -
  have "\<forall>m \<in> set [0..<8]. drop_bit 4 (of_nat m :: u8) AND 0x0F = 0 \<and> unat ((of_nat m :: u8) AND 0x0F) = m"
    by code_simp
  moreover have "n \<in> set [0..<8]" using assms by auto
  ultimately show "drop_bit 4 (of_nat n :: u8) AND 0x0F = 0" "unat ((of_nat n :: u8) AND 0x0F) = n" by blast+
qed

lemma nibble_flow:
  "drop_bit 4 (0x30 OR flow_status_value st) AND 0x0F = 3"
  "(0x30 OR flow_status_value st) AND 0x0F = flow_status_value st"
  by (cases st; simp add: flow_status_value_def)+

lemma nibble_first:
  assumes "m < 16"
  shows "drop_bit 4 (0x10 OR (of_nat m :: u8)) AND 0x0F = 1" "unat ((0x10 OR (of_nat m :: u8)) AND 0x0F) = m"
proof -
  have "\<forall>m \<in> set [0..<16]. drop_bit 4 (0x10 OR (of_nat m :: u8)) AND 0x0F = 1
      \<and> unat ((0x10 OR (of_nat m :: u8)) AND 0x0F) = m" by code_simp
  moreover have "m \<in> set [0..<16]" using assms by auto
  ultimately show "drop_bit 4 (0x10 OR (of_nat m :: u8)) AND 0x0F = 1"
    "unat ((0x10 OR (of_nat m :: u8)) AND 0x0F) = m" by blast+
qed

lemma unat_byte_of: "unat (ucast ((w :: 'a::len word) AND 0xFF) :: u8) = unat w mod 256"
proof -
  have m: "(0xFF :: 'a word) = mask 8" by (simp add: mask_eq_exp_minus_1)
  have "(ucast (w AND 0xFF) :: u8) = ucast w"
    unfolding m by (rule bit_word_eqI) (auto simp: bit_ucast_iff bit_and_iff bit_mask_iff dest: bit_imp_le_length)
  moreover have "unat (ucast w :: u8) = take_bit 8 (unat w)" by (simp add: unsigned_ucast_eq)
  ultimately show ?thesis by (simp add: take_bit_eq_mod)
qed

lemma first_head_byte: "ucast (0x10 OR (drop_bit 8 (w :: u64) AND 0x0F)) = (0x10 OR of_nat (unat w div 256 mod 16) :: u8)"
proof -
  define m where "m = unat w div 256 mod 16"
  have k: "(0x0F :: u64) = mask 4" by (simp add: mask_eq_exp_minus_1)
  have "drop_bit 8 w AND 0x0F = take_bit 4 (drop_bit 8 w)" unfolding k by (simp add: take_bit_eq_mask)
  moreover have "unat (take_bit 4 (drop_bit 8 w)) = m"
    by (simp add: unsigned_take_bit_eq unat_drop_bit_eq take_bit_eq_mod drop_bit_eq_div m_def unat_mod unat_div)
  ultimately have "drop_bit 8 w AND 0x0F = of_nat m" by (metis of_nat_unat ucast_id)
  moreover have "\<forall>m \<in> set [0..<16]. ucast (0x10 OR (of_nat m :: u64)) = (0x10 OR of_nat m :: u8)" by code_simp
  moreover have "m \<in> set [0..<16]" by (simp add: m_def)
  ultimately show ?thesis unfolding m_def [symmetric] by (metis (no_types))
qed

lemma be32_sum:
  assumes "(n :: nat) < 2 ^ 32"
  shows "push_bit 24 (n div 2 ^ 24 mod 256) OR push_bit 16 (n div 2 ^ 16 mod 256)
    OR push_bit 8 (n div 2 ^ 8 mod 256) OR (n mod 256) = n"
proof -
  define n1 where "n1 = n div 256"
  define n2 where "n2 = n1 div 256"
  define n3 where "n3 = n2 div 256"
  have d: "n div 2 ^ 8 = n1" "n div 2 ^ 16 = n2" "n div 2 ^ 24 = n3"
    by (simp_all add: n1_def n2_def n3_def div_mult2_eq [symmetric])
  have e: "n = 256 * n1 + n mod 256" "n1 = 256 * n2 + n1 mod 256" "n2 = 256 * n3 + n2 mod 256" "n3 mod 256 = n3"
    using assms by (simp_all add: n1_def n2_def n3_def)
  have b: "n mod 256 < 256" "n1 mod 256 < 256" "n2 mod 256 < 256" by simp_all
  have "push_bit 8 (n1 mod 256) OR (n mod 256) = (n1 mod 256) * 2 ^ 8 + n mod 256"
    by (rule or_shift_add) simp
  moreover have "push_bit 16 (n2 mod 256) OR ((n1 mod 256) * 2 ^ 8 + n mod 256)
      = (n2 mod 256) * 2 ^ 16 + ((n1 mod 256) * 2 ^ 8 + n mod 256)"
    by (rule or_shift_add) (use b in simp)
  moreover have "push_bit 24 n3 OR ((n2 mod 256) * 2 ^ 16 + ((n1 mod 256) * 2 ^ 8 + n mod 256))
      = n3 * 2 ^ 24 + ((n2 mod 256) * 2 ^ 16 + ((n1 mod 256) * 2 ^ 8 + n mod 256))"
    by (rule or_shift_add) (use b in simp)
  ultimately show ?thesis unfolding d e(4) using e(1,2,3) by simp
qed

lemma first_length_body:
  assumes "n < 2 ^ 32" "8 \<le> n \<or> 7 \<le> n"
  shows "first_length (first_frame_body n @ x) = n"
    and "first_escaped (first_frame_body n @ x) \<longleftrightarrow> \<not> n \<le> kClassicMaxLength"
    and "drop_bit 4 ((first_frame_body n @ x) ! 0) AND 0x0F = 1"
proof -
  have u: "unat (of_nat n :: u64) = n" "unat (of_nat n :: u32) = n"
    using assms by (simp_all add: unat_of_nat)
  have "first_length (first_frame_body n @ x) = n
    \<and> (first_escaped (first_frame_body n @ x) \<longleftrightarrow> \<not> n \<le> kClassicMaxLength)
    \<and> drop_bit 4 ((first_frame_body n @ x) ! 0) AND 0x0F = 1"
  proof (cases "n \<le> kClassicMaxLength")
    case True
    then have m: "n div 256 mod 16 = n div 256" "n div 256 < 16" by (auto simp: kClassicMaxLength_def)
    have e: "first_frame_body n @ x = (0x10 OR of_nat (n div 256)) # ucast ((of_nat n :: u64) AND 0xFF) # x"
      using True m(1) first_head_byte [of "of_nat n"] by (simp add: first_frame_body_def u)
    have "push_bit 8 (n div 256) OR n mod 256 = n"
      by (subst or_shift_add) simp_all
    then have "push_bit 8 (unat ((first_frame_body n @ x) ! 0 AND 0x0F)) OR unat ((first_frame_body n @ x) ! 1) = n"
      unfolding e using nibble_first [OF m(2)] by (simp only: nth_Cons_0 nth_Cons_Suc One_nat_def unat_byte_of u)
    moreover have "drop_bit 4 ((first_frame_body n @ x) ! 0) AND 0x0F = 1"
      unfolding e using nibble_first [OF m(2)] by (simp only: nth_Cons_0)
    ultimately show ?thesis unfolding first_length_def first_escaped_def Let_def using True assms(2) by auto
  next
    case False
    define b where "b k = (ucast (drop_bit k (of_nat n :: u32) AND 0xFF) :: u8)" for k
    have e: "first_frame_body n @ x = [0x10, 0, b 24, b 16, b 8, b 0] @ x"
      using False by (simp add: first_frame_body_def b_def Let_def)
    have "unat (b k) = n div 2 ^ k mod 256" for k
      by (simp only: b_def unat_byte_of unat_drop_bit_eq u) (simp add: drop_bit_eq_div)
    then have "push_bit 24 (unat (b 24)) OR push_bit 16 (unat (b 16)) OR push_bit 8 (unat (b 8)) OR unat (b 0) = n"
      using be32_sum [OF assms(1)] by simp
    then show ?thesis using False unfolding first_length_def first_escaped_def Let_def e by simp
  qed
  then show "first_length (first_frame_body n @ x) = n"
    "first_escaped (first_frame_body n @ x) \<longleftrightarrow> \<not> n \<le> kClassicMaxLength"
    "drop_bit 4 ((first_frame_body n @ x) ! 0) AND 0x0F = 1" by blast+
qed


subsection \<open>One turn of each kind\<close>

definition deliver_to_receiver :: "receiver \<Rightarrow> frame list \<Rightarrow> u64 \<Rightarrow> receiver" where
  "deliver_to_receiver r fs t = foldl (\<lambda>r f. receiver_on_frame r f t) r fs"

definition deliver_to_sender :: "sender \<Rightarrow> frame list \<Rightarrow> u64 \<Rightarrow> sender" where
  "deliver_to_sender s fs t = foldl (\<lambda>s f. sender_on_frame s f t) s fs"

datatype link_event = SenderTurn u64 | ReceiverTurn u64

definition link_step :: "sender \<times> receiver \<Rightarrow> link_event \<Rightarrow> sender \<times> receiver" where
  "link_step sr e =
     (case sr of (s, r) \<Rightarrow>
      case e of
        SenderTurn t \<Rightarrow> (case sender_poll s t of None \<Rightarrow> (s, r) | Some (s', fs) \<Rightarrow> (s', deliver_to_receiver r fs t))
      | ReceiverTurn t \<Rightarrow> (case receiver_poll r t of None \<Rightarrow> (s, r) | Some (r', fs) \<Rightarrow> (deliver_to_sender s fs t, r')))"

lemma receiver_on_iso_frame:
  assumes "iso_frame c (address_header c @ body) f" "linked c (rcv_config r)" "body \<noteq> []"
    "header_size (address c) + length body \<le> 8" "rcv_state r \<noteq> RFinished"
  shows "receiver_on_frame r f t =
    (case pci_of_nibble (drop_bit 4 (body ! 0) AND 0x0F) of
       Some SingleFrame \<Rightarrow> receive_single r (body @ padding_of c body)
     | Some FirstFrame \<Rightarrow> receive_first r (body @ padding_of c body) t
     | Some ConsecutiveFrame \<Rightarrow> receive_consecutive r (body @ padding_of c body) t
     | Some FlowControl \<Rightarrow> receiver_finish r UnexpectedPdu
     | None \<Rightarrow> receiver_finish r InvalidPdu)"
  using frame_body_iso [OF assms(1-4)] assms(3,5) by (simp add: receiver_on_frame_def nth_append)

lemma deliver_single:
  assumes wf: "wf_sender s" and st: "snd_state s = SendingSingle" "\<not> sender_done s"
    and link: "linked (snd_config s) (rcv_config r)" and r: "rcv_state r = RIdle"
    and n: "snd_payload s \<noteq> []"
  shows "link_step (s, r) (SenderTurn t) =
    (sender_finish (s\<lparr>snd_offset := length (snd_payload s)\<rparr>) TransferOk,
     receiver_finish (r\<lparr>rcv_payload := snd_payload s, rcv_expected := length (snd_payload s)\<rparr>) TransferOk)"
proof -
  let ?c = "snd_config s" and ?m = "snd_payload s"
  have l: "length ?m \<le> 7 - header_size (address ?c)" "length ?m \<le> 7"
    using wf st by (auto simp: wf_sender_def Let_def)
  then have h: "header_size (address ?c) + length (of_nat (length ?m) # ?m) \<le> 8"
    using header_size_le [of "address ?c"] by (simp del: header_size_le)
  obtain f where f: "sender_poll s t = Some (sender_finish (s\<lparr>snd_offset := length ?m\<rparr>) TransferOk, [f])"
    "iso_frame ?c (address_header ?c @ of_nat (length ?m) # ?m) f"
    using sender_poll_single [OF wf st] by blast
  have "receiver_on_frame r f t = receive_single r (of_nat (length ?m) # ?m @ padding_of ?c (of_nat (length ?m) # ?m))"
    using receiver_on_iso_frame [OF f(2) link _ h] r nibble_single [OF l(2)] by (simp add: pci_of_nibble_def)
  also have "\<dots> = receiver_finish (r\<lparr>rcv_payload := ?m, rcv_expected := length ?m\<rparr>) TransferOk"
    using r n nibble_single [OF l(2)] by (simp add: receive_single_def Let_def)
  finally show ?thesis using f(1) by (simp add: link_step_def deliver_to_receiver_def)
qed

lemma padding_full: "header_size (address c) + length body = 8 \<Longrightarrow> padding_of c body = []"
  by (simp add: padding_of_def iso_length_def)

definition after_first :: "sender \<Rightarrow> u64 \<Rightarrow> sender" where
  "after_first s t = s\<lparr>snd_offset := first_take (snd_config s) (length (snd_payload s)), snd_sequence := 1,
     snd_state := WaitingFlowControl, snd_deadline_ns := t + n_bs_ns (snd_config s)\<rparr>"

definition accept_first :: "receiver \<Rightarrow> nat \<Rightarrow> bytes \<Rightarrow> u64 \<Rightarrow> receiver" where
  "accept_first r n p t =
     (if n > unat (max_receive_length (rcv_config r))
      then r\<lparr>rcv_expected := n, rcv_pending_status := Overflow, rcv_state := SendFlowControl,
             rcv_fc_due_ns := t + n_br_ns (rcv_config r)\<rparr>
      else r\<lparr>rcv_expected := n, rcv_payload := p, rcv_sequence := 1, rcv_pending_status := ContinueToSend,
             rcv_state := SendFlowControl, rcv_fc_due_ns := t + n_br_ns (rcv_config r)\<rparr>)"

lemma deliver_first:
  assumes wf: "wf_sender s" and st: "snd_state s = SendingFirst" "\<not> sender_done s"
    and link: "linked (snd_config s) (rcv_config r)" and r: "rcv_state r = RIdle"
  shows "link_step (s, r) (SenderTurn t) =
    (after_first s t, accept_first r (length (snd_payload s))
       (take (first_take (snd_config s) (length (snd_payload s))) (snd_payload s)) t)"
proof -
  let ?c = "snd_config s" and ?m = "snd_payload s"
  let ?n = "length ?m"
  let ?p = "take (first_take ?c ?n) ?m"
  let ?body = "first_frame_body ?n @ ?p"
  have n: "7 - header_size (address ?c) < ?n" "?n < 2 ^ 32"
    using wf st by (auto simp: wf_sender_def Let_def)
  have n7: "8 \<le> ?n \<or> 7 \<le> ?n" using n(1) header_size_le [of "address ?c"] by linarith
  note ft = first_take_bounds [OF n(1)]
  have lp: "length ?p = first_take ?c ?n" using ft by simp
  have h: "header_size (address ?c) + length ?body = 8" using ft(3) lp by simp
  have ne: "?body \<noteq> []" by (simp add: first_frame_body_def Let_def)
  obtain f where f: "sender_poll s t = Some (after_first s t, [f])"
    "iso_frame ?c (address_header ?c @ ?body) f"
    using sender_poll_first [OF wf st, of t] by (auto simp: after_first_def)
  note fl = first_length_body [OF n(2) n7, of ?p]
  have "receiver_on_frame r f t = receive_first r ?body t"
    using receiver_on_iso_frame [OF f(2) link ne] h r fl(3) padding_full [OF h] by (simp add: pci_of_nibble_def)
  also have "\<dots> = accept_first r ?n ?p t"
  proof -
    have "drop (length (first_frame_body ?n)) ?body = ?p" by simp
    moreover have "length (first_frame_body ?n) = (if first_escaped ?body then 6 else 2)"
      by (simp add: fl(2) length_first_frame_body)
    moreover have "length ?p \<le> ?n" by simp
    ultimately show ?thesis unfolding receive_first_cases fl(1) accept_first_def
      using r n(1) linked_header [OF link] by (simp add: min_def lp)
  qed
  finally show ?thesis using f(1) by (simp add: link_step_def deliver_to_receiver_def)
qed


definition accept_consecutive :: "receiver \<Rightarrow> bytes \<Rightarrow> u64 \<Rightarrow> receiver" where
  "accept_consecutive r data t =
     (let r' = r\<lparr>rcv_sequence := (rcv_sequence r + 1) AND 0x0F, rcv_payload := rcv_payload r @ data,
             rcv_frames_in_block := rcv_frames_in_block r + 1\<rparr>;
          r'' = r'\<lparr>rcv_deadline_ns := t + n_cr_ns (rcv_config r)\<rparr> in
      if rcv_expected r \<le> length (rcv_payload r @ data) then receiver_finish r' TransferOk
      else if block_size (rcv_config r) \<noteq> 0 \<and> block_size (rcv_config r) \<le> rcv_frames_in_block r + 1
      then r''\<lparr>rcv_pending_status := ContinueToSend, rcv_state := SendFlowControl,
              rcv_fc_due_ns := t + n_br_ns (rcv_config r)\<rparr>
      else r'')"

lemma receive_consecutive_accept:
  assumes "rcv_state r = Receiving" "body ! 0 AND 0x0F = rcv_sequence r"
    and "take (min (rcv_expected r - length (rcv_payload r)) (length body - 1)) (drop 1 body) = data"
  shows "receive_consecutive r body t = accept_consecutive r data t"
  unfolding receive_consecutive_def accept_consecutive_def Let_def assms(3) using assms(1,2) by simp

text \<open>Both sides in the middle of a transfer of \<open>m\<close>: what has been sent has been received.\<close>

definition in_step :: "sender \<Rightarrow> receiver \<Rightarrow> bool" where
  "in_step s r \<longleftrightarrow> rcv_expected r = length (snd_payload s) \<and> rcv_sequence r = snd_sequence s \<and>
     rcv_payload r = take (snd_offset s) (snd_payload s)"

definition next_chunk :: "sender \<Rightarrow> bytes" where
  "next_chunk s = take (consecutive_take s) (drop (snd_offset s) (snd_payload s))"

lemma length_next_chunk: "length (next_chunk s) = consecutive_take s"
  by (simp add: next_chunk_def consecutive_take_def)

lemma deliver_consecutive:
  assumes wf: "wf_sender s" and st: "snd_state s = SendingConsecutive" "\<not> sender_done s"
    and t: "\<not> t < snd_next_send_ns s"
    and link: "linked (snd_config s) (rcv_config r)" and r: "rcv_state r = Receiving" and step: "in_step s r"
  shows "link_step (s, r) (SenderTurn t) = (after_consecutive s t, accept_consecutive r (next_chunk s) t)"
proof -
  let ?c = "snd_config s" and ?m = "snd_payload s"
  let ?body = "(0x20 OR snd_sequence s) # next_chunk s"
  have off: "snd_offset s < length ?m" and "\<exists>k. snd_sequence s = sequence_after k"
    using wf st by (auto simp: wf_sender_def sender_running_def Let_def)
  then obtain k where k: "snd_sequence s = sequence_after k" by blast
  obtain f where f: "sender_poll s t = Some (after_consecutive s t, [f])"
    "iso_frame ?c (address_header ?c @ ?body) f"
    using sender_poll_consecutive [OF wf st t] by (auto simp: next_chunk_def)
  have h: "header_size (address ?c) + length ?body \<le> 8"
    using header_size_le [of "address ?c"] by (simp add: length_next_chunk consecutive_take_def del: header_size_le)
  have "receiver_on_frame r f t = receive_consecutive r (?body @ padding_of ?c ?body) t"
    using receiver_on_iso_frame [OF f(2) link _ h] r nibble_sequence k by (simp add: pci_of_nibble_def)
  also have "\<dots> = accept_consecutive r (next_chunk s) t"
  proof (rule receive_consecutive_accept [OF r])
    show "(?body @ padding_of ?c ?body) ! 0 AND 0x0F = rcv_sequence r"
      using nibble_sequence k step by (simp add: in_step_def)
    have rem: "rcv_expected r - length (rcv_payload r) = length ?m - snd_offset s"
      using step off by (simp add: in_step_def)
    show "take (min (rcv_expected r - length (rcv_payload r)) (length (?body @ padding_of ?c ?body) - 1))
        (drop 1 (?body @ padding_of ?c ?body)) = next_chunk s"
    proof (cases "length ?m - snd_offset s \<le> 7 - header_size (address ?c)")
      case True
      then have "length (next_chunk s) = length ?m - snd_offset s"
        by (simp add: length_next_chunk consecutive_take_def)
      then show ?thesis unfolding rem by simp
    next
      case False
      then have l: "length (next_chunk s) = 7 - header_size (address ?c)"
        by (simp add: length_next_chunk consecutive_take_def)
      then have "header_size (address ?c) + length ?body = 8"
        using header_size_le [of "address ?c"] by (simp del: header_size_le)
      from padding_full [OF this] False l show ?thesis unfolding rem by simp
    qed
  qed
  finally show ?thesis using f(1) by (simp add: link_step_def deliver_to_receiver_def)
qed

definition accept_flow :: "sender \<Rightarrow> isotp_config \<Rightarrow> u64 \<Rightarrow> sender" where
  "accept_flow s c t = s\<lparr>snd_block_size := block_size c, snd_st_min_ns := st_min_to_ns (st_min_raw c),
     snd_wait_count := 0, snd_frames_in_block := 0, snd_state := SendingConsecutive,
     snd_next_send_ns := t + n_cs_ns (snd_config s)\<rparr>"

lemma deliver_flow:
  assumes r: "rcv_state r = SendFlowControl" and due: "rcv_fc_due_ns r \<le> t"
    and pend: "rcv_pending_status r \<noteq> Wait"
    and link: "linked (rcv_config r) (snd_config s)" and st: "sender_done s \<or> snd_state s = WaitingFlowControl"
  shows "link_step (s, r) (ReceiverTurn t) =
    (if sender_done s then s
     else if rcv_pending_status r = Overflow then sender_finish s BufferOverflow
     else accept_flow s (rcv_config r) t,
     if rcv_pending_status r = Overflow then receiver_finish r BufferOverflow
     else r\<lparr>rcv_state := Receiving, rcv_frames_in_block := 0,
            rcv_deadline_ns := t + n_cr_ns (rcv_config r)\<rparr>)"
proof -
  let ?c = "rcv_config r"
  let ?body = "[0x30 OR flow_status_value (rcv_pending_status r), block_size ?c, st_min_raw ?c]"
  obtain f where f: "make_flow_control ?c (rcv_pending_status r) = Some f"
    "iso_frame ?c (address_header ?c @ ?body) f" using make_flow_control_total by blast
  have h: "header_size (address ?c) + length ?body \<le> 8"
    using header_size_le [of "address ?c"] by simp
  have b: "frame_body (snd_config s) f = Some (?body @ padding_of ?c ?body)"
    using frame_body_iso [OF f(2) link _ h] by simp
  have "sender_on_frame s f t = (if sender_done s then s
     else if rcv_pending_status r = Overflow then sender_finish s BufferOverflow
     else accept_flow s (rcv_config r) t)"
    using st b nibble_flow [of "rcv_pending_status r"] pend
    by (cases "rcv_pending_status r")
      (auto simp: sender_on_frame_def Let_def accept_flow_def flow_status_value_def)
  then show ?thesis using f(1) r due by (simp add: link_step_def receiver_poll_def deliver_to_sender_def)
qed


subsection \<open>Safety: a received message is the message sent\<close>

definition link_inv :: "bytes \<Rightarrow> isotp_config \<Rightarrow> isotp_config \<Rightarrow> sender \<times> receiver \<Rightarrow> bool" where
  "link_inv m cs cr sr \<longleftrightarrow>
     (case sr of (s, r) \<Rightarrow>
      wf_sender s \<and> wf_receiver r \<and> snd_config s = cs \<and> rcv_config r = cr \<and> snd_payload s = m \<and>
      (case rcv_state r of
         RFinished \<Rightarrow> rcv_result r = TransferOk \<longrightarrow> rcv_payload r = m
       | RIdle \<Rightarrow> sender_done s \<or> snd_state s = SendingSingle \<or> snd_state s = SendingFirst
       | SendFlowControl \<Rightarrow> sender_done s \<or>
           snd_state s = WaitingFlowControl \<and> (rcv_pending_status r = ContinueToSend \<longrightarrow> in_step s r)
       | Receiving \<Rightarrow> sender_done s \<or>
           snd_state s = SendingConsecutive \<and> in_step s r \<and> snd_block_size s = block_size cr \<and>
           snd_frames_in_block s = rcv_frames_in_block r))"

lemma consecutive_together:
  fixes t :: u64
  assumes wf: "wf_sender s" and st: "snd_state s = SendingConsecutive"
    and r: "rcv_state r = Receiving" and step: "in_step s r"
    and blk: "snd_block_size s = block_size (rcv_config r)" "snd_frames_in_block s = rcv_frames_in_block r"
  defines "s' \<equiv> after_consecutive s t" and "r' \<equiv> accept_consecutive r (next_chunk s) t"
  shows "if snd_offset s + consecutive_take s = length (snd_payload s)
     then snd_state s' = SFinished \<and> snd_result s' = TransferOk
       \<and> rcv_state r' = RFinished \<and> rcv_result r' = TransferOk \<and> rcv_payload r' = snd_payload s
     else in_step s' r' \<and> snd_result s' = snd_result s \<and> snd_offset s' = snd_offset s + consecutive_take s \<and>
       snd_block_size s' = snd_block_size s \<and> snd_st_min_ns s' = snd_st_min_ns s \<and>
       snd_frames_in_block s' = (if snd_state s' = SendingConsecutive then rcv_frames_in_block r' else 0) \<and>
       snd_next_send_ns s' = t + snd_st_min_ns s \<and>
       (snd_state s' = SendingConsecutive \<and> rcv_state r' = Receiving
           \<and> rcv_deadline_ns r' = t + n_cr_ns (rcv_config r) \<or>
        snd_state s' = WaitingFlowControl \<and> rcv_state r' = SendFlowControl
           \<and> rcv_pending_status r' = ContinueToSend
           \<and> snd_deadline_ns s' = t + n_bs_ns (snd_config s)
           \<and> rcv_fc_due_ns r' = t + n_br_ns (rcv_config r))"
proof -
  let ?m = "snd_payload s"
  have off: "snd_offset s < length ?m"
    using wf st by (auto simp: wf_sender_def sender_running_def Let_def)
  have p: "rcv_payload r @ next_chunk s = take (snd_offset s + consecutive_take s) ?m"
    using step by (simp add: in_step_def next_chunk_def take_add)
  have ct: "snd_offset s + consecutive_take s \<le> length ?m" using off by (simp add: consecutive_take_def)
  then have lp: "length (rcv_payload r @ next_chunk s) = snd_offset s + consecutive_take s" unfolding p by simp
  show ?thesis
  proof (cases "snd_offset s + consecutive_take s = length ?m")
    case True
    then show ?thesis using step p lp
      by (simp add: s'_def r'_def after_consecutive_def accept_consecutive_def Let_def in_step_def
          sender_finish_def receiver_finish_def)
  next
    case False
    then have n: "\<not> length ?m \<le> snd_offset s + consecutive_take s" using ct by simp
    then have n': "\<not> rcv_expected r \<le> length (rcv_payload r @ next_chunk s)" using step lp by (simp add: in_step_def)
    show ?thesis
    proof (cases "block_size (rcv_config r) \<noteq> 0 \<and> block_size (rcv_config r) \<le> rcv_frames_in_block r + 1")
      case True
      then show ?thesis using False n n' step blk p
        by (simp add: s'_def r'_def after_consecutive_def accept_consecutive_def Let_def in_step_def)
    next
      case no: False
      then show ?thesis using False n n' step blk p st r
        by (simp add: s'_def r'_def after_consecutive_def accept_consecutive_def Let_def in_step_def)
    qed
  qed
qed


lemma sender_poll_done: "sender_done s \<Longrightarrow> sender_poll s t = Some (s, [])"
  by (simp add: sender_poll_def Let_def)

lemma deliver_to_finished: "rcv_state r = RFinished \<Longrightarrow> deliver_to_receiver r fs t = r"
  by (induction fs) (simp_all add: deliver_to_receiver_def receiver_on_frame_def)

lemma receiver_on_frame_config: "rcv_config (receiver_on_frame r f t) = rcv_config r"
proof -
  have "rcv_config (receive_single r b) = rcv_config r" "rcv_config (receive_first r b t) = rcv_config r"
    "rcv_config (receive_consecutive r b t) = rcv_config r" for b
    by (simp_all add: receive_single_def receive_first_cases receive_consecutive_def Let_def receiver_finish_def)
  then show ?thesis by (auto simp: receiver_on_frame_def receiver_finish_def split: option.splits pci.splits)
qed

lemma sender_on_frame_keeps:
  "snd_config (sender_on_frame s f t) = snd_config s \<and> snd_payload (sender_on_frame s f t) = snd_payload s"
  by (simp add: sender_on_frame_def sender_finish_def Let_def split: option.splits)

lemma link_wf:
  assumes "wf_sender s" "wf_receiver r" "link_step (s, r) e = (s', r')"
  shows "wf_sender s' \<and> wf_receiver r' \<and> snd_config s' = snd_config s \<and> rcv_config r' = rcv_config r
    \<and> snd_payload s' = snd_payload s"
proof (cases e)
  case (SenderTurn t)
  obtain x fs where "sender_poll s t = Some (x, fs)" "wf_sender x" "snd_config x = snd_config s"
    "snd_payload x = snd_payload s" using sender_poll_total [OF assms(1)] by blast
  moreover have "wf_receiver (deliver_to_receiver r fs t) \<and> rcv_config (deliver_to_receiver r fs t) = rcv_config r"
    using assms(2)
  proof (induction fs arbitrary: r)
    case (Cons f fs)
    then show ?case using Cons.IH [OF wf_receiver_on_frame [OF Cons.prems]]
      by (simp add: deliver_to_receiver_def receiver_on_frame_config)
  qed (simp add: deliver_to_receiver_def)
  ultimately show ?thesis using assms SenderTurn by (auto simp: link_step_def)
next
  case (ReceiverTurn t)
  obtain x fs where x: "receiver_poll r t = Some (x, fs)" "rcv_config x = rcv_config r"
    using receiver_poll_total by blast
  moreover have "wf_sender (deliver_to_sender s fs t) \<and> snd_config (deliver_to_sender s fs t) = snd_config s
    \<and> snd_payload (deliver_to_sender s fs t) = snd_payload s"
    using assms(1)
  proof (induction fs arbitrary: s)
    case (Cons f fs)
    then show ?case using Cons.IH [OF wf_sender_on_frame [OF Cons.prems]]
      by (simp add: deliver_to_sender_def sender_on_frame_keeps)
  qed (simp add: deliver_to_sender_def)
  ultimately show ?thesis using assms ReceiverTurn wf_receiver_poll [OF assms(2) x(1)] by (auto simp: link_step_def)
qed

lemma sender_turn_inv:
  assumes link: "linked cs cr" and m: "m \<noteq> []" and inv: "link_inv m cs cr (s, r)"
  shows "link_inv m cs cr (link_step (s, r) (SenderTurn t))"
proof -
  have wf: "wf_sender s" "wf_receiver r" and c: "snd_config s = cs" "rcv_config r = cr" "snd_payload s = m"
    using inv by (simp_all add: link_inv_def)
  obtain s' r' where sr: "link_step (s, r) (SenderTurn t) = (s', r')" by (meson surj_pair)
  note keep = link_wf [OF wf sr]
  have l: "linked (snd_config s) (rcv_config r)" using link c by simp
  show ?thesis
  proof (cases "sender_done s")
    case True
    then have "link_step (s, r) (SenderTurn t) = (s, r)"
      by (simp add: link_step_def sender_poll_done deliver_to_receiver_def)
    then show ?thesis using inv by simp
  next
    case False
    note nd = this
    show ?thesis
    proof (cases "rcv_state r")
      case RFinished
      then have "r' = r" using sr deliver_to_finished [OF RFinished]
        by (auto simp: link_step_def split: option.splits)
      then show ?thesis using inv RFinished keep c unfolding sr by (simp add: link_inv_def)
    next
      case RIdle
      then have "snd_state s = SendingSingle \<or> snd_state s = SendingFirst" using inv nd by (auto simp: link_inv_def)
      then show ?thesis
      proof
        assume st: "snd_state s = SendingSingle"
        have "snd_payload s \<noteq> []" using m c by simp
        from deliver_single [OF wf(1) st nd l RIdle this, of t]
        have "rcv_state r' = RFinished" "rcv_payload r' = m" unfolding sr using c by (simp_all add: receiver_finish_def)
        then show ?thesis using keep c unfolding sr by (simp add: link_inv_def)
      next
        assume st: "snd_state s = SendingFirst"
        have e: "s' = after_first s t" "r' = accept_first r (length m) (take (first_take cs (length m)) m) t"
          using deliver_first [OF wf(1) st nd l RIdle, of t] sr c by auto
        have "rcv_state r' = SendFlowControl" "snd_state s' = WaitingFlowControl"
          "rcv_pending_status r' = ContinueToSend \<longrightarrow> in_step s' r'"
          unfolding e using c by (auto simp: after_first_def accept_first_def in_step_def)
        then show ?thesis using keep c unfolding sr by (simp add: link_inv_def)
      qed
    next
      case SendFlowControl
      then have st: "snd_state s = WaitingFlowControl" using inv nd by (auto simp: link_inv_def)
      then have "link_step (s, r) (SenderTurn t) = (if snd_deadline_ns s \<le> t then sender_finish s TimeoutBs else s, r)"
        using nd by (simp add: link_step_def sender_poll_def Let_def deliver_to_receiver_def)
      then show ?thesis using keep c inv SendFlowControl unfolding sr
        by (auto simp: link_inv_def sender_done_def sender_finish_def split: if_splits)
    next
      case Receiving
      then have st: "snd_state s = SendingConsecutive" and step: "in_step s r"
        and blk: "snd_block_size s = block_size (rcv_config r)" "snd_frames_in_block s = rcv_frames_in_block r"
        using inv nd c by (auto simp: link_inv_def)
      show ?thesis
      proof (cases "t < snd_next_send_ns s")
        case True
        then have "link_step (s, r) (SenderTurn t) = (s, r)"
          using st nd by (simp add: link_step_def sender_poll_def Let_def deliver_to_receiver_def)
        then show ?thesis using inv by simp
      next
        case False
        have e: "s' = after_consecutive s t" "r' = accept_consecutive r (next_chunk s) t"
          using deliver_consecutive [OF wf(1) st nd False l Receiving step] sr by auto
        have b: "snd_block_size s' = block_size cr" if "snd_offset s + consecutive_take s \<noteq> length (snd_payload s)"
          using consecutive_together [OF wf(1) st Receiving step blk, of t] that blk c unfolding e by (auto split: if_splits)
        show ?thesis
          using consecutive_together [OF wf(1) st Receiving step blk, of t] b keep c unfolding sr e [symmetric]
          by (auto simp: link_inv_def split: if_splits)
      qed
    qed
  qed
qed


lemma receiver_turn_idle:
  assumes "receiver_poll r t = Some (r, [])"
  shows "link_step (s, r) (ReceiverTurn t) = (s, r)"
  using assms by (simp add: link_step_def deliver_to_sender_def)

lemma receiver_turn_inv:
  assumes link: "linked cr cs" and inv: "link_inv m cs cr (s, r)"
  shows "link_inv m cs cr (link_step (s, r) (ReceiverTurn t))"
proof -
  have wf: "wf_sender s" "wf_receiver r" and c: "snd_config s = cs" "rcv_config r = cr" "snd_payload s = m"
    using inv by (simp_all add: link_inv_def)
  obtain s' r' where sr: "link_step (s, r) (ReceiverTurn t) = (s', r')" by (meson surj_pair)
  note keep = link_wf [OF wf sr]
  have l: "linked (rcv_config r) (snd_config s)" using link c by simp
  show ?thesis
  proof (cases "rcv_state r = SendFlowControl \<and> rcv_fc_due_ns r \<le> t")
    case True
    then have st: "sender_done s \<or> snd_state s = WaitingFlowControl"
      and step: "sender_done s \<or> (rcv_pending_status r = ContinueToSend \<longrightarrow> in_step s r)"
      and p: "rcv_pending_status r \<noteq> Wait"
      using inv by (auto simp: link_inv_def wf_receiver_def Let_def)
    have e: "s' = (if sender_done s then s
        else if rcv_pending_status r = Overflow then sender_finish s BufferOverflow
        else accept_flow s (rcv_config r) t)"
      "r' = (if rcv_pending_status r = Overflow then receiver_finish r BufferOverflow
        else r\<lparr>rcv_state := Receiving, rcv_frames_in_block := 0,
            rcv_deadline_ns := t + n_cr_ns (rcv_config r)\<rparr>)"
      using deliver_flow [OF conjunct1 [OF True] conjunct2 [OF True] p l st] sr by auto
    show ?thesis
    proof (cases "rcv_pending_status r")
      case ContinueToSend
      then show ?thesis using keep c step unfolding sr
        by (auto simp: link_inv_def e accept_flow_def in_step_def)
    next
      case Overflow
      then show ?thesis using keep c unfolding sr by (auto simp: link_inv_def e receiver_finish_def)
    qed (use p in simp)
  next
    case False
    show ?thesis
    proof (cases "rcv_state r = Receiving \<and> rcv_deadline_ns r \<le> t")
      case True
      then have "r' = receiver_finish r TimeoutCr" using sr by (auto simp: link_step_def receiver_poll_def)
      then show ?thesis using keep c unfolding sr by (simp add: link_inv_def receiver_finish_def)
    next
      case no: False
      then have "receiver_poll r t = Some (r, [])"
        using False by (cases "rcv_state r") (auto simp: receiver_poll_def)
      then show ?thesis using inv by (simp add: receiver_turn_idle)
    qed
  qed
qed

lemma link_step_inv:
  assumes "linked cs cr" "linked cr cs" "m \<noteq> []" "link_inv m cs cr sr"
  shows "link_inv m cs cr (link_step sr e)"
  using assms by (cases sr; cases e) (simp_all add: sender_turn_inv receiver_turn_inv)

text \<open>The invariant, guarded so that it is an invariant of every pair of configurations.\<close>

definition link_guard :: "bytes \<Rightarrow> isotp_config \<Rightarrow> isotp_config \<Rightarrow> sender \<times> receiver \<Rightarrow> bool" where
  "link_guard m cs cr sr \<longleftrightarrow> (linked cs cr \<and> linked cr cs \<and> m \<noteq> [] \<longrightarrow> link_inv m cs cr sr)"

interpretation link_machine: event_machine link_step "link_guard m cs cr" for m cs cr
  by unfold_locales (auto simp: link_guard_def link_step_inv)

lemma link_start_inv:
  assumes "validate_config cs = ok" "length m < 2 ^ 32"
  shows "link_inv m cs cr (snd (sender_begin (new_sender cs) m t), new_receiver cr)"
  using assms wf_sender_begin [OF wf_new_sender, of cs m t] sender_begin_accepts [of "new_sender cs" m t] wf_new_receiver [of cr]
  by (auto simp: link_inv_def new_sender_def new_receiver_def)

subsection \<open>Liveness: with time to act, every transfer completes\<close>

definition link_round :: "sender \<times> receiver \<Rightarrow> u64 \<Rightarrow> sender \<times> receiver" where
  "link_round sr t = link_step (link_step sr (SenderTurn t)) (ReceiverTurn t)"

text \<open>Rounds \<open>dt\<close> apart: long enough for the delays the two sides ask for, shorter than N_Bs.\<close>

definition paced :: "isotp_config \<Rightarrow> isotp_config \<Rightarrow> u64 \<Rightarrow> bool" where
  "paced cs cr dt \<longleftrightarrow> st_min_to_ns (st_min_raw cr) \<le> dt \<and> n_cs_ns cs \<le> dt \<and> n_br_ns cr \<le> dt \<and>
     dt < n_bs_ns cs \<and> n_cr_ns cr \<noteq> 0"

definition room_at :: "isotp_config \<Rightarrow> isotp_config \<Rightarrow> u64 \<Rightarrow> bool" where
  "room_at cs cr t \<longleftrightarrow> unat t + unat (n_bs_ns cs) + unat (n_cr_ns cr) < 2 ^ 64"

lemma add_le_mono_word:
  assumes "unat (t :: u64) + unat x < 2 ^ 64" "unat t + unat y < 2 ^ 64"
  shows "t + x \<le> t + y \<longleftrightarrow> x \<le> y" and "t + x < t + y \<longleftrightarrow> x < y"
  using assms by (simp_all add: word_le_nat_alt word_less_nat_alt unat_add_wrap)

lemma add_pos_word: "unat (t :: u64) + unat x < 2 ^ 64 \<Longrightarrow> x \<noteq> 0 \<Longrightarrow> t < t + x"
  by (simp add: word_less_nat_alt unat_add_wrap unat_gt_0)

definition sending_phase :: "isotp_config \<Rightarrow> u64 \<Rightarrow> sender \<Rightarrow> receiver \<Rightarrow> bool" where
  "sending_phase cr t' s r \<longleftrightarrow> \<not> sender_done s \<and> snd_state s = SendingConsecutive \<and> rcv_state r = Receiving
     \<and> snd_next_send_ns s \<le> t' \<and> snd_st_min_ns s = st_min_to_ns (st_min_raw cr)"

definition flow_phase :: "u64 \<Rightarrow> sender \<Rightarrow> receiver \<Rightarrow> bool" where
  "flow_phase t' s r \<longleftrightarrow> \<not> sender_done s \<and> snd_state s = WaitingFlowControl \<and> rcv_state r = SendFlowControl
     \<and> rcv_pending_status r = ContinueToSend \<and> rcv_fc_due_ns r \<le> t' \<and> t' < snd_deadline_ns s"

definition delivered :: "bytes \<Rightarrow> sender \<Rightarrow> receiver \<Rightarrow> bool" where
  "delivered m s r \<longleftrightarrow> sender_done s \<and> snd_result s = TransferOk \<and> rcv_state r = RFinished \<and> has_message r
     \<and> rcv_payload r = m"

definition left :: "bytes \<Rightarrow> sender \<times> receiver \<Rightarrow> nat" where
  "left m sr = (case sr of (s, r) \<Rightarrow> if delivered m s r then 0
     else 2 * (length m - snd_offset s) + (if rcv_state r = SendFlowControl then 1 else 0))"

definition on_track :: "bytes \<Rightarrow> isotp_config \<Rightarrow> isotp_config \<Rightarrow> u64 \<Rightarrow> sender \<times> receiver \<Rightarrow> bool" where
  "on_track m cs cr t' sr \<longleftrightarrow>
     link_inv m cs cr sr \<and> (case sr of (s, r) \<Rightarrow> delivered m s r \<or> sending_phase cr t' s r \<or> flow_phase t' s r)"


lemma paced_times:
  assumes p: "paced cs cr dt" and room: "room_at cs cr t"
  shows "x \<le> dt \<Longrightarrow> t + x \<le> t + dt" "t + dt < t + n_bs_ns cs" "t < t + n_cr_ns cr"
proof -
  have u: "unat t + unat (n_bs_ns cs) < 2 ^ 64" "unat t + unat (n_cr_ns cr) < 2 ^ 64"
    using room by (simp_all add: room_at_def)
  moreover have "unat dt < unat (n_bs_ns cs)" using p by (simp add: paced_def word_less_nat_alt)
  ultimately have d: "unat t + unat dt < 2 ^ 64" by linarith
  show "t + x \<le> t + dt" if "x \<le> dt"
  proof -
    have "unat t + unat x < 2 ^ 64" using that d by (simp add: word_le_nat_alt)
    then show ?thesis using that d add_le_mono_word(1) by blast
  qed
  show "t + dt < t + n_bs_ns cs" using add_le_mono_word(2) [OF d u(1)] p by (simp add: paced_def)
  show "t < t + n_cr_ns cr" using add_pos_word [OF u(2)] p by (simp add: paced_def)
qed

text \<open>The receiver's turn when a Flow Control is due: both sides go on.\<close>

lemma flow_turn:
  assumes inv: "link_inv m cs cr (s, r)" and link: "linked cr cs"
    and r: "rcv_state r = SendFlowControl" "rcv_pending_status r = ContinueToSend" "rcv_fc_due_ns r \<le> t"
    and s: "\<not> sender_done s" "snd_state s = WaitingFlowControl"
    and p: "paced cs cr dt" "room_at cs cr t"
  shows "\<exists>s' r'. link_step (s, r) (ReceiverTurn t) = (s', r') \<and> sending_phase cr (t + dt) s' r'
    \<and> snd_offset s' = snd_offset s"
proof -
  have c: "snd_config s = cs" "rcv_config r = cr" using inv by (simp_all add: link_inv_def)
  have l: "linked (rcv_config r) (snd_config s)" using link c by simp
  have "n_cs_ns cs \<le> dt" using p(1) by (simp add: paced_def)
  then show ?thesis
    using deliver_flow [OF r(1) r(3) _ l] r s c paced_times(1) [OF p]
    by (simp add: sending_phase_def accept_flow_def sender_done_def)
qed

lemma delivered_round:
  assumes "delivered m s r"
  shows "link_step (s, r) e = (s, r)"
  using assms by (cases e) (simp_all add: delivered_def link_step_def sender_poll_done deliver_to_receiver_def
      receiver_poll_def deliver_to_sender_def)

lemma left_phase:
  "sending_phase cr t s r \<Longrightarrow> left m (s, r) = 2 * (length m - snd_offset s)"
  "flow_phase t s r \<Longrightarrow> left m (s, r) = 2 * (length m - snd_offset s) + 1"
  by (auto simp: left_def sending_phase_def flow_phase_def delivered_def)

lemma round_progress:
  assumes link: "linked cs cr" "linked cr cs" and m: "m \<noteq> []"
    and p: "paced cs cr dt" "room_at cs cr t" and track: "on_track m cs cr t sr"
  shows "on_track m cs cr (t + dt) (link_round sr t) \<and> (left m sr = 0 \<or> left m (link_round sr t) < left m sr)"
proof -
  obtain s r where sr: "sr = (s, r)" by (meson surj_pair)
  have inv: "link_inv m cs cr (s, r)" using track by (simp add: on_track_def sr)
  have c: "snd_config s = cs" "rcv_config r = cr" "snd_payload s = m" "wf_sender s"
    using inv by (simp_all add: link_inv_def)
  have inv': "link_inv m cs cr (link_round sr t)"
    using link_step_inv [OF link m] inv by (simp add: link_round_def sr)
  consider "delivered m s r" | "sending_phase cr t s r" | "flow_phase t s r"
    using track by (auto simp: on_track_def sr)
  then show ?thesis
  proof cases
    case 1
    then show ?thesis using inv by (simp add: on_track_def sr link_round_def delivered_round left_def)
  next
    case 3
    then have st: "\<not> sender_done s" "snd_state s = WaitingFlowControl" "t < snd_deadline_ns s"
      and r: "rcv_state r = SendFlowControl" "rcv_pending_status r = ContinueToSend" "rcv_fc_due_ns r \<le> t"
      by (auto simp: flow_phase_def)
    have "link_step (s, r) (SenderTurn t) = (s, r)"
      using st by (simp add: link_step_def sender_poll_def Let_def deliver_to_receiver_def)
    moreover obtain s' r' where "link_step (s, r) (ReceiverTurn t) = (s', r')"
      "sending_phase cr (t + dt) s' r'" "snd_offset s' = snd_offset s"
      using flow_turn [OF inv link(2) r st(1,2) p] by blast
    ultimately show ?thesis using inv' left_phase(2) [OF 3, of m] left_phase(1) [of cr "t + dt" s' r' m]
      by (simp add: on_track_def link_round_def sr)
  next
    case 2
    then have st: "\<not> sender_done s" "snd_state s = SendingConsecutive" "\<not> t < snd_next_send_ns s"
      and stm: "snd_st_min_ns s = st_min_to_ns (st_min_raw cr)" and r: "rcv_state r = Receiving"
      by (auto simp: sending_phase_def not_less)
    have step: "in_step s r" and blk: "snd_block_size s = block_size (rcv_config r)" "snd_frames_in_block s = rcv_frames_in_block r"
      using inv st r c by (auto simp: link_inv_def)
    have l: "linked (snd_config s) (rcv_config r)" using link c by simp
    have off: "snd_offset s < length m"
      using c st by (auto simp: wf_sender_def sender_running_def Let_def)
    moreover have h: "header_size (address (snd_config s)) \<le> 1" by (rule header_size_le)
    ultimately have ct: "0 < consecutive_take s" "snd_offset s + consecutive_take s \<le> length m"
      using c(3) by (auto simp: consecutive_take_def)
    define s1 where "s1 = after_consecutive s t"
    define r1 where "r1 = accept_consecutive r (next_chunk s) t"
    have e: "link_step (s, r) (SenderTurn t) = (s1, r1)"
      unfolding s1_def r1_def by (rule deliver_consecutive [OF c(4) st(2,1,3) l r step])
    have inv1: "link_inv m cs cr (s1, r1)" using sender_turn_inv [OF link(1) m inv, of t] by (simp add: e)
    note tog = consecutive_together [OF c(4) st(2) r step blk, of t, folded s1_def r1_def]
    show ?thesis
    proof (cases "snd_offset s + consecutive_take s = length m")
      case True
      then have "delivered m s1 r1" using tog c by (simp add: delivered_def has_message_def sender_done_def)
      then show ?thesis using inv' left_phase(1) [OF 2, of m] off
        by (simp add: on_track_def link_round_def sr e delivered_round left_def)
    next
      case False
      note tog' = tog [unfolded c if_not_P [OF False]]
      have nd: "\<not> sender_done s1" using tog' st(1) by (simp add: sender_done_def)
      have off1: "snd_offset s1 = snd_offset s + consecutive_take s" using tog' by blast
      have lw: "2 * (length m - snd_offset s1) + 1 < 2 * (length m - snd_offset s)" using off1 ct off by linarith
      from tog' consider
          (go) "snd_state s1 = SendingConsecutive" "rcv_state r1 = Receiving" "rcv_deadline_ns r1 = t + n_cr_ns cr"
        | (wait) "snd_state s1 = WaitingFlowControl" "rcv_state r1 = SendFlowControl"
            "rcv_pending_status r1 = ContinueToSend" "snd_deadline_ns s1 = t + n_bs_ns cs"
            "rcv_fc_due_ns r1 = t + n_br_ns cr" by blast
      then show ?thesis
      proof cases
        case go
        have "receiver_poll r1 t = Some (r1, [])"
          using go paced_times(3) [OF p] by (simp add: receiver_poll_def not_le)
        then have e2: "link_round sr t = (s1, r1)" by (simp add: link_round_def sr e receiver_turn_idle)
        have "st_min_to_ns (st_min_raw cr) \<le> dt" using p(1) by (simp add: paced_def)
        then have "sending_phase cr (t + dt) s1 r1"
          using go nd tog' stm paced_times(1) [OF p] by (simp add: sending_phase_def)
        then show ?thesis using inv' left_phase(1) [OF 2, of m] left_phase(1) [of cr "t + dt" s1 r1 m] lw
          unfolding sr e2 [unfolded sr] by (simp add: on_track_def)
      next
        case wait
        show ?thesis
        proof (cases "rcv_fc_due_ns r1 \<le> t")
          case True
          obtain s' r' where sr': "link_step (s1, r1) (ReceiverTurn t) = (s', r')"
            "sending_phase cr (t + dt) s' r'" "snd_offset s' = snd_offset s1"
            using flow_turn [OF inv1 link(2) wait(2,3) True nd wait(1) p] by blast
          then have e2: "link_round sr t = (s', r')" by (simp add: link_round_def sr e)
          show ?thesis using inv' left_phase(1) [OF 2, of m] left_phase(1) [OF sr'(2), of m] lw sr'
            unfolding sr e2 [unfolded sr] by (simp add: on_track_def)
        next
          case False
          then have "receiver_poll r1 t = Some (r1, [])" using wait by (simp add: receiver_poll_def)
          then have e2: "link_round sr t = (s1, r1)" by (simp add: link_round_def sr e receiver_turn_idle)
          have "n_br_ns cr \<le> dt" using p(1) by (simp add: paced_def)
          then have "flow_phase (t + dt) s1 r1"
            using wait nd paced_times(1,2) [OF p] by (simp add: flow_phase_def)
          then show ?thesis using inv' left_phase(1) [OF 2, of m] left_phase(2) [of "t + dt" s1 r1 m] lw
            unfolding sr e2 [unfolded sr] by (simp add: on_track_def)
        qed
      qed
    qed
  qed
qed


primrec link_run :: "nat \<Rightarrow> u64 \<Rightarrow> u64 \<Rightarrow> sender \<times> receiver \<Rightarrow> sender \<times> receiver" where
  "link_run 0 t dt sr = sr"
| "link_run (Suc k) t dt sr = link_run k (t + dt) dt (link_round sr t)"

definition horizon :: "isotp_config \<Rightarrow> isotp_config \<Rightarrow> u64 \<Rightarrow> u64 \<Rightarrow> nat \<Rightarrow> bool" where
  "horizon cs cr t dt k \<longleftrightarrow> unat t + k * unat dt + unat (n_bs_ns cs) + unat (n_cr_ns cr) < 2 ^ 64"

lemma horizon_Suc:
  assumes "horizon cs cr t dt (Suc k)"
  shows "room_at cs cr t" "horizon cs cr (t + dt) dt k"
proof -
  have "unat t + unat dt < 2 ^ 64" using assms by (simp add: horizon_def)
  then show "room_at cs cr t" "horizon cs cr (t + dt) dt k"
    using assms by (simp_all add: horizon_def room_at_def unat_add_wrap)
qed

lemma run_completes:
  assumes link: "linked cs cr" "linked cr cs" and m: "m \<noteq> []" and p: "paced cs cr dt"
    and "horizon cs cr t dt k" "on_track m cs cr t sr" "left m sr \<le> k"
  shows "\<exists>s r. link_run k t dt sr = (s, r) \<and> delivered m s r"
  using assms(5-7)
proof (induction k arbitrary: t sr)
  case 0
  obtain s r where sr: "sr = (s, r)" by (meson surj_pair)
  have "left m (s, r) = 0" using 0 by (simp add: sr)
  moreover have "snd_offset s < length m" if "sending_phase cr t s r \<or> flow_phase t s r"
    using that 0 by (auto simp: on_track_def sr link_inv_def wf_sender_def sender_running_def
        sending_phase_def flow_phase_def Let_def)
  ultimately have "delivered m s r"
    using 0 left_phase(1) [of cr t s r m] left_phase(2) [of t s r m] by (auto simp: on_track_def sr)
  then show ?case by (simp add: sr)
next
  case (Suc k)
  note h = horizon_Suc [OF Suc.prems(1)]
  note prog = round_progress [OF link m p h(1) Suc.prems(2)]
  show ?case
  proof (cases "left m sr = 0")
    case True
    obtain s r where sr: "sr = (s, r)" by (meson surj_pair)
    have "left m (link_round sr t) \<le> k"
    proof -
      have "snd_offset s < length m" if "sending_phase cr t s r \<or> flow_phase t s r"
        using that Suc.prems(2) by (auto simp: on_track_def sr link_inv_def wf_sender_def sender_running_def
            sending_phase_def flow_phase_def Let_def)
      then have "delivered m s r" using True Suc.prems(2) left_phase(1) [of cr t s r m] left_phase(2) [of t s r m]
        by (auto simp: on_track_def sr)
      then show ?thesis by (simp add: sr link_round_def delivered_round left_def)
    qed
    then show ?thesis using Suc.IH [OF h(2)] prog by simp
  next
    case False
    then show ?thesis using Suc.IH [OF h(2)] prog Suc.prems(3) by simp
  qed
qed

lemma first_round:
  assumes link: "linked cs cr" "linked cr cs" and m: "m \<noteq> []" "length m \<le> unat (max_receive_length cr)"
    and v: "validate_config cs = ok" and p: "paced cs cr dt" "room_at cs cr t"
  defines "sr \<equiv> link_round (snd (sender_begin (new_sender cs) m t), new_receiver cr) t"
  shows "on_track m cs cr (t + dt) sr \<and> left m sr \<le> 2 * length m + 1"
proof -
  let ?s = "snd (sender_begin (new_sender cs) m t)" and ?r = "new_receiver cr"
  have n32: "length m < 2 ^ 32" using m(2) unat_less_exp [of "max_receive_length cr"] by simp
  have inv: "link_inv m cs cr (?s, ?r)" by (rule link_start_inv [OF v n32])
  have inv': "link_inv m cs cr sr" unfolding sr_def link_round_def using inv link_step_inv [OF link m(1)] by simp
  have s: "snd_state ?s = (if length m \<le> 7 - header_size (address cs) then SendingSingle else SendingFirst)"
    "\<not> sender_done ?s" "snd_config ?s = cs" "snd_payload ?s = m" "wf_sender ?s"
    using inv sender_begin_accepts [of "new_sender cs" m t] v n32
    by (simp_all add: link_inv_def new_sender_def sender_done_def)
  have r: "rcv_state ?r = RIdle" "rcv_config ?r = cr" by (simp_all add: new_receiver_def)
  have l: "linked (snd_config ?s) (rcv_config ?r)" using link s r by simp
  show ?thesis
  proof (cases "length m \<le> 7 - header_size (address cs)")
    case True
    have "snd_payload ?s \<noteq> []" using m s by simp
    from deliver_single [OF s(5) _ s(2) l r(1) this, of t] True s
    have "link_step (?s, ?r) (SenderTurn t) =
        (sender_finish (?s\<lparr>snd_offset := length m\<rparr>) TransferOk,
         receiver_finish (?r\<lparr>rcv_payload := m, rcv_expected := length m\<rparr>) TransferOk)" by simp
    moreover have "delivered m (sender_finish (?s\<lparr>snd_offset := length m\<rparr>) TransferOk)
         (receiver_finish (?r\<lparr>rcv_payload := m, rcv_expected := length m\<rparr>) TransferOk)"
      by (simp add: delivered_def sender_finish_def receiver_finish_def sender_done_def has_message_def)
    ultimately show ?thesis using inv'
      by (simp add: sr_def link_round_def delivered_round on_track_def left_def)
  next
    case False
    define s1 where "s1 = after_first ?s t"
    define r1 where "r1 = accept_first ?r (length m) (take (first_take cs (length m)) m) t"
    have e: "link_step (?s, ?r) (SenderTurn t) = (s1, r1)"
      using deliver_first [OF s(5) _ s(2) l r(1), of t] False s by (simp add: s1_def r1_def)
    have inv1: "link_inv m cs cr (s1, r1)" using sender_turn_inv [OF link(1) m(1) inv, of t] by (simp add: e)
    have st: "\<not> sender_done s1" "snd_state s1 = WaitingFlowControl" "snd_deadline_ns s1 = t + n_bs_ns cs"
      using s by (simp_all add: s1_def after_first_def sender_done_def)
    have rt: "rcv_state r1 = SendFlowControl" "rcv_pending_status r1 = ContinueToSend"
      "rcv_fc_due_ns r1 = t + n_br_ns cr"
      using m(2) r by (simp_all add: r1_def accept_first_def)
    show ?thesis
    proof (cases "rcv_fc_due_ns r1 \<le> t")
      case True
      obtain s' r' where sr': "link_step (s1, r1) (ReceiverTurn t) = (s', r')"
        "sending_phase cr (t + dt) s' r'" "snd_offset s' = snd_offset s1"
        using flow_turn [OF inv1 link(2) rt(1,2) True st(1,2) p] by blast
      then have "sr = (s', r')" by (simp add: sr_def link_round_def e)
      then show ?thesis using inv' sr' left_phase(1) [OF sr'(2), of m] by (simp add: on_track_def)
    next
      case False
      then have "receiver_poll r1 t = Some (r1, [])" using rt by (simp add: receiver_poll_def)
      then have e2: "sr = (s1, r1)" by (simp add: sr_def link_round_def e receiver_turn_idle)
      have "n_br_ns cr \<le> dt" using p(1) by (simp add: paced_def)
      then have "flow_phase (t + dt) s1 r1"
        using rt st paced_times(1,2) [OF p] by (simp add: flow_phase_def)
      then show ?thesis using inv' left_phase(2) [of "t + dt" s1 r1 m] by (simp add: e2 on_track_def)
    qed
  qed
qed

lemma transfer_completes:
  assumes link: "linked cs cr" "linked cr cs" and m: "m \<noteq> []" "length m \<le> unat (max_receive_length cr)"
    and v: "validate_config cs = ok" and p: "paced cs cr dt" and h: "horizon cs cr t dt (2 * length m + 2)"
  shows "\<exists>s r. link_run (2 * length m + 2) t dt (snd (sender_begin (new_sender cs) m t), new_receiver cr) = (s, r)
    \<and> delivered m s r"
proof -
  have h2: "horizon cs cr t dt (Suc (2 * length m + 1))" using h by simp
  note hs = horizon_Suc [OF h2]
  have k: "2 * length m + 2 = Suc (2 * length m + 1)" by simp
  show ?thesis unfolding k link_run.simps
    using run_completes [OF link m(1) p hs(2)] first_round [OF link m v p hs(1)] by blast
qed


subsection \<open>Properties of the transport\<close>

text \<open>C2. Completion: a non-empty message that the receiver is willing to take is delivered, whole and
  unchanged, after at most \<open>2 * n + 2\<close> rounds, for every addressing mode, padding choice, block size,
  STmin and CAN FD setting. The rounds are \<open>dt\<close> apart with \<open>dt\<close> at least STmin, N_Cs and N_Br and
  less than N_Bs, and the clock does not wrap during the transfer.\<close>

theorem isotp_transfer_completes:
  assumes "linked cs cr" and "linked cr cs" and "m \<noteq> []" and "length m \<le> unat (max_receive_length cr)"
    and "validate_config cs = ok" and "paced cs cr dt" and "horizon cs cr t dt (2 * length m + 2)"
  shows "\<exists>s r. link_run (2 * length m + 2) t dt (snd (sender_begin (new_sender cs) m t), new_receiver cr) = (s, r)
    \<and> snd_result s = TransferOk \<and> has_message r \<and> rcv_payload r = m"
  using transfer_completes [OF assms] by (auto simp: delivered_def)

definition demo_tester :: isotp_config where
  "demo_tester = default_config (normal_address (CanId 0x7E0) (CanId 0x7E8))"

definition demo_ecu :: isotp_config where
  "demo_ecu = default_config (normal_address (CanId 0x7E8) (CanId 0x7E0))"

theorem isotp_transfer_completes_witness:
  "\<exists>s r. link_run 42 0 5 (snd (sender_begin (new_sender demo_tester) (replicate 20 7) 0), new_receiver demo_ecu) = (s, r)
    \<and> snd_result s = TransferOk \<and> has_message r \<and> rcv_payload r = replicate 20 7"
  using isotp_transfer_completes [of demo_tester demo_ecu "replicate 20 7" 5 0]
  by (simp add: demo_tester_def demo_ecu_def default_config_def normal_address_def linked_def
      validate_config_def paced_def horizon_def st_min_to_ns_def)

text \<open>C10. Integrity of a message of at least one byte: whatever the schedule, whatever times the two sides are polled
  at, and however the transfer ends for the sender, a receiver that reports a message holds exactly the message sent.
  An empty message is outside it: \<open>Sender::begin\<close> accepts one, and \<open>empty_message_misread\<close> below shows what the
  receiver then makes of the padding.\<close>

theorem isotp_no_corruption:
  assumes "linked cs cr" and "linked cr cs" and "m \<noteq> []" and "length m < 2 ^ 32"
    and "validate_config cs = ok"
    and "foldl link_step (snd (sender_begin (new_sender cs) m t), new_receiver cr) schedule = (s, r)"
    and "has_message r"
  shows "rcv_payload r = m"
proof -
  have "link_guard m cs cr (snd (sender_begin (new_sender cs) m t), new_receiver cr)"
    using link_start_inv [OF assms(5,4)] by (simp add: link_guard_def)
  from link_machine.run_inv [OF this, of schedule] have "link_inv m cs cr (s, r)"
    using assms by (simp add: link_guard_def)
  then show ?thesis using assms(7)
    by (auto simp: link_inv_def has_message_def wf_receiver_def Let_def split: receiver_state.splits)
qed

theorem isotp_no_corruption_witness:
  "rcv_payload (snd (link_step (snd (sender_begin (new_sender demo_tester) [1, 2, 3] 0), new_receiver demo_ecu)
      (SenderTurn 9))) = [1, 2, 3]"
proof -
  let ?sr = "(snd (sender_begin (new_sender demo_tester) [1, 2, 3] 0), new_receiver demo_ecu)"
  have l: "linked demo_tester demo_ecu" "linked demo_ecu demo_tester"
    by (simp_all add: demo_tester_def demo_ecu_def default_config_def normal_address_def linked_def)
  have v: "validate_config demo_tester = ok"
    by (simp add: demo_tester_def default_config_def validate_config_def)
  have "has_message (snd (link_step ?sr (SenderTurn 9)))"
    using deliver_single [of "fst ?sr" "snd ?sr" 9] l
      link_start_inv [OF v, of "[1, 2, 3]" demo_ecu 0] sender_begin_accepts [of "new_sender demo_tester" "[1, 2, 3]" 0] v
    by (simp add: link_inv_def has_message_def receiver_finish_def new_sender_def new_receiver_def sender_done_def
        header_size_def demo_tester_def default_config_def normal_address_def)
  then show ?thesis
    using isotp_no_corruption [OF l _ _ v, of "[1, 2, 3]" 0 "[SenderTurn 9]"]
    by (simp add: prod_eq_iff)
qed

text \<open>C30. No call sequence makes a session abort the program: whatever frames arrive, at whatever
  times, the \<open>value()\<close> calls inside \<open>poll\<close> always have a frame to return.\<close>

theorem isotp_poll_never_aborts:
  "sender_poll (foldl sender_step (new_sender c) es) t \<noteq> None \<and>
   receiver_poll (foldl receiver_step (new_receiver c) fs) t' \<noteq> None"
  using sender_poll_total [OF sender_machine.run_inv [OF wf_new_sender]] receiver_poll_total by fastforce

text \<open>C23. What a receiver may report: after any sequence of frames, polls and resets, from any peer, a
  message it reports is complete, not empty, and within the length this side is willing to receive
  (or the 62 bytes of a CAN FD single frame); no more bytes than announced are ever buffered.\<close>

theorem isotp_receiver_bounded:
  "let r = foldl receiver_step (new_receiver c) es in
     length (rcv_payload r) \<le> rcv_expected r \<and>
     (rcv_state r = Receiving \<longrightarrow> rcv_expected r \<le> unat (max_receive_length (rcv_config r))) \<and>
     (has_message r \<longrightarrow> rcv_state r = RFinished \<and> length (rcv_payload r) = rcv_expected r \<and> rcv_payload r \<noteq> [] \<and>
        length (rcv_payload r) \<le> max (unat (max_receive_length (rcv_config r))) 62)"
  using receiver_machine.run_inv [OF wf_new_receiver, of c es]
  by (auto simp: Let_def wf_receiver_def has_message_def split: receiver_state.splits)

theorem isotp_receiver_bounded_witness:
  "length (rcv_payload (foldl receiver_step (new_receiver demo_ecu) [RPoll 3, RReset])) \<le>
   rcv_expected (foldl receiver_step (new_receiver demo_ecu) [RPoll 3, RReset])"
  using isotp_receiver_bounded [of demo_ecu "[RPoll 3, RReset]"] by (simp add: Let_def)

text \<open>C24. What a sender may report: its offset never passes the payload, the sequence number is the
  number of frames sent modulo 16, success means that every byte has been handed out, and once it
  has finished no call changes what it has sent.\<close>

theorem isotp_sender_sound:
  "let s = foldl sender_step (new_sender c) es in
     snd_offset s \<le> length (snd_payload s) \<and>
     (snd_state s = SendingConsecutive \<longrightarrow>
        (\<exists>k. snd_offset s = sent_after (snd_config s) (length (snd_payload s)) k \<and> snd_sequence s = sequence_after k)) \<and>
     (snd_state s = SFinished \<and> snd_result s = TransferOk \<longrightarrow> snd_offset s = length (snd_payload s)) \<and>
     (snd_state s = SFinished \<longrightarrow> snd_offset (foldl sender_step s later) = snd_offset s \<and>
        snd_payload (foldl sender_step s later) = snd_payload s)"
proof -
  define s where "s = foldl sender_step (new_sender c) es"
  have wf: "wf_sender s" unfolding s_def by (rule sender_machine.run_inv [OF wf_new_sender])
  then have "snd_state s = SFinished \<Longrightarrow> sender_done s" by (simp add: wf_sender_def sender_done_def Let_def)
  with wf show ?thesis using sender_final.run_final [of s later] unfolding s_def [symmetric]
    by (auto simp: Let_def wf_sender_def sender_running_def)
qed

theorem isotp_sender_sound_witness:
  "snd_offset (foldl sender_step (new_sender demo_tester) [SBegin [1, 2] 0, SPoll 0]) \<le>
   length (snd_payload (foldl sender_step (new_sender demo_tester) [SBegin [1, 2] 0, SPoll 0]))"
  using isotp_sender_sound [of demo_tester "[SBegin [1, 2] 0, SPoll 0]" "[]"] unfolding Let_def by blast

text \<open>STmin: every value a Flow Control may carry survives the conversion to nanoseconds and back;
  a duration up to 900 microseconds, or from one millisecond to 127, is never shortened by the
  conversion to the wire; longer ones saturate at 127 ms.\<close>

theorem stmin_conversion:
  "(raw \<le> 0x7F \<or> raw \<ge> 0xF1 \<and> raw \<le> 0xF9 \<longrightarrow> ns_to_st_min (st_min_to_ns raw) = raw) \<and>
   (unat ns \<le> 900000 \<or> 1000000 \<le> unat ns \<and> unat ns \<le> 127000000 \<longrightarrow>
      unat ns \<le> unat (st_min_to_ns (ns_to_st_min ns)) \<and>
      unat (st_min_to_ns (ns_to_st_min ns)) < unat ns + (if unat ns < 1000000 then 100000 else 1000000)) \<and>
   (127000000 \<le> unat ns \<and> unat ns + 999999 < 2 ^ 64 \<longrightarrow> st_min_to_ns (ns_to_st_min ns) = 127000000)"
  by (intro conjI impI) (auto simp: st_min_roundtrip st_min_grid st_min_saturates)

theorem stmin_conversion_witness:
  "ns_to_st_min (st_min_to_ns 0xF3) = 0xF3"
  using stmin_conversion [of "0xF3" 0] by simp

subsection \<open>Where the code and its comments part\<close>

text \<open>A message of no bytes is not transported: it is accepted by \<open>Sender::begin\<close> and goes out as a Single Frame whose length
  nibble is zero, which the receiver takes for the CAN FD escape: with a padding byte of one it
  reports a message of one padding byte.
\<close>

theorem empty_message_misread:
  "let c = demo_tester\<lparr>padding_byte := 1\<rparr>;
       sr = link_step (snd (sender_begin (new_sender c) [] 0), new_receiver demo_ecu) (SenderTurn 0)
   in snd_result (fst sr) = TransferOk \<and> has_message (snd sr) \<and> rcv_payload (snd sr) = [1]"
proof -
  let ?c = "demo_tester\<lparr>padding_byte := 1\<rparr>"
  let ?s = "snd (sender_begin (new_sender ?c) [] 0)" and ?r = "new_receiver demo_ecu"
  have v: "validate_config ?c = ok" and l: "linked ?c demo_ecu"
    by (simp_all add: demo_tester_def demo_ecu_def default_config_def normal_address_def linked_def validate_config_def)
  have s: "snd_state ?s = SendingSingle" "\<not> sender_done ?s" "snd_config ?s = ?c" "snd_payload ?s = []" "wf_sender ?s"
    using sender_begin_accepts [of "new_sender ?c" "[]" 0] v wf_sender_begin [OF wf_new_sender, of ?c "[]" 0]
    by (simp_all add: new_sender_def sender_done_def)
  obtain f where f: "sender_poll ?s 0 = Some (sender_finish (?s\<lparr>snd_offset := 0\<rparr>) TransferOk, [f])"
    "iso_frame ?c (address_header ?c @ [0]) f"
    using sender_poll_single [OF s(5,1,2), of 0] s(3,4) by auto
  have h: "header_size (address ?c) = 0" "padding_of ?c [0] = replicate 7 1"
    by (simp_all add: demo_tester_def default_config_def normal_address_def header_size_def padding_of_def iso_length_def)
  have "receiver_on_frame ?r f 0 = receive_single ?r (0 # replicate 7 1)"
    using receiver_on_iso_frame [OF f(2), of ?r 0] l h by (simp add: new_receiver_def pci_of_nibble_def)
  also have "\<dots> = receiver_finish (?r\<lparr>rcv_payload := [1], rcv_expected := 1\<rparr>) TransferOk"
    by (simp add: receive_single_def new_receiver_def Let_def)
  finally show ?thesis using f(1)
    by (simp add: Let_def link_step_def deliver_to_receiver_def sender_finish_def receiver_finish_def has_message_def)
qed

text \<open>\<open>wait_count_\<close> has the width of \<open>wft_max\<close>: a limit of 255 is never exceeded.\<close>

theorem wait_limit_255_unreachable:
  "wft_max (snd_config s) = 255 \<Longrightarrow> snd_result s \<noteq> WaitOverrun \<Longrightarrow> snd_result (sender_on_frame s f t) \<noteq> WaitOverrun"
proof -
  assume w: "wft_max (snd_config s) = 255" and r: "snd_result s \<noteq> WaitOverrun"
  have "\<not> (255 :: u8) < x" for x using unat_less_exp [of x] by (simp add: word_less_nat_alt)
  then show ?thesis using w r
    by (simp add: sender_on_frame_def sender_finish_def Let_def split: option.splits)
qed

text \<open>\<open>ns_to_st_min\<close> shortens a duration just below one millisecond to 900 microseconds.\<close>

theorem stmin_rounds_down: "st_min_to_ns (ns_to_st_min 999999) = 900000"
  by code_simp

end
