(* ===== verification/Bus_Arbitration.thy ===== *)
theory Bus_Arbitration
  imports Bus
begin

text \<open>
  What one arbitration of \<open>VirtualMedium::start_transmission\<close> decides, and what a transmission does
  to the queues: the winner is the first attached participant among those whose waiting frame has
  the least key, and only its queue changes.
\<close>


subsection \<open>Arbitration\<close>

definition head_key :: "virtual_bus \<Rightarrow> u64" where
  "head_key p = arbitration_key (frame_id (hd (vb_outbox p)))"

text \<open>What the arbitration loop computes: the first of the contenders with the least key.\<close>

definition arbitration_winner :: "(nat \<times> virtual_bus) list \<Rightarrow> (nat \<times> u64) option \<Rightarrow> bool" where
  "arbitration_winner ps best =
     (case best of
        None \<Rightarrow> \<forall>p \<in> set ps. \<not> contends (snd p)
      | Some (w, k) \<Rightarrow> \<exists>pre p post. ps = pre @ (w, p) # post \<and> contends p \<and> k = head_key p \<and>
          (\<forall>q \<in> set pre. contends (snd q) \<longrightarrow> k < head_key (snd q)) \<and>
          (\<forall>q \<in> set post. contends (snd q) \<longrightarrow> k \<le> head_key (snd q)))"

lemma arbitrate_snoc:
  "arbitrate (ps @ [(who, p)]) =
    (case arbitrate ps of (best, n) \<Rightarrow>
     if \<not> contends p then (best, n)
     else ((case best of None \<Rightarrow> Some (who, head_key p)
            | Some (w, k) \<Rightarrow> if head_key p < k then Some (who, head_key p) else best), n + 1))"
  unfolding arbitrate_def head_key_def by (simp add: Let_def split: prod.splits)

lemma arbitrate_spec:
  "arbitration_winner ps (fst (arbitrate ps)) \<and> snd (arbitrate ps) = length [p \<leftarrow> ps. contends (snd p)]"
proof (induction ps rule: rev_induct)
  case Nil
  then show ?case by (simp add: arbitrate_def arbitration_winner_def)
next
  case (snoc x ps)
  obtain who p where x: "x = (who, p)" by (meson surj_pair)
  obtain best n where a: "arbitrate ps = (best, n)" by (meson surj_pair)
  have IH: "arbitration_winner ps best" "n = length [p \<leftarrow> ps. contends (snd p)]" using snoc by (simp_all add: a)
  show ?case
  proof (cases "contends p")
    case False
    then have "arbitration_winner (ps @ [x]) best"
      using IH(1) by (fastforce simp: arbitration_winner_def x split: option.splits)
    then show ?thesis using False IH by (simp add: x arbitrate_snoc a)
  next
    case True
    show ?thesis
    proof (cases best)
      case None
      have "arbitration_winner (ps @ [x]) (Some (who, head_key p))"
        using IH(1) True None unfolding arbitration_winner_def option.case prod.case x
        by (intro exI [of _ ps] exI [of _ p] exI [of _ "[]"]) auto
      then show ?thesis using True None IH by (simp add: x arbitrate_snoc a)
    next
      case (Some b)
      obtain w k where b: "b = (w, k)" by (meson surj_pair)
      obtain pre q post where s: "ps = pre @ (w, q) # post" "contends q" "k = head_key q"
        "\<forall>r \<in> set pre. contends (snd r) \<longrightarrow> k < head_key (snd r)"
        "\<forall>r \<in> set post. contends (snd r) \<longrightarrow> k \<le> head_key (snd r)"
        using IH(1) by (auto simp: arbitration_winner_def Some b)
      show ?thesis
      proof (cases "head_key p < k")
        case less: True
        have "arbitration_winner (ps @ [x]) (Some (who, head_key p))"
          using s True less unfolding arbitration_winner_def option.case prod.case x
          by (intro exI [of _ ps] exI [of _ p] exI [of _ "[]"]) auto
        then show ?thesis using True Some IH less by (simp add: x arbitrate_snoc a b)
      next
        case False
        have "arbitration_winner (ps @ [x]) (Some (w, k))"
          using s True False unfolding arbitration_winner_def option.case prod.case x
          by (intro exI [of _ pre] exI [of _ q] exI [of _ "post @ [(who, p)]"]) auto
        then show ?thesis using True Some IH False by (simp add: x arbitrate_snoc a b)
      qed
    qed
  qed
qed

lemma arbitrate_Some:
  assumes "arbitrate ps = (Some (w, k), n)"
  obtains pre p post where "ps = pre @ (w, p) # post" "contends p" "k = head_key p"
    "\<forall>q \<in> set pre. contends (snd q) \<longrightarrow> k < head_key (snd q)"
    "\<forall>q \<in> set post. contends (snd q) \<longrightarrow> k \<le> head_key (snd q)"
  using arbitrate_spec [of ps] assms by (auto simp: arbitration_winner_def)

lemma arbitrate_None: "arbitrate ps = (None, n) \<Longrightarrow> p \<in> set ps \<Longrightarrow> \<not> contends (snd p)"
  using arbitrate_spec [of ps] by (auto simp: arbitration_winner_def)

subsection \<open>Pending frames\<close>

lemma map_bus_simps [simp]:
  "med_timing (map_bus g m) = med_timing m"
  "med_now_ns (map_bus g m) = med_now_ns m"
  "med_busy_until_ns (map_bus g m) = med_busy_until_ns m"
  "med_in_flight (map_bus g m) = med_in_flight m"
  "med_current (map_bus g m) = med_current m"
  "med_current_sender (map_bus g m) = med_current_sender m"
  "med_loopback (map_bus g m) = med_loopback m"
  "med_rx_limit (map_bus g m) = med_rx_limit m"
  "med_tx_limit (map_bus g m) = med_tx_limit m"
  "med_log (map_bus g m) = med_log m"
  "med_participants (map_bus g m) = map (\<lambda>(i, b). (i, g i b)) (med_participants m)"
  by (simp_all add: map_bus_def)

definition outboxes :: "medium \<Rightarrow> frame list list" where
  "outboxes m = map (\<lambda>p. vb_outbox (snd p)) (med_participants m)"

lemma medium_pending_outboxes: "medium_pending m = sum_list (map length (outboxes m))"
  by (simp add: medium_pending_def outboxes_def comp_def)

lemma outboxes_map_bus:
  "(\<And>i b. vb_outbox (g i b) = vb_outbox b) \<Longrightarrow> outboxes (map_bus g m) = outboxes m"
  by (auto simp: outboxes_def)

lemma vb_outbox_deliver_one [simp]: "vb_outbox (deliver_one m f from i b) = vb_outbox b"
  and vb_open_deliver_one [simp]: "vb_open (deliver_one m f from i b) = vb_open b"
  and vb_filters_deliver_one [simp]: "vb_filters (deliver_one m f from i b) = vb_filters b"
  by (simp_all add: deliver_one_def Let_def)

lemma vb_outbox_count [simp]: "vb_outbox (count_loss b) = vb_outbox b" "vb_outbox (count_sent f t n u b) = vb_outbox b"
  "vb_open (count_loss b) = vb_open b" "vb_open (count_sent f t n u b) = vb_open b"
  "vb_inbox (count_loss b) = vb_inbox b" "vb_inbox (count_sent f t n u b) = vb_inbox b"
  "vb_filters (count_loss b) = vb_filters b" "vb_filters (count_sent f t n u b) = vb_filters b"
  by (simp_all add: count_loss_def count_sent_def Let_def)

lemma outboxes_complete [simp]: "outboxes (complete_transmission m) = outboxes m"
  by (auto simp: complete_transmission_def deliver_def outboxes_def)

lemma medium_pending_complete [simp]: "medium_pending (complete_transmission m) = medium_pending m"
  by (simp add: medium_pending_outboxes)

text \<open>A transmission takes the head of the winner's queue and leaves every other queue alone.\<close>

definition pop_winner :: "nat \<Rightarrow> (nat \<times> virtual_bus) list \<Rightarrow> frame list list" where
  "pop_winner w ps = map (\<lambda>(i, b). if i = w then tl (vb_outbox b) else vb_outbox b) ps"

lemma transmit_simps:
  "outboxes (transmit m who w n) = pop_winner who (med_participants m)"
  "med_in_flight (transmit m who w n)"
  "med_now_ns (transmit m who w n) = med_now_ns m"
  "med_current_sender (transmit m who w n) = Some who"
  "med_current (transmit m who w n) = set_timestamp_ns (hd (vb_outbox w)) (med_busy_until_ns (transmit m who w n))"
  "med_busy_until_ns (transmit m who w n) =
     med_now_ns m + nanoseconds (frame_timing_of (hd (vb_outbox w)) (med_timing m))"
  "med_loopback (transmit m who w n) = med_loopback m"
  "med_rx_limit (transmit m who w n) = med_rx_limit m"
  by (auto simp: transmit_def Let_def update_bus_def pop_winner_def outboxes_def)

lemma start_transmission_True:
  "start_transmission m = (True, m') \<longleftrightarrow>
    \<not> med_in_flight m \<and> (\<exists>w k n p. arbitrate (med_participants m) = (Some (w, k), n) \<and> bus_of m w = Some p
      \<and> m' = transmit m w p n)"
  by (auto simp: start_transmission_def split: option.splits prod.splits)

lemma start_transmission_outboxes:
  assumes "start_transmission m = (True, m')"
  obtains w k n where "arbitrate (med_participants m) = (Some (w, k), n)" "\<not> med_in_flight m"
    "outboxes m' = pop_winner w (med_participants m)" "med_in_flight m'"
    "med_now_ns m' = med_now_ns m" "med_current_sender m' = Some w"
    "med_current m' = set_timestamp_ns (hd (vb_outbox (the (bus_of m w)))) (med_busy_until_ns m')"
    "med_busy_until_ns m' = med_now_ns m +
       nanoseconds (frame_timing_of (hd (vb_outbox (the (bus_of m w)))) (med_timing m))"
proof -
  obtain w k n p where a: "arbitrate (med_participants m) = (Some (w, k), n)" "bus_of m w = Some p" "\<not> med_in_flight m"
    and m': "m' = transmit m w p n" using assms unfolding start_transmission_True by blast
  show thesis using that [OF a(1,3)] transmit_simps [of m w p n] a(2) unfolding m' by (simp only: option.sel simp_thms)
qed

end
