(* ===== verification/Bus_Run.thy ===== *)
theory Bus_Run
  imports Bus_Arbitration
begin

text \<open>
  The loops that run the medium, \<open>VirtualMedium::advance\<close> and \<open>drain\<close>, and \<open>VirtualBus::receive\<close>,
  which advances the clock; their termination, and the abstract bus \<open>bus_run\<close> they refine.
\<close>


lemma start_transmission_False: "start_transmission m = (False, m') \<Longrightarrow> m' = m"
  by (auto simp: start_transmission_def Let_def split: if_splits option.splits prod.splits)

lemma sum_list_tl:
  assumes "ps = pre @ (w, p) # post" "vb_outbox p \<noteq> []"
  shows "sum_list (map length (pop_winner w ps)) < sum_list (map (\<lambda>p. length (vb_outbox (snd p))) ps)"
proof -
  have le: "sum_list (map length (pop_winner w qs)) \<le> sum_list (map (\<lambda>p. length (vb_outbox (snd p))) qs)" for qs
    by (induction qs) (auto simp: pop_winner_def intro: add_mono)
  have "pop_winner w ps = pop_winner w pre @ tl (vb_outbox p) # pop_winner w post"
    using assms(1) by (simp add: pop_winner_def)
  moreover have "length (tl (vb_outbox p)) < length (vb_outbox p)" using assms(2) by (cases "vb_outbox p") simp_all
  ultimately show ?thesis using le [of pre] le [of post] assms(1) by simp
qed

lemma start_transmission_pending:
  assumes "start_transmission m = (True, m')"
  shows "medium_pending m' < medium_pending m"
proof -
  obtain w k n where a: "arbitrate (med_participants m) = (Some (w, k), n)"
    and o: "outboxes m' = pop_winner w (med_participants m)" using start_transmission_outboxes [OF assms] by metis
  obtain pre p post where "med_participants m = pre @ (w, p) # post" "contends p" using arbitrate_Some [OF a] by metis
  from sum_list_tl [OF this(1)] this(2) show ?thesis
    unfolding medium_pending_outboxes [of m'] o by (simp add: contends_def medium_pending_def)
qed

subsection \<open>Running the medium\<close>

text \<open>One pass of the loop of \<open>advance\<close> up to its test: deliver what is due, start what can start.\<close>

definition settle :: "medium \<Rightarrow> medium" where
  "settle m =
     (let m = (if med_in_flight m \<and> med_busy_until_ns m \<le> med_now_ns m then complete_transmission m else m)
      in if \<not> med_in_flight m then snd (start_transmission m) else m)"

definition advance_work :: "medium \<Rightarrow> nat" where
  "advance_work m = 2 * medium_pending m + (if med_in_flight m \<and> \<not> med_busy_until_ns m \<le> med_now_ns m then 1 else 0)"

lemma medium_pending_now [simp]: "medium_pending (m\<lparr>med_now_ns := t\<rparr>) = medium_pending m"
  by (simp add: medium_pending_def)

lemma in_flight_complete [simp]: "\<not> med_in_flight (complete_transmission m)"
  by (simp add: complete_transmission_def deliver_def)

lemma settle_work:
  assumes "med_in_flight (settle m)"
  shows "2 * medium_pending (settle m) < advance_work m"
proof (cases "med_in_flight m \<and> \<not> med_busy_until_ns m \<le> med_now_ns m")
  case True
  then show ?thesis by (simp add: settle_def advance_work_def)
next
  case False
  define m1 where "m1 = (if med_in_flight m \<and> med_busy_until_ns m \<le> med_now_ns m then complete_transmission m else m)"
  have m1: "\<not> med_in_flight m1" "medium_pending m1 = medium_pending m" using False by (auto simp: m1_def)
  obtain b m2 where s: "start_transmission m1 = (b, m2)" by (meson surj_pair)
  have e: "settle m = m2" using m1 s by (simp add: settle_def m1_def [symmetric] Let_def)
  show ?thesis
  proof (cases b)
    case True
    then show ?thesis using start_transmission_pending [of m1 m2] s m1 e by (simp add: advance_work_def)
  next
    case False
    then have "m2 = m1" using start_transmission_False s by simp
    then show ?thesis using assms m1 e by simp
  qed
qed

function advance_until :: "medium \<Rightarrow> u64 \<Rightarrow> medium" where
  "advance_until m target =
     (let m = settle m in
      if med_in_flight m \<and> med_busy_until_ns m \<le> target
      then advance_until (m\<lparr>med_now_ns := med_busy_until_ns m\<rparr>) target
      else let m = m\<lparr>med_now_ns := target\<rparr> in
        if med_in_flight m \<and> med_busy_until_ns m \<le> med_now_ns m then complete_transmission m else m)"
  by pat_completeness auto
termination
proof (relation "measure (\<lambda>(m, _). advance_work m)")
  fix m :: medium and target :: u64 and x
  assume x: "x = settle m" and c: "med_in_flight x \<and> med_busy_until_ns x \<le> target"
  have "advance_work (x\<lparr>med_now_ns := med_busy_until_ns x\<rparr>) = 2 * medium_pending x"
    by (simp add: advance_work_def)
  then show "((x\<lparr>med_now_ns := med_busy_until_ns x\<rparr>, target), m, target) \<in> measure (\<lambda>(m, _). advance_work m)"
    using settle_work [of m] c x by simp
qed simp

declare advance_until.simps [simp del]

definition advance :: "medium \<Rightarrow> int \<Rightarrow> medium" where
  "advance m by_ns = advance_until m (med_now_ns m + (if by_ns < 0 then 0 else word_of_int by_ns))"

primrec drain_loop :: "nat \<Rightarrow> medium \<Rightarrow> medium" where
  "drain_loop 0 m = m"
| "drain_loop (Suc k) m =
     (let m = (if med_in_flight m then complete_transmission (m\<lparr>med_now_ns := med_busy_until_ns m\<rparr>) else m)
      in case start_transmission m of (started, m') \<Rightarrow> if started then drain_loop k m' else m')"

definition drain :: "medium \<Rightarrow> nat \<Rightarrow> u64 \<times> medium" where
  "drain m max_frames =
     (let start = med_now_ns m;
          m = drain_loop max_frames m;
          m = (if med_in_flight m then complete_transmission (m\<lparr>med_now_ns := med_busy_until_ns m\<rparr>) else m)
      in (med_now_ns m - start, m))"

definition vb_receive :: "medium \<Rightarrow> nat \<Rightarrow> int \<Rightarrow> frame result \<times> medium" where
  "vb_receive m who timeout =
     (case bus_of m who of
        None \<Rightarrow> (Inl (plain_error TransportNotOpen ''the virtual bus participant is not open''), m)
      | Some p \<Rightarrow>
        if \<not> vb_open p
        then (Inl (plain_error TransportNotOpen ''the virtual bus participant is not open''), m)
        else let m = (if vb_inbox p = [] \<and> timeout > 0 then advance m timeout else m) in
          (case bus_of m who of
             None \<Rightarrow> (Inl (plain_error TransportTimeout ''no frame arrived before the timeout expired''), m)
           | Some p \<Rightarrow>
             (case vb_inbox p of
                [] \<Rightarrow> (Inl (plain_error TransportTimeout ''no frame arrived before the timeout expired''), m)
              | f # rest \<Rightarrow> (Inr f, update_bus m who (\<lambda>p. p\<lparr>vb_inbox := rest\<rparr>)))))"

subsection \<open>The bus as a specification sees it\<close>

text \<open>
  Queues of frames that contend for one medium: a step transmits the head of the first queue among
  those whose head has the least arbitration key.
\<close>

definition key_of :: "frame \<Rightarrow> u64" where
  "key_of f = arbitration_key (frame_id f)"

inductive bus_run :: "frame list list \<Rightarrow> frame list \<Rightarrow> frame list list \<Rightarrow> bool" where
  bus_idle: "bus_run qs [] qs"
| bus_send: "qs = pre @ (f # q) # post \<Longrightarrow>
    \<forall>r \<in> set pre. r \<noteq> [] \<longrightarrow> key_of f < key_of (hd r) \<Longrightarrow>
    \<forall>r \<in> set post. r \<noteq> [] \<longrightarrow> key_of f \<le> key_of (hd r) \<Longrightarrow>
    bus_run (pre @ q # post) fs qs' \<Longrightarrow> bus_run qs (f # fs) qs'"

inductive_cases bus_run_NilE: "bus_run qs [] qs'"
inductive_cases bus_run_ConsE: "bus_run qs (f # fs) qs'"

lemma bus_run_trans: "bus_run qs fs qs' \<Longrightarrow> bus_run qs' gs qs'' \<Longrightarrow> bus_run qs (fs @ gs) qs''"
  by (induction rule: bus_run.induct) (auto intro: bus_run.intros)

lemma bus_run_length: "bus_run qs fs qs' \<Longrightarrow> length qs' = length qs"
  by (induction rule: bus_run.induct) auto

text \<open>The frames of one queue keep their order, and nothing is lost or invented.\<close>

lemma bus_run_mset:
  "bus_run qs fs qs' \<Longrightarrow> length fs + sum_list (map length qs') = sum_list (map length qs)"
  by (induction rule: bus_run.induct) auto

definition wf_medium :: "medium \<Rightarrow> bool" where
  "wf_medium m \<longleftrightarrow> distinct (map fst (med_participants m)) \<and>
     (\<forall>p \<in> set (med_participants m). vb_open (snd p) \<or> vb_outbox (snd p) = [])"

lemma start_transmission_run:
  assumes wf: "wf_medium m" and s: "start_transmission m = (True, m')"
  shows "\<exists>f. bus_run (outboxes m) [f] (outboxes m') \<and> med_current m' = set_timestamp_ns f (med_busy_until_ns m')
    \<and> med_busy_until_ns m' = med_now_ns m + nanoseconds (frame_timing_of f (med_timing m))
    \<and> med_in_flight m' \<and> med_now_ns m' = med_now_ns m"
proof -
  obtain w k n where a: "arbitrate (med_participants m) = (Some (w, k), n)" and o: "outboxes m' = pop_winner w (med_participants m)"
    and c: "med_in_flight m'" "med_now_ns m' = med_now_ns m"
    "med_current m' = set_timestamp_ns (hd (vb_outbox (the (bus_of m w)))) (med_busy_until_ns m')"
    "med_busy_until_ns m' = med_now_ns m + nanoseconds (frame_timing_of (hd (vb_outbox (the (bus_of m w)))) (med_timing m))"
    using start_transmission_outboxes [OF s] by metis
  obtain pre p post where ps: "med_participants m = pre @ (w, p) # post" and p: "contends p" "k = head_key p"
    "\<forall>q \<in> set pre. contends (snd q) \<longrightarrow> k < head_key (snd q)"
    "\<forall>q \<in> set post. contends (snd q) \<longrightarrow> k \<le> head_key (snd q)" using arbitrate_Some [OF a] by metis
  have d: "w \<notin> fst ` set pre" "w \<notin> fst ` set post" using wf ps by (auto simp: wf_medium_def)
  have b: "bus_of m w = Some p" using d ps by (auto simp: bus_of_def map_add_def dom_map_of_conv_image_fst map_of_eq_None_iff [symmetric] simp flip: not_None_eq)
  obtain f q where q: "vb_outbox p = f # q" using p(1) by (cases "vb_outbox p") (auto simp: contends_def)
  have same: "map (\<lambda>(i, b). if i = w then tl (vb_outbox b) else vb_outbox b) xs = map (\<lambda>p. vb_outbox (snd p)) xs"
    if "w \<notin> fst ` set xs" for xs using that by (induction xs) auto
  have qs: "outboxes m = map (\<lambda>p. vb_outbox (snd p)) pre @ (f # q) # map (\<lambda>p. vb_outbox (snd p)) post"
    "outboxes m' = map (\<lambda>p. vb_outbox (snd p)) pre @ q # map (\<lambda>p. vb_outbox (snd p)) post"
    using ps q o same [OF d(1)] same [OF d(2)] by (simp_all add: outboxes_def pop_winner_def del: map_eq_conv)
  have contends: "contends (snd x)" if "x \<in> set (med_participants m)" "vb_outbox (snd x) \<noteq> []" for x
    using wf that by (auto simp: wf_medium_def contends_def)
  have "bus_run (outboxes m) [f] (outboxes m')"
  proof (rule bus_send [OF qs(1)])
    show "\<forall>r \<in> set (map (\<lambda>p. vb_outbox (snd p)) pre). r \<noteq> [] \<longrightarrow> key_of f < key_of (hd r)"
      "\<forall>r \<in> set (map (\<lambda>p. vb_outbox (snd p)) post). r \<noteq> [] \<longrightarrow> key_of f \<le> key_of (hd r)"
      using p(2,3,4) contends ps q by (auto simp: head_key_def key_of_def)
    show "bus_run (map (\<lambda>p. vb_outbox (snd p)) pre @ q # map (\<lambda>p. vb_outbox (snd p)) post) [] (outboxes m')"
      unfolding qs(2) by (rule bus_idle)
  qed
  then show ?thesis using c b q by auto
qed

lemma start_transmission_idle:
  assumes wf: "wf_medium m" and s: "start_transmission m = (False, m')" and nf: "\<not> med_in_flight m"
  shows "medium_pending m = 0"
proof -
  obtain best n where a: "arbitrate (med_participants m) = (best, n)" by (meson surj_pair)
  have "best = None"
  proof (rule ccontr)
    assume "best \<noteq> None"
    then obtain w k where b: "best = Some (w, k)" by auto
    obtain pre p post where "med_participants m = pre @ (w, p) # post" using arbitrate_Some a b by metis
    then have "bus_of m w \<noteq> None" by (auto simp: bus_of_def map_of_eq_None_iff)
    then show False using s nf a b by (auto simp: start_transmission_def Let_def)
  qed
  then have "\<forall>p \<in> set (med_participants m). vb_outbox (snd p) = []"
    using wf arbitrate_None a by (fastforce simp: wf_medium_def contends_def)
  then show ?thesis by (simp add: medium_pending_def sum_list_eq_0_iff)
qed

end
