(* ===== verification/Bus_Refine.thy ===== *)
theory Bus_Refine
  imports Bus_Run
begin

text \<open>
  The virtual bus against its specification: what a listener receives is what a run of the abstract
  bus transmits, \<open>advance\<close> is work-conserving and \<open>drain\<close> empties the bus, the worst-case wire time
  is the published figure, and no frame is delivered before the end of its transmission.
\<close>


subsection \<open>A listener on the bus\<close>

lemma map_of_map_key: "map_of (map (\<lambda>(i, b). (i, g i b)) ps) w = map_option (g w) (map_of ps w)"
  by (induction ps) auto

lemma bus_of_map_bus [simp]: "bus_of (map_bus g m) w = map_option (g w) (bus_of m w)"
  by (simp add: bus_of_def map_of_map_key)

lemma bus_of_update_bus [simp]:
  "bus_of (update_bus m i g) w = (if w = i then map_option g (bus_of m w) else bus_of m w)"
  by (simp add: update_bus_def option.map_ident)

lemma bus_of_simps [simp]:
  "bus_of (m\<lparr>med_now_ns := t\<rparr>) = bus_of m" "bus_of (m\<lparr>med_in_flight := b\<rparr>) = bus_of m"
  "bus_of (m\<lparr>med_current_sender := s\<rparr>) = bus_of m" "bus_of (m\<lparr>med_log := l\<rparr>) = bus_of m"
  "bus_of (m\<lparr>med_busy_until_ns := u\<rparr>) = bus_of m" "bus_of (m\<lparr>med_current := f\<rparr>) = bus_of m"
  by (rule ext, simp add: bus_of_def)+

definition unstamp :: "frame \<Rightarrow> frame" where
  "unstamp f = set_timestamp_ns f 0"

lemma unstamp_simps [simp]:
  "unstamp (set_timestamp_ns f t) = unstamp f" "frame_id (unstamp f) = frame_id f"
  "frame_id (set_timestamp_ns f t) = frame_id f"
  by (simp_all add: unstamp_def set_timestamp_ns_def)

definition inbox :: "medium \<Rightarrow> nat \<Rightarrow> frame list" where
  "inbox m who = (case bus_of m who of None \<Rightarrow> [] | Some b \<Rightarrow> vb_inbox b)"

definition on_wire :: "medium \<Rightarrow> frame list" where
  "on_wire m = (if med_in_flight m then [med_current m] else [])"

text \<open>What a listener with filters \<open>flt\<close> has received, together with what it will from the wire.\<close>

definition seen :: "medium \<Rightarrow> nat \<Rightarrow> filter_rule list \<Rightarrow> frame list" where
  "seen m who flt = map unstamp (inbox m who) @ [f \<leftarrow> map unstamp (on_wire m). accepted_by flt (frame_id f)]"

text \<open>An open participant whose receive queue has room for all the traffic there is.\<close>

definition hears :: "medium \<Rightarrow> nat \<Rightarrow> filter_rule list \<Rightarrow> bool" where
  "hears m who flt \<longleftrightarrow> wf_medium m \<and> med_loopback m \<and>
     (\<exists>b. bus_of m who = Some b \<and> vb_open b \<and> vb_filters b = flt) \<and>
     length (inbox m who) + length (on_wire m) + medium_pending m \<le> med_rx_limit m"

lemma wf_medium_complete [simp]: "wf_medium (complete_transmission m) = wf_medium m"
  by (auto simp: wf_medium_def complete_transmission_def deliver_def case_prod_beta comp_def)

lemma wf_medium_now [simp]: "wf_medium (m\<lparr>med_now_ns := t\<rparr>) = wf_medium m"
  by (simp add: wf_medium_def)

lemma wf_medium_map_bus:
  assumes "wf_medium m" "\<And>i b. vb_open (g i b) = vb_open b" "\<And>i b. vb_outbox b = [] \<Longrightarrow> vb_outbox (g i b) = []"
  shows "wf_medium (map_bus g m)"
  using assms by (fastforce simp: wf_medium_def case_prod_beta comp_def)

lemma wf_medium_fields [simp]:
  "wf_medium (m\<lparr>med_busy_until_ns := a, med_current := f, med_current_sender := s, med_in_flight := i\<rparr>) = wf_medium m"
  "wf_medium (m\<lparr>med_log := l\<rparr>) = wf_medium m"
  by (simp_all add: wf_medium_def)

lemma wf_medium_transmit:
  assumes "wf_medium m"
  shows "wf_medium (transmit m who w n)"
  unfolding transmit_def Let_def update_bus_def
  by (cases "n > 1") (simp_all add: wf_medium_map_bus assms)

lemma wf_medium_start:
  assumes "wf_medium m" "start_transmission m = (b, m')"
  shows "wf_medium m'"
proof (cases b)
  case True
  then show ?thesis using assms wf_medium_transmit start_transmission_True [of m m'] by auto
next
  case False
  then show ?thesis using assms start_transmission_False [of m m'] by simp
qed

lemma transmit_bus_of:
  assumes "bus_of m who = Some b"
  shows "\<exists>b'. bus_of (transmit m i w n) who = Some b' \<and> vb_inbox b' = vb_inbox b \<and> vb_open b' = vb_open b
    \<and> vb_filters b' = vb_filters b"
  using assms unfolding transmit_def Let_def by (cases "n > 1"; cases "who = i") auto

lemma transmit_bus_of_None: "bus_of m who = None \<Longrightarrow> bus_of (transmit m i w n) who = None"
  unfolding transmit_def Let_def by (cases "n > 1"; cases "who = i") auto

lemma start_transmission_listener:
  assumes "start_transmission m = (True, m')"
  shows "inbox m' who = inbox m who \<and> med_loopback m' = med_loopback m \<and> med_rx_limit m' = med_rx_limit m
    \<and> ((\<exists>b. bus_of m who = Some b \<and> vb_open b \<and> vb_filters b = flt) \<longrightarrow>
       (\<exists>b. bus_of m' who = Some b \<and> vb_open b \<and> vb_filters b = flt))"
proof -
  obtain i p n where m': "m' = transmit m i p n" using assms start_transmission_True [of m m'] by auto
  show ?thesis
  proof (cases "bus_of m who")
    case None
    then show ?thesis by (simp add: m' inbox_def transmit_bus_of_None transmit_simps)
  next
    case (Some b)
    from transmit_bus_of [OF this, of i p n] Some show ?thesis
      by (auto simp: m' inbox_def transmit_simps)
  qed
qed

lemma complete_listener:
  assumes h: "hears m who flt"
  shows "hears (complete_transmission m) who flt \<and> seen (complete_transmission m) who flt = seen m who flt"
proof (cases "med_in_flight m")
  case True
  obtain b where b: "bus_of m who = Some b" "vb_open b" "vb_filters b = flt" using h by (auto simp: hears_def)
  have room: "length (vb_inbox b) < med_rx_limit m" using h b True by (simp add: hears_def inbox_def on_wire_def)
  have c: "bus_of (complete_transmission m) who =
      Some (deliver_one (m\<lparr>med_in_flight := False\<rparr>) (med_current m) (med_current_sender m) who b)"
    using True b by (simp add: complete_transmission_def deliver_def)
  have i: "vb_inbox (deliver_one (m\<lparr>med_in_flight := False\<rparr>) (med_current m) (med_current_sender m) who b) =
      vb_inbox b @ [f \<leftarrow> [med_current m]. accepted_by flt (frame_id f)]"
    using h b room by (simp add: deliver_one_def Let_def hears_def)
  have "med_loopback (complete_transmission m) = med_loopback m" "med_rx_limit (complete_transmission m) = med_rx_limit m"
    by (simp_all add: complete_transmission_def deliver_def)
  then show ?thesis using h b c i True
    by (auto simp: hears_def seen_def inbox_def on_wire_def)
next
  case False
  then show ?thesis using h by (simp add: complete_transmission_def)
qed

lemma start_hears:
  assumes h: "hears m who flt" and s: "start_transmission m = (True, m')"
  shows "\<exists>f. hears m' who flt \<and> bus_run (outboxes m) [f] (outboxes m')
    \<and> seen m' who flt = seen m who flt @ [g \<leftarrow> [unstamp f]. accepted_by flt (frame_id g)]"
proof -
  have wf: "wf_medium m" and nf: "\<not> med_in_flight m" using h s by (auto simp: hears_def start_transmission_def)
  obtain f where f: "bus_run (outboxes m) [f] (outboxes m')"
    "med_current m' = set_timestamp_ns f (med_busy_until_ns m')" "med_in_flight m'"
    using start_transmission_run [OF wf s] by blast
  note l = start_transmission_listener [OF s, of who flt]
  have "hears m' who flt"
    using h l wf_medium_start [OF wf s] start_transmission_pending [OF s] f(3) nf
    by (auto simp: hears_def on_wire_def)
  then show ?thesis using f l nf by (auto simp: seen_def on_wire_def)
qed

lemma hears_now [simp]: "hears (m\<lparr>med_now_ns := t\<rparr>) who flt = hears m who flt"
  by (simp add: hears_def inbox_def on_wire_def)

lemma seen_now [simp]: "seen (m\<lparr>med_now_ns := t\<rparr>) who flt = seen m who flt"
  by (simp add: seen_def inbox_def on_wire_def)

lemma outboxes_now [simp]: "outboxes (m\<lparr>med_now_ns := t\<rparr>) = outboxes m"
  by (simp add: outboxes_def)

text \<open>The refinement: running the medium is a run of the specification, and the listener sees it.\<close>

definition refines_run :: "nat \<Rightarrow> filter_rule list \<Rightarrow> medium \<Rightarrow> medium \<Rightarrow> bool" where
  "refines_run who flt m m' \<longleftrightarrow>
     (\<exists>fs. bus_run (outboxes m) fs (outboxes m') \<and> hears m' who flt \<and>
        seen m' who flt = seen m who flt @ [f \<leftarrow> map unstamp fs. accepted_by flt (frame_id f)])"

lemma refines_refl: "hears m who flt \<Longrightarrow> refines_run who flt m m"
  by (auto simp: refines_run_def intro: bus_idle exI [of _ "[]"])

lemma refines_trans: "refines_run who flt m m' \<Longrightarrow> refines_run who flt m' m'' \<Longrightarrow> refines_run who flt m m''"
  unfolding refines_run_def
  by (elim exE conjE, rule_tac x = "fs @ fsa" in exI) (auto intro: bus_run_trans)

lemma refines_complete: "hears m who flt \<Longrightarrow> refines_run who flt m (complete_transmission (m\<lparr>med_now_ns := t\<rparr>))"
  using complete_listener [of "m\<lparr>med_now_ns := t\<rparr>" who flt]
  by (auto simp: refines_run_def intro!: exI [of _ "[]"] bus_idle)

lemma refines_start:
  assumes "hears m who flt" "start_transmission m = (b, m')"
  shows "refines_run who flt m m'"
proof (cases b)
  case True
  then show ?thesis using start_hears [of m who flt m'] assms by (fastforce simp: refines_run_def)
next
  case False
  then show ?thesis using start_transmission_False [of m m'] assms refines_refl by simp
qed

lemma refines_hears: "refines_run who flt m m' \<Longrightarrow> hears m' who flt"
  by (auto simp: refines_run_def)

lemma drain_loop_refines: "hears m who flt \<Longrightarrow> refines_run who flt m (drain_loop k m)"
proof (induction k arbitrary: m)
  case 0
  then show ?case by (simp add: refines_refl)
next
  case (Suc k)
  define m1 where "m1 = (if med_in_flight m then complete_transmission (m\<lparr>med_now_ns := med_busy_until_ns m\<rparr>) else m)"
  have r1: "refines_run who flt m m1" using Suc.prems by (simp add: m1_def refines_complete refines_refl)
  obtain b m2 where s: "start_transmission m1 = (b, m2)" by (meson surj_pair)
  have r2: "refines_run who flt m1 m2" by (rule refines_start [OF refines_hears [OF r1] s])
  show ?case using refines_trans [OF r1 r2] Suc.IH [OF refines_hears [OF r2]] refines_trans
    by (cases b) (auto simp: m1_def [symmetric] s Let_def)
qed


lemma refines_settle: "hears m who flt \<Longrightarrow> refines_run who flt m (settle m)"
proof -
  assume h: "hears m who flt"
  define m1 where "m1 = (if med_in_flight m \<and> med_busy_until_ns m \<le> med_now_ns m then complete_transmission m else m)"
  have "refines_run who flt m (complete_transmission m)"
    using refines_complete [OF h, of "med_now_ns m"] by simp
  then have r1: "refines_run who flt m m1" using h by (simp add: m1_def refines_refl)
  obtain b m2 where s: "start_transmission m1 = (b, m2)" by (meson surj_pair)
  have "refines_run who flt m1 m2" by (rule refines_start [OF refines_hears [OF r1] s])
  then show ?thesis using refines_trans [OF r1] r1 s by (simp add: settle_def m1_def [symmetric] Let_def)
qed

lemma refines_now: "refines_run who flt m m' \<Longrightarrow> refines_run who flt m (m'\<lparr>med_now_ns := t\<rparr>)"
  by (simp add: refines_run_def)

lemma advance_until_refines: "hears m who flt \<Longrightarrow> refines_run who flt m (advance_until m target)"
proof (induction m target rule: advance_until.induct)
  case (1 m target)
  have r: "refines_run who flt m (settle m)" by (rule refines_settle [OF "1.prems"])
  show ?case
  proof (cases "med_in_flight (settle m) \<and> med_busy_until_ns (settle m) \<le> target")
    case True
    have "hears ((settle m)\<lparr>med_now_ns := med_busy_until_ns (settle m)\<rparr>) who flt" using refines_hears [OF r] by simp
    from "1.IH" [OF refl True this] refines_trans [OF refines_now [OF r]] True show ?thesis
      by (subst advance_until.simps) (simp add: Let_def)
  next
    case False
    then show ?thesis using refines_now [OF r] by (subst advance_until.simps) (auto simp: Let_def)
  qed
qed

lemma complete_now: "med_now_ns (complete_transmission m) = med_now_ns m"
  "med_busy_until_ns (complete_transmission m) = med_busy_until_ns m"
  by (simp_all add: complete_transmission_def deliver_def)

text \<open>Work conservation: \<open>advance\<close> never leaves the medium idle with a frame waiting.\<close>

lemma wf_medium_settle: "wf_medium m \<Longrightarrow> wf_medium (settle m)"
proof -
  assume wf: "wf_medium m"
  define m1 where "m1 = (if med_in_flight m \<and> med_busy_until_ns m \<le> med_now_ns m then complete_transmission m else m)"
  have "wf_medium m1" using wf by (simp add: m1_def)
  then have "wf_medium (snd (start_transmission m1))" using wf_medium_start [of m1] by (metis prod.collapse)
  then show ?thesis using \<open>wf_medium m1\<close> by (simp add: settle_def m1_def [symmetric] Let_def)
qed

lemma settle_busy:
  assumes "wf_medium m"
  shows "med_in_flight (settle m) \<or> medium_pending (settle m) = 0"
proof -
  define m1 where "m1 = (if med_in_flight m \<and> med_busy_until_ns m \<le> med_now_ns m then complete_transmission m else m)"
  have wf: "wf_medium m1" using assms by (simp add: m1_def)
  have e: "settle m = (if \<not> med_in_flight m1 then snd (start_transmission m1) else m1)"
    by (simp add: settle_def m1_def Let_def)
  obtain b m2 where s: "start_transmission m1 = (b, m2)" by (meson surj_pair)
  show ?thesis
  proof (cases "med_in_flight m1")
    case False
    show ?thesis
    proof (cases b)
      case True
      then show ?thesis using start_transmission_run [OF wf, of m2] s e False by auto
    next
      case nb: False
      then have "m2 = m1" "medium_pending m1 = 0"
        using start_transmission_False [of m1 m2] start_transmission_idle [OF wf, of m2] s False by simp_all
      then show ?thesis using e s False by simp
    qed
  qed (simp add: e)
qed

lemma advance_until_result:
  assumes "wf_medium m"
  shows "wf_medium (advance_until m target) \<and> med_now_ns (advance_until m target) = target
    \<and> (if med_in_flight (advance_until m target) then target < med_busy_until_ns (advance_until m target)
       else medium_pending (advance_until m target) = 0)"
  using assms
proof (induction m target rule: advance_until.induct)
  case (1 m target)
  note wf = wf_medium_settle [OF "1.prems"]
  show ?case
  proof (cases "med_in_flight (settle m) \<and> med_busy_until_ns (settle m) \<le> target")
    case True
    have "wf_medium ((settle m)\<lparr>med_now_ns := med_busy_until_ns (settle m)\<rparr>)" using wf by simp
    from "1.IH" [OF refl True this] True show ?thesis
      by (subst (1 2 3 4 5) advance_until.simps) (simp add: Let_def)
  next
    case False
    then have "advance_until m target = (settle m)\<lparr>med_now_ns := target\<rparr>"
      by (subst advance_until.simps) (auto simp: Let_def)
    then show ?thesis using wf False settle_busy [OF "1.prems"] by (auto simp: not_le)
  qed
qed

lemma start_transmission_pending_Suc:
  assumes "wf_medium m" "start_transmission m = (True, m')"
  shows "medium_pending m = Suc (medium_pending m')"
  using start_transmission_run [OF assms] bus_run_mset by (fastforce simp: medium_pending_outboxes)

lemma drain_loop_result:
  assumes "wf_medium m" "medium_pending m \<le> k"
  shows "wf_medium (drain_loop k m) \<and> medium_pending (drain_loop k m) = 0"
  using assms
proof (induction k arbitrary: m)
  case (Suc k)
  define m1 where "m1 = (if med_in_flight m then complete_transmission (m\<lparr>med_now_ns := med_busy_until_ns m\<rparr>) else m)"
  have m1: "wf_medium m1" "medium_pending m1 \<le> Suc k" "\<not> med_in_flight m1" using Suc.prems by (simp_all add: m1_def)
  obtain b m2 where s: "start_transmission m1 = (b, m2)" by (meson surj_pair)
  show ?case
  proof (cases b)
    case True
    have "wf_medium m2" "medium_pending m2 \<le> k"
      using wf_medium_start [OF m1(1) s] start_transmission_pending_Suc [OF m1(1)] s True m1(2) by simp_all
    from Suc.IH [OF this] show ?thesis using True by (simp add: m1_def [symmetric] s Let_def)
  next
    case False
    then show ?thesis
      using start_transmission_idle [OF m1(1)] start_transmission_False [of m1 m2] s m1
      by (simp add: m1_def [symmetric] Let_def)
  qed
qed simp

text \<open>\<open>drain\<close> with a limit that is not reached empties the bus.\<close>

lemma drain_result:
  assumes "wf_medium m" "medium_pending m \<le> k"
  shows "\<not> med_in_flight (snd (drain m k)) \<and> medium_pending (snd (drain m k)) = 0 \<and> wf_medium (snd (drain m k))"
  using drain_loop_result [OF assms] by (simp add: drain_def Let_def)

lemma drain_refines: "hears m who flt \<Longrightarrow> refines_run who flt m (snd (drain m k))"
  using drain_loop_refines [of m who flt k] refines_hears [OF drain_loop_refines, of m who flt k]
    refines_complete refines_trans by (auto simp: drain_def Let_def)

lemma outboxes_empty: "medium_pending m = 0 \<longleftrightarrow> (\<forall>q \<in> set (outboxes m). q = [])"
  by (auto simp: medium_pending_outboxes sum_list_eq_0_iff)


subsection \<open>Wire time\<close>

lemma worst_case_stuff_nat: "unat (worst_case_stuff_bits b) = (unat b - 1) div 4"
proof (cases "b = 0")
  case False
  then have "1 \<le> unat b" using unat_gt_0 [of b] by linarith
  then have "unat (b - 1) = unat b - 1" by (subst unat_sub) (simp_all add: word_le_nat_alt)
  then show ?thesis using False by (simp add: worst_case_stuff_bits_def unat_div)
qed (simp add: worst_case_stuff_bits_def)

lemma unat_add_small: "unat a + unat b < 2 ^ LENGTH('a) \<Longrightarrow> unat (a + b :: 'a::len word) = unat a + unat b"
  by (simp add: unat_add_wrap)

lemma classic_size: "\<not> is_fd f \<Longrightarrow> frame_size f \<le> 8"
  by (auto simp: frame_size_def dlc_to_length_def not_less word_le_nat_alt)

lemma classic_bits:
  assumes "\<not> is_fd f"
  shows "unat (arbitration_bits (frame_timing_of f t)) =
    (if is_extended (frame_id f) then 67 else 47) + 8 * frame_size f +
    ((if is_extended (frame_id f) then 54 else 34) + 8 * frame_size f - 1) div 4"
proof -
  define S :: u32 where "S = (if is_extended (frame_id f) then 54 else 34)"
  define s where "s = unat S"
  have s: "s = (if is_extended (frame_id f) then 54 else 34)" by (simp add: s_def S_def)
  have n: "frame_size f \<le> 8" by (rule classic_size [OF assms])
  define P :: u32 where "P = of_nat ((if is_remote f then 0 else frame_size f) * 8)"
  have "(if is_remote f then 0 else frame_size f) = frame_size f" by (simp add: frame_size_def)
  moreover have "unat (of_nat (frame_size f * 8) :: u32) = frame_size f * 8" using n by (subst unat_of_nat) simp
  ultimately have P: "unat P = 8 * frame_size f" unfolding P_def by simp
  have st: "unat (S + P) = s + 8 * frame_size f"
    using n s by (subst unat_add_small) (auto simp: P s_def [symmetric])
  define W where "W = worst_case_stuff_bits (S + P)"
  have W: "unat W = (s + 8 * frame_size f - 1) div 4" unfolding W_def worst_case_stuff_nat st ..
  have le: "s + 8 * frame_size f \<le> 200" using n s by auto
  then have le': "(s + 8 * frame_size f - 1) div 4 \<le> 200" by linarith
  have "unat (S + P + kTrailer) = s + 8 * frame_size f + 13"
    using le by (subst unat_add_small) (simp_all add: st kTrailer_def)
  then have "unat (S + P + kTrailer + W) = s + 8 * frame_size f + 13 + (s + 8 * frame_size f - 1) div 4"
    using le le' by (subst unat_add_small) (simp_all add: W)
  moreover have "arbitration_bits (frame_timing_of f t) = S + P + kTrailer + W"
    using assms by (simp add: frame_timing_of_def classic_timing_def Let_def S_def P_def W_def)
  ultimately show ?thesis using s by simp
qed

lemma bit_time_nat: "unat (bit_time bits rate) = (if rate = 0 then 0 else unat bits * 1000000000 div unat rate)"
proof -
  have "unat bits < 2 ^ 32" using unat_less_exp [of bits] by simp
  then have "unat (ucast bits * 1000000000 :: u64) = unat bits * 1000000000"
    by (subst unat_mult_lem [THEN iffD1]) (simp_all add: unat_ucast_up)
  then show ?thesis by (simp add: bit_time_def unat_div unat_ucast_up)
qed

lemma bit_time_le: "unat (bit_time bits rate) \<le> unat bits * 1000000000"
proof -
  have "unat bits * 1000000000 div unat rate \<le> unat bits * 1000000000" by (rule div_le_dividend)
  then show ?thesis by (simp add: bit_time_nat)
qed

lemma fd_arbitration_le: "unat (arbitration_bits (fd_timing f t)) \<le> 50"
proof -
  have "arbitration_bits (fd_timing f t) = (if is_extended (frame_id f) then 37 else 17) + kTrailer"
    by (simp add: fd_timing_def Let_def)
  then show ?thesis by (simp add: kTrailer_def)
qed

lemma fd_nanoseconds: "nanoseconds (fd_timing f t) =
    bit_time (arbitration_bits (fd_timing f t)) (nominal_bitrate t) +
    bit_time (data_bits (fd_timing f t)) (if is_brs f \<and> data_bitrate t \<noteq> 0 then data_bitrate t else nominal_bitrate t)"
  unfolding fd_timing_def Let_def frame_timing.simps ..

lemma frame_ns_less: "unat (nanoseconds (frame_timing_of f t)) < 2 ^ 63"
proof (cases "is_fd f")
  case False
  let ?b = "arbitration_bits (classic_timing f t)"
  have "unat ?b * 1000000000 < 2 ^ 63" using unat_less_exp [of ?b] by simp
  then have "unat (bit_time ?b (nominal_bitrate t)) < 2 ^ 63" by (rule order.strict_trans1 [OF bit_time_le])
  moreover have "nanoseconds (classic_timing f t) = bit_time ?b (nominal_bitrate t)"
    unfolding classic_timing_def Let_def frame_timing.simps ..
  ultimately show ?thesis using False by (simp only: frame_timing_of_def if_False)
next
  case True
  define a where "a = bit_time (arbitration_bits (fd_timing f t)) (nominal_bitrate t)"
  define b where "b = bit_time (data_bits (fd_timing f t))
      (if is_brs f \<and> data_bitrate t \<noteq> 0 then data_bitrate t else nominal_bitrate t)"
  have "unat a \<le> 50 * 1000000000"
    using bit_time_le [of "arbitration_bits (fd_timing f t)" "nominal_bitrate t"] fd_arbitration_le [of f t]
    unfolding a_def by linarith
  moreover have "unat b \<le> 2 ^ 32 * 1000000000"
  proof -
    have "unat (data_bits (fd_timing f t)) < 4294967296" using unat_less_exp [of "data_bits (fd_timing f t)"] by simp
    moreover have "unat b \<le> unat (data_bits (fd_timing f t)) * 1000000000" unfolding b_def by (rule bit_time_le)
    ultimately have "unat b \<le> 4294967296 * 1000000000" by linarith
    then show ?thesis by simp
  qed
  ultimately have "unat (a + b) < 2 ^ 63" by (simp add: unat_add_wrap)
  then show ?thesis using True unfolding a_def b_def fd_nanoseconds [symmetric] by (simp only: frame_timing_of_def if_True)
qed

subsection \<open>Nothing is delivered before its time\<close>

definition received :: "medium \<Rightarrow> frame set" where
  "received m = (\<Union>p \<in> set (med_participants m). set (vb_inbox (snd p)))"

definition timely :: "medium \<Rightarrow> bool" where
  "timely m \<longleftrightarrow> (\<forall>f \<in> received m. timestamp_ns f \<le> med_now_ns m) \<and>
     (med_in_flight m \<longrightarrow> timestamp_ns (med_current m) = med_busy_until_ns m)"

lemma received_map_bus_same: "(\<And>i b. vb_inbox (g i b) = vb_inbox b) \<Longrightarrow> received (map_bus g m) = received m"
  by (auto simp: received_def)

lemma received_fields [simp]:
  "received (m\<lparr>med_busy_until_ns := a, med_current := f, med_current_sender := s, med_in_flight := i\<rparr>) = received m"
  "received (m\<lparr>med_log := l\<rparr>) = received m" "received (m\<lparr>med_now_ns := t\<rparr>) = received m"
  "received (m\<lparr>med_in_flight := i\<rparr>) = received m" "received (m\<lparr>med_current_sender := s\<rparr>) = received m"
  by (simp_all add: received_def)

lemma received_update_bus: "(\<And>b. vb_inbox (g b) = vb_inbox b) \<Longrightarrow> received (update_bus m who g) = received m"
  unfolding update_bus_def by (rule received_map_bus_same) simp

lemma received_count_loss: "received (map_bus (\<lambda>i p. if i \<noteq> who \<and> contends p then count_loss p else p) m) = received m"
  by (rule received_map_bus_same) simp

lemma received_steps:
  "received (update_bus m who (count_sent f t now until)) = received m"
  "received (update_bus m who (\<lambda>p. p\<lparr>vb_outbox := tl (vb_outbox p)\<rparr>)) = received m"
  by (rule received_update_bus, simp)+

lemma received_transmit: "received (transmit m who w n) = received m"
  unfolding transmit_def Let_def
  apply (rule trans [OF received_fields(1)])
  apply (rule trans [OF received_steps(1)])
  apply (cases "n > 1")
   apply (simp only: if_True received_fields received_count_loss received_steps)
  apply (simp only: if_False received_steps)
  done

lemma deliver_one_inbox: "set (vb_inbox (deliver_one m f from i b)) \<subseteq> insert f (set (vb_inbox b))"
  by (auto simp: deliver_one_def Let_def)

lemma received_complete: "received (complete_transmission m) \<subseteq>
    (if med_in_flight m then insert (med_current m) (received m) else received m)"
  using deliver_one_inbox by (fastforce simp: complete_transmission_def deliver_def received_def)

lemma timely_complete:
  "timely m \<Longrightarrow> med_busy_until_ns m \<le> med_now_ns m \<Longrightarrow> timely (complete_transmission m)"
  using received_complete [of m] by (auto simp: timely_def complete_now split: if_splits)

lemma timely_start:
  assumes "timely m" "start_transmission m = (b, m')"
  shows "timely m'"
proof (cases b)
  case True
  then obtain w p n where m': "m' = transmit m w p n" using assms start_transmission_True [of m m'] by auto
  have "timestamp_ns (med_current m') = med_busy_until_ns m'"
    using transmit_simps(5) [of m w p n] by (simp add: m' set_timestamp_ns_def)
  then show ?thesis using assms(1) by (simp add: timely_def m' received_transmit transmit_simps(3))
next
  case False
  then show ?thesis using assms start_transmission_False [of m m'] by simp
qed

lemma settle_timely:
  assumes t: "timely m" and wrap: "unat (med_now_ns m) < 2 ^ 63"
  shows "timely (settle m) \<and> med_now_ns (settle m) = med_now_ns m
    \<and> (med_in_flight (settle m) \<longrightarrow> med_now_ns m \<le> med_busy_until_ns (settle m))"
proof -
  define m1 where "m1 = (if med_in_flight m \<and> med_busy_until_ns m \<le> med_now_ns m then complete_transmission m else m)"
  have m1: "timely m1" "med_now_ns m1 = med_now_ns m" "med_in_flight m1 \<Longrightarrow> med_now_ns m \<le> med_busy_until_ns m1"
    using t timely_complete [of m] by (auto simp: m1_def complete_now)
  have e: "settle m = (if \<not> med_in_flight m1 then snd (start_transmission m1) else m1)"
    by (simp add: settle_def m1_def Let_def)
  obtain b m2 where s: "start_transmission m1 = (b, m2)" by (meson surj_pair)
  have "med_now_ns m2 = med_now_ns m \<and> (med_in_flight m2 \<longrightarrow> med_now_ns m \<le> med_busy_until_ns m2)"
  proof (cases b)
    case True
    then obtain w p n where m2: "m2 = transmit m1 w p n" using s start_transmission_True [of m1 m2] by auto
    have "med_now_ns m \<le> med_now_ns m + nanoseconds (frame_timing_of (hd (vb_outbox p)) (med_timing m1))"
      using wrap frame_ns_less [of "hd (vb_outbox p)" "med_timing m1"]
      by (simp add: word_le_nat_alt unat_add_wrap)
    then show ?thesis using m1(2) by (simp add: m2 transmit_simps(3,6))
  next
    case False
    then show ?thesis using start_transmission_False [of m1 m2] s m1 by auto
  qed
  then show ?thesis using e s m1 timely_start [OF m1(1) s] by simp
qed

lemma advance_until_timely:
  assumes "timely m" "med_now_ns m \<le> target" "unat target < 2 ^ 63"
  shows "timely (advance_until m target)"
  using assms
proof (induction m target rule: advance_until.induct)
  case (1 m target)
  have "unat (med_now_ns m) < 2 ^ 63" using "1.prems"(2,3) by (simp add: word_le_nat_alt)
  note s = settle_timely [OF "1.prems"(1) this]
  show ?case
  proof (cases "med_in_flight (settle m) \<and> med_busy_until_ns (settle m) \<le> target")
    case True
    let ?m = "(settle m)\<lparr>med_now_ns := med_busy_until_ns (settle m)\<rparr>"
    have "timely ?m" using s True by (auto simp: timely_def intro: order_trans)
    from "1.IH" [OF refl True this] True "1.prems"(3) show ?thesis
      by (subst advance_until.simps) (simp add: Let_def)
  next
    case False
    then have "advance_until m target = (settle m)\<lparr>med_now_ns := target\<rparr>"
      by (subst advance_until.simps) (auto simp: Let_def)
    then show ?thesis using s "1.prems"(2) by (auto simp: timely_def intro: order_trans)
  qed
qed

end
