(* ===== verification/Bus_Interface.thy ===== *)
theory Bus_Interface
  imports Bus_Refine
begin

text \<open>
  The interface \<open>IBus\<close> as a contract (\<open>transport/include/canforge/transport/IBus.hpp\<close>): what a client
  may rely on of opening, closing, sending and receiving, the proof that a participant of the
  virtual medium keeps it, and the properties of the virtual bus.
\<close>

subsection \<open>Openness\<close>

lemma vb_is_open_complete: "vb_is_open (complete_transmission m) w = vb_is_open m w"
  by (auto simp: vb_is_open_def complete_transmission_def deliver_def split: option.splits)

lemma vb_is_open_transmit: "vb_is_open (transmit m i p n) w = vb_is_open m w"
  using transmit_bus_of [of m w _ i p n] transmit_bus_of_None [of m w i p n]
  by (cases "bus_of m w") (fastforce simp: vb_is_open_def)+

lemma vb_is_open_now [simp]: "vb_is_open (m\<lparr>med_now_ns := t\<rparr>) w = vb_is_open m w"
  by (simp add: vb_is_open_def)

lemma vb_is_open_settle: "vb_is_open (settle m) w = vb_is_open m w"
proof -
  have "vb_is_open (snd (start_transmission x)) w = vb_is_open x w" for x
  proof (cases "start_transmission x")
    case (Pair b y)
    then show ?thesis
      using start_transmission_False [of x y] start_transmission_True [of x y] vb_is_open_transmit
      by (cases b) auto
  qed
  then show ?thesis by (simp add: settle_def Let_def vb_is_open_complete)
qed

lemma vb_is_open_advance_until: "vb_is_open (advance_until m target) w = vb_is_open m w"
proof (induction m target rule: advance_until.induct)
  case (1 m target)
  then show ?case
    by (subst advance_until.simps) (simp add: Let_def vb_is_open_settle vb_is_open_complete)
qed

lemma vb_is_open_update:
  "(\<And>p. vb_open (g p) = vb_open p) \<Longrightarrow> vb_is_open (update_bus m i g) w = vb_is_open m w"
  by (auto simp: vb_is_open_def split: option.splits)

lemma vb_is_open_receive: "vb_is_open (snd (vb_receive m who t)) w = vb_is_open m w"
  by (auto simp: vb_receive_def Let_def advance_def vb_is_open_advance_until vb_is_open_update
      split: option.splits list.splits)

lemma vb_is_open_send: "vb_is_open (snd (vb_send m who f)) w = vb_is_open m w"
  by (auto simp: vb_send_def vb_is_open_update split: option.splits)

subsection \<open>The bus interface\<close>

text \<open>
  \<open>IBus\<close> as its clients use it. \<open>valid\<close> holds of the states in which the object exists. A closed
  bus answers every call with an error and changes nothing.
\<close>

locale can_bus =
  fixes bus_open :: "'s \<Rightarrow> status \<times> 's"
    and bus_close :: "'s \<Rightarrow> 's"
    and bus_is_open :: "'s \<Rightarrow> bool"
    and bus_send :: "'s \<Rightarrow> frame \<Rightarrow> status \<times> 's"
    and bus_receive :: "'s \<Rightarrow> int \<Rightarrow> frame result \<times> 's"
    and valid :: "'s \<Rightarrow> bool"
  assumes open_opens: "valid s \<Longrightarrow> has_value (fst (bus_open s)) \<Longrightarrow> bus_is_open (snd (bus_open s))"
    and close_closes: "\<not> bus_is_open (bus_close s)"
    and send_closed: "\<not> bus_is_open s \<Longrightarrow> \<exists>e. bus_send s f = (Inl e, s)"
    and receive_closed: "\<not> bus_is_open s \<Longrightarrow> \<exists>e. bus_receive s t = (Inl e, s)"
    and send_keeps: "bus_is_open (snd (bus_send s f)) = bus_is_open s"
begin

definition traffic :: "'s \<Rightarrow> (frame + int) \<Rightarrow> 's" where
  "traffic s op = (case op of Inl f \<Rightarrow> snd (bus_send s f) | Inr t \<Rightarrow> snd (bus_receive s t))"

lemma closed_traffic: "\<not> bus_is_open s \<Longrightarrow> traffic s op = s"
  using send_closed [of s] receive_closed [of s] by (cases op) (auto simp: traffic_def, (metis snd_conv)+)

lemma closed_run: "\<not> bus_is_open s \<Longrightarrow> foldl traffic s ops = s"
  by (induction ops) (auto simp: closed_traffic)

lemma after_close: "foldl traffic (bus_close s) ops = bus_close s"
  by (rule closed_run [OF close_closes])

lemma sends_keep_open: "bus_is_open (foldl (\<lambda>s f. snd (bus_send s f)) s fs) = bus_is_open s"
  by (induction fs arbitrary: s) (simp_all add: send_keeps)

end

definition participant :: "nat \<Rightarrow> medium \<Rightarrow> bool" where
  "participant who m \<longleftrightarrow> bus_of m who \<noteq> None"

interpretation virtual_bus: can_bus "\<lambda>m. vb_open_bus m who" "\<lambda>m. vb_close m who" "\<lambda>m. vb_is_open m who"
    "\<lambda>m. vb_send m who" "\<lambda>m. vb_receive m who" "participant who" for who
proof unfold_locales
  fix m f t
  show "participant who m \<Longrightarrow> has_value (fst (vb_open_bus m who)) \<Longrightarrow> vb_is_open (snd (vb_open_bus m who)) who"
    by (auto simp: participant_def vb_open_bus_def vb_is_open_def split: option.splits)
  show "\<not> vb_is_open (vb_close m who) who" by (simp add: vb_close_def vb_is_open_def split: option.splits)
  show "\<not> vb_is_open m who \<Longrightarrow> \<exists>e. vb_send m who f = (Inl e, m)" by (simp add: vb_send_def)
  show "\<not> vb_is_open m who \<Longrightarrow> \<exists>e. vb_receive m who t = (Inl e, m)"
    by (auto simp: vb_receive_def vb_is_open_def split: option.splits)
  show "vb_is_open (snd (vb_send m who f)) who = vb_is_open m who" by (rule vb_is_open_send)
qed

subsection \<open>Properties of the virtual bus\<close>

text \<open>C6. Refinement: with loopback on, an open participant whose receive queue has room gets exactly
  the frames, passed through its filters, that the abstract bus transmits from the queues, in that
  order; the abstract bus always sends the head of the first queue with the least arbitration key,
  so a loser keeps its frame. It holds of \<open>advance\<close> by any duration and of \<open>drain\<close> with any limit.\<close>

theorem virtual_bus_refines_arbitration:
  assumes "hears m who flt"
  shows "(\<exists>fs. bus_run (outboxes m) fs (outboxes (advance m d)) \<and>
      seen (advance m d) who flt = seen m who flt @ [f \<leftarrow> map unstamp fs. accepted_by flt (frame_id f)]) \<and>
    (\<exists>fs. bus_run (outboxes m) fs (outboxes (snd (drain m k))) \<and>
      seen (snd (drain m k)) who flt = seen m who flt @ [f \<leftarrow> map unstamp fs. accepted_by flt (frame_id f)])"
  using advance_until_refines [OF assms] drain_refines [OF assms]
  unfolding refines_run_def advance_def by blast

definition demo_frame :: "u32 \<Rightarrow> frame" where
  "demo_frame i = \<lparr>timestamp_ns = 0, frame_id = CanId i, frame_dlc = 8, frame_flags = 0, frame_data = replicate 64 0\<rparr>"

definition demo_medium :: medium where
  "demo_medium = (new_medium default_timing)\<lparr>med_participants :=
     [(0, (new_virtual_bus ''a'')\<lparr>vb_open := True, vb_outbox := [demo_frame 0x200]\<rparr>),
      (1, (new_virtual_bus ''b'')\<lparr>vb_open := True, vb_outbox := [demo_frame 0x100]\<rparr>)]\<rparr>"

theorem virtual_bus_refines_arbitration_witness:
  "\<exists>fs. bus_run (outboxes demo_medium) fs (outboxes (snd (drain demo_medium 9))) \<and>
     seen (snd (drain demo_medium 9)) 0 [] = seen demo_medium 0 [] @ [f \<leftarrow> map unstamp fs. accepted_by [] (frame_id f)]"
proof -
  have "hears demo_medium 0 []"
    by (simp add: hears_def demo_medium_def new_medium_def new_virtual_bus_def wf_medium_def bus_of_def inbox_def
        on_wire_def medium_pending_def)
  then show ?thesis using virtual_bus_refines_arbitration [of demo_medium 0 "[]" 0 9] by blast
qed

text \<open>C27. The clock and the work: \<open>advance\<close> ends exactly at its target time, with the medium carrying a
  frame that ends later or with nothing left to send; \<open>drain\<close> with a limit of at least the number
  of queued frames leaves the bus silent and every transmit queue empty. Both loops end.\<close>

theorem virtual_bus_work_conserving:
  assumes "wf_medium m"
  shows "med_now_ns (advance m d) = med_now_ns m + (if d < 0 then 0 else word_of_int d) \<and>
    (if med_in_flight (advance m d) then med_now_ns (advance m d) < med_busy_until_ns (advance m d)
     else medium_pending (advance m d) = 0) \<and>
    (medium_pending m \<le> k \<longrightarrow> \<not> med_in_flight (snd (drain m k)) \<and> medium_pending (snd (drain m k)) = 0)"
  using advance_until_result [OF assms, of "med_now_ns m + (if d < 0 then 0 else word_of_int d)"] drain_result [OF assms]
  unfolding advance_def by (auto split: if_splits)

theorem virtual_bus_work_conserving_witness:
  "medium_pending (snd (drain demo_medium 2)) = 0"
proof -
  have "wf_medium demo_medium" "medium_pending demo_medium \<le> 2"
    by (simp_all add: demo_medium_def new_medium_def new_virtual_bus_def wf_medium_def medium_pending_def)
  then show ?thesis using virtual_bus_work_conserving [of demo_medium 0 2] by simp
qed

text \<open>No early delivery: if every received frame carries a time that has come and the frame on the
  wire carries the end of its transmission, the same holds after \<open>advance\<close>, for times below \<open>2^63\<close>
  nanoseconds: a participant never holds a frame before the end of its transmission.\<close>

theorem virtual_bus_no_early_delivery:
  assumes "timely m" and "0 \<le> d" and "int (unat (med_now_ns m)) + d < 2 ^ 63"
  shows "timely (advance m d)"
proof -
  define n where "n = nat d"
  have d: "d = int n" using assms(2) by (simp add: n_def)
  have d2: "unat (med_now_ns m) + n < 2 ^ 63" 
  proof -
    have "int (unat (med_now_ns m) + n) < int (2 ^ 63)" using assms(3) unfolding d by simp
    then show ?thesis unfolding of_nat_less_iff .
  qed
  have "unat (word_of_int d :: u64) = n" using d2 unfolding d by (simp add: unat_of_nat)
  then have t: "unat (med_now_ns m + word_of_int d) = unat (med_now_ns m) + n"
    using d2 by (simp add: unat_add_wrap)
  have "timely (advance_until m (med_now_ns m + word_of_int d))"
    by (rule advance_until_timely [OF assms(1)]) (use t d2 in \<open>simp_all add: word_le_nat_alt\<close>)
  then show ?thesis using assms(2) by (simp add: advance_def)
qed

theorem virtual_bus_no_early_delivery_witness:
  "timely (advance demo_medium 1000000)"
  using virtual_bus_no_early_delivery [of demo_medium 1000000]
  by (simp add: timely_def received_def demo_medium_def new_medium_def new_virtual_bus_def)

text \<open>The worst-case length of a classic frame is 47 bits (67 with an extended identifier), plus its
  data, plus one stuff bit per four stuffable bits: at most 135 and 160 bits, reached by eight
  bytes. It is what the transmission occupies the medium for at the nominal rate.\<close>

theorem classic_frame_wire_bits:
  assumes "\<not> is_fd f"
  shows "unat (arbitration_bits (frame_timing_of f t)) =
      (if is_extended (frame_id f) then 67 else 47) + 8 * frame_size f +
      ((if is_extended (frame_id f) then 54 else 34) + 8 * frame_size f - 1) div 4 \<and>
    unat (arbitration_bits (frame_timing_of f t)) \<le> (if is_extended (frame_id f) then 160 else 135) \<and>
    (frame_size f = 8 \<longrightarrow>
      unat (arbitration_bits (frame_timing_of f t)) = (if is_extended (frame_id f) then 160 else 135)) \<and>
    nanoseconds (frame_timing_of f t) = bit_time (arbitration_bits (frame_timing_of f t)) (nominal_bitrate t)"
proof -
  have "nanoseconds (frame_timing_of f t) = bit_time (arbitration_bits (frame_timing_of f t)) (nominal_bitrate t)"
    using assms by (simp add: frame_timing_of_def classic_timing_def Let_def)
  moreover have "frame_size f \<le> 8" by (rule classic_size [OF assms])
  then have "(33 + 8 * frame_size f) div 4 \<le> 24" "(53 + 8 * frame_size f) div 4 \<le> 29" by linarith+
  ultimately show ?thesis using \<open>frame_size f \<le> 8\<close> unfolding classic_bits [OF assms] by auto
qed

theorem classic_frame_wire_bits_witness:
  "unat (arbitration_bits (frame_timing_of (demo_frame 0x123) default_timing)) = 135"
  using classic_frame_wire_bits [of "demo_frame 0x123" default_timing]
  by (simp add: demo_frame_def is_fd_def has_flag_def flag_defs frame_size_def is_remote_def dlc_to_length_def
      is_extended_def kEffFlag_def)

text \<open>A closed participant is inert: after \<open>close\<close>, no sequence of sends and receives changes
  anything on the medium, and \<open>open\<close> followed by sends leaves the participant open.\<close>

theorem virtual_bus_closed_is_inert:
  "foldl (\<lambda>m op. case op of Inl f \<Rightarrow> snd (vb_send m who f) | Inr t \<Rightarrow> snd (vb_receive m who t)) (vb_close m who) ops
     = vb_close m who"
  using virtual_bus.after_close [of who m ops] unfolding virtual_bus.traffic_def .

end
