(* ===== verification/Uds.thy ===== *)
theory Uds
  imports IsoTp Fmt
begin

text \<open>
  \<open>uds/include/canforge/uds/Uds.hpp\<close> and \<open>uds/src/Uds.cpp\<close>: the services, response codes and texts of
  ISO 14229 and the poll-driven diagnostic client. The client owns an ISO-TP \<open>Sender\<close> and \<open>Receiver\<close>;
  its \<open>poll\<close> returns \<open>None\<close> where theirs would abort the program. An object of an enumeration of the
  code may hold any byte, so the client's state keeps the byte and \<open>..._value\<close> gives the byte of an
  enumerator.
\<close>

subsection \<open>Services, sessions and response codes\<close>

datatype service =
  SvcDiagnosticSessionControl | SvcEcuReset | SvcClearDiagnosticInformation
| SvcReadDtcInformation | SvcReadDataByIdentifier | SvcSecurityAccess | SvcCommunicationControl
| SvcWriteDataByIdentifier | SvcRoutineControl | SvcRequestDownload | SvcTransferData
| SvcRequestTransferExit | SvcTesterPresent

fun service_value :: "service \<Rightarrow> u8" where
  "service_value SvcDiagnosticSessionControl = 0x10"
| "service_value SvcEcuReset = 0x11"
| "service_value SvcClearDiagnosticInformation = 0x14"
| "service_value SvcReadDtcInformation = 0x19"
| "service_value SvcReadDataByIdentifier = 0x22"
| "service_value SvcSecurityAccess = 0x27"
| "service_value SvcCommunicationControl = 0x28"
| "service_value SvcWriteDataByIdentifier = 0x2E"
| "service_value SvcRoutineControl = 0x31"
| "service_value SvcRequestDownload = 0x34"
| "service_value SvcTransferData = 0x36"
| "service_value SvcRequestTransferExit = 0x37"
| "service_value SvcTesterPresent = 0x3E"

fun service_string :: "service \<Rightarrow> string" where
  "service_string SvcDiagnosticSessionControl = ''DiagnosticSessionControl''"
| "service_string SvcEcuReset = ''ECUReset''"
| "service_string SvcClearDiagnosticInformation = ''ClearDiagnosticInformation''"
| "service_string SvcReadDtcInformation = ''ReadDTCInformation''"
| "service_string SvcReadDataByIdentifier = ''ReadDataByIdentifier''"
| "service_string SvcSecurityAccess = ''SecurityAccess''"
| "service_string SvcCommunicationControl = ''CommunicationControl''"
| "service_string SvcWriteDataByIdentifier = ''WriteDataByIdentifier''"
| "service_string SvcRoutineControl = ''RoutineControl''"
| "service_string SvcRequestDownload = ''RequestDownload''"
| "service_string SvcTransferData = ''TransferData''"
| "service_string SvcRequestTransferExit = ''RequestTransferExit''"
| "service_string SvcTesterPresent = ''TesterPresent''"

definition kPositiveResponseOffset :: u8 where "kPositiveResponseOffset = 0x40"
definition kNegativeResponse :: u8 where "kNegativeResponse = 0x7F"
definition kSuppressPositiveResponse :: u8 where "kSuppressPositiveResponse = 0x80"

datatype session_type =
  SesDefault | SesProgramming | SesExtendedDiagnostic | SesSafetySystemDiagnostic

fun session_value :: "session_type \<Rightarrow> u8" where
  "session_value SesDefault = 0x01"
| "session_value SesProgramming = 0x02"
| "session_value SesExtendedDiagnostic = 0x03"
| "session_value SesSafetySystemDiagnostic = 0x04"

fun session_string :: "session_type \<Rightarrow> string" where
  "session_string SesDefault = ''default''"
| "session_string SesProgramming = ''programming''"
| "session_string SesExtendedDiagnostic = ''extended diagnostic''"
| "session_string SesSafetySystemDiagnostic = ''safety system diagnostic''"

datatype reset_type =
  RstHardReset | RstKeyOffOnReset | RstSoftReset | RstEnableRapidPowerShutDown
| RstDisableRapidPowerShutDown

fun reset_value :: "reset_type \<Rightarrow> u8" where
  "reset_value RstHardReset = 0x01"
| "reset_value RstKeyOffOnReset = 0x02"
| "reset_value RstSoftReset = 0x03"
| "reset_value RstEnableRapidPowerShutDown = 0x04"
| "reset_value RstDisableRapidPowerShutDown = 0x05"

datatype routine_control_type =
  RcStartRoutine | RcStopRoutine | RcRequestRoutineResults

fun routine_control_value :: "routine_control_type \<Rightarrow> u8" where
  "routine_control_value RcStartRoutine = 0x01"
| "routine_control_value RcStopRoutine = 0x02"
| "routine_control_value RcRequestRoutineResults = 0x03"

datatype dtc_report_type =
  DtrReportNumberOfDtcByStatusMask | DtrReportDtcByStatusMask | DtrReportSupportedDtc

fun dtc_report_value :: "dtc_report_type \<Rightarrow> u8" where
  "dtc_report_value DtrReportNumberOfDtcByStatusMask = 0x01"
| "dtc_report_value DtrReportDtcByStatusMask = 0x02"
| "dtc_report_value DtrReportSupportedDtc = 0x0A"

datatype dtc_status_bit =
  DtsTestFailed | DtsTestFailedThisOperationCycle | DtsPendingDtc | DtsConfirmedDtc
| DtsTestNotCompletedSinceLastClear | DtsTestFailedSinceLastClear
| DtsTestNotCompletedThisOperationCycle | DtsWarningIndicatorRequested

fun dtc_status_value :: "dtc_status_bit \<Rightarrow> u8" where
  "dtc_status_value DtsTestFailed = 0x01"
| "dtc_status_value DtsTestFailedThisOperationCycle = 0x02"
| "dtc_status_value DtsPendingDtc = 0x04"
| "dtc_status_value DtsConfirmedDtc = 0x08"
| "dtc_status_value DtsTestNotCompletedSinceLastClear = 0x10"
| "dtc_status_value DtsTestFailedSinceLastClear = 0x20"
| "dtc_status_value DtsTestNotCompletedThisOperationCycle = 0x40"
| "dtc_status_value DtsWarningIndicatorRequested = 0x80"

datatype nrc =
  NrcPositiveResponse | NrcGeneralReject | NrcServiceNotSupported | NrcSubFunctionNotSupported
| NrcIncorrectMessageLengthOrInvalidFormat | NrcResponseTooLong | NrcBusyRepeatRequest
| NrcConditionsNotCorrect | NrcRequestSequenceError | NrcNoResponseFromSubnetComponent
| NrcFailurePreventsExecutionOfRequestedAction | NrcRequestOutOfRange | NrcSecurityAccessDenied
| NrcInvalidKey | NrcExceedNumberOfAttempts | NrcRequiredTimeDelayNotExpired
| NrcUploadDownloadNotAccepted | NrcTransferDataSuspended | NrcGeneralProgrammingFailure
| NrcWrongBlockSequenceCounter | NrcRequestCorrectlyReceivedResponsePending
| NrcSubFunctionNotSupportedInActiveSession | NrcServiceNotSupportedInActiveSession
| NrcRpmTooHigh | NrcRpmTooLow | NrcEngineIsRunning | NrcEngineIsNotRunning
| NrcEngineRunTimeTooLow | NrcTemperatureTooHigh | NrcTemperatureTooLow
| NrcVehicleSpeedTooHigh | NrcVehicleSpeedTooLow | NrcThrottlePedalTooHigh
| NrcThrottlePedalTooLow | NrcTransmissionRangeNotInNeutral | NrcTransmissionRangeNotInGear
| NrcBrakeSwitchNotClosed | NrcShifterLeverNotInPark | NrcTorqueConverterClutchLocked
| NrcVoltageTooHigh | NrcVoltageTooLow

fun nrc_value :: "nrc \<Rightarrow> u8" where
  "nrc_value NrcPositiveResponse = 0x00"
| "nrc_value NrcGeneralReject = 0x10"
| "nrc_value NrcServiceNotSupported = 0x11"
| "nrc_value NrcSubFunctionNotSupported = 0x12"
| "nrc_value NrcIncorrectMessageLengthOrInvalidFormat = 0x13"
| "nrc_value NrcResponseTooLong = 0x14"
| "nrc_value NrcBusyRepeatRequest = 0x21"
| "nrc_value NrcConditionsNotCorrect = 0x22"
| "nrc_value NrcRequestSequenceError = 0x24"
| "nrc_value NrcNoResponseFromSubnetComponent = 0x25"
| "nrc_value NrcFailurePreventsExecutionOfRequestedAction = 0x26"
| "nrc_value NrcRequestOutOfRange = 0x31"
| "nrc_value NrcSecurityAccessDenied = 0x33"
| "nrc_value NrcInvalidKey = 0x35"
| "nrc_value NrcExceedNumberOfAttempts = 0x36"
| "nrc_value NrcRequiredTimeDelayNotExpired = 0x37"
| "nrc_value NrcUploadDownloadNotAccepted = 0x70"
| "nrc_value NrcTransferDataSuspended = 0x71"
| "nrc_value NrcGeneralProgrammingFailure = 0x72"
| "nrc_value NrcWrongBlockSequenceCounter = 0x73"
| "nrc_value NrcRequestCorrectlyReceivedResponsePending = 0x78"
| "nrc_value NrcSubFunctionNotSupportedInActiveSession = 0x7E"
| "nrc_value NrcServiceNotSupportedInActiveSession = 0x7F"
| "nrc_value NrcRpmTooHigh = 0x81"
| "nrc_value NrcRpmTooLow = 0x82"
| "nrc_value NrcEngineIsRunning = 0x83"
| "nrc_value NrcEngineIsNotRunning = 0x84"
| "nrc_value NrcEngineRunTimeTooLow = 0x85"
| "nrc_value NrcTemperatureTooHigh = 0x86"
| "nrc_value NrcTemperatureTooLow = 0x87"
| "nrc_value NrcVehicleSpeedTooHigh = 0x88"
| "nrc_value NrcVehicleSpeedTooLow = 0x89"
| "nrc_value NrcThrottlePedalTooHigh = 0x8A"
| "nrc_value NrcThrottlePedalTooLow = 0x8B"
| "nrc_value NrcTransmissionRangeNotInNeutral = 0x8C"
| "nrc_value NrcTransmissionRangeNotInGear = 0x8D"
| "nrc_value NrcBrakeSwitchNotClosed = 0x8F"
| "nrc_value NrcShifterLeverNotInPark = 0x90"
| "nrc_value NrcTorqueConverterClutchLocked = 0x91"
| "nrc_value NrcVoltageTooHigh = 0x92"
| "nrc_value NrcVoltageTooLow = 0x93"

fun nrc_string :: "nrc \<Rightarrow> string" where
  "nrc_string NrcPositiveResponse = ''positive response''"
| "nrc_string NrcGeneralReject = ''general reject''"
| "nrc_string NrcServiceNotSupported = ''service not supported''"
| "nrc_string NrcSubFunctionNotSupported = ''sub-function not supported''"
| "nrc_string NrcIncorrectMessageLengthOrInvalidFormat = ''incorrect message length or invalid format''"
| "nrc_string NrcResponseTooLong = ''response too long''"
| "nrc_string NrcBusyRepeatRequest = ''busy, repeat request''"
| "nrc_string NrcConditionsNotCorrect = ''conditions not correct''"
| "nrc_string NrcRequestSequenceError = ''request sequence error''"
| "nrc_string NrcNoResponseFromSubnetComponent = ''no response from subnet component''"
| "nrc_string NrcFailurePreventsExecutionOfRequestedAction = ''failure prevents execution of the requested action''"
| "nrc_string NrcRequestOutOfRange = ''request out of range''"
| "nrc_string NrcSecurityAccessDenied = ''security access denied''"
| "nrc_string NrcInvalidKey = ''invalid key''"
| "nrc_string NrcExceedNumberOfAttempts = ''exceeded number of attempts''"
| "nrc_string NrcRequiredTimeDelayNotExpired = ''required time delay not expired''"
| "nrc_string NrcUploadDownloadNotAccepted = ''upload or download not accepted''"
| "nrc_string NrcTransferDataSuspended = ''transfer data suspended''"
| "nrc_string NrcGeneralProgrammingFailure = ''general programming failure''"
| "nrc_string NrcWrongBlockSequenceCounter = ''wrong block sequence counter''"
| "nrc_string NrcRequestCorrectlyReceivedResponsePending = ''request correctly received, response pending''"
| "nrc_string NrcSubFunctionNotSupportedInActiveSession = ''sub-function not supported in the active session''"
| "nrc_string NrcServiceNotSupportedInActiveSession = ''service not supported in the active session''"
| "nrc_string NrcRpmTooHigh = ''engine speed too high''"
| "nrc_string NrcRpmTooLow = ''engine speed too low''"
| "nrc_string NrcEngineIsRunning = ''engine is running''"
| "nrc_string NrcEngineIsNotRunning = ''engine is not running''"
| "nrc_string NrcEngineRunTimeTooLow = ''engine run time too low''"
| "nrc_string NrcTemperatureTooHigh = ''temperature too high''"
| "nrc_string NrcTemperatureTooLow = ''temperature too low''"
| "nrc_string NrcVehicleSpeedTooHigh = ''vehicle speed too high''"
| "nrc_string NrcVehicleSpeedTooLow = ''vehicle speed too low''"
| "nrc_string NrcThrottlePedalTooHigh = ''throttle pedal too high''"
| "nrc_string NrcThrottlePedalTooLow = ''throttle pedal too low''"
| "nrc_string NrcTransmissionRangeNotInNeutral = ''transmission range not in neutral''"
| "nrc_string NrcTransmissionRangeNotInGear = ''transmission range not in gear''"
| "nrc_string NrcBrakeSwitchNotClosed = ''brake switch not closed''"
| "nrc_string NrcShifterLeverNotInPark = ''shifter lever not in park''"
| "nrc_string NrcTorqueConverterClutchLocked = ''torque converter clutch locked''"
| "nrc_string NrcVoltageTooHigh = ''voltage too high''"
| "nrc_string NrcVoltageTooLow = ''voltage too low''"

text \<open>The enumerators in the order of the declaration.\<close>

definition all_nrcs :: "nrc list" where
  "all_nrcs =
    [NrcPositiveResponse, NrcGeneralReject, NrcServiceNotSupported,
     NrcSubFunctionNotSupported, NrcIncorrectMessageLengthOrInvalidFormat, NrcResponseTooLong,
     NrcBusyRepeatRequest, NrcConditionsNotCorrect, NrcRequestSequenceError,
     NrcNoResponseFromSubnetComponent, NrcFailurePreventsExecutionOfRequestedAction,
     NrcRequestOutOfRange, NrcSecurityAccessDenied, NrcInvalidKey, NrcExceedNumberOfAttempts,
     NrcRequiredTimeDelayNotExpired, NrcUploadDownloadNotAccepted, NrcTransferDataSuspended,
     NrcGeneralProgrammingFailure, NrcWrongBlockSequenceCounter,
     NrcRequestCorrectlyReceivedResponsePending, NrcSubFunctionNotSupportedInActiveSession,
     NrcServiceNotSupportedInActiveSession, NrcRpmTooHigh, NrcRpmTooLow, NrcEngineIsRunning,
     NrcEngineIsNotRunning, NrcEngineRunTimeTooLow, NrcTemperatureTooHigh,
     NrcTemperatureTooLow, NrcVehicleSpeedTooHigh, NrcVehicleSpeedTooLow,
     NrcThrottlePedalTooHigh, NrcThrottlePedalTooLow, NrcTransmissionRangeNotInNeutral,
     NrcTransmissionRangeNotInGear, NrcBrakeSwitchNotClosed, NrcShifterLeverNotInPark,
     NrcTorqueConverterClutchLocked, NrcVoltageTooHigh, NrcVoltageTooLow]"

text \<open>\<open>to_string(static_cast<Nrc>(raw))\<close>: the switch falls through for a byte that is no enumerator.\<close>

definition nrc_text :: "u8 \<Rightarrow> string" where
  "nrc_text raw = (case find (\<lambda>n. nrc_value n = raw) all_nrcs of Some n \<Rightarrow> nrc_string n | None \<Rightarrow> ''unknown'')"

definition describe_nrc :: "u8 \<Rightarrow> string" where
  "describe_nrc raw =
     (let known = nrc_text raw in
      if known \<noteq> ''unknown'' then take 95 (''0x'' @ hex_fixed 2 (unat raw) @ '' '' @ known)
      else let range = (if raw \<ge> 0x38 \<and> raw \<le> 0x4F then ''reserved for ISO 15764 secured data transmission''
                        else if raw \<ge> 0x94 \<and> raw \<le> 0xEF then ''reserved for condition-driven codes''
                        else if raw \<ge> 0xF0 then ''manufacturer specific''
                        else ''reserved by ISO 14229'')
        in take 95 (''0x'' @ hex_fixed 2 (unat raw) @ '' ('' @ range @ '')''))"

definition kLetters :: string where "kLetters = ''PCBU''"

definition format_dtc :: "u32 \<Rightarrow> string" where
  "format_dtc code =
     (let high = unat (drop_bit 16 code AND 0xFF)
      in [kLetters ! (high div 64 mod 4)] @ hex_plain (high div 16 mod 4) @ hex_plain (high mod 16) @
         hex_fixed 2 (unat (drop_bit 8 code AND 0xFF)) @ ''-'' @ hex_fixed 2 (unat (code AND 0xFF)))"

definition kBits :: "(dtc_status_bit \<times> string) list" where
  "kBits =
    [(DtsTestFailed, ''testFailed''), (DtsTestFailedThisOperationCycle, ''testFailedThisOperationCycle''),
     (DtsPendingDtc, ''pendingDTC''), (DtsConfirmedDtc, ''confirmedDTC''),
     (DtsTestNotCompletedSinceLastClear, ''testNotCompletedSinceLastClear''),
     (DtsTestFailedSinceLastClear, ''testFailedSinceLastClear''),
     (DtsTestNotCompletedThisOperationCycle, ''testNotCompletedThisOperationCycle''),
     (DtsWarningIndicatorRequested, ''warningIndicatorRequested'')]"

definition describe_dtc_status :: "u8 \<Rightarrow> string" where
  "describe_dtc_status status =
     (let out = foldl (\<lambda>out (b, n).
          if status AND dtc_status_value b \<noteq> 0 then (if out \<noteq> [] then out @ '', '' else out) @ n else out) [] kBits
      in if out = [] then ''none'' else out)"

record dtc =
  dtc_code :: u32
  dtc_status :: u8
  dtc_text :: string

text \<open>\<open>push_be\<close> of the client and of the server: the low \<open>n\<close> bytes, most significant first.\<close>

definition push_be :: "bytes \<Rightarrow> u32 \<Rightarrow> nat \<Rightarrow> bytes" where
  "push_be out v n = out @ map (\<lambda>i. ucast (drop_bit ((i - 1) * 8) v AND 0xFF)) (rev [1..<Suc n])"

subsection \<open>The client\<close>

record client_config =
  cfg_transport :: isotp_config
  cfg_p2_ns :: u64
  cfg_p2_star_ns :: u64
  cfg_max_response_pending :: u32
  cfg_s3_ns :: u64
  cfg_keepalive :: bool

definition default_client_config :: "isotp_config \<Rightarrow> client_config" where
  "default_client_config t = \<lparr>cfg_transport = t, cfg_p2_ns = 50000000, cfg_p2_star_ns = 5000000000,
     cfg_max_response_pending = 100, cfg_s3_ns = 5000000000, cfg_keepalive = True\<rparr>"

datatype request_state = RqIdle | RqSending | RqAwaitingResponse | RqComplete | RqFailed

record response =
  rsp_positive :: bool
  rsp_service :: u8
  rsp_nrc :: u8
  rsp_data :: bytes
  rsp_pending_count :: u32

definition new_response :: response where
  "new_response = \<lparr>rsp_positive = False, rsp_service = 0, rsp_nrc = 0, rsp_data = [], rsp_pending_count = 0\<rparr>"

record client =
  cl_config :: client_config
  cl_sender :: sender
  cl_receiver :: receiver
  cl_pending_request :: bytes
  cl_requested_service :: u8
  cl_expect_response :: bool
  cl_state :: request_state
  cl_response :: response
  cl_failure :: error
  cl_deadline_ns :: u64
  cl_pending_count :: u32
  cl_session :: u8
  cl_last_activity_ns :: u64
  cl_keepalives :: u64

definition new_client :: "client_config \<Rightarrow> client" where
  "new_client c = \<lparr>cl_config = c, cl_sender = new_sender (cfg_transport c),
     cl_receiver = new_receiver (cfg_transport c), cl_pending_request = [], cl_requested_service = 0,
     cl_expect_response = True, cl_state = RqIdle, cl_response = new_response,
     cl_failure = Error Ok [] (0, 0), cl_deadline_ns = 0, cl_pending_count = 0,
     cl_session = session_value SesDefault, cl_last_activity_ns = 0, cl_keepalives = 0\<rparr>"

definition client_busy :: "client \<Rightarrow> bool" where
  "client_busy c \<longleftrightarrow> cl_state c = RqSending \<or> cl_state c = RqAwaitingResponse"

definition client_finish :: "client \<Rightarrow> response \<Rightarrow> client" where
  "client_finish c r = c\<lparr>cl_response := r\<lparr>rsp_pending_count := cl_pending_count c\<rparr>, cl_state := RqComplete\<rparr>"

definition client_fail :: "client \<Rightarrow> error \<Rightarrow> client" where
  "client_fail c e = c\<lparr>cl_failure := e, cl_state := RqFailed\<rparr>"

definition begin_transfer :: "client \<Rightarrow> u64 \<Rightarrow> client" where
  "begin_transfer c now =
     (let c = c\<lparr>cl_sender := new_sender (cfg_transport (cl_config c)), cl_receiver := receiver_reset (cl_receiver c)\<rparr> in
      case sender_begin (cl_sender c) (cl_pending_request c) now of
        (Inl e, s) \<Rightarrow> client_fail (c\<lparr>cl_sender := s\<rparr>) e
      | (Inr _, s) \<Rightarrow> c\<lparr>cl_sender := s, cl_deadline_ns := now + cfg_p2_ns (cl_config c), cl_last_activity_ns := now\<rparr>)"

definition has_sub_function :: "u8 \<Rightarrow> bool" where
  "has_sub_function s \<longleftrightarrow> s = service_value SvcDiagnosticSessionControl \<or> s = service_value SvcEcuReset \<or>
     s = service_value SvcSecurityAccess \<or> s = service_value SvcCommunicationControl \<or>
     s = service_value SvcRoutineControl \<or> s = service_value SvcTesterPresent \<or>
     s = service_value SvcReadDtcInformation"

definition client_request :: "client \<Rightarrow> bytes \<Rightarrow> u64 \<Rightarrow> status \<times> client" where
  "client_request c payload now =
     (if client_busy c then (Inl (plain_error InvalidArgument ''a request is already in flight''), c)
      else if payload = [] then (Inl (plain_error InvalidArgument ''a UDS request needs a service id''), c)
      else
        let svc = payload ! 0;
            expect = \<not> (has_sub_function svc \<and> length payload \<ge> 2 \<and> payload ! 1 AND kSuppressPositiveResponse \<noteq> 0);
            c = c\<lparr>cl_requested_service := svc, cl_expect_response := expect, cl_pending_request := payload,
                  cl_response := new_response, cl_pending_count := 0, cl_state := RqSending\<rparr>
        in (ok, begin_transfer c now))"

definition client_on_frame :: "client \<Rightarrow> frame \<Rightarrow> u64 \<Rightarrow> client" where
  "client_on_frame c f now =
     (if cl_state c = RqSending then c\<lparr>cl_sender := sender_on_frame (cl_sender c) f now\<rparr>
      else if cl_state c = RqAwaitingResponse then c\<lparr>cl_receiver := receiver_on_frame (cl_receiver c) f now\<rparr>
      else c)"

definition handle_message :: "client \<Rightarrow> bytes \<Rightarrow> u64 \<Rightarrow> client" where
  "handle_message c message now =
     (let c = c\<lparr>cl_last_activity_ns := now\<rparr> in
      if message = [] then client_fail c (plain_error ParseSemantic ''empty UDS response'')
      else if message ! 0 = kNegativeResponse then
        if length message < 3 then client_fail c (plain_error ParseSemantic ''truncated negative response'')
        else
          let svc = message ! 1; code = message ! 2 in
          if code = nrc_value NrcRequestCorrectlyReceivedResponsePending then
            let c = c\<lparr>cl_pending_count := cl_pending_count c + 1\<rparr> in
            if cfg_max_response_pending (cl_config c) \<noteq> 0 \<and>
               cl_pending_count c > cfg_max_response_pending (cl_config c)
            then client_fail c (Error TransportTimeout ''the server kept answering responsePending''
                   (cl_pending_count c, 0))
            else c\<lparr>cl_deadline_ns := now + cfg_p2_star_ns (cl_config c)\<rparr>
          else client_finish c (new_response\<lparr>rsp_service := svc, rsp_nrc := code\<rparr>)
      else if uint (message ! 0) \<noteq> uint (cl_requested_service c) + uint kPositiveResponseOffset
      then client_fail c (Error ParseSemantic ''the response does not answer the request that was sent''
             (ucast (message ! 0), ucast (cl_requested_service c)))
      else
        let data = drop 1 message;
            c = (if cl_requested_service c = service_value SvcDiagnosticSessionControl \<and> data \<noteq> []
                 then c\<lparr>cl_session := data ! 0 AND 0x7F\<rparr> else c)
        in client_finish c (new_response\<lparr>rsp_positive := True, rsp_service := message ! 0, rsp_data := data\<rparr>))"

definition transfer_result_value :: "transfer_result \<Rightarrow> u32" where
  "transfer_result_value r =
     (case r of InProgress \<Rightarrow> 0 | TransferOk \<Rightarrow> 1 | TimeoutA \<Rightarrow> 2 | TimeoutBs \<Rightarrow> 3 | TimeoutCr \<Rightarrow> 4
      | WrongSequence \<Rightarrow> 5 | UnexpectedPdu \<Rightarrow> 6 | BufferOverflow \<Rightarrow> 7 | WaitOverrun \<Rightarrow> 8 | InvalidPdu \<Rightarrow> 9
      | Aborted \<Rightarrow> 10)"

text \<open>The three parts of \<open>poll\<close>. The first returns whether \<open>poll\<close> returns right after it.\<close>

definition poll_sending :: "client \<Rightarrow> u64 \<Rightarrow> (bool \<times> client \<times> frame list) option" where
  "poll_sending c now =
     (if cl_state c \<noteq> RqSending then Some (False, c, [])
      else case sender_poll (cl_sender c) now of
        None \<Rightarrow> None
      | Some (s, fs) \<Rightarrow>
          let c = c\<lparr>cl_sender := s\<rparr> in
          if \<not> sender_done s then Some (False, c, fs)
          else if snd_result s \<noteq> TransferOk
          then Some (True, client_fail c (Error TransportWriteFailed ''the request could not be transported''
                 (transfer_result_value (snd_result s), 0)), fs)
          else if \<not> cl_expect_response c
          then Some (True, client_finish c (new_response\<lparr>rsp_positive := True, rsp_service := cl_requested_service c\<rparr>), fs)
          else Some (False, c\<lparr>cl_state := RqAwaitingResponse, cl_deadline_ns := now + cfg_p2_ns (cl_config c)\<rparr>, fs))"

definition poll_awaiting :: "client \<Rightarrow> u64 \<Rightarrow> (client \<times> frame list) option" where
  "poll_awaiting c now =
     (if cl_state c \<noteq> RqAwaitingResponse then Some (c, [])
      else case receiver_poll (cl_receiver c) now of
        None \<Rightarrow> None
      | Some (r, fs) \<Rightarrow>
          let c = c\<lparr>cl_receiver := r\<rparr> in
          Some (if has_message r
                then handle_message (c\<lparr>cl_receiver := receiver_reset r\<rparr>) (rcv_payload r) now
                else if receiver_done r
                then client_fail c (Error TransportReadFailed ''the response could not be reassembled''
                       (transfer_result_value (rcv_result r), 0))
                else if now \<ge> cl_deadline_ns c
                then client_fail c (plain_error TransportTimeout ''the server did not answer within P2'')
                else c, fs))"

definition poll_keepalive :: "client \<Rightarrow> u64 \<Rightarrow> (client \<times> frame list) option" where
  "poll_keepalive c now =
     (if cfg_keepalive (cl_config c) \<and> cl_state c = RqComplete \<and> cl_session c \<noteq> session_value SesDefault \<and>
         now \<ge> cl_last_activity_ns c + (cfg_s3_ns (cl_config c) * 2) div 5
      then case sender_begin (new_sender (cfg_transport (cl_config c)))
                  [service_value SvcTesterPresent, 0x00 OR kSuppressPositiveResponse] now of
        (Inl _, _) \<Rightarrow> Some (c, [])
      | (Inr _, s) \<Rightarrow>
          (case sender_poll s now of
             None \<Rightarrow> None
           | Some (_, fs) \<Rightarrow>
               Some (c\<lparr>cl_keepalives := cl_keepalives c + 1, cl_last_activity_ns := now\<rparr>, fs))
      else Some (c, []))"

definition client_poll :: "client \<Rightarrow> u64 \<Rightarrow> (client \<times> frame list) option" where
  "client_poll c now =
     (case poll_sending c now of
        None \<Rightarrow> None
      | Some (returned, c1, fs1) \<Rightarrow>
          if returned then Some (c1, fs1)
          else (case poll_awaiting c1 now of
                  None \<Rightarrow> None
                | Some (c2, fs2) \<Rightarrow>
                    (case poll_keepalive c2 now of
                       None \<Rightarrow> None
                     | Some (c3, fs3) \<Rightarrow> Some (c3, fs1 @ fs2 @ fs3))))"

subsection \<open>The payload of each service\<close>

definition diagnostic_session_control :: "client \<Rightarrow> session_type \<Rightarrow> u64 \<Rightarrow> bool \<Rightarrow> status \<times> client" where
  "diagnostic_session_control c session now suppress =
     (let sub = session_value session;
          sub = (if suppress then sub OR kSuppressPositiveResponse else sub)
      in client_request c [service_value SvcDiagnosticSessionControl, sub] now)"

definition ecu_reset :: "client \<Rightarrow> reset_type \<Rightarrow> u64 \<Rightarrow> status \<times> client" where
  "ecu_reset c type now = client_request c [service_value SvcEcuReset, reset_value type] now"

definition clear_diagnostic_information :: "client \<Rightarrow> u32 \<Rightarrow> u64 \<Rightarrow> status \<times> client" where
  "clear_diagnostic_information c grp now =
     client_request c (push_be [service_value SvcClearDiagnosticInformation] grp 3) now"

definition read_dtc_information :: "client \<Rightarrow> dtc_report_type \<Rightarrow> u8 \<Rightarrow> u64 \<Rightarrow> status \<times> client" where
  "read_dtc_information c type status_mask now =
     client_request c [service_value SvcReadDtcInformation, dtc_report_value type, status_mask] now"

definition read_data_by_identifier :: "client \<Rightarrow> u16 \<Rightarrow> u64 \<Rightarrow> status \<times> client" where
  "read_data_by_identifier c did now =
     client_request c (push_be [service_value SvcReadDataByIdentifier] (ucast did) 2) now"

definition write_data_by_identifier :: "client \<Rightarrow> u16 \<Rightarrow> bytes \<Rightarrow> u64 \<Rightarrow> status \<times> client" where
  "write_data_by_identifier c did value now =
     client_request c (push_be [service_value SvcWriteDataByIdentifier] (ucast did) 2 @ value) now"

definition security_access_request_seed :: "client \<Rightarrow> u8 \<Rightarrow> u64 \<Rightarrow> status \<times> client" where
  "security_access_request_seed c level now =
     (if level AND 1 = 0
      then (Inl (plain_error InvalidArgument ''a requestSeed sub-function must be odd''), c)
      else client_request c [service_value SvcSecurityAccess, level] now)"

definition security_access_send_key :: "client \<Rightarrow> u8 \<Rightarrow> bytes \<Rightarrow> u64 \<Rightarrow> status \<times> client" where
  "security_access_send_key c level key now =
     (if level AND 1 \<noteq> 0
      then (Inl (plain_error InvalidArgument ''a sendKey sub-function must be even''), c)
      else client_request c ([service_value SvcSecurityAccess, level] @ key) now)"

definition routine_control :: "client \<Rightarrow> routine_control_type \<Rightarrow> u16 \<Rightarrow> bytes \<Rightarrow> u64 \<Rightarrow> status \<times> client" where
  "routine_control c type routine parameters now =
     client_request c (push_be [service_value SvcRoutineControl, routine_control_value type] (ucast routine) 2
       @ parameters) now"

definition request_download :: "client \<Rightarrow> u32 \<Rightarrow> u32 \<Rightarrow> u8 \<Rightarrow> u8 \<Rightarrow> u64 \<Rightarrow> status \<times> client" where
  "request_download c addr sz address_bytes size_bytes now =
     (if address_bytes = 0 \<or> address_bytes > 4 \<or> size_bytes = 0 \<or> size_bytes > 4
      then (Inl (plain_error InvalidArgument ''address and size must each be one to four bytes''), c)
      else
        let payload = [service_value SvcRequestDownload, 0x00, push_bit 4 size_bytes OR address_bytes];
            payload = push_be payload addr (unat address_bytes);
            payload = push_be payload sz (unat size_bytes)
        in client_request c payload now)"

definition transfer_data :: "client \<Rightarrow> u8 \<Rightarrow> bytes \<Rightarrow> u64 \<Rightarrow> status \<times> client" where
  "transfer_data c block_counter data now =
     client_request c ([service_value SvcTransferData, block_counter] @ data) now"

definition request_transfer_exit :: "client \<Rightarrow> u64 \<Rightarrow> status \<times> client" where
  "request_transfer_exit c now = client_request c [service_value SvcRequestTransferExit] now"

definition tester_present :: "client \<Rightarrow> u64 \<Rightarrow> bool \<Rightarrow> status \<times> client" where
  "tester_present c now suppress =
     (let sub = (if suppress then kSuppressPositiveResponse else 0)
      in client_request c [service_value SvcTesterPresent, sub] now)"

text \<open>The loop of \<open>parse_dtc_list\<close> over the records, from index 2 on.\<close>

fun dtc_records :: "bytes \<Rightarrow> dtc list" where
  "dtc_records (a # b # c # s # rest) =
     \<lparr>dtc_code = push_bit 16 (ucast a) OR push_bit 8 (ucast b) OR ucast c, dtc_status = s, dtc_text = []\<rparr>
     # dtc_records rest"
| "dtc_records _ = []"

definition parse_dtc_list :: "bytes \<Rightarrow> dtc list" where
  "parse_dtc_list data = (if length data < 2 then [] else dtc_records (drop 2 data))"

end
