(* ===== verification/UdsServer.thy ===== *)
theory UdsServer
  imports Uds
begin

text \<open>
  \<open>sim/include/canforge/sim/UdsServer.hpp\<close> and \<open>sim/src/UdsServer.cpp\<close>: the simulated diagnostic
  server. \<open>handle\<close> is split by service; each part takes the server and the request and returns the
  response and the server after it, an empty response meaning that nothing is sent. The one access
  of the code that is not guarded, the read of \<open>flash_\<close> in the verify routine, makes \<open>handle\<close> return
  \<open>None\<close> when it would leave the vector.
\<close>

subsection \<open>Configuration and state\<close>

record server_config =
  svc_transport :: isotp_config
  svc_security_secret :: u32
  svc_flash_size :: u32
  svc_flash_base :: u32
  svc_pending_responses_per_block :: u32
  svc_erase_duration_ns :: u64
  svc_data_by_identifier :: "u16 \<rightharpoonup> bytes"
  svc_dtcs :: "dtc list"

definition ascii_bytes :: "string \<Rightarrow> bytes" where
  "ascii_bytes s = map (\<lambda>c. of_nat (of_char c)) s"

definition default_server_config :: "isotp_config \<Rightarrow> server_config" where
  "default_server_config t = \<lparr>svc_transport = t, svc_security_secret = 0xA5C3F00D, svc_flash_size = 64 * 1024,
     svc_flash_base = 0x08000000, svc_pending_responses_per_block = 0, svc_erase_duration_ns = 0,
     svc_data_by_identifier = [0xF190 \<mapsto> ascii_bytes ''CANFORGE0SIM00001'', 0xF189 \<mapsto> ascii_bytes ''SW-1.4.2'',
       0xF18A \<mapsto> ascii_bytes ''canforge'', 0x0100 \<mapsto> [0x00, 0x00]],
     svc_dtcs =
       [\<lparr>dtc_code = 0x010301, dtc_status = dtc_status_value DtsConfirmedDtc OR dtc_status_value DtsTestFailed,
          dtc_text = ''cylinder 1 misfire''\<rparr>,
        \<lparr>dtc_code = 0x011716, dtc_status = dtc_status_value DtsPendingDtc,
          dtc_text = ''coolant temperature circuit low''\<rparr>,
        \<lparr>dtc_code = 0xC00A00,
          dtc_status = dtc_status_value DtsConfirmedDtc OR dtc_status_value DtsWarningIndicatorRequested,
          dtc_text = ''lost communication with TCM''\<rparr>]\<rparr>"

record uds_server =
  sv_config :: server_config
  sv_receiver :: receiver
  sv_sender :: sender
  sv_sending :: bool
  sv_session :: u8
  sv_unlocked :: bool
  sv_last_seed :: u32
  sv_security_level :: u8
  sv_flash :: bytes
  sv_download_active :: bool
  sv_download_complete :: bool
  sv_download_address :: u32
  sv_download_size :: u32
  sv_download_written :: u32
  sv_expected_block :: u8
  sv_pending_left :: u32
  sv_deferred_response :: bytes
  sv_deferred_service :: u8
  sv_deferred_until_ns :: u64
  sv_dtcs :: "dtc list"
  sv_handled :: u64
  sv_tester_present :: u64

definition new_server :: "server_config \<Rightarrow> uds_server" where
  "new_server c = \<lparr>sv_config = c, sv_receiver = new_receiver (svc_transport c), sv_sender = new_sender (svc_transport c),
     sv_sending = False, sv_session = session_value SesDefault, sv_unlocked = False, sv_last_seed = 0,
     sv_security_level = 0, sv_flash = replicate (unat (svc_flash_size c)) 0xFF, sv_download_active = False,
     sv_download_complete = False, sv_download_address = 0, sv_download_size = 0, sv_download_written = 0,
     sv_expected_block = 1, sv_pending_left = 0, sv_deferred_response = [], sv_deferred_service = 0,
     sv_deferred_until_ns = 0, sv_dtcs = svc_dtcs c, sv_handled = 0, sv_tester_present = 0\<rparr>"

definition add_dtc :: "uds_server \<Rightarrow> dtc \<Rightarrow> uds_server" where
  "add_dtc s d = s\<lparr>sv_dtcs := sv_dtcs s @ [d]\<rparr>"

definition toy_key_from_seed :: "u32 \<Rightarrow> u32 \<Rightarrow> u32" where
  "toy_key_from_seed seed secret = (push_bit 3 seed OR drop_bit 29 seed) XOR secret"

definition read_be :: "bytes \<Rightarrow> nat \<Rightarrow> nat \<Rightarrow> u32" where
  "read_be data at n = foldl (\<lambda>v i. push_bit 8 v OR ucast (data ! (at + i))) 0 [0..<n]"

subsection \<open>Responses\<close>

definition negative :: "u8 \<Rightarrow> nrc \<Rightarrow> bytes" where
  "negative s n = [kNegativeResponse, s, nrc_value n]"

definition suppressed :: "bytes \<Rightarrow> bool" where
  "suppressed request \<longleftrightarrow> has_sub_function (request ! 0) \<and> length request \<ge> 2 \<and>
     request ! 1 AND kSuppressPositiveResponse \<noteq> 0"

definition sub_of :: "bytes \<Rightarrow> u8" where
  "sub_of request = (if length request \<ge> 2 then request ! 1 AND 0x7F else 0)"

definition positive :: "bytes \<Rightarrow> bytes \<Rightarrow> bytes" where
  "positive request body = (if suppressed request then [] else (request ! 0 + kPositiveResponseOffset) # body)"

subsection \<open>The services\<close>

definition sv_session_control :: "uds_server \<Rightarrow> bytes \<Rightarrow> bytes \<times> uds_server" where
  "sv_session_control s request =
     (let svc = request ! 0; sub = sub_of request in
      if length request < 2 then (negative svc NrcIncorrectMessageLengthOrInvalidFormat, s)
      else if sub < 1 \<or> sub > 4 then (negative svc NrcSubFunctionNotSupported, s)
      else
        let s = s\<lparr>sv_session := sub\<rparr>;
            s = (if sv_session s = session_value SesDefault then s\<lparr>sv_unlocked := False\<rparr> else s)
        in (positive request (push_be (push_be [sub] 50 2) 500 2), s))"

definition sv_ecu_reset :: "uds_server \<Rightarrow> bytes \<Rightarrow> bytes \<times> uds_server" where
  "sv_ecu_reset s request =
     (let svc = request ! 0; sub = sub_of request in
      if length request < 2 then (negative svc NrcIncorrectMessageLengthOrInvalidFormat, s)
      else if sub < 1 \<or> sub > 5 then (negative svc NrcSubFunctionNotSupported, s)
      else (positive request [sub],
            s\<lparr>sv_session := session_value SesDefault, sv_unlocked := False, sv_download_active := False\<rparr>))"

definition sv_tester_present_service :: "uds_server \<Rightarrow> bytes \<Rightarrow> bytes \<times> uds_server" where
  "sv_tester_present_service s request =
     (let s = s\<lparr>sv_tester_present := sv_tester_present s + 1\<rparr> in
      if length request < 2 \<or> sub_of request \<noteq> 0
      then (negative (request ! 0) NrcSubFunctionNotSupported, s)
      else (positive request [0x00], s))"

definition sv_read_data :: "uds_server \<Rightarrow> bytes \<Rightarrow> bytes \<times> uds_server" where
  "sv_read_data s request =
     (let svc = request ! 0 in
      if length request < 3 then (negative svc NrcIncorrectMessageLengthOrInvalidFormat, s)
      else
        let did = ucast (read_be request 1 2) :: u16 in
        case svc_data_by_identifier (sv_config s) did of
          None \<Rightarrow> (negative svc NrcRequestOutOfRange, s)
        | Some v \<Rightarrow> (positive request (push_be [] (ucast did) 2 @ v), s))"

definition sv_write_data :: "uds_server \<Rightarrow> bytes \<Rightarrow> bytes \<times> uds_server" where
  "sv_write_data s request =
     (let svc = request ! 0 in
      if length request < 4 then (negative svc NrcIncorrectMessageLengthOrInvalidFormat, s)
      else
        let did = ucast (read_be request 1 2) :: u16; c = sv_config s in
        case svc_data_by_identifier c did of
          None \<Rightarrow> (negative svc NrcRequestOutOfRange, s)
        | Some v \<Rightarrow>
            if did \<ge> 0xF100 then (negative svc NrcSecurityAccessDenied, s)
            else (positive request (push_be [] (ucast did) 2),
                  s\<lparr>sv_config := c\<lparr>svc_data_by_identifier := (svc_data_by_identifier c)(did \<mapsto> drop 3 request)\<rparr>\<rparr>))"

definition sv_security_access :: "uds_server \<Rightarrow> bytes \<Rightarrow> u64 \<Rightarrow> bytes \<times> uds_server" where
  "sv_security_access s request now =
     (let svc = request ! 0; sub = sub_of request in
      if length request < 2 then (negative svc NrcIncorrectMessageLengthOrInvalidFormat, s)
      else if sv_session s = session_value SesDefault
      then (negative svc NrcServiceNotSupportedInActiveSession, s)
      else if sub AND 1 \<noteq> 0 then
        let seed = (if sv_unlocked s then 0 else 0xC0FFEE XOR ucast (now AND 0xFFFFFF))
        in (positive request (push_be [sub] seed 4), s\<lparr>sv_security_level := sub, sv_last_seed := seed\<rparr>)
      else if (ucast sub :: u32) \<noteq> ucast (sv_security_level s) + 1
      then (negative svc NrcRequestSequenceError, s)
      else if length request < 6 then (negative svc NrcIncorrectMessageLengthOrInvalidFormat, s)
      else if read_be request 2 4 \<noteq> toy_key_from_seed (sv_last_seed s) (svc_security_secret (sv_config s))
      then (negative svc NrcInvalidKey, s)
      else (positive request [sub], s\<lparr>sv_unlocked := True\<rparr>))"

definition sv_clear_dtcs :: "uds_server \<Rightarrow> bytes \<Rightarrow> bytes \<times> uds_server" where
  "sv_clear_dtcs s request =
     (let svc = request ! 0 in
      if length request < 4 then (negative svc NrcIncorrectMessageLengthOrInvalidFormat, s)
      else
        let grp = read_be request 1 3;
            left = (if grp = 0xFFFFFF then [] else filter (\<lambda>d. drop_bit 16 (dtc_code d) \<noteq> drop_bit 16 grp) (sv_dtcs s))
        in (positive request [], s\<lparr>sv_dtcs := left\<rparr>))"

definition dtc_record_bytes :: "dtc \<Rightarrow> bytes" where
  "dtc_record_bytes d = push_be [] (dtc_code d) 3 @ [dtc_status d]"

definition sv_read_dtcs :: "uds_server \<Rightarrow> bytes \<Rightarrow> bytes \<times> uds_server" where
  "sv_read_dtcs s request =
     (let svc = request ! 0; sub = sub_of request in
      if length request < 2 then (negative svc NrcIncorrectMessageLengthOrInvalidFormat, s)
      else if sub = dtc_report_value DtrReportNumberOfDtcByStatusMask then
        if length request < 3 then (negative svc NrcIncorrectMessageLengthOrInvalidFormat, s)
        else
          let count = of_nat (length (filter (\<lambda>d. dtc_status d AND request ! 2 \<noteq> 0) (sv_dtcs s))) :: u16
          in (positive request (push_be [sub, 0xFF, 0x01] (ucast count) 2), s)
      else if sub = dtc_report_value DtrReportDtcByStatusMask \<or> sub = dtc_report_value DtrReportSupportedDtc then
        let supported = (sub = dtc_report_value DtrReportSupportedDtc);
            m = (if supported then 0xFF else if length request \<ge> 3 then request ! 2 else 0xFF);
            reported = filter (\<lambda>d. supported \<or> dtc_status d AND m \<noteq> 0) (sv_dtcs s)
        in (positive request ([sub, 0xFF] @ concat (map dtc_record_bytes reported)), s)
      else (negative svc NrcSubFunctionNotSupported, s))"

definition sv_erase :: "uds_server \<Rightarrow> bytes \<Rightarrow> u64 \<Rightarrow> bytes \<Rightarrow> bytes \<times> uds_server" where
  "sv_erase s request now body =
     (let svc = request ! 0 in
      if \<not> sv_unlocked s then (negative svc NrcSecurityAccessDenied, s)
      else
        let s = s\<lparr>sv_flash := replicate (length (sv_flash s)) 0xFF\<rparr>;
            d = svc_erase_duration_ns (sv_config s) in
        if d \<noteq> 0
        then (negative svc NrcRequestCorrectlyReceivedResponsePending,
              s\<lparr>sv_deferred_response := (svc + kPositiveResponseOffset) # body @ [0x00], sv_deferred_service := svc,
                sv_deferred_until_ns := now + d, sv_pending_left := 1\<rparr>)
        else (positive request (body @ [0x00]), s))"

definition flash_sum :: "bytes \<Rightarrow> nat \<Rightarrow> u32 option" where
  "flash_sum flash n = (if n > length flash then None else Some (sum_list (map ucast (take n flash))))"

definition sv_routine_control :: "uds_server \<Rightarrow> bytes \<Rightarrow> u64 \<Rightarrow> (bytes \<times> uds_server) option" where
  "sv_routine_control s request now =
     (let svc = request ! 0 in
      if length request < 4 then Some (negative svc NrcIncorrectMessageLengthOrInvalidFormat, s)
      else
        let routine = ucast (read_be request 2 2) :: u16; body = push_be [sub_of request] (ucast routine) 2 in
        if routine = 0xFF00 then Some (sv_erase s request now body)
        else if routine = 0xFF01 then
          (case flash_sum (sv_flash s) (unat (sv_download_written s)) of
             None \<Rightarrow> None
           | Some v \<Rightarrow> Some (positive request (push_be body v 4), s))
        else Some (negative svc NrcRequestOutOfRange, s))"

definition sv_request_download :: "uds_server \<Rightarrow> bytes \<Rightarrow> bytes \<times> uds_server" where
  "sv_request_download s request =
     (let svc = request ! 0 in
      if length request < 4 then (negative svc NrcIncorrectMessageLengthOrInvalidFormat, s)
      else if sv_session s \<noteq> session_value SesProgramming
      then (negative svc NrcServiceNotSupportedInActiveSession, s)
      else if \<not> sv_unlocked s then (negative svc NrcSecurityAccessDenied, s)
      else
        let a = unat (request ! 2 AND 0x0F); z = unat (drop_bit 4 (request ! 2) AND 0x0F) in
        if a = 0 \<or> z = 0 \<or> length request < 3 + a + z
        then (negative svc NrcIncorrectMessageLengthOrInvalidFormat, s)
        else
          let s = s\<lparr>sv_download_address := read_be request 3 a, sv_download_size := read_be request (3 + a) z\<rparr>;
              c = sv_config s in
          if sv_download_address s < svc_flash_base c \<or>
             sv_download_address s - svc_flash_base c + sv_download_size s > svc_flash_size c
          then (negative svc NrcRequestOutOfRange, s)
          else (positive request (push_be [0x20] 512 2),
                s\<lparr>sv_download_active := True, sv_download_complete := False, sv_download_written := 0,
                  sv_expected_block := 1\<rparr>))"

definition sv_transfer_data :: "uds_server \<Rightarrow> bytes \<Rightarrow> u64 \<Rightarrow> bytes \<times> uds_server" where
  "sv_transfer_data s request now =
     (let svc = request ! 0; c = sv_config s in
      if \<not> sv_download_active s then (negative svc NrcRequestSequenceError, s)
      else if length request < 2 then (negative svc NrcIncorrectMessageLengthOrInvalidFormat, s)
      else
        let block = request ! 1 in
        if block \<noteq> sv_expected_block s
        then if block = sv_expected_block s - 1 then (positive request [block], s)
             else (negative svc NrcWrongBlockSequenceCounter, s)
        else
          let data = drop 2 request; count = length data;
              offset = unat (sv_download_address s - svc_flash_base c + sv_download_written s) in
          if offset + count > length (sv_flash s) then (negative svc NrcRequestOutOfRange, s)
          else
            let next = sv_expected_block s + 1;
                s = s\<lparr>sv_flash := take offset (sv_flash s) @ data @ drop (offset + count) (sv_flash s),
                      sv_download_written := sv_download_written s + of_nat count,
                      sv_expected_block := (if next = 0 then 1 else next)\<rparr> in
            if svc_pending_responses_per_block c \<noteq> 0
            then (negative svc NrcRequestCorrectlyReceivedResponsePending,
                  s\<lparr>sv_deferred_response := [svc + kPositiveResponseOffset, block], sv_deferred_service := svc,
                    sv_deferred_until_ns := now, sv_pending_left := svc_pending_responses_per_block c\<rparr>)
            else (positive request [block], s))"

definition sv_transfer_exit :: "uds_server \<Rightarrow> bytes \<Rightarrow> bytes \<times> uds_server" where
  "sv_transfer_exit s request =
     (let svc = request ! 0 in
      if \<not> sv_download_active s then (negative svc NrcRequestSequenceError, s)
      else if sv_download_written s \<noteq> sv_download_size s then (negative svc NrcGeneralProgrammingFailure, s)
      else (positive request [], s\<lparr>sv_download_active := False, sv_download_complete := True\<rparr>))"

definition all_services :: "service list" where
  "all_services = [SvcDiagnosticSessionControl, SvcEcuReset, SvcClearDiagnosticInformation, SvcReadDtcInformation,
     SvcReadDataByIdentifier, SvcSecurityAccess, SvcCommunicationControl, SvcWriteDataByIdentifier,
     SvcRoutineControl, SvcRequestDownload, SvcTransferData, SvcRequestTransferExit, SvcTesterPresent]"

definition service_of :: "u8 \<Rightarrow> service option" where
  "service_of b = find (\<lambda>s. service_value s = b) all_services"

definition server_handle :: "uds_server \<Rightarrow> bytes \<Rightarrow> u64 \<Rightarrow> (bytes \<times> uds_server) option" where
  "server_handle s request now =
     (if request = [] then Some ([], s)
      else case service_of (request ! 0) of
        None \<Rightarrow> Some (negative (request ! 0) NrcServiceNotSupported, s)
      | Some svc \<Rightarrow>
          (case svc of
             SvcDiagnosticSessionControl \<Rightarrow> Some (sv_session_control s request)
           | SvcEcuReset \<Rightarrow> Some (sv_ecu_reset s request)
           | SvcTesterPresent \<Rightarrow> Some (sv_tester_present_service s request)
           | SvcReadDataByIdentifier \<Rightarrow> Some (sv_read_data s request)
           | SvcWriteDataByIdentifier \<Rightarrow> Some (sv_write_data s request)
           | SvcSecurityAccess \<Rightarrow> Some (sv_security_access s request now)
           | SvcClearDiagnosticInformation \<Rightarrow> Some (sv_clear_dtcs s request)
           | SvcReadDtcInformation \<Rightarrow> Some (sv_read_dtcs s request)
           | SvcRoutineControl \<Rightarrow> sv_routine_control s request now
           | SvcRequestDownload \<Rightarrow> Some (sv_request_download s request)
           | SvcTransferData \<Rightarrow> Some (sv_transfer_data s request now)
           | SvcRequestTransferExit \<Rightarrow> Some (sv_transfer_exit s request)
           | SvcCommunicationControl \<Rightarrow> Some (positive request [sub_of request], s)))"

subsection \<open>The transport side\<close>

text \<open>A fresh \<open>Sender\<close> started on a payload; a payload it rejects leaves the server not sending.\<close>

definition sv_start :: "uds_server \<Rightarrow> bytes \<Rightarrow> u64 \<Rightarrow> uds_server" where
  "sv_start s payload now =
     (case sender_begin (new_sender (svc_transport (sv_config s))) payload now of
        (Inl _, x) \<Rightarrow> s\<lparr>sv_sender := x\<rparr>
      | (Inr _, x) \<Rightarrow> s\<lparr>sv_sender := x, sv_sending := True\<rparr>)"

definition server_on_frame :: "uds_server \<Rightarrow> frame \<Rightarrow> u64 \<Rightarrow> uds_server option" where
  "server_on_frame s f now =
     (if sv_sending s then Some (s\<lparr>sv_sender := sender_on_frame (sv_sender s) f now\<rparr>)
      else
        let r = receiver_on_frame (sv_receiver s) f now in
        if \<not> has_message r then Some (s\<lparr>sv_receiver := r\<rparr>)
        else case server_handle (s\<lparr>sv_receiver := receiver_reset r, sv_handled := sv_handled s + 1\<rparr>) (rcv_payload r) now of
          None \<Rightarrow> None
        | Some (rsp, s') \<Rightarrow> Some (if rsp \<noteq> [] then sv_start s' rsp now else s'))"

definition server_poll :: "uds_server \<Rightarrow> u64 \<Rightarrow> (uds_server \<times> frame list) option" where
  "server_poll s now =
     (let s = (if sv_deferred_response s \<noteq> [] \<and> now \<ge> sv_deferred_until_ns s \<and> \<not> sv_sending s
               then (sv_start s (sv_deferred_response s) now)\<lparr>sv_deferred_response := []\<rparr> else s) in
      if sv_sending s then
        (case sender_poll (sv_sender s) now of
           None \<Rightarrow> None
         | Some (x, fs) \<Rightarrow>
             let s = s\<lparr>sv_sender := x\<rparr> in
             Some (if sender_done x then s\<lparr>sv_sending := False, sv_receiver := receiver_reset (sv_receiver s)\<rparr>
                   else s, fs))
      else if sv_pending_left s > 0 \<and> sv_deferred_response s \<noteq> [] then
        let s = s\<lparr>sv_pending_left := sv_pending_left s - 1\<rparr> in
        Some (sv_start s [kNegativeResponse, sv_deferred_service s,
                nrc_value NrcRequestCorrectlyReceivedResponsePending] now, [])
      else
        (case receiver_poll (sv_receiver s) now of
           None \<Rightarrow> None
         | Some (r, fs) \<Rightarrow> Some (s\<lparr>sv_receiver := r\<rparr>, fs)))"

end
