(* ===== verification/Uds_Cli.thy ===== *)
theory Uds_Cli
  imports UdsServer
begin

text \<open>
  \<open>command_uds\<close> of \<open>cli/src/canforge.cpp\<close>: the diagnostic session and the flash sequence that the tool runs against
  the simulated server, from the arguments to the exit code. The client and the server talk through their frames:
  \<open>pump\<close> polls the two in turn, hands each the frames of the other and advances the clock by 200 microseconds a
  round, so ISO-TP segmentation, flow control and the P2 and P2* deadlines all run. \<open>None\<close> is an abort of the
  program. What is printed is left out.
\<close>

subsection \<open>The two ends\<close>

definition kMs :: u64 where "kMs = 1000000"

text \<open>0x7E0 and 0x7E8 are standard identifiers, so \<open>CanId::standard\<close> accepts them.\<close>

definition client_transport :: isotp_config where
  "client_transport = default_config (normal_address (CanId 0x7E0) (CanId 0x7E8))"

definition server_transport :: isotp_config where
  "server_transport = default_config (normal_address (CanId 0x7E8) (CanId 0x7E0))"

definition cli_client :: client where
  "cli_client = new_client (default_client_config client_transport)"

definition cli_server_config :: server_config where
  "cli_server_config = (default_server_config server_transport)\<lparr>svc_erase_duration_ns := 300 * kMs\<rparr>"

definition cli_server :: uds_server where
  "cli_server = new_server cli_server_config"

subsection \<open>The pump\<close>

fun server_on_frames :: "uds_server \<Rightarrow> frame list \<Rightarrow> u64 \<Rightarrow> uds_server option" where
  "server_on_frames s [] now = Some s"
| "server_on_frames s (f # fs) now =
     (case server_on_frame s f now of None \<Rightarrow> None | Some s \<Rightarrow> server_on_frames s fs now)"

definition client_on_frames :: "client \<Rightarrow> frame list \<Rightarrow> u64 \<Rightarrow> client" where
  "client_on_frames c fs now = foldl (\<lambda>c f. client_on_frame c f now) c fs"

text \<open>The two inner loops of a round.\<close>

definition client_turn :: "client \<Rightarrow> uds_server \<Rightarrow> u64 \<Rightarrow> (client \<times> uds_server) option" where
  "client_turn c s now =
     (case client_poll c now of
        None \<Rightarrow> None
      | Some (c, fs) \<Rightarrow> (case server_on_frames s fs now of None \<Rightarrow> None | Some s \<Rightarrow> Some (c, s)))"

definition server_turn :: "client \<Rightarrow> uds_server \<Rightarrow> u64 \<Rightarrow> (client \<times> uds_server) option" where
  "server_turn c s now =
     (case server_poll s now of None \<Rightarrow> None | Some (s, fs) \<Rightarrow> Some (client_on_frames c fs now, s))"

primrec pump_rounds :: "nat \<Rightarrow> client \<Rightarrow> uds_server \<Rightarrow> u64 \<Rightarrow> (client \<times> uds_server \<times> u64) option" where
  "pump_rounds 0 c s now = Some (c, s, now)"
| "pump_rounds (Suc i) c s now =
     (if \<not> client_busy c then Some (c, s, now)
      else case client_turn c s now of
        None \<Rightarrow> None
      | Some (c, s) \<Rightarrow>
          (case server_turn c s now of
             None \<Rightarrow> None
           | Some (c, s) \<Rightarrow> pump_rounds i c s (now + 200000)))"

definition pump :: "client \<Rightarrow> uds_server \<Rightarrow> u64 \<Rightarrow> (bool \<times> client \<times> uds_server \<times> u64) option" where
  "pump c s now =
     (case pump_rounds 2000000 c s now of
        None \<Rightarrow> None
      | Some (c, s, now) \<Rightarrow> Some (\<not> client_busy c \<and> cl_state c = RqComplete, c, s, now))"

text \<open>
  \<open>step\<close>, and the condition of the transfer loop, on the client a request call left. The status of that call is
  discarded by the code.
\<close>

definition step :: "status \<times> client \<Rightarrow> uds_server \<Rightarrow> u64 \<Rightarrow> (bool \<times> client \<times> uds_server \<times> u64) option" where
  "step r s now =
     (case pump (snd r) s now of
        None \<Rightarrow> None
      | Some (finished, c, s, now) \<Rightarrow> Some (finished \<and> rsp_positive (cl_response c), c, s, now))"

subsection \<open>The command\<close>

text \<open>\<open>if (!step(...)) return 1;\<close> with the rest of the command as \<open>rest\<close>.\<close>

definition or_exit :: "(bool \<times> client \<times> uds_server \<times> u64) option \<Rightarrow>
    (client \<Rightarrow> uds_server \<Rightarrow> u64 \<Rightarrow> (int \<times> client \<times> uds_server) option) \<Rightarrow> (int \<times> client \<times> uds_server) option" where
  "or_exit r rest =
     (case r of None \<Rightarrow> None | Some (good, c, s, now) \<Rightarrow> if good then rest c s now else Some (1, c, s))"

text \<open>The loops that read the seed and the reported checksum out of a response.\<close>

definition big_endian_from :: "nat \<Rightarrow> nat \<Rightarrow> bytes \<Rightarrow> u32" where
  "big_endian_from lo hi data = foldl (\<lambda>v i. push_bit 8 v OR ucast (data ! i)) 0 [lo..<min hi (length data)]"

function transfer_blocks :: "bytes \<Rightarrow> u8 \<Rightarrow> nat \<Rightarrow> client \<Rightarrow> uds_server \<Rightarrow> u64 \<Rightarrow>
    (bool \<times> client \<times> uds_server \<times> u64) option" where
  "transfer_blocks firmware block offset c s now =
     (if offset < length firmware then
        let n = min 256 (length firmware - offset) in
        case step (transfer_data c block (take n (drop offset firmware)) now) s now of
          None \<Rightarrow> None
        | Some (good, c, s, now) \<Rightarrow>
            if \<not> good then Some (False, c, s, now)
            else let block' = block + 1; block' = (if block' = 0 then 1 else block')
                 in transfer_blocks firmware block' (offset + n) c s now
      else Some (True, c, s, now))"
  by pat_completeness auto
termination by (relation "measure (\<lambda>(firmware, block, offset, c, s, now). length firmware - offset)") auto

text \<open>From the programming session to the accepted key.\<close>

definition flash_unlock :: "client \<Rightarrow> uds_server \<Rightarrow> u64 \<Rightarrow>
    (client \<Rightarrow> uds_server \<Rightarrow> u64 \<Rightarrow> (int \<times> client \<times> uds_server) option) \<Rightarrow> (int \<times> client \<times> uds_server) option" where
  "flash_unlock c s now rest =
     or_exit (step (diagnostic_session_control c SesProgramming now False) s now) (\<lambda>c s now.
     or_exit (step (security_access_request_seed c 0x01 now) s now) (\<lambda>c s now.
       let seed = big_endian_from 1 5 (rsp_data (cl_response c));
           key = toy_key_from_seed seed (svc_security_secret cli_server_config)
       in or_exit (step (security_access_send_key c 0x02
            [ucast (drop_bit 24 key AND 0xFF), ucast (drop_bit 16 key AND 0xFF), ucast (drop_bit 8 key AND 0xFF),
             ucast (key AND 0xFF)] now) s now) rest))"

definition flash_image :: "bytes \<Rightarrow> client \<Rightarrow> uds_server \<Rightarrow> u64 \<Rightarrow> (int \<times> client \<times> uds_server) option" where
  "flash_image firmware c s now =
     or_exit (step (routine_control c RcStartRoutine 0xFF00 [] now) s now) (\<lambda>c s now.
     or_exit (step (request_download c 0x08000000 (of_nat (length firmware)) 4 4 now) s now) (\<lambda>c s now.
     or_exit (transfer_blocks firmware 1 0 c s now) (\<lambda>c s now.
     or_exit (step (request_transfer_exit c now) s now) (\<lambda>c s now.
     or_exit (step (routine_control c RcStartRoutine 0xFF01 [] now) s now) (\<lambda>c s now.
       let reported = big_endian_from 3 7 (rsp_data (cl_response c));
           expected = foldl (\<lambda>v b. v + ucast b) 0 firmware
       in Some (if reported = expected then 0 else 1, c, s))))))"

text \<open>
  \<open>download\<close> is \<open>None\<close> when no file is named, \<open>Some None\<close> when the named file cannot be opened. The result is the
  exit code with the client and the server as they are when the command returns.
\<close>

definition command_uds :: "bool \<Rightarrow> bytes option option \<Rightarrow> (int \<times> client \<times> uds_server) option" where
  "command_uds virtual_bus download =
     (if \<not> virtual_bus then Some (2, cli_client, cli_server)
      else
        or_exit (step (read_data_by_identifier cli_client 0xF190 0) cli_server 0) (\<lambda>c s now.
        or_exit (step (read_dtc_information c DtrReportDtcByStatusMask 0xFF now) s now) (\<lambda>c s now.
          case download of
            None \<Rightarrow> Some (0, c, s)
          | Some None \<Rightarrow> Some (1, c, s)
          | Some (Some firmware) \<Rightarrow> flash_unlock c s now (flash_image firmware))))"

end
