(* ===== verification/Uds_Laws.thy ===== *)
theory Uds_Laws
  imports Uds IsoTp_Inv
begin

text \<open>
  The diagnostic client: its invariant over every sequence of calls, what stays put once an exchange
  has ended, how often a client can be polled past its deadline before it ends, and the texts.
\<close>

subsection \<open>Calls\<close>

datatype client_event = CallRequest bytes u64 | CallFrame frame u64 | CallPoll u64

text \<open>A \<open>poll\<close> that aborts has no next state; \<open>client_poll_total\<close> shows that there is none.\<close>

fun client_step :: "client \<Rightarrow> client_event \<Rightarrow> client" where
  "client_step c (CallRequest p t) = snd (client_request c p t)"
| "client_step c (CallFrame f t) = client_on_frame c f t"
| "client_step c (CallPoll t) = (case client_poll c t of Some (c', _) \<Rightarrow> c' | None \<Rightarrow> c)"

definition client_ended :: "client \<Rightarrow> bool" where
  "client_ended c \<longleftrightarrow> cl_state c = RqComplete \<or> cl_state c = RqFailed"

text \<open>What an accepted response is: the echo of the request, a suppressed one, or a negative one.\<close>

definition answers :: "client \<Rightarrow> response \<Rightarrow> bool" where
  "answers c r \<longleftrightarrow>
     (if rsp_positive r
      then uint (rsp_service r) = uint (cl_requested_service c) + 0x40 \<or>
           (\<not> cl_expect_response c \<and> rsp_service r = cl_requested_service c \<and> rsp_data r = [])
      else rsp_nrc r \<noteq> nrc_value NrcRequestCorrectlyReceivedResponsePending) \<and>
     rsp_pending_count r = cl_pending_count c"

definition client_ok :: "client \<Rightarrow> bool" where
  "client_ok c \<longleftrightarrow> wf_sender (cl_sender c) \<and> wf_receiver (cl_receiver c) \<and>
     (cl_state c = RqComplete \<longrightarrow> answers c (cl_response c)) \<and>
     (cl_state c = RqFailed \<longrightarrow> err_code (cl_failure c) \<noteq> Ok) \<and>
     (cl_state c \<noteq> RqFailed \<and> cfg_max_response_pending (cl_config c) \<noteq> 0 \<longrightarrow>
        cl_pending_count c \<le> cfg_max_response_pending (cl_config c))"

lemmas client_updates = client_finish_def client_fail_def

lemma client_updates_simps [simp]:
  "cl_state (client_finish c r) = RqComplete" "cl_state (client_fail c e) = RqFailed"
  "cl_config (client_finish c r) = cl_config c" "cl_config (client_fail c e) = cl_config c"
  "cl_sender (client_finish c r) = cl_sender c" "cl_sender (client_fail c e) = cl_sender c"
  "cl_receiver (client_finish c r) = cl_receiver c" "cl_receiver (client_fail c e) = cl_receiver c"
  "cl_response (client_finish c r) = r\<lparr>rsp_pending_count := cl_pending_count c\<rparr>"
  "cl_failure (client_fail c e) = e"
  "cl_requested_service (client_finish c r) = cl_requested_service c"
  "cl_expect_response (client_finish c r) = cl_expect_response c"
  "cl_pending_count (client_finish c r) = cl_pending_count c"
  "cl_pending_count (client_fail c e) = cl_pending_count c"
  by (simp_all add: client_updates)

lemma plain_error_code [simp]: "err_code (plain_error k m) = k"
  by (simp add: plain_error_def)

lemma handle_message_cases:
  "handle_message c m t =
     (let c1 = c\<lparr>cl_last_activity_ns := t\<rparr> in
      if m = [] then client_fail c1 (plain_error ParseSemantic ''empty UDS response'')
      else if m ! 0 = kNegativeResponse \<and> length m < 3
      then client_fail c1 (plain_error ParseSemantic ''truncated negative response'')
      else if m ! 0 = kNegativeResponse \<and> m ! 2 = nrc_value NrcRequestCorrectlyReceivedResponsePending then
        (if cfg_max_response_pending (cl_config c) \<noteq> 0 \<and>
            cl_pending_count c + 1 > cfg_max_response_pending (cl_config c)
         then client_fail (c1\<lparr>cl_pending_count := cl_pending_count c + 1\<rparr>)
                (Error TransportTimeout ''the server kept answering responsePending'' (cl_pending_count c + 1, 0))
         else c1\<lparr>cl_pending_count := cl_pending_count c + 1, cl_deadline_ns := t + cfg_p2_star_ns (cl_config c)\<rparr>)
      else if m ! 0 = kNegativeResponse
      then client_finish c1 (new_response\<lparr>rsp_service := m ! 1, rsp_nrc := m ! 2\<rparr>)
      else if uint (m ! 0) \<noteq> uint (cl_requested_service c) + uint kPositiveResponseOffset
      then client_fail c1 (Error ParseSemantic ''the response does not answer the request that was sent''
             (ucast (m ! 0), ucast (cl_requested_service c)))
      else client_finish
             (if cl_requested_service c = service_value SvcDiagnosticSessionControl \<and> drop 1 m \<noteq> []
              then c1\<lparr>cl_session := drop 1 m ! 0 AND 0x7F\<rparr> else c1)
             (new_response\<lparr>rsp_positive := True, rsp_service := m ! 0, rsp_data := drop 1 m\<rparr>))"
  unfolding handle_message_def Let_def by simp

lemma client_ok_handle:
  assumes "client_ok c" and "cl_state c = RqAwaitingResponse"
  shows "client_ok (handle_message c m t)"
  unfolding handle_message_cases Let_def using assms
  by (auto simp: client_ok_def answers_def new_response_def kPositiveResponseOffset_def kNegativeResponse_def
      split: if_splits)

lemma handle_message_ended:
  assumes "cl_state c = RqAwaitingResponse"
  shows "client_ended (handle_message c m t) \<or>
    (cl_state (handle_message c m t) = RqAwaitingResponse \<and>
     cl_pending_count (handle_message c m t) = cl_pending_count c + 1 \<and>
     cl_deadline_ns (handle_message c m t) = t + cfg_p2_star_ns (cl_config c) \<and>
     m ! 0 = kNegativeResponse \<and> m ! 2 = nrc_value NrcRequestCorrectlyReceivedResponsePending)"
  unfolding handle_message_cases Let_def using assms by (auto simp: client_ended_def)

subsection \<open>The parts of \<open>poll\<close>\<close>

lemma poll_sending_total:
  assumes "client_ok c"
  obtains e c' fs where "poll_sending c t = Some (e, c', fs)" "client_ok c'" "cl_config c' = cl_config c"
    "e \<Longrightarrow> client_ended c'" "cl_state c \<noteq> RqSending \<Longrightarrow> \<not> e \<and> c' = c \<and> fs = []"
proof (cases "cl_state c = RqSending")
  case False
  then show ?thesis using that [of False c "[]"] assms by (simp add: poll_sending_def)
next
  case True
  have wf: "wf_sender (cl_sender c)" using assms by (simp add: client_ok_def)
  obtain s fs where s: "sender_poll (cl_sender c) t = Some (s, fs)" "wf_sender s"
    using sender_poll_total [OF wf, of t] by blast
  have ok: "client_ok (c\<lparr>cl_sender := s\<rparr>)" using assms s(2) True by (simp add: client_ok_def)
  let ?c = "c\<lparr>cl_sender := s\<rparr>"
  consider (run) "\<not> sender_done s" | (bad) "sender_done s" "snd_result s \<noteq> TransferOk"
    | (quiet) "sender_done s" "snd_result s = TransferOk" "\<not> cl_expect_response c"
    | (await) "sender_done s" "snd_result s = TransferOk" "cl_expect_response c" by blast
  then show ?thesis
  proof cases
    case run
    then have "poll_sending c t = Some (False, ?c, fs)" using True by (simp add: poll_sending_def s(1))
    then show ?thesis using that [of False ?c fs] ok True by simp
  next
    case bad
    let ?e = "Error TransportWriteFailed ''the request could not be transported'' (transfer_result_value (snd_result s), 0)"
    have "poll_sending c t = Some (True, client_fail ?c ?e, fs)" using bad True by (simp add: poll_sending_def s(1))
    moreover have "client_ok (client_fail ?c ?e)" using ok by (simp add: client_ok_def)
    ultimately show ?thesis using that [of True "client_fail ?c ?e" fs] True by (simp add: client_ended_def)
  next
    case quiet
    let ?r = "new_response\<lparr>rsp_positive := True, rsp_service := cl_requested_service c\<rparr>"
    have "poll_sending c t = Some (True, client_finish ?c ?r, fs)" using quiet True by (simp add: poll_sending_def s(1))
    moreover have "client_ok (client_finish ?c ?r)"
      using ok True quiet(3) by (simp add: client_ok_def answers_def new_response_def)
    ultimately show ?thesis using that [of True "client_finish ?c ?r" fs] True by (simp add: client_ended_def)
  next
    case await
    let ?a = "?c\<lparr>cl_state := RqAwaitingResponse, cl_deadline_ns := t + cfg_p2_ns (cl_config c)\<rparr>"
    have "poll_sending c t = Some (False, ?a, fs)" using await True by (simp add: poll_sending_def s(1))
    moreover have "client_ok ?a" using ok True by (simp add: client_ok_def)
    ultimately show ?thesis using that [of False ?a fs] True by simp
  qed
qed

lemma poll_awaiting_total:
  assumes "client_ok c"
  obtains c' fs where "poll_awaiting c t = Some (c', fs)" "client_ok c'" "cl_config c' = cl_config c"
    "cl_state c \<noteq> RqAwaitingResponse \<Longrightarrow> c' = c \<and> fs = []"
    "cl_state c = RqAwaitingResponse \<Longrightarrow> cl_deadline_ns c \<le> t \<Longrightarrow> client_ended c' \<or>
      cl_state c' = RqAwaitingResponse \<and> cl_pending_count c' = cl_pending_count c + 1"
    "cl_state c = RqAwaitingResponse \<Longrightarrow> client_ended c' \<or> cl_state c' = RqAwaitingResponse \<and>
      (cl_pending_count c' = cl_pending_count c \<or> cl_pending_count c' = cl_pending_count c + 1)"
proof (cases "cl_state c = RqAwaitingResponse")
  case False
  then show ?thesis using that [of c "[]"] assms by (simp add: poll_awaiting_def)
next
  case True
  obtain r fs where r: "receiver_poll (cl_receiver c) t = Some (r, fs)"
    using receiver_poll_total [of "cl_receiver c" t] by blast
  have wr: "wf_receiver r" using wf_receiver_poll [OF _ r] assms by (simp add: client_ok_def)
  have ok: "client_ok (c\<lparr>cl_receiver := r\<rparr>)" "client_ok (c\<lparr>cl_receiver := receiver_reset r\<rparr>)"
    using assms wr wf_receiver_reset True by (simp_all add: client_ok_def)
  consider (msg) "has_message r" | (fin) "\<not> has_message r" "receiver_done r"
    | (late) "\<not> has_message r" "\<not> receiver_done r" "cl_deadline_ns c \<le> t"
    | (wait) "\<not> has_message r" "\<not> receiver_done r" "\<not> cl_deadline_ns c \<le> t" by blast
  then show ?thesis
  proof cases
    case msg
    let ?c = "c\<lparr>cl_receiver := receiver_reset r\<rparr>"
    have "cl_config (handle_message ?c (rcv_payload r) t) = cl_config c"
      unfolding handle_message_cases Let_def by (simp add: client_updates)
    then show ?thesis
      using that [of "handle_message ?c (rcv_payload r) t" fs] msg True client_ok_handle [OF ok(2)]
        handle_message_ended [of ?c "rcv_payload r" t]
      by (auto simp: poll_awaiting_def r)
  next
    case fin
    then show ?thesis using that ok True by (auto simp: poll_awaiting_def r client_ok_def client_ended_def)
  next
    case late
    then show ?thesis using that ok True by (auto simp: poll_awaiting_def r client_ok_def client_ended_def)
  next
    case wait
    then show ?thesis using that ok True by (auto simp: poll_awaiting_def r client_ok_def)
  qed
qed

lemma poll_keepalive_total:
  obtains c' fs where "poll_keepalive c t = Some (c', fs)" "client_ok c \<Longrightarrow> client_ok c'"
    "cl_config c' = cl_config c" "cl_state c' = cl_state c" "cl_response c' = cl_response c"
    "cl_failure c' = cl_failure c" "cl_pending_count c' = cl_pending_count c" "cl_session c' = cl_session c"
proof -
  let ?p = "[service_value SvcTesterPresent, 0x00 OR kSuppressPositiveResponse]"
  obtain st s where b: "sender_begin (new_sender (cfg_transport (cl_config c))) ?p t = (st, s)" by (meson surj_pair)
  have "wf_sender s" using wf_sender_begin [OF wf_new_sender, of "cfg_transport (cl_config c)" ?p t] b by simp
  then obtain s' fs where "sender_poll s t = Some (s', fs)" using sender_poll_total [of s t] by blast
  then have k: "poll_keepalive c t = Some (c, []) \<or>
      poll_keepalive c t = Some (c\<lparr>cl_keepalives := cl_keepalives c + 1, cl_last_activity_ns := t\<rparr>, fs)"
    unfolding poll_keepalive_def b by (cases st) auto
  show ?thesis
    using k
  proof
    assume "poll_keepalive c t = Some (c, [])"
    then show ?thesis by (rule that) simp_all
  next
    assume "poll_keepalive c t = Some (c\<lparr>cl_keepalives := cl_keepalives c + 1, cl_last_activity_ns := t\<rparr>, fs)"
    then show ?thesis by (rule that) (auto simp: client_ok_def answers_def)
  qed
qed

lemma client_poll_total:
  assumes "client_ok c"
  obtains c' fs where "client_poll c t = Some (c', fs)" "client_ok c'" "cl_config c' = cl_config c"
    "client_ended c \<Longrightarrow> cl_state c' = cl_state c \<and> cl_response c' = cl_response c \<and> cl_failure c' = cl_failure c"
    "cl_state c = RqAwaitingResponse \<Longrightarrow> cl_deadline_ns c \<le> t \<Longrightarrow> client_ended c' \<or>
      cl_state c' = RqAwaitingResponse \<and> cl_pending_count c' = cl_pending_count c + 1"
    "cl_state c = RqAwaitingResponse \<Longrightarrow> client_ended c' \<or> cl_state c' = RqAwaitingResponse \<and>
      (cl_pending_count c' = cl_pending_count c \<or> cl_pending_count c' = cl_pending_count c + 1)"
proof -
  obtain e c1 f1 where 1: "poll_sending c t = Some (e, c1, f1)" "client_ok c1" "cl_config c1 = cl_config c"
    "e \<Longrightarrow> client_ended c1" "cl_state c \<noteq> RqSending \<Longrightarrow> \<not> e \<and> c1 = c \<and> f1 = []"
    by (rule poll_sending_total [OF assms, of t]) blast
  obtain c2 f2 where 2: "poll_awaiting c1 t = Some (c2, f2)" "client_ok c2" "cl_config c2 = cl_config c1"
    "cl_state c1 \<noteq> RqAwaitingResponse \<Longrightarrow> c2 = c1 \<and> f2 = []"
    "cl_state c1 = RqAwaitingResponse \<Longrightarrow> cl_deadline_ns c1 \<le> t \<Longrightarrow> client_ended c2 \<or>
      cl_state c2 = RqAwaitingResponse \<and> cl_pending_count c2 = cl_pending_count c1 + 1"
    "cl_state c1 = RqAwaitingResponse \<Longrightarrow> client_ended c2 \<or> cl_state c2 = RqAwaitingResponse \<and>
      (cl_pending_count c2 = cl_pending_count c1 \<or> cl_pending_count c2 = cl_pending_count c1 + 1)"
    by (rule poll_awaiting_total [OF 1(2), of t]) blast
  obtain c3 f3 where 3: "poll_keepalive c2 t = Some (c3, f3)" "client_ok c2 \<Longrightarrow> client_ok c3"
    "cl_config c3 = cl_config c2" "cl_state c3 = cl_state c2" "cl_response c3 = cl_response c2"
    "cl_failure c3 = cl_failure c2" "cl_pending_count c3 = cl_pending_count c2" "cl_session c3 = cl_session c2"
    by (rule poll_keepalive_total [of c2 t]) blast
  show ?thesis
  proof (cases e)
    case True
    then have "cl_state c = RqSending" using 1(5) by blast
    then show ?thesis using that [of c1 f1] True 1 by (simp add: client_poll_def client_ended_def)
  next
    case False
    have p: "client_poll c t = Some (c3, f1 @ f2 @ f3)" by (simp add: client_poll_def 1(1) 2(1) 3(1) False)
    show ?thesis
    proof (rule that [OF p])
      show "client_ok c3" "cl_config c3 = cl_config c" using 1 2 3 by simp_all
      show "client_ended c \<Longrightarrow> cl_state c3 = cl_state c \<and> cl_response c3 = cl_response c \<and> cl_failure c3 = cl_failure c"
        using 1(5) 2(4) 3(4-6) by (auto simp: client_ended_def)
      show "cl_state c = RqAwaitingResponse \<Longrightarrow> cl_deadline_ns c \<le> t \<Longrightarrow> client_ended c3 \<or>
          cl_state c3 = RqAwaitingResponse \<and> cl_pending_count c3 = cl_pending_count c + 1"
        using 1(5) 2(5) 3(4,7) by (auto simp: client_ended_def)
      show "cl_state c = RqAwaitingResponse \<Longrightarrow> client_ended c3 \<or> cl_state c3 = RqAwaitingResponse \<and>
          (cl_pending_count c3 = cl_pending_count c \<or> cl_pending_count c3 = cl_pending_count c + 1)"
        using 1(5) 2(6) 3(4,7) by (auto simp: client_ended_def)
    qed
  qed
qed

lemma client_ok_begin:
  assumes "wf_receiver (cl_receiver c)" and "cl_state c = RqSending"
    and "cfg_max_response_pending (cl_config c) \<noteq> 0 \<longrightarrow> cl_pending_count c \<le> cfg_max_response_pending (cl_config c)"
  shows "client_ok (begin_transfer c t)"
proof -
  obtain st s where b: "sender_begin (new_sender (cfg_transport (cl_config c))) (cl_pending_request c) t = (st, s)"
    by (meson surj_pair)
  have "wf_sender s" using wf_sender_begin [OF wf_new_sender] b by (metis snd_conv)
  moreover have "err_code e \<noteq> Ok" if "st = Inl e" for e
  proof -
    have "validate_config k = Inl e' \<Longrightarrow> err_code e' \<noteq> Ok" for k e'
      by (auto simp: validate_config_def split: if_splits)
    then show ?thesis using b that by (auto simp: sender_begin_def Let_def split: if_splits sum.splits)
  qed
  ultimately show ?thesis
    using assms wf_receiver_reset [of "cl_receiver c"]
    by (cases st) (auto simp: begin_transfer_def b client_ok_def)
qed

lemma client_ok_step: "client_ok c \<Longrightarrow> client_ok (client_step c e)"
proof (cases e)
  case (CallRequest p t)
  assume "client_ok c"
  then show ?thesis
    using client_ok_begin by (auto simp: CallRequest client_request_def Let_def client_ok_def [of c])
next
  case (CallFrame f t)
  assume "client_ok c"
  then show ?thesis
    by (auto simp: CallFrame client_on_frame_def client_ok_def answers_def wf_sender_on_frame wf_receiver_on_frame)
next
  case (CallPoll t)
  assume "client_ok c"
  then obtain c' fs where "client_poll c t = Some (c', fs)" "client_ok c'" by (rule client_poll_total)
  then show ?thesis by (simp add: CallPoll)
qed

lemma client_ok_new: "client_ok (new_client k)"
  by (simp add: client_ok_def new_client_def wf_new_sender wf_new_receiver)

lemma client_config_step: "client_ok c \<Longrightarrow> cl_config (client_step c e) = cl_config c"
proof (cases e)
  case (CallRequest p t)
  then show ?thesis
    by (auto simp: client_request_def begin_transfer_def Let_def split: sum.split prod.split)
next
  case (CallFrame f t)
  then show ?thesis by (simp add: client_on_frame_def)
next
  case (CallPoll t)
  assume "client_ok c"
  then obtain c' fs where "client_poll c t = Some (c', fs)" "cl_config c' = cl_config c" by (rule client_poll_total)
  then show ?thesis by (simp add: CallPoll)
qed

interpretation client_machine: event_machine client_step "\<lambda>c. client_ok c \<and> cl_config c = k" for k
  by unfold_locales (simp add: client_ok_step client_config_step)

subsection \<open>After the end\<close>

datatype client_input = InFrame frame u64 | InPoll u64

fun client_input_step :: "client \<Rightarrow> client_input \<Rightarrow> client" where
  "client_input_step c (InFrame f t) = client_step c (CallFrame f t)"
| "client_input_step c (InPoll t) = client_step c (CallPoll t)"

lemma client_ok_input: "client_ok c \<Longrightarrow> client_ok (client_input_step c e)"
  by (cases e) (auto simp del: client_step.simps intro: client_ok_step)

interpretation client_rest: absorbing_machine client_input_step "\<lambda>c. client_ok c \<and> client_ended c"
  "\<lambda>c. (cl_state c, cl_response c, cl_failure c)"
proof unfold_locales
  fix c e assume c: "client_ok c \<and> client_ended c"
  have "client_ended (client_input_step c e) \<and> (cl_state (client_input_step c e), cl_response (client_input_step c e),
      cl_failure (client_input_step c e)) = (cl_state c, cl_response c, cl_failure c)"
  proof (cases e)
    case (InFrame f t)
    then show ?thesis using c by (auto simp: client_on_frame_def client_ended_def)
  next
    case (InPoll t)
    obtain c' fs where "client_poll c t = Some (c', fs)"
        "client_ended c \<Longrightarrow> cl_state c' = cl_state c \<and> cl_response c' = cl_response c \<and> cl_failure c' = cl_failure c"
      using client_poll_total [of c t] c by metis
    then show ?thesis using c by (auto simp: InPoll client_ended_def)
  qed
  moreover have "client_ok (client_input_step c e)" using c client_ok_input by blast
  ultimately show "client_ok (client_input_step c e) \<and> client_ended (client_input_step c e)"
    and "(cl_state (client_input_step c e), cl_response (client_input_step c e), cl_failure (client_input_step c e)) =
      (cl_state c, cl_response c, cl_failure c)" by simp_all
qed

subsection \<open>How long a client waits\<close>

text \<open>The polls of a run that find the client waiting at or past its deadline.\<close>

fun expired_polls :: "client \<Rightarrow> client_input list \<Rightarrow> nat" where
  "expired_polls c [] = 0"
| "expired_polls c (e # es) =
     (case e of
        InPoll t \<Rightarrow> of_bool (cl_state c = RqAwaitingResponse \<and> cl_deadline_ns c \<le> t)
      | InFrame f t \<Rightarrow> 0) + expired_polls (client_input_step c e) es"

lemma expired_ended:
  "client_ok c \<Longrightarrow> client_ended c \<Longrightarrow> expired_polls c es = 0"
proof (induction es arbitrary: c)
  case (Cons e es)
  have "client_ok (client_input_step c e) \<and> client_ended (client_input_step c e)"
    using client_rest.final_step [of c e] Cons.prems by simp
  then show ?case using Cons by (auto simp: client_ended_def split: client_input.split)
qed simp

lemma awaiting_step:
  assumes "client_ok c" and "cl_state c = RqAwaitingResponse"
  shows "client_ended (client_input_step c e) \<or> cl_state (client_input_step c e) = RqAwaitingResponse \<and>
    cl_config (client_input_step c e) = cl_config c \<and>
    (cl_pending_count (client_input_step c e) = cl_pending_count c + 1 \<or>
     cl_pending_count (client_input_step c e) = cl_pending_count c \<and>
       \<not> (\<exists>t. e = InPoll t \<and> cl_deadline_ns c \<le> t))"
proof (cases e)
  case (InFrame f t)
  then show ?thesis using assms(2) by (simp add: client_on_frame_def)
next
  case (InPoll t)
  obtain c' fs where "client_poll c t = Some (c', fs)" "cl_config c' = cl_config c"
    "cl_state c = RqAwaitingResponse \<Longrightarrow> cl_deadline_ns c \<le> t \<Longrightarrow> client_ended c' \<or>
      cl_state c' = RqAwaitingResponse \<and> cl_pending_count c' = cl_pending_count c + 1"
    "cl_state c = RqAwaitingResponse \<Longrightarrow> client_ended c' \<or> cl_state c' = RqAwaitingResponse \<and>
      (cl_pending_count c' = cl_pending_count c \<or> cl_pending_count c' = cl_pending_count c + 1)"
    using client_poll_total [OF assms(1), of t] by metis
  then show ?thesis using assms(2) by (auto simp: InPoll)
qed

lemma expired_bound:
  assumes "cfg_max_response_pending (cl_config c) \<noteq> 0" and "cfg_max_response_pending (cl_config c) \<noteq> 0xFFFFFFFF"
  shows "\<lbrakk>client_ok c; cl_state c = RqAwaitingResponse\<rbrakk> \<Longrightarrow>
    expired_polls c es + unat (cl_pending_count c) \<le> Suc (unat (cfg_max_response_pending (cl_config c)))"
  using assms
proof (induction es arbitrary: c)
  case Nil
  then have "cl_pending_count c \<le> cfg_max_response_pending (cl_config c)" by (simp add: client_ok_def)
  then show ?case by (simp add: word_le_nat_alt)
next
  case (Cons e es)
  let ?c = "client_input_step c e" and ?m = "cfg_max_response_pending (cl_config c)"
  have le: "unat (cl_pending_count c) \<le> unat ?m"
    using Cons.prems by (simp add: client_ok_def word_le_nat_alt)
  have "unat ?m < 2 ^ 32 - 1"
  proof -
    have "unat ?m \<noteq> unat (0xFFFFFFFF :: u32)" using Cons.prems(4) by (simp add: word_unat_eq_iff)
    then show ?thesis using unat_less_exp [of ?m] by simp
  qed
  then have inc: "unat (cl_pending_count c + 1) = Suc (unat (cl_pending_count c))"
    using le by (simp add: unat_add_wrap)
  have ok: "client_ok ?c" using Cons.prems(1) by (rule client_ok_input)
  have hd: "expired_polls c (e # es) \<le> 1 + expired_polls ?c es" by (auto split: client_input.split)
  from awaiting_step [OF Cons.prems(1,2), of e]
  show ?case
  proof
    assume "client_ended ?c"
    then show ?thesis using hd expired_ended [OF ok, of es] le by simp
  next
    assume a: "cl_state ?c = RqAwaitingResponse \<and> cl_config ?c = cl_config c \<and>
      (cl_pending_count ?c = cl_pending_count c + 1 \<or>
       cl_pending_count ?c = cl_pending_count c \<and> \<not> (\<exists>t. e = InPoll t \<and> cl_deadline_ns c \<le> t))"
    then have IH: "expired_polls ?c es + unat (cl_pending_count ?c) \<le> Suc (unat ?m)"
      using Cons.IH [OF ok] Cons.prems(3,4) by simp
    show ?thesis
    proof (cases "cl_pending_count ?c = cl_pending_count c + 1")
      case True
      then show ?thesis using IH hd inc by simp
    next
      case False
      then have "expired_polls c (e # es) = expired_polls ?c es" "cl_pending_count ?c = cl_pending_count c"
        using a by (auto split: client_input.split)
      then show ?thesis using IH by simp
    qed
  qed
qed

subsection \<open>The properties of the client\<close>

lemma client_run_ok:
  "client_ok (foldl client_step (new_client k) es) \<and> cl_config (foldl client_step (new_client k) es) = k"
  using client_machine.run_inv [of "new_client k" k es] client_ok_new [of k] by (simp add: new_client_def)

text \<open>C22. The client over every sequence of requests, frames and polls: \<open>poll\<close> never aborts the program, a
  completed exchange holds a response to the request that was sent, the echo of its service for a
  positive one, a failed exchange holds an error, and the responsePending count never passes its limit
  while the exchange is not given up.\<close>

theorem uds_client_invariant:
  assumes "c = foldl client_step (new_client k) es"
  shows "(\<exists>c' fs. client_poll c now = Some (c', fs)) \<and>
   (cl_state c = RqComplete \<longrightarrow> answers c (cl_response c)) \<and>
   (cl_state c = RqFailed \<longrightarrow> err_code (cl_failure c) \<noteq> Ok) \<and>
   (cl_state c \<noteq> RqFailed \<and> cfg_max_response_pending k \<noteq> 0 \<longrightarrow> cl_pending_count c \<le> cfg_max_response_pending k)"
proof -
  have ok: "client_ok c" "cl_config c = k" unfolding assms using client_run_ok by simp_all
  obtain c' fs where "client_poll c now = Some (c', fs)" by (rule client_poll_total [OF ok(1), of now])
  then show ?thesis using ok by (simp add: client_ok_def)
qed

definition sample_client :: client_config where
  "sample_client = default_client_config (default_config (normal_address (CanId 0x7E0) (CanId 0x7E8)))"

lemma poll_single:
  assumes "snd_state s = SendingSingle" and "snd_result s = InProgress" and "sender_poll s t = Some (s', fs)"
  shows "snd_result s' = TransferOk"
  using assms by (auto simp: sender_poll_def sender_done_def sender_finish_def Let_def split: option.splits)

lemma sample_request:
  assumes "p \<noteq> []" and "length p \<le> 7"
  shows "\<exists>c. foldl client_step (new_client sample_client) [CallRequest p t] = c \<and> client_ok c \<and>
    cl_state c = RqSending \<and> snd_state (cl_sender c) = SendingSingle \<and> snd_result (cl_sender c) = InProgress \<and>
    cl_config c = sample_client \<and>
    cl_receiver c = receiver_reset (new_receiver (cfg_transport sample_client)) \<and>
    cl_expect_response c = (\<not> (has_sub_function (p ! 0) \<and> length p \<ge> 2 \<and> p ! 1 AND kSuppressPositiveResponse \<noteq> 0))"
proof -
  have v: "validate_config (cfg_transport sample_client) = ok"
    "header_size (address (cfg_transport sample_client)) = 0"
    by (simp_all add: sample_client_def default_client_config_def default_config_def validate_config_def
        normal_address_def header_size_def)
  have "client_ok (foldl client_step (new_client sample_client) [CallRequest p t])" using client_run_ok by blast
  then show ?thesis using assms v(1) v(2)
    by (simp add: Let_def client_request_def client_busy_def new_client_def begin_transfer_def sender_begin_def new_sender_def
        sample_client_def [symmetric])
qed

lemma sample_polled:
  assumes "p \<noteq> []" and "length p \<le> 7"
  shows "cl_state (foldl client_step (new_client sample_client) [CallRequest p t, CallPoll 7]) =
    (if has_sub_function (p ! 0) \<and> length p \<ge> 2 \<and> p ! 1 AND kSuppressPositiveResponse \<noteq> 0
     then RqComplete else RqAwaitingResponse)"
proof -
  obtain c where c: "foldl client_step (new_client sample_client) [CallRequest p t] = c" "client_ok c"
    "cl_state c = RqSending" "snd_state (cl_sender c) = SendingSingle" "snd_result (cl_sender c) = InProgress"
    "cl_config c = sample_client" "cl_receiver c = receiver_reset (new_receiver (cfg_transport sample_client))"
    "cl_expect_response c = (\<not> (has_sub_function (p ! 0) \<and> length p \<ge> 2 \<and> p ! 1 AND kSuppressPositiveResponse \<noteq> 0))"
    using sample_request [OF assms, of t] by blast
  obtain s fs where s: "sender_poll (cl_sender c) 7 = Some (s, fs)"
    using sender_poll_total [of "cl_sender c" 7] c(2) by (auto simp: client_ok_def)
  have r: "snd_result s = TransferOk" by (rule poll_single [OF c(4,5) s])
  show ?thesis
  proof (cases "cl_expect_response c")
    case False
    then have "client_poll c 7 = Some (client_finish (c\<lparr>cl_sender := s\<rparr>)
        (new_response\<lparr>rsp_positive := True, rsp_service := cl_requested_service c\<rparr>), fs)"
      by (simp add: client_poll_def poll_sending_def c(3) s r sender_done_def)
    then show ?thesis using False c(1,8) by auto
  next
    case True
    let ?a = "c\<lparr>cl_sender := s, cl_state := RqAwaitingResponse, cl_deadline_ns := 50000007\<rparr>"
    have p2: "cfg_p2_ns sample_client = 50000000" by (simp add: sample_client_def default_client_config_def)
    have 1: "poll_sending c 7 = Some (False, ?a, fs)"
      using True by (simp add: poll_sending_def c(3,6) s r sender_done_def p2)
    have "receiver_poll (cl_receiver c) 7 = Some (cl_receiver c, [])"
      by (simp add: c(7) receiver_reset_def new_receiver_def receiver_poll_def receiver_done_def)
    then have 2: "poll_awaiting ?a 7 = Some (?a, [])"
      by (simp add: poll_awaiting_def has_message_def receiver_done_def c(7) receiver_reset_def new_receiver_def)
    have 3: "poll_keepalive ?a 7 = Some (?a, [])" by (simp add: poll_keepalive_def)
    have "client_poll c 7 = Some (?a, fs)" by (simp add: client_poll_def 1 2 3)
    then show ?thesis using True c(1,8) by auto
  qed
qed

lemma sample_run:
  "cl_state (foldl client_step (new_client sample_client) [CallRequest [0x3E, 0x80] 5, CallPoll 7]) = RqComplete"
  using sample_polled [of "[0x3E, 0x80]" 5] by (simp add: has_sub_function_def kSuppressPositiveResponse_def)

theorem uds_client_invariant_witness:
  "answers (foldl client_step (new_client sample_client) [CallRequest [0x3E, 0x80] 5, CallPoll 7])
    (cl_response (foldl client_step (new_client sample_client) [CallRequest [0x3E, 0x80] 5, CallPoll 7]))"
  using uds_client_invariant [OF refl, of sample_client "[CallRequest [0x3E, 0x80] 5, CallPoll 7]"] sample_run by blast

text \<open>C25. A client that waits for a response, with a limit on responsePending, is found at or past its
  deadline by at most one poll more than that limit allows, whatever arrives and whenever it is polled;
  once the exchange has ended, frames and polls change neither its outcome nor its response.\<close>

theorem uds_client_bounded_wait:
  assumes "cfg_max_response_pending k \<noteq> 0" and "cfg_max_response_pending k \<noteq> 0xFFFFFFFF"
    and "c = foldl client_step (new_client k) es"
  shows "(cl_state c = RqAwaitingResponse \<longrightarrow>
      expired_polls c ins + unat (cl_pending_count c) \<le> Suc (unat (cfg_max_response_pending k))) \<and>
    (client_ended c \<longrightarrow> client_ended (foldl client_input_step c ins) \<and>
      cl_state (foldl client_input_step c ins) = cl_state c \<and>
      cl_response (foldl client_input_step c ins) = cl_response c \<and>
      cl_failure (foldl client_input_step c ins) = cl_failure c)"
proof -
  have ok: "client_ok c" "cl_config c = k" unfolding assms(3) using client_run_ok by simp_all
  have "client_ended (foldl client_input_step c ins) \<and>
      (cl_state (foldl client_input_step c ins), cl_response (foldl client_input_step c ins),
       cl_failure (foldl client_input_step c ins)) = (cl_state c, cl_response c, cl_failure c)" if "client_ended c"
    using client_rest.run_final [of c ins] ok that by blast
  then show ?thesis using expired_bound [of c ins] ok assms(1,2) by auto
qed

lemma sample_wait:
  "cl_state (foldl client_step (new_client sample_client) [CallRequest [0x22, 0xF1, 0x90] 5, CallPoll 7]) = RqAwaitingResponse"
  using sample_polled [of "[0x22, 0xF1, 0x90]" 5] by (simp add: has_sub_function_def)

theorem uds_client_bounded_wait_witness:
  "expired_polls (foldl client_step (new_client sample_client) [CallRequest [0x22, 0xF1, 0x90] 5, CallPoll 7])
    [InPoll 6000000000, InPoll 7000000000] \<le> 101"
proof -
  have "cfg_max_response_pending sample_client = 100"
    by (simp add: sample_client_def default_client_config_def)
  then show ?thesis
    using uds_client_bounded_wait [OF _ _ refl, of sample_client "[CallRequest [0x22, 0xF1, 0x90] 5, CallPoll 7]"
        "[InPoll 6000000000, InPoll 7000000000]"] sample_wait by simp
qed

subsection \<open>Texts\<close>

lemma hex_plain_small: "n < 16 \<Longrightarrow> hex_plain n = [hex_digit n]"
  by (simp add: hex_plain.simps)

lemma kLetters_inj: "a < 4 \<Longrightarrow> b < 4 \<Longrightarrow> kLetters ! a = kLetters ! b \<Longrightarrow> a = b"
proof -
  have "distinct kLetters" "length kLetters = 4" by (simp_all add: kLetters_def)
  then show "a < 4 \<Longrightarrow> b < 4 \<Longrightarrow> kLetters ! a = kLetters ! b \<Longrightarrow> a = b" using nth_eq_iff_index_eq by metis
qed

lemma unat_and_FF: "unat (x AND 0xFF :: u32) = unat x mod 256"
proof -
  have e: "x AND 0xFF = take_bit 8 x" unfolding take_bit_eq_mask by (simp add: mask_eq_exp_minus_1)
  show ?thesis unfolding e unsigned_take_bit_eq by (simp add: take_bit_eq_mod)
qed

lemma mod_split: "m = a * b \<Longrightarrow> n mod m = a * (n div a mod b) + n mod (a::nat)"
  by (simp only: mod_mult2_eq)

lemma div_split: "m = a * b \<Longrightarrow> n div m = n div a div (b::nat)"
  by (simp only: div_mult2_eq)

lemma div_mod_div: "n div a mod (b * c) div b = n div (a * b) mod (c::nat)"
proof (cases "b = 0")
  case False
  have "n div a mod (b * c) div b = (b * (n div a div b mod c) + n div a mod b) div b" by (simp only: mod_mult2_eq)
  also have "\<dots> = n div a div b mod c" using False by (simp add: div_add1_eq)
  finally show ?thesis by (simp only: div_mult2_eq)
qed simp

lemma div_mod_mod: "n div a mod (b * c) mod b = n div a mod (b::nat)"
  by (rule mod_mod_cancel) simp

lemma format_dtc_nat:
  fixes code :: u32
  defines "n \<equiv> unat code"
  shows "format_dtc code = [kLetters ! (n div 4194304 mod 4), hex_digit (n div 1048576 mod 4), hex_digit (n div 65536 mod 16)] @
    hex_fixed 2 (n div 256 mod 256) @ ''-'' @ hex_fixed 2 (n mod 256)"
proof -
  have t: "take_bit LENGTH(32) (unat code) = unat code" by (rule take_bit_nat_eq_self [OF unat_less_exp])
  have d: "unat (drop_bit k code) = n div 2 ^ k" for k
    unfolding n_def unsigned_drop_bit_eq t by (rule drop_bit_eq_div)
  have p: "(2::nat) ^ 16 = 65536" "(2::nat) ^ 8 = 256" "(65536::nat) * 64 = 4194304" "(65536::nat) * 16 = 1048576"
      "(256::nat) = 64 * 4" "(256::nat) = 16 * 16" "(16::nat) = 4 * 4" "(4::nat) = 2 * 2" by simp_all
  have h1: "n div 65536 mod 256 div 64 mod 4 = n div 4194304 mod 4"
    using div_mod_div [of n 65536 64 4] by (simp only: p(3) p(5) [symmetric] mod_mod_trivial)
  have h2: "n div 65536 mod 256 div 16 mod 4 = n div 1048576 mod 4"
    using div_mod_div [of n 65536 16 16] mod_mod_cancel [of 4 16 "n div 1048576"]
    by (simp only: p(4) p(6) [symmetric]) simp
  have h3: "n div 65536 mod 256 mod 16 = n div 65536 mod 16"
    using div_mod_mod [of n 65536 16 16] by (simp only: p(6) [symmetric])
  show ?thesis
    unfolding format_dtc_def Let_def unat_and_FF d p(1,2) h1 h2 h3 n_def [symmetric]
    by (simp only: hex_plain_small mod_less_divisor zero_less_numeral append.simps) 
qed

lemma digits_24:
  "(n::nat) mod 16777216 = ((n div 4194304 mod 4) * 64 + (n div 1048576 mod 4) * 16 + n div 65536 mod 16) * 65536 +
    (n div 256 mod 256) * 256 + n mod 256"
proof -
  have d: "n div 65536 = n div 256 div 256" "n div 1048576 = n div 65536 div 16" "n div 4194304 = n div 1048576 div 4"
    by (rule div_split, simp)+
  have 1: "n mod 16777216 = 256 * (n div 256 mod 65536) + n mod 256" by (rule mod_split) simp
  have 2: "n div 256 mod 65536 = 256 * (n div 65536 mod 256) + n div 256 mod 256"
    unfolding d(1) by (rule mod_split) simp
  have 3: "n div 65536 mod 256 = 16 * (n div 1048576 mod 16) + n div 65536 mod 16"
    unfolding d(2) by (rule mod_split) simp
  have 4: "n div 1048576 mod 16 = 4 * (n div 4194304 mod 4) + n div 1048576 mod 4"
    unfolding d(3) by (rule mod_split) simp
  have regroup: "256 * (256 * (16 * (4 * a + b) + c) + d) + e = (a * 64 + b * 16 + c) * 65536 + d * 256 + e"
    for a b c d e :: nat by simp
  show ?thesis unfolding 1 2 3 4 by (rule regroup)
qed

lemma format_dtc_inj:
  assumes "format_dtc a = format_dtc b"
  shows "unat a mod 2 ^ 24 = unat b mod 2 ^ 24"
proof -
  let ?n = "unat a" and ?m = "unat b"
  have e: "kLetters ! (?n div 4194304 mod 4) = kLetters ! (?m div 4194304 mod 4)"
      "hex_digit (?n div 1048576 mod 4) = hex_digit (?m div 1048576 mod 4)"
      "hex_digit (?n div 65536 mod 16) = hex_digit (?m div 65536 mod 16)"
      "hex_fixed 2 (?n div 256 mod 256) = hex_fixed 2 (?m div 256 mod 256)"
      "hex_fixed 2 (?n mod 256) = hex_fixed 2 (?m mod 256)"
    using assms unfolding format_dtc_nat by (simp_all del: hex_fixed.simps)
  have "?n div 4194304 mod 4 = ?m div 4194304 mod 4" using kLetters_inj [OF _ _ e(1)] by simp
  moreover have "?n div 1048576 mod 4 = ?m div 1048576 mod 4"
    by (rule hex_digit_inj [OF _ _ e(2)]; rule order.strict_trans2 [OF mod_less_divisor]; simp)
  moreover have "?n div 65536 mod 16 = ?m div 65536 mod 16" using hex_digit_inj [OF _ _ e(3)] by simp
  moreover have "?n div 256 mod 256 = ?m div 256 mod 256" using hex_fixed_inj [OF _ _ e(4)] by simp
  moreover have "?n mod 256 = ?m mod 256" using hex_fixed_inj [OF _ _ e(5)] by simp
  ultimately have "?n mod 16777216 = ?m mod 16777216" unfolding digits_24 [of ?n] digits_24 [of ?m] by presburger
  then show ?thesis by simp
qed

text \<open>The text of a trouble code: eight characters that depend on the low three bytes alone and
  tell any two three-byte codes apart.\<close>

theorem dtc_text_unique:
  "length (format_dtc a) = 8 \<and> (format_dtc a = format_dtc b \<longleftrightarrow> unat a mod 2 ^ 24 = unat b mod 2 ^ 24)"
proof -
  have "format_dtc a = format_dtc b" if "unat a mod 2 ^ 24 = unat b mod 2 ^ 24"
  proof -
    have low: "c AND 0xFF = (take_bit 24 c) AND 0xFF" "drop_bit 8 c AND 0xFF = drop_bit 8 (take_bit 24 c) AND 0xFF"
        "drop_bit 16 c AND 0xFF = drop_bit 16 (take_bit 24 c) AND 0xFF" for c :: u32
    proof -
      have m: "(0xFF :: u32) = mask 8" by (simp add: mask_eq_exp_minus_1)
      show "c AND 0xFF = (take_bit 24 c) AND 0xFF" "drop_bit 8 c AND 0xFF = drop_bit 8 (take_bit 24 c) AND 0xFF"
          "drop_bit 16 c AND 0xFF = drop_bit 16 (take_bit 24 c) AND 0xFF"
        unfolding m take_bit_eq_mask [symmetric] drop_bit_take_bit take_bit_take_bit by simp_all
    qed
    have "take_bit 24 (unat a) = take_bit 24 (unat b)" using that by (simp only: take_bit_eq_mod)
    then have "unat (take_bit 24 a) = unat (take_bit 24 b)" by (simp only: unsigned_take_bit_eq)
    then have "take_bit 24 a = take_bit 24 b" by (simp only: word_unat_eq_iff)
    then show ?thesis unfolding format_dtc_def low [of a] low [of b] by (simp only: Let_def)
  qed
  moreover have "length (format_dtc a) = 8"
    unfolding format_dtc_nat by (simp only: length_append list.size length_hex_fixed)
  ultimately show ?thesis using format_dtc_inj [of a b] by blast
qed

end
