(* ===== verification/UdsServer_Laws.thy ===== *)
theory UdsServer_Laws
  imports UdsServer Uds_Laws IsoTp_Link
begin

text \<open>
  The diagnostic server: big-endian numbers, what every answer looks like, what guards the flash, when
  the verify routine leaves it, and the trouble code report read back by the client.
\<close>

subsection \<open>Big-endian numbers\<close>

lemma push_be_append: "push_be out v n = out @ push_be [] v n"
  by (simp add: push_be_def)

lemma push_be_0 [simp]: "push_be [] v 0 = []"
  by (simp add: push_be_def)

lemma push_be_Suc: "push_be [] v (Suc n) = ucast (drop_bit (n * 8) v AND 0xFF) # push_be [] v n"
  by (simp add: push_be_def)

lemma length_push_be [simp]: "length (push_be out v n) = length out + n"
  by (simp add: push_be_def)

definition be_value :: "u32 \<Rightarrow> bytes \<Rightarrow> u32" where
  "be_value = foldl (\<lambda>v b. push_bit 8 v OR ucast b)"

lemma read_be_value:
  assumes "at + n \<le> length data"
  shows "read_be data at n = be_value 0 (take n (drop at data))"
  using assms
proof (induction n)
  case 0
  then show ?case by (simp add: read_be_def be_value_def)
next
  case (Suc n)
  have "read_be data at (Suc n) = push_bit 8 (read_be data at n) OR ucast (data ! (at + n))"
    by (simp add: read_be_def)
  moreover have "take (Suc n) (drop at data) = take n (drop at data) @ [data ! (at + n)]"
    using Suc.prems by (simp add: take_Suc_conv_app_nth)
  ultimately show ?case using Suc by (simp add: be_value_def)
qed

lemma byte_of_word: "ucast (ucast (x AND 0xFF :: u32) :: u8) = (take_bit 8 x :: u32)"
proof -
  have m: "(0xFF :: u32) = mask 8" by (simp add: mask_eq_exp_minus_1)
  show ?thesis unfolding m by (rule bit_word_eqI) (auto simp: bit_simps)
qed

lemma be_value_push: "be_value a (push_be [] v n) = push_bit (8 * n) a OR take_bit (8 * n) v"
proof (induction n arbitrary: a)
  case 0
  then show ?case by (simp add: be_value_def)
next
  case (Suc n)
  have "be_value a (push_be [] v (Suc n)) = be_value (push_bit 8 a OR take_bit 8 (drop_bit (n * 8) v)) (push_be [] v n)"
    by (simp add: push_be_Suc be_value_def byte_of_word)
  also have "\<dots> = push_bit (8 * n) (push_bit 8 a OR take_bit 8 (drop_bit (n * 8) v)) OR take_bit (8 * n) v"
    by (rule Suc.IH)
  also have "\<dots> = push_bit (8 * Suc n) a OR take_bit (8 * Suc n) v"
    by (rule bit_word_eqI) (auto simp: bit_simps algebra_simps)
  finally show ?case .
qed

lemma read_be_push:
  "read_be (pre @ push_be [] v n @ post) (length pre) n = take_bit (8 * n) v"
  using read_be_value [of "length pre" n "pre @ push_be [] v n @ post"] be_value_push [of 0 v n] by simp

subsection \<open>What an answer looks like\<close>

text \<open>The services of an accepted request.\<close>

lemma service_of_value: "service_of b = Some s \<Longrightarrow> b = service_value s"
  unfolding service_of_def find_Some_iff by auto

lemma service_value_less: "service_value s \<le> 0x3E"
  by (cases s) simp_all

definition answer_to :: "bytes \<Rightarrow> bytes \<Rightarrow> bool" where
  "answer_to request rsp \<longleftrightarrow> rsp = [] \<and> (request = [] \<or> suppressed request) \<or>
     (\<exists>n. request \<noteq> [] \<and> rsp = negative (request ! 0) n) \<or>
     (\<exists>body. request \<noteq> [] \<and> \<not> suppressed request \<and> (\<exists>s. service_of (request ! 0) = Some s) \<and>
        rsp = (request ! 0 + kPositiveResponseOffset) # body)"

lemma answer_negative [simp]: "request \<noteq> [] \<Longrightarrow> answer_to request (negative (request ! 0) n)"
  by (auto simp: answer_to_def)

lemma answer_positive: "request \<noteq> [] \<Longrightarrow> service_of (request ! 0) = Some s \<Longrightarrow> answer_to request (positive request body)"
  by (auto simp: answer_to_def positive_def)

lemmas service_defs = sv_session_control_def sv_ecu_reset_def sv_tester_present_service_def sv_read_data_def
  sv_write_data_def sv_security_access_def sv_clear_dtcs_def sv_read_dtcs_def sv_request_download_def
  sv_transfer_data_def sv_transfer_exit_def

lemma service_answers:
  assumes "request \<noteq> []" and "service_of (request ! 0) = Some v"
  shows "answer_to request (fst (sv_session_control s request))" "answer_to request (fst (sv_ecu_reset s request))"
    "answer_to request (fst (sv_tester_present_service s request))" "answer_to request (fst (sv_read_data s request))"
    "answer_to request (fst (sv_write_data s request))" "answer_to request (fst (sv_security_access s request now))"
    "answer_to request (fst (sv_clear_dtcs s request))" "answer_to request (fst (sv_read_dtcs s request))"
    "answer_to request (fst (sv_erase s request now body))" "answer_to request (fst (sv_request_download s request))"
    "answer_to request (fst (sv_transfer_data s request now))" "answer_to request (fst (sv_transfer_exit s request))"
  using assms by (simp_all add: service_defs sv_erase_def Let_def answer_positive split: option.split)

lemma routine_control_cases:
  obtains n where "sv_routine_control s request now = Some (negative (request ! 0) n, s)"
  | b where "sv_routine_control s request now = Some (sv_erase s request now b)"
  | b where "sv_routine_control s request now = Some (positive request b, s)"
  | "length request \<ge> 4" "(ucast (read_be request 2 2) :: u16) = 0xFF01"
    "flash_sum (sv_flash s) (unat (sv_download_written s)) = None" "sv_routine_control s request now = None"
proof -
  let ?r = "ucast (read_be request 2 2) :: u16" and ?b = "push_be [sub_of request] (ucast (ucast (read_be request 2 2) :: u16)) 2"
  consider "length request < 4" | "length request \<ge> 4" "?r = 0xFF00" | "length request \<ge> 4" "?r = 0xFF01"
    | "length request \<ge> 4" "?r \<noteq> 0xFF00" "?r \<noteq> 0xFF01" by linarith
  then show ?thesis
  proof cases
    case 1
    then have "sv_routine_control s request now = Some (negative (request ! 0) NrcIncorrectMessageLengthOrInvalidFormat, s)"
      by (simp add: sv_routine_control_def Let_def)
    then show ?thesis by (rule that(1))
  next
    case 2
    then have "sv_routine_control s request now = Some (sv_erase s request now ?b)"
      by (simp add: sv_routine_control_def Let_def)
    then show ?thesis by (rule that(2))
  next
    case 3
    show ?thesis
    proof (cases "flash_sum (sv_flash s) (unat (sv_download_written s))")
      case None
      then have "sv_routine_control s request now = None" using 3 by (simp add: sv_routine_control_def Let_def)
      then show ?thesis using that(4) 3 None by blast
    next
      case (Some v)
      then have "sv_routine_control s request now = Some (positive request (push_be ?b v 4), s)"
        using 3 by (simp add: sv_routine_control_def Let_def)
      then show ?thesis by (rule that(3))
    qed
  next
    case 4
    then have "sv_routine_control s request now = Some (negative (request ! 0) NrcRequestOutOfRange, s)"
      by (simp add: sv_routine_control_def Let_def)
    then show ?thesis by (rule that(1))
  qed
qed

lemma routine_answers:
  assumes "request \<noteq> []" and "service_of (request ! 0) = Some v" and "sv_routine_control s request now = Some (rsp, s')"
  shows "answer_to request rsp"
proof (cases rule: routine_control_cases [of s request now])
  case (1 n)
  then show ?thesis using assms by simp
next
  case (2 b)
  then have "sv_erase s request now b = (rsp, s')" using assms(3) by simp
  then show ?thesis using service_answers(9) [OF assms(1,2), of s now b] by simp
next
  case (3 b)
  then have "rsp = positive request b" using assms(3) by simp
  then show ?thesis using answer_positive [OF assms(1,2)] by simp
next
  case 4
  then show ?thesis using assms by simp
qed

lemma server_handle_answer_pair:
  assumes "server_handle s request now = Some p"
  shows "answer_to request (fst p)"
proof (cases "request = [] \<or> service_of (request ! 0) = None")
  case True
  then show ?thesis using assms by (cases "request = []") (auto simp: server_handle_def answer_to_def)
next
  case False
  then obtain v where v: "request \<noteq> []" "service_of (request ! 0) = Some v" by auto
  note a = service_answers [OF v]
  show ?thesis
  proof (cases v)
    case SvcDiagnosticSessionControl
    then show ?thesis using assms v a(1) [of s] by (simp add: server_handle_def)
  next
    case SvcEcuReset
    then show ?thesis using assms v a(2) [of s] by (simp add: server_handle_def)
  next
    case SvcTesterPresent
    then show ?thesis using assms v a(3) [of s] by (simp add: server_handle_def)
  next
    case SvcReadDataByIdentifier
    then show ?thesis using assms v a(4) [of s] by (simp add: server_handle_def)
  next
    case SvcWriteDataByIdentifier
    then show ?thesis using assms v a(5) [of s] by (simp add: server_handle_def)
  next
    case SvcSecurityAccess
    then show ?thesis using assms v a(6) [of s now] by (simp add: server_handle_def)
  next
    case SvcClearDiagnosticInformation
    then show ?thesis using assms v a(7) [of s] by (simp add: server_handle_def)
  next
    case SvcReadDtcInformation
    then show ?thesis using assms v a(8) [of s] by (simp add: server_handle_def)
  next
    case SvcRequestDownload
    then show ?thesis using assms v a(10) [of s] by (simp add: server_handle_def)
  next
    case SvcTransferData
    then show ?thesis using assms v a(11) [of s now] by (simp add: server_handle_def)
  next
    case SvcRequestTransferExit
    then show ?thesis using assms v a(12) [of s] by (simp add: server_handle_def)
  next
    case SvcRoutineControl
    then show ?thesis using assms v routine_answers [OF v, of s now "fst p" "snd p"] by (simp add: server_handle_def)
  next
    case SvcCommunicationControl
    then have "p = (positive request [sub_of request], s)" using assms v by (simp add: server_handle_def)
    then show ?thesis using answer_positive [OF v] by simp
  qed
qed

lemma server_handle_answer:
  "server_handle s request now = Some (rsp, s') \<Longrightarrow> answer_to request rsp"
  using server_handle_answer_pair [of s request now "(rsp, s')"] by simp

subsection \<open>What guards the flash\<close>

text \<open>A request that answers the seed of the running security level, outside the default session.\<close>

definition presents_key :: "uds_server \<Rightarrow> bytes \<Rightarrow> bool" where
  "presents_key s request \<longleftrightarrow> length request \<ge> 6 \<and> request ! 0 = service_value SvcSecurityAccess \<and>
     sv_session s \<noteq> session_value SesDefault \<and> sub_of request AND 1 = 0 \<and>
     (ucast (sub_of request) :: u32) = ucast (sv_security_level s) + 1 \<and>
     read_be request 2 4 = toy_key_from_seed (sv_last_seed s) (svc_security_secret (sv_config s))"

definition locked_with :: "bytes \<Rightarrow> uds_server \<Rightarrow> bool" where
  "locked_with F s \<longleftrightarrow> sv_flash s = F \<and> \<not> sv_unlocked s \<and> \<not> sv_download_active s \<and> sv_download_written s = 0"

lemma services_locked:
  assumes "locked_with F s"
  shows "locked_with F (snd (sv_session_control s request))" "locked_with F (snd (sv_ecu_reset s request))"
    "locked_with F (snd (sv_tester_present_service s request))" "locked_with F (snd (sv_read_data s request))"
    "locked_with F (snd (sv_write_data s request))" "locked_with F (snd (sv_clear_dtcs s request))"
    "locked_with F (snd (sv_read_dtcs s request))" "locked_with F (snd (sv_erase s request now body))"
    "locked_with F (snd (sv_request_download s request))" "locked_with F (snd (sv_transfer_data s request now))"
    "locked_with F (snd (sv_transfer_exit s request))"
  using assms by (simp_all add: locked_with_def service_defs sv_erase_def Let_def split: option.split)

lemma security_locked:
  assumes "locked_with F s" and "request ! 0 = service_value SvcSecurityAccess" and "\<not> presents_key s request"
  shows "locked_with F (snd (sv_security_access s request now))"
  using assms by (auto simp: locked_with_def presents_key_def sv_security_access_def Let_def)

lemma routine_locked:
  assumes "locked_with F s"
  obtains rsp s' where "sv_routine_control s request now = Some (rsp, s')" "locked_with F s'"
proof (cases rule: routine_control_cases [of s request now])
  case (2 b)
  then have "sv_routine_control s request now =
      Some (fst (sv_erase s request now b), snd (sv_erase s request now b))" by simp
  then show ?thesis by (rule that) (rule services_locked [OF assms])
next
  case 4
  then show ?thesis using assms by (simp add: locked_with_def flash_sum_def)
qed (use that assms in blast)+

lemma server_handle_locked:
  assumes "locked_with F s" and "\<not> presents_key s request"
  obtains rsp s' where "server_handle s request now = Some (rsp, s')" "locked_with F s'"
proof -
  have "\<exists>p. server_handle s request now = Some p \<and> locked_with F (snd p)"
  proof (cases "request = [] \<or> service_of (request ! 0) = None")
    case True
    then show ?thesis using assms(1) by (auto simp: server_handle_def)
  next
    case False
    then obtain v where v: "request \<noteq> []" "service_of (request ! 0) = Some v" by auto
    note l = services_locked [OF assms(1)]
    show ?thesis
    proof (cases v)
      case SvcSecurityAccess
      then show ?thesis using v security_locked [OF assms(1) _ assms(2)] service_of_value [OF v(2)]
        by (simp add: server_handle_def)
    next
      case SvcRoutineControl
      obtain rsp s' where "sv_routine_control s request now = Some (rsp, s')" "locked_with F s'"
        by (rule routine_locked [OF assms(1)])
      then show ?thesis using v SvcRoutineControl by (simp add: server_handle_def)
    qed (use v l assms(1) in \<open>simp_all add: server_handle_def\<close>)
  qed
  then show ?thesis using that by (metis prod.collapse)
qed

subsection \<open>The server behind the transport\<close>

datatype server_event = SvFrame frame u64 | SvPoll u64 | SvAddDtc dtc

text \<open>\<open>None\<close> is the state after undefined behaviour or an abort.\<close>

fun server_step :: "uds_server option \<Rightarrow> server_event \<Rightarrow> uds_server option" where
  "server_step None e = None"
| "server_step (Some s) (SvFrame f t) = server_on_frame s f t"
| "server_step (Some s) (SvPoll t) = map_option fst (server_poll s t)"
| "server_step (Some s) (SvAddDtc d) = Some (add_dtc s d)"

text \<open>Whether a frame completes a request that presents the key, and whether one of a run does.\<close>

fun shows_key :: "uds_server option \<Rightarrow> server_event \<Rightarrow> bool" where
  "shows_key (Some s) (SvFrame f t) \<longleftrightarrow>
     \<not> sv_sending s \<and> has_message (receiver_on_frame (sv_receiver s) f t) \<and>
     presents_key s (rcv_payload (receiver_on_frame (sv_receiver s) f t))"
| "shows_key _ _ \<longleftrightarrow> False"

fun key_shown :: "uds_server option \<Rightarrow> server_event list \<Rightarrow> bool" where
  "key_shown s [] \<longleftrightarrow> False"
| "key_shown s (e # es) \<longleftrightarrow> shows_key s e \<or> key_shown (server_step s e) es"

definition guarded :: "bytes \<Rightarrow> uds_server option \<Rightarrow> bool" where
  "guarded F so \<longleftrightarrow> (\<exists>s. so = Some s \<and> locked_with F s \<and> wf_sender (sv_sender s))"

lemma sv_start_simps [simp]:
  "locked_with F (sv_start s p t) = locked_with F s" "wf_sender (sv_sender (sv_start s p t))"
proof -
  obtain st x where b: "sender_begin (new_sender (svc_transport (sv_config s))) p t = (st, x)" by (meson surj_pair)
  have "wf_sender x" using wf_sender_begin [OF wf_new_sender, of "svc_transport (sv_config s)" p t] b by simp
  then show "locked_with F (sv_start s p t) = locked_with F s" "wf_sender (sv_sender (sv_start s p t))"
    by (cases st; simp add: sv_start_def b locked_with_def)+
qed

lemma services_keep_sender:
  "sv_sender (snd (sv_session_control s request)) = sv_sender s" "sv_sender (snd (sv_ecu_reset s request)) = sv_sender s"
  "sv_sender (snd (sv_tester_present_service s request)) = sv_sender s" "sv_sender (snd (sv_read_data s request)) = sv_sender s"
  "sv_sender (snd (sv_write_data s request)) = sv_sender s" "sv_sender (snd (sv_security_access s request now)) = sv_sender s"
  "sv_sender (snd (sv_clear_dtcs s request)) = sv_sender s" "sv_sender (snd (sv_read_dtcs s request)) = sv_sender s"
  "sv_sender (snd (sv_erase s request now body)) = sv_sender s" "sv_sender (snd (sv_request_download s request)) = sv_sender s"
  "sv_sender (snd (sv_transfer_data s request now)) = sv_sender s" "sv_sender (snd (sv_transfer_exit s request)) = sv_sender s"
  by (simp_all add: service_defs sv_erase_def Let_def split: option.split)

lemma routine_keeps_sender:
  "sv_routine_control s request now = Some p \<Longrightarrow> sv_sender (snd p) = sv_sender s"
proof (cases rule: routine_control_cases [of s request now])
  case (2 b)
  moreover assume "sv_routine_control s request now = Some p"
  ultimately have "p = sv_erase s request now b" by simp
  then show ?thesis using services_keep_sender(9) by simp
qed auto

lemma server_handle_keeps_sender:
  assumes "server_handle s request now = Some p"
  shows "sv_sender (snd p) = sv_sender s"
proof (cases "request = [] \<or> service_of (request ! 0) = None")
  case True
  then show ?thesis using assms by (cases "request = []") (auto simp: server_handle_def)
next
  case False
  then obtain v where v: "request \<noteq> []" "service_of (request ! 0) = Some v" by auto
  show ?thesis
  proof (cases v)
    case SvcRoutineControl
    then show ?thesis using assms v routine_keeps_sender by (simp add: server_handle_def)
  qed (use assms v in \<open>auto simp: server_handle_def services_keep_sender\<close>)
qed

lemma guarded_step:
  assumes "guarded F so" and "\<not> shows_key so e"
  shows "guarded F (server_step so e)"
proof -
  obtain s where s: "so = Some s" "locked_with F s" "wf_sender (sv_sender s)" using assms(1) by (auto simp: guarded_def)
  show ?thesis
  proof (cases e)
    case (SvAddDtc d)
    then show ?thesis using s by (simp add: guarded_def add_dtc_def locked_with_def)
  next
    case (SvFrame f t)
    let ?r = "receiver_on_frame (sv_receiver s) f t"
    let ?s = "s\<lparr>sv_receiver := receiver_reset ?r, sv_handled := sv_handled s + 1\<rparr>"
    consider "sv_sending s" | "\<not> sv_sending s" "\<not> has_message ?r" | (msg) "\<not> sv_sending s" "has_message ?r" by blast
    then show ?thesis
    proof cases
      case msg
      have "locked_with F ?s" "\<not> presents_key ?s (rcv_payload ?r)"
        using s(2) assms(2) msg by (simp_all add: SvFrame s(1) locked_with_def presents_key_def)
      then obtain rsp s' where h: "server_handle ?s (rcv_payload ?r) t = Some (rsp, s')" "locked_with F s'"
        by (rule server_handle_locked)
      have "wf_sender (sv_sender s')" using server_handle_keeps_sender [OF h(1)] s(3) by simp
      then show ?thesis using h msg by (simp add: SvFrame s(1) server_on_frame_def Let_def guarded_def)
    qed (use s in \<open>simp_all add: SvFrame server_on_frame_def Let_def guarded_def locked_with_def wf_sender_on_frame\<close>)
  next
    case (SvPoll t)
    define s1 where "s1 = (if sv_deferred_response s \<noteq> [] \<and> t \<ge> sv_deferred_until_ns s \<and> \<not> sv_sending s
               then (sv_start s (sv_deferred_response s) t)\<lparr>sv_deferred_response := []\<rparr> else s)"
    have s1: "locked_with F s1" "wf_sender (sv_sender s1)"
      using s(2,3) sv_start_simps by (simp_all add: s1_def locked_with_def)
    obtain x fs where x: "sender_poll (sv_sender s1) t = Some (x, fs)" "wf_sender x"
      using sender_poll_total [OF s1(2), of t] by blast
    obtain r gs where r: "receiver_poll (sv_receiver s1) t = Some (r, gs)"
      using receiver_poll_total [of "sv_receiver s1" t] by blast
    have p: "server_poll s t = (if sv_sending s1 then
         Some (if sender_done x then s1\<lparr>sv_sender := x, sv_sending := False, sv_receiver := receiver_reset (sv_receiver s1)\<rparr>
           else s1\<lparr>sv_sender := x\<rparr>, fs)
       else if sv_pending_left s1 > 0 \<and> sv_deferred_response s1 \<noteq> []
       then Some (sv_start (s1\<lparr>sv_pending_left := sv_pending_left s1 - 1\<rparr>)
          [kNegativeResponse, sv_deferred_service s1, nrc_value NrcRequestCorrectlyReceivedResponsePending] t, [])
       else Some (s1\<lparr>sv_receiver := r\<rparr>, gs))"
      unfolding server_poll_def Let_def s1_def [symmetric] x(1) r by simp
    show ?thesis
      using s1 x(2) by (simp add: SvPoll s(1) p guarded_def)
        (use s1(1) in \<open>simp add: locked_with_def\<close>)
  qed
qed

lemma guarded_run:
  "guarded F so \<Longrightarrow> \<not> key_shown so es \<Longrightarrow> guarded F (foldl server_step so es)"
  by (induction es arbitrary: so) (auto intro: guarded_step)

text \<open>C11. The flash of a server that has never been shown its key: whatever frames arrive and however it is
  polled, either some request answered the seed with the right key outside the default session, or the
  server runs on without leaving its memory, its flash is erased as at the start, it is locked, and no
  download is active.\<close>

theorem uds_flash_guarded:
  "key_shown (Some (new_server k)) es \<or>
   (\<exists>s. foldl server_step (Some (new_server k)) es = Some s \<and>
      sv_flash s = replicate (unat (svc_flash_size k)) 0xFF \<and> \<not> sv_unlocked s \<and> \<not> sv_download_active s)"
proof -
  let ?F = "replicate (unat (svc_flash_size k)) (0xFF :: u8)"
  have "guarded ?F (Some (new_server k))"
    by (simp add: guarded_def locked_with_def new_server_def wf_new_sender)
  then have "key_shown (Some (new_server k)) es \<or> guarded ?F (foldl server_step (Some (new_server k)) es)"
    using guarded_run by blast
  then show ?thesis unfolding guarded_def locked_with_def by blast
qed

subsection \<open>The answers at the client\<close>

lemma answer_service:
  assumes "answer_to request rsp" and "rsp \<noteq> []"
  shows "request \<noteq> [] \<and> ((\<exists>n. rsp = negative (request ! 0) n) \<or>
    (\<exists>body v. rsp = (service_value v + kPositiveResponseOffset) # body \<and> request ! 0 = service_value v \<and> \<not> suppressed request))"
  using assms service_of_value by (fastforce simp: answer_to_def)

lemma positive_byte:
  "uint (service_value v + kPositiveResponseOffset) = uint (service_value v) + uint kPositiveResponseOffset"
  "service_value v + kPositiveResponseOffset \<noteq> kNegativeResponse"
  by (cases v; simp add: kPositiveResponseOffset_def kNegativeResponse_def)+

text \<open>C17. The two ends agree on the messages: whatever request the server handles, in whatever state, its
  answer is empty for a suppressed positive response only, and the client that waits for this service
  takes it as the positive response with the answer's data, or as the negative response with the server's
  code; a responsePending is counted, and while the count is within the client's limit (or there is none) the client
  goes on waiting with a new P2* deadline, and above the limit it ends with TransportTimeout. It never rejects
  an answer as malformed.\<close>

theorem uds_answer_understood:
  assumes "server_handle s request now = Some (rsp, s')" and "request \<noteq> []"
    and "cl_requested_service c = request ! 0" and "cl_state c = RqAwaitingResponse"
  shows "(rsp = [] \<and> suppressed request) \<or>
    (rsp \<noteq> [] \<and> cl_state (handle_message c rsp t) = RqComplete \<and>
      cl_response (handle_message c rsp t) = \<lparr>rsp_positive = True, rsp_service = request ! 0 + 0x40, rsp_nrc = 0,
        rsp_data = drop 1 rsp, rsp_pending_count = cl_pending_count c\<rparr>) \<or>
    (\<exists>n. n \<noteq> NrcRequestCorrectlyReceivedResponsePending \<and> rsp = negative (request ! 0) n \<and>
      cl_state (handle_message c rsp t) = RqComplete \<and>
      cl_response (handle_message c rsp t) = \<lparr>rsp_positive = False, rsp_service = request ! 0, rsp_nrc = nrc_value n,
        rsp_data = [], rsp_pending_count = cl_pending_count c\<rparr>) \<or>
    (rsp = negative (request ! 0) NrcRequestCorrectlyReceivedResponsePending \<and>
      cl_pending_count (handle_message c rsp t) = cl_pending_count c + 1 \<and>
      (if cfg_max_response_pending (cl_config c) = 0 \<or> cl_pending_count c + 1 \<le> cfg_max_response_pending (cl_config c)
       then cl_state (handle_message c rsp t) = RqAwaitingResponse \<and>
            cl_deadline_ns (handle_message c rsp t) = t + cfg_p2_star_ns (cl_config c)
       else cl_state (handle_message c rsp t) = RqFailed \<and>
            err_code (cl_failure (handle_message c rsp t)) = TransportTimeout))"
proof (cases "rsp = []")
  case True
  then show ?thesis using server_handle_answer [OF assms(1)] assms(2) by (auto simp: answer_to_def negative_def)
next
  case False
  from answer_service [OF server_handle_answer [OF assms(1)] False]
  consider (neg) n where "rsp = negative (request ! 0) n"
    | (pos) body v where "rsp = (service_value v + kPositiveResponseOffset) # body" "request ! 0 = service_value v" by blast
  then show ?thesis
  proof cases
    case (neg n)
    show ?thesis
    proof (cases "n = NrcRequestCorrectlyReceivedResponsePending")
      case True
      then show ?thesis using neg assms(4) unfolding handle_message_cases Let_def
        by (auto simp: negative_def client_updates)
    next
      case False
      then have "nrc_value n \<noteq> nrc_value NrcRequestCorrectlyReceivedResponsePending" by (cases n) simp_all
      then show ?thesis using neg False assms(4) unfolding handle_message_cases Let_def
        by (auto simp: negative_def new_response_def)
    qed
  next
    case (pos body v)
    then have "handle_message c rsp t = client_finish
             (if cl_requested_service c = service_value SvcDiagnosticSessionControl \<and> drop 1 rsp \<noteq> []
              then c\<lparr>cl_last_activity_ns := t, cl_session := drop 1 rsp ! 0 AND 0x7F\<rparr> else c\<lparr>cl_last_activity_ns := t\<rparr>)
             (new_response\<lparr>rsp_positive := True, rsp_service := rsp ! 0, rsp_data := drop 1 rsp\<rparr>)"
      using assms(3) positive_byte [of v] unfolding handle_message_cases Let_def by simp
    moreover have "rsp ! 0 = request ! 0 + 0x40" using pos by (simp add: kPositiveResponseOffset_def)
    ultimately show ?thesis using False by (simp add: new_response_def)
  qed
qed

lemma understood_setting:
  "server_handle (new_server (default_server_config demo_ecu)) [0x3E, 0x00] 9 =
    Some ([0x7E, 0x00], (new_server (default_server_config demo_ecu))\<lparr>sv_tester_present := 1\<rparr>)"
  by (simp add: server_handle_def service_of_def all_services_def sv_tester_present_service_def positive_def
      suppressed_def has_sub_function_def sub_of_def kPositiveResponseOffset_def kSuppressPositiveResponse_def new_server_def)

theorem uds_answer_understood_witness:
  "cl_state (handle_message ((new_client sample_client)\<lparr>cl_requested_service := 0x3E, cl_state := RqAwaitingResponse\<rparr>)
    [0x7E, 0x00] 9) = RqComplete"
  using uds_answer_understood [OF understood_setting,
      of "(new_client sample_client)\<lparr>cl_requested_service := 0x3E, cl_state := RqAwaitingResponse\<rparr>" 9]
  by (simp add: negative_def kNegativeResponse_def)

subsection \<open>The trouble code report\<close>

lemma dtc_records_bytes: "dtc_records (concat (map dtc_record_bytes ds)) =
    map (\<lambda>d. d\<lparr>dtc_code := take_bit 24 (dtc_code d), dtc_text := []\<rparr>) ds"
proof (induction ds)
  case (Cons d ds)
  obtain a b c where abc: "push_be [] (dtc_code d) 3 = [a, b, c]"
    by (simp add: push_be_def numeral_eq_Suc upt_rec)
  have "be_value 0 [a, b, c] = take_bit 24 (dtc_code d)" using be_value_push [of 0 "dtc_code d" 3] abc by simp
  then have code: "push_bit 16 (ucast a) OR push_bit 8 (ucast b) OR ucast c = take_bit 24 (dtc_code d)"
    by (simp add: be_value_def push_bit_or or.assoc)
  show ?case using Cons by (simp add: dtc_record_bytes_def abc code)
qed simp

text \<open>C31. The report of trouble codes by status mask survives the trip: what \<open>parse_dtc_list\<close> reads from the
  data of the server's answer are the server's trouble codes with a status bit under the mask, in their
  order, the low three bytes of each code and its status byte.\<close>

theorem dtc_report_roundtrip:
  "\<exists>body. server_handle s [0x19, 0x02, m] now = Some (0x59 # body, s) \<and>
    parse_dtc_list body = map (\<lambda>d. d\<lparr>dtc_code := take_bit 24 (dtc_code d), dtc_text := []\<rparr>)
      (filter (\<lambda>d. dtc_status d AND m \<noteq> 0) (sv_dtcs s))"
proof -
  let ?ds = "filter (\<lambda>d. dtc_status d AND m \<noteq> 0) (sv_dtcs s)"
  have "server_handle s [0x19, 0x02, m] now = Some (0x59 # 0x02 # 0xFF # concat (map dtc_record_bytes ?ds), s)"
    by (simp add: server_handle_def service_of_def all_services_def sv_read_dtcs_def positive_def suppressed_def
        has_sub_function_def sub_of_def kPositiveResponseOffset_def kSuppressPositiveResponse_def Let_def)
  moreover have "parse_dtc_list (0x02 # 0xFF # concat (map dtc_record_bytes ?ds)) = dtc_records (concat (map dtc_record_bytes ?ds))"
    by (simp add: parse_dtc_list_def)
  ultimately show ?thesis using dtc_records_bytes [of ?ds] by auto
qed

subsection \<open>Leaving the flash\<close>

lemma server_handle_none:
  "server_handle s request now = None \<longleftrightarrow>
     request \<noteq> [] \<and> request ! 0 = service_value SvcRoutineControl \<and> length request \<ge> 4 \<and>
     (ucast (read_be request 2 2) :: u16) = 0xFF01 \<and> length (sv_flash s) < unat (sv_download_written s)"
proof (cases "request = [] \<or> service_of (request ! 0) = None")
  case True
  moreover have "service_of (service_value SvcRoutineControl) \<noteq> None" by (simp add: service_of_def all_services_def)
  ultimately show ?thesis by (cases "request = []") (auto simp: server_handle_def simp del: service_value.simps)
next
  case False
  then obtain v where v: "request \<noteq> []" "service_of (request ! 0) = Some v" by auto
  have b: "request ! 0 = service_value v" by (rule service_of_value [OF v(2)])
  show ?thesis
  proof (cases "v = SvcRoutineControl")
    case True
    have "sv_routine_control s request now = None \<longleftrightarrow> length request \<ge> 4 \<and>
        (ucast (read_be request 2 2) :: u16) = 0xFF01 \<and> length (sv_flash s) < unat (sv_download_written s)"
      by (auto simp: sv_routine_control_def flash_sum_def Let_def)
    then show ?thesis using v b True by (simp add: server_handle_def)
  next
    case False
    then have "service_value v \<noteq> service_value SvcRoutineControl" by (cases v) simp_all
    moreover have "server_handle s request now \<noteq> None" using v False by (cases v) (simp_all add: server_handle_def)
    ultimately show ?thesis using b by simp
  qed
qed

definition handle_all :: "uds_server \<Rightarrow> bytes list \<Rightarrow> uds_server option" where
  "handle_all s rs = foldl (\<lambda>so r. case so of None \<Rightarrow> None | Some s \<Rightarrow> map_option snd (server_handle s r 0)) (Some s) rs"

definition tiny_server :: server_config where
  "tiny_server = (default_server_config demo_ecu)\<lparr>svc_flash_size := 4\<rparr>"

definition overrun_requests :: "bytes list" where
  "overrun_requests =
    [[0x10, 0x02], [0x27, 0x01], [0x27, 0x02] @ push_be [] (toy_key_from_seed 0xC0FFEE 0xA5C3F00D) 4,
     [0x34, 0x00, 0x44] @ push_be [] 0x08000000 4 @ push_be [] 4 4, [0x36, 0x01, 1, 2, 3, 4],
     [0x34, 0x00, 0x44] @ push_be [] 0x07FFFFFC 4 @ push_be [] 4 4, [0x36, 0x02, 5, 6],
     [0x31, 0x01, 0xFF, 0x01]]"

lemma overrun: "handle_all (new_server tiny_server) overrun_requests = None"
  by code_simp

text \<open>The verify routine reads past the flash vector exactly when more bytes were counted as written than
  the vector holds, no other request leaves it, and such a state is reachable: a rejected RequestDownload
  in the middle of a transfer has already replaced the download address, so that the blocks after it are
  written, and counted, a second time.\<close>

lemma uds_verify_out_of_bounds:
  "(server_handle s request now = None \<longleftrightarrow>
     request \<noteq> [] \<and> request ! 0 = service_value SvcRoutineControl \<and> length request \<ge> 4 \<and>
     (ucast (read_be request 2 2) :: u16) = 0xFF01 \<and> length (sv_flash s) < unat (sv_download_written s)) \<and>
   handle_all (new_server tiny_server) overrun_requests = None"
  using server_handle_none overrun by blast

end
