(* ===== verification/Uds_Pump.thy ===== *)
theory Uds_Pump
  imports Uds_Cli UdsServer_Laws
begin

text \<open>
  What the pump of the diagnostic command does with one request: the rounds that carry the request to the server, the
  answer back to the client, and the waiting in between. The transport is the one of \<open>IsoTp_Link\<close>; time is counted
  in rounds.
\<close>

subsection \<open>A transfer between two turns of its sender\<close>

text \<open>
  Neither end asks for a delay, and the time-outs are those of the command. \<open>half\<close> is the state right after the
  sender's turn at \<open>t\<close>: the sender waits for a Flow Control that is due, or may go on with the next frame.
\<close>

definition prompt :: "isotp_config \<Rightarrow> isotp_config \<Rightarrow> bool" where
  "prompt cs cr \<longleftrightarrow> linked cs cr \<and> linked cr cs \<and> n_cs_ns cs = 0 \<and> n_br_ns cr = 0 \<and>
     st_min_to_ns (st_min_raw cr) = 0"

definition half :: "bytes \<Rightarrow> isotp_config \<Rightarrow> isotp_config \<Rightarrow> u64 \<Rightarrow> sender \<Rightarrow> receiver \<Rightarrow> bool" where
  "half m cs cr t s r \<longleftrightarrow> link_inv m cs cr (s, r) \<and> \<not> sender_done s \<and>
     (rcv_state r = SendFlowControl \<and> rcv_pending_status r = ContinueToSend \<and> rcv_fc_due_ns r = t \<and>
        snd_state s = WaitingFlowControl \<and> snd_deadline_ns s = t + n_bs_ns cs \<or>
      rcv_state r = Receiving \<and> rcv_deadline_ns r = t + n_cr_ns cr \<and>
        snd_state s = SendingConsecutive \<and> snd_next_send_ns s = t \<and> snd_st_min_ns s = 0)"

text \<open>A sender that has just begun, facing a receiver that waits for a message.\<close>

definition at_start :: "bytes \<Rightarrow> isotp_config \<Rightarrow> isotp_config \<Rightarrow> sender \<Rightarrow> receiver \<Rightarrow> bool" where
  "at_start m cs cr s r \<longleftrightarrow> link_inv m cs cr (s, r) \<and> m \<noteq> [] \<and> length m \<le> unat (max_receive_length cr) \<and>
     rcv_state r = RIdle \<and> \<not> sender_done s \<and>
     snd_state s = (if length m \<le> 7 - header_size (address cs) then SendingSingle else SendingFirst)"

definition idle :: "isotp_config \<Rightarrow> receiver \<Rightarrow> bool" where
  "idle c r \<longleftrightarrow> wf_receiver r \<and> rcv_config r = c \<and> rcv_state r = RIdle"

lemma idle_reset: "rcv_config r = c \<Longrightarrow> idle c (receiver_reset r)"
  using wf_receiver_reset [of r] by (simp add: idle_def receiver_reset_def)

lemma idle_poll: "idle c r \<Longrightarrow> receiver_poll r t = Some (r, [])"
  by (simp add: idle_def receiver_poll_def)

lemma idle_result: "idle c r \<Longrightarrow> \<not> has_message r \<and> \<not> receiver_done r"
  by (auto simp: idle_def wf_receiver_def has_message_def receiver_done_def Let_def)

lemma begin_at_start:
  assumes "validate_config cs = ok" and "m \<noteq> []" and "length m \<le> unat (max_receive_length cr)" and "idle cr r"
  shows "sender_begin (new_sender cs) m t = (ok, snd (sender_begin (new_sender cs) m t))"
    and "at_start m cs cr (snd (sender_begin (new_sender cs) m t)) r"
proof -
  have n: "length m < 2 ^ 32" using assms(3) unat_less_exp [of "max_receive_length cr"] by simp
  note b = sender_begin_accepts [of "new_sender cs" m t] and i = link_start_inv [OF assms(1) n, of cr t]
  have c: "snd_state (new_sender cs) = SIdle" "snd_config (new_sender cs) = cs" by (simp_all add: new_sender_def)
  show "sender_begin (new_sender cs) m t = (ok, snd (sender_begin (new_sender cs) m t))" using b c assms(1) n by simp
  show "at_start m cs cr (snd (sender_begin (new_sender cs) m t)) r"
    using b c assms n i by (simp add: at_start_def idle_def link_inv_def sender_done_def)
qed

lemma first_half:
  assumes p: "prompt cs cr" and o: "at_start m cs cr s r"
  shows "delivered m (fst (link_step (s, r) (SenderTurn t))) (snd (link_step (s, r) (SenderTurn t))) \<or>
    half m cs cr t (fst (link_step (s, r) (SenderTurn t))) (snd (link_step (s, r) (SenderTurn t)))"
proof -
  have l: "linked cs cr" and inv: "link_inv m cs cr (s, r)" and m: "m \<noteq> []"
    using p o by (simp_all add: prompt_def at_start_def)
  have c: "wf_sender s" "snd_config s = cs" "rcv_config r = cr" "snd_payload s = m" "rcv_state r = RIdle" "\<not> sender_done s"
    using o by (simp_all add: at_start_def link_inv_def)
  have ls: "linked (snd_config s) (rcv_config r)" using l c by simp
  note inv' = sender_turn_inv [OF l m inv, of t]
  show ?thesis
  proof (cases "length m \<le> 7 - header_size (address cs)")
    case True
    then have "snd_state s = SendingSingle" using o by (simp add: at_start_def)
    from deliver_single [OF c(1) this c(6) ls c(5), of t] m c(4) show ?thesis
      by (simp add: delivered_def sender_finish_def receiver_finish_def sender_done_def has_message_def)
  next
    case False
    then have "snd_state s = SendingFirst" using o by (simp add: at_start_def)
    note e = deliver_first [OF c(1) this c(6) ls c(5), of t]
    have "length m \<le> unat (max_receive_length cr)" using o by (simp add: at_start_def)
    then show ?thesis using inv' p c unfolding e
      by (simp add: half_def after_first_def accept_first_def sender_done_def prompt_def)
  qed
qed

lemma consecutive_half:
  assumes p: "prompt cs cr" and m: "m \<noteq> []" and inv: "link_inv m cs cr (s, r)"
    and st: "\<not> sender_done s" "snd_state s = SendingConsecutive" "\<not> v < snd_next_send_ns s" "snd_st_min_ns s = 0"
    and r: "rcv_state r = Receiving"
  shows "delivered m (fst (link_step (s, r) (SenderTurn v))) (snd (link_step (s, r) (SenderTurn v))) \<or>
    half m cs cr v (fst (link_step (s, r) (SenderTurn v))) (snd (link_step (s, r) (SenderTurn v))) \<and>
    snd_offset s < snd_offset (fst (link_step (s, r) (SenderTurn v)))"
proof -
  have l: "linked cs cr" using p by (simp add: prompt_def)
  have c: "snd_config s = cs" "rcv_config r = cr" "snd_payload s = m" "wf_sender s"
    using inv by (simp_all add: link_inv_def)
  have step: "in_step s r" and blk: "snd_block_size s = block_size (rcv_config r)" "snd_frames_in_block s = rcv_frames_in_block r"
    using inv st r c by (auto simp: link_inv_def)
  have ls: "linked (snd_config s) (rcv_config r)" using l c by simp
  have off: "snd_offset s < length m" using c st by (auto simp: wf_sender_def sender_running_def Let_def)
  moreover have "header_size (address (snd_config s)) \<le> 1" by (rule header_size_le)
  ultimately have ct: "0 < consecutive_take s" using c(3) by (auto simp: consecutive_take_def)
  define s1 where "s1 = after_consecutive s v"
  define r1 where "r1 = accept_consecutive r (next_chunk s) v"
  have e: "link_step (s, r) (SenderTurn v) = (s1, r1)"
    unfolding s1_def r1_def by (rule deliver_consecutive [OF c(4) st(2,1,3) ls r step])
  have inv1: "link_inv m cs cr (s1, r1)" using sender_turn_inv [OF l m inv, of v] by (simp add: e)
  note tog = consecutive_together [OF c(4) st(2) r step blk, of v, folded s1_def r1_def]
  show ?thesis
  proof (cases "snd_offset s + consecutive_take s = length m")
    case True
    then have "delivered m s1 r1" using tog c by (simp add: delivered_def has_message_def sender_done_def)
    then show ?thesis by (simp add: e)
  next
    case False
    note tog' = tog [unfolded c if_not_P [OF False]]
    have "half m cs cr v s1 r1"
      using tog' inv1 st(1,4) p unfolding half_def by (auto simp: sender_done_def prompt_def)
    moreover have "snd_offset s < snd_offset s1" using tog' ct by linarith
    ultimately show ?thesis by (simp add: e)
  qed
qed

text \<open>The receiver's turn at \<open>u\<close> and the sender's next one at \<open>v\<close>, both before the time-outs.\<close>

lemma half_receiver:
  assumes p: "prompt cs cr" and h: "half m cs cr t s r" and u: "t \<le> u" "u < t + n_cr_ns cr"
  shows "link_inv m cs cr (link_step (s, r) (ReceiverTurn u))" (is "?inv")
    and "\<not> sender_done (fst (link_step (s, r) (ReceiverTurn u)))" (is "?nd")
    and "snd_state (fst (link_step (s, r) (ReceiverTurn u))) = SendingConsecutive" (is "?st")
    and "snd_next_send_ns (fst (link_step (s, r) (ReceiverTurn u))) \<le> u" (is "?next")
    and "snd_st_min_ns (fst (link_step (s, r) (ReceiverTurn u))) = 0" (is "?min")
    and "rcv_state (snd (link_step (s, r) (ReceiverTurn u))) = Receiving" (is "?rs")
    and "snd_offset (fst (link_step (s, r) (ReceiverTurn u))) = snd_offset s" (is "?off")
proof -
  have inv: "link_inv m cs cr (s, r)" and nd: "\<not> sender_done s" using h by (simp_all add: half_def)
  have c: "snd_config s = cs" "rcv_config r = cr" using inv by (simp_all add: link_inv_def)
  have l: "linked cr cs" and ls: "linked (rcv_config r) (snd_config s)" using p c by (simp_all add: prompt_def)
  show ?inv by (rule receiver_turn_inv [OF l inv])
  consider (flow) "rcv_state r = SendFlowControl" "rcv_pending_status r = ContinueToSend" "rcv_fc_due_ns r = t"
      "snd_state s = WaitingFlowControl"
    | (go) "rcv_state r = Receiving" "rcv_deadline_ns r = t + n_cr_ns cr" "snd_state s = SendingConsecutive"
        "snd_next_send_ns s = t" "snd_st_min_ns s = 0" using h by (auto simp: half_def)
  then have "?nd \<and> ?st \<and> ?next \<and> ?min \<and> ?rs \<and> ?off"
  proof cases
    case flow
    have due: "rcv_fc_due_ns r \<le> u" using flow(3) u(1) by simp
    show ?thesis using deliver_flow [OF flow(1) due _ ls] flow nd p c
      by (simp add: accept_flow_def sender_done_def prompt_def)
  next
    case go
    then have "receiver_poll r u = Some (r, [])" using u(2) by (simp add: receiver_poll_def not_le)
    then show ?thesis using go nd u(1) by (simp add: receiver_turn_idle)
  qed
  then show ?nd ?st ?next ?min ?rs ?off by blast+
qed

lemma next_half:
  assumes p: "prompt cs cr" and m: "m \<noteq> []" and h: "half m cs cr t s r"
    and u: "t \<le> u" "u < t + n_cr_ns cr" and v: "u \<le> v"
  defines "sr \<equiv> link_step (link_step (s, r) (ReceiverTurn u)) (SenderTurn v)"
  shows "delivered m (fst sr) (snd sr) \<or> half m cs cr v (fst sr) (snd sr) \<and> snd_offset s < snd_offset (fst sr)"
proof -
  note hr = half_receiver [OF p h u]
  have "\<not> v < snd_next_send_ns (fst (link_step (s, r) (ReceiverTurn u)))" using hr(4) v by (simp add: not_less)
  from consecutive_half [OF p m _ hr(2,3) this hr(5,6)] hr(1,7) show ?thesis unfolding sr_def by simp
qed

lemma half_offset: "half m cs cr t s r \<Longrightarrow> snd_offset s \<le> length m"
  by (auto simp: half_def link_inv_def wf_sender_def Let_def)

lemma half_result: "half m cs cr t s r \<Longrightarrow> \<not> sender_done s \<and> \<not> has_message r"
  by (auto simp: half_def link_inv_def wf_receiver_def has_message_def Let_def)

subsection \<open>The turns of a round\<close>

lemma one_frame:
  assumes "wf_sender s" and "link_step (s, r) (SenderTurn t) = (x, y)"
  shows "sender_poll s t = Some (x, []) \<and> y = r \<or> (\<exists>f. sender_poll s t = Some (x, [f]) \<and> y = receiver_on_frame r f t)"
proof -
  obtain s' fs where p: "sender_poll s t = Some (s', fs)" "length fs \<le> 1" using sender_poll_total [OF assms(1)] by blast
  then have "s' = x" "y = deliver_to_receiver r fs t" using assms(2) by (simp_all add: link_step_def)
  moreover have "fs = [] \<or> (\<exists>f. fs = [f])" using p(2) by (cases fs) auto
  ultimately show ?thesis using p(1) by (auto simp: deliver_to_receiver_def)
qed

lemma receiver_frames:
  assumes "link_step (s, r) (ReceiverTurn t) = (x, y)"
  obtains fs where "receiver_poll r t = Some (y, fs)" "x = deliver_to_sender s fs t"
  using assms receiver_poll_total [of r t] by (auto simp: link_step_def)

text \<open>The client sends its request.\<close>

lemma client_sends:
  assumes "cl_state c = RqSending" and "wf_sender (cl_sender c)" and "\<not> sv_sending s"
    and "link_step (cl_sender c, sv_receiver s) (SenderTurn t) = (x, y)" and "\<not> sender_done x" and "\<not> has_message y"
  shows "client_turn c s t = Some (c\<lparr>cl_sender := x\<rparr>, s\<lparr>sv_receiver := y\<rparr>)"
  using one_frame [OF assms(2,4)] assms(1,3,5,6)
  by (auto simp: client_turn_def client_poll_def poll_sending_def poll_awaiting_def poll_keepalive_def
      server_on_frame_def Let_def)

lemma client_sent:
  assumes "cl_state c = RqSending" and "wf_sender (cl_sender c)" and "\<not> sv_sending s" and "cl_expect_response c"
    and "link_step (cl_sender c, sv_receiver s) (SenderTurn t) = (x, y)" and "delivered m x y"
    and "\<not> has_message (sv_receiver s)" and "idle k (cl_receiver c)" and "t < t + cfg_p2_ns (cl_config c)"
  shows "client_turn c s t =
    (case server_handle (s\<lparr>sv_receiver := receiver_reset y, sv_handled := sv_handled s + 1\<rparr>) m t of
       None \<Rightarrow> None
     | Some (rsp, s') \<Rightarrow>
         Some (c\<lparr>cl_sender := x, cl_state := RqAwaitingResponse, cl_deadline_ns := t + cfg_p2_ns (cl_config c)\<rparr>,
               if rsp \<noteq> [] then sv_start s' rsp t else s'))"
proof -
  have d: "sender_done x" "snd_result x = TransferOk" "has_message y" "rcv_payload y = m"
    using assms(6) by (simp_all add: delivered_def)
  then obtain f where f: "sender_poll (cl_sender c) t = Some (x, [f])" "y = receiver_on_frame (sv_receiver s) f t"
    using one_frame [OF assms(2,5)] assms(7) by auto
  define c1 where "c1 = c\<lparr>cl_sender := x, cl_state := RqAwaitingResponse, cl_deadline_ns := t + cfg_p2_ns (cl_config c)\<rparr>"
  have "poll_sending c t = Some (False, c1, [f])"
    using assms(1,4) d(1,2) by (simp add: poll_sending_def f(1) c1_def Let_def)
  moreover have "poll_awaiting c1 t = Some (c1, [])"
    using idle_poll [OF assms(8), of t] idle_result [OF assms(8)] assms(9)
    by (simp add: poll_awaiting_def c1_def Let_def not_le)
  moreover have "poll_keepalive c1 t = Some (c1, [])" by (simp add: poll_keepalive_def c1_def)
  ultimately have "client_poll c t = Some (c1, [f])" by (simp add: client_poll_def)
  then show ?thesis using d(3,4) assms(3)
    by (simp add: client_turn_def server_on_frame_def f(2) [symmetric] c1_def Let_def split: option.splits)
qed

lemma server_answers_flow:
  assumes "cl_state c = RqSending" and "\<not> sv_sending s" and "sv_deferred_response s = []"
    and "link_step (cl_sender c, sv_receiver s) (ReceiverTurn t) = (x, y)"
  shows "server_turn c s t = Some (c\<lparr>cl_sender := x\<rparr>, s\<lparr>sv_receiver := y\<rparr>)"
proof -
  obtain fs where fs: "receiver_poll (sv_receiver s) t = Some (y, fs)" "x = deliver_to_sender (cl_sender c) fs t"
    by (rule receiver_frames [OF assms(4)])
  have "client_on_frames c fs t = c\<lparr>cl_sender := deliver_to_sender (cl_sender c) fs t\<rparr>"
    using assms(1)
  proof (induction fs arbitrary: c)
    case (Cons f fs)
    then show ?case
      using Cons.IH [of "c\<lparr>cl_sender := sender_on_frame (cl_sender c) f t\<rparr>"]
      by (simp add: client_on_frames_def client_on_frame_def deliver_to_sender_def)
  qed (simp add: client_on_frames_def deliver_to_sender_def)
  then show ?thesis using assms(2,3) fs by (simp add: server_turn_def server_poll_def Let_def)
qed

lemma server_idles:
  assumes "idle k (sv_receiver s)" and "\<not> sv_sending s"
    and "sv_deferred_response s = [] \<or> t < sv_deferred_until_ns s \<and> sv_pending_left s = 0"
  shows "server_turn c s t = Some (c, s)"
  using idle_poll [OF assms(1), of t] assms(2,3)
  by (auto simp: server_turn_def server_poll_def client_on_frames_def Let_def)

text \<open>The client waits for the answer, and the server sends it.\<close>

lemma client_waits:
  assumes "cl_state c = RqAwaitingResponse" and "idle k (cl_receiver c)" and "t < cl_deadline_ns c"
  shows "client_turn c s t = Some (c, s)"
  using idle_poll [OF assms(2), of t] idle_result [OF assms(2)] assms(1,3)
  by (simp add: client_turn_def client_poll_def poll_sending_def poll_awaiting_def poll_keepalive_def Let_def)

lemma client_answers_flow:
  assumes "cl_state c = RqAwaitingResponse" and "sv_sending s" and "t < cl_deadline_ns c"
    and "link_step (sv_sender s, cl_receiver c) (ReceiverTurn t) = (x, y)" and "\<not> receiver_done y"
  shows "client_turn c s t = Some (c\<lparr>cl_receiver := y\<rparr>, s\<lparr>sv_sender := x\<rparr>)"
proof -
  obtain fs where fs: "receiver_poll (cl_receiver c) t = Some (y, fs)" "x = deliver_to_sender (sv_sender s) fs t"
    by (rule receiver_frames [OF assms(4)])
  have "server_on_frames s fs t = Some (s\<lparr>sv_sender := deliver_to_sender (sv_sender s) fs t\<rparr>)"
    using assms(2)
  proof (induction fs arbitrary: s)
    case (Cons f fs)
    then show ?case
      using Cons.IH [of "s\<lparr>sv_sender := sender_on_frame (sv_sender s) f t\<rparr>"]
      by (simp add: server_on_frame_def deliver_to_sender_def)
  qed (simp add: deliver_to_sender_def)
  then show ?thesis using assms(1,3,5) fs
    by (simp add: client_turn_def client_poll_def poll_sending_def poll_awaiting_def poll_keepalive_def Let_def
        has_message_def receiver_done_def)
qed

lemma server_sends_frames:
  assumes "cl_state c = RqAwaitingResponse"
  shows "client_on_frames c fs t = c\<lparr>cl_receiver := deliver_to_receiver (cl_receiver c) fs t\<rparr>"
  using assms
proof (induction fs arbitrary: c)
  case (Cons f fs)
  then show ?case
    using Cons.IH [of "c\<lparr>cl_receiver := receiver_on_frame (cl_receiver c) f t\<rparr>"]
    by (simp add: client_on_frames_def client_on_frame_def deliver_to_receiver_def)
qed (simp add: client_on_frames_def deliver_to_receiver_def)

definition server_sent :: "uds_server \<Rightarrow> sender \<Rightarrow> uds_server" where
  "server_sent s x =
     (if sender_done x then s\<lparr>sv_sender := x, sv_sending := False, sv_receiver := receiver_reset (sv_receiver s)\<rparr>
      else s\<lparr>sv_sender := x\<rparr>)"

lemma server_sends:
  assumes "cl_state c = RqAwaitingResponse" and "sv_sending s" and "wf_sender (sv_sender s)"
    and "link_step (sv_sender s, cl_receiver c) (SenderTurn t) = (x, y)"
  shows "server_turn c s t = Some (c\<lparr>cl_receiver := y\<rparr>, server_sent s x)"
  using one_frame [OF assms(3,4)] server_sends_frames [OF assms(1)] assms(2)
  by (auto simp: server_turn_def server_poll_def server_sent_def deliver_to_receiver_def Let_def)

lemma server_starts_deferred:
  assumes "cl_state c = RqAwaitingResponse" and "\<not> sv_sending s" and "sv_deferred_response s \<noteq> []"
    and "sv_deferred_until_ns s \<le> t" and "s1 = (sv_start s (sv_deferred_response s) t)\<lparr>sv_deferred_response := []\<rparr>"
    and "sv_sending s1" and "wf_sender (sv_sender s1)"
    and "link_step (sv_sender s1, cl_receiver c) (SenderTurn t) = (x, y)"
  shows "server_turn c s t = Some (c\<lparr>cl_receiver := y\<rparr>, server_sent s1 x)"
proof -
  have "server_poll s t = server_poll s1 t"
    using assms(2-6) by (simp add: server_poll_def Let_def)
  then have "server_turn c s t = server_turn c s1 t" by (simp add: server_turn_def)
  then show ?thesis using server_sends [OF assms(1,6,7,8)] by simp
qed

lemma server_starts_pending:
  assumes "\<not> sv_sending s" and "sv_deferred_response s \<noteq> []" and "t < sv_deferred_until_ns s" and "sv_pending_left s > 0"
  shows "server_turn c s t = Some (c, sv_start (s\<lparr>sv_pending_left := sv_pending_left s - 1\<rparr>)
    (negative (sv_deferred_service s) NrcRequestCorrectlyReceivedResponsePending) t)"
  using assms(1,2,4)
  by (simp add: server_turn_def server_poll_def client_on_frames_def negative_def Let_def not_le [THEN iffD2, OF assms(3)])

lemma handle_message_activity: "cl_last_activity_ns (handle_message c m t) = t"
  by (simp add: handle_message_def client_finish_def client_fail_def Let_def)

lemma client_reads:
  assumes "cl_state c = RqAwaitingResponse" and "rcv_state (cl_receiver c) = RFinished" and "has_message (cl_receiver c)"
    and "c1 = handle_message (c\<lparr>cl_receiver := receiver_reset (cl_receiver c)\<rparr>) (rcv_payload (cl_receiver c)) t"
    and "t < t + (cfg_s3_ns (cl_config c1) * 2) div 5"
  shows "client_turn c s t = Some (c1, s)"
proof -
  have "poll_keepalive c1 t = Some (c1, [])"
    using assms(5) handle_message_activity [of "c\<lparr>cl_receiver := receiver_reset (cl_receiver c)\<rparr>" "rcv_payload (cl_receiver c)" t]
    unfolding assms(4) [symmetric] by (simp add: poll_keepalive_def not_le [THEN iffD2])
  moreover have "receiver_poll (cl_receiver c) t = Some (cl_receiver c, [])" using assms(2) by (simp add: receiver_poll_def)
  ultimately show ?thesis using assms(1,3,4)
    by (simp add: client_turn_def client_poll_def poll_sending_def poll_awaiting_def Let_def)
qed

subsection \<open>Time in rounds\<close>

definition tick :: "nat \<Rightarrow> u64" where
  "tick i = of_nat (200000 * i)"

lemma tick_0 [simp]: "tick 0 = 0"
  by (simp add: tick_def)

lemma tick_Suc: "tick (Suc i) = tick i + 200000"
  by (simp add: tick_def algebra_simps)

lemma tick_add: "tick (i + k) = tick i + tick k"
  by (simp add: tick_def algebra_simps)

text \<open>Two million rounds are 400 seconds, far from the wrap of the clock.\<close>

lemma unat_tick: "i \<le> 2000000 \<Longrightarrow> unat (tick i) = 200000 * i"
proof -
  assume "i \<le> 2000000"
  then have "200000 * i < 2 ^ LENGTH(64)" by simp
  then show ?thesis unfolding tick_def unat_of_nat by (rule mod_less)
qed

lemma unat_tick_plus: "i \<le> 2000000 \<Longrightarrow> unat x \<le> 10 ^ 12 \<Longrightarrow> unat (tick i + x) = 200000 * i + unat x"
  by (subst unat_add_wrap) (simp_all add: unat_tick)

lemma tick_le: "i \<le> j \<Longrightarrow> j \<le> 2000000 \<Longrightarrow> tick i \<le> tick j"
  by (simp add: word_le_nat_alt unat_tick)

lemma tick_before: "i \<le> 2000000 \<Longrightarrow> j \<le> 2000000 \<Longrightarrow> unat x \<le> 10 ^ 12 \<Longrightarrow>
    tick j < tick i + x \<longleftrightarrow> 200000 * j < 200000 * i + unat x"
  by (simp add: word_less_nat_alt unat_tick unat_tick_plus)

definition goes :: "nat \<Rightarrow> client \<Rightarrow> uds_server \<Rightarrow> nat \<Rightarrow> client \<Rightarrow> uds_server \<Rightarrow> bool" where
  "goes i c s k c' s' \<longleftrightarrow> (\<forall>n. pump_rounds (k + n) c s (tick i) = pump_rounds n c' s' (tick (i + k)))"

lemma goes_none: "goes i c s 0 c s"
  by (simp add: goes_def)

lemma goes_trans:
  assumes "goes i c s k c1 s1" and "goes (i + k) c1 s1 l c2 s2"
  shows "goes i c s (k + l) c2 s2"
  using assms by (simp add: goes_def add.assoc)

lemma goes_round:
  assumes "client_busy c" and "client_turn c s (tick i) = Some (c1, s1)" and "server_turn c1 s1 (tick i) = Some (c2, s2)"
    and "goes (Suc i) c2 s2 k c' s'"
  shows "goes i c s (Suc k) c' s'"
  using assms by (simp add: goes_def tick_Suc)

lemma goes_round_at:
  assumes "client_busy c" and "client_turn c s (tick i) = Some (c1, s1)" and "server_turn c1 s1 (tick i) = Some (c2, s2)"
    and "goes j c2 s2 k c' s'" and "j = Suc i" and "n = Suc k"
  shows "goes i c s n c' s'"
  using goes_round [OF assms(1-3)] assms(4-6) by simp

lemma goes_trans_at:
  assumes "goes i c s k c1 s1" and "goes j c1 s1 l c2 s2" and "j = i + k" and "n = k + l"
  shows "goes i c s n c2 s2"
  using goes_trans [OF assms(1)] assms(2-4) by simp

lemma goes_pump:
  assumes "goes i c s k c' s'" and "\<not> client_busy c'" and "k \<le> 2000000"
  shows "pump c s (tick i) = Some (cl_state c' = RqComplete, c', s', tick (i + k))"
proof -
  obtain n where n: "2000000 = k + n" using assms(3) le_Suc_ex by blast
  have "pump_rounds 2000000 c s (tick i) = pump_rounds n c' s' (tick (i + k))"
    using assms(1) unfolding n goes_def by blast
  also have "\<dots> = Some (c', s', tick (i + k))" using assms(2) by (cases n) simp_all
  finally show ?thesis using assms(2) by (simp add: pump_def)
qed

subsection \<open>The transports of the command\<close>

lemmas transports = client_transport_def server_transport_def default_config_def normal_address_def

lemma transports_linked: "prompt client_transport server_transport" "prompt server_transport client_transport"
  by (simp_all add: prompt_def linked_def transports st_min_to_ns_def)

lemma transports_times [simp]:
  "n_bs_ns client_transport = 1000000000" "n_bs_ns server_transport = 1000000000"
  "n_cr_ns client_transport = 1000000000" "n_cr_ns server_transport = 1000000000"
  "max_receive_length client_transport = 4095" "max_receive_length server_transport = 4095"
  by (simp_all add: transports)

lemma transports_valid: "validate_config client_transport = ok" "validate_config server_transport = ok"
  by (simp_all add: validate_config_def transports)

subsection \<open>The rounds that carry the request\<close>

definition carried :: "bytes \<Rightarrow> sender \<times> receiver \<Rightarrow> bool" where
  "carried m sr \<longleftrightarrow> delivered m (fst sr) (snd sr)"

lemma request_rounds:
  assumes c: "cl_state c = RqSending" and s: "\<not> sv_sending s" "sv_deferred_response s = []" and m: "m \<noteq> []"
    and "half m client_transport server_transport (tick i) x0 y0"
    and "link_step (x0, y0) (ReceiverTurn (tick i)) = (x, y)" and "i + (length m - snd_offset x0) < 2000000"
  shows "\<exists>k x' y'. k \<le> length m - snd_offset x0 \<and>
    goes (Suc i) (c\<lparr>cl_sender := x\<rparr>) (s\<lparr>sv_receiver := y\<rparr>) k (c\<lparr>cl_sender := x'\<rparr>) (s\<lparr>sv_receiver := y'\<rparr>) \<and>
    wf_sender x' \<and> \<not> has_message y' \<and> rcv_config y' = server_transport \<and>
    carried m (link_step (x', y') (SenderTurn (tick (Suc i + k))))"
  using assms(5-7)
proof (induction "length m - snd_offset x0" arbitrary: i x0 y0 x y rule: less_induct)
  case less
  let ?t = "tick (Suc i)"
  note p = transports_linked(1)
  have b: "tick i \<le> tick i" "tick i < tick i + n_cr_ns server_transport" "tick i \<le> ?t"
    using less.prems(3) by (simp_all add: tick_before tick_le)
  note hr = half_receiver [OF p less.prems(1) b(1,2)]
  have inv: "link_inv m client_transport server_transport (x, y)" using hr(1) less.prems(2) by simp
  then have w: "wf_sender x" "\<not> has_message y" "rcv_config y = server_transport"
    using hr(6) less.prems(2) by (auto simp: link_inv_def wf_receiver_def has_message_def Let_def)
  obtain a e where ae: "link_step (x, y) (SenderTurn ?t) = (a, e)" by (meson surj_pair)
  from next_half [OF p m less.prems(1) b] ae consider "delivered m a e"
    | "half m client_transport server_transport ?t a e" "snd_offset x0 < snd_offset a"
    by (auto simp: less.prems(2))
  then show ?case
  proof cases
    case 1
    then show ?thesis using w goes_none ae by (intro exI [of _ 0] exI [of _ x] exI [of _ y]) (simp add: carried_def)
  next
    case 2
    obtain x1 y1 where xy: "link_step (a, e) (ReceiverTurn ?t) = (x1, y1)" by (meson surj_pair)
    have off: "length m - snd_offset a < length m - snd_offset x0" "Suc i + (length m - snd_offset a) < 2000000"
      using half_offset [OF 2(1)] 2(2) less.prems(3) by auto
    let ?c = "c\<lparr>cl_sender := x\<rparr>" and ?s = "s\<lparr>sv_receiver := y\<rparr>"
    have turn: "client_turn ?c ?s ?t = Some (c\<lparr>cl_sender := a\<rparr>, s\<lparr>sv_receiver := e\<rparr>)"
      using client_sends [of ?c ?s ?t a e] c s(1) w ae half_result [OF 2(1)] by simp
    have turn': "server_turn (c\<lparr>cl_sender := a\<rparr>) (s\<lparr>sv_receiver := e\<rparr>) ?t = Some (c\<lparr>cl_sender := x1\<rparr>, s\<lparr>sv_receiver := y1\<rparr>)"
      using server_answers_flow [of "c\<lparr>cl_sender := a\<rparr>" "s\<lparr>sv_receiver := e\<rparr>" ?t x1 y1] c s xy by simp
    have busy: "client_busy ?c" using c by (simp add: client_busy_def)
    obtain k x' y' where k: "k \<le> length m - snd_offset a"
      "goes (Suc (Suc i)) (c\<lparr>cl_sender := x1\<rparr>) (s\<lparr>sv_receiver := y1\<rparr>) k (c\<lparr>cl_sender := x'\<rparr>) (s\<lparr>sv_receiver := y'\<rparr>)"
      "wf_sender x'" "\<not> has_message y'" "rcv_config y' = server_transport"
      "carried m (link_step (x', y') (SenderTurn (tick (Suc (Suc i) + k))))"
      using less.hyps [OF off(1) 2(1) xy off(2)] by blast
    have g: "goes (Suc i) ?c ?s (Suc k) (c\<lparr>cl_sender := x'\<rparr>) (s\<lparr>sv_receiver := y'\<rparr>)"
      by (rule goes_round [OF busy turn turn' k(2)])
    have l: "Suc k \<le> length m - snd_offset x0" using k(1) off(1) by simp
    show ?thesis by (rule exI [of _ "Suc k"], rule exI [of _ x'], rule exI [of _ y']) (use g l k(3-6) in simp)
  qed
qed

text \<open>From the request call to the client's turn in which the server has the whole request.\<close>

definition ready :: "client \<Rightarrow> uds_server \<Rightarrow> bool" where
  "ready c s \<longleftrightarrow> \<not> client_busy c \<and> cl_config c = default_client_config client_transport \<and>
     rcv_config (cl_receiver c) = client_transport \<and> svc_transport (sv_config s) = server_transport \<and>
     \<not> sv_sending s \<and> sv_deferred_response s = [] \<and> idle server_transport (sv_receiver s)"

definition awaits :: "bytes \<Rightarrow> nat \<Rightarrow> client \<Rightarrow> bool" where
  "awaits p until c \<longleftrightarrow> cl_state c = RqAwaitingResponse \<and> idle client_transport (cl_receiver c) \<and>
     cl_config c = default_client_config client_transport \<and> cl_requested_service c = p ! 0 \<and>
     until \<le> 2000000 \<and> tick until < cl_deadline_ns c"

lemma request_begins:
  fixes now :: u64
  assumes "ready c s" and "p \<noteq> []" and "length p \<le> 4095" and "\<not> suppressed p"
  defines "c' \<equiv> snd (client_request c p now)"
  shows "cl_state c' = RqSending \<and> cl_expect_response c' \<and> cl_requested_service c' = p ! 0 \<and> cl_pending_count c' = 0 \<and>
    cl_config c' = default_client_config client_transport \<and> idle client_transport (cl_receiver c') \<and>
    at_start p client_transport server_transport (cl_sender c') (sv_receiver s)"
proof -
  have t: "cfg_transport (cl_config c) = client_transport" "\<not> client_busy c" "rcv_config (cl_receiver c) = client_transport"
      "idle server_transport (sv_receiver s)"
    using assms(1) by (simp_all add: ready_def default_client_config_def)
  have "length p \<le> unat (max_receive_length server_transport)" using assms(3) by simp
  note b = begin_at_start [OF transports_valid(1) assms(2) this t(4), of now]
  define x where "x = snd (sender_begin (new_sender client_transport) p now)"
  have "sender_begin (new_sender client_transport) p now = (ok, x)" using b(1) by (simp add: x_def)
  then have "c' = c\<lparr>cl_requested_service := p ! 0, cl_expect_response := \<not> suppressed p, cl_pending_request := p,
      cl_response := new_response, cl_pending_count := 0, cl_state := RqSending, cl_sender := x,
      cl_receiver := receiver_reset (cl_receiver c), cl_deadline_ns := now + cfg_p2_ns (cl_config c),
      cl_last_activity_ns := now\<rparr>"
    using t(1,2) assms(2) by (simp add: c'_def client_request_def begin_transfer_def suppressed_def Let_def)
  then show ?thesis using b(2) assms(1,4) idle_reset [OF t(3)] by (simp add: ready_def x_def)
qed

text \<open>The turn of the client that completes the request at the server: \<open>c2\<close> waits, and the server handles it.\<close>

definition arrives :: "bytes \<Rightarrow> uds_server \<Rightarrow> nat \<Rightarrow> client \<Rightarrow> uds_server \<Rightarrow> client \<Rightarrow> receiver \<Rightarrow> bool" where
  "arrives p s j c1 s1 c2 r \<longleftrightarrow> client_busy c1 \<and> idle server_transport r \<and> awaits p (j + 249) c2 \<and> cl_pending_count c2 = 0 \<and>
     client_turn c1 s1 (tick j) =
       (case server_handle (s\<lparr>sv_receiver := r, sv_handled := sv_handled s + 1\<rparr>) p (tick j) of
          None \<Rightarrow> None
        | Some (rsp, s') \<Rightarrow> Some (c2, if rsp \<noteq> [] then sv_start s' rsp (tick j) else s'))"

lemma carried_arrives:
  assumes c: "cl_state c = RqSending" "cl_expect_response c" "cl_requested_service c = p ! 0" "cl_pending_count c = 0"
      "cl_config c = default_client_config client_transport" "idle client_transport (cl_receiver c)"
    and s: "\<not> sv_sending s" and x: "wf_sender x" "\<not> has_message y" "rcv_config y = server_transport"
    and d: "carried p (link_step (x, y) (SenderTurn (tick j)))" and j: "j + 249 \<le> 2000000"
  shows "\<exists>c2 r. arrives p s j (c\<lparr>cl_sender := x\<rparr>) (s\<lparr>sv_receiver := y\<rparr>) c2 r"
proof -
  obtain a b where ab: "link_step (x, y) (SenderTurn (tick j)) = (a, b)" by (meson surj_pair)
  let ?c2 = "c\<lparr>cl_sender := a, cl_state := RqAwaitingResponse, cl_deadline_ns := tick j + 50000000\<rparr>"
  have "tick (j + 249) < tick j + 50000000" "tick j < tick j + 50000000" using j by (simp_all add: tick_before)
  then have "awaits p (j + 249) ?c2" and w: "tick j < tick j + 50000000" using c j by (simp_all add: awaits_def)
  moreover have "delivered p a b" using d ab by (simp add: carried_def)
  moreover have "rcv_config b = server_transport"
    using one_frame [OF x(1) ab] x(3) receiver_on_frame_config by auto
  then have "idle server_transport (receiver_reset b)" by (rule idle_reset)
  moreover have "client_busy (c\<lparr>cl_sender := x\<rparr>)" using c by (simp add: client_busy_def)
  ultimately show ?thesis
    using client_sent [of "c\<lparr>cl_sender := x\<rparr>" "s\<lparr>sv_receiver := y\<rparr>" "tick j" a b p client_transport] c s x ab
    unfolding arrives_def by (intro exI [of _ ?c2] exI [of _ "receiver_reset b"]) (simp add: default_client_config_def split: option.split)
qed

lemma request_arrives:
  assumes r: "ready c s" and p: "p \<noteq> []" "length p \<le> 4095" "\<not> suppressed p" and i: "i + length p + 250 \<le> 2000000"
  shows "\<exists>k c1 s1 c2 r. k \<le> length p + 1 \<and> goes i (snd (client_request c p (tick i))) s k c1 s1 \<and>
    arrives p s (i + k) c1 s1 c2 r"
proof -
  define c0 where "c0 = snd (client_request c p (tick i))"
  note c = request_begins [OF r p, of "tick i", folded c0_def]
  have s: "\<not> sv_sending s" "sv_deferred_response s = []" "idle server_transport (sv_receiver s)" "\<not> has_message (sv_receiver s)"
    using r idle_result by (auto simp: ready_def)
  let ?x = "cl_sender c0" and ?y = "sv_receiver s"
  have x: "wf_sender ?x" "rcv_config ?y = server_transport" using c by (simp_all add: at_start_def link_inv_def)
  obtain a b where ab: "link_step (?x, ?y) (SenderTurn (tick i)) = (a, b)" by (meson surj_pair)
  have "at_start p client_transport server_transport ?x ?y" using c by blast
  from first_half [OF transports_linked(1) this, of "tick i"] ab consider
    "delivered p a b" | "half p client_transport server_transport (tick i) a b" by auto
  then show ?thesis unfolding c0_def [symmetric]
  proof cases
    case 1
    then have "carried p (link_step (?x, ?y) (SenderTurn (tick i)))" using ab by (simp add: carried_def)
    then obtain c2 r where "arrives p s i (c0\<lparr>cl_sender := ?x\<rparr>) (s\<lparr>sv_receiver := ?y\<rparr>) c2 r"
      using carried_arrives [of c0 p s ?x ?y i] c s x i by auto
    then show "\<exists>k c1 s1 c2 r. k \<le> length p + 1 \<and> goes i c0 s k c1 s1 \<and> arrives p s (i + k) c1 s1 c2 r"
      using goes_none [of i c0 s] by (intro exI [of _ 0]) auto
  next
    case 2
    obtain x1 y1 where xy: "link_step (a, b) (ReceiverTurn (tick i)) = (x1, y1)" by (meson surj_pair)
    have turn: "client_turn c0 s (tick i) = Some (c0\<lparr>cl_sender := a\<rparr>, s\<lparr>sv_receiver := b\<rparr>)"
      using client_sends [of c0 s "tick i" a b] c s(1) x ab half_result [OF 2] by blast
    have turn': "server_turn (c0\<lparr>cl_sender := a\<rparr>) (s\<lparr>sv_receiver := b\<rparr>) (tick i) =
        Some (c0\<lparr>cl_sender := x1\<rparr>, s\<lparr>sv_receiver := y1\<rparr>)"
      using server_answers_flow [of "c0\<lparr>cl_sender := a\<rparr>" "s\<lparr>sv_receiver := b\<rparr>" "tick i" x1 y1] c s xy by simp
    have st: "cl_state c0 = RqSending" "client_busy c0" using c by (simp_all add: client_busy_def)
    have "i + (length p - snd_offset a) < 2000000" using i by simp
    from request_rounds [OF st(1) s(1,2) p(1) 2 xy this] obtain k x' y' where k: "k \<le> length p - snd_offset a"
      "goes (Suc i) (c0\<lparr>cl_sender := x1\<rparr>) (s\<lparr>sv_receiver := y1\<rparr>) k (c0\<lparr>cl_sender := x'\<rparr>) (s\<lparr>sv_receiver := y'\<rparr>)"
      "wf_sender x'" "\<not> has_message y'" "rcv_config y' = server_transport"
      "carried p (link_step (x', y') (SenderTurn (tick (Suc i + k))))" by blast
    have g: "goes i c0 s (Suc k) (c0\<lparr>cl_sender := x'\<rparr>) (s\<lparr>sv_receiver := y'\<rparr>)"
      by (rule goes_round [OF st(2) turn turn' k(2)])
    have "Suc i + k + 249 \<le> 2000000" using i k(1) by simp
    then obtain c2 r where "arrives p s (Suc i + k) (c0\<lparr>cl_sender := x'\<rparr>) (s\<lparr>sv_receiver := y'\<rparr>) c2 r"
      using carried_arrives [of c0 p s x' y' "Suc i + k"] c s k by auto
    moreover have "Suc k \<le> length p + 1" "i + Suc k = Suc i + k" using k(1) by simp_all
    ultimately show "\<exists>k c1 s1 c2 r. k \<le> length p + 1 \<and> goes i c0 s k c1 s1 \<and> arrives p s (i + k) c1 s1 c2 r"
      using g by metis
  qed
qed

subsection \<open>The rounds that carry the answer\<close>

definition answered :: "bytes \<Rightarrow> receiver \<Rightarrow> bool" where
  "answered m r \<longleftrightarrow> rcv_state r = RFinished \<and> has_message r \<and> rcv_payload r = m \<and> rcv_config r = client_transport"

definition server_done :: "uds_server \<Rightarrow> sender \<Rightarrow> uds_server" where
  "server_done s x = s\<lparr>sv_sender := x, sv_sending := False, sv_receiver := receiver_reset (sv_receiver s)\<rparr>"

lemma server_done_update: "server_done (s\<lparr>sv_sender := a\<rparr>) x = server_done s x"
  by (simp add: server_done_def)

lemma answer_rounds:
  assumes c: "cl_state c = RqAwaitingResponse" "tick until < cl_deadline_ns c" and s: "sv_sending s" and m: "m \<noteq> []"
    and "half m server_transport client_transport (tick i) x y"
    and "i + (length m - snd_offset x) < until" and n: "until \<le> 2000000"
  shows "\<exists>k x' y'. k \<le> length m - snd_offset x + 1 \<and> answered m y' \<and>
    goes (Suc i) (c\<lparr>cl_receiver := y\<rparr>) (s\<lparr>sv_sender := x\<rparr>) k (c\<lparr>cl_receiver := y'\<rparr>) (server_done s x')"
  using assms(5,6)
proof (induction "length m - snd_offset x" arbitrary: i x y rule: less_induct)
  case less
  let ?t = "tick (Suc i)" and ?c = "c\<lparr>cl_receiver := y\<rparr>" and ?s = "s\<lparr>sv_sender := x\<rparr>"
  note p = transports_linked(2)
  have b: "tick i \<le> ?t" "?t < tick i + n_cr_ns client_transport" "?t \<le> tick until"
    using less.prems(2) n by (simp_all add: tick_before tick_le)
  then have d: "?t < cl_deadline_ns c" using c(2) by simp
  note hr = half_receiver [OF p less.prems(1) b(1,2)]
  obtain x1 y1 where xy: "link_step (x, y) (ReceiverTurn ?t) = (x1, y1)" by (meson surj_pair)
  have w: "wf_sender x1" "\<not> receiver_done y1"
    using hr(1,6) xy by (auto simp: link_inv_def wf_receiver_def receiver_done_def Let_def)
  obtain a e where ae: "link_step (x1, y1) (SenderTurn ?t) = (a, e)" by (meson surj_pair)
  have turn: "client_turn ?c ?s ?t = Some (c\<lparr>cl_receiver := y1\<rparr>, s\<lparr>sv_sender := x1\<rparr>)"
    using client_answers_flow [of ?c ?s ?t x1 y1] c(1) s d xy w(2) by simp
  have turn': "server_turn (c\<lparr>cl_receiver := y1\<rparr>) (s\<lparr>sv_sender := x1\<rparr>) ?t =
      Some (c\<lparr>cl_receiver := e\<rparr>, server_sent (s\<lparr>sv_sender := x1\<rparr>) a)"
    using server_sends [of "c\<lparr>cl_receiver := y1\<rparr>" "s\<lparr>sv_sender := x1\<rparr>" ?t a e] c(1) s w(1) ae by simp
  have busy: "client_busy ?c" using c by (simp add: client_busy_def)
  from next_half [OF p m less.prems(1) b(1,2) order.refl] ae xy consider "delivered m a e"
    | "half m server_transport client_transport ?t a e" "snd_offset x < snd_offset a" by auto
  then show ?case
  proof cases
    case 1
    have "rcv_config y1 = client_transport" using hr(1) xy by (simp add: link_inv_def)
    then have "rcv_config e = client_transport" using one_frame [OF w(1) ae] receiver_on_frame_config by auto
    then have "answered m e" using 1 by (simp add: answered_def delivered_def)
    moreover have "server_sent (s\<lparr>sv_sender := x1\<rparr>) a = server_done s a"
      using 1 by (simp add: server_sent_def server_done_def delivered_def)
    then have "goes (Suc i) ?c ?s (Suc 0) (c\<lparr>cl_receiver := e\<rparr>) (server_done s a)"
      using goes_round [OF busy turn turn' goes_none] by simp
    ultimately show ?thesis by (intro exI [of _ "Suc 0"] exI [of _ a] exI [of _ e]) simp
  next
    case 2
    have off: "length m - snd_offset a < length m - snd_offset x" "Suc i + (length m - snd_offset a) < until"
      using half_offset [OF 2(1)] 2(2) less.prems(2) by auto
    obtain k x' y' where k: "k \<le> length m - snd_offset a + 1" "answered m y'"
      "goes (Suc (Suc i)) (c\<lparr>cl_receiver := e\<rparr>) (s\<lparr>sv_sender := a\<rparr>) k (c\<lparr>cl_receiver := y'\<rparr>) (server_done s x')"
      using less.hyps [OF off(1) 2(1) off(2)] by blast
    have "server_sent (s\<lparr>sv_sender := x1\<rparr>) a = s\<lparr>sv_sender := a\<rparr>"
      using half_result [OF 2(1)] by (simp add: server_sent_def)
    then have "goes (Suc i) ?c ?s (Suc k) (c\<lparr>cl_receiver := y'\<rparr>) (server_done s x')"
      using goes_round [OF busy turn turn'] k(3) by simp
    moreover have "Suc k \<le> length m - snd_offset x + 1" using k(1) off(1) by simp
    ultimately show ?thesis using k(2) by blast
  qed
qed

text \<open>The server has begun to send \<open>m\<close>, and its turn is next.\<close>

lemma answer_arrives:
  assumes c: "awaits p until c" and s: "sv_sending s" and o: "at_start m server_transport client_transport (sv_sender s) (cl_receiver c)"
    and n: "i + length m < until"
  obtains k c1 s1 x y where "server_turn c s (tick i) = Some (c1, s1)" "k \<le> length m + 1" "answered m y"
    "goes (Suc i) c1 s1 k (c\<lparr>cl_receiver := y\<rparr>) (server_done s x)"
proof -
  have w: "wf_sender (sv_sender s)" "rcv_config (cl_receiver c) = client_transport" and m: "m \<noteq> []"
    using o by (simp_all add: at_start_def link_inv_def)
  have a: "cl_state c = RqAwaitingResponse" "tick until < cl_deadline_ns c" "until \<le> 2000000"
    using c by (simp_all add: awaits_def)
  obtain x y where xy: "link_step (sv_sender s, cl_receiver c) (SenderTurn (tick i)) = (x, y)" by (meson surj_pair)
  note turn = server_sends [OF a(1) s w(1) xy]
  from first_half [OF transports_linked(2) o, of "tick i"] xy consider
    "delivered m x y" | "half m server_transport client_transport (tick i) x y" by auto
  then show ?thesis
  proof cases
    case 1
    have "rcv_config y = client_transport" using one_frame [OF w(1) xy] w(2) receiver_on_frame_config by auto
    then have "answered m y" "server_sent s x = server_done s x"
      using 1 by (simp_all add: answered_def delivered_def server_sent_def server_done_def)
    then show ?thesis using that [of _ _ 0 y x] turn goes_none by simp
  next
    case 2
    have "i + (length m - snd_offset x) < until" using n by simp
    from answer_rounds [OF a(1,2) s m 2 this a(3)] obtain k x' y' where
      "k \<le> length m - snd_offset x + 1" "answered m y'"
      "goes (Suc i) (c\<lparr>cl_receiver := y\<rparr>) (s\<lparr>sv_sender := x\<rparr>) k (c\<lparr>cl_receiver := y'\<rparr>) (server_done s x')" by blast
    moreover have "server_sent s x = s\<lparr>sv_sender := x\<rparr>" using half_result [OF 2] by (simp add: server_sent_def)
    moreover have "length m - snd_offset x + 1 \<le> length m + 1" by simp
    ultimately show ?thesis using that [OF turn] by (metis order.trans)
  qed
qed

subsection \<open>One request and its answer\<close>

lemma server_begins:
  assumes "svc_transport (sv_config s) = server_transport" and "m \<noteq> []" and "length m \<le> 4095"
    and "idle client_transport r"
  obtains x where "sv_start s m t = s\<lparr>sv_sender := x, sv_sending := True\<rparr>"
    "at_start m server_transport client_transport x r"
proof -
  have "length m \<le> unat (max_receive_length client_transport)" using assms(3) by simp
  note b = begin_at_start [OF transports_valid(2) assms(2) this assms(4), of t]
  define x where "x = snd (sender_begin (new_sender server_transport) m t)"
  have "sender_begin (new_sender server_transport) m t = (ok, x)" using b(1) by (simp add: x_def)
  then have "sv_start s m t = s\<lparr>sv_sender := x, sv_sending := True\<rparr>" by (simp add: sv_start_def assms(1))
  then show ?thesis using that b(2) by (simp add: x_def)
qed

text \<open>An answer that ends the request: positive with its data, or negative and not responsePending.\<close>

definition final_answer :: "bytes \<Rightarrow> bytes \<Rightarrow> bool \<Rightarrow> bytes \<Rightarrow> bool" where
  "final_answer p m good data \<longleftrightarrow>
     (if good then m = (p ! 0 + kPositiveResponseOffset) # data \<and> (\<exists>v. p ! 0 = service_value v)
      else \<exists>n. m = negative (p ! 0) n \<and> n \<noteq> NrcRequestCorrectlyReceivedResponsePending) \<and> length m \<le> 100"

lemma final_answer_message: "final_answer p m good data \<Longrightarrow> m \<noteq> [] \<and> length m \<le> 4095"
  by (auto simp: final_answer_def negative_def split: if_splits)

lemma handle_positive:
  assumes "m = (service_value v + kPositiveResponseOffset) # data" and "cl_requested_service c = service_value v"
  shows "\<exists>c1. handle_message c m t =
      client_finish c1 (new_response\<lparr>rsp_positive := True, rsp_service := m ! 0, rsp_data := data\<rparr>) \<and>
    cl_config c1 = cl_config c \<and> cl_receiver c1 = cl_receiver c"
proof -
  have m: "m \<noteq> []" "m ! 0 \<noteq> kNegativeResponse" "drop 1 m = data"
      "uint (m ! 0) = uint (cl_requested_service c) + uint kPositiveResponseOffset"
    using assms positive_byte [of v] by simp_all
  then have n: "\<not> (m ! 0 = kNegativeResponse \<and> P)" "\<not> uint (m ! 0) \<noteq> uint (cl_requested_service c) + uint kPositiveResponseOffset" for P
    by simp_all
  show ?thesis unfolding handle_message_cases Let_def if_not_P [OF m(1)] if_not_P [OF n(1)] if_not_P [OF m(2)]
      if_not_P [OF n(2)] m(3)
    by (rule exI, rule conjI [OF refl]) simp
qed

lemma client_completes:
  assumes "awaits p until c" and "final_answer p m good data" and "c1 = handle_message (c\<lparr>cl_receiver := r\<rparr>) m t"
  shows "cl_state c1 = RqComplete" and "rsp_positive (cl_response c1) = good" and "good \<Longrightarrow> rsp_data (cl_response c1) = data"
    and "cl_config c1 = default_client_config client_transport" and "cl_receiver c1 = r"
proof -
  have c: "cl_requested_service c = p ! 0" "cl_config c = default_client_config client_transport"
    using assms(1) by (simp_all add: awaits_def)
  have "cl_state c1 = RqComplete \<and> rsp_positive (cl_response c1) = good \<and> (good \<longrightarrow> rsp_data (cl_response c1) = data) \<and>
    cl_config c1 = default_client_config client_transport \<and> cl_receiver c1 = r"
  proof (cases good)
    case True
    then obtain v where v: "m = (service_value v + kPositiveResponseOffset) # data" "p ! 0 = service_value v"
      using assms(2) by (auto simp: final_answer_def)
    have "cl_requested_service (c\<lparr>cl_receiver := r\<rparr>) = service_value v" using c(1) v(2) by simp
    from handle_positive [OF v(1) this, of t] obtain c2 where
      "c1 = client_finish c2 (new_response\<lparr>rsp_positive := True, rsp_service := m ! 0, rsp_data := data\<rparr>)"
      "cl_config c2 = cl_config c" "cl_receiver c2 = r" unfolding assms(3) by auto
    then show ?thesis using c(2) True by simp
  next
    case False
    then obtain n where n: "m = negative (p ! 0) n" "n \<noteq> NrcRequestCorrectlyReceivedResponsePending"
      using assms(2) by (auto simp: final_answer_def)
    from n(2) have "nrc_value n \<noteq> 0x78" by (cases n) simp_all
    then have "c1 = client_finish (c\<lparr>cl_receiver := r, cl_last_activity_ns := t\<rparr>)
        (new_response\<lparr>rsp_service := p ! 0, rsp_nrc := nrc_value n\<rparr>)"
      unfolding assms(3) n(1) by (simp add: handle_message_def negative_def Let_def)
    then show ?thesis using c(2) False by (simp add: new_response_def)
  qed
  then show "cl_state c1 = RqComplete" "rsp_positive (cl_response c1) = good" "good \<Longrightarrow> rsp_data (cl_response c1) = data"
    "cl_config c1 = default_client_config client_transport" "cl_receiver c1 = r" by blast+
qed

text \<open>The round in which the client reads the final answer.\<close>

lemma answer_read:
  assumes c: "awaits p until c" and a: "answered m y" "final_answer p m good data" and j: "j \<le> 2000000"
    and s: "idle server_transport (sv_receiver s)" "\<not> sv_sending s" "sv_deferred_response s = []"
      "svc_transport (sv_config s) = server_transport"
  obtains c1 where "goes j (c\<lparr>cl_receiver := y\<rparr>) s 1 c1 s" "ready c1 s" "cl_state c1 = RqComplete"
    "rsp_positive (cl_response c1) = good" "good \<Longrightarrow> rsp_data (cl_response c1) = data"
proof -
  let ?c = "c\<lparr>cl_receiver := y\<rparr>"
  define c1 where "c1 = handle_message (?c\<lparr>cl_receiver := receiver_reset y\<rparr>) m (tick j)"
  have "c1 = handle_message (c\<lparr>cl_receiver := receiver_reset y\<rparr>) m (tick j)" by (simp add: c1_def)
  note d = client_completes [OF c a(2) this]
  have "tick j < tick j + (cfg_s3_ns (cl_config c1) * 2) div 5"
    using j d(4) by (simp add: default_client_config_def tick_before)
  then have "client_turn ?c s (tick j) = Some (c1, s)"
    using client_reads [of ?c c1 "tick j" s] a(1) c by (simp add: answered_def awaits_def c1_def)
  moreover have "client_busy ?c" using c by (simp add: client_busy_def awaits_def)
  moreover have "server_turn c1 s (tick j) = Some (c1, s)" using server_idles [OF s(1,2)] s(3) by blast
  ultimately have "goes j ?c s (Suc 0) c1 s" using goes_round goes_none by blast
  moreover have "ready c1 s"
    using d(1,4,5) s a(1) by (simp add: ready_def client_busy_def answered_def receiver_reset_def)
  ultimately show ?thesis using that d(1-3) by simp
qed

text \<open>A server that differs from another only in its transport.\<close>

definition same_but :: "uds_server \<Rightarrow> uds_server \<Rightarrow> bool" where
  "same_but s s' \<longleftrightarrow> (\<exists>x r h. s' = s\<lparr>sv_sender := x, sv_sending := False, sv_receiver := r, sv_handled := h\<rparr>)"

lemma step_request:
  assumes "ready c s" and "p \<noteq> []" and "length p \<le> 4095" and "\<not> suppressed p"
    and "goes i (snd (client_request c p (tick i))) s k c' s'" and "k \<le> 2000000" and "ready c' s'"
    and "cl_state c' = RqComplete" and "rsp_positive (cl_response c') = good"
  shows "step (client_request c p (tick i)) s (tick i) = Some (good, c', s', tick (i + k))"
proof -
  have "\<not> client_busy c'" using assms(8) by (simp add: client_busy_def)
  from goes_pump [OF assms(5) this assms(6)] show ?thesis using assms(8,9) by (simp add: step_def)
qed

lemma step_answer:
  assumes r: "ready c s" and p: "p \<noteq> []" "length p \<le> 4095" "\<not> suppressed p" and i: "i + 5000 \<le> 2000000"
    and h: "\<And>r h t. server_handle (s\<lparr>sv_receiver := r, sv_handled := h\<rparr>) p t =
      Some (rsp t, (f t)\<lparr>sv_receiver := r, sv_handled := h\<rparr>)"
    and a: "\<And>t. final_answer p (rsp t) good (data t)"
    and f: "\<And>t. sv_config (f t) = sv_config s" "\<And>t. \<not> sv_sending (f t)" "\<And>t. sv_deferred_response (f t) = []"
  obtains k c' s' t where "step (client_request c p (tick i)) s (tick i) = Some (good, c', s', tick (i + k))"
    "k \<le> length p + 104" "ready c' s'" "same_but (f t) s'" "good \<Longrightarrow> rsp_data (cl_response c') = data t"
proof -
  have "i + length p + 250 \<le> 2000000" using p(2) i by simp
  from request_arrives [OF r p this] obtain k1 c1 s1 c2 q where k1: "k1 \<le> length p + 1"
    "goes i (snd (client_request c p (tick i))) s k1 c1 s1" "arrives p s (i + k1) c1 s1 c2 q" by blast
  define j t where "j = i + k1" and "t = tick j"
  define s2 where "s2 = (f t)\<lparr>sv_receiver := q, sv_handled := sv_handled s + 1\<rparr>"
  have c2: "client_busy c1" "idle server_transport q" "awaits p (j + 249) c2" "idle client_transport (cl_receiver c2)"
    using k1(3) by (simp_all add: arrives_def awaits_def j_def)
  note m = final_answer_message [OF a, of t]
  have tr: "svc_transport (sv_config s2) = server_transport" using r f(1) by (simp add: s2_def ready_def)
  obtain x where x: "sv_start s2 (rsp t) t = s2\<lparr>sv_sender := x, sv_sending := True\<rparr>"
    "at_start (rsp t) server_transport client_transport x (cl_receiver c2)"
    using server_begins [OF tr _ _ c2(4)] m by blast
  let ?s3 = "s2\<lparr>sv_sender := x, sv_sending := True\<rparr>"
  have turn: "client_turn c1 s1 (tick j) = Some (c2, ?s3)"
    using k1(3) h m x(1) by (simp add: arrives_def j_def [symmetric] t_def [symmetric] s2_def)
  have "sv_sending ?s3" "at_start (rsp t) server_transport client_transport (sv_sender ?s3) (cl_receiver c2)"
      "j + length (rsp t) < j + 249" using x(2) a [of t] by (simp_all add: final_answer_def)
  from answer_arrives [OF c2(3) this] obtain k2 c3 s3 x' y where k2: "server_turn c2 ?s3 (tick j) = Some (c3, s3)"
    "k2 \<le> length (rsp t) + 1" "answered (rsp t) y" "goes (Suc j) c3 s3 k2 (c2\<lparr>cl_receiver := y\<rparr>) (server_done ?s3 x')" .
  let ?s4 = "server_done ?s3 x'"
  have s4: "idle server_transport (sv_receiver ?s4)" "\<not> sv_sending ?s4" "sv_deferred_response ?s4 = []"
      "svc_transport (sv_config ?s4) = server_transport"
    using c2(2) f(3) tr idle_reset [of q server_transport] by (simp_all add: server_done_def s2_def idle_def)
  have l: "length (rsp t) \<le> 100" using a [of t] by (simp add: final_answer_def)
  have "Suc j + k2 \<le> 2000000" using k1(1) k2(2) l p(2) i by (simp add: j_def)
  from answer_read [OF c2(3) k2(3) a this s4] obtain c5 where c5: "goes (Suc j + k2) (c2\<lparr>cl_receiver := y\<rparr>) ?s4 1 c5 ?s4"
    "ready c5 ?s4" "cl_state c5 = RqComplete" "rsp_positive (cl_response c5) = good"
    "good \<Longrightarrow> rsp_data (cl_response c5) = data t" by blast
  have "goes j c1 s1 (Suc (k2 + 1)) c5 ?s4"
    by (rule goes_round [OF c2(1) turn k2(1) goes_trans [OF k2(4) c5(1)]])
  then have g: "goes i (snd (client_request c p (tick i))) s (k1 + Suc (k2 + 1)) c5 ?s4"
    unfolding j_def by (rule goes_trans [OF k1(2)])
  have "k1 + Suc (k2 + 1) \<le> length p + 104" "k1 + Suc (k2 + 1) \<le> 2000000" using k1(1) k2(2) l p(2) by simp_all
  moreover from step_request [OF r p g this(2) c5(2,3,4)]
    have "step (client_request c p (tick i)) s (tick i) = Some (good, c5, ?s4, tick (i + (k1 + Suc (k2 + 1))))" .
  moreover have "same_but (f t) ?s4" unfolding same_but_def server_done_def s2_def
    by (intro exI [of _ x'] exI [of _ "receiver_reset q"] exI [of _ "sv_handled s + 1"]) simp
  ultimately show ?thesis using that c5(2,5) by blast
qed

subsection \<open>An answer that is put off\<close>

lemma single_turn:
  assumes c: "cl_state c = RqAwaitingResponse" and s: "sv_sending s"
    and o: "at_start m server_transport client_transport (sv_sender s) (cl_receiver c)" and l: "length m \<le> 7"
  obtains x y where "link_step (sv_sender s, cl_receiver c) (SenderTurn t) = (x, y)" "wf_sender (sv_sender s)"
    "answered m y" "server_sent s x = server_done s x"
proof -
  have i: "link_inv m server_transport client_transport (sv_sender s, cl_receiver c)" and m: "m \<noteq> []"
    and r: "rcv_state (cl_receiver c) = RIdle" "\<not> sender_done (sv_sender s)" using o by (simp_all add: at_start_def)
  have h: "header_size (address server_transport) = 0" by (simp add: transports header_size_def)
  then have st: "snd_state (sv_sender s) = SendingSingle" using o l by (simp add: at_start_def)
  have w: "wf_sender (sv_sender s)" "rcv_config (cl_receiver c) = client_transport" "snd_payload (sv_sender s) = m"
      "snd_config (sv_sender s) = server_transport" using i by (simp_all add: link_inv_def)
  have ls: "linked (snd_config (sv_sender s)) (rcv_config (cl_receiver c))"
    using transports_linked(2) w by (simp add: prompt_def)
  have ne: "snd_payload (sv_sender s) \<noteq> []" using w(3) m by simp
  note d = deliver_single [OF w(1) st r(2) ls r(1) ne, of t]
  show ?thesis by (rule that [OF d w(1)])
    (use w in \<open>simp_all add: answered_def receiver_finish_def has_message_def server_sent_def server_done_def sender_done_def sender_finish_def\<close>)
qed

definition pending_message :: "bytes \<Rightarrow> bytes" where
  "pending_message p = negative (p ! 0) NrcRequestCorrectlyReceivedResponsePending"

lemma pending_message_length: "pending_message p \<noteq> []" "length (pending_message p) = 3"
  by (simp_all add: pending_message_def negative_def)

lemma pending_handled:
  assumes "cfg_max_response_pending (cl_config c) = 0 \<or> cl_pending_count c + 1 \<le> cfg_max_response_pending (cl_config c)"
  shows "handle_message c (negative b NrcRequestCorrectlyReceivedResponsePending) now =
    c\<lparr>cl_last_activity_ns := now, cl_pending_count := cl_pending_count c + 1,
      cl_deadline_ns := now + cfg_p2_star_ns (cl_config c)\<rparr>"
proof -
  have "\<not> (cfg_max_response_pending (cl_config c) \<noteq> 0 \<and> cfg_max_response_pending (cl_config c) < cl_pending_count c + 1)"
    using assms by auto
  then show ?thesis by (auto simp: handle_message_def negative_def Let_def)
qed

text \<open>The client reads a responsePending and goes on waiting, for P2* = 25,000 rounds from then on.\<close>

lemma pending_read:
  assumes c: "awaits p until c" and a: "answered (pending_message p) y" and n: "unat (cl_pending_count c) \<le> 1"
    and j: "j + 20000 \<le> 2000000"
  obtains c1 where "client_turn (c\<lparr>cl_receiver := y\<rparr>) s (tick j) = Some (c1, s)" "awaits p (j + 20000) c1"
    "cl_pending_count c1 = cl_pending_count c + 1"
proof -
  define c1 where "c1 = handle_message (c\<lparr>cl_receiver := receiver_reset y\<rparr>) (pending_message p) (tick j)"
  have k: "cl_config c = default_client_config client_transport" using c by (simp add: awaits_def)
  have "unat (cl_pending_count c + 1) \<le> 2" using n by (simp add: unat_add_wrap)
  then have "cl_pending_count c + 1 \<le> 100" by (simp add: word_le_nat_alt)
  then have e: "c1 = c\<lparr>cl_receiver := receiver_reset y, cl_last_activity_ns := tick j,
      cl_pending_count := cl_pending_count c + 1, cl_deadline_ns := tick j + 5000000000\<rparr>"
    unfolding c1_def pending_message_def using pending_handled [of "c\<lparr>cl_receiver := receiver_reset y\<rparr>" "p ! 0" "tick j"] k
    by (simp add: default_client_config_def)
  have "tick j < tick j + (cfg_s3_ns (cl_config c1) * 2) div 5"
    using j k by (simp add: e default_client_config_def tick_before)
  then have "client_turn (c\<lparr>cl_receiver := y\<rparr>) s (tick j) = Some (c1, s)"
    using client_reads [of "c\<lparr>cl_receiver := y\<rparr>" c1 "tick j" s] a c by (simp add: answered_def awaits_def c1_def)
  moreover have "awaits p (j + 20000) c1"
    using c a j idle_reset [of y client_transport] by (simp add: awaits_def e answered_def tick_before)
  ultimately show ?thesis using that e by simp
qed

text \<open>Rounds in which nothing happens: the client waits for the answer, and the server has it put off.\<close>

lemma wait_rounds:
  assumes c: "awaits p until c" and s: "idle server_transport (sv_receiver s)" "\<not> sv_sending s" "sv_pending_left s = 0"
    and "j + k \<le> until" and "\<And>l. l < k \<Longrightarrow> tick (j + l) < sv_deferred_until_ns s"
  shows "goes j c s k c s"
  using assms(5,6)
proof (induction k arbitrary: j)
  case 0
  show ?case by (rule goes_none)
next
  case (Suc k)
  have a: "cl_state c = RqAwaitingResponse" "idle client_transport (cl_receiver c)" "tick until < cl_deadline_ns c"
      "until \<le> 2000000" "client_busy c" using c by (simp_all add: awaits_def client_busy_def)
  have "tick j < cl_deadline_ns c" using a(3) Suc.prems(1) tick_le [of j until] a(4) by simp
  then have turn: "client_turn c s (tick j) = Some (c, s)" by (rule client_waits [OF a(1,2)])
  have "tick j < sv_deferred_until_ns s" using Suc.prems(2) [of 0] by simp
  then have turn': "server_turn c s (tick j) = Some (c, s)" using server_idles [OF s(1,2)] s(3) by blast
  have "goes (Suc j) c s k c s" by (rule Suc.IH) (use Suc.prems(1) Suc.prems(2) [of "Suc _"] in simp_all)
  then show ?case by (rule goes_round [OF a(5) turn turn'])
qed

text \<open>
  The server has answered responsePending and put its answer off by 1500 rounds: it sends a second responsePending,
  waits, and sends the answer.
\<close>

definition puts_off :: "bytes \<Rightarrow> bytes \<Rightarrow> nat \<Rightarrow> uds_server \<Rightarrow> bool" where
  "puts_off p m j s \<longleftrightarrow> sv_deferred_response s = m \<and> sv_deferred_service s = p ! 0 \<and>
     sv_deferred_until_ns s = tick j + 300000000 \<and> svc_transport (sv_config s) = server_transport \<and>
     idle server_transport (sv_receiver s)"

lemma pending_sent:
  assumes c: "awaits p until c" and s: "svc_transport (sv_config s) = server_transport"
  obtains x where "sv_start s (pending_message p) t = s\<lparr>sv_sender := x, sv_sending := True\<rparr>"
    "\<forall>u. \<exists>y z. server_turn c (s\<lparr>sv_sender := x, sv_sending := True\<rparr>) u =
       Some (c\<lparr>cl_receiver := y\<rparr>, server_done s z) \<and> answered (pending_message p) y"
proof -
  have a: "cl_state c = RqAwaitingResponse" "idle client_transport (cl_receiver c)" using c by (simp_all add: awaits_def)
  have "length (pending_message p) \<le> 4095" "length (pending_message p) \<le> 7" by (simp_all add: pending_message_length)
  from server_begins [OF s pending_message_length(1) this(1) a(2)] obtain x where
    x: "sv_start s (pending_message p) t = s\<lparr>sv_sender := x, sv_sending := True\<rparr>"
    "at_start (pending_message p) server_transport client_transport x (cl_receiver c)" by blast
  let ?s = "s\<lparr>sv_sender := x, sv_sending := True\<rparr>"
  have on: "sv_sending ?s" "at_start (pending_message p) server_transport client_transport (sv_sender ?s) (cl_receiver c)"
    using x(2) by simp_all
  have "\<exists>y z. server_turn c ?s u = Some (c\<lparr>cl_receiver := y\<rparr>, server_done s z) \<and> answered (pending_message p) y" for u
  proof -
    obtain z y where z: "link_step (sv_sender ?s, cl_receiver c) (SenderTurn u) = (z, y)" "wf_sender (sv_sender ?s)"
      "answered (pending_message p) y" "server_sent ?s z = server_done ?s z"
      by (rule single_turn [OF a(1) on \<open>length (pending_message p) \<le> 7\<close>])
    moreover have "server_done ?s z = server_done s z" by (simp add: server_done_def)
    ultimately show ?thesis using server_sends [OF a(1) on(1) z(2,1)] by auto
  qed
  then show ?thesis using that x(1) by blast
qed

text \<open>From the second responsePending to the end of the wait.\<close>

lemma deferred_wait:
  assumes c: "awaits p (j + 20000) c" "cl_pending_count c = 1" and j: "j + 30000 \<le> 2000000"
    and s: "puts_off p m j s" "\<not> sv_sending s" "sv_pending_left s = 1" "m \<noteq> []"
  obtains c1 c2 s1 s2 where "server_turn c s (tick (j + 1)) = Some (c1, s1)" "goes (j + 2) c1 s1 1498 c2 s2"
    "awaits p (j + 20000) c2" "puts_off p m j s2" "\<not> sv_sending s2" "sv_pending_left s2 = 0"
    "\<exists>x r. s2 = s\<lparr>sv_sender := x, sv_receiver := r, sv_pending_left := 0, sv_sending := False\<rparr>"
proof -
  have t: "tick (j + l) < sv_deferred_until_ns s \<longleftrightarrow> l < 1500" if "l \<le> 2000" for l
    using that s(1) j by (simp add: puts_off_def tick_before)
  let ?s0 = "s\<lparr>sv_pending_left := 0\<rparr>"
  have tr: "svc_transport (sv_config ?s0) = server_transport" using s(1) by (simp add: puts_off_def)
  obtain x where x: "sv_start ?s0 (pending_message p) (tick (j + 1)) = ?s0\<lparr>sv_sender := x, sv_sending := True\<rparr>"
    "\<forall>u. \<exists>y z. server_turn c (?s0\<lparr>sv_sender := x, sv_sending := True\<rparr>) u =
       Some (c\<lparr>cl_receiver := y\<rparr>, server_done ?s0 z) \<and> answered (pending_message p) y"
    by (rule pending_sent [OF c(1) tr, of "tick (j + 1)"])
  let ?s1 = "?s0\<lparr>sv_sender := x, sv_sending := True\<rparr>"
  have d: "sv_deferred_response s \<noteq> []" "sv_pending_left s > 0" "sv_pending_left s - 1 = 0"
      "negative (sv_deferred_service s) NrcRequestCorrectlyReceivedResponsePending = pending_message p"
    using s by (simp_all add: puts_off_def pending_message_def)
  have "tick (j + 1) < sv_deferred_until_ns s" using t [of 1] by simp
  then have 1: "server_turn c s (tick (j + 1)) = Some (c, ?s1)"
    using server_starts_pending [OF s(2) d(1) _ d(2)] d(3,4) x(1) by simp
  obtain y z where yz: "server_turn c ?s1 (tick (j + 2)) = Some (c\<lparr>cl_receiver := y\<rparr>, server_done ?s0 z)"
    "answered (pending_message p) y" using x(2) by blast
  let ?s2 = "server_done ?s0 z"
  have a: "cl_state c = RqAwaitingResponse" "idle client_transport (cl_receiver c)" "tick (j + 20000) < cl_deadline_ns c"
      "client_busy c" using c by (simp_all add: awaits_def client_busy_def)
  have "tick (j + 2) < cl_deadline_ns c" using a(3) tick_le [of "j + 2" "j + 20000"] j by simp
  then have 2: "client_turn c ?s1 (tick (j + 2)) = Some (c, ?s1)" by (rule client_waits [OF a(1,2)])
  have n: "unat (cl_pending_count c) \<le> 1" "j + 3 + 20000 \<le> 2000000" using c(2) j by simp_all
  from pending_read [OF c(1) yz(2) n] obtain c2 where c2: "client_turn (c\<lparr>cl_receiver := y\<rparr>) ?s2 (tick (j + 3)) = Some (c2, ?s2)"
    "awaits p (j + 3 + 20000) c2" by blast
  have s2: "idle server_transport (sv_receiver ?s2)" "\<not> sv_sending ?s2" "sv_pending_left ?s2 = 0"
      "sv_deferred_until_ns ?s2 = sv_deferred_until_ns s"
    using s(1) idle_reset [of "sv_receiver s" server_transport] by (simp_all add: server_done_def puts_off_def idle_def)
  have turn': "server_turn c2 ?s2 (tick (j + 3)) = Some (c2, ?s2)" using server_idles [OF s2(1,2)] s2(3,4) t [of 3] by simp
  have "tick (j + 4 + l) < sv_deferred_until_ns ?s2" if "l < 1496" for l
    using that t [of "4 + l"] s2(4) by (simp add: add.assoc)
  then have w: "goes (j + 4) c2 ?s2 1496 c2 ?s2"
    using wait_rounds [OF c2(2) s2(1-3), of "j + 4" 1496] by simp
  have busy: "client_busy (c\<lparr>cl_receiver := y\<rparr>)" using a(1) by (simp add: client_busy_def)
  have "goes (j + 3) (c\<lparr>cl_receiver := y\<rparr>) ?s2 1497 c2 ?s2"
    by (rule goes_round_at [OF busy c2(1) turn' w]) simp_all
  then have 3: "goes (j + 2) c ?s1 1498 c2 ?s2" by (rule goes_round_at [OF a(4) 2 yz(1)]) simp_all
  have "awaits p (j + 20000) c2"
    using c2(2) tick_le [of "j + 20000" "j + 3 + 20000"] by (auto simp: awaits_def)
  moreover have "puts_off p m j ?s2" using s(1) s2(1) by (simp add: puts_off_def server_done_def)
  moreover have "?s2 = s\<lparr>sv_sender := z, sv_receiver := receiver_reset (sv_receiver s), sv_pending_left := 0, sv_sending := False\<rparr>"
    by (simp add: server_done_def)
  ultimately show ?thesis using that [OF 1 3] s2(2,3) by blast
qed

text \<open>The server answers at last, and the client reads it.\<close>

lemma deferred_answer:
  assumes c: "awaits p (j + 20000) c" and s: "puts_off p m j s" "\<not> sv_sending s"
    and m: "final_answer p m True data" "length m \<le> 7" and j: "j + 30000 \<le> 2000000"
  obtains c' s' where "goes (j + 1500) c s 2 c' s'" "ready c' s'" "cl_state c' = RqComplete" "rsp_positive (cl_response c')"
    "rsp_data (cl_response c') = data"
    "\<exists>x r. s' = s\<lparr>sv_sender := x, sv_receiver := r, sv_deferred_response := [], sv_sending := False\<rparr>"
proof -
  let ?t = "tick (j + 1500)"
  have a: "cl_state c = RqAwaitingResponse" "idle client_transport (cl_receiver c)" "tick (j + 20000) < cl_deadline_ns c"
      "client_busy c" using c by (simp_all add: awaits_def client_busy_def)
  have "?t < cl_deadline_ns c" using a(3) tick_le [of "j + 1500" "j + 20000"] j by simp
  then have turn: "client_turn c s ?t = Some (c, s)" by (rule client_waits [OF a(1,2)])
  have p: "sv_deferred_response s = m" "svc_transport (sv_config s) = server_transport"
      "sv_deferred_until_ns s = tick j + 300000000" "idle server_transport (sv_receiver s)"
    using s(1) by (simp_all add: puts_off_def)
  have due: "sv_deferred_until_ns s \<le> ?t"
    unfolding p(3) using j tick_before [of j "j + 1500" 300000000] by (simp add: not_less [symmetric])
  note m0 = final_answer_message [OF m(1)]
  obtain x where x: "sv_start s m ?t = s\<lparr>sv_sender := x, sv_sending := True\<rparr>"
    "at_start m server_transport client_transport x (cl_receiver c)"
    using server_begins [OF p(2) _ _ a(2)] m0 by blast
  let ?s1 = "s\<lparr>sv_sender := x, sv_sending := True, sv_deferred_response := []\<rparr>"
  have on: "sv_sending ?s1" "at_start m server_transport client_transport (sv_sender ?s1) (cl_receiver c)"
    using x(2) by simp_all
  obtain z y where z: "link_step (sv_sender ?s1, cl_receiver c) (SenderTurn ?t) = (z, y)" "wf_sender (sv_sender ?s1)"
    "answered m y" "server_sent ?s1 z = server_done ?s1 z" by (rule single_turn [OF a(1) on m(2)])
  have d: "sv_deferred_response s \<noteq> []" "?s1 = (sv_start s (sv_deferred_response s) ?t)\<lparr>sv_deferred_response := []\<rparr>"
    using p(1) m0 x(1) by simp_all
  let ?s2 = "server_done ?s1 z"
  have turn': "server_turn c s ?t = Some (c\<lparr>cl_receiver := y\<rparr>, ?s2)"
    using server_starts_deferred [OF a(1) s(2) d(1) due d(2) on(1) z(2,1)] z(4) by simp
  have s2: "idle server_transport (sv_receiver ?s2)" "\<not> sv_sending ?s2" "sv_deferred_response ?s2 = []"
      "svc_transport (sv_config ?s2) = server_transport"
    using p idle_reset [of "sv_receiver s" server_transport] by (simp_all add: server_done_def idle_def)
  have "j + 1501 \<le> 2000000" using j by simp
  from answer_read [OF c z(3) m(1) this s2] obtain c5 where c5: "goes (j + 1501) (c\<lparr>cl_receiver := y\<rparr>) ?s2 1 c5 ?s2"
    "ready c5 ?s2" "cl_state c5 = RqComplete" "rsp_positive (cl_response c5)" "rsp_data (cl_response c5) = data" by auto
  have "goes (j + 1500) c s 2 c5 ?s2" by (rule goes_round_at [OF a(4) turn turn' c5(1)]) simp_all
  moreover have "?s2 = s\<lparr>sv_sender := z, sv_receiver := receiver_reset (sv_receiver s), sv_deferred_response := [], sv_sending := False\<rparr>"
    by (simp add: server_done_def)
  ultimately show ?thesis using that [OF _ c5(2-5)] by blast
qed

text \<open>A server that differs from another only in its transport and in the bookkeeping of a deferred answer.\<close>

definition same_deferred :: "uds_server \<Rightarrow> uds_server \<Rightarrow> bool" where
  "same_deferred s s' \<longleftrightarrow> (\<exists>x r h. s' = s\<lparr>sv_sender := x, sv_sending := False, sv_receiver := r, sv_handled := h,
     sv_deferred_response := [], sv_pending_left := 0\<rparr>)"

lemma step_deferred:
  assumes r: "ready c s" and p: "p \<noteq> []" "length p \<le> 4095" "\<not> suppressed p" and i: "i + 40000 \<le> 2000000"
    and h: "\<And>r h t. server_handle (s\<lparr>sv_receiver := r, sv_handled := h\<rparr>) p t =
      Some (pending_message p, (f t)\<lparr>sv_receiver := r, sv_handled := h\<rparr>)"
    and m: "final_answer p m True data" "length m \<le> 7"
    and f: "\<And>t. sv_config (f t) = sv_config s" "\<And>t. \<not> sv_sending (f t)" "\<And>t. sv_deferred_response (f t) = m"
      "\<And>t. sv_deferred_service (f t) = p ! 0" "\<And>t. sv_deferred_until_ns (f t) = t + 300000000" "\<And>t. sv_pending_left (f t) = 1"
  obtains k c' s' t where "step (client_request c p (tick i)) s (tick i) = Some (True, c', s', tick (i + k))"
    "k \<le> length p + 1503" "ready c' s'" "same_deferred (f t) s'" "rsp_data (cl_response c') = data"
proof -
  have "i + length p + 250 \<le> 2000000" using p(2) i by simp
  from request_arrives [OF r p this] obtain k1 c1 s1 c2 q where k1: "k1 \<le> length p + 1"
    "goes i (snd (client_request c p (tick i))) s k1 c1 s1" "arrives p s (i + k1) c1 s1 c2 q" by blast
  define j t where "j = i + k1" and "t = tick j"
  define s2 where "s2 = (f t)\<lparr>sv_receiver := q, sv_handled := sv_handled s + 1\<rparr>"
  have c2: "client_busy c1" "idle server_transport q" "awaits p (j + 249) c2" "cl_pending_count c2 = 0"
    using k1(3) by (simp_all add: arrives_def j_def)
  have j: "j + 30000 \<le> 2000000" using k1(1) p(2) i by (simp add: j_def)
  have tr: "svc_transport (sv_config s2) = server_transport" using r f(1) by (simp add: s2_def ready_def)
  obtain x where x: "sv_start s2 (pending_message p) t = s2\<lparr>sv_sender := x, sv_sending := True\<rparr>"
    "\<forall>u. \<exists>y z. server_turn c2 (s2\<lparr>sv_sender := x, sv_sending := True\<rparr>) u =
       Some (c2\<lparr>cl_receiver := y\<rparr>, server_done s2 z) \<and> answered (pending_message p) y"
    by (rule pending_sent [OF c2(3) tr, of t])
  let ?s3 = "s2\<lparr>sv_sender := x, sv_sending := True\<rparr>"
  have turn: "client_turn c1 s1 (tick j) = Some (c2, ?s3)"
    using k1(3) h pending_message_length(1) x(1) by (simp add: arrives_def j_def [symmetric] t_def [symmetric] s2_def)
  obtain y z where yz: "server_turn c2 ?s3 (tick j) = Some (c2\<lparr>cl_receiver := y\<rparr>, server_done s2 z)"
    "answered (pending_message p) y" using x(2) by blast
  let ?s4 = "server_done s2 z"
  have "unat (cl_pending_count c2) \<le> 1" "j + 1 + 20000 \<le> 2000000" using c2(4) j by simp_all
  from pending_read [OF c2(3) yz(2) this] obtain c3 where c3: "client_turn (c2\<lparr>cl_receiver := y\<rparr>) ?s4 (tick (j + 1)) = Some (c3, ?s4)"
    "awaits p (j + 1 + 20000) c3" "cl_pending_count c3 = 1" using c2(4) by auto
  have c3': "awaits p (j + 20000) c3" using c3(2) tick_le [of "j + 20000" "j + 1 + 20000"] by (auto simp: awaits_def)
  have s4: "puts_off p m j ?s4" "\<not> sv_sending ?s4" "sv_pending_left ?s4 = 1" "m \<noteq> []"
    using f tr c2(2) idle_reset [of q server_transport] final_answer_message [OF m(1)]
    by (simp_all add: puts_off_def server_done_def s2_def t_def idle_def)
  obtain c4 c5 s5 s6 where 1: "server_turn c3 ?s4 (tick (j + 1)) = Some (c4, s5)" "goes (j + 2) c4 s5 1498 c5 s6"
    "awaits p (j + 20000) c5" "puts_off p m j s6" "\<not> sv_sending s6" "sv_pending_left s6 = 0"
    "\<exists>x r. s6 = ?s4\<lparr>sv_sender := x, sv_receiver := r, sv_pending_left := 0, sv_sending := False\<rparr>"
    by (rule deferred_wait [OF c3' c3(3) j s4])
  obtain c6 s7 where 2: "goes (j + 1500) c5 s6 2 c6 s7" "ready c6 s7" "cl_state c6 = RqComplete" "rsp_positive (cl_response c6)"
    "rsp_data (cl_response c6) = data"
    "\<exists>x r. s7 = s6\<lparr>sv_sender := x, sv_receiver := r, sv_deferred_response := [], sv_sending := False\<rparr>"
    by (rule deferred_answer [OF 1(3-5) m j])
  have "goes (j + 2) c4 s5 1500 c6 s7" by (rule goes_trans_at [OF 1(2) 2(1)]) simp_all
  moreover have "client_busy (c2\<lparr>cl_receiver := y\<rparr>)" using c2(3) by (simp add: client_busy_def awaits_def)
  ultimately have "goes (j + 1) (c2\<lparr>cl_receiver := y\<rparr>) ?s4 1501 c6 s7"
    using goes_round_at [OF _ c3(1) 1(1), of "j + 2" 1500] by simp
  then have "goes j c1 s1 1502 c6 s7" by (rule goes_round_at [OF c2(1) turn yz(1)]) simp_all
  then have g: "goes i (snd (client_request c p (tick i))) s (k1 + 1502) c6 s7"
    unfolding j_def by (rule goes_trans [OF k1(2)])
  have "k1 + 1502 \<le> length p + 1503" "k1 + 1502 \<le> 2000000" using k1(1) p(2) by simp_all
  moreover have "rsp_positive (cl_response c6) = True" using 2(4) by simp
  moreover from step_request [OF r p g calculation(2) 2(2,3) this]
    have "step (client_request c p (tick i)) s (tick i) = Some (True, c6, s7, tick (i + (k1 + 1502)))" .
  moreover have "same_deferred (f t) s7"
  proof -
    obtain x r x' r' where "s6 = ?s4\<lparr>sv_sender := x, sv_receiver := r, sv_pending_left := 0, sv_sending := False\<rparr>"
      "s7 = s6\<lparr>sv_sender := x', sv_receiver := r', sv_deferred_response := [], sv_sending := False\<rparr>"
      using 1(7) 2(6) by blast
    then show ?thesis unfolding same_deferred_def server_done_def s2_def
      by (intro exI [of _ x'] exI [of _ r'] exI [of _ "sv_handled s + 1"]) simp
  qed
  ultimately show ?thesis using that 2(2,5) by blast
qed

end
