(* ===== verification/Uds_Flash.thy ===== *)
theory Uds_Flash
  imports Uds_Pump
begin

text \<open>
  The flash sequence of \<open>command_uds\<close> (\<open>cli/src/canforge.cpp\<close>): what the server does with each request of it, the
  request through the pump, and the command as a whole.
\<close>

subsection \<open>The server along the sequence\<close>

lemma dispatch:
  "server_handle s (0x10 # r) now = Some (sv_session_control s (0x10 # r))"
  "server_handle s (0x19 # r) now = Some (sv_read_dtcs s (0x19 # r))"
  "server_handle s (0x22 # r) now = Some (sv_read_data s (0x22 # r))"
  "server_handle s (0x27 # r) now = Some (sv_security_access s (0x27 # r) now)"
  "server_handle s (0x31 # r) now = sv_routine_control s (0x31 # r) now"
  "server_handle s (0x34 # r) now = Some (sv_request_download s (0x34 # r))"
  "server_handle s (0x36 # r) now = Some (sv_transfer_data s (0x36 # r) now)"
  "server_handle s (0x37 # r) now = Some (sv_transfer_exit s (0x37 # r))"
  by (simp_all add: server_handle_def service_of_def all_services_def)

lemma not_suppressed [simp]:
  "\<not> suppressed (0x36 # r)" "\<not> suppressed (0x34 # r)" "\<not> suppressed (0x37 # r)"
  by (simp_all add: suppressed_def has_sub_function_def)

definition loading :: "server_config \<Rightarrow> bytes \<Rightarrow> nat \<Rightarrow> u8 \<Rightarrow> uds_server \<Rightarrow> bool" where
  "loading K img off blk s \<longleftrightarrow> sv_config s = K \<and> sv_download_active s \<and> sv_download_address s = svc_flash_base K \<and>
     sv_download_size s = of_nat (length img) \<and> sv_download_written s = of_nat off \<and> sv_expected_block s = blk \<and>
     sv_flash s = take off img @ replicate (unat (svc_flash_size K) - off) 0xFF \<and>
     off \<le> length img \<and> length img \<le> unat (svc_flash_size K)"

lemma unat_of_nat_size: "m \<le> unat (k :: u32) \<Longrightarrow> unat (of_nat m :: u32) = m"
proof -
  assume "m \<le> unat k"
  then have "m < 2 ^ LENGTH(32)" using unat_less_exp [of k] by linarith
  then show ?thesis by (simp add: unsigned_of_nat take_bit_nat_eq_self)
qed

lemma splice_image:
  assumes "off + n \<le> length img" and "length img \<le> N"
  shows "take off (take off img @ replicate (N - off) x) @ take n (drop off img) @
      drop (off + n) (take off img @ replicate (N - off) x) = take (off + n) img @ replicate (N - (off + n)) x"
  using assms by (simp add: take_add)

lemma transfer_written:
  assumes "loading K img off blk s" and "n = min 256 (length img - off)"
    and "x = s\<lparr>sv_flash := take off (sv_flash s) @ take n (drop off img) @ drop (off + n) (sv_flash s),
      sv_download_written := sv_download_written s + of_nat n,
      sv_expected_block := (if blk + 1 = 0 then 1 else blk + 1)\<rparr>"
  shows "loading K img (off + n) (if blk + 1 = 0 then 1 else blk + 1) x" and
    "sv_transfer_data s (0x36 # blk # take n (drop off img)) now =
      (if svc_pending_responses_per_block K \<noteq> 0
       then (negative 0x36 NrcRequestCorrectlyReceivedResponsePending,
             x\<lparr>sv_deferred_response := [0x36 + kPositiveResponseOffset, blk], sv_deferred_service := 0x36,
               sv_deferred_until_ns := now, sv_pending_left := svc_pending_responses_per_block K\<rparr>)
       else (positive (0x36 # blk # take n (drop off img)) [blk], x))"
proof -
  let ?N = "unat (svc_flash_size K)" and ?d = "take n (drop off img)"
  have s: "sv_config s = K" "sv_download_active s" "sv_download_address s = svc_flash_base K"
      "sv_download_size s = of_nat (length img)" "sv_download_written s = of_nat off" "sv_expected_block s = blk"
      "sv_flash s = take off img @ replicate (?N - off) 0xFF" "off \<le> length img" "length img \<le> ?N"
    using assms(1) by (simp_all only: loading_def)
  have l: "off + n \<le> length img" "length ?d = n" and m: "min (length img - off) n = n" using assms(2) s(8) by auto
  have f: "sv_flash x = take (off + n) img @ replicate (?N - (off + n)) 0xFF"
    unfolding assms(3) using splice_image [OF l(1) s(9), of "0xFF"] s(7) by simp
  have ld: "sv_config x = K" "sv_download_active x" "sv_download_address x = svc_flash_base K"
      "sv_download_size x = of_nat (length img)" "sv_download_written x = of_nat (off + n)"
      "sv_expected_block x = (if blk + 1 = 0 then 1 else blk + 1)"
    unfolding assms(3) using s by simp_all
  show "loading K img (off + n) (if blk + 1 = 0 then 1 else blk + 1) x"
    unfolding loading_def using ld f l(1) s(9) by blast
  have "off \<le> ?N" using s(8,9) by linarith
  then have off: "unat (svc_flash_base K - svc_flash_base K + of_nat off) = off"
    using unat_of_nat_size [of off "svc_flash_size K"] by simp
  have len: "\<not> off + n > length (sv_flash s)" using s(7-9) l(1) by simp
  show "sv_transfer_data s (0x36 # blk # ?d) now =
      (if svc_pending_responses_per_block K \<noteq> 0
       then (negative 0x36 NrcRequestCorrectlyReceivedResponsePending,
             x\<lparr>sv_deferred_response := [0x36 + kPositiveResponseOffset, blk], sv_deferred_service := 0x36,
               sv_deferred_until_ns := now, sv_pending_left := svc_pending_responses_per_block K\<rparr>)
       else (positive (0x36 # blk # ?d) [blk], x))"
    using len unfolding sv_transfer_data_def Let_def assms(3) s(1,3,5,6) off
    by (simp add: s(2) l(2) m)
qed

lemma be_4_bytes:
  "[ucast (drop_bit 24 key AND 0xFF), ucast (drop_bit 16 key AND 0xFF), ucast (drop_bit 8 key AND 0xFF),
    ucast (key AND 0xFF)] = push_be [] key 4"
  by (simp add: push_be_def numeral_eq_Suc upt_rec)

lemma take_bit_32 [simp]: "take_bit 32 (v :: u32) = v"
  by (rule take_bit_word_eq_self) simp

lemma read_be_4: "length pre = n \<Longrightarrow> read_be (pre @ push_be [] v 4 @ post) n 4 = v"
  using read_be_push [of pre v 4 post] by simp

lemma foldl_index:
  "m + k \<le> length xs \<Longrightarrow> foldl (\<lambda>v i. f v (xs ! i)) a [m..<m + k] = foldl f a (take k (drop m xs))"
proof (induction k)
  case (Suc k)
  then have "take (Suc k) (drop m xs) = take k (drop m xs) @ [xs ! (m + k)]" by (simp add: take_Suc_conv_app_nth)
  then show ?case using Suc by simp
qed simp

lemma big_endian_push:
  assumes "length pre = lo" and "hi = lo + 4"
  shows "big_endian_from lo hi (pre @ push_be [] v 4) = v"
proof -
  have "[lo..<min hi (length (pre @ push_be [] v 4))] = [lo..<lo + 4]" using assms by simp
  then have "big_endian_from lo hi (pre @ push_be [] v 4) = be_value 0 (take 4 (drop lo (pre @ push_be [] v 4)))"
    unfolding big_endian_from_def be_value_def
    using foldl_index [of lo 4 "pre @ push_be [] v 4" "\<lambda>v b. push_bit 8 v OR ucast b" 0] assms by simp
  also have "\<dots> = v" using assms be_value_push [of 0 v 4] by simp
  finally show ?thesis .
qed

lemma routine_request:
  "routine_control c RcStartRoutine 0xFF00 [] now = client_request c [0x31, 0x01, 0xFF, 0x00] now"
  "routine_control c RcStartRoutine 0xFF01 [] now = client_request c [0x31, 0x01, 0xFF, 0x01] now"
  by (simp_all add: routine_control_def push_be_def upt_rec)

lemma routine_number:
  "(ucast (read_be [0x31, 0x01, 0xFF, 0x00] 2 2) :: u16) = 0xFF00"
  "(ucast (read_be [0x31, 0x01, 0xFF, 0x01] 2 2) :: u16) = 0xFF01"
  by code_simp+

lemma sum_as_fold: "foldl (\<lambda>v b. v + ucast b) 0 xs = (sum_list (map ucast xs) :: u32)"
proof -
  have "foldl (\<lambda>v b. v + ucast b) a xs = a + (sum_list (map ucast xs) :: u32)" for a
    by (induction xs arbitrary: a) simp_all
  then show ?thesis by simp
qed

subsection \<open>Reading the identification\<close>

text \<open>What the command relies on between two steps: the configuration of its server, and idle transports.\<close>

definition between :: "client \<Rightarrow> uds_server \<Rightarrow> bool" where
  "between c s \<longleftrightarrow> ready c s \<and> sv_config s = cli_server_config"

lemmas cli_config = cli_server_config_def default_server_config_def kMs_def

lemma between_sending: "between c s \<Longrightarrow> \<not> sv_sending s \<and> sv_deferred_response s = []"
  by (simp add: between_def ready_def)

lemma same_but_simps:
  "same_but s s' \<Longrightarrow> sv_config s' = sv_config s" "same_but s s' \<Longrightarrow> sv_session s' = sv_session s"
  "same_but s s' \<Longrightarrow> sv_unlocked s' = sv_unlocked s" "same_but s s' \<Longrightarrow> sv_last_seed s' = sv_last_seed s"
  "same_but s s' \<Longrightarrow> sv_security_level s' = sv_security_level s" "same_but s s' \<Longrightarrow> sv_flash s' = sv_flash s"
  "same_but s s' \<Longrightarrow> sv_download_active s' = sv_download_active s"
  "same_but s s' \<Longrightarrow> sv_download_complete s' = sv_download_complete s"
  "same_but s s' \<Longrightarrow> sv_dtcs s' = sv_dtcs s"
  by (auto simp: same_but_def)

lemma same_but_loading: "same_but s s' \<Longrightarrow> loading K img off blk s \<Longrightarrow> loading K img off blk s'"
  by (auto simp: same_but_def loading_def)

lemma answer_step:
  assumes b: "between c s" and p: "p \<noteq> []" "length p \<le> 258" "\<not> suppressed p" and i: "i + 5000 \<le> 2000000"
    and h: "\<And>r h t. server_handle (s\<lparr>sv_receiver := r, sv_handled := h\<rparr>) p t =
      Some (rsp t, (f t)\<lparr>sv_receiver := r, sv_handled := h\<rparr>)"
    and a: "\<And>t. final_answer p (rsp t) good (data t)"
    and f: "\<And>t. sv_config (f t) = cli_server_config" "\<And>t. sv_sending (f t) = sv_sending s"
      "\<And>t. sv_deferred_response (f t) = sv_deferred_response s"
  obtains k c' s' t where "step (client_request c p (tick i)) s (tick i) = Some (good, c', s', tick (i + k))"
    "k \<le> length p + 104" "between c' s'" "same_but (f t) s'" "good \<Longrightarrow> rsp_data (cl_response c') = data t"
proof -
  have r: "ready c s" and k: "sv_config s = cli_server_config" using b by (simp_all add: between_def)
  have l: "length p \<le> 4095" using p(2) by simp
  note s = between_sending [OF b]
  have g: "\<And>t. sv_config (f t) = sv_config s" "\<And>t. \<not> sv_sending (f t)" "\<And>t. sv_deferred_response (f t) = []"
    using f s k by simp_all
  show ?thesis
  proof (rule step_answer [OF r p(1) l p(3) i h a g])
    fix k c' s' t
    assume st: "step (client_request c p (tick i)) s (tick i) = Some (good, c', s', tick (i + k))" "k \<le> length p + 104"
      "ready c' s'" "same_but (f t) s'" "good \<Longrightarrow> rsp_data (cl_response c') = data t"
    have "between c' s'" using st(3,4) f(1) same_but_simps(1) by (simp add: between_def)
    then show ?thesis using that st by blast
  qed
qed

lemma vin_step:
  assumes b: "between c s" and i: "i + 5000 \<le> 2000000"
  obtains k c' s' where "step (read_data_by_identifier c 0xF190 (tick i)) s (tick i) = Some (True, c', s', tick (i + k))"
    "k \<le> 400" "between c' s'" "same_but s s'"
proof -
  let ?p = "[0x22, 0xF1, 0x90] :: bytes" and ?d = "[0xF1, 0x90] @ ascii_bytes ''CANFORGE0SIM00001''"
  have r: "read_data_by_identifier c 0xF190 (tick i) = client_request c ?p (tick i)"
    by (simp add: read_data_by_identifier_def push_be_def upt_rec)
  have n: "(ucast (read_be ?p 1 2) :: u16) = 0xF190" by code_simp
  have k: "sv_config s = cli_server_config" using b by (simp add: between_def)
  have "push_be [] (ucast (0xF190 :: u16)) 2 = ([0xF1, 0x90] :: bytes)" by code_simp
  moreover have "\<not> suppressed ?p" by (simp add: suppressed_def has_sub_function_def)
  ultimately have h: "server_handle (s\<lparr>sv_receiver := r, sv_handled := h\<rparr>) ?p t =
      Some (0x62 # ?d, s\<lparr>sv_receiver := r, sv_handled := h\<rparr>)" for r h t
    unfolding dispatch sv_read_data_def Let_def n using k
    by (simp add: cli_config positive_def kPositiveResponseOffset_def)
  have a: "final_answer ?p (0x62 # ?d) True ?d"
    by (auto simp: final_answer_def kPositiveResponseOffset_def ascii_bytes_def intro: exI [of _ SvcReadDataByIdentifier])
  show ?thesis
    by (rule answer_step [OF b _ _ \<open>\<not> suppressed ?p\<close> i h a]) (use that r k in simp_all)
qed

lemma dtc_step:
  assumes b: "between c s" and d: "sv_dtcs s = svc_dtcs cli_server_config" and i: "i + 5000 \<le> 2000000"
  obtains k c' s' where
    "step (read_dtc_information c DtrReportDtcByStatusMask 0xFF (tick i)) s (tick i) = Some (True, c', s', tick (i + k))"
    "k \<le> 400" "between c' s'" "same_but s s'"
proof -
  let ?p = "[0x19, 0x02, 0xFF] :: bytes"
  have r: "read_dtc_information c DtrReportDtcByStatusMask 0xFF (tick i) = client_request c ?p (tick i)"
    by (simp add: read_dtc_information_def)
  have k: "sv_config s = cli_server_config" using b by (simp add: between_def)
  have u: "\<not> suppressed ?p" "sub_of ?p = 2" by (simp_all add: suppressed_def sub_of_def kSuppressPositiveResponse_def)
  define ds where "ds = filter (\<lambda>d. dtc_status d AND 0xFF \<noteq> 0) (svc_dtcs cli_server_config)"
  have h: "server_handle (s\<lparr>sv_receiver := r, sv_handled := h\<rparr>) ?p t =
      Some (0x59 # [0x02, 0xFF] @ concat (map dtc_record_bytes ds), s\<lparr>sv_receiver := r, sv_handled := h\<rparr>)" for r h t
    unfolding dispatch sv_read_dtcs_def Let_def u(2) using u(1) d
    by (simp add: positive_def kPositiveResponseOffset_def ds_def)
  have "length (concat (map dtc_record_bytes ds)) \<le> 4 * length ds"
    by (simp add: length_concat dtc_record_bytes_def comp_def sum_list_triv)
  moreover have "length (svc_dtcs cli_server_config) = 3" by (simp add: cli_config)
  then have "length ds \<le> 3" unfolding ds_def by (metis length_filter_le)
  ultimately have a: "final_answer ?p (0x59 # [0x02, 0xFF] @ concat (map dtc_record_bytes ds)) True
      ([0x02, 0xFF] @ concat (map dtc_record_bytes ds))"
    by (auto simp: final_answer_def kPositiveResponseOffset_def intro: exI [of _ SvcReadDtcInformation])
  show ?thesis by (rule answer_step [OF b _ _ u(1) i h a]) (use that r k in simp_all)
qed

subsection \<open>Unlocking\<close>

lemma session_step:
  assumes b: "between c s" and i: "i + 5000 \<le> 2000000"
  obtains k c' s' where
    "step (diagnostic_session_control c SesProgramming (tick i) False) s (tick i) = Some (True, c', s', tick (i + k))"
    "k \<le> 400" "between c' s'" "same_but (s\<lparr>sv_session := 2\<rparr>) s'"
proof -
  let ?p = "[0x10, 0x02] :: bytes" and ?d = "push_be (push_be [2] 50 2) 500 2"
  have r: "diagnostic_session_control c SesProgramming (tick i) False = client_request c ?p (tick i)"
    by (simp add: diagnostic_session_control_def Let_def)
  have u: "\<not> suppressed ?p" "sub_of ?p = 2" by (simp_all add: suppressed_def sub_of_def kSuppressPositiveResponse_def)
  have h: "server_handle (s\<lparr>sv_receiver := r, sv_handled := h\<rparr>) ?p t =
      Some (0x50 # ?d, (s\<lparr>sv_session := 2\<rparr>)\<lparr>sv_receiver := r, sv_handled := h\<rparr>)" for r h t
    unfolding dispatch sv_session_control_def Let_def u(2) using u(1)
    by (simp add: positive_def kPositiveResponseOffset_def)
  have a: "final_answer ?p (0x50 # ?d) True ?d"
    by (auto simp: final_answer_def kPositiveResponseOffset_def intro: exI [of _ SvcDiagnosticSessionControl])
  show ?thesis by (rule answer_step [OF b _ _ u(1) i h a]) (use that r b in \<open>simp_all add: between_def\<close>)
qed

definition seed_at :: "uds_server \<Rightarrow> u64 \<Rightarrow> u32" where
  "seed_at s t = (if sv_unlocked s then 0 else 0xC0FFEE XOR ucast (t AND 0xFFFFFF))"

lemma seed_step:
  assumes b: "between c s" and s: "sv_session s = 2" and i: "i + 5000 \<le> 2000000"
  obtains k c' s' t where "step (security_access_request_seed c 0x01 (tick i)) s (tick i) = Some (True, c', s', tick (i + k))"
    "k \<le> 400" "between c' s'" "same_but (s\<lparr>sv_security_level := 1, sv_last_seed := seed_at s t\<rparr>) s'"
    "big_endian_from 1 5 (rsp_data (cl_response c')) = seed_at s t"
proof -
  let ?p = "[0x27, 0x01] :: bytes" and ?d = "\<lambda>t. [1] @ push_be [] (seed_at s t) 4"
  let ?f = "\<lambda>t. s\<lparr>sv_security_level := 1, sv_last_seed := seed_at s t\<rparr>"
  have r: "security_access_request_seed c 0x01 (tick i) = client_request c ?p (tick i)"
    by (simp add: security_access_request_seed_def)
  have u: "\<not> suppressed ?p" "sub_of ?p = 1" by (simp_all add: suppressed_def sub_of_def kSuppressPositiveResponse_def)
  have h: "server_handle (s\<lparr>sv_receiver := r, sv_handled := h\<rparr>) ?p t =
      Some (0x67 # ?d t, (?f t)\<lparr>sv_receiver := r, sv_handled := h\<rparr>)" for r h t
    unfolding dispatch sv_security_access_def Let_def u(2) using u(1) s
    by (simp add: positive_def kPositiveResponseOffset_def seed_at_def push_be_append [of "[1]"])
  have a: "final_answer ?p (0x67 # ?d t) True (?d t)" for t
    by (auto simp: final_answer_def kPositiveResponseOffset_def intro: exI [of _ SvcSecurityAccess])
  have e: "big_endian_from 1 5 (?d t) = seed_at s t" for t by (rule big_endian_push) simp_all
  show ?thesis
  proof (rule answer_step [OF b _ _ u(1) i h a])
    fix k c' s' t
    assume "step (client_request c ?p (tick i)) s (tick i) = Some (True, c', s', tick (i + k))" "k \<le> length ?p + 104"
      "between c' s'" "same_but (?f t) s'" "True \<Longrightarrow> rsp_data (cl_response c') = ?d t"
    then show ?thesis using that e [of t] unfolding r by simp
  qed (use b in \<open>simp_all add: between_def\<close>)
qed

lemma key_step:
  assumes b: "between c s" and s: "sv_session s = 2" "sv_security_level s = 1"
    and key: "key = toy_key_from_seed (sv_last_seed s) (svc_security_secret cli_server_config)" and i: "i + 5000 \<le> 2000000"
  obtains k c' s' where "step (security_access_send_key c 0x02 (push_be [] key 4) (tick i)) s (tick i) =
      Some (True, c', s', tick (i + k))" "k \<le> 400" "between c' s'" "same_but (s\<lparr>sv_unlocked := True\<rparr>) s'"
proof -
  let ?p = "[0x27, 0x02] @ push_be [] key 4"
  have r: "security_access_send_key c 0x02 (push_be [] key 4) (tick i) = client_request c ?p (tick i)"
    by (simp add: security_access_send_key_def)
  have u: "\<not> suppressed ?p" "sub_of ?p = 2" by (simp_all add: suppressed_def sub_of_def kSuppressPositiveResponse_def)
  have rd: "read_be ?p 2 4 = key" using read_be_4 [of "[0x27, 0x02]" 2 key "[]"] by simp
  have l: "\<not> length ?p < 6" "\<not> length ?p < 2" "?p ! 0 = 0x27" by simp_all
  have k: "sv_config s = cli_server_config" using b by (simp add: between_def)
  have "sv_security_access (s\<lparr>sv_receiver := r, sv_handled := h\<rparr>) ?p t =
      (positive ?p [2], (s\<lparr>sv_unlocked := True\<rparr>)\<lparr>sv_receiver := r, sv_handled := h\<rparr>)" for r h t
    unfolding sv_security_access_def Let_def u(2) rd using l(1,2) s key k by simp
  moreover have "positive ?p [2] = 0x67 # [2]" using u(1) by (simp add: positive_def kPositiveResponseOffset_def)
  ultimately have h: "server_handle (s\<lparr>sv_receiver := r, sv_handled := h\<rparr>) ?p t =
      Some (0x67 # [2], (s\<lparr>sv_unlocked := True\<rparr>)\<lparr>sv_receiver := r, sv_handled := h\<rparr>)" for r h t
    unfolding append.simps dispatch by simp
  have a: "final_answer ?p (0x67 # [2]) True [2]"
    by (auto simp: final_answer_def kPositiveResponseOffset_def intro: exI [of _ SvcSecurityAccess])
  show ?thesis by (rule answer_step [OF b _ _ u(1) i h a]) (use that r b in \<open>simp_all add: between_def\<close>)
qed

text \<open>The lock is open, the session is the programming one, and the flash has its size.\<close>

definition opened :: "uds_server \<Rightarrow> bool" where
  "opened s \<longleftrightarrow> sv_session s = 2 \<and> sv_unlocked s \<and> length (sv_flash s) = 65536"

lemma unlock_runs:
  assumes b: "between c s" and i: "i + 8000 \<le> 2000000" and l: "length (sv_flash s) = 65536"
  obtains k c' s' where "flash_unlock c s (tick i) rest = rest c' s' (tick (i + k))" "k \<le> 1200" "between c' s'" "opened s'"
proof -
  have "i + 5000 \<le> 2000000" using i by simp
  then obtain k1 c1 s1 where 1: "step (diagnostic_session_control c SesProgramming (tick i) False) s (tick i) =
      Some (True, c1, s1, tick (i + k1))" "k1 \<le> 400" "between c1 s1" "same_but (s\<lparr>sv_session := 2\<rparr>) s1"
    by (rule session_step [OF b])
  note s1 = same_but_simps [OF 1(4)]
  have "sv_session s1 = 2" "i + k1 + 5000 \<le> 2000000" using s1(2) i 1(2) by simp_all
  then obtain k2 c2 s2 t where 2: "step (security_access_request_seed c1 0x01 (tick (i + k1))) s1 (tick (i + k1)) =
      Some (True, c2, s2, tick (i + k1 + k2))" "k2 \<le> 400" "between c2 s2"
      "same_but (s1\<lparr>sv_security_level := 1, sv_last_seed := seed_at s1 t\<rparr>) s2"
      "big_endian_from 1 5 (rsp_data (cl_response c2)) = seed_at s1 t"
    by (rule seed_step [OF 1(3)])
  note s2 = same_but_simps [OF 2(4)]
  let ?key = "toy_key_from_seed (seed_at s1 t) (svc_security_secret cli_server_config)"
  have "sv_session s2 = 2" "sv_security_level s2 = 1" "?key = toy_key_from_seed (sv_last_seed s2) (svc_security_secret cli_server_config)"
      "i + k1 + k2 + 5000 \<le> 2000000" using s2 s1(2) i 1(2) 2(2) by simp_all
  then obtain k3 c3 s3 where 3: "step (security_access_send_key c2 0x02 (push_be [] ?key 4) (tick (i + k1 + k2))) s2
      (tick (i + k1 + k2)) = Some (True, c3, s3, tick (i + k1 + k2 + k3))" "k3 \<le> 400" "between c3 s3"
      "same_but (s2\<lparr>sv_unlocked := True\<rparr>) s3"
    by (rule key_step [OF 2(3)])
  note s3 = same_but_simps [OF 3(4)]
  have "flash_unlock c s (tick i) rest = rest c3 s3 (tick (i + k1 + k2 + k3))"
    unfolding flash_unlock_def Let_def be_4_bytes by (simp add: or_exit_def 1(1) 2(1) 2(5) [unfolded One_nat_def] 3(1))
  moreover have "opened s3" using s1 s2 s3 l by (simp add: opened_def)
  ultimately show ?thesis using that [of c3 s3 "k1 + k2 + k3"] 1(2) 2(2) 3(2,3) by (simp add: add.assoc)
qed

subsection \<open>Erasing and downloading\<close>

lemma same_deferred_simps:
  "same_deferred s s' \<Longrightarrow> sv_config s' = sv_config s" "same_deferred s s' \<Longrightarrow> sv_session s' = sv_session s"
  "same_deferred s s' \<Longrightarrow> sv_unlocked s' = sv_unlocked s" "same_deferred s s' \<Longrightarrow> sv_flash s' = sv_flash s"
  by (auto simp: same_deferred_def)

definition erased :: "uds_server \<Rightarrow> bool" where
  "erased s \<longleftrightarrow> opened s \<and> sv_flash s = replicate 65536 0xFF"

lemma erase_step:
  assumes b: "between c s" and s: "opened s" and i: "i + 40000 \<le> 2000000"
  obtains k c' s' where "step (routine_control c RcStartRoutine 0xFF00 [] (tick i)) s (tick i) =
      Some (True, c', s', tick (i + k))" "k \<le> 1600" "between c' s'" "erased s'"
proof -
  let ?p = "[0x31, 0x01, 0xFF, 0x00] :: bytes" and ?d = "push_be [1] 0xFF00 2 @ [0x00]"
  let ?f = "\<lambda>t. s\<lparr>sv_flash := replicate 65536 0xFF, sv_deferred_response := 0x71 # ?d, sv_deferred_service := 0x31,
      sv_deferred_until_ns := t + 300000000, sv_pending_left := 1\<rparr>"
  have r: "ready c s" and k: "sv_config s = cli_server_config" using b by (simp_all add: between_def)
  have u: "\<not> suppressed ?p" "sub_of ?p = 1" by (simp_all add: suppressed_def sub_of_def kSuppressPositiveResponse_def)
  have h: "server_handle (s\<lparr>sv_receiver := r, sv_handled := h\<rparr>) ?p t =
      Some (pending_message ?p, (?f t)\<lparr>sv_receiver := r, sv_handled := h\<rparr>)" for r h t
    unfolding dispatch sv_routine_control_def Let_def routine_number u(2) using s k
    by (simp add: sv_erase_def opened_def pending_message_def cli_config kPositiveResponseOffset_def Let_def)
  have a: "final_answer ?p (0x71 # ?d) True ?d"
    by (auto simp: final_answer_def kPositiveResponseOffset_def intro: exI [of _ SvcRoutineControl])
  have n: "\<And>t. \<not> sv_sending (?f t)" using between_sending [OF b] by simp
  show ?thesis
  proof (rule step_deferred [OF r _ _ u(1) i h a _ _ n])
    fix k c' s' t
    assume g: "step (client_request c ?p (tick i)) s (tick i) = Some (True, c', s', tick (i + k))"
      "k \<le> length ?p + 1503" "ready c' s'" "same_deferred (?f t) s'"
    note d = same_deferred_simps [OF g(4)]
    have "between c' s'" "erased s'" using d g(3) k s by (simp_all add: between_def erased_def opened_def)
    then show ?thesis using that g(1,2) unfolding routine_request by simp
  qed simp_all
qed

lemma requested_range:
  fixes c :: client and z :: u32
  shows "request_download c 0x08000000 z 4 4 now =
      client_request c (0x34 # [0x00, 0x44] @ push_be [] 0x08000000 4 @ push_be [] z 4) now"
    and "read_be (0x34 # [0x00, 0x44] @ push_be [] 0x08000000 4 @ push_be [] z 4) 3 4 = 0x08000000"
    and "read_be (0x34 # [0x00, 0x44] @ push_be [] 0x08000000 4 @ push_be [] z 4) 7 4 = z"
  using read_be_4 [of "[0x34, 0x00, 0x44]" 3 "0x08000000" "push_be [] z 4"]
    read_be_4 [of "[0x34, 0x00, 0x44] @ push_be [] 0x08000000 4" 7 z "[]"]
  by (simp_all add: request_download_def Let_def push_be_append [of "_ # _"] push_be_append [of "push_be _ _ _"])

lemma download_handled:
  fixes z :: u32
  assumes k: "sv_config s = cli_server_config" and s: "erased s"
  defines "p \<equiv> 0x34 # [0x00, 0x44] @ push_be [] 0x08000000 4 @ push_be [] z 4"
  shows "unat z \<le> 65536 \<Longrightarrow> server_handle s p now = Some (0x74 # push_be [0x20] 512 2,
      s\<lparr>sv_download_address := 0x08000000, sv_download_size := z, sv_download_active := True,
        sv_download_complete := False, sv_download_written := 0, sv_expected_block := 1\<rparr>)"
    and "unat z > 65536 \<Longrightarrow> server_handle s p now = Some (negative 0x34 NrcRequestOutOfRange,
      s\<lparr>sv_download_address := 0x08000000, sv_download_size := z\<rparr>)"
proof -
  note rr = requested_range(2,3) [of z]
  have d: "server_handle s p now = Some (sv_request_download s p)" unfolding p_def by (rule dispatch)
  have l: "length p = 11" "p ! 2 = 0x44" "p ! 0 = 0x34" by (simp_all add: p_def)
  have pos: "positive p b = 0x74 # b" for b by (simp add: positive_def p_def kPositiveResponseOffset_def)
  have z: "z > 65536 \<longleftrightarrow> unat z > 65536" by (simp add: word_less_nat_alt)
  show "unat z \<le> 65536 \<Longrightarrow> server_handle s p now = Some (0x74 # push_be [0x20] 512 2,
      s\<lparr>sv_download_address := 0x08000000, sv_download_size := z, sv_download_active := True,
        sv_download_complete := False, sv_download_written := 0, sv_expected_block := 1\<rparr>)"
    unfolding d sv_request_download_def Let_def l pos using s k z rr [folded p_def]
    by (simp add: erased_def opened_def cli_config)
  show "unat z > 65536 \<Longrightarrow> server_handle s p now = Some (negative 0x34 NrcRequestOutOfRange,
      s\<lparr>sv_download_address := 0x08000000, sv_download_size := z\<rparr>)"
    unfolding d sv_request_download_def Let_def l pos using s k z rr [folded p_def]
    by (simp add: erased_def opened_def cli_config)
qed

lemma cli_flash: "svc_flash_base cli_server_config = 0x08000000" "unat (svc_flash_size cli_server_config) = 65536"
  "svc_pending_responses_per_block cli_server_config = 0"
  by (simp_all add: cli_config)

lemma download_step:
  assumes b: "between c s" and s: "erased s" and l: "length img \<le> 65536" and i: "i + 5000 \<le> 2000000"
  obtains k c' s' where "step (request_download c 0x08000000 (of_nat (length img)) 4 4 (tick i)) s (tick i) =
      Some (True, c', s', tick (i + k))" "k \<le> 400" "between c' s'" "loading cli_server_config img 0 1 s'"
proof -
  let ?z = "of_nat (length img) :: u32"
  let ?p = "0x34 # [0x00, 0x44] @ push_be [] 0x08000000 4 @ push_be [] ?z 4" and ?d = "push_be [0x20] 512 2"
  let ?f = "s\<lparr>sv_download_address := 0x08000000, sv_download_size := ?z, sv_download_active := True,
        sv_download_complete := False, sv_download_written := 0, sv_expected_block := 1\<rparr>"
  have z: "unat ?z \<le> 65536" using l by (simp add: unat_of_nat)
  have k: "sv_config s = cli_server_config" using b by (simp add: between_def)
  have h: "server_handle (s\<lparr>sv_receiver := r, sv_handled := h\<rparr>) ?p t =
      Some (0x74 # ?d, ?f\<lparr>sv_receiver := r, sv_handled := h\<rparr>)" for r h t
    using download_handled(1) [OF _ _ z, of "s\<lparr>sv_receiver := r, sv_handled := h\<rparr>" t] s k
    by (simp add: erased_def opened_def)
  have a: "final_answer ?p (0x74 # ?d) True ?d"
    by (auto simp: final_answer_def kPositiveResponseOffset_def intro: exI [of _ SvcRequestDownload])
  have ld: "loading cli_server_config img 0 1 ?f"
    using s k l cli_flash by (simp add: loading_def erased_def)
  show ?thesis
  proof (rule answer_step [OF b _ _ not_suppressed(2) i h a])
    fix k c' s' t
    assume "step (client_request c ?p (tick i)) s (tick i) = Some (True, c', s', tick (i + k))" "k \<le> length ?p + 104"
      "between c' s'" "same_but ?f s'"
    then show ?thesis using that same_but_loading [OF _ ld] unfolding requested_range(1) by simp
  qed (use k in simp_all)
qed

text \<open>An image larger than the flash is turned down.\<close>

lemma download_refused:
  assumes b: "between c s" and s: "erased s" and l: "65536 < length img" "length img < 2 ^ 32" and i: "i + 5000 \<le> 2000000"
  obtains k c' s' where "step (request_download c 0x08000000 (of_nat (length img)) 4 4 (tick i)) s (tick i) =
      Some (False, c', s', tick (i + k))" "sv_flash s' = sv_flash s" "sv_download_active s' = sv_download_active s"
proof -
  let ?z = "of_nat (length img) :: u32"
  let ?p = "0x34 # [0x00, 0x44] @ push_be [] 0x08000000 4 @ push_be [] ?z 4"
  let ?f = "s\<lparr>sv_download_address := 0x08000000, sv_download_size := ?z\<rparr>"
  have z: "unat ?z > 65536" using l by (simp add: unat_of_nat)
  have k: "sv_config s = cli_server_config" using b by (simp add: between_def)
  have h: "server_handle (s\<lparr>sv_receiver := r, sv_handled := h\<rparr>) ?p t =
      Some (negative 0x34 NrcRequestOutOfRange, ?f\<lparr>sv_receiver := r, sv_handled := h\<rparr>)" for r h t
    using download_handled(2) [OF _ _ z, of "s\<lparr>sv_receiver := r, sv_handled := h\<rparr>" t] s k
    by (simp add: erased_def opened_def)
  have a: "final_answer ?p (negative 0x34 NrcRequestOutOfRange) False []"
    unfolding final_answer_def if_False by (intro conjI exI [of _ NrcRequestOutOfRange]) (simp_all add: negative_def)
  show ?thesis
  proof (rule answer_step [OF b _ _ not_suppressed(2) i h a])
    fix k c' s' t
    assume "step (client_request c ?p (tick i)) s (tick i) = Some (False, c', s', tick (i + k))" "same_but ?f s'"
    then show ?thesis using that same_but_simps(6,7) [of ?f s'] unfolding requested_range(1) by simp
  qed (use k in simp_all)
qed

subsection \<open>Transferring the image\<close>

lemma transfer_step:
  assumes b: "between c s" and l: "loading cli_server_config img off blk s" and n: "n = min 256 (length img - off)"
    and i: "i + 5000 \<le> 2000000"
  obtains k c' s' where "step (transfer_data c blk (take n (drop off img)) (tick i)) s (tick i) =
      Some (True, c', s', tick (i + k))" "k \<le> n + 106" "between c' s'"
    "loading cli_server_config img (off + n) (if blk + 1 = 0 then 1 else blk + 1) s'"
proof -
  let ?x = "take n (drop off img)"
  let ?p = "0x36 # blk # ?x"
  let ?f = "\<lambda>s. s\<lparr>sv_flash := take off (sv_flash s) @ take n (drop off img) @ drop (off + n) (sv_flash s),
      sv_download_written := sv_download_written s + of_nat n,
      sv_expected_block := (if blk + 1 = 0 then 1 else blk + 1)\<rparr>"
  have r: "transfer_data c blk ?x (tick i) = client_request c ?p (tick i)" by (simp add: transfer_data_def)
  have k: "sv_config s = cli_server_config" using b by (simp add: between_def)
  have "positive ?p [blk] = 0x76 # [blk]" by (simp add: positive_def kPositiveResponseOffset_def)
  then have h: "server_handle (s\<lparr>sv_receiver := r, sv_handled := h\<rparr>) ?p t =
      Some (0x76 # [blk], (?f s)\<lparr>sv_receiver := r, sv_handled := h\<rparr>)" for r h t
    using transfer_written(2) [OF _ n refl, of cli_server_config blk "s\<lparr>sv_receiver := r, sv_handled := h\<rparr>" t] l cli_flash(3)
    unfolding dispatch by (simp add: loading_def)
  have a: "final_answer ?p (0x76 # [blk]) True [blk]"
    by (auto simp: final_answer_def kPositiveResponseOffset_def intro: exI [of _ SvcTransferData])
  have len: "length ?p \<le> 258" "length ?p \<le> n + 2" using n by simp_all
  note ld = transfer_written(1) [OF l n refl]
  show ?thesis
  proof (rule answer_step [OF b _ len(1) not_suppressed(1) i h a])
    fix k c' s' t
    assume "step (client_request c ?p (tick i)) s (tick i) = Some (True, c', s', tick (i + k))" "k \<le> length ?p + 104"
      "between c' s'" "same_but (?f s) s'"
    then show ?thesis using that same_but_loading [OF _ ld] len(2) unfolding r by simp
  qed (use k in simp_all)
qed

lemma transfer_blocks_loads:
  assumes "between c s" and "loading cli_server_config img off blk s"
    and "i + 2 * (length img - off) + (if off < length img then 106 else 0) + 5000 \<le> 2000000"
  shows "\<exists>k c' s' blk'. transfer_blocks img blk off c s (tick i) = Some (True, c', s', tick (i + k)) \<and> between c' s' \<and>
    loading cli_server_config img (length img) blk' s' \<and> k \<le> 2 * (length img - off) + (if off < length img then 106 else 0)"
  using assms
proof (induction "length img - off" arbitrary: blk off c s i rule: less_induct)
  case less
  show ?case
  proof (cases "off < length img")
    case False
    then have "off = length img" using less.prems(2) by (simp add: loading_def)
    then show ?thesis using less.prems(1,2) by (intro exI [of _ 0] exI [of _ c] exI [of _ s] exI [of _ blk]) (simp add: transfer_blocks.simps)
  next
    case True
    define n where "n = min 256 (length img - off)"
    have "i + 5000 \<le> 2000000" using less.prems(3) by simp
    then obtain k c' s' where e: "step (transfer_data c blk (take n (drop off img)) (tick i)) s (tick i) =
        Some (True, c', s', tick (i + k))" "k \<le> n + 106" "between c' s'"
        "loading cli_server_config img (off + n) (if blk + 1 = 0 then 1 else blk + 1) s'"
      by (rule transfer_step [OF less.prems(1,2) n_def])
    define m where "m = (if blk + 1 = 0 then 1 else blk + 1)"
    have u: "transfer_blocks img blk off c s (tick i) = transfer_blocks img m (off + n) c' s' (tick (i + k))"
      using True e(1) by (subst transfer_blocks.simps) (simp add: Let_def n_def m_def)
    have d: "length img - (off + n) < length img - off" "i + k + 2 * (length img - (off + n)) + (if off + n < length img then 106 else 0) + 5000 \<le> 2000000"
      using True e(2) less.prems(3) by (auto simp: n_def min_def split: if_splits)
    from less.hyps [OF d(1) e(3) e(4) [folded m_def] d(2)] obtain k' c'' s'' blk' where f:
      "transfer_blocks img m (off + n) c' s' (tick (i + k)) = Some (True, c'', s'', tick (i + k + k'))" "between c'' s''"
      "loading cli_server_config img (length img) blk' s''"
      "k' \<le> 2 * (length img - (off + n)) + (if off + n < length img then 106 else 0)" by blast
    have "k + k' \<le> 2 * (length img - off) + 106" using e(2) f(4) True by (auto simp: n_def min_def split: if_splits)
    then show ?thesis using f(1-3) True u
      by (intro exI [of _ "k + k'"] exI [of _ c''] exI [of _ s''] exI [of _ blk']) (simp add: add.assoc)
  qed
qed

subsection \<open>Closing and verifying\<close>

definition loaded :: "bytes \<Rightarrow> uds_server \<Rightarrow> bool" where
  "loaded img s \<longleftrightarrow> sv_flash s = img @ replicate (65536 - length img) 0xFF \<and> unat (sv_download_written s) = length img \<and>
     sv_download_complete s \<and> \<not> sv_download_active s"

lemma same_but_loaded: "same_but s s' \<Longrightarrow> loaded img s \<Longrightarrow> loaded img s'"
  by (auto simp: same_but_def loaded_def)

lemma exit_step:
  assumes b: "between c s" and l: "loading cli_server_config img (length img) blk s" and i: "i + 5000 \<le> 2000000"
  obtains k c' s' where "step (request_transfer_exit c (tick i)) s (tick i) = Some (True, c', s', tick (i + k))"
    "k \<le> 400" "between c' s'" "loaded img s'"
proof -
  let ?p = "[0x37] :: bytes" and ?f = "s\<lparr>sv_download_active := False, sv_download_complete := True\<rparr>"
  have r: "request_transfer_exit c (tick i) = client_request c ?p (tick i)" by (simp add: request_transfer_exit_def)
  have k: "sv_config s = cli_server_config" using b by (simp add: between_def)
  have h: "server_handle (s\<lparr>sv_receiver := r, sv_handled := h\<rparr>) ?p t =
      Some (0x77 # [], ?f\<lparr>sv_receiver := r, sv_handled := h\<rparr>)" for r h t
    using l unfolding dispatch by (simp add: sv_transfer_exit_def loading_def positive_def kPositiveResponseOffset_def)
  have a: "final_answer ?p (0x77 # []) True []"
    by (auto simp: final_answer_def kPositiveResponseOffset_def intro: exI [of _ SvcRequestTransferExit])
  have ld: "loaded img ?f"
    using l cli_flash(2) unat_of_nat_size [of "length img" "svc_flash_size cli_server_config"]
    by (simp add: loading_def loaded_def)
  show ?thesis
  proof (rule answer_step [OF b _ _ not_suppressed(3) i h a])
    fix k c' s' t
    assume "step (client_request c ?p (tick i)) s (tick i) = Some (True, c', s', tick (i + k))" "k \<le> length ?p + 104"
      "between c' s'" "same_but ?f s'"
    then show ?thesis using that same_but_loaded [OF _ ld] unfolding r by simp
  qed (use k in simp_all)
qed

lemma verify_step:
  assumes b: "between c s" and l: "loaded img s" and i: "i + 5000 \<le> 2000000"
  obtains k c' s' where "step (routine_control c RcStartRoutine 0xFF01 [] (tick i)) s (tick i) =
      Some (True, c', s', tick (i + k))" "loaded img s'"
    "big_endian_from 3 7 (rsp_data (cl_response c')) = foldl (\<lambda>v b. v + ucast b) 0 img"
proof -
  let ?sum = "foldl (\<lambda>v b. v + ucast b) 0 img :: u32" and ?p = "[0x31, 0x01, 0xFF, 0x01] :: bytes"
  let ?d = "push_be (push_be [1] 0xFF01 2) ?sum 4"
  have f: "flash_sum (sv_flash s) (unat (sv_download_written s)) = Some ?sum"
    using l by (simp add: flash_sum_def sum_as_fold loaded_def)
  have u: "\<not> suppressed ?p" "sub_of ?p = 1" by (simp_all add: suppressed_def sub_of_def kSuppressPositiveResponse_def)
  have h: "server_handle (s\<lparr>sv_receiver := r, sv_handled := h\<rparr>) ?p t =
      Some (0x71 # ?d, s\<lparr>sv_receiver := r, sv_handled := h\<rparr>)" for r h t
    unfolding dispatch sv_routine_control_def Let_def routine_number u(2) using u(1) f
    by (simp add: positive_def kPositiveResponseOffset_def)
  have a: "final_answer ?p (0x71 # ?d) True ?d"
    by (auto simp: final_answer_def kPositiveResponseOffset_def intro: exI [of _ SvcRoutineControl])
  have e: "big_endian_from 3 7 ?d = ?sum"
    using big_endian_push [of "push_be [1] 0xFF01 2" 3 7 ?sum] by (simp add: push_be_append [of "push_be _ _ _"])
  show ?thesis
  proof (rule answer_step [OF b _ _ u(1) i h a])
    fix k c' s' t
    assume "step (client_request c ?p (tick i)) s (tick i) = Some (True, c', s', tick (i + k))" "same_but s s'"
      "True \<Longrightarrow> rsp_data (cl_response c') = ?d"
    then show ?thesis using that same_but_loaded [OF _ l] e unfolding routine_request by simp
  qed (use b in \<open>simp_all add: between_def\<close>)
qed

subsection \<open>The command as a whole\<close>

lemma flash_image_runs:
  assumes b: "between c s" and s: "opened s" and l: "length img \<le> 65536" and i: "i \<le> 10000"
  shows "\<exists>c' s'. flash_image img c s (tick i) = Some (0, c', s') \<and> loaded img s'"
proof -
  have "i + 40000 \<le> 2000000" using i by simp
  then obtain k1 c1 s1 where 1: "step (routine_control c RcStartRoutine 0xFF00 [] (tick i)) s (tick i) =
      Some (True, c1, s1, tick (i + k1))" "k1 \<le> 1600" "between c1 s1" "erased s1" by (rule erase_step [OF b s])
  let ?i = "i + k1"
  have "?i + 5000 \<le> 2000000" using i 1(2) by simp
  then obtain k2 c2 s2 where 2: "step (request_download c1 0x08000000 (of_nat (length img)) 4 4 (tick ?i)) s1 (tick ?i) =
      Some (True, c2, s2, tick (?i + k2))" "k2 \<le> 400" "between c2 s2" "loading cli_server_config img 0 1 s2"
    by (rule download_step [OF 1(3,4) l])
  let ?j = "?i + k2"
  have "?j + 2 * (length img - 0) + (if 0 < length img then 106 else 0) + 5000 \<le> 2000000" using i 1(2) 2(2) l by simp
  from transfer_blocks_loads [OF 2(3,4) this] obtain k3 c3 s3 blk where
    3: "transfer_blocks img 1 0 c2 s2 (tick ?j) = Some (True, c3, s3, tick (?j + k3))" "between c3 s3"
      "loading cli_server_config img (length img) blk s3" "k3 \<le> 2 * (length img - 0) + (if 0 < length img then 106 else 0)"
    by blast
  let ?l = "?j + k3"
  have k3: "k3 \<le> 131178" using 3(4) l by (simp split: if_splits)
  then have "?l + 5000 \<le> 2000000" using i 1(2) 2(2) by simp
  then obtain k4 c4 s4 where 4: "step (request_transfer_exit c3 (tick ?l)) s3 (tick ?l) = Some (True, c4, s4, tick (?l + k4))"
    "k4 \<le> 400" "between c4 s4" "loaded img s4" by (rule exit_step [OF 3(2,3)])
  let ?m = "?l + k4"
  have "?m + 5000 \<le> 2000000" using i 1(2) 2(2) k3 4(2) by simp
  then obtain k5 c5 s5 where 5: "step (routine_control c4 RcStartRoutine 0xFF01 [] (tick ?m)) s4 (tick ?m) =
      Some (True, c5, s5, tick (?m + k5))" "loaded img s5"
      "big_endian_from 3 7 (rsp_data (cl_response c5)) = foldl (\<lambda>v b. v + ucast b) 0 img"
    by (rule verify_step [OF 4(3,4)])
  show ?thesis unfolding flash_image_def or_exit_def Let_def
    by (simp add: 1(1) 2(1) 3(1) 4(1) 5 del: transfer_blocks.simps)
qed

lemma flash_image_refused:
  assumes b: "between c s" and s: "opened s" and l: "65536 < length img" "length img < 2 ^ 32" and i: "i \<le> 10000"
  shows "\<exists>c' s'. flash_image img c s (tick i) = Some (1, c', s') \<and> sv_flash s' = replicate 65536 0xFF"
proof -
  have "i + 40000 \<le> 2000000" using i by simp
  then obtain k1 c1 s1 where 1: "step (routine_control c RcStartRoutine 0xFF00 [] (tick i)) s (tick i) =
      Some (True, c1, s1, tick (i + k1))" "k1 \<le> 1600" "between c1 s1" "erased s1" by (rule erase_step [OF b s])
  have "i + k1 + 5000 \<le> 2000000" using i 1(2) by simp
  then obtain k2 c2 s2 where 2: "step (request_download c1 0x08000000 (of_nat (length img)) 4 4 (tick (i + k1))) s1
      (tick (i + k1)) = Some (False, c2, s2, tick (i + k1 + k2))" "sv_flash s2 = sv_flash s1"
    by (rule download_refused [OF 1(3,4) l])
  show ?thesis using 2(2) 1(4) unfolding flash_image_def or_exit_def Let_def
    by (simp add: 1(1) 2(1) erased_def del: transfer_blocks.simps)
qed

lemma command_reads:
  "\<exists>i c s. command_uds True (Some (Some img)) = flash_image img c s (tick i) \<and> i \<le> 10000 \<and> between c s \<and> opened s"
proof -
  have "between cli_client cli_server"
    using wf_new_receiver [of server_transport]
    by (simp add: between_def ready_def cli_client_def cli_server_def new_client_def new_server_def client_busy_def
        default_client_config_def cli_config idle_def) (simp add: new_receiver_def)
  moreover have "0 + 5000 \<le> (2000000 :: nat)" by simp
  ultimately obtain k1 c1 s1 where 1: "step (read_data_by_identifier cli_client 0xF190 (tick 0)) cli_server (tick 0) =
      Some (True, c1, s1, tick (0 + k1))" "k1 \<le> 400" "between c1 s1" "same_but cli_server s1" by (rule vin_step)
  note s1 = same_but_simps [OF 1(4)]
  have "sv_dtcs s1 = svc_dtcs cli_server_config" "k1 + 5000 \<le> 2000000"
    using s1(9) 1(2) by (simp_all add: cli_server_def new_server_def)
  then obtain k2 c2 s2 where 2: "step (read_dtc_information c1 DtrReportDtcByStatusMask 0xFF (tick k1)) s1 (tick k1) =
      Some (True, c2, s2, tick (k1 + k2))" "k2 \<le> 400" "between c2 s2" "same_but s1 s2" by (rule dtc_step [OF 1(3)])
  have fl: "length (sv_flash s2) = 65536" "k1 + k2 + 8000 \<le> 2000000"
    using same_but_simps(6) [OF 2(4)] s1(6) 1(2) 2(2) by (simp_all add: cli_server_def new_server_def cli_flash(2))
  obtain k3 c3 s3 where 3: "flash_unlock c2 s2 (tick (k1 + k2)) (flash_image img) = flash_image img c3 s3 (tick (k1 + k2 + k3))"
    "k3 \<le> 1200" "between c3 s3" "opened s3" by (rule unlock_runs [OF 2(3) fl(2,1)])
  have "command_uds True (Some (Some img)) = flash_image img c3 s3 (tick (k1 + k2 + k3))"
    using 1(1) by (simp add: command_uds_def or_exit_def 2(1) 3(1))
  then show ?thesis using 1(2) 2(2) 3(2-4) by (intro exI [of _ "k1 + k2 + k3"] exI [of _ c3] exI [of _ s3]) simp
qed

text \<open>C4. The flash sequence of the command does its job, frame by frame: the command with the configurations it sets up,
  its pump, flow control, the P2 and P2* deadlines, an erase of 300 ms that outlasts P2, and a block counter that wraps
  from 255 to 1. Every firmware image that fits the 64 KiB of the simulated server ends up in its flash with erased bytes
  after it, the download is closed, and the command returns 0, which it does only when every step was answered
  positively in time and the reported checksum is the one of the image. An image that does not fit, and whose size
  fits the 32 bits of the request, is refused with exit code 1, and the flash is left erased. The program aborts in
  neither case.\<close>

theorem uds_flash_download:
  assumes "length firmware < 2 ^ 32"
  shows "\<exists>c s. command_uds True (Some (Some firmware)) = Some (if length firmware \<le> 65536 then 0 else 1, c, s) \<and>
    (if length firmware \<le> 65536
     then sv_flash s = firmware @ replicate (65536 - length firmware) 0xFF \<and> sv_download_complete s \<and> \<not> sv_download_active s
     else sv_flash s = replicate 65536 0xFF)"
proof -
  obtain i c s where r: "command_uds True (Some (Some firmware)) = flash_image firmware c s (tick i)" "i \<le> 10000"
    "between c s" "opened s" using command_reads by blast
  show ?thesis
  proof (cases "length firmware \<le> 65536")
    case True
    from flash_image_runs [OF r(3,4) this r(2)] show ?thesis using True r(1) by (auto simp: loaded_def)
  next
    case False
    then have "65536 < length firmware" by simp
    from flash_image_refused [OF r(3,4) this assms r(2)] show ?thesis using False r(1) by simp
  qed
qed

theorem uds_flash_download_witness:
  "\<exists>c s. command_uds True (Some (Some [1, 2, 3])) = Some (0, c, s) \<and> sv_flash s = [1, 2, 3] @ replicate 65533 0xFF"
  using uds_flash_download [of "[1, 2, 3]"] by auto

end
