(* ===== verification/Spec2Isabelle.thy ===== *)
theory Spec2Isabelle
  imports Database_Laws DbcParser_Laws Decimal_Laws DbcWriter Simulator Vehicle_Laws Simulator_Laws LogReplay_Laws BlfLog_Laws IsoTp_Link Bus_Interface Inflate_Laws Uds_Flash
begin

text \<open>
  A verification library for canforge, a C++ toolkit for the CAN bus: frames and signal codecs
  (\<open>core/\<close>), the ISO 15765-2 transport (\<open>isotp/\<close>), buses and trace files (\<open>transport/\<close>), the ISO 14229
  diagnostic client (\<open>uds/\<close>), a simulator with a diagnostic server (\<open>sim/\<close>), DBC files (\<open>dbc/\<close>, over the
  lexer of \<open>text/\<close>), a terminal view (\<open>tui/\<close>) and a command line (\<open>cli/\<close>).

  How the parts meet. A \<open>CanId\<close> and a frame are the values every other part moves. A signal layout reads and
  writes a field of a payload, first as a raw word and then, in IEEE arithmetic, as a physical value; messages
  and the database collect signals by name. The lexer turns a text into tokens; the DBC parser builds a
  database from them and the writer prints one. A \<open>Sender\<close> and a \<open>Receiver\<close> turn a message into frames and
  back; the diagnostic client and the server each own one of either and are driven by \<open>on_frame\<close> and \<open>poll\<close>
  with an explicit time. The virtual medium arbitrates the frames of its participants and delivers them.
  Trace files hold frames with their times, a replay bus hands them out again, and Inflate decompresses the
  containers of binary ones. The simulator reads its configuration with the same lexer, drives a vehicle,
  samples signal sources, lets its nodes build frames with the codec, and sends them through the faults. The
  diagnostic command of the command line pumps frames between the client and the server.

  Conventions. A class is a record and each member function a function on it; a member function that
  changes its object returns it updated. \<open>Result<T>\<close> is the sum \<open>error + 'a\<close>. Machine integers are words
  and wrap; \<open>size_t\<close> values are \<open>nat\<close>. A call of \<open>value()\<close> on an error, which aborts the program, and a
  read outside a vector are the value \<open>None\<close>. Time is the \<open>u64\<close> nanosecond count of the code.

  Theories and what they hold:
  \<^item> \<open>Prelude\<close>: types, lists, words, the locales \<open>event_machine\<close> and \<open>absorbing_machine\<close> that lift what one
    call keeps to every sequence of calls.
  \<^item> \<open>Core_Result\<close>, \<open>Frame\<close> (\<open>core/Result.hpp\<close>, \<open>core/Frame.hpp\<close>): errors, identifiers, data length codes,
    frames and their factories; the arbitration order, exactness of \<open>make\<close>, \<open>from_wire\<close>.
  \<^item> \<open>Double\<close>: IEEE 754 doubles and singles as sign, mantissa and exponent; every operation is the exact result
    rounded once, and lemmas bound the error or state that there is none.
  \<^item> \<open>Codec\<close>, \<open>Codec_Bits\<close>, \<open>Codec_Laws\<close> (\<open>core/Signal.cpp\<close>): the word-at-a-time codec of both byte orders and the
    bit-at-a-time reference; their equivalence, the field laws, independence, bounds.
  \<^item> \<open>Signal\<close>, \<open>Signal_Laws\<close> (\<open>core/Signal\<close>, \<open>core/Attribute.hpp\<close>): raw and physical values, saturation, layout
    validation, value descriptions, attributes; the physical round trip.
  \<^item> \<open>Message\<close>, \<open>Database\<close>, \<open>Database_Laws\<close> (\<open>core/Message\<close>, \<open>core/Database\<close>): multiplexing, decoding and encoding of
    frames, validation, lookups, the linter; the frame round trip, what a silent linter means, active signals.
  \<^item> \<open>Diagnostic\<close>, \<open>Lexer\<close> (\<open>text/\<close>): diagnostics, their sink and rendering; normalisation and the scanner.
  \<^item> \<open>DbcParser\<close>, \<open>DbcParser_Laws\<close> (\<open>dbc/Parser\<close>): every section with its recovery, and \<open>load\<close>; a locale for what
    the operations keep, the soundness of every loaded database, the first error.
  \<^item> \<open>Decimal\<close>, \<open>Decimal_Laws\<close>, \<open>DbcWriter\<close> (\<open>dbc/Writer\<close>): numbers as decimal text, which is read back exactly, and
    every section of the writer.
  \<^item> \<open>IsoTp\<close>, \<open>IsoTp_Inv\<close>, \<open>IsoTp_Link\<close> (\<open>isotp/\<close>): sender and receiver, their invariants over every call sequence,
    and the two linked: integrity under any schedule, completion in \<open>2 * length m + 2\<close> rounds (a round
    sends at least one frame or one flow control, and a message has at most \<open>length m + 1\<close> frames).
  \<^item> \<open>Bus\<close>, \<open>Bus_Arbitration\<close>, \<open>Bus_Run\<close>, \<open>Bus_Refine\<close>, \<open>Bus_Interface\<close> (\<open>transport/IBus\<close>, \<open>transport/VirtualBus\<close>): timing, filters,
    the medium; refinement of an abstract arbitrated bus, the locale \<open>can_bus\<close> and its interpretation. The
    loops of \<open>advance\<close> and \<open>drain\<close> are recursions on the number of queued frames.
  \<^item> \<open>Inflate\<close>, \<open>Inflate_Bits\<close>, \<open>Inflate_Huffman\<close>, \<open>Inflate_Stream\<close>, \<open>Inflate_Blocks\<close>, \<open>Inflate_Laws\<close> (\<open>transport/Inflate.cpp\<close>): the
    decompressor; canonical codes, an abstract stream of blocks and tokens, the round trip, the limits.
  \<^item> \<open>LogFormat\<close>, \<open>LogFormat_Laws\<close>, \<open>LogFormat_Files\<close>, \<open>BlfLog\<close>, \<open>BlfLog_Laws\<close> (\<open>transport/LogFormat\<close>, \<open>transport/BlfLog\<close>): the
    candump and ASC formats in both directions and the BLF reader; the round trips, well-formed frames, and for BLF
    the reading of classic data frames through containers of either layout.
  \<^item> \<open>LogReplay\<close>, \<open>LogReplay_Laws\<close> (\<open>transport/LogReplayBus\<close>): the replay with its pacing; delivery in order.
  \<^item> \<open>Fmt\<close>, \<open>Uds\<close>, \<open>Uds_Laws\<close> (\<open>uds/\<close>): number formats, the client, its invariant, its bounded wait, the texts.
  \<^item> \<open>UdsServer\<close>, \<open>UdsServer_Laws\<close> (\<open>sim/UdsServer.cpp\<close>): the server; answers, the guard of the flash, the read
    outside it, the trouble code report.
  \<^item> \<open>Uds_Cli\<close>, \<open>Uds_Pump\<close>, \<open>Uds_Flash\<close> (\<open>cli/canforge.cpp\<close>, \<open>command_uds\<close>): the command with the pump that polls
    client and server in turn and exchanges their frames; what the rounds of the pump do with one request, its answer
    and a deferred answer, on top of the transfers of \<open>IsoTp_Link\<close>; the flash sequence from start to exit code. The
    bound of two million rounds is the code's own, and no request of the sequence needs more than 1,600 of them.
  \<^item> \<open>SignalSource\<close>, \<open>Source_Laws\<close> (\<open>sim/SignalSource\<close>): the value generators, over a \<open>maths\<close> record that stands
    for the standard's random numbers and sine; every source is a function of the simulated time.
  \<^item> \<open>Vehicle\<close>, \<open>Vehicle_Laws\<close> (\<open>sim/Vehicle\<close>): the plant in IEEE arithmetic; its loop ends and does not depend on
    how time is cut into steps (below \<open>2 ^ 53\<close> nanoseconds, where whole numbers are exact), the ranges.
  \<^item> \<open>Faults\<close>, \<open>Faults_Laws\<close> (\<open>sim/Faults\<close>): the injector; counting, faults that are off, the frozen signal.
  \<^item> \<open>Ecu\<close>, \<open>Ecu_Laws\<close> (\<open>sim/Ecu\<close>): nodes, counters and checksums, the schedule; the CRC, and what
    the counter and the checksum of a built frame are.
  \<^item> \<open>SourceText\<close>, \<open>SimConfig\<close> (\<open>sim/Config\<close>): source expressions and the configuration language, whose loops end
    because every section reads a token.
  \<^item> \<open>Simulator\<close>, \<open>Simulator_Laws\<close> (\<open>sim/Simulator\<close>): building from a configuration, resetting, the step and its
    release in time order; no frame is lost uncounted, and a reset simulator replays.

  Not modelled: system calls (SocketCAN, the steady clock), opening and writing files, drawing (the dashboard)
  and its view model, and the command line other than \<open>command_uds\<close>, of which what it prints is left out. A
  NaN is one value: its payload is not kept, and no multiplication is fused with an addition.
\<close>

end
